(* ===== verification/Prelude.thy ===== *)
theory Prelude
  imports Main "HOL-Library.Word" "HOL-Library.Monad_Syntax"
begin

text \<open>
  Shared vocabulary of the development: the machine types of the 32-bit little-endian MIPS
  target, the errno values the drivers return, C's conversions between \<open>int\<close> and
  \<open>unsigned int\<close>, byte-addressed memory with the block copy the drivers use, and the generic
  lemmas on lists, modular ring positions and words that the component theories share.
\<close>

unbundle bit_operations_syntax

section \<open>Machine types\<close>

type_synonym u8 = "8 word"
type_synonym u16 = "16 word"
type_synonym u32 = "32 word"
type_synonym u64 = "64 word"

text \<open>Byte-addressed memory; an address is a natural number.\<close>

type_synonym mem = "nat \<Rightarrow> u8"

text \<open>The errno values used by the drivers (\<open>include/asm-generic\<close> numbering).\<close>

abbreviation (input) EFAULT :: int where "EFAULT \<equiv> 14"
abbreviation (input) ENODEV :: int where "ENODEV \<equiv> 19"
abbreviation (input) EINVAL :: int where "EINVAL \<equiv> 22"
abbreviation (input) ENOMEM :: int where "ENOMEM \<equiv> 12"
abbreviation (input) ENOTTY :: int where "ENOTTY \<equiv> 25"
abbreviation (input) ERESTARTSYS :: int where "ERESTARTSYS \<equiv> 512"

section \<open>C conversions\<close>

text \<open>The value of a C \<open>int\<close> (or \<open>ssize_t\<close>) converted to a 32-bit unsigned type.\<close>

definition to_u32 :: "int \<Rightarrow> nat" where
  "to_u32 i = nat (i mod 2 ^ 32)"

text \<open>The value of an unsigned 32-bit quantity converted to a C \<open>int\<close> (two's complement).\<close>

definition to_s32 :: "int \<Rightarrow> int" where
  "to_s32 i = (i + 2 ^ 31) mod 2 ^ 32 - 2 ^ 31"

text \<open>C's \<open>/\<close> and \<open>%\<close> on signed operands truncate towards zero.\<close>

definition c_div :: "int \<Rightarrow> int \<Rightarrow> int" where
  "c_div a b = sgn a * sgn b * (\<bar>a\<bar> div \<bar>b\<bar>)"

definition c_mod :: "int \<Rightarrow> int \<Rightarrow> int" where
  "c_mod a b = a - c_div a b * b"

named_theorems conv_simps \<open>conversions that are the identity in range\<close>

lemma to_u32_small [conv_simps]: "0 \<le> i \<Longrightarrow> i < 2 ^ 32 \<Longrightarrow> to_u32 i = nat i"
  by (simp add: to_u32_def)

lemma to_u32_int [conv_simps]: "n < 2 ^ 32 \<Longrightarrow> to_u32 (int n) = n"
  by (simp add: to_u32_def)

lemma to_s32_small [conv_simps]: "- (2 ^ 31) \<le> i \<Longrightarrow> i < 2 ^ 31 \<Longrightarrow> to_s32 i = i"
  by (simp add: to_s32_def)

lemma c_div_nonneg [conv_simps]: "0 \<le> a \<Longrightarrow> 0 < b \<Longrightarrow> c_div a b = a div b"
  by (cases "a = 0") (simp_all add: c_div_def)

lemma c_mod_nonneg [conv_simps]: "0 \<le> a \<Longrightarrow> 0 < b \<Longrightarrow> c_mod a b = a mod b"
  by (simp add: c_mod_def c_div_nonneg minus_div_mult_eq_mod)

section \<open>Words\<close>

lemma unat_u8_lt [simp]: "unat (w :: u8) < 256"
proof -
  have "unat w < 2 ^ LENGTH(8)" by (rule unsigned_less)
  then show ?thesis by simp
qed

lemma unat_u32_lt [simp]: "unat (w :: u32) < 4294967296"
proof -
  have "unat w < 2 ^ LENGTH(32)" by (rule unsigned_less)
  then show ?thesis by simp
qed

lemma int_unat_of_int:
  "0 \<le> i \<Longrightarrow> i < 2 ^ LENGTH('a) \<Longrightarrow> int (unat (of_int i :: 'a::len word)) = i"
  by (simp add: unsigned_of_int take_bit_int_eq_self)

section \<open>Lists\<close>

lemma map_upt_append:
  "map f [0..<m + n] = map f [0..<m] @ map (\<lambda>k. f (m + k)) [0..<n]"
proof -
  have "[0..<m + n] = [0..<m] @ map (\<lambda>k. m + k) [0..<n]"
    by (rule nth_equalityI) (auto simp: nth_append)
  then show ?thesis by simp
qed

lemma map_upt_nth: "length xs = n \<Longrightarrow> map (\<lambda>k. xs ! k) [0..<n] = xs"
  using map_nth by auto

lemma take_map_upt: "n \<le> m \<Longrightarrow> take n (map f [0..<m]) = map f [0..<n]"
  by (simp add: take_map)

lemma drop_map_upt: "n \<le> m \<Longrightarrow> drop n (map f [0..<m]) = map (\<lambda>k. f (n + k)) [0..<m - n]"
  using map_upt_append [of f n "m - n"] by simp

section \<open>Positions in a ring\<close>

text \<open>
  The offset that follows position \<open>p\<close> by \<open>k\<close> in a ring of \<open>n\<close> slots, with the split at the
  end of the ring that every ring-buffer routine writes out.
\<close>

lemma ring_pos_lt: "(p::nat) < n \<Longrightarrow> k < n \<Longrightarrow> (p + k) mod n = (if p + k < n then p + k else p + k - n)"
  by (simp add: mod_if)

lemma ring_pos_inj:
  assumes "(p + j) mod n = (p + k) mod n" and "j < n" and "k < n"
  shows "j = (k::nat)"
proof -
  have "int j mod int n = int k mod int n"
    using assms(1) by (metis mod_diff_left_eq add_diff_cancel_left' of_nat_add of_nat_mod)
  then show ?thesis using assms(2,3) by simp
qed

lemma ring_pos_add: "((p + j) mod n + k) mod n = (p + (j + k)) mod (n::nat)"
  by (simp add: mod_add_left_eq add.assoc)

section \<open>Memory\<close>

text \<open>\<open>load m a n\<close> is the list of the \<open>n\<close> bytes at address \<open>a\<close>; \<open>store\<close> writes a list there.\<close>

definition load :: "mem \<Rightarrow> nat \<Rightarrow> nat \<Rightarrow> u8 list" where
  "load m a n = map (\<lambda>k. m (a + k)) [0..<n]"

definition store :: "nat \<Rightarrow> u8 list \<Rightarrow> mem \<Rightarrow> mem" where
  "store a bs m = (\<lambda>x. if a \<le> x \<and> x < a + length bs then bs ! (x - a) else m x)"

text \<open>The ranges of \<open>n\<close> bytes at \<open>a\<close> and of \<open>k\<close> bytes at \<open>b\<close> share no byte.\<close>

definition disjoint_ranges :: "nat \<Rightarrow> nat \<Rightarrow> nat \<Rightarrow> nat \<Rightarrow> bool" where
  "disjoint_ranges a n b k \<longleftrightarrow> a + n \<le> b \<or> b + k \<le> a"

lemma length_load [simp]: "length (load m a n) = n"
  by (simp add: load_def)

lemma load_0 [simp]: "load m a 0 = []"
  by (simp add: load_def)

lemma nth_load [simp]: "k < n \<Longrightarrow> load m a n ! k = m (a + k)"
  by (simp add: load_def)

lemma load_append: "load m a (n + k) = load m a n @ load m (a + n) k"
  by (simp add: load_def map_upt_append add.assoc)

lemma load_sub: "i + k \<le> n \<Longrightarrow> load m (a + i) k = take k (drop i (load m a n))"
  by (rule nth_equalityI) (auto simp: add.assoc)

lemma load_store_same: "load (store a bs m) a (length bs) = bs"
  by (rule nth_equalityI) (auto simp: store_def)

lemma load_store_disjoint:
  "disjoint_ranges a n b (length bs) \<Longrightarrow> load (store b bs m) a n = load m a n"
  by (rule nth_equalityI) (auto simp: store_def disjoint_ranges_def)

lemma store_outside: "x < a \<or> a + length bs \<le> x \<Longrightarrow> store a bs m x = m x"
  by (auto simp: store_def)

lemma store_inside: "k < length bs \<Longrightarrow> store a bs m (a + k) = bs ! k"
  by (simp add: store_def)

lemma store_Nil [simp]: "store a [] m = m"
  by (rule ext) (auto simp: store_def)

lemma store_append: "store a (xs @ ys) m = store (a + length xs) ys (store a xs m)"
  by (rule ext) (auto simp: store_def nth_append)

section \<open>Bytes of a ring in memory\<close>

text \<open>
  A ring of \<open>n\<close> bytes at address \<open>base\<close>: reading \<open>k\<close> bytes from offset \<open>p\<close> on, and writing a list
  from offset \<open>p\<close> on, both going round at the end.
\<close>

definition ring_load :: "nat \<Rightarrow> nat \<Rightarrow> nat \<Rightarrow> nat \<Rightarrow> mem \<Rightarrow> u8 list" where
  "ring_load n base p k m = map (\<lambda>j. m (base + (p + j) mod n)) [0..<k]"

definition ring_store :: "nat \<Rightarrow> nat \<Rightarrow> nat \<Rightarrow> u8 list \<Rightarrow> mem \<Rightarrow> mem" where
  "ring_store n base p bs m =
     (\<lambda>x. if base \<le> x \<and> x < base + n \<and> (x - base + n - p) mod n < length bs
          then bs ! ((x - base + n - p) mod n) else m x)"

lemma length_ring_load [simp]: "length (ring_load n base p k m) = k"
  by (simp add: ring_load_def)

lemma ring_load_0 [simp]: "ring_load n base p 0 m = []"
  by (simp add: ring_load_def)

lemma nth_ring_load [simp]: "j < k \<Longrightarrow> ring_load n base p k m ! j = m (base + (p + j) mod n)"
  by (simp add: ring_load_def)

lemma ring_load_append:
  "ring_load n base p (j + k) m = ring_load n base p j m @ ring_load n base ((p + j) mod n) k m"
  by (simp add: ring_load_def map_upt_append ring_pos_add)

lemma drop_ring_load:
  "j \<le> k \<Longrightarrow> drop j (ring_load n base p k m) = ring_load n base ((p + j) mod n) (k - j) m"
  using ring_load_append [of n base p j "k - j" m] by simp

lemma take_ring_load: "j \<le> k \<Longrightarrow> take j (ring_load n base p k m) = ring_load n base p j m"
  using ring_load_append [of n base p j "k - j" m] by simp

lemma ring_load_flat: "p + k \<le> n \<Longrightarrow> p < n \<Longrightarrow> ring_load n base p k m = load m (base + p) k"
  by (rule nth_equalityI) (auto simp: add.assoc)

lemma ring_load_wrap:
  assumes "p < n" "k \<le> n" "n \<le> p + k"
  shows "ring_load n base p k m = load m (base + p) (n - p) @ load m base (k - (n - p))"
proof -
  have "ring_load n base p (n - p + (k - (n - p))) m =
      ring_load n base p (n - p) m @ ring_load n base ((p + (n - p)) mod n) (k - (n - p)) m"
    by (rule ring_load_append)
  moreover have "(p + (n - p)) mod n = 0" using assms by simp
  ultimately show ?thesis using assms by (simp add: ring_load_flat)
qed

text \<open>Distance from offset \<open>p\<close> to offset \<open>q\<close> going up.\<close>

lemma ring_distance: "p < n \<Longrightarrow> q < n \<Longrightarrow> (q + n - p) mod n = (if p \<le> q then q - p else q + n - (p::nat))"
  by (simp add: mod_if)

lemma ring_store_hit:
  assumes "p < n" "j < length bs" "length bs \<le> n"
  shows "ring_store n base p bs m (base + (p + j) mod n) = bs ! j"
proof -
  have "((p + j) mod n + n - p) mod n = j"
    using assms by (auto simp: ring_pos_lt ring_distance)
  then show ?thesis using assms by (simp add: ring_store_def)
qed

lemma ring_store_miss:
  assumes "p < n" "length bs \<le> j" "j < n"
  shows "ring_store n base p bs m (base + (p + j) mod n) = m (base + (p + j) mod n)"
proof -
  have "((p + j) mod n + n - p) mod n = j"
    using assms by (auto simp: ring_pos_lt ring_distance)
  then show ?thesis using assms by (simp add: ring_store_def)
qed

lemma ring_store_at:
  assumes "p < n" "q < n"
  shows "ring_store n base p bs m (base + q) =
    (let j = (if p \<le> q then q - p else q + n - p) in if j < length bs then bs ! j else m (base + q))"
  using assms by (simp add: ring_store_def ring_distance Let_def)

lemma ring_store_outside: "x < base \<or> base + n \<le> x \<Longrightarrow> ring_store n base p bs m x = m x"
  by (auto simp: ring_store_def)

lemma ring_mem_eqI:
  assumes "\<And>q. q < n \<Longrightarrow> f (base + q) = g (base + q)"
    and "\<And>x. x < base \<or> base + n \<le> x \<Longrightarrow> f x = g (x::nat)"
  shows "f = g"
proof (rule ext)
  fix x
  show "f x = g x"
  proof (cases "x < base \<or> base + n \<le> x")
    case False
    then have "x = base + (x - base)" "x - base < n" by auto
    then show ?thesis using assms(1) [of "x - base"] by simp
  qed (rule assms(2))
qed

lemma ring_store_flat:
  assumes "p < n" "p + length bs \<le> n"
  shows "store (base + p) bs m = ring_store n base p bs m"
  by (rule ring_mem_eqI [where n = n and base = base])
    (use assms in \<open>auto simp: store_def ring_store_at ring_store_outside Let_def\<close>)

lemma ring_store_wrap:
  assumes "p < n" "length bs \<le> n" "n \<le> p + length bs"
  shows "store base (drop (n - p) bs) (store (base + p) (take (n - p) bs) m) = ring_store n base p bs m"
proof -
  have e: "n - p + q = q + n - p" for q using assms(1) by simp
  show ?thesis
    by (rule ring_mem_eqI [where n = n and base = base])
      (use assms in \<open>auto simp: store_def ring_store_at ring_store_outside Let_def e\<close>)
qed

text \<open>Appending behind \<open>u\<close> queued bytes keeps them and adds the new ones; the rest of the ring stays.\<close>

lemma ring_load_store_append:
  assumes "o' < n" "u + length bs + g \<le> n"
  shows "ring_load n base o' (u + length bs + g) (ring_store n base ((o' + u) mod n) bs m) =
    ring_load n base o' u m @ bs @ ring_load n base ((o' + u + length bs) mod n) g m"
proof (rule nth_equalityI)
  fix i assume i: "i < length (ring_load n base o' (u + length bs + g) (ring_store n base ((o' + u) mod n) bs m))"
  have n0: "0 < n" using assms(1) by simp
  have pos: "(o' + (u + j)) mod n = ((o' + u) mod n + j) mod n" for j
    by (simp add: ring_pos_add)
  consider "i < u" | j where "i = u + j" "j < length bs" | j where "i = u + length bs + j" "j < g"
    using i by (metis add_diff_inverse_nat add_less_cancel_left length_ring_load)
  then show "ring_load n base o' (u + length bs + g) (ring_store n base ((o' + u) mod n) bs m) ! i =
     (ring_load n base o' u m @ bs @ ring_load n base ((o' + u + length bs) mod n) g m) ! i"
  proof cases
    case 1
    have "(o' + i) mod n = ((o' + u) mod n + (n - u + i)) mod n"
    proof -
      have "((o' + u) mod n + (n - u + i)) mod n = (o' + (u + (n - u + i))) mod n"
        by (rule ring_pos_add)
      also have "u + (n - u + i) = i + n" using assms(2) by simp
      finally show ?thesis by (simp add: add.assoc [symmetric])
    qed
    then show ?thesis
      using 1 i assms n0 ring_store_miss [of "(o' + u) mod n" n bs "n - u + i" base m]
      by (simp add: nth_append)
  next
    case 2
    then show ?thesis
      using i assms n0 pos ring_store_hit [of "(o' + u) mod n" n j bs base m]
      by (simp add: nth_append add.assoc)
  next
    case 3
    then show ?thesis
      using i assms n0 pos [of "length bs + j"] ring_store_miss [of "(o' + u) mod n" n bs "length bs + j" base m]
      by (simp add: nth_append add.assoc ring_pos_add)
  qed
qed simp

section \<open>Words in memory\<close>

text \<open>The four bytes of a word in the memory of the little-endian target, and the byte swap behind \<open>htonl\<close> and \<open>ntohl\<close>.\<close>

definition le32 :: "u32 \<Rightarrow> u8 list" where
  "le32 w = [ucast w, ucast (drop_bit 8 w), ucast (drop_bit 16 w), ucast (drop_bit 24 w)]"

definition le32_of :: "u8 list \<Rightarrow> u32" where
  "le32_of bs = ucast (bs ! 0) OR push_bit 8 (ucast (bs ! 1)) OR push_bit 16 (ucast (bs ! 2)) OR push_bit 24 (ucast (bs ! 3))"

definition bswap32 :: "u32 \<Rightarrow> u32" where
  "bswap32 x = push_bit 24 (x AND 0x000000ff) OR push_bit 8 (x AND 0x0000ff00) OR
     drop_bit 8 (x AND 0x00ff0000) OR drop_bit 24 (x AND 0xff000000)"

lemma length_le32 [simp]: "length (le32 w) = 4"
  by (simp add: le32_def)

lemma le32_of_le32 [simp]: "le32_of (le32 w) = w"
proof (rule bit_word_eqI)
  fix n assume n: "n < LENGTH(32)"
  have "n < 8 \<or> (8 \<le> n \<and> n < 16) \<or> (16 \<le> n \<and> n < 24) \<or> (24 \<le> n \<and> n < 32)" using n by auto
  then show "bit (le32_of (le32 w)) n = bit w n"
    by (elim disjE) (auto simp: le32_of_def le32_def bit_simps)
qed

lemma le32_le32_of:
  assumes "length bs = 4" shows "le32 (le32_of bs) = bs"
proof -
  obtain a b c d where bs: "bs = [a, b, c, d]"
    using assms by (auto simp: length_Suc_conv numeral_eq_Suc)
  have "ucast (le32_of bs) = a" "ucast (drop_bit 8 (le32_of bs)) = b"
     "ucast (drop_bit 16 (le32_of bs)) = c" "ucast (drop_bit 24 (le32_of bs)) = d"
    by (rule bit_word_eqI; simp add: bs le32_of_def bit_simps; auto dest: bit_imp_le_length)+
  then show ?thesis by (simp add: le32_def bs)
qed

lemma bswap32_mask:
  "bswap32 x = push_bit 24 (x AND mask 8) OR push_bit 8 (x AND push_bit 8 (mask 8)) OR
     drop_bit 8 (x AND push_bit 16 (mask 8)) OR drop_bit 24 (x AND push_bit 24 (mask 8))"
  by (simp add: bswap32_def mask_eq_exp_minus_1 push_bit_eq_mult)

lemma le32_bswap: "le32 (bswap32 x) = rev (le32 x)"
proof -
  have "ucast (bswap32 x) = (ucast (drop_bit 24 x) :: u8)" "ucast (drop_bit 8 (bswap32 x)) = (ucast (drop_bit 16 x) :: u8)"
    "ucast (drop_bit 16 (bswap32 x)) = (ucast (drop_bit 8 x) :: u8)" "ucast (drop_bit 24 (bswap32 x)) = (ucast x :: u8)"
    unfolding bswap32_mask
    by (rule bit_word_eqI; simp only: bit_simps o_apply; auto simp: bit_simps dest: bit_imp_le_length)+
  then show ?thesis by (simp add: le32_def)
qed

lemma le32_of_rev: "length bs = 4 \<Longrightarrow> le32_of (rev bs) = bswap32 (le32_of bs)"
  by (metis le32_bswap le32_le32_of le32_of_le32)

lemma bswap32_bswap32 [simp]: "bswap32 (bswap32 x) = x"
  by (metis le32_bswap le32_of_le32 rev_rev_ident)

lemma length4_load_le32 [simp]: "le32 (le32_of (load m a 4)) = load m a 4"
  by (simp add: le32_le32_of)

text \<open>Reading and writing a 32-bit word at an address.\<close>

definition load32 :: "mem \<Rightarrow> nat \<Rightarrow> u32" where
  "load32 m a = le32_of (load m a 4)"

definition store32 :: "nat \<Rightarrow> u32 \<Rightarrow> mem \<Rightarrow> mem" where
  "store32 a w m = store a (le32 w) m"

lemma load32_store32_same [simp]: "load32 (store32 a w m) a = w"
  using load_store_same [of a "le32 w" m] by (simp add: load32_def store32_def)

lemma load32_store32_disjoint:
  "disjoint_ranges a 4 b 4 \<Longrightarrow> load32 (store32 b w m) a = load32 m a"
  by (simp add: load32_def store32_def load_store_disjoint)

end
