(* ===== verification/Rpc.thy ===== *)
theory Rpc
  imports Prelude
begin

text \<open>
  The inter-processor RPC rings (\<open>arch/mips/realtek-boards/drivers/RPCDriver.c\<close>,
  \<open>RPCpoll.c\<close>, \<open>RPCintr.c\<close>, \<open>RPCkern.c\<close>): three families of 512-byte rings in memory shared
  with the audio and video processors, with their read and write routines, the copy routine
  \<open>my_copy_user\<close>, the kernel RPC call and its reply thread, initialisation, and the interrupt
  handler. The routines of one family run under the device's semaphore, so each is one step on
  the state; what the other processor or a signal does between two steps is an argument.
  Addresses are natural numbers; \<open>rpc_ok\<close> keeps the pointers of a ring below \<open>2 ^ 32\<close>.
\<close>

section \<open>Copying\<close>

text \<open>\<open>my_copy_user\<close>: whole words first, then the remaining bytes; it always returns 0.\<close>

definition move32 :: "nat \<Rightarrow> nat \<Rightarrow> mem \<Rightarrow> mem" where
  "move32 des src m =
     m(des := m src, des + 1 := m (src + 1), des + 2 := m (src + 2), des + 3 := m (src + 3))"

function copy_words :: "nat \<Rightarrow> nat \<Rightarrow> int \<Rightarrow> mem \<Rightarrow> nat \<times> nat \<times> int \<times> mem" where
  "copy_words des src sz m =
     (if sz \<ge> 4 then copy_words (des + 4) (src + 4) (sz - 4) (move32 des src m)
      else (des, src, sz, m))"
  by pat_completeness auto
termination
  by (relation "measure (\<lambda>(des, src, sz, m). nat sz)") auto

function copy_bytes :: "nat \<Rightarrow> nat \<Rightarrow> nat \<Rightarrow> int \<Rightarrow> mem \<Rightarrow> mem" where
  "copy_bytes cdes csrc i sz m =
     (if int i < sz then copy_bytes cdes csrc (Suc i) sz (m(cdes + i := m (csrc + i))) else m)"
  by pat_completeness auto
termination
  by (relation "measure (\<lambda>(cdes, csrc, i, sz, m). nat (sz - int i))") auto

declare copy_words.simps [simp del] copy_bytes.simps [simp del]

definition my_copy_user :: "nat \<Rightarrow> nat \<Rightarrow> int \<Rightarrow> mem \<Rightarrow> int \<times> mem" where
  "my_copy_user des src sz m =
     (let (des, src, sz, m) = copy_words des src sz m in (0, copy_bytes des src 0 sz m))"

section \<open>Rings\<close>

abbreviation (input) RPC_RING_SIZE :: nat where "RPC_RING_SIZE \<equiv> 512"

record rpc_dev =
  ringBuf :: nat
  ringStart :: nat
  ringEnd :: nat
  ringIn :: nat
  ringOut :: nat

definition round4 :: "nat \<Rightarrow> nat" where
  "round4 n = unat ((of_nat n + 3 :: u32) AND 0xfffffffc)"

text \<open>
  The bytes queued, as the writers compute it, and as a reader that already knows the ring is not
  empty computes it.
\<close>

definition ring_used :: "rpc_dev \<Rightarrow> int" where
  "ring_used d =
     (if ringIn d > ringOut d then int (ringIn d) - int (ringOut d)
      else int RPC_RING_SIZE + int (ringIn d) - int (ringOut d))"

definition ring_fill :: "rpc_dev \<Rightarrow> int" where
  "ring_fill d = (if ringIn d = ringOut d then 0 else ring_used d)"

text \<open>
  The consuming half of the three read routines: clip the count to the bytes queued, copy in one
  or two pieces, advance \<open>ringOut\<close>.
\<close>

definition ring_take :: "nat \<Rightarrow> nat \<Rightarrow> mem \<times> rpc_dev \<Rightarrow> int \<times> mem \<times> rpc_dev" where
  "ring_take buf count s =
     (let (m, d) = s; temp = int (ringEnd d) - int (ringOut d)
      in if to_u32 temp \<ge> count then
           (let (rc, m) = my_copy_user buf (ringOut d) (to_s32 (int count)) m in
            if rc \<noteq> 0 then (- EFAULT, m, d)
            else let ptmp = ringOut d + round4 count
                 in (int count, m, d\<lparr>ringOut := (if ptmp = ringEnd d then ringStart d else ptmp)\<rparr>))
         else
           (let (rc, m) = my_copy_user buf (ringOut d) temp m in
            if rc \<noteq> 0 then (- EFAULT, m, d)
            else let count = count - to_u32 temp;
                     (rc, m) = my_copy_user (buf + to_u32 temp) (ringStart d) (to_s32 (int count)) m
                 in if rc \<noteq> 0 then (- EFAULT, m, d)
                    else (temp + int count, m, d\<lparr>ringOut := ringStart d + round4 count\<rparr>)))"

definition ring_consume :: "nat \<Rightarrow> nat \<Rightarrow> int \<Rightarrow> mem \<times> rpc_dev \<Rightarrow> int \<times> mem \<times> rpc_dev" where
  "ring_consume buf count sz s = ring_take buf (if count > to_u32 sz then to_u32 sz else count) s"

text \<open>
  The producing half of the three write routines: refuse when the free space is too small, else
  copy and advance \<open>ringIn\<close>. The flag says whether the copy was made, that is, whether control
  reached the code that notifies the other processor.
\<close>

definition ring_produce :: "nat \<Rightarrow> nat \<Rightarrow> mem \<times> rpc_dev \<Rightarrow> (int \<times> bool) \<times> mem \<times> rpc_dev" where
  "ring_produce buf count s =
     (let (m, d) = s; sz = ring_fill d
      in if count > to_u32 (int RPC_RING_SIZE - sz - 1) then ((0, False), m, d)
         else
           let temp = int (ringEnd d) - int (ringIn d)
           in if to_u32 temp \<ge> count then
                (let (rc, m) = my_copy_user (ringIn d) buf (to_s32 (int count)) m in
                 if rc \<noteq> 0 then ((- EFAULT, False), m, d)
                 else let ptmp = ringIn d + round4 count
                      in ((int count, True), m,
                          d\<lparr>ringIn := (if ptmp = ringEnd d then ringStart d else ptmp)\<rparr>))
              else
                (let (rc, m) = my_copy_user (ringIn d) buf temp m in
                 if rc \<noteq> 0 then ((- EFAULT, False), m, d)
                 else let count = count - to_u32 temp;
                          (rc, m) = my_copy_user (ringStart d) (buf + to_u32 temp) (to_s32 (int count)) m
                      in if rc \<noteq> 0 then ((- EFAULT, False), m, d)
                         else ((temp + int count, True), m,
                               d\<lparr>ringIn := ringStart d + round4 count\<rparr>)))"


section \<open>The driver's state\<close>

text \<open>
  The shared memory, the three device arrays, the blocking-read timeout of \<open>RPCintr.c\<close>, the
  \<open>is_init\<close> flag and the reply threads started by \<open>rpc_kern_init\<close>, and the log of the writes to
  device registers (address and value), oldest first.
\<close>

record rpc_sys =
  rmem :: mem
  rpc_poll_devices :: "rpc_dev list"
  rpc_intr_devices :: "rpc_dev list"
  rpc_kern_devices :: "rpc_dev list"
  timeout :: int
  is_init :: bool
  threads :: "nat list"
  reg_writes :: "(nat \<times> u32) list"

abbreviation (input) RPC_NR_DEVS :: nat where "RPC_NR_DEVS \<equiv> 8"
abbreviation (input) RPC_NR_PAIR :: nat where "RPC_NR_PAIR \<equiv> 2"
abbreviation (input) RPC_NR_KERN_DEVS :: nat where "RPC_NR_KERN_DEVS \<equiv> 4"
abbreviation (input) RPC_POLL_DEV_ADDR :: nat where "RPC_POLL_DEV_ADDR \<equiv> 0xa1ffe000"
abbreviation (input) RPC_INTR_DEV_ADDR :: nat where "RPC_INTR_DEV_ADDR \<equiv> 0xa1ffe200"
abbreviation (input) RPC_KERN_DEV_ADDR :: nat where "RPC_KERN_DEV_ADDR \<equiv> 0xa1fff200"
abbreviation (input) RPC_INT_REG :: nat where "RPC_INT_REG \<equiv> 0xb801a104"

definition writel :: "u32 \<Rightarrow> nat \<Rightarrow> rpc_sys \<Rightarrow> rpc_sys" where
  "writel v a s = s\<lparr>reg_writes := reg_writes s @ [(a, v)]\<rparr>"

text \<open>The pointers of a freshly initialised ring at address \<open>a\<close>.\<close>

definition ring_init :: "nat \<Rightarrow> rpc_dev" where
  "ring_init a = \<lparr>ringBuf = a, ringStart = a, ringEnd = a + RPC_RING_SIZE, ringIn = a, ringOut = a\<rparr>"

definition rpc_poll_init :: "rpc_sys \<Rightarrow> int \<times> rpc_sys" where
  "rpc_poll_init s =
     (0, s\<lparr>rpc_poll_devices :=
       map (\<lambda>i. ring_init (RPC_POLL_DEV_ADDR + i * RPC_RING_SIZE * 2)) [0..<RPC_NR_DEVS div RPC_NR_PAIR]\<rparr>)"

definition rpc_intr_init :: "rpc_sys \<Rightarrow> int \<times> rpc_sys" where
  "rpc_intr_init s =
     (0, s\<lparr>rpc_intr_devices :=
       map (\<lambda>i. ring_init (RPC_INTR_DEV_ADDR + i * RPC_RING_SIZE * 2)) [0..<RPC_NR_DEVS div RPC_NR_PAIR]\<rparr>)"

definition rpc_kern_init :: "rpc_sys \<Rightarrow> int \<times> rpc_sys" where
  "rpc_kern_init s =
     (0, s\<lparr>rpc_kern_devices :=
            map (\<lambda>i. ring_init (RPC_KERN_DEV_ADDR + i * RPC_RING_SIZE)) [0..<RPC_NR_KERN_DEVS],
          threads := (if is_init s then threads s
                      else threads s @ filter (\<lambda>i. i mod RPC_NR_PAIR = 1) [0..<RPC_NR_KERN_DEVS]),
          is_init := True\<rparr>)"

text \<open>
  Start-up, with the result \<open>reg\<close> of registering the character device, and the reset \<open>ioctl\<close>. A
  failure to get the interrupt line is only reported.
\<close>

definition RPC_init_module :: "int \<Rightarrow> rpc_sys \<Rightarrow> int \<times> rpc_sys" where
  "RPC_init_module reg s =
     (if reg < 0 then (reg, s) else
      let (r, s) = rpc_poll_init s in if r \<noteq> 0 then (r, s) else
      let (r, s) = rpc_intr_init s in if r \<noteq> 0 then (r, s) else
      let (r, s) = rpc_kern_init s in if r \<noteq> 0 then (r, s) else
      let s = writel 0x7 0xb801a108 s in
      (0, s\<lparr>rmem := store32 0xa00000d4 0xffffffff (store32 0xa00000d0 0xffffffff (rmem s))\<rparr>))"

definition rpc_ctrl_ioctl :: "bool \<Rightarrow> rpc_sys \<Rightarrow> int \<times> rpc_sys" where
  "rpc_ctrl_ioctl is_reset s =
     (if is_reset then
        let s = snd (rpc_poll_init s); s = snd (rpc_intr_init s); s = snd (rpc_kern_init s);
            s = writel 0x3e RPC_INT_REG s
        in (0, s\<lparr>rmem := store32 0xa00000d4 0xffffffff (store32 0xa00000d0 0xffffffff (rmem s))\<rparr>)
      else (0, s))"

datatype rpc_ioctl = RPC_IOCTTIMEOUT | RPC_IOCQTIMEOUT | RPC_IOCOTHER

definition rpc_intr_ioctl :: "rpc_ioctl \<Rightarrow> int \<Rightarrow> rpc_sys \<Rightarrow> int \<times> rpc_sys" where
  "rpc_intr_ioctl cmd arg s =
     (case cmd of
        RPC_IOCTTIMEOUT \<Rightarrow> (0, s\<lparr>timeout := to_s32 arg\<rparr>)
      | RPC_IOCQTIMEOUT \<Rightarrow> (timeout s, s)
      | RPC_IOCOTHER \<Rightarrow> (- ENOTTY, s))"

section \<open>Opening a device node\<close>

text \<open>
  The file operations a minor number selects, and what \<open>open\<close> leaves in the file object: the
  device (\<open>private_data\<close>, an index into the array of its family) and, for the interrupt rings,
  the minor number in \<open>f_pos\<close>.
\<close>

datatype rpc_fops = Poll_fops | Intr_fops | Ctrl_fops

record rpc_file =
  f_op :: rpc_fops
  private_data :: "nat option"
  f_pos :: nat

definition rpc_intr_open :: "nat \<Rightarrow> rpc_file \<Rightarrow> int \<times> rpc_file" where
  "rpc_intr_open minor filp =
     (0, if private_data filp = None
         then filp\<lparr>private_data := Some (minor div RPC_NR_PAIR), f_pos := minor\<rparr> else filp)"

definition rpc_poll_open :: "nat \<Rightarrow> rpc_file \<Rightarrow> int \<times> rpc_file" where
  "rpc_poll_open minor filp =
     (if minor = 100 then (0, filp\<lparr>f_op := Ctrl_fops\<rparr>)
      else if private_data filp = None \<and> minor mod RPC_NR_PAIR \<noteq> 0
           then rpc_intr_open minor (filp\<lparr>f_op := Intr_fops\<rparr>)
      else (0, if private_data filp = None
               then filp\<lparr>private_data := Some (minor div RPC_NR_PAIR)\<rparr> else filp))"

section \<open>Polled rings\<close>

text \<open>
  The flag \<open>sig\<close> says that \<open>down_interruptible\<close> was interrupted by a signal. The device is the
  one \<open>open\<close> stored in the file object.
\<close>

definition rpc_poll_read :: "bool \<Rightarrow> nat \<Rightarrow> nat \<Rightarrow> mem \<times> rpc_dev \<Rightarrow> int \<times> mem \<times> rpc_dev" where
  "rpc_poll_read sig buf count s =
     (if sig then (- ERESTARTSYS, s)
      else let (m, d) = s in
           if ringIn d = ringOut d then (0, s) else ring_consume buf count (ring_used d) s)"

definition rpc_poll_write :: "bool \<Rightarrow> nat \<Rightarrow> nat \<Rightarrow> mem \<times> rpc_dev \<Rightarrow> int \<times> mem \<times> rpc_dev" where
  "rpc_poll_write sig buf count s =
     (if sig then (- ERESTARTSYS, s)
      else let ((ret, _), s') = ring_produce buf count s in (ret, s'))"

section \<open>Interrupt-driven rings\<close>

text \<open>
  One return of \<open>wait_event_interruptible_timeout\<close>: its result, whether the task is then asked
  to freeze, whether a signal is pending, and the ring as the other processor left it.
\<close>

record rpc_wakeup =
  wait_ret :: int
  pf_freeze :: bool
  signal_pending :: bool
  wk_state :: "mem \<times> rpc_dev"

text \<open>
  The \<open>wait_again\<close> loop over the wake-ups in the order they come. \<open>None\<close> is a call that is still
  blocked; the flag says whether the loop falls through to the copy.
\<close>

fun rpc_intr_wait :: "rpc_wakeup list \<Rightarrow> (bool \<times> mem \<times> rpc_dev) option" where
  "rpc_intr_wait [] = None"
| "rpc_intr_wait (w # ws) =
     (if wait_ret w = 0 then Some (False, wk_state w)
      else if pf_freeze w \<and> \<not> signal_pending w then rpc_intr_wait ws
      else if signal_pending w then Some (False, wk_state w)
      else Some (True, wk_state w))"

definition rpc_intr_read ::
  "bool \<Rightarrow> bool \<Rightarrow> rpc_wakeup list \<Rightarrow> nat \<Rightarrow> nat \<Rightarrow> mem \<times> rpc_dev \<Rightarrow> (int \<times> mem \<times> rpc_dev) option" where
  "rpc_intr_read sig nonblock ws buf count s =
     (if sig then Some (- ERESTARTSYS, s)
      else let (m, d) = s in
           if ringIn d = ringOut d then
             if nonblock then Some (0, s)
             else case rpc_intr_wait ws of
                    None \<Rightarrow> None
                  | Some (False, s') \<Rightarrow> Some (0, s')
                  | Some (True, s') \<Rightarrow> Some (ring_consume buf count (ring_used (snd s')) s')
           else Some (ring_consume buf count (ring_used d) s))"

text \<open>The doorbell: which value the write routines put into the interrupt register.\<close>

definition rpc_intr_write ::
  "bool \<Rightarrow> nat \<Rightarrow> nat \<Rightarrow> nat \<Rightarrow> mem \<times> rpc_dev \<Rightarrow> int \<times> (nat \<times> u32) list \<times> mem \<times> rpc_dev" where
  "rpc_intr_write sig pos buf count s =
     (if sig then (- ERESTARTSYS, [], s)
      else let ((ret, copied), s') = ring_produce buf count s in
           (ret,
            if copied then
              (if pos = 1 then [(RPC_INT_REG, 0x3)] else if pos = 5 then [(RPC_INT_REG, 0x5)] else [])
            else [],
            s'))"

section \<open>Kernel rings, the RPC call and the reply thread\<close>

text \<open>\<open>opt\<close> is \<open>RPC_AUDIO\<close> (0) or \<open>RPC_VIDEO\<close> (1); \<open>None\<close> is an access beyond the device array.\<close>

definition rpc_kern_read :: "bool \<Rightarrow> nat \<Rightarrow> nat \<Rightarrow> nat \<Rightarrow> rpc_sys \<Rightarrow> (int \<times> rpc_sys) option" where
  "rpc_kern_read sig opt buf count s =
     (let i = opt * RPC_NR_KERN_DEVS div RPC_NR_PAIR + 1 in
      if i \<ge> length (rpc_kern_devices s) then None
      else if sig then Some (- ERESTARTSYS, s)
      else let d = rpc_kern_devices s ! i in
           if ringIn d = ringOut d then Some (0, s)
           else let (ret, m, d) = ring_consume buf count (ring_used d) (rmem s, d)
                in Some (ret, s\<lparr>rmem := m, rpc_kern_devices := (rpc_kern_devices s)[i := d]\<rparr>))"

definition rpc_kern_write :: "bool \<Rightarrow> nat \<Rightarrow> nat \<Rightarrow> nat \<Rightarrow> rpc_sys \<Rightarrow> (int \<times> rpc_sys) option" where
  "rpc_kern_write sig opt buf count s =
     (let i = opt * RPC_NR_KERN_DEVS div RPC_NR_PAIR in
      if i \<ge> length (rpc_kern_devices s) then None
      else if sig then Some (- ERESTARTSYS, s)
      else let d = rpc_kern_devices s ! i;
               ((ret, copied), m, d) = ring_produce buf count (rmem s, d);
               s = s\<lparr>rmem := m, rpc_kern_devices := (rpc_kern_devices s)[i := d]\<rparr>
           in Some (ret, if copied then
                           (if opt = 0 then writel 0x3 RPC_INT_REG s
                            else if opt = 1 then writel 0x5 RPC_INT_REG s else s)
                         else s))"

text \<open>
  The request: \<open>RPC_STRUCT\<close> and three parameters, each field through \<open>htonl\<close>. \<open>sync\<close> and
  \<open>retvalue\<close> are the addresses of the caller's variables.
\<close>

definition rpc_request :: "u32 \<Rightarrow> u32 \<Rightarrow> u32 \<Rightarrow> u32 \<Rightarrow> u32 \<Rightarrow> u32 list" where
  "rpc_request command param1 param2 sync retvalue =
     [bswap32 98, bswap32 98, 0, bswap32 sync, bswap32 (3 * 4), bswap32 retvalue,
      bswap32 command, bswap32 param1, bswap32 param2]"

text \<open>The wait for the reply: the memory as each \<open>msleep\<close> leaves it; \<open>None\<close> is a call still waiting.\<close>

fun rpc_sync_wait :: "nat \<Rightarrow> mem list \<Rightarrow> mem option" where
  "rpc_sync_wait sync [] = None"
| "rpc_sync_wait sync (m # ms) = (if load32 m sync = 0 then rpc_sync_wait sync ms else Some m)"

definition send_rpc_command ::
  "nat \<Rightarrow> u32 \<Rightarrow> u32 \<Rightarrow> u32 \<Rightarrow> nat \<Rightarrow> nat \<Rightarrow> nat \<Rightarrow> bool \<Rightarrow> (rpc_sys \<Rightarrow> mem list) \<Rightarrow> rpc_sys \<Rightarrow>
     (int \<times> rpc_sys) option" where
  "send_rpc_command opt command param1 param2 retvalue sendbuf sync sig later s =
     (let m = store32 sync 0 (rmem s);
          m = store sendbuf (concat (map le32 (rpc_request command param1 param2 (of_nat sync) (of_nat retvalue)))) m
      in do {
        (ret, s) \<leftarrow> rpc_kern_write sig opt sendbuf 36 (s\<lparr>rmem := m\<rparr>);
        if ret \<noteq> 36 then Some (- 1, s)
        else do {
          m \<leftarrow> rpc_sync_wait sync (rmem s # later s);
          Some (0, s\<lparr>rmem := m\<rparr>)
        }
      })"

text \<open>
  One turn of the reply thread \<open>p\<close> after the wait for a non-empty ring returned without a signal:
  read the eight words of a reply, store the result at the caller's \<open>retvalue\<close> and raise its
  \<open>sync\<close>; a short read is reported and skipped.
\<close>

definition rpc_kernel_thread :: "bool \<Rightarrow> nat \<Rightarrow> nat \<Rightarrow> rpc_sys \<Rightarrow> rpc_sys option" where
  "rpc_kernel_thread sig p readbuf s = do {
     (ret, s) \<leftarrow> rpc_kern_read sig (p div RPC_NR_PAIR) readbuf 32 s;
     if ret \<noteq> 32 then Some s
     else
       let m = rmem s;
           m = store32 (unat (bswap32 (load32 m (readbuf + 20)))) (bswap32 (load32 m (readbuf + 28))) m;
           m = store32 (unat (bswap32 (load32 m (readbuf + 24)))) 1 m
       in Some (s\<lparr>rmem := m\<rparr>)
   }"

section \<open>The interrupt handler\<close>

text \<open>
  \<open>rpc_isr\<close> over the values the interrupt register shows at each \<open>readl\<close>: the acknowledgements it
  writes and the rings whose readers it wakes, in order. \<open>None\<close> means that the given readings do
  not yet show the register clear.
\<close>

fun rpc_isr_loop :: "u32 list \<Rightarrow> (u32 list \<times> nat list) option" where
  "rpc_isr_loop [] = None"
| "rpc_isr_loop (itr # itrs) =
     (if itr AND 0x48 = 0 then Some ([], [])
      else do {
        (acks, wakes) \<leftarrow> rpc_isr_loop itrs;
        Some ((if itr AND 0x08 \<noteq> 0 then [0x08] else []) @ (if itr AND 0x40 \<noteq> 0 then [0x40] else []) @ acks,
              (if itr AND 0x08 \<noteq> 0 then [1] else []) @ (if itr AND 0x40 \<noteq> 0 then [3] else []) @ wakes)
      })"

definition rpc_isr :: "u32 list \<Rightarrow> (bool \<times> u32 list \<times> nat list) option" where
  "rpc_isr itrs = do {
     (acks, wakes) \<leftarrow> rpc_isr_loop itrs;
     Some (case itrs of itr # _ \<Rightarrow> itr AND 0x48 \<noteq> 0 | [] \<Rightarrow> False, acks, wakes)
   }"

section \<open>Invariant and abstraction\<close>

text \<open>
  A well-formed ring: 512 bytes below \<open>2 ^ 32\<close>, both pointers inside it and at multiples of four.
\<close>

definition rpc_ok :: "rpc_dev \<Rightarrow> bool" where
  "rpc_ok d \<longleftrightarrow> ringStart d = ringBuf d \<and> ringEnd d = ringStart d + RPC_RING_SIZE \<and>
     ringEnd d < 2 ^ 32 \<and>
     ringStart d \<le> ringIn d \<and> ringIn d < ringEnd d \<and> (ringIn d - ringStart d) mod 4 = 0 \<and>
     ringStart d \<le> ringOut d \<and> ringOut d < ringEnd d \<and> (ringOut d - ringStart d) mod 4 = 0"

definition off_in :: "rpc_dev \<Rightarrow> nat" where "off_in d = ringIn d - ringStart d"
definition off_out :: "rpc_dev \<Rightarrow> nat" where "off_out d = ringOut d - ringStart d"

text \<open>The abstraction: the bytes from \<open>ringOut\<close> up to \<open>ringIn\<close>, following the wrap.\<close>

definition rpc_contents :: "mem \<times> rpc_dev \<Rightarrow> u8 list" where
  "rpc_contents s = (let (m, d) = s in
     ring_load RPC_RING_SIZE (ringStart d) (off_out d) (nat (ring_fill d)) m)"

section \<open>The copy routine\<close>

lemma move32_store: "disjoint_ranges des 4 src 4 \<Longrightarrow> move32 des src m = store des (load m src 4) m"
proof (rule ext)
  fix x
  show "move32 des src m x = store des (load m src 4) m x"
  proof (cases "des \<le> x \<and> x < des + 4")
    case True
    then have "x = des \<or> x = des + 1 \<or> x = des + 2 \<or> x = des + 3" by auto
    then show ?thesis by (auto simp: move32_def store_def)
  next
    case False
    then show ?thesis by (auto simp: move32_def store_def)
  qed
qed

lemma load_store_beyond:
  "disjoint_ranges a (n + k) b (n + k) \<Longrightarrow> load (store a bs m) (b + n) k = load m (b + n) k"
  if "length bs = n"
  using that by (intro load_store_disjoint) (auto simp: disjoint_ranges_def)

lemma copy_words_eq:
  assumes "disjoint_ranges des n src n"
  shows "copy_words des src (int n) m =
    (des + 4 * (n div 4), src + 4 * (n div 4), int (n mod 4), store des (load m src (4 * (n div 4))) m)"
  using assms
proof (induction n arbitrary: des src m rule: less_induct)
  case (less n)
  show ?case
  proof (cases "4 \<le> n")
    case True
    define k where "k = n - 4"
    have n: "n = 4 + k" using True by (simp add: k_def)
    have q: "4 * ((4 + k) div 4) = 4 + 4 * (k div 4)" by presburger
    have dj: "disjoint_ranges (des + 4) k (src + 4) k" and dj4: "disjoint_ranges des 4 src 4"
      using less.prems by (auto simp: disjoint_ranges_def n)
    have ld: "load (store des (load m src 4) m) (src + 4) (4 * (k div 4)) = load m (src + 4) (4 * (k div 4))"
      using less.prems by (intro load_store_disjoint) (auto simp: disjoint_ranges_def n)
    have "copy_words des src (int n) m = copy_words (des + 4) (src + 4) (int k) (move32 des src m)"
      using True by (subst copy_words.simps) (simp add: n)
    also have "\<dots> = (des + 4 + 4 * (k div 4), src + 4 + 4 * (k div 4), int (k mod 4),
        store (des + 4) (load (move32 des src m) (src + 4) (4 * (k div 4))) (move32 des src m))"
      using less.IH [of k "des + 4" "src + 4"] dj n by simp
    also have "\<dots> = (des + 4 * (n div 4), src + 4 * (n div 4), int (n mod 4),
        store des (load m src (4 * (n div 4))) m)"
      using load_append [of m src 4 "4 * (k div 4)"]
      by (simp add: n q move32_store [OF dj4] ld store_append del: div_add_self1 mult_Suc_right)
    finally show ?thesis .
  next
    case False
    then show ?thesis by (subst copy_words.simps) simp
  qed
qed

lemma copy_bytes_eq:
  assumes "disjoint_ranges cdes n csrc n" "i \<le> n"
  shows "copy_bytes cdes csrc i (int n) m = store (cdes + i) (load m (csrc + i) (n - i)) m"
  using assms(2)
proof (induction "n - i" arbitrary: i m)
  case 0
  then show ?case by (subst copy_bytes.simps) simp
next
  case (Suc k)
  then have lt: "i < n" and k: "n - Suc i = k" by auto
  have one: "m(cdes + i := m (csrc + i)) = store (cdes + i) (load m (csrc + i) 1) m"
    by (rule ext) (auto simp: store_def)
  have ld: "load (store (cdes + i) (load m (csrc + i) 1) m) (csrc + i + 1) k = load m (csrc + i + 1) k"
    using assms(1) lt k by (intro load_store_disjoint) (auto simp: disjoint_ranges_def)
  have "copy_bytes cdes csrc i (int n) m = copy_bytes cdes csrc (Suc i) (int n) (m(cdes + i := m (csrc + i)))"
    using lt by (subst copy_bytes.simps) simp
  also have "\<dots> = store (cdes + Suc i) (load m (csrc + i + 1) k) (store (cdes + i) (load m (csrc + i) 1) m)"
    using Suc.hyps(1) [of "Suc i"] k lt ld by (simp add: one)
  also have "\<dots> = store (cdes + i) (load m (csrc + i) (1 + k)) m"
    by (simp only: load_append store_append length_load) simp
  finally show ?case using Suc.hyps(2) by simp
qed

text \<open>On disjoint ranges the word-then-byte copy is a plain block copy, and it never fails.\<close>

lemma my_copy_user_eq:
  assumes "disjoint_ranges des n src n"
  shows "my_copy_user des src (int n) m = (0, store des (load m src n) m)"
proof -
  define q where "q = 4 * (n div 4)"
  define r where "r = n mod 4"
  have n: "n = q + r" by (simp add: q_def r_def)
  have dj: "disjoint_ranges (des + q) r (src + q) r"
    using assms by (auto simp: disjoint_ranges_def n)
  have ld: "load (store des (load m src q) m) (src + q) r = load m (src + q) r"
    using assms by (intro load_store_disjoint) (auto simp: disjoint_ranges_def n)
  have "my_copy_user des src (int n) m = (0, copy_bytes (des + q) (src + q) 0 (int r) (store des (load m src q) m))"
    using copy_words_eq [OF assms] by (simp add: my_copy_user_def q_def r_def)
  also have "\<dots> = (0, store (des + q) (load m (src + q) r) (store des (load m src q) m))"
    using copy_bytes_eq [OF dj, of 0] by (simp add: ld)
  also have "\<dots> = (0, store des (load m src n) m)"
    by (simp add: n load_append store_append)
  finally show ?thesis .
qed

section \<open>Ring arithmetic\<close>

lemma round4_mask: "unat ((w :: u32) AND 0xfffffffc) = unat w div 4 * 4"
proof -
  have k: "(0xfffffffc :: u32) = NOT (mask 2)" by (simp add: mask_eq_exp_minus_1)
  have ss: "Suc (Suc (n - 2)) = n" if "2 \<le> n" for n :: nat using that by simp
  have e: "(w AND 0xfffffffc) = push_bit 2 (drop_bit 2 w)"
    unfolding k by (rule bit_word_eqI) (auto simp: bit_simps ss)
  have "unat (push_bit 2 (drop_bit 2 w)) = unat w div 4 * 4"
    using le_less_trans [OF div_times_less_eq_dividend unat_u32_lt [of w]]
    by (simp only: unsigned_push_bit_eq unsigned_drop_bit_eq)
      (simp add: push_bit_eq_mult drop_bit_eq_div take_bit_eq_mod unsigned_take_bit_eq)
  then show ?thesis using e by simp
qed

lemma round4_eq: "n + 3 < 2 ^ 32 \<Longrightarrow> round4 n = (n + 3) div 4 * 4"
  by (simp add: round4_def round4_mask unat_word_ariths unat_of_nat)

named_theorems rpc_facts \<open>arithmetic of a well-formed ring\<close>

lemma rpc_okD:
  assumes "rpc_ok d"
  shows "ringEnd d = ringStart d + 512" "ringStart d + 512 < 2 ^ 32"
    "ringIn d = ringStart d + off_in d" "ringOut d = ringStart d + off_out d"
    "off_in d < 512" "off_out d < 512" "off_in d mod 4 = 0" "off_out d mod 4 = 0"
  using assms by (auto simp: rpc_ok_def off_in_def off_out_def)

lemma ring_used_eq:
  assumes "rpc_ok d"
  shows "ring_used d = (if off_out d < off_in d then int (off_in d) - int (off_out d)
     else 512 + int (off_in d) - int (off_out d))"
  using rpc_okD [OF assms] by (simp add: ring_used_def)

lemma ring_fill_eq:
  assumes "rpc_ok d"
  shows "nat (ring_fill d) = (off_in d + 512 - off_out d) mod 512"
  using rpc_okD [OF assms]
  by (auto simp: ring_fill_def ring_used_eq [OF assms] ring_distance nat_diff_distrib)

lemma ring_fill_bounds:
  assumes "rpc_ok d"
  shows "0 \<le> ring_fill d" "ring_fill d \<le> 508" "nat (ring_fill d) mod 4 = 0"
    "off_in d = (off_out d + nat (ring_fill d)) mod 512"
proof -
  note f = rpc_okD [OF assms]
  obtain i where i: "off_in d = 4 * i" using f(7) by auto
  obtain j where j: "off_out d = 4 * j" using f(8) by auto
  show "0 \<le> ring_fill d" using f by (auto simp: ring_fill_def ring_used_eq [OF assms])
  have e: "nat (ring_fill d) = (if j \<le> i then 4 * (i - j) else 4 * (i + 128 - j))"
    using f i j by (auto simp: ring_fill_eq [OF assms] ring_distance)
  then show "nat (ring_fill d) mod 4 = 0" by simp
  show "ring_fill d \<le> 508" using e f(5,6) i j by (auto split: if_splits)
  show "off_in d = (off_out d + nat (ring_fill d)) mod 512"
    using e f(5,6) i j by (auto simp: mod_if)
qed

lemma round4_bounds:
  assumes "n \<le> 512"
  shows "n \<le> round4 n" "round4 n < n + 4" "round4 n mod 4 = 0" "n mod 4 = 0 \<Longrightarrow> round4 n = n"
  using assms by (auto simp: round4_eq)

lemma round4_shift: "k \<le> n \<Longrightarrow> k mod 4 = 0 \<Longrightarrow> n \<le> 512 \<Longrightarrow> round4 n = k + round4 (n - k)"
proof -
  assume a: "k \<le> n" "k mod 4 = 0" "n \<le> 512"
  obtain q where q: "k = 4 * q" using a(2) by auto
  obtain r where r: "n = k + r" using a(1) le_Suc_ex by blast
  show ?thesis using a by (simp add: round4_eq q r) presburger
qed

lemma round4_le: "n \<le> k \<Longrightarrow> k mod 4 = 0 \<Longrightarrow> k \<le> 512 \<Longrightarrow> round4 n \<le> k"
  using round4_bounds(2,3) [of n] by presburger

text \<open>The producer on a well-formed ring: one block copy into the ring, one pointer advance.\<close>

lemma ring_produce_refuses:
  assumes "rpc_ok d" "nat (ring_fill d) + count > 511"
  shows "ring_produce buf count (m, d) = ((0, False), m, d)"
  using assms ring_fill_bounds [OF assms(1)]
  by (auto simp: ring_produce_def conv_simps)

lemma ring_produce_spec:
  assumes ok: "rpc_ok d" and room: "nat (ring_fill d) + count \<le> 511"
    and dj: "disjoint_ranges buf count (ringStart d) 512"
  shows "ring_produce buf count (m, d) =
    ((int count, True), ring_store 512 (ringStart d) (off_in d) (load m buf count) m,
     d\<lparr>ringIn := ringStart d + (off_in d + round4 count) mod 512\<rparr>)"
proof -
  note f = rpc_okD [OF ok] and b = ring_fill_bounds [OF ok]
  have temp: "int (ringEnd d) - int (ringIn d) = int (512 - off_in d)" using f by simp
  have tu: "to_u32 (int (512 - off_in d)) = 512 - off_in d" by (simp add: conv_simps)
  have guard: "\<not> count > to_u32 (512 - ring_fill d - 1)"
    using room b by (auto simp: conv_simps)
  have t4: "(512 - off_in d) mod 4 = 0" using f(5,7) by presburger
  have sc: "to_s32 (int k) = int k" if "k \<le> count" for k
    using that room by (simp add: conv_simps)
  show ?thesis
  proof (cases "count \<le> 512 - off_in d")
    case True
    have cp: "my_copy_user (ringIn d) buf (int count) m = (0, store (ringIn d) (load m buf count) m)"
      using dj f True by (intro my_copy_user_eq) (auto simp: disjoint_ranges_def)
    have st: "store (ringIn d) (load m buf count) m = ring_store 512 (ringStart d) (off_in d) (load m buf count) m"
      using f True by (simp add: ring_store_flat)
    have "round4 count \<le> 512 - off_in d" using True t4 by (intro round4_le) auto
    then have ptr: "(if ringIn d + round4 count = ringEnd d then ringStart d else ringIn d + round4 count) =
        ringStart d + (off_in d + round4 count) mod 512"
      using f by (auto simp: mod_if)
    show ?thesis
      using True guard sc by (simp add: ring_produce_def temp tu cp st ptr Let_def)
  next
    case False
    define t where "t = 512 - off_in d"
    have t: "t < count" "t mod 4 = 0" "off_in d + t = 512" using False t4 f(5) by (auto simp: t_def)
    have cp1: "my_copy_user (ringIn d) buf (int t) m = (0, store (ringIn d) (load m buf t) m)"
      using dj f t by (intro my_copy_user_eq) (auto simp: disjoint_ranges_def)
    have ld: "load (store (ringIn d) (load m buf t) m) (buf + t) (count - t) = load m (buf + t) (count - t)"
      using dj f t by (intro load_store_disjoint) (auto simp: disjoint_ranges_def)
    have cp2: "my_copy_user (ringStart d) (buf + t) (int (count - t)) (store (ringIn d) (load m buf t) m) =
        (0, store (ringStart d) (load m (buf + t) (count - t)) (store (ringIn d) (load m buf t) m))"
      using dj t room b ld
      by (subst my_copy_user_eq) (auto simp: disjoint_ranges_def)
    have la: "load m buf count = load m buf t @ load m (buf + t) (count - t)"
      using load_append [of m buf t "count - t"] t by simp
    have st: "store (ringStart d) (load m (buf + t) (count - t)) (store (ringIn d) (load m buf t) m) =
        ring_store 512 (ringStart d) (off_in d) (load m buf count) m"
      using ring_store_wrap [of "off_in d" 512 "load m buf count" "ringStart d" m] f t room
      by (simp add: la t_def)
    have r4: "round4 count = t + round4 (count - t)" using t room by (intro round4_shift) auto
    have "round4 (count - t) \<le> off_in d"
      using room b t f(7) by (intro round4_le) auto
    then have small: "round4 (count - t) < 512" using f(5) by simp
    have "off_in d + round4 count = round4 (count - t) + 512" using t(3) by (simp add: r4)
    then have ptr: "(off_in d + round4 count) mod 512 = round4 (count - t)"
      using small by simp
    show ?thesis
      using False guard t cp1 cp2 st ptr sc [of "count - t"] tu temp
      by (simp add: ring_produce_def t_def [symmetric])
  qed
qed


text \<open>The consumer on a well-formed ring holding at least one byte.\<close>

lemma ring_take_spec:
  assumes ok: "rpc_ok d" and n512: "n \<le> 512"
    and dj: "disjoint_ranges buf n (ringStart d) 512"
  shows "ring_take buf n (m, d) =
    (int n, store buf (ring_load 512 (ringStart d) (off_out d) n m) m,
     d\<lparr>ringOut := ringStart d + (off_out d + round4 n) mod 512\<rparr>)"
proof -
  note f = rpc_okD [OF ok]
  have temp: "int (ringEnd d) - int (ringOut d) = int (512 - off_out d)" using f by simp
  have tu: "to_u32 (int (512 - off_out d)) = 512 - off_out d" by (simp add: conv_simps)
  have t4: "(512 - off_out d) mod 4 = 0" using f(6,8) by presburger
  have sc: "to_s32 (int k) = int k" if "k \<le> n" for k
    using that n512 by (simp add: conv_simps)
  show ?thesis
  proof (cases "n \<le> 512 - off_out d")
    case True
    have cp: "my_copy_user buf (ringOut d) (int n) m = (0, store buf (load m (ringOut d) n) m)"
      using dj f True by (intro my_copy_user_eq) (auto simp: disjoint_ranges_def)
    have ld: "load m (ringOut d) n = ring_load 512 (ringStart d) (off_out d) n m"
      using f True by (simp add: ring_load_flat)
    have "round4 n \<le> 512 - off_out d" using True t4 by (intro round4_le) auto
    then have ptr: "(if ringOut d + round4 n = ringEnd d then ringStart d else ringOut d + round4 n) =
        ringStart d + (off_out d + round4 n) mod 512"
      using f by (auto simp: mod_if)
    show ?thesis
      using True sc by (simp add: ring_take_def temp tu cp ld ptr Let_def)
  next
    case False
    define t where "t = 512 - off_out d"
    have t: "t < n" "t mod 4 = 0" "off_out d + t = 512" using False t4 f(6) by (auto simp: t_def)
    define m1 where "m1 = store buf (load m (ringOut d) t) m"
    have cp1: "my_copy_user buf (ringOut d) (int t) m = (0, m1)"
      unfolding m1_def using dj f t by (intro my_copy_user_eq) (auto simp: disjoint_ranges_def)
    have ld: "load m1 (ringStart d) (n - t) = load m (ringStart d) (n - t)"
      unfolding m1_def using dj f t n512 by (intro load_store_disjoint) (auto simp: disjoint_ranges_def)
    have cp2: "my_copy_user (buf + t) (ringStart d) (int (n - t)) m1 =
        (0, store (buf + t) (load m (ringStart d) (n - t)) m1)"
      using dj t n512 ld by (subst my_copy_user_eq) (auto simp: disjoint_ranges_def)
    have la: "ring_load 512 (ringStart d) (off_out d) n m = load m (ringOut d) t @ load m (ringStart d) (n - t)"
      using ring_load_wrap [of "off_out d" 512 n "ringStart d" m] f t n512 by (simp add: t_def)
    have r4: "round4 n = t + round4 (n - t)" using t n512 by (intro round4_shift) auto
    have "round4 (n - t) \<le> 512 - t" using t n512 by (intro round4_le) auto
    then have small: "round4 (n - t) < 512" using t f(6) by simp
    have "off_out d + round4 n = round4 (n - t) + 512" using t(3) by (simp add: r4)
    then have ptr: "(off_out d + round4 n) mod 512 = round4 (n - t)"
      using small by simp
    show ?thesis
      using False t cp1 cp2 ptr sc [of "n - t"] tu temp
      by (simp add: ring_take_def t_def [symmetric] la store_append m1_def [symmetric] Let_def)
  qed
qed

lemma ring_consume_spec:
  assumes "rpc_ok d" "sz \<le> 512" "disjoint_ranges buf (min count sz) (ringStart d) 512"
  shows "ring_consume buf count (int sz) (m, d) =
    (int (min count sz), store buf (ring_load 512 (ringStart d) (off_out d) (min count sz) m) m,
     d\<lparr>ringOut := ringStart d + (off_out d + round4 (min count sz)) mod 512\<rparr>)"
proof -
  have "to_u32 (int sz) = sz" using assms(2) by (simp add: conv_simps)
  moreover have "(if sz < count then sz else count) = min count sz" by simp
  ultimately show ?thesis
    using ring_take_spec [OF assms(1) _ assms(3), of m] assms(2) by (simp only: ring_consume_def)
qed

text \<open>Moving either pointer by a whole number of words keeps the ring well-formed.\<close>

lemma rpc_ok_in [simp]: "rpc_ok d \<Longrightarrow> p < 512 \<Longrightarrow> p mod 4 = 0 \<Longrightarrow> rpc_ok (d\<lparr>ringIn := ringStart d + p\<rparr>)"
  by (auto simp: rpc_ok_def)

lemma rpc_ok_out [simp]: "rpc_ok d \<Longrightarrow> p < 512 \<Longrightarrow> p mod 4 = 0 \<Longrightarrow> rpc_ok (d\<lparr>ringOut := ringStart d + p\<rparr>)"
  by (auto simp: rpc_ok_def)

lemma mod_512_4: "x mod 4 = 0 \<Longrightarrow> y mod 4 = 0 \<Longrightarrow> (x + y) mod 512 mod 4 = (0::nat)"
  using mod_add_eq [of x 4 y] by (simp add: mod_mod_cancel)

lemma ring_produce_ok:
  assumes "rpc_ok d" "disjoint_ranges buf count (ringStart d) 512"
  shows "rpc_ok (snd (snd (ring_produce buf count (m, d))))"
proof (cases "nat (ring_fill d) + count \<le> 511")
  case True
  have "round4 count mod 4 = 0" using True by (intro round4_bounds) simp
  then show ?thesis
    using assms rpc_okD [OF assms(1)] by (simp add: ring_produce_spec [OF assms(1) True assms(2)] mod_512_4)
qed (use assms in \<open>simp add: ring_produce_refuses\<close>)

lemma ring_consume_ok:
  assumes "rpc_ok d" "sz \<le> 512" "disjoint_ranges buf (min count sz) (ringStart d) 512"
  shows "rpc_ok (snd (snd (ring_consume buf count (int sz) (m, d))))"
proof -
  have "round4 (min count sz) mod 4 = 0" using assms(2) by (intro round4_bounds) simp
  then show ?thesis
    using assms rpc_okD [OF assms(1)] by (simp add: ring_consume_spec mod_512_4)
qed

text \<open>What the two pointer moves do to the number of bytes queued.\<close>

lemma ring_fill_in:
  assumes "rpc_ok d" "nat (ring_fill d) + k < 512" "k mod 4 = 0"
  shows "nat (ring_fill (d\<lparr>ringIn := ringStart d + (off_in d + k) mod 512\<rparr>)) = nat (ring_fill d) + k"
proof -
  let ?d = "d\<lparr>ringIn := ringStart d + (off_in d + k) mod 512\<rparr>"
  note f = rpc_okD [OF assms(1)] and b = ring_fill_bounds [OF assms(1)]
  have ok: "rpc_ok ?d" using assms(1,3) f by (simp add: mod_512_4)
  have o: "off_in ?d = (off_in d + k) mod 512" "off_out ?d = off_out d" by (simp_all add: off_in_def off_out_def)
  have "off_in ?d = (off_out d + (nat (ring_fill d) + k)) mod 512"
    using o(1) b(4) by (simp add: mod_simps add.assoc)
  moreover have "off_in ?d = (off_out d + nat (ring_fill ?d)) mod 512"
    using ring_fill_bounds(4) [OF ok] o by simp
  moreover have "nat (ring_fill ?d) < 512" using ring_fill_bounds(1,2) [OF ok] by linarith
  ultimately show ?thesis using assms(2) ring_pos_inj by metis
qed

lemma ring_fill_out:
  assumes "rpc_ok d" "k \<le> nat (ring_fill d)" "k mod 4 = 0"
  shows "nat (ring_fill (d\<lparr>ringOut := ringStart d + (off_out d + k) mod 512\<rparr>)) = nat (ring_fill d) - k"
proof -
  let ?d = "d\<lparr>ringOut := ringStart d + (off_out d + k) mod 512\<rparr>"
  note f = rpc_okD [OF assms(1)] and b = ring_fill_bounds [OF assms(1)]
  have ok: "rpc_ok ?d" using assms(1,3) f by (simp add: mod_512_4)
  have o: "off_in ?d = off_in d" "off_out ?d = (off_out d + k) mod 512" by (simp_all add: off_in_def off_out_def)
  have "off_in d = ((off_out d + k) mod 512 + nat (ring_fill ?d)) mod 512"
    using ring_fill_bounds(4) [OF ok] o by simp
  moreover have "off_in d = ((off_out d + k) mod 512 + (nat (ring_fill d) - k)) mod 512"
    using b(4) assms(2) by (simp only: ring_pos_add) simp
  moreover have "nat (ring_fill ?d) < 512" using ring_fill_bounds(1,2) [OF ok] by linarith
  moreover have "nat (ring_fill d) - k < 512" using b by linarith
  ultimately show ?thesis using ring_pos_inj by metis
qed

end
