(* ===== verification/Fifo.thy ===== *)
theory Fifo imports Prelude begin

text \<open>
  The contract of a bounded byte FIFO and what a client may conclude from it. A put is refused,
  with nothing changed, when the bytes do not fit; a get returns at most what is queued. The unit
  is the granularity the ring works in: transfers are multiples of it.
\<close>

datatype fifo_op = Put "u8 list" | Get nat

text \<open>A client's run: the bytes accepted by the puts, the bytes returned by the gets, the final state.\<close>

fun fifo_run ::
  "(u8 list \<Rightarrow> 's \<Rightarrow> bool \<times> 's) \<Rightarrow> (nat \<Rightarrow> 's \<Rightarrow> u8 list \<times> 's) \<Rightarrow> fifo_op list \<Rightarrow> 's \<Rightarrow>
     u8 list \<times> u8 list \<times> 's" where
  "fifo_run put get [] s = ([], [], s)"
| "fifo_run put get (Put bs # ops) s =
     (let (ok, s') = put bs s; (ws, rs, s'') = fifo_run put get ops s' in (if ok then bs @ ws else ws, rs, s''))"
| "fifo_run put get (Get n # ops) s =
     (let (xs, s') = get n s; (ws, rs, s'') = fifo_run put get ops s' in (ws, xs @ rs, s''))"

definition fifo_units :: "nat \<Rightarrow> fifo_op list \<Rightarrow> bool" where
  "fifo_units u ops \<longleftrightarrow> list_all (\<lambda>op. case op of Put bs \<Rightarrow> u dvd length bs | Get n \<Rightarrow> u dvd n) ops"

lemma fifo_units_Cons:
  "fifo_units u (Put bs # ops) \<longleftrightarrow> u dvd length bs \<and> fifo_units u ops"
  "fifo_units u (Get n # ops) \<longleftrightarrow> u dvd n \<and> fifo_units u ops"
  by (simp_all add: fifo_units_def)

locale byte_fifo =
  fixes inv :: "'s \<Rightarrow> bool"
    and contents :: "'s \<Rightarrow> u8 list"
    and cap :: nat
    and unit :: nat
    and put :: "u8 list \<Rightarrow> 's \<Rightarrow> bool \<times> 's"
    and get :: "nat \<Rightarrow> 's \<Rightarrow> u8 list \<times> 's"
  assumes contents_bound: "inv s \<Longrightarrow> length (contents s) < cap"
    and contents_unit: "inv s \<Longrightarrow> unit dvd length (contents s)"
    and put_inv: "inv s \<Longrightarrow> unit dvd length bs \<Longrightarrow> inv (snd (put bs s))"
    and put_accepts: "inv s \<Longrightarrow> unit dvd length bs \<Longrightarrow>
      fst (put bs s) \<longleftrightarrow> length (contents s) + length bs < cap"
    and put_contents: "inv s \<Longrightarrow> unit dvd length bs \<Longrightarrow>
      contents (snd (put bs s)) = (if fst (put bs s) then contents s @ bs else contents s)"
    and get_inv: "inv s \<Longrightarrow> unit dvd n \<Longrightarrow> inv (snd (get n s))"
    and get_data: "inv s \<Longrightarrow> unit dvd n \<Longrightarrow> fst (get n s) = take n (contents s)"
    and get_contents: "inv s \<Longrightarrow> unit dvd n \<Longrightarrow> contents (snd (get n s)) = drop n (contents s)"
begin

text \<open>No byte is lost, duplicated or reordered by any interleaving of puts and gets.\<close>

lemma run_fifo:
  assumes "inv s" "fifo_units unit ops" "fifo_run put get ops s = (ws, rs, s')"
  shows "contents s @ ws = rs @ contents s'" "inv s'"
  using assms
proof (induction ops arbitrary: s ws rs)
  case Nil
  { case 1 then show ?case by simp }
  { case 2 then show ?case by simp }
next
  case (Cons op ops)
  have *: "contents s @ ws = rs @ contents s' \<and> inv s'"
    if p: "inv s" "fifo_units unit (op # ops)" "fifo_run put get (op # ops) s = (ws, rs, s')" for s ws rs
  proof (cases op)
    case (Put bs)
    obtain ok s1 where s1: "put bs s = (ok, s1)" by force
    obtain ws1 rs1 s2 where r: "fifo_run put get ops s1 = (ws1, rs1, s2)" by (metis prod_cases3)
    have u: "unit dvd length bs" "fifo_units unit ops" using p(2) by (simp_all add: Put fifo_units_Cons)
    have "inv s1" "contents s1 = (if ok then contents s @ bs else contents s)"
      using put_inv [OF p(1) u(1)] put_contents [OF p(1) u(1)] by (simp_all add: s1)
    then show ?thesis using Cons.IH(1,2) [of s1] u(2) r p(3) by (auto simp: Put s1)
  next
    case (Get n)
    obtain xs s1 where s1: "get n s = (xs, s1)" by force
    obtain ws1 rs1 s2 where r: "fifo_run put get ops s1 = (ws1, rs1, s2)" by (metis prod_cases3)
    have u: "unit dvd n" "fifo_units unit ops" using p(2) by (simp_all add: Get fifo_units_Cons)
    have "inv s1" "contents s = xs @ contents s1"
      using get_inv [OF p(1) u(1)] get_contents [OF p(1) u(1)] get_data [OF p(1) u(1)] by (simp_all add: s1)
    then show ?thesis using Cons.IH(1,2) [of s1] u(2) r p(3) by (auto simp: Get s1)
  qed
  { case 1 then show ?case using * by blast }
  { case 2 then show ?case using * by blast }
qed

text \<open>What is put into an empty FIFO and fits comes back from one get, and the FIFO is empty again.\<close>

lemma put_get:
  assumes "inv s" "contents s = []" "unit dvd length bs" "length bs < cap"
  shows "fst (get (length bs) (snd (put bs s))) = bs"
    "contents (snd (get (length bs) (snd (put bs s)))) = []"
  using assms put_inv put_accepts put_contents get_data get_contents by simp_all

end

end
