(* ===== verification/Rpc_Props.thy ===== *)
theory Rpc_Props
  imports Rpc Fifo
begin

text \<open>
  The behaviour of the RPC rings: what the read and write routines do to the bytes queued, the
  polled and the interrupt-driven device as instances of the FIFO contract, blocking reads, the
  kernel RPC call and its reply thread, initialisation and the interrupt handler.
\<close>

section \<open>The bytes queued\<close>

lemma rpc_contents_length: "length (rpc_contents (m, d)) = nat (ring_fill d)"
  by (simp add: rpc_contents_def)

lemma rpc_contents_eq:
  "rpc_contents (m, d) = ring_load 512 (ringStart d) (off_out d) (nat (ring_fill d)) m"
  by (simp add: rpc_contents_def)

text \<open>
  What a produced message adds to the queue: its bytes and up to three bytes of padding that were in
  the ring before.
\<close>

lemma ring_produce_contents:
  assumes ok: "rpc_ok d" and room: "nat (ring_fill d) + round4 count < 512" and c: "count \<le> 512"
    and dj: "disjoint_ranges buf count (ringStart d) 512"
  shows "rpc_contents (snd (ring_produce buf count (m, d))) =
    rpc_contents (m, d) @ load m buf count @
      ring_load 512 (ringStart d) ((off_in d + count) mod 512) (round4 count - count) m"
proof -
  note f = rpc_okD [OF ok] and b = ring_fill_bounds [OF ok] and r = round4_bounds [OF c]
  let ?d = "d\<lparr>ringIn := ringStart d + (off_in d + round4 count) mod 512\<rparr>"
  have room1: "nat (ring_fill d) + count \<le> 511" using room r(1) by linarith
  have fill: "nat (ring_fill ?d) = nat (ring_fill d) + length (load m buf count) + (round4 count - count)"
    using ring_fill_in [OF ok room r(3)] r(1) by simp
  have o: "off_out ?d = off_out d" "ringStart ?d = ringStart d" by (simp_all add: off_out_def)
  have pos: "(off_out d + nat (ring_fill d) + count) mod 512 = (off_in d + count) mod 512"
    using b(4) by (simp add: mod_simps)
  have "rpc_contents (snd (ring_produce buf count (m, d))) =
      ring_load 512 (ringStart d) (off_out d) (nat (ring_fill d) + length (load m buf count) + (round4 count - count))
        (ring_store 512 (ringStart d) ((off_out d + nat (ring_fill d)) mod 512) (load m buf count) m)"
    by (simp only: ring_produce_spec [OF ok room1 dj] snd_conv rpc_contents_eq fill o b(4) [symmetric])
  also have "\<dots> = rpc_contents (m, d) @ load m buf count @
      ring_load 512 (ringStart d) ((off_in d + count) mod 512) (round4 count - count) m"
    using ring_load_store_append [of "off_out d" 512 "nat (ring_fill d)" "load m buf count"
        "round4 count - count" "ringStart d" m] f(6) room r(1) pos by (simp add: rpc_contents_eq)
  finally show ?thesis .
qed

text \<open>When rounding the message up fills the ring exactly, the ring looks empty and all of it is lost.\<close>

lemma ring_produce_overrun:
  assumes ok: "rpc_ok d" and acc: "nat (ring_fill d) + count \<le> 511" and full: "nat (ring_fill d) + round4 count = 512"
    and dj: "disjoint_ranges buf count (ringStart d) 512"
  shows "fst (ring_produce buf count (m, d)) = (int count, True)"
    "rpc_contents (snd (ring_produce buf count (m, d))) = []"
proof -
  note f = rpc_okD [OF ok] and b = ring_fill_bounds [OF ok]
  have "(off_in d + round4 count) mod 512 = (off_out d + (nat (ring_fill d) + round4 count)) mod 512"
    using b(4) by (simp add: mod_simps add.assoc)
  then have "(off_in d + round4 count) mod 512 = off_out d" using full f(6) by simp
  then show "rpc_contents (snd (ring_produce buf count (m, d))) = []" "fst (ring_produce buf count (m, d)) = (int count, True)"
    using f by (simp_all add: ring_produce_spec [OF ok acc dj] rpc_contents_eq ring_fill_def)
qed

text \<open>What a read removes: the bytes it returns and the padding up to the next word.\<close>

lemma ring_consume_contents:
  assumes ok: "rpc_ok d" and dj: "disjoint_ranges buf (min count (nat (ring_fill d))) (ringStart d) 512"
  defines "n \<equiv> min count (nat (ring_fill d))"
  shows "load (fst (snd (ring_consume buf count (ring_fill d) (m, d)))) buf n = take count (rpc_contents (m, d))"
    "rpc_contents (snd (ring_consume buf count (ring_fill d) (m, d))) = drop (round4 n) (rpc_contents (m, d))"
proof -
  note f = rpc_okD [OF ok] and b = ring_fill_bounds [OF ok]
  have n: "n \<le> nat (ring_fill d)" "n \<le> 512" using b by (auto simp: n_def)
  have sz: "ring_fill d = int (nat (ring_fill d))" using b by simp
  have spec: "ring_consume buf count (ring_fill d) (m, d) =
    (int n, store buf (ring_load 512 (ringStart d) (off_out d) n m) m,
     d\<lparr>ringOut := ringStart d + (off_out d + round4 n) mod 512\<rparr>)"
    using ring_consume_spec [OF ok, of "nat (ring_fill d)" buf count m] dj b sz by (simp add: n_def)
  have l: "load (store buf xs m) buf n = xs" if "length xs = n" for xs
    using that load_store_same by blast
  have tk: "ring_load 512 (ringStart d) (off_out d) n m = take count (rpc_contents (m, d))"
    by (cases "count \<le> nat (ring_fill d)") (simp_all add: rpc_contents_eq n_def take_ring_load)
  show "load (fst (snd (ring_consume buf count (ring_fill d) (m, d)))) buf n = take count (rpc_contents (m, d))"
    by (simp add: spec l tk [symmetric])
  let ?d = "d\<lparr>ringOut := ringStart d + (off_out d + round4 n) mod 512\<rparr>"
  have le: "round4 n \<le> nat (ring_fill d)" using n b by (intro round4_le) auto
  have fill: "nat (ring_fill ?d) = nat (ring_fill d) - round4 n"
    using le round4_bounds(3) [OF n(2)] by (intro ring_fill_out [OF ok]) auto
  have o: "off_out ?d = (off_out d + round4 n) mod 512" by (simp add: off_out_def)
  have keep: "ring_load 512 (ringStart d) p k (store buf xs m) = ring_load 512 (ringStart d) p k m"
    if "length xs = n" for p k xs
  proof (rule nth_equalityI)
    fix i assume "i < length (ring_load 512 (ringStart d) p k (store buf xs m))"
    moreover have "(p + i) mod 512 < 512" by simp
    ultimately show "ring_load 512 (ringStart d) p k (store buf xs m) ! i = ring_load 512 (ringStart d) p k m ! i"
      using dj that by (auto simp: n_def [symmetric] disjoint_ranges_def intro!: store_outside)
  qed simp
  show "rpc_contents (snd (ring_consume buf count (ring_fill d) (m, d))) = drop (round4 n) (rpc_contents (m, d))"
    using le by (simp add: spec rpc_contents_eq fill o keep drop_ring_load)
qed

section \<open>The rings as FIFOs\<close>

text \<open>
  A client's put and get through the polled and the interrupt-driven device: the bytes go through a
  client buffer at address \<open>ub\<close>, above the ring.
\<close>

definition poll_put :: "nat \<Rightarrow> u8 list \<Rightarrow> mem \<times> rpc_dev \<Rightarrow> bool \<times> mem \<times> rpc_dev" where
  "poll_put ub bs s = (let (r, s') = rpc_poll_write False ub (length bs) (store ub bs (fst s), snd s)
     in (r = int (length bs), s'))"

definition poll_get :: "nat \<Rightarrow> nat \<Rightarrow> mem \<times> rpc_dev \<Rightarrow> u8 list \<times> mem \<times> rpc_dev" where
  "poll_get ub n s = (let (r, s') = rpc_poll_read False ub n s in (load (fst s') ub (nat r), s'))"

definition intr_put :: "nat \<Rightarrow> nat \<Rightarrow> u8 list \<Rightarrow> mem \<times> rpc_dev \<Rightarrow> bool \<times> mem \<times> rpc_dev" where
  "intr_put pos ub bs s = (let (r, _, s') = rpc_intr_write False pos ub (length bs) (store ub bs (fst s), snd s)
     in (r = int (length bs), s'))"

definition intr_get :: "nat \<Rightarrow> nat \<Rightarrow> mem \<times> rpc_dev \<Rightarrow> u8 list \<times> mem \<times> rpc_dev" where
  "intr_get ub n s = (case rpc_intr_read False True [] ub n s of
     Some (r, s') \<Rightarrow> (load (fst s') ub (nat r), s') | None \<Rightarrow> ([], s))"

definition rpc_client_ok :: "nat \<Rightarrow> mem \<times> rpc_dev \<Rightarrow> bool" where
  "rpc_client_ok ub s \<longleftrightarrow> rpc_ok (snd s) \<and> ringEnd (snd s) \<le> ub"

lemma rpc_poll_read_eq: "rpc_ok d \<Longrightarrow> rpc_poll_read False buf count (m, d) =
    (if ring_fill d = 0 then (0, m, d) else ring_consume buf count (ring_fill d) (m, d))"
  using ring_used_eq [of d] rpc_okD [of d] by (auto simp: rpc_poll_read_def ring_fill_def)

lemma rpc_intr_read_nonblock: "rpc_ok d \<Longrightarrow>
    rpc_intr_read False True ws buf count (m, d) = Some (rpc_poll_read False buf count (m, d))"
  by (simp add: rpc_intr_read_def rpc_poll_read_def)

lemma rpc_intr_write_poll: "(case rpc_intr_write sig pos buf count s of (r, _, s') \<Rightarrow> (r, s')) = rpc_poll_write sig buf count s"
  by (simp add: rpc_intr_write_def rpc_poll_write_def split: prod.splits)

lemma intr_put_eq: "intr_put pos = poll_put"
  by (intro ext) (simp add: intr_put_def poll_put_def rpc_intr_write_def rpc_poll_write_def split: prod.splits)

lemma intr_get_eq: "rpc_ok (snd s) \<Longrightarrow> intr_get ub n s = poll_get ub n s"
  by (cases s) (simp add: intr_get_def poll_get_def rpc_intr_read_nonblock split: prod.splits)

lemma ring_load_frame:
  "n = 512 \<Longrightarrow> disjoint_ranges a (length bs) base n \<Longrightarrow> ring_load n base p k (store a bs m) = ring_load n base p k m"
proof (rule nth_equalityI)
  fix i assume "n = 512" "disjoint_ranges a (length bs) base n" "i < length (ring_load n base p k (store a bs m))"
  moreover have "(p + i) mod 512 < 512" by simp
  ultimately show "ring_load n base p k (store a bs m) ! i = ring_load n base p k m ! i"
    by (auto simp: disjoint_ranges_def intro!: store_outside)
qed simp

lemma poll_put_spec:
  assumes "rpc_client_ok ub s" "4 dvd length bs"
  shows "fst (poll_put ub bs s) \<longleftrightarrow> length (rpc_contents s) + length bs < 512"
    "rpc_contents (snd (poll_put ub bs s)) = (if fst (poll_put ub bs s) then rpc_contents s @ bs else rpc_contents s)"
    "rpc_client_ok ub (snd (poll_put ub bs s))"
proof -
  obtain m d where s: "s = (m, d)" by force
  let ?m = "store ub bs m" and ?n = "length bs"
  have ok: "rpc_ok d" and ub: "ringStart d + 512 \<le> ub" using assms(1) rpc_okD by (auto simp: rpc_client_ok_def s)
  have dj: "disjoint_ranges ub ?n (ringStart d) 512" using ub by (simp add: disjoint_ranges_def)
  have same: "rpc_contents (?m, d) = rpc_contents (m, d)"
    by (simp add: rpc_contents_eq ring_load_frame dj)
  have fill4: "4 dvd nat (ring_fill d)" and fill: "nat (ring_fill d) \<le> 508"
    using ring_fill_bounds [OF ok] by (auto simp: dvd_eq_mod_eq_0)
  obtain rc k m' d' where pr: "ring_produce ub ?n (?m, d) = ((rc, k), m', d')" by (metis prod.exhaust)
  have put: "poll_put ub bs s = (rc = int ?n, m', d')" by (simp add: poll_put_def rpc_poll_write_def s pr)
  have ok': "rpc_ok d'" using ring_produce_ok [OF ok dj, of ?m] by (simp add: pr)
  have "(rc = int ?n \<longleftrightarrow> nat (ring_fill d) + ?n < 512) \<and>
    rpc_contents (m', d') = (if rc = int ?n then rpc_contents s @ bs else rpc_contents s) \<and> ringEnd d' = ringEnd d"
  proof (cases "nat (ring_fill d) + ?n \<le> 511")
    case True
    then have r4: "round4 ?n = ?n" using assms(2) by (intro round4_bounds(4)) auto
    have "rc = int ?n" "ringEnd d' = ringEnd d" using ring_produce_spec [OF ok True dj, of ?m] by (auto simp: pr)
    moreover have "rpc_contents (m', d') = rpc_contents (?m, d) @ load ?m ub ?n"
      using ring_produce_contents [OF ok _ _ dj, of ?m] True by (simp add: pr r4)
    ultimately show ?thesis using True by (simp add: same s load_store_same)
  next
    case False
    then show ?thesis using ring_produce_refuses [OF ok, of ?n ub ?m] fill by (auto simp: pr same s)
  qed
  then show "fst (poll_put ub bs s) \<longleftrightarrow> length (rpc_contents s) + length bs < 512"
    "rpc_contents (snd (poll_put ub bs s)) = (if fst (poll_put ub bs s) then rpc_contents s @ bs else rpc_contents s)"
    "rpc_client_ok ub (snd (poll_put ub bs s))"
    using assms(1) ok' by (auto simp: put [unfolded s] rpc_contents_length s rpc_client_ok_def)
qed

lemma poll_get_spec:
  assumes "rpc_client_ok ub s" "4 dvd n"
  shows "fst (poll_get ub n s) = take n (rpc_contents s)"
    "rpc_contents (snd (poll_get ub n s)) = drop n (rpc_contents s)"
    "rpc_client_ok ub (snd (poll_get ub n s))"
proof -
  obtain m d where s: "s = (m, d)" by force
  have ok: "rpc_ok d" and ub: "ringStart d + 512 \<le> ub" using assms(1) rpc_okD by (auto simp: rpc_client_ok_def s)
  define k where "k = min n (nat (ring_fill d))"
  note b = ring_fill_bounds [OF ok]
  have dj: "disjoint_ranges ub k (ringStart d) 512" using ub by (simp add: disjoint_ranges_def)
  have k4: "k mod 4 = 0" "k \<le> 512" using assms(2) b by (auto simp: k_def min_def)
  have len: "length (rpc_contents (m, d)) = nat (ring_fill d)" by (rule rpc_contents_length)
  have "fst (poll_get ub n s) = take n (rpc_contents s) \<and>
    rpc_contents (snd (poll_get ub n s)) = drop n (rpc_contents s) \<and> rpc_client_ok ub (snd (poll_get ub n s))"
  proof (cases "ring_fill d = 0")
    case True
    then show ?thesis using assms(1) len ok by (simp add: poll_get_def rpc_poll_read_eq s)
  next
    case False
    have sz: "ring_fill d = int (nat (ring_fill d))" "nat (ring_fill d) \<le> 512" using b by auto
    obtain r m' d' where c: "ring_consume ub n (ring_fill d) (m, d) = (r, m', d')" by (metis prod.exhaust)
    have r: "r = int k" "ringEnd d' = ringEnd d"
      using ring_consume_spec [OF ok sz(2), of ub n m] dj c sz(1) by (auto simp: k_def)
    have "rpc_ok d'"
      using ring_consume_ok [OF ok sz(2), of ub n m] dj c sz(1) by (simp add: k_def)
    moreover have "drop k (rpc_contents (m, d)) = drop n (rpc_contents (m, d))"
      by (simp add: k_def min_def len)
    ultimately show ?thesis
      using ring_consume_contents [OF ok, of ub n m] dj c r round4_bounds(4) [OF k4(2,1)] assms(1) ok False
      by (simp add: poll_get_def rpc_poll_read_eq s k_def [symmetric] rpc_client_ok_def)
  qed
  then show "fst (poll_get ub n s) = take n (rpc_contents s)"
    "rpc_contents (snd (poll_get ub n s)) = drop n (rpc_contents s)"
    "rpc_client_ok ub (snd (poll_get ub n s))" by blast+
qed

lemma rpc_client_bounds:
  assumes "rpc_client_ok ub s"
  shows "length (rpc_contents s) < 512" "4 dvd length (rpc_contents s)"
proof -
  have "rpc_ok (snd s)" using assms by (simp add: rpc_client_ok_def)
  note b = ring_fill_bounds [OF this]
  have l: "length (rpc_contents s) = nat (ring_fill (snd s))"
    using rpc_contents_length [of "fst s" "snd s"] by simp
  show "length (rpc_contents s) < 512" using b l by simp
  show "4 dvd length (rpc_contents s)" using b l by (simp add: dvd_eq_mod_eq_0)
qed

interpretation poll_fifo: byte_fifo "rpc_client_ok ub" rpc_contents 512 4 "poll_put ub" "poll_get ub" for ub
  by unfold_locales (fact rpc_client_bounds poll_put_spec poll_get_spec)+

interpretation intr_fifo: byte_fifo "rpc_client_ok ub" rpc_contents 512 4 "intr_put pos ub" "intr_get ub" for ub pos
proof -
  have "intr_get ub n s = poll_get ub n s" if "rpc_client_ok ub s" for n s
    using that intr_get_eq by (simp add: rpc_client_ok_def)
  then show "byte_fifo (rpc_client_ok ub) rpc_contents 512 4 (intr_put pos ub) (intr_get ub)"
    using poll_fifo.byte_fifo_axioms [of ub] by (simp add: byte_fifo_def intr_put_eq)
qed

section \<open>Initialisation\<close>

text \<open>The twelve rings the driver sets up, with the operations that set them up.\<close>

definition rpc_rings :: "rpc_sys \<Rightarrow> rpc_dev list" where
  "rpc_rings s = rpc_poll_devices s @ rpc_intr_devices s @ rpc_kern_devices s"

lemma ring_init_ok: "a + 512 < 2 ^ 32 \<Longrightarrow> rpc_ok (ring_init a)"
  by (simp add: rpc_ok_def ring_init_def)

lemma ring_init_empty: "rpc_contents (m, ring_init a) = []"
  by (simp add: rpc_contents_def ring_fill_def ring_init_def)

lemma rpc_rings_init:
  "rpc_rings (snd (RPC_init_module (int n) s)) = map ring_init
     [0xa1ffe000, 0xa1ffe400, 0xa1ffe800, 0xa1ffec00, 0xa1ffe200, 0xa1ffe600, 0xa1ffea00, 0xa1ffee00,
      0xa1fff200, 0xa1fff400, 0xa1fff600, 0xa1fff800]"
  by (simp add: rpc_rings_def RPC_init_module_def rpc_poll_init_def rpc_intr_init_def rpc_kern_init_def
      writel_def upt_rec)

text \<open>
  Once the character device is registered, start-up returns 0 and leaves twelve
  well-formed empty rings that do not overlap, with both reply threads (one per processor) started
  when the driver had not been initialised before; the reset \<open>ioctl\<close> sets up the same rings.
\<close>

theorem rpc_init_rings:
  "fst (RPC_init_module (int n) s) = 0 \<and>
   list_all (\<lambda>d. rpc_ok d \<and> rpc_contents (rmem (snd (RPC_init_module (int n) s)), d) = []) (rpc_rings (snd (RPC_init_module (int n) s))) \<and>
   sorted_wrt (\<lambda>d e. disjoint_ranges (ringStart d) 512 (ringStart e) 512) (rpc_rings (snd (RPC_init_module (int n) s))) \<and>
   threads (snd (RPC_init_module (int n) s)) = threads s @ (if is_init s then [] else [1, 3]) \<and>
   rpc_rings (snd (rpc_ctrl_ioctl True s)) = rpc_rings (snd (RPC_init_module (int n) s))"
proof -
  have t: "threads (snd (RPC_init_module (int n) s)) = threads s @ (if is_init s then [] else [1, 3])"
    by (simp add: RPC_init_module_def rpc_poll_init_def rpc_intr_init_def rpc_kern_init_def writel_def upt_rec)
  have r: "fst (RPC_init_module (int n) s) = 0"
    by (simp add: RPC_init_module_def rpc_poll_init_def rpc_intr_init_def rpc_kern_init_def Let_def)
  have c: "rpc_rings (snd (rpc_ctrl_ioctl True s)) = rpc_rings (snd (RPC_init_module (int n) s))"
    by (simp add: rpc_rings_def rpc_ctrl_ioctl_def RPC_init_module_def rpc_poll_init_def rpc_intr_init_def
        rpc_kern_init_def writel_def Let_def)
  show ?thesis
    unfolding c unfolding rpc_rings_init
    using t r by (simp add: ring_init_ok ring_init_empty) (simp add: ring_init_def disjoint_ranges_def)
qed

section \<open>FIFO behaviour\<close>

text \<open>
  C1: Through the polled device, any interleaving of whole-word writes and reads keeps the
  byte stream: the bytes queued at the start followed by those accepted are those returned followed
  by those still queued, and the ring stays well-formed.
\<close>

theorem rpc_poll_stream:
  assumes "rpc_client_ok ub s" "fifo_units 4 ops" "fifo_run (poll_put ub) (poll_get ub) ops s = (ws, rs, s')"
  shows "rpc_contents s @ ws = rs @ rpc_contents s' \<and> rpc_client_ok ub s'"
  using poll_fifo.run_fifo [OF assms] by blast

theorem rpc_poll_stream_witness:
  "\<exists>ws rs s'. fifo_run (poll_put 2048) (poll_get 2048) [Put [1, 2, 3, 4], Get 8] (\<lambda>_. 0, ring_init 1024) = (ws, rs, s') \<and>
     ws = rs @ rpc_contents s'"
proof -
  obtain ws rs s' where r: "fifo_run (poll_put 2048) (poll_get 2048) [Put [1, 2, 3, 4], Get 8] (\<lambda>_. 0, ring_init 1024) = (ws, rs, s')"
    by (metis prod_cases3)
  have "rpc_client_ok 2048 (\<lambda>_. 0, ring_init 1024)"
    by (simp add: rpc_client_ok_def rpc_ok_def ring_init_def)
  moreover have "fifo_units 4 [Put [1, 2, 3, 4], Get 8]" by code_simp
  ultimately show ?thesis using rpc_poll_stream [OF _ _ r] r by (auto simp: ring_init_empty)
qed

text \<open>
  The same for the interrupt-driven device in non-blocking mode, whatever device
  number the writer's file carries.
\<close>

lemma rpc_intr_stream:
  assumes "rpc_client_ok ub s" "fifo_units 4 ops" "fifo_run (intr_put pos ub) (intr_get ub) ops s = (ws, rs, s')"
  shows "rpc_contents s @ ws = rs @ rpc_contents s' \<and> rpc_client_ok ub s'"
  using intr_fifo.run_fifo [OF assms] by blast

text \<open>
  A write whose length, rounded up to a word, leaves at least one word free returns the
  length and queues the bytes followed by the padding (fewer than four bytes); the ring stays
  well-formed.
\<close>

lemma rpc_poll_write_appends:
  assumes "rpc_ok d" "nat (ring_fill d) + round4 count < 512" "count \<le> 512" "disjoint_ranges buf count (ringStart d) 512"
  shows "\<exists>m' d' pad. rpc_poll_write False buf count (m, d) = (int count, m', d') \<and> rpc_ok d' \<and>
    rpc_contents (m', d') = rpc_contents (m, d) @ load m buf count @ pad \<and> length pad = round4 count - count \<and> length pad < 4"
proof -
  obtain rc k m' d' where pr: "ring_produce buf count (m, d) = ((rc, k), m', d')" by (metis prod.exhaust)
  note r = round4_bounds [OF assms(3)]
  have acc: "nat (ring_fill d) + count \<le> 511" using assms(2) r(1) by linarith
  have "rc = int count" using ring_produce_spec [OF assms(1) acc assms(4), of m] by (simp add: pr)
  moreover have "rpc_ok d'" using ring_produce_ok [OF assms(1,4), of m] by (simp add: pr)
  ultimately show ?thesis
    using ring_produce_contents [OF assms, of m] r(2) by (auto simp: rpc_poll_write_def pr)
qed

text \<open>
  The acceptance test compares the length itself, not the length rounded up: a write
  that fits only before rounding returns its full length, and the ring then looks empty, so the
  message and everything queued before it are lost.
\<close>

theorem rpc_poll_write_overrun:
  assumes "rpc_ok d" "nat (ring_fill d) + count \<le> 511" "nat (ring_fill d) + round4 count = 512"
    "disjoint_ranges buf count (ringStart d) 512"
  shows "\<exists>s'. rpc_poll_write False buf count (m, d) = (int count, s') \<and> rpc_contents s' = [] \<and>
    (\<forall>buf' n. rpc_poll_read False buf' n s' = (0, s'))"
proof -
  obtain rc k m' d' where pr: "ring_produce buf count (m, d) = ((rc, k), m', d')" by (metis prod.exhaust)
  have e: "rc = int count" "rpc_contents (m', d') = []"
    using ring_produce_overrun [OF assms, of m] by (simp_all add: pr)
  have "rpc_ok d'" using ring_produce_ok [OF assms(1,4), of m] by (simp add: pr)
  moreover have "ring_fill d' = 0"
    using arg_cong [OF e(2), of length] ring_fill_bounds(1) [OF \<open>rpc_ok d'\<close>] by (simp add: rpc_contents_length)
  ultimately show ?thesis
    using e by (auto simp: rpc_poll_write_def pr rpc_poll_read_eq)
qed

theorem rpc_poll_write_overrun_witness:
  "\<exists>s'. rpc_poll_write False 2048 509 (\<lambda>_. 7, ring_init 1024) = (509, s') \<and> rpc_contents s' = []"
proof -
  have "rpc_ok (ring_init 1024)" "nat (ring_fill (ring_init 1024)) + 509 \<le> 511"
      "nat (ring_fill (ring_init 1024)) + round4 509 = 512"
      "disjoint_ranges 2048 509 (ringStart (ring_init 1024)) 512"
    by (simp_all add: rpc_ok_def ring_init_def ring_fill_def round4_eq disjoint_ranges_def)
  from rpc_poll_write_overrun [OF this, of "\<lambda>_. 7"] show ?thesis by auto
qed

section \<open>Blocking reads\<close>

text \<open>
  What the kernel documents of \<open>wait_event_interruptible_timeout\<close>: a positive result means that the
  condition holds on return, a negative one that a signal is pending.
\<close>

definition wakeup_ok :: "rpc_dev \<Rightarrow> rpc_wakeup \<Rightarrow> bool" where
  "wakeup_ok d w \<longleftrightarrow> rpc_ok (snd (wk_state w)) \<and> ringStart (snd (wk_state w)) = ringStart d \<and>
     (wait_ret w > 0 \<longrightarrow> ringIn (snd (wk_state w)) \<noteq> ringOut (snd (wk_state w))) \<and>
     (wait_ret w < 0 \<longrightarrow> signal_pending w)"

lemma rpc_intr_wait_ready:
  assumes "list_all (wakeup_ok d) ws" "rpc_intr_wait ws = Some (True, m', d')"
  shows "rpc_ok d' \<and> ringStart d' = ringStart d \<and> 0 < ring_fill d' \<and> (m', d') \<in> wk_state ` set ws"
  using assms
proof (induction ws rule: rpc_intr_wait.induct)
  case (2 w ws)
  show ?case
  proof (cases "wk_state w = (m', d') \<and> \<not> signal_pending w \<and> wait_ret w \<noteq> 0")
    case True
    then have "rpc_ok d'" "ringStart d' = ringStart d" "ringIn d' \<noteq> ringOut d'"
      using 2(2) by (auto simp: wakeup_ok_def neq_iff)
    moreover have "ring_fill d' \<noteq> 0"
      using calculation rpc_okD [of d'] by (auto simp: ring_fill_def ring_used_def)
    ultimately show ?thesis using ring_fill_bounds(1) [of d'] True by (auto simp: rev_image_eqI)
  next
    case False
    then show ?thesis using 2 by (auto split: if_splits)
  qed
qed simp

text \<open>
  C4: A blocking read never copies from an empty ring: when it returns (not interrupted on
  the semaphore) it returns 0, or there is a moment, on entry or at one of the wake-ups, at which the
  ring holds bytes, and it has copied the first of them, as many as asked for or queued.
\<close>

theorem rpc_intr_read_ready:
  assumes "rpc_ok d" "list_all (wakeup_ok d) ws" "disjoint_ranges buf 512 (ringStart d) 512"
    "rpc_intr_read False nonblock ws buf count (m, d) = Some (r, m', d')"
  shows "(r = 0 \<and> (m', d') \<in> insert (m, d) (wk_state ` set ws)) \<or>
    (\<exists>s0 \<in> insert (m, d) (wk_state ` set ws). 0 < ring_fill (snd s0) \<and>
      r = int (min count (nat (ring_fill (snd s0)))) \<and> load m' buf (nat r) = take count (rpc_contents s0))"
proof -
  have copied: "\<exists>s0 \<in> S. 0 < ring_fill (snd s0) \<and>
      r = int (min count (nat (ring_fill (snd s0)))) \<and> load m' buf (nat r) = take count (rpc_contents s0)"
    if c: "ring_consume buf count (ring_used d0) (m0, d0) = (r, m', d')" and ok: "rpc_ok d0"
      and st: "ringStart d0 = ringStart d" and fill: "0 < ring_fill d0" and S: "(m0, d0) \<in> S" for m0 d0 S
  proof -
    have u: "ring_used d0 = ring_fill d0" using fill by (auto simp: ring_fill_def split: if_splits)
    have sz: "ring_fill d0 = int (nat (ring_fill d0))" "nat (ring_fill d0) \<le> 512"
      using ring_fill_bounds [OF ok] by auto
    have dj: "disjoint_ranges buf (min count (nat (ring_fill d0))) (ringStart d0) 512"
      using assms(3) st sz by (auto simp: disjoint_ranges_def)
    have "r = int (min count (nat (ring_fill d0)))"
      using ring_consume_spec [OF ok sz(2) dj, of m0] c u sz(1) by auto
    then show ?thesis
      using ring_consume_contents(1) [OF ok dj, of m0] c u fill S by (intro bexI [of _ "(m0, d0)"]) auto
  qed
  show ?thesis
  proof (cases "ringIn d = ringOut d")
    case True
    show ?thesis
    proof (cases "rpc_intr_wait ws")
      case None
      then show ?thesis using assms(4) True by (auto simp: rpc_intr_read_def split: if_splits)
    next
      case (Some p)
      obtain b m0 d0 where p: "p = (b, m0, d0)" by (cases p) auto
      show ?thesis
      proof (cases "nonblock \<or> \<not> b")
        case True
        have "(m0, d0) \<in> wk_state ` set ws"
          using Some p by (induction ws rule: rpc_intr_wait.induct) (auto split: if_splits simp: rev_image_eqI)
        then show ?thesis using assms(4) True Some p \<open>ringIn d = ringOut d\<close>
          by (auto simp: rpc_intr_read_def split: if_splits)
      next
        case False
        then have "ring_consume buf count (ring_used d0) (m0, d0) = (r, m', d')"
          using assms(4) Some p True by (simp add: rpc_intr_read_def)
        moreover have "rpc_ok d0 \<and> ringStart d0 = ringStart d \<and> 0 < ring_fill d0 \<and> (m0, d0) \<in> wk_state ` set ws"
          using rpc_intr_wait_ready [OF assms(2)] Some p False by simp
        ultimately show ?thesis using copied [of d0 m0 "insert (m, d) (wk_state ` set ws)"] by blast
      qed
    qed
  next
    case False
    then have "0 < ring_fill d" using ring_fill_bounds(1) [OF assms(1)] rpc_okD [OF assms(1)]
      by (auto simp: ring_fill_def ring_used_def)
    moreover have "ring_consume buf count (ring_used d) (m, d) = (r, m', d')"
      using assms(4) False by (simp add: rpc_intr_read_def)
    ultimately show ?thesis using copied [of d m "insert (m, d) (wk_state ` set ws)"] assms(1) by blast
  qed
qed

text \<open>A blocked reader of an empty ring that a four-byte message wakes up.\<close>

theorem rpc_intr_read_ready_witness:
  "\<exists>r m' d'. rpc_intr_read False False
      [\<lparr>wait_ret = 2, pf_freeze = False, signal_pending = False,
        wk_state = (\<lambda>_. 9, (ring_init 1024)\<lparr>ringIn := 1028\<rparr>)\<rparr>] 2048 8 (\<lambda>_. 0, ring_init 1024) = Some (r, m', d') \<and>
     (r = 0 \<or> load m' 2048 (nat r) = [9, 9, 9, 9] \<and> r = 4)"
proof -
  let ?w = "\<lparr>wait_ret = 2, pf_freeze = False, signal_pending = False,
        wk_state = (\<lambda>_. 9, (ring_init 1024)\<lparr>ringIn := 1028\<rparr>)\<rparr> :: rpc_wakeup"
  have w: "list_all (wakeup_ok (ring_init 1024)) [?w]" "rpc_ok (ring_init 1024)"
    "disjoint_ranges 2048 512 (ringStart (ring_init 1024)) 512"
    by (simp_all add: wakeup_ok_def rpc_ok_def ring_init_def disjoint_ranges_def)
  obtain r m' d' where e: "rpc_intr_read False False [?w] 2048 8 (\<lambda>_. 0, ring_init 1024) = Some (r, m', d')"
    by (auto simp: rpc_intr_read_def ring_init_def intro: prod_cases3)
  have c: "rpc_contents (\<lambda>_. 9, (ring_init 1024)\<lparr>ringIn := 1028\<rparr>) = [9, 9, 9, 9]"
    by (simp add: rpc_contents_def ring_fill_def ring_used_def ring_init_def off_out_def ring_load_def upt_rec)
  have f: "ring_fill ((ring_init 1024)\<lparr>ringIn := 1028\<rparr>) = 4" "ring_fill (ring_init 1024) = 0"
    by (simp_all add: ring_fill_def ring_used_def ring_init_def)
  show ?thesis using rpc_intr_read_ready [OF w(2,1,3) e] e c f by (auto simp: ring_init_empty)
qed

section \<open>The kernel RPC call\<close>

text \<open>The bytes of a word in network order, as both processors see a field of a message.\<close>

definition be32 :: "u32 \<Rightarrow> u8 list" where
  "be32 w = rev (le32 w)"

lemma le32_bswap_be32: "le32 (bswap32 w) = be32 w"
  by (simp add: be32_def le32_bswap)

lemma length_be32 [simp]: "length (be32 w) = 4"
  by (simp add: be32_def)

lemma bswap_le32_of_be32: "bswap32 (le32_of (be32 w)) = w"
  by (metis bswap32_bswap32 le32_bswap_be32 le32_of_le32)

lemma le32_0: "le32 0 = be32 0"
  by (simp add: be32_def le32_def)

lemma rpc_request_bytes:
  "concat (map le32 (rpc_request command param1 param2 sync retvalue)) =
   concat (map be32 [98, 98, 0, sync, 12, retvalue, command, param1, param2])"
  by (simp add: rpc_request_def le32_bswap_be32 le32_0)

lemma rpc_kern_write_spec:
  assumes i: "opt < 2" "length (rpc_kern_devices s) = 4" and d: "d = rpc_kern_devices s ! (2 * opt)"
    and ok: "rpc_ok d" and room: "nat (ring_fill d) + count < 512" "4 dvd count"
    and dj: "disjoint_ranges buf count (ringStart d) 512"
  shows "\<exists>s1. rpc_kern_write False opt buf count s = Some (int count, s1) \<and>
     rpc_contents (rmem s1, rpc_kern_devices s1 ! (2 * opt)) = rpc_contents (rmem s, d) @ load (rmem s) buf count \<and>
     reg_writes s1 = reg_writes s @ [(0xb801a104, if opt = 0 then 3 else 5)] \<and>
     rmem s1 = ring_store 512 (ringStart d) (off_in d) (load (rmem s) buf count) (rmem s)"
proof -
  have c: "count \<le> 512" and acc: "nat (ring_fill d) + count \<le> 511" using room by auto
  have r4: "round4 count = count" using room c by (intro round4_bounds(4)) auto
  have idx: "opt * 4 div 2 = 2 * opt" "2 * opt < 4" using i by auto
  note sp = ring_produce_spec [OF ok acc dj, of "rmem s"]
  have "rpc_contents (snd (ring_produce buf count (rmem s, d))) = rpc_contents (rmem s, d) @ load (rmem s) buf count"
    using ring_produce_contents [OF ok _ c dj, of "rmem s"] room by (simp add: r4)
  then show ?thesis
    using i idx sp by (auto simp: rpc_kern_write_def d [symmetric] writel_def Let_def)
qed

lemma rpc_sync_wait_first: "load32 m sync = 0 \<Longrightarrow> rpc_sync_wait sync (m # ms) = rpc_sync_wait sync ms"
  by simp

text \<open>
  C2: \<open>send_rpc_command\<close> with room in the ring queues one 36-byte request, whose nine fields
  are in network order, rings the doorbell of the processor it is for exactly once, and then waits:
  it returns \<open>RPC_OK\<close> with the first later memory in which \<open>sync\<close> has been raised, and not before.
\<close>

theorem send_rpc_command_request:
  assumes "opt < 2" "length (rpc_kern_devices s) = 4" "rpc_ok d" "d = rpc_kern_devices s ! (2 * opt)"
    "nat (ring_fill d) + 36 < 512" "disjoint_ranges sendbuf 36 (ringStart d) 512"
    "disjoint_ranges sync 4 (ringStart d) 512" "disjoint_ranges sync 4 sendbuf 36"
  shows "\<exists>s1. send_rpc_command opt command param1 param2 retvalue sendbuf sync False later s =
       (case rpc_sync_wait sync (later s1) of None \<Rightarrow> None | Some m \<Rightarrow> Some (0, s1\<lparr>rmem := m\<rparr>)) \<and>
     rpc_contents (rmem s1, rpc_kern_devices s1 ! (2 * opt)) = rpc_contents (rmem s, d) @
       concat (map be32 [98, 98, 0, of_nat sync, 12, of_nat retvalue, command, param1, param2]) \<and>
     reg_writes s1 = reg_writes s @ [(0xb801a104, if opt = 0 then 3 else 5)]"
proof -
  define bs where "bs = concat (map be32 [98, 98, 0, of_nat sync, 12, of_nat retvalue, command, param1, param2])"
  define m where "m = store sendbuf bs (store32 sync 0 (rmem s))"
  let ?s = "s\<lparr>rmem := m\<rparr>"
  have len: "length bs = 36" by (simp add: bs_def)
  have d: "d = rpc_kern_devices ?s ! (2 * opt)" using assms(4) by simp
  obtain s1 where w: "rpc_kern_write False opt sendbuf 36 ?s = Some (36, s1)"
    and c: "rpc_contents (rmem s1, rpc_kern_devices s1 ! (2 * opt)) = rpc_contents (m, d) @ load m sendbuf 36"
    and l: "reg_writes s1 = reg_writes s @ [(0xb801a104, if opt = 0 then 3 else 5)]"
    and m1: "rmem s1 = ring_store 512 (ringStart d) (off_in d) (load m sendbuf 36) m"
    using rpc_kern_write_spec [of opt ?s d 36 sendbuf] assms d by auto
  have ld: "load m sendbuf 36 = bs" using load_store_same [of sendbuf bs] len by (simp add: m_def)
  have old: "rpc_contents (m, d) = rpc_contents (rmem s, d)"
    using assms(6,7) by (simp add: rpc_contents_eq m_def store32_def ring_load_frame len)
  have s0: "load32 (rmem s1) sync = 0"
  proof -
    have "load (rmem s1) sync 4 = load m sync 4"
      using assms(7) by (intro nth_equalityI) (auto simp: m1 disjoint_ranges_def ring_store_outside)
    also have "\<dots> = load (store32 sync 0 (rmem s)) sync 4"
      using assms(8) len by (simp add: m_def load_store_disjoint)
    finally show ?thesis using load32_store32_same [of sync 0 "rmem s"] by (simp add: load32_def)
  qed
  have req: "store sendbuf (concat (map le32 (rpc_request command param1 param2 (of_nat sync) (of_nat retvalue))))
      (store32 sync 0 (rmem s)) = m"
    by (simp only: m_def bs_def rpc_request_bytes)
  have "send_rpc_command opt command param1 param2 retvalue sendbuf sync False later s =
      (case rpc_sync_wait sync (later s1) of None \<Rightarrow> None | Some m \<Rightarrow> Some (0, s1\<lparr>rmem := m\<rparr>))"
    unfolding send_rpc_command_def Let_def req
    by (simp add: w s0 split: option.splits)
  then show ?thesis using c ld old l bs_def by auto
qed

theorem send_rpc_command_request_witness:
  "\<exists>s1. send_rpc_command 1 7 8 9 3000 2048 2100 False (\<lambda>_. [\<lambda>_. 0, \<lambda>_. 1])
      \<lparr>rmem = \<lambda>_. 0, rpc_poll_devices = [], rpc_intr_devices = [],
       rpc_kern_devices = map ring_init [1024, 4096, 8192, 12288], timeout = 2, is_init = True, threads = [], reg_writes = []\<rparr> =
      Some (0, s1) \<and> load32 (rmem s1) 2100 \<noteq> 0"
proof -
  let ?s = "\<lparr>rmem = \<lambda>_. 0, rpc_poll_devices = [], rpc_intr_devices = [],
       rpc_kern_devices = map ring_init [1024, 4096, 8192, 12288], timeout = 2, is_init = True, threads = [], reg_writes = []\<rparr>"
  have h: "(1::nat) < 2" "length (rpc_kern_devices ?s) = 4" "rpc_ok (ring_init 8192)"
    "ring_init 8192 = rpc_kern_devices ?s ! (2 * 1)" "nat (ring_fill (ring_init 8192)) + 36 < 512"
    "disjoint_ranges 2048 36 (ringStart (ring_init 8192)) 512"
    "disjoint_ranges 2100 4 (ringStart (ring_init 8192)) 512" "disjoint_ranges 2100 4 2048 36"
    by (simp_all add: rpc_ok_def ring_init_def ring_fill_def disjoint_ranges_def)
  have "load32 (\<lambda>_. 1) 2100 \<noteq> 0" "load32 (\<lambda>_. 0) 2100 = 0" by code_simp+
  then show ?thesis
    using send_rpc_command_request [OF h, of 7 8 9 3000 "\<lambda>_. [\<lambda>_. 0, \<lambda>_. 1]"] by auto
qed

section \<open>The reply thread\<close>

lemma rpc_kern_read_spec:
  assumes i: "q < 2" "length (rpc_kern_devices s) = 4" and d: "d = rpc_kern_devices s ! (2 * q + 1)"
    and ok: "rpc_ok d" and cont: "rpc_contents (rmem s, d) = bs @ rest" "length bs = n" "0 < n" "n mod 4 = 0"
    and dj: "disjoint_ranges buf n (ringStart d) 512"
  shows "\<exists>s1. rpc_kern_read False q buf n s = Some (int n, s1) \<and> load (rmem s1) buf n = bs \<and>
     rpc_contents (rmem s1, rpc_kern_devices s1 ! (2 * q + 1)) = rest \<and>
     ringStart (rpc_kern_devices s1 ! (2 * q + 1)) = ringStart d"
proof -
  have idx: "q * 4 div 2 + 1 = 2 * q + 1" "2 * q + 1 < 4" using i by auto
  have fill: "nat (ring_fill d) = n + length rest"
    using arg_cong [OF cont(1), of length] cont(2) by (simp add: rpc_contents_length)
  have mn: "min n (nat (ring_fill d)) = n" using fill by simp
  have sz: "ring_fill d = int (nat (ring_fill d))" "nat (ring_fill d) \<le> 512"
    using ring_fill_bounds [OF ok] by auto
  have n: "n \<le> 512" using sz fill by simp
  have ne: "ringIn d \<noteq> ringOut d" using fill cont(3) by (auto simp: ring_fill_def)
  then have u: "ring_used d = ring_fill d" by (simp add: ring_fill_def)
  have dj': "disjoint_ranges buf (min n (nat (ring_fill d))) (ringStart d) 512" using dj mn by simp
  have r4: "round4 n = n" using n cont(4) by (rule round4_bounds(4))
  have dS: "rpc_kern_devices s ! Suc (2 * q) = d" using d by simp
  obtain m' d' where c: "ring_consume buf n (ring_fill d) (rmem s, d) = (int n, m', d')" "ringStart d' = ringStart d"
    using ring_consume_spec [OF ok sz(2) dj', of "rmem s"] sz(1) mn by simp
  have "load m' buf n = bs" "rpc_contents (m', d') = rest"
    using ring_consume_contents [OF ok dj', of "rmem s"] c cont(1,2) by (simp_all add: mn r4)
  then show ?thesis using i idx ne c u by (simp add: rpc_kern_read_def dS Let_def)
qed

lemma concat_be32_word:
  assumes "k < length ws" shows "take 4 (drop (4 * k) (concat (map be32 ws))) = be32 (ws ! k)"
  using assms
proof (induction ws arbitrary: k)
  case (Cons w ws)
  then show ?case by (cases k) auto
qed simp

text \<open>
  C3: One turn of the reply thread on a ring that starts with a whole reply (eight words in
  network order: a header with the caller's \<open>retvalue\<close> address, then its \<open>sync\<close> address and the
  result) stores the result at \<open>retvalue\<close>, sets \<open>sync\<close> to 1 and takes the reply off the ring.
\<close>

theorem rpc_kernel_thread_reply:
  assumes "q < 2" "length (rpc_kern_devices s) = 4" "d = rpc_kern_devices s ! (2 * q + 1)" "rpc_ok d"
    "rpc_contents (rmem s, d) = concat (map be32 [w0, w1, w2, w3, w4, retvalue, sync, result]) @ rest"
    "disjoint_ranges readbuf 32 (ringStart d) 512" "disjoint_ranges (unat retvalue) 4 readbuf 32"
    "disjoint_ranges (unat retvalue) 4 (ringStart d) 512" "disjoint_ranges (unat sync) 4 (ringStart d) 512"
    "disjoint_ranges (unat retvalue) 4 (unat sync) 4"
  shows "\<exists>s'. rpc_kernel_thread False (2 * q + 1) readbuf s = Some s' \<and>
    load32 (rmem s') (unat retvalue) = result \<and> load32 (rmem s') (unat sync) = 1 \<and>
    rpc_contents (rmem s', rpc_kern_devices s' ! (2 * q + 1)) = rest"
proof -
  let ?ws = "[w0, w1, w2, w3, w4, retvalue, sync, result]"
  let ?bs = "concat (map be32 ?ws)"
  have len: "length ?bs = 32" by simp
  obtain s1 where rd: "rpc_kern_read False q readbuf 32 s = Some (32, s1)" and ld: "load (rmem s1) readbuf 32 = ?bs"
    and rest: "rpc_contents (rmem s1, rpc_kern_devices s1 ! (2 * q + 1)) = rest"
    and st: "ringStart (rpc_kern_devices s1 ! (2 * q + 1)) = ringStart d"
    using rpc_kern_read_spec [OF assms(1-5) len _ _ assms(6)] by auto
  have word: "bswap32 (load32 (rmem s1) (readbuf + 4 * k)) = ?ws ! k" if "k < 8" for k
  proof -
    have "load (rmem s1) (readbuf + 4 * k) 4 = take 4 (drop (4 * k) ?bs)"
      using load_sub [of "4 * k" 4 32 "rmem s1" readbuf] that ld by simp
    also have "\<dots> = be32 (?ws ! k)" using that by (intro concat_be32_word) simp
    finally show ?thesis by (simp add: load32_def bswap_le32_of_be32)
  qed
  have w: "bswap32 (load32 (rmem s1) (readbuf + 20)) = retvalue" "bswap32 (load32 (rmem s1) (readbuf + 24)) = sync"
      "bswap32 (load32 (rmem s1) (readbuf + 28)) = result"
    using word [of 5] word [of 6] word [of 7] by simp_all
  define m1 where "m1 = store32 (unat retvalue) result (rmem s1)"
  have "load32 m1 (readbuf + 24) = load32 (rmem s1) (readbuf + 24)"
    unfolding m1_def using assms(7) by (intro load32_store32_disjoint) (auto simp: disjoint_ranges_def)
  then have w6: "bswap32 (load32 m1 (readbuf + 24)) = sync" using w(2) by simp
  have run: "rpc_kernel_thread False (2 * q + 1) readbuf s = Some (s1\<lparr>rmem := store32 (unat sync) 1 m1\<rparr>)"
    using rd w(1,3) w6 by (simp add: rpc_kernel_thread_def m1_def [symmetric] Let_def)
  have "load32 (store32 (unat sync) 1 m1) (unat retvalue) = result"
    using assms(10) by (simp add: load32_store32_disjoint m1_def)
  moreover have "rpc_contents (store32 (unat sync) 1 m1, rpc_kern_devices s1 ! (2 * q + 1)) = rest"
    using rest assms(8,9) st by (simp add: rpc_contents_eq m1_def store32_def ring_load_frame)
  ultimately show ?thesis using run by simp
qed

theorem rpc_kernel_thread_reply_witness:
  "\<exists>s'. rpc_kernel_thread False 1 2048
      \<lparr>rmem = store 4096 (concat (map be32 [0, 0, 0, 0, 0, 3000, 3004, 42])) (\<lambda>_. 0), rpc_poll_devices = [], rpc_intr_devices = [],
       rpc_kern_devices = [ring_init 1024, (ring_init 4096)\<lparr>ringIn := 4128\<rparr>, ring_init 8192, ring_init 12288],
       timeout = 2, is_init = True, threads = [], reg_writes = []\<rparr> = Some s' \<and>
     load32 (rmem s') 3000 = 42 \<and> load32 (rmem s') 3004 = 1"
proof -
  let ?bs = "concat (map be32 [0, 0, 0, 0, 0, 3000, 3004, 42])"
  let ?d = "(ring_init 4096)\<lparr>ringIn := 4128\<rparr>"
  let ?s = "\<lparr>rmem = store 4096 ?bs (\<lambda>_. 0), rpc_poll_devices = [], rpc_intr_devices = [],
       rpc_kern_devices = [ring_init 1024, ?d, ring_init 8192, ring_init 12288],
       timeout = 2, is_init = True, threads = [], reg_writes = []\<rparr>"
  have h: "(0::nat) < 2" "length (rpc_kern_devices ?s) = 4" "?d = rpc_kern_devices ?s ! (2 * 0 + 1)" "rpc_ok ?d"
    by (simp_all add: rpc_ok_def ring_init_def)
  have "rpc_contents (rmem ?s, ?d) = load (store 4096 ?bs (\<lambda>_. 0)) 4096 (length ?bs)"
    by (simp add: rpc_contents_eq ring_fill_def ring_used_def ring_init_def off_out_def ring_load_flat)
  then have c: "rpc_contents (rmem ?s, ?d) = ?bs @ []" by (simp only: load_store_same append_Nil2)
  have dj: "disjoint_ranges 2048 32 (ringStart ?d) 512" "disjoint_ranges (unat (3000::u32)) 4 2048 32"
    "disjoint_ranges (unat (3000::u32)) 4 (ringStart ?d) 512" "disjoint_ranges (unat (3004::u32)) 4 (ringStart ?d) 512"
    "disjoint_ranges (unat (3000::u32)) 4 (unat (3004::u32)) 4"
    by (simp_all add: ring_init_def disjoint_ranges_def)
  show ?thesis using rpc_kernel_thread_reply [OF h c dj] by auto
qed

section \<open>The interrupt handler\<close>

text \<open>
  The handler returns as soon as the register shows neither RPC bit; it acknowledges
  exactly the bits it saw, each time it saw them, and wakes the readers of ring 1 once per
  acknowledged audio bit and of ring 3 once per video bit. It claims the interrupt exactly when the
  first reading had one of the bits.
\<close>

lemma rpc_isr_acks:
  assumes "list_all (\<lambda>v. v AND 0x48 \<noteq> 0) vs" "v AND 0x48 = 0"
  shows "rpc_isr (vs @ v # rest) =
    Some (vs \<noteq> [],
      concat (map (\<lambda>v. (if v AND 0x08 \<noteq> 0 then [0x08] else []) @ (if v AND 0x40 \<noteq> 0 then [0x40] else [])) vs),
      concat (map (\<lambda>v. (if v AND 0x08 \<noteq> 0 then [1] else []) @ (if v AND 0x40 \<noteq> 0 then [3] else [])) vs))"
proof -
  have "rpc_isr_loop (vs @ v # rest) =
    Some (concat (map (\<lambda>v. (if v AND 0x08 \<noteq> 0 then [0x08] else []) @ (if v AND 0x40 \<noteq> 0 then [0x40] else [])) vs),
      concat (map (\<lambda>v. (if v AND 0x08 \<noteq> 0 then [1] else []) @ (if v AND 0x40 \<noteq> 0 then [3] else [])) vs))"
    using assms by (induction vs) auto
  then show ?thesis using assms by (cases vs) (auto simp: rpc_isr_def)
qed

end
