(* ===== verification/Pcmcia.thy ===== *)
theory Pcmcia
  imports Prelude
begin

text \<open>
  The PCMCIA controller (\<open>drivers/ci/pcmcia.c\<close>): accesses to the attribute and input/output memory of a card, the
  interrupt handler and the resets. The registers are hardware: an argument of the model says what reading
  one gives and what writing one does, which interrupts come while a command is waited for, and the time. The calls of the
  registered handler are recorded in their order. \<open>None\<close> is an access outside an array, or a wait that does not end.
\<close>

section \<open>Registers\<close>

datatype pc_reg = PCMCIA_CMDFF | PCMCIA_CTRL | PCMCIA_STS | MIS_ISR | PCICK_SEL | MUXPAD5

text \<open>
  \<open>irqs\<close> is the number of interrupts taken while a process waits for an access, \<open>early\<close> says that one is taken between the
  command and the note that it is running.
\<close>

record 'h bus =
  inl :: "pc_reg \<Rightarrow> 'h \<Rightarrow> u32 \<times> 'h"
  outl :: "pc_reg \<Rightarrow> u32 \<Rightarrow> 'h \<Rightarrow> 'h"
  irqs :: "'h \<Rightarrow> nat"
  early :: "'h \<Rightarrow> bool"
  jiffies :: "'h \<Rightarrow> u32"
  msleep :: "nat \<Rightarrow> 'h \<Rightarrow> 'h"

datatype camchange = CAMCHANGE_REMOVED | CAMCHANGE_INSERTED

datatype ci_call = Camchange nat camchange | Frda nat

datatype pc_run = PCMCIA_IDEL | PCMCIA_RUNING | PCMCIA_ACCESS_OK | PCMCIA_ACCESS_FAIL

record 'h pc_sys =
  hw :: 'h
  runing_state :: pc_run
  p_ci_handler :: "nat option"
  calls :: "ci_call list"

abbreviation (input) R_ERR_SUCCESS :: int where "R_ERR_SUCCESS \<equiv> 0"
abbreviation (input) R_ERR_FAILED :: int where "R_ERR_FAILED \<equiv> - 1"
abbreviation (input) R_ERR_IRQ_NOT_AVALIABLE :: int where "R_ERR_IRQ_NOT_AVALIABLE \<equiv> - 2"
abbreviation (input) MARS_PCMCIA_INT :: u32 where "MARS_PCMCIA_INT \<equiv> 0x200000"
abbreviation (input) PC_PSR :: u32 where "PC_PSR \<equiv> 0x80000000"
abbreviation (input) PC_AFI :: u32 where "PC_AFI \<equiv> 2"
abbreviation (input) PC_APFI :: u32 where "PC_APFI \<equiv> 1"
abbreviation (input) RESET_TIME :: u32 where "RESET_TIME \<equiv> 500"

text \<open>The bits of the two cards.\<close>

definition PRES :: "u32 list" where "PRES = [0x200, 0x100]"
definition PII :: "u32 list" where "PII = [0x80, 0x10]"
definition PCII_PCRI :: "u32 list" where "PCII_PCRI = [0x60, 0x0C]"
definition PCR :: "u32 list" where "PCR = [0x04000000, 0x02000000]"
definition PCR_OE :: "u32 list" where "PCR_OE = [0x01000000, 0x00800000]"
definition PC_CE1 :: "u32 list" where "PC_CE1 = [0x40000000, 0x20000000]"

definition PC_CT :: "u32 \<Rightarrow> u32" where "PC_CT x = push_bit 24 (x AND 1)"
definition PC_AT :: "u32 \<Rightarrow> u32" where "PC_AT x = push_bit 23 (x AND 1)"
definition PC_PA :: "u32 \<Rightarrow> u32" where "PC_PA x = push_bit 8 (x AND 0x7FFF)"
definition PC_DF :: "u32 \<Rightarrow> u32" where "PC_DF x = x AND 0xFF"

definition rtd_inl :: "'h bus \<Rightarrow> pc_reg \<Rightarrow> 'h pc_sys \<Rightarrow> u32 \<times> 'h pc_sys" where
  "rtd_inl B r s = (let (v, h) = inl B r (hw s) in (v, s\<lparr>hw := h\<rparr>))"

definition rtd_outl :: "'h bus \<Rightarrow> pc_reg \<Rightarrow> u32 \<Rightarrow> 'h pc_sys \<Rightarrow> 'h pc_sys" where
  "rtd_outl B r v s = s\<lparr>hw := outl B r v (hw s)\<rparr>"

text \<open>\<open>time_after a b\<close> of \<open>include/linux/jiffies.h\<close>.\<close>

definition time_after :: "u32 \<Rightarrow> u32 \<Rightarrow> bool" where
  "time_after a b \<longleftrightarrow> sint (b - a) < 0"

section \<open>The controller\<close>

definition rtdpc_probe :: "'h bus \<Rightarrow> 'h pc_sys \<Rightarrow> int \<times> 'h pc_sys" where
  "rtdpc_probe B s =
     (let s = rtd_outl B PCICK_SEL 0 s;
          (v, s) = rtd_inl B MUXPAD5 s;
          s = rtd_outl B MUXPAD5 ((v AND NOT 0x3FFC0) OR 0x11140) s;
          (p, s) = rtd_inl B PCICK_SEL s
      in if p \<noteq> 0 then (R_ERR_FAILED, s)
         else let (v, s) = rtd_inl B MUXPAD5 s
              in if v AND 0x3FFC0 \<noteq> 0x11140 then (R_ERR_FAILED, s) else (R_ERR_SUCCESS, s))"

definition rtdpc_reset :: "'h bus \<Rightarrow> 'h pc_sys \<Rightarrow> 'h pc_sys" where
  "rtdpc_reset B s = (let (v, s) = rtd_inl B PCMCIA_CTRL s in rtd_outl B PCMCIA_CTRL (v OR PC_PSR) s)"

definition rtdpc_card_status :: "'h bus \<Rightarrow> nat \<Rightarrow> 'h pc_sys \<Rightarrow> (bool \<times> 'h pc_sys) option" where
  "rtdpc_card_status B slot s =
     (if slot \<le> 2 then
        let (v, s) = rtd_inl B PCMCIA_STS s
        in if slot < length PRES then Some (v AND PRES ! slot \<noteq> 0, s) else None
      else Some (False, s))"

definition rtdpc_port_enable :: "'h bus \<Rightarrow> nat \<Rightarrow> bool \<Rightarrow> 'h pc_sys \<Rightarrow> (int \<times> 'h pc_sys) option" where
  "rtdpc_port_enable B slot enable s =
     (if slot \<ge> 2 then Some (R_ERR_FAILED, s)
      else if enable then do {
        (present, s) \<leftarrow> rtdpc_card_status B slot s;
        if \<not> present then Some (R_ERR_FAILED, s)
        else let (v, s) = rtd_inl B PCMCIA_CTRL s
             in Some (R_ERR_SUCCESS, rtd_outl B PCMCIA_CTRL (v OR PCR_OE ! slot) s)
      }
      else let (v, s) = rtd_inl B PCMCIA_CTRL s
           in Some (R_ERR_SUCCESS, rtd_outl B PCMCIA_CTRL (v AND NOT (PCR_OE ! slot)) s))"

text \<open>
  The two waits of the hardware reset. The first one is a loop with an empty body: its time-out test stands behind the
  semicolon and runs once, after the loop.
\<close>

partial_function (option) reset_poll :: "'h bus \<Rightarrow> u32 \<Rightarrow> 'h pc_sys \<Rightarrow> 'h pc_sys option" where
  [code]: "reset_poll B b s =
     (let (v, s) = rtd_inl B PCMCIA_CTRL s in if v AND b \<noteq> 0 then reset_poll B b s else Some s)"

partial_function (option) request_poll :: "'h bus \<Rightarrow> u32 \<Rightarrow> u32 \<Rightarrow> 'h pc_sys \<Rightarrow> (bool \<times> 'h pc_sys) option" where
  [code]: "request_poll B b timeout s =
     (let (v, s) = rtd_inl B PCMCIA_STS s
      in if v AND b \<noteq> 0 then
           if time_after (jiffies B (hw s)) timeout then Some (False, s) else request_poll B b timeout s
         else Some (True, s))"

definition rtdpc_hw_reset :: "'h bus \<Rightarrow> nat \<Rightarrow> 'h pc_sys \<Rightarrow> 'h pc_sys option" where
  "rtdpc_hw_reset B slot s =
     (if slot \<ge> 2 then Some s
      else
        let (v, s) = rtd_inl B PCMCIA_STS s
        in if v AND PRES ! slot = 0 then Some s
           else
             let s = rtd_outl B PCMCIA_STS (PII ! slot) s;
                 timeout = jiffies B (hw s) + RESET_TIME;
                 (v, s) = rtd_inl B PCMCIA_CTRL s;
                 s = rtd_outl B PCMCIA_CTRL (v OR PCR ! slot) s
             in do {
               s \<leftarrow> reset_poll B (PCR ! slot) s;
               if time_after (jiffies B (hw s)) timeout then Some s
               else do {
                 (done, s) \<leftarrow> request_poll B (PII ! slot) timeout s;
                 if \<not> done then Some s else Some (rtd_outl B PCMCIA_STS (PII ! slot) s)
               }
             })"

section \<open>Interrupts\<close>

definition call_handler :: "ci_call \<Rightarrow> 'h pc_sys \<Rightarrow> 'h pc_sys" where
  "call_handler c s = (if p_ci_handler s \<noteq> None then s\<lparr>calls := calls s @ [c]\<rparr> else s)"

text \<open>The reaction to the insertion or removal of card \<open>slot\<close>.\<close>

definition card_change :: "'h bus \<Rightarrow> nat \<Rightarrow> 'h pc_sys \<Rightarrow> 'h pc_sys option" where
  "card_change B slot s = do {
     (present, s) \<leftarrow> rtdpc_card_status B slot s;
     (_, s) \<leftarrow> rtdpc_port_enable B slot present s;
     Some (call_handler (Camchange slot (if present then CAMCHANGE_INSERTED else CAMCHANGE_REMOVED)) s)
   }"

definition rtdpc_isr :: "'h bus \<Rightarrow> 'h pc_sys \<Rightarrow> (bool \<times> 'h pc_sys) option" where
  "rtdpc_isr B s =
     (let (event, s) = rtd_inl B PCMCIA_STS s;
          (m, s) = rtd_inl B MIS_ISR s
      in if m AND MARS_PCMCIA_INT = 0 then Some (False, s)
         else do {
           s \<leftarrow> (if event AND PCII_PCRI ! 0 \<noteq> 0 then card_change B 0 s else Some s);
           s \<leftarrow> (if event AND PCII_PCRI ! 1 \<noteq> 0 then card_change B 1 s else Some s);
           let s = (if event AND PC_APFI \<noteq> 0 then s\<lparr>runing_state := PCMCIA_ACCESS_OK\<rparr> else s);
           let s = (if event AND PC_AFI \<noteq> 0 then rtdpc_reset B (s\<lparr>runing_state := PCMCIA_ACCESS_FAIL\<rparr>) else s);
           let s = (if event AND PII ! 0 \<noteq> 0 then call_handler (Frda 0) s else s);
           let s = (if event AND PII ! 1 \<noteq> 0 then call_handler (Frda 1) s else s);
           Some (True, rtd_outl B MIS_ISR MARS_PCMCIA_INT (rtd_outl B PCMCIA_STS 0xFF s))
         })"

section \<open>Accesses\<close>

text \<open>The wait for the end of an access: at most \<open>k\<close> interrupts before the time is up.\<close>

fun wait_access :: "'h bus \<Rightarrow> nat \<Rightarrow> 'h pc_sys \<Rightarrow> 'h pc_sys option" where
  "wait_access B 0 s = Some s"
| "wait_access B (Suc k) s =
     (if runing_state s \<noteq> PCMCIA_RUNING then Some s
      else case rtdpc_isr B s of None \<Rightarrow> None | Some (_, s) \<Rightarrow> wait_access B k s)"

definition access_result :: "'h bus \<Rightarrow> 'h pc_sys \<Rightarrow> int \<times> 'h pc_sys" where
  "access_result B s =
     (case runing_state s of
        PCMCIA_ACCESS_OK \<Rightarrow> (R_ERR_SUCCESS, s)
      | PCMCIA_ACCESS_FAIL \<Rightarrow> (R_ERR_FAILED, s)
      | PCMCIA_RUNING \<Rightarrow> (R_ERR_FAILED, rtdpc_reset B (rtd_outl B PCMCIA_STS (PC_AFI OR PC_APFI) s))
      | PCMCIA_IDEL \<Rightarrow> (0x80, s))"

definition rtdpc_do_cmd :: "'h bus \<Rightarrow> u32 \<Rightarrow> nat \<Rightarrow> 'h pc_sys \<Rightarrow> (int \<times> 'h pc_sys) option" where
  "rtdpc_do_cmd B cmd slot s =
     (if slot \<ge> 2 then Some (R_ERR_FAILED, s)
      else
        let (c, s) = rtd_inl B PCMCIA_CTRL s
        in if c AND PCR_OE ! slot = 0 then Some (R_ERR_FAILED, s)
           else if runing_state s \<noteq> PCMCIA_IDEL then None
           else
             let s = rtd_outl B PCMCIA_STS (PC_AFI OR PC_APFI) s;
                 (c, s) = rtd_inl B PCMCIA_CTRL s;
                 s = rtd_outl B PCMCIA_CTRL (c OR PC_CE1 ! slot OR PC_AFI OR PC_APFI) s;
                 s = rtd_outl B PCMCIA_CMDFF cmd s
             in do {
               s \<leftarrow> (if early B (hw s) then map_option snd (rtdpc_isr B s) else Some s);
               s \<leftarrow> wait_access B (irqs B (hw s)) (s\<lparr>runing_state := PCMCIA_RUNING\<rparr>);
               let (ret, s) = access_result B s;
               let (c, s) = rtd_inl B PCMCIA_CTRL (s\<lparr>runing_state := PCMCIA_IDEL\<rparr>);
               Some (ret, rtd_outl B PCMCIA_CTRL (c AND NOT (PC_AFI OR PC_APFI)) s)
             })"

text \<open>The result of a read is one byte: a failed access reads as 0.\<close>

definition rtdpc_readMem :: "'h bus \<Rightarrow> nat \<Rightarrow> nat \<Rightarrow> nat \<Rightarrow> 'h pc_sys \<Rightarrow> (u8 \<times> 'h pc_sys) option" where
  "rtdpc_readMem B addr mode slot s = do {
     (r, s) \<leftarrow> rtdpc_do_cmd B (PC_CT 0 OR PC_AT (of_nat mode) OR PC_PA (of_nat addr)) (slot mod 256) s;
     if r = R_ERR_SUCCESS then
       let (v, s) = rtd_inl B PCMCIA_CMDFF s in Some (ucast (v AND 0xFF), s)
     else Some (0, s)
   }"

definition rtdpc_writeMem :: "'h bus \<Rightarrow> nat \<Rightarrow> u8 \<Rightarrow> nat \<Rightarrow> nat \<Rightarrow> 'h pc_sys \<Rightarrow> (int \<times> 'h pc_sys) option" where
  "rtdpc_writeMem B addr d mode slot s =
     rtdpc_do_cmd B (PC_CT 1 OR PC_AT (of_nat mode) OR PC_PA (of_nat addr) OR PC_DF (ucast d)) (slot mod 256) s"

section \<open>Registration\<close>

definition register_card :: "'h bus \<Rightarrow> nat \<Rightarrow> 'h pc_sys \<Rightarrow> 'h pc_sys option" where
  "register_card B i s = do {
     (present, s) \<leftarrow> rtdpc_card_status B i s;
     if present then do {
       (_, s) \<leftarrow> rtdpc_port_enable B i True s;
       Some (call_handler (Camchange i CAMCHANGE_INSERTED) s)
     } else Some s
   }"

definition rtdpc_registerCiIntHandler :: "'h bus \<Rightarrow> nat option \<Rightarrow> 'h pc_sys \<Rightarrow> (int \<times> 'h pc_sys) option" where
  "rtdpc_registerCiIntHandler B p_isr s =
     (if p_ci_handler s \<noteq> None \<or> p_isr = None then Some (R_ERR_FAILED, s)
      else do {
        s \<leftarrow> register_card B 0 (s\<lparr>p_ci_handler := p_isr\<rparr>);
        s \<leftarrow> register_card B 1 s;
        Some (R_ERR_SUCCESS, s)
      })"

definition rtdpc_unregisterCiIntHandler :: "nat option \<Rightarrow> 'h pc_sys \<Rightarrow> int \<times> 'h pc_sys" where
  "rtdpc_unregisterCiIntHandler p_isr s =
     (if p_ci_handler s = p_isr then (R_ERR_SUCCESS, s\<lparr>p_ci_handler := None\<rparr>) else (R_ERR_FAILED, s))"

text \<open>\<open>irq\<close> is the result of requesting the interrupt line.\<close>

definition mars_pcmcia_module_init :: "'h bus \<Rightarrow> int \<Rightarrow> 'h pc_sys \<Rightarrow> int \<times> 'h pc_sys" where
  "mars_pcmcia_module_init B irq s =
     (let (r, s) = rtdpc_probe B s
      in if r = R_ERR_SUCCESS then
           let s = rtd_outl B PCMCIA_STS 0xFF (rtd_outl B PCMCIA_CTRL PC_PSR s)
           in if irq < 0 then (R_ERR_IRQ_NOT_AVALIABLE, s) else (0, rtd_outl B PCMCIA_CTRL 0x6C s)
         else (- ENODEV, s))"

definition mars_pcmcia_module_exit :: "'h bus \<Rightarrow> 'h pc_sys \<Rightarrow> 'h pc_sys" where
  "mars_pcmcia_module_exit B s = rtd_outl B PCMCIA_CTRL 0 s"

end
