(* ===== verification/Dvb_Ringbuffer.thy ===== *)
theory Dvb_Ringbuffer
  imports Fifo
begin

text \<open>
  The ring buffer of the common-interface driver (\<open>drivers/ci/dvb_ringbuffer.c\<close>): the byte ring,
  its packet layer (a three-byte header of length and status in front of each packet), and their
  behaviour. The data area is the list of its bytes; an access outside it is \<open>None\<close>. Buffers of the
  caller are byte lists; \<open>fault k\<close> says that the \<open>k\<close>-th \<open>copy_to_user\<close> of a call fails.
\<close>

section \<open>State and byte operations\<close>

record dvb_ringbuffer =
  rb_data :: "u8 list"
  rb_size :: nat
  pread :: nat
  pwrite :: nat

abbreviation (input) PKT_READY :: u8 where "PKT_READY \<equiv> 0"
abbreviation (input) PKT_DISPOSED :: u8 where "PKT_DISPOSED \<equiv> 1"
abbreviation (input) DVB_RINGBUFFER_PKTHDRSIZE :: nat where "DVB_RINGBUFFER_PKTHDRSIZE \<equiv> 3"

definition dvb_ringbuffer_init :: "u8 list \<Rightarrow> nat \<Rightarrow> dvb_ringbuffer" where
  "dvb_ringbuffer_init mem len = \<lparr>rb_data = mem, rb_size = len, pread = 0, pwrite = 0\<rparr>"

definition dvb_ringbuffer_empty :: "dvb_ringbuffer \<Rightarrow> bool" where
  "dvb_ringbuffer_empty rbuf \<longleftrightarrow> pread rbuf = pwrite rbuf"

definition dvb_ringbuffer_free :: "dvb_ringbuffer \<Rightarrow> int" where
  "dvb_ringbuffer_free rbuf =
     (let free = int (pread rbuf) - int (pwrite rbuf);
          free = (if free \<le> 0 then free + int (rb_size rbuf) else free)
      in free - 1)"

definition dvb_ringbuffer_avail :: "dvb_ringbuffer \<Rightarrow> int" where
  "dvb_ringbuffer_avail rbuf =
     (let avail = int (pwrite rbuf) - int (pread rbuf)
      in if avail < 0 then avail + int (rb_size rbuf) else avail)"

definition dvb_ringbuffer_flush :: "dvb_ringbuffer \<Rightarrow> dvb_ringbuffer" where
  "dvb_ringbuffer_flush rbuf = rbuf\<lparr>pread := pwrite rbuf\<rparr>"

text \<open>\<open>memcpy\<close> out of and into the data area.\<close>

definition read_at :: "u8 list \<Rightarrow> nat \<Rightarrow> nat \<Rightarrow> u8 list option" where
  "read_at xs i n = (if i + n \<le> length xs then Some (take n (drop i xs)) else None)"

definition write_at :: "u8 list \<Rightarrow> nat \<Rightarrow> u8 list \<Rightarrow> u8 list option" where
  "write_at xs i bs =
     (if i + length bs \<le> length xs then Some (take i xs @ bs @ drop (i + length bs) xs) else None)"

text \<open>One byte of the data area, \<open>None\<close> outside it.\<close>

definition byte_at :: "dvb_ringbuffer \<Rightarrow> nat \<Rightarrow> u8 option" where
  "byte_at rbuf i = (if i < length (rb_data rbuf) then Some (rb_data rbuf ! i) else None)"

text \<open>The result is the return value, the bytes copied out, and the ring.\<close>

definition dvb_ringbuffer_read ::
  "dvb_ringbuffer \<Rightarrow> nat \<Rightarrow> bool \<Rightarrow> (nat \<Rightarrow> bool) \<Rightarrow> (int \<times> u8 list \<times> dvb_ringbuffer) option" where
  "dvb_ringbuffer_read rbuf len usermem fault =
     (let split = (if pread rbuf + len > rb_size rbuf then rb_size rbuf - pread rbuf else 0)
      in if split > 0 then do {
           part1 \<leftarrow> read_at (rb_data rbuf) (pread rbuf) split;
           if usermem \<and> fault 0 then Some (- EFAULT, [], rbuf)
           else do {
             let todo = len - split;
             part2 \<leftarrow> read_at (rb_data rbuf) 0 todo;
             if usermem \<and> fault 1 then Some (- EFAULT, part1, rbuf\<lparr>pread := 0\<rparr>)
             else Some (int len, part1 @ part2, rbuf\<lparr>pread := (0 + todo) mod rb_size rbuf\<rparr>)
           }
         }
         else do {
           part \<leftarrow> read_at (rb_data rbuf) (pread rbuf) len;
           if usermem \<and> fault 0 then Some (- EFAULT, [], rbuf)
           else Some (int len, part, rbuf\<lparr>pread := (pread rbuf + len) mod rb_size rbuf\<rparr>)
         })"

definition dvb_ringbuffer_write :: "dvb_ringbuffer \<Rightarrow> u8 list \<Rightarrow> (int \<times> dvb_ringbuffer) option" where
  "dvb_ringbuffer_write rbuf buf =
     (let len = length buf;
          split = (if pwrite rbuf + len > rb_size rbuf then rb_size rbuf - pwrite rbuf else 0)
      in if split > 0 then do {
           d1 \<leftarrow> write_at (rb_data rbuf) (pwrite rbuf) (take split buf);
           d2 \<leftarrow> write_at d1 0 (drop split buf);
           Some (int len, rbuf\<lparr>rb_data := d2, pwrite := (0 + (len - split)) mod rb_size rbuf\<rparr>)
         }
         else do {
           d \<leftarrow> write_at (rb_data rbuf) (pwrite rbuf) buf;
           Some (int len, rbuf\<lparr>rb_data := d, pwrite := (pwrite rbuf + len) mod rb_size rbuf\<rparr>)
         })"

section \<open>Packets\<close>

definition dvb_ringbuffer_write_byte :: "u8 \<Rightarrow> dvb_ringbuffer \<Rightarrow> dvb_ringbuffer option" where
  "dvb_ringbuffer_write_byte b rbuf = do {
     d \<leftarrow> write_at (rb_data rbuf) (pwrite rbuf) [b];
     Some (rbuf\<lparr>rb_data := d, pwrite := (pwrite rbuf + 1) mod rb_size rbuf\<rparr>)
   }"

definition dvb_ringbuffer_peek :: "dvb_ringbuffer \<Rightarrow> nat \<Rightarrow> u8 option" where
  "dvb_ringbuffer_peek rbuf offs = byte_at rbuf ((pread rbuf + offs) mod rb_size rbuf)"

definition dvb_ringbuffer_skip :: "nat \<Rightarrow> dvb_ringbuffer \<Rightarrow> dvb_ringbuffer" where
  "dvb_ringbuffer_skip num rbuf = rbuf\<lparr>pread := (pread rbuf + num) mod rb_size rbuf\<rparr>"

definition dvb_ringbuffer_pkt_write :: "dvb_ringbuffer \<Rightarrow> u8 list \<Rightarrow> (int \<times> dvb_ringbuffer) option" where
  "dvb_ringbuffer_pkt_write rbuf buf =
     (let oldpwrite = pwrite rbuf; len = length buf
      in do {
        rbuf \<leftarrow> dvb_ringbuffer_write_byte (of_nat (len div 256)) rbuf;
        rbuf \<leftarrow> dvb_ringbuffer_write_byte (of_nat (len mod 256)) rbuf;
        rbuf \<leftarrow> dvb_ringbuffer_write_byte PKT_READY rbuf;
        (status, rbuf) \<leftarrow> dvb_ringbuffer_write rbuf buf;
        Some (status, if status < 0 then rbuf\<lparr>pwrite := oldpwrite\<rparr> else rbuf)
      })"

text \<open>The two length bytes of the header at index \<open>idx\<close>.\<close>

definition pkt_len_at :: "dvb_ringbuffer \<Rightarrow> nat \<Rightarrow> nat option" where
  "pkt_len_at rbuf idx = do {
     hi \<leftarrow> byte_at rbuf idx;
     lo \<leftarrow> byte_at rbuf ((idx + 1) mod rb_size rbuf);
     Some (unat hi * 256 + unat lo)
   }"

definition dvb_ringbuffer_pkt_read ::
  "dvb_ringbuffer \<Rightarrow> nat \<Rightarrow> nat \<Rightarrow> nat \<Rightarrow> bool \<Rightarrow> (nat \<Rightarrow> bool) \<Rightarrow> (int \<times> u8 list) option" where
  "dvb_ringbuffer_pkt_read rbuf idx offset len usermem fault = do {
     pktlen \<leftarrow> pkt_len_at rbuf idx;
     if offset > pktlen then Some (- EINVAL, [])
     else do {
       let len = (if offset + len > pktlen then pktlen - offset else len);
       let idx = (idx + DVB_RINGBUFFER_PKTHDRSIZE + offset) mod rb_size rbuf;
       let split = (if idx + len > rb_size rbuf then rb_size rbuf - idx else 0);
       if split > 0 then do {
         part1 \<leftarrow> read_at (rb_data rbuf) idx split;
         if usermem \<and> fault 0 then Some (- EFAULT, [])
         else do {
           part2 \<leftarrow> read_at (rb_data rbuf) 0 (len - split);
           if usermem \<and> fault 1 then Some (- EFAULT, part1) else Some (int len, part1 @ part2)
         }
       }
       else do {
         part \<leftarrow> read_at (rb_data rbuf) idx len;
         if usermem \<and> fault 0 then Some (- EFAULT, []) else Some (int len, part)
       }
     }
   }"

text \<open>
  The clean-up loop of \<open>dvb_ringbuffer_pkt_dispose\<close>. A corrupt length can send it round for ever,
  so not returning is a possible value (\<open>None\<close>, as for an access outside the data area).
\<close>

partial_function (option) pkt_cleanup :: "dvb_ringbuffer \<Rightarrow> dvb_ringbuffer option" where
  [code]: "pkt_cleanup rbuf =
     (if dvb_ringbuffer_avail rbuf > int DVB_RINGBUFFER_PKTHDRSIZE then
        Option.bind (dvb_ringbuffer_peek rbuf 2) (\<lambda>status.
        if status = PKT_DISPOSED then
          Option.bind (dvb_ringbuffer_peek rbuf 0) (\<lambda>hi.
          Option.bind (dvb_ringbuffer_peek rbuf 1) (\<lambda>lo.
          pkt_cleanup (dvb_ringbuffer_skip (unat hi * 256 + unat lo + DVB_RINGBUFFER_PKTHDRSIZE) rbuf)))
        else Some rbuf)
      else Some rbuf)"

definition dvb_ringbuffer_pkt_dispose :: "dvb_ringbuffer \<Rightarrow> nat \<Rightarrow> dvb_ringbuffer option" where
  "dvb_ringbuffer_pkt_dispose rbuf idx = do {
     d \<leftarrow> write_at (rb_data rbuf) ((idx + 2) mod rb_size rbuf) [PKT_DISPOSED];
     pkt_cleanup (rbuf\<lparr>rb_data := d\<rparr>)
   }"

text \<open>
  The search loop of \<open>dvb_ringbuffer_pkt_next\<close>: \<open>Some (Some (idx, pktlen))\<close> is a packet found,
  \<open>Some None\<close> the result -1, \<open>None\<close> an access outside the data area.
\<close>

function pkt_search :: "dvb_ringbuffer \<Rightarrow> nat \<Rightarrow> int \<Rightarrow> (nat \<times> nat) option option" where
  "pkt_search rbuf idx consumed =
     (if dvb_ringbuffer_avail rbuf - consumed > int DVB_RINGBUFFER_PKTHDRSIZE then
        case pkt_len_at rbuf idx of
          None \<Rightarrow> None
        | Some curpktlen \<Rightarrow>
            (case byte_at rbuf ((idx + 2) mod rb_size rbuf) of
               None \<Rightarrow> None
             | Some curpktstatus \<Rightarrow>
                 if curpktstatus = PKT_READY then Some (Some (idx, curpktlen))
                 else pkt_search rbuf ((idx + curpktlen + DVB_RINGBUFFER_PKTHDRSIZE) mod rb_size rbuf)
                        (consumed + int curpktlen + int DVB_RINGBUFFER_PKTHDRSIZE))
      else Some None)"
  by pat_completeness auto
termination
  by (relation "measure (\<lambda>(rbuf, idx, consumed). nat (dvb_ringbuffer_avail rbuf - consumed))") auto

declare pkt_search.simps [simp del]

text \<open>
  \<open>idx\<close> is \<open>None\<close> for the caller's -1. \<open>idx - rbuf->pread\<close> is computed in unsigned arithmetic, so
  it wraps at \<open>2 ^ 32\<close> before the remainder is taken.
\<close>

definition dvb_ringbuffer_pkt_next :: "dvb_ringbuffer \<Rightarrow> nat option \<Rightarrow> (nat \<times> nat) option option" where
  "dvb_ringbuffer_pkt_next rbuf idx =
     (case idx of
        None \<Rightarrow> pkt_search rbuf (pread rbuf) (int (to_u32 (int (pread rbuf) - int (pread rbuf)) mod rb_size rbuf))
      | Some idx \<Rightarrow> do {
          curpktlen \<leftarrow> pkt_len_at rbuf idx;
          let idx = (idx + curpktlen + DVB_RINGBUFFER_PKTHDRSIZE) mod rb_size rbuf;
          pkt_search rbuf idx (int (to_u32 (int idx - int (pread rbuf)) mod rb_size rbuf))
        })"

section \<open>Invariant and abstraction\<close>

definition rb_ok :: "dvb_ringbuffer \<Rightarrow> bool" where
  "rb_ok rbuf \<longleftrightarrow> length (rb_data rbuf) = rb_size rbuf \<and> rb_size rbuf < 2 ^ 31 \<and>
     pread rbuf < rb_size rbuf \<and> pwrite rbuf < rb_size rbuf"

definition rb_fill :: "dvb_ringbuffer \<Rightarrow> nat" where
  "rb_fill rbuf = (pwrite rbuf + rb_size rbuf - pread rbuf) mod rb_size rbuf"

definition rb_contents :: "dvb_ringbuffer \<Rightarrow> u8 list" where
  "rb_contents rbuf = ring_load (rb_size rbuf) 0 (pread rbuf) (rb_fill rbuf) ((!) (rb_data rbuf))"

lemma length_rb_contents [simp]: "length (rb_contents r) = rb_fill r"
  by (simp add: rb_contents_def)

lemma rb_fill_facts:
  assumes "rb_ok r"
  shows "rb_fill r < rb_size r" "pwrite r = (pread r + rb_fill r) mod rb_size r"
    "dvb_ringbuffer_avail r = int (rb_fill r)" "dvb_ringbuffer_free r = int (rb_size r) - int (rb_fill r) - 1"
  using assms
  by (auto simp: rb_ok_def rb_fill_def dvb_ringbuffer_avail_def dvb_ringbuffer_free_def Let_def ring_distance
      ring_pos_lt)

lemma rb_fill_unique:
  assumes "rb_ok r" "pwrite r = (pread r + k) mod rb_size r" "k < rb_size r"
  shows "rb_fill r = k"
  using rb_fill_facts(1,2) [OF assms(1)] assms(2,3) ring_pos_inj by metis

lemma nth_write_at:
  "write_at xs i bs = Some ys \<Longrightarrow> ((!) ys) = store i bs ((!) xs) \<and> length ys = length xs"
proof -
  assume "write_at xs i bs = Some ys"
  then have le: "i + length bs \<le> length xs" and ys: "ys = take i xs @ bs @ drop (i + length bs) xs"
    by (auto simp: write_at_def split: if_splits)
  have "ys ! x = store i bs ((!) xs) x" for x
    using le by (cases "x < i"; cases "x < i + length bs") (auto simp: ys store_def nth_append min_absorb2)
  then show ?thesis using le by (auto simp: ys)
qed

lemma write_at_Some: "i + length bs \<le> length xs \<Longrightarrow> \<exists>ys. write_at xs i bs = Some ys"
  by (simp add: write_at_def)

lemma read_at_load: "i + n \<le> length xs \<Longrightarrow> read_at xs i n = Some (load ((!) xs) i n)"
  by (auto simp: read_at_def intro: nth_equalityI)

text \<open>Both ends move as the ring arithmetic says, in one piece or in two.\<close>

lemma dvb_ringbuffer_write_spec:
  assumes ok: "rb_ok r" and len: "length bs \<le> rb_size r"
  shows "\<exists>d. dvb_ringbuffer_write r bs =
      Some (int (length bs), r\<lparr>rb_data := d, pwrite := (pwrite r + length bs) mod rb_size r\<rparr>) \<and>
    length d = rb_size r \<and> ((!) d) = ring_store (rb_size r) 0 (pwrite r) bs ((!) (rb_data r))"
proof (cases "pwrite r + length bs > rb_size r")
  case True
  define k where "k = rb_size r - pwrite r"
  have k: "0 < k" "k < length bs" "pwrite r + k = rb_size r" using ok True by (auto simp: k_def rb_ok_def)
  obtain d1 where d1: "write_at (rb_data r) (pwrite r) (take k bs) = Some d1"
    using write_at_Some [of "pwrite r" "take k bs" "rb_data r"] ok k by (auto simp: rb_ok_def)
  note n1 = nth_write_at [OF d1]
  obtain d2 where d2: "write_at d1 0 (drop k bs) = Some d2"
    using write_at_Some [of 0 "drop k bs" d1] ok len n1 by (auto simp: rb_ok_def le_diff_conv)
  note n2 = nth_write_at [OF d2]
  have pos: "(pwrite r + length bs) mod rb_size r = (length bs - k) mod rb_size r"
  proof -
    have "pwrite r + length bs = (length bs - k) + rb_size r" using k by simp
    then show ?thesis by simp
  qed
  have st: "((!) d2) = ring_store (rb_size r) 0 (pwrite r) bs ((!) (rb_data r))"
    using n1 n2 ring_store_wrap [of "pwrite r" "rb_size r" bs 0] ok len True by (simp add: k_def rb_ok_def)
  have "dvb_ringbuffer_write r bs =
      Some (int (length bs), r\<lparr>rb_data := d2, pwrite := (pwrite r + length bs) mod rb_size r\<rparr>)"
    unfolding pos using True d1 d2 k by (simp add: dvb_ringbuffer_write_def k_def [symmetric] Let_def)
  then show ?thesis using st n1 n2 ok by (auto simp: rb_ok_def)
next
  case False
  obtain d where d: "write_at (rb_data r) (pwrite r) bs = Some d"
    using write_at_Some [of "pwrite r" bs "rb_data r"] ok False by (auto simp: rb_ok_def)
  have "((!) d) = ring_store (rb_size r) 0 (pwrite r) bs ((!) (rb_data r))"
    using nth_write_at [OF d] ring_store_flat [of "pwrite r" "rb_size r" bs 0] ok False by (simp add: rb_ok_def)
  then show ?thesis
    using d False nth_write_at [OF d] ok by (auto simp: dvb_ringbuffer_write_def rb_ok_def Let_def)
qed

lemma read_split:
  assumes "length xs = n" "p < n" "len \<le> n"
  shows "(let split = (if p + len > n then n - p else 0) in
     if split > 0 then do { a \<leftarrow> read_at xs p split; b \<leftarrow> read_at xs 0 (len - split); Some (a @ b) }
     else read_at xs p len) = Some (ring_load n 0 p len ((!) xs))"
  using assms by (auto simp: read_at_load ring_load_flat ring_load_wrap Let_def)

lemma dvb_ringbuffer_read_spec:
  assumes ok: "rb_ok r" and len: "len \<le> rb_size r" and nf: "\<not> usermem \<or> (\<not> fault 0 \<and> \<not> fault 1)"
  shows "dvb_ringbuffer_read r len usermem fault =
    Some (int len, ring_load (rb_size r) 0 (pread r) len ((!) (rb_data r)),
      r\<lparr>pread := (pread r + len) mod rb_size r\<rparr>)"
proof -
  have pos: "(pread r + len) mod rb_size r = (len - (rb_size r - pread r)) mod rb_size r"
    if "pread r + len > rb_size r"
  proof -
    have "pread r + len = (len - (rb_size r - pread r)) + rb_size r" using that ok by (auto simp: rb_ok_def)
    then show ?thesis by (metis mod_add_self2)
  qed
  show ?thesis
    using ok len nf pos
    by (auto simp: dvb_ringbuffer_read_def rb_ok_def read_at_load ring_load_flat ring_load_wrap Let_def)
qed

text \<open>Appending to and dropping from the queued bytes.\<close>

lemma rb_contents_append:
  assumes ok: "rb_ok r" and room: "rb_fill r + length bs < rb_size r"
    and d: "length d = rb_size r" "((!) d) = ring_store (rb_size r) 0 (pwrite r) bs ((!) (rb_data r))"
  defines "r' \<equiv> r\<lparr>rb_data := d, pwrite := (pwrite r + length bs) mod rb_size r\<rparr>"
  shows "rb_ok r'" "rb_contents r' = rb_contents r @ bs"
proof -
  note f = rb_fill_facts [OF ok]
  show ok': "rb_ok r'" using ok d by (auto simp: rb_ok_def r'_def)
  have "pwrite r' = (pread r' + (rb_fill r + length bs)) mod rb_size r'"
    using f(2) by (simp add: r'_def mod_simps add.assoc)
  then have fill: "rb_fill r' = rb_fill r + length bs"
    using rb_fill_unique [OF ok'] room by (simp add: r'_def)
  show "rb_contents r' = rb_contents r @ bs"
    using ring_load_store_append [of "pread r" "rb_size r" "rb_fill r" bs 0 0 "(!) (rb_data r)"] ok room
    by (simp add: rb_contents_def fill d(2) f(2) [symmetric] rb_ok_def) (simp add: r'_def d(2))
qed

lemma rb_contents_drop:
  assumes ok: "rb_ok r" and k: "k \<le> rb_fill r"
  shows "rb_ok (r\<lparr>pread := (pread r + k) mod rb_size r\<rparr>)"
    "rb_contents (r\<lparr>pread := (pread r + k) mod rb_size r\<rparr>) = drop k (rb_contents r)"
proof -
  let ?r = "r\<lparr>pread := (pread r + k) mod rb_size r\<rparr>"
  note f = rb_fill_facts [OF ok]
  show ok': "rb_ok ?r" using ok by (auto simp: rb_ok_def)
  have "pwrite ?r = (pread ?r + (rb_fill r - k)) mod rb_size ?r"
    using f(2) k ring_pos_add [of "pread r" k "rb_size r" "rb_fill r - k"] by simp
  then have "rb_fill ?r = rb_fill r - k" using rb_fill_unique [OF ok'] f(1) by simp
  then show "rb_contents ?r = drop k (rb_contents r)" using k by (simp add: rb_contents_def drop_ring_load)
qed

section \<open>The byte ring as a FIFO\<close>

text \<open>
  A client that follows the protocol of the header file: check \<open>dvb_ringbuffer_free\<close> before a write
  and read no more than \<open>dvb_ringbuffer_avail\<close>.
\<close>

definition dvb_put :: "u8 list \<Rightarrow> dvb_ringbuffer \<Rightarrow> bool \<times> dvb_ringbuffer" where
  "dvb_put bs r =
     (if dvb_ringbuffer_free r \<ge> int (length bs)
      then (case dvb_ringbuffer_write r bs of Some (_, r') \<Rightarrow> (True, r') | None \<Rightarrow> (False, r))
      else (False, r))"

definition dvb_get :: "nat \<Rightarrow> dvb_ringbuffer \<Rightarrow> u8 list \<times> dvb_ringbuffer" where
  "dvb_get n r =
     (case dvb_ringbuffer_read r (nat (min (dvb_ringbuffer_avail r) (int n))) False (\<lambda>_. False) of
        Some (_, bs, r') \<Rightarrow> (bs, r') | None \<Rightarrow> ([], r))"

lemma dvb_put_spec:
  assumes "rb_ok r"
  shows "fst (dvb_put bs r) \<longleftrightarrow> length (rb_contents r) + length bs < rb_size r"
    "rb_contents (snd (dvb_put bs r)) = (if fst (dvb_put bs r) then rb_contents r @ bs else rb_contents r)"
    "rb_ok (snd (dvb_put bs r))" "rb_size (snd (dvb_put bs r)) = rb_size r"
proof -
  note f = rb_fill_facts [OF assms]
  have "(fst (dvb_put bs r) \<longleftrightarrow> length (rb_contents r) + length bs < rb_size r) \<and>
    rb_contents (snd (dvb_put bs r)) = (if fst (dvb_put bs r) then rb_contents r @ bs else rb_contents r) \<and>
    rb_ok (snd (dvb_put bs r)) \<and> rb_size (snd (dvb_put bs r)) = rb_size r"
  proof (cases "rb_fill r + length bs < rb_size r")
    case True
    obtain d where w: "dvb_ringbuffer_write r bs =
        Some (int (length bs), r\<lparr>rb_data := d, pwrite := (pwrite r + length bs) mod rb_size r\<rparr>)"
      and d: "length d = rb_size r" "((!) d) = ring_store (rb_size r) 0 (pwrite r) bs ((!) (rb_data r))"
      using dvb_ringbuffer_write_spec [OF assms, of bs] True by auto
    show ?thesis using rb_contents_append [OF assms True d] True f by (simp add: dvb_put_def w)
  next
    case False
    then show ?thesis using assms f by (auto simp: dvb_put_def)
  qed
  then show "fst (dvb_put bs r) \<longleftrightarrow> length (rb_contents r) + length bs < rb_size r"
    "rb_contents (snd (dvb_put bs r)) = (if fst (dvb_put bs r) then rb_contents r @ bs else rb_contents r)"
    "rb_ok (snd (dvb_put bs r))" "rb_size (snd (dvb_put bs r)) = rb_size r" by blast+
qed

lemma dvb_get_spec:
  assumes "rb_ok r"
  shows "fst (dvb_get n r) = take n (rb_contents r)" "rb_contents (snd (dvb_get n r)) = drop n (rb_contents r)"
    "rb_ok (snd (dvb_get n r))" "rb_size (snd (dvb_get n r)) = rb_size r"
proof -
  define k where "k = min (rb_fill r) n"
  note f = rb_fill_facts [OF assms]
  have k: "nat (min (dvb_ringbuffer_avail r) (int n)) = k" "k \<le> rb_fill r" "k \<le> rb_size r"
    using f by (auto simp: k_def)
  have g: "dvb_get n r = (ring_load (rb_size r) 0 (pread r) k ((!) (rb_data r)), r\<lparr>pread := (pread r + k) mod rb_size r\<rparr>)"
    using dvb_ringbuffer_read_spec [OF assms k(3), of False] by (simp add: dvb_get_def k(1))
  have dr: "drop n (rb_contents r) = drop k (rb_contents r)" "take n (rb_contents r) = take k (rb_contents r)"
    by (auto simp: k_def min_def)
  show "fst (dvb_get n r) = take n (rb_contents r)"
    using k(2) by (simp only: g dr fst_conv) (simp add: rb_contents_def take_ring_load)
  show "rb_contents (snd (dvb_get n r)) = drop n (rb_contents r)" "rb_ok (snd (dvb_get n r))"
    "rb_size (snd (dvb_get n r)) = rb_size r"
    using rb_contents_drop [OF assms k(2)] by (simp_all add: g dr)
qed

interpretation dvb_fifo: byte_fifo "\<lambda>r. rb_ok r \<and> rb_size r = n" rb_contents n 1 dvb_put dvb_get for n
  using dvb_put_spec dvb_get_spec rb_fill_facts(1) by unfold_locales auto

text \<open>
  A client that checks for free space before writing and for available bytes before reading
  sees a FIFO: under any interleaving of writes and reads of any lengths, the bytes queued at first
  followed by those accepted are those read followed by those still queued.
\<close>

theorem dvb_ringbuffer_stream:
  assumes "rb_ok r" "fifo_run dvb_put dvb_get ops r = (ws, rs, r')"
  shows "rb_contents r @ ws = rs @ rb_contents r' \<and> rb_ok r'"
proof -
  have "fifo_units 1 ops" by (induction ops) (auto simp: fifo_units_def split: fifo_op.splits)
  then show ?thesis using dvb_fifo.run_fifo [of r "rb_size r" ops ws rs r'] assms by auto
qed

theorem dvb_ringbuffer_stream_witness:
  "fifo_run dvb_put dvb_get [Put [1, 2, 3], Get 2, Put [4, 5], Get 9] (dvb_ringbuffer_init [0, 0, 0, 0] 4) =
     ([1, 2, 3, 4, 5], [1, 2, 3, 4, 5], \<lparr>rb_data = [5, 2, 3, 4], rb_size = 4, pread = 1, pwrite = 1\<rparr>) \<and>
   rb_ok \<lparr>rb_data = [5, 2, 3, 4], rb_size = 4, pread = 1, pwrite = 1\<rparr>"
proof -
  have r: "fifo_run dvb_put dvb_get [Put [1, 2, 3], Get 2, Put [4, 5], Get 9] (dvb_ringbuffer_init [0, 0, 0, 0] 4) =
     ([1, 2, 3, 4, 5], [1, 2, 3, 4, 5], \<lparr>rb_data = [5, 2, 3, 4], rb_size = 4, pread = 1, pwrite = 1\<rparr>)"
    by (simp add: dvb_ringbuffer_init_def dvb_put_def dvb_get_def dvb_ringbuffer_free_def dvb_ringbuffer_avail_def
        dvb_ringbuffer_write_def dvb_ringbuffer_read_def read_at_def write_at_def Let_def)
  have "rb_ok (dvb_ringbuffer_init [0, 0, 0, 0] 4)" by (simp add: rb_ok_def dvb_ringbuffer_init_def)
  then show ?thesis using dvb_ringbuffer_stream [OF _ r] r by blast
qed

end
