(* ===== verification/Dvb_Packets.thy ===== *)
theory Dvb_Packets
  imports Dvb_Ringbuffer
begin

text \<open>
  The packet layer of \<open>drivers/ci/dvb_ringbuffer.c\<close> against its abstract view: the queued bytes are
  a sequence of packets, each with its status; writing appends a ready packet, searching finds the
  first ready one, disposing marks a packet and frees the disposed ones at the front.
\<close>

section \<open>The abstract view\<close>

type_synonym pkt = "u8 \<times> u8 list"

definition pkt_enc :: "pkt \<Rightarrow> u8 list" where
  "pkt_enc p = [of_nat (length (snd p) div 256), of_nat (length (snd p) mod 256), fst p] @ snd p"

definition pkts_enc :: "pkt list \<Rightarrow> u8 list" where
  "pkts_enc ps = concat (map pkt_enc ps)"

text \<open>Packets have 1 to 65535 bytes, and the ring holds exactly these packets.\<close>

definition pkts_ok :: "pkt list \<Rightarrow> bool" where
  "pkts_ok ps \<longleftrightarrow> list_all (\<lambda>p. 1 \<le> length (snd p) \<and> length (snd p) < 65536) ps"

definition rb_packets :: "dvb_ringbuffer \<Rightarrow> pkt list \<Rightarrow> bool" where
  "rb_packets r ps \<longleftrightarrow> rb_ok r \<and> pkts_ok ps \<and> rb_contents r = pkts_enc ps"

text \<open>The offset and length of the first ready packet, and the index of packet \<open>k\<close> in the ring.\<close>

fun first_ready :: "pkt list \<Rightarrow> nat \<Rightarrow> (nat \<times> nat) option" where
  "first_ready [] off = None"
| "first_ready (p # ps) off =
     (if fst p = 0 then Some (off, length (snd p)) else first_ready ps (off + 3 + length (snd p)))"

definition pkt_idx :: "dvb_ringbuffer \<Rightarrow> nat \<Rightarrow> nat" where
  "pkt_idx r off = (pread r + off) mod rb_size r"

lemma length_pkt_enc [simp]: "length (pkt_enc p) = 3 + length (snd p)"
  by (simp add: pkt_enc_def)

lemma pkts_enc_simps [simp]: "pkts_enc [] = []" "pkts_enc (p # ps) = pkt_enc p @ pkts_enc ps"
  "pkts_enc (ps @ qs) = pkts_enc ps @ pkts_enc qs"
  by (simp_all add: pkts_enc_def)

lemma pkts_ok_simps [simp]: "pkts_ok []"
  "pkts_ok (p # ps) \<longleftrightarrow> 1 \<le> length (snd p) \<and> length (snd p) < 65536 \<and> pkts_ok ps"
  "pkts_ok (ps @ qs) \<longleftrightarrow> pkts_ok ps \<and> pkts_ok qs"
  by (auto simp: pkts_ok_def)

lemma rb_packets_fill: "rb_packets r ps \<Longrightarrow> rb_fill r = length (pkts_enc ps)"
  by (metis length_rb_contents rb_packets_def)

lemma pkt_idx_add:
  "(pkt_idx r off + k) mod rb_size r = pkt_idx r (off + k)"
  by (simp add: pkt_idx_def mod_simps add.assoc)

lemma byte_at_contents:
  assumes "rb_ok r" "k < rb_fill r"
  shows "byte_at r (pkt_idx r k) = Some (rb_contents r ! k)"
  using assms by (simp add: byte_at_def pkt_idx_def rb_contents_def rb_ok_def)

lemma pkt_len_bytes: "n < 65536 \<Longrightarrow> unat (of_nat (n div 256) :: u8) * 256 + unat (of_nat (n mod 256) :: u8) = n"
  by (simp add: unat_of_nat)

text \<open>The header of the packet behind the packets \<open>ps\<close>.\<close>

lemma pkt_header:
  assumes "rb_packets r (ps @ p # qs)"
  defines "i \<equiv> pkt_idx r (length (pkts_enc ps))"
  shows "pkt_len_at r i = Some (length (snd p))" "byte_at r ((i + 2) mod rb_size r) = Some (fst p)"
    "byte_at r i = Some (of_nat (length (snd p) div 256))"
    "byte_at r ((i + 1) mod rb_size r) = Some (of_nat (length (snd p) mod 256))"
proof -
  let ?o = "length (pkts_enc ps)"
  have ok: "rb_ok r" and c: "rb_contents r = pkts_enc ps @ pkt_enc p @ pkts_enc qs" and l: "length (snd p) < 65536"
    using assms(1) by (auto simp: rb_packets_def)
  have fill: "rb_fill r = ?o + (3 + length (snd p)) + length (pkts_enc qs)"
    using rb_packets_fill [OF assms(1)] by simp
  have b: "byte_at r (pkt_idx r (?o + k)) = Some (pkt_enc p ! k)" if "k < 3" for k
    using byte_at_contents [OF ok, of "?o + k"] that fill by (simp add: c nth_append)
  show b0: "byte_at r i = Some (of_nat (length (snd p) div 256))"
    using b [of 0] by (simp add: i_def pkt_enc_def)
  show b1: "byte_at r ((i + 1) mod rb_size r) = Some (of_nat (length (snd p) mod 256))"
    using b [of 1] pkt_idx_add [of r ?o 1] by (simp add: i_def pkt_enc_def)
  show "byte_at r ((i + 2) mod rb_size r) = Some (fst p)"
    using b [of 2] unfolding i_def pkt_idx_add by (simp add: pkt_enc_def)
  show "pkt_len_at r i = Some (length (snd p))"
    using b0 b1 l by (simp add: pkt_len_at_def pkt_len_bytes)
qed

section \<open>Writing a packet\<close>

lemma dvb_ringbuffer_write_append:
  assumes "rb_ok r" "rb_fill r + length bs < rb_size r"
  shows "\<exists>r'. dvb_ringbuffer_write r bs = Some (int (length bs), r') \<and> rb_ok r' \<and>
    rb_contents r' = rb_contents r @ bs \<and> rb_size r' = rb_size r \<and> pread r' = pread r"
proof -
  obtain d where w: "dvb_ringbuffer_write r bs =
      Some (int (length bs), r\<lparr>rb_data := d, pwrite := (pwrite r + length bs) mod rb_size r\<rparr>)"
    and d: "length d = rb_size r" "((!) d) = ring_store (rb_size r) 0 (pwrite r) bs ((!) (rb_data r))"
    using dvb_ringbuffer_write_spec [of r bs] assms by auto
  show ?thesis using rb_contents_append [OF assms d] by (simp add: w)
qed

lemma dvb_ringbuffer_write_byte_append:
  assumes "rb_ok r" "rb_fill r + 1 < rb_size r"
  shows "\<exists>r'. dvb_ringbuffer_write_byte b r = Some r' \<and> rb_ok r' \<and>
    rb_contents r' = rb_contents r @ [b] \<and> rb_size r' = rb_size r \<and> pread r' = pread r"
proof -
  have "\<not> pwrite r + 1 > rb_size r" using assms(1) by (auto simp: rb_ok_def)
  then have "dvb_ringbuffer_write r [b] = map_option (\<lambda>r'. (1, r')) (dvb_ringbuffer_write_byte b r)"
    by (auto simp: dvb_ringbuffer_write_def dvb_ringbuffer_write_byte_def Let_def split: bind_splits)
  then show ?thesis using dvb_ringbuffer_write_append [of r "[b]"] assms by auto
qed

lemma pkt_write_raw:
  assumes ok: "rb_ok r" and room: "rb_fill r + 3 + length bs < rb_size r"
  shows "\<exists>r'. dvb_ringbuffer_pkt_write r bs = Some (int (length bs), r') \<and> rb_ok r' \<and>
    rb_contents r' = rb_contents r @ pkt_enc (0, bs) \<and> rb_size r' = rb_size r \<and> pread r' = pread r"
proof -
  let ?h = "of_nat (length bs div 256) :: u8" and ?l = "of_nat (length bs mod 256) :: u8"
  note app = dvb_ringbuffer_write_byte_append
  obtain r1 where r1: "dvb_ringbuffer_write_byte ?h r = Some r1" "rb_ok r1" "rb_contents r1 = rb_contents r @ [?h]"
      "rb_size r1 = rb_size r" "pread r1 = pread r"
    using app [OF ok, of ?h] room by auto
  have f1: "rb_fill r1 = rb_fill r + 1" using arg_cong [OF r1(3), of length] by simp
  obtain r2 where r2: "dvb_ringbuffer_write_byte ?l r1 = Some r2" "rb_ok r2" "rb_contents r2 = rb_contents r1 @ [?l]"
      "rb_size r2 = rb_size r1" "pread r2 = pread r1"
    using app [OF r1(2), of ?l] room f1 r1(4) by auto
  have f2: "rb_fill r2 = rb_fill r + 2" using arg_cong [OF r2(3), of length] f1 by simp
  obtain r3 where r3: "dvb_ringbuffer_write_byte 0 r2 = Some r3" "rb_ok r3" "rb_contents r3 = rb_contents r2 @ [0]"
      "rb_size r3 = rb_size r2" "pread r3 = pread r2"
    using app [OF r2(2), of 0] room f2 r1(4) r2(4) by auto
  have f3: "rb_fill r3 = rb_fill r + 3" using arg_cong [OF r3(3), of length] f2 by simp
  obtain r4 where r4: "dvb_ringbuffer_write r3 bs = Some (int (length bs), r4)" "rb_ok r4"
      "rb_contents r4 = rb_contents r3 @ bs" "rb_size r4 = rb_size r3" "pread r4 = pread r3"
    using dvb_ringbuffer_write_append [OF r3(2), of bs] room f3 r1(4) r2(4) r3(4) by auto
  have "dvb_ringbuffer_pkt_write r bs = Some (int (length bs), r4)"
    by (simp add: dvb_ringbuffer_pkt_write_def r1(1) r2(1) r3(1) r4(1) Let_def)
  moreover have "rb_contents r4 = rb_contents r @ pkt_enc (0, bs)"
    by (simp add: r4(3) r3(3) r2(3) r1(3) pkt_enc_def)
  ultimately show ?thesis using r4 r3 r2 r1 by auto
qed

text \<open>
  Writing a packet of up to 65535 bytes into a ring with room for it and its header returns its
  length and appends exactly one ready packet with that payload.
\<close>

lemma pkt_write_append:
  assumes "rb_packets r ps" "1 \<le> length bs" "length bs < 65536" "rb_fill r + 3 + length bs < rb_size r"
  shows "\<exists>r'. dvb_ringbuffer_pkt_write r bs = Some (int (length bs), r') \<and> rb_packets r' (ps @ [(0, bs)]) \<and>
    rb_size r' = rb_size r \<and> pread r' = pread r"
  using pkt_write_raw [OF _ assms(4)] assms(1-3) by (fastforce simp: rb_packets_def)

lemma rb_packets_init: "0 < length d \<Longrightarrow> length d < 2 ^ 31 \<Longrightarrow> k < length d \<Longrightarrow>
    rb_packets \<lparr>rb_data = d, rb_size = length d, pread = k, pwrite = k\<rparr> []"
  by (simp add: rb_packets_def rb_ok_def rb_contents_def rb_fill_def)

lemma rb_fill_init: "rb_fill \<lparr>rb_data = d, rb_size = n, pread = k, pwrite = k\<rparr> = 0"
  by (simp add: rb_fill_def)

section \<open>Finding a packet\<close>

lemma pkt_search_spec:
  assumes "rb_packets r (ps @ qs)"
  shows "pkt_search r (pkt_idx r (length (pkts_enc ps))) (int (length (pkts_enc ps))) =
    Some (map_option (\<lambda>(off, len). (pkt_idx r off, len)) (first_ready qs (length (pkts_enc ps))))"
  using assms
proof (induction qs arbitrary: ps)
  case Nil
  have "dvb_ringbuffer_avail r = int (length (pkts_enc ps))"
    using Nil rb_fill_facts(3) [of r] rb_packets_fill [of r ps] by (simp add: rb_packets_def)
  then show ?case by (subst pkt_search.simps) simp
next
  case (Cons q qs)
  let ?o = "length (pkts_enc ps)" and ?n = "length (snd q)"
  have q: "1 \<le> ?n" using Cons.prems by (simp add: rb_packets_def)
  have av: "dvb_ringbuffer_avail r - int ?o > 3"
    using Cons.prems rb_fill_facts(3) [of r] rb_packets_fill [OF Cons.prems] q by (simp add: rb_packets_def)
  note h = pkt_header [OF Cons.prems]
  have nx: "(pkt_idx r ?o + ?n + 3) mod rb_size r = pkt_idx r (?o + 3 + ?n)"
    using pkt_idx_add [of r ?o "?n + 3"] by (simp add: add.assoc add.commute add.left_commute)
  have ih: "pkt_search r (pkt_idx r (?o + 3 + ?n)) (int (?o + 3 + ?n)) =
      Some (map_option (\<lambda>(off, len). (pkt_idx r off, len)) (first_ready qs (?o + 3 + ?n)))"
    using Cons.IH [of "ps @ [q]"] Cons.prems by (simp add: add.assoc)
  have "pkt_search r (pkt_idx r ?o) (int ?o) =
     (if fst q = 0 then Some (Some (pkt_idx r ?o, ?n)) else pkt_search r (pkt_idx r (?o + 3 + ?n)) (int (?o + 3 + ?n)))"
    using av h nx by (subst pkt_search.simps) (simp add: add.commute add.left_commute)
  then show ?case using ih by simp
qed

text \<open>
  Called with -1, the search returns the index and length of the first ready packet, and -1
  exactly when there is none.
\<close>

lemma pkt_next_first:
  assumes "rb_packets r ps"
  shows "dvb_ringbuffer_pkt_next r None =
    Some (map_option (\<lambda>(off, len). (pkt_idx r off, len)) (first_ready ps 0))"
proof -
  have "pkt_idx r 0 = pread r" using assms by (simp add: pkt_idx_def rb_packets_def rb_ok_def)
  then show ?thesis
    using pkt_search_spec [of r "[]" ps] assms by (simp add: dvb_ringbuffer_pkt_next_def to_u32_def)
qed

text \<open>A ring with the two packets \<open>[7, 8]\<close> and \<open>[9]\<close>, the first at index \<open>k\<close>.\<close>

lemma two_packets:
  assumes "length (d :: u8 list) = n" "12 < n" "n < 2 ^ 31" "k < n"
  shows "\<exists>r. rb_packets r [(0, [7, 8]), (0, [9])] \<and> rb_size r = n \<and> pread r = k"
proof -
  let ?r = "\<lparr>rb_data = d, rb_size = n, pread = k, pwrite = k\<rparr>"
  have p0: "rb_packets ?r []" using rb_packets_init [of d k] assms by simp
  obtain r1 where r1: "rb_packets r1 [(0, [7, 8])]" "rb_size r1 = n" "pread r1 = k"
    using pkt_write_append [OF p0, of "[7, 8]"] assms by (auto simp: rb_fill_init)
  have "rb_fill r1 = 5" using rb_packets_fill [OF r1(1)] by simp
  then show ?thesis using pkt_write_append [OF r1(1), of "[9]"] r1 assms by auto
qed

text \<open>What the unsigned subtraction yields for a packet \<open>off\<close> bytes behind \<open>pread\<close>.\<close>

lemma pkt_consumed:
  assumes "rb_ok r" "off < rb_size r"
  shows "to_u32 (int (pkt_idx r off) - int (pread r)) mod rb_size r =
    (if pread r \<le> pkt_idx r off then off else (2 ^ 32 - (rb_size r - off)) mod rb_size r)"
proof -
  have p: "pread r < rb_size r" "rb_size r < 2 ^ 31" using assms by (auto simp: rb_ok_def)
  show ?thesis
  proof (cases "pread r + off < rb_size r")
    case True
    then have "int (pkt_idx r off) - int (pread r) = int off" by (simp add: pkt_idx_def)
    then show ?thesis using True p assms(2) by (simp add: conv_simps pkt_idx_def)
  next
    case False
    then have i: "pkt_idx r off = pread r + off - rb_size r" using p assms(2) by (simp add: pkt_idx_def ring_pos_lt)
    then have e: "int (pkt_idx r off) - int (pread r) = - int (rb_size r - off)"
      using False assms(2) by simp
    have neg: "to_u32 (- int k) = 2 ^ 32 - k" if "0 < k" "k < 2 ^ 32" for k
      using that by (simp add: to_u32_def zmod_zminus1_eq_if nat_diff_distrib)
    have "to_u32 (int (pkt_idx r off) - int (pread r)) = 2 ^ 32 - (rb_size r - off)"
      unfolding e using assms(2) p by (intro neg) auto
    moreover have "\<not> pread r \<le> pkt_idx r off" using i False assms(2) by simp
    ultimately show ?thesis by simp
  qed
qed

lemma pkt_next_from:
  assumes "rb_packets r (ps @ p # qs)"
  defines "off \<equiv> length (pkts_enc (ps @ [p]))"
  shows "dvb_ringbuffer_pkt_next r (Some (pkt_idx r (length (pkts_enc ps)))) =
    pkt_search r (pkt_idx r off) (int (to_u32 (int (pkt_idx r off) - int (pread r)) mod rb_size r))"
proof -
  let ?o = "length (pkts_enc ps)"
  have "(pkt_idx r ?o + length (snd p) + 3) mod rb_size r = pkt_idx r off"
    using pkt_idx_add [of r ?o "length (snd p) + 3"] by (simp add: off_def add.commute add.left_commute)
  then show ?thesis using pkt_header(1) [OF assms(1)] by (simp add: dvb_ringbuffer_pkt_next_def Let_def)
qed

text \<open>
  Continuing from a packet, the search returns the first ready packet behind it, provided the
  next packet does not lie before the read position in the data area or the size of the ring divides
  \<open>2 ^ 32\<close>.
\<close>

theorem dvb_pkt_next_following:
  assumes "rb_packets r (ps @ p # qs)"
    "pread r \<le> pkt_idx r (length (pkts_enc (ps @ [p]))) \<or> rb_size r dvd 2 ^ 32"
  shows "dvb_ringbuffer_pkt_next r (Some (pkt_idx r (length (pkts_enc ps)))) =
    Some (map_option (\<lambda>(off, len). (pkt_idx r off, len)) (first_ready qs (length (pkts_enc (ps @ [p])))))"
proof -
  let ?off = "length (pkts_enc (ps @ [p]))"
  have ok: "rb_ok r" using assms(1) by (simp add: rb_packets_def)
  have lt: "?off < rb_size r" using rb_packets_fill [OF assms(1)] rb_fill_facts(1) [OF ok] by simp
  have "(2 ^ 32 - (rb_size r - ?off)) mod rb_size r = ?off" if dv: "rb_size r dvd 2 ^ 32"
  proof -
    obtain k where k: "2 ^ 32 = rb_size r * k" using dv by (auto simp: dvd_def)
    then have "0 < k" by (cases k) simp_all
    then obtain j where j: "k = Suc j" by (cases k) simp_all
    have "2 ^ 32 - (rb_size r - ?off) = ?off + rb_size r * j" using lt k j by simp
    then show ?thesis using lt by (simp only: mod_mult_self2 mod_less)
  qed
  then have "to_u32 (int (pkt_idx r ?off) - int (pread r)) mod rb_size r = ?off"
    using assms(2) by (simp only: pkt_consumed [OF ok lt]) (auto split: if_splits)
  then show ?thesis
    using pkt_next_from [OF assms(1)] pkt_search_spec [of r "ps @ [p]" qs] assms(1) by simp
qed

theorem dvb_pkt_next_following_witness:
  "\<exists>r. rb_packets r [(0, [7, 8]), (0, [9])] \<and> pread r = 62 \<and> dvb_ringbuffer_pkt_next r (Some 62) = Some (Some (3, 1))"
proof -
  obtain r where r: "rb_packets r [(0, [7, 8]), (0, [9])]" "rb_size r = 64" "pread r = 62"
    using two_packets [of "replicate 64 0" 64 62] by auto
  have "(64::nat) dvd 2 ^ 32" by simp
  then show ?thesis using dvb_pkt_next_following [of r "[]" "(0, [7, 8])" "[(0, [9])]"] r by (auto simp: pkt_idx_def)
qed

text \<open>
  In the ring the driver really uses (65535 bytes, which does not divide \<open>2 ^ 32\<close>), the search
  continued from a packet in front of the wrap overestimates what it has passed by one byte: a last
  packet of one byte is reported as absent although it is ready.
\<close>

theorem dvb_pkt_next_missed:
  assumes "rb_packets r (ps @ [p, (0, [b])])" "rb_size r = 65535"
    "pkt_idx r (length (pkts_enc (ps @ [p]))) < pread r"
  shows "dvb_ringbuffer_pkt_next r (Some (pkt_idx r (length (pkts_enc ps)))) = Some None"
proof -
  let ?off = "length (pkts_enc (ps @ [p]))"
  have ok: "rb_ok r" using assms(1) by (simp add: rb_packets_def)
  have fill: "rb_fill r = ?off + 4" using rb_packets_fill [OF assms(1)] by simp
  then have lt: "?off < rb_size r" "?off + 4 < 65535" using rb_fill_facts(1) [OF ok] assms(2) by auto
  define off where "off = ?off"
  have "2 ^ 32 - (65535 - off) = (off + 1) + 65535 * 65536" using lt(2) by (simp add: off_def)
  then have "(2 ^ 32 - (65535 - off)) mod 65535 = off + 1"
    using lt(2) by (simp only: mod_mult_self2) (simp add: off_def)
  moreover have "to_u32 (int (pkt_idx r off) - int (pread r)) mod rb_size r = (2 ^ 32 - (rb_size r - off)) mod rb_size r"
    using pkt_consumed [OF ok lt(1)] assms(3) by (simp only: off_def) simp
  ultimately have "to_u32 (int (pkt_idx r ?off) - int (pread r)) mod rb_size r = ?off + 1"
    by (simp only: assms(2) off_def)
  then show ?thesis
    using pkt_next_from [of r ps p "[(0, [b])]"] assms(1) rb_fill_facts(3) [OF ok] fill
    by (simp add: pkt_search.simps [of r _ "int (_ + 1)"] pkt_search.simps)
qed

theorem dvb_pkt_next_missed_witness:
  "\<exists>r. rb_packets r [(0, [7, 8]), (0, [9])] \<and> dvb_ringbuffer_pkt_next r (Some 65530) = Some None"
proof -
  obtain r where r: "rb_packets r [(0, [7, 8]), (0, [9])]" "rb_size r = 65535" "pread r = 65530"
    using two_packets [of "replicate 65535 0" 65535 65530] by auto
  show ?thesis using dvb_pkt_next_missed [of r "[]" "(0, [7, 8])" 9] r by (auto simp: pkt_idx_def)
qed

section \<open>Reading from a packet\<close>

lemma ring_load_contents:
  assumes "off + len \<le> rb_fill r"
  shows "ring_load (rb_size r) 0 (pkt_idx r off) len ((!) (rb_data r)) = take len (drop off (rb_contents r))"
  using assms by (simp add: rb_contents_def drop_ring_load take_ring_load pkt_idx_def)

text \<open>
  Reading from a packet at an offset within it returns the bytes of its payload from there on, at
  most as many as asked for; an offset beyond its end is refused with \<open>-EINVAL\<close>. The ring does not
  change.
\<close>

lemma dvb_pkt_read_payload:
  assumes "rb_packets r (ps @ p # qs)" "\<not> usermem \<or> (\<not> fault 0 \<and> \<not> fault 1)"
  shows "dvb_ringbuffer_pkt_read r (pkt_idx r (length (pkts_enc ps))) offset len usermem fault =
    (if offset > length (snd p) then Some (- 22, [])
     else Some (int (length (take len (drop offset (snd p)))), take len (drop offset (snd p))))"
proof (cases "offset > length (snd p)")
  case True
  then show ?thesis using pkt_header(1) [OF assms(1)] by (simp add: dvb_ringbuffer_pkt_read_def)
next
  case False
  let ?o = "length (pkts_enc ps)"
  define n where "n = (if offset + len > length (snd p) then length (snd p) - offset else len)"
  define i where "i = pkt_idx r (?o + (3 + offset))"
  have ok: "rb_ok r" and c: "rb_contents r = pkts_enc ps @ pkt_enc p @ pkts_enc qs"
    using assms(1) by (auto simp: rb_packets_def)
  have fill: "?o + (3 + offset) + n \<le> rb_fill r"
    using rb_packets_fill [OF assms(1)] False by (auto simp: n_def)
  have i: "(pkt_idx r ?o + 3 + offset) mod rb_size r = i"
    using pkt_idx_add [of r ?o "3 + offset"] by (simp add: i_def add.assoc)
  have n: "n \<le> rb_size r" using fill rb_fill_facts(1) [OF ok] by simp
  have il: "i < rb_size r" using ok by (simp add: i_def pkt_idx_def rb_ok_def)
  have ld: "ring_load (rb_size r) 0 i n ((!) (rb_data r)) = take len (drop offset (snd p))"
  proof -
    have "drop (?o + (3 + offset)) (rb_contents r) = drop offset (snd p) @ pkts_enc qs"
      using False by (simp add: c pkt_enc_def numeral_3_eq_3)
    then show ?thesis unfolding i_def ring_load_contents [OF fill] using False by (auto simp: n_def)
  qed
  have ln: "length (take len (drop offset (snd p))) = n" using ld by (metis length_ring_load)
  have len: "length (rb_data r) = rb_size r" using ok by (simp add: rb_ok_def)
  have "dvb_ringbuffer_pkt_read r (pkt_idx r ?o) offset len usermem fault =
      Some (int n, ring_load (rb_size r) 0 i n ((!) (rb_data r)))"
    using pkt_header(1) [OF assms(1)] False assms(2) n il
    by (auto simp: dvb_ringbuffer_pkt_read_def n_def [symmetric] i Let_def read_at_load len ring_load_flat ring_load_wrap)
  then show ?thesis using False ld ln by simp
qed

section \<open>Disposing of a packet\<close>

lemma pkt_cleanup_spec:
  assumes "rb_packets r ps"
  shows "\<exists>r'. pkt_cleanup r = Some r' \<and> rb_packets r' (dropWhile (\<lambda>p. fst p = 1) ps)"
  using assms
proof (induction ps arbitrary: r)
  case Nil
  then have "dvb_ringbuffer_avail r = 0"
    using rb_fill_facts(3) [of r] rb_packets_fill [OF Nil] by (simp add: rb_packets_def)
  then show ?case using Nil by (simp add: pkt_cleanup.simps)
next
  case (Cons p ps)
  have ok: "rb_ok r" and q: "1 \<le> length (snd p)" and l: "length (snd p) < 65536"
    using Cons.prems by (auto simp: rb_packets_def)
  have av: "dvb_ringbuffer_avail r > 3"
    using rb_fill_facts(3) [OF ok] rb_packets_fill [OF Cons.prems] q by simp
  have i0: "pkt_idx r (length (pkts_enc [])) = pread r" using ok by (simp add: pkt_idx_def rb_ok_def)
  have m: "pread r mod rb_size r = pread r" using ok by (simp add: rb_ok_def)
  note h = pkt_header [of r "[]" p ps, simplified i0 append_Nil, OF Cons.prems]
  show ?case
  proof (cases "fst p = 1")
    case True
    let ?r = "dvb_ringbuffer_skip (length (snd p) + 3) r"
    have le: "length (snd p) + 3 \<le> rb_fill r" using rb_packets_fill [OF Cons.prems] by simp
    have "drop (length (snd p) + 3) (pkt_enc p @ pkts_enc ps) = pkts_enc ps" by simp
    then have "rb_packets ?r ps"
      using rb_contents_drop [OF ok le] Cons.prems by (simp add: rb_packets_def dvb_ringbuffer_skip_def)
    moreover have "pkt_cleanup r = pkt_cleanup ?r"
      using av h True m l
      by (subst pkt_cleanup.simps) (simp add: dvb_ringbuffer_peek_def pkt_len_bytes)
    ultimately show ?thesis using Cons.IH True by simp
  next
    case False
    then have "pkt_cleanup r = Some r"
      using av h m by (subst pkt_cleanup.simps) (simp add: dvb_ringbuffer_peek_def)
    then show ?thesis using Cons.prems False by simp
  qed
qed

lemma rb_contents_update:
  assumes ok: "rb_ok r" and k: "k < rb_fill r"
  shows "\<exists>d. write_at (rb_data r) (pkt_idx r k) [b] = Some d \<and> rb_ok (r\<lparr>rb_data := d\<rparr>) \<and>
    rb_contents (r\<lparr>rb_data := d\<rparr>) = (rb_contents r)[k := b]"
proof -
  note f = rb_fill_facts [OF ok]
  have il: "pkt_idx r k < rb_size r" and len: "length (rb_data r) = rb_size r"
    using ok by (auto simp: pkt_idx_def rb_ok_def)
  obtain d where d: "write_at (rb_data r) (pkt_idx r k) [b] = Some d"
    using write_at_Some [of "pkt_idx r k" "[b]" "rb_data r"] il len by auto
  note n = nth_write_at [OF d]
  let ?r = "r\<lparr>rb_data := d\<rparr>"
  have fill: "rb_fill ?r = rb_fill r" by (simp add: rb_fill_def)
  have "rb_contents ?r ! j = (rb_contents r)[k := b] ! j" if j: "j < rb_fill r" for j
  proof -
    have "(pread r + j) mod rb_size r = pkt_idx r k \<longleftrightarrow> j = k"
      using ring_pos_inj [of "pread r" j "rb_size r" k] j k f(1) by (auto simp: pkt_idx_def)
    then show ?thesis using j k
      by (simp add: rb_contents_def fill [unfolded rb_fill_def, simplified] rb_fill_def n store_def nth_list_update)
        (auto simp: rb_fill_def)
  qed
  then have "rb_contents ?r = (rb_contents r)[k := b]"
    by (intro nth_equalityI) (simp_all add: fill)
  then show ?thesis using d n ok len by (auto simp: rb_ok_def)
qed

text \<open>
  Disposing of a packet always returns: the packet is marked, and every packet up to the first
  one not yet disposed of is freed; the others keep their bytes and their order.
\<close>

theorem dvb_pkt_dispose_frees:
  assumes "rb_packets r (ps @ p # qs)"
  shows "\<exists>r'. dvb_ringbuffer_pkt_dispose r (pkt_idx r (length (pkts_enc ps))) = Some r' \<and>
    rb_packets r' (dropWhile (\<lambda>p. fst p = 1) (ps @ (1, snd p) # qs))"
proof -
  let ?o = "length (pkts_enc ps)"
  have ok: "rb_ok r" and c: "rb_contents r = pkts_enc ps @ pkt_enc p @ pkts_enc qs"
    using assms by (auto simp: rb_packets_def)
  have lt: "?o + 2 < rb_fill r" using rb_packets_fill [OF assms] by simp
  obtain d where d: "write_at (rb_data r) (pkt_idx r (?o + 2)) [1] = Some d" "rb_ok (r\<lparr>rb_data := d\<rparr>)"
      "rb_contents (r\<lparr>rb_data := d\<rparr>) = (rb_contents r)[?o + 2 := 1]"
    using rb_contents_update [OF ok lt] by blast
  have "(rb_contents r)[?o + 2 := 1] = pkts_enc (ps @ (1, snd p) # qs)"
    by (simp add: c list_update_append pkt_enc_def numeral_2_eq_2)
  then have "rb_packets (r\<lparr>rb_data := d\<rparr>) (ps @ (1, snd p) # qs)"
    using d assms by (simp add: rb_packets_def)
  from pkt_cleanup_spec [OF this] show ?thesis
    unfolding dvb_ringbuffer_pkt_dispose_def pkt_idx_add using d(1) by simp
qed

theorem dvb_pkt_dispose_frees_witness:
  "\<exists>r r'. rb_packets r [(0, [7, 8]), (0, [9])] \<and> dvb_ringbuffer_pkt_dispose r 62 = Some r' \<and> rb_packets r' [(0, [9])]"
proof -
  obtain r where r: "rb_packets r [(0, [7, 8]), (0, [9])]" "rb_size r = 64" "pread r = 62"
    using two_packets [of "replicate 64 0" 64 62] by auto
  show ?thesis
    using dvb_pkt_dispose_frees [of r "[]" "(0, [7, 8])" "[(0, [9])]"] r by (auto simp: pkt_idx_def)
qed

end
