(* ===== verification/Ci.thy ===== *)
theory Ci
  imports Pcmcia Dvb_Packets
begin

text \<open>
  The common-interface driver (\<open>drivers/ci/ci.c\<close>): the slots and their state machine, the link layer that moves
  packets between a module and the receive ring, and the device file. A module is reached through the operations of the
  PCMCIA driver, which are an argument here; \<open>pc_cam\<close> gives them for the model of that driver. Time is
  the controller's; \<open>HZ\<close> is 100. \<open>None\<close> is an access outside an array, or a call that does not return.
\<close>

section \<open>State\<close>

datatype slotstate =
    DVB_CA_SLOTSTATE_NONE
  | DVB_CA_SLOTSTATE_UNINITIALISED
  | DVB_CA_SLOTSTATE_RUNNING
  | DVB_CA_SLOTSTATE_INVALID
  | DVB_CA_SLOTSTATE_WAITREADY
  | DVB_CA_SLOTSTATE_VALIDATE
  | DVB_CA_SLOTSTATE_WAITFR
  | DVB_CA_SLOTSTATE_LINKINIT

text \<open>A receive buffer without data area is \<open>None\<close>.\<close>

record dvb_ca_slot =
  slot_state :: slotstate
  camchange_count :: nat
  camchange_type :: camchange
  config_base :: u32
  config_option :: u8
  da_irq_supported :: bool
  link_buf_size :: int
  rx_buffer :: "dvb_ringbuffer option"
  slot_timeout :: u32

record dvb_ca_private =
  ca_flags :: u32
  slot_info :: "dvb_ca_slot list"
  thread_pid :: int
  ca_exit :: bool
  ca_open :: bool
  ca_wakeup :: bool
  ca_delay :: int
  next_read_slot :: nat

text \<open>The operations of the PCMCIA driver: address, memory (1 attribute, 0 input/output) and slot.\<close>

record 'p cam =
  readMem :: "nat \<Rightarrow> nat \<Rightarrow> nat \<Rightarrow> 'p \<Rightarrow> (u8 \<times> 'p) option"
  writeMem :: "nat \<Rightarrow> u8 \<Rightarrow> nat \<Rightarrow> nat \<Rightarrow> 'p \<Rightarrow> (int \<times> 'p) option"
  hw_reset :: "nat \<Rightarrow> 'p \<Rightarrow> 'p option"
  cam_jiffies :: "'p \<Rightarrow> u32"
  cam_msleep :: "nat \<Rightarrow> 'p \<Rightarrow> 'p"
  cam_register :: "'p \<Rightarrow> (ci_call list \<times> 'p) option"

definition pc_cam :: "'h bus \<Rightarrow> 'h pc_sys cam" where
  "pc_cam B = \<lparr>readMem = rtdpc_readMem B, writeMem = rtdpc_writeMem B, hw_reset = rtdpc_hw_reset B,
     cam_jiffies = (\<lambda>s. jiffies B (hw s)), cam_msleep = (\<lambda>n s. s\<lparr>hw := msleep B n (hw s)\<rparr>),
     cam_register = (\<lambda>s. map_option (\<lambda>(_, s'). (drop (length (calls s)) (calls s'), s')) (rtdpc_registerCiIntHandler B (Some 1) s))\<rparr>"

text \<open>\<open>rx_wakes\<close> counts how often the readers have been woken.\<close>

record 'p ci_sys =
  ca :: dvb_ca_private
  pc :: 'p
  rx_wakes :: nat

abbreviation (input) CTRLIF_DATA :: nat where "CTRLIF_DATA \<equiv> 0"
abbreviation (input) CTRLIF_COMMAND :: nat where "CTRLIF_COMMAND \<equiv> 1"
abbreviation (input) CTRLIF_STATUS :: nat where "CTRLIF_STATUS \<equiv> 1"
abbreviation (input) CTRLIF_SIZE_LOW :: nat where "CTRLIF_SIZE_LOW \<equiv> 2"
abbreviation (input) CTRLIF_SIZE_HIGH :: nat where "CTRLIF_SIZE_HIGH \<equiv> 3"
abbreviation (input) CMDREG_HC :: u8 where "CMDREG_HC \<equiv> 1"
abbreviation (input) CMDREG_SW :: u8 where "CMDREG_SW \<equiv> 2"
abbreviation (input) CMDREG_SR :: u8 where "CMDREG_SR \<equiv> 4"
abbreviation (input) CMDREG_RS :: u8 where "CMDREG_RS \<equiv> 8"
abbreviation (input) IRQEN :: u8 where "IRQEN \<equiv> 0x80"
abbreviation (input) STATUSREG_RE :: u8 where "STATUSREG_RE \<equiv> 1"
abbreviation (input) STATUSREG_WE :: u8 where "STATUSREG_WE \<equiv> 2"
abbreviation (input) STATUSREG_FR :: u8 where "STATUSREG_FR \<equiv> 0x40"
abbreviation (input) STATUSREG_DA :: u8 where "STATUSREG_DA \<equiv> 0x80"
abbreviation (input) INIT_TIMEOUT :: u32 where "INIT_TIMEOUT \<equiv> 500"
abbreviation (input) HOST_LINK_BUF_SIZE :: nat where "HOST_LINK_BUF_SIZE \<equiv> 512"
abbreviation (input) RX_BUFFER_SIZE :: nat where "RX_BUFFER_SIZE \<equiv> 65535"
abbreviation (input) MAX_RX_PACKETS_PER_ITERATION :: nat where "MAX_RX_PACKETS_PER_ITERATION \<equiv> 10"
abbreviation (input) FLAG_IRQ_CAMCHANGE :: u32 where "FLAG_IRQ_CAMCHANGE \<equiv> 1"
abbreviation (input) FLAG_IRQ_DA :: u32 where "FLAG_IRQ_DA \<equiv> 4"
abbreviation (input) EIO :: int where "EIO \<equiv> 5"
abbreviation (input) EINTR :: int where "EINTR \<equiv> 4"
abbreviation (input) EAGAIN :: int where "EAGAIN \<equiv> 11"
abbreviation (input) EBUSY :: int where "EBUSY \<equiv> 16"
abbreviation (input) ETIMEDOUT :: int where "ETIMEDOUT \<equiv> 145"

definition slot_count :: "'p ci_sys \<Rightarrow> nat" where
  "slot_count s = length (slot_info (ca s))"

text \<open>A slot, \<open>None\<close> outside the array, and its update.\<close>

definition slot_at :: "nat \<Rightarrow> 'p ci_sys \<Rightarrow> dvb_ca_slot option" where
  "slot_at slot s = (if slot < slot_count s then Some (slot_info (ca s) ! slot) else None)"

definition set_slot :: "nat \<Rightarrow> (dvb_ca_slot \<Rightarrow> dvb_ca_slot) \<Rightarrow> 'p ci_sys \<Rightarrow> 'p ci_sys" where
  "set_slot slot f s = s\<lparr>ca := (ca s)\<lparr>slot_info := (slot_info (ca s))[slot := f (slot_info (ca s) ! slot)]\<rparr>\<rparr>"

definition set_ca :: "(dvb_ca_private \<Rightarrow> dvb_ca_private) \<Rightarrow> 'p ci_sys \<Rightarrow> 'p ci_sys" where
  "set_ca f s = s\<lparr>ca := f (ca s)\<rparr>"

definition wake_readers :: "'p ci_sys \<Rightarrow> 'p ci_sys" where
  "wake_readers s = s\<lparr>rx_wakes := rx_wakes s + 1\<rparr>"

text \<open>Accesses to the input/output memory of a module.\<close>

definition readIO :: "'p cam \<Rightarrow> nat \<Rightarrow> nat \<Rightarrow> 'p ci_sys \<Rightarrow> (u8 \<times> 'p ci_sys) option" where
  "readIO K addr slot s = map_option (\<lambda>(v, p). (v, s\<lparr>pc := p\<rparr>)) (readMem K addr 0 slot (pc s))"

definition writeIO :: "'p cam \<Rightarrow> nat \<Rightarrow> u8 \<Rightarrow> nat \<Rightarrow> 'p ci_sys \<Rightarrow> (int \<times> 'p ci_sys) option" where
  "writeIO K addr d slot s = map_option (\<lambda>(r, p). (r, s\<lparr>pc := p\<rparr>)) (writeMem K addr d 0 slot (pc s))"

section \<open>Slot states\<close>

definition ci_update_slot_state :: "nat \<Rightarrow> slotstate \<Rightarrow> 'p ci_sys \<Rightarrow> int \<times> 'p ci_sys" where
  "ci_update_slot_state slot new_state s =
     (if slot \<ge> slot_count s then (- 1, s)
      else (0, if slot_state (slot_info (ca s) ! slot) \<noteq> new_state then set_slot slot (slot_state_update (\<lambda>_. new_state)) s else s))"

definition update_state :: "nat \<Rightarrow> slotstate \<Rightarrow> 'p ci_sys \<Rightarrow> 'p ci_sys" where
  "update_state slot new_state s = snd (ci_update_slot_state slot new_state s)"

definition ci_get_slot_state :: "nat \<Rightarrow> 'p ci_sys \<Rightarrow> slotstate" where
  "ci_get_slot_state slot s = (if slot \<ge> slot_count s then DVB_CA_SLOTSTATE_NONE else slot_state (slot_info (ca s) ! slot))"

text \<open>The polled status is 0 in this driver: no module is ever present or ready in polling mode.\<close>

definition ci_check_camstatus :: "nat \<Rightarrow> 'p ci_sys \<Rightarrow> (bool \<times> 'p ci_sys) option" where
  "ci_check_camstatus slot s = do {
     x \<leftarrow> slot_at slot s;
     if ca_flags (ca s) AND FLAG_IRQ_CAMCHANGE \<noteq> 0 then Some (camchange_count x \<noteq> 0, s)
     else if ci_get_slot_state slot s \<noteq> DVB_CA_SLOTSTATE_NONE then
       Some (True, set_slot slot (\<lambda>x. x\<lparr>camchange_type := CAMCHANGE_REMOVED, camchange_count := 1\<rparr>) s)
     else Some (False, s)
   }"

section \<open>Link layer\<close>

partial_function (option) wait_status :: "'p cam \<Rightarrow> nat \<Rightarrow> u8 \<Rightarrow> u32 \<Rightarrow> 'p ci_sys \<Rightarrow> (int \<times> 'p ci_sys) option" where
  [code]: "wait_status K slot waitfor until s =
     Option.bind (readIO K CTRLIF_STATUS slot s) (\<lambda>(res, s).
     if res AND waitfor \<noteq> 0 then Some (0, s)
     else if time_after (cam_jiffies K (pc s)) until then Some (- ETIMEDOUT, s)
     else wait_status K slot waitfor until (s\<lparr>pc := cam_msleep K 1 (pc s)\<rparr>))"

definition ci_wait_if_status :: "'p cam \<Rightarrow> nat \<Rightarrow> u8 \<Rightarrow> u32 \<Rightarrow> 'p ci_sys \<Rightarrow> (int \<times> 'p ci_sys) option" where
  "ci_wait_if_status K slot waitfor timeout_hz s = wait_status K slot waitfor (cam_jiffies K (pc s) + timeout_hz) s"

fun read_bytes :: "'p cam \<Rightarrow> nat \<Rightarrow> nat \<Rightarrow> 'p ci_sys \<Rightarrow> (u8 list \<times> 'p ci_sys) option" where
  "read_bytes K slot 0 s = Some ([], s)"
| "read_bytes K slot (Suc n) s =
     (case readIO K CTRLIF_DATA slot s of
        None \<Rightarrow> None
      | Some (b, s) \<Rightarrow> (case read_bytes K slot n s of None \<Rightarrow> None | Some (bs, s) \<Rightarrow> Some (b # bs, s)))"

text \<open>The end of a reception: the packet is stored in the ring or given to the caller, and readers are woken by a last fragment.\<close>

definition read_store :: "nat \<Rightarrow> bool \<Rightarrow> u8 list \<Rightarrow> 'p ci_sys \<Rightarrow> (int \<times> u8 list \<times> 'p ci_sys) option" where
  "read_store slot ebuf buf s =
     (let finish = (\<lambda>s. (int (length buf), if ebuf then buf else [],
                      if (buf @ [0, 0]) ! 1 AND 0x80 = 0 then wake_readers s else s))
      in if \<not> ebuf then do {
           x \<leftarrow> slot_at slot s;
           case rx_buffer x of
             None \<Rightarrow> Some (- EIO, [], s)
           | Some r \<Rightarrow> do {
               (_, r) \<leftarrow> dvb_ringbuffer_pkt_write r buf;
               Some (finish (set_slot slot (rx_buffer_update (\<lambda>_. Some r)) s))
             }
         }
         else Some (finish s))"

text \<open>
  \<open>ebuf\<close> is the size of the caller's buffer, \<open>None\<close> to put the packet into the receive buffer. What is read is one byte, so
  that no read counts as an error. The local buffer has 512 bytes.
\<close>

definition ci_read_data :: "'p cam \<Rightarrow> nat \<Rightarrow> nat option \<Rightarrow> 'p ci_sys \<Rightarrow> (int \<times> u8 list \<times> 'p ci_sys) option" where
  "ci_read_data K slot ebuf s = do {
     x \<leftarrow> slot_at slot s;
     let link_err = (\<lambda>s. Some (- EIO, [], update_state slot DVB_CA_SLOTSTATE_LINKINIT s));
     if ebuf = None \<and> rx_buffer x = None then Some (- EIO, [], s)
     else if ebuf = None \<and> dvb_ringbuffer_free (the (rx_buffer x)) < link_buf_size x + int DVB_RINGBUFFER_PKTHDRSIZE then Some (- EAGAIN, [], s)
     else do {
       (hi, s) \<leftarrow> readIO K CTRLIF_SIZE_HIGH slot s;
       (lo, s) \<leftarrow> readIO K CTRLIF_SIZE_LOW slot s;
       let bytes_read = unat hi * 256 + unat lo;
       if ebuf = None \<and> int bytes_read > link_buf_size x then link_err s
       else if ebuf = None \<and> bytes_read < 2 then link_err s
       else if ebuf \<noteq> None \<and> bytes_read > the ebuf then Some (- EIO, [], s)
       else if bytes_read > HOST_LINK_BUF_SIZE then None
       else do {
         (buf, s) \<leftarrow> read_bytes K slot bytes_read s;
         (st, s) \<leftarrow> readIO K CTRLIF_STATUS slot s;
         if st AND STATUSREG_RE \<noteq> 0 then link_err s
         else read_store slot (ebuf \<noteq> None) buf s
       }
     }
   }"

fun write_bytes :: "'p cam \<Rightarrow> nat \<Rightarrow> u8 list \<Rightarrow> 'p ci_sys \<Rightarrow> (int \<times> 'p ci_sys) option" where
  "write_bytes K slot [] s = Some (R_ERR_SUCCESS, s)"
| "write_bytes K slot (b # bs) s =
     (case writeIO K CTRLIF_DATA b slot s of
        None \<Rightarrow> None
      | Some (r, s) \<Rightarrow> if r \<noteq> R_ERR_SUCCESS then Some (r, s) else write_bytes K slot bs s)"

text \<open>The transfer proper, from the HC bit on.\<close>

definition write_packet :: "'p cam \<Rightarrow> nat \<Rightarrow> u8 list \<Rightarrow> 'p ci_sys \<Rightarrow> (int \<times> 'p ci_sys) option" where
  "write_packet K slot buf s = do {
     (r, s) \<leftarrow> writeIO K CTRLIF_COMMAND (IRQEN OR CMDREG_HC) slot s;
     if r \<noteq> R_ERR_SUCCESS then Some (r, s) else do {
       (st, s) \<leftarrow> readIO K CTRLIF_STATUS slot s;
       if st AND STATUSREG_FR = 0 then Some (- EAGAIN, s) else do {
         (r, s) \<leftarrow> writeIO K CTRLIF_SIZE_HIGH (of_nat (length buf div 256)) slot s;
         if r \<noteq> R_ERR_SUCCESS then Some (r, s) else do {
           (r, s) \<leftarrow> writeIO K CTRLIF_SIZE_LOW (of_nat (length buf mod 256)) slot s;
           if r \<noteq> R_ERR_SUCCESS then Some (r, s) else do {
             (r, s) \<leftarrow> write_bytes K slot buf s;
             if r \<noteq> R_ERR_SUCCESS then Some (r, s) else do {
               (st, s) \<leftarrow> readIO K CTRLIF_STATUS slot s;
               if st AND STATUSREG_WE \<noteq> 0 then Some (- EIO, update_state slot DVB_CA_SLOTSTATE_LINKINIT s)
               else Some (int (length buf), s)
             }
           }
         }
       }
     }
   }"

definition ci_write_data :: "'p cam \<Rightarrow> nat \<Rightarrow> u8 list \<Rightarrow> 'p ci_sys \<Rightarrow> (int \<times> 'p ci_sys) option" where
  "ci_write_data K slot buf s = do {
     x \<leftarrow> slot_at slot s;
     if int (length buf) > link_buf_size x then Some (- EINVAL, s)
     else do {
       (st, s) \<leftarrow> readIO K CTRLIF_STATUS slot s;
       if st AND (STATUSREG_DA OR STATUSREG_RE) \<noteq> 0 then Some (- EAGAIN, s)
       else do {
         (status, s) \<leftarrow> write_packet K slot buf s;
         (_, s) \<leftarrow> writeIO K CTRLIF_COMMAND IRQEN slot s;
         Some (status, s)
       }
     }
   }"

text \<open>Reading and answering the buffer size of the module; each step ends the initialisation when it fails.\<close>

definition link_answer :: "'p cam \<Rightarrow> nat \<Rightarrow> nat \<Rightarrow> 'p ci_sys \<Rightarrow> (int \<times> 'p ci_sys) option" where
  "link_answer K slot buf_size s = do {
     (ret, s) \<leftarrow> writeIO K CTRLIF_COMMAND (IRQEN OR CMDREG_SW) slot s;
     if ret \<noteq> R_ERR_SUCCESS then Some (ret, s) else do {
       (ret, s) \<leftarrow> ci_wait_if_status K slot STATUSREG_FR 10 s;
       if ret \<noteq> 0 then Some (ret, s) else do {
         (ret, s) \<leftarrow> ci_write_data K slot [of_nat (buf_size div 256), of_nat (buf_size mod 256)] s;
         if ret \<noteq> 2 then Some (- EIO, s) else do {
           (ret, s) \<leftarrow> writeIO K CTRLIF_COMMAND IRQEN slot s;
           Some (if ret \<noteq> R_ERR_SUCCESS then ret else 0, s)
         }
       }
     }
   }"

definition ci_link_init :: "'p cam \<Rightarrow> nat \<Rightarrow> 'p ci_sys \<Rightarrow> (int \<times> 'p ci_sys) option" where
  "ci_link_init K slot s = do {
     x \<leftarrow> slot_at slot s;
     let s = set_slot slot (\<lambda>x. x\<lparr>da_irq_supported := False, link_buf_size := 2\<rparr>) s;
     (ret, s) \<leftarrow> writeIO K CTRLIF_COMMAND CMDREG_SR slot s;
     if ret \<noteq> R_ERR_SUCCESS then Some (ret, s) else do {
       (ret, s) \<leftarrow> ci_wait_if_status K slot STATUSREG_DA 10 s;
       if ret \<noteq> 0 then Some (ret, s) else do {
         (ret, buf, s) \<leftarrow> ci_read_data K slot (Some 2) s;
         if ret \<noteq> 2 then Some (- EIO, s) else do {
           (ret, s) \<leftarrow> writeIO K CTRLIF_COMMAND IRQEN slot s;
           if ret \<noteq> R_ERR_SUCCESS then Some (ret, s) else do {
             let buf_size = min (unat (buf ! 0) * 256 + unat (buf ! 1)) HOST_LINK_BUF_SIZE;
             link_answer K slot buf_size (set_slot slot (link_buf_size_update (\<lambda>_. int buf_size)) s)
           }
         }
       }
     }
   }"

section \<open>Attribute memory\<close>

definition readAttr :: "'p cam \<Rightarrow> nat \<Rightarrow> nat \<Rightarrow> 'p ci_sys \<Rightarrow> (u8 \<times> 'p ci_sys) option" where
  "readAttr K addr slot s = map_option (\<lambda>(v, p). (v, s\<lparr>pc := p\<rparr>)) (readMem K addr 1 slot (pc s))"

fun read_attrs :: "'p cam \<Rightarrow> nat \<Rightarrow> nat \<Rightarrow> nat \<Rightarrow> 'p ci_sys \<Rightarrow> (u8 list \<times> 'p ci_sys) option" where
  "read_attrs K slot addr 0 s = Some ([], s)"
| "read_attrs K slot addr (Suc n) s =
     (case readAttr K addr slot s of
        None \<Rightarrow> None
      | Some (b, s) \<Rightarrow> (case read_attrs K slot (addr + 2) n s of None \<Rightarrow> None | Some (bs, s) \<Rightarrow> Some (b # bs, s)))"

text \<open>The type, the bytes and the address behind a tuple; reading never fails, since what is read is a byte.\<close>

definition ci_read_tuple :: "'p cam \<Rightarrow> nat \<Rightarrow> nat \<Rightarrow> 'p ci_sys \<Rightarrow> (u8 \<times> u8 list \<times> nat \<times> 'p ci_sys) option" where
  "ci_read_tuple K slot address s = do {
     (type, s) \<leftarrow> readAttr K address slot s;
     if type = 0xFF then Some (type, [], address + 2, s)
     else do {
       (len, s) \<leftarrow> readAttr K (address + 2) slot s;
       (tuple, s) \<leftarrow> read_attrs K slot (address + 4) (unat len) s;
       Some (type, tuple, address + 4 + 2 * unat len, s)
     }
   }"

text \<open>The position of a string in a tuple.\<close>

fun find_from :: "nat \<Rightarrow> u8 list \<Rightarrow> u8 list \<Rightarrow> nat option" where
  "find_from i haystack needle =
     (if length haystack < length needle then None
      else if take (length needle) haystack = needle then Some i
      else case haystack of [] \<Rightarrow> None | _ # h \<Rightarrow> find_from (i + 1) h needle)"

declare find_from.simps [simp del]

definition findstr :: "u8 list \<Rightarrow> u8 list \<Rightarrow> nat option" where
  "findstr haystack needle = find_from 0 haystack needle"

definition str_bytes :: "string \<Rightarrow> u8 list" where
  "str_bytes = map (\<lambda>c. of_nat (of_char c))"

text \<open>The checks on the configuration tuple: the error, or the base address.\<close>

definition config_tuple :: "u8 list \<Rightarrow> u32 option" where
  "config_tuple tuple =
     (let rasz = unat (tuple ! 0 AND 3)
      in if length tuple < 3 then None
         else if length tuple < 3 + rasz + 14 then None
         else Some (foldr (\<lambda>i b. push_bit (8 * i) (ucast (tuple ! (2 + i))) OR b) [0..<rasz + 1] 0))"

definition config_string :: "u8 list \<Rightarrow> bool" where
  "config_string tuple =
     (case findstr tuple (str_bytes ''DVB_CI_V'') of
        None \<Rightarrow> False
      | Some i \<Rightarrow> length tuple \<ge> i + 12 \<and> take 4 (drop (i + 8) tuple) = str_bytes ''1.00'')"

text \<open>What a tuple behind the configuration does: a table entry sets the option of the slot, the first valid one counts.\<close>

definition entry_strings :: "u8 list \<Rightarrow> bool" where
  "entry_strings tuple \<longleftrightarrow> findstr tuple (str_bytes ''DVB_HOST'') \<noteq> None \<and> findstr tuple (str_bytes ''DVB_CI_MODULE'') \<noteq> None"

definition cftable_entry :: "nat \<Rightarrow> u8 \<Rightarrow> u8 list \<Rightarrow> bool \<Rightarrow> 'p ci_sys \<Rightarrow> bool \<times> 'p ci_sys" where
  "cftable_entry slot type tuple got s =
     (if type = 0x1B \<and> length tuple \<ge> 2 + 11 + 17 \<and> \<not> got
      then (entry_strings tuple, set_slot slot (config_option_update (\<lambda>_. tuple ! 0 AND 0x3F)) s)
      else (got, s))"

lemma read_tuple_advances: "ci_read_tuple K slot address s = Some (type, tuple, address', s') \<Longrightarrow> address < address'"
  by (auto simp: ci_read_tuple_def split: bind_splits if_splits)

function cftable_loop :: "'p cam \<Rightarrow> nat \<Rightarrow> nat \<Rightarrow> bool \<Rightarrow> 'p ci_sys \<Rightarrow> (nat \<times> bool \<times> 'p ci_sys) option" where
  "cftable_loop K slot address got s =
     (if address < 0x1000 then
        case ci_read_tuple K slot address s of
          None \<Rightarrow> None
        | Some (type, tuple, address', s) \<Rightarrow>
            if type = 0xFF then Some (address', got, s)
            else cftable_loop K slot address' (fst (cftable_entry slot type tuple got s)) (snd (cftable_entry slot type tuple got s))
      else Some (address, got, s))"
  by pat_completeness auto
termination
  by (relation "measure (\<lambda>(K, slot, address, got, s). 0x1000 - address)") (auto dest: read_tuple_advances)

declare cftable_loop.simps [simp del]

text \<open>The tuple at \<open>address\<close> when it has the expected type.\<close>

definition expect_tuple :: "'p cam \<Rightarrow> nat \<Rightarrow> u8 \<Rightarrow> nat \<Rightarrow> 'p ci_sys \<Rightarrow> ((u8 list \<times> nat) option \<times> 'p ci_sys) option" where
  "expect_tuple K slot type address s = do {
     (t, tuple, address, s) \<leftarrow> ci_read_tuple K slot address s;
     Some (if t \<noteq> type then None else Some (tuple, address), s)
   }"

definition parse_config :: "'p cam \<Rightarrow> nat \<Rightarrow> u8 list \<Rightarrow> nat \<Rightarrow> 'p ci_sys \<Rightarrow> (int \<times> 'p ci_sys) option" where
  "parse_config K slot tuple address s =
     (case config_tuple tuple of
        None \<Rightarrow> Some (- EINVAL, s)
      | Some base \<Rightarrow>
          let s = set_slot slot (config_base_update (\<lambda>_. base)) s
          in if \<not> config_string tuple then Some (- EINVAL, s)
             else do {
               (address, got, s) \<leftarrow> cftable_loop K slot address False s;
               Some (if address > 0x1000 \<or> \<not> got then - EINVAL else 0, s)
             })"

fun parse_heads :: "'p cam \<Rightarrow> nat \<Rightarrow> (u8 \<times> nat option) list \<Rightarrow> nat \<Rightarrow> 'p ci_sys \<Rightarrow> (nat option \<times> 'p ci_sys) option" where
  "parse_heads K slot [] address s = Some (Some address, s)"
| "parse_heads K slot ((type, n) # hs) address s =
     (case expect_tuple K slot type address s of
        None \<Rightarrow> None
      | Some (None, s) \<Rightarrow> Some (None, s)
      | Some (Some (tuple, address), s) \<Rightarrow>
          if n \<noteq> None \<and> n \<noteq> Some (length tuple) then Some (None, s) else parse_heads K slot hs address s)"

text \<open>The tuples in front: device (5 V), device (3 V), version and manufacturer (four bytes); then the configuration.\<close>

definition ci_parse_attributes :: "'p cam \<Rightarrow> nat \<Rightarrow> 'p ci_sys \<Rightarrow> (int \<times> 'p ci_sys) option" where
  "ci_parse_attributes K slot s = do {
     (a, s) \<leftarrow> parse_heads K slot [(0x1D, None), (0x1C, None), (0x15, None), (0x20, Some 4)] 0 s;
     case a of
       None \<Rightarrow> Some (- EINVAL, s)
     | Some address \<Rightarrow> do {
         (t, s) \<leftarrow> expect_tuple K slot 0x1A address s;
         case t of None \<Rightarrow> Some (- EINVAL, s) | Some (tuple, address) \<Rightarrow> parse_config K slot tuple address s
       }
   }"

definition ci_set_configoption :: "'p cam \<Rightarrow> nat \<Rightarrow> 'p ci_sys \<Rightarrow> (int \<times> 'p ci_sys) option" where
  "ci_set_configoption K slot s = do {
     x \<leftarrow> slot_at slot s;
     (_, p) \<leftarrow> writeMem K (unat (config_base x)) (config_option x) 1 slot (pc s);
     (_, s) \<leftarrow> readAttr K (unat (config_base x)) slot (s\<lparr>pc := p\<rparr>);
     Some (0, s)
   }"

section \<open>Events\<close>

definition ci_thread_wakeup :: "'p ci_sys \<Rightarrow> 'p ci_sys" where
  "ci_thread_wakeup = set_ca (ca_wakeup_update (\<lambda>_. True))"

definition ci_slot_shutdown :: "nat \<Rightarrow> 'p ci_sys \<Rightarrow> 'p ci_sys option" where
  "ci_slot_shutdown slot s = do {
     _ \<leftarrow> slot_at slot s;
     Some (wake_readers (set_slot slot (rx_buffer_update (\<lambda>_. None)) (update_state slot DVB_CA_SLOTSTATE_NONE s)))
   }"

definition ci_camchange_irq :: "nat \<Rightarrow> camchange \<Rightarrow> 'p ci_sys \<Rightarrow> 'p ci_sys option" where
  "ci_camchange_irq slot change_type s = do {
     _ \<leftarrow> slot_at slot s;
     Some (ci_thread_wakeup (set_slot slot (\<lambda>x. x\<lparr>camchange_type := change_type, camchange_count := camchange_count x + 1\<rparr>) s))
   }"

definition ci_camready_irq :: "nat \<Rightarrow> 'p ci_sys \<Rightarrow> 'p ci_sys" where
  "ci_camready_irq slot s =
     (if ci_get_slot_state slot s = DVB_CA_SLOTSTATE_WAITREADY
      then ci_thread_wakeup (update_state slot DVB_CA_SLOTSTATE_VALIDATE s) else s)"

definition ci_frda_irq :: "'p cam \<Rightarrow> nat \<Rightarrow> 'p ci_sys \<Rightarrow> 'p ci_sys option" where
  "ci_frda_irq K slot s =
     (if ci_get_slot_state slot s = DVB_CA_SLOTSTATE_LINKINIT then do {
        x \<leftarrow> slot_at slot s;
        if da_irq_supported x then Some s
        else do {
          (fl, s) \<leftarrow> readIO K CTRLIF_STATUS slot s;
          Some (if fl AND STATUSREG_DA \<noteq> 0 then set_slot slot (da_irq_supported_update (\<lambda>_. True)) s else s)
        }
      }
      else if ci_get_slot_state slot s = DVB_CA_SLOTSTATE_RUNNING \<and> ca_open (ca s) then
        map_option (\<lambda>(_, _, s). s) (ci_read_data K slot None s)
      else Some s)"

text \<open>The calls that the interrupt handler of the controller makes.\<close>

fun deliver :: "'p cam \<Rightarrow> ci_call \<Rightarrow> 'p ci_sys \<Rightarrow> 'p ci_sys option" where
  "deliver K (Camchange slot ty) s = ci_camchange_irq slot ty s"
| "deliver K (Frda slot) s = ci_frda_irq K slot s"

fun deliver_all :: "'p cam \<Rightarrow> ci_call list \<Rightarrow> 'p ci_sys \<Rightarrow> 'p ci_sys option" where
  "deliver_all K [] s = Some s"
| "deliver_all K (c # cs) s = (case deliver K c s of None \<Rightarrow> None | Some s \<Rightarrow> deliver_all K cs s)"

section \<open>The monitoring thread\<close>

definition ci_thread_should_wakeup :: "'p ci_sys \<Rightarrow> bool \<times> 'p ci_sys" where
  "ci_thread_should_wakeup s =
     (if ca_wakeup (ca s) then (True, set_ca (ca_wakeup_update (\<lambda>_. False)) s) else (ca_exit (ca s), s))"

definition slot_delay :: "'p ci_sys \<Rightarrow> dvb_ca_slot \<Rightarrow> int" where
  "slot_delay s x =
     (let poll = ca_flags (ca s) AND FLAG_IRQ_CAMCHANGE = 0
      in if slot_state x \<in> {DVB_CA_SLOTSTATE_NONE, DVB_CA_SLOTSTATE_INVALID} then if poll then 10 else 6000
         else if slot_state x = DVB_CA_SLOTSTATE_RUNNING then
           if ca_open (ca s) \<and> (\<not> da_irq_supported x \<or> ca_flags (ca s) AND FLAG_IRQ_DA = 0) then 1
           else if poll then 10 else 6000
         else 10)"

definition ci_thread_update_delay :: "'p ci_sys \<Rightarrow> 'p ci_sys" where
  "ci_thread_update_delay s =
     set_ca (ca_delay_update (\<lambda>_. foldl (\<lambda>d x. min d (slot_delay s x)) 100000000 (slot_info (ca s)))) s"

partial_function (option) camchange_loop :: "nat \<Rightarrow> 'p ci_sys \<Rightarrow> 'p ci_sys option" where
  [code]: "camchange_loop slot s =
     Option.bind (ci_check_camstatus slot s) (\<lambda>(changed, s).
     if \<not> changed then Some s
     else
       Option.bind (if ci_get_slot_state slot s \<noteq> DVB_CA_SLOTSTATE_NONE then ci_slot_shutdown slot s else Some s) (\<lambda>s.
       let s = (if camchange_type (slot_info (ca s) ! slot) = CAMCHANGE_INSERTED then update_state slot DVB_CA_SLOTSTATE_UNINITIALISED s else s)
       in camchange_loop slot (set_slot slot (\<lambda>x. x\<lparr>camchange_count := camchange_count x - 1\<rparr>) (ci_thread_update_delay s))))"

definition slot_invalid :: "nat \<Rightarrow> 'p ci_sys \<Rightarrow> 'p ci_sys" where
  "slot_invalid slot s = ci_thread_update_delay (update_state slot DVB_CA_SLOTSTATE_INVALID s)"

text \<open>The polling of a running module: at most ten packets; \<open>k\<close> is the number left.\<close>

fun poll_packets :: "'p cam \<Rightarrow> nat \<Rightarrow> nat \<Rightarrow> 'p ci_sys \<Rightarrow> 'p ci_sys option" where
  "poll_packets K slot 0 s = Some s"
| "poll_packets K slot (Suc k) s =
     (case ci_read_data K slot None s of
        None \<Rightarrow> None
      | Some (status, _, s) \<Rightarrow>
          if status \<le> 0 then Some s
          else if \<not> ca_open (ca s) then Some s
          else case ci_check_camstatus slot s of
                 None \<Rightarrow> None
               | Some (changed, s) \<Rightarrow>
                   if changed \<or> k = 0 then Some (set_ca (ca_wakeup_update (\<lambda>_. True)) s)
                   else poll_packets K slot k s)"

definition slot_validate :: "'p cam \<Rightarrow> nat \<Rightarrow> 'p ci_sys \<Rightarrow> 'p ci_sys option" where
  "slot_validate K slot s = do {
     (r, s) \<leftarrow> ci_parse_attributes K slot s;
     if r \<noteq> 0 then Some (slot_invalid slot s)
     else do {
       (r, s) \<leftarrow> ci_set_configoption K slot s;
       if r \<noteq> 0 then Some (slot_invalid slot s)
       else do {
         (r, s) \<leftarrow> writeIO K CTRLIF_COMMAND CMDREG_RS slot s;
         if r \<noteq> R_ERR_SUCCESS then Some (slot_invalid slot s)
         else
           let s = set_slot slot (slot_timeout_update (\<lambda>_. cam_jiffies K (pc s) + INIT_TIMEOUT)) s
           in Some (set_ca (ca_wakeup_update (\<lambda>_. False)) (update_state slot DVB_CA_SLOTSTATE_WAITFR s))
       }
     }
   }"

text \<open>\<open>vm\<close> is the result of allocating the receive buffer.\<close>

definition slot_linkinit :: "'p cam \<Rightarrow> nat \<Rightarrow> u8 list option \<Rightarrow> 'p ci_sys \<Rightarrow> 'p ci_sys option" where
  "slot_linkinit K slot vm s = do {
     (r, s) \<leftarrow> ci_link_init K slot s;
     if r \<noteq> 0 then Some (slot_invalid slot s)
     else case vm of
       None \<Rightarrow> Some (slot_invalid slot s)
     | Some rxbuf \<Rightarrow>
         Some (ci_thread_update_delay (update_state slot DVB_CA_SLOTSTATE_RUNNING
           (set_slot slot (rx_buffer_update (\<lambda>_. Some (dvb_ringbuffer_init rxbuf RX_BUFFER_SIZE))) s)))
   }"

definition slot_machine :: "'p cam \<Rightarrow> nat \<Rightarrow> u8 list option \<Rightarrow> 'p ci_sys \<Rightarrow> 'p ci_sys option" where
  "slot_machine K slot vm s =
     (let x = slot_info (ca s) ! slot;
          late = time_after (cam_jiffies K (pc s)) (slot_timeout x)
      in case ci_get_slot_state slot s of
        DVB_CA_SLOTSTATE_NONE \<Rightarrow> Some s
      | DVB_CA_SLOTSTATE_INVALID \<Rightarrow> Some s
      | DVB_CA_SLOTSTATE_UNINITIALISED \<Rightarrow> do {
          p \<leftarrow> hw_reset K slot (cam_msleep K 500 (pc s));
          let s = update_state slot DVB_CA_SLOTSTATE_VALIDATE (s\<lparr>pc := p\<rparr>);
          Some (set_slot slot (slot_timeout_update (\<lambda>_. cam_jiffies K p + INIT_TIMEOUT)) s)
        }
      | DVB_CA_SLOTSTATE_WAITREADY \<Rightarrow> Some (if late then slot_invalid slot s else s)
      | DVB_CA_SLOTSTATE_VALIDATE \<Rightarrow> slot_validate K slot s
      | DVB_CA_SLOTSTATE_WAITFR \<Rightarrow>
          if late then Some (slot_invalid slot s)
          else do {
            (fl, s) \<leftarrow> readIO K CTRLIF_STATUS slot s;
            Some (if fl AND STATUSREG_FR \<noteq> 0
                  then set_ca (ca_wakeup_update (\<lambda>_. True)) (update_state slot DVB_CA_SLOTSTATE_LINKINIT s) else s)
          }
      | DVB_CA_SLOTSTATE_LINKINIT \<Rightarrow> slot_linkinit K slot vm s
      | DVB_CA_SLOTSTATE_RUNNING \<Rightarrow>
          if \<not> ca_open (ca s) \<or> da_irq_supported x then Some s
          else poll_packets K slot MAX_RX_PACKETS_PER_ITERATION s)"

definition thread_slot :: "'p cam \<Rightarrow> nat \<Rightarrow> u8 list option \<Rightarrow> 'p ci_sys \<Rightarrow> 'p ci_sys option" where
  "thread_slot K slot vm s = do {
     s \<leftarrow> camchange_loop slot s;
     slot_machine K slot vm s
   }"

fun thread_slots :: "'p cam \<Rightarrow> (nat \<Rightarrow> u8 list option) \<Rightarrow> nat list \<Rightarrow> 'p ci_sys \<Rightarrow> 'p ci_sys option" where
  "thread_slots K vm [] s = Some s"
| "thread_slots K vm (slot # slots) s =
     (case thread_slot K slot (vm slot) s of None \<Rightarrow> None | Some s \<Rightarrow> thread_slots K vm slots s)"

text \<open>
  The thread: a list of what happens at each sleep (whether a signal ends it, what interrupts and processes do to
  the state meanwhile) and of the allocations of the pass behind it. At the end of the list it still runs.
\<close>

fun ci_thread_loop :: "'p cam \<Rightarrow> (bool \<times> ('p ci_sys \<Rightarrow> 'p ci_sys) \<times> (nat \<Rightarrow> u8 list option)) list \<Rightarrow> 'p ci_sys \<Rightarrow> 'p ci_sys option" where
  "ci_thread_loop K [] s = Some s"
| "ci_thread_loop K ((sig, env, vm) # es) s =
     (let finish = set_ca (thread_pid_update (\<lambda>_. 0))
      in if ca_exit (ca s) then Some (finish s)
         else
           let waits = \<not> ca_wakeup (ca s);
               s = (if waits then snd (ci_thread_should_wakeup (env s)) else s)
           in if waits \<and> (sig \<or> ca_exit (ca s)) then Some (finish s)
              else case thread_slots K vm [0..<slot_count s] (set_ca (ca_wakeup_update (\<lambda>_. False)) s) of
                     None \<Rightarrow> None
                   | Some s \<Rightarrow> ci_thread_loop K es s)"

definition ci_thread :: "'p cam \<Rightarrow> (bool \<times> ('p ci_sys \<Rightarrow> 'p ci_sys) \<times> (nat \<Rightarrow> u8 list option)) list \<Rightarrow> 'p ci_sys \<Rightarrow> 'p ci_sys option" where
  "ci_thread K es s = ci_thread_loop K es (ci_thread_update_delay s)"

section \<open>Control commands\<close>

datatype ca_cmd = CA_RESET | CA_GET_CAP | CA_GET_SLOT_INFO int | CA_unknown

text \<open>What a command writes into its argument: capabilities, or type and flags of a slot.\<close>

datatype ca_reply = No_reply | Caps nat nat nat nat | Slot_info int nat nat

fun reset_slots :: "nat list \<Rightarrow> 'p ci_sys \<Rightarrow> 'p ci_sys option" where
  "reset_slots [] s = Some s"
| "reset_slots (slot # slots) s =
     (if ci_get_slot_state slot s \<noteq> DVB_CA_SLOTSTATE_NONE then
        case ci_slot_shutdown slot s of
          None \<Rightarrow> None
        | Some s \<Rightarrow>
            (case (if ca_flags (ca s) AND FLAG_IRQ_CAMCHANGE \<noteq> 0 then ci_camchange_irq slot CAMCHANGE_INSERTED s else Some s) of
               None \<Rightarrow> None
             | Some s \<Rightarrow> reset_slots slots s)
      else reset_slots slots s)"

definition ci_io_do_ioctl :: "ca_cmd \<Rightarrow> 'p ci_sys \<Rightarrow> (int \<times> ca_reply \<times> 'p ci_sys) option" where
  "ci_io_do_ioctl cmd s =
     (case cmd of
        CA_RESET \<Rightarrow> do {
          s \<leftarrow> reset_slots [0..<slot_count s] s;
          Some (0, No_reply, ci_thread_wakeup (set_ca (next_read_slot_update (\<lambda>_. 0)) s))
        }
      | CA_GET_CAP \<Rightarrow> Some (0, Caps (slot_count s) 2 0 0, s)
      | CA_GET_SLOT_INFO num \<Rightarrow>
          if to_u32 num > slot_count s \<or> num < 0 then Some (- EINVAL, No_reply, s)
          else
            let st = ci_get_slot_state (nat num) s;
                present = (if st \<noteq> DVB_CA_SLOTSTATE_NONE \<and> st \<noteq> DVB_CA_SLOTSTATE_INVALID then 1 else 0);
                ready = (if st = DVB_CA_SLOTSTATE_RUNNING then 2 else 0)
            in Some (0, Slot_info num 2 (present + ready), s)
      | CA_unknown \<Rightarrow> Some (- EINVAL, No_reply, s))"

text \<open>
  The copies around a command: \<open>none\<close> says that the command has no argument in memory, \<open>wr\<close> that the result is
  copied back; \<open>big\<close> and \<open>kmem\<close> that a buffer is needed and there is one; \<open>from\<close> and \<open>to\<close> that a copy succeeds.
\<close>

definition dvb_usercopy :: "bool \<Rightarrow> bool \<Rightarrow> bool \<Rightarrow> bool \<Rightarrow> bool \<Rightarrow> bool \<Rightarrow> ('s \<Rightarrow> (int \<times> 'r \<times> 's) option) \<Rightarrow> 's \<Rightarrow> (int \<times> 'r option \<times> 's) option" where
  "dvb_usercopy none wr big kmem from to func s =
     (if \<not> none \<and> big \<and> \<not> kmem then Some (- ENOMEM, None, s)
      else if \<not> none \<and> \<not> from then Some (- EFAULT, None, s)
      else do {
        (err, r, s) \<leftarrow> func s;
        let err = (if err = - 515 then - EINVAL else err);
        if err < 0 then Some (err, None, s)
        else if \<not> none \<and> wr then if to then Some (err, Some r, s) else Some (- EFAULT, None, s)
        else Some (err, None, s)
      })"

definition ci_io_ioctl :: "bool \<Rightarrow> bool \<Rightarrow> bool \<Rightarrow> bool \<Rightarrow> bool \<Rightarrow> bool \<Rightarrow> ca_cmd \<Rightarrow> 'p ci_sys \<Rightarrow> (int \<times> ca_reply option \<times> 'p ci_sys) option" where
  "ci_io_ioctl none wr big kmem from to cmd s =
     (let (none, wr, big) = (case cmd of CA_RESET \<Rightarrow> (True, False, False) | CA_unknown \<Rightarrow> (none, wr, big) | _ \<Rightarrow> (False, True, False))
      in dvb_usercopy none wr big kmem from to (ci_io_do_ioctl cmd) s)"

section \<open>Sending\<close>

text \<open>One fragment, tried again while the module is busy, for half a second; the result is the error, \<open>None\<close> when it is written.\<close>

partial_function (option) send_fragment :: "'p cam \<Rightarrow> nat \<Rightarrow> u8 list \<Rightarrow> u32 \<Rightarrow> 'p ci_sys \<Rightarrow> (int option \<times> 'p ci_sys) option" where
  [code]: "send_fragment K slot frag until s =
     (if time_after (cam_jiffies K (pc s)) until then Some (Some (- EIO), s)
      else if ci_get_slot_state slot s \<noteq> DVB_CA_SLOTSTATE_RUNNING then Some (Some (- EIO), s)
      else Option.bind (ci_write_data K slot frag s) (\<lambda>(status, s).
        if status = int (length frag) then Some (None, s)
        else if status \<noteq> - EAGAIN then Some (Some status, s)
        else send_fragment K slot frag until (s\<lparr>pc := cam_msleep K 1 (pc s)\<rparr>)))"

text \<open>
  The length of a fragment: \<open>link_buf_size - 2\<close> is signed, and compared with the rest of the message as an unsigned number.
\<close>

definition frag_len :: "int \<Rightarrow> nat \<Rightarrow> int" where
  "frag_len link rest = (if rest < to_u32 (link - 2) then int rest else link - 2)"

text \<open>
  The fragments from position \<open>pos\<close> of the message on. A fragment is built in a local array of 512 bytes;
  \<open>fault pos\<close> is the number of bytes that cannot be copied from the user there, which is then the result.
\<close>

partial_function (option) send_fragments ::
  "'p cam \<Rightarrow> (nat \<Rightarrow> nat) \<Rightarrow> nat \<Rightarrow> u8 \<Rightarrow> u8 list \<Rightarrow> nat \<Rightarrow> 'p ci_sys \<Rightarrow> (int \<times> 'p ci_sys) option" where
  [code]: "send_fragments K fault slot conn msg pos s =
     (if pos < length msg then
        let fl = frag_len (link_buf_size (slot_info (ca s) ! slot)) (length msg - pos)
        in if fl < 0 \<or> fl + 2 > int HOST_LINK_BUF_SIZE then None
           else if fault pos \<noteq> 0 then Some (int (fault pos), s)
           else Option.bind (send_fragment K slot
               (conn # (if pos + nat fl < length msg then 0x80 else 0) # take (nat fl) (drop pos msg)) (cam_jiffies K (pc s) + 50) s) (\<lambda>(r, s).
             if r \<noteq> None then Some (the r, s) else send_fragments K fault slot conn msg (pos + nat fl) s)
      else Some (int (length msg) + 2, s))"

text \<open>\<open>hdr\<close> says that copying the two bytes of the header succeeds.\<close>

definition ci_io_write :: "'p cam \<Rightarrow> bool \<Rightarrow> (nat \<Rightarrow> nat) \<Rightarrow> u8 list \<Rightarrow> 'p ci_sys \<Rightarrow> (int \<times> 'p ci_sys) option" where
  "ci_io_write K hdr fault buf s =
     (if length buf < 2 then Some (- EINVAL, s)
      else if \<not> hdr then Some (- EFAULT, s)
      else
        let slot = unat (buf ! 0)
        in if ci_get_slot_state slot s \<noteq> DVB_CA_SLOTSTATE_RUNNING then Some (- EINVAL, s)
           else send_fragments K fault slot (buf ! 1) (drop 2 buf) 0 s)"

section \<open>Receiving\<close>

text \<open>Two bytes read over an array.\<close>

definition over :: "u8 list \<Rightarrow> u8 list \<Rightarrow> u8 list" where
  "over bs hdr = bs @ drop (length bs) hdr"

definition conn_of :: "u8 option \<Rightarrow> u8 list \<Rightarrow> u8" where
  "conn_of conn hdr = (case conn of None \<Rightarrow> hdr ! 0 | Some c \<Rightarrow> c)"

definition no_fault :: "nat \<Rightarrow> bool" where "no_fault k = False"

text \<open>The header of packet \<open>i\<close>, and the connection looked for.\<close>

definition frag_head :: "dvb_ringbuffer \<Rightarrow> u8 list \<Rightarrow> u8 option \<Rightarrow> nat \<Rightarrow> (u8 list \<times> u8) option" where
  "frag_head r hdr conn i =
     map_option (\<lambda>(_, bs). (over bs hdr, conn_of conn (over bs hdr))) (dvb_ringbuffer_pkt_read r i 0 2 False no_fault)"

text \<open>
  Whether the ring holds a last fragment of the connection \<open>conn\<close> (that of the first fragment met, when it is not yet known)
  from packet \<open>idx\<close> on; also the connection.
\<close>

partial_function (option) find_last :: "dvb_ringbuffer \<Rightarrow> u8 list \<Rightarrow> u8 option \<Rightarrow> (nat \<times> nat) option \<Rightarrow> (bool \<times> u8 list \<times> u8 option) option" where
  [code]: "find_last r hdr conn idx =
     (if idx = None then Some (False, hdr, conn)
      else Option.bind (frag_head r hdr conn (fst (the idx))) (\<lambda>(hdr, c).
        if hdr ! 0 = c \<and> hdr ! 1 AND 0x80 = 0 then Some (True, hdr, Some c)
        else Option.bind (dvb_ringbuffer_pkt_next r (Some (fst (the idx)))) (\<lambda>nxt. find_last r hdr (Some c) nxt)))"

text \<open>The search over the slots, at most \<open>k\<close> of them: the slot found and the one to continue with.\<close>

fun search_slots :: "nat \<Rightarrow> nat \<Rightarrow> u8 list \<Rightarrow> u8 option \<Rightarrow> 'p ci_sys \<Rightarrow> (nat option \<times> nat option) option" where
  "search_slots 0 slot hdr conn s = Some (None, Some slot)"
| "search_slots (Suc k) slot hdr conn s =
     (let nextslot = (slot + 1) mod slot_count s
      in if ci_get_slot_state slot s \<noteq> DVB_CA_SLOTSTATE_RUNNING then search_slots k nextslot hdr conn s
         else case rx_buffer (slot_info (ca s) ! slot) of
           None \<Rightarrow> Some (None, None)
         | Some r \<Rightarrow>
             (case Option.bind (dvb_ringbuffer_pkt_next r None) (find_last r hdr conn) of
                None \<Rightarrow> None
              | Some (found, hdr, conn) \<Rightarrow>
                  if found then Some (Some slot, Some nextslot) else search_slots k nextslot hdr conn s))"

definition ci_io_read_condition :: "'p ci_sys \<Rightarrow> (nat option \<times> 'p ci_sys) option" where
  "ci_io_read_condition s = do {
     (found, nxt) \<leftarrow> search_slots (slot_count s) (next_read_slot (ca s)) [0, 0] None s;
     Some (found, case nxt of None \<Rightarrow> s | Some n \<Rightarrow> set_ca (next_read_slot_update (\<lambda>_. n)) s)
   }"

text \<open>
  Waiting for a message: each element is a wake-up with the state found then, or a signal (\<open>None\<close>). The result is the
  slot, or the error.
\<close>

fun read_sleep :: "('p ci_sys \<Rightarrow> 'p ci_sys) option list \<Rightarrow> 'p ci_sys \<Rightarrow> ((int + nat) \<times> 'p ci_sys) option" where
  "read_sleep es s =
     (case ci_io_read_condition s of
        None \<Rightarrow> None
      | Some (Some slot, s) \<Rightarrow> Some (Inr slot, s)
      | Some (None, s) \<Rightarrow>
          (case es of
             [] \<Rightarrow> None
           | None # _ \<Rightarrow> Some (Inl (- ERESTARTSYS), s)
           | Some env # es \<Rightarrow> read_sleep es (env s)))"

declare read_sleep.simps [simp del]

text \<open>How much of a fragment is copied.\<close>

definition take_len :: "nat \<Rightarrow> nat \<Rightarrow> nat \<Rightarrow> nat" where
  "take_len count pktlen fraglen =
     (if to_u32 (int pktlen + int fraglen - 2) > count then count - pktlen else to_u32 (int fraglen - 2))"

text \<open>
  Collecting the fragments of the first connection from packet \<open>idx\<close> on; \<open>pktlen\<close> counts the bytes placed so far with the
  two of the header, \<open>out\<close> are the ones behind the header, and \<open>fault j\<close> tells which copies of fragment \<open>j\<close> fail.
\<close>

partial_function (option) read_frags ::
  "nat \<Rightarrow> (nat \<Rightarrow> nat \<Rightarrow> bool) \<Rightarrow> nat \<Rightarrow> u8 list \<Rightarrow> u8 option \<Rightarrow> nat \<Rightarrow> u8 list \<Rightarrow> (nat \<times> nat) option \<Rightarrow> dvb_ringbuffer \<Rightarrow>
    (int \<times> u8 option \<times> u8 list \<times> dvb_ringbuffer) option" where
  [code]: "read_frags count fault j hdr conn pktlen out idx r =
     (if idx = None then Some (- EIO, conn, out, r)
      else Option.bind (frag_head r hdr conn (fst (the idx))) (\<lambda>(hdr, c).
        Option.bind
          (if hdr ! 0 = c \<and> pktlen < count
           then dvb_ringbuffer_pkt_read r (fst (the idx)) 2 (take_len count pktlen (snd (the idx))) True (fault j) else Some (0, [])) (\<lambda>(st, bs).
        if st < 0 then Some (st, Some c, out, r)
        else Option.bind (dvb_ringbuffer_pkt_next r (Some (fst (the idx)))) (\<lambda>nxt.
          Option.bind (if hdr ! 0 = c then dvb_ringbuffer_pkt_dispose r (fst (the idx)) else Some r) (\<lambda>r.
            let pktlen = (if hdr ! 0 = c \<and> pktlen < count then pktlen + take_len count pktlen (snd (the idx)) else pktlen)
            in if hdr ! 0 = c \<and> hdr ! 1 AND 0x80 = 0 then Some (int pktlen, Some c, out @ bs, r)
               else read_frags count fault (j + 1) hdr (Some c) pktlen (out @ bs) nxt r)))))"

text \<open>
  \<open>nonblock\<close> is \<open>O_NONBLOCK\<close>, \<open>left\<close> the number of bytes of the header that cannot be copied, which is then the result. The second
  result is what has been placed in the user's buffer, header first.
\<close>

definition ci_io_read ::
  "nat \<Rightarrow> bool \<Rightarrow> ('p ci_sys \<Rightarrow> 'p ci_sys) option list \<Rightarrow> (nat \<Rightarrow> nat \<Rightarrow> bool) \<Rightarrow> nat \<Rightarrow> 'p ci_sys \<Rightarrow> (int \<times> u8 list \<times> 'p ci_sys) option" where
  "ci_io_read count nonblock es fault left s =
     (if count < 2 then Some (- EINVAL, [], s)
      else do {
        (w, s) \<leftarrow> ci_io_read_condition s;
        (w, s) \<leftarrow> (case w of Some slot \<Rightarrow> Some (Inr slot, s)
                   | None \<Rightarrow> if nonblock then Some (Inl (- EAGAIN), s) else read_sleep es s);
        case w of
          Inl e \<Rightarrow> Some (e, [], s)
        | Inr slot \<Rightarrow> do {
            x \<leftarrow> slot_at slot s;
            r \<leftarrow> rx_buffer x;
            idx \<leftarrow> dvb_ringbuffer_pkt_next r None;
            (status, conn, out, r) \<leftarrow> read_frags count fault 0 [0, 0] None 2 [] idx r;
            let s = set_slot slot (rx_buffer_update (\<lambda>_. Some r)) s;
            if status < 0 then Some (status, [], s)
            else if left \<noteq> 0 then Some (int left, [], s)
            else Some (status, of_nat slot # the conn # out, s)
          }
      })"

section \<open>Opening, closing and polling\<close>

record dvb_device =
  users :: int
  readers :: int
  writers :: int

definition dvb_generic_open :: "bool \<Rightarrow> dvb_device option \<Rightarrow> int \<times> dvb_device option" where
  "dvb_generic_open rdonly d =
     (case d of
        None \<Rightarrow> (- ENODEV, d)
      | Some v \<Rightarrow>
          if users v = 0 then (- EBUSY, d)
          else if rdonly then
            if readers v = 0 then (- EBUSY, d) else (0, Some (v\<lparr>readers := readers v - 1, users := users v - 1\<rparr>))
          else if writers v = 0 then (- EBUSY, d) else (0, Some (v\<lparr>writers := writers v - 1, users := users v - 1\<rparr>)))"

definition dvb_generic_release :: "bool \<Rightarrow> dvb_device option \<Rightarrow> int \<times> dvb_device option" where
  "dvb_generic_release rdonly d =
     (case d of
        None \<Rightarrow> (- ENODEV, d)
      | Some v \<Rightarrow>
          (0, Some ((if rdonly then v\<lparr>readers := readers v + 1\<rparr> else v\<lparr>writers := writers v + 1\<rparr>)\<lparr>users := users v + 1\<rparr>)))"

definition flush_slot :: "dvb_ca_slot \<Rightarrow> dvb_ca_slot" where
  "flush_slot x = (if slot_state x = DVB_CA_SLOTSTATE_RUNNING then x\<lparr>rx_buffer := map_option dvb_ringbuffer_flush (rx_buffer x)\<rparr> else x)"

definition ci_io_open :: "'p ci_sys \<Rightarrow> int \<times> 'p ci_sys" where
  "ci_io_open s = (0, ci_thread_wakeup (ci_thread_update_delay (set_ca (\<lambda>c. c\<lparr>slot_info := map flush_slot (slot_info c), ca_open := True\<rparr>) s)))"

definition ci_io_release :: "bool \<Rightarrow> dvb_device option \<Rightarrow> 'p ci_sys \<Rightarrow> int \<times> dvb_device option \<times> 'p ci_sys" where
  "ci_io_release rdonly d s =
     (0, snd (dvb_generic_release rdonly d), ci_thread_update_delay (set_ca (ca_open_update (\<lambda>_. False)) s))"

text \<open>\<open>env\<close> is what happens between the two tests.\<close>

definition ci_io_poll :: "('p ci_sys \<Rightarrow> 'p ci_sys) \<Rightarrow> 'p ci_sys \<Rightarrow> (nat \<times> 'p ci_sys) option" where
  "ci_io_poll env s = do {
     (w, s) \<leftarrow> ci_io_read_condition s;
     if w \<noteq> None then Some (1, s)
     else do {
       (w, s) \<leftarrow> ci_io_read_condition (env s);
       Some (if w \<noteq> None then 1 else 0, s)
     }
   }"

section \<open>Start and end\<close>

definition new_slot :: dvb_ca_slot where
  "new_slot = \<lparr>slot_state = DVB_CA_SLOTSTATE_NONE, camchange_count = 0, camchange_type = CAMCHANGE_REMOVED, config_base = 0,
     config_option = 0, da_irq_supported = False, link_buf_size = 0, rx_buffer = None, slot_timeout = 0\<rparr>"

definition new_ca :: "nat \<Rightarrow> dvb_ca_private" where
  "new_ca n = \<lparr>ca_flags = 7, slot_info = replicate n new_slot, thread_pid = 0, ca_exit = False, ca_open = False, ca_wakeup = False,
     ca_delay = 0, next_read_slot = 0\<rparr>"

text \<open>
  \<open>conf\<close> is the configured number of slots; \<open>mem\<close>, \<open>slots\<close> and \<open>reg\<close> say whether the allocations and the registration of the device
  succeed, \<open>unreg\<close> is the result of taking it back on an error, \<open>sig\<close> a pending signal, \<open>pid\<close> the result of starting the thread.
\<close>

definition ci_module_init ::
  "'p cam \<Rightarrow> nat \<Rightarrow> bool \<Rightarrow> bool \<Rightarrow> bool \<Rightarrow> int \<Rightarrow> bool \<Rightarrow> int \<Rightarrow> 'p \<Rightarrow> (int \<times> 'p ci_sys option) option" where
  "ci_module_init K conf mem slots reg unreg sig pid p =
     (let n = (if conf = 2 then 2 else 1);
          error = (\<lambda>ret. Some (if unreg \<noteq> 0 then unreg else ret, None));
          s = \<lparr>ca = new_ca n, pc = p, rx_wakes = 0\<rparr>
      in if \<not> mem then Some (- ENOMEM, None)
         else if \<not> slots then error (- ENOMEM)
         else if \<not> reg then Some (- EIO, None)
         else if sig then error (- EINTR)
         else if pid < 0 then error pid
         else do {
           (cs, p) \<leftarrow> cam_register K p;
           s \<leftarrow> deliver_all K cs (set_ca (thread_pid_update (\<lambda>_. pid)) (s\<lparr>pc := p\<rparr>));
           Some (0, Some s)
         })"

fun shutdown_slots :: "nat list \<Rightarrow> 'p ci_sys \<Rightarrow> 'p ci_sys option" where
  "shutdown_slots [] s = Some s"
| "shutdown_slots (slot # slots) s = (case ci_slot_shutdown slot s of None \<Rightarrow> None | Some s \<Rightarrow> shutdown_slots slots s)"

text \<open>\<open>died\<close> says that the thread has died already, \<open>env\<close> is its reaction to the exit flag.\<close>

definition ci_module_exit :: "bool \<Rightarrow> ('p ci_sys \<Rightarrow> 'p ci_sys) \<Rightarrow> 'p ci_sys \<Rightarrow> 'p ci_sys option" where
  "ci_module_exit died env s =
     (let s = (if thread_pid (ca s) \<noteq> 0 \<and> \<not> died then env (ci_thread_wakeup (set_ca (ca_exit_update (\<lambda>_. True)) s)) else s)
      in shutdown_slots [0..<slot_count s] s)"

end
