(* ===== verification/Ci_Read.thy ===== *)
theory Ci_Read
  imports Ci
begin

text \<open>
  The receiving side of the common interface against its abstract view: the ring of a slot is the list of the fragments that
  are ready, a read takes the message of the first one's connection out of it.
\<close>

section \<open>Positions in the ring\<close>

definition ready :: "pkt list \<Rightarrow> u8 list list" where
  "ready ps = map snd (filter (\<lambda>p. fst p = 0) ps)"

text \<open>Link packets have at least the two bytes of their header.\<close>

definition frags_ok :: "pkt list \<Rightarrow> bool" where
  "frags_ok ps \<longleftrightarrow> list_all (\<lambda>p. 2 \<le> length (snd p)) ps"

definition ring_ok :: "dvb_ringbuffer \<Rightarrow> pkt list \<Rightarrow> bool" where
  "ring_ok r ps \<longleftrightarrow> rb_packets r ps \<and> frags_ok ps \<and> rb_size r = 65535 \<and> rb_fill r < 65534"

lemma ready_simps [simp]: "ready [] = []" "ready (p # ps) = (if fst p = 0 then snd p # ready ps else ready ps)"
  "ready (ps @ qs) = ready ps @ ready qs"
  by (simp_all add: ready_def)

lemma frags_ok_simps [simp]: "frags_ok []" "frags_ok (p # ps) \<longleftrightarrow> 2 \<le> length (snd p) \<and> frags_ok ps"
  "frags_ok (ps @ qs) \<longleftrightarrow> frags_ok ps \<and> frags_ok qs"
  by (auto simp: frags_ok_def)

text \<open>The first ready packet of \<open>qs\<close>, which start at index \<open>i\<close>.\<close>

fun seek :: "nat \<Rightarrow> pkt list \<Rightarrow> (nat \<times> nat) option" where
  "seek i [] = None"
| "seek i (p # ps) = (if fst p = 0 then Some (i, length (snd p)) else seek ((i + 3 + length (snd p)) mod 65535) ps)"

lemma seek_first_ready:
  assumes "rb_size r = 65535"
  shows "map_option (\<lambda>(off, len). (pkt_idx r off, len)) (first_ready qs off) = seek (pkt_idx r off) qs"
proof (induction qs arbitrary: off)
  case (Cons p qs)
  have "(pkt_idx r off + 3 + length (snd p)) mod 65535 = pkt_idx r (off + 3 + length (snd p))"
    using pkt_idx_add [of r off "3 + length (snd p)"] assms by (simp add: add.assoc)
  then show ?case using Cons by simp
qed simp

text \<open>
  The continued search overestimates by one byte behind the wrap. Packets of two bytes or more are found all the same.
\<close>

lemma pkt_search_slack:
  assumes "rb_packets r (ps @ qs)" "frags_ok qs" "e \<le> 1"
  shows "pkt_search r (pkt_idx r (length (pkts_enc ps))) (int (length (pkts_enc ps) + e)) =
    Some (map_option (\<lambda>(off, len). (pkt_idx r off, len)) (first_ready qs (length (pkts_enc ps))))"
  using assms(1,2)
proof (induction qs arbitrary: ps)
  case Nil
  have "dvb_ringbuffer_avail r = int (length (pkts_enc ps))"
    using Nil(1) rb_fill_facts(3) [of r] rb_packets_fill [of r ps] by (simp add: rb_packets_def)
  then show ?case by (subst pkt_search.simps) simp
next
  case (Cons q qs)
  let ?o = "length (pkts_enc ps)" and ?n = "length (snd q)"
  have av: "dvb_ringbuffer_avail r - int (?o + e) > 3"
    using Cons.prems assms(3) rb_fill_facts(3) [of r] rb_packets_fill [OF Cons.prems(1)] by (simp add: rb_packets_def)
  note h = pkt_header [OF Cons.prems(1)]
  have nx: "(pkt_idx r ?o + ?n + 3) mod rb_size r = pkt_idx r (?o + 3 + ?n)"
    using pkt_idx_add [of r ?o "?n + 3"] by (simp add: add.assoc add.commute add.left_commute)
  have ih: "pkt_search r (pkt_idx r (?o + 3 + ?n)) (int (?o + 3 + ?n + e)) =
      Some (map_option (\<lambda>(off, len). (pkt_idx r off, len)) (first_ready qs (?o + 3 + ?n)))"
    using Cons.IH [of "ps @ [q]"] Cons.prems by (simp add: add.assoc)
  have "pkt_search r (pkt_idx r ?o) (int (?o + e)) =
     (if fst q = 0 then Some (Some (pkt_idx r ?o, ?n)) else pkt_search r (pkt_idx r (?o + 3 + ?n)) (int (?o + 3 + ?n + e)))"
    using av h nx by (subst pkt_search.simps) (simp add: algebra_simps)
  then show ?case using ih by simp
qed

lemma next_first: "ring_ok r ps \<Longrightarrow> dvb_ringbuffer_pkt_next r None = Some (seek (pread r) ps)"
proof -
  assume r: "ring_ok r ps"
  then have "pkt_idx r 0 = pread r" by (simp add: ring_ok_def pkt_idx_def rb_packets_def rb_ok_def)
  then show ?thesis using pkt_next_first [of r ps] seek_first_ready [of r ps 0] r by (simp add: ring_ok_def)
qed

text \<open>The packets \<open>qs\<close> start at index \<open>i\<close>; \<open>bs\<close> are the ready ones in front of them.\<close>

definition ring_pos :: "dvb_ringbuffer \<Rightarrow> nat \<Rightarrow> u8 list list \<Rightarrow> pkt list \<Rightarrow> bool" where
  "ring_pos r i bs qs \<longleftrightarrow> (\<exists>ps. ring_ok r (ps @ qs) \<and> i = pkt_idx r (length (pkts_enc ps)) \<and> ready ps = bs)"

definition behind :: "nat \<Rightarrow> pkt \<Rightarrow> nat" where
  "behind i p = (i + 3 + length (snd p)) mod 65535"

lemma ring_pos_start: "ring_ok r ps \<Longrightarrow> ring_pos r (pread r) [] ps"
proof -
  assume r: "ring_ok r ps"
  then have "pkt_idx r 0 = pread r" by (simp add: ring_ok_def pkt_idx_def rb_packets_def rb_ok_def)
  then show ?thesis unfolding ring_pos_def using r by (intro exI [of _ "[]"]) simp
qed

lemma behind_idx: "rb_size r = 65535 \<Longrightarrow> behind (pkt_idx r (length (pkts_enc ps))) p = pkt_idx r (length (pkts_enc (ps @ [p])))"
  using pkt_idx_add [of r "length (pkts_enc ps)" "3 + length (snd p)"] by (simp add: behind_def add.assoc)

lemma ring_pos_step: "ring_pos r i bs (p # qs) \<Longrightarrow> ring_pos r (behind i p) (bs @ ready [p]) qs"
  unfolding ring_pos_def by (elim exE, rule_tac x = "ps @ [p]" in exI) (auto simp: ring_ok_def behind_idx)

lemma pos_read:
  assumes "ring_pos r i bs (p # qs)" "offset \<le> length (snd p)"
  shows "dvb_ringbuffer_pkt_read r i offset len um no_fault = Some (int (length (take len (drop offset (snd p)))), take len (drop offset (snd p)))"
  using assms dvb_pkt_read_payload [of r _ p qs um no_fault offset len] by (auto simp: ring_pos_def ring_ok_def no_fault_def)

lemma pos_head:
  assumes "ring_pos r i bs (p # qs)" "length hdr = 2"
  shows "frag_head r hdr conn i = Some (take 2 (snd p), conn_of conn (take 2 (snd p)))"
proof -
  have "2 \<le> length (snd p)" using assms(1) by (auto simp: ring_pos_def ring_ok_def)
  then show ?thesis using pos_read [OF assms(1), of 0 2 False] assms(2) by (simp add: frag_head_def over_def)
qed

lemma pos_next:
  assumes "ring_pos r i bs (p # qs)"
  shows "dvb_ringbuffer_pkt_next r (Some i) = Some (seek (behind i p) qs)"
proof -
  obtain ps where r: "ring_ok r (ps @ p # qs)" "i = pkt_idx r (length (pkts_enc ps))" using assms by (auto simp: ring_pos_def)
  let ?off = "length (pkts_enc (ps @ [p]))"
  have ok: "rb_ok r" "rb_packets r (ps @ p # qs)" "rb_size r = 65535" using r by (simp_all add: ring_ok_def rb_packets_def)
  have lt: "?off < 65534" using rb_packets_fill [OF ok(2)] r by (simp add: ring_ok_def)
  define off where "off = ?off"
  have "2 ^ 32 - (65535 - off) = (off + 1) + 65535 * 65536" using lt by (simp add: off_def)
  then have "(2 ^ 32 - (65535 - off)) mod 65535 = off + 1" using lt by (simp only: mod_mult_self2) (simp add: off_def)
  then have "to_u32 (int (pkt_idx r ?off) - int (pread r)) mod rb_size r = ?off \<or> to_u32 (int (pkt_idx r ?off) - int (pread r)) mod rb_size r = ?off + 1"
    using pkt_consumed [OF ok(1), of ?off] lt ok(3) by (simp add: off_def)
  then obtain e where e: "e \<le> 1" "to_u32 (int (pkt_idx r ?off) - int (pread r)) mod rb_size r = ?off + e"
    by (metis add.right_neutral le_refl zero_le_one)
  have "frags_ok qs" using r by (simp add: ring_ok_def)
  then show ?thesis
    using pkt_next_from [OF ok(2)] pkt_search_slack [of r "ps @ [p]" qs e] e ok seek_first_ready [OF ok(3), of qs ?off] behind_idx [OF ok(3), of ps p] r(2)
    by simp
qed

section \<open>Disposing at a position\<close>

abbreviation (input) gone :: "pkt \<Rightarrow> bool" where "gone p \<equiv> fst p = 1"

lemma cleanup_moves:
  assumes "rb_packets r ps"
  shows "\<exists>r'. pkt_cleanup r = Some r' \<and> rb_packets r' (dropWhile gone ps) \<and> rb_size r' = rb_size r \<and>
    pread r' = pkt_idx r (length (pkts_enc (takeWhile gone ps)))"
  using assms
proof (induction ps arbitrary: r)
  case Nil
  then have "dvb_ringbuffer_avail r = 0"
    using rb_fill_facts(3) [of r] rb_packets_fill [OF Nil] by (simp add: rb_packets_def)
  then show ?case using Nil by (simp add: pkt_cleanup.simps pkt_idx_def rb_packets_def rb_ok_def)
next
  case (Cons p ps)
  have ok: "rb_ok r" and q: "1 \<le> length (snd p)" and l: "length (snd p) < 65536"
    using Cons.prems by (auto simp: rb_packets_def)
  have av: "dvb_ringbuffer_avail r > 3"
    using rb_fill_facts(3) [OF ok] rb_packets_fill [OF Cons.prems] q by simp
  have i0: "pkt_idx r (length (pkts_enc [])) = pread r" using ok by (simp add: pkt_idx_def rb_ok_def)
  have m: "pread r mod rb_size r = pread r" using ok by (simp add: rb_ok_def)
  note h = pkt_header [of r "[]" p ps, simplified i0 append_Nil, OF Cons.prems]
  show ?case
  proof (cases "gone p")
    case True
    let ?r = "dvb_ringbuffer_skip (length (snd p) + 3) r"
    have le: "length (snd p) + 3 \<le> rb_fill r" using rb_packets_fill [OF Cons.prems] by simp
    have "drop (length (snd p) + 3) (pkt_enc p @ pkts_enc ps) = pkts_enc ps" by simp
    then have "rb_packets ?r ps"
      using rb_contents_drop [OF ok le] Cons.prems by (simp add: rb_packets_def dvb_ringbuffer_skip_def)
    moreover have "pkt_cleanup r = pkt_cleanup ?r"
      using av h True m l
      by (subst pkt_cleanup.simps) (simp add: dvb_ringbuffer_peek_def pkt_len_bytes)
    moreover have "rb_size ?r = rb_size r" "pkt_idx ?r n = pkt_idx r (3 + length (snd p) + n)" for n
      by (simp_all add: dvb_ringbuffer_skip_def pkt_idx_def mod_simps add.assoc add.left_commute)
    ultimately show ?thesis using Cons.IH [of ?r] True by (auto simp: add.assoc)
  next
    case False
    then have "pkt_cleanup r = Some r"
      using av h m by (subst pkt_cleanup.simps) (simp add: dvb_ringbuffer_peek_def)
    then show ?thesis using Cons.prems False i0 by simp
  qed
qed

lemma ready_dropWhile: "ready (dropWhile gone ps) = ready ps"
  by (induction ps) auto

lemma frags_ok_dropWhile: "frags_ok ps \<Longrightarrow> frags_ok (dropWhile gone ps)"
  by (induction ps) auto

lemma dispose_moves:
  assumes "rb_packets r (ps @ p # qs)"
  shows "\<exists>r'. dvb_ringbuffer_pkt_dispose r (pkt_idx r (length (pkts_enc ps))) = Some r' \<and>
    rb_packets r' (dropWhile gone (ps @ (1, snd p) # qs)) \<and> rb_size r' = rb_size r \<and>
    pread r' = pkt_idx r (length (pkts_enc (takeWhile gone (ps @ (1, snd p) # qs))))"
proof -
  let ?o = "length (pkts_enc ps)"
  have ok: "rb_ok r" and c: "rb_contents r = pkts_enc ps @ pkt_enc p @ pkts_enc qs"
    using assms by (auto simp: rb_packets_def)
  have lt: "?o + 2 < rb_fill r" using rb_packets_fill [OF assms] by simp
  obtain d where d: "write_at (rb_data r) (pkt_idx r (?o + 2)) [1] = Some d" "rb_ok (r\<lparr>rb_data := d\<rparr>)"
      "rb_contents (r\<lparr>rb_data := d\<rparr>) = (rb_contents r)[?o + 2 := 1]"
    using rb_contents_update [OF ok lt] by blast
  have "(rb_contents r)[?o + 2 := 1] = pkts_enc (ps @ (1, snd p) # qs)"
    by (simp add: c list_update_append pkt_enc_def numeral_2_eq_2)
  then have "rb_packets (r\<lparr>rb_data := d\<rparr>) (ps @ (1, snd p) # qs)"
    using d assms by (simp add: rb_packets_def)
  from cleanup_moves [OF this] show ?thesis
    unfolding dvb_ringbuffer_pkt_dispose_def pkt_idx_add using d(1) by (simp add: pkt_idx_def)
qed

lemma seek_dropWhile: "i < 65535 \<Longrightarrow> seek i qs = seek ((i + length (pkts_enc (takeWhile gone qs))) mod 65535) (dropWhile gone qs)"
proof (induction qs arbitrary: i)
  case (Cons q qs)
  then show ?case using Cons.IH [of "(i + 3 + length (snd q)) mod 65535"] by (auto simp: mod_simps add.assoc)
qed simp

text \<open>The first packet of a position is disposed of: the ready ones in front and the packets behind stay where they are.\<close>

lemma pos_dispose:
  assumes "ring_pos r i bs (p # qs)"
  shows "\<exists>r' i' qs'. dvb_ringbuffer_pkt_dispose r i = Some r' \<and> ring_pos r' i' bs qs' \<and> ready qs' = ready qs \<and>
    seek i' qs' = seek (behind i p) qs"
proof -
  obtain ps where r: "ring_ok r (ps @ p # qs)" "i = pkt_idx r (length (pkts_enc ps))" "ready ps = bs"
    using assms by (auto simp: ring_pos_def)
  let ?L = "ps @ [(1, snd p)]" let ?n = "length (pkts_enc ?L)"
  obtain r' where d: "dvb_ringbuffer_pkt_dispose r i = Some r'" "rb_packets r' (dropWhile gone (?L @ qs))" "rb_size r' = 65535"
    "pread r' = pkt_idx r (length (pkts_enc (takeWhile gone (?L @ qs))))"
    using dispose_moves [of r ps p qs] r by (auto simp: ring_ok_def)
  have sz: "rb_size r = 65535" using r by (simp add: ring_ok_def)
  have b: "behind i p = pkt_idx r ?n" using behind_idx [OF sz, of ps p] r(2) by simp
  have len: "length (pkts_enc (dropWhile gone (?L @ qs))) \<le> length (pkts_enc (?L @ qs))"
    by (metis le_add2 length_append pkts_enc_simps(3) takeWhile_dropWhile_id)
  have "rb_fill r' < 65534" using rb_packets_fill [OF d(2)] rb_packets_fill [of r "ps @ p # qs"] r(1) len by (simp add: ring_ok_def)
  then have ok: "ring_ok r' (dropWhile gone (?L @ qs))" using d r(1) by (simp add: ring_ok_def frags_ok_dropWhile)
  show ?thesis
  proof (cases "\<forall>x\<in>set ?L. gone x")
    case False
    then have dw: "dropWhile gone (?L @ qs) = dropWhile gone ?L @ qs" "takeWhile gone (?L @ qs) = takeWhile gone ?L"
      by (auto simp: dropWhile_append takeWhile_append)
    have "length (pkts_enc ?L) = length (pkts_enc (takeWhile gone ?L)) + length (pkts_enc (dropWhile gone ?L))"
      by (metis length_append pkts_enc_simps(3) takeWhile_dropWhile_id)
    then have "pkt_idx r' (length (pkts_enc (dropWhile gone ?L))) = behind i p"
      unfolding b using d(3,4) sz dw(2) by (simp only: pkt_idx_def) (simp add: mod_simps add.assoc)
    moreover have "ready (dropWhile gone ?L) = bs" using r(3) ready_dropWhile [of ?L] by simp
    ultimately have "ring_pos r' (behind i p) bs qs" unfolding ring_pos_def using ok dw(1) by (intro exI [of _ "dropWhile gone ?L"]) simp
    then show ?thesis using d(1) by blast
  next
    case True
    then have dw: "dropWhile gone (?L @ qs) = dropWhile gone qs" "takeWhile gone (?L @ qs) = ?L @ takeWhile gone qs"
      by (auto simp: dropWhile_append takeWhile_append)
    have bs: "bs = []" using True r(3) by (auto simp: ready_def filter_empty_conv)
    have "pread r' = (behind i p + length (pkts_enc (takeWhile gone qs))) mod 65535"
      unfolding b d(4) dw(2) using sz by (simp add: pkt_idx_def mod_simps add.assoc)
    moreover have "behind i p < 65535" by (simp add: behind_def)
    ultimately have "seek (pread r') (dropWhile gone qs) = seek (behind i p) qs" using seek_dropWhile [of "behind i p" qs] by simp
    moreover have "ring_pos r' (pread r') bs (dropWhile gone qs)" using ring_pos_start [OF ok] dw(1) bs by simp
    ultimately show ?thesis using d(1) ready_dropWhile [of qs] by blast
  qed
qed

section \<open>Taking a message out\<close>

text \<open>
  The fragments of connection \<open>c\<close> up to its first last fragment, and what stays; \<open>None\<close> when the message is not complete.
\<close>

definition is_last :: "u8 list \<Rightarrow> bool" where
  "is_last f \<longleftrightarrow> f ! 1 AND 0x80 = 0"

fun take_msg :: "u8 \<Rightarrow> u8 list list \<Rightarrow> (u8 list list \<times> u8 list list) option" where
  "take_msg c [] = None"
| "take_msg c (f # fs) =
     (if f ! 0 = c then
        if is_last f then Some ([f], fs) else map_option (\<lambda>(ms, rs). (f # ms, rs)) (take_msg c fs)
      else map_option (\<lambda>(ms, rs). (ms, f # rs)) (take_msg c fs))"

definition msg_payload :: "u8 list list \<Rightarrow> u8 list" where
  "msg_payload fs = concat (map (drop 2) fs)"

lemma msg_payload_simps [simp]: "msg_payload [] = []" "msg_payload (f # fs) = drop 2 f @ msg_payload fs"
  by (simp_all add: msg_payload_def)

text \<open>The search skips what is not ready.\<close>

lemma seek_pos:
  assumes "ring_pos r i bs qs"
  shows "(ready qs = [] \<and> seek i qs = None) \<or>
    (\<exists>i' p qs'. seek i qs = Some (i', length (snd p)) \<and> ring_pos r i' bs (p # qs') \<and> fst p = 0 \<and> ready qs = snd p # ready qs')"
  using assms
proof (induction qs arbitrary: i)
  case (Cons q qs)
  show ?case
  proof (cases "fst q = 0")
    case False
    then have "ring_pos r (behind i q) bs qs" using ring_pos_step [OF Cons.prems] by simp
    then show ?thesis using Cons.IH [of "behind i q"] False by (auto simp: behind_def)
  next
    case True
    then show ?thesis using Cons.prems by (intro disjI2 exI [of _ i] exI [of _ q] exI [of _ qs]) simp
  qed
qed simp

lemma take_len_copied:
  assumes "pktlen < count" "2 \<le> n" "n < 65536" "pktlen < 2 ^ 31" "count < 2 ^ 31"
  shows "take_len count pktlen n = min (count - pktlen) (n - 2)"
proof -
  have "to_u32 (int pktlen + int n - 2) = pktlen + n - 2" "to_u32 (int n - 2) = n - 2"
    using assms by (simp_all add: to_u32_small nat_diff_distrib')
  then show ?thesis using assms by (auto simp: take_len_def)
qed

lemma nth_take2: "2 \<le> length f \<Longrightarrow> take 2 f ! 0 = f ! 0" "2 \<le> length f \<Longrightarrow> take 2 f ! 1 = f ! 1"
  by simp_all

lemma read_frags_spec:
  assumes "ring_pos r i bs qs" "length hdr = 2" "pktlen \<le> count" "count < 2 ^ 31" "take_msg c (ready qs) = Some (ms, rs)"
    "conn = Some c \<or> conn = None \<and> ready qs \<noteq> [] \<and> hd (ready qs) ! 0 = c"
  shows "\<exists>r' ps. read_frags count (\<lambda>_. no_fault) j hdr conn pktlen out (seek i qs) r =
      Some (int (pktlen + min (count - pktlen) (length (msg_payload ms))), Some c, out @ take (count - pktlen) (msg_payload ms), r') \<and>
    ring_ok r' ps \<and> ready ps = bs @ rs"
  using assms
proof (induction "length (ready qs)" arbitrary: r i bs qs hdr pktlen conn j out ms rs)
  case 0
  then show ?case by simp
next
  case (Suc k)
  obtain i' p qs' where p: "seek i qs = Some (i', length (snd p))" "ring_pos r i' bs (p # qs')" "fst p = 0" "ready qs = snd p # ready qs'"
    using seek_pos [OF Suc.prems(1)] Suc.hyps(2) by auto
  let ?f = "snd p"
  have f: "2 \<le> length ?f" "length ?f < 65536" using p(2) by (auto simp: ring_pos_def ring_ok_def rb_packets_def)
  have h: "frag_head r hdr conn i' = Some (take 2 ?f, c)"
    using pos_head [OF p(2) Suc.prems(2)] Suc.prems(6) p(4) f by (auto simp: conn_of_def)
  note nx = pos_next [OF p(2)]
  have rd: "dvb_ringbuffer_pkt_read r i' 2 n True no_fault = Some (int (length (take n (drop 2 ?f))), take n (drop 2 ?f))" for n
    using pos_read [OF p(2) f(1), of n True] .
  have k: "k = length (ready qs')" using Suc.hyps(2) p(4) by simp
  show ?case
  proof (cases "?f ! 0 = c")
    case False
    obtain ms' rs' where t: "take_msg c (ready qs') = Some (ms, rs')" "rs = ?f # rs'" using Suc.prems(5) False p(4) by auto
    have pos: "ring_pos r (behind i' p) (bs @ [?f]) qs'" using ring_pos_step [OF p(2)] p(3) by simp
    have "read_frags count (\<lambda>_. no_fault) j hdr conn pktlen out (seek i qs) r =
        read_frags count (\<lambda>_. no_fault) (j + 1) (take 2 ?f) (Some c) pktlen out (seek (behind i' p) qs') r"
      using h nx False f by (subst read_frags.simps) (simp add: p(1))
    then show ?thesis using Suc.hyps(1) [OF k pos, of "take 2 ?f" pktlen ms rs' "Some c" "j + 1" out] Suc.prems(3,4) f(1) t by simp
  next
    case True
    define n where "n = (if pktlen < count then min (count - pktlen) (length ?f - 2) else 0)"
    have n: "n = min (count - pktlen) (length ?f - 2)" using Suc.prems(3) by (auto simp: n_def)
    have tl: "pktlen < count \<Longrightarrow> take_len count pktlen (length ?f) = n"
      using take_len_copied [of pktlen count "length ?f"] f Suc.prems(4) by (simp add: n_def)
    obtain r1 i1 qs1 where d: "dvb_ringbuffer_pkt_dispose r i' = Some r1" "ring_pos r1 i1 bs qs1" "ready qs1 = ready qs'"
      "seek i1 qs1 = seek (behind i' p) qs'" using pos_dispose [OF p(2)] by blast
    have step: "read_frags count (\<lambda>_. no_fault) j hdr conn pktlen out (seek i qs) r =
        (if is_last ?f then Some (int (pktlen + n), Some c, out @ take n (drop 2 ?f), r1)
         else read_frags count (\<lambda>_. no_fault) (j + 1) (take 2 ?f) (Some c) (pktlen + n) (out @ take n (drop 2 ?f)) (seek i1 qs1) r1)"
      using h nx True f rd [of n] tl d(1,4) by (subst read_frags.simps) (auto simp: p(1) is_last_def n_def Let_def)
    have tn: "take n (drop 2 ?f) = take (count - pktlen) (drop 2 ?f)" unfolding n by (simp add: min_def)
    show ?thesis
    proof (cases "is_last ?f")
      case last: True
      then have "ms = [?f]" "rs = ready qs'" using Suc.prems(5) True p(4) by auto
      moreover obtain ps where "ring_ok r1 (ps @ qs1)" "ready ps = bs" using d(2) by (auto simp: ring_pos_def)
      ultimately show ?thesis using step last d(3) tn n by (intro exI [of _ r1] exI [of _ "ps @ qs1"]) simp
    next
      case more: False
      obtain ms' where t: "take_msg c (ready qs1) = Some (ms', rs)" "ms = ?f # ms'" using Suc.prems(5) True more p(4) d(3) by auto
      have k1: "k = length (ready qs1)" and le: "pktlen + n \<le> count" and hl: "length (take 2 ?f) = 2"
        using k d(3) n Suc.prems(3) f(1) by auto
      obtain r' ps where ih: "read_frags count (\<lambda>_. no_fault) (j + 1) (take 2 ?f) (Some c) (pktlen + n) (out @ take n (drop 2 ?f)) (seek i1 qs1) r1 =
          Some (int (pktlen + n + min (count - (pktlen + n)) (length (msg_payload ms'))), Some c,
            (out @ take n (drop 2 ?f)) @ take (count - (pktlen + n)) (msg_payload ms'), r')" "ring_ok r' ps" "ready ps = bs @ rs"
        using Suc.hyps(1) [OF k1 d(2) hl le Suc.prems(4) t(1) disjI1 [OF refl], of "j + 1" "out @ take n (drop 2 ?f)"] by blast
      have "take (count - pktlen) (drop 2 ?f @ msg_payload ms') = take n (drop 2 ?f) @ take (count - (pktlen + n)) (msg_payload ms')"
        using n tn by (auto simp: min_def)
      moreover have "n + min (count - (pktlen + n)) (length (msg_payload ms')) = min (count - pktlen) (length ?f - 2 + length (msg_payload ms'))"
        using n by (auto simp: min_def)
      ultimately show ?thesis using step more ih t(2) by (intro exI [of _ r'] exI [of _ ps]) (simp add: add.assoc)
    qed
  qed
qed

section \<open>Looking for a message\<close>

definition first_conn :: "u8 option \<Rightarrow> u8 list list \<Rightarrow> u8 option" where
  "first_conn conn fs = (case conn of Some c \<Rightarrow> Some c | None \<Rightarrow> (case fs of [] \<Rightarrow> None | f # _ \<Rightarrow> Some (f ! 0)))"

definition complete :: "u8 option \<Rightarrow> u8 list list \<Rightarrow> bool" where
  "complete conn fs \<longleftrightarrow> (case first_conn conn fs of None \<Rightarrow> False | Some c \<Rightarrow> take_msg c fs \<noteq> None)"

lemma find_last_spec:
  assumes "ring_pos r i bs qs" "length hdr = 2"
  shows "\<exists>hdr'. find_last r hdr conn (seek i qs) = Some (complete conn (ready qs), hdr', first_conn conn (ready qs)) \<and> length hdr' = 2"
  using assms
proof (induction "length (ready qs)" arbitrary: i bs qs hdr conn)
  case 0
  then have "seek i qs = None" using seek_pos [OF 0(2)] by auto
  then show ?case using 0 by (subst find_last.simps) (auto simp: complete_def first_conn_def split: option.split)
next
  case (Suc k)
  obtain i' p qs' where p: "seek i qs = Some (i', length (snd p))" "ring_pos r i' bs (p # qs')" "fst p = 0" "ready qs = snd p # ready qs'"
    using seek_pos [OF Suc.prems(1)] Suc.hyps(2) by auto
  let ?f = "snd p" let ?c = "conn_of conn (take 2 ?f)"
  have f: "2 \<le> length ?f" using p(2) by (auto simp: ring_pos_def ring_ok_def)
  have c: "first_conn conn (ready qs) = Some ?c" using p(4) f by (auto simp: first_conn_def conn_of_def split: option.split)
  note h = pos_head [OF p(2) Suc.prems(2), of conn]
  show ?case
  proof (cases "?f ! 0 = ?c \<and> is_last ?f")
    case True
    then have "find_last r hdr conn (seek i qs) = Some (True, take 2 ?f, Some ?c)"
      using h f by (subst find_last.simps) (simp add: p(1) is_last_def)
    then show ?thesis using True c p(4) f by (simp add: complete_def)
  next
    case False
    have pos: "ring_pos r (behind i' p) (bs @ ready [p]) qs'" using ring_pos_step [OF p(2)] .
    have e: "find_last r hdr conn (seek i qs) = find_last r (take 2 ?f) (Some ?c) (seek (behind i' p) qs')"
      using h f False pos_next [OF p(2)] by (subst find_last.simps) (auto simp: p(1) is_last_def)
    have "k = length (ready qs')" "length (take 2 ?f) = 2" using Suc.hyps(2) p(4) f by simp_all
    then obtain hdr' where "find_last r hdr conn (seek i qs) = Some (complete (Some ?c) (ready qs'), hdr', Some ?c)" "length hdr' = 2"
      using Suc.hyps(1) [OF _ pos, of "take 2 ?f" "Some ?c"] e by (auto simp: first_conn_def)
    moreover have "complete conn (ready qs) = complete (Some ?c) (ready qs')"
      unfolding complete_def c using False p(4) by (auto simp: first_conn_def)
    ultimately show ?thesis using c by simp
  qed
qed

text \<open>One slot with a running module: the abstract state is the list of the fragments that are ready.\<close>

definition slot_rep :: "'p ci_sys \<Rightarrow> u8 list list \<Rightarrow> bool" where
  "slot_rep s fs \<longleftrightarrow> slot_count s = 1 \<and> next_read_slot (ca s) = 0 \<and> slot_state (slot_info (ca s) ! 0) = DVB_CA_SLOTSTATE_RUNNING \<and>
     (\<exists>r ps. rx_buffer (slot_info (ca s) ! 0) = Some r \<and> ring_ok r ps \<and> ready ps = fs)"

lemma read_condition_rep:
  assumes "slot_rep s fs"
  shows "ci_io_read_condition s = Some (if complete None fs then Some 0 else None, s)"
proof -
  obtain r ps where r: "rx_buffer (slot_info (ca s) ! 0) = Some r" "ring_ok r ps" "ready ps = fs" using assms by (auto simp: slot_rep_def)
  have s: "slot_count s = 1" "next_read_slot (ca s) = 0" "slot_state (slot_info (ca s) ! 0) = DVB_CA_SLOTSTATE_RUNNING"
    using assms by (simp_all add: slot_rep_def)
  have "set_ca (next_read_slot_update (\<lambda>_. 0)) s = s" using s(2) by (cases s, cases "ca s") (simp add: set_ca_def)
  moreover obtain hdr' where "find_last r [0, 0] None (seek (pread r) ps) = Some (complete None fs, hdr', first_conn None fs)"
    using find_last_spec [OF ring_pos_start [OF r(2)], of "[0, 0]" None] r(3) by auto
  ultimately show ?thesis
    using s r(1) next_first [OF r(2)] by (simp add: ci_io_read_condition_def ci_get_slot_state_def)
qed

text \<open>What a read that does not block does to the list.\<close>

definition link_read :: "nat \<Rightarrow> u8 list list \<Rightarrow> int \<times> u8 list \<times> u8 list list" where
  "link_read count fs =
     (case fs of
        [] \<Rightarrow> (- EAGAIN, [], fs)
      | f # _ \<Rightarrow>
          (case take_msg (f ! 0) fs of
             None \<Rightarrow> (- EAGAIN, [], fs)
           | Some (ms, rs) \<Rightarrow>
               let d = take (count - 2) (msg_payload ms) in (2 + int (length d), 0 # f ! 0 # d, rs)))"

lemma slot_rep_set:
  "slot_rep s fs \<Longrightarrow> ring_ok r ps \<Longrightarrow> slot_rep (set_slot 0 (rx_buffer_update (\<lambda>_. Some r)) s) (ready ps)"
  by (auto simp: slot_rep_def set_slot_def slot_count_def)

lemma io_read_rep:
  assumes rep: "slot_rep s fs" and count: "2 \<le> count" "count < 2 ^ 31"
  shows "\<exists>s'. ci_io_read count True es (\<lambda>_. no_fault) 0 s = Some (fst (link_read count fs), fst (snd (link_read count fs)), s') \<and>
    slot_rep s' (snd (snd (link_read count fs)))"
proof (cases "complete None fs")
  case False
  then have "link_read count fs = (- EAGAIN, [], fs)"
    by (cases fs) (auto simp: link_read_def complete_def first_conn_def split: option.split simp del: take_msg.simps)
  then show ?thesis using read_condition_rep [OF rep] False rep count by (simp add: ci_io_read_def)
next
  case True
  then obtain f fs' ms rs where f: "fs = f # fs'" "take_msg (f ! 0) fs = Some (ms, rs)"
    by (cases fs) (auto simp: complete_def first_conn_def)
  obtain r ps where r: "rx_buffer (slot_info (ca s) ! 0) = Some r" "ring_ok r ps" "ready ps = fs" using rep by (auto simp: slot_rep_def)
  obtain r' ps' where rf: "read_frags count (\<lambda>_. no_fault) 0 [0, 0] None 2 [] (seek (pread r) ps) r =
      Some (int (2 + min (count - 2) (length (msg_payload ms))), Some (f ! 0), take (count - 2) (msg_payload ms), r')" "ring_ok r' ps'" "ready ps' = rs"
    using read_frags_spec [OF ring_pos_start [OF r(2)], of "[0, 0]" 2 count "f ! 0" ms rs None 0 "[]"] f r(3) count by auto
  have "slot_at 0 s = Some (slot_info (ca s) ! 0)" using rep by (simp add: slot_at_def slot_rep_def)
  then have "ci_io_read count True es (\<lambda>_. no_fault) 0 s =
      Some (int (2 + min (count - 2) (length (msg_payload ms))), 0 # f ! 0 # take (count - 2) (msg_payload ms), set_slot 0 (rx_buffer_update (\<lambda>_. Some r')) s)"
    using read_condition_rep [OF rep] True r(1) next_first [OF r(2)] rf(1) count by (simp add: ci_io_read_def)
  moreover have "link_read count fs = (int (2 + min (count - 2) (length (msg_payload ms))), 0 # f ! 0 # take (count - 2) (msg_payload ms), rs)"
    using f by (simp add: link_read_def Let_def min.commute)
  ultimately show ?thesis using slot_rep_set [OF rep rf(2)] rf(3) by simp
qed

end
