(* ===== verification/Ci_Link.thy ===== *)
theory Ci_Link
  imports Ci_Read
begin

text \<open>
  The link layer of the common interface: which accesses a transfer makes, that the controller carries them out, and how
  messages are cut into fragments and put together again.
\<close>

section \<open>Transfers as sequences of accesses\<close>

text \<open>
  An access to the input/output memory with its value. \<open>plays\<close> is the state of the module behind a sequence of accesses, if the module
  takes part: the bytes read are the ones named, and the writes succeed.
\<close>

datatype io = Rd nat u8 | Wr nat u8

fun plays :: "'p cam \<Rightarrow> nat \<Rightarrow> io list \<Rightarrow> 'p \<Rightarrow> 'p option" where
  "plays K slot [] p = Some p"
| "plays K slot (Rd a v # es) p =
     (case readMem K a 0 slot p of None \<Rightarrow> None | Some (w, p) \<Rightarrow> if w = v then plays K slot es p else None)"
| "plays K slot (Wr a v # es) p =
     (case writeMem K a v 0 slot p of None \<Rightarrow> None | Some (r, p) \<Rightarrow> if r = R_ERR_SUCCESS then plays K slot es p else None)"

lemma plays_append: "plays K slot (es @ fs) p = Option.bind (plays K slot es p) (plays K slot fs)"
  by (induction K slot es p rule: plays.induct) (auto split: option.split)

lemma plays_appendE:
  assumes "plays K slot (es @ fs) p = Some p'"
  obtains q where "plays K slot es p = Some q" "plays K slot fs q = Some p'"
  using assms by (auto simp: plays_append bind_eq_Some_conv)

text \<open>The accesses of the driver, in a state with the module's state \<open>q\<close>.\<close>

lemma plays_Rd: "plays K slot (Rd a v # es) q = Some p \<longleftrightarrow>
    (\<exists>q'. readIO K a slot (s\<lparr>pc := q\<rparr>) = Some (v, s\<lparr>pc := q'\<rparr>) \<and> plays K slot es q' = Some p)"
  by (cases s) (auto simp: readIO_def split: option.splits if_splits)

lemma plays_Wr: "plays K slot (Wr a v # es) q = Some p \<longleftrightarrow>
    (\<exists>q'. writeIO K a v slot (s\<lparr>pc := q\<rparr>) = Some (0, s\<lparr>pc := q'\<rparr>) \<and> plays K slot es q' = Some p)"
  by (cases s) (auto simp: writeIO_def split: option.splits if_splits)

lemma slot_pc [simp]: "slot_count (s\<lparr>pc := q\<rparr>) = slot_count s" "slot_at slot (s\<lparr>pc := q\<rparr>) = slot_at slot s"
    "ci_get_slot_state slot (s\<lparr>pc := q\<rparr>) = ci_get_slot_state slot s"
  by (simp_all add: slot_count_def slot_at_def ci_get_slot_state_def cong: if_cong)

lemma read_bytes_plays: "plays K slot (map (Rd 0) bs) q = Some p \<Longrightarrow> read_bytes K slot (length bs) (s\<lparr>pc := q\<rparr>) = Some (bs, s\<lparr>pc := p\<rparr>)"
proof (induction bs arbitrary: q)
  case (Cons b bs)
  then obtain q' where "readIO K 0 slot (s\<lparr>pc := q\<rparr>) = Some (b, s\<lparr>pc := q'\<rparr>)" "plays K slot (map (Rd 0) bs) q' = Some p"
    unfolding list.map plays_Rd [where s = s] by blast
  then show ?case using Cons.IH [of q'] by simp
qed simp

lemma write_bytes_plays: "plays K slot (map (Wr 0) bs) q = Some p \<Longrightarrow> write_bytes K slot bs (s\<lparr>pc := q\<rparr>) = Some (0, s\<lparr>pc := p\<rparr>)"
proof (induction bs arbitrary: q)
  case (Cons b bs)
  then obtain q' where "writeIO K 0 b slot (s\<lparr>pc := q\<rparr>) = Some (0, s\<lparr>pc := q'\<rparr>)" "plays K slot (map (Wr 0) bs) q' = Some p"
    unfolding list.map plays_Wr [where s = s] by blast
  then show ?case using Cons.IH [of q'] by simp
qed simp

text \<open>
  Receiving \<open>f\<close>: the size, high byte first, the bytes and the status. Sending \<open>f\<close>: the status, the HC bit, the status again,
  the size, the bytes, the status and the HC bit cleared.
\<close>

definition size_hi :: "u8 list \<Rightarrow> u8" where "size_hi f = of_nat (length f div 256)"
definition size_lo :: "u8 list \<Rightarrow> u8" where "size_lo f = of_nat (length f mod 256)"

definition rx_script :: "u8 \<Rightarrow> u8 list \<Rightarrow> io list" where
  "rx_script st f = [Rd 3 (size_hi f), Rd 2 (size_lo f)] @ map (Rd 0) f @ [Rd 1 st]"

definition tx_script :: "u8 \<Rightarrow> u8 \<Rightarrow> u8 \<Rightarrow> u8 list \<Rightarrow> io list" where
  "tx_script st1 st2 st3 f =
     [Rd 1 st1, Wr 1 0x81, Rd 1 st2, Wr 3 (size_hi f), Wr 2 (size_lo f)] @ map (Wr 0) f @ [Rd 1 st3, Wr 1 0x80]"

text \<open>The module is free to take a packet: no data and no error pending, the interface granted, no write error.\<close>

definition tx_free :: "u8 \<Rightarrow> u8 \<Rightarrow> u8 \<Rightarrow> bool" where
  "tx_free st1 st2 st3 \<longleftrightarrow> st1 AND 0x81 = 0 \<and> st2 AND 0x40 \<noteq> 0 \<and> st3 AND 2 = 0"

lemma write_data_plays:
  assumes "plays K slot (tx_script st1 st2 st3 f) (pc s) = Some p" "tx_free st1 st2 st3" "slot_at slot s = Some x"
    "int (length f) \<le> link_buf_size x"
  shows "ci_write_data K slot f s = Some (int (length f), s\<lparr>pc := p\<rparr>)"
proof -
  obtain q1 q2 q3 q4 q5 where q:
    "readIO K 1 slot (s\<lparr>pc := pc s\<rparr>) = Some (st1, s\<lparr>pc := q1\<rparr>)" "writeIO K 1 0x81 slot (s\<lparr>pc := q1\<rparr>) = Some (0, s\<lparr>pc := q2\<rparr>)"
    "readIO K 1 slot (s\<lparr>pc := q2\<rparr>) = Some (st2, s\<lparr>pc := q3\<rparr>)" "writeIO K 3 (size_hi f) slot (s\<lparr>pc := q3\<rparr>) = Some (0, s\<lparr>pc := q4\<rparr>)"
    "writeIO K 2 (size_lo f) slot (s\<lparr>pc := q4\<rparr>) = Some (0, s\<lparr>pc := q5\<rparr>)" "plays K slot (map (Wr 0) f @ [Rd 1 st3, Wr 1 0x80]) q5 = Some p"
    using assms(1) unfolding tx_script_def append_Cons append_Nil plays_Rd [where s = s] plays_Wr [where s = s] by blast
  obtain q6 where q6: "plays K slot (map (Wr 0) f) q5 = Some q6" "plays K slot [Rd 1 st3, Wr 1 0x80] q6 = Some p"
    using plays_appendE [OF q(6)] .
  obtain q7 where q7: "readIO K 1 slot (s\<lparr>pc := q6\<rparr>) = Some (st3, s\<lparr>pc := q7\<rparr>)" "writeIO K 1 0x80 slot (s\<lparr>pc := q7\<rparr>) = Some (0, s\<lparr>pc := p\<rparr>)"
    using q6(2) unfolding plays_Rd [where s = s] plays_Wr [where s = s] by auto
  have "write_packet K slot f (s\<lparr>pc := q1\<rparr>) = Some (int (length f), s\<lparr>pc := q7\<rparr>)"
    using q q7(1) write_bytes_plays [OF q6(1), of s] assms(2) by (simp add: write_packet_def tx_free_def size_hi_def size_lo_def)
  moreover have "st1 AND 129 = 0" using assms(2) by (simp add: tx_free_def)
  ultimately show ?thesis using q(1) q7(2) assms(3,4) by (simp add: ci_write_data_def)
qed

text \<open>Room in the ring of slot 0, and what the transfers use of the slot.\<close>

definition slot_fill :: "'p ci_sys \<Rightarrow> nat" where
  "slot_fill s = (case rx_buffer (slot_info (ca s) ! 0) of None \<Rightarrow> 0 | Some r \<Rightarrow> rb_fill r)"

lemma read_data_plays:
  assumes rep: "slot_rep s fs" and f: "2 \<le> length f" "int (length f) \<le> L" "L \<le> 512" and link: "link_buf_size (slot_info (ca s) ! 0) = L"
    and fill: "int (slot_fill s) + L + 3 < 65534" and play: "plays K 0 (rx_script st f) (pc s) = Some p" and st: "st AND 1 = 0"
  shows "\<exists>s'. ci_read_data K 0 None s = Some (int (length f), [], s') \<and> slot_rep s' (fs @ [f]) \<and> slot_fill s' = slot_fill s + 3 + length f \<and>
    pc s' = p \<and> link_buf_size (slot_info (ca s') ! 0) = L \<and> ca_open (ca s') = ca_open (ca s)"
proof -
  obtain r ps where r: "rx_buffer (slot_info (ca s) ! 0) = Some r" "ring_ok r ps" "ready ps = fs" using rep by (auto simp: slot_rep_def)
  have s: "slot_count s = 1" "slot_state (slot_info (ca s) ! 0) = DVB_CA_SLOTSTATE_RUNNING" using rep by (simp_all add: slot_rep_def)
  have rp: "rb_packets r ps" "rb_ok r" "rb_size r = 65535" "frags_ok ps" using r(2) by (auto simp: ring_ok_def rb_packets_def)
  have fl: "slot_fill s = rb_fill r" using r(1) by (simp add: slot_fill_def)
  have free: "dvb_ringbuffer_free r = 65534 - int (rb_fill r)" using rb_fill_facts(4) [OF rp(2)] rp(3) by simp
  obtain r' where r': "dvb_ringbuffer_pkt_write r f = Some (int (length f), r')" "rb_packets r' (ps @ [(0, f)])" "rb_size r' = 65535"
    using pkt_write_append [OF rp(1), of f] f fill fl rp(3) by auto
  have fl': "rb_fill r' = rb_fill r + 3 + length f" using rb_packets_fill [OF r'(2)] rb_packets_fill [OF rp(1)] by (simp add: pkts_enc_def)
  obtain q1 q2 where q: "readIO K 3 0 (s\<lparr>pc := pc s\<rparr>) = Some (size_hi f, s\<lparr>pc := q1\<rparr>)"
    "readIO K 2 0 (s\<lparr>pc := q1\<rparr>) = Some (size_lo f, s\<lparr>pc := q2\<rparr>)" "plays K 0 (map (Rd 0) f @ [Rd 1 st]) q2 = Some p"
    using play unfolding rx_script_def append_Cons append_Nil plays_Rd [where s = s] by blast
  obtain q3 where q3: "plays K 0 (map (Rd 0) f) q2 = Some q3" "plays K 0 [Rd 1 st] q3 = Some p" using plays_appendE [OF q(3)] .
  have q4: "readIO K 1 0 (s\<lparr>pc := q3\<rparr>) = Some (st, s\<lparr>pc := p\<rparr>)" using q3(2) unfolding plays_Rd [where s = s] by auto
  have n: "unat (size_hi f) * 256 + unat (size_lo f) = length f" using pkt_len_bytes [of "length f"] f by (simp add: size_hi_def size_lo_def)
  have n': "uint (size_hi f) * 256 + uint (size_lo f) = int (length f)"
    using arg_cong [OF n, of int] by simp
  let ?s = "set_slot 0 (rx_buffer_update (\<lambda>_. Some r')) (s\<lparr>pc := p\<rparr>)"
  let ?s' = "if (f @ [0, 0]) ! 1 AND 128 = 0 then wake_readers ?s else ?s"
  have "read_store 0 False f (s\<lparr>pc := p\<rparr>) = Some (int (length f), [], ?s')"
    using r(1) r'(1) s by (simp add: read_store_def slot_at_def slot_count_def)
  then have "ci_read_data K 0 None s = Some (int (length f), [], ?s')"
    using q(1,2) q4 n n' f fill fl free link r(1) s(1) read_bytes_plays [OF q3(1), of s] st
    by (simp add: ci_read_data_def slot_at_def Let_def)
  moreover have "slot_rep ?s (fs @ [f])"
    using s r' r(3) fl' fl f fill rp(4) rep by (auto simp: slot_rep_def slot_count_def set_slot_def ring_ok_def)
  ultimately show ?thesis using s link fl fl' by (auto simp: slot_rep_def slot_fill_def slot_count_def set_slot_def wake_readers_def)
qed

text \<open>The fragments offered one after the other, each announced by an interrupt.\<close>

lemma deliver_frda_rep: "slot_rep s fs \<Longrightarrow> ca_open (ca s) \<Longrightarrow> deliver K (Frda 0) s = map_option (\<lambda>(_, _, s). s) (ci_read_data K 0 None s)"
  by (simp add: slot_rep_def ci_frda_irq_def ci_get_slot_state_def)

lemma deliver_frda_plays:
  assumes "slot_rep s fs" "ca_open (ca s)" "link_buf_size (slot_info (ca s) ! 0) = L" "L \<le> 512"
    "list_all (\<lambda>f. 2 \<le> length f \<and> int (length f) \<le> L) gs" "int (slot_fill s) + int (sum_list (map (\<lambda>f. 3 + length f) gs)) + L + 3 < 65534"
    "plays K 0 (concat (map (rx_script 0) gs)) (pc s) = Some p"
  shows "\<exists>s'. deliver_all K (replicate (length gs) (Frda 0)) s = Some s' \<and> slot_rep s' (fs @ gs) \<and> pc s' = p"
  using assms
proof (induction gs arbitrary: s fs)
  case (Cons f gs)
  obtain q where q: "plays K 0 (rx_script 0 f) (pc s) = Some q" "plays K 0 (concat (map (rx_script 0) gs)) q = Some p"
    using plays_appendE [of K 0 "rx_script 0 f" "concat (map (rx_script 0) gs)" "pc s" p] Cons.prems(7) by auto
  have f: "2 \<le> length f" "int (length f) \<le> L" "int (slot_fill s) + L + 3 < 65534" using Cons.prems(5,6) by auto
  obtain s1 where s1: "ci_read_data K 0 None s = Some (int (length f), [], s1)" "slot_rep s1 (fs @ [f])" "slot_fill s1 = slot_fill s + 3 + length f"
      "pc s1 = q" "link_buf_size (slot_info (ca s1) ! 0) = L" "ca_open (ca s1) = ca_open (ca s)"
    using read_data_plays [OF Cons.prems(1) f(1,2) Cons.prems(4,3) f(3) q(1)] by auto
  have "deliver K (Frda 0) s = Some s1" using deliver_frda_rep [OF Cons.prems(1,2), of K] s1(1) by simp
  then show ?case using Cons.IH [OF s1(2) _ s1(5) Cons.prems(4)] Cons.prems(2,5,6) s1(3,4,6) q(2) by auto
qed auto

section \<open>Messages and fragments\<close>

text \<open>The fragments of a message: up to \<open>n\<close> bytes each, the flag 0x80 on all but the last.\<close>

function fragments :: "nat \<Rightarrow> u8 \<Rightarrow> u8 list \<Rightarrow> u8 list list" where
  "fragments n c msg =
     (if msg = [] \<or> n = 0 then []
      else (c # (if n < length msg then 0x80 else 0) # take n msg) # fragments n c (drop n msg))"
  by pat_completeness auto
termination
  by (relation "measure (\<lambda>(n, c, msg). length msg)") auto

declare fragments.simps [simp del]

lemma fragments_Nil [simp]: "fragments n c [] = []"
  by (simp add: fragments.simps)

lemma fragments_Cons: "0 < n \<Longrightarrow> msg \<noteq> [] \<Longrightarrow> \<exists>f fs. fragments n c msg = f # fs \<and> f ! 0 = c"
  by (subst fragments.simps) auto

lemma fragments_bounds: "f \<in> set (fragments n c msg) \<Longrightarrow> 2 < length f \<and> length f \<le> n + 2"
proof (induction n c msg rule: fragments.induct)
  case (1 n c msg)
  then show ?case by (subst (asm) (2) fragments.simps) (cases msg, auto split: if_splits)
qed

lemma fragments_take_msg:
  assumes "0 < n" "msg \<noteq> []"
  shows "take_msg c (fragments n c msg) = Some (fragments n c msg, []) \<and> msg_payload (fragments n c msg) = msg"
  using assms
proof (induction n c msg rule: fragments.induct)
  case (1 n c msg)
  show ?case
  proof (cases "n < length msg")
    case True
    then have "take_msg c (fragments n c (drop n msg)) = Some (fragments n c (drop n msg), []) \<and> msg_payload (fragments n c (drop n msg)) = drop n msg"
      using 1 by auto
    then show ?thesis using True 1(2,3) by (subst (1 2 3) fragments.simps) (simp add: is_last_def)
  next
    case False
    then have "fragments n c msg = [c # 0 # msg]" using 1(2,3) by (subst fragments.simps) simp
    then show ?thesis by (simp add: is_last_def)
  qed
qed

lemma fragments_size:
  assumes "0 < n"
  shows "sum_list (map (\<lambda>f. 3 + length f) (fragments n c msg)) \<le> 6 * length msg"
  using assms
proof (induction n c msg rule: fragments.induct)
  case (1 n c msg)
  show ?case
  proof (cases "msg = []")
    case False
    then have "sum_list (map (\<lambda>f. 3 + length f) (fragments n c (drop n msg))) \<le> 6 * length (drop n msg)" using 1 by simp
    moreover have "min n (length msg) + 5 \<le> 6 * min n (length msg)" using False 1(2) by (cases msg) auto
    ultimately show ?thesis using False 1(2) by (subst fragments.simps) (auto simp: min_def split: if_splits)
  qed simp
qed

section \<open>Sending a message\<close>

lemma not_after: "\<not> time_after j (j + 50)"
  by (simp add: time_after_def)

lemma send_fragment_plays:
  assumes "slot_at slot s = Some x" "slot_state x = DVB_CA_SLOTSTATE_RUNNING" "int (length f) \<le> link_buf_size x" "tx_free st1 st2 st3"
    "plays K slot (tx_script st1 st2 st3 f) q = Some p"
  shows "send_fragment K slot f (cam_jiffies K q + 50) (s\<lparr>pc := q\<rparr>) = Some (None, s\<lparr>pc := p\<rparr>)"
proof -
  have "ci_write_data K slot f (s\<lparr>pc := q\<rparr>) = Some (int (length f), s\<lparr>pc := p\<rparr>)"
    using write_data_plays [of K slot st1 st2 st3 f "s\<lparr>pc := q\<rparr>" p x] assms by simp
  moreover have "ci_get_slot_state slot s = DVB_CA_SLOTSTATE_RUNNING"
    using assms(1,2) by (auto simp: ci_get_slot_state_def slot_at_def split: if_splits)
  ultimately show ?thesis by (subst send_fragment.simps) (simp add: not_after)
qed

lemma frag_len_link: "2 < L \<Longrightarrow> L \<le> 512 \<Longrightarrow> frag_len L rest = int (min rest (nat L - 2))"
  by (auto simp: frag_len_def to_u32_small min_def)

lemma send_fragments_plays:
  assumes "slot_at slot s = Some x" "slot_state x = DVB_CA_SLOTSTATE_RUNNING" "link_buf_size x = L" "2 < L" "L \<le> 512" "tx_free st1 st2 st3"
    "plays K slot (concat (map (tx_script st1 st2 st3) (fragments (nat L - 2) c (drop pos msg)))) q = Some p" "pos \<le> length msg"
  shows "send_fragments K (\<lambda>_. 0) slot c msg pos (s\<lparr>pc := q\<rparr>) = Some (int (length msg) + 2, s\<lparr>pc := p\<rparr>)"
  using assms(7,8)
proof (induction "length msg - pos" arbitrary: pos q rule: less_induct)
  case less
  show ?case
  proof (cases "pos < length msg")
    case False
    then show ?thesis using less.prems by (subst send_fragments.simps) simp
  next
    case True
    define n where "n = min (length msg - pos) (nat L - 2)"
    let ?f = "c # (if pos + n < length msg then 0x80 else 0) # take n (drop pos msg)"
    have L: "0 < nat L - 2" "0 < n" "n + 2 \<le> 512" "int (length ?f) \<le> L" "pos + n \<le> length msg" using assms(4,5) True by (auto simp: n_def)
    have fr: "fragments (nat L - 2) c (drop pos msg) = ?f # fragments (nat L - 2) c (drop (pos + n) msg)"
      using True L(1) by (subst fragments.simps) (auto simp: n_def min_def add.commute)
    obtain q' where q': "plays K slot (tx_script st1 st2 st3 ?f) q = Some q'"
      "plays K slot (concat (map (tx_script st1 st2 st3) (fragments (nat L - 2) c (drop (pos + n) msg)))) q' = Some p"
      using less.prems(1) unfolding fr list.map concat.simps by (rule plays_appendE)
    have "send_fragment K slot ?f (cam_jiffies K q + 50) (s\<lparr>pc := q\<rparr>) = Some (None, s\<lparr>pc := q'\<rparr>)"
      using send_fragment_plays [OF assms(1,2) _ assms(6) q'(1)] L(4) assms(3) by simp
    moreover have "frag_len (link_buf_size (slot_info (ca s) ! slot)) (length msg - pos) = int n"
      using frag_len_link [OF assms(4,5)] assms(1,3) by (auto simp: n_def slot_at_def split: if_splits)
    ultimately have "send_fragments K (\<lambda>_. 0) slot c msg pos (s\<lparr>pc := q\<rparr>) = send_fragments K (\<lambda>_. 0) slot c msg (pos + n) (s\<lparr>pc := q'\<rparr>)"
      using True L(3) by (subst send_fragments.simps) (simp add: Let_def)
    then show ?thesis using less.hyps [of "pos + n" q'] q'(2) L(2,5) True by simp
  qed
qed

end
