(* ===== verification/Ci_Safe.thy ===== *)
theory Ci_Safe
  imports Ci_Link
begin

text \<open>
  What holds for every module and every behaviour of the controller: accesses end, receiving stays inside the buffers, and the
  slots keep their invariant.
\<close>

section \<open>Every access ends\<close>

text \<open>What the link layer relies on: in a state with \<open>idle\<close> an access ends, and the next one is possible again.\<close>

locale cam_total =
  fixes K :: "'p cam" and idle :: "'p \<Rightarrow> bool"
  assumes read_total: "idle p \<Longrightarrow> \<exists>v p'. readMem K a m slot p = Some (v, p') \<and> idle p'"
    and write_total: "idle p \<Longrightarrow> \<exists>r p'. writeMem K a v m slot p = Some (r, p') \<and> idle p'"
begin

lemma readIO_total: "idle (pc s) \<Longrightarrow> \<exists>v q. readIO K a slot s = Some (v, s\<lparr>pc := q\<rparr>) \<and> idle q"
  using read_total [of "pc s" a 0 slot] by (auto simp: readIO_def)

lemma writeIO_total: "idle (pc s) \<Longrightarrow> \<exists>r q. writeIO K a v slot s = Some (r, s\<lparr>pc := q\<rparr>) \<and> idle q"
  using write_total [of "pc s" a v 0 slot] by (auto simp: writeIO_def)

lemma read_bytes_total: "idle (pc s) \<Longrightarrow> \<exists>bs q. read_bytes K slot n s = Some (bs, s\<lparr>pc := q\<rparr>) \<and> length bs = n \<and> idle q"
proof (induction n arbitrary: s)
  case 0
  then show ?case by (intro exI [of _ "[]"] exI [of _ "pc s"]) simp
next
  case (Suc n)
  obtain v q where v: "readIO K 0 slot s = Some (v, s\<lparr>pc := q\<rparr>)" "idle q" using readIO_total [OF Suc.prems] by blast
  obtain bs q' where "read_bytes K slot n (s\<lparr>pc := q\<rparr>) = Some (bs, s\<lparr>pc := q'\<rparr>)" "length bs = n" "idle q'"
    using Suc.IH [of "s\<lparr>pc := q\<rparr>"] v(2) by auto
  then show ?case using v(1) by (intro exI [of _ "v # bs"] exI [of _ q']) simp
qed

end

text \<open>The controller carries out every access: the wait is limited, and the state of the command is idle behind it.\<close>

lemma card_change_total: "slot < 2 \<Longrightarrow> \<exists>s'. card_change B slot s = Some s'"
  by (auto simp: card_change_def rtdpc_card_status_def rtdpc_port_enable_def PRES_def Let_def split: prod.split)

lemma if_Some: "\<exists>y. x = Some y \<Longrightarrow> \<exists>y. (if b then x else Some z) = Some y"
  by auto

lemma isr_total: "\<exists>b s'. rtdpc_isr B s = Some (b, s')"
proof -
  obtain event s1 m s2 where i: "rtd_inl B PCMCIA_STS s = (event, s1)" "rtd_inl B MIS_ISR s1 = (m, s2)" by fastforce
  obtain s3 where s3: "(if event AND PCII_PCRI ! 0 \<noteq> 0 then card_change B 0 s2 else Some s2) = Some s3"
    using if_Some [OF card_change_total [of 0 B s2]] by auto
  obtain s4 where s4: "(if event AND PCII_PCRI ! 1 \<noteq> 0 then card_change B 1 s3 else Some s3) = Some s4"
    using if_Some [OF card_change_total [of 1 B s3]] by auto
  show ?thesis unfolding rtdpc_isr_def i Let_def prod.case s3 bind.bind_lunit s4 by (cases "m AND MARS_PCMCIA_INT = 0") auto
qed

lemma wait_access_total: "\<exists>s'. wait_access B k s = Some s'"
proof (induction k arbitrary: s)
  case (Suc k)
  obtain b s' where "rtdpc_isr B s = Some (b, s')" using isr_total by blast
  then show ?case using Suc by simp
qed simp

lemma do_cmd_total:
  assumes "runing_state s = PCMCIA_IDEL"
  shows "\<exists>r s'. rtdpc_do_cmd B cmd slot s = Some (r, s') \<and> runing_state s' = PCMCIA_IDEL"
proof -
  have inl: "runing_state (snd (rtd_inl B r s)) = runing_state s" for r s by (simp add: rtd_inl_def split: prod.split)
  have outl: "runing_state (rtd_outl B r v s) = runing_state s" for r v s by (simp add: rtd_outl_def)
  obtain c s1 where s1: "rtd_inl B PCMCIA_CTRL s = (c, s1)" by fastforce
  have i1: "runing_state s1 = PCMCIA_IDEL" using inl [of PCMCIA_CTRL s] s1 assms by simp
  define s2 where "s2 = rtd_outl B PCMCIA_STS (PC_AFI OR PC_APFI) s1"
  obtain d s3 where s3: "rtd_inl B PCMCIA_CTRL s2 = (d, s3)" by fastforce
  define s4 where "s4 = rtd_outl B PCMCIA_CMDFF cmd (rtd_outl B PCMCIA_CTRL (d OR PC_CE1 ! slot OR PC_AFI OR PC_APFI) s3)"
  obtain s5 where s5: "(if early B (hw s4) then map_option snd (rtdpc_isr B s4) else Some s4) = Some s5"
    using if_Some [of "map_option snd (rtdpc_isr B s4)"] isr_total [of B s4] by (metis option.map(2))
  obtain s6 where s6: "wait_access B (irqs B (hw s5)) (s5\<lparr>runing_state := PCMCIA_RUNING\<rparr>) = Some s6" using wait_access_total by blast
  obtain ret s7 where s7: "access_result B s6 = (ret, s7)" by fastforce
  obtain e s8 where s8: "rtd_inl B PCMCIA_CTRL (s7\<lparr>runing_state := PCMCIA_IDEL\<rparr>) = (e, s8)" by fastforce
  have i8: "runing_state s8 = PCMCIA_IDEL" using inl [of PCMCIA_CTRL "s7\<lparr>runing_state := PCMCIA_IDEL\<rparr>"] s8 by simp
  have "rtdpc_do_cmd B cmd slot s = (if slot \<ge> 2 then Some (R_ERR_FAILED, s) else if c AND PCR_OE ! slot = 0 then Some (R_ERR_FAILED, s1)
      else Some (ret, rtd_outl B PCMCIA_CTRL (e AND NOT (PC_AFI OR PC_APFI)) s8))"
    unfolding rtdpc_do_cmd_def s1 Let_def prod.case s2_def [symmetric] s3 s4_def [symmetric] s5 bind.bind_lunit s6 s7 s8 using i1 by simp
  then show ?thesis using i1 i8 outl assms by auto
qed

interpretation pcm: cam_total "pc_cam B" "\<lambda>p. runing_state p = PCMCIA_IDEL" for B
proof
  fix p :: "'a pc_sys" and a m slot
  assume p: "runing_state p = PCMCIA_IDEL"
  obtain r p' where "rtdpc_do_cmd B (PC_CT 0 OR PC_AT (of_nat m) OR PC_PA (of_nat a)) (slot mod 256) p = Some (r, p')" "runing_state p' = PCMCIA_IDEL"
    using do_cmd_total [OF p] by blast
  then show "\<exists>v p'. readMem (pc_cam B) a m slot p = Some (v, p') \<and> runing_state p' = PCMCIA_IDEL"
    by (auto simp: pc_cam_def rtdpc_readMem_def rtd_inl_def split: prod.split)
next
  fix p :: "'a pc_sys" and a v m slot
  assume "runing_state p = PCMCIA_IDEL"
  then show "\<exists>r p'. writeMem (pc_cam B) a v m slot p = Some (r, p') \<and> runing_state p' = PCMCIA_IDEL"
    using do_cmd_total [of p] by (simp add: pc_cam_def rtdpc_writeMem_def)
qed

end
