(* ===== verification/Ci_Inv.thy ===== *)
theory Ci_Inv
  imports Ci_Safe
begin

text \<open>
  The invariant of the slots, kept by every operation of the driver, and what follows from it: receiving stays
  inside the buffers whatever a module does.
\<close>

section \<open>The invariant\<close>

definition rx_wf :: "dvb_ringbuffer \<Rightarrow> bool" where
  "rx_wf r \<longleftrightarrow> rb_ok r \<and> rb_size r = 65535"

text \<open>The link buffer is not larger than the driver's; a running slot has a receive ring and a link buffer of two bytes or more.\<close>

definition slot_wf :: "dvb_ca_slot \<Rightarrow> bool" where
  "slot_wf x \<longleftrightarrow> link_buf_size x \<le> 512 \<and> (slot_state x = DVB_CA_SLOTSTATE_RUNNING \<longrightarrow> rx_buffer x \<noteq> None \<and> 2 \<le> link_buf_size x) \<and>
     pred_option rx_wf (rx_buffer x)"

definition ca_wf :: "nat \<Rightarrow> dvb_ca_private \<Rightarrow> bool" where
  "ca_wf n c \<longleftrightarrow> length (slot_info c) = n \<and> list_all slot_wf (slot_info c) \<and> next_read_slot c < n"

lemma slot_wf_update [simp, intro]:
  "slot_wf x \<Longrightarrow> st \<noteq> DVB_CA_SLOTSTATE_RUNNING \<Longrightarrow> slot_wf (x\<lparr>slot_state := st\<rparr>)"
  "slot_wf x \<Longrightarrow> 2 \<le> L \<Longrightarrow> L \<le> 512 \<Longrightarrow> slot_wf (x\<lparr>link_buf_size := L\<rparr>)"
  "slot_wf x \<Longrightarrow> rx_wf r \<Longrightarrow> slot_wf (x\<lparr>rx_buffer := Some r\<rparr>)"
  "slot_wf x \<Longrightarrow> slot_wf (x\<lparr>camchange_count := k\<rparr>)" "slot_wf x \<Longrightarrow> slot_wf (x\<lparr>camchange_type := ty\<rparr>)"
  "slot_wf x \<Longrightarrow> slot_wf (x\<lparr>config_base := b\<rparr>)" "slot_wf x \<Longrightarrow> slot_wf (x\<lparr>config_option := p\<rparr>)"
  "slot_wf x \<Longrightarrow> slot_wf (x\<lparr>da_irq_supported := d\<rparr>)" "slot_wf x \<Longrightarrow> slot_wf (x\<lparr>slot_timeout := t\<rparr>)"
  by (auto simp: slot_wf_def)

lemma ca_wf_update [simp]:
  "ca_wf n (c\<lparr>ca_wakeup := b\<rparr>) = ca_wf n c" "ca_wf n (c\<lparr>ca_exit := b\<rparr>) = ca_wf n c" "ca_wf n (c\<lparr>ca_open := b\<rparr>) = ca_wf n c"
  "0 < n \<Longrightarrow> ca_wf n c \<Longrightarrow> ca_wf n (c\<lparr>next_read_slot := 0\<rparr>)" "ca_wf n (c\<lparr>ca_delay := d\<rparr>) = ca_wf n c" "ca_wf n (c\<lparr>thread_pid := p\<rparr>) = ca_wf n c"
  by (simp_all add: ca_wf_def)

lemma ca_wf_slot: "ca_wf n (ca s) \<Longrightarrow> slot_at slot s = Some x \<Longrightarrow> slot_wf x"
  by (auto simp: ca_wf_def slot_at_def slot_count_def list_all_length split: if_splits)

lemma ca_wf_set_slot: "ca_wf n (ca s) \<Longrightarrow> (\<And>x. slot_wf x \<Longrightarrow> slot_wf (f x)) \<Longrightarrow> ca_wf n (ca (set_slot slot f s))"
  by (cases "slot < length (slot_info (ca s))") (auto simp: ca_wf_def set_slot_def list_all_length nth_list_update)

text \<open>A change of state is a change of the slot, and two changes of a slot are one.\<close>

lemma update_state_set: "update_state slot st s = set_slot slot (slot_state_update (\<lambda>_. st)) s"
proof -
  have "(slot_info (ca s) ! slot)\<lparr>slot_state := st\<rparr> = slot_info (ca s) ! slot" if "slot_state (slot_info (ca s) ! slot) = st" using that by simp
  then show ?thesis by (auto simp: update_state_def ci_update_slot_state_def set_slot_def slot_count_def list_update_beyond)
qed

lemma set_slot_set: "set_slot slot g (set_slot slot f s) = set_slot slot (g \<circ> f) s"
  by (cases "slot < length (slot_info (ca s))") (simp_all add: set_slot_def list_update_beyond)

lemma ca_wf_update_state: "ca_wf n (ca s) \<Longrightarrow> st \<noteq> DVB_CA_SLOTSTATE_RUNNING \<Longrightarrow> ca_wf n (ca (update_state slot st s))"
  by (auto simp: update_state_def ci_update_slot_state_def intro!: ca_wf_set_slot)

lemma pc_frame [simp]: "pc (set_slot slot f s) = pc s" "pc (update_state slot st s) = pc s" "pc (set_ca g s) = pc s" "pc (wake_readers s) = pc s"
    "pc (ci_thread_update_delay s) = pc s" "pc (ci_thread_wakeup s) = pc s"
  by (simp_all add: set_slot_def update_state_def ci_update_slot_state_def set_ca_def wake_readers_def ci_thread_update_delay_def ci_thread_wakeup_def)

lemma ca_frame [simp]: "ca (wake_readers s) = ca s" "ca (set_ca g s) = g (ca s)"
  by (simp_all add: wake_readers_def set_ca_def)

lemma slot_at_Some: "ca_wf n (ca s) \<Longrightarrow> slot < n \<Longrightarrow> \<exists>x. slot_at slot s = Some x"
  by (simp add: ca_wf_def slot_at_def slot_count_def)

section \<open>The ring\<close>

lemma rx_wf_init: "length d = 65535 \<Longrightarrow> rx_wf (dvb_ringbuffer_init d 65535)"
  by (simp add: rx_wf_def rb_ok_def dvb_ringbuffer_init_def)

lemma rx_wf_flush: "rx_wf r \<Longrightarrow> rx_wf (dvb_ringbuffer_flush r)"
  by (simp add: rx_wf_def rb_ok_def dvb_ringbuffer_flush_def)

lemma rx_wf_pkt_write:
  assumes "rx_wf r" "int (length bs) + 3 \<le> dvb_ringbuffer_free r"
  shows "\<exists>r'. dvb_ringbuffer_pkt_write r bs = Some (int (length bs), r') \<and> rx_wf r'"
proof -
  have ok: "rb_ok r" "rb_size r = 65535" using assms(1) by (simp_all add: rx_wf_def)
  have "rb_fill r + 3 + length bs < rb_size r" using assms(2) rb_fill_facts(4) [OF ok(1)] ok(2) by simp
  then show ?thesis using pkt_write_raw [OF ok(1)] ok(2) by (auto simp: rx_wf_def)
qed

lemma rx_wf_skip: "rx_wf r \<Longrightarrow> rx_wf (dvb_ringbuffer_skip k r)"
  by (simp add: dvb_ringbuffer_skip_def rx_wf_def rb_ok_def)

lemma rx_wf_cleanup: "pkt_cleanup r = Some r' \<Longrightarrow> rx_wf r \<longrightarrow> rx_wf r'"
  by (erule pkt_cleanup.raw_induct [where P = "\<lambda>r r'. rx_wf r \<longrightarrow> rx_wf r'", rotated])
    (auto simp: rx_wf_skip split: if_splits Option.bind_splits)

lemma rx_wf_dispose: "dvb_ringbuffer_pkt_dispose r i = Some r' \<Longrightarrow> rx_wf r \<longrightarrow> rx_wf r'"
  by (auto simp: dvb_ringbuffer_pkt_dispose_def write_at_def rx_wf_def rb_ok_def split: Option.bind_splits if_splits dest!: rx_wf_cleanup)

section \<open>The operations keep it\<close>

definition ci_wf :: "('p \<Rightarrow> bool) \<Rightarrow> nat \<Rightarrow> 'p ci_sys \<Rightarrow> bool" where
  "ci_wf idle n s \<longleftrightarrow> ca_wf n (ca s) \<and> idle (pc s)"

lemma ci_wf_simps [simp]:
  "(\<And>x. slot_wf x \<Longrightarrow> slot_wf (f x)) \<Longrightarrow> ci_wf idle n s \<Longrightarrow> ci_wf idle n (set_slot slot f s)"
  "ci_wf idle n s \<Longrightarrow> st \<noteq> DVB_CA_SLOTSTATE_RUNNING \<Longrightarrow> ci_wf idle n (update_state slot st s)"
  "(\<And>c. ca_wf n c \<Longrightarrow> ca_wf n (g c)) \<Longrightarrow> ci_wf idle n s \<Longrightarrow> ci_wf idle n (set_ca g s)"
  "ci_wf idle n (wake_readers s) = ci_wf idle n s"
  "ci_wf idle n s \<Longrightarrow> idle q \<Longrightarrow> ci_wf idle n (s\<lparr>pc := q\<rparr>)"
  by (auto simp: ci_wf_def intro: ca_wf_set_slot ca_wf_update_state)

lemma ci_wf_frame [simp]: "ci_wf idle n s \<Longrightarrow> ci_wf idle n (ci_thread_update_delay s)" "ci_wf idle n s \<Longrightarrow> ci_wf idle n (ci_thread_wakeup s)"
    "ci_wf idle n s \<Longrightarrow> ci_wf idle n (slot_invalid slot s)"
  by (simp_all add: ci_thread_update_delay_def ci_thread_wakeup_def slot_invalid_def)

lemma ci_wf_slot: "ci_wf idle n s \<Longrightarrow> slot_at slot s = Some x \<Longrightarrow> slot_wf x"
  by (auto simp: ci_wf_def dest: ca_wf_slot)

lemma slot_state_at: "slot_at slot s = Some x \<Longrightarrow> ci_get_slot_state slot s = slot_state x"
  by (auto simp: slot_at_def ci_get_slot_state_def split: if_splits)

lemma ci_wf_set_at:
  assumes "ci_wf idle n s" "\<And>x. slot_at slot s = Some x \<Longrightarrow> slot_wf x \<Longrightarrow> slot_wf (f x)"
  shows "ci_wf idle n (set_slot slot f s)"
  using assms by (cases "slot < length (slot_info (ca s))")
    (auto simp: ci_wf_def ca_wf_def set_slot_def list_all_length nth_list_update slot_at_def slot_count_def list_update_beyond)

lemma ci_wf_running:
  assumes "ci_wf idle n s" "rx_wf r" "\<And>x. slot_at slot s = Some x \<Longrightarrow> 2 \<le> link_buf_size x"
  shows "ci_wf idle n (update_state slot DVB_CA_SLOTSTATE_RUNNING (set_slot slot (rx_buffer_update (\<lambda>_. Some r)) s))"
  unfolding update_state_set set_slot_set using assms by (intro ci_wf_set_at) (auto simp: slot_wf_def)

text \<open>A slot that is not running; its link buffer may change.\<close>

definition halted :: "nat \<Rightarrow> dvb_ca_private \<Rightarrow> bool" where
  "halted slot c \<longleftrightarrow> slot < length (slot_info c) \<longrightarrow> slot_state (slot_info c ! slot) \<noteq> DVB_CA_SLOTSTATE_RUNNING"

lemma halted_at: "slot_at slot s = Some x \<Longrightarrow> halted slot (ca s) \<longleftrightarrow> slot_state x \<noteq> DVB_CA_SLOTSTATE_RUNNING"
  by (auto simp: slot_at_def halted_def slot_count_def split: if_splits)

lemma halted_state: "ci_get_slot_state slot s \<noteq> DVB_CA_SLOTSTATE_RUNNING \<Longrightarrow> halted slot (ca s)"
  by (auto simp: ci_get_slot_state_def halted_def slot_count_def split: if_splits)

lemma ci_wf_link: "ci_wf idle n s \<Longrightarrow> halted slot (ca s) \<Longrightarrow> L \<le> 512 \<Longrightarrow> ci_wf idle n (set_slot slot (link_buf_size_update (\<lambda>_. L)) s)"
  by (rule ci_wf_set_at) (auto simp: slot_wf_def halted_at)

definition links :: "dvb_ca_private \<Rightarrow> int list" where
  "links c = map link_buf_size (slot_info c)"

lemma links_at: "slot_at slot s = Some x \<Longrightarrow> link_buf_size x = links (ca s) ! slot"
  by (auto simp: slot_at_def links_def slot_count_def split: if_splits)

lemma frame_update [simp]: "st \<noteq> DVB_CA_SLOTSTATE_RUNNING \<Longrightarrow> halted slot (ca (update_state slot st s))" "links (ca (update_state slot st s)) = links (ca s)"
    "(\<And>x. slot_state (f x) = slot_state x) \<Longrightarrow> halted slot (ca (set_slot slot f s)) = halted slot (ca s)"
  by (auto simp: halted_def links_def update_state_set set_slot_def map_update nth_list_update) (metis list_update_beyond list_update_id map_update not_le nth_map)

text \<open>What accesses to a module leave alone: all but its own state; transfers may ask for a new link.\<close>

lemma readIO_ca: "readIO K a slot s = Some (v, s') \<Longrightarrow> ca s' = ca s"
  by (auto simp: readIO_def)

lemma writeIO_ca: "writeIO K a v slot s = Some (r, s') \<Longrightarrow> ca s' = ca s"
  by (auto simp: writeIO_def)

lemma wait_status_ca:
  assumes "wait_status K slot w until s = Some y"
  shows "ca (snd y) = ca s"
  using assms by (rule wait_status.raw_induct [where P = "\<lambda>K slot w until s y. ca (snd y) = ca s", rotated])
    (fastforce split: Option.bind_splits if_splits dest: readIO_ca)

lemma wait_if_status_ca: "ci_wait_if_status K slot w t s = Some (r, s') \<Longrightarrow> ca s' = ca s"
  by (auto simp: ci_wait_if_status_def dest!: wait_status_ca)

lemma read_bytes_ca: "read_bytes K slot k s = Some (bs, s') \<Longrightarrow> ca s' = ca s"
  by (induction k arbitrary: s bs) (auto split: option.splits dest!: readIO_ca)

lemma write_bytes_ca: "write_bytes K slot bs s = Some (r, s') \<Longrightarrow> ca s' = ca s"
  by (induction bs arbitrary: s) (auto split: option.splits if_splits dest!: writeIO_ca)

lemmas access_ca = readIO_ca writeIO_ca wait_if_status_ca read_bytes_ca write_bytes_ca

lemma write_packet_ca: "write_packet K slot f s = Some (r, s') \<Longrightarrow> ca s' = ca s \<or> ca s' = ca (update_state slot DVB_CA_SLOTSTATE_LINKINIT s)"
  by (auto simp: write_packet_def update_state_set set_slot_def split: Option.bind_splits if_splits dest!: access_ca)

lemma write_data_ca: "ci_write_data K slot f s = Some (r, s') \<Longrightarrow> ca s' = ca s \<or> ca s' = ca (update_state slot DVB_CA_SLOTSTATE_LINKINIT s)"
  by (auto simp: ci_write_data_def update_state_set set_slot_def split: Option.bind_splits if_splits dest!: access_ca write_packet_ca)

lemma write_data_fits: "ci_write_data K slot f s = Some (int (length f), s') \<Longrightarrow> \<exists>x. slot_at slot s = Some x \<and> int (length f) \<le> link_buf_size x"
  by (auto simp: ci_write_data_def split: Option.bind_splits if_splits)

lemma read_data_halted: "ci_read_data K slot (Some k) s = Some (r, bs, s') \<Longrightarrow> halted slot (ca s) \<longrightarrow> halted slot (ca s')"
  by (auto simp: ci_read_data_def read_store_def Let_def split: Option.bind_splits if_splits dest!: access_ca)

lemma link_answer_link: "link_answer K slot k s = Some (0, s') \<Longrightarrow> slot_at slot s' = Some x \<Longrightarrow> 2 \<le> link_buf_size x"
proof -
  assume la: "link_answer K slot k s = Some (0, s')" and x: "slot_at slot s' = Some x"
  obtain t u f where u: "ci_write_data K slot f t = Some (int (length f), u)" "length f = 2" "ca s' = ca u"
    using la by (auto simp: link_answer_def split: Option.bind_splits if_splits dest!: writeIO_ca)
  obtain y where "slot_at slot t = Some y" "2 \<le> link_buf_size y" using write_data_fits [OF u(1)] u(2) by auto
  moreover have "links (ca u) = links (ca t)" using write_data_ca [OF u(1)] by auto
  ultimately show ?thesis using links_at [OF x] links_at [of slot t y] u(3) by simp
qed

lemma slot_shutdown_wf: "ci_slot_shutdown slot s = Some s' \<Longrightarrow> ci_wf idle n s \<longrightarrow> ci_wf idle n s'"
  by (auto simp: ci_slot_shutdown_def update_state_set set_slot_set slot_wf_def split: Option.bind_splits intro!: ci_wf_simps(1))

lemma check_camstatus_wf: "ci_check_camstatus slot s = Some (b, s') \<Longrightarrow> ci_wf idle n s \<longrightarrow> ci_wf idle n s'"
  by (auto simp: ci_check_camstatus_def split: Option.bind_splits if_splits)

lemma camchange_loop_wf: "camchange_loop slot s = Some s' \<Longrightarrow> ci_wf idle n s \<longrightarrow> ci_wf idle n s'"
  by (erule camchange_loop.raw_induct [where P = "\<lambda>slot s s'. ci_wf idle n s \<longrightarrow> ci_wf idle n s'", rotated])
    (auto simp: Let_def split: Option.bind_splits if_splits dest!: check_camstatus_wf [where n = n and idle = idle] slot_shutdown_wf [where n = n and idle = idle])

lemma camchange_irq_wf: "ci_camchange_irq slot ty s = Some s' \<Longrightarrow> ci_wf idle n s \<longrightarrow> ci_wf idle n s'"
  by (auto simp: ci_camchange_irq_def split: Option.bind_splits)

lemma reset_slots_wf: "reset_slots slots s = Some s' \<Longrightarrow> ci_wf idle n s \<longrightarrow> ci_wf idle n s'"
proof (induction slots arbitrary: s)
  case (Cons slot slots)
  then show ?case
    by (auto split: option.splits if_splits dest!: slot_shutdown_wf [where n = n and idle = idle] camchange_irq_wf [where n = n and idle = idle])
qed simp

lemma do_ioctl_wf: "ci_io_do_ioctl cmd s = Some (r, y, s') \<Longrightarrow> 0 < n \<Longrightarrow> ci_wf idle n s \<longrightarrow> ci_wf idle n s'"
  by (auto simp: ci_io_do_ioctl_def Let_def intro!: ci_wf_frame ci_wf_simps(3) split: Option.bind_splits if_splits ca_cmd.splits dest!: reset_slots_wf [where n = n and idle = idle])

lemma ioctl_wf: "ci_io_ioctl none wr big kmem from to cmd s = Some (r, y, s') \<Longrightarrow> 0 < n \<Longrightarrow> ci_wf idle n s \<longrightarrow> ci_wf idle n s'"
  by (auto simp: ci_io_ioctl_def dvb_usercopy_def Let_def split: Option.bind_splits if_splits prod.splits dest!: do_ioctl_wf [where n = n and idle = idle])

lemma io_open_wf: "ci_wf idle n s \<Longrightarrow> ci_wf idle n (snd (ci_io_open s))"
  by (auto simp: ci_io_open_def ci_wf_def ca_wf_def ci_thread_wakeup_def ci_thread_update_delay_def list_all_length flush_slot_def slot_wf_def rx_wf_flush
      split: option.splits)

lemma io_release_wf: "ci_wf idle n s \<Longrightarrow> ci_wf idle n (snd (snd (ci_io_release rdonly d s)))"
  by (simp add: ci_io_release_def)

lemma search_slots_next: "search_slots k slot hdr conn s = Some (found, Some nxt) \<Longrightarrow> slot < slot_count s \<Longrightarrow> nxt < slot_count s"
  by (induction k slot hdr conn s rule: search_slots.induct)
    (auto simp: Let_def split: if_splits option.splits)

lemma read_condition_wf: "ci_io_read_condition s = Some (found, s') \<Longrightarrow> ci_wf idle n s \<longrightarrow> ci_wf idle n s'"
  by (auto simp: ci_io_read_condition_def ci_wf_def ca_wf_def slot_count_def split: Option.bind_splits option.splits dest!: search_slots_next)

lemma read_frags_wf:
  assumes "read_frags count fault j hdr conn pktlen out idx r = Some y"
  shows "rx_wf r \<longrightarrow> rx_wf (snd (snd (snd y)))"
  using assms
  by (rule read_frags.raw_induct [where P = "\<lambda>count fault j hdr conn pktlen out idx r y. rx_wf r \<longrightarrow> rx_wf (snd (snd (snd y)))", rotated])
    (auto simp: Let_def split: Option.bind_splits if_splits dest!: rx_wf_dispose)

lemma read_sleep_wf: "read_sleep [] s = Some (w, s') \<Longrightarrow> ci_wf idle n s \<longrightarrow> ci_wf idle n s'"
  by (auto simp: read_sleep.simps [of "[]"] split: option.splits prod.splits dest!: read_condition_wf [where n = n and idle = idle])

lemma io_read_wf: "ci_io_read count nonblock [] fault left s = Some (r, out, s') \<Longrightarrow> ci_wf idle n s \<longrightarrow> ci_wf idle n s'"
proof
  assume rd: "ci_io_read count nonblock [] fault left s = Some (r, out, s')" and wf: "ci_wf idle n s"
  show "ci_wf idle n s'"
  proof (cases "count < 2")
    case False
    obtain w t v u where w: "ci_io_read_condition s = Some (w, t)"
        "(case w of Some slot \<Rightarrow> Some (Inr slot, t) | None \<Rightarrow> if nonblock then Some (Inl (- EAGAIN), t) else read_sleep [] t) = Some (v, u)"
      using rd False by (auto simp: ci_io_read_def split: Option.bind_splits)
    have u: "ci_wf idle n u"
      using read_condition_wf [OF w(1), of idle n] wf w(2) read_sleep_wf [of t v u idle n] by (auto split: option.splits if_splits)
    show ?thesis
    proof (cases v)
      case (Inl e)
      then show ?thesis using rd False w u by (simp add: ci_io_read_def)
    next
      case (Inr slot)
      then obtain x ring idx st conn outs ring' where f: "slot_at slot u = Some x" "rx_buffer x = Some ring"
          "read_frags count fault 0 [0, 0] None 2 [] idx ring = Some (st, conn, outs, ring')"
          "s' = set_slot slot (rx_buffer_update (\<lambda>_. Some ring')) u"
        using rd False w by (auto simp: ci_io_read_def Let_def split: Option.bind_splits if_splits)
      have "rx_wf ring" using ci_wf_slot [OF u f(1)] f(2) by (simp add: slot_wf_def)
      then show ?thesis using read_frags_wf [OF f(3)] u f(4) by simp
    qed
  qed (use rd wf in \<open>simp add: ci_io_read_def\<close>)
qed

locale cam_safe = cam_total +
  assumes reset_inv: "hw_reset K slot p = Some p' \<Longrightarrow> idle p \<Longrightarrow> idle p'"
    and msleep_inv: "idle p \<Longrightarrow> idle (cam_msleep K k p)"
begin

lemma readMem_inv: "readMem K a m slot p = Some (v, p') \<Longrightarrow> idle p \<longrightarrow> idle p'"
  using read_total [of p a m slot] by auto

lemma writeMem_inv: "writeMem K a v m slot p = Some (r, p') \<Longrightarrow> idle p \<longrightarrow> idle p'"
  using write_total [of p a v m slot] by auto

lemma readIO_wf: "readIO K a slot s = Some (v, s') \<Longrightarrow> ci_wf idle n s \<longrightarrow> ci_wf idle n s'"
  by (auto simp: readIO_def ci_wf_def dest!: readMem_inv)

lemma writeIO_wf: "writeIO K a v slot s = Some (r, s') \<Longrightarrow> ci_wf idle n s \<longrightarrow> ci_wf idle n s'"
  by (auto simp: writeIO_def ci_wf_def dest!: writeMem_inv)

lemma readAttr_wf: "readAttr K a slot s = Some (v, s') \<Longrightarrow> ci_wf idle n s \<longrightarrow> ci_wf idle n s'"
  by (auto simp: readAttr_def ci_wf_def dest!: readMem_inv)

lemma wait_status_wf:
  assumes "wait_status K slot w until s = Some y"
  shows "ci_wf idle n s \<longrightarrow> ci_wf idle n (snd y)"
proof -
  have "K = K \<longrightarrow> ci_wf idle n s \<longrightarrow> ci_wf idle n (snd y)" using assms
    by (rule wait_status.raw_induct [where P = "\<lambda>K' slot w until s y. K' = K \<longrightarrow> ci_wf idle n s \<longrightarrow> ci_wf idle n (snd y)", rotated])
      (fastforce split: Option.bind_splits if_splits dest: readIO_wf simp: ci_wf_def msleep_inv)
  then show ?thesis by simp
qed

lemmas access_wf = readIO_wf writeIO_wf readAttr_wf

lemma wait_if_status_wf: "ci_wait_if_status K slot w t s = Some (r, s') \<Longrightarrow> ci_wf idle n s \<longrightarrow> ci_wf idle n s'"
  by (auto simp: ci_wait_if_status_def dest!: wait_status_wf [where n = n])

lemma read_bytes_wf: "read_bytes K slot k s = Some (bs, s') \<Longrightarrow> ci_wf idle n s \<longrightarrow> ci_wf idle n s' \<and> length bs = k"
  using read_bytes_total [of s slot k] by (auto simp: ci_wf_def)

lemma write_bytes_wf: "write_bytes K slot bs s = Some (r, s') \<Longrightarrow> ci_wf idle n s \<longrightarrow> ci_wf idle n s'"
  by (induction bs arbitrary: s) (auto split: option.splits if_splits dest!: writeIO_wf [where n = n])

lemma write_packet_wf: "write_packet K slot f s = Some (r, s') \<Longrightarrow> ci_wf idle n s \<longrightarrow> ci_wf idle n s'"
  by (auto simp: write_packet_def split: Option.bind_splits if_splits dest!: access_wf [where n = n] write_bytes_wf [where n = n])

lemma write_data_wf: "ci_write_data K slot f s = Some (r, s') \<Longrightarrow> ci_wf idle n s \<longrightarrow> ci_wf idle n s'"
  by (auto simp: ci_write_data_def split: Option.bind_splits if_splits dest!: access_wf [where n = n] write_packet_wf [where n = n])

text \<open>Receiving: the packet fits into the ring, and the size announced into the driver's buffer.\<close>

lemma read_store_wf:
  assumes "ci_wf idle n s" "slot_at slot s = Some x" "ebuf \<or> (\<forall>r. rx_buffer x = Some r \<longrightarrow> int (length buf) + 3 \<le> dvb_ringbuffer_free r)"
  shows "\<exists>st bs s'. read_store slot ebuf buf s = Some (st, bs, s') \<and> ci_wf idle n s'"
proof (cases "ebuf \<or> rx_buffer x = None")
  case True
  then show ?thesis using assms by (auto simp: read_store_def)
next
  case False
  then obtain r where r: "\<not> ebuf" "rx_buffer x = Some r" by auto
  have "rx_wf r" using ci_wf_slot [OF assms(1,2)] r by (simp add: slot_wf_def)
  then obtain r' where "dvb_ringbuffer_pkt_write r buf = Some (int (length buf), r')" "rx_wf r'"
    using rx_wf_pkt_write [of r buf] assms(3) r by auto
  then show ?thesis using r assms(1,2) by (auto simp: read_store_def)
qed

lemma read_data_total:
  assumes wf: "ci_wf idle n s" and slot: "slot < n" and ebuf: "\<And>k. ebuf = Some k \<Longrightarrow> k \<le> 512"
  shows "\<exists>st bs s'. ci_read_data K slot ebuf s = Some (st, bs, s') \<and> ci_wf idle n s'"
proof -
  obtain x where x: "slot_at slot s = Some x" using wf slot slot_at_Some [of n s slot] by (auto simp: ci_wf_def)
  have L: "link_buf_size x \<le> 512" using ci_wf_slot [OF wf x] by (simp add: slot_wf_def)
  obtain hi q1 where q1: "readIO K 3 slot s = Some (hi, s\<lparr>pc := q1\<rparr>)" "idle q1" using readIO_total [of s 3 slot] wf by (auto simp: ci_wf_def)
  obtain lo q2 where q2: "readIO K 2 slot (s\<lparr>pc := q1\<rparr>) = Some (lo, s\<lparr>pc := q2\<rparr>)" "idle q2"
    using readIO_total [of "s\<lparr>pc := q1\<rparr>" 2 slot] q1(2) by auto
  define k where "k = unat hi * 256 + unat lo"
  obtain bs q3 where q3: "read_bytes K slot k (s\<lparr>pc := q2\<rparr>) = Some (bs, s\<lparr>pc := q3\<rparr>)" "length bs = k" "idle q3"
    using read_bytes_total [of "s\<lparr>pc := q2\<rparr>" slot k] q2(2) by auto
  obtain st q4 where q4: "readIO K 1 slot (s\<lparr>pc := q3\<rparr>) = Some (st, s\<lparr>pc := q4\<rparr>)" "idle q4"
    using readIO_total [of "s\<lparr>pc := q3\<rparr>" 1 slot] q3(3) by auto
  have w: "ci_wf idle n (s\<lparr>pc := q2\<rparr>)" "ci_wf idle n (s\<lparr>pc := q4\<rparr>)" using wf q2(2) q4(2) by simp_all
  show ?thesis
  proof (cases "ebuf = None \<and> (rx_buffer x = None \<or> dvb_ringbuffer_free (the (rx_buffer x)) < link_buf_size x + 3 \<or> int k > link_buf_size x \<or> k < 2) \<or>
      ebuf \<noteq> None \<and> k > the ebuf \<or> st AND 1 \<noteq> 0 \<and> k \<le> 512")
    case True
    then show ?thesis
      using wf w x q1(1) q2(1) q3(1) q4(1) by (auto simp: ci_read_data_def k_def [symmetric] Let_def simp del: of_nat_add of_nat_mult)
  next
    case False
    have k: "k \<le> 512" using False L ebuf by (cases ebuf) auto
    have "\<exists>stt bs' s'. read_store slot (ebuf \<noteq> None) bs (s\<lparr>pc := q4\<rparr>) = Some (stt, bs', s') \<and> ci_wf idle n s'"
      using read_store_wf [OF w(2), of slot x "ebuf \<noteq> None" bs] x q3(2) False k by auto
    then show ?thesis using False k x q1(1) q2(1) q3(1) q4(1) by (auto simp: ci_read_data_def k_def [symmetric] Let_def simp del: of_nat_add of_nat_mult)
  qed
qed

lemma read_data_wf:
  assumes "ci_read_data K slot ebuf s = Some (st, bs, s')" "\<And>k. ebuf = Some k \<Longrightarrow> k \<le> 512"
  shows "ci_wf idle n s \<longrightarrow> ci_wf idle n s'"
proof
  assume wf: "ci_wf idle n s"
  have "slot < n" using assms(1) wf by (auto simp: ci_read_data_def slot_at_def slot_count_def ci_wf_def ca_wf_def split: if_splits)
  then show "ci_wf idle n s'" using read_data_total [OF wf, of slot ebuf] assms by auto
qed

lemma link_answer_wf: "link_answer K slot k s = Some (r, s') \<Longrightarrow> ci_wf idle n s \<longrightarrow> ci_wf idle n s'"
  by (auto simp: link_answer_def split: Option.bind_splits if_splits
      dest!: access_wf [where n = n] wait_if_status_wf [where n = n] write_data_wf [where n = n])

lemma writeIO_frame: "writeIO K a v slot s = Some (r, s') \<Longrightarrow> (ci_wf idle n s \<longrightarrow> ci_wf idle n s') \<and> ca s' = ca s"
  by (simp add: writeIO_wf writeIO_ca)

lemma wait_if_status_frame: "ci_wait_if_status K slot w t s = Some (r, s') \<Longrightarrow> (ci_wf idle n s \<longrightarrow> ci_wf idle n s') \<and> ca s' = ca s"
  by (simp add: wait_if_status_wf wait_if_status_ca)

lemma read_data_frame: "ci_read_data K slot (Some 2) s = Some (r, bs, s') \<Longrightarrow> (ci_wf idle n s \<longrightarrow> ci_wf idle n s') \<and> (halted slot (ca s) \<longrightarrow> halted slot (ca s'))"
  using read_data_halted [of K slot 2 s r bs s'] read_data_wf [of slot "Some 2" s r bs s' n] by auto

lemma link_init_wf: "ci_link_init K slot s = Some (r, s') \<Longrightarrow> halted slot (ca s) \<longrightarrow> ci_wf idle n s \<longrightarrow> ci_wf idle n s'"
  by (auto simp: ci_link_init_def Let_def ci_wf_link split: Option.bind_splits if_splits
      dest!: writeIO_frame [where n = n] wait_if_status_frame [where n = n] read_data_frame [where n = n] link_answer_wf [where n = n])

lemma link_init_link:
  assumes "ci_link_init K slot s = Some (0, s')" "slot_at slot s' = Some x"
  shows "2 \<le> link_buf_size x"
proof -
  obtain k t where "link_answer K slot k t = Some (0, s')"
    using assms(1) by (auto simp: ci_link_init_def Let_def split: Option.bind_splits if_splits)
  then show ?thesis using assms(2) by (rule link_answer_link)
qed

lemma read_attrs_wf: "read_attrs K slot a k s = Some (bs, s') \<Longrightarrow> ci_wf idle n s \<longrightarrow> ci_wf idle n s'"
  by (induction k arbitrary: a s bs) (auto split: option.splits dest!: readAttr_wf [where n = n])

lemma read_tuple_wf: "ci_read_tuple K slot a s = Some (ty, tuple, a', s') \<Longrightarrow> ci_wf idle n s \<longrightarrow> ci_wf idle n s'"
  by (auto simp: ci_read_tuple_def split: Option.bind_splits if_splits dest!: readAttr_wf [where n = n] read_attrs_wf [where n = n])

lemma cftable_entry_wf [simp]: "ci_wf idle n s \<Longrightarrow> ci_wf idle n (snd (cftable_entry slot ty tuple got s))"
  by (simp add: cftable_entry_def)

lemma cftable_loop_wf: "cftable_loop K slot a got s = Some (a', got', s') \<Longrightarrow> ci_wf idle n s \<longrightarrow> ci_wf idle n s'"
proof (induction "0x1000 - a" arbitrary: a got s rule: less_induct)
  case less
  show ?case
  proof (cases "a < 0x1000")
    case True
    then obtain ty tuple b t where t: "ci_read_tuple K slot a s = Some (ty, tuple, b, t)"
      using less.prems by (subst (asm) cftable_loop.simps) (auto split: option.splits)
    have "0x1000 - b < 0x1000 - a" using read_tuple_advances [OF t] True by simp
    then show ?thesis using less.prems read_tuple_wf [OF t, of n] True
      by (subst (asm) cftable_loop.simps) (auto simp: t split: if_splits dest!: less.hyps)
  qed (use less.prems in \<open>subst (asm) cftable_loop.simps, simp\<close>)
qed

lemma expect_tuple_wf: "expect_tuple K slot ty a s = Some (t, s') \<Longrightarrow> ci_wf idle n s \<longrightarrow> ci_wf idle n s'"
  by (auto simp: expect_tuple_def split: Option.bind_splits if_splits dest!: read_tuple_wf [where n = n])

lemma parse_heads_wf: "parse_heads K slot hs a s = Some (t, s') \<Longrightarrow> ci_wf idle n s \<longrightarrow> ci_wf idle n s'"
proof (induction hs arbitrary: a s)
  case (Cons h hs)
  then show ?case by (cases h) (auto split: option.splits if_splits dest!: expect_tuple_wf [where n = n])
qed simp

lemma parse_config_wf: "parse_config K slot tuple a s = Some (r, s') \<Longrightarrow> ci_wf idle n s \<longrightarrow> ci_wf idle n s'"
  by (auto simp: parse_config_def Let_def split: Option.bind_splits option.splits if_splits dest!: cftable_loop_wf [where n = n])

lemma parse_attributes_wf: "ci_parse_attributes K slot s = Some (r, s') \<Longrightarrow> ci_wf idle n s \<longrightarrow> ci_wf idle n s'"
  by (auto simp: ci_parse_attributes_def split: Option.bind_splits option.splits
      dest!: parse_heads_wf [where n = n] expect_tuple_wf [where n = n] parse_config_wf [where n = n] simp del: parse_heads.simps)

lemma set_configoption_wf: "ci_set_configoption K slot s = Some (r, s') \<Longrightarrow> ci_wf idle n s \<longrightarrow> ci_wf idle n s'"
  by (auto simp: ci_set_configoption_def ci_wf_def split: Option.bind_splits dest!: writeMem_inv readAttr_wf [where n = n])

lemma slot_validate_wf: "slot_validate K slot s = Some s' \<Longrightarrow> ci_wf idle n s \<longrightarrow> ci_wf idle n s'"
  by (auto simp: slot_validate_def Let_def split: Option.bind_splits if_splits
      dest!: parse_attributes_wf [where n = n] set_configoption_wf [where n = n] access_wf [where n = n])

lemma slot_linkinit_wf:
  assumes "slot_linkinit K slot vm s = Some s'" "pred_option (\<lambda>d. length d = 65535) vm" "halted slot (ca s)"
  shows "ci_wf idle n s \<longrightarrow> ci_wf idle n s'"
proof
  assume wf: "ci_wf idle n s"
  obtain r t where t: "ci_link_init K slot s = Some (r, t)" using assms(1) by (auto simp: slot_linkinit_def split: Option.bind_splits)
  have "ci_wf idle n t" using link_init_wf [OF t] wf assms(3) by blast
  then show "ci_wf idle n s'"
    using assms(1,2) t link_init_link [of slot s t]
    by (auto simp: slot_linkinit_def intro!: ci_wf_frame ci_wf_running rx_wf_init split: option.splits if_splits)
qed

lemma poll_packets_wf: "poll_packets K slot k s = Some s' \<Longrightarrow> ci_wf idle n s \<longrightarrow> ci_wf idle n s'"
proof (induction k arbitrary: s)
  case (Suc k)
  show ?case
    using Suc.prems by (auto split: option.splits if_splits dest!: read_data_wf [where n = n] check_camstatus_wf [where n = n and idle = idle] Suc.IH)
qed simp

lemma slot_machine_wf: "slot_machine K slot vm s = Some s' \<Longrightarrow> pred_option (\<lambda>d. length d = 65535) vm \<Longrightarrow> ci_wf idle n s \<longrightarrow> ci_wf idle n s'"
proof (cases "ci_get_slot_state slot s = DVB_CA_SLOTSTATE_UNINITIALISED")
  case True
  then show "slot_machine K slot vm s = Some s' \<Longrightarrow> ci_wf idle n s \<longrightarrow> ci_wf idle n s'"
    by (auto simp: slot_machine_def Let_def ci_wf_def intro!: ca_wf_set_slot ca_wf_update_state split: Option.bind_splits dest!: reset_inv intro: msleep_inv)
next
  case False
  then show "slot_machine K slot vm s = Some s' \<Longrightarrow> pred_option (\<lambda>d. length d = 65535) vm \<Longrightarrow> ci_wf idle n s \<longrightarrow> ci_wf idle n s'"
    by (auto simp: slot_machine_def Let_def intro: halted_state split: Option.bind_splits if_splits slotstate.splits
        dest!: slot_validate_wf [where n = n] slot_linkinit_wf [where n = n] poll_packets_wf [where n = n] access_wf [where n = n])
qed

lemma thread_slot_wf: "thread_slot K slot vm s = Some s' \<Longrightarrow> pred_option (\<lambda>d. length d = 65535) vm \<Longrightarrow> ci_wf idle n s \<longrightarrow> ci_wf idle n s'"
  by (auto simp: thread_slot_def split: Option.bind_splits dest!: slot_machine_wf [where n = n] camchange_loop_wf [where n = n and idle = idle])

lemma frda_wf: "ci_frda_irq K slot s = Some s' \<Longrightarrow> ci_wf idle n s \<longrightarrow> ci_wf idle n s'"
  by (auto simp: ci_frda_irq_def split: Option.bind_splits if_splits dest!: access_wf [where n = n] read_data_wf [where n = n])

lemma deliver_wf: "deliver K c s = Some s' \<Longrightarrow> ci_wf idle n s \<longrightarrow> ci_wf idle n s'"
  by (cases c) (auto dest!: frda_wf [where n = n] camchange_irq_wf [where n = n and idle = idle])

lemma deliver_total: "ci_wf idle n s \<Longrightarrow> slot < n \<Longrightarrow> c \<in> {Frda slot, Camchange slot ty} \<Longrightarrow> \<exists>s'. deliver K c s = Some s'"
proof -
  assume wf: "ci_wf idle n s" and slot: "slot < n" and c: "c \<in> {Frda slot, Camchange slot ty}"
  obtain x where x: "slot_at slot s = Some x" using slot_at_Some [of n s slot] wf slot by (auto simp: ci_wf_def)
  have "\<exists>s'. ci_frda_irq K slot s = Some s'"
    using read_data_total [OF wf slot, of None] readIO_total [of s 1 slot] wf x by (auto simp: ci_frda_irq_def ci_wf_def)
  then show ?thesis using c x by (auto simp: ci_camchange_irq_def)
qed

lemma send_fragment_wf:
  assumes "send_fragment K slot f until s = Some y"
  shows "ci_wf idle n s \<longrightarrow> ci_wf idle n (snd y)"
proof -
  have "K = K \<longrightarrow> ci_wf idle n s \<longrightarrow> ci_wf idle n (snd y)" using assms
    by (rule send_fragment.raw_induct [where P = "\<lambda>K' slot f until s y. K' = K \<longrightarrow> ci_wf idle n s \<longrightarrow> ci_wf idle n (snd y)", rotated])
      (fastforce split: Option.bind_splits if_splits dest: write_data_wf simp: ci_wf_def msleep_inv)
  then show ?thesis by simp
qed

lemma send_fragments_wf:
  assumes "send_fragments K fault slot c msg pos s = Some y"
  shows "ci_wf idle n s \<longrightarrow> ci_wf idle n (snd y)"
proof -
  have "K = K \<longrightarrow> ci_wf idle n s \<longrightarrow> ci_wf idle n (snd y)" using assms
    by (rule send_fragments.raw_induct [where P = "\<lambda>K' fault slot c msg pos s y. K' = K \<longrightarrow> ci_wf idle n s \<longrightarrow> ci_wf idle n (snd y)", rotated])
      (fastforce split: Option.bind_splits if_splits dest: send_fragment_wf simp: Let_def)
  then show ?thesis by simp
qed

lemma io_write_wf: "ci_io_write K hdr fault buf s = Some (r, s') \<Longrightarrow> ci_wf idle n s \<longrightarrow> ci_wf idle n s'"
  by (auto simp: ci_io_write_def Let_def split: if_splits dest!: send_fragments_wf [where n = n])

end

text \<open>The controller: a reset of a card leaves the command state alone.\<close>

lemma rtd_runing [simp]: "runing_state (snd (rtd_inl B r p)) = runing_state p" "runing_state (rtd_outl B r v p) = runing_state p"
  by (simp_all add: rtd_inl_def rtd_outl_def split: prod.split)

lemma rtd_inl_runing: "rtd_inl B r p = (v, p') \<Longrightarrow> runing_state p' = runing_state p"
  using rtd_runing(1) [of B r p] by simp

lemma reset_poll_runing: "reset_poll B b p = Some p' \<Longrightarrow> runing_state p' = runing_state p"
  by (erule reset_poll.raw_induct [where P = "\<lambda>B b p p'. runing_state p' = runing_state p", rotated])
    (auto simp: Let_def split: prod.splits if_splits dest!: rtd_inl_runing)

lemma request_poll_runing:
  assumes "request_poll B b t p = Some y"
  shows "runing_state (snd y) = runing_state p"
  using assms by (rule request_poll.raw_induct [where P = "\<lambda>B b t p y. runing_state (snd y) = runing_state p", rotated])
    (auto simp: Let_def split: prod.splits if_splits dest!: rtd_inl_runing)

lemma hw_reset_runing: "rtdpc_hw_reset B slot p = Some p' \<Longrightarrow> runing_state p' = runing_state p"
  by (auto simp: rtdpc_hw_reset_def Let_def split: prod.splits if_splits Option.bind_splits
      dest!: rtd_inl_runing reset_poll_runing request_poll_runing)

interpretation pcm_safe: cam_safe "pc_cam B" "\<lambda>p. runing_state p = PCMCIA_IDEL" for B
  by unfold_locales (auto simp: pc_cam_def dest: hw_reset_runing)

section \<open>Reachable states\<close>

text \<open>
  The steps of the driver: calls of the interrupt handler, a pass of the thread over a slot, and the operations of the device file.
\<close>

inductive ci_step :: "'p cam \<Rightarrow> 'p ci_sys \<Rightarrow> 'p ci_sys \<Rightarrow> bool" for K where
  irq: "deliver K c s = Some s' \<Longrightarrow> ci_step K s s'"
| wakeup: "ci_step K s (snd (ci_thread_should_wakeup s))"
| pass: "thread_slot K slot vm s = Some s' \<Longrightarrow> pred_option (\<lambda>d. length d = 65535) vm \<Longrightarrow> ci_step K s s'"
| open_file: "ci_step K s (snd (ci_io_open s))"
| release_file: "ci_step K s (snd (snd (ci_io_release rdonly d s)))"
| ioctl: "ci_io_ioctl none wr big kmem from to cmd s = Some (r, reply, s') \<Longrightarrow> ci_step K s s'"
| write_file: "ci_io_write K hdr fault buf s = Some (r, s') \<Longrightarrow> ci_step K s s'"
| read_file: "ci_io_read count nonblock [] fault' left s = Some (r, out, s') \<Longrightarrow> ci_step K s s'"
| wait: "ci_io_read_condition s = Some (found, s') \<Longrightarrow> ci_step K s s'"

definition ci_start :: "nat \<Rightarrow> 'p \<Rightarrow> 'p ci_sys" where
  "ci_start n p = \<lparr>ca = new_ca n, pc = p, rx_wakes = 0\<rparr>"

context cam_safe
begin

lemma step_wf: "ci_step K s s' \<Longrightarrow> 0 < n \<Longrightarrow> ci_wf idle n s \<Longrightarrow> ci_wf idle n s'"
proof (induction rule: ci_step.induct)
  case (wakeup s)
  then show ?case by (simp add: ci_thread_should_wakeup_def)
qed (blast dest: deliver_wf thread_slot_wf io_open_wf io_release_wf ioctl_wf io_write_wf io_read_wf read_condition_wf)+

lemma start_wf: "0 < n \<Longrightarrow> idle p \<Longrightarrow> ci_wf idle n (ci_start n p)"
  by (simp add: ci_wf_def ci_start_def ca_wf_def new_ca_def new_slot_def slot_wf_def list_all_length)

lemma reachable_wf: "(ci_step K)\<^sup>*\<^sup>* (ci_start n p) s \<Longrightarrow> 0 < n \<Longrightarrow> idle p \<Longrightarrow> ci_wf idle n s"
  by (induction rule: rtranclp_induct) (auto intro: start_wf step_wf)

end

end
