(* ===== verification/Ci_Cis.thy ===== *)
theory Ci_Cis
  imports Ci_Inv "HOL-Library.Sublist"
begin

text \<open>
  The card information structure of a module: a list of tuples as bytes of the attribute memory, and the parser of the
  driver against what the list says.
\<close>

section \<open>Reading tuples\<close>

lemma find_from_sublist: "find_from i haystack needle \<noteq> None \<longleftrightarrow> sublist needle haystack"
proof (induction i haystack needle rule: find_from.induct)
  case (1 i haystack needle)
  show ?case
  proof (cases "length haystack < length needle")
    case True
    then have "\<not> sublist needle haystack" using sublist_length_le [of needle haystack] by auto
    then show ?thesis using True by (subst find_from.simps) simp
  next
    case le: False
    show ?thesis
    proof (cases "take (length needle) haystack = needle")
      case True
      then have "sublist needle haystack" by (metis prefix_imp_sublist take_is_prefix)
      then show ?thesis using True le by (subst find_from.simps) simp
    next
      case False
      then have "\<not> prefix needle haystack" by (metis append_eq_conv_conj prefixE)
      then show ?thesis using False le 1 by (subst find_from.simps) (cases haystack, auto simp: sublist_Cons_right)
    qed
  qed
qed

lemma findstr_sublist: "findstr haystack needle \<noteq> None \<longleftrightarrow> sublist needle haystack"
  unfolding findstr_def by (rule find_from_sublist)

text \<open>A tuple has a type, a length and its data; the end is 0xFF.\<close>

type_synonym cis_tuple = "u8 \<times> u8 list"

definition tuple_bytes :: "cis_tuple \<Rightarrow> u8 list" where
  "tuple_bytes t = fst t # of_nat (length (snd t)) # snd t"

definition cis_bytes :: "cis_tuple list \<Rightarrow> u8 list" where
  "cis_bytes ts = concat (map tuple_bytes ts) @ [0xFF]"

definition tuples_ok :: "cis_tuple list \<Rightarrow> bool" where
  "tuples_ok ts \<longleftrightarrow> list_all (\<lambda>t. fst t \<noteq> 0xFF \<and> length (snd t) < 256) ts"

text \<open>Attribute memory: one byte at each even address.\<close>

definition attr_mem :: "'p cam \<Rightarrow> nat \<Rightarrow> u8 list \<Rightarrow> bool" where
  "attr_mem K slot img \<longleftrightarrow> (\<forall>a p. a < length img \<longrightarrow> readMem K (2 * a) 1 slot p = Some (img ! a, p))"

lemma cis_bytes_simps [simp]: "cis_bytes [] = [0xFF]" "cis_bytes (t # ts) = tuple_bytes t @ cis_bytes ts"
  by (simp_all add: cis_bytes_def)

lemma tuples_ok_simps [simp]: "tuples_ok []" "tuples_ok (t # ts) \<longleftrightarrow> fst t \<noteq> 0xFF \<and> length (snd t) < 256 \<and> tuples_ok ts"
  by (simp_all add: tuples_ok_def)

lemma length_tuple_bytes [simp]: "length (tuple_bytes t) = 2 + length (snd t)"
  by (simp add: tuple_bytes_def)

lemma cis_bytes_pos [simp]: "cis_bytes ts \<noteq> []"
  by (simp add: cis_bytes_def)

lemma readAttr_mem: "attr_mem K slot (pre @ b # bs) \<Longrightarrow> readAttr K (2 * length pre) slot s = Some (b, s)"
  by (simp add: readAttr_def attr_mem_def)

lemma read_attrs_mem: "attr_mem K slot (pre @ d @ bs) \<Longrightarrow> read_attrs K slot (2 * length pre) (length d) s = Some (d, s)"
proof (induction d arbitrary: pre)
  case (Cons b d)
  then show ?case using Cons.IH [of "pre @ [b]"] readAttr_mem [of K slot pre b "d @ bs" s] by simp
qed simp

lemma read_tuple_mem:
  assumes "attr_mem K slot (pre @ tuple_bytes t @ bs)" "fst t \<noteq> 0xFF" "length (snd t) < 256"
  shows "ci_read_tuple K slot (2 * length pre) s = Some (fst t, snd t, 2 * length (pre @ tuple_bytes t), s)"
proof -
  let ?n = "of_nat (length (snd t)) :: u8"
  have n: "unat ?n = length (snd t)" using assms(3) by (simp add: unat_of_nat)
  have "readAttr K (2 * length pre) slot s = Some (fst t, s)" "readAttr K (2 * length (pre @ [fst t])) slot s = Some (?n, s)"
    "read_attrs K slot (2 * length (pre @ [fst t, ?n])) (length (snd t)) s = Some (snd t, s)"
    using assms(1) readAttr_mem [of K slot pre "fst t" "?n # snd t @ bs" s] readAttr_mem [of K slot "pre @ [fst t]" ?n "snd t @ bs" s]
      read_attrs_mem [of K slot "pre @ [fst t, ?n]" "snd t" bs s] by (simp_all add: tuple_bytes_def)
  then show ?thesis using assms(2) n by (simp add: ci_read_tuple_def eval_nat_numeral)
qed

lemma read_tuple_end: "attr_mem K slot (pre @ 0xFF # bs) \<Longrightarrow> ci_read_tuple K slot (2 * length pre) s = Some (0xFF, [], 2 * (length pre + 1), s)"
  using readAttr_mem [of K slot pre "0xFF" bs s] by (simp add: ci_read_tuple_def)

section \<open>What a list of tuples says\<close>

definition mentions :: "string \<Rightarrow> u8 list \<Rightarrow> bool" where
  "mentions str d \<longleftrightarrow> sublist (str_bytes str) d"

text \<open>
  The configuration option: that of the last table entry with 30 bytes or more up to the first one that names host and module.
\<close>

fun cis_option :: "u8 option \<Rightarrow> cis_tuple list \<Rightarrow> bool \<times> u8 option" where
  "cis_option opt [] = (False, opt)"
| "cis_option opt (t # ts) =
     (if fst t = 0x1B \<and> 30 \<le> length (snd t) then
        if mentions ''DVB_HOST'' (snd t) \<and> mentions ''DVB_CI_MODULE'' (snd t) then (True, Some (snd t ! 0 AND 0x3F))
        else cis_option (Some (snd t ! 0 AND 0x3F)) ts
      else cis_option opt ts)"

definition with_option :: "nat \<Rightarrow> u8 option \<Rightarrow> 'p ci_sys \<Rightarrow> 'p ci_sys" where
  "with_option slot opt s = (case opt of None \<Rightarrow> s | Some v \<Rightarrow> set_slot slot (config_option_update (\<lambda>_. v)) s)"

lemma with_option_set: "with_option slot (Some v) (with_option slot opt s) = with_option slot (Some v) s"
  by (cases opt) (simp_all add: with_option_def set_slot_set comp_def)

lemma entry_mentions: "entry_strings d \<longleftrightarrow> mentions ''DVB_HOST'' d \<and> mentions ''DVB_CI_MODULE'' d"
  by (simp add: entry_strings_def mentions_def findstr_sublist [simplified])

lemma cftable_got:
  assumes "attr_mem K slot (pre @ cis_bytes ts @ bs)" "tuples_ok ts" "length (pre @ cis_bytes ts) \<le> 2048"
  shows "cftable_loop K slot (2 * length pre) True s = Some (2 * length (pre @ cis_bytes ts), True, s)"
  using assms
proof (induction ts arbitrary: pre)
  case Nil
  then show ?case using read_tuple_end [of K slot pre bs s] by (subst cftable_loop.simps) simp
next
  case (Cons t ts)
  have r: "ci_read_tuple K slot (2 * length pre) s = Some (fst t, snd t, 2 * length (pre @ tuple_bytes t), s)"
    using read_tuple_mem [of K slot pre t "cis_bytes ts @ bs" s] Cons.prems by simp
  then show ?case using Cons.IH [of "pre @ tuple_bytes t"] Cons.prems by (subst cftable_loop.simps) (simp add: r cftable_entry_def)
qed

lemma cftable_mem:
  assumes "attr_mem K slot (pre @ cis_bytes ts @ bs)" "tuples_ok ts" "length (pre @ cis_bytes ts) \<le> 2048"
  shows "cftable_loop K slot (2 * length pre) False (with_option slot opt s) =
    Some (2 * length (pre @ cis_bytes ts), fst (cis_option opt ts), with_option slot (snd (cis_option opt ts)) s)"
  using assms
proof (induction ts arbitrary: pre opt)
  case Nil
  then show ?case using read_tuple_end [of K slot pre bs "with_option slot opt s"] by (subst cftable_loop.simps) simp
next
  case (Cons t ts)
  have r: "ci_read_tuple K slot (2 * length pre) s = Some (fst t, snd t, 2 * length (pre @ tuple_bytes t), s)" for s
    using read_tuple_mem [of K slot pre t "cis_bytes ts @ bs" s] Cons.prems by simp
  have e: "cftable_entry slot (fst t) (snd t) False (with_option slot opt s) =
      (if fst t = 0x1B \<and> 30 \<le> length (snd t) then (entry_strings (snd t), with_option slot (Some (snd t ! 0 AND 0x3F)) s) else (False, with_option slot opt s))"
    using with_option_set [of slot "snd t ! 0 AND 0x3F" opt s] by (simp add: cftable_entry_def with_option_def)
  have step: "cftable_loop K slot (2 * length pre) False (with_option slot opt s) = cftable_loop K slot (2 * length (pre @ tuple_bytes t))
      (fst (cftable_entry slot (fst t) (snd t) False (with_option slot opt s))) (snd (cftable_entry slot (fst t) (snd t) False (with_option slot opt s)))"
    using Cons.prems by (subst cftable_loop.simps) (simp add: r)
  note ih = Cons.IH [of "pre @ tuple_bytes t"] cftable_got [of K slot "pre @ tuple_bytes t" ts bs]
  show ?case unfolding step e using ih Cons.prems by (auto simp: entry_mentions)
qed

lemma cis_option_found: "fst (cis_option opt ts) \<Longrightarrow> \<exists>v. snd (cis_option opt ts) = Some v"
  by (induction opt ts rule: cis_option.induct) (auto split: if_splits)

text \<open>The tuples expected in front.\<close>

fun heads_match :: "(u8 \<times> nat option) list \<Rightarrow> cis_tuple list \<Rightarrow> cis_tuple list option" where
  "heads_match [] ts = Some ts"
| "heads_match (h # hs) [] = None"
| "heads_match (h # hs) (t # ts) =
     (if fst t = fst h \<and> (snd h = None \<or> snd h = Some (length (snd t))) then heads_match hs ts else None)"

definition cis_heads :: "(u8 \<times> nat option) list" where
  "cis_heads = [(0x1D, None), (0x1C, None), (0x15, None), (0x20, Some 4)]"

text \<open>Base address and option of a list of tuples the driver accepts.\<close>

definition cis_parse :: "cis_tuple list \<Rightarrow> (u32 \<times> u8) option" where
  "cis_parse ts = do {
     ts \<leftarrow> heads_match cis_heads ts;
     case ts of
       [] \<Rightarrow> None
     | t # es \<Rightarrow>
         if fst t = 0x1A \<and> config_string (snd t) \<and> fst (cis_option None es) then do {
           base \<leftarrow> config_tuple (snd t);
           opt \<leftarrow> snd (cis_option None es);
           Some (base, opt)
         }
         else None
   }"

lemma expect_tuple_mem:
  assumes "attr_mem K slot (pre @ cis_bytes ts @ bs)" "tuples_ok ts" "ty \<noteq> 0xFF"
  shows "expect_tuple K slot ty (2 * length pre) s =
    Some (case ts of [] \<Rightarrow> None | t # _ \<Rightarrow> if fst t = ty then Some (snd t, 2 * length (pre @ tuple_bytes t)) else None, s)"
proof (cases ts)
  case Nil
  then show ?thesis using read_tuple_end [of K slot pre bs s] assms by (simp add: expect_tuple_def)
next
  case (Cons t es)
  then show ?thesis using read_tuple_mem [of K slot pre t "cis_bytes es @ bs" s] assms by (simp add: expect_tuple_def)
qed

lemma parse_heads_mem:
  assumes "attr_mem K slot (pre @ cis_bytes ts @ bs)" "tuples_ok ts" "list_all (\<lambda>h. fst h \<noteq> 0xFF) hs"
  shows "case heads_match hs ts of
      None \<Rightarrow> parse_heads K slot hs (2 * length pre) s = Some (None, s)
    | Some ts' \<Rightarrow> (\<exists>pre'. pre @ cis_bytes ts = pre' @ cis_bytes ts' \<and> tuples_ok ts' \<and> parse_heads K slot hs (2 * length pre) s = Some (Some (2 * length pre'), s))"
  using assms
proof (induction hs ts arbitrary: pre rule: heads_match.induct)
  case (2 h hs)
  then show ?case using expect_tuple_mem [of K slot pre "[]" bs "fst h" s] by (cases h) simp
next
  case (3 h hs t ts)
  have e: "expect_tuple K slot (fst h) (2 * length pre) s = Some (if fst t = fst h then Some (snd t, 2 * length (pre @ tuple_bytes t)) else None, s)"
    using expect_tuple_mem [OF 3(2,3), of "fst h" s] 3(4) by simp
  show ?case
  proof (cases "fst t = fst h \<and> (snd h = None \<or> snd h = Some (length (snd t)))")
    case True
    then have "parse_heads K slot (h # hs) (2 * length pre) s = parse_heads K slot hs (2 * length (pre @ tuple_bytes t)) s" using e by (cases h) auto
    then show ?thesis using 3(1) [OF True, of "pre @ tuple_bytes t"] 3(2-) True by (cases "heads_match hs ts") auto
  qed (use e in \<open>cases h, auto\<close>)
qed auto

lemma parse_config_mem:
  assumes "attr_mem K slot (pre @ cis_bytes es @ bs)" "tuples_ok es" "length (pre @ cis_bytes es) \<le> 2048"
  shows "\<exists>r s'. parse_config K slot d (2 * length pre) s = Some (r, s') \<and>
    (if config_string d \<and> config_tuple d \<noteq> None \<and> fst (cis_option None es)
     then r = 0 \<and> s' = set_slot slot (\<lambda>x. x\<lparr>config_base := the (config_tuple d), config_option := the (snd (cis_option None es))\<rparr>) s
     else r = - EINVAL)"
proof (cases "config_tuple d")
  case (Some base)
  let ?s = "set_slot slot (config_base_update (\<lambda>_. base)) s"
  have "cftable_loop K slot (2 * length pre) False ?s =
      Some (2 * length (pre @ cis_bytes es), fst (cis_option None es), with_option slot (snd (cis_option None es)) ?s)"
    using cftable_mem [OF assms, of None ?s] by (simp add: with_option_def)
  moreover have "with_option slot (snd (cis_option None es)) ?s = set_slot slot (\<lambda>x. x\<lparr>config_base := base, config_option := the (snd (cis_option None es))\<rparr>) s"
    if "fst (cis_option None es)"
    using cis_option_found [OF that] by (auto simp: with_option_def set_slot_set comp_def)
  ultimately show ?thesis
    using Some assms(3) by (cases "config_string d"; cases "fst (cis_option None es)") (simp_all add: parse_config_def Let_def)
qed (simp add: parse_config_def)

lemma parse_attributes_mem:
  assumes mem: "attr_mem K slot (cis_bytes ts @ bs)" and ts: "tuples_ok ts" and len: "length (cis_bytes ts) \<le> 2048"
  shows "\<exists>r s'. ci_parse_attributes K slot s = Some (r, s') \<and>
    (case cis_parse ts of
       None \<Rightarrow> r = - EINVAL
     | Some (base, opt) \<Rightarrow> r = 0 \<and> s' = set_slot slot (\<lambda>x. x\<lparr>config_base := base, config_option := opt\<rparr>) s)"
proof -
  note heads = parse_heads_mem [of K slot "[]" ts bs cis_heads s, simplified, OF mem ts]
  have h: "list_all (\<lambda>h. fst h \<noteq> 0xFF) cis_heads" by (simp add: cis_heads_def)
  show ?thesis
  proof (cases "heads_match cis_heads ts")
    case None
    then show ?thesis using heads h by (simp add: ci_parse_attributes_def cis_parse_def cis_heads_def [symmetric] del: parse_heads.simps)
  next
    case (Some us)
    then obtain pre where pre: "cis_bytes ts = pre @ cis_bytes us" "tuples_ok us" "parse_heads K slot cis_heads 0 s = Some (Some (2 * length pre), s)"
      using heads h by auto
    have e: "ci_parse_attributes K slot s = Option.bind (expect_tuple K slot 0x1A (2 * length pre) s)
        (\<lambda>(t, s). case t of None \<Rightarrow> Some (- EINVAL, s) | Some (tuple, address) \<Rightarrow> parse_config K slot tuple address s)"
      using pre(3) by (simp add: ci_parse_attributes_def cis_heads_def [symmetric] del: parse_heads.simps)
    note x = expect_tuple_mem [of K slot pre us bs "0x1A" s]
    show ?thesis
    proof (cases us)
      case Nil
      then show ?thesis using e x mem pre Some by (simp add: cis_parse_def)
    next
      case (Cons t es)
      have c: "\<exists>r s'. parse_config K slot (snd t) (2 * length (pre @ tuple_bytes t)) s = Some (r, s') \<and>
        (if config_string (snd t) \<and> config_tuple (snd t) \<noteq> None \<and> fst (cis_option None es)
         then r = 0 \<and> s' = set_slot slot (\<lambda>x. x\<lparr>config_base := the (config_tuple (snd t)), config_option := the (snd (cis_option None es))\<rparr>) s
         else r = - EINVAL)"
        using parse_config_mem [of K slot "pre @ tuple_bytes t" es bs "snd t" s] mem len pre Cons by simp
      show ?thesis
      proof (cases "fst t = 0x1A")
        case True
        then show ?thesis using e x c mem pre Some Cons cis_option_found [of None es] by (fastforce simp: cis_parse_def split: if_splits option.splits)
      qed (use e x mem pre Some Cons in \<open>simp add: cis_parse_def\<close>)
    qed
  qed
qed

end
