(* ===== verification/Ci_Props.thy ===== *)
theory Ci_Props
  imports Ci_Cis
begin

text \<open>
  The properties of the common interface and of the PCMCIA controller under it: messages, link layer, slots, configuration, and
  where the driver fails.
\<close>

section \<open>A module that follows a script\<close>

text \<open>For the examples: the accesses a module expects, in order; the attribute memory is fixed. Time stands still.\<close>

definition script_cam :: "u8 list \<Rightarrow> io list cam" where
  "script_cam img = \<lparr>readMem = (\<lambda>a m slot es. if m = 1 then Some ((img @ replicate (a + 1) 0xFF) ! (a div 2), es)
       else case es of Rd b v # es' \<Rightarrow> if a = b then Some (v, es') else Some (0, es) | _ \<Rightarrow> Some (0, es)),
     writeMem = (\<lambda>a v m slot es. case es of Wr b w # es' \<Rightarrow> if a = b \<and> v = w then Some (0, es') else Some (- 1, es) | _ \<Rightarrow> Some (- 1, es)),
     hw_reset = (\<lambda>slot es. Some es), cam_jiffies = (\<lambda>es. 0), cam_msleep = (\<lambda>k es. es), cam_register = (\<lambda>es. Some ([], es))\<rparr>"

definition demo_slot :: "int \<Rightarrow> dvb_ca_slot" where
  "demo_slot link = new_slot\<lparr>slot_state := DVB_CA_SLOTSTATE_RUNNING, link_buf_size := link,
     rx_buffer := Some (dvb_ringbuffer_init (replicate 65535 0) 65535)\<rparr>"

definition demo_sys :: "int \<Rightarrow> 'p \<Rightarrow> 'p ci_sys" where
  "demo_sys link p = \<lparr>ca = (new_ca 1)\<lparr>slot_info := [demo_slot link], ca_open := True\<rparr>, pc = p, rx_wakes = 0\<rparr>"

lemma script_io [simp]:
  "readMem (script_cam img) a 0 slot (Rd a v # es) = Some (v, es)" "writeMem (script_cam img) a v 0 slot (Wr a v # es) = Some (0, es)"
  by (simp_all add: script_cam_def)

lemma plays_script: "plays (script_cam img) slot es (es @ fs) = Some fs"
proof (induction es)
  case (Cons e es)
  then show ?case by (cases e) simp_all
qed simp

lemma demo_rep: "slot_rep (demo_sys link p) []"
proof -
  let ?r = "dvb_ringbuffer_init (replicate 65535 (0 :: u8)) 65535"
  have "ring_ok ?r []" using rb_packets_init [of "replicate 65535 0" 0] rb_fill_init [of "replicate 65535 0" 65535 0]
    by (simp add: ring_ok_def dvb_ringbuffer_init_def)
  then show ?thesis by (auto simp: slot_rep_def demo_sys_def demo_slot_def slot_count_def new_ca_def intro!: exI [of _ "[]"])
qed

lemma demo_simps [simp]: "slot_info (ca (demo_sys link p)) = [demo_slot link]" "ca_open (ca (demo_sys link p))" "pc (demo_sys link p) = p"
    "link_buf_size (demo_slot link) = link" "slot_state (demo_slot link) = DVB_CA_SLOTSTATE_RUNNING" "slot_fill (demo_sys link p) = 0"
    "slot_count (demo_sys link p) = 1"
  by (simp_all add: demo_sys_def demo_slot_def slot_fill_def slot_count_def dvb_ringbuffer_init_def rb_fill_init)

section \<open>Messages\<close>


lemma demo_received:
  "\<exists>s :: io list ci_sys. slot_rep s [[7, 0x80, 1], [9, 0, 5], [7, 0, 2]]"
proof -
  let ?es = "concat (map (rx_script 0) [[7, 0x80, 1], [9, 0, 5], [7, 0, 2]])"
  have "plays (script_cam []) 0 ?es ?es = Some []" using plays_script [of "[]" 0 ?es "[]"] by simp
  then show ?thesis
    using deliver_frda_plays [OF demo_rep [of 4 ?es], of 4 "[[7, 0x80, 1], [9, 0, 5], [7, 0, 2]]" "script_cam []" "[]"] by (auto simp del: deliver_all.simps)
qed


text \<open>
  A write cuts the message into fragments of at most \<open>link_buf_size - 2\<close> bytes, marks all but the last one and
  sends each with exactly the accesses of the link protocol; nothing else of the driver's state changes and the result is the
  number of bytes written.
\<close>

theorem ci_write_sends_fragments:
  assumes "slot_at slot s = Some x" "slot_state x = DVB_CA_SLOTSTATE_RUNNING" "2 < link_buf_size x" "link_buf_size x \<le> 512" "slot < 256"
    "tx_free st1 st2 st3" "plays K slot (concat (map (tx_script st1 st2 st3) (fragments (nat (link_buf_size x) - 2) c msg))) (pc s) = Some p"
  shows "ci_io_write K True (\<lambda>_. 0) (of_nat slot # c # msg) s = Some (int (length msg) + 2, s\<lparr>pc := p\<rparr>)"
proof -
  have "send_fragments K (\<lambda>_. 0) slot c msg 0 (s\<lparr>pc := pc s\<rparr>) = Some (int (length msg) + 2, s\<lparr>pc := p\<rparr>)"
    using send_fragments_plays [OF assms(1,2) refl assms(3,4,6), of K c 0 msg "pc s" p] assms(7) by simp
  moreover have "ci_get_slot_state slot s = DVB_CA_SLOTSTATE_RUNNING"
    using assms(1,2) by (auto simp: ci_get_slot_state_def slot_at_def split: if_splits)
  ultimately show ?thesis using assms(5) by (simp add: ci_io_write_def unat_of_nat)
qed

theorem ci_write_sends_fragments_witness:
  "fragments 2 7 [1, 2, 3] = [[7, 0x80, 1, 2], [7, 0, 3]] \<and>
   ci_io_write (script_cam []) True (\<lambda>_. 0) [0, 7, 1, 2, 3] (demo_sys 4 (concat (map (tx_script 0 0x40 0) [[7, 0x80, 1, 2], [7, 0, 3]]))) =
     Some (5, demo_sys 4 [])"
proof -
  have f: "fragments 2 7 [1, 2, 3] = [[7, 0x80, 1, 2], [7, 0, 3]]" by (simp add: fragments.simps)
  let ?es = "concat (map (tx_script 0 0x40 0) [[7, 0x80, 1, 2], [7, 0, 3]])"
  have "ci_io_write (script_cam []) True (\<lambda>_. 0) (of_nat 0 # 7 # [1, 2, 3]) (demo_sys 4 ?es) = Some (int (length [1 :: u8, 2, 3]) + 2, (demo_sys 4 ?es)\<lparr>pc := []\<rparr>)"
    using plays_script [of "[]" 0 ?es "[]"] f
    by (intro ci_write_sends_fragments [where x = "demo_slot 4" and ?st1.0 = 0 and ?st2.0 = "0x40" and ?st3.0 = 0]) (simp_all add: slot_at_def tx_free_def)
  then show ?thesis using f by (simp add: demo_sys_def)
qed

lemma fragments_link:
  assumes "2 < L" "msg \<noteq> []"
  shows "list_all (\<lambda>f. 2 \<le> length f \<and> int (length f) \<le> L) (fragments (nat L - 2) c msg)"
  using fragments_bounds [of _ "nat L - 2" c msg] assms by (fastforce simp: list_all_iff)



section \<open>Slots\<close>

lemma frag_len_bound: "2 \<le> L \<Longrightarrow> L \<le> 512 \<Longrightarrow> 0 \<le> frag_len L rest \<and> frag_len L rest + 2 \<le> 512"
  by (auto simp: frag_len_def to_u32_small)


definition idle_bus :: "unit bus" where
  "idle_bus = \<lparr>inl = (\<lambda>r h. (0, h)), outl = (\<lambda>r v h. h), irqs = (\<lambda>h. 0), early = (\<lambda>h. False), jiffies = (\<lambda>h. 0), msleep = (\<lambda>k h. h)\<rparr>"

definition idle_pc :: "unit pc_sys" where
  "idle_pc = \<lparr>hw = (), runing_state = PCMCIA_IDEL, p_ci_handler = Some 1, calls = []\<rparr>"


text \<open>How the changes of a slot show.\<close>

lemma slot_at_set [simp]: "slot_at slot (set_slot slot f s) = map_option f (slot_at slot s)" "j \<noteq> slot \<Longrightarrow> slot_at j (set_slot slot f s) = slot_at j s"
    "slot_at j (ci_thread_update_delay s) = slot_at j s" "slot_at j (ci_thread_wakeup s) = slot_at j s" "slot_at j (wake_readers s) = slot_at j s"
  by (simp_all add: slot_at_def set_slot_def slot_count_def ci_thread_update_delay_def ci_thread_wakeup_def wake_readers_def)

lemma flags_set [simp]: "ca_flags (ca (set_slot slot f s)) = ca_flags (ca s)" "ca_flags (ca (ci_thread_update_delay s)) = ca_flags (ca s)"
    "ca_flags (ca (ci_thread_wakeup s)) = ca_flags (ca s)"
  by (simp_all add: set_slot_def ci_thread_update_delay_def ci_thread_wakeup_def)

lemma slot_at_facts: "slot_at slot s = Some x \<Longrightarrow> ci_get_slot_state slot s = slot_state x" "slot_at slot s = Some x \<Longrightarrow> slot_info (ca s) ! slot = x"
  by (auto simp: slot_state_at) (auto simp: slot_at_def split: if_splits)

definition change_state :: "camchange \<Rightarrow> slotstate" where
  "change_state ty = (case ty of CAMCHANGE_INSERTED \<Rightarrow> DVB_CA_SLOTSTATE_UNINITIALISED | CAMCHANGE_REMOVED \<Rightarrow> DVB_CA_SLOTSTATE_NONE)"

lemma camchange_loop_step:
  assumes "slot_at slot s = Some x" "ca_flags (ca s) AND FLAG_IRQ_CAMCHANGE \<noteq> 0" "camchange_count x = Suc k"
  shows "\<exists>t y. camchange_loop slot s = camchange_loop slot t \<and> slot_at slot t = Some y \<and> camchange_count y = k \<and> camchange_type y = camchange_type x \<and>
    slot_state y = change_state (camchange_type x) \<and> ca_flags (ca t) = ca_flags (ca s) \<and> (\<forall>j. j \<noteq> slot \<longrightarrow> slot_at j t = slot_at j s)"
proof -
  define u where "u = (if slot_state x \<noteq> DVB_CA_SLOTSTATE_NONE
    then wake_readers (set_slot slot (rx_buffer_update (\<lambda>_. None) \<circ> slot_state_update (\<lambda>_. DVB_CA_SLOTSTATE_NONE)) s) else s)"
  define v where "v = (if camchange_type x = CAMCHANGE_INSERTED then set_slot slot (slot_state_update (\<lambda>_. DVB_CA_SLOTSTATE_UNINITIALISED)) u else u)"
  define t where "t = set_slot slot (\<lambda>x. x\<lparr>camchange_count := camchange_count x - 1\<rparr>) (ci_thread_update_delay v)"
  have "\<exists>y. slot_at slot u = Some y \<and> camchange_type y = camchange_type x \<and> camchange_count y = Suc k \<and> slot_state y = DVB_CA_SLOTSTATE_NONE"
    using assms by (auto simp: u_def)
  then obtain y where y: "slot_at slot u = Some y" "camchange_type y = camchange_type x" "camchange_count y = Suc k" "slot_state y = DVB_CA_SLOTSTATE_NONE"
    by blast
  have "camchange_loop slot s = camchange_loop slot t"
    using assms y slot_at_facts [OF assms(1)] slot_at_facts [OF y(1)]
    by (subst camchange_loop.simps) (auto simp: ci_check_camstatus_def ci_slot_shutdown_def t_def v_def u_def update_state_set set_slot_set Let_def)
  moreover have "\<exists>y. slot_at slot t = Some y \<and> camchange_count y = k \<and> camchange_type y = camchange_type x \<and> slot_state y = change_state (camchange_type x)"
    using y by (cases "camchange_type x") (auto simp: t_def v_def change_state_def)
  moreover have "ca_flags (ca t) = ca_flags (ca s)" "\<forall>j. j \<noteq> slot \<longrightarrow> slot_at j t = slot_at j s" by (auto simp: t_def v_def u_def)
  ultimately show ?thesis by blast
qed

lemma camchange_loop_ends:
  assumes "slot_at slot s = Some x" "ca_flags (ca s) AND FLAG_IRQ_CAMCHANGE \<noteq> 0"
  shows "\<exists>t y. camchange_loop slot s = Some t \<and> slot_at slot t = Some y \<and> camchange_count y = 0 \<and>
    slot_state y = (if camchange_count x = 0 then slot_state x else change_state (camchange_type x)) \<and> (\<forall>j. j \<noteq> slot \<longrightarrow> slot_at j t = slot_at j s)"
  using assms
proof (induction "camchange_count x" arbitrary: s x)
  case 0
  then show ?case by (subst camchange_loop.simps) (simp add: ci_check_camstatus_def)
next
  case (Suc k)
  obtain t y where t: "camchange_loop slot s = camchange_loop slot t" "slot_at slot t = Some y" "camchange_count y = k" "camchange_type y = camchange_type x"
      "slot_state y = change_state (camchange_type x)" "ca_flags (ca t) = ca_flags (ca s)" "\<forall>j. j \<noteq> slot \<longrightarrow> slot_at j t = slot_at j s"
    using camchange_loop_step [OF Suc.prems, of k] Suc.hyps(2) by metis
  then show ?case using Suc.hyps(1) [of y t] Suc.prems(2) Suc.hyps(2) by (auto split: if_splits)
qed

lemma deliver_camchanges:
  assumes "slot_at slot s = Some x"
  shows "\<exists>t y. deliver_all K (map (Camchange slot) tys) s = Some t \<and> slot_at slot t = Some y \<and> camchange_count y = camchange_count x + length tys \<and>
    camchange_type y = last (camchange_type x # tys) \<and> slot_state y = slot_state x \<and> ca_flags (ca t) = ca_flags (ca s) \<and> (\<forall>j. j \<noteq> slot \<longrightarrow> slot_at j t = slot_at j s)"
  using assms
proof (induction tys arbitrary: s x)
  case (Cons ty tys)
  let ?u = "ci_thread_wakeup (set_slot slot (\<lambda>x. x\<lparr>camchange_type := ty, camchange_count := camchange_count x + 1\<rparr>) s)"
  have u: "deliver K (Camchange slot ty) s = Some ?u" "slot_at slot ?u = Some (x\<lparr>camchange_type := ty, camchange_count := camchange_count x + 1\<rparr>)"
    using Cons.prems by (simp_all add: ci_camchange_irq_def)
  then show ?case using Cons.IH [OF u(2)] by auto
qed simp

text \<open>
  C19: However many times a module is inserted and removed before the thread looks, its loop ends and the slot is in the
  state of the last change: uninitialised behind an insertion, empty behind a removal. The other slots are not touched.
\<close>

theorem ci_camchange_last_counts:
  assumes "slot_at slot s = Some x" "ca_flags (ca s) AND FLAG_IRQ_CAMCHANGE \<noteq> 0" "tys \<noteq> []"
  shows "\<exists>t u y. deliver_all K (map (Camchange slot) tys) s = Some t \<and> camchange_loop slot t = Some u \<and> slot_at slot u = Some y \<and>
    camchange_count y = 0 \<and> slot_state y = change_state (last tys) \<and> (\<forall>j. j \<noteq> slot \<longrightarrow> slot_at j u = slot_at j s)"
proof -
  obtain t y where t: "deliver_all K (map (Camchange slot) tys) s = Some t" "slot_at slot t = Some y" "camchange_count y = camchange_count x + length tys"
      "camchange_type y = last tys" "ca_flags (ca t) = ca_flags (ca s)" "\<forall>j. j \<noteq> slot \<longrightarrow> slot_at j t = slot_at j s"
    using deliver_camchanges [OF assms(1), of K tys] assms(3) by auto
  then show ?thesis using camchange_loop_ends [OF t(2)] assms(2,3) by auto
qed

theorem ci_camchange_last_counts_witness:
  "\<exists>t u y. deliver_all (script_cam []) (map (Camchange 0) [CAMCHANGE_REMOVED, CAMCHANGE_INSERTED]) (demo_sys 4 []) = Some t \<and>
    camchange_loop 0 t = Some u \<and> slot_at 0 u = Some y \<and> slot_state y = DVB_CA_SLOTSTATE_UNINITIALISED"
proof -
  have "slot_at 0 (demo_sys 4 []) = Some (demo_slot 4)" "ca_flags (ca (demo_sys 4 [])) AND FLAG_IRQ_CAMCHANGE \<noteq> 0"
    by (simp_all add: slot_at_def demo_sys_def new_ca_def slot_count_def)
  then show ?thesis
    using ci_camchange_last_counts [of 0 "demo_sys 4 []" "demo_slot 4" "[CAMCHANGE_REMOVED, CAMCHANGE_INSERTED]" "script_cam []"] by (auto simp: change_state_def simp del: deliver_all.simps)
qed

section \<open>Configuration\<close>


definition demo_cis :: "cis_tuple list" where
  "demo_cis = [(0x1D, [0]), (0x1C, [0]), (0x15, [5, 0]), (0x20, [1, 2, 3, 4]),
     (0x1A, [1, 0, 0xFE, 1] @ str_bytes ''DVB_CI_V1.00'' @ [0, 0]), (0x14, []),
     (0x1B, [0x4F] @ str_bytes ''DVB_HOST'' @ str_bytes ''DVB_CI_MODULE'' @ replicate 8 0)]"

lemma script_attr: "attr_mem (script_cam img) slot img"
  by (auto simp: attr_mem_def script_cam_def nth_append)


section \<open>Failures\<close>

lemma send_endless:
  assumes "send_fragments K (\<lambda>_. 0) slot c msg pos s = Some y" "slot_at slot s = Some x" "slot_state x = DVB_CA_SLOTSTATE_RUNNING" "link_buf_size x = 2"
    "tx_free st1 st2 st3" "pos < length msg" "Q (pc s)"
    "\<And>q. Q q \<Longrightarrow> \<exists>q'. plays K slot (tx_script st1 st2 st3 [c, 0x80]) q = Some q' \<and> Q q'"
  shows False
proof -
  let ?P = "\<lambda>K' fault slot' c' (msg' :: u8 list) pos s (y :: int \<times> 'a ci_sys). K' = K \<and> fault = (\<lambda>_ :: nat. 0 :: nat) \<and> slot' = slot \<and> c' = c \<and> pos < length msg' \<and> Q (pc s) \<and>
    (\<exists>x. slot_at slot s = Some x \<and> slot_state x = DVB_CA_SLOTSTATE_RUNNING \<and> link_buf_size x = 2) \<longrightarrow> False"
  have "?P K (\<lambda>_. 0) slot c msg pos s y"
    using assms(1)
    apply (rule send_fragments.raw_induct [where P = ?P, rotated])
    subgoal premises body for send K' fault slot' c' msg' pos s y
    proof (intro impI, elim conjE exE)
      fix x
      assume eq: "K' = K" "fault = (\<lambda>_. 0)" "slot' = slot" "c' = c" and pos: "pos < length msg'" and Q: "Q (pc s)"
        and x: "slot_at slot s = Some x" "slot_state x = DVB_CA_SLOTSTATE_RUNNING" "link_buf_size x = 2"
      obtain q where q: "plays K slot (tx_script st1 st2 st3 [c, 0x80]) (pc s) = Some q" "Q q" using assms(8) [OF Q] by blast
      have f: "frag_len (link_buf_size (slot_info (ca s) ! slot)) (length msg' - pos) = 0" using slot_at_facts(2) [OF x(1)] x(3) by (simp add: frag_len_def to_u32_small)
      have "send_fragment K slot [c, 0x80] (cam_jiffies K (pc s) + 50) (s\<lparr>pc := pc s\<rparr>) = Some (None, s\<lparr>pc := q\<rparr>)"
        using send_fragment_plays [OF x(1,2) _ assms(5) q(1)] x(3) by simp
      then have "send K (\<lambda>_. 0) slot c msg' pos (s\<lparr>pc := q\<rparr>) = Some y" using body(2) pos f by (simp add: eq Let_def)
      then show False using body(1) [of K "\<lambda>_. 0" slot c msg' pos "s\<lparr>pc := q\<rparr>" y] pos q(2) x by simp
    qed
    done
  then show False using assms by blast
qed

text \<open>
  A module that announces a buffer of two bytes makes a write run for ever: the fragments have no payload, so
  the position never moves while the module takes them.
\<close>

theorem ci_write_endless:
  assumes "slot_at slot s = Some x" "slot_state x = DVB_CA_SLOTSTATE_RUNNING" "link_buf_size x = 2" "slot < 256" "msg \<noteq> []"
    "tx_free st1 st2 st3" "Q (pc s)" "\<And>q. Q q \<Longrightarrow> \<exists>q'. plays K slot (tx_script st1 st2 st3 [c, 0x80]) q = Some q' \<and> Q q'"
  shows "ci_io_write K True (\<lambda>_. 0) (of_nat slot # c # msg) s = None"
proof -
  have "send_fragments K (\<lambda>_. 0) slot c msg 0 s = None"
    using send_endless [where msg = msg and c = c and pos = 0, OF _ assms(1-3,6) _ assms(7,8)] assms(5) by (metis not_None_eq length_greater_0_conv)
  then show ?thesis using assms(4) slot_at_facts(1) [OF assms(1)] assms(2) by (simp add: ci_io_write_def unat_of_nat)
qed

definition ready_cam :: "unit cam" where
  "ready_cam = \<lparr>readMem = (\<lambda>a m slot p. Some (0x40, p)), writeMem = (\<lambda>a v m slot p. Some (0, p)), hw_reset = (\<lambda>slot p. Some p),
     cam_jiffies = (\<lambda>p. 0), cam_msleep = (\<lambda>k p. p), cam_register = (\<lambda>p. Some ([], p))\<rparr>"

theorem ci_write_endless_witness: "ci_io_write ready_cam True (\<lambda>_. 0) [0, 7, 1] (demo_sys 2 ()) = None"
proof -
  have "plays ready_cam 0 (tx_script 0x40 0x40 0x40 [7, 0x80]) q = Some q" for q
    by (simp add: tx_script_def size_hi_def size_lo_def ready_cam_def)
  then show ?thesis
    using ci_write_endless [of 0 "demo_sys 2 ()" "demo_slot 2" "[1]" "0x40" "0x40" "0x40" "\<lambda>_. True" ready_cam 7]
    by (simp add: slot_at_def tx_free_def)
qed

text \<open>
  Polling takes an idle module for a broken one: the test of the data-available bit is compiled out, so that a
  size of 0 sends a running slot back to link initialisation, and when that succeeds the ring is a new, empty one: fragments
  that were waiting for a reader are lost.
\<close>

theorem ci_idle_poll_relinks:
  assumes "slot_at slot s = Some x" "slot_state x = DVB_CA_SLOTSTATE_RUNNING" "ca_open (ca s)" "\<not> da_irq_supported x" "rx_buffer x = Some r"
    "link_buf_size x + 3 \<le> dvb_ringbuffer_free r" "plays K slot [Rd 3 0, Rd 2 0] (pc s) = Some p"
  shows "\<exists>t. slot_machine K slot vm s = Some t \<and> ci_get_slot_state slot t = DVB_CA_SLOTSTATE_LINKINIT \<and>
    (\<forall>d u. slot_machine K slot (Some d) t = Some u \<and> ci_get_slot_state slot u = DVB_CA_SLOTSTATE_RUNNING \<longrightarrow>
       (\<exists>y. slot_at slot u = Some y \<and> rx_buffer y = Some (dvb_ringbuffer_init d 65535)))"
proof -
  let ?t = "update_state slot DVB_CA_SLOTSTATE_LINKINIT (s\<lparr>pc := p\<rparr>)"
  obtain q where q: "readIO K 3 slot (s\<lparr>pc := pc s\<rparr>) = Some (0, s\<lparr>pc := q\<rparr>)" "readIO K 2 slot (s\<lparr>pc := q\<rparr>) = Some (0, s\<lparr>pc := p\<rparr>)"
    using assms(7) unfolding plays_Rd [where s = s] by auto
  have "ci_read_data K slot None s = Some (- EIO, [], ?t)" using q assms(1,5,6) by (simp add: ci_read_data_def)
  then have m: "slot_machine K slot vm s = Some ?t"
    using slot_at_facts [OF assms(1)] assms(2-4) by (simp add: slot_machine_def eval_nat_numeral)
  have st: "ci_get_slot_state slot ?t = DVB_CA_SLOTSTATE_LINKINIT"
    using slot_at_facts(1) [of slot ?t] assms(1) by (simp add: update_state_set)
  have "\<exists>y. slot_at slot u = Some y \<and> rx_buffer y = Some (dvb_ringbuffer_init d 65535)"
    if u: "slot_machine K slot (Some d) ?t = Some u" "ci_get_slot_state slot u = DVB_CA_SLOTSTATE_RUNNING" for d u
  proof -
    obtain y where y: "slot_at slot u = Some y" using u(2) by (auto simp: ci_get_slot_state_def slot_at_def split: if_splits)
    then have "slot_state y = DVB_CA_SLOTSTATE_RUNNING" using u(2) slot_at_facts(1) [OF y] by simp
    then show ?thesis using u(1) st y
      by (auto simp: slot_machine_def slot_linkinit_def slot_invalid_def update_state_set split: Option.bind_splits if_splits)
  qed
  then show ?thesis using m st by blast
qed

theorem ci_idle_poll_relinks_witness:
  "\<exists>t. slot_machine (script_cam []) 0 None (demo_sys 4 [Rd 3 0, Rd 2 0]) = Some t \<and> ci_get_slot_state 0 t = DVB_CA_SLOTSTATE_LINKINIT"
proof -
  let ?r = "dvb_ringbuffer_init (replicate 65535 (0 :: u8)) 65535"
  have "slot_at 0 (demo_sys 4 [Rd 3 0, Rd 2 0]) = Some (demo_slot 4)" "\<not> da_irq_supported (demo_slot 4)" "rx_buffer (demo_slot 4) = Some ?r"
    "4 + 3 \<le> dvb_ringbuffer_free ?r"
    by (simp_all add: slot_at_def demo_slot_def new_slot_def dvb_ringbuffer_free_def dvb_ringbuffer_init_def)
  then show ?thesis
    using ci_idle_poll_relinks [of 0 "demo_sys 4 [Rd 3 0, Rd 2 0]" "demo_slot 4" ?r "script_cam []" "[]" None] plays_script [of "[]" 0 "[Rd 3 0, Rd 2 0]" "[]"] by auto
qed

section \<open>The controller\<close>

text \<open>Registers whose values do not depend on their history: card enabled, an access finished, the byte \<open>v\<close>.\<close>

definition finishing :: "'h bus \<Rightarrow> nat \<Rightarrow> u8 \<Rightarrow> bool" where
  "finishing B slot v \<longleftrightarrow> (\<forall>h. fst (inl B PCMCIA_CTRL h) AND PCR_OE ! slot \<noteq> 0 \<and> fst (inl B PCMCIA_STS h) = PC_APFI \<and>
     fst (inl B MIS_ISR h) = MARS_PCMCIA_INT \<and> fst (inl B PCMCIA_CMDFF h) AND 0xFF = ucast v)"

lemma ucast_byte: "(ucast (ucast (v :: u8) :: u32) :: u8) = v"
  by (rule bit_word_eqI) (simp add: bit_simps)

lemma rtd_inl_fst: "fst (rtd_inl B r s) = fst (inl B r (hw s))"
  by (simp add: rtd_inl_def split: prod.split)

lemma isr_finished:
  assumes "finishing B slot v"
  shows "\<exists>s'. rtdpc_isr B s = Some (True, s') \<and> runing_state s' = PCMCIA_ACCESS_OK"
proof -
  obtain e s1 m s2 where i: "rtd_inl B PCMCIA_STS s = (e, s1)" "rtd_inl B MIS_ISR s1 = (m, s2)" by fastforce
  have "e = PC_APFI" "m = MARS_PCMCIA_INT" using rtd_inl_fst [of B PCMCIA_STS s] rtd_inl_fst [of B MIS_ISR s1] i assms by (simp_all add: finishing_def)
  then show ?thesis by (simp add: rtdpc_isr_def i PCII_PCRI_def PII_def Let_def)
qed

lemma do_cmd_finished:
  assumes fin: "finishing B slot v" and slot: "slot < 2" and idle: "runing_state s = PCMCIA_IDEL"
    and e: "\<And>h. early B h = lost" "\<And>h. irqs B h = (if lost then 0 else 1)"
  shows "\<exists>s'. rtdpc_do_cmd B cmd slot s = Some (if lost then R_ERR_FAILED else R_ERR_SUCCESS, s')"
proof -
  obtain c s1 where s1: "rtd_inl B PCMCIA_CTRL s = (c, s1)" by fastforce
  have c: "c AND PCR_OE ! slot \<noteq> 0" "runing_state s1 = PCMCIA_IDEL"
    using rtd_inl_fst [of B PCMCIA_CTRL s] s1 fin rtd_inl_runing [OF s1] idle by (simp_all add: finishing_def)
  define s2 where "s2 = rtd_outl B PCMCIA_STS (PC_AFI OR PC_APFI) s1"
  obtain d s3 where s3: "rtd_inl B PCMCIA_CTRL s2 = (d, s3)" by fastforce
  define s4 where "s4 = rtd_outl B PCMCIA_CMDFF cmd (rtd_outl B PCMCIA_CTRL (d OR PC_CE1 ! slot OR PC_AFI OR PC_APFI) s3)"
  obtain s5 where s5: "(if early B (hw s4) then map_option snd (rtdpc_isr B s4) else Some s4) = Some s5"
    using if_Some [of "map_option snd (rtdpc_isr B s4)"] isr_total [of B s4] by (metis option.map(2))
  obtain s6 where s6: "wait_access B (irqs B (hw s5)) (s5\<lparr>runing_state := PCMCIA_RUNING\<rparr>) = Some s6"
      "runing_state s6 = (if lost then PCMCIA_RUNING else PCMCIA_ACCESS_OK)"
    using isr_finished [OF fin, of "s5\<lparr>runing_state := PCMCIA_RUNING\<rparr>"] e(2) by (cases lost) auto
  have r: "fst (access_result B s6) = (if lost then R_ERR_FAILED else R_ERR_SUCCESS)" using s6(2) by (simp add: access_result_def)
  obtain s7 where s7: "access_result B s6 = (if lost then R_ERR_FAILED else R_ERR_SUCCESS, s7)" using r by (metis prod.collapse)
  obtain f s8 where s8: "rtd_inl B PCMCIA_CTRL (s7\<lparr>runing_state := PCMCIA_IDEL\<rparr>) = (f, s8)" by fastforce
  show ?thesis
    unfolding rtdpc_do_cmd_def s1 Let_def prod.case s2_def [symmetric] s3 s4_def [symmetric] s5 bind.bind_lunit s6(1) s7 s8 using slot c by simp
qed

text \<open>
  A read returns the byte of the card when the interrupt that reports its end comes while it is waited for. When it
  comes before the driver has noted that a command runs, that note overwrites the report, and the read returns 0.
\<close>

theorem pc_read_race:
  assumes "finishing B slot v" "slot < 2" "runing_state s = PCMCIA_IDEL" "\<And>h. early B h = lost" "\<And>h. irqs B h = (if lost then 0 else 1)"
  shows "\<exists>s'. rtdpc_readMem B addr mode slot s = Some (if lost then 0 else v, s')"
proof -
  let ?cmd = "PC_CT 0 OR PC_AT (of_nat mode) OR PC_PA (of_nat addr)"
  obtain s1 where s1: "rtdpc_do_cmd B ?cmd slot s = Some (if lost then R_ERR_FAILED else R_ERR_SUCCESS, s1)"
    using do_cmd_finished [OF assms] by blast
  obtain w s2 where w: "rtd_inl B PCMCIA_CMDFF s1 = (w, s2)" by fastforce
  have "(ucast (w AND 0xFF) :: u8) = v"
    using rtd_inl_fst [of B PCMCIA_CMDFF s1] w assms(1) by (simp add: finishing_def ucast_byte)
  then show ?thesis using s1 w assms(2) by (simp add: rtdpc_readMem_def)
qed

definition demo_bus :: "bool \<Rightarrow> unit bus" where
  "demo_bus lost = \<lparr>inl = (\<lambda>r h. (case r of PCMCIA_CTRL \<Rightarrow> 0x01000000 | PCMCIA_STS \<Rightarrow> 1 | MIS_ISR \<Rightarrow> 0x200000 | _ \<Rightarrow> 0x45, h)), outl = (\<lambda>r v h. h),
     irqs = (\<lambda>h. if lost then 0 else 1), early = (\<lambda>h. lost), jiffies = (\<lambda>h. 0), msleep = (\<lambda>k h. h)\<rparr>"

theorem pc_read_race_witness:
  "(\<exists>s'. rtdpc_readMem (demo_bus False) 0 1 0 idle_pc = Some (0x45, s')) \<and> (\<exists>s'. rtdpc_readMem (demo_bus True) 0 1 0 idle_pc = Some (0, s'))"
proof -
  have f: "finishing (demo_bus b) 0 0x45" for b by (simp add: finishing_def demo_bus_def PCR_OE_def)
  show ?thesis
    using pc_read_race [OF f [of False], of idle_pc False 0 1] pc_read_race [OF f [of True], of idle_pc True 0 1]
    by (simp add: demo_bus_def idle_pc_def)
qed

text \<open>What a call of the interrupt handler adds to the calls made.\<close>

lemma rtd_calls [simp]: "calls (snd (rtd_inl B r s)) = calls s" "calls (rtd_outl B r v s) = calls s"
    "p_ci_handler (snd (rtd_inl B r s)) = p_ci_handler s" "p_ci_handler (rtd_outl B r v s) = p_ci_handler s"
  by (simp_all add: rtd_inl_def rtd_outl_def split: prod.split)

lemma rtd_inl_calls: "rtd_inl B r s = (v, s') \<Longrightarrow> calls s' = calls s \<and> p_ci_handler s' = p_ci_handler s"
  using rtd_calls(1,3) [of B r s] by simp

lemma port_enable_calls: "slot < 2 \<Longrightarrow> \<exists>r s'. rtdpc_port_enable B slot b s = Some (r, s') \<and> calls s' = calls s \<and> p_ci_handler s' = p_ci_handler s"
  by (cases b; cases "rtd_inl B PCMCIA_STS s"; cases "rtd_inl B PCMCIA_CTRL s"; cases "rtd_inl B PCMCIA_CTRL (snd (rtd_inl B PCMCIA_STS s))")
    (auto simp: rtdpc_port_enable_def rtdpc_card_status_def PRES_def dest!: rtd_inl_calls)

lemma card_change_calls:
  assumes "slot < 2" "p_ci_handler s \<noteq> None"
  shows "\<exists>s' ty. card_change B slot s = Some s' \<and> calls s' = calls s @ [Camchange slot ty] \<and> p_ci_handler s' = p_ci_handler s"
proof -
  obtain present s1 where s1: "rtdpc_card_status B slot s = Some (present, s1)" "calls s1 = calls s" "p_ci_handler s1 = p_ci_handler s"
    using assms(1) by (cases "rtd_inl B PCMCIA_STS s") (auto simp: rtdpc_card_status_def PRES_def dest: rtd_inl_calls)
  obtain r s2 where s2: "rtdpc_port_enable B slot present s1 = Some (r, s2)" "calls s2 = calls s1" "p_ci_handler s2 = p_ci_handler s1"
    using port_enable_calls [OF assms(1)] by blast
  show ?thesis using s1 s2 assms(2) by (auto simp: card_change_def call_handler_def)
qed

lemma call_handler_calls: "\<exists>cs. calls (if b then call_handler c s else s) = calls s @ cs"
  by (simp add: call_handler_def)

lemma deliver_all_append: "deliver_all K (cs @ ds) s = Option.bind (deliver_all K cs s) (deliver_all K ds)"
  by (induction cs arbitrary: s) (auto split: option.split)

lemma isr_second_card:
  assumes "p_ci_handler p \<noteq> None" "fst (inl B PCMCIA_STS (hw p)) AND PCII_PCRI ! 1 \<noteq> 0" "\<And>h. fst (inl B MIS_ISR h) AND MARS_PCMCIA_INT \<noteq> 0"
  shows "\<exists>p' pre ty rest. rtdpc_isr B p = Some (True, p') \<and> calls p' = calls p @ pre @ Camchange 1 ty # rest \<and> (pre = [] \<or> (\<exists>ty. pre = [Camchange 0 ty]))"
proof -
  obtain e p1 m p2 where i: "rtd_inl B PCMCIA_STS p = (e, p1)" "rtd_inl B MIS_ISR p1 = (m, p2)" by fastforce
  have e: "e AND PCII_PCRI ! 1 \<noteq> 0" "m AND MARS_PCMCIA_INT \<noteq> 0"
    using rtd_inl_fst [of B PCMCIA_STS p] rtd_inl_fst [of B MIS_ISR p1] i assms(2,3) by simp_all
  have c2: "calls p2 = calls p" "p_ci_handler p2 \<noteq> None" using rtd_inl_calls [OF i(1)] rtd_inl_calls [OF i(2)] assms(1) by simp_all
  obtain p3 pre where p3: "(if e AND PCII_PCRI ! 0 \<noteq> 0 then card_change B 0 p2 else Some p2) = Some p3" "calls p3 = calls p @ pre"
      "pre = [] \<or> (\<exists>ty. pre = [Camchange 0 ty])" "p_ci_handler p3 \<noteq> None"
    using card_change_calls [of 0 p2 B] c2 by (cases "e AND PCII_PCRI ! 0 \<noteq> 0") auto
  obtain p4 ty where p4: "card_change B 1 p3 = Some p4" "calls p4 = calls p3 @ [Camchange 1 ty]" using card_change_calls [of 1 p3 B] p3(4) by auto
  define p5 where "p5 = (if e AND PC_APFI \<noteq> 0 then p4\<lparr>runing_state := PCMCIA_ACCESS_OK\<rparr> else p4)"
  define p6 where "p6 = (if e AND PC_AFI \<noteq> 0 then rtdpc_reset B (p5\<lparr>runing_state := PCMCIA_ACCESS_FAIL\<rparr>) else p5)"
  define p7 where "p7 = (if e AND PII ! 0 \<noteq> 0 then call_handler (Frda 0) p6 else p6)"
  define p8 where "p8 = (if e AND PII ! 1 \<noteq> 0 then call_handler (Frda 1) p7 else p7)"
  have "calls p6 = calls p4" by (auto simp: p6_def p5_def rtdpc_reset_def Let_def split: prod.split dest: rtd_inl_calls)
  moreover obtain cs where "calls p7 = calls p6 @ cs" using call_handler_calls unfolding p7_def by blast
  moreover obtain ds where "calls p8 = calls p7 @ ds" using call_handler_calls unfolding p8_def by blast
  moreover have "rtdpc_isr B p = Some (True, rtd_outl B MIS_ISR MARS_PCMCIA_INT (rtd_outl B PCMCIA_STS 0xFF p8))"
    unfolding rtdpc_isr_def i Let_def prod.case p3(1) bind.bind_lunit using e p4(1) by (simp add: p8_def p7_def p6_def p5_def)
  ultimately show ?thesis using p3 p4(2) by auto
qed

text \<open>
  The controller reports changes of both cards, also to a driver configured for one slot: a change of the second card makes
  the driver write behind its array of slots.
\<close>

theorem ci_second_card_overruns:
  assumes "p_ci_handler p \<noteq> None" "fst (inl B PCMCIA_STS (hw p)) AND PCII_PCRI ! 1 \<noteq> 0" "\<And>h. fst (inl B MIS_ISR h) AND MARS_PCMCIA_INT \<noteq> 0"
    "slot_count s = 1"
  shows "\<exists>p'. rtdpc_isr B p = Some (True, p') \<and> deliver_all K (drop (length (calls p)) (calls p')) s = None"
proof -
  obtain p' pre ty rest where p': "rtdpc_isr B p = Some (True, p')" "calls p' = calls p @ pre @ Camchange 1 ty # rest"
      "pre = [] \<or> (\<exists>ty. pre = [Camchange 0 ty])" using isr_second_card [OF assms(1-3)] by blast
  have "slot_count t = 1" if "deliver_all K pre s = Some t" for t
    using that p'(3) assms(4)
    by (auto simp: ci_camchange_irq_def ci_thread_wakeup_def set_ca_def slot_count_def set_slot_def split: Option.bind_splits option.splits)
  then have "deliver_all K (pre @ Camchange 1 ty # rest) s = None"
    by (cases "deliver_all K pre s") (simp_all add: deliver_all_append ci_camchange_irq_def slot_at_def)
  then show ?thesis using p'(1,2) by simp
qed

definition second_bus :: "unit bus" where
  "second_bus = (demo_bus False)\<lparr>inl := (\<lambda>r h. (case r of PCMCIA_STS \<Rightarrow> 0x108 | MIS_ISR \<Rightarrow> 0x200000 | _ \<Rightarrow> 0, h))\<rparr>"

theorem ci_second_card_overruns_witness:
  "\<exists>p'. rtdpc_isr second_bus idle_pc = Some (True, p') \<and> deliver_all (pc_cam second_bus) (calls p') (demo_sys 4 idle_pc) = None"
  using ci_second_card_overruns [of idle_pc second_bus "demo_sys 4 idle_pc" "pc_cam second_bus"]
  by (simp add: idle_pc_def second_bus_def PCII_PCRI_def)

end
