(* ===== verification/Md.thy ===== *)
theory Md
  imports Prelude
begin

text \<open>
  The move-data engine (\<open>arch/mips/realtek-boards/drivers/md.c\<close>): a ring of command words the driver
  fills and the engine consumes, 64-bit command handles compared with a 16-bit hardware counter, and a
  table of 64 copy requests. The engine is hardware: what its registers do while the driver polls
  is the parameter \<open>step\<close>, applied before every read of a polled register. Physical addresses stay far
  below \<open>2 ^ 32\<close> (the memory has at most 512 MB), so ring pointers are natural numbers; the
  counters, lengths and DMA addresses keep their widths. Locks have no effect on a single processor.
\<close>

section \<open>State\<close>

abbreviation (input) MAX_COPY_TASK :: nat where "MAX_COPY_TASK \<equiv> 64"
abbreviation (input) SMQ_COMMAND_ENTRIES :: nat where "SMQ_COMMAND_ENTRIES \<equiv> 4096"
abbreviation (input) MOVE_DATA_SS :: u32 where "MOVE_DATA_SS \<equiv> 0x05"
abbreviation (input) SMQ_CTRL_RUN :: u32 where "SMQ_CTRL_RUN \<equiv> 7"  \<comment> \<open>go, set, swap\<close>

record md_copy_t =
  c_dst :: u32
  c_src :: u32
  c_len :: u32
  c_dir :: bool
  copy_id :: u64
  request_id :: u64
  dma_dst :: u32
  dma_src :: u32

definition zero_copy :: md_copy_t where
  "zero_copy = \<lparr>c_dst = 0, c_src = 0, c_len = 0, c_dir = False, copy_id = 0, request_id = 0, dma_dst = 0, dma_src = 0\<rparr>"

text \<open>The registers of the engine; \<open>SMQ_CNTL_log\<close> records the words written to the control register.\<close>

record smq =
  SMQ_CNTL :: u32
  SMQ_CNTL_log :: "u32 list"
  SMQ_CmdBase :: nat
  SMQ_CmdLimit :: nat
  SMQ_CmdRdptr :: nat
  SMQ_CmdWrptr :: nat
  SMQ_INST_CNT :: u32

text \<open>\<open>CmdBuf\<close> holds the words of the command buffer, \<open>wrptr\<close> is a byte offset into it.\<close>

record md_dev =
  CmdBuf :: "u32 list"
  CmdBase :: nat
  CmdLimit :: nat
  wrptr :: nat
  md_size :: nat
  sw_low :: u32
  sw_high :: u32
  md_state :: nat
  copy_counter :: u64
  finished_copy_counter :: u64
  copy_task :: "md_copy_t list"

text \<open>\<open>unmapped\<close> records the DMA mappings given back, as address and length.\<close>

record md_sys =
  mdev :: md_dev
  hw :: smq
  unmapped :: "(u32 \<times> u32) list"

section \<open>Opening and control\<close>

text \<open>
  \<open>dev\<close> is the device structure left from an earlier open, \<open>alloc\<close> whether a new one can be had; the
  command buffer is at the physical address \<open>addr\<close> with the contents \<open>buf\<close>. \<open>None\<close> is a null device.
\<close>

definition md_dev_zero :: md_dev where
  "md_dev_zero = \<lparr>CmdBuf = [], CmdBase = 0, CmdLimit = 0, wrptr = 0, md_size = 0, sw_low = 0, sw_high = 0, md_state = 0,
     copy_counter = 0, finished_copy_counter = 0, copy_task = replicate MAX_COPY_TASK zero_copy\<rparr>"

definition md_open :: "md_dev option \<Rightarrow> bool \<Rightarrow> nat \<Rightarrow> u32 list \<Rightarrow> smq \<Rightarrow> md_dev option \<times> smq" where
  "md_open dev alloc addr buf h =
     (let h = h\<lparr>SMQ_CNTL_log := SMQ_CNTL_log h @ [6]\<rparr>;
          dev = (case dev of Some d \<Rightarrow> Some d | None \<Rightarrow> if alloc then Some md_dev_zero else None)
      in case dev of
           None \<Rightarrow> (None, h)
         | Some d \<Rightarrow>
             let n = SMQ_COMMAND_ENTRIES * 4;
                 d = d\<lparr>md_size := n, CmdBuf := buf, wrptr := 0, CmdBase := addr, CmdLimit := addr + n\<rparr>
             in (Some d, h\<lparr>SMQ_CmdBase := addr, SMQ_CmdLimit := addr + n, SMQ_CmdRdptr := addr, SMQ_CmdWrptr := addr,
                   SMQ_INST_CNT := 0, SMQ_CNTL_log := SMQ_CNTL_log h @ [SMQ_CTRL_RUN]\<rparr>))"

text \<open>Closing waits for the engine to drain, 302 polls at most; the result says whether it was closed.\<close>

fun md_close_wait :: "nat \<Rightarrow> (smq \<Rightarrow> smq) \<Rightarrow> smq \<Rightarrow> bool \<times> smq" where
  "md_close_wait n step h =
     (let h = step h in
      if SMQ_CmdWrptr h \<noteq> SMQ_CmdRdptr h
      then (case n of 0 \<Rightarrow> (False, h) | Suc n \<Rightarrow> md_close_wait n step h)
      else (True, h))"

declare md_close_wait.simps [simp del]

definition md_close :: "(smq \<Rightarrow> smq) \<Rightarrow> md_dev option \<Rightarrow> smq \<Rightarrow> md_dev option \<times> smq" where
  "md_close step dev h =
     (let (drained, h) = md_close_wait 301 step h
      in if drained then (None, h\<lparr>SMQ_CNTL_log := SMQ_CNTL_log h @ [2]\<rparr>) else (dev, h))"

definition md_check_hardware :: "smq \<Rightarrow> smq" where
  "md_check_hardware h =
     (if SMQ_CNTL h AND 2 = 0 then h\<lparr>SMQ_CNTL_log := SMQ_CNTL_log h @ [SMQ_CTRL_RUN]\<rparr> else h)"

section \<open>Writing commands\<close>

text \<open>The two polling loops: until the engine has drained the ring, and until there is room.\<close>

partial_function (option) wait_drained :: "(smq \<Rightarrow> smq) \<Rightarrow> nat \<Rightarrow> smq \<Rightarrow> smq option" where
  [code]: "wait_drained step writeptr h =
     (let h = step h in if writeptr = SMQ_CmdRdptr h then Some h else wait_drained step writeptr h)"

partial_function (option) wait_space :: "(smq \<Rightarrow> smq) \<Rightarrow> nat \<Rightarrow> nat \<Rightarrow> nat \<Rightarrow> smq \<Rightarrow> smq option" where
  [code]: "wait_space step writeptr nLen n h =
     (let h = step h;
          readptr = (if SMQ_CmdRdptr h \<le> writeptr then SMQ_CmdRdptr h + n else SMQ_CmdRdptr h)
      in if writeptr + nLen < readptr then Some h else wait_space step writeptr nLen n h)"

fun write_words :: "nat \<Rightarrow> u32 list \<Rightarrow> nat \<Rightarrow> u32 list \<Rightarrow> nat \<times> u32 list" where
  "write_words n [] p buf = (p, buf)"
| "write_words n (w # ws) p buf =
     write_words n ws (if p + 4 \<ge> n then 0 else p + 4) (buf[p div 4 := w])"

definition WriteCmd :: "(smq \<Rightarrow> smq) \<Rightarrow> u32 list \<Rightarrow> md_sys \<Rightarrow> (u64 \<times> md_sys) option" where
  "WriteCmd step ws s = do {
     let d = mdev s;
     let h = md_check_hardware (hw s);
     let nLen = 4 * length ws;
     let writeptr = SMQ_CmdWrptr h;
     h \<leftarrow> (if wrptr d + nLen \<ge> md_size d then wait_drained step writeptr h else Some h);
     h \<leftarrow> wait_space step writeptr nLen (md_size d) h;
     let (p, buf) = write_words (md_size d) ws (wrptr d) (CmdBuf d);
     let wr = (if wrptr d + nLen \<ge> md_size d then wrptr d + nLen - md_size d else wrptr d + nLen);
     let low = sw_low d + 1;
     let high = (if low = 0 then sw_high d + 1 else sw_high d);
     Some (push_bit 32 (ucast high) OR ucast low,
       s\<lparr>mdev := d\<lparr>CmdBuf := buf, wrptr := wr, sw_low := low, sw_high := high\<rparr>, hw := h\<lparr>SMQ_CmdWrptr := CmdBase d + p\<rparr>\<rparr>)
   }"

definition md_write :: "(smq \<Rightarrow> smq) \<Rightarrow> u32 list \<Rightarrow> md_sys \<Rightarrow> (u64 \<times> md_sys) option" where
  "md_write step ws s = WriteCmd step ws s"

text \<open>The addresses are in the unmapped kernel segment, where physical addresses are offsets.\<close>

definition virt_to_phys :: "u32 \<Rightarrow> u32" where
  "virt_to_phys a = a - 0x80000000"

definition md_memset :: "(smq \<Rightarrow> smq) \<Rightarrow> u32 \<Rightarrow> u8 \<Rightarrow> u32 \<Rightarrow> md_sys \<Rightarrow> (u64 \<times> md_sys) option" where
  "md_memset step lpDst byte len s = md_write step [MOVE_DATA_SS OR push_bit 6 1, virt_to_phys lpDst, ucast byte, len] s"

section \<open>Completion\<close>

definition md_checkfinish :: "(smq \<Rightarrow> smq) \<Rightarrow> u64 \<Rightarrow> md_sys \<Rightarrow> bool \<times> md_sys" where
  "md_checkfinish step handle s =
     (let sw_counter = (ucast handle :: u32) AND 0xFFFF in
      if handle = 0 then (True, s)
      else
        let h = step (hw s);
            s = s\<lparr>hw := h\<rparr>;
            hw_counter = SMQ_INST_CNT h AND 0xFFFF
        in if hw_counter \<ge> sw_counter \<and> hw_counter - sw_counter < 0x8000 then (True, s)
           else if hw_counter < sw_counter \<and> hw_counter + 0x10000 - sw_counter < 0x8000 then (True, s)
           else (False, s\<lparr>hw := md_check_hardware h\<rparr>))"

text \<open>The slot of a request in the table.\<close>

definition copy_slot :: "u64 \<Rightarrow> nat" where
  "copy_slot n = unat n mod MAX_COPY_TASK"

definition md_release_copy_request :: "nat \<Rightarrow> md_sys \<Rightarrow> md_sys" where
  "md_release_copy_request i s =
     (let req = copy_task (mdev s) ! i in
      s\<lparr>unmapped := (if request_id req \<noteq> 0
                      then unmapped s @ [(dma_src req, c_len req), (dma_dst req, c_len req)] else unmapped s),
        mdev := (mdev s)\<lparr>copy_task := (copy_task (mdev s))[i := zero_copy]\<rparr>\<rparr>)"

lemma md_checkfinish_mdev [simp]:
  "mdev (snd (md_checkfinish step handle s)) = mdev s" "unmapped (snd (md_checkfinish step handle s)) = unmapped s"
  by (simp_all add: md_checkfinish_def Let_def)

lemma md_release_counters [simp]:
  "finished_copy_counter (mdev (md_release_copy_request i s)) = finished_copy_counter (mdev s)"
  "copy_counter (mdev (md_release_copy_request i s)) = copy_counter (mdev s)"
  by (simp_all add: md_release_copy_request_def Let_def)

lemma unat_Suc_below: "(a::u64) < b \<Longrightarrow> unat (a + 1) = unat a + 1"
proof -
  assume "a < b"
  then have "unat a < unat b" by (simp add: word_less_nat_alt)
  moreover have "unat b < 2 ^ LENGTH(64)" by (rule unsigned_less)
  ultimately show ?thesis by (simp add: unat_word_ariths)
qed

function md_check_copy_tasks :: "(smq \<Rightarrow> smq) \<Rightarrow> md_sys \<Rightarrow> md_sys" where
  "md_check_copy_tasks step s =
     (if finished_copy_counter (mdev s) < copy_counter (mdev s) then
        let slot = copy_slot (finished_copy_counter (mdev s));
            (fin, s) = md_checkfinish step (request_id (copy_task (mdev s) ! slot)) s
        in if \<not> fin then s
           else let s = md_release_copy_request slot s
                in md_check_copy_tasks step
                     (s\<lparr>mdev := (mdev s)\<lparr>finished_copy_counter := finished_copy_counter (mdev s) + 1\<rparr>\<rparr>)
      else s)"
  by pat_completeness auto

termination
proof (relation "measure (\<lambda>(step, s). unat (copy_counter (mdev s)) - unat (finished_copy_counter (mdev s)))")
  fix step s slot p fin s' s''
  assume a: "finished_copy_counter (mdev s) < copy_counter (mdev s)"
    "p = md_checkfinish step (request_id (copy_task (mdev s) ! slot)) s" "(fin, s') = p"
    "s'' = md_release_copy_request slot s'"
  have "mdev s' = mdev s" using md_checkfinish_mdev(1) [of step _ s] a(2,3) by (metis snd_conv)
  then show "((step, s''\<lparr>mdev := (mdev s'')\<lparr>finished_copy_counter := finished_copy_counter (mdev s'') + 1\<rparr>\<rparr>), (step, s))
      \<in> measure (\<lambda>(step, s). unat (copy_counter (mdev s)) - unat (finished_copy_counter (mdev s)))"
    using a(1) unat_Suc_below [OF a(1)] by (simp add: a(4) word_less_nat_alt)
qed simp

declare md_check_copy_tasks.simps [simp del]

section \<open>Copies\<close>

definition md_alloc_copy_request ::
  "(smq \<Rightarrow> smq) \<Rightarrow> u32 \<Rightarrow> u32 \<Rightarrow> u32 \<Rightarrow> bool \<Rightarrow> md_sys \<Rightarrow> nat option \<times> md_sys" where
  "md_alloc_copy_request step dst src len dir s =
     (let s = md_check_copy_tasks step s; d = mdev s in
      if md_state d = 1 then (None, s)
      else
        let i = copy_slot (copy_counter d) in
        if request_id (copy_task d ! i) = 0 then
          let req = (copy_task d ! i)\<lparr>c_dst := dst, c_src := src, c_len := len, c_dir := dir,
                      dma_dst := virt_to_phys dst, dma_src := virt_to_phys src, copy_id := copy_counter d\<rparr>
          in (Some i, s\<lparr>mdev := d\<lparr>copy_task := (copy_task d)[i := req], copy_counter := copy_counter d + 1\<rparr>\<rparr>)
        else (None, s))"

text \<open>
  The commands of a copy. A length that the engine mishandles (8 more than a multiple of 256 behind
  the next 8-byte boundary of the source) is split into 8 bytes and the rest.
\<close>

definition copy_chunk :: "u32 \<Rightarrow> u32 \<Rightarrow> u32" where
  "copy_chunk addrSrc len =
     (let align = (8 - (addrSrc AND 0x7)) AND 0x7 in if (len - align) AND 0xFF = 8 then 8 else len)"

definition copy_word :: "bool \<Rightarrow> u32" where
  "copy_word dir = (if \<not> dir then MOVE_DATA_SS OR push_bit 7 1 else MOVE_DATA_SS)"

definition set_request_id :: "nat \<Rightarrow> u64 \<Rightarrow> md_sys \<Rightarrow> md_sys" where
  "set_request_id i n s =
     s\<lparr>mdev := (mdev s)\<lparr>copy_task := (copy_task (mdev s))[i := (copy_task (mdev s) ! i)\<lparr>request_id := n\<rparr>]\<rparr>\<rparr>"

partial_function (option) copy_loop ::
  "(smq \<Rightarrow> smq) \<Rightarrow> nat \<Rightarrow> bool \<Rightarrow> u32 \<Rightarrow> u32 \<Rightarrow> u32 \<Rightarrow> md_sys \<Rightarrow> md_sys option" where
  [code]: "copy_loop step i dir len addrDst addrSrc s =
     (if len = 0 then Some s
      else let tmp = copy_chunk addrSrc len in
        Option.bind (md_write step [copy_word dir, addrDst, addrSrc, tmp] s) (\<lambda>(n, s).
        copy_loop step i dir (len - tmp) (addrDst + tmp) (addrSrc + tmp) (set_request_id i n s)))"

definition md_copy_start ::
  "(smq \<Rightarrow> smq) \<Rightarrow> u32 \<Rightarrow> u32 \<Rightarrow> u32 \<Rightarrow> bool \<Rightarrow> md_sys \<Rightarrow> (u64 \<times> md_sys) option" where
  "md_copy_start step dst src len dir s =
     (case md_alloc_copy_request step dst src len dir s of
        (None, s) \<Rightarrow> Some (0, s)
      | (Some i, s) \<Rightarrow> do {
          let req = copy_task (mdev s) ! i;
          s \<leftarrow> copy_loop step i (c_dir req) len (dma_dst req) (dma_src req) s;
          Some (copy_id (copy_task (mdev s) ! i), s)
        })"

partial_function (option) sync_wait :: "(smq \<Rightarrow> smq) \<Rightarrow> u64 \<Rightarrow> md_sys \<Rightarrow> md_sys option" where
  [code]: "sync_wait step n s =
     (case md_checkfinish step n s of (fin, s) \<Rightarrow> if fin then Some s else sync_wait step n s)"

definition md_copy_sync :: "(smq \<Rightarrow> smq) \<Rightarrow> u64 \<Rightarrow> md_sys \<Rightarrow> (int \<times> md_sys) option" where
  "md_copy_sync step handle s =
     (if handle \<ge> finished_copy_counter (mdev s) then do {
        let n = request_id (copy_task (mdev s) ! copy_slot handle);
        s \<leftarrow> sync_wait step n s;
        Some (0, md_check_copy_tasks step s)
      }
      else Some (0, s))"

definition md_memcpy :: "(smq \<Rightarrow> smq) \<Rightarrow> u32 \<Rightarrow> u32 \<Rightarrow> u32 \<Rightarrow> bool \<Rightarrow> md_sys \<Rightarrow> (int \<times> md_sys) option" where
  "md_memcpy step lpDst lpSrc len forward s = do {
     (mdh, s) \<leftarrow> md_copy_start step lpDst lpSrc len forward s;
     if mdh \<noteq> 0 then do { (_, s) \<leftarrow> md_copy_sync step mdh s; Some (0, s) }
     else Some (- 1, s)
   }"

section \<open>Suspend and resume\<close>

partial_function (option) suspend_loop :: "(smq \<Rightarrow> smq) \<Rightarrow> md_sys \<Rightarrow> md_sys option" where
  [code]: "suspend_loop step s =
     (if finished_copy_counter (mdev s) < copy_counter (mdev s) then
        let slot = copy_slot (finished_copy_counter (mdev s)) in
        case md_checkfinish step (request_id (copy_task (mdev s) ! slot)) s of (fin, s) \<Rightarrow>
          if \<not> fin then suspend_loop step s
          else let s = md_release_copy_request slot s
               in suspend_loop step (s\<lparr>mdev := (mdev s)\<lparr>finished_copy_counter := finished_copy_counter (mdev s) + 1\<rparr>\<rparr>)
      else Some s)"

definition md_drv_suspend :: "(smq \<Rightarrow> smq) \<Rightarrow> md_sys \<Rightarrow> (int \<times> md_sys) option" where
  "md_drv_suspend step s = do {
     s \<leftarrow> suspend_loop step (s\<lparr>mdev := (mdev s)\<lparr>md_state := 1\<rparr>\<rparr>);
     let h = step (hw s);
     Some (0, s\<lparr>mdev := (mdev s)\<lparr>sw_low := SMQ_INST_CNT h\<rparr>, hw := h\<rparr>)
   }"

definition md_drv_resume :: "md_sys \<Rightarrow> int \<times> md_sys" where
  "md_drv_resume s =
     (let d = (mdev s)\<lparr>md_state := 0\<rparr>; h = (hw s)\<lparr>SMQ_INST_CNT := sw_low d\<rparr>
      in (0, s\<lparr>mdev := d, hw := md_check_hardware h\<rparr>))"

end
