(* ===== verification/Md_Props.thy ===== *)
theory Md_Props
  imports Md
begin

text \<open>
  The properties of the move-data engine driver: the command ring loses and reorders nothing, command
  handles are compared correctly across the wrap of the hardware counter, a copy is issued as
  consecutive commands the engine handles, and finished copy requests are released in order.
\<close>

section \<open>The command ring\<close>

definition ring_dist :: "nat \<Rightarrow> nat \<Rightarrow> nat" where
  "ring_dist r w = (w + 4096 - r) mod 4096"

definition pending_of :: "u32 list \<Rightarrow> nat \<Rightarrow> nat \<Rightarrow> u32 list" where
  "pending_of buf r w = map (\<lambda>j. buf ! ((r + j) mod 4096)) [0..<ring_dist r w]"

text \<open>The driver and the engine agree on a ring with read index \<open>r\<close> and write index \<open>w\<close>.\<close>

definition md_ring :: "md_sys \<Rightarrow> nat \<Rightarrow> nat \<Rightarrow> bool" where
  "md_ring s r w \<longleftrightarrow> md_size (mdev s) = 16384 \<and> length (CmdBuf (mdev s)) = 4096 \<and> r < 4096 \<and> w < 4096 \<and>
     wrptr (mdev s) = 4 * w \<and> SMQ_CmdRdptr (hw s) = CmdBase (mdev s) + 4 * r \<and>
     SMQ_CmdWrptr (hw s) = CmdBase (mdev s) + 4 * w"

definition pending :: "md_sys \<Rightarrow> nat \<Rightarrow> u32 list" where
  "pending s r = pending_of (CmdBuf (mdev s)) r (wrptr (mdev s) div 4)"

text \<open>
  What the driver relies on: polled, the engine leaves the write pointer alone, moves the read pointer
  towards it by whole words without passing it, and reaches it in the end.
\<close>

definition smq_moves :: "nat \<Rightarrow> (smq \<Rightarrow> smq) \<Rightarrow> bool" where
  "smq_moves base step \<longleftrightarrow> (\<forall>h r w. r < 4096 \<and> w < 4096 \<and> SMQ_CmdRdptr h = base + 4 * r \<and> SMQ_CmdWrptr h = base + 4 * w \<longrightarrow>
     SMQ_CmdWrptr (step h) = SMQ_CmdWrptr h \<and>
     (\<exists>k \<le> ring_dist r w. SMQ_CmdRdptr (step h) = base + 4 * ((r + k) mod 4096)))"

definition smq_drains :: "nat \<Rightarrow> (smq \<Rightarrow> smq) \<Rightarrow> bool" where
  "smq_drains base step \<longleftrightarrow> (\<forall>h r w. r < 4096 \<and> w < 4096 \<and> SMQ_CmdRdptr h = base + 4 * r \<and> SMQ_CmdWrptr h = base + 4 * w \<longrightarrow>
     (\<exists>n. SMQ_CmdRdptr ((step ^^ n) h) = SMQ_CmdWrptr h))"

lemma ring_dist_alt: "r < 4096 \<Longrightarrow> w < 4096 \<Longrightarrow> ring_dist r w = (if r \<le> w then w - r else w + 4096 - r)"
  unfolding ring_dist_def by (rule ring_distance)

lemma ring_dist_adv:
  assumes "r < 4096" "w < 4096" "k \<le> ring_dist r w"
  shows "ring_dist ((r + k) mod 4096) w = ring_dist r w - k"
proof -
  have k: "k < 4096" using assms by (simp add: ring_dist_alt split: if_splits)
  have m: "(r + k) mod 4096 = (if r + k < 4096 then r + k else r + k - 4096)" by (rule ring_pos_lt) (use assms k in auto)
  show ?thesis using assms k unfolding m by (auto simp: ring_dist_alt split: if_splits)
qed

lemma pending_of_adv:
  assumes "r < 4096" "w < 4096" "k \<le> ring_dist r w"
  shows "pending_of buf ((r + k) mod 4096) w = drop k (pending_of buf r w)"
  unfolding pending_of_def ring_dist_adv [OF assms] drop_map_upt [OF assms(3)] by (simp only: ring_pos_add)

lemma length_pending_of [simp]: "length (pending_of buf r w) = ring_dist r w"
  by (simp add: pending_of_def)

lemma write_words_spec:
  assumes "w < 4096" "length buf = 4096" "length ws \<le> 4096" "write_words 16384 ws (4 * w) buf = (p, buf')"
  shows "p = 4 * ((w + length ws) mod 4096)" "length buf' = 4096"
    "j < 4096 \<Longrightarrow> buf' ! ((w + j) mod 4096) = (if j < length ws then ws ! j else buf ! ((w + j) mod 4096))"
proof -
  have "p = 4 * ((w + length ws) mod 4096) \<and> length buf' = 4096 \<and>
    (\<forall>j < 4096. buf' ! ((w + j) mod 4096) = (if j < length ws then ws ! j else buf ! ((w + j) mod 4096)))"
    using assms
  proof (induction ws arbitrary: w buf)
    case (Cons x ws)
    let ?w = "(w + 1) mod 4096"
    have e: "(if 4 * w + 4 \<ge> 16384 then 0 else 4 * w + 4) = 4 * ?w"
      using Cons.prems(1) by (cases "w = 4095") auto
    have r: "write_words 16384 ws (4 * ?w) (buf[w := x]) = (p, buf')" using Cons.prems(4) e by simp
    have ih: "p = 4 * ((?w + length ws) mod 4096)" "length buf' = 4096"
      "\<And>j. j < 4096 \<Longrightarrow> buf' ! ((?w + j) mod 4096) = (if j < length ws then ws ! j else buf[w := x] ! ((?w + j) mod 4096))"
      using Cons.IH [OF _ _ _ r] Cons.prems by auto
    have sh: "(?w + j) mod 4096 = (w + Suc j) mod 4096" for j by (simp add: mod_simps)
    have at0: "buf' ! w = x"
    proof -
      have "(?w + 4095) mod 4096 = w" using Cons.prems(1) by (simp add: mod_simps)
      then show ?thesis using ih(3) [of 4095] Cons.prems by (simp split: if_splits)
    qed
    have "buf' ! ((w + j) mod 4096) = (if j < length (x # ws) then (x # ws) ! j else buf ! ((w + j) mod 4096))"
      if "j < 4096" for j
    proof (cases j)
      case 0
      then show ?thesis using at0 Cons.prems(1) by simp
    next
      case (Suc i)
      have "(w + Suc i) mod 4096 \<noteq> w"
        using ring_pos_inj [of w "Suc i" 4096 0] that Suc Cons.prems(1) by auto
      then show ?thesis using ih(3) [of i] sh [of i] Suc that by simp
    qed
    moreover have "p = 4 * ((w + length (x # ws)) mod 4096)" using ih(1) sh [of "length ws"] by simp
    ultimately show ?case using ih(2) by blast
  qed auto
  then show "p = 4 * ((w + length ws) mod 4096)" "length buf' = 4096"
    "j < 4096 \<Longrightarrow> buf' ! ((w + j) mod 4096) = (if j < length ws then ws ! j else buf ! ((w + j) mod 4096))" by auto
qed

lemma pending_of_write:
  assumes r: "r < 4096" and w: "w < 4096" and fit: "ring_dist r w + length ws < 4096"
    and b: "\<And>j. j < 4096 \<Longrightarrow> buf' ! ((w + j) mod 4096) = (if j < length ws then ws ! j else buf ! ((w + j) mod 4096))"
  shows "pending_of buf' r ((w + length ws) mod 4096) = pending_of buf r w @ ws"
proof -
  have w': "w = (r + ring_dist r w) mod 4096"
    using r w by (auto simp: ring_dist_alt)
  have d: "ring_dist r ((w + length ws) mod 4096) = ring_dist r w + length ws"
  proof -
    have "length ws < 4096" using fit by simp
    then have m: "(w + length ws) mod 4096 = (if w + length ws < 4096 then w + length ws else w + length ws - 4096)"
      using w by (intro ring_pos_lt)
    show ?thesis using fit r w unfolding m by (auto simp: ring_dist_alt split: if_splits)
  qed
  have old: "buf' ! ((r + j) mod 4096) = buf ! ((r + j) mod 4096)" if "j < ring_dist r w" for j
  proof -
    let ?i = "4096 - ring_dist r w + j"
    have "(w + ?i) mod 4096 = (r + (ring_dist r w + ?i)) mod 4096" by (subst w') (rule ring_pos_add)
    also have "ring_dist r w + ?i = j + 4096" using fit by simp
    finally have e: "(w + ?i) mod 4096 = (r + j) mod 4096" by (simp add: add.assoc [symmetric])
    have "?i < 4096" "\<not> ?i < length ws" using that fit by auto
    then show ?thesis using b [of ?i] unfolding e by simp
  qed
  have new: "buf' ! ((r + (ring_dist r w + j)) mod 4096) = ws ! j" if "j < length ws" for j
    using b [of j] that fit ring_pos_add [of r "ring_dist r w" 4096 j] w' by simp
  show ?thesis unfolding pending_of_def d map_upt_append
  proof (rule arg_cong2 [where f = append])
    show "map (\<lambda>j. buf' ! ((r + j) mod 4096)) [0..<ring_dist r w] = map (\<lambda>j. buf ! ((r + j) mod 4096)) [0..<ring_dist r w]"
      using old by simp
    show "map (\<lambda>k. buf' ! ((r + (ring_dist r w + k)) mod 4096)) [0..<length ws] = ws"
      using new by (intro nth_equalityI) simp_all
  qed
qed

section \<open>Polling\<close>

lemma poll_step:
  assumes "smq_moves base step" "r < 4096" "w < 4096" "SMQ_CmdRdptr h = base + 4 * r" "SMQ_CmdWrptr h = base + 4 * w"
  obtains k where "k \<le> ring_dist r w" "SMQ_CmdRdptr (step h) = base + 4 * ((r + k) mod 4096)" "SMQ_CmdWrptr (step h) = base + 4 * w"
proof -
  have "SMQ_CmdWrptr (step h) = SMQ_CmdWrptr h \<and> (\<exists>k \<le> ring_dist r w. SMQ_CmdRdptr (step h) = base + 4 * ((r + k) mod 4096))"
    using assms(1) [unfolded smq_moves_def, rule_format, of r w h] assms(2-5) by simp
  then show ?thesis using that assms(5) by auto
qed

lemma wait_space_returns:
  assumes mv: "smq_moves base step" and h: "r < 4096" "w < 4096" "SMQ_CmdRdptr h = base + 4 * r" "SMQ_CmdWrptr h = base + 4 * w"
    and n: "SMQ_CmdRdptr ((step ^^ n) h) = base + 4 * w" and len: "m < 4096"
  shows "\<exists>h' k. wait_space step (base + 4 * w) (4 * m) 16384 h = Some h' \<and> k \<le> ring_dist r w \<and>
    SMQ_CmdRdptr h' = base + 4 * ((r + k) mod 4096) \<and> SMQ_CmdWrptr h' = base + 4 * w \<and> ring_dist r w - k + m < 4096"
  using h n
proof (induction n arbitrary: h r)
  case (0 h r)
  obtain k where k: "k \<le> ring_dist r w" "SMQ_CmdRdptr (step h) = base + 4 * ((r + k) mod 4096)" "SMQ_CmdWrptr (step h) = base + 4 * w"
    using poll_step [OF mv 0(1-4)] by blast
  have "r = w" using 0 by simp
  then have "k = 0" "ring_dist r w = 0" using k(1) 0(1) by (simp_all add: ring_dist_alt)
  then show ?case using k \<open>r = w\<close> len 0(1) by (subst wait_space.simps) (auto simp: Let_def)
next
  case (Suc n h r)
  obtain k where k: "k \<le> ring_dist r w" "SMQ_CmdRdptr (step h) = base + 4 * ((r + k) mod 4096)" "SMQ_CmdWrptr (step h) = base + 4 * w"
    using poll_step [OF mv Suc.prems(1-4)] by blast
  let ?r = "(r + k) mod 4096"
  have r: "?r < 4096" by simp
  have d: "ring_dist ?r w = ring_dist r w - k" by (rule ring_dist_adv [OF Suc.prems(1,2) k(1)])
  define room where "room = (base + 4 * w + 4 * m < (if SMQ_CmdRdptr (step h) \<le> base + 4 * w then SMQ_CmdRdptr (step h) + 16384 else SMQ_CmdRdptr (step h)))"
  have iff: "room \<longleftrightarrow> ring_dist ?r w + m < 4096"
    using r Suc.prems(2) unfolding room_def k(2) ring_dist_alt [OF r Suc.prems(2)] by auto
  have w: "wait_space step (base + 4 * w) (4 * m) 16384 h =
      (if room then Some (step h) else wait_space step (base + 4 * w) (4 * m) 16384 (step h))"
    by (subst wait_space.simps) (simp add: Let_def room_def)
  show ?case
  proof (cases room)
    case True
    then show ?thesis using w k iff d by auto
  next
    case False
    have "SMQ_CmdRdptr ((step ^^ n) (step h)) = base + 4 * w" using Suc.prems(5) by (simp add: funpow_swap1)
    from Suc.IH [OF r Suc.prems(2) k(2,3) this] obtain h' k' where
      h': "wait_space step (base + 4 * w) (4 * m) 16384 (step h) = Some h'" "k' \<le> ring_dist ?r w"
      "SMQ_CmdRdptr h' = base + 4 * ((?r + k') mod 4096)" "SMQ_CmdWrptr h' = base + 4 * w" "ring_dist ?r w - k' + m < 4096" by blast
    have "SMQ_CmdRdptr h' = base + 4 * ((r + (k + k')) mod 4096)" using h'(3) by (simp only: ring_pos_add)
    moreover have "k + k' \<le> ring_dist r w" "ring_dist r w - (k + k') + m < 4096" using h'(2,5) d k(1) by auto
    ultimately show ?thesis using w False h'(1,4) by auto
  qed
qed

lemma wait_drained_returns:
  assumes mv: "smq_moves base step" and h: "r < 4096" "w < 4096" "SMQ_CmdRdptr h = base + 4 * r" "SMQ_CmdWrptr h = base + 4 * w"
    and n: "SMQ_CmdRdptr ((step ^^ n) h) = base + 4 * w"
  shows "\<exists>h'. wait_drained step (base + 4 * w) h = Some h' \<and> SMQ_CmdRdptr h' = base + 4 * w \<and> SMQ_CmdWrptr h' = base + 4 * w"
  using h n
proof (induction n arbitrary: h r)
  case (0 h r)
  obtain k where k: "k \<le> ring_dist r w" "SMQ_CmdRdptr (step h) = base + 4 * ((r + k) mod 4096)" "SMQ_CmdWrptr (step h) = base + 4 * w"
    using poll_step [OF mv 0(1-4)] by blast
  have "r = w" using 0 by simp
  then have "k = 0" using k(1) 0(1) by (simp add: ring_dist_alt)
  then show ?case using k \<open>r = w\<close> 0(1) by (subst wait_drained.simps) (auto simp: Let_def)
next
  case (Suc n h r)
  obtain k where k: "k \<le> ring_dist r w" "SMQ_CmdRdptr (step h) = base + 4 * ((r + k) mod 4096)" "SMQ_CmdWrptr (step h) = base + 4 * w"
    using poll_step [OF mv Suc.prems(1-4)] by blast
  have "SMQ_CmdRdptr ((step ^^ n) (step h)) = base + 4 * w" using Suc.prems(5) by (simp add: funpow_swap1)
  from Suc.IH [OF _ Suc.prems(2) k(2,3) this] show ?case using k(3)
    by (subst wait_drained.simps) (auto simp: Let_def)
qed

section \<open>Command handles\<close>

definition md_handle :: "md_sys \<Rightarrow> u64" where
  "md_handle s = push_bit 32 (ucast (sw_high (mdev s))) OR ucast (sw_low (mdev s))"

lemma unat_handle: "unat (push_bit 32 (ucast (hi :: u32)) OR ucast (lo :: u32) :: u64) = unat hi * 2 ^ 32 + unat lo"
proof -
  let ?a = "push_bit 32 (ucast hi) :: u64" and ?b = "ucast lo :: u64"
  have "?a AND ?b = 0" by (rule bit_word_eqI) (auto simp: bit_simps dest: bit_imp_le_length)
  then have "?a OR ?b = ?a + ?b" by (metis disjunctive_add_eq_or)
  moreover have uc: "unat (ucast x :: u64) = unat x" for x :: u32
  proof -
    have "unat x < 2 ^ 64" by (rule less_trans [OF unat_u32_lt]) simp
    then show ?thesis by (simp add: unsigned_ucast_eq take_bit_nat_eq_self)
  qed
  moreover have "unat ?a = unat hi * 2 ^ 32"
  proof -
    have "unat hi * 2 ^ 32 < 2 ^ 64" using unat_u32_lt [of hi] by simp
    moreover have "unat ?a = take_bit 64 (unat hi * 2 ^ 32)"
      by (simp only: unsigned_push_bit_eq uc) (simp add: push_bit_eq_mult)
    ultimately show ?thesis by (simp only: take_bit_nat_eq_self)
  qed
  moreover have "unat hi * 4294967296 + unat lo < 18446744073709551616"
    using unat_u32_lt [of hi] unat_u32_lt [of lo] by linarith
  ultimately show ?thesis by (simp add: unat_word_ariths)
qed

lemma handle_step:
  fixes hi lo :: u32
  shows "(push_bit 32 (ucast (if lo + 1 = 0 then hi + 1 else hi)) OR ucast (lo + 1) :: u64) =
    (push_bit 32 (ucast hi) OR ucast lo) + 1"
proof (rule word_unat_eq_iff [THEN iffD2])
  define h l where "h = unat hi" and "l = unat lo"
  have b: "h < 4294967296" "l < 4294967296" by (simp_all add: h_def l_def)
  have l1: "unat (lo + 1) = (l + 1) mod 4294967296" and h1: "unat (hi + 1) = (h + 1) mod 4294967296"
    by (simp_all add: unat_word_ariths l_def h_def)
  have z: "lo + 1 = 0 \<longleftrightarrow> l = 4294967295"
    using l1 b unat_eq_0 [of "lo + 1"] by (auto simp: mod_if split: if_splits)
  have "unat ((push_bit 32 (ucast hi) OR ucast lo) + 1 :: u64) = (h * 4294967296 + l + 1) mod 18446744073709551616"
    using unat_handle [of hi lo] by (simp add: unat_word_ariths h_def l_def)
  moreover have "unat (push_bit 32 (ucast (if lo + 1 = 0 then hi + 1 else hi)) OR ucast (lo + 1) :: u64) =
      (h * 4294967296 + l + 1) mod 18446744073709551616"
  proof (cases "l = 4294967295")
    case True
    have "unat (push_bit 32 (ucast (hi + 1)) OR ucast (lo + 1) :: u64) = (h + 1) mod 4294967296 * 4294967296"
      using unat_handle [of "hi + 1" "lo + 1"] l1 h1 True by simp
    also have "\<dots> = (h * 4294967296 + l + 1) mod 18446744073709551616"
      using True b by (cases "h = 4294967295") auto
    finally show ?thesis using z True by simp
  next
    case False
    then have "h * 4294967296 + l + 1 < 18446744073709551616" using b by linarith
    then show ?thesis using False z l1 b unat_handle [of hi "lo + 1"] by (simp add: h_def)
  qed
  ultimately show "unat (push_bit 32 (ucast (if lo + 1 = 0 then hi + 1 else hi)) OR ucast (lo + 1) :: u64) =
      unat ((push_bit 32 (ucast hi) OR ucast lo) + 1 :: u64)" by simp
qed

text \<open>What a command leaves alone.\<close>

definition md_frame :: "md_sys \<Rightarrow> md_sys \<Rightarrow> bool" where
  "md_frame s s' \<longleftrightarrow> copy_task (mdev s') = copy_task (mdev s) \<and> copy_counter (mdev s') = copy_counter (mdev s) \<and>
     finished_copy_counter (mdev s') = finished_copy_counter (mdev s) \<and> md_state (mdev s') = md_state (mdev s) \<and>
     CmdBase (mdev s') = CmdBase (mdev s) \<and> unmapped s' = unmapped s"

lemma md_check_hardware_ptrs [simp]:
  "SMQ_CmdRdptr (md_check_hardware h) = SMQ_CmdRdptr h" "SMQ_CmdWrptr (md_check_hardware h) = SMQ_CmdWrptr h"
  "SMQ_INST_CNT (md_check_hardware h) = SMQ_INST_CNT h"
  by (simp_all add: md_check_hardware_def)

lemma WriteCmd_spec:
  assumes ring: "md_ring s r w" and mv: "smq_moves (CmdBase (mdev s)) step" and dr: "smq_drains (CmdBase (mdev s)) step"
    and len: "length ws < 4096"
  shows "\<exists>s' k. WriteCmd step ws s = Some (md_handle s', s') \<and> md_handle s' = md_handle s + 1 \<and> md_frame s s' \<and>
    k \<le> ring_dist r w \<and> md_ring s' ((r + k) mod 4096) ((w + length ws) mod 4096) \<and>
    pending s' ((r + k) mod 4096) = drop k (pending s r) @ ws"
proof -
  let ?d = "mdev s" and ?b = "CmdBase (mdev s)" and ?h = "md_check_hardware (hw s)"
  have f: "md_size ?d = 16384" "length (CmdBuf ?d) = 4096" "r < 4096" "w < 4096" "wrptr ?d = 4 * w"
    "SMQ_CmdRdptr ?h = ?b + 4 * r" "SMQ_CmdWrptr ?h = ?b + 4 * w"
    using ring by (simp_all add: md_ring_def)
  have drain: "\<exists>n. SMQ_CmdRdptr ((step ^^ n) h) = ?b + 4 * w"
    if "r' < 4096" "SMQ_CmdRdptr h = ?b + 4 * r'" "SMQ_CmdWrptr h = ?b + 4 * w" for h r'
    using dr [unfolded smq_drains_def, rule_format, of r' w h] that f(4) by simp
  obtain n where "SMQ_CmdRdptr ((step ^^ n) ?h) = ?b + 4 * w" using drain [OF f(3,6,7)] by blast
  note wd = wait_drained_returns [OF mv f(3,4,6,7) this]
  have "\<exists>h1 k1. (if wrptr ?d + 4 * length ws \<ge> md_size ?d then wait_drained step (?b + 4 * w) ?h else Some ?h) = Some h1 \<and>
      k1 \<le> ring_dist r w \<and> SMQ_CmdRdptr h1 = ?b + 4 * ((r + k1) mod 4096) \<and> SMQ_CmdWrptr h1 = ?b + 4 * w"
  proof (cases "wrptr ?d + 4 * length ws \<ge> md_size ?d")
    case True
    have "(r + ring_dist r w) mod 4096 = w" using f(3,4) by (auto simp: ring_dist_alt)
    then show ?thesis using wd True by (auto intro!: exI [of _ "ring_dist r w"])
  next
    case False
    then show ?thesis using f by (auto intro!: exI [of _ 0])
  qed
  then obtain h1 k1 where h1: "(if wrptr ?d + 4 * length ws \<ge> md_size ?d then wait_drained step (?b + 4 * w) ?h else Some ?h) = Some h1"
    "k1 \<le> ring_dist r w" "SMQ_CmdRdptr h1 = ?b + 4 * ((r + k1) mod 4096)" "SMQ_CmdWrptr h1 = ?b + 4 * w" by blast
  let ?r1 = "(r + k1) mod 4096"
  have r1: "?r1 < 4096" by simp
  obtain n where "SMQ_CmdRdptr ((step ^^ n) h1) = ?b + 4 * w" using drain [OF r1 h1(3,4)] by blast
  from wait_space_returns [OF mv r1 f(4) h1(3,4) this len] obtain h2 k2 where
    h2: "wait_space step (?b + 4 * w) (4 * length ws) 16384 h1 = Some h2" "k2 \<le> ring_dist ?r1 w"
    "SMQ_CmdRdptr h2 = ?b + 4 * ((?r1 + k2) mod 4096)" "ring_dist ?r1 w - k2 + length ws < 4096" by blast
  have d1: "ring_dist ?r1 w = ring_dist r w - k1" by (rule ring_dist_adv [OF f(3,4) h1(2)])
  define k where "k = k1 + k2"
  let ?r = "(r + k) mod 4096"
  have k: "k \<le> ring_dist r w" "ring_dist r w - k + length ws < 4096" using h1(2) h2(2,4) d1 by (auto simp: k_def)
  have rd: "SMQ_CmdRdptr h2 = ?b + 4 * ?r" using h2(3) by (simp only: ring_pos_add k_def)
  obtain p buf where wr: "write_words 16384 ws (4 * w) (CmdBuf ?d) = (p, buf)" by force
  have "length ws \<le> 4096" using len by simp
  note ww = write_words_spec [OF f(4,2) this wr]
  have wr': "(if 16384 \<le> 4 * w + 4 * length ws then 4 * w + 4 * length ws - 16384 else 4 * w + 4 * length ws) =
      4 * ((w + length ws) mod 4096)"
  proof -
    have "(w + length ws) mod 4096 = (if w + length ws < 4096 then w + length ws else w + length ws - 4096)"
      using f(4) len by (rule ring_pos_lt)
    then show ?thesis by auto
  qed
  define s' where "s' = s\<lparr>mdev := ?d\<lparr>CmdBuf := buf, wrptr := 4 * ((w + length ws) mod 4096), sw_low := sw_low ?d + 1,
      sw_high := (if sw_low ?d + 1 = 0 then sw_high ?d + 1 else sw_high ?d)\<rparr>, hw := h2\<lparr>SMQ_CmdWrptr := ?b + p\<rparr>\<rparr>"
  have "WriteCmd step ws s = Some (md_handle s', s')"
    by (simp only: WriteCmd_def Let_def f(1,5,7) h1(1) [unfolded f(1,5)] h2(1) wr wr' prod.case bind.bind_lunit)
      (simp add: s'_def md_handle_def)
  moreover have "md_handle s' = md_handle s + 1"
    using handle_step [of "sw_low ?d" "sw_high ?d"] by (simp add: md_handle_def s'_def)
  moreover have "md_frame s s'" by (simp add: md_frame_def s'_def)
  moreover have "md_ring s' ?r ((w + length ws) mod 4096)"
    using f(1) ww(1,2) rd by (simp add: md_ring_def s'_def)
  moreover have "pending s' ?r = drop k (pending s r) @ ws"
  proof -
    have fit: "ring_dist ?r w + length ws < 4096" using k ring_dist_adv [OF f(3,4) k(1)] by simp
    have "?r < 4096" by simp
    from pending_of_write [OF this f(4) fit ww(3)] show ?thesis
      using pending_of_adv [OF f(3,4) k(1), of "CmdBuf ?d"] f(5) by (simp add: pending_def s'_def)
  qed
  ultimately show ?thesis using k(1) by blast
qed

text \<open>
  C5: The command ring: with an engine that consumes commands in order and drains the ring, writing a
  command of fewer than 4096 words always returns. The words are queued behind what is still
  unread, nothing unread is overwritten, and the handle is the one after the last.
\<close>

theorem md_write_queues:
  assumes "md_ring s r w" "smq_moves (CmdBase (mdev s)) step" "smq_drains (CmdBase (mdev s)) step" "length ws < 4096"
  shows "\<exists>s' k. md_write step ws s = Some (md_handle s + 1, s') \<and> md_handle s' = md_handle s + 1 \<and>
    k \<le> length (pending s r) \<and> md_ring s' ((r + k) mod 4096) ((w + length ws) mod 4096) \<and>
    pending s' ((r + k) mod 4096) = drop k (pending s r) @ ws"
proof -
  have "wrptr (mdev s) div 4 = w" using assms(1) by (simp add: md_ring_def)
  then show ?thesis using WriteCmd_spec [OF assms] by (auto simp: md_write_def pending_def)
qed

definition sample_md :: md_sys where
  "sample_md = \<lparr>mdev = md_dev_zero\<lparr>md_size := 16384, CmdBuf := replicate 4096 0, CmdBase := 0x1000\<rparr>,
     hw = \<lparr>SMQ_CNTL = 2, SMQ_CNTL_log = [], SMQ_CmdBase = 0x1000, SMQ_CmdLimit = 0x5000, SMQ_CmdRdptr = 0x1000,
       SMQ_CmdWrptr = 0x1000, SMQ_INST_CNT = 0\<rparr>, unmapped = []\<rparr>"

text \<open>An engine that executes all commands between two polls.\<close>

definition sample_step :: "smq \<Rightarrow> smq" where
  "sample_step h = h\<lparr>SMQ_CmdRdptr := SMQ_CmdWrptr h, SMQ_INST_CNT := 1\<rparr>"

lemma sample_step_engine: "smq_moves base sample_step" "smq_drains base sample_step"
proof -
  have e: "ring_dist r w \<le> ring_dist r w \<and> (r + ring_dist r w) mod 4096 = w" if "r < 4096" "w < 4096" for r w
    using that by (auto simp: ring_dist_alt)
  show "smq_moves base sample_step"
    unfolding smq_moves_def
  proof (intro allI impI)
    fix h :: smq and r w
    assume a: "r < 4096 \<and> w < 4096 \<and> SMQ_CmdRdptr h = base + 4 * r \<and> SMQ_CmdWrptr h = base + 4 * w"
    then show "SMQ_CmdWrptr (sample_step h) = SMQ_CmdWrptr h \<and>
        (\<exists>k \<le> ring_dist r w. SMQ_CmdRdptr (sample_step h) = base + 4 * ((r + k) mod 4096))"
      using e [of r w] by (auto simp: sample_step_def intro!: exI [of _ "ring_dist r w"])
  qed
  have "SMQ_CmdRdptr ((sample_step ^^ 1) h) = SMQ_CmdWrptr h" for h by (simp add: sample_step_def)
  then show "smq_drains base sample_step" unfolding smq_drains_def by blast
qed

lemma sample_md_ring: "md_ring sample_md 0 0" "pending sample_md 0 = []" "CmdBase (mdev sample_md) = 0x1000" "md_handle sample_md = 0"
  by (simp_all add: md_ring_def sample_md_def md_dev_zero_def pending_def pending_of_def ring_dist_def md_handle_def)

theorem md_write_queues_witness:
  "\<exists>s'. md_write sample_step [5, 0x100, 0x200, 16] sample_md = Some (1, s') \<and> pending s' 0 = [5, 0x100, 0x200, 16]"
proof -
  obtain s' k where "md_write sample_step [5, 0x100, 0x200, 16] sample_md = Some (1, s')"
    "k \<le> length (pending sample_md 0)" "pending s' ((0 + k) mod 4096) = drop k (pending sample_md 0) @ [5, 0x100, 0x200, 16]"
    using md_write_queues [OF sample_md_ring(1) sample_step_engine, of "[5, 0x100, 0x200, 16]"] sample_md_ring(4) by auto
  then show ?thesis by (simp add: sample_md_ring(2))
qed

section \<open>Completion\<close>

text \<open>
  C28: Handles are compared across the wrap of the 16-bit hardware counter: for a handle that is not 0 and
  a hardware count within \<open>2 ^ 15\<close> of it, \<open>md_checkfinish\<close> says finished exactly when the count has
  reached the handle. The zero handle counts as finished.
\<close>

theorem md_checkfinish_window:
  assumes "handle \<noteq> 0" "SMQ_INST_CNT (step (hw s)) = of_nat c" "c < unat handle + 2 ^ 15" "unat handle \<le> c + 2 ^ 15"
  shows "fst (md_checkfinish step handle s) \<longleftrightarrow> unat handle \<le> c"
proof -
  have m: "x AND 0xFFFF = take_bit 16 x" for x :: u32 by (simp add: take_bit_eq_mask mask_eq_exp_minus_1)
  define a where "a = unat handle mod 65536"
  define b where "b = c mod 65536"
  have ua: "unat ((ucast handle :: u32) AND 0xFFFF) = a"
    unfolding m by (simp only: unsigned_take_bit_eq unsigned_ucast_eq) (simp add: take_bit_eq_mod a_def mod_mod_cancel)
  have ub: "unat ((of_nat c :: u32) AND 0xFFFF) = b"
    unfolding m by (simp only: unsigned_take_bit_eq unsigned_of_nat) (simp add: take_bit_eq_mod b_def mod_mod_cancel)
  have lt: "a < 65536" "b < 65536" by (simp_all add: a_def b_def)
  let ?x = "(ucast handle :: u32) AND 0xFFFF" and ?y = "(of_nat c :: u32) AND 0xFFFF"
  have fin: "fst (md_checkfinish step handle s) \<longleftrightarrow>
      (?y \<ge> ?x \<and> ?y - ?x < 0x8000) \<or> (?y < ?x \<and> ?y + 0x10000 - ?x < 0x8000)"
    using assms(1,2) by (simp add: md_checkfinish_def Let_def)
  have s1: "?y \<ge> ?x \<longleftrightarrow> a \<le> b" by (simp add: word_le_nat_alt ua ub)
  have s2: "?y \<ge> ?x \<Longrightarrow> unat (?y - ?x) = b - a" by (simp add: unat_sub ua ub)
  have s3: "unat (?y + 0x10000 - ?x) = b + 65536 - a"
  proof -
    have "unat (?y + 0x10000) = b + 65536" using lt by (simp add: unat_word_ariths ub)
    moreover have "?x \<le> ?y + 0x10000" using lt calculation by (simp add: word_le_nat_alt ua)
    ultimately show ?thesis by (simp add: unat_sub ua)
  qed
  have "fst (md_checkfinish step handle s) \<longleftrightarrow> (a \<le> b \<and> b - a < 32768) \<or> (b < a \<and> b + 65536 - a < 32768)"
    unfolding fin using s1 s2 s3 by (auto simp: word_less_nat_alt linorder_not_le)
  also have "\<dots> \<longleftrightarrow> unat handle \<le> c"
  proof -
    define p q where "p = unat handle div 65536" and "q = c div 65536"
    have "unat handle = p * 65536 + a" "c = q * 65536 + b" by (simp_all add: a_def b_def p_def q_def)
    then show ?thesis using assms(3,4) lt by (cases "p = q"; cases "p < q"; auto)
  qed
  finally show ?thesis .
qed

theorem md_checkfinish_window_witness:
  "fst (md_checkfinish (\<lambda>h. h\<lparr>SMQ_INST_CNT := of_nat 65540\<rparr>) 65534 sample_md) \<and>
   \<not> fst (md_checkfinish (\<lambda>h. h\<lparr>SMQ_INST_CNT := of_nat 65530\<rparr>) 65540 sample_md)"
  using md_checkfinish_window [of 65534 "\<lambda>h. h\<lparr>SMQ_INST_CNT := of_nat 65540\<rparr>" sample_md 65540]
    md_checkfinish_window [of 65540 "\<lambda>h. h\<lparr>SMQ_INST_CNT := of_nat 65530\<rparr>" sample_md 65530]
  by simp

lemma md_checkfinish_hw:
  "SMQ_CmdRdptr (hw (snd (md_checkfinish step n s))) = SMQ_CmdRdptr (if n = 0 then hw s else step (hw s))"
  "SMQ_CmdWrptr (hw (snd (md_checkfinish step n s))) = SMQ_CmdWrptr (if n = 0 then hw s else step (hw s))"
  by (simp_all add: md_checkfinish_def Let_def)

text \<open>Polling for completion only lets the engine go on.\<close>

lemma md_checkfinish_ring:
  fixes n :: u64
  assumes ring: "md_ring s r w" and mv: "smq_moves (CmdBase (mdev s)) step"
  defines "s' \<equiv> snd (md_checkfinish step n s)"
  shows "\<exists>k \<le> ring_dist r w. md_ring s' ((r + k) mod 4096) w \<and> pending s' ((r + k) mod 4096) = drop k (pending s r)"
proof -
  have f: "r < 4096" "w < 4096" "SMQ_CmdRdptr (hw s) = CmdBase (mdev s) + 4 * r" "SMQ_CmdWrptr (hw s) = CmdBase (mdev s) + 4 * w"
    "wrptr (mdev s) = 4 * w" using ring by (simp_all add: md_ring_def)
  obtain k where k: "k \<le> ring_dist r w" "SMQ_CmdRdptr (step (hw s)) = CmdBase (mdev s) + 4 * ((r + k) mod 4096)"
    "SMQ_CmdWrptr (step (hw s)) = CmdBase (mdev s) + 4 * w" using poll_step [OF mv f(1-4)] by blast
  have m: "mdev s' = mdev s" by (simp add: s'_def)
  define j where "j = (if n = 0 then 0 else k)"
  have j: "j \<le> ring_dist r w" using k(1) by (simp add: j_def)
  have "md_ring s' ((r + j) mod 4096) w"
    using ring k f md_checkfinish_hw [of step n s] by (auto simp: md_ring_def m s'_def [symmetric] j_def)
  moreover have "pending s' ((r + j) mod 4096) = drop j (pending s r)"
    using pending_of_adv [OF f(1,2) j, of "CmdBuf (mdev s)"] f(5) by (simp add: pending_def m)
  ultimately show ?thesis using j by blast
qed

section \<open>Copy requests\<close>

text \<open>What giving back a request adds to the record of unmapped buffers.\<close>

definition released :: "md_copy_t \<Rightarrow> (u32 \<times> u32) list" where
  "released req = (if request_id req \<noteq> 0 then [(dma_src req, c_len req), (dma_dst req, c_len req)] else [])"

text \<open>The requests between two counters, oldest first.\<close>

definition tasks_between :: "md_dev \<Rightarrow> nat \<Rightarrow> nat \<Rightarrow> md_copy_t list" where
  "tasks_between d a b = map (\<lambda>n. copy_task d ! (n mod 64)) [a..<b]"

lemma md_release_fields:
  "copy_task (mdev (md_release_copy_request i s)) = (copy_task (mdev s))[i := zero_copy]"
  "unmapped (md_release_copy_request i s) = unmapped s @ released (copy_task (mdev s) ! i)"
  "CmdBuf (mdev (md_release_copy_request i s)) = CmdBuf (mdev s)" "wrptr (mdev (md_release_copy_request i s)) = wrptr (mdev s)"
  "CmdBase (mdev (md_release_copy_request i s)) = CmdBase (mdev s)" "md_size (mdev (md_release_copy_request i s)) = md_size (mdev s)"
  "sw_low (mdev (md_release_copy_request i s)) = sw_low (mdev s)" "sw_high (mdev (md_release_copy_request i s)) = sw_high (mdev s)"
  "hw (md_release_copy_request i s) = hw s" "md_state (mdev (md_release_copy_request i s)) = md_state (mdev s)"
  by (simp_all add: md_release_copy_request_def Let_def released_def)

text \<open>One turn of the clean-up loop.\<close>

definition task_done :: "(smq \<Rightarrow> smq) \<Rightarrow> md_sys \<Rightarrow> bool" where
  "task_done step s = fst (md_checkfinish step (request_id (copy_task (mdev s) ! copy_slot (finished_copy_counter (mdev s)))) s)"

definition task_turn :: "(smq \<Rightarrow> smq) \<Rightarrow> md_sys \<Rightarrow> md_sys" where
  "task_turn step s =
     (let slot = copy_slot (finished_copy_counter (mdev s));
          s = md_release_copy_request slot (snd (md_checkfinish step (request_id (copy_task (mdev s) ! slot)) s))
      in s\<lparr>mdev := (mdev s)\<lparr>finished_copy_counter := finished_copy_counter (mdev s) + 1\<rparr>\<rparr>)"

lemma md_check_copy_tasks_turn:
  "md_check_copy_tasks step s =
     (if finished_copy_counter (mdev s) < copy_counter (mdev s) then
        if task_done step s then md_check_copy_tasks step (task_turn step s)
        else snd (md_checkfinish step (request_id (copy_task (mdev s) ! copy_slot (finished_copy_counter (mdev s)))) s)
      else s)"
  by (subst md_check_copy_tasks.simps) (simp add: task_done_def task_turn_def Let_def case_prod_unfold)

lemma task_turn_fields:
  "finished_copy_counter (mdev (task_turn step s)) = finished_copy_counter (mdev s) + 1"
  "copy_counter (mdev (task_turn step s)) = copy_counter (mdev s)"
  "copy_task (mdev (task_turn step s)) = (copy_task (mdev s))[copy_slot (finished_copy_counter (mdev s)) := zero_copy]"
  "unmapped (task_turn step s) = unmapped s @ released (copy_task (mdev s) ! copy_slot (finished_copy_counter (mdev s)))"
  "md_state (mdev (task_turn step s)) = md_state (mdev s)" "CmdBase (mdev (task_turn step s)) = CmdBase (mdev s)"
  "md_handle (task_turn step s) = md_handle s"
  by (simp_all add: task_turn_def Let_def md_release_fields md_handle_def)

definition task_poll :: "(smq \<Rightarrow> smq) \<Rightarrow> md_sys \<Rightarrow> md_sys" where
  "task_poll step s = snd (md_checkfinish step (request_id (copy_task (mdev s) ! copy_slot (finished_copy_counter (mdev s)))) s)"

text \<open>Induction over the turns of the clean-up loop, relating the first state and the last.\<close>

lemma tasks_induct:
  assumes stop: "\<And>s. \<not> finished_copy_counter (mdev s) < copy_counter (mdev s) \<Longrightarrow> P s s"
    and wait: "\<And>s. finished_copy_counter (mdev s) < copy_counter (mdev s) \<Longrightarrow> \<not> task_done step s \<Longrightarrow> P s (task_poll step s)"
    and turn: "\<And>s s'. finished_copy_counter (mdev s) < copy_counter (mdev s) \<Longrightarrow> task_done step s \<Longrightarrow> P (task_turn step s) s' \<Longrightarrow> P s s'"
  shows "P s (md_check_copy_tasks step s)"
proof (induction "unat (copy_counter (mdev s)) - unat (finished_copy_counter (mdev s))" arbitrary: s rule: less_induct)
  case less
  let ?more = "finished_copy_counter (mdev s) < copy_counter (mdev s)"
  consider "\<not> ?more" | "?more" "\<not> task_done step s" | "?more" "task_done step s" by blast
  then show ?case
  proof cases
    case 1
    then have "md_check_copy_tasks step s = s" by (subst md_check_copy_tasks_turn) simp
    then show ?thesis using stop [OF 1] by simp
  next
    case 2
    then have "md_check_copy_tasks step s = task_poll step s" by (subst md_check_copy_tasks_turn) (simp add: task_poll_def)
    then show ?thesis using wait [OF 2] by simp
  next
    case 3
    then have e: "md_check_copy_tasks step s = md_check_copy_tasks step (task_turn step s)"
      by (subst md_check_copy_tasks_turn) simp
    have "P (task_turn step s) (md_check_copy_tasks step (task_turn step s))"
      using 3(1) unat_Suc_below [OF 3(1)] by (intro less) (simp add: task_turn_fields word_less_nat_alt)
    then show ?thesis unfolding e by (rule turn [OF 3])
  qed
qed

lemma task_poll_fields [simp]: "mdev (task_poll step s) = mdev s" "unmapped (task_poll step s) = unmapped s"
  by (simp_all add: task_poll_def)

lemma md_check_copy_tasks_fields:
  "copy_counter (mdev (md_check_copy_tasks step s)) = copy_counter (mdev s)"
  "md_state (mdev (md_check_copy_tasks step s)) = md_state (mdev s)"
  "CmdBase (mdev (md_check_copy_tasks step s)) = CmdBase (mdev s)"
  "length (copy_task (mdev (md_check_copy_tasks step s))) = length (copy_task (mdev s))"
  "md_handle (md_check_copy_tasks step s) = md_handle s"
  by (rule tasks_induct [where step = step]; simp add: task_turn_fields md_handle_def [of "task_poll step _"] md_handle_def [symmetric])+

lemma task_turn_ring:
  assumes ring: "md_ring s r w" and mv: "smq_moves (CmdBase (mdev s)) step"
  shows "\<exists>k \<le> ring_dist r w. md_ring (task_turn step s) ((r + k) mod 4096) w \<and>
    pending (task_turn step s) ((r + k) mod 4096) = drop k (pending s r)"
  using md_checkfinish_ring [OF assms, of "request_id (copy_task (mdev s) ! copy_slot (finished_copy_counter (mdev s)))"]
  by (simp add: md_ring_def pending_def task_turn_def Let_def md_release_fields)

lemma md_check_copy_tasks_ring:
  assumes "md_ring s r w" "smq_moves (CmdBase (mdev s)) step"
  shows "\<exists>k \<le> ring_dist r w. md_ring (md_check_copy_tasks step s) ((r + k) mod 4096) w \<and>
    pending (md_check_copy_tasks step s) ((r + k) mod 4096) = drop k (pending s r)"
proof -
  have "md_ring s r w \<Longrightarrow> smq_moves (CmdBase (mdev s)) step \<Longrightarrow>
      \<exists>k \<le> ring_dist r w. md_ring s' ((r + k) mod 4096) w \<and> pending s' ((r + k) mod 4096) = drop k (pending s r)"
    if "s' = md_check_copy_tasks step s" for s' r
    unfolding that
  proof (induction arbitrary: r rule: tasks_induct [where step = step])
    case (1 s)
    then show ?case by (auto simp: md_ring_def intro!: exI [of _ 0])
  next
    case (2 s)
    then show ?case using md_checkfinish_ring by (simp add: task_poll_def)
  next
    case (3 s s')
    have rw: "r < 4096" "w < 4096" using "3.prems"(1) by (simp_all add: md_ring_def)
    obtain k where k: "k \<le> ring_dist r w" "md_ring (task_turn step s) ((r + k) mod 4096) w"
      "pending (task_turn step s) ((r + k) mod 4096) = drop k (pending s r)" using task_turn_ring [OF "3.prems"] by blast
    have "smq_moves (CmdBase (mdev (task_turn step s))) step" using "3.prems"(2) by (simp add: task_turn_fields)
    from "3.IH" [OF k(2) this] obtain j where
      j: "j \<le> ring_dist ((r + k) mod 4096) w" "md_ring s' (((r + k) mod 4096 + j) mod 4096) w"
      "pending s' (((r + k) mod 4096 + j) mod 4096) = drop j (drop k (pending s r))"
      unfolding k(3) by blast
    have "k + j \<le> ring_dist r w" using j(1) ring_dist_adv [OF rw k(1)] k(1) by simp
    moreover have "drop j (drop k (pending s r)) = drop (k + j) (pending s r)" by (simp add: add.commute)
    ultimately show ?case using j(2,3) unfolding ring_pos_add by auto
  qed
  then show ?thesis using assms by blast
qed

text \<open>
  Cleaning up the copy requests: with at most 64 outstanding, the finished ones are given back oldest
  first, each with its two DMA mappings, and their slots are cleared; the counter moves past them,
  every younger request stays as it is, and the counter of requests is not changed.
\<close>

theorem md_tasks_released:
  fixes step :: "smq \<Rightarrow> smq"
  assumes "unat (finished_copy_counter (mdev s)) \<le> unat (copy_counter (mdev s))"
    "unat (copy_counter (mdev s)) \<le> unat (finished_copy_counter (mdev s)) + 64" "length (copy_task (mdev s)) = 64"
  defines "s' \<equiv> md_check_copy_tasks step s"
    and "a \<equiv> unat (finished_copy_counter (mdev s))" and "b \<equiv> unat (finished_copy_counter (mdev (md_check_copy_tasks step s)))"
    and "c \<equiv> unat (copy_counter (mdev s))"
  shows "a \<le> b \<and> b \<le> c \<and> copy_counter (mdev s') = copy_counter (mdev s) \<and>
    unmapped s' = unmapped s @ concat (map released (tasks_between (mdev s) a b)) \<and>
    tasks_between (mdev s') a b = replicate (b - a) zero_copy \<and>
    tasks_between (mdev s') b c = tasks_between (mdev s) b c"
proof -
  have "a \<le> c \<Longrightarrow> c \<le> a + 64 \<Longrightarrow> length (copy_task (mdev s)) = 64 \<Longrightarrow>
      a = unat (finished_copy_counter (mdev s)) \<Longrightarrow> c = unat (copy_counter (mdev s)) \<Longrightarrow>
      a \<le> unat (finished_copy_counter (mdev s')) \<and> unat (finished_copy_counter (mdev s')) \<le> c \<and>
      unmapped s' = unmapped s @ concat (map released (tasks_between (mdev s) a (unat (finished_copy_counter (mdev s'))))) \<and>
      tasks_between (mdev s') a (unat (finished_copy_counter (mdev s'))) =
        replicate (unat (finished_copy_counter (mdev s')) - a) zero_copy \<and>
      (\<forall>i. i < 64 \<and> i \<notin> (\<lambda>n. n mod 64) ` {a..<unat (finished_copy_counter (mdev s'))} \<longrightarrow>
        copy_task (mdev s') ! i = copy_task (mdev s) ! i)" for a c
    unfolding s'_def
  proof (induction arbitrary: a rule: tasks_induct [where step = step])
    case (1 s)
    then show ?case by (simp add: tasks_between_def)
  next
    case (2 s)
    then show ?case by (simp add: tasks_between_def)
  next
    case (3 s s')
    let ?t = "task_turn step s" and ?b = "unat (finished_copy_counter (mdev s'))"
    have lt: "a < c" using "3.hyps"(1) "3.prems" by (simp add: word_less_nat_alt)
    have a1: "unat (finished_copy_counter (mdev ?t)) = Suc a"
      using unat_Suc_below [OF "3.hyps"(1)] "3.prems"(4) by (simp add: task_turn_fields)
    have slot: "copy_slot (finished_copy_counter (mdev s)) = a mod 64" using "3.prems"(4) by (simp add: copy_slot_def)
    have tt: "copy_task (mdev ?t) = (copy_task (mdev s))[a mod 64 := zero_copy]" by (simp add: task_turn_fields slot)
    have ih: "Suc a \<le> ?b" "?b \<le> c"
      "unmapped s' = unmapped ?t @ concat (map released (tasks_between (mdev ?t) (Suc a) ?b))"
      "tasks_between (mdev s') (Suc a) ?b = replicate (?b - Suc a) zero_copy"
      "\<And>i. i < 64 \<Longrightarrow> i \<notin> (\<lambda>n. n mod 64) ` {Suc a..<?b} \<Longrightarrow> copy_task (mdev s') ! i = copy_task (mdev ?t) ! i"
      using "3.IH" [of "Suc a"] lt "3.prems" a1 by (simp_all add: task_turn_fields)
    have ne: "n mod 64 \<noteq> a mod 64" if "Suc a \<le> n" "n < ?b" for n
    proof
      assume "n mod 64 = a mod 64"
      then have "(a + (n - a)) mod 64 = (a + 0) mod 64" using that by simp
      then have "n - a = 0" by (rule ring_pos_inj) (use that ih(2) "3.prems"(2) in simp_all)
      then show False using that by simp
    qed
    have split: "[a..<?b] = a # [Suc a..<?b]" using ih(1) by (simp add: upt_rec)
    have same: "tasks_between (mdev ?t) (Suc a) ?b = tasks_between (mdev s) (Suc a) ?b"
      using ne [THEN not_sym] by (auto simp: tasks_between_def tt)
    have here: "copy_task (mdev s') ! (a mod 64) = zero_copy"
    proof -
      have "a mod 64 \<notin> (\<lambda>n. n mod 64) ` {Suc a..<?b}" using ne by fastforce
      then show ?thesis using ih(5) [of "a mod 64"] "3.prems"(3) by (simp add: tt)
    qed
    have "unmapped s' = unmapped s @ concat (map released (tasks_between (mdev s) a ?b))"
    proof -
      have "tasks_between (mdev s) a ?b = copy_task (mdev s) ! (a mod 64) # tasks_between (mdev s) (Suc a) ?b"
        by (simp add: tasks_between_def split)
      then show ?thesis using ih(3) unfolding same by (simp add: task_turn_fields(4) slot)
    qed
    moreover have "tasks_between (mdev s') a ?b = replicate (?b - a) zero_copy"
    proof -
      have "?b - a = Suc (?b - Suc a)" using ih(1) by simp
      then show ?thesis using ih(4) here by (simp add: tasks_between_def split)
    qed
    moreover have "copy_task (mdev s') ! i = copy_task (mdev s) ! i" if "i < 64" "i \<notin> (\<lambda>n. n mod 64) ` {a..<?b}" for i
    proof -
      have "i \<notin> (\<lambda>n. n mod 64) ` {Suc a..<?b}" using that(2) by auto
      moreover have "i \<noteq> a mod 64" using that(2) ih(1) by auto
      ultimately show ?thesis using ih(5) [OF that(1)] by (simp add: tt)
    qed
    ultimately show ?case using ih(1,2) by auto
  qed
  from this [of a c] have r: "a \<le> b" "b \<le> c" "unmapped s' = unmapped s @ concat (map released (tasks_between (mdev s) a b))"
    "tasks_between (mdev s') a b = replicate (b - a) zero_copy"
    "\<And>i. i < 64 \<Longrightarrow> i \<notin> (\<lambda>n. n mod 64) ` {a..<b} \<Longrightarrow> copy_task (mdev s') ! i = copy_task (mdev s) ! i"
    using assms(1-3) by (simp_all add: a_def c_def b_def s'_def)
  have "n mod 64 \<notin> (\<lambda>n. n mod 64) ` {a..<b}" if "b \<le> n" "n < c" for n
  proof
    assume "n mod 64 \<in> (\<lambda>n. n mod 64) ` {a..<b}"
    then obtain m where m: "a \<le> m" "m < b" "n mod 64 = m mod 64" by auto
    then have "(a + (n - a)) mod 64 = (a + (m - a)) mod 64" using that r(1) by simp
    then have "n - a = m - a" by (rule ring_pos_inj) (use that m assms(2) r(2) in \<open>simp_all add: a_def c_def\<close>)
    then show False using m that by simp
  qed
  then have "tasks_between (mdev s') b c = tasks_between (mdev s) b c" using r(5) by (auto simp: tasks_between_def)
  then show ?thesis using r md_check_copy_tasks_fields(1) by (simp add: s'_def)
qed

theorem md_tasks_released_witness:
  "let req = zero_copy\<lparr>request_id := 1, dma_dst := 0x100, dma_src := 0x200, c_len := 16\<rparr>;
       s = sample_md\<lparr>mdev := (mdev sample_md)\<lparr>copy_counter := 1, copy_task := replicate 64 req\<rparr>\<rparr>
   in unmapped (md_check_copy_tasks sample_step s) = [(0x200, 16), (0x100, 16)]"
proof -
  define req where "req = zero_copy\<lparr>request_id := 1, dma_dst := 0x100, dma_src := 0x200, c_len := 16\<rparr>"
  define s where "s = sample_md\<lparr>mdev := (mdev sample_md)\<lparr>copy_counter := 1, copy_task := replicate 64 req\<rparr>\<rparr>"
  have c: "finished_copy_counter (mdev s) = 0" "copy_counter (mdev s) = 1" "length (copy_task (mdev s)) = 64" "unmapped s = []"
    by (simp_all add: s_def sample_md_def md_dev_zero_def)
  have "task_done sample_step s"
    by (simp add: task_done_def md_checkfinish_def s_def req_def sample_step_def copy_slot_def sample_md_def md_dev_zero_def Let_def)
  then have "finished_copy_counter (mdev (md_check_copy_tasks sample_step s)) = 1"
    using c by (subst md_check_copy_tasks_turn, subst md_check_copy_tasks_turn) (simp add: task_turn_fields)
  then have "unmapped (md_check_copy_tasks sample_step s) = concat (map released (tasks_between (mdev s) 0 1))"
    using md_tasks_released [of s sample_step] c by simp
  also have "\<dots> = [(0x200, 16), (0x100, 16)]" by (simp add: tasks_between_def s_def req_def released_def)
  finally show ?thesis by (simp add: Let_def req_def s_def)
qed

section \<open>Copies\<close>

text \<open>The command words of consecutive chunks of the given lengths.\<close>

fun copy_cmds :: "bool \<Rightarrow> u32 \<Rightarrow> u32 \<Rightarrow> u32 list \<Rightarrow> u32 list" where
  "copy_cmds dir dst src [] = []"
| "copy_cmds dir dst src (l # ls) = [copy_word dir, dst, src, l] @ copy_cmds dir (dst + l) (src + l) ls"

text \<open>A length the engine mishandles at this source address; 8 bytes alone are safe.\<close>

definition bad_length :: "u32 \<Rightarrow> u32 \<Rightarrow> bool" where
  "bad_length src len \<longleftrightarrow> (len - ((8 - (src AND 7)) AND 7)) AND 0xFF = 8 \<and> len \<noteq> 8"

definition copy_split :: "u32 \<Rightarrow> u32 \<Rightarrow> u32 list" where
  "copy_split src len = (if len = 0 then [] else if bad_length src len then [8, len - 8] else [len])"

lemma copy_split_second:
  assumes "bad_length src len"
  shows "copy_chunk (src + 8) (len - 8) = len - 8" "\<not> bad_length (src + 8) (len - 8)" "len - 8 \<noteq> 0"
proof -
  let ?a = "(8 - (src AND 7)) AND 7"
  have m3: "mask 3 = (7 :: u32)" and m8: "mask 8 = (0xFF :: u32)" by (simp_all add: mask_eq_exp_minus_1)
  have e: "(8 :: u32) AND 7 = 0" by simp
  have a: "(src + 8) AND 7 = src AND 7"
    using mask_eqs(7) [of src 3 8, symmetric] unfolding m3 e by simp
  have "(len - 8 - ?a) AND 0xFF = ((len - ?a) - 8) AND 0xFF" by (simp add: algebra_simps)
  also have "\<dots> = (((len - ?a) AND 0xFF) - (8 AND 0xFF)) AND 0xFF"
    using mask_eqs(8) [of "len - ?a" 8 8, symmetric] unfolding m8 .
  also have "\<dots> = 0" using assms by (simp add: bad_length_def)
  finally have z: "(len - 8 - ?a) AND 0xFF = 0" .
  show "copy_chunk (src + 8) (len - 8) = len - 8" "\<not> bad_length (src + 8) (len - 8)"
    using z by (simp_all add: copy_chunk_def bad_length_def a)
  show "len - 8 \<noteq> 0" using assms by (auto simp: bad_length_def)
qed

lemma copy_chunk_split: "copy_chunk src len = (if bad_length src len then 8 else len)"
  by (auto simp: copy_chunk_def bad_length_def Let_def)

text \<open>The ring of \<open>s'\<close> holds what was pending in \<open>s\<close> followed by \<open>ws\<close>, less what the engine has taken.\<close>

definition issued :: "md_sys \<Rightarrow> nat \<Rightarrow> u32 list \<Rightarrow> md_sys \<Rightarrow> nat \<Rightarrow> bool" where
  "issued s r ws s' r' \<longleftrightarrow> (\<exists>w. md_ring s' r' w) \<and> CmdBase (mdev s') = CmdBase (mdev s) \<and>
     (\<exists>k \<le> length (pending s r @ ws). pending s' r' = drop k (pending s r @ ws))"

lemma issued_trans: "issued s r a t r1 \<Longrightarrow> issued t r1 b u r2 \<Longrightarrow> issued s r (a @ b) u r2"
proof -
  assume 1: "issued s r a t r1" and 2: "issued t r1 b u r2"
  obtain k where k: "k \<le> length (pending s r @ a)" "pending t r1 = drop k (pending s r @ a)" using 1 by (auto simp: issued_def)
  obtain j where j: "j \<le> length (pending t r1 @ b)" "pending u r2 = drop j (pending t r1 @ b)" using 2 by (auto simp: issued_def)
  have "pending t r1 @ b = drop k (pending s r @ a @ b)" using k by simp
  then have "pending u r2 = drop (k + j) (pending s r @ a @ b)" "k + j \<le> length (pending s r @ a @ b)"
    using k(1) j by (simp_all only: drop_drop add.commute) simp
  then show ?thesis using 1 2 unfolding issued_def by (metis append.assoc)
qed

lemma issued_same:
  "issued s r ws t r' \<Longrightarrow> hw u = hw t \<Longrightarrow> CmdBuf (mdev u) = CmdBuf (mdev t) \<Longrightarrow> wrptr (mdev u) = wrptr (mdev t) \<Longrightarrow>
     md_size (mdev u) = md_size (mdev t) \<Longrightarrow> CmdBase (mdev u) = CmdBase (mdev t) \<Longrightarrow> issued s r ws u r'"
  unfolding issued_def md_ring_def pending_def by metis

lemma md_write_issued:
  assumes "md_ring s r w" "smq_moves (CmdBase (mdev s)) step" "smq_drains (CmdBase (mdev s)) step" "length ws < 4096"
  obtains s' r' where "md_write step ws s = Some (md_handle s', s')" "md_handle s' = md_handle s + 1" "md_frame s s'" "issued s r ws s' r'"
proof -
  obtain s' k where s': "WriteCmd step ws s = Some (md_handle s', s')" "md_handle s' = md_handle s + 1" "md_frame s s'"
    "k \<le> ring_dist r w" "md_ring s' ((r + k) mod 4096) ((w + length ws) mod 4096)"
    "pending s' ((r + k) mod 4096) = drop k (pending s r) @ ws"
    using WriteCmd_spec [OF assms] by blast
  have "length (pending s r) = ring_dist r w" using assms(1) by (simp add: pending_def md_ring_def)
  then have "issued s r ws s' ((r + k) mod 4096)"
    using s'(3-6) unfolding issued_def md_frame_def by (auto intro!: exI [where x = k and P = "\<lambda>k. k \<le> _ \<and> _ k"])
  then show ?thesis using that s'(1-3) by (simp add: md_write_def)
qed

lemma set_request_id_fields [simp]:
  "hw (set_request_id i n s) = hw s" "CmdBuf (mdev (set_request_id i n s)) = CmdBuf (mdev s)" "wrptr (mdev (set_request_id i n s)) = wrptr (mdev s)"
  "md_size (mdev (set_request_id i n s)) = md_size (mdev s)" "CmdBase (mdev (set_request_id i n s)) = CmdBase (mdev s)"
  "copy_counter (mdev (set_request_id i n s)) = copy_counter (mdev s)" "md_handle (set_request_id i n s) = md_handle s"
  "copy_task (mdev (set_request_id i n s)) = (copy_task (mdev s))[i := (copy_task (mdev s) ! i)\<lparr>request_id := n\<rparr>]"
  by (simp_all add: set_request_id_def md_handle_def)

text \<open>One turn of the copy loop.\<close>

lemma copy_turn:
  assumes "\<exists>w. md_ring s r w" "smq_moves (CmdBase (mdev s)) step" "smq_drains (CmdBase (mdev s)) step" "len \<noteq> 0" "i < length (copy_task (mdev s))"
  obtains s' r' where "copy_loop step i dir len addrDst addrSrc s =
      copy_loop step i dir (len - copy_chunk addrSrc len) (addrDst + copy_chunk addrSrc len) (addrSrc + copy_chunk addrSrc len) s'"
    "issued s r [copy_word dir, addrDst, addrSrc, copy_chunk addrSrc len] s' r'"
    "copy_task (mdev s') = (copy_task (mdev s))[i := (copy_task (mdev s) ! i)\<lparr>request_id := md_handle s'\<rparr>]"
    "copy_counter (mdev s') = copy_counter (mdev s)" "md_handle s' = md_handle s + 1"
proof -
  obtain w where w: "md_ring s r w" using assms(1) by blast
  obtain t r' where t: "md_write step [copy_word dir, addrDst, addrSrc, copy_chunk addrSrc len] s = Some (md_handle t, t)"
    "md_handle t = md_handle s + 1" "md_frame s t" "issued s r [copy_word dir, addrDst, addrSrc, copy_chunk addrSrc len] t r'"
    using md_write_issued [OF w assms(2,3), of "[copy_word dir, addrDst, addrSrc, copy_chunk addrSrc len]"] by auto
  let ?u = "set_request_id i (md_handle t) t"
  have "copy_loop step i dir len addrDst addrSrc s =
      copy_loop step i dir (len - copy_chunk addrSrc len) (addrDst + copy_chunk addrSrc len) (addrSrc + copy_chunk addrSrc len) ?u"
    using assms(4) t(1) by (subst copy_loop.simps) (simp add: Let_def)
  moreover have "issued s r [copy_word dir, addrDst, addrSrc, copy_chunk addrSrc len] ?u r'"
    by (rule issued_same [OF t(4)]) simp_all
  ultimately show ?thesis using that [of ?u r'] t(2,3) by (simp add: md_frame_def)
qed

lemma copy_loop_issued:
  assumes ring: "\<exists>w. md_ring s r w" and mv: "smq_moves (CmdBase (mdev s)) step" and dr: "smq_drains (CmdBase (mdev s)) step"
    and i: "i < length (copy_task (mdev s))"
  shows "\<exists>s' r'. copy_loop step i dir len addrDst addrSrc s = Some s' \<and>
    issued s r (copy_cmds dir addrDst addrSrc (copy_split addrSrc len)) s' r' \<and> copy_counter (mdev s') = copy_counter (mdev s) \<and>
    copy_task (mdev s') = (if len = 0 then copy_task (mdev s) else (copy_task (mdev s))[i := (copy_task (mdev s) ! i)\<lparr>request_id := md_handle s'\<rparr>])"
proof -
  have stop: "copy_loop step i dir 0 d a t = Some t" for d a t by (subst copy_loop.simps) simp
  consider "len = 0" | "len \<noteq> 0" "\<not> bad_length addrSrc len" | "len \<noteq> 0" "bad_length addrSrc len" by blast
  then show ?thesis
  proof cases
    case 1
    then have "issued s r (copy_cmds dir addrDst addrSrc (copy_split addrSrc len)) s r"
      using ring by (auto simp: issued_def copy_split_def intro: exI [of _ 0])
    then show ?thesis using 1 stop by auto
  next
    case 2
    then have c: "copy_chunk addrSrc len = len" by (simp add: copy_chunk_split)
    from copy_turn [OF ring mv dr 2(1) i, of dir addrDst addrSrc, unfolded c] obtain t r1 where
      "copy_loop step i dir len addrDst addrSrc s = copy_loop step i dir (len - len) (addrDst + len) (addrSrc + len) t"
      "issued s r [copy_word dir, addrDst, addrSrc, len] t r1"
      "copy_task (mdev t) = (copy_task (mdev s))[i := (copy_task (mdev s) ! i)\<lparr>request_id := md_handle t\<rparr>]"
      "copy_counter (mdev t) = copy_counter (mdev s)" by metis
    then show ?thesis using 2 stop by (auto simp: copy_split_def)
  next
    case 3
    have c: "copy_chunk addrSrc len = 8" using 3 by (simp add: copy_chunk_split)
    note c2 = copy_split_second [OF 3(2)]
    from copy_turn [OF ring mv dr 3(1) i, of dir addrDst addrSrc, unfolded c] obtain t r1 where t:
      "copy_loop step i dir len addrDst addrSrc s = copy_loop step i dir (len - 8) (addrDst + 8) (addrSrc + 8) t"
      "issued s r [copy_word dir, addrDst, addrSrc, 8] t r1"
      "copy_task (mdev t) = (copy_task (mdev s))[i := (copy_task (mdev s) ! i)\<lparr>request_id := md_handle t\<rparr>]"
      "copy_counter (mdev t) = copy_counter (mdev s)" by metis
    have t': "\<exists>w. md_ring t r1 w" "smq_moves (CmdBase (mdev t)) step" "smq_drains (CmdBase (mdev t)) step" "i < length (copy_task (mdev t))"
      using t(2,3) mv dr i by (auto simp: issued_def)
    from copy_turn [OF t'(1-3) c2(3) t'(4), of dir "addrDst + 8" "addrSrc + 8", unfolded c2(1)] obtain u r2 where u:
      "copy_loop step i dir (len - 8) (addrDst + 8) (addrSrc + 8) t =
         copy_loop step i dir (len - 8 - (len - 8)) (addrDst + 8 + (len - 8)) (addrSrc + 8 + (len - 8)) u"
      "issued t r1 [copy_word dir, addrDst + 8, addrSrc + 8, len - 8] u r2"
      "copy_task (mdev u) = (copy_task (mdev t))[i := (copy_task (mdev t) ! i)\<lparr>request_id := md_handle u\<rparr>]"
      "copy_counter (mdev u) = copy_counter (mdev t)" by metis
    have "issued s r ([copy_word dir, addrDst, addrSrc, 8] @ [copy_word dir, addrDst + 8, addrSrc + 8, len - 8]) u r2"
      by (rule issued_trans [OF t(2) u(2)])
    then show ?thesis using 3 t u stop i by (auto simp: copy_split_def)
  qed
qed

lemma alloc_issued:
  fixes dst src len :: u32
  assumes ring: "md_ring s r w" and mv: "smq_moves (CmdBase (mdev s)) step" and run: "md_state (mdev s) \<noteq> 1"
    and n: "length (copy_task (mdev s)) = 64"
    and free: "request_id (copy_task (mdev (md_check_copy_tasks step s)) ! copy_slot (copy_counter (mdev s))) = 0"
  defines "i \<equiv> copy_slot (copy_counter (mdev s))"
  obtains s' r' where "md_alloc_copy_request step dst src len dir s = (Some i, s')" "issued s r [] s' r'"
    "copy_counter (mdev s') = copy_counter (mdev s) + 1" "length (copy_task (mdev s')) = 64" "i < 64"
    "copy_id (copy_task (mdev s') ! i) = copy_counter (mdev s)" "c_len (copy_task (mdev s') ! i) = len" "c_dir (copy_task (mdev s') ! i) = dir"
    "dma_dst (copy_task (mdev s') ! i) = virt_to_phys dst" "dma_src (copy_task (mdev s') ! i) = virt_to_phys src"
proof -
  let ?t = "md_check_copy_tasks step s"
  note tf = md_check_copy_tasks_fields [of step s]
  have i64: "i < 64" by (simp add: i_def copy_slot_def)
  obtain k where k: "k \<le> ring_dist r w" "md_ring ?t ((r + k) mod 4096) w" "pending ?t ((r + k) mod 4096) = drop k (pending s r)"
    using md_check_copy_tasks_ring [OF ring mv] by blast
  have "length (pending s r) = ring_dist r w" using ring by (simp add: pending_def md_ring_def)
  then have iss: "issued s r [] ?t ((r + k) mod 4096)" using k tf(3) unfolding issued_def by auto
  let ?req = "(copy_task (mdev ?t) ! i)\<lparr>c_dst := dst, c_src := src, c_len := len, c_dir := dir,
      dma_dst := virt_to_phys dst, dma_src := virt_to_phys src, copy_id := copy_counter (mdev s)\<rparr>"
  let ?s = "?t\<lparr>mdev := (mdev ?t)\<lparr>copy_task := (copy_task (mdev ?t))[i := ?req], copy_counter := copy_counter (mdev s) + 1\<rparr>\<rparr>"
  have al: "md_alloc_copy_request step dst src len dir s = (Some i, ?s)"
    using run free tf by (simp add: md_alloc_copy_request_def Let_def i_def)
  have "issued s r [] ?s ((r + k) mod 4096)" by (rule issued_same [OF iss]) simp_all
  moreover have "copy_task (mdev ?s) ! i = ?req" using i64 tf(4) n by simp
  ultimately show ?thesis using that [OF al] i64 tf(4) n by simp
qed

lemma copy_start_issued:
  fixes dst src len :: u32
  assumes ring: "md_ring s r w" and mv: "smq_moves (CmdBase (mdev s)) step" and dr: "smq_drains (CmdBase (mdev s)) step"
    and run: "md_state (mdev s) \<noteq> 1" and n: "length (copy_task (mdev s)) = 64"
    and free: "request_id (copy_task (mdev (md_check_copy_tasks step s)) ! copy_slot (copy_counter (mdev s))) = 0"
  shows "\<exists>s' r'. md_copy_start step dst src len dir s = Some (copy_counter (mdev s), s') \<and>
    issued s r (copy_cmds dir (virt_to_phys dst) (virt_to_phys src) (copy_split (virt_to_phys src) len)) s' r' \<and>
    copy_counter (mdev s') = copy_counter (mdev s) + 1 \<and>
    (len \<noteq> 0 \<longrightarrow> request_id (copy_task (mdev s') ! copy_slot (copy_counter (mdev s))) = md_handle s')"
proof -
  define i where "i = copy_slot (copy_counter (mdev s))"
  from alloc_issued [OF ring mv run n free, folded i_def, of dst src len dir] obtain t r1 where
    t: "md_alloc_copy_request step dst src len dir s = (Some i, t)" "issued s r [] t r1"
    "copy_counter (mdev t) = copy_counter (mdev s) + 1" "length (copy_task (mdev t)) = 64" "i < 64"
    "copy_id (copy_task (mdev t) ! i) = copy_counter (mdev s)" "c_dir (copy_task (mdev t) ! i) = dir"
    "dma_dst (copy_task (mdev t) ! i) = virt_to_phys dst" "dma_src (copy_task (mdev t) ! i) = virt_to_phys src"
    by metis
  have t': "\<exists>w. md_ring t r1 w" "smq_moves (CmdBase (mdev t)) step" "smq_drains (CmdBase (mdev t)) step" "i < length (copy_task (mdev t))"
    using t mv dr by (auto simp: issued_def)
  from copy_loop_issued [OF t', of dir len "virt_to_phys dst" "virt_to_phys src"] obtain u r2 where
    u: "copy_loop step i dir len (virt_to_phys dst) (virt_to_phys src) t = Some u"
    "issued t r1 (copy_cmds dir (virt_to_phys dst) (virt_to_phys src) (copy_split (virt_to_phys src) len)) u r2"
    "copy_counter (mdev u) = copy_counter (mdev t)"
    "copy_task (mdev u) = (if len = 0 then copy_task (mdev t) else (copy_task (mdev t))[i := (copy_task (mdev t) ! i)\<lparr>request_id := md_handle u\<rparr>])"
    by blast
  have c: "md_copy_start step dst src len dir s = Some (copy_counter (mdev s), u)"
    using t u(1,4) t'(4) by (simp add: md_copy_start_def)
  show ?thesis using c issued_trans [OF t(2) u(2)] u(3,4) t(3) t'(4) unfolding i_def [symmetric] by auto
qed

text \<open>
  A copy is issued as commands for consecutive chunks that cover the length, at most two, none of a
  length the engine mishandles; the engine receives exactly these words, in order, behind what was
  pending before. The copy gets the next identifier, and its request carries the handle of
  its last command.
\<close>

theorem md_copy_commands:
  fixes dst src len :: u32
  assumes "md_ring s r w" "smq_moves (CmdBase (mdev s)) step" "smq_drains (CmdBase (mdev s)) step"
    "md_state (mdev s) \<noteq> 1" "length (copy_task (mdev s)) = 64"
    "request_id (copy_task (mdev (md_check_copy_tasks step s)) ! copy_slot (copy_counter (mdev s))) = 0" "len \<noteq> 0"
  shows "\<exists>s' r' k ls. md_copy_start step dst src len dir s = Some (copy_counter (mdev s), s') \<and>
    k \<le> length (pending s r @ copy_cmds dir (virt_to_phys dst) (virt_to_phys src) ls) \<and>
    pending s' r' = drop k (pending s r @ copy_cmds dir (virt_to_phys dst) (virt_to_phys src) ls) \<and>
    sum_list ls = len \<and> length ls \<le> 2 \<and> (\<forall>j < length ls. ls ! j \<noteq> 0 \<and> \<not> bad_length (virt_to_phys src + sum_list (take j ls)) (ls ! j)) \<and>
    copy_counter (mdev s') = copy_counter (mdev s) + 1 \<and>
    request_id (copy_task (mdev s') ! copy_slot (copy_counter (mdev s))) = md_handle s'"
proof -
  let ?ls = "copy_split (virt_to_phys src) len"
  obtain s' r' where s': "md_copy_start step dst src len dir s = Some (copy_counter (mdev s), s')"
    "issued s r (copy_cmds dir (virt_to_phys dst) (virt_to_phys src) ?ls) s' r'"
    "copy_counter (mdev s') = copy_counter (mdev s) + 1"
    "request_id (copy_task (mdev s') ! copy_slot (copy_counter (mdev s))) = md_handle s'"
    using copy_start_issued [OF assms(1-6)] assms(7) by blast
  have ls: "sum_list ?ls = len" "length ?ls \<le> 2" by (simp_all add: copy_split_def)
  have ok: "\<forall>j < length ?ls. ?ls ! j \<noteq> 0 \<and> \<not> bad_length (virt_to_phys src + sum_list (take j ?ls)) (?ls ! j)"
  proof (cases "bad_length (virt_to_phys src) len")
    case True
    have "\<not> bad_length (virt_to_phys src) 8" by (simp add: bad_length_def)
    then show ?thesis using True assms(7) copy_split_second [OF True] by (auto simp: copy_split_def less_Suc_eq)
  next
    case False
    then show ?thesis using assms(7) by (simp add: copy_split_def)
  qed
  show ?thesis using s' ls ok unfolding issued_def by blast
qed

lemma sample_md_copy:
  "md_state (mdev sample_md) \<noteq> 1" "length (copy_task (mdev sample_md)) = 64" "copy_counter (mdev sample_md) = 0"
  "request_id (copy_task (mdev (md_check_copy_tasks sample_step sample_md)) ! copy_slot (copy_counter (mdev sample_md))) = 0"
proof -
  show a: "md_state (mdev sample_md) \<noteq> 1" "length (copy_task (mdev sample_md)) = 64" "copy_counter (mdev sample_md) = 0"
    by (simp_all add: sample_md_def md_dev_zero_def)
  have "md_check_copy_tasks sample_step sample_md = sample_md"
    by (subst md_check_copy_tasks.simps) (simp add: a)
  then show "request_id (copy_task (mdev (md_check_copy_tasks sample_step sample_md)) ! copy_slot (copy_counter (mdev sample_md))) = 0"
    by (simp add: copy_slot_def sample_md_def md_dev_zero_def zero_copy_def)
qed

theorem md_copy_commands_witness:
  "\<exists>s' (ls :: u32 list). md_copy_start sample_step 0x80001000 0x80002000 264 True sample_md = Some (0, s') \<and> sum_list ls = 264 \<and> length ls \<le> 2"
  using md_copy_commands [OF sample_md_ring(1) sample_step_engine sample_md_copy(1,2,4), where len = 264 and dst = "0x80001000" and src = "0x80002000" and dir = True]
  by (auto simp: sample_md_copy(3))

text \<open>
  Identifiers start at 0, which is also the value for a failed start: the first copy after the driver
  was opened is issued with all its commands, but \<open>md_memcpy\<close> does not wait for it and reports failure.
\<close>

theorem md_first_copy_reported_failed:
  fixes dst src len :: u32
  assumes "md_ring s r w" "smq_moves (CmdBase (mdev s)) step" "smq_drains (CmdBase (mdev s)) step"
    "md_state (mdev s) \<noteq> 1" "length (copy_task (mdev s)) = 64"
    "request_id (copy_task (mdev (md_check_copy_tasks step s)) ! copy_slot (copy_counter (mdev s))) = 0"
    "copy_counter (mdev s) = 0"
  shows "\<exists>s' r' k. md_memcpy step dst src len forward s = Some (- 1, s') \<and>
    k \<le> length (pending s r @ copy_cmds forward (virt_to_phys dst) (virt_to_phys src) (copy_split (virt_to_phys src) len)) \<and>
    pending s' r' = drop k (pending s r @ copy_cmds forward (virt_to_phys dst) (virt_to_phys src) (copy_split (virt_to_phys src) len))"
proof -
  obtain s' r' where "md_copy_start step dst src len forward s = Some (0, s')"
    "issued s r (copy_cmds forward (virt_to_phys dst) (virt_to_phys src) (copy_split (virt_to_phys src) len)) s' r'"
    using copy_start_issued [OF assms(1-6), of dst src len forward] assms(7) by auto
  moreover then have "md_memcpy step dst src len forward s = Some (- 1, s')" by (simp add: md_memcpy_def)
  ultimately show ?thesis unfolding issued_def by blast
qed

theorem md_first_copy_reported_failed_witness:
  "\<exists>s'. md_memcpy sample_step 0x80001000 0x80002000 16 True sample_md = Some (- 1, s')"
  using md_first_copy_reported_failed [OF sample_md_ring(1) sample_step_engine sample_md_copy(1,2,4,3), where len = 16 and dst = "0x80001000" and src = "0x80002000" and forward = True]
  by blast

end
