(* ===== verification/Klist.thy ===== *)
theory Klist
  imports Prelude
begin

text \<open>
  The kernel's circular doubly linked lists (\<open>include/linux/list.h\<close>), which the buffer queues are
  built on: the \<open>next\<close> and \<open>prev\<close> fields of the nodes as maps from addresses, the list operations as
  updates of these maps, and their effect on the sequence of nodes a list represents.
\<close>

section \<open>Nodes and operations\<close>

record list_mem =
  nxt :: "nat \<Rightarrow> nat"
  prv :: "nat \<Rightarrow> nat"

definition set_nxt :: "nat \<Rightarrow> nat \<Rightarrow> list_mem \<Rightarrow> list_mem" where
  "set_nxt a v h = h\<lparr>nxt := (nxt h)(a := v)\<rparr>"

definition set_prv :: "nat \<Rightarrow> nat \<Rightarrow> list_mem \<Rightarrow> list_mem" where
  "set_prv a v h = h\<lparr>prv := (prv h)(a := v)\<rparr>"

definition INIT_LIST_HEAD :: "nat \<Rightarrow> list_mem \<Rightarrow> list_mem" where
  "INIT_LIST_HEAD ptr h = set_prv ptr ptr (set_nxt ptr ptr h)"

definition list_add_between :: "nat \<Rightarrow> nat \<Rightarrow> nat \<Rightarrow> list_mem \<Rightarrow> list_mem" where
  "list_add_between new prev next h =
     set_nxt prev new (set_prv new prev (set_nxt new next (set_prv next new h)))"

definition list_add :: "nat \<Rightarrow> nat \<Rightarrow> list_mem \<Rightarrow> list_mem" where
  "list_add new head h = list_add_between new head (nxt h head) h"

definition list_add_tail :: "nat \<Rightarrow> nat \<Rightarrow> list_mem \<Rightarrow> list_mem" where
  "list_add_tail new head h = list_add_between new (prv h head) head h"

definition list_del_between :: "nat \<Rightarrow> nat \<Rightarrow> list_mem \<Rightarrow> list_mem" where
  "list_del_between prev next h = set_nxt prev next (set_prv next prev h)"

definition list_del_init :: "nat \<Rightarrow> list_mem \<Rightarrow> list_mem" where
  "list_del_init entry h = INIT_LIST_HEAD entry (list_del_between (prv h entry) (nxt h entry) h)"

definition list_empty :: "nat \<Rightarrow> list_mem \<Rightarrow> bool" where
  "list_empty head h \<longleftrightarrow> nxt h head = head"

lemmas list_op_defs = set_nxt_def set_prv_def INIT_LIST_HEAD_def list_add_between_def list_del_between_def

section \<open>The sequence a list represents\<close>

fun linked :: "list_mem \<Rightarrow> nat list \<Rightarrow> bool" where
  "linked h (a # b # zs) \<longleftrightarrow> nxt h a = b \<and> prv h b = a \<and> linked h (b # zs)"
| "linked h _ \<longleftrightarrow> True"

definition dlist :: "list_mem \<Rightarrow> nat \<Rightarrow> nat list \<Rightarrow> bool" where
  "dlist h head xs \<longleftrightarrow> distinct (head # xs) \<and> linked h (head # xs @ [head])"

lemma linked_append: "linked h (xs @ a # ys) \<longleftrightarrow> linked h (xs @ [a]) \<and> linked h (a # ys)"
  by (induction xs rule: induct_list012) (auto simp: neq_Nil_conv)

lemma linked_cong:
  assumes "\<And>a. a \<in> set (butlast zs) \<Longrightarrow> nxt h' a = nxt h a" "\<And>a. a \<in> set (tl zs) \<Longrightarrow> prv h' a = prv h a"
  shows "linked h' zs \<longleftrightarrow> linked h zs"
  using assms by (induction h zs rule: linked.induct) (auto split: if_splits)

text \<open>Cutting a circular list at two neighbours.\<close>

lemma dlist_cut:
  assumes "dlist h head (xs @ ys)"
  defines "p \<equiv> last (head # xs)" and "n \<equiv> hd (ys @ [head])"
  shows "linked h (head # xs)" "nxt h p = n" "prv h n = p" "linked h (ys @ [head])"
    "p \<in> set (head # xs)" "p \<notin> set (butlast (head # xs))" "n \<notin> set (tl (head # xs))"
    "n \<notin> set (tl (ys @ [head]))" "p \<notin> set (butlast (ys @ [head]))" "n \<in> set (ys @ [head])"
proof -
  obtain zs where zs: "head # xs = zs @ [p]" unfolding p_def by (metis append_butlast_last_id list.distinct(1))
  obtain ws where ws: "ys @ [head] = n # ws" unfolding n_def by (cases ys) auto
  have l: "linked h (zs @ p # n # ws)" using assms(1) zs ws by (metis append_Cons append_assoc append_Nil dlist_def)
  have d: "distinct (zs @ [p] @ ys)" using assms(1) zs by (metis append_Cons append_assoc dlist_def)
  have s: "linked h (zs @ [p])" "nxt h p = n" "prv h n = p" "linked h (n # ws)"
    using l linked_append [of h zs p "n # ws"] by auto
  show "linked h (head # xs)" "nxt h p = n" "prv h n = p" "linked h (ys @ [head])" using s zs ws by simp_all
  show "p \<in> set (head # xs)" by (simp add: p_def)
  show "p \<notin> set (butlast (head # xs))" using zs d by simp
  show "p \<notin> set (butlast (ys @ [head]))" using d by simp
  show "n \<in> set (ys @ [head])" using ws by simp
  have hd: "distinct (head # xs @ ys)" using assms(1) by (simp add: dlist_def)
  show "n \<notin> set (tl (head # xs))" "n \<notin> set (tl (ys @ [head]))"
    using hd by (cases ys; auto simp: n_def)+
qed

text \<open>Inserting a node that is in no list between two neighbours, and taking one out.\<close>

lemma dlist_insert:
  assumes "dlist h head (xs @ ys)" "new \<notin> set (head # xs @ ys)"
  shows "dlist (list_add_between new (last (head # xs)) (hd (ys @ [head])) h) head (xs @ new # ys)"
proof -
  define p where "p = last (head # xs)"
  define n where "n = hd (ys @ [head])"
  define h' where "h' = list_add_between new p n h"
  note c = dlist_cut [OF assms(1), folded p_def n_def]
  have pn: "p \<noteq> new" "n \<noteq> new" using c(5,10) assms(2) by auto
  have nx: "nxt h' a = (if a = p then new else if a = new then n else nxt h a)"
    and pr: "prv h' a = (if a = new then p else if a = n then new else prv h a)" for a
    using pn by (auto simp: h'_def list_op_defs)
  have l1: "linked h' (head # xs)"
  proof -
    have "nxt h' a = nxt h a" if "a \<in> set (butlast (head # xs))" for a
      using that c(6) assms(2) in_set_butlastD [OF that] by (auto simp: nx)
    moreover have "prv h' a = prv h a" if "a \<in> set (tl (head # xs))" for a
      using that c(7) assms(2) by (auto simp: pr)
    ultimately show ?thesis using linked_cong c(1) by blast
  qed
  have l2: "linked h' (ys @ [head])"
  proof -
    have "nxt h' a = nxt h a" if "a \<in> set (butlast (ys @ [head]))" for a
      using that c(9) assms(2) by (auto simp: nx)
    moreover have "prv h' a = prv h a" if "a \<in> set (tl (ys @ [head]))" for a
      using that c(8) assms(2) by (cases ys) (auto simp: pr)
    ultimately show ?thesis using linked_cong c(4) by blast
  qed
  obtain zs where zs: "head # xs = zs @ [p]" unfolding p_def by (metis append_butlast_last_id list.distinct(1))
  obtain ws where ws: "ys @ [head] = n # ws" unfolding n_def by (cases ys) auto
  have "linked h' (zs @ p # new # n # ws)"
    using l1 l2 pn linked_append [of h' zs p "new # n # ws"] by (simp add: zs ws nx pr)
  then have "linked h' (head # (xs @ new # ys) @ [head])" using zs ws by (metis append_Cons append_assoc append_Nil)
  then show ?thesis using assms by (auto simp: dlist_def h'_def p_def n_def)
qed

lemma dlist_remove:
  assumes "dlist h head (xs @ e # ys)"
  shows "dlist (list_del_init e h) head (xs @ ys)" "nxt (list_del_init e h) e = e" "prv (list_del_init e h) e = e"
proof -
  define p where "p = last (head # xs)"
  define n where "n = hd (ys @ [head])"
  note c = dlist_cut [OF assms, folded p_def]
  note c2 = dlist_cut [of h head "xs @ [e]" ys, simplified, folded n_def] assms
  have d: "distinct (head # xs @ e # ys)" using assms by (simp add: dlist_def)
  have e1: "prv h e = p" using c(3) by simp
  have "linked h (e # ys @ [head])" using c(4) by simp
  then have e2: "nxt h e = n" and l: "linked h (ys @ [head])"
    by (cases ys; simp add: n_def)+
  have pe: "p \<noteq> e" using c(5) d by auto
  have ne: "n \<noteq> e" using d by (cases ys) (auto simp: n_def)
  define h' where "h' = list_del_init e h"
  have nx: "nxt h' a = (if a = e then e else if a = p then n else nxt h a)"
    and pr: "prv h' a = (if a = e then e else if a = n then p else prv h a)" for a
    using pe ne by (auto simp: h'_def list_del_init_def list_op_defs e1 e2)
  have nn: "n \<notin> set (tl (head # xs))" "n \<notin> set (tl (ys @ [head]))"
    using d by (cases ys; auto simp: n_def)+
  have pb: "p \<notin> set (butlast (head # xs))" "p \<notin> set (butlast (ys @ [head]))"
    using c(6) c(5) d by auto
  have l1: "linked h' (head # xs)"
  proof -
    have "nxt h' a = nxt h a" if "a \<in> set (butlast (head # xs))" for a
      using that pb(1) d in_set_butlastD [OF that] by (auto simp: nx)
    moreover have "prv h' a = prv h a" if "a \<in> set (tl (head # xs))" for a
      using that nn(1) d by (auto simp: pr)
    ultimately show ?thesis using linked_cong c(1) by blast
  qed
  have l2: "linked h' (ys @ [head])"
  proof -
    have "nxt h' a = nxt h a" if "a \<in> set (butlast (ys @ [head]))" for a
      using that pb(2) d by (auto simp: nx)
    moreover have "prv h' a = prv h a" if "a \<in> set (tl (ys @ [head]))" for a
      using that nn(2) d by (cases ys) (auto simp: pr)
    ultimately show ?thesis using linked_cong l by blast
  qed
  obtain zs where zs: "head # xs = zs @ [p]" unfolding p_def by (metis append_butlast_last_id list.distinct(1))
  obtain ws where ws: "ys @ [head] = n # ws" unfolding n_def by (cases ys) auto
  have "linked h' (zs @ p # n # ws)"
    using l1 l2 pe ne linked_append [of h' zs p "n # ws"] by (simp add: zs ws nx pr)
  then have "linked h' (head # (xs @ ys) @ [head])" using zs ws by (metis append_Cons append_assoc append_Nil)
  then show "dlist (list_del_init e h) head (xs @ ys)" using d by (auto simp: dlist_def h'_def)
  show "nxt (list_del_init e h) e = e" "prv (list_del_init e h) e = e" using nx pr by (simp_all add: h'_def [symmetric])
qed

section \<open>The operations on the sequence\<close>

lemma dlist_init: "dlist (INIT_LIST_HEAD head h) head []"
  by (simp add: dlist_def list_op_defs)

lemma dlist_first: "dlist h head xs \<Longrightarrow> nxt h head = hd (xs @ [head])"
  by (cases xs) (auto simp: dlist_def)

lemma dlist_last: "dlist h head xs \<Longrightarrow> prv h head = last (head # xs)"
  using dlist_cut(3) [of h head xs "[]"] by simp

lemma list_empty_iff: "dlist h head xs \<Longrightarrow> list_empty head h \<longleftrightarrow> xs = []"
  using dlist_first [of h head xs] by (cases xs) (auto simp: list_empty_def dlist_def)

lemma list_add_spec: "dlist h head xs \<Longrightarrow> new \<notin> set (head # xs) \<Longrightarrow> dlist (list_add new head h) head (new # xs)"
  using dlist_insert [of h head "[]" xs new] by (simp add: list_add_def dlist_first)

lemma list_add_tail_spec:
  "dlist h head xs \<Longrightarrow> new \<notin> set (head # xs) \<Longrightarrow> dlist (list_add_tail new head h) head (xs @ [new])"
  using dlist_insert [of h head xs "[]" new] by (simp add: list_add_tail_def dlist_last)

lemma list_del_first_spec:
  "dlist h head (x # xs) \<Longrightarrow> nxt h head = x \<and> dlist (list_del_init x h) head xs"
  using dlist_remove(1) [of h head "[]" x xs] dlist_first [of h head "x # xs"] by simp

lemma list_del_last_spec:
  "dlist h head (xs @ [x]) \<Longrightarrow> prv h head = x \<and> dlist (list_del_init x h) head xs"
  using dlist_remove(1) [of h head xs x "[]"] dlist_last [of h head "xs @ [x]"] by simp

end
