(* ===== verification/Msg_Buffers.thy ===== *)
theory Msg_Buffers
  imports Klist
begin

text \<open>
  The three message buffers of the platform drivers: \<open>cm_buff\<close> (CEC), \<open>sc_buff\<close> (smart card) and
  \<open>mcp_buff\<close> (cryptographic engine). Each is a region with a head and a tail reserve around its
  payload; the first two can be queued on kernel lists. The shared contracts are two locales: a
  buffer whose payload grows and shrinks at both ends, and a double-ended queue of buffers.
\<close>

section \<open>CEC message buffers\<close>

text \<open>
  \<open>cm_buff\<close> of \<open>drivers/cec/core/cm_buff.c\<close>. Pointers are integers (a pointer may be moved outside the buffer; the code only prints a
  warning then), the length is an unsigned byte.
\<close>

record cm_buff =
  cm_status :: u8
  cm_flags :: u8
  cm_head :: int
  cm_data :: int
  cm_tail :: int
  cm_end :: int
  cm_len :: u8

text \<open>The address \<open>mem\<close> is that of the bytes behind the structure, \<open>None\<close> when \<open>kmalloc\<close> fails.\<close>

definition alloc_cmb :: "nat option \<Rightarrow> nat \<Rightarrow> cm_buff option" where
  "alloc_cmb mem sz =
     (case mem of
        None \<Rightarrow> None
      | Some a \<Rightarrow> Some \<lparr>cm_status = 0, cm_flags = 0, cm_head = int a, cm_data = int a, cm_tail = int a,
                       cm_end = int a + int sz, cm_len = 0\<rparr>)"

definition cmb_tailroom :: "cm_buff \<Rightarrow> int" where
  "cmb_tailroom b = cm_end b - cm_tail b"

definition cmb_reserve :: "nat \<Rightarrow> cm_buff \<Rightarrow> cm_buff" where
  "cmb_reserve n b = b\<lparr>cm_data := cm_data b + int n, cm_tail := cm_tail b + int n\<rparr>"

definition cmb_put :: "nat \<Rightarrow> cm_buff \<Rightarrow> int \<times> cm_buff" where
  "cmb_put n b = (cm_tail b, b\<lparr>cm_tail := cm_tail b + int n, cm_len := cm_len b + of_nat n\<rparr>)"

definition cmb_push :: "nat \<Rightarrow> cm_buff \<Rightarrow> int \<times> cm_buff" where
  "cmb_push n b =
     (let b = b\<lparr>cm_data := cm_data b - int n, cm_len := cm_len b + of_nat n\<rparr> in (cm_data b, b))"

definition cmb_pull :: "nat \<Rightarrow> cm_buff \<Rightarrow> int option \<times> cm_buff" where
  "cmb_pull n b =
     (if n \<le> unat (cm_len b)
      then let b = b\<lparr>cm_data := cm_data b + int n, cm_len := cm_len b - of_nat n\<rparr> in (Some (cm_data b), b)
      else (None, b))"

definition cmb_purge :: "cm_buff \<Rightarrow> cm_buff" where
  "cmb_purge b = b\<lparr>cm_data := cm_head b, cm_tail := cm_head b, cm_len := 0\<rparr>"

text \<open>The queue: the address of its list head, and the count. Node and buffer have the same address.\<close>

record cm_buff_head =
  cm_list :: nat
  cm_qlen :: u32

definition cmb_queue_head_init :: "list_mem \<times> cm_buff_head \<Rightarrow> list_mem \<times> cm_buff_head" where
  "cmb_queue_head_init s = (let (h, q) = s in (INIT_LIST_HEAD (cm_list q) h, q\<lparr>cm_qlen := 0\<rparr>))"

definition cmb_queue_head :: "nat \<Rightarrow> list_mem \<times> cm_buff_head \<Rightarrow> list_mem \<times> cm_buff_head" where
  "cmb_queue_head b s = (let (h, q) = s in (list_add b (cm_list q) h, q\<lparr>cm_qlen := cm_qlen q + 1\<rparr>))"

definition cmb_queue_tail :: "nat \<Rightarrow> list_mem \<times> cm_buff_head \<Rightarrow> list_mem \<times> cm_buff_head" where
  "cmb_queue_tail b s = (let (h, q) = s in (list_add_tail b (cm_list q) h, q\<lparr>cm_qlen := cm_qlen q + 1\<rparr>))"

definition cmb_dequeue :: "list_mem \<times> cm_buff_head \<Rightarrow> nat option \<times> list_mem \<times> cm_buff_head" where
  "cmb_dequeue s =
     (let (h, q) = s in
      if list_empty (cm_list q) h then (None, h, q)
      else let b = nxt h (cm_list q) in (Some b, list_del_init b h, q\<lparr>cm_qlen := cm_qlen q - 1\<rparr>))"

definition cmb_dequeue_tail :: "list_mem \<times> cm_buff_head \<Rightarrow> nat option \<times> list_mem \<times> cm_buff_head" where
  "cmb_dequeue_tail s =
     (let (h, q) = s in
      if list_empty (cm_list q) h then (None, h, q)
      else let b = prv h (cm_list q) in (Some b, list_del_init b h, q\<lparr>cm_qlen := cm_qlen q - 1\<rparr>))"

definition cmb_queue_len :: "cm_buff_head \<Rightarrow> u32" where
  "cmb_queue_len q = cm_qlen q"

text \<open>The purge loop frees what it takes off the list; the buffers freed are returned in order.\<close>

partial_function (option) cmb_queue_purge ::
  "list_mem \<times> cm_buff_head \<Rightarrow> (nat list \<times> list_mem \<times> cm_buff_head) option" where
  [code]: "cmb_queue_purge s =
     (case cmb_dequeue s of
        (None, s') \<Rightarrow> Some ([], s')
      | (Some b, s') \<Rightarrow>
          Option.bind (cmb_queue_purge s') (\<lambda>(freed, s''). Some (b # freed, s'')))"

section \<open>Smart card buffers\<close>

text \<open>
  \<open>sc_buff\<close> of \<open>drivers/smartcard/core/scd_buff.c\<close>. Pointers are integers (a pointer may be moved outside the buffer; the code only prints a
  warning then), the length is an unsigned byte.
\<close>

record sc_buff =
  sc_status :: u8
  sc_flags :: u8
  sc_head :: int
  sc_data :: int
  sc_tail :: int
  sc_end :: int
  sc_len :: u8

text \<open>The address \<open>mem\<close> is that of the bytes behind the structure, \<open>None\<close> when \<open>kmalloc\<close> fails.\<close>

definition alloc_scb :: "nat option \<Rightarrow> nat \<Rightarrow> sc_buff option" where
  "alloc_scb mem sz =
     (case mem of
        None \<Rightarrow> None
      | Some a \<Rightarrow> Some \<lparr>sc_status = 0, sc_flags = 0, sc_head = int a, sc_data = int a, sc_tail = int a,
                       sc_end = int a + int sz, sc_len = 0\<rparr>)"

definition scb_tailroom :: "sc_buff \<Rightarrow> int" where
  "scb_tailroom b = sc_end b - sc_tail b"

definition scb_reserve :: "nat \<Rightarrow> sc_buff \<Rightarrow> sc_buff" where
  "scb_reserve n b = b\<lparr>sc_data := sc_data b + int n, sc_tail := sc_tail b + int n\<rparr>"

definition scb_put :: "nat \<Rightarrow> sc_buff \<Rightarrow> int \<times> sc_buff" where
  "scb_put n b = (sc_tail b, b\<lparr>sc_tail := sc_tail b + int n, sc_len := sc_len b + of_nat n\<rparr>)"

definition scb_push :: "nat \<Rightarrow> sc_buff \<Rightarrow> int \<times> sc_buff" where
  "scb_push n b =
     (let b = b\<lparr>sc_data := sc_data b - int n, sc_len := sc_len b + of_nat n\<rparr> in (sc_data b, b))"

definition scb_pull :: "nat \<Rightarrow> sc_buff \<Rightarrow> int option \<times> sc_buff" where
  "scb_pull n b =
     (if n \<le> unat (sc_len b)
      then let b = b\<lparr>sc_data := sc_data b + int n, sc_len := sc_len b - of_nat n\<rparr> in (Some (sc_data b), b)
      else (None, b))"

definition scb_purge :: "sc_buff \<Rightarrow> sc_buff" where
  "scb_purge b = b\<lparr>sc_data := sc_head b, sc_tail := sc_head b, sc_len := 0\<rparr>"

text \<open>The queue: the address of its list head, and the count. Node and buffer have the same address.\<close>

record sc_buff_head =
  sc_list :: nat
  sc_qlen :: u32

definition scb_queue_head_init :: "list_mem \<times> sc_buff_head \<Rightarrow> list_mem \<times> sc_buff_head" where
  "scb_queue_head_init s = (let (h, q) = s in (INIT_LIST_HEAD (sc_list q) h, q\<lparr>sc_qlen := 0\<rparr>))"

definition scb_queue_head :: "nat \<Rightarrow> list_mem \<times> sc_buff_head \<Rightarrow> list_mem \<times> sc_buff_head" where
  "scb_queue_head b s = (let (h, q) = s in (list_add b (sc_list q) h, q\<lparr>sc_qlen := sc_qlen q + 1\<rparr>))"

definition scb_queue_tail :: "nat \<Rightarrow> list_mem \<times> sc_buff_head \<Rightarrow> list_mem \<times> sc_buff_head" where
  "scb_queue_tail b s = (let (h, q) = s in (list_add_tail b (sc_list q) h, q\<lparr>sc_qlen := sc_qlen q + 1\<rparr>))"

definition scb_dequeue :: "list_mem \<times> sc_buff_head \<Rightarrow> nat option \<times> list_mem \<times> sc_buff_head" where
  "scb_dequeue s =
     (let (h, q) = s in
      if list_empty (sc_list q) h then (None, h, q)
      else let b = nxt h (sc_list q) in (Some b, list_del_init b h, q\<lparr>sc_qlen := sc_qlen q - 1\<rparr>))"

definition scb_dequeue_tail :: "list_mem \<times> sc_buff_head \<Rightarrow> nat option \<times> list_mem \<times> sc_buff_head" where
  "scb_dequeue_tail s =
     (let (h, q) = s in
      if list_empty (sc_list q) h then (None, h, q)
      else let b = prv h (sc_list q) in (Some b, list_del_init b h, q\<lparr>sc_qlen := sc_qlen q - 1\<rparr>))"

definition scb_queue_len :: "sc_buff_head \<Rightarrow> u32" where
  "scb_queue_len q = sc_qlen q"

text \<open>The purge loop frees what it takes off the list; the buffers freed are returned in order.\<close>

partial_function (option) scb_queue_purge ::
  "list_mem \<times> sc_buff_head \<Rightarrow> (nat list \<times> list_mem \<times> sc_buff_head) option" where
  [code]: "scb_queue_purge s =
     (case scb_dequeue s of
        (None, s') \<Rightarrow> Some ([], s')
      | (Some b, s') \<Rightarrow>
          Option.bind (scb_queue_purge s') (\<lambda>(freed, s''). Some (b # freed, s'')))"

section \<open>Cryptographic engine buffers\<close>

text \<open>\<open>mcp_buff\<close> of \<open>drivers/mcp/mcp_buff.c\<close>, with 128 bytes reserved at both ends; the length is 32 bits wide.\<close>

record mcp_buff =
  mcp_head :: int
  mcp_data :: int
  mcp_tail :: int
  mcp_end :: int
  mcp_len :: u32

abbreviation (input) MCP_BUFF_HEAD_RESERVE :: nat where "MCP_BUFF_HEAD_RESERVE \<equiv> 128"
abbreviation (input) MCP_BUFF_RESERVE_AREA :: nat where "MCP_BUFF_RESERVE_AREA \<equiv> 256"
abbreviation (input) MAX_MCPB_LEN :: nat where "MAX_MCPB_LEN \<equiv> 4096"
abbreviation (input) SIZEOF_MCP_BUFF :: nat where "SIZEOF_MCP_BUFF \<equiv> 20"

text \<open>\<open>CHECK_BOUNDRARY\<close> only reports; the report is that the condition is violated.\<close>

definition mcpb_check_boundrary :: "mcp_buff \<Rightarrow> bool" where
  "mcpb_check_boundrary b \<longleftrightarrow> \<not> (mcp_data b < mcp_head b \<or> mcp_tail b > mcp_end b \<or> mcp_tail b < mcp_data b)"

text \<open>
  The two allocators, as functions from a size to an address: \<open>dvr_malloc\<close> for large buffers,
  \<open>kmalloc\<close> for the others. The request is computed in \<open>unsigned int\<close>.
\<close>

definition alloc_mcpb_raw :: "(nat \<Rightarrow> nat option) \<Rightarrow> (nat \<Rightarrow> nat option) \<Rightarrow> nat \<Rightarrow> mcp_buff option" where
  "alloc_mcpb_raw dvr_malloc kmalloc n =
     (let len = (n + SIZEOF_MCP_BUFF) mod 2 ^ 32 in
      case (if len \<ge> MAX_MCPB_LEN then dvr_malloc len else kmalloc len) of
        None \<Rightarrow> None
      | Some a \<Rightarrow>
          let head = int a + int SIZEOF_MCP_BUFF
          in Some \<lparr>mcp_head = head, mcp_data = head, mcp_tail = head,
                   mcp_end = head + int len - int SIZEOF_MCP_BUFF, mcp_len = 0\<rparr>)"

definition mcpb_reserve :: "nat \<Rightarrow> mcp_buff \<Rightarrow> mcp_buff" where
  "mcpb_reserve n b = b\<lparr>mcp_data := mcp_data b + int n, mcp_tail := mcp_tail b + int n\<rparr>"

definition alloc_mcpb :: "(nat \<Rightarrow> nat option) \<Rightarrow> (nat \<Rightarrow> nat option) \<Rightarrow> nat \<Rightarrow> mcp_buff option" where
  "alloc_mcpb dvr_malloc kmalloc n =
     (case alloc_mcpb_raw dvr_malloc kmalloc ((n + MCP_BUFF_RESERVE_AREA) mod 2 ^ 32) of
        None \<Rightarrow> None
      | Some b \<Rightarrow> Some (mcpb_reserve MCP_BUFF_HEAD_RESERVE b))"

text \<open>Which allocator a buffer is given back to, and the address: \<open>True\<close> is \<open>dvr_free\<close>.\<close>

definition free_mcpb :: "mcp_buff \<Rightarrow> bool \<times> int" where
  "free_mcpb b =
     (let mcpb = mcp_head b - int SIZEOF_MCP_BUFF; len = mcp_end b - mcpb
      in (len \<ge> int MAX_MCPB_LEN, mcpb))"

definition mcpb_put :: "nat \<Rightarrow> mcp_buff \<Rightarrow> int \<times> mcp_buff" where
  "mcpb_put n b = (mcp_tail b, b\<lparr>mcp_tail := mcp_tail b + int n, mcp_len := mcp_len b + of_nat n\<rparr>)"

definition mcpb_trim :: "nat \<Rightarrow> mcp_buff \<Rightarrow> mcp_buff" where
  "mcpb_trim n b = b\<lparr>mcp_tail := mcp_tail b - int n, mcp_len := mcp_len b - of_nat n\<rparr>"

definition mcpb_push :: "nat \<Rightarrow> mcp_buff \<Rightarrow> int \<times> mcp_buff" where
  "mcpb_push n b =
     (let b = b\<lparr>mcp_data := mcp_data b - int n, mcp_len := mcp_len b + of_nat n\<rparr> in (mcp_data b, b))"

definition mcpb_pull :: "nat \<Rightarrow> mcp_buff \<Rightarrow> int option \<times> mcp_buff" where
  "mcpb_pull n b =
     (if n \<le> unat (mcp_len b)
      then let b = b\<lparr>mcp_data := mcp_data b + int n, mcp_len := mcp_len b - of_nat n\<rparr> in (Some (mcp_data b), b)
      else (None, b))"

definition mcpb_purge_raw :: "mcp_buff \<Rightarrow> mcp_buff" where
  "mcpb_purge_raw b = b\<lparr>mcp_data := mcp_head b, mcp_tail := mcp_head b, mcp_len := 0\<rparr>"

definition mcpb_purge :: "mcp_buff \<Rightarrow> mcp_buff" where
  "mcpb_purge b = mcpb_reserve MCP_BUFF_HEAD_RESERVE (mcpb_purge_raw b)"

definition mcpb_headroom :: "mcp_buff \<Rightarrow> int" where
  "mcpb_headroom b = mcp_data b - mcp_head b"

definition mcpb_tailroom :: "mcp_buff \<Rightarrow> int" where
  "mcpb_tailroom b = mcp_end b - mcp_tail b"

section \<open>The contracts\<close>

text \<open>
  The payload of a buffer in memory, and how clients fill a buffer: get a place with \<open>put\<close> (at the
  tail) or \<open>push\<close> (in front) and copy the bytes there.
\<close>

definition buf_payload :: "('b \<Rightarrow> int) \<Rightarrow> ('b \<Rightarrow> int) \<Rightarrow> mem \<times> 'b \<Rightarrow> u8 list" where
  "buf_payload data tail s = load (fst s) (nat (data (snd s))) (nat (tail (snd s) - data (snd s)))"

definition buf_fill :: "(nat \<Rightarrow> 'b \<Rightarrow> int \<times> 'b) \<Rightarrow> u8 list \<Rightarrow> mem \<times> 'b \<Rightarrow> mem \<times> 'b" where
  "buf_fill put bs s = (let (p, b) = put (length bs) (snd s) in (store (nat p) bs (fst s), b))"

text \<open>The results of \<open>n\<close> removals from the head of a queue.\<close>

fun queue_pops :: "('s \<Rightarrow> 'a option \<times> 's) \<Rightarrow> nat \<Rightarrow> 's \<Rightarrow> 'a option list" where
  "queue_pops pop 0 s = []"
| "queue_pops pop (Suc n) s = (let (r, s') = pop s in r # queue_pops pop n s')"

text \<open>
  A message buffer: the payload lies between \<open>data\<close> and \<open>tail\<close>, inside the region from \<open>head\<close> to
  \<open>last\<close>, and is at most \<open>cap\<close> bytes long (what the length field can hold).
\<close>

locale msg_buffer =
  fixes inv :: "'b \<Rightarrow> bool"
    and head data tail last :: "'b \<Rightarrow> int"
    and cap :: nat
    and put push :: "nat \<Rightarrow> 'b \<Rightarrow> int \<times> 'b"
    and pull :: "nat \<Rightarrow> 'b \<Rightarrow> int option \<times> 'b"
    and reserve :: "nat \<Rightarrow> 'b \<Rightarrow> 'b"
  assumes order: "inv b \<Longrightarrow> 0 \<le> head b \<and> head b \<le> data b \<and> data b \<le> tail b \<and> tail b \<le> last b \<and>
      tail b - data b \<le> int cap"
    and put_law: "inv b \<Longrightarrow> tail b + int n \<le> last b \<Longrightarrow> tail b - data b + int n \<le> int cap \<Longrightarrow>
      fst (put n b) = tail b \<and> inv (snd (put n b)) \<and> data (snd (put n b)) = data b \<and>
      tail (snd (put n b)) = tail b + int n \<and> head (snd (put n b)) = head b \<and> last (snd (put n b)) = last b"
    and push_law: "inv b \<Longrightarrow> head b \<le> data b - int n \<Longrightarrow> tail b - data b + int n \<le> int cap \<Longrightarrow>
      fst (push n b) = data b - int n \<and> inv (snd (push n b)) \<and> data (snd (push n b)) = data b - int n \<and>
      tail (snd (push n b)) = tail b \<and> head (snd (push n b)) = head b \<and> last (snd (push n b)) = last b"
    and pull_law: "inv b \<Longrightarrow>
      pull n b = (if int n \<le> tail b - data b then (Some (data b + int n), snd (pull n b)) else (None, b)) \<and>
      inv (snd (pull n b)) \<and> tail (snd (pull n b)) = tail b \<and> head (snd (pull n b)) = head b \<and>
      last (snd (pull n b)) = last b \<and>
      data (snd (pull n b)) = data b + (if int n \<le> tail b - data b then int n else 0)"
    and reserve_law: "inv b \<Longrightarrow> data b = tail b \<Longrightarrow> tail b + int n \<le> last b \<Longrightarrow>
      inv (reserve n b) \<and> data (reserve n b) = data b + int n \<and> tail (reserve n b) = tail b + int n \<and>
      head (reserve n b) = head b \<and> last (reserve n b) = last b"
begin

lemma payload_length: "inv b \<Longrightarrow> int (length (buf_payload data tail (m, b))) = tail b - data b"
  using order [of b] by (simp add: buf_payload_def)

lemma put_payload:
  assumes "inv b" "tail b + int (length bs) \<le> last b" "tail b - data b + int (length bs) \<le> int cap"
  shows "buf_payload data tail (buf_fill put bs (m, b)) = buf_payload data tail (m, b) @ bs" "inv (snd (buf_fill put bs (m, b)))"
proof -
  note p = put_law [OF assms] and o = order [OF assms(1)]
  define k where "k = nat (tail b - data b)"
  have t: "nat (tail b) = nat (data b) + k" and e: "nat (tail b + int (length bs) - data b) = k + length bs"
    using o by (auto simp: k_def)
  have "load (store (nat (data b) + k) bs m) (nat (data b)) (k + length bs) =
      load (store (nat (data b) + k) bs m) (nat (data b)) k @ load (store (nat (data b) + k) bs m) (nat (data b) + k) (length bs)"
    by (rule load_append)
  also have "\<dots> = load m (nat (data b)) k @ bs"
    by (simp add: load_store_same load_store_disjoint disjoint_ranges_def)
  finally show "buf_payload data tail (buf_fill put bs (m, b)) = buf_payload data tail (m, b) @ bs"
    using p by (simp add: buf_payload_def buf_fill_def split_beta t e k_def [symmetric])
  show "inv (snd (buf_fill put bs (m, b)))" using p by (simp add: buf_fill_def split_beta)
qed

lemma push_payload:
  assumes "inv b" "head b \<le> data b - int (length bs)" "tail b - data b + int (length bs) \<le> int cap"
  shows "buf_payload data tail (buf_fill push bs (m, b)) = bs @ buf_payload data tail (m, b)" "inv (snd (buf_fill push bs (m, b)))"
proof -
  note p = push_law [OF assms] and o = order [OF assms(1)]
  define k where "k = nat (tail b - data b)"
  define a where "a = nat (data b - int (length bs))"
  have t: "nat (data b) = a + length bs" and e: "nat (tail b - (data b - int (length bs))) = length bs + k"
    using o assms(2) by (auto simp: k_def a_def)
  have "load (store a bs m) a (length bs + k) =
      load (store a bs m) a (length bs) @ load (store a bs m) (a + length bs) k"
    by (rule load_append)
  also have "\<dots> = bs @ load m (a + length bs) k"
    by (simp add: load_store_same load_store_disjoint disjoint_ranges_def)
  finally show "buf_payload data tail (buf_fill push bs (m, b)) = bs @ buf_payload data tail (m, b)"
    using p by (simp add: buf_payload_def buf_fill_def split_beta a_def [symmetric] t e k_def [symmetric])
  show "inv (snd (buf_fill push bs (m, b)))" using p by (simp add: buf_fill_def split_beta)
qed

lemma pull_payload:
  assumes "inv b"
  shows "buf_payload data tail (m, snd (pull n b)) = (if n \<le> length (buf_payload data tail (m, b)) then drop n (buf_payload data tail (m, b)) else buf_payload data tail (m, b))"
    "fst (pull n b) = None \<longleftrightarrow> length (buf_payload data tail (m, b)) < n" "inv (snd (pull n b))"
proof -
  note p = pull_law [OF assms, of n] and o = order [OF assms]
  have l: "length (buf_payload data tail (m, b)) = nat (tail b - data b)" by (simp add: buf_payload_def)
  show "inv (snd (pull n b))" using p by blast
  show "fst (pull n b) = None \<longleftrightarrow> length (buf_payload data tail (m, b)) < n"
  proof -
    have "fst (pull n b) = (if int n \<le> tail b - data b then Some (data b + int n) else None)"
      using p by (metis fst_conv)
    then show ?thesis using o by (auto simp: l)
  qed
  show "buf_payload data tail (m, snd (pull n b)) = (if n \<le> length (buf_payload data tail (m, b)) then drop n (buf_payload data tail (m, b)) else buf_payload data tail (m, b))"
  proof (cases "int n \<le> tail b - data b")
    case True
    then have "nat (data b + int n) = nat (data b) + n" "nat (tail b - (data b + int n)) = nat (tail b - data b) - n"
      using o by auto
    moreover have "drop n (load m (nat (data b)) (nat (tail b - data b))) =
        load m (nat (data b) + n) (nat (tail b - data b) - n)"
      using True by (simp add: load_def drop_map_upt add.assoc)
    ultimately show ?thesis using True p l o by (simp add: buf_payload_def)
  next
    case False
    then show ?thesis using p l o by (auto simp: buf_payload_def)
  qed
qed

text \<open>A header pushed in front of a message and pulled off again leaves the message.\<close>

lemma push_pull:
  assumes "inv b" "head b \<le> data b - int (length bs)" "tail b - data b + int (length bs) \<le> int cap"
  shows "buf_payload data tail (fst (buf_fill push bs (m, b)), snd (pull (length bs) (snd (buf_fill push bs (m, b))))) = buf_payload data tail (m, b)"
proof -
  obtain m' b' where s: "buf_fill push bs (m, b) = (m', b')" by force
  have "buf_payload data tail (m', b') = bs @ buf_payload data tail (m, b)" "inv b'" using push_payload [OF assms, of m] by (simp_all add: s)
  then show ?thesis using pull_payload(1) [of b' m' "length bs"] by (simp add: s)
qed

end

text \<open>
  A double-ended queue of buffers. \<open>rep s xs\<close> says that the queue \<open>s\<close> holds the buffers \<open>xs\<close>; a
  buffer may be added when it is not in the queue already.
\<close>

locale buffer_queue =
  fixes rep :: "'s \<Rightarrow> nat list \<Rightarrow> bool"
    and node :: nat
    and push_front push_back :: "nat \<Rightarrow> 's \<Rightarrow> 's"
    and pop_front pop_back :: "'s \<Rightarrow> nat option \<times> 's"
    and count :: "'s \<Rightarrow> u32"
  assumes count_law: "rep s xs \<Longrightarrow> count s = of_nat (length xs)"
    and push_front_law: "rep s xs \<Longrightarrow> x \<notin> set (node # xs) \<Longrightarrow> rep (push_front x s) (x # xs)"
    and push_back_law: "rep s xs \<Longrightarrow> x \<notin> set (node # xs) \<Longrightarrow> rep (push_back x s) (xs @ [x])"
    and pop_empty: "rep s xs \<Longrightarrow> xs = [] \<Longrightarrow> pop_front s = (None, s) \<and> pop_back s = (None, s)"
    and pop_front_law: "rep s (x # xs) \<Longrightarrow> fst (pop_front s) = Some x \<and> rep (snd (pop_front s)) xs"
    and pop_back_law: "rep s (xs @ [x]) \<Longrightarrow> fst (pop_back s) = Some x \<and> rep (snd (pop_back s)) xs"
begin

text \<open>Buffers leave the head in the order in which they were added at the tail.\<close>

lemma push_all_back:
  assumes "rep s xs" "distinct (node # xs @ ys)"
  shows "rep (fold push_back ys s) (xs @ ys)"
  using assms
proof (induction ys arbitrary: s xs)
  case (Cons y ys)
  then show ?case using push_back_law [of s xs y] Cons.IH [of "push_back y s" "xs @ [y]"] by simp
qed simp

lemma pops_all:
  assumes "rep s xs"
  shows "queue_pops pop_front (length xs) s = map Some xs"
  using assms
proof (induction xs arbitrary: s)
  case (Cons x xs)
  then show ?case using pop_front_law [of s x xs] by (simp add: split_beta)
qed simp

lemma fifo_order:
  assumes "rep s []" "distinct (node # ys)"
  shows "queue_pops pop_front (length ys) (fold push_back ys s) = map Some ys" "count (fold push_back ys s) = of_nat (length ys)"
  using push_all_back [of s "[]" ys] pops_all [of "fold push_back ys s" ys] count_law assms by simp_all

text \<open>A buffer put back at the head is the next one taken.\<close>

lemma requeue: "rep s xs \<Longrightarrow> x \<notin> set (node # xs) \<Longrightarrow> fst (pop_front (push_front x s)) = Some x"
  using push_front_law pop_front_law by blast

end

section \<open>CEC message buffers: the contracts\<close>

definition cm_ok :: "cm_buff \<Rightarrow> bool" where
  "cm_ok b \<longleftrightarrow> 0 \<le> cm_head b \<and> cm_head b \<le> cm_data b \<and> cm_data b \<le> cm_tail b \<and> cm_tail b \<le> cm_end b \<and>
     cm_tail b - cm_data b \<le> 255 \<and> cm_len b = of_int (cm_tail b - cm_data b)"

lemma cm_ok_len: "cm_ok b \<Longrightarrow> int (unat (cm_len b)) = cm_tail b - cm_data b"
  using int_unat_of_int [where 'a = 8, of "cm_tail b - cm_data b"] by (simp add: cm_ok_def del: of_int_diff)

interpretation cm_buffer: msg_buffer cm_ok cm_head cm_data cm_tail cm_end 255 cmb_put cmb_push cmb_pull cmb_reserve
proof
  fix b n
  show "cm_ok b \<Longrightarrow> 0 \<le> cm_head b \<and> cm_head b \<le> cm_data b \<and> cm_data b \<le> cm_tail b \<and> cm_tail b \<le> cm_end b \<and>
      cm_tail b - cm_data b \<le> int 255"
    by (simp add: cm_ok_def)
  assume ok: "cm_ok b"
  show "cm_tail b + int n \<le> cm_end b \<Longrightarrow> cm_tail b - cm_data b + int n \<le> int 255 \<Longrightarrow>
      fst (cmb_put n b) = cm_tail b \<and> cm_ok (snd (cmb_put n b)) \<and> cm_data (snd (cmb_put n b)) = cm_data b \<and>
      cm_tail (snd (cmb_put n b)) = cm_tail b + int n \<and> cm_head (snd (cmb_put n b)) = cm_head b \<and>
      cm_end (snd (cmb_put n b)) = cm_end b"
    using ok by (simp add: cm_ok_def cmb_put_def)
  show "cm_head b \<le> cm_data b - int n \<Longrightarrow> cm_tail b - cm_data b + int n \<le> int 255 \<Longrightarrow>
      fst (cmb_push n b) = cm_data b - int n \<and> cm_ok (snd (cmb_push n b)) \<and> cm_data (snd (cmb_push n b)) = cm_data b - int n \<and>
      cm_tail (snd (cmb_push n b)) = cm_tail b \<and> cm_head (snd (cmb_push n b)) = cm_head b \<and>
      cm_end (snd (cmb_push n b)) = cm_end b"
    using ok by (simp add: cm_ok_def cmb_push_def Let_def)
  show "cmb_pull n b = (if int n \<le> cm_tail b - cm_data b then (Some (cm_data b + int n), snd (cmb_pull n b)) else (None, b)) \<and>
      cm_ok (snd (cmb_pull n b)) \<and> cm_tail (snd (cmb_pull n b)) = cm_tail b \<and> cm_head (snd (cmb_pull n b)) = cm_head b \<and>
      cm_end (snd (cmb_pull n b)) = cm_end b \<and>
      cm_data (snd (cmb_pull n b)) = cm_data b + (if int n \<le> cm_tail b - cm_data b then int n else 0)"
  proof -
    have le: "n \<le> unat (cm_len b) \<longleftrightarrow> int n \<le> cm_tail b - cm_data b" using cm_ok_len [OF ok] by linarith
    have pull: "cmb_pull n b = (if int n \<le> cm_tail b - cm_data b
        then (Some (cm_data b + int n), b\<lparr>cm_data := cm_data b + int n, cm_len := cm_len b - of_nat n\<rparr>) else (None, b))"
      by (simp add: cmb_pull_def le Let_def)
    show ?thesis using ok unfolding pull by (simp add: cm_ok_def)
  qed
  show "cm_data b = cm_tail b \<Longrightarrow> cm_tail b + int n \<le> cm_end b \<Longrightarrow>
      cm_ok (cmb_reserve n b) \<and> cm_data (cmb_reserve n b) = cm_data b + int n \<and> cm_tail (cmb_reserve n b) = cm_tail b + int n \<and>
      cm_head (cmb_reserve n b) = cm_head b \<and> cm_end (cmb_reserve n b) = cm_end b"
    using ok by (simp add: cm_ok_def cmb_reserve_def)
qed

definition cm_queue_ok :: "list_mem \<times> cm_buff_head \<Rightarrow> nat list \<Rightarrow> bool" where
  "cm_queue_ok s xs \<longleftrightarrow> dlist (fst s) (cm_list (snd s)) xs \<and> cm_qlen (snd s) = of_nat (length xs)"

interpretation cm_queue: buffer_queue "\<lambda>s xs. cm_queue_ok s xs \<and> cm_list (snd s) = a" a cmb_queue_head cmb_queue_tail
    cmb_dequeue cmb_dequeue_tail "\<lambda>s. cmb_queue_len (snd s)" for a
proof
  fix s x and xs :: "nat list"
  assume "cm_queue_ok s xs \<and> cm_list (snd s) = a"
  then have ok: "dlist (fst s) a xs" "cm_qlen (snd s) = of_nat (length xs)" "cm_list (snd s) = a"
    by (auto simp: cm_queue_ok_def)
  obtain h q where s: "s = (h, q)" by force
  show "cmb_queue_len (snd s) = of_nat (length xs)" using ok by (simp add: cmb_queue_len_def)
  show "x \<notin> set (a # xs) \<Longrightarrow> cm_queue_ok (cmb_queue_head x s) (x # xs) \<and> cm_list (snd (cmb_queue_head x s)) = a"
    using ok list_add_spec by (simp add: cmb_queue_head_def cm_queue_ok_def s)
  show "x \<notin> set (a # xs) \<Longrightarrow> cm_queue_ok (cmb_queue_tail x s) (xs @ [x]) \<and> cm_list (snd (cmb_queue_tail x s)) = a"
    using ok list_add_tail_spec by (simp add: cmb_queue_tail_def cm_queue_ok_def s)
  show "xs = [] \<Longrightarrow> cmb_dequeue s = (None, s) \<and> cmb_dequeue_tail s = (None, s)"
    using ok list_empty_iff [OF ok(1)] by (simp add: cmb_dequeue_def cmb_dequeue_tail_def s)
next
  fix s x and xs :: "nat list"
  assume "cm_queue_ok s (x # xs) \<and> cm_list (snd s) = a"
  then have ok: "dlist (fst s) a (x # xs)" "cm_qlen (snd s) = of_nat (length (x # xs))" "cm_list (snd s) = a"
    by (auto simp: cm_queue_ok_def)
  obtain h q where s: "s = (h, q)" by force
  show "fst (cmb_dequeue s) = Some x \<and> cm_queue_ok (snd (cmb_dequeue s)) xs \<and> cm_list (snd (snd (cmb_dequeue s))) = a"
    using ok list_empty_iff [OF ok(1)] list_del_first_spec [OF ok(1)]
    by (simp add: cmb_dequeue_def cm_queue_ok_def s Let_def)
next
  fix s x and xs :: "nat list"
  assume "cm_queue_ok s (xs @ [x]) \<and> cm_list (snd s) = a"
  then have ok: "dlist (fst s) a (xs @ [x])" "cm_qlen (snd s) = of_nat (length (xs @ [x]))" "cm_list (snd s) = a"
    by (auto simp: cm_queue_ok_def)
  obtain h q where s: "s = (h, q)" by force
  show "fst (cmb_dequeue_tail s) = Some x \<and> cm_queue_ok (snd (cmb_dequeue_tail s)) xs \<and> cm_list (snd (snd (cmb_dequeue_tail s))) = a"
    using ok list_empty_iff [OF ok(1)] list_del_last_spec [OF ok(1)]
    by (simp add: cmb_dequeue_tail_def cm_queue_ok_def s Let_def)
qed

lemma cmb_queue_purge_all:
  assumes "cm_queue_ok s xs"
  shows "\<exists>s'. cmb_queue_purge s = Some (xs, s') \<and> cm_queue_ok s' []"
  using assms
proof (induction xs arbitrary: s)
  case Nil
  then have "cmb_dequeue s = (None, s)" using cm_queue.pop_empty [of s "[]" "cm_list (snd s)"] by simp
  then show ?case using Nil by (subst cmb_queue_purge.simps) simp
next
  case (Cons x xs)
  obtain o' s1 where d: "cmb_dequeue s = (o', s1)" by (metis surj_pair)
  have "o' = Some x" "cm_queue_ok s1 xs"
    using cm_queue.pop_front_law [of s x xs "cm_list (snd s)"] Cons.prems by (simp_all add: d)
  then show ?case using Cons.IH [of s1] d by (subst cmb_queue_purge.simps) auto
qed

section \<open>Smart card buffers: the contracts\<close>

definition sc_ok :: "sc_buff \<Rightarrow> bool" where
  "sc_ok b \<longleftrightarrow> 0 \<le> sc_head b \<and> sc_head b \<le> sc_data b \<and> sc_data b \<le> sc_tail b \<and> sc_tail b \<le> sc_end b \<and>
     sc_tail b - sc_data b \<le> 255 \<and> sc_len b = of_int (sc_tail b - sc_data b)"

lemma sc_ok_len: "sc_ok b \<Longrightarrow> int (unat (sc_len b)) = sc_tail b - sc_data b"
  using int_unat_of_int [where 'a = 8, of "sc_tail b - sc_data b"] by (simp add: sc_ok_def del: of_int_diff)

interpretation sc_buffer: msg_buffer sc_ok sc_head sc_data sc_tail sc_end 255 scb_put scb_push scb_pull scb_reserve
proof
  fix b n
  show "sc_ok b \<Longrightarrow> 0 \<le> sc_head b \<and> sc_head b \<le> sc_data b \<and> sc_data b \<le> sc_tail b \<and> sc_tail b \<le> sc_end b \<and>
      sc_tail b - sc_data b \<le> int 255"
    by (simp add: sc_ok_def)
  assume ok: "sc_ok b"
  show "sc_tail b + int n \<le> sc_end b \<Longrightarrow> sc_tail b - sc_data b + int n \<le> int 255 \<Longrightarrow>
      fst (scb_put n b) = sc_tail b \<and> sc_ok (snd (scb_put n b)) \<and> sc_data (snd (scb_put n b)) = sc_data b \<and>
      sc_tail (snd (scb_put n b)) = sc_tail b + int n \<and> sc_head (snd (scb_put n b)) = sc_head b \<and>
      sc_end (snd (scb_put n b)) = sc_end b"
    using ok by (simp add: sc_ok_def scb_put_def)
  show "sc_head b \<le> sc_data b - int n \<Longrightarrow> sc_tail b - sc_data b + int n \<le> int 255 \<Longrightarrow>
      fst (scb_push n b) = sc_data b - int n \<and> sc_ok (snd (scb_push n b)) \<and> sc_data (snd (scb_push n b)) = sc_data b - int n \<and>
      sc_tail (snd (scb_push n b)) = sc_tail b \<and> sc_head (snd (scb_push n b)) = sc_head b \<and>
      sc_end (snd (scb_push n b)) = sc_end b"
    using ok by (simp add: sc_ok_def scb_push_def Let_def)
  show "scb_pull n b = (if int n \<le> sc_tail b - sc_data b then (Some (sc_data b + int n), snd (scb_pull n b)) else (None, b)) \<and>
      sc_ok (snd (scb_pull n b)) \<and> sc_tail (snd (scb_pull n b)) = sc_tail b \<and> sc_head (snd (scb_pull n b)) = sc_head b \<and>
      sc_end (snd (scb_pull n b)) = sc_end b \<and>
      sc_data (snd (scb_pull n b)) = sc_data b + (if int n \<le> sc_tail b - sc_data b then int n else 0)"
  proof -
    have le: "n \<le> unat (sc_len b) \<longleftrightarrow> int n \<le> sc_tail b - sc_data b" using sc_ok_len [OF ok] by linarith
    have pull: "scb_pull n b = (if int n \<le> sc_tail b - sc_data b
        then (Some (sc_data b + int n), b\<lparr>sc_data := sc_data b + int n, sc_len := sc_len b - of_nat n\<rparr>) else (None, b))"
      by (simp add: scb_pull_def le Let_def)
    show ?thesis using ok unfolding pull by (simp add: sc_ok_def)
  qed
  show "sc_data b = sc_tail b \<Longrightarrow> sc_tail b + int n \<le> sc_end b \<Longrightarrow>
      sc_ok (scb_reserve n b) \<and> sc_data (scb_reserve n b) = sc_data b + int n \<and> sc_tail (scb_reserve n b) = sc_tail b + int n \<and>
      sc_head (scb_reserve n b) = sc_head b \<and> sc_end (scb_reserve n b) = sc_end b"
    using ok by (simp add: sc_ok_def scb_reserve_def)
qed

definition sc_queue_ok :: "list_mem \<times> sc_buff_head \<Rightarrow> nat list \<Rightarrow> bool" where
  "sc_queue_ok s xs \<longleftrightarrow> dlist (fst s) (sc_list (snd s)) xs \<and> sc_qlen (snd s) = of_nat (length xs)"

interpretation sc_queue: buffer_queue "\<lambda>s xs. sc_queue_ok s xs \<and> sc_list (snd s) = a" a scb_queue_head scb_queue_tail
    scb_dequeue scb_dequeue_tail "\<lambda>s. scb_queue_len (snd s)" for a
proof
  fix s x and xs :: "nat list"
  assume "sc_queue_ok s xs \<and> sc_list (snd s) = a"
  then have ok: "dlist (fst s) a xs" "sc_qlen (snd s) = of_nat (length xs)" "sc_list (snd s) = a"
    by (auto simp: sc_queue_ok_def)
  obtain h q where s: "s = (h, q)" by force
  show "scb_queue_len (snd s) = of_nat (length xs)" using ok by (simp add: scb_queue_len_def)
  show "x \<notin> set (a # xs) \<Longrightarrow> sc_queue_ok (scb_queue_head x s) (x # xs) \<and> sc_list (snd (scb_queue_head x s)) = a"
    using ok list_add_spec by (simp add: scb_queue_head_def sc_queue_ok_def s)
  show "x \<notin> set (a # xs) \<Longrightarrow> sc_queue_ok (scb_queue_tail x s) (xs @ [x]) \<and> sc_list (snd (scb_queue_tail x s)) = a"
    using ok list_add_tail_spec by (simp add: scb_queue_tail_def sc_queue_ok_def s)
  show "xs = [] \<Longrightarrow> scb_dequeue s = (None, s) \<and> scb_dequeue_tail s = (None, s)"
    using ok list_empty_iff [OF ok(1)] by (simp add: scb_dequeue_def scb_dequeue_tail_def s)
next
  fix s x and xs :: "nat list"
  assume "sc_queue_ok s (x # xs) \<and> sc_list (snd s) = a"
  then have ok: "dlist (fst s) a (x # xs)" "sc_qlen (snd s) = of_nat (length (x # xs))" "sc_list (snd s) = a"
    by (auto simp: sc_queue_ok_def)
  obtain h q where s: "s = (h, q)" by force
  show "fst (scb_dequeue s) = Some x \<and> sc_queue_ok (snd (scb_dequeue s)) xs \<and> sc_list (snd (snd (scb_dequeue s))) = a"
    using ok list_empty_iff [OF ok(1)] list_del_first_spec [OF ok(1)]
    by (simp add: scb_dequeue_def sc_queue_ok_def s Let_def)
next
  fix s x and xs :: "nat list"
  assume "sc_queue_ok s (xs @ [x]) \<and> sc_list (snd s) = a"
  then have ok: "dlist (fst s) a (xs @ [x])" "sc_qlen (snd s) = of_nat (length (xs @ [x]))" "sc_list (snd s) = a"
    by (auto simp: sc_queue_ok_def)
  obtain h q where s: "s = (h, q)" by force
  show "fst (scb_dequeue_tail s) = Some x \<and> sc_queue_ok (snd (scb_dequeue_tail s)) xs \<and> sc_list (snd (snd (scb_dequeue_tail s))) = a"
    using ok list_empty_iff [OF ok(1)] list_del_last_spec [OF ok(1)]
    by (simp add: scb_dequeue_tail_def sc_queue_ok_def s Let_def)
qed

lemma scb_queue_purge_all:
  assumes "sc_queue_ok s xs"
  shows "\<exists>s'. scb_queue_purge s = Some (xs, s') \<and> sc_queue_ok s' []"
  using assms
proof (induction xs arbitrary: s)
  case Nil
  then have "scb_dequeue s = (None, s)" using sc_queue.pop_empty [of s "[]" "sc_list (snd s)"] by simp
  then show ?case using Nil by (subst scb_queue_purge.simps) simp
next
  case (Cons x xs)
  obtain o' s1 where d: "scb_dequeue s = (o', s1)" by (metis surj_pair)
  have "o' = Some x" "sc_queue_ok s1 xs"
    using sc_queue.pop_front_law [of s x xs "sc_list (snd s)"] Cons.prems by (simp_all add: d)
  then show ?case using Cons.IH [of s1] d by (subst scb_queue_purge.simps) auto
qed

section \<open>Cryptographic engine buffers: the contract\<close>

definition mcp_ok :: "mcp_buff \<Rightarrow> bool" where
  "mcp_ok b \<longleftrightarrow> 0 \<le> mcp_head b \<and> mcp_head b \<le> mcp_data b \<and> mcp_data b \<le> mcp_tail b \<and> mcp_tail b \<le> mcp_end b \<and>
     mcp_tail b - mcp_data b < 2 ^ 32 \<and> mcp_len b = of_int (mcp_tail b - mcp_data b)"

lemma mcp_ok_len: "mcp_ok b \<Longrightarrow> int (unat (mcp_len b)) = mcp_tail b - mcp_data b"
  using int_unat_of_int [where 'a = 32, of "mcp_tail b - mcp_data b"] by (simp add: mcp_ok_def del: of_int_diff)

interpretation mcp_buffer: msg_buffer mcp_ok mcp_head mcp_data mcp_tail mcp_end "2 ^ 32 - 1" mcpb_put mcpb_push mcpb_pull mcpb_reserve
proof
  fix b n
  show "mcp_ok b \<Longrightarrow> 0 \<le> mcp_head b \<and> mcp_head b \<le> mcp_data b \<and> mcp_data b \<le> mcp_tail b \<and> mcp_tail b \<le> mcp_end b \<and>
      mcp_tail b - mcp_data b \<le> int (2 ^ 32 - 1)"
    by (simp add: mcp_ok_def)
  assume ok: "mcp_ok b"
  show "mcp_tail b + int n \<le> mcp_end b \<Longrightarrow> mcp_tail b - mcp_data b + int n \<le> int (2 ^ 32 - 1) \<Longrightarrow>
      fst (mcpb_put n b) = mcp_tail b \<and> mcp_ok (snd (mcpb_put n b)) \<and> mcp_data (snd (mcpb_put n b)) = mcp_data b \<and>
      mcp_tail (snd (mcpb_put n b)) = mcp_tail b + int n \<and> mcp_head (snd (mcpb_put n b)) = mcp_head b \<and>
      mcp_end (snd (mcpb_put n b)) = mcp_end b"
    using ok by (simp add: mcp_ok_def mcpb_put_def)
  show "mcp_head b \<le> mcp_data b - int n \<Longrightarrow> mcp_tail b - mcp_data b + int n \<le> int (2 ^ 32 - 1) \<Longrightarrow>
      fst (mcpb_push n b) = mcp_data b - int n \<and> mcp_ok (snd (mcpb_push n b)) \<and> mcp_data (snd (mcpb_push n b)) = mcp_data b - int n \<and>
      mcp_tail (snd (mcpb_push n b)) = mcp_tail b \<and> mcp_head (snd (mcpb_push n b)) = mcp_head b \<and>
      mcp_end (snd (mcpb_push n b)) = mcp_end b"
    using ok by (simp add: mcp_ok_def mcpb_push_def Let_def)
  show "mcpb_pull n b = (if int n \<le> mcp_tail b - mcp_data b then (Some (mcp_data b + int n), snd (mcpb_pull n b)) else (None, b)) \<and>
      mcp_ok (snd (mcpb_pull n b)) \<and> mcp_tail (snd (mcpb_pull n b)) = mcp_tail b \<and> mcp_head (snd (mcpb_pull n b)) = mcp_head b \<and>
      mcp_end (snd (mcpb_pull n b)) = mcp_end b \<and>
      mcp_data (snd (mcpb_pull n b)) = mcp_data b + (if int n \<le> mcp_tail b - mcp_data b then int n else 0)"
  proof -
    have le: "n \<le> unat (mcp_len b) \<longleftrightarrow> int n \<le> mcp_tail b - mcp_data b" using mcp_ok_len [OF ok] by linarith
    have pull: "mcpb_pull n b = (if int n \<le> mcp_tail b - mcp_data b
        then (Some (mcp_data b + int n), b\<lparr>mcp_data := mcp_data b + int n, mcp_len := mcp_len b - of_nat n\<rparr>) else (None, b))"
      by (simp add: mcpb_pull_def le Let_def)
    show ?thesis using ok unfolding pull by (simp add: mcp_ok_def)
  qed
  show "mcp_data b = mcp_tail b \<Longrightarrow> mcp_tail b + int n \<le> mcp_end b \<Longrightarrow>
      mcp_ok (mcpb_reserve n b) \<and> mcp_data (mcpb_reserve n b) = mcp_data b + int n \<and> mcp_tail (mcpb_reserve n b) = mcp_tail b + int n \<and>
      mcp_head (mcpb_reserve n b) = mcp_head b \<and> mcp_end (mcpb_reserve n b) = mcp_end b"
    using ok by (simp add: mcp_ok_def mcpb_reserve_def)
qed

section \<open>Properties\<close>

text \<open>
  CEC queue: buffers queued at the tail of an empty queue are dequeued from the head in the same
  order, the queue length counts them, and a purge always returns, frees exactly these buffers in
  order and leaves the queue empty.
\<close>

lemma cmb_queue_fifo_order:
  assumes "cm_queue_ok s []" "distinct (cm_list (snd s) # xs)"
  shows "queue_pops cmb_dequeue (length xs) (fold cmb_queue_tail xs s) = map Some xs \<and>
    cmb_queue_len (snd (fold cmb_queue_tail xs s)) = of_nat (length xs) \<and>
    (\<exists>s'. cmb_queue_purge (fold cmb_queue_tail xs s) = Some (xs, s') \<and> cm_queue_ok s' [])"
proof -
  have r: "cm_queue_ok s [] \<and> cm_list (snd s) = cm_list (snd s)" using assms(1) by simp
  have "cm_queue_ok (fold cmb_queue_tail xs s) xs"
    using cm_queue.push_all_back [OF r, of xs] assms(2) by simp
  then show ?thesis
    using cm_queue.fifo_order [OF r assms(2)] cmb_queue_purge_all by simp
qed

text \<open>
  Smart card queue: a buffer added at the head is the next one dequeued, one added at the tail is
  the next one dequeued from the tail, and both leave the queue as it was; the queue length follows.
\<close>

lemma scb_queue_deque:
  assumes "sc_queue_ok s xs" "b \<notin> set (sc_list (snd s) # xs)"
  shows "fst (scb_dequeue (scb_queue_head b s)) = Some b \<and> sc_queue_ok (snd (scb_dequeue (scb_queue_head b s))) xs \<and>
    fst (scb_dequeue_tail (scb_queue_tail b s)) = Some b \<and> sc_queue_ok (snd (scb_dequeue_tail (scb_queue_tail b s))) xs \<and>
    scb_queue_len (snd (scb_queue_head b s)) = of_nat (length xs + 1)"
proof -
  have r: "sc_queue_ok s xs \<and> sc_list (snd s) = sc_list (snd s)" using assms(1) by simp
  note h = sc_queue.push_front_law [OF r assms(2)] and t = sc_queue.push_back_law [OF r assms(2)]
  show ?thesis
    using sc_queue.pop_front_law [OF h] sc_queue.pop_back_law [OF t] sc_queue.count_law [OF h] by simp
qed

text \<open>
  An allocated engine buffer has 128 bytes of head room and room behind it for the requested
  length and 128 bytes more; a message put into it with a header pushed in front and a trailer put
  behind reads back as header, message, trailer; and the buffer is given back to the allocator it
  came from, at the address it got.
\<close>

lemma mcpb_alloc_encapsulate:
  assumes "alloc_mcpb dvr_malloc kmalloc n = Some b" "n + 276 < 2 ^ 32"
    "length hdr \<le> 128" "length msg \<le> n" "length trl \<le> 128"
  shows "mcpb_headroom b = 128 \<and> mcpb_tailroom b = int n + 128 \<and>
    buf_payload mcp_data mcp_tail (buf_fill mcpb_push hdr (buf_fill mcpb_put trl (buf_fill mcpb_put msg (m, b)))) = hdr @ msg @ trl \<and>
    (\<exists>a. (if fst (free_mcpb b) then dvr_malloc else kmalloc) (n + 276) = Some a \<and> snd (free_mcpb b) = int a)"
proof -
  obtain a where a: "(if n + 276 \<ge> 4096 then dvr_malloc (n + 276) else kmalloc (n + 276)) = Some a"
    and b: "b = mcpb_reserve 128 \<lparr>mcp_head = int a + 20, mcp_data = int a + 20, mcp_tail = int a + 20,
                   mcp_end = int a + int n + 276, mcp_len = 0\<rparr>"
    using assms(1,2) by (auto simp: alloc_mcpb_def alloc_mcpb_raw_def Let_def algebra_simps split: option.splits if_splits)
  have f: "mcp_head b = int a + 20" "mcp_data b = int a + 148" "mcp_tail b = int a + 148" "mcp_end b = int a + int n + 276"
    by (simp_all add: b mcpb_reserve_def)
  have ok: "mcp_ok b" by (simp add: mcp_ok_def b mcpb_reserve_def)
  obtain m1 b1 where s1: "buf_fill mcpb_put msg (m, b) = (m1, b1)" by force
  have b1: "mcp_ok b1" "mcp_head b1 = mcp_head b" "mcp_data b1 = mcp_data b" "mcp_tail b1 = mcp_tail b + int (length msg)"
      "mcp_end b1 = mcp_end b" "buf_payload mcp_data mcp_tail (m1, b1) = msg"
    using mcp_buffer.put_law [OF ok, of "length msg"] mcp_buffer.put_payload [OF ok, of msg m] s1 assms(2,4) f
    by (auto simp: buf_fill_def buf_payload_def split_beta)
  obtain m2 b2 where s2: "buf_fill mcpb_put trl (m1, b1) = (m2, b2)" by force
  have b2: "mcp_ok b2" "mcp_head b2 = mcp_head b" "mcp_data b2 = mcp_data b"
      "mcp_tail b2 = mcp_tail b + int (length msg) + int (length trl)" "buf_payload mcp_data mcp_tail (m2, b2) = msg @ trl"
    using mcp_buffer.put_law [OF b1(1), of "length trl"] mcp_buffer.put_payload [OF b1(1), of trl m1] s2 assms(2,4,5) f b1
    by (auto simp: buf_fill_def split_beta)
  have "buf_payload mcp_data mcp_tail (buf_fill mcpb_push hdr (m2, b2)) = hdr @ msg @ trl"
    using mcp_buffer.push_payload [OF b2(1), of hdr m2] b2 assms(2-5) f by simp
  moreover have "free_mcpb b = (n + 276 \<ge> 4096, int a)" using f by (simp add: free_mcpb_def)
  ultimately show ?thesis
    using a f by (auto simp: mcpb_headroom_def mcpb_tailroom_def s1 s2)
qed

text \<open>
  Trimming undoes putting, pulling undoes pushing, a pull of more than the payload is refused and
  changes nothing, and a purge leaves an empty payload behind 128 bytes of head room.
\<close>

lemma mcpb_inverse_ops:
  assumes "mcp_ok b" "mcp_tail b + int n \<le> mcp_end b" "int n \<le> mcpb_headroom b"
    "mcp_tail b - mcp_data b + int n < 2 ^ 32" "mcp_head b + 128 \<le> mcp_end b"
  shows "mcpb_trim n (snd (mcpb_put n b)) = b \<and> snd (mcpb_pull n (snd (mcpb_push n b))) = b \<and>
    (int k > mcp_tail b - mcp_data b \<longrightarrow> mcpb_pull k b = (None, b)) \<and>
    mcp_ok (mcpb_purge b) \<and> mcpb_headroom (mcpb_purge b) = 128 \<and> buf_payload mcp_data mcp_tail (m, mcpb_purge b) = []"
proof -
  have "mcpb_trim n (snd (mcpb_put n b)) = b" by (simp add: mcpb_trim_def mcpb_put_def)
  moreover have "snd (mcpb_pull n (snd (mcpb_push n b))) = b"
  proof -
    have ok: "mcp_ok (snd (mcpb_push n b))"
      using mcp_buffer.push_law [OF assms(1), of n] assms(3,4) by (simp add: mcpb_headroom_def)
    have "mcp_data b \<le> mcp_tail b" using assms(1) by (simp add: mcp_ok_def)
    moreover have "int (unat (mcp_len (snd (mcpb_push n b)))) = mcp_tail b - mcp_data b + int n"
      using mcp_ok_len [OF ok] by (simp only: mcpb_push_def Let_def snd_conv) simp
    ultimately have "n \<le> unat (mcp_len (snd (mcpb_push n b)))" by linarith
    then show ?thesis by (simp add: mcpb_pull_def mcpb_push_def Let_def)
  qed
  moreover have "mcpb_pull k b = (None, b)" if "int k > mcp_tail b - mcp_data b"
    using that mcp_buffer.pull_law [OF assms(1), of k] by simp
  moreover have "mcp_ok (mcpb_purge b)" "mcpb_headroom (mcpb_purge b) = 128" "buf_payload mcp_data mcp_tail (m, mcpb_purge b) = []"
    using assms(1,5) by (auto simp: mcp_ok_def mcpb_purge_def mcpb_purge_raw_def mcpb_reserve_def mcpb_headroom_def
        buf_payload_def)
  ultimately show ?thesis by blast
qed

text \<open>
  The length field of a smart card buffer is one byte wide: putting \<open>n\<close> bytes into a fresh buffer
  of that size records \<open>n mod 256\<close>, so of a message of 256 bytes or more only that many bytes remain
  visible, and pulling more is refused although the bytes are there.
\<close>

lemma scb_put_truncates:
  assumes "alloc_scb (Some a) n = Some b"
  shows "unat (sc_len (snd (scb_put n b))) = n mod 256 \<and> sc_tail (snd (scb_put n b)) - sc_data (snd (scb_put n b)) = int n \<and>
    (n mod 256 < k \<longrightarrow> fst (scb_pull k (snd (scb_put n b))) = None)"
  using assms by (auto simp: alloc_scb_def scb_put_def scb_pull_def unat_of_nat)

end
