(* ===== verification/Cec.thy ===== *)
theory Cec
  imports Msg_Buffers
begin

text \<open>
  The CEC adapter of the SoC (\<open>drivers/cec/adapter/cec_mars.c\<close>): transmission and reception of messages,
  driven by the interrupt handler and by work items, on three queues of message buffers. The state
  holds the list memory, the live buffers by address, the bytes, the fields of \<open>mars_cec\<close>, the
  registers and the clock tick counter. Registers the hardware changes (status, received bytes) are inputs;
  all writes are recorded in order. A buffer completed for a waiting sender is recorded in \<open>finished\<close>.
  \<open>None\<close> is the use of a null pointer or of a freed buffer, or a read behind the end of a message. The
  handlers run under the adapter's lock, so each is one step. Times are tick counts that do not wrap, and
  debug output is left out.
\<close>

section \<open>Registers\<close>

datatype cec_reg = MIS_ISR_REG | MIS_CEC_CR0 | MIS_CEC_CR2 | MIS_CEC_RT1 | MIS_CEC_RX0 | MIS_CEC_RX1 | MIS_CEC_TX0 | MIS_CEC_TX1 |
  MIS_CEC_TX_FIFO | MIS_CEC_RX_START0 | MIS_CEC_RX_START1 | MIS_CEC_TX_START0 | MIS_CEC_TX_START1 |
  MIS_CEC_TX_DATA0 | MIS_CEC_TX_DATA1 | MIS_CEC_TX_DATA2

abbreviation (input) CEC_RX_INT :: u32 where "CEC_RX_INT \<equiv> 0x00800000"
abbreviation (input) CEC_TX_INT :: u32 where "CEC_TX_INT \<equiv> 0x00400000"
abbreviation (input) CEC_MODE_NORMAL :: u32 where "CEC_MODE_NORMAL \<equiv> 0x40"
abbreviation (input) RX_EN :: u32 where "RX_EN \<equiv> 0x80"
abbreviation (input) RX_RST :: u32 where "RX_RST \<equiv> 0x40"
abbreviation (input) RX_INT_EN :: u32 where "RX_INT_EN \<equiv> 0x10"
abbreviation (input) RX_EOM :: u32 where "RX_EOM \<equiv> 0x80"
abbreviation (input) RX_INT :: u32 where "RX_INT \<equiv> 0x40"
abbreviation (input) TX_EN :: u32 where "TX_EN \<equiv> 0x80"
abbreviation (input) TX_RST :: u32 where "TX_RST \<equiv> 0x40"
abbreviation (input) TX_CONTINUOUS :: u32 where "TX_CONTINUOUS \<equiv> 0x20"
abbreviation (input) TX_INT_EN :: u32 where "TX_INT_EN \<equiv> 0x10"
abbreviation (input) TX_EOM :: u32 where "TX_EOM \<equiv> 0x80"
abbreviation (input) TX_INT :: u32 where "TX_INT \<equiv> 0x40"
abbreviation (input) TX_DATA2 :: u32 where "TX_DATA2 \<equiv> 0x26"
abbreviation (input) WAIT_XMIT :: u8 where "WAIT_XMIT \<equiv> 0xFF"
abbreviation (input) XMIT_OK :: u8 where "XMIT_OK \<equiv> 0"
abbreviation (input) XMIT_FAIL :: u8 where "XMIT_FAIL \<equiv> 1"
abbreviation (input) XMIT_TIMEOUT :: u8 where "XMIT_TIMEOUT \<equiv> 2"
abbreviation (input) XMIT_ABORT :: u8 where "XMIT_ABORT \<equiv> 3"
abbreviation (input) NONBLOCK :: u8 where "NONBLOCK \<equiv> 0x80"
abbreviation (input) RX_RING_LENGTH :: nat where "RX_RING_LENGTH \<equiv> 8"
abbreviation (input) RX_BUFFER_SIZE :: nat where "RX_BUFFER_SIZE \<equiv> 64"
abbreviation (input) TX_TIMEOUT :: nat where "TX_TIMEOUT \<equiv> 400"  \<comment> \<open>four seconds\<close>
abbreviation (input) SIZEOF_CM_BUFF :: nat where "SIZEOF_CM_BUFF \<equiv> 44"

section \<open>The adapter\<close>

datatype cec_state = IDEL | XMIT | RCV

text \<open>A work item: not pending, queued, or pending with a delay.\<close>

datatype work = Not_pending | Queued | Delayed nat

record mars_cec_xmit =
  x_enable :: bool
  x_state :: cec_state
  x_cmb :: "nat option"
  x_timeout :: nat
  x_work :: work

record mars_cec_rcv =
  r_enable :: bool
  r_state :: cec_state
  r_cmb :: "nat option"
  r_complete :: nat
  r_work :: work

record mars_cec =
  st_init :: bool
  st_enable :: bool
  xmit :: mars_cec_xmit
  rcv :: mars_cec_rcv
  tx_queue :: cm_buff_head
  rx_queue :: cm_buff_head
  rx_free_queue :: cm_buff_head

record cec_sys =
  cec :: mars_cec
  lists :: list_mem
  bufs :: "nat \<Rightarrow> cm_buff option"
  bytes :: mem
  finished :: "nat list"
  creg :: "cec_reg \<Rightarrow> u32"
  rx_fifo :: "u8 list"
  reg_log :: "(cec_reg \<times> u32) list"
  ticks :: nat

text \<open>Status bits are cleared by the hardware when they are written; the other registers keep what was written.\<close>

definition write_reg32 :: "cec_reg \<Rightarrow> u32 \<Rightarrow> cec_sys \<Rightarrow> cec_sys" where
  "write_reg32 r v s =
     s\<lparr>creg := (if r \<in> {MIS_ISR_REG, MIS_CEC_RX1, MIS_CEC_TX1, MIS_CEC_TX_FIFO} then creg s else (creg s)(r := v)),
       reg_log := reg_log s @ [(r, v)]\<rparr>"

definition set_xmit :: "(mars_cec_xmit \<Rightarrow> mars_cec_xmit) \<Rightarrow> cec_sys \<Rightarrow> cec_sys" where
  "set_xmit f s = s\<lparr>cec := (cec s)\<lparr>xmit := f (xmit (cec s))\<rparr>\<rparr>"

definition set_rcv :: "(mars_cec_rcv \<Rightarrow> mars_cec_rcv) \<Rightarrow> cec_sys \<Rightarrow> cec_sys" where
  "set_rcv f s = s\<lparr>cec := (cec s)\<lparr>rcv := f (rcv (cec s))\<rparr>\<rparr>"

definition set_buf :: "nat \<Rightarrow> cm_buff \<Rightarrow> cec_sys \<Rightarrow> cec_sys" where
  "set_buf a b s = s\<lparr>bufs := (bufs s)(a \<mapsto> b)\<rparr>"

definition kfree_cmb :: "nat \<Rightarrow> cec_sys \<Rightarrow> cec_sys" where
  "kfree_cmb a s = s\<lparr>bufs := (bufs s)(a := None)\<rparr>"

text \<open>Work items: an item that is pending is not queued again; cancelling takes back a delayed one.\<close>

definition schedule_work :: "work \<Rightarrow> work" where
  "schedule_work w = (if w = Not_pending then Queued else w)"

definition schedule_delayed_work :: "nat \<Rightarrow> work \<Rightarrow> work" where
  "schedule_delayed_work t w = (if w = Not_pending then Delayed t else w)"

definition cancel_delayed_work :: "work \<Rightarrow> work" where
  "cancel_delayed_work w = (case w of Delayed t \<Rightarrow> Not_pending | _ \<Rightarrow> w)"

text \<open>The queues of the adapter.\<close>

definition tx_dequeue :: "cec_sys \<Rightarrow> nat option \<times> cec_sys" where
  "tx_dequeue s = (let (c, h, q) = cmb_dequeue (lists s, tx_queue (cec s)) in (c, s\<lparr>lists := h, cec := (cec s)\<lparr>tx_queue := q\<rparr>\<rparr>))"

definition tx_queue_tail :: "nat \<Rightarrow> cec_sys \<Rightarrow> cec_sys" where
  "tx_queue_tail a s = (let (h, q) = cmb_queue_tail a (lists s, tx_queue (cec s)) in s\<lparr>lists := h, cec := (cec s)\<lparr>tx_queue := q\<rparr>\<rparr>)"

definition rx_dequeue :: "cec_sys \<Rightarrow> nat option \<times> cec_sys" where
  "rx_dequeue s = (let (c, h, q) = cmb_dequeue (lists s, rx_queue (cec s)) in (c, s\<lparr>lists := h, cec := (cec s)\<lparr>rx_queue := q\<rparr>\<rparr>))"

definition rx_queue_tail :: "nat \<Rightarrow> cec_sys \<Rightarrow> cec_sys" where
  "rx_queue_tail a s = (let (h, q) = cmb_queue_tail a (lists s, rx_queue (cec s)) in s\<lparr>lists := h, cec := (cec s)\<lparr>rx_queue := q\<rparr>\<rparr>)"

definition free_dequeue :: "cec_sys \<Rightarrow> nat option \<times> cec_sys" where
  "free_dequeue s = (let (c, h, q) = cmb_dequeue (lists s, rx_free_queue (cec s)) in (c, s\<lparr>lists := h, cec := (cec s)\<lparr>rx_free_queue := q\<rparr>\<rparr>))"

definition free_queue_tail :: "nat \<Rightarrow> cec_sys \<Rightarrow> cec_sys" where
  "free_queue_tail a s = (let (h, q) = cmb_queue_tail a (lists s, rx_free_queue (cec s)) in s\<lparr>lists := h, cec := (cec s)\<lparr>rx_free_queue := q\<rparr>\<rparr>)"

section \<open>The hardware queues\<close>

text \<open>\<open>_read_rx_fifo\<close>; an empty receive queue reads as zero.\<close>

definition read_rx_fifo :: "nat \<Rightarrow> cec_sys \<Rightarrow> (int \<times> cec_sys) option" where
  "read_rx_fifo a s = do {
     b \<leftarrow> bufs s a;
     let len = unat (creg s MIS_CEC_RX1 AND 0xF);
     if cmb_tailroom b \<ge> int len then
       let (ptr, b) = cmb_put len b;
           s = set_buf a b s
       in Some (int len, s\<lparr>bytes := store (nat ptr) (take len (rx_fifo s @ replicate len 0)) (bytes s), rx_fifo := drop len (rx_fifo s)\<rparr>)
     else Some (- ENOMEM, s)
   }"

fun write_fifo_bytes :: "u8 list \<Rightarrow> cec_sys \<Rightarrow> cec_sys" where
  "write_fifo_bytes [] s = s"
| "write_fifo_bytes (c # cs) s = write_fifo_bytes cs (write_reg32 MIS_CEC_TX_FIFO (ucast c) s)"

definition write_tx_fifo :: "nat \<Rightarrow> cec_sys \<Rightarrow> cec_sys option" where
  "write_tx_fifo a s = do {
     b \<leftarrow> bufs s a;
     let remain = 15 - unat (creg s MIS_CEC_TX1 AND 0xF);
     let len = min (unat (cm_len b)) remain;
     let s = write_fifo_bytes (load (bytes s) (nat (cm_data b)) len) s;
     Some (set_buf a (snd (cmb_pull len b)) s)
   }"

definition cmb_tx_complete :: "nat \<Rightarrow> cec_sys \<Rightarrow> cec_sys option" where
  "cmb_tx_complete a s = do {
     b \<leftarrow> bufs s a;
     if cm_flags b AND NONBLOCK \<noteq> 0 then Some (kfree_cmb a s)
     else let s = set_buf a (if cm_status b = WAIT_XMIT then b\<lparr>cm_status := XMIT_ABORT\<rparr> else b) s
          in Some (s\<lparr>finished := finished s @ [a]\<rparr>)
   }"

definition set_status :: "nat \<Rightarrow> u8 \<Rightarrow> cec_sys \<Rightarrow> cec_sys option" where
  "set_status a v s = do { b \<leftarrow> bufs s a; Some (set_buf a (b\<lparr>cm_status := v\<rparr>) s) }"

definition mars_cec_rx_reset :: "cec_sys \<Rightarrow> cec_sys" where
  "mars_cec_rx_reset s =
     set_rcv (\<lambda>r. r\<lparr>r_state := IDEL\<rparr>) (write_reg32 MIS_CEC_RX0 0 (write_reg32 MIS_CEC_RX0 RX_RST s))"

section \<open>Transmission\<close>

text \<open>The end of a transmission: release the buffer, switch the line back and restart reception.\<close>

definition tx_end :: "nat \<Rightarrow> cec_sys \<Rightarrow> cec_sys option" where
  "tx_end a s = do {
     s \<leftarrow> cmb_tx_complete a s;
     let s = set_xmit (\<lambda>x. x\<lparr>x_cmb := None, x_state := IDEL\<rparr>) s;
     let s = write_reg32 MIS_CEC_TX_DATA2 1 s;
     let s = mars_cec_rx_reset s;
     Some (set_rcv (\<lambda>r. r\<lparr>r_work := schedule_work (r_work r)\<rparr>) s)
   }"

text \<open>The part of \<open>mars_cec_tx_work\<close> for a running transmission.\<close>

definition tx_running :: "cec_sys \<Rightarrow> cec_sys option" where
  "tx_running s = do {
     a \<leftarrow> x_cmb (xmit (cec s));
     if creg s MIS_CEC_TX0 AND TX_EN \<noteq> 0 then do {
       b \<leftarrow> bufs s a;
       s \<leftarrow> (if creg s MIS_CEC_TX1 AND TX_INT \<noteq> 0 then do {
              s \<leftarrow> (if cm_len b \<noteq> 0 then do {
                     s \<leftarrow> write_tx_fifo a s;
                     b \<leftarrow> bufs s a;
                     Some (if cm_len b = 0 then write_reg32 MIS_CEC_TX0 (creg s MIS_CEC_TX0 AND NOT TX_CONTINUOUS) s else s)
                   } else Some s);
              Some (write_reg32 MIS_CEC_TX1 TX_INT s)
            } else Some s);
       if ticks s > x_timeout (xmit (cec s)) then do {
         let s = write_reg32 MIS_CEC_TX0 0 s;
         s \<leftarrow> set_status a XMIT_TIMEOUT s;
         s \<leftarrow> tx_end a s;
         Some (set_xmit (\<lambda>x. x\<lparr>x_work := cancel_delayed_work (x_work x)\<rparr>) s)
       } else Some s
     }
     else do {
       let s = set_xmit (\<lambda>x. x\<lparr>x_work := cancel_delayed_work (x_work x)\<rparr>) s;
       s \<leftarrow> set_status a (if creg s MIS_CEC_TX1 AND TX_EOM = 0 then XMIT_FAIL else XMIT_OK) s;
       tx_end a (write_reg32 MIS_CEC_TX0 0 s)
     }
   }"

text \<open>The part that starts the next transmission; the first byte of the message is its header.\<close>

definition tx_next :: "cec_sys \<Rightarrow> cec_sys option" where
  "tx_next s =
     (let (c, s) = tx_dequeue s; s = set_xmit (\<lambda>x. x\<lparr>x_cmb := c\<rparr>) s in
      case c of
        None \<Rightarrow> Some s
      | Some a \<Rightarrow> do {
          b \<leftarrow> bufs s a;
          if cm_data b < cm_end b then do {
            let dest = (ucast (bytes s (nat (cm_data b)) AND 0xF) :: u32);
            let s = set_buf a (snd (cmb_pull 1 b)) s;
            let s = set_xmit (\<lambda>x. x\<lparr>x_timeout := ticks s + TX_TIMEOUT\<rparr>) s;
            let s = mars_cec_rx_reset s;
            let s = write_reg32 MIS_CEC_TX_DATA2 TX_DATA2 s;
            let s = write_reg32 MIS_CEC_TX0 TX_RST s;
            let s = write_reg32 MIS_CEC_TX0 0 s;
            s \<leftarrow> write_tx_fifo a s;
            b \<leftarrow> bufs s a;
            let s = write_reg32 MIS_CEC_TX0
                      (if cm_len b = 0 then dest OR TX_EN OR TX_INT_EN else dest OR TX_EN OR TX_INT_EN OR TX_CONTINUOUS) s;
            Some (set_xmit (\<lambda>x. x\<lparr>x_state := XMIT, x_work := schedule_delayed_work (ticks s + TX_TIMEOUT + 1) (x_work x)\<rparr>) s)
          } else None
        })"

definition mars_cec_tx_work :: "cec_sys \<Rightarrow> cec_sys option" where
  "mars_cec_tx_work s = do {
     s \<leftarrow> (if x_state (xmit (cec s)) = XMIT then tx_running s else Some s);
     if x_state (xmit (cec s)) = IDEL \<and> x_enable (xmit (cec s)) then tx_next s else Some s
   }"

definition mars_cec_tx_start :: "cec_sys \<Rightarrow> cec_sys" where
  "mars_cec_tx_start s =
     (if \<not> x_enable (xmit (cec s))
      then set_xmit (\<lambda>x. x\<lparr>x_enable := True, x_state := IDEL, x_cmb := None, x_work := Not_pending\<rparr>) s else s)"

text \<open>Completing everything that waits to be sent.\<close>

partial_function (option) tx_abort_all :: "cec_sys \<Rightarrow> cec_sys option" where
  [code]: "tx_abort_all s =
     (case tx_dequeue s of
        (None, s) \<Rightarrow> Some s
      | (Some a, s) \<Rightarrow> Option.bind (cmb_tx_complete a s) tx_abort_all)"

definition mars_cec_tx_stop :: "cec_sys \<Rightarrow> cec_sys option" where
  "mars_cec_tx_stop s =
     (if x_enable (xmit (cec s)) then do {
        let s = mars_cec_rx_reset s;
        s \<leftarrow> (case x_cmb (xmit (cec s)) of Some a \<Rightarrow> cmb_tx_complete a s | None \<Rightarrow> Some s);
        s \<leftarrow> tx_abort_all s;
        Some (set_xmit (\<lambda>x. x\<lparr>x_enable := False, x_state := IDEL, x_cmb := None\<rparr>) s)
      } else Some s)"

section \<open>Reception\<close>

text \<open>The part of \<open>mars_cec_rx_work\<close> for a running reception.\<close>

definition rx_running :: "cec_sys \<Rightarrow> cec_sys option" where
  "rx_running s = do {
     a \<leftarrow> r_cmb (rcv (cec s));
     if creg s MIS_CEC_RX0 AND RX_EN \<noteq> 0 then
       if creg s MIS_CEC_RX1 AND RX_INT \<noteq> 0 then do {
         (n, s) \<leftarrow> read_rx_fifo a s;
         let s = (if n < 0 then set_rcv (\<lambda>r. r\<lparr>r_state := IDEL\<rparr>) (write_reg32 MIS_CEC_RX0 0 s) else s);
         Some (write_reg32 MIS_CEC_RX1 RX_INT s)
       } else Some s
     else do {
       (n, s) \<leftarrow> (if creg s MIS_CEC_RX1 AND RX_EOM \<noteq> 0 then read_rx_fifo a s else Some (0, s));
       s \<leftarrow> (if n \<noteq> 0 then do {
              b \<leftarrow> bufs s a;
              let (ptr, b) = cmb_push 1 b;
              let c = push_bit 4 (creg s MIS_CEC_RX0 AND 0xF) OR (creg s MIS_CEC_CR0 AND 0xF);
              let s = set_buf a b (s\<lparr>bytes := store (nat ptr) [ucast c] (bytes s)\<rparr>);
              let s = rx_queue_tail a s;
              Some (set_rcv (\<lambda>r. r\<lparr>r_cmb := None, r_complete := r_complete r + 1\<rparr>) s)
            } else Some s);
       Some (set_rcv (\<lambda>r. r\<lparr>r_state := IDEL\<rparr>) s)
     }
   }"

text \<open>A buffer to receive into: a free one, or else the oldest message that has not been read.\<close>

definition rx_get_buffer :: "cec_sys \<Rightarrow> cec_sys" where
  "rx_get_buffer s =
     (if r_cmb (rcv (cec s)) = None
      then let (c, s) = (if cmb_queue_len (rx_free_queue (cec s)) \<noteq> 0 then free_dequeue s else rx_dequeue s)
           in set_rcv (\<lambda>r. r\<lparr>r_cmb := c\<rparr>) s
      else s)"

definition rx_restart :: "cec_sys \<Rightarrow> cec_sys option" where
  "rx_restart s =
     (if creg s MIS_CEC_TX_DATA2 \<noteq> 1 then Some s
      else let s = rx_get_buffer s in
        case r_cmb (rcv (cec s)) of
          None \<Rightarrow> Some s
        | Some a \<Rightarrow> do {
            b \<leftarrow> bufs s a;
            let s = set_buf a (cmb_reserve 1 (cmb_purge b)) s;
            let s = write_reg32 MIS_CEC_RX0 RX_RST s;
            let s = write_reg32 MIS_CEC_RX0 0 s;
            let s = write_reg32 MIS_CEC_RX0 (RX_EN OR RX_INT_EN) s;
            Some (set_rcv (\<lambda>r. r\<lparr>r_state := RCV\<rparr>) s)
          })"

definition mars_cec_rx_work :: "cec_sys \<Rightarrow> cec_sys option" where
  "mars_cec_rx_work s =
     (if \<not> r_enable (rcv (cec s)) then
        Some (if r_state (rcv (cec s)) = RCV then
                let s = write_reg32 MIS_CEC_RX0 0 s;
                    s = (case r_cmb (rcv (cec s)) of Some a \<Rightarrow> kfree_cmb a s | None \<Rightarrow> s)
                in set_rcv (\<lambda>r. r\<lparr>r_cmb := None, r_state := IDEL\<rparr>) s
              else s)
      else do {
        s \<leftarrow> (if r_state (rcv (cec s)) = RCV then rx_running s else Some s);
        if r_state (rcv (cec s)) = IDEL then rx_restart s else Some s
      })"

definition mars_cec_rx_start :: "cec_sys \<Rightarrow> cec_sys" where
  "mars_cec_rx_start s =
     (if \<not> r_enable (rcv (cec s))
      then set_rcv (\<lambda>r. r\<lparr>r_complete := 0, r_enable := True, r_state := IDEL, r_cmb := None, r_work := Queued\<rparr>) s else s)"

text \<open>Emptying a buffer and putting it on the free list.\<close>

definition rx_recycle :: "nat \<Rightarrow> cec_sys \<Rightarrow> cec_sys option" where
  "rx_recycle a s = do { b \<leftarrow> bufs s a; Some (free_queue_tail a (set_buf a (cmb_reserve 1 (cmb_purge b)) s)) }"

partial_function (option) rx_recycle_all :: "cec_sys \<Rightarrow> cec_sys option" where
  [code]: "rx_recycle_all s =
     (case rx_dequeue s of
        (None, s) \<Rightarrow> Some s
      | (Some a, s) \<Rightarrow> Option.bind (rx_recycle a s) rx_recycle_all)"

definition mars_cec_rx_stop :: "cec_sys \<Rightarrow> cec_sys option" where
  "mars_cec_rx_stop s =
     (if r_enable (rcv (cec s)) then do {
        let s = write_reg32 MIS_CEC_RX0 RX_RST s;
        let s = write_reg32 MIS_CEC_RX0 0 s;
        s \<leftarrow> (case r_cmb (rcv (cec s)) of Some a \<Rightarrow> rx_recycle a s | None \<Rightarrow> Some s);
        s \<leftarrow> rx_recycle_all s;
        Some (set_rcv (\<lambda>r. r\<lparr>r_enable := False, r_state := IDEL, r_cmb := None, r_complete := r_complete r + 0x7FFFFFFF\<rparr>) s)
      } else Some s)"

section \<open>Interrupt and operations\<close>

text \<open>\<open>False\<close> is \<open>IRQ_NONE\<close>.\<close>

definition mars_cec_isr :: "cec_sys \<Rightarrow> (bool \<times> cec_sys) option" where
  "mars_cec_isr s =
     (let event = creg s MIS_ISR_REG AND (CEC_TX_INT OR CEC_RX_INT) in
      if event = 0 then Some (False, s)
      else do {
        s \<leftarrow> (if event AND CEC_TX_INT \<noteq> 0 then mars_cec_tx_work s else Some s);
        s \<leftarrow> (if event AND CEC_RX_INT \<noteq> 0 then mars_cec_rx_work s else Some s);
        Some (True, write_reg32 MIS_ISR_REG event s)
      })"

text \<open>\<open>kmalloc\<close> and \<open>alloc_cmb\<close>: the address of the structure, its node linked to itself, the bytes behind it.\<close>

definition new_cmb :: "nat option \<Rightarrow> nat \<Rightarrow> cec_sys \<Rightarrow> nat option \<times> cec_sys" where
  "new_cmb addr n s =
     (case (addr, alloc_cmb (map_option (\<lambda>a. a + SIZEOF_CM_BUFF) addr) n) of
        (Some a, Some b) \<Rightarrow> (Some a, set_buf a b (s\<lparr>lists := INIT_LIST_HEAD a (lists s)\<rparr>))
      | _ \<Rightarrow> (None, s))"

fun init_rx_buffers :: "nat option list \<Rightarrow> cec_sys \<Rightarrow> cec_sys" where
  "init_rx_buffers [] s = s"
| "init_rx_buffers (addr # addrs) s =
     (let (c, s) = new_cmb addr RX_BUFFER_SIZE s
      in init_rx_buffers addrs (case c of Some a \<Rightarrow> free_queue_tail a s | None \<Rightarrow> s))"

definition init_queues :: "cec_sys \<Rightarrow> cec_sys" where
  "init_queues s =
     (let (h, q) = cmb_queue_head_init (lists s, tx_queue (cec s));
          s = s\<lparr>lists := h, cec := (cec s)\<lparr>tx_queue := q\<rparr>\<rparr>;
          (h, q) = cmb_queue_head_init (lists s, rx_queue (cec s));
          s = s\<lparr>lists := h, cec := (cec s)\<lparr>rx_queue := q\<rparr>\<rparr>;
          (h, q) = cmb_queue_head_init (lists s, rx_free_queue (cec s))
      in s\<lparr>lists := h, cec := (cec s)\<lparr>rx_free_queue := q\<rparr>\<rparr>)"

fun write_regs :: "(cec_reg \<times> u32) list \<Rightarrow> cec_sys \<Rightarrow> cec_sys" where
  "write_regs [] s = s"
| "write_regs ((r, v) # ws) s = write_regs ws (write_reg32 r v s)"

text \<open>The eight addresses \<open>addrs\<close> are the results of the allocations, \<open>irq\<close> says whether the interrupt is granted.\<close>

definition mars_cec_init :: "nat option list \<Rightarrow> bool \<Rightarrow> cec_sys \<Rightarrow> int \<times> cec_sys" where
  "mars_cec_init addrs irq s =
     (if \<not> st_init (cec s) then
        let s = write_regs [(MIS_CEC_CR0, 0x0F), (MIS_CEC_RX0, 0), (MIS_CEC_TX0, 0), (MIS_CEC_RT1, 5), (MIS_CEC_CR2, 0x22),
                  (MIS_CEC_RX_START0, 0x8C), (MIS_CEC_RX_START1, 0xBF), (MIS_CEC_TX_START0, 0x94), (MIS_CEC_TX_START1, 0x20),
                  (MIS_CEC_TX_DATA0, 0x18), (MIS_CEC_TX_DATA1, 0x24), (MIS_CEC_TX_DATA2, 1)] s;
            s = set_xmit (\<lambda>x. x\<lparr>x_state := IDEL, x_cmb := None, x_timeout := 0\<rparr>) s;
            s = set_rcv (\<lambda>r. r\<lparr>r_state := IDEL, r_cmb := None, r_complete := 0\<rparr>) s;
            s = init_rx_buffers addrs (init_queues s)
        in if \<not> irq then (- 1, s) else (0, s\<lparr>cec := (cec s)\<lparr>st_init := True\<rparr>\<rparr>)
      else (0, s))"

definition mars_cec_enable :: "bool \<Rightarrow> cec_sys \<Rightarrow> (int \<times> cec_sys) option" where
  "mars_cec_enable on_off s =
     (if on_off then
        Some (0, if \<not> st_enable (cec s) then
                   let s = write_reg32 MIS_CEC_CR0 (creg s MIS_CEC_CR0 AND 0x3F OR CEC_MODE_NORMAL) s;
                       s = mars_cec_tx_start (mars_cec_rx_start s)
                   in s\<lparr>cec := (cec s)\<lparr>st_enable := True\<rparr>\<rparr>
                 else s)
      else if st_enable (cec s) then do {
        let s = write_reg32 MIS_CEC_CR0 (creg s MIS_CEC_CR0 AND 0x3F) s;
        let s = s\<lparr>cec := (cec s)\<lparr>st_enable := False\<rparr>\<rparr>;
        s \<leftarrow> mars_cec_rx_stop s;
        s \<leftarrow> mars_cec_tx_stop s;
        Some (0, s)
      }
      else Some (0, s))"

definition mars_cec_set_logical_addr :: "u8 \<Rightarrow> cec_sys \<Rightarrow> int \<times> cec_sys" where
  "mars_cec_set_logical_addr log_addr s =
     (if log_addr > 0xF then (- EFAULT, s)
      else (0, write_reg32 MIS_CEC_CR0 ((creg s MIS_CEC_CR0 AND NOT 0xF) OR ucast log_addr) s))"

text \<open>Sending: queueing the message, waiting for its completion (what happens then is \<open>wait\<close>), and the result.\<close>

definition xmit_queue :: "nat \<Rightarrow> u8 \<Rightarrow> cec_sys \<Rightarrow> cec_sys option" where
  "xmit_queue a flags s = do {
     b \<leftarrow> bufs s a;
     let s = set_buf a (b\<lparr>cm_flags := flags, cm_status := WAIT_XMIT\<rparr>) s;
     let s = tx_queue_tail a s;
     Some (set_xmit (\<lambda>x. x\<lparr>x_work := schedule_work (x_work x)\<rparr>) s)
   }"

definition xmit_result :: "nat \<Rightarrow> cec_sys \<Rightarrow> (int \<times> cec_sys) option" where
  "xmit_result a s = do { b \<leftarrow> bufs s a; Some (if cm_status b = XMIT_OK then 0 else - 1, kfree_cmb a s) }"

definition mars_cec_xmit_message :: "(cec_sys \<Rightarrow> cec_sys) \<Rightarrow> nat \<Rightarrow> u8 \<Rightarrow> cec_sys \<Rightarrow> (int \<times> cec_sys) option" where
  "mars_cec_xmit_message wait a flags s =
     (if \<not> x_enable (xmit (cec s)) then Some (- 1, s)
      else do {
        s \<leftarrow> xmit_queue a flags s;
        if flags AND NONBLOCK = 0 then xmit_result a (wait s) else Some (0, s)
      })"

text \<open>Reading: \<open>addr\<close> is the result of the allocation that replaces the buffer handed out.\<close>

partial_function (option) read_wait :: "(cec_sys \<Rightarrow> cec_sys) \<Rightarrow> u8 \<Rightarrow> cec_sys \<Rightarrow> cec_sys option" where
  [code]: "read_wait wait flags s =
     (if flags AND NONBLOCK = 0 \<and> st_enable (cec s) \<and> cmb_queue_len (rx_queue (cec s)) = 0
      then read_wait wait flags (wait s) else Some s)"

definition read_take :: "nat option \<Rightarrow> cec_sys \<Rightarrow> (nat option \<times> cec_sys) option" where
  "read_take addr s =
     (if st_enable (cec s) then
        let (c, s) = rx_dequeue s in
        case c of
          None \<Rightarrow> Some (None, s)
        | Some a \<Rightarrow> let (n, s) = new_cmb addr RX_BUFFER_SIZE s
                    in case n of None \<Rightarrow> None | Some e \<Rightarrow> Some (Some a, free_queue_tail e s)
      else Some (None, s))"

definition mars_cec_read_message ::
  "(cec_sys \<Rightarrow> cec_sys) \<Rightarrow> nat option \<Rightarrow> u8 \<Rightarrow> cec_sys \<Rightarrow> (nat option \<times> cec_sys) option" where
  "mars_cec_read_message wait addr flags s = do { s \<leftarrow> read_wait wait flags s; read_take addr s }"

definition mars_cec_uninit :: "cec_sys \<Rightarrow> cec_sys option" where
  "mars_cec_uninit s = do {
     let s = write_regs [(MIS_CEC_CR0, 0x0F), (MIS_CEC_RX0, 0), (MIS_CEC_TX0, 0)] s;
     (_, s) \<leftarrow> mars_cec_enable False s;
     Some (s\<lparr>cec := (cec s)\<lparr>st_init := False\<rparr>\<rparr>)
   }"

section \<open>Waking up from standby\<close>

text \<open>
  \<open>mars_cec_wakeup_check\<close> over the registers it reads: the wake-up conditions \<open>flag\<close>, the control and receive
  registers and the operation code received. The result is the reason, 0 for none, and the
  writes that restart reception.
\<close>

definition wake_restart :: "(cec_reg \<times> u32) list" where
  "wake_restart = [(MIS_CEC_CR0, 0x44), (MIS_CEC_RX0, 0x40), (MIS_CEC_RX0, 0x00), (MIS_CEC_RX0, 0x90), (MIS_CEC_TX_DATA2, 1)]"

definition mars_cec_wakeup_check :: "u8 \<Rightarrow> u8 \<Rightarrow> cec_sys \<Rightarrow> int \<times> cec_sys" where
  "mars_cec_wakeup_check flag opcode s =
     (let s = (if creg s MIS_ISR_REG AND (CEC_RX_INT OR CEC_TX_INT) \<noteq> 0
               then write_reg32 MIS_ISR_REG (CEC_RX_INT OR CEC_TX_INT) s else s) in
      if flag = 0 then (0, s)
      else if creg s MIS_CEC_CR0 AND 0xC0 \<noteq> 0x40 then (0, write_regs wake_restart s)
      else if creg s MIS_CEC_RX0 AND 0x80 \<noteq> 0 then (0, s)
      else
        let ret = (if creg s MIS_CEC_RX1 AND 0x80 \<noteq> 0 then
                     if opcode = 0x04 \<or> opcode = 0x0D then if flag AND 0x04 \<noteq> 0 then 3 else 0
                     else if opcode = 0x86 then if flag AND 0x86 \<noteq> 0 then 4 else 0
                     else if opcode = 0x41 then if flag AND 0x41 \<noteq> 0 then 5 else 0
                     else 0
                   else 0)
        in (ret, write_regs (if ret = 0 then wake_restart else [(MIS_CEC_RX0, 0x40), (MIS_CEC_RX0, 0x00)]) s))"

end
