(* ===== verification/Cec_Props.thy ===== *)
theory Cec_Props
  imports Cec
begin

text \<open>
  The properties of the CEC adapter: in every interleaving of interrupts, work items and calls each
  message buffer has exactly one owner and no handler meets a freed one, messages are received and
  sent byte for byte, and disabling the adapter completes what waits to be sent.
\<close>

section \<open>Several queues in one list memory\<close>

lemma dlist_frame:
  assumes "dlist h head ys" "\<And>a. a \<in> set (head # ys) \<Longrightarrow> nxt h' a = nxt h a \<and> prv h' a = prv h a"
  shows "dlist h' head ys"
proof -
  have "linked h' (head # ys @ [head]) \<longleftrightarrow> linked h (head # ys @ [head])"
    by (rule linked_cong) (use assms(2) in \<open>auto dest: in_set_butlastD\<close>)
  then show ?thesis using assms(1) by (simp add: dlist_def)
qed

lemma list_add_tail_frame:
  assumes "dlist h head xs" "x \<noteq> new" "x \<notin> set (head # xs)"
  shows "nxt (list_add_tail new head h) x = nxt h x \<and> prv (list_add_tail new head h) x = prv h x"
proof -
  have "prv h head \<in> set (head # xs)" using dlist_last [OF assms(1)] by (metis last_in_set list.distinct(1))
  then show ?thesis using assms(2,3) by (auto simp: list_add_tail_def list_op_defs)
qed

lemma list_del_first_frame:
  assumes "dlist h head (e # xs)" "x \<notin> set (head # e # xs)"
  shows "nxt (list_del_init e h) x = nxt h x \<and> prv (list_del_init e h) x = prv h x"
proof -
  have "prv h e = head" "nxt h e \<in> set (head # xs)"
    using assms(1) by (cases xs; simp add: dlist_def)+
  then show ?thesis using assms(2) by (auto simp: list_del_init_def list_op_defs)
qed

text \<open>The queues \<open>qs\<close>, each with its contents, share no node.\<close>

definition qs_ok :: "list_mem \<Rightarrow> (cm_buff_head \<times> nat list) list \<Rightarrow> bool" where
  "qs_ok h qs \<longleftrightarrow> distinct (concat (map (\<lambda>(q, xs). cm_list q # xs) qs)) \<and> list_all (\<lambda>(q, xs). cm_queue_ok (h, q) xs) qs"

definition qs_nodes :: "(cm_buff_head \<times> nat list) list \<Rightarrow> nat set" where
  "qs_nodes qs = set (concat (map (\<lambda>(q, xs). cm_list q # xs) qs))"

lemma qs_nodes_simps [simp]: "qs_nodes [] = {}" "qs_nodes ((q, xs) # qs) = insert (cm_list q) (set xs) \<union> qs_nodes qs"
  by (simp_all add: qs_nodes_def)

lemma qs_ok_simps [simp]:
  "qs_ok h []"
  "qs_ok h ((q, xs) # qs) \<longleftrightarrow> cm_queue_ok (h, q) xs \<and> cm_list q \<notin> set xs \<and> distinct xs \<and>
     insert (cm_list q) (set xs) \<inter> qs_nodes qs = {} \<and> qs_ok h qs"
  unfolding qs_ok_def qs_nodes_def by (simp, auto)

lemma qs_frame:
  assumes "qs_ok h qs" "\<And>a. a \<in> qs_nodes qs \<Longrightarrow> nxt h' a = nxt h a \<and> prv h' a = prv h a"
  shows "qs_ok h' qs"
proof -
  have "cm_queue_ok (h', q) xs" if "(q, xs) \<in> set qs" for q xs
  proof -
    have "cm_queue_ok (h, q) xs" using assms(1) that by (auto simp: qs_ok_def list_all_iff)
    moreover have "set (cm_list q # xs) \<subseteq> qs_nodes qs" using that unfolding qs_nodes_def by force
    ultimately show ?thesis using assms(2) dlist_frame [of h "cm_list q" xs h'] by (auto simp: cm_queue_ok_def)
  qed
  then show ?thesis using assms(1) by (auto simp: qs_ok_def list_all_iff)
qed

lemma qs_push:
  assumes "qs_ok h ((q, xs) # qs)" "a \<notin> qs_nodes ((q, xs) # qs)" "cmb_queue_tail a (h, q) = (h', q')"
  shows "qs_ok h' ((q', xs @ [a]) # qs)" "cm_list q' = cm_list q"
proof -
  have ok: "cm_queue_ok (h, q) xs" "qs_ok h qs" using assms(1) by simp_all
  have d: "dlist h (cm_list q) xs" using ok(1) by (simp add: cm_queue_ok_def)
  have new: "cm_queue_ok (h', q') (xs @ [a])" "cm_list q' = cm_list q"
    using cm_queue.push_back_law [of "(h, q)" xs "cm_list q" a] ok assms(2,3) by simp_all
  show "cm_list q' = cm_list q" by fact
  have h': "h' = list_add_tail a (cm_list q) h" using assms(3) by (simp add: cmb_queue_tail_def)
  have "nxt h' x = nxt h x \<and> prv h' x = prv h x" if "x \<in> qs_nodes qs" for x
  proof -
    have "x \<notin> set (cm_list q # xs)" using assms(1) that by auto
    moreover have "x \<noteq> a" using assms(2) that by auto
    ultimately show ?thesis unfolding h' using list_add_tail_frame [OF d] by blast
  qed
  then have "qs_ok h' qs" using qs_frame ok(2) by blast
  then show "qs_ok h' ((q', xs @ [a]) # qs)" using assms(1,2) new by auto
qed

lemma qs_pop:
  assumes "qs_ok h ((q, a # xs) # qs)" "cmb_dequeue (h, q) = (c, h', q')"
  shows "c = Some a" "qs_ok h' ((q', xs) # qs)" "cm_list q' = cm_list q"
proof -
  have ok: "cm_queue_ok (h, q) (a # xs)" "qs_ok h qs" using assms(1) by simp_all
  have d: "dlist h (cm_list q) (a # xs)" using ok(1) by (simp add: cm_queue_ok_def)
  have new: "c = Some a" "cm_queue_ok (h', q') xs" "cm_list q' = cm_list q"
    using cm_queue.pop_front_law [of "(h, q)" a xs "cm_list q"] ok assms(2) by simp_all
  show "c = Some a" "cm_list q' = cm_list q" by fact+
  have h': "h' = list_del_init a h"
    using assms(2) list_empty_iff [OF d] list_del_first_spec [OF d] by (simp add: cmb_dequeue_def Let_def)
  have "nxt h' x = nxt h x \<and> prv h' x = prv h x" if "x \<in> qs_nodes qs" for x
  proof -
    have "x \<notin> set (cm_list q # a # xs)" using assms(1) that by auto
    then show ?thesis unfolding h' using list_del_first_frame [OF d] by blast
  qed
  then have "qs_ok h' qs" using qs_frame ok(2) by blast
  then show "qs_ok h' ((q', xs) # qs)" using assms(1) new by auto
qed

lemma qs_pop_empty:
  assumes "qs_ok h ((q, []) # qs)"
  shows "cmb_dequeue (h, q) = (None, h, q)"
  using cm_queue.pop_empty [of "(h, q)" "[]" "cm_list q"] assms by simp

lemma qs_len: "qs_ok h ((q, xs) # qs) \<Longrightarrow> cmb_queue_len q = of_nat (length xs)"
  by (simp add: cm_queue_ok_def cmb_queue_len_def)

lemma qs_perm: "qs_ok h [x, y, z] = qs_ok h [y, x, z]" "qs_ok h [x, y, z] = qs_ok h [z, x, y]"
  by (cases x; cases y; cases z; auto)+

section \<open>Ownership of buffers\<close>

text \<open>
  The contents of the three queues, and the list \<open>L\<close> of the other buffers in use: no buffer occurs twice,
  all are live, and every message waiting to be sent has its header byte.
\<close>

definition cec_qs :: "cec_sys \<Rightarrow> nat list \<Rightarrow> nat list \<Rightarrow> nat list \<Rightarrow> (cm_buff_head \<times> nat list) list" where
  "cec_qs s ts rs fs = [(tx_queue (cec s), ts), (rx_queue (cec s), rs), (rx_free_queue (cec s), fs)]"

definition has_header :: "cm_buff \<Rightarrow> bool" where
  "has_header b \<longleftrightarrow> cm_data b < cm_end b"

definition own :: "cec_sys \<Rightarrow> nat list \<Rightarrow> nat list \<Rightarrow> nat list \<Rightarrow> nat list \<Rightarrow> bool" where
  "own s ts rs fs L \<longleftrightarrow> qs_ok (lists s) (cec_qs s ts rs fs) \<and> distinct L \<and> set L \<inter> qs_nodes (cec_qs s ts rs fs) = {} \<and>
     set (ts @ rs @ fs @ L) \<subseteq> dom (bufs s) \<and> (\<forall>a \<in> set ts. \<forall>b. bufs s a = Some b \<longrightarrow> has_header b)"

lemma own_perm:
  assumes "set L = set L'" "length L = length L'"
  shows "own s ts rs fs L = own s ts rs fs L'"
proof -
  have "distinct L \<longleftrightarrow> distinct L'" by (metis assms card_distinct distinct_card)
  then show ?thesis unfolding own_def set_append assms(1) by simp
qed

lemma own_drop: "own s ts rs fs (a # L) \<Longrightarrow> own s ts rs fs L"
  by (auto simp: own_def)

lemma own_same:
  "lists s' = lists s \<Longrightarrow> bufs s' = bufs s \<Longrightarrow> tx_queue (cec s') = tx_queue (cec s) \<Longrightarrow> rx_queue (cec s') = rx_queue (cec s) \<Longrightarrow>
     rx_free_queue (cec s') = rx_free_queue (cec s) \<Longrightarrow> own s' ts rs fs L = own s ts rs fs L"
  by (simp add: own_def cec_qs_def)

lemma own_write [simp]: "own (write_reg32 r v s) ts rs fs L = own s ts rs fs L"
  by (rule own_same) (simp_all add: write_reg32_def)

lemma own_set_xmit [simp]: "own (set_xmit f s) ts rs fs L = own s ts rs fs L"
  by (rule own_same) (simp_all add: set_xmit_def)

lemma own_set_rcv [simp]: "own (set_rcv f s) ts rs fs L = own s ts rs fs L"
  by (rule own_same) (simp_all add: set_rcv_def)

lemma own_set_buf:
  assumes "own s ts rs fs L" "bufs s a \<noteq> None" "a \<in> set ts \<Longrightarrow> has_header b"
  shows "own (set_buf a b s) ts rs fs L"
  using assms by (auto simp: own_def set_buf_def cec_qs_def)

lemma own_set_other: "own s ts rs fs L \<Longrightarrow> a \<in> set L \<Longrightarrow> own (set_buf a b s) ts rs fs L"
  by (auto simp: own_def set_buf_def cec_qs_def)

lemma own_kfree: "own s ts rs fs (a # L) \<Longrightarrow> own (kfree_cmb a s) ts rs fs L"
  by (auto simp: own_def kfree_cmb_def cec_qs_def)

lemma own_live: "own s ts rs fs L \<Longrightarrow> a \<in> set (ts @ rs @ fs @ L) \<Longrightarrow> \<exists>b. bufs s a = Some b"
  by (auto simp: own_def)

text \<open>Buffers moving between the queues and their other owners.\<close>

lemma own_qs:
  "own s ts rs fs L \<Longrightarrow> qs_ok (lists s) [(tx_queue (cec s), ts), (rx_queue (cec s), rs), (rx_free_queue (cec s), fs)]"
  "own s ts rs fs L \<Longrightarrow> qs_ok (lists s) [(rx_queue (cec s), rs), (tx_queue (cec s), ts), (rx_free_queue (cec s), fs)]"
  "own s ts rs fs L \<Longrightarrow> qs_ok (lists s) [(rx_free_queue (cec s), fs), (tx_queue (cec s), ts), (rx_queue (cec s), rs)]"
  by (auto simp: own_def cec_qs_def)

lemma own_tx_pop:
  assumes "own s (a # ts) rs fs L"
  obtains h q where "tx_dequeue s = (Some a, s\<lparr>lists := h, cec := (cec s)\<lparr>tx_queue := q\<rparr>\<rparr>)"
    "own (s\<lparr>lists := h, cec := (cec s)\<lparr>tx_queue := q\<rparr>\<rparr>) ts rs fs (a # L)"
proof -
  obtain c h q where d: "cmb_dequeue (lists s, tx_queue (cec s)) = (c, h, q)" by (metis prod_cases3)
  note p = qs_pop [OF own_qs(1) [OF assms] d]
  have "own (s\<lparr>lists := h, cec := (cec s)\<lparr>tx_queue := q\<rparr>\<rparr>) ts rs fs (a # L)"
    using assms p(2,3) by (auto simp: own_def cec_qs_def)
  then show ?thesis using that d p(1) by (simp add: tx_dequeue_def)
qed

lemma own_tx_empty: "own s [] rs fs L \<Longrightarrow> tx_dequeue s = (None, s)"
  using qs_pop_empty [OF own_qs(1) [of s "[]" rs fs L]] by (simp add: tx_dequeue_def)

lemma own_tx_push:
  assumes "own s ts rs fs (a # L)" "\<And>b. bufs s a = Some b \<Longrightarrow> has_header b"
  obtains h q where "tx_queue_tail a s = s\<lparr>lists := h, cec := (cec s)\<lparr>tx_queue := q\<rparr>\<rparr>"
    "own (s\<lparr>lists := h, cec := (cec s)\<lparr>tx_queue := q\<rparr>\<rparr>) (ts @ [a]) rs fs L"
proof -
  obtain h q where d: "cmb_queue_tail a (lists s, tx_queue (cec s)) = (h, q)" by force
  have "a \<notin> qs_nodes [(tx_queue (cec s), ts), (rx_queue (cec s), rs), (rx_free_queue (cec s), fs)]"
    using assms(1) by (auto simp: own_def cec_qs_def)
  note p = qs_push [OF own_qs(1) [OF assms(1)] this d]
  have "own (s\<lparr>lists := h, cec := (cec s)\<lparr>tx_queue := q\<rparr>\<rparr>) (ts @ [a]) rs fs L"
    using assms p by (auto simp: own_def cec_qs_def)
  then show ?thesis using that d by (simp add: tx_queue_tail_def)
qed

lemma own_rx_pop:
  assumes "own s ts (a # rs) fs L"
  obtains h q where "rx_dequeue s = (Some a, s\<lparr>lists := h, cec := (cec s)\<lparr>rx_queue := q\<rparr>\<rparr>)"
    "own (s\<lparr>lists := h, cec := (cec s)\<lparr>rx_queue := q\<rparr>\<rparr>) ts rs fs (a # L)"
proof -
  obtain c h q where d: "cmb_dequeue (lists s, rx_queue (cec s)) = (c, h, q)" by (metis prod_cases3)
  note p = qs_pop [OF own_qs(2) [OF assms] d]
  have "own (s\<lparr>lists := h, cec := (cec s)\<lparr>rx_queue := q\<rparr>\<rparr>) ts rs fs (a # L)"
    using assms p(2,3) by (auto simp: own_def cec_qs_def)
  then show ?thesis using that d p(1) by (simp add: rx_dequeue_def)
qed

lemma own_rx_empty: "own s ts [] fs L \<Longrightarrow> rx_dequeue s = (None, s)"
  using qs_pop_empty [OF own_qs(2) [of s ts "[]" fs L]] by (simp add: rx_dequeue_def)

lemma own_rx_push:
  assumes "own s ts rs fs (a # L)"
  obtains h q where "rx_queue_tail a s = s\<lparr>lists := h, cec := (cec s)\<lparr>rx_queue := q\<rparr>\<rparr>"
    "own (s\<lparr>lists := h, cec := (cec s)\<lparr>rx_queue := q\<rparr>\<rparr>) ts (rs @ [a]) fs L"
proof -
  obtain h q where d: "cmb_queue_tail a (lists s, rx_queue (cec s)) = (h, q)" by force
  have "a \<notin> qs_nodes [(rx_queue (cec s), rs), (tx_queue (cec s), ts), (rx_free_queue (cec s), fs)]"
    using assms(1) by (auto simp: own_def cec_qs_def)
  note p = qs_push [OF own_qs(2) [OF assms(1)] this d]
  have "own (s\<lparr>lists := h, cec := (cec s)\<lparr>rx_queue := q\<rparr>\<rparr>) ts (rs @ [a]) fs L"
    using assms p by (auto simp: own_def cec_qs_def)
  then show ?thesis using that d by (simp add: rx_queue_tail_def)
qed

lemma own_free_pop:
  assumes "own s ts rs (a # fs) L"
  obtains h q where "free_dequeue s = (Some a, s\<lparr>lists := h, cec := (cec s)\<lparr>rx_free_queue := q\<rparr>\<rparr>)"
    "own (s\<lparr>lists := h, cec := (cec s)\<lparr>rx_free_queue := q\<rparr>\<rparr>) ts rs fs (a # L)"
proof -
  obtain c h q where d: "cmb_dequeue (lists s, rx_free_queue (cec s)) = (c, h, q)" by (metis prod_cases3)
  note p = qs_pop [OF own_qs(3) [OF assms] d]
  have "own (s\<lparr>lists := h, cec := (cec s)\<lparr>rx_free_queue := q\<rparr>\<rparr>) ts rs fs (a # L)"
    using assms p(2,3) by (auto simp: own_def cec_qs_def)
  then show ?thesis using that d p(1) by (simp add: free_dequeue_def)
qed

lemma own_free_push:
  assumes "own s ts rs fs (a # L)"
  obtains h q where "free_queue_tail a s = s\<lparr>lists := h, cec := (cec s)\<lparr>rx_free_queue := q\<rparr>\<rparr>"
    "own (s\<lparr>lists := h, cec := (cec s)\<lparr>rx_free_queue := q\<rparr>\<rparr>) ts rs (fs @ [a]) L"
proof -
  obtain h q where d: "cmb_queue_tail a (lists s, rx_free_queue (cec s)) = (h, q)" by force
  have "a \<notin> qs_nodes [(rx_free_queue (cec s), fs), (tx_queue (cec s), ts), (rx_queue (cec s), rs)]"
    using assms(1) by (auto simp: own_def cec_qs_def)
  note p = qs_push [OF own_qs(3) [OF assms(1)] this d]
  have "own (s\<lparr>lists := h, cec := (cec s)\<lparr>rx_free_queue := q\<rparr>\<rparr>) ts rs (fs @ [a]) L"
    using assms p by (auto simp: own_def cec_qs_def)
  then show ?thesis using that d by (simp add: free_queue_tail_def)
qed

section \<open>The handlers keep ownership\<close>

definition olist :: "'a option \<Rightarrow> 'a list" where
  "olist x = (case x of None \<Rightarrow> [] | Some a \<Rightarrow> [a])"

lemma olist_simps [simp]: "olist None = []" "olist (Some a) = [a]"
  by (simp_all add: olist_def)

text \<open>What the handlers branch on: the enable flags, the states, and the buffers in work.\<close>

type_synonym cec_view = "bool \<times> bool \<times> cec_state \<times> nat option \<times> bool \<times> cec_state \<times> nat option"

definition cview :: "cec_sys \<Rightarrow> cec_view" where
  "cview s = (st_enable (cec s), x_enable (xmit (cec s)), x_state (xmit (cec s)), x_cmb (xmit (cec s)),
     r_enable (rcv (cec s)), r_state (rcv (cec s)), r_cmb (rcv (cec s)))"

lemma cview_simps [simp]:
  "cview (write_reg32 r v s) = cview s" "cview (set_buf a b s) = cview s" "cview (kfree_cmb a s) = cview s"
  "cview (s\<lparr>lists := h, cec := (cec s)\<lparr>tx_queue := q\<rparr>\<rparr>) = cview s" "cview (s\<lparr>lists := h, cec := (cec s)\<lparr>rx_queue := q\<rparr>\<rparr>) = cview s"
  "cview (s\<lparr>lists := h, cec := (cec s)\<lparr>rx_free_queue := q\<rparr>\<rparr>) = cview s"
  by (simp_all add: cview_def write_reg32_def set_buf_def kfree_cmb_def)

lemma finished_simps [simp]:
  "finished (write_reg32 r v s) = finished s" "finished (set_buf a b s) = finished s" "finished (kfree_cmb a s) = finished s"
  "finished (set_xmit f s) = finished s" "finished (set_rcv g s) = finished s"
  by (simp_all add: write_reg32_def set_buf_def kfree_cmb_def set_xmit_def set_rcv_def)

lemma bufs_simps [simp]:
  "bufs (write_reg32 r v s) = bufs s" "bufs (set_xmit f s) = bufs s" "bufs (set_rcv g s) = bufs s"
  "bufs (set_buf a b s) = (bufs s)(a \<mapsto> b)"
  by (simp_all add: write_reg32_def set_buf_def set_xmit_def set_rcv_def)

lemma own_update [simp]:
  "own (s\<lparr>bytes := m, rx_fifo := f\<rparr>) ts rs fs L = own s ts rs fs L" "own (s\<lparr>finished := l\<rparr>) ts rs fs L = own s ts rs fs L"
  "own (s\<lparr>bytes := m\<rparr>) ts rs fs L = own s ts rs fs L"
  by (rule own_same; simp)+

lemma cmb_tx_complete_own:
  assumes "own s ts rs fs (a # R @ finished s)"
  shows "\<exists>s'. cmb_tx_complete a s = Some s' \<and> own s' ts rs fs (R @ finished s') \<and> cview s' = cview s"
proof -
  obtain b where b: "bufs s a = Some b" using own_live [OF assms, of a] by auto
  show ?thesis
  proof (cases "cm_flags b AND NONBLOCK \<noteq> 0")
    case True
    then show ?thesis using own_kfree [OF assms] b by (simp add: cmb_tx_complete_def)
  next
    case False
    let ?b = "if cm_status b = WAIT_XMIT then b\<lparr>cm_status := XMIT_ABORT\<rparr> else b"
    let ?s = "(set_buf a ?b s)\<lparr>finished := finished s @ [a]\<rparr>"
    have "own (set_buf a ?b s) ts rs fs (a # R @ finished s)" by (rule own_set_other [OF assms]) simp
    then have "own (set_buf a ?b s) ts rs fs (R @ finished s @ [a])"
      using own_perm [of "a # R @ finished s" "R @ finished s @ [a]" "set_buf a ?b s" ts rs fs] by simp
    moreover have "cview ?s = cview s" by (simp add: cview_def set_buf_def)
    ultimately show ?thesis using b False by (simp add: cmb_tx_complete_def Let_def)
  qed
qed

lemma rx_reset_facts:
  "own (mars_cec_rx_reset s) ts rs fs L = own s ts rs fs L" "finished (mars_cec_rx_reset s) = finished s"
  "bufs (mars_cec_rx_reset s) = bufs s" "bytes (mars_cec_rx_reset s) = bytes s"
  "cview s = (e, xe, xs, xc, re, rst, rc) \<Longrightarrow> cview (mars_cec_rx_reset s) = (e, xe, xs, xc, re, IDEL, rc)"
  by (simp_all add: mars_cec_rx_reset_def) (simp_all add: cview_def set_rcv_def write_reg32_def)

lemma tx_end_own:
  assumes o: "own s ts rs fs (a # R @ finished s)" and v: "cview s = (e, xe, xs, xc, re, rst, rc)"
  shows "\<exists>s'. tx_end a s = Some s' \<and> own s' ts rs fs (R @ finished s') \<and> cview s' = (e, xe, IDEL, None, re, IDEL, rc)"
proof -
  obtain t where t: "cmb_tx_complete a s = Some t" "own t ts rs fs (R @ finished t)" "cview t = cview s"
    using cmb_tx_complete_own [OF o] by blast
  show ?thesis using t v
    by (simp add: tx_end_def rx_reset_facts) (simp add: cview_def set_rcv_def set_xmit_def mars_cec_rx_reset_def write_reg32_def)
qed

lemma set_status_own:
  assumes "own s ts rs fs L" "a \<in> set L"
  shows "\<exists>s'. set_status a v s = Some s' \<and> own s' ts rs fs L \<and> finished s' = finished s \<and> cview s' = cview s"
proof -
  obtain b where b: "bufs s a = Some b" using own_live [OF assms(1), of a] assms(2) by auto
  show ?thesis using own_set_other [OF assms] b by (simp add: set_status_def)
qed

lemma write_fifo_facts [simp]:
  "own (write_fifo_bytes cs s) ts rs fs L = own s ts rs fs L" "finished (write_fifo_bytes cs s) = finished s"
  "bufs (write_fifo_bytes cs s) = bufs s" "cview (write_fifo_bytes cs s) = cview s"
  by (induction cs arbitrary: s) simp_all

lemma write_tx_fifo_own:
  assumes "own s ts rs fs L" "a \<in> set L"
  shows "\<exists>s' b. write_tx_fifo a s = Some s' \<and> own s' ts rs fs L \<and> finished s' = finished s \<and> cview s' = cview s \<and> bufs s' a = Some b"
proof -
  obtain b where b: "bufs s a = Some b" using own_live [OF assms(1), of a] assms(2) by auto
  have "own (set_buf a c (write_fifo_bytes cs s)) ts rs fs L" for c cs
    by (rule own_set_other) (simp_all add: assms)
  then show ?thesis using b by (simp add: write_tx_fifo_def Let_def)
qed

lemma tx_running_own:
  assumes o: "own s ts rs fs (a # R @ finished s)" and v: "cview s = (e, xe, XMIT, Some a, re, rst, rc)"
  shows "\<exists>s' xs xc rst'. tx_running s = Some s' \<and> own s' ts rs fs (olist xc @ R @ finished s') \<and>
    cview s' = (e, xe, xs, xc, re, rst', rc) \<and> (xs = XMIT \<and> xc = Some a \<and> rst' = rst \<or> xs = IDEL \<and> xc = None \<and> rst' = IDEL)"
proof -
  have a: "x_cmb (xmit (cec s)) = Some a" using v by (simp add: cview_def)
  obtain b where b: "bufs s a = Some b" using own_live [OF o, of a] by auto
  have fin: "\<exists>s'. Option.bind (set_status a st t) (\<lambda>u. tx_end a (write_reg32 r w u)) = Some s' \<and>
      own s' ts rs fs (R @ finished s') \<and> cview s' = (e, xe, IDEL, None, re, IDEL, rc)"
    if t: "own t ts rs fs (a # R @ finished t)" "cview t = (e, xe, XMIT, Some a, re, rst, rc)" for t st r w
  proof -
    obtain u where u: "set_status a st t = Some u" "own u ts rs fs (a # R @ finished t)" "finished u = finished t" "cview u = cview t"
      using set_status_own [OF t(1), of a st] by auto
    have "own (write_reg32 r w u) ts rs fs (a # R @ finished (write_reg32 r w u))" "cview (write_reg32 r w u) = (e, xe, XMIT, Some a, re, rst, rc)"
      using u(2-4) t(2) by simp_all
    from tx_end_own [OF this] show ?thesis using u(1) by simp
  qed
  show ?thesis
  proof (cases "creg s MIS_CEC_TX0 AND TX_EN \<noteq> 0")
    case False
    let ?t = "set_xmit (\<lambda>x. x\<lparr>x_work := cancel_delayed_work (x_work x)\<rparr>) s"
    have "own ?t ts rs fs (a # R @ finished ?t)" "cview ?t = (e, xe, XMIT, Some a, re, rst, rc)"
      using o v by (simp_all, simp add: cview_def set_xmit_def)
    from fin [OF this, of "if creg ?t MIS_CEC_TX1 AND TX_EOM = 0 then XMIT_FAIL else XMIT_OK" MIS_CEC_TX0 0] obtain s' where
      s': "tx_running s = Some s'" "own s' ts rs fs (R @ finished s')" "cview s' = (e, xe, IDEL, None, re, IDEL, rc)"
      unfolding tx_running_def a bind.bind_lunit Let_def using False by (auto simp only: if_False)
    then show ?thesis by (intro exI [of _ s'] exI [of _ IDEL] exI [of _ None]) simp
  next
    case True
    let ?w = "\<lambda>s. if cm_len b \<noteq> 0 then Option.bind (write_tx_fifo a s) (\<lambda>s. Option.bind (bufs s a) (\<lambda>b.
        Some (if cm_len b = 0 then write_reg32 MIS_CEC_TX0 (creg s MIS_CEC_TX0 AND NOT TX_CONTINUOUS) s else s))) else Some s"
    let ?i = "if creg s MIS_CEC_TX1 AND TX_INT \<noteq> 0 then Option.bind (?w s) (\<lambda>s. Some (write_reg32 MIS_CEC_TX1 TX_INT s)) else Some s"
    obtain u c where "write_tx_fifo a s = Some u" "own u ts rs fs (a # R @ finished s)" "finished u = finished s" "cview u = cview s" "bufs u a = Some c"
      using write_tx_fifo_own [OF o, of a] by auto
    then have "\<exists>t. ?i = Some t \<and> own t ts rs fs (a # R @ finished t) \<and> cview t = (e, xe, XMIT, Some a, re, rst, rc)"
      using o v by simp
    then obtain t where t: "?i = Some t" "own t ts rs fs (a # R @ finished t)" "cview t = (e, xe, XMIT, Some a, re, rst, rc)" by blast
    show ?thesis
    proof (cases "ticks t > x_timeout (xmit (cec t))")
      case False
      then show ?thesis using t a b True by (simp add: tx_running_def)
    next
      case late: True
      have w: "own (write_reg32 MIS_CEC_TX0 0 t) ts rs fs (a # R @ finished (write_reg32 MIS_CEC_TX0 0 t))"
        "cview (write_reg32 MIS_CEC_TX0 0 t) = (e, xe, XMIT, Some a, re, rst, rc)" using t by simp_all
      obtain u where u: "set_status a XMIT_TIMEOUT (write_reg32 MIS_CEC_TX0 0 t) = Some u" "own u ts rs fs (a # R @ finished u)"
        "cview u = (e, xe, XMIT, Some a, re, rst, rc)"
        using set_status_own [OF w(1), of a XMIT_TIMEOUT] w(2) by auto
      obtain z where z: "tx_end a u = Some z" "own z ts rs fs (R @ finished z)" "cview z = (e, xe, IDEL, None, re, IDEL, rc)"
        using tx_end_own [OF u(2,3)] by blast
      have "cview (set_xmit (\<lambda>x. x\<lparr>x_work := cancel_delayed_work (x_work x)\<rparr>) z) = cview z" by (simp add: cview_def set_xmit_def)
      then show ?thesis using t(1) a b True late u(1) z by (simp add: tx_running_def)
    qed
  qed
qed

lemma tx_next_own:
  assumes o: "own s ts rs fs (R @ finished s)" and v: "cview s = (e, xe, IDEL, None, re, rst, rc)"
  shows "\<exists>s' ts' xs xc rst'. tx_next s = Some s' \<and> own s' ts' rs fs (olist xc @ R @ finished s') \<and>
    cview s' = (e, xe, xs, xc, re, rst', rc) \<and> (xs = XMIT \<and> xc \<noteq> None \<and> rst' = IDEL \<or> xs = IDEL \<and> xc = None \<and> ts = [] \<and> ts' = [] \<and> rst' = rst)"
proof (cases ts)
  case Nil
  have "tx_dequeue s = (None, s)" using own_tx_empty o Nil by blast
  moreover have "cview (set_xmit (\<lambda>x. x\<lparr>x_cmb := None\<rparr>) s) = cview s" using v by (simp add: cview_def set_xmit_def)
  ultimately show ?thesis using o v Nil by (simp add: tx_next_def)
next
  case (Cons a us)
  obtain h q where d: "tx_dequeue s = (Some a, s\<lparr>lists := h, cec := (cec s)\<lparr>tx_queue := q\<rparr>\<rparr>)"
    "own (s\<lparr>lists := h, cec := (cec s)\<lparr>tx_queue := q\<rparr>\<rparr>) us rs fs (a # R @ finished s)"
    using own_tx_pop [of s a us] o Cons by blast
  define t where "t = set_xmit (\<lambda>x. x\<lparr>x_cmb := Some a\<rparr>) (s\<lparr>lists := h, cec := (cec s)\<lparr>tx_queue := q\<rparr>\<rparr>)"
  have t: "own t us rs fs (a # R @ finished t)" "cview t = (e, xe, IDEL, Some a, re, rst, rc)" "bufs t = bufs s"
    using d(2) v by (simp_all add: t_def) (simp add: cview_def set_xmit_def)
  obtain b where b: "bufs s a = Some b" using own_live [OF o, of a] Cons by auto
  have hd: "cm_data b < cm_end b" using o b Cons by (simp add: own_def has_header_def)
  define u where "u = write_reg32 MIS_CEC_TX0 0 (write_reg32 MIS_CEC_TX0 TX_RST (write_reg32 MIS_CEC_TX_DATA2 TX_DATA2
      (mars_cec_rx_reset (set_xmit (\<lambda>x. x\<lparr>x_timeout := ticks (set_buf a (snd (cmb_pull 1 b)) t) + TX_TIMEOUT\<rparr>) (set_buf a (snd (cmb_pull 1 b)) t)))))"
  have ft: "finished u = finished t" by (simp add: u_def rx_reset_facts)
  have "own (set_buf a (snd (cmb_pull 1 b)) t) us rs fs (a # R @ finished t)" by (rule own_set_other [OF t(1)]) simp
  then have u: "own u us rs fs (a # R @ finished u)" unfolding ft by (simp add: u_def rx_reset_facts)
  have "cview (set_xmit (\<lambda>x. x\<lparr>x_timeout := ticks (set_buf a (snd (cmb_pull 1 b)) t) + TX_TIMEOUT\<rparr>) (set_buf a (snd (cmb_pull 1 b)) t)) = cview t"
    by (simp add: cview_def set_xmit_def set_buf_def)
  then have uv: "cview u = (e, xe, IDEL, Some a, re, IDEL, rc)" using rx_reset_facts(5) t(2) by (simp add: u_def)
  obtain w c where w: "write_tx_fifo a u = Some w" "own w us rs fs (a # R @ finished u)" "finished w = finished u" "cview w = cview u" "bufs w a = Some c"
    using write_tx_fifo_own [OF u, of a] by auto
  define dest where "dest = (ucast (bytes t (nat (cm_data b)) AND 0xF) :: u32)"
  let ?z = "write_reg32 MIS_CEC_TX0 (if cm_len c = 0 then dest OR TX_EN OR TX_INT_EN else dest OR TX_EN OR TX_INT_EN OR TX_CONTINUOUS) w"
  define s' where "s' = set_xmit (\<lambda>x. x\<lparr>x_state := XMIT, x_work := schedule_delayed_work (ticks ?z + TX_TIMEOUT + 1) (x_work x)\<rparr>) ?z"
  have "tx_next s = Some s'"
    using hd by (simp only: tx_next_def Let_def d(1) prod.case option.case t_def [symmetric] t(3) b bind.bind_lunit if_True
        u_def [symmetric] w(1) w(5) dest_def [symmetric] s'_def [symmetric])
  moreover have "own s' us rs fs (a # R @ finished s')" using w(2,3) by (simp add: s'_def)
  moreover have "cview s' = (e, xe, XMIT, Some a, re, IDEL, rc)" using w(4) uv by (auto simp: s'_def cview_def set_xmit_def write_reg32_def)
  ultimately show ?thesis
    by - (rule exI [of _ s'], rule exI [of _ us], rule exI [of _ XMIT], rule exI [of _ "Some a"], rule exI [of _ IDEL], simp)
qed

text \<open>The invariant of the adapter: \<open>N\<close> is the number of receive buffers, \<open>C\<close> holds the buffers in the hands of callers.\<close>

definition cec_inv :: "nat \<Rightarrow> nat list \<Rightarrow> cec_sys \<Rightarrow> bool" where
  "cec_inv N C s \<longleftrightarrow> (\<exists>ts rs fs e xs xc rst rc. cview s = (e, e, xs, xc, e, rst, rc) \<and>
     own s ts rs fs (olist xc @ olist rc @ C @ finished s) \<and> length rs + length fs + length (olist rc) = N \<and>
     (xs = XMIT \<and> xc \<noteq> None \<or> xs = IDEL \<and> xc = None) \<and> (rst = RCV \<and> rc \<noteq> None \<or> rst = IDEL) \<and>
     (\<not> e \<longrightarrow> ts = [] \<and> rs = [] \<and> xc = None \<and> rc = None))"

lemma cec_invI:
  "cview s = (e, e, xs, xc, e, rst, rc) \<Longrightarrow> own s ts rs fs (olist xc @ olist rc @ C @ finished s) \<Longrightarrow>
     length rs + length fs + length (olist rc) = N \<Longrightarrow> xs = XMIT \<and> xc \<noteq> None \<or> xs = IDEL \<and> xc = None \<Longrightarrow>
     rst = RCV \<and> rc \<noteq> None \<or> rst = IDEL \<Longrightarrow> \<not> e \<longrightarrow> ts = [] \<and> rs = [] \<and> xc = None \<and> rc = None \<Longrightarrow> cec_inv N C s"
  unfolding cec_inv_def by blast

lemma cec_invE:
  assumes "cec_inv N C s"
  obtains ts rs fs e xs xc rst rc where "cview s = (e, e, xs, xc, e, rst, rc)"
    "own s ts rs fs (olist xc @ olist rc @ C @ finished s)" "length rs + length fs + length (olist rc) = N"
    "xs = XMIT \<and> xc \<noteq> None \<or> xs = IDEL \<and> xc = None" "rst = RCV \<and> rc \<noteq> None \<or> rst = IDEL"
    "\<not> e \<longrightarrow> ts = [] \<and> rs = [] \<and> xc = None \<and> rc = None"
  using assms unfolding cec_inv_def by blast

lemma cviewD:
  assumes "cview s = (e, xe, xs, xc, re, rst, rc)"
  shows "st_enable (cec s) = e" "x_enable (xmit (cec s)) = xe" "x_state (xmit (cec s)) = xs" "x_cmb (xmit (cec s)) = xc"
    "r_enable (rcv (cec s)) = re" "r_state (rcv (cec s)) = rst" "r_cmb (rcv (cec s)) = rc"
  using assms by (simp_all add: cview_def)

lemma tx_work_inv:
  assumes "cec_inv N C s"
  shows "\<exists>s'. mars_cec_tx_work s = Some s' \<and> cec_inv N C s'"
proof -
  obtain ts rs fs e xs xc rst rc where i: "cview s = (e, e, xs, xc, e, rst, rc)" "own s ts rs fs (olist xc @ olist rc @ C @ finished s)"
    "length rs + length fs + length (olist rc) = N" "xs = XMIT \<and> xc \<noteq> None \<or> xs = IDEL \<and> xc = None"
    "rst = RCV \<and> rc \<noteq> None \<or> rst = IDEL" "\<not> e \<longrightarrow> ts = [] \<and> rs = [] \<and> xc = None \<and> rc = None"
    using cec_invE [OF assms] by metis
  obtain t xs1 xc1 rst1 where t: "(if x_state (xmit (cec s)) = XMIT then tx_running s else Some s) = Some t"
    "own t ts rs fs (olist xc1 @ (olist rc @ C) @ finished t)" "cview t = (e, e, xs1, xc1, e, rst1, rc)"
    "xs1 = XMIT \<and> xc1 \<noteq> None \<or> xs1 = IDEL \<and> xc1 = None" "rst1 = rst \<or> rst1 = IDEL" "\<not> e \<longrightarrow> xc1 = None"
  proof (cases "xs = XMIT")
    case True
    then obtain a where a: "xc = Some a" using i(4) by auto
    have ss: "own s ts rs fs (a # (olist rc @ C) @ finished s)" "cview s = (e, e, XMIT, Some a, e, rst, rc)" using i(1,2) a True by auto
    obtain t xs1 xc1 rst1 where t: "tx_running s = Some t" "own t ts rs fs (olist xc1 @ (olist rc @ C) @ finished t)"
      "cview t = (e, e, xs1, xc1, e, rst1, rc)" "xs1 = XMIT \<and> xc1 = Some a \<and> rst1 = rst \<or> xs1 = IDEL \<and> xc1 = None \<and> rst1 = IDEL"
      using tx_running_own [OF ss] by blast
    then show ?thesis using that [of t xc1 xs1 rst1] i(6) a cviewD(3) [OF ss(2)] by auto
  next
    case False
    then show ?thesis using i that [of s xc xs rst] by (simp add: cview_def)
  qed
  show ?thesis
  proof (cases "xs1 = IDEL \<and> e")
    case False
    then have "mars_cec_tx_work s = Some t" using t(1) cviewD [OF t(3)] by (auto simp: mars_cec_tx_work_def)
    moreover have "cec_inv N C t" using t i by (intro cec_invI [OF t(3), of ts rs fs]) auto
    ultimately show ?thesis by blast
  next
    case True
    then have tt: "own t ts rs fs ((olist rc @ C) @ finished t)" "cview t = (e, e, IDEL, None, e, rst1, rc)" using t(2-4) by auto
    obtain u ts' xs2 xc2 rst2 where u: "tx_next t = Some u" "own u ts' rs fs (olist xc2 @ (olist rc @ C) @ finished u)" "cview u = (e, e, xs2, xc2, e, rst2, rc)"
      "xs2 = XMIT \<and> xc2 \<noteq> None \<and> rst2 = IDEL \<or> xs2 = IDEL \<and> xc2 = None \<and> ts = [] \<and> ts' = [] \<and> rst2 = rst1"
      using tx_next_own [OF tt] by blast
    have "mars_cec_tx_work s = Some u" using t(1) cviewD [OF t(3)] True u(1) by (simp add: mars_cec_tx_work_def)
    moreover have "cec_inv N C u" using u t i True by (intro cec_invI [OF u(3), of ts' rs fs]) auto
    ultimately show ?thesis by blast
  qed
qed

lemma own_swap: "own s ts rs fs (A @ B @ F) = own s ts rs fs (B @ A @ F)"
  by (rule own_perm) auto

lemma read_rx_fifo_own:
  assumes "own s ts rs fs L" "a \<in> set L"
  shows "\<exists>n s' b. read_rx_fifo a s = Some (n, s') \<and> own s' ts rs fs L \<and> finished s' = finished s \<and> cview s' = cview s \<and> bufs s' a = Some b"
proof -
  obtain b where b: "bufs s a = Some b" using own_live [OF assms(1), of a] assms(2) by auto
  have "own (set_buf a c s) ts rs fs L" for c by (rule own_set_other [OF assms])
  moreover have "cview (set_buf a c s\<lparr>bytes := m, rx_fifo := f\<rparr>) = cview s" for c m f by (simp add: cview_def set_buf_def)
  ultimately show ?thesis using b assms(1) by (simp add: read_rx_fifo_def Let_def case_prod_unfold)
qed

text \<open>The byte in front of a received message: the initiator and the own logical address.\<close>

definition rx_header :: "cec_sys \<Rightarrow> u8" where
  "rx_header s = ucast (push_bit 4 (creg s MIS_CEC_RX0 AND 0xF) OR (creg s MIS_CEC_CR0 AND 0xF))"

text \<open>The end of a reception: the message is queued behind those received before.\<close>

lemma rx_deliver:
  assumes a: "r_cmb (rcv (cec s)) = Some a" and idle: "creg s MIS_CEC_RX0 AND RX_EN = 0"
    and p: "(if creg s MIS_CEC_RX1 AND RX_EOM \<noteq> 0 then read_rx_fifo a s else Some (0, s)) = Some (m, u)" "m \<noteq> 0"
    and u: "own u ts rs fs (a # R @ finished u)" "cview u = (e, xe, xs, xc, re, RCV, Some a)" "bufs u a = Some c"
  obtains z where "rx_running s = Some z" "own z ts (rs @ [a]) fs (R @ finished z)" "cview z = (e, xe, xs, xc, re, IDEL, None)"
    "bufs z = (bufs u)(a \<mapsto> snd (cmb_push 1 c))" "bytes z = store (nat (fst (cmb_push 1 c))) [rx_header u] (bytes u)"
    "r_complete (rcv (cec z)) = r_complete (rcv (cec u)) + 1"
proof -
  define w where "w = set_buf a (snd (cmb_push 1 c)) (u\<lparr>bytes := store (nat (fst (cmb_push 1 c))) [rx_header u] (bytes u)\<rparr>)"
  have w: "own w ts rs fs (a # R @ finished w)" "cview w = cview u"
    unfolding w_def by (simp_all add: own_set_other u(1)) (simp add: cview_def)
  obtain h q where x: "rx_queue_tail a w = w\<lparr>lists := h, cec := (cec w)\<lparr>rx_queue := q\<rparr>\<rparr>"
    "own (w\<lparr>lists := h, cec := (cec w)\<lparr>rx_queue := q\<rparr>\<rparr>) ts (rs @ [a]) fs (R @ finished w)"
    using own_rx_push [OF w(1)] by blast
  define z where "z = set_rcv (\<lambda>r. r\<lparr>r_state := IDEL\<rparr>) (set_rcv (\<lambda>r. r\<lparr>r_cmb := None, r_complete := r_complete r + 1\<rparr>) (w\<lparr>lists := h, cec := (cec w)\<lparr>rx_queue := q\<rparr>\<rparr>))"
  have "rx_running s = Some z"
    using p u(3) x(1) unfolding z_def w_def rx_header_def
    by (simp only: rx_running_def a idle bind.bind_lunit if_False if_True prod.case case_prod_unfold simp_thms Let_def fst_conv snd_conv)
  moreover have "own z ts (rs @ [a]) fs (R @ finished z)" using x(2) by (simp add: z_def)
  moreover have "cview z = (e, xe, xs, xc, re, IDEL, None)" using w(2) u(2) by (simp add: z_def cview_def set_rcv_def)
  moreover have "bufs z = (bufs u)(a \<mapsto> snd (cmb_push 1 c))" "bytes z = store (nat (fst (cmb_push 1 c))) [rx_header u] (bytes u)"
    "r_complete (rcv (cec z)) = r_complete (rcv (cec u)) + 1" by (simp_all add: z_def w_def set_rcv_def set_buf_def)
  ultimately show ?thesis by (rule that)
qed

lemma rx_running_own:
  assumes o: "own s ts rs fs (a # R @ finished s)" and v: "cview s = (e, xe, xs, xc, re, RCV, Some a)"
  shows "\<exists>s' rs' rst' rc'. rx_running s = Some s' \<and> own s' ts rs' fs (olist rc' @ R @ finished s') \<and>
    cview s' = (e, xe, xs, xc, re, rst', rc') \<and> length rs' + length (olist rc') = length rs + 1 \<and> (rst' = RCV \<and> rc' = Some a \<or> rst' = IDEL)"
proof -
  have a: "r_cmb (rcv (cec s)) = Some a" using v by (simp add: cview_def)
  obtain n t b where t: "read_rx_fifo a s = Some (n, t)" "own t ts rs fs (a # R @ finished s)" "finished t = finished s"
    "cview t = cview s" "bufs t a = Some b" using read_rx_fifo_own [OF o, of a] by auto
  have idle: "own (set_rcv (\<lambda>r. r\<lparr>r_state := IDEL\<rparr>) u) ts' rs' fs' L = own u ts' rs' fs' L"
    "cview u = (e, xe, xs, xc, re, rst, rc) \<Longrightarrow> cview (set_rcv (\<lambda>r. r\<lparr>r_state := IDEL\<rparr>) u) = (e, xe, xs, xc, re, IDEL, rc)" for u ts' rs' fs' L rst rc
    by (simp_all, simp add: cview_def set_rcv_def)
  show ?thesis
  proof (cases "creg s MIS_CEC_RX0 AND RX_EN \<noteq> 0")
    case True
    let ?t = "if n < 0 then set_rcv (\<lambda>r. r\<lparr>r_state := IDEL\<rparr>) (write_reg32 MIS_CEC_RX0 0 t) else t"
    have tt: "own ?t ts rs fs (a # R @ finished ?t)" "cview ?t = (e, xe, xs, xc, re, if n < 0 then IDEL else RCV, Some a)"
      using t(2-4) v idle by simp_all
    have r: "rx_running s = Some (if creg s MIS_CEC_RX1 AND RX_INT \<noteq> 0 then write_reg32 MIS_CEC_RX1 RX_INT ?t else s)"
      using True by (simp only: rx_running_def a bind.bind_lunit if_True t(1) prod.case Let_def split: if_split) simp
    show ?thesis
    proof (cases "creg s MIS_CEC_RX1 AND RX_INT \<noteq> 0")
      case True
      then show ?thesis using tt unfolding r
        by - (rule exI [of _ "write_reg32 MIS_CEC_RX1 RX_INT ?t"], rule exI [of _ rs], rule exI [of _ "if n < 0 then IDEL else RCV"], rule exI [of _ "Some a"],
            simp only: option.inject if_True own_write finished_simps cview_simps, simp)
    next
      case False
      then show ?thesis using o v unfolding r by - (rule exI [of _ s], rule exI [of _ rs], rule exI [of _ RCV], rule exI [of _ "Some a"], simp)
    qed
  next
    case False
    let ?p = "if creg s MIS_CEC_RX1 AND RX_EOM \<noteq> 0 then read_rx_fifo a s else Some (0, s)"
    obtain m u c where u: "?p = Some (m, u)" "own u ts rs fs (a # R @ finished u)" "cview u = (e, xe, xs, xc, re, RCV, Some a)" "bufs u a = Some c"
    proof (cases "creg s MIS_CEC_RX1 AND RX_EOM \<noteq> 0")
      case True
      then show ?thesis using that [of n t b] t v by simp
    next
      case False
      then show ?thesis using that [of 0 s] o v own_live [OF o, of a] by auto
    qed
    show ?thesis
    proof (cases "m = 0")
      case True
      have "rx_running s = Some (set_rcv (\<lambda>r. r\<lparr>r_state := IDEL\<rparr>) u)"
        using False True u(1) by (simp only: rx_running_def a bind.bind_lunit if_False prod.case simp_thms)
      then show ?thesis using u idle
        by - (rule exI [of _ "set_rcv (\<lambda>r. r\<lparr>r_state := IDEL\<rparr>) u"], rule exI [of _ rs], rule exI [of _ IDEL], rule exI [of _ "Some a"], simp)
    next
      case m: False
      have idl: "creg s MIS_CEC_RX0 AND RX_EN = 0" using False by simp
      obtain z where "rx_running s = Some z" "own z ts (rs @ [a]) fs (R @ finished z)" "cview z = (e, xe, xs, xc, re, IDEL, None)"
        using rx_deliver [OF a idl u(1) m u(2-4)] by metis
      then show ?thesis by - (rule exI [of _ z], rule exI [of _ "rs @ [a]"], rule exI [of _ IDEL], rule exI [of _ None], simp)
    qed
  qed
qed

lemma rx_get_buffer_own:
  assumes o: "own s ts rs fs (olist rc @ R @ finished s)" and v: "cview s = (e, xe, xs, xc, re, rst, rc)" and n: "length fs < 2 ^ 32"
  shows "\<exists>rs' fs' rc'. own (rx_get_buffer s) ts rs' fs' (olist rc' @ R @ finished (rx_get_buffer s)) \<and>
    cview (rx_get_buffer s) = (e, xe, xs, xc, re, rst, rc') \<and> creg (rx_get_buffer s) = creg s \<and>
    length rs' + length fs' + length (olist rc') = length rs + length fs + length (olist rc) \<and> (rc' = None \<longrightarrow> rs = [] \<and> fs = [])"
proof (cases rc)
  case (Some a)
  then have "rx_get_buffer s = s" using cviewD(7) [OF v] by (simp add: rx_get_buffer_def)
  then show ?thesis using o v Some by (metis option.distinct(1))
next
  case None
  have r: "r_cmb (rcv (cec s)) = None" using cviewD(7) [OF v] None by simp
  have len: "cmb_queue_len (rx_free_queue (cec s)) = of_nat (length fs)" using qs_len [OF own_qs(3) [OF o]] .
  have upd: "cview (set_rcv (\<lambda>r. r\<lparr>r_cmb := c\<rparr>) t) = (e, xe, xs, xc, re, rst, c)" if "cview t = cview s" for c t
    using that v by (simp add: cview_def set_rcv_def)
  have keep: "creg (set_rcv f t) = creg t" for f t by (simp add: set_rcv_def)
  show ?thesis
  proof (cases fs)
    case (Cons a us)
    have ne: "cmb_queue_len (rx_free_queue (cec s)) \<noteq> 0"
    proof
      assume "cmb_queue_len (rx_free_queue (cec s)) = 0"
      moreover have "unat (of_nat (length fs) :: u32) = length fs" using n by (simp add: unat_of_nat take_bit_nat_eq_self)
      ultimately show False using len Cons by simp
    qed
    have o': "own s ts rs (a # us) (R @ finished s)" using o None Cons by simp
    obtain h q where d: "free_dequeue s = (Some a, s\<lparr>lists := h, cec := (cec s)\<lparr>rx_free_queue := q\<rparr>\<rparr>)"
      "own (s\<lparr>lists := h, cec := (cec s)\<lparr>rx_free_queue := q\<rparr>\<rparr>) ts rs us (a # R @ finished s)"
      using own_free_pop [OF o'] by blast
    have g: "rx_get_buffer s = set_rcv (\<lambda>r. r\<lparr>r_cmb := Some a\<rparr>) (s\<lparr>lists := h, cec := (cec s)\<lparr>rx_free_queue := q\<rparr>\<rparr>)"
      using r ne d(1) by (simp add: rx_get_buffer_def)
    show ?thesis unfolding g using d(2) upd keep Cons None
      by - (rule exI [of _ rs], rule exI [of _ us], rule exI [of _ "Some a"], simp)
  next
    case Nil
    have z: "cmb_queue_len (rx_free_queue (cec s)) = 0" using len Nil by simp
    show ?thesis
    proof (cases rs)
      case (Cons a us)
      have o': "own s ts (a # us) fs (R @ finished s)" using o None Cons by simp
      obtain h q where d: "rx_dequeue s = (Some a, s\<lparr>lists := h, cec := (cec s)\<lparr>rx_queue := q\<rparr>\<rparr>)"
        "own (s\<lparr>lists := h, cec := (cec s)\<lparr>rx_queue := q\<rparr>\<rparr>) ts us fs (a # R @ finished s)"
        using own_rx_pop [OF o'] by blast
      have g: "rx_get_buffer s = set_rcv (\<lambda>r. r\<lparr>r_cmb := Some a\<rparr>) (s\<lparr>lists := h, cec := (cec s)\<lparr>rx_queue := q\<rparr>\<rparr>)"
        using r z d(1) by (simp add: rx_get_buffer_def)
      show ?thesis unfolding g using d(2) upd keep Cons None
        by - (rule exI [of _ us], rule exI [of _ fs], rule exI [of _ "Some a"], simp)
    next
      case rs: Nil
      have "rx_dequeue s = (None, s)" using own_rx_empty o None rs by auto
      then have g: "rx_get_buffer s = set_rcv (\<lambda>r. r\<lparr>r_cmb := None\<rparr>) s" using r z by (simp add: rx_get_buffer_def)
      show ?thesis unfolding g using o upd keep rs Nil None
        by - (rule exI [of _ rs], rule exI [of _ fs], rule exI [of _ None], simp)
    qed
  qed
qed

lemma rx_restart_own:
  assumes o: "own s ts rs fs (olist rc @ R @ finished s)" and v: "cview s = (e, xe, xs, xc, re, IDEL, rc)" and n: "length fs < 2 ^ 32"
  shows "\<exists>s' rs' fs' rst' rc'. rx_restart s = Some s' \<and> own s' ts rs' fs' (olist rc' @ R @ finished s') \<and>
    cview s' = (e, xe, xs, xc, re, rst', rc') \<and>
    length rs' + length fs' + length (olist rc') = length rs + length fs + length (olist rc) \<and> (rst' = RCV \<and> rc' \<noteq> None \<or> rst' = IDEL)"
proof (cases "creg s MIS_CEC_TX_DATA2 \<noteq> 1")
  case True
  then show ?thesis using o v
    by - (rule exI [of _ s], rule exI [of _ rs], rule exI [of _ fs], rule exI [of _ IDEL], rule exI [of _ rc], simp add: rx_restart_def)
next
  case False
  obtain rs' fs' rc' where g: "own (rx_get_buffer s) ts rs' fs' (olist rc' @ R @ finished (rx_get_buffer s))"
    "cview (rx_get_buffer s) = (e, xe, xs, xc, re, IDEL, rc')"
    "length rs' + length fs' + length (olist rc') = length rs + length fs + length (olist rc)"
    using rx_get_buffer_own [OF o v n] by blast
  show ?thesis
  proof (cases rc')
    case None
    then have "rx_restart s = Some (rx_get_buffer s)" using False cviewD(7) [OF g(2)] by (simp add: rx_restart_def)
    then show ?thesis using g
      by - (rule exI [of _ "rx_get_buffer s"], rule exI [of _ rs'], rule exI [of _ fs'], rule exI [of _ IDEL], rule exI [of _ rc'], simp)
  next
    case (Some a)
    let ?g = "rx_get_buffer s"
    obtain b where b: "bufs ?g a = Some b" using own_live [OF g(1), of a] Some by auto
    define z where "z = set_rcv (\<lambda>r. r\<lparr>r_state := RCV\<rparr>) (write_reg32 MIS_CEC_RX0 (RX_EN OR RX_INT_EN) (write_reg32 MIS_CEC_RX0 0
        (write_reg32 MIS_CEC_RX0 RX_RST (set_buf a (cmb_reserve 1 (cmb_purge b)) ?g))))"
    have "rx_restart s = Some z" using False b cviewD(7) [OF g(2)] Some by (simp add: rx_restart_def z_def)
    moreover have "own (set_buf a (cmb_reserve 1 (cmb_purge b)) ?g) ts rs' fs' (olist rc' @ R @ finished ?g)"
      by (rule own_set_other [OF g(1)]) (simp add: Some)
    then have "own z ts rs' fs' (olist rc' @ R @ finished z)" by (simp add: z_def)
    moreover have "cview z = (e, xe, xs, xc, re, RCV, rc')" using g(2) by (simp add: z_def cview_def set_rcv_def write_reg32_def set_buf_def)
    ultimately show ?thesis using g(3) Some
      by - (rule exI [of _ z], rule exI [of _ rs'], rule exI [of _ fs'], rule exI [of _ RCV], rule exI [of _ rc'], simp)
  qed
qed

lemma rx_work_inv:
  assumes inv: "cec_inv N C s" and N: "N < 2 ^ 32"
  shows "\<exists>s'. mars_cec_rx_work s = Some s' \<and> cec_inv N C s'"
proof -
  obtain ts rs fs e xs xc rst rc where i: "cview s = (e, e, xs, xc, e, rst, rc)" "own s ts rs fs (olist xc @ olist rc @ C @ finished s)"
    "length rs + length fs + length (olist rc) = N" "xs = XMIT \<and> xc \<noteq> None \<or> xs = IDEL \<and> xc = None"
    "rst = RCV \<and> rc \<noteq> None \<or> rst = IDEL" "\<not> e \<longrightarrow> ts = [] \<and> rs = [] \<and> xc = None \<and> rc = None"
    using cec_invE [OF inv] by metis
  have o: "own s ts rs fs (olist rc @ (olist xc @ C) @ finished s)" using i(2) own_swap [of s ts rs fs "olist xc" "olist rc" "C @ finished s"] by simp
  show ?thesis
  proof (cases e)
    case False
    then have "mars_cec_rx_work s = Some s" using cviewD [OF i(1)] i(5,6) by (auto simp: mars_cec_rx_work_def)
    then show ?thesis using inv by blast
  next
    case e: True
    obtain t rs1 rst1 rc1 where t: "(if r_state (rcv (cec s)) = RCV then rx_running s else Some s) = Some t"
      "own t ts rs1 fs (olist rc1 @ (olist xc @ C) @ finished t)" "cview t = (e, e, xs, xc, e, rst1, rc1)"
      "length rs1 + length fs + length (olist rc1) = N" "rst1 = RCV \<and> rc1 \<noteq> None \<or> rst1 = IDEL"
    proof (cases "rst = RCV")
      case True
      then obtain a where a: "rc = Some a" using i(5) by auto
      have ss: "own s ts rs fs (a # (olist xc @ C) @ finished s)" "cview s = (e, e, xs, xc, e, RCV, Some a)" using o i(1) a True by auto
      obtain t rs' rst' rc' where "rx_running s = Some t" "own t ts rs' fs (olist rc' @ (olist xc @ C) @ finished t)"
        "cview t = (e, e, xs, xc, e, rst', rc')" "length rs' + length (olist rc') = length rs + 1" "rst' = RCV \<and> rc' = Some a \<or> rst' = IDEL"
        using rx_running_own [OF ss] by blast
      then show ?thesis using that [of t rs' rc' rst'] i(3) a cviewD(6) [OF ss(2)] by auto
    next
      case False
      then show ?thesis using that [of s rs rc rst] i o cviewD(6) [OF i(1)] by auto
    qed
    show ?thesis
    proof (cases "rst1 = IDEL")
      case False
      then have "mars_cec_rx_work s = Some t" using t(1) cviewD(6) [OF t(3)] cviewD(5) [OF i(1)] e by (simp add: mars_cec_rx_work_def)
      moreover have "own t ts rs1 fs (olist xc @ olist rc1 @ C @ finished t)"
        using t(2) own_swap [of t ts rs1 fs "olist xc" "olist rc1" "C @ finished t"] by simp
      then have "cec_inv N C t" using t(3-5) i(4) e by (intro cec_invI [OF t(3)]) auto
      ultimately show ?thesis by blast
    next
      case True
      have tt: "own t ts rs1 fs (olist rc1 @ (olist xc @ C) @ finished t)" "cview t = (e, e, xs, xc, e, IDEL, rc1)" "length fs < 2 ^ 32"
        using t True N by auto
      obtain u rs2 fs2 rst2 rc2 where u: "rx_restart t = Some u" "own u ts rs2 fs2 (olist rc2 @ (olist xc @ C) @ finished u)"
        "cview u = (e, e, xs, xc, e, rst2, rc2)" "length rs2 + length fs2 + length (olist rc2) = length rs1 + length fs + length (olist rc1)"
        "rst2 = RCV \<and> rc2 \<noteq> None \<or> rst2 = IDEL"
        using rx_restart_own [OF tt] by blast
      have "mars_cec_rx_work s = Some u" using t(1) cviewD(6) [OF tt(2)] cviewD(5) [OF i(1)] e u(1) by (simp add: mars_cec_rx_work_def)
      moreover have "own u ts rs2 fs2 (olist xc @ olist rc2 @ C @ finished u)" using u(2) own_swap [of u ts rs2 fs2 "olist xc" "olist rc2" "C @ finished u"] by simp
      then have "cec_inv N C u" using u(3-5) t(4) i(4) e by (intro cec_invI [OF u(3)]) auto
      ultimately show ?thesis by blast
    qed
  qed
qed

lemma isr_inv:
  assumes inv: "cec_inv N C s" and N: "N < 2 ^ 32"
  shows "\<exists>r s'. mars_cec_isr s = Some (r, s') \<and> cec_inv N C s'"
proof -
  have w: "cec_inv N C (write_reg32 r v t) = cec_inv N C t" for r v t by (simp add: cec_inv_def)
  let ?e = "creg s MIS_ISR_REG AND (CEC_TX_INT OR CEC_RX_INT)"
  obtain t where t: "(if ?e AND CEC_TX_INT \<noteq> 0 then mars_cec_tx_work s else Some s) = Some t" "cec_inv N C t"
    using tx_work_inv [OF inv] inv by (metis (full_types))
  obtain u where u: "(if ?e AND CEC_RX_INT \<noteq> 0 then mars_cec_rx_work t else Some t) = Some u" "cec_inv N C u"
    using rx_work_inv [OF t(2) N] t(2) by (metis (full_types))
  show ?thesis
  proof (cases "?e = 0")
    case True
    then show ?thesis using inv by (auto simp: mars_cec_isr_def)
  next
    case False
    then have "mars_cec_isr s = Some (True, write_reg32 MIS_ISR_REG ?e u)"
      by (simp only: mars_cec_isr_def Let_def if_False t(1) u(1) bind.bind_lunit)
    then show ?thesis using w u(2) by auto
  qed
qed

section \<open>Starting and stopping\<close>

text \<open>What completing does to a message that nobody transmits: a waiting sender finds it aborted, otherwise it is freed.\<close>

definition abort_buf :: "cm_buff \<Rightarrow> cm_buff option" where
  "abort_buf b = (if cm_flags b AND NONBLOCK \<noteq> 0 then None
     else Some (if cm_status b = WAIT_XMIT then b\<lparr>cm_status := XMIT_ABORT\<rparr> else b))"

definition awaited :: "cec_sys \<Rightarrow> nat \<Rightarrow> bool" where
  "awaited s a \<longleftrightarrow> (\<exists>b. bufs s a = Some b \<and> cm_flags b AND NONBLOCK = 0)"

definition abort_bufs :: "nat set \<Rightarrow> cec_sys \<Rightarrow> nat \<Rightarrow> cm_buff option" where
  "abort_bufs A s a = (if a \<in> A then Option.bind (bufs s a) abort_buf else bufs s a)"

lemma cmb_tx_complete_effect:
  "cmb_tx_complete a s = Some s' \<Longrightarrow> bufs s' = abort_bufs {a} s \<and> finished s' = finished s @ (if awaited s a then [a] else [])"
  by (auto simp: cmb_tx_complete_def abort_bufs_def abort_buf_def awaited_def kfree_cmb_def set_buf_def Let_def fun_eq_iff split: Option.bind_splits if_splits)

lemma tx_abort_all_own:
  assumes "own s ts rs fs (R @ finished s)"
  shows "\<exists>s'. tx_abort_all s = Some s' \<and> own s' [] rs fs (R @ finished s') \<and> cview s' = cview s \<and>
    bufs s' = abort_bufs (set ts) s \<and> finished s' = finished s @ filter (awaited s) ts"
  using assms
proof (induction ts arbitrary: s)
  case Nil
  then have "tx_dequeue s = (None, s)" by (rule own_tx_empty)
  then show ?case using Nil by (subst tx_abort_all.simps) (simp add: abort_bufs_def fun_eq_iff)
next
  case (Cons a ts)
  obtain h q where d: "tx_dequeue s = (Some a, s\<lparr>lists := h, cec := (cec s)\<lparr>tx_queue := q\<rparr>\<rparr>)"
    "own (s\<lparr>lists := h, cec := (cec s)\<lparr>tx_queue := q\<rparr>\<rparr>) ts rs fs (a # R @ finished s)"
    using own_tx_pop [OF Cons.prems] by blast
  define t where "t = s\<lparr>lists := h, cec := (cec s)\<lparr>tx_queue := q\<rparr>\<rparr>"
  have t: "own t ts rs fs (a # R @ finished t)" "cview t = cview s" "bufs t = bufs s" "finished t = finished s"
    using d(2) by (simp_all add: t_def)
  obtain u where u: "cmb_tx_complete a t = Some u" "own u ts rs fs (R @ finished u)" "cview u = cview t"
    using cmb_tx_complete_own [OF t(1)] by blast
  note eff = cmb_tx_complete_effect [OF u(1)]
  obtain z where z: "tx_abort_all u = Some z" "own z [] rs fs (R @ finished z)" "cview z = cview u"
    "bufs z = abort_bufs (set ts) u" "finished z = finished u @ filter (awaited u) ts" using Cons.IH [OF u(2)] by blast
  have na: "a \<notin> set ts" using Cons.prems by (auto simp: own_def cec_qs_def)
  have aw: "awaited t = awaited s" using t(3) by (simp add: awaited_def fun_eq_iff)
  have "filter (awaited u) ts = filter (awaited s) ts"
    using na eff t(3) by (intro filter_cong) (auto simp: awaited_def abort_bufs_def)
  then have f: "finished z = finished s @ filter (awaited s) (a # ts)" using z(5) eff t(4) aw by simp
  have b: "bufs z = abort_bufs (set (a # ts)) s" using z(4) eff t(3) na by (auto simp: abort_bufs_def fun_eq_iff)
  have "tx_abort_all s = Some z" using d(1) u(1) z(1) by (subst tx_abort_all.simps) (simp add: t_def)
  then show ?case using z(2,3) u(3) t(2) f b by simp
qed

lemma tx_stop_own:
  assumes o: "own s ts rs fs (olist xc @ R @ finished s)" and v: "cview s = (e, True, xs, xc, re, rst, rc)"
  shows "\<exists>s'. mars_cec_tx_stop s = Some s' \<and> own s' [] rs fs (R @ finished s') \<and> cview s' = (e, False, IDEL, None, re, IDEL, rc) \<and>
    bufs s' = abort_bufs (set (olist xc @ ts)) s \<and> finished s' = finished s @ filter (awaited s) (olist xc @ ts)"
proof -
  let ?r = "mars_cec_rx_reset s"
  have r: "own ?r ts rs fs (olist xc @ R @ finished ?r)" "cview ?r = (e, True, xs, xc, re, IDEL, rc)"
    using o v by (simp_all add: rx_reset_facts(1,2)) (rule rx_reset_facts(5))
  have rr: "abort_bufs A ?r = abort_bufs A s" "awaited ?r = awaited s" "finished ?r = finished s" for A
    by (simp_all add: abort_bufs_def awaited_def rx_reset_facts fun_eq_iff)
  obtain t where t: "(case x_cmb (xmit (cec ?r)) of Some a \<Rightarrow> cmb_tx_complete a ?r | None \<Rightarrow> Some ?r) = Some t" "own t ts rs fs (R @ finished t)"
    "cview t = cview ?r" "bufs t = abort_bufs (set (olist xc)) s" "finished t = finished s @ filter (awaited s) (olist xc)"
  proof (cases xc)
    case None
    then show ?thesis using that [of ?r] r cviewD(4) [OF r(2)] by (simp add: rx_reset_facts abort_bufs_def fun_eq_iff)
  next
    case (Some a)
    then obtain t where "cmb_tx_complete a ?r = Some t" "own t ts rs fs (R @ finished t)" "cview t = cview ?r"
      using cmb_tx_complete_own [of ?r ts rs fs a R] r(1) by auto
    then show ?thesis using that [of t] cmb_tx_complete_effect [of a ?r t] Some cviewD(4) [OF r(2)]
      by (cases "awaited s a") (simp_all add: rr)
  qed
  obtain u where u: "tx_abort_all t = Some u" "own u [] rs fs (R @ finished u)" "cview u = cview t" "bufs u = abort_bufs (set ts) t"
    "finished u = finished t @ filter (awaited t) ts" using tx_abort_all_own [OF t(2)] by blast
  have dj: "set (olist xc) \<inter> set ts = {}" using o by (cases xc) (auto simp: own_def cec_qs_def)
  have "filter (awaited t) ts = filter (awaited s) ts"
    using dj t(4) by (intro filter_cong) (auto simp: awaited_def abort_bufs_def)
  then have f: "finished u = finished s @ filter (awaited s) (olist xc @ ts)" using u(5) t(5) by simp
  have b: "bufs u = abort_bufs (set (olist xc @ ts)) s" using u(4) t(4) dj by (auto simp: abort_bufs_def fun_eq_iff)
  let ?s' = "set_xmit (\<lambda>x. x\<lparr>x_enable := False, x_state := IDEL, x_cmb := None\<rparr>) u"
  have "mars_cec_tx_stop s = Some ?s'" using cviewD(2) [OF v] t(1) u(1) by (simp add: mars_cec_tx_stop_def)
  moreover have "cview ?s' = (e, False, IDEL, None, re, IDEL, rc)" using u(3) t(3) r(2) by (simp add: cview_def set_xmit_def)
  ultimately show ?thesis using u(2) f b by simp
qed

lemma rx_recycle_own:
  assumes "own s ts rs fs (a # L)"
  shows "\<exists>s'. rx_recycle a s = Some s' \<and> own s' ts rs (fs @ [a]) L \<and> cview s' = cview s \<and> finished s' = finished s \<and>
    (\<forall>c. c \<noteq> a \<longrightarrow> bufs s' c = bufs s c)"
proof -
  obtain b where b: "bufs s a = Some b" using own_live [OF assms, of a] by auto
  let ?t = "set_buf a (cmb_reserve 1 (cmb_purge b)) s"
  have "own ?t ts rs fs (a # L)" by (rule own_set_other [OF assms]) simp
  then obtain h q where "free_queue_tail a ?t = ?t\<lparr>lists := h, cec := (cec ?t)\<lparr>rx_free_queue := q\<rparr>\<rparr>"
    "own (?t\<lparr>lists := h, cec := (cec ?t)\<lparr>rx_free_queue := q\<rparr>\<rparr>) ts rs (fs @ [a]) L" using own_free_push by blast
  then show ?thesis using b by (simp add: rx_recycle_def)
qed

lemma rx_recycle_all_own:
  assumes "own s ts rs fs L"
  shows "\<exists>s'. rx_recycle_all s = Some s' \<and> own s' ts [] (fs @ rs) L \<and> cview s' = cview s \<and> finished s' = finished s \<and>
    (\<forall>c. c \<notin> set rs \<longrightarrow> bufs s' c = bufs s c)"
  using assms
proof (induction rs arbitrary: s fs)
  case Nil
  then have "rx_dequeue s = (None, s)" by (rule own_rx_empty)
  then show ?case using Nil by (subst rx_recycle_all.simps) simp
next
  case (Cons a rs)
  obtain h q where d: "rx_dequeue s = (Some a, s\<lparr>lists := h, cec := (cec s)\<lparr>rx_queue := q\<rparr>\<rparr>)"
    "own (s\<lparr>lists := h, cec := (cec s)\<lparr>rx_queue := q\<rparr>\<rparr>) ts rs fs (a # L)"
    using own_rx_pop [OF Cons.prems] by blast
  define t where "t = s\<lparr>lists := h, cec := (cec s)\<lparr>rx_queue := q\<rparr>\<rparr>"
  have t: "own t ts rs fs (a # L)" "cview t = cview s" "bufs t = bufs s" "finished t = finished s"
    using d(2) by (simp_all add: t_def)
  obtain u where u: "rx_recycle a t = Some u" "own u ts rs (fs @ [a]) L" "cview u = cview t" "finished u = finished t" "\<forall>c. c \<noteq> a \<longrightarrow> bufs u c = bufs t c"
    using rx_recycle_own [OF t(1)] by blast
  obtain z where z: "rx_recycle_all u = Some z" "own z ts [] (fs @ [a] @ rs) L" "cview z = cview u" "finished z = finished u" "\<forall>c. c \<notin> set rs \<longrightarrow> bufs z c = bufs u c"
    using Cons.IH [OF u(2)] by auto
  have "rx_recycle_all s = Some z" using d(1) u(1) z(1) by (subst rx_recycle_all.simps) (simp add: t_def)
  then show ?case using z u t by simp
qed

lemma rx_stop_own:
  assumes o: "own s ts rs fs (olist rc @ L)" and v: "cview s = (e, xe, xs, xc, True, rst, rc)"
  shows "\<exists>s'. mars_cec_rx_stop s = Some s' \<and> own s' ts [] (fs @ olist rc @ rs) L \<and> cview s' = (e, xe, xs, xc, False, IDEL, None) \<and>
    finished s' = finished s \<and> (\<forall>c. c \<notin> set (olist rc @ rs) \<longrightarrow> bufs s' c = bufs s c)"
proof -
  let ?r = "write_reg32 MIS_CEC_RX0 0 (write_reg32 MIS_CEC_RX0 RX_RST s)"
  have r: "own ?r ts rs fs (olist rc @ L)" "cview ?r = (e, xe, xs, xc, True, rst, rc)" using o v by simp_all
  obtain t where t: "(case r_cmb (rcv (cec ?r)) of Some a \<Rightarrow> rx_recycle a ?r | None \<Rightarrow> Some ?r) = Some t" "own t ts rs (fs @ olist rc) L"
    "cview t = cview ?r" "finished t = finished ?r" "\<forall>c. c \<notin> set (olist rc) \<longrightarrow> bufs t c = bufs ?r c"
  proof (cases rc)
    case None
    then show ?thesis using that [of ?r] r cviewD(7) [OF r(2)] by simp
  next
    case (Some a)
    then show ?thesis using rx_recycle_own [of ?r ts rs fs a L] r cviewD(7) [OF r(2)] that by auto
  qed
  obtain u where u: "rx_recycle_all t = Some u" "own u ts [] ((fs @ olist rc) @ rs) L" "cview u = cview t" "finished u = finished t"
    "\<forall>c. c \<notin> set rs \<longrightarrow> bufs u c = bufs t c" using rx_recycle_all_own [OF t(2)] by blast
  let ?s' = "set_rcv (\<lambda>r. r\<lparr>r_enable := False, r_state := IDEL, r_cmb := None, r_complete := r_complete r + 0x7FFFFFFF\<rparr>) u"
  have "mars_cec_rx_stop s = Some ?s'" using cviewD(5) [OF v] t(1) u(1) by (simp add: mars_cec_rx_stop_def)
  moreover have "cview ?s' = (e, xe, xs, xc, False, IDEL, None)" using u(3) t(3) r(2) by (simp add: cview_def set_rcv_def)
  ultimately show ?thesis using u t by simp
qed

text \<open>Disabling the adapter, in full.\<close>

lemma disable_own:
  assumes o: "own s ts rs fs (olist xc @ olist rc @ C @ finished s)" and v: "cview s = (True, True, xs, xc, True, rst, rc)"
  shows "\<exists>s'. mars_cec_enable False s = Some (0, s') \<and> own s' [] [] (fs @ olist rc @ rs) (C @ finished s') \<and>
    cview s' = (False, False, IDEL, None, False, IDEL, None) \<and> finished s' = finished s @ filter (awaited s) (olist xc @ ts) \<and>
    (\<forall>a \<in> set (olist xc @ ts). bufs s' a = Option.bind (bufs s a) abort_buf)"
proof -
  let ?w = "write_reg32 MIS_CEC_CR0 (creg s MIS_CEC_CR0 AND 0x3F) s"
  let ?r = "?w\<lparr>cec := (cec ?w)\<lparr>st_enable := False\<rparr>\<rparr>"
  have "own ?r ts rs fs (olist xc @ olist rc @ C @ finished s) = own ?w ts rs fs (olist xc @ olist rc @ C @ finished s)" by (rule own_same) simp_all
  then have "own ?r ts rs fs (olist xc @ olist rc @ C @ finished s)" using o by simp
  then have r1: "own ?r ts rs fs (olist rc @ olist xc @ C @ finished s)" using own_swap [of ?r ts rs fs "olist xc" "olist rc" "C @ finished s"] by blast
  have r: "cview ?r = (False, True, xs, xc, True, rst, rc)" "finished ?r = finished s" "bufs ?r = bufs s"
    using v by (simp_all add: cview_def write_reg32_def)
  obtain t where t: "mars_cec_rx_stop ?r = Some t" "own t ts [] (fs @ olist rc @ rs) (olist xc @ C @ finished s)"
    "cview t = (False, True, xs, xc, False, IDEL, None)" "finished t = finished s" "\<forall>c. c \<notin> set (olist rc @ rs) \<longrightarrow> bufs t c = bufs s c"
    using rx_stop_own [OF r1 r(1)] r(2,3) by metis
  have t2: "own t ts [] (fs @ olist rc @ rs) (olist xc @ C @ finished t)" using t(2,4) by simp
  obtain u where u: "mars_cec_tx_stop t = Some u" "own u [] [] (fs @ olist rc @ rs) (C @ finished u)" "cview u = (False, False, IDEL, None, False, IDEL, None)"
    "bufs u = abort_bufs (set (olist xc @ ts)) t" "finished u = finished t @ filter (awaited t) (olist xc @ ts)"
    using tx_stop_own [OF t2 t(3)] by blast
  have dj: "set (olist xc @ ts) \<inter> set (olist rc @ rs) = {}"
    using o by (cases xc; cases rc) (auto simp: own_def cec_qs_def)
  then have same: "bufs t a = bufs s a" if "a \<in> set (olist xc @ ts)" for a using t(5) that by blast
  have "filter (awaited t) (olist xc @ ts) = filter (awaited s) (olist xc @ ts)"
    by (rule filter_cong) (use same in \<open>auto simp: awaited_def\<close>)
  then have f: "finished u = finished s @ filter (awaited s) (olist xc @ ts)" using u(5) t(4) by simp
  have b: "\<forall>a \<in> set (olist xc @ ts). bufs u a = Option.bind (bufs s a) abort_buf" using u(4) same by (simp add: abort_bufs_def)
  have "mars_cec_enable False s = Some (0, u)" using cviewD(1) [OF v] t(1) u(1) by (simp add: mars_cec_enable_def)
  then show ?thesis using u(2,3) f b by auto
qed

lemma enable_inv:
  assumes "cec_inv N C s"
  shows "\<exists>s'. mars_cec_enable on_off s = Some (0, s') \<and> cec_inv N C s'"
proof -
  obtain ts rs fs e xs xc rst rc where i: "cview s = (e, e, xs, xc, e, rst, rc)" "own s ts rs fs (olist xc @ olist rc @ C @ finished s)"
    "length rs + length fs + length (olist rc) = N" "xs = XMIT \<and> xc \<noteq> None \<or> xs = IDEL \<and> xc = None"
    "rst = RCV \<and> rc \<noteq> None \<or> rst = IDEL" "\<not> e \<longrightarrow> ts = [] \<and> rs = [] \<and> xc = None \<and> rc = None"
    using cec_invE [OF assms] by metis
  show ?thesis
  proof (cases on_off)
    case True
    show ?thesis
    proof (cases e)
      case e: True
      then show ?thesis using True cviewD(1) [OF i(1)] assms by (simp add: mars_cec_enable_def)
    next
      case False
      let ?s = "write_reg32 MIS_CEC_CR0 (creg s MIS_CEC_CR0 AND 0x3F OR CEC_MODE_NORMAL) s"
      define t where "t = mars_cec_tx_start (mars_cec_rx_start ?s)"
      define s' where "s' = t\<lparr>cec := (cec t)\<lparr>st_enable := True\<rparr>\<rparr>"
      have "mars_cec_enable True s = Some (0, s')" using cviewD(1) [OF i(1)] False by (simp add: mars_cec_enable_def t_def s'_def Let_def)
      moreover have "own s' ts rs fs L = own s ts rs fs L" for L
        by (rule own_same) (simp_all add: s'_def t_def mars_cec_tx_start_def mars_cec_rx_start_def set_xmit_def set_rcv_def write_reg32_def)
      moreover have "finished s' = finished s" by (simp add: s'_def t_def mars_cec_tx_start_def mars_cec_rx_start_def)
      moreover have "cview s' = (True, True, IDEL, None, True, IDEL, None)"
        using i(1) False by (simp add: s'_def t_def mars_cec_tx_start_def mars_cec_rx_start_def set_xmit_def set_rcv_def write_reg32_def cview_def)
      ultimately have "cec_inv N C s'" using i(2,3,6) False by (intro cec_invI [of s' True IDEL None IDEL None ts rs fs]) simp_all
      then show ?thesis using True \<open>mars_cec_enable True s = Some (0, s')\<close> by simp
    qed
  next
    case False
    show ?thesis
    proof (cases e)
      case True
      then have v: "cview s = (True, True, xs, xc, True, rst, rc)" using i(1) by simp
      obtain s' where "mars_cec_enable False s = Some (0, s')" "own s' [] [] (fs @ olist rc @ rs) (C @ finished s')"
        "cview s' = (False, False, IDEL, None, False, IDEL, None)" using disable_own [OF i(2) v] by blast
      moreover then have "cec_inv N C s'" using i(3) by (intro cec_invI [of s' False IDEL None IDEL None "[]" "[]" "fs @ olist rc @ rs"]) simp_all
      ultimately show ?thesis using False by simp
    next
      case e: False
      then show ?thesis using False cviewD(1) [OF i(1)] assms by (simp add: mars_cec_enable_def)
    qed
  qed
qed

section \<open>Initialisation\<close>

lemma own_new:
  assumes o: "own s ts rs fs L" and a: "bufs s a = None" "a \<notin> {cm_list (tx_queue (cec s)), cm_list (rx_queue (cec s)), cm_list (rx_free_queue (cec s))}"
  shows "\<exists>s'. new_cmb (Some a) n s = (Some a, s') \<and> own s' ts rs fs (a # L) \<and> cview s' = cview s \<and> finished s' = finished s \<and>
    cec s' = cec s \<and> bufs s' = (bufs s)(a \<mapsto> the (alloc_cmb (Some (a + SIZEOF_CM_BUFF)) n))"
proof -
  let ?h = "INIT_LIST_HEAD a (lists s)" and ?b = "the (alloc_cmb (Some (a + SIZEOF_CM_BUFF)) n)"
  let ?s = "set_buf a ?b (s\<lparr>lists := ?h\<rparr>)"
  have na: "a \<notin> set (ts @ rs @ fs @ L)" using o a(1) by (auto simp: own_def)
  then have nn: "a \<notin> qs_nodes (cec_qs s ts rs fs)" using a(2) by (simp add: cec_qs_def)
  have "qs_ok ?h (cec_qs s ts rs fs)"
    by (rule qs_frame [of "lists s"]) (use o nn in \<open>auto simp: own_def list_op_defs\<close>)
  then have "own ?s ts rs fs (a # L)" using o na nn by (auto simp: own_def cec_qs_def set_buf_def)
  moreover have "new_cmb (Some a) n s = (Some a, ?s)" by (simp add: new_cmb_def alloc_cmb_def)
  moreover have "cview ?s = cview s" "finished ?s = finished s" "cec ?s = cec s" "bufs ?s = (bufs s)(a \<mapsto> ?b)"
    by (simp_all add: cview_def set_buf_def)
  ultimately show ?thesis by blast
qed

lemma cview_same: "cec s' = cec s \<Longrightarrow> cview s' = cview s"
  by (simp add: cview_def)

text \<open>The addresses that allocation delivers: fresh, different, and none of the queue heads.\<close>

definition fresh_addrs :: "cec_sys \<Rightarrow> nat list \<Rightarrow> bool" where
  "fresh_addrs s as \<longleftrightarrow> distinct as \<and> (\<forall>a \<in> set as. bufs s a = None \<and>
     a \<notin> {cm_list (tx_queue (cec s)), cm_list (rx_queue (cec s)), cm_list (rx_free_queue (cec s))})"

lemma init_rx_buffers_own:
  assumes "own s [] [] fs L" "fresh_addrs s (concat (map olist addrs))"
  shows "\<exists>s'. init_rx_buffers addrs s = s' \<and> own s' [] [] (fs @ concat (map olist addrs)) L \<and> cview s' = cview s \<and> finished s' = finished s"
  using assms
proof (induction addrs arbitrary: s fs)
  case (Cons x addrs)
  show ?case
  proof (cases x)
    case None
    then show ?thesis using Cons by (simp add: new_cmb_def)
  next
    case (Some a)
    have f: "bufs s a = None" "a \<notin> {cm_list (tx_queue (cec s)), cm_list (rx_queue (cec s)), cm_list (rx_free_queue (cec s))}"
      using Cons.prems(2) Some by (auto simp: fresh_addrs_def)
    obtain t where t: "new_cmb (Some a) RX_BUFFER_SIZE s = (Some a, t)" "own t [] [] fs (a # L)" "cview t = cview s" "finished t = finished s"
      "cec t = cec s" "bufs t = (bufs s)(a \<mapsto> the (alloc_cmb (Some (a + SIZEOF_CM_BUFF)) RX_BUFFER_SIZE))"
      using own_new [OF Cons.prems(1) f] by blast
    obtain h q where u: "free_queue_tail a t = t\<lparr>lists := h, cec := (cec t)\<lparr>rx_free_queue := q\<rparr>\<rparr>"
      "own (t\<lparr>lists := h, cec := (cec t)\<lparr>rx_free_queue := q\<rparr>\<rparr>) [] [] (fs @ [a]) L" using own_free_push [OF t(2)] by blast
    have "rx_free_queue (cec (free_queue_tail a t)) = q" by (simp add: u(1))
    then have q: "cm_list q = cm_list (rx_free_queue (cec t))" by (auto simp: free_queue_tail_def cmb_queue_tail_def Let_def)
    have "fresh_addrs (t\<lparr>lists := h, cec := (cec t)\<lparr>rx_free_queue := q\<rparr>\<rparr>) (concat (map olist addrs))"
      using Cons.prems(2) Some t(5,6) q by (auto simp: fresh_addrs_def)
    moreover have "cview (t\<lparr>lists := h, cec := (cec t)\<lparr>rx_free_queue := q\<rparr>\<rparr>) = cview s" using t(3) by simp
    ultimately show ?thesis using Cons.IH [OF u(2)] t(1,4) u Some by (auto simp del: cview_simps)
  qed
qed simp

text \<open>A device before it is initialised.\<close>

definition cec_fresh :: "cec_sys \<Rightarrow> bool" where
  "cec_fresh s \<longleftrightarrow> \<not> st_init (cec s) \<and> \<not> st_enable (cec s) \<and> \<not> x_enable (xmit (cec s)) \<and> \<not> r_enable (rcv (cec s)) \<and> finished s = [] \<and>
     distinct [cm_list (tx_queue (cec s)), cm_list (rx_queue (cec s)), cm_list (rx_free_queue (cec s))]"

text \<open>Not initialised, possibly after an earlier use that has left completed messages behind.\<close>

definition cec_idle :: "cec_sys \<Rightarrow> bool" where
  "cec_idle s \<longleftrightarrow> \<not> st_init (cec s) \<and> \<not> st_enable (cec s) \<and> \<not> x_enable (xmit (cec s)) \<and> \<not> r_enable (rcv (cec s)) \<and>
     distinct [cm_list (tx_queue (cec s)), cm_list (rx_queue (cec s)), cm_list (rx_free_queue (cec s))] \<and> distinct (finished s) \<and>
     set (finished s) \<subseteq> dom (bufs s) - {cm_list (tx_queue (cec s)), cm_list (rx_queue (cec s)), cm_list (rx_free_queue (cec s))}"

lemma fresh_idle: "cec_fresh s \<Longrightarrow> cec_idle s"
  by (simp add: cec_fresh_def cec_idle_def)

lemma init_inv:
  assumes f: "cec_idle s" and a: "fresh_addrs s (concat (map olist addrs))" and i: "mars_cec_init addrs True s = (0, s')"
  shows "cec_inv (length (concat (map olist addrs))) [] s'"
proof -
  define w where "w = set_rcv (\<lambda>r. r\<lparr>r_state := IDEL, r_cmb := None, r_complete := 0\<rparr>) (set_xmit (\<lambda>x. x\<lparr>x_state := IDEL, x_cmb := None, x_timeout := 0\<rparr>)
    (write_regs [(MIS_CEC_CR0, 0x0F), (MIS_CEC_RX0, 0), (MIS_CEC_TX0, 0), (MIS_CEC_RT1, 5), (MIS_CEC_CR2, 0x22),
                  (MIS_CEC_RX_START0, 0x8C), (MIS_CEC_RX_START1, 0xBF), (MIS_CEC_TX_START0, 0x94), (MIS_CEC_TX_START1, 0x20),
                  (MIS_CEC_TX_DATA0, 0x18), (MIS_CEC_TX_DATA1, 0x24), (MIS_CEC_TX_DATA2, 1)] s))"
  have wf: "cview w = (False, False, IDEL, None, False, IDEL, None)" "finished w = finished s" "bufs w = bufs s"
    "tx_queue (cec w) = tx_queue (cec s)" "rx_queue (cec w) = rx_queue (cec s)" "rx_free_queue (cec w) = rx_free_queue (cec s)"
    using f by (simp_all add: w_def cec_idle_def) (simp_all add: cview_def set_rcv_def set_xmit_def write_reg32_def)
  let ?q = "init_queues w"
  have qf: "cview ?q = cview w" "finished ?q = finished s" "bufs ?q = bufs s" "cm_list (tx_queue (cec ?q)) = cm_list (tx_queue (cec s))"
    "cm_list (rx_queue (cec ?q)) = cm_list (rx_queue (cec s))" "cm_list (rx_free_queue (cec ?q)) = cm_list (rx_free_queue (cec s))"
    using wf by (simp_all add: init_queues_def cmb_queue_head_init_def cview_def)
  have "own ?q [] [] [] (finished s)"
    using f wf by (auto simp: own_def cec_qs_def init_queues_def cmb_queue_head_init_def cec_idle_def cm_queue_ok_def dlist_def list_op_defs)
  moreover have "fresh_addrs ?q (concat (map olist addrs))" using a qf by (simp add: fresh_addrs_def)
  ultimately obtain z where z: "init_rx_buffers addrs ?q = z" "own z [] [] (concat (map olist addrs)) (finished s)" "cview z = cview ?q" "finished z = finished s"
    using init_rx_buffers_own [of ?q "[]" "finished s" addrs] qf(2) by auto
  have s': "s' = z\<lparr>cec := (cec z)\<lparr>st_init := True\<rparr>\<rparr>"
    using i f z(1) by (simp add: mars_cec_init_def cec_idle_def Let_def w_def)
  have "own s' [] [] (concat (map olist addrs)) (finished s) = own z [] [] (concat (map olist addrs)) (finished s)" unfolding s' by (rule own_same) simp_all
  moreover have "cview s' = (False, False, IDEL, None, False, IDEL, None)" using z(3) qf(1) wf(1) by (simp add: s' cview_def)
  moreover have "finished s' = finished s" using z(4) by (simp add: s')
  ultimately show ?thesis using z(2) by (intro cec_invI [of s' False IDEL None IDEL None "[]" "[]" "concat (map olist addrs)"]) simp_all
qed

section \<open>All interleavings\<close>

text \<open>
  The steps of the adapter, with the list \<open>C\<close> of buffers in the hands of callers: the hardware changes status,
  received bytes and time; interrupts and pending work run; callers enable and disable the
  adapter, allocate and fill messages, send, read and free them.
\<close>

definition unused :: "cec_sys \<Rightarrow> nat \<Rightarrow> bool" where
  "unused s a \<longleftrightarrow> bufs s a = None \<and>
     a \<notin> {cm_list (tx_queue (cec s)), cm_list (rx_queue (cec s)), cm_list (rx_free_queue (cec s))}"

inductive cec_step :: "cec_sys \<times> nat list \<Rightarrow> cec_sys \<times> nat list \<Rightarrow> bool" where
  hardware: "(\<And>r. r \<notin> {MIS_ISR_REG, MIS_CEC_RX0, MIS_CEC_RX1, MIS_CEC_TX0, MIS_CEC_TX1} \<Longrightarrow> g r = creg s r) \<Longrightarrow> now \<ge> ticks s \<Longrightarrow>
    cec_step (s, C) (s\<lparr>creg := g, rx_fifo := f, ticks := now\<rparr>, C)"
| isr: "mars_cec_isr s = Some (r, s') \<Longrightarrow> cec_step (s, C) (s', C)"
| tx_work: "x_work (xmit (cec s)) = Queued \<or> (\<exists>t \<le> ticks s. x_work (xmit (cec s)) = Delayed t) \<Longrightarrow>
    mars_cec_tx_work (set_xmit (\<lambda>x. x\<lparr>x_work := Not_pending\<rparr>) s) = Some s' \<Longrightarrow> cec_step (s, C) (s', C)"
| rx_work: "r_work (rcv (cec s)) = Queued \<Longrightarrow>
    mars_cec_rx_work (set_rcv (\<lambda>r. r\<lparr>r_work := Not_pending\<rparr>) s) = Some s' \<Longrightarrow> cec_step (s, C) (s', C)"
| enable: "mars_cec_enable on_off s = Some (r, s') \<Longrightarrow> cec_step (s, C) (s', C)"
| logical_addr: "mars_cec_set_logical_addr v s = (r, s') \<Longrightarrow> cec_step (s, C) (s', C)"
| alloc: "unused s a \<Longrightarrow> new_cmb (Some a) n s = (Some a, s') \<Longrightarrow> cec_step (s, C) (s', a # C)"
| fill: "a \<in> set C \<Longrightarrow> cec_step (s, C) (set_buf a b (s\<lparr>bytes := m\<rparr>), C)"
| send: "a \<in> set C \<Longrightarrow> x_enable (xmit (cec s)) \<Longrightarrow> bufs s a = Some b \<Longrightarrow> has_header b \<Longrightarrow> xmit_queue a flags s = Some s' \<Longrightarrow>
    cec_step (s, C) (s', remove1 a C)"
| sent: "a \<in> set (finished s) \<Longrightarrow> xmit_result a s = Some (r, s') \<Longrightarrow>
    cec_step (s, C) (s'\<lparr>finished := remove1 a (finished s)\<rparr>, C)"
| read: "unused s e \<Longrightarrow> read_take (Some e) s = Some (c, s') \<Longrightarrow> cec_step (s, C) (s', olist c @ C)"
| free: "a \<in> set C \<Longrightarrow> cec_step (s, C) (kfree_cmb a s, remove1 a C)"

inductive cec_reach :: "nat \<Rightarrow> cec_sys \<times> nat list \<Rightarrow> bool" where
  init: "cec_fresh s \<Longrightarrow> length addrs = RX_RING_LENGTH \<Longrightarrow> fresh_addrs s (concat (map olist addrs)) \<Longrightarrow> mars_cec_init addrs True s = (0, s') \<Longrightarrow>
    cec_reach (length (concat (map olist addrs))) (s', [])"
| step: "cec_reach N p \<Longrightarrow> cec_step p q \<Longrightarrow> cec_reach N q"

lemma cec_inv_same:
  assumes "cec_inv N C s" "cview s' = cview s" "\<And>ts rs fs L. own s' ts rs fs L = own s ts rs fs L" "finished s' = finished s"
  shows "cec_inv N C s'"
  using assms by (simp add: cec_inv_def)

lemma cview_pending:
  "cview (set_xmit (\<lambda>x. x\<lparr>x_work := w\<rparr>) s) = cview s" "cview (set_rcv (\<lambda>r. r\<lparr>r_work := w\<rparr>) s) = cview s"
  by (simp_all add: cview_def set_xmit_def set_rcv_def)

lemma cec_inv_callers:
  "cec_inv N C s \<Longrightarrow> set C = set C' \<Longrightarrow> length C = length C' \<Longrightarrow> cec_inv N C' s"
proof -
  assume i: "cec_inv N C s" and c: "set C = set C'" "length C = length C'"
  have "own s ts rs fs (A @ B @ C @ F) = own s ts rs fs (A @ B @ C' @ F)" for ts rs fs A B F
    by (rule own_perm) (simp_all add: c)
  then show ?thesis using i unfolding cec_inv_def by simp
qed

lemma remove1_split: "a \<in> set C \<Longrightarrow> set C = set (a # remove1 a C) \<and> length C = length (a # remove1 a C)"
  by (induction C) auto

lemma alloc_inv:
  assumes i: "cec_inv N C s" and u: "unused s a"
  shows "\<exists>s'. new_cmb (Some a) n s = (Some a, s') \<and> cec_inv N (a # C) s' \<and> cec s' = cec s"
proof -
  obtain ts rs fs e xs xc rst rc where v: "cview s = (e, e, xs, xc, e, rst, rc)" "own s ts rs fs (olist xc @ olist rc @ C @ finished s)"
    "length rs + length fs + length (olist rc) = N" "xs = XMIT \<and> xc \<noteq> None \<or> xs = IDEL \<and> xc = None"
    "rst = RCV \<and> rc \<noteq> None \<or> rst = IDEL" "\<not> e \<longrightarrow> ts = [] \<and> rs = [] \<and> xc = None \<and> rc = None"
    using cec_invE [OF i] by metis
  have a: "bufs s a = None" "a \<notin> {cm_list (tx_queue (cec s)), cm_list (rx_queue (cec s)), cm_list (rx_free_queue (cec s))}"
    using u by (simp_all add: unused_def)
  obtain s' where s': "new_cmb (Some a) n s = (Some a, s')" "own s' ts rs fs (a # olist xc @ olist rc @ C @ finished s)"
    "cview s' = cview s" "finished s' = finished s" "cec s' = cec s" using own_new [OF v(2) a] by blast
  have "own s' ts rs fs (olist xc @ olist rc @ (a # C) @ finished s')"
    using s'(2) own_perm [of "a # olist xc @ olist rc @ C @ finished s" "olist xc @ olist rc @ (a # C) @ finished s" s' ts rs fs] s'(4)
    by auto
  then show ?thesis using s' v by (intro exI [of _ s'] conjI cec_invI [of s' e xs xc rst rc ts rs fs]) simp_all
qed

lemma send_own:
  assumes o: "own s ts rs fs (a # L)" and b: "bufs s a = Some b" "has_header b"
  shows "\<exists>z. xmit_queue a flags s = Some z \<and> own z (ts @ [a]) rs fs L \<and> cview z = cview s \<and> finished z = finished s \<and> bytes z = bytes s \<and>
    bufs z = (bufs s)(a \<mapsto> b\<lparr>cm_flags := flags, cm_status := WAIT_XMIT\<rparr>) \<and> x_work (xmit (cec z)) = schedule_work (x_work (xmit (cec s)))"
proof -
  let ?b = "b\<lparr>cm_flags := flags, cm_status := WAIT_XMIT\<rparr>"
  let ?t = "set_buf a ?b s"
  have ot: "own ?t ts rs fs (a # L)" by (rule own_set_other [OF o]) simp
  have "has_header ?b" using b(2) by (simp add: has_header_def)
  then have hh: "\<And>c. bufs ?t a = Some c \<Longrightarrow> has_header c" by simp
  from own_tx_push [OF ot hh] obtain h q where q: "tx_queue_tail a ?t = ?t\<lparr>lists := h, cec := (cec ?t)\<lparr>tx_queue := q\<rparr>\<rparr>"
    "own (?t\<lparr>lists := h, cec := (cec ?t)\<lparr>tx_queue := q\<rparr>\<rparr>) (ts @ [a]) rs fs L" by blast
  define z where "z = set_xmit (\<lambda>x. x\<lparr>x_work := schedule_work (x_work x)\<rparr>) (?t\<lparr>lists := h, cec := (cec ?t)\<lparr>tx_queue := q\<rparr>\<rparr>)"
  have "xmit_queue a flags s = Some z" using b(1) q(1) by (simp add: xmit_queue_def z_def)
  moreover have "own z (ts @ [a]) rs fs L" using q(2) by (simp add: z_def)
  moreover have "cview z = cview s" "finished z = finished s" "bytes z = bytes s" "bufs z = (bufs s)(a \<mapsto> ?b)"
    "x_work (xmit (cec z)) = schedule_work (x_work (xmit (cec s)))"
    by (simp_all add: z_def cview_def set_xmit_def set_buf_def)
  ultimately show ?thesis by blast
qed

lemma send_inv:
  assumes i: "cec_inv N (a # C) s" and en: "x_enable (xmit (cec s))" and b: "bufs s a = Some b" "has_header b"
  shows "\<exists>s'. xmit_queue a flags s = Some s' \<and> cec_inv N C s'"
proof -
  obtain ts rs fs e xs xc rst rc where v: "cview s = (e, e, xs, xc, e, rst, rc)" "own s ts rs fs (olist xc @ olist rc @ (a # C) @ finished s)"
    "length rs + length fs + length (olist rc) = N" "xs = XMIT \<and> xc \<noteq> None \<or> xs = IDEL \<and> xc = None"
    "rst = RCV \<and> rc \<noteq> None \<or> rst = IDEL" "\<not> e \<longrightarrow> ts = [] \<and> rs = [] \<and> xc = None \<and> rc = None"
    using cec_invE [OF i] by metis
  have e using en cviewD(2) [OF v(1)] by simp
  have "own s ts rs fs (a # olist xc @ olist rc @ C @ finished s)"
    using v(2) own_perm [of "a # olist xc @ olist rc @ C @ finished s" "olist xc @ olist rc @ (a # C) @ finished s" s ts rs fs] by auto
  from send_own [OF this b, of flags] obtain z where z: "xmit_queue a flags s = Some z" "own z (ts @ [a]) rs fs (olist xc @ olist rc @ C @ finished z)"
    "cview z = cview s" by auto
  then show ?thesis using v(1,3-5) \<open>e\<close> by (intro exI [of _ z] conjI cec_invI [of z e xs xc rst rc "ts @ [a]" rs fs]) simp_all
qed

lemma read_own:
  assumes o: "own s ts (c # rs) fs L" and en: "st_enable (cec s)" and u: "unused s a"
  shows "\<exists>y. read_take (Some a) s = Some (Some c, y) \<and> own y ts rs (fs @ [a]) (c # L) \<and> cview y = cview s \<and> finished y = finished s \<and>
    bytes y = bytes s \<and> bufs y = (bufs s)(a \<mapsto> the (alloc_cmb (Some (a + SIZEOF_CM_BUFF)) RX_BUFFER_SIZE))"
proof -
  from own_rx_pop [OF o] obtain h q where d: "rx_dequeue s = (Some c, s\<lparr>lists := h, cec := (cec s)\<lparr>rx_queue := q\<rparr>\<rparr>)"
    "own (s\<lparr>lists := h, cec := (cec s)\<lparr>rx_queue := q\<rparr>\<rparr>) ts rs fs (c # L)" by blast
  define t where "t = s\<lparr>lists := h, cec := (cec s)\<lparr>rx_queue := q\<rparr>\<rparr>"
  have hq: "cm_list q = cm_list (rx_queue (cec s))"
  proof -
    have "rx_queue (cec (snd (rx_dequeue s))) = q" by (simp add: d(1))
    then show ?thesis by (auto simp: rx_dequeue_def cmb_dequeue_def Let_def split: if_splits)
  qed
  have f: "bufs t a = None" "a \<notin> {cm_list (tx_queue (cec t)), cm_list (rx_queue (cec t)), cm_list (rx_free_queue (cec t))}"
    using u hq by (simp_all add: t_def unused_def)
  obtain w where w: "new_cmb (Some a) RX_BUFFER_SIZE t = (Some a, w)" "own w ts rs fs (a # c # L)"
    "cview w = cview t" "finished w = finished t" "bufs w = (bufs t)(a \<mapsto> the (alloc_cmb (Some (a + SIZEOF_CM_BUFF)) RX_BUFFER_SIZE))"
    using own_new [OF d(2) [folded t_def] f] by blast
  have "bytes w = bytes (snd (new_cmb (Some a) RX_BUFFER_SIZE t))" using w(1) by simp
  then have byt: "bytes w = bytes s" by (simp add: new_cmb_def alloc_cmb_def set_buf_def t_def)
  obtain h2 q2 where z: "free_queue_tail a w = w\<lparr>lists := h2, cec := (cec w)\<lparr>rx_free_queue := q2\<rparr>\<rparr>"
    "own (w\<lparr>lists := h2, cec := (cec w)\<lparr>rx_free_queue := q2\<rparr>\<rparr>) ts rs (fs @ [a]) (c # L)" using own_free_push [OF w(2)] by blast
  define y where "y = w\<lparr>lists := h2, cec := (cec w)\<lparr>rx_free_queue := q2\<rparr>\<rparr>"
  have "read_take (Some a) s = Some (Some c, y)" using en d(1) w(1) z(1) by (simp add: read_take_def t_def y_def)
  moreover have "finished y = finished s" "cview y = cview s" "bytes y = bytes s" "bufs y = (bufs s)(a \<mapsto> the (alloc_cmb (Some (a + SIZEOF_CM_BUFF)) RX_BUFFER_SIZE))"
    using w(3-5) byt by (simp_all add: y_def t_def)
  ultimately show ?thesis using z(2) unfolding y_def by blast
qed

lemma read_inv:
  assumes i: "cec_inv N C s" and u: "unused s a"
  shows "\<exists>c s'. read_take (Some a) s = Some (c, s') \<and> cec_inv N (olist c @ C) s'"
proof -
  obtain ts rs fs e xs xc rst rc where v: "cview s = (e, e, xs, xc, e, rst, rc)" "own s ts rs fs (olist xc @ olist rc @ C @ finished s)"
    "length rs + length fs + length (olist rc) = N" "xs = XMIT \<and> xc \<noteq> None \<or> xs = IDEL \<and> xc = None"
    "rst = RCV \<and> rc \<noteq> None \<or> rst = IDEL" "\<not> e \<longrightarrow> ts = [] \<and> rs = [] \<and> xc = None \<and> rc = None"
    using cec_invE [OF i] by metis
  show ?thesis
  proof (cases "e \<and> rs \<noteq> []")
    case False
    have "read_take (Some a) s = Some (None, s)"
    proof (cases e)
      case True
      then have "rx_dequeue s = (None, s)" using False v(2) own_rx_empty by auto
      then show ?thesis by (simp add: read_take_def)
    qed (use cviewD(1) [OF v(1)] in \<open>simp add: read_take_def\<close>)
    then show ?thesis using i by auto
  next
    case True
    then obtain c rs' where rs: "rs = c # rs'" by (cases rs) auto
    then have "own s ts (c # rs') fs (olist xc @ olist rc @ C @ finished s)" using v(2) by simp
    from read_own [OF this _ u] obtain y where y: "read_take (Some a) s = Some (Some c, y)"
      "own y ts rs' (fs @ [a]) (c # olist xc @ olist rc @ C @ finished s)" "cview y = cview s" "finished y = finished s"
      using True cviewD(1) [OF v(1)] by auto
    have "own y ts rs' (fs @ [a]) (olist xc @ olist rc @ (c # C) @ finished s)"
      using y(2) own_perm [of "c # olist xc @ olist rc @ C @ finished s" "olist xc @ olist rc @ (c # C) @ finished s" y ts rs' "fs @ [a]"]
      by auto
    then show ?thesis using v y True rs
      by (intro exI [of _ "Some c"] exI [of _ y] conjI cec_invI [of y e xs xc rst rc ts rs' "fs @ [a]"]) simp_all
  qed
qed

lemma sent_inv:
  assumes i: "cec_inv N C s" and a: "a \<in> set (finished s)"
  shows "\<exists>r s'. xmit_result a s = Some (r, s') \<and> cec_inv N C (s'\<lparr>finished := remove1 a (finished s)\<rparr>)"
proof -
  obtain ts rs fs e xs xc rst rc where v: "cview s = (e, e, xs, xc, e, rst, rc)" "own s ts rs fs (olist xc @ olist rc @ C @ finished s)"
    "length rs + length fs + length (olist rc) = N" "xs = XMIT \<and> xc \<noteq> None \<or> xs = IDEL \<and> xc = None"
    "rst = RCV \<and> rc \<noteq> None \<or> rst = IDEL" "\<not> e \<longrightarrow> ts = [] \<and> rs = [] \<and> xc = None \<and> rc = None"
    using cec_invE [OF i] by metis
  let ?f = "remove1 a (finished s)"
  have "own s ts rs fs (a # olist xc @ olist rc @ C @ ?f)"
    using v(2) own_perm [of "a # olist xc @ olist rc @ C @ ?f" "olist xc @ olist rc @ C @ finished s" s ts rs fs] remove1_split [OF a] by auto
  from own_kfree [OF this] have o: "own (kfree_cmb a s) ts rs fs (olist xc @ olist rc @ C @ ?f)" .
  obtain b where b: "bufs s a = Some b" using own_live [OF v(2), of a] a by auto
  let ?s = "(kfree_cmb a s)\<lparr>finished := ?f\<rparr>"
  have "cview ?s = cview s" by (simp add: cview_def kfree_cmb_def)
  then have "cec_inv N C ?s" using o v by (intro cec_invI [of ?s e xs xc rst rc ts rs fs]) simp_all
  then show ?thesis using b by (simp add: xmit_result_def)
qed

lemma callers_inv:
  assumes i: "cec_inv N C s" and a: "a \<in> set C"
  shows "cec_inv N C (set_buf a b (s\<lparr>bytes := m\<rparr>))" "cec_inv N (remove1 a C) (kfree_cmb a s)"
proof -
  obtain ts rs fs e xs xc rst rc where v: "cview s = (e, e, xs, xc, e, rst, rc)" "own s ts rs fs (olist xc @ olist rc @ C @ finished s)"
    "length rs + length fs + length (olist rc) = N" "xs = XMIT \<and> xc \<noteq> None \<or> xs = IDEL \<and> xc = None"
    "rst = RCV \<and> rc \<noteq> None \<or> rst = IDEL" "\<not> e \<longrightarrow> ts = [] \<and> rs = [] \<and> xc = None \<and> rc = None"
    using cec_invE [OF i] by metis
  let ?s = "set_buf a b (s\<lparr>bytes := m\<rparr>)"
  have "own ?s ts rs fs (olist xc @ olist rc @ C @ finished s)" by (rule own_set_other) (use v(2) a in simp_all)
  moreover have "cview ?s = cview s" by (simp add: cview_def set_buf_def)
  ultimately show "cec_inv N C ?s" using v by (intro cec_invI [of ?s e xs xc rst rc ts rs fs]) simp_all
  have "own s ts rs fs (a # olist xc @ olist rc @ remove1 a C @ finished s)"
    using v(2) own_perm [of "a # olist xc @ olist rc @ remove1 a C @ finished s" "olist xc @ olist rc @ C @ finished s" s ts rs fs] remove1_split [OF a] by auto
  from own_kfree [OF this] show "cec_inv N (remove1 a C) (kfree_cmb a s)"
    using v by (intro cec_invI [of "kfree_cmb a s" e xs xc rst rc ts rs fs]) simp_all
qed

lemma cec_step_inv:
  assumes st: "cec_step p q" and inv: "cec_inv N (snd p) (fst p)" and N: "N < 2 ^ 32"
  shows "cec_inv N (snd q) (fst q)"
  using st
proof cases
  case (hardware g s now C f)
  have "own (s\<lparr>creg := g, rx_fifo := f, ticks := now\<rparr>) ts rs fs L = own s ts rs fs L" for ts rs fs L by (rule own_same) simp_all
  then have "cec_inv N C (s\<lparr>creg := g, rx_fifo := f, ticks := now\<rparr>)"
    by (rule cec_inv_same [of N C s, rotated 2]) (use hardware inv in \<open>simp_all add: cview_def\<close>)
  then show ?thesis using hardware by simp
next
  case (isr s r s' C)
  then show ?thesis using isr_inv [of N C s] inv N by auto
next
  case (tx_work s s' C)
  have "cec_inv N C (set_xmit (\<lambda>x. x\<lparr>x_work := Not_pending\<rparr>) s)"
    by (rule cec_inv_same [of N C s]) (use inv tx_work(1) cview_pending in simp_all)
  then show ?thesis using tx_work_inv tx_work by fastforce
next
  case (rx_work s s' C)
  have "cec_inv N C (set_rcv (\<lambda>r. r\<lparr>r_work := Not_pending\<rparr>) s)"
    by (rule cec_inv_same [of N C s]) (use inv rx_work(1) cview_pending in simp_all)
  then show ?thesis using rx_work_inv N rx_work by fastforce
next
  case (enable b s r s' C)
  then show ?thesis using enable_inv [of N C s b] inv by auto
next
  case (logical_addr v s r s' C)
  then have "s' = s \<or> (\<exists>w. s' = write_reg32 MIS_CEC_CR0 w s)" by (auto simp: mars_cec_set_logical_addr_def split: if_splits)
  then show ?thesis using logical_addr inv by (auto intro: cec_inv_same)
next
  case (alloc s a n s' C)
  then show ?thesis using alloc_inv [of N C s a n] inv by auto
next
  case (fill a C s b m)
  then show ?thesis using callers_inv(1) inv by auto
next
  case (send a C s b flags s')
  have "cec_inv N (a # remove1 a C) s" using cec_inv_callers [of N C s] inv send remove1_split [of a C] by auto
  from send_inv [OF this send(4-6), of flags] show ?thesis using send by simp
next
  case (sent a s r s' C)
  then show ?thesis using sent_inv [of N C s a] inv by auto
next
  case (read s a c s' C)
  then show ?thesis using read_inv [of N C s a] inv by auto
next
  case (free a C s)
  then show ?thesis using callers_inv(2) inv by auto
qed

lemma length_olists: "length (concat (map olist xs)) \<le> length xs"
proof (induction xs)
  case (Cons x xs)
  then show ?case by (cases x) auto
qed simp

lemma cec_reach_inv: "cec_reach N p \<Longrightarrow> N \<le> 8 \<and> cec_inv N (snd p) (fst p)"
proof (induction rule: cec_reach.induct)
  case (init s addrs s')
  then show ?case using init_inv [OF fresh_idle, of s addrs s'] length_olists [of addrs] by simp
next
  case (step N p q)
  moreover from step have "N < 2 ^ 32" by simp
  ultimately show ?case using cec_step_inv by blast
qed


text \<open>A device whose three queue heads are at 1, 2 and 3, initialised with one receive buffer at 100.\<close>

definition sample_cec0 :: cec_sys where
  "sample_cec0 = \<lparr>cec = \<lparr>st_init = False, st_enable = False,
       xmit = \<lparr>x_enable = False, x_state = IDEL, x_cmb = None, x_timeout = 0, x_work = Not_pending\<rparr>,
       rcv = \<lparr>r_enable = False, r_state = IDEL, r_cmb = None, r_complete = 0, r_work = Not_pending\<rparr>,
       tx_queue = \<lparr>cm_list = 1, cm_qlen = 0\<rparr>, rx_queue = \<lparr>cm_list = 2, cm_qlen = 0\<rparr>, rx_free_queue = \<lparr>cm_list = 3, cm_qlen = 0\<rparr>\<rparr>,
     lists = \<lparr>nxt = (\<lambda>_. 0), prv = (\<lambda>_. 0)\<rparr>, bufs = (\<lambda>_. None), bytes = (\<lambda>_. 0), finished = [], creg = (\<lambda>_. 0),
     rx_fifo = [], reg_log = [], ticks = 0\<rparr>"

definition sample_addrs :: "nat option list" where
  "sample_addrs = Some 100 # replicate 7 None"

definition sample_cec :: cec_sys where
  "sample_cec = snd (mars_cec_init sample_addrs True sample_cec0)"

lemma sample_cec_reach: "cec_reach 1 (sample_cec, [])"
proof -
  have a: "concat (map olist sample_addrs) = [100]" by (simp add: sample_addrs_def)
  have "mars_cec_init sample_addrs True sample_cec0 = (0, sample_cec)"
    by (simp add: sample_cec_def mars_cec_init_def sample_cec0_def Let_def)
  then show ?thesis
    using cec_reach.init [of sample_cec0 sample_addrs sample_cec] unfolding a
    by (simp add: cec_fresh_def fresh_addrs_def sample_cec0_def sample_addrs_def)
qed


section \<open>Disabling the adapter\<close>

text \<open>
  Disabling an enabled adapter returns 0 and completes every message that is being sent or waits to be
  sent, in order: a message with a waiting sender is marked aborted and its sender woken, any other one is
  freed. All queues but the free list are then empty, and all receive buffers are on the free list.
\<close>

theorem cec_disable_completes:
  assumes "cec_reach N (s, C)" and "st_enable (cec s)"
  shows "\<exists>ts fs s'. cm_queue_ok (lists s, tx_queue (cec s)) ts \<and> mars_cec_enable False s = Some (0, s') \<and>
    finished s' = finished s @ filter (awaited s) (olist (x_cmb (xmit (cec s))) @ ts) \<and>
    (\<forall>a \<in> set (olist (x_cmb (xmit (cec s))) @ ts). bufs s' a = Option.bind (bufs s a) abort_buf) \<and>
    cm_queue_ok (lists s', tx_queue (cec s')) [] \<and> cm_queue_ok (lists s', rx_queue (cec s')) [] \<and>
    cm_queue_ok (lists s', rx_free_queue (cec s')) fs \<and> length fs = N \<and> cview s' = (False, False, IDEL, None, False, IDEL, None)"
proof -
  have i: "cec_inv N C s" using cec_reach_inv [OF assms(1)] by simp
  obtain ts rs fs e xs xc rst rc where v: "cview s = (e, e, xs, xc, e, rst, rc)" "own s ts rs fs (olist xc @ olist rc @ C @ finished s)"
    "length rs + length fs + length (olist rc) = N" using cec_invE [OF i] by metis
  have c: "x_cmb (xmit (cec s)) = xc" "cview s = (True, True, xs, xc, True, rst, rc)" using cviewD [OF v(1)] v(1) assms(2) by auto
  obtain s' where s': "mars_cec_enable False s = Some (0, s')" "own s' [] [] (fs @ olist rc @ rs) (C @ finished s')"
    "cview s' = (False, False, IDEL, None, False, IDEL, None)" "finished s' = finished s @ filter (awaited s) (olist xc @ ts)"
    "\<forall>a \<in> set (olist xc @ ts). bufs s' a = Option.bind (bufs s a) abort_buf"
    using disable_own [OF v(2) c(2)] by blast
  moreover have "cm_queue_ok (lists s, tx_queue (cec s)) ts" using v(2) by (simp add: own_def cec_qs_def)
  moreover have "cm_queue_ok (lists s', tx_queue (cec s')) []" "cm_queue_ok (lists s', rx_queue (cec s')) []"
    "cm_queue_ok (lists s', rx_free_queue (cec s')) (fs @ olist rc @ rs)" using s'(2) by (simp_all add: own_def cec_qs_def)
  moreover have "length (fs @ olist rc @ rs) = N" using v(3) by simp
  ultimately show ?thesis unfolding c(1) by blast
qed

text \<open>A message at 200 for the device 5, sent by a caller that waits.\<close>

definition sample_on :: cec_sys where
  "sample_on = snd (the (mars_cec_enable True sample_cec))"

definition sample_msg :: cm_buff where
  "sample_msg = \<lparr>cm_status = 0, cm_flags = 0, cm_head = 244, cm_data = 244, cm_tail = 246, cm_end = 308, cm_len = 2\<rparr>"

definition sample_filled :: cec_sys where
  "sample_filled = (let s = snd (new_cmb (Some 200) 64 sample_on) in set_buf 200 sample_msg (s\<lparr>bytes := store 244 [0x45, 0x04] (bytes s)\<rparr>))"

definition sample_sent :: cec_sys where
  "sample_sent = the (xmit_queue 200 0 sample_filled)"

lemma sample_on_reach: "cec_reach 1 (sample_on, [])" "mars_cec_enable True sample_cec = Some (0, sample_on)"
proof -
  show m: "mars_cec_enable True sample_cec = Some (0, sample_on)" by (simp add: sample_on_def mars_cec_enable_def)
  show "cec_reach 1 (sample_on, [])" by (rule cec_reach.step [OF sample_cec_reach cec_step.enable [OF m]])
qed

lemma sample_sent_reach: "cec_reach 1 (sample_sent, [])"
proof -
  have u: "unused sample_on 200" "x_enable (xmit (cec sample_filled))" unfolding unused_def by code_simp+
  have n: "new_cmb (Some 200) 64 sample_on = (Some 200, snd (new_cmb (Some 200) 64 sample_on))" by (simp add: new_cmb_def alloc_cmb_def)
  have r1: "cec_reach 1 (snd (new_cmb (Some 200) 64 sample_on), [200])"
    using cec_reach.step [OF sample_on_reach(1) cec_step.alloc [OF u(1) n]] by simp
  have r2: "cec_reach 1 (sample_filled, [200])" unfolding sample_filled_def Let_def
    by (rule cec_reach.step [OF r1 cec_step.fill]) simp
  have b: "bufs sample_filled 200 = Some sample_msg" by (simp add: sample_filled_def Let_def)
  have h: "has_header sample_msg" by (simp add: has_header_def sample_msg_def)
  have x: "xmit_queue 200 0 sample_filled = Some sample_sent" using b by (simp add: sample_sent_def xmit_queue_def)
  show ?thesis using cec_reach.step [OF r2 cec_step.send [OF _ u(2) b h x]] by simp
qed

theorem cec_disable_completes_witness:
  "\<exists>s'. mars_cec_enable False sample_sent = Some (0, s') \<and> cview s' = (False, False, IDEL, None, False, IDEL, None)"
proof -
  have "st_enable (cec sample_sent)" by code_simp
  then show ?thesis using cec_disable_completes [OF sample_sent_reach] by blast
qed

text \<open>What stopping writes: the receive control register only.\<close>

lemma creg_simps [simp]:
  "creg (set_buf a b s) = creg s" "creg (kfree_cmb a s) = creg s" "creg (set_xmit f s) = creg s" "creg (set_rcv g s) = creg s"
  "r \<noteq> r' \<Longrightarrow> creg (write_reg32 r' v s) r = creg s r"
  by (simp_all add: set_buf_def kfree_cmb_def set_xmit_def set_rcv_def write_reg32_def)

lemma queue_creg [simp]: "creg (snd (tx_dequeue s)) = creg s" "creg (snd (rx_dequeue s)) = creg s" "creg (free_queue_tail a s) = creg s"
  by (simp_all add: tx_dequeue_def rx_dequeue_def free_queue_tail_def split_beta)

lemma cmb_tx_complete_creg: "cmb_tx_complete a s = Some s' \<Longrightarrow> creg s' = creg s"
  by (auto simp: cmb_tx_complete_def Let_def split: Option.bind_splits if_splits)

lemma tx_abort_all_creg: "tx_abort_all s = Some s' \<Longrightarrow> creg s' = creg s"
proof (erule tx_abort_all.raw_induct [where P = "\<lambda>s s'. creg s' = creg s", rotated])
  fix rec s s'
  assume ih: "\<And>t t'. rec t = Some t' \<Longrightarrow> creg t' = creg t"
    and body: "(case tx_dequeue s of (None, s) \<Rightarrow> Some s | (Some a, s) \<Rightarrow> Option.bind (cmb_tx_complete a s) rec) = Some s'"
  obtain c t where d: "tx_dequeue s = (c, t)" by force
  have t: "creg t = creg s" using queue_creg(1) [of s] d by simp
  show "creg s' = creg s"
  proof (cases c)
    case (Some a)
    then obtain u where u: "cmb_tx_complete a t = Some u" "rec u = Some s'" using body d by (auto split: Option.bind_splits)
    show ?thesis using ih [OF u(2)] cmb_tx_complete_creg [OF u(1)] t by simp
  qed (use body d t in simp)
qed

lemma rx_recycle_all_creg: "rx_recycle_all s = Some s' \<Longrightarrow> creg s' = creg s"
proof (erule rx_recycle_all.raw_induct [where P = "\<lambda>s s'. creg s' = creg s", rotated])
  fix rec s s'
  assume ih: "\<And>t t'. rec t = Some t' \<Longrightarrow> creg t' = creg t"
    and body: "(case rx_dequeue s of (None, s) \<Rightarrow> Some s | (Some a, s) \<Rightarrow> Option.bind (rx_recycle a s) rec) = Some s'"
  obtain c t where d: "rx_dequeue s = (c, t)" by force
  have t: "creg t = creg s" using queue_creg(2) [of s] d by simp
  show "creg s' = creg s"
  proof (cases c)
    case (Some a)
    then obtain u where u: "rx_recycle a t = Some u" "rec u = Some s'" using body d by (auto split: Option.bind_splits)
    have "creg u = creg t" using u(1) by (auto simp: rx_recycle_def split: Option.bind_splits)
    then show ?thesis using ih [OF u(2)] t by simp
  qed (use body d t in simp)
qed

lemma disable_creg:
  assumes "mars_cec_enable False s = Some (0, s')" "r \<notin> {MIS_CEC_RX0, MIS_CEC_CR0}"
  shows "creg s' r = creg s r"
proof -
  have cyc: "creg v = creg u" if "rx_recycle a u = Some v" for a u v
    using that by (auto simp: rx_recycle_def split: Option.bind_splits)
  have rx: "creg v r = creg u r" if st: "mars_cec_rx_stop u = Some v" for u v
  proof (cases "r_enable (rcv (cec u))")
    case True
    let ?u = "write_reg32 MIS_CEC_RX0 0 (write_reg32 MIS_CEC_RX0 RX_RST u)"
    obtain x y where x: "(case r_cmb (rcv (cec ?u)) of Some a \<Rightarrow> rx_recycle a ?u | None \<Rightarrow> Some ?u) = Some x" "rx_recycle_all x = Some y" "creg v = creg y"
      using st True by (auto simp: mars_cec_rx_stop_def Let_def split: Option.bind_splits)
    have "creg x = creg ?u" using x(1) cyc by (cases "r_cmb (rcv (cec ?u))") auto
    then show ?thesis using rx_recycle_all_creg [OF x(2)] x(3) assms(2) by simp
  qed (use st in \<open>simp add: mars_cec_rx_stop_def\<close>)
  have tx: "creg v r = creg u r" if st: "mars_cec_tx_stop u = Some v" for u v
  proof (cases "x_enable (xmit (cec u))")
    case True
    let ?u = "mars_cec_rx_reset u"
    obtain x y where x: "(case x_cmb (xmit (cec ?u)) of Some a \<Rightarrow> cmb_tx_complete a ?u | None \<Rightarrow> Some ?u) = Some x" "tx_abort_all x = Some y" "creg v = creg y"
      using st True by (auto simp: mars_cec_tx_stop_def Let_def split: Option.bind_splits)
    have "creg x = creg ?u" using x(1) cmb_tx_complete_creg by (cases "x_cmb (xmit (cec ?u))") auto
    then show ?thesis using tx_abort_all_creg [OF x(2)] x(3) assms(2) by (simp add: mars_cec_rx_reset_def)
  qed (use st in \<open>simp add: mars_cec_tx_stop_def\<close>)
  show ?thesis
  proof (cases "st_enable (cec s)")
    case False
    then show ?thesis using assms(1) by (simp add: mars_cec_enable_def)
  next
    case True
    let ?w = "write_reg32 MIS_CEC_CR0 (creg s MIS_CEC_CR0 AND 0x3F) s"
    obtain t where t: "mars_cec_rx_stop (?w\<lparr>cec := (cec ?w)\<lparr>st_enable := False\<rparr>\<rparr>) = Some t" "mars_cec_tx_stop t = Some s'"
      using assms(1) True by (auto simp: mars_cec_enable_def Let_def split: Option.bind_splits)
    then show ?thesis using rx [OF t(1)] tx [OF t(2)] assms(2) by simp
  qed
qed

text \<open>
  While a message is transmitted the line driver is set for sending. Disabling the adapter then does not
  set it back: when the adapter is enabled again, the work item that starts reception finds the driver
  still set for sending and does nothing, so no message is received until one has been sent.
\<close>

theorem cec_deaf_after_disable:
  assumes "cec_reach N (s, C)" "st_enable (cec s)" "creg s MIS_CEC_TX_DATA2 \<noteq> 1"
  shows "\<exists>s1 s2. mars_cec_enable False s = Some (0, s1) \<and> mars_cec_enable True s1 = Some (0, s2) \<and>
    st_enable (cec s2) \<and> r_enable (rcv (cec s2)) \<and> mars_cec_rx_work s2 = Some s2 \<and> r_state (rcv (cec s2)) = IDEL"
proof -
  have i: "cec_inv N C s" using cec_reach_inv [OF assms(1)] by simp
  obtain ts rs fs e xs xc rst rc where v: "cview s = (e, e, xs, xc, e, rst, rc)" "own s ts rs fs (olist xc @ olist rc @ C @ finished s)"
    using cec_invE [OF i] by metis
  have c: "cview s = (True, True, xs, xc, True, rst, rc)" using cviewD [OF v(1)] v(1) assms(2) by auto
  obtain s1 where s1: "mars_cec_enable False s = Some (0, s1)" "cview s1 = (False, False, IDEL, None, False, IDEL, None)"
    using disable_own [OF v(2) c] by blast
  have d2: "creg s1 MIS_CEC_TX_DATA2 \<noteq> 1" using disable_creg [OF s1(1)] assms(3) by simp
  let ?t = "mars_cec_tx_start (mars_cec_rx_start (write_reg32 MIS_CEC_CR0 (creg s1 MIS_CEC_CR0 AND 0x3F OR CEC_MODE_NORMAL) s1))"
  define s2 where "s2 = ?t\<lparr>cec := (cec ?t)\<lparr>st_enable := True\<rparr>\<rparr>"
  have e: "mars_cec_enable True s1 = Some (0, s2)" using cviewD(1) [OF s1(2)] by (simp add: mars_cec_enable_def s2_def Let_def)
  have "cview s2 = (True, True, IDEL, None, True, IDEL, None)"
    using s1(2) by (simp add: s2_def mars_cec_tx_start_def mars_cec_rx_start_def set_xmit_def set_rcv_def write_reg32_def cview_def)
  note v2 = cviewD [OF this]
  have "creg s2 MIS_CEC_TX_DATA2 \<noteq> 1" using d2 by (simp add: s2_def mars_cec_tx_start_def mars_cec_rx_start_def)
  then have "mars_cec_rx_work s2 = Some s2" using v2 by (simp add: mars_cec_rx_work_def rx_restart_def)
  then show ?thesis using s1(1) e v2 by blast
qed

definition sample_sending :: cec_sys where
  "sample_sending = the (mars_cec_tx_work (set_xmit (\<lambda>x. x\<lparr>x_work := Not_pending\<rparr>) sample_sent))"

theorem cec_deaf_after_disable_witness:
  "\<exists>s1 s2. mars_cec_enable False sample_sending = Some (0, s1) \<and> mars_cec_enable True s1 = Some (0, s2) \<and> mars_cec_rx_work s2 = Some s2"
proof -
  have q: "x_work (xmit (cec sample_sent)) = Queued" by code_simp
  have "cec_inv 1 [] sample_sent" using cec_reach_inv [OF sample_sent_reach] by simp
  then have "cec_inv 1 [] (set_xmit (\<lambda>x. x\<lparr>x_work := Not_pending\<rparr>) sample_sent)" by (rule cec_inv_same) (simp_all add: cview_pending)
  then have m: "mars_cec_tx_work (set_xmit (\<lambda>x. x\<lparr>x_work := Not_pending\<rparr>) sample_sent) = Some sample_sending"
    using tx_work_inv unfolding sample_sending_def by fastforce
  have "cec_reach 1 (sample_sending, [])" using cec_reach.step [OF sample_sent_reach cec_step.tx_work [OF _ m]] q by blast
  moreover have "st_enable (cec sample_sending)" "creg sample_sending MIS_CEC_TX_DATA2 \<noteq> 1" by code_simp+
  ultimately show ?thesis using cec_deaf_after_disable by blast
qed

section \<open>Receiving and sending\<close>

lemma read_then_push:
  assumes b: "bufs s a = Some b" "0 \<le> cm_head b" "cm_data b = cm_head b + 1" "cm_tail b = cm_data b" "cm_len b = 0" "cm_head b + 64 \<le> cm_end b"
    and bs: "unat (creg s MIS_CEC_RX1 AND 0xF) = length bs" "take (length bs) (rx_fifo s) = bs" "length bs \<le> 15"
  obtains t c where "read_rx_fifo a s = Some (int (length bs), t)" "bufs t a = Some c" "creg t = creg s" "cec t = cec s" "lists t = lists s"
    "cm_len (snd (cmb_push 1 c)) = of_nat (Suc (length bs))" "cm_data (snd (cmb_push 1 c)) = cm_head b" "fst (cmb_push 1 c) = cm_head b"
    "load (store (nat (cm_head b)) [h] (bytes t)) (nat (cm_head b)) (Suc (length bs)) = h # bs"
proof -
  let ?n = "length bs"
  have l: "length (rx_fifo s) \<ge> ?n" using bs(2) by (metis length_take min.absorb_iff2 min.commute)
  let ?c = "snd (cmb_put ?n b)"
  let ?t = "(set_buf a ?c s)\<lparr>bytes := store (nat (cm_tail b)) bs (bytes s), rx_fifo := drop ?n (rx_fifo s)\<rparr>"
  have room: "cmb_tailroom b \<ge> int ?n" using b bs(3) by (simp add: cmb_tailroom_def)
  have r: "read_rx_fifo a s = Some (int ?n, ?t)"
    using b(1) bs l room by (simp add: read_rx_fifo_def cmb_put_def set_buf_def Let_def)
  have nat: "nat (cm_tail b) = Suc (nat (cm_head b))" using b(2-4) by simp
  have "load (store (nat (cm_head b)) [h] (store (nat (cm_tail b)) bs (bytes s))) (nat (cm_head b)) (Suc ?n) = h # bs"
    by (rule nth_equalityI) (auto simp: store_def nat nth_Cons' )
  then show ?thesis using that [OF r, of ?c] b by (simp add: set_buf_def cmb_put_def cmb_push_def Let_def)
qed

text \<open>Restarting reception with a free buffer leaves the received messages alone.\<close>

lemma rx_restart_keeps:
  assumes o: "own s ts rs (f # fs) (R @ finished s)" and v: "cview s = (e, xe, xs, xc, re, IDEL, None)" and n: "length (f # fs) < 2 ^ 32"
    and r: "rx_restart s = Some s'"
  shows "cm_queue_ok (lists s', rx_queue (cec s')) rs \<and> (\<forall>a \<in> set rs. bufs s' a = bufs s a) \<and> bytes s' = bytes s \<and>
    r_complete (rcv (cec s')) = r_complete (rcv (cec s))"
proof (cases "creg s MIS_CEC_TX_DATA2 \<noteq> 1")
  case True
  then show ?thesis using r o by (simp add: rx_restart_def own_def cec_qs_def)
next
  case False
  have len: "cmb_queue_len (rx_free_queue (cec s)) = of_nat (length (f # fs))" using qs_len [OF own_qs(3) [OF o]] .
  have "unat (of_nat (length (f # fs)) :: u32) = length (f # fs)" using n by (simp add: unat_of_nat take_bit_nat_eq_self del: of_nat_Suc)
  then have ne: "cmb_queue_len (rx_free_queue (cec s)) \<noteq> 0" unfolding len by (metis list.size(4) nat.distinct(1) add_Suc_right unat_0)
  obtain h q where d: "free_dequeue s = (Some f, s\<lparr>lists := h, cec := (cec s)\<lparr>rx_free_queue := q\<rparr>\<rparr>)"
    "own (s\<lparr>lists := h, cec := (cec s)\<lparr>rx_free_queue := q\<rparr>\<rparr>) ts rs fs (f # R @ finished s)" using own_free_pop [OF o] by blast
  define g where "g = set_rcv (\<lambda>r. r\<lparr>r_cmb := Some f\<rparr>) (s\<lparr>lists := h, cec := (cec s)\<lparr>rx_free_queue := q\<rparr>\<rparr>)"
  have g: "rx_get_buffer s = g" using cviewD(7) [OF v] ne d(1) by (simp add: rx_get_buffer_def g_def)
  have gb: "bufs g = bufs s" "r_cmb (rcv (cec g)) = Some f" by (simp_all add: g_def) (simp add: set_rcv_def)
  obtain b where b: "bufs s f = Some b" using own_live [OF o, of f] by auto
  have fr: "f \<notin> set rs" using o by (auto simp: own_def cec_qs_def)
  have "s' = set_rcv (\<lambda>r. r\<lparr>r_state := RCV\<rparr>) (write_reg32 MIS_CEC_RX0 (RX_EN OR RX_INT_EN) (write_reg32 MIS_CEC_RX0 0
      (write_reg32 MIS_CEC_RX0 RX_RST (set_buf f (cmb_reserve 1 (cmb_purge b)) g))))"
    using r False b gb by (simp add: rx_restart_def g)
  then have s': "lists s' = h" "rx_queue (cec s') = rx_queue (cec s)" "bufs s' = (bufs s)(f \<mapsto> cmb_reserve 1 (cmb_purge b))" "bytes s' = bytes s"
    "r_complete (rcv (cec s')) = r_complete (rcv (cec s))"
    using gb by (simp_all add: g_def set_rcv_def write_reg32_def set_buf_def)
  have "cm_queue_ok (h, rx_queue (cec s)) rs" using d(2) by (simp add: own_def cec_qs_def)
  then show ?thesis using s' fr by auto
qed

lemma cm_queue_unique:
  assumes "cm_queue_ok s xs" "cm_queue_ok s ys"
  shows "xs = ys"
proof -
  have "xs = ys" if "linked h (a # xs @ [e])" "linked h (a # ys @ [e])" "e \<notin> set xs" "e \<notin> set ys" for h a e and xs ys :: "nat list"
    using that
  proof (induction xs arbitrary: a ys)
    case Nil
    then show ?case by (cases ys) auto
  next
    case (Cons x xs)
    then show ?case by (cases ys) auto
  qed
  then show ?thesis using assms by (auto simp: cm_queue_ok_def dlist_def)
qed

text \<open>
  C10: When a message of up to 15 bytes has arrived completely and a free buffer is left, the receive handler
  queues it behind the messages received before, as a byte with initiator and own address followed by the
  bytes of the receive queue in order, and wakes one reader.
\<close>

theorem cec_message_received:
  assumes reach: "cec_reach N (s, C)" and st: "r_enable (rcv (cec s))" "r_state (rcv (cec s)) = RCV" "r_cmb (rcv (cec s)) = Some a"
    and b: "bufs s a = Some b" "0 \<le> cm_head b" "cm_data b = cm_head b + 1" "cm_tail b = cm_data b" "cm_len b = 0" "cm_head b + 64 \<le> cm_end b"
    and hwr: "creg s MIS_CEC_RX0 AND RX_EN = 0" "creg s MIS_CEC_RX1 AND RX_EOM \<noteq> 0" "unat (creg s MIS_CEC_RX1 AND 0xF) = length bs"
      "take (length bs) (rx_fifo s) = bs" "bs \<noteq> []" "length bs \<le> 15"
    and rs: "cm_queue_ok (lists s, rx_queue (cec s)) rs" and free: "cmb_queue_len (rx_free_queue (cec s)) \<noteq> 0"
  shows "\<exists>s' b'. mars_cec_rx_work s = Some s' \<and> cm_queue_ok (lists s', rx_queue (cec s')) (rs @ [a]) \<and> bufs s' a = Some b' \<and>
    load (bytes s') (nat (cm_data b')) (unat (cm_len b')) = rx_header s # bs \<and> r_complete (rcv (cec s')) = r_complete (rcv (cec s)) + 1"
proof -
  have N: "N \<le> 8" and i: "cec_inv N C s" using cec_reach_inv [OF reach] by simp_all
  obtain ts rs0 fs e xs xc rst rc where v: "cview s = (e, e, xs, xc, e, rst, rc)" "own s ts rs0 fs (olist xc @ olist rc @ C @ finished s)"
    "length rs0 + length fs + length (olist rc) = N" using cec_invE [OF i] by metis
  have c: "cview s = (True, True, xs, xc, True, RCV, Some a)" "rc = Some a" using cviewD [OF v(1)] v(1) st by auto
  have "rs0 = rs" using cm_queue_unique [OF _ rs] v(2) by (simp add: own_def cec_qs_def)
  then have o: "own s ts rs fs (a # (olist xc @ C) @ finished s)" using v(2) own_swap [of s ts rs fs "olist xc" "[a]"] c(2) by simp
  obtain f fs' where fs: "fs = f # fs'" using free qs_len [OF own_qs(3) [OF o]] by (cases fs) auto
  have len: "length (f # fs') < 2 ^ 32" using v(3) N fs by simp
  obtain t d where t: "read_rx_fifo a s = Some (int (length bs), t)" "bufs t a = Some d" "creg t = creg s" "cec t = cec s"
    "cm_len (snd (cmb_push 1 d)) = of_nat (Suc (length bs))" "cm_data (snd (cmb_push 1 d)) = cm_head b" "fst (cmb_push 1 d) = cm_head b"
    "load (store (nat (cm_head b)) [rx_header s] (bytes t)) (nat (cm_head b)) (Suc (length bs)) = rx_header s # bs"
    using read_then_push [OF b hwr(3,4,6), where h = "rx_header s"] by metis
  have ot: "own t ts rs fs (a # (olist xc @ C) @ finished t)" "cview t = (True, True, xs, xc, True, RCV, Some a)"
    using read_rx_fifo_own [OF o, of a] t(1) c(1) by auto
  have h: "rx_header t = rx_header s" using t(3) by (simp add: rx_header_def)
  have p: "(if creg s MIS_CEC_RX1 AND RX_EOM \<noteq> 0 then read_rx_fifo a s else Some (0, s)) = Some (int (length bs), t)" "int (length bs) \<noteq> 0"
    using hwr(2,5) t(1) by simp_all
  obtain z where z: "rx_running s = Some z" "own z ts (rs @ [a]) fs ((olist xc @ C) @ finished z)" "cview z = (True, True, xs, xc, True, IDEL, None)"
    "bufs z = (bufs t)(a \<mapsto> snd (cmb_push 1 d))" "bytes z = store (nat (cm_head b)) [rx_header s] (bytes t)"
    "r_complete (rcv (cec z)) = r_complete (rcv (cec s)) + 1"
    using rx_deliver [OF st(3) hwr(1) p ot t(2)] unfolding h t(4,7) by metis
  obtain s' where s': "rx_restart z = Some s'" using rx_restart_own [of z ts "rs @ [a]" fs None "olist xc @ C"] z(2,3) len fs by fastforce
  have k: "cm_queue_ok (lists s', rx_queue (cec s')) (rs @ [a])" "bufs s' a = bufs z a" "bytes s' = bytes z" "r_complete (rcv (cec s')) = r_complete (rcv (cec z))"
    using rx_restart_keeps [OF z(2) [unfolded fs] z(3) len s'] by simp_all
  have w: "mars_cec_rx_work s = Some s'" using st z(1) s' cviewD(6) [OF z(3)] by (simp add: mars_cec_rx_work_def)
  have n: "unat (cm_len (snd (cmb_push 1 d))) = Suc (length bs)" unfolding t(5) using hwr(6) by (simp add: unat_of_nat take_bit_nat_eq_self del: of_nat_Suc)
  have "load (bytes s') (nat (cm_data (snd (cmb_push 1 d)))) (unat (cm_len (snd (cmb_push 1 d)))) = rx_header s # bs"
    unfolding n t(6) k(3) z(5) by (rule t(8))
  then show ?thesis using w k z(4,6) by (intro exI [of _ s'] exI [of _ "snd (cmb_push 1 d)"] conjI) simp_all
qed


text \<open>A device with receive buffers at 100 and 400, on which the three bytes of a message arrive.\<close>

lemmas run_simps = Let_def init_queues_def cmb_queue_head_init_def new_cmb_def alloc_cmb_def free_queue_tail_def cmb_queue_tail_def
  write_reg32_def set_xmit_def set_rcv_def set_buf_def list_op_defs list_add_tail_def

definition sample_two :: cec_sys where
  "sample_two = snd (mars_cec_init [Some 100, Some 400, None, None, None, None, None, None] True sample_cec0)"

definition sample_listen :: cec_sys where
  "sample_listen = the (mars_cec_rx_work (set_rcv (\<lambda>r. r\<lparr>r_work := Not_pending\<rparr>) (snd (the (mars_cec_enable True sample_two)))))"

definition sample_arrived :: cec_sys where
  "sample_arrived = sample_listen\<lparr>creg := (creg sample_listen)(MIS_CEC_RX0 := 0, MIS_CEC_RX1 := 0x82), rx_fifo := [0x36, 0x07], ticks := 1\<rparr>"

lemmas listen_simps = sample_listen_def sample_two_def mars_cec_init_def sample_cec0_def run_simps mars_cec_enable_def mars_cec_rx_work_def
  mars_cec_rx_start_def mars_cec_tx_start_def rx_restart_def rx_get_buffer_def free_dequeue_def cmb_dequeue_def cmb_queue_len_def
  list_empty_def list_del_init_def cmb_purge_def cmb_reserve_def

lemma sample_two_reach: "cec_reach 2 (sample_two, [])"
proof -
  let ?addrs = "[Some 100, Some 400, None, None, None, None, None, None]"
  have "concat (map olist ?addrs) = [100, 400]" by simp
  moreover have "mars_cec_init ?addrs True sample_cec0 = (0, sample_two)"
    by (simp add: sample_two_def mars_cec_init_def sample_cec0_def Let_def)
  moreover have "cec_fresh sample_cec0" "fresh_addrs sample_cec0 [100, 400]"
    by (simp_all add: cec_fresh_def fresh_addrs_def sample_cec0_def)
  ultimately show ?thesis using cec_reach.init [of sample_cec0 ?addrs sample_two] by (simp add: numeral_2_eq_2)
qed

lemma sample_arrived_reach: "cec_reach 2 (sample_arrived, [])"
proof -
  obtain s where s: "mars_cec_enable True sample_two = Some (0, s)" by (simp add: mars_cec_enable_def)
  have r: "cec_reach 2 (s, [])" by (rule cec_reach.step [OF sample_two_reach cec_step.enable [OF s]])
  have "r_work (rcv (cec s)) = Queued" using s by (simp add: listen_simps cong: if_cong) auto
  moreover have "mars_cec_rx_work (set_rcv (\<lambda>r. r\<lparr>r_work := Not_pending\<rparr>) s) = Some sample_listen"
  proof -
    have "cec_inv 2 [] s" using cec_reach_inv [OF r] by simp
    then have "cec_inv 2 [] (set_rcv (\<lambda>r. r\<lparr>r_work := Not_pending\<rparr>) s)" by (rule cec_inv_same) (simp_all add: cview_pending)
    then show ?thesis using rx_work_inv s unfolding sample_listen_def by fastforce
  qed
  ultimately have "cec_reach 2 (sample_listen, [])" using cec_reach.step [OF r cec_step.rx_work] by blast
  then show ?thesis unfolding sample_arrived_def by (rule cec_reach.step [OF _ cec_step.hardware]) (simp_all add: listen_simps cong: if_cong)
qed

theorem cec_message_received_witness:
  "\<exists>s' b'. mars_cec_rx_work sample_arrived = Some s' \<and> cm_queue_ok (lists s', rx_queue (cec s')) [100] \<and> bufs s' 100 = Some b' \<and>
    load (bytes s') (nat (cm_data b')) (unat (cm_len b')) = [0x0F, 0x36, 0x07]"
proof -
  have rcv: "r_enable (rcv (cec sample_arrived))" "r_state (rcv (cec sample_arrived)) = RCV" "r_cmb (rcv (cec sample_arrived)) = Some 100"
    by (simp_all add: sample_arrived_def listen_simps cong: if_cong)
  have buf: "bufs sample_arrived 100 = Some \<lparr>cm_status = 0, cm_flags = 0, cm_head = 144, cm_data = 145, cm_tail = 145, cm_end = 208, cm_len = 0\<rparr>"
    by (simp add: sample_arrived_def listen_simps cong: if_cong)
  have reg: "creg sample_arrived MIS_CEC_RX0 = 0" "creg sample_arrived MIS_CEC_RX1 = 0x82" "rx_fifo sample_arrived = [0x36, 0x07]"
    by (simp_all add: sample_arrived_def)
  have cr: "creg sample_arrived MIS_CEC_CR0 = 0x4F" by (simp add: sample_arrived_def listen_simps cong: if_cong)
  have q: "cm_queue_ok (lists sample_arrived, rx_queue (cec sample_arrived)) []" "cmb_queue_len (rx_free_queue (cec sample_arrived)) \<noteq> 0"
    by (simp_all add: cm_queue_ok_def dlist_def sample_arrived_def listen_simps cong: if_cong)
  have "rx_header sample_arrived = 0x0F" by (simp add: rx_header_def reg(1) cr)
  then show ?thesis using cec_message_received [OF sample_arrived_reach rcv buf, where bs = "[0x36, 0x07]"] reg q by fastforce
qed

section \<open>Sending\<close>

lemma write_fifo_log [simp]: "reg_log (write_fifo_bytes cs s) = reg_log s @ map (\<lambda>c. (MIS_CEC_TX_FIFO, ucast c)) cs"
  "ticks (write_fifo_bytes cs s) = ticks s" "creg (write_fifo_bytes cs s) = creg s" "bytes (write_fifo_bytes cs s) = bytes s"
  "cec (write_fifo_bytes cs s) = cec s" "lists (write_fifo_bytes cs s) = lists s"
  by (induction cs arbitrary: s) (simp_all add: write_reg32_def)

text \<open>What is written to the transmit queue, and what of the message is left.\<close>

lemma write_tx_fifo_load:
  assumes b: "bufs s a = Some b" "0 \<le> cm_data b" and bs: "load (bytes s) (nat (cm_data b)) (unat (cm_len b)) = bs"
    and n: "n = min (length bs) (15 - unat (creg s MIS_CEC_TX1 AND 0xF))"
  obtains c where "write_tx_fifo a s = Some (set_buf a c (write_fifo_bytes (take n bs) s))" "0 \<le> cm_data c" "unat (cm_len c) = length bs - n"
    "load (bytes s) (nat (cm_data c)) (unat (cm_len c)) = drop n bs"
proof -
  let ?c = "snd (cmb_pull n b)"
  have len: "unat (cm_len b) = length bs" using arg_cong [OF bs, of length] by simp
  have le: "n \<le> length bs" using n by simp
  have "bs = load (bytes s) (nat (cm_data b)) n @ load (bytes s) (nat (cm_data b) + n) (length bs - n)"
    using bs len le load_append [of "bytes s" "nat (cm_data b)" n "length bs - n"] by simp
  then have td: "load (bytes s) (nat (cm_data b)) n = take n bs" "load (bytes s) (nat (cm_data b) + n) (length bs - n) = drop n bs"
    by (metis append_eq_conv_conj length_load)+
  have u: "unat (cm_len b - of_nat n) = length bs - n"
  proof -
    have n: "unat (of_nat n :: u8) = n" using le len unat_u8_lt [of "cm_len b"] by (simp add: unat_of_nat take_bit_nat_eq_self)
    then show ?thesis using unat_sub [of "of_nat n" "cm_len b"] le len by (simp add: word_le_nat_alt)
  qed
  have c: "cm_data ?c = cm_data b + int n" "cm_len ?c = cm_len b - of_nat n" using le len by (simp_all add: cmb_pull_def Let_def)
  have nt: "nat (cm_data b + int n) = nat (cm_data b) + n" using b(2) by simp
  have "write_tx_fifo a s = Some (set_buf a ?c (write_fifo_bytes (take n bs) s))"
    using b(1) td(1) n len by (simp add: write_tx_fifo_def Let_def)
  then show ?thesis using that [of ?c] b(2) c u td(2) nt by simp
qed

text \<open>
  C9: An idle transmitter takes the oldest message waiting to be sent: it resets the receiver, turns the line
  driver round, writes the bytes behind the header in order to the transmit queue, up to its 15
  bytes, and starts the transmission to the address of the header, in continuous mode when bytes are left;
  these stay in the buffer. The first byte, the header, is not written to the queue.
\<close>

theorem cec_message_sent:
  assumes reach: "cec_reach N (s, C)" and st: "x_enable (xmit (cec s))" "x_state (xmit (cec s)) = IDEL"
    and q: "cm_queue_ok (lists s, tx_queue (cec s)) (a # ts)" and b: "bufs s a = Some b" "0 \<le> cm_data b"
    and m: "load (bytes s) (nat (cm_data b)) (unat (cm_len b)) = h # bs"
    and n: "n = min (length bs) (15 - unat (creg s MIS_CEC_TX1 AND 0xF))"
  shows "\<exists>s' b'. mars_cec_tx_work s = Some s' \<and> cm_queue_ok (lists s', tx_queue (cec s')) ts \<and>
    x_cmb (xmit (cec s')) = Some a \<and> x_state (xmit (cec s')) = XMIT \<and> x_timeout (xmit (cec s')) = ticks s + 400 \<and>
    reg_log s' = reg_log s @ [(MIS_CEC_RX0, 0x40), (MIS_CEC_RX0, 0), (MIS_CEC_TX_DATA2, 0x26), (MIS_CEC_TX0, 0x40), (MIS_CEC_TX0, 0)] @
      map (\<lambda>c. (MIS_CEC_TX_FIFO, ucast c)) (take n bs) @
      [(MIS_CEC_TX0, ucast (h AND 0xF) OR (if n < length bs then 0xB0 else 0x90))] \<and>
    bufs s' a = Some b' \<and> load (bytes s') (nat (cm_data b')) (unat (cm_len b')) = drop n bs"
proof -
  have i: "cec_inv N C s" using cec_reach_inv [OF reach] by simp
  obtain ts0 rs fs e xs xc rst rc where v: "cview s = (e, e, xs, xc, e, rst, rc)" "own s ts0 rs fs (olist xc @ olist rc @ C @ finished s)"
    using cec_invE [OF i] by metis
  have "ts0 = a # ts" using cm_queue_unique [OF _ q] v(2) by (simp add: own_def cec_qs_def)
  then have o: "own s (a # ts) rs fs (olist xc @ olist rc @ C @ finished s)" using v(2) by simp
  obtain g k where d: "tx_dequeue s = (Some a, s\<lparr>lists := g, cec := (cec s)\<lparr>tx_queue := k\<rparr>\<rparr>)"
    "own (s\<lparr>lists := g, cec := (cec s)\<lparr>tx_queue := k\<rparr>\<rparr>) ts rs fs (a # olist xc @ olist rc @ C @ finished s)" using own_tx_pop [OF o] by blast
  have hd: "cm_data b < cm_end b" using o b(1) by (simp add: own_def has_header_def)
  have len: "unat (cm_len b) = Suc (length bs)" using arg_cong [OF m, of length] by simp
  have l: "unat (cm_len b - 1) = length bs" using len by (metis Suc_neq_Zero diff_Suc_1 unat_0 unat_minus_one)
  have c: "snd (cmb_pull 1 b) = b\<lparr>cm_data := cm_data b + 1, cm_len := cm_len b - 1\<rparr>" using len by (simp add: cmb_pull_def Let_def)
  have nt: "nat (cm_data b + 1) = nat (cm_data b) + 1" using b(2) by simp
  have hb: "bytes s (nat (cm_data b)) = h" "load (bytes s) (nat (cm_data b) + 1) (length bs) = bs"
    using m len load_append [of "bytes s" "nat (cm_data b)" 1 "length bs"] by (simp_all add: load_def)
  define t where "t = set_xmit (\<lambda>x. x\<lparr>x_cmb := Some a\<rparr>) (s\<lparr>lists := g, cec := (cec s)\<lparr>tx_queue := k\<rparr>\<rparr>)"
  have t: "bufs t = bufs s" "bytes t = bytes s" by (simp_all add: t_def set_xmit_def)
  define u where "u = write_reg32 MIS_CEC_TX0 0 (write_reg32 MIS_CEC_TX0 TX_RST (write_reg32 MIS_CEC_TX_DATA2 TX_DATA2
      (mars_cec_rx_reset (set_xmit (\<lambda>x. x\<lparr>x_timeout := ticks (set_buf a (snd (cmb_pull 1 b)) t) + TX_TIMEOUT\<rparr>) (set_buf a (snd (cmb_pull 1 b)) t)))))"
  note ud = u_def t_def mars_cec_rx_reset_def set_xmit_def set_rcv_def set_buf_def write_reg32_def
  have u: "bufs u a = Some (snd (cmb_pull 1 b))" "bytes u = bytes s" "creg u MIS_CEC_TX1 = creg s MIS_CEC_TX1" "lists u = g" "tx_queue (cec u) = k"
    "x_cmb (xmit (cec u)) = Some a" "x_timeout (xmit (cec u)) = ticks s + 400"
    "reg_log u = reg_log s @ [(MIS_CEC_RX0, 0x40), (MIS_CEC_RX0, 0), (MIS_CEC_TX_DATA2, 0x26), (MIS_CEC_TX0, 0x40), (MIS_CEC_TX0, 0)]"
    by (simp_all add: ud)
  have bs: "load (bytes u) (nat (cm_data (snd (cmb_pull 1 b)))) (unat (cm_len (snd (cmb_pull 1 b)))) = bs" "0 \<le> cm_data (snd (cmb_pull 1 b))"
    using b(2) hb(2) l nt unfolding c u(2) by simp_all
  obtain d' where w: "write_tx_fifo a u = Some (set_buf a d' (write_fifo_bytes (take n bs) u))" "unat (cm_len d') = length bs - n"
    "load (bytes s) (nat (cm_data d')) (unat (cm_len d')) = drop n bs"
    using write_tx_fifo_load [OF u(1) bs(2) bs(1), of n] n unfolding u(2,3) by metis
  have z: "cm_len d' = 0 \<longleftrightarrow> \<not> n < length bs" using w(2) by (metis diff_is_0_eq not_less unat_eq_zero)
  have qk: "cm_queue_ok (g, k) ts" using d(2) by (simp add: own_def cec_qs_def)
  let ?w = "set_buf a d' (write_fifo_bytes (take n bs) u)"
  have bw: "bufs ?w a = Some d'" by (simp add: set_buf_def)
  let ?z = "write_reg32 MIS_CEC_TX0 (if cm_len d' = 0 then ucast (bytes t (nat (cm_data b)) AND 0xF) OR TX_EN OR TX_INT_EN
      else ucast (bytes t (nat (cm_data b)) AND 0xF) OR TX_EN OR TX_INT_EN OR TX_CONTINUOUS) ?w"
  define s' where "s' = set_xmit (\<lambda>x. x\<lparr>x_state := XMIT, x_work := schedule_delayed_work (ticks ?z + TX_TIMEOUT + 1) (x_work x)\<rparr>) ?z"
  have "tx_next s = Some s'"
    using hd by (simp only: tx_next_def Let_def d(1) prod.case option.case t_def [symmetric] t(1) b(1) bind.bind_lunit if_True
        u_def [symmetric] w(1) bw s'_def [symmetric])
  then have "mars_cec_tx_work s = Some s'" using st by (simp add: mars_cec_tx_work_def)
  then show ?thesis using u qk w(3) z hb(1) t(2)
    by (intro exI [of _ s'] exI [of _ d']) (simp add: s'_def set_xmit_def write_reg32_def set_buf_def or.assoc)
qed

theorem cec_message_sent_witness:
  "\<exists>s' b'. mars_cec_tx_work sample_sent = Some s' \<and>
    reg_log s' = reg_log sample_sent @ [(MIS_CEC_RX0, 0x40), (MIS_CEC_RX0, 0), (MIS_CEC_TX_DATA2, 0x26), (MIS_CEC_TX0, 0x40), (MIS_CEC_TX0, 0),
      (MIS_CEC_TX_FIFO, 0x04), (MIS_CEC_TX0, 0x95)] \<and> bufs s' 200 = Some b' \<and> load (bytes s') (nat (cm_data b')) (unat (cm_len b')) = []"
proof -
  have st: "x_enable (xmit (cec sample_sent))" "x_state (xmit (cec sample_sent)) = IDEL" by code_simp+
  have q: "cm_queue_ok (lists sample_sent, tx_queue (cec sample_sent)) [200]" unfolding cm_queue_ok_def dlist_def by code_simp
  have b: "bufs sample_sent 200 = Some (sample_msg\<lparr>cm_status := 0xFF\<rparr>)" by code_simp
  have m: "load (bytes sample_sent) (nat (cm_data (sample_msg\<lparr>cm_status := 0xFF\<rparr>))) (unat (cm_len (sample_msg\<lparr>cm_status := 0xFF\<rparr>))) = [0x45, 0x04]"
    by code_simp
  have r: "creg sample_sent MIS_CEC_TX1 = 0" by code_simp
  show ?thesis using cec_message_sent [OF sample_sent_reach st q b _ m refl] r by (fastforce simp: sample_msg_def)
qed

end
