(* ===== verification/Driver_Core.thy ===== *)
theory Driver_Core
  imports Klist
begin

text \<open>
  The driver core as far as the platform's buses use it (\<open>drivers/base/bus.c\<close>, \<open>core.c\<close>, \<open>driver.c\<close>): a bus with its
  devices and drivers, the binding of devices to drivers through the drivers' \<open>probe\<close> and \<open>remove\<close>, and the
  registration calls. Devices and drivers are addresses. The callbacks are a parameter; they act on the
  state of the bus client, \<open>None\<close> being a fault in a callback or a null pointer. Names in \<open>sysfs\<close> are left
  out, and the results of \<open>kobject\<close> calls, which may fail, are arguments. The semaphores make each call one step.
\<close>

section \<open>The bus\<close>

record 's drv_bus =
  bus_drivers :: "nat list"
  bus_devices :: "nat list"
  drv_devices :: "nat \<Rightarrow> nat list"
  dev_driver :: "nat \<Rightarrow> nat option"
  client :: 's

text \<open>The callbacks; \<open>None\<close> is a null function pointer. A callback gets the driver the device points to.\<close>

record 's bus_ops =
  bus_match :: "(nat \<Rightarrow> nat \<Rightarrow> bool) option"
  drv_probe :: "(nat \<Rightarrow> nat \<Rightarrow> 's \<Rightarrow> (int \<times> 's) option) option"
  drv_remove :: "(nat \<Rightarrow> nat \<Rightarrow> 's \<Rightarrow> 's option) option"

definition set_driver :: "nat \<Rightarrow> nat option \<Rightarrow> 's drv_bus \<Rightarrow> 's drv_bus" where
  "set_driver dev d b = b\<lparr>dev_driver := (dev_driver b)(dev := d)\<rparr>"

definition device_bind_driver :: "nat \<Rightarrow> 's drv_bus \<Rightarrow> 's drv_bus option" where
  "device_bind_driver dev b = do {
     drv \<leftarrow> dev_driver b dev;
     Some (b\<lparr>drv_devices := (drv_devices b)(drv := drv_devices b drv @ [dev])\<rparr>)
   }"

definition driver_probe_device :: "'s bus_ops \<Rightarrow> nat \<Rightarrow> nat \<Rightarrow> 's drv_bus \<Rightarrow> (int \<times> 's drv_bus) option" where
  "driver_probe_device ops drv dev b =
     (if (case bus_match ops of Some m \<Rightarrow> \<not> m dev drv | None \<Rightarrow> False) then Some (- ENODEV, b)
      else do {
        let b = set_driver dev (Some drv) b;
        (error, c) \<leftarrow> (case drv_probe ops of Some probe \<Rightarrow> probe drv dev (client b) | None \<Rightarrow> Some (0, client b));
        let b = b\<lparr>client := c\<rparr>;
        if error \<noteq> 0 then Some (error, set_driver dev None b)
        else do { b \<leftarrow> device_bind_driver dev b; Some (0, b) }
      })"

text \<open>The loop of \<open>device_attach\<close> over the drivers of the bus: the first one that takes the device.\<close>

fun attach_drivers :: "'s bus_ops \<Rightarrow> nat \<Rightarrow> nat list \<Rightarrow> 's drv_bus \<Rightarrow> (int \<times> 's drv_bus) option" where
  "attach_drivers ops dev [] b = Some (0, b)"
| "attach_drivers ops dev (drv # drvs) b = do {
     (error, b) \<leftarrow> driver_probe_device ops drv dev b;
     if error = 0 then Some (1, b) else attach_drivers ops dev drvs b
   }"

definition device_attach :: "'s bus_ops \<Rightarrow> nat \<Rightarrow> 's drv_bus \<Rightarrow> (int \<times> 's drv_bus) option" where
  "device_attach ops dev b =
     (if dev_driver b dev \<noteq> None then do { b \<leftarrow> device_bind_driver dev b; Some (1, b) }
      else if bus_match ops \<noteq> None then attach_drivers ops dev (bus_drivers b) b
      else Some (0, b))"

text \<open>The loop of \<open>driver_attach\<close> over the devices of the bus: each one that has no driver.\<close>

fun attach_devices :: "'s bus_ops \<Rightarrow> nat \<Rightarrow> nat list \<Rightarrow> 's drv_bus \<Rightarrow> 's drv_bus option" where
  "attach_devices ops drv [] b = Some b"
| "attach_devices ops drv (dev # devs) b = do {
     b \<leftarrow> (if dev_driver b dev = None then do { (error, b) \<leftarrow> driver_probe_device ops drv dev b; Some b } else Some b);
     attach_devices ops drv devs b
   }"

definition driver_attach :: "'s bus_ops \<Rightarrow> nat \<Rightarrow> 's drv_bus \<Rightarrow> 's drv_bus option" where
  "driver_attach ops drv b = (if bus_match ops = None then Some b else attach_devices ops drv (bus_devices b) b)"

definition device_release_driver :: "'s bus_ops \<Rightarrow> nat \<Rightarrow> 's drv_bus \<Rightarrow> 's drv_bus option" where
  "device_release_driver ops dev b =
     (case dev_driver b dev of
        None \<Rightarrow> Some b
      | Some drv \<Rightarrow> do {
          let b = b\<lparr>drv_devices := (drv_devices b)(drv := remove1 dev (drv_devices b drv))\<rparr>;
          c \<leftarrow> (case drv_remove ops of Some remove \<Rightarrow> remove drv dev (client b) | None \<Rightarrow> Some (client b));
          Some (set_driver dev None (b\<lparr>client := c\<rparr>))
        })"

partial_function (option) driver_detach :: "'s bus_ops \<Rightarrow> nat \<Rightarrow> 's drv_bus \<Rightarrow> 's drv_bus option" where
  [code]: "driver_detach ops drv b =
     (case drv_devices b drv of
        [] \<Rightarrow> Some b
      | dev # _ \<Rightarrow> Option.bind (device_release_driver ops dev b) (driver_detach ops drv))"

section \<open>Registration\<close>

definition bus_add_device :: "'s bus_ops \<Rightarrow> nat \<Rightarrow> 's drv_bus \<Rightarrow> (int \<times> 's drv_bus) option" where
  "bus_add_device ops dev b = do {
     (_, b) \<leftarrow> device_attach ops dev (b\<lparr>bus_devices := bus_devices b @ [dev]\<rparr>);
     Some (0, b)
   }"

definition bus_remove_device :: "'s bus_ops \<Rightarrow> nat \<Rightarrow> 's drv_bus \<Rightarrow> 's drv_bus option" where
  "bus_remove_device ops dev b = do {
     b \<leftarrow> device_release_driver ops dev b;
     Some (b\<lparr>bus_devices := remove1 dev (bus_devices b)\<rparr>)
   }"

definition bus_add_driver :: "'s bus_ops \<Rightarrow> int \<Rightarrow> int \<Rightarrow> nat \<Rightarrow> 's drv_bus \<Rightarrow> (int \<times> 's drv_bus) option" where
  "bus_add_driver ops set_name register drv b =
     (if set_name \<noteq> 0 then Some (set_name, b)
      else if register \<noteq> 0 then Some (register, b)
      else do {
        b \<leftarrow> driver_attach ops drv (b\<lparr>bus_drivers := bus_drivers b @ [drv]\<rparr>);
        Some (0, b)
      })"

definition bus_remove_driver :: "'s bus_ops \<Rightarrow> nat \<Rightarrow> 's drv_bus \<Rightarrow> 's drv_bus option" where
  "bus_remove_driver ops drv b = do {
     b \<leftarrow> driver_detach ops drv b;
     Some (b\<lparr>bus_drivers := remove1 drv (bus_drivers b)\<rparr>)
   }"

text \<open>\<open>bus_rescan_devices\<close>: the number of devices that have found a driver.\<close>

fun rescan_devices :: "'s bus_ops \<Rightarrow> nat list \<Rightarrow> nat \<Rightarrow> 's drv_bus \<Rightarrow> (nat \<times> 's drv_bus) option" where
  "rescan_devices ops [] count b = Some (count, b)"
| "rescan_devices ops (dev # devs) count b = do {
     (r, b) \<leftarrow> (if dev_driver b dev = None then device_attach ops dev b else Some (0, b));
     rescan_devices ops devs (if r \<noteq> 0 then count + 1 else count) b
   }"

definition bus_rescan_devices :: "'s bus_ops \<Rightarrow> 's drv_bus \<Rightarrow> (nat \<times> 's drv_bus) option" where
  "bus_rescan_devices ops b = rescan_devices ops (bus_devices b) 0 b"

text \<open>\<open>device_add\<close>: \<open>named\<close> says that the device has a name, \<open>kobj\<close> and \<open>pm\<close> are the results of the registrations before the bus.\<close>

definition device_register :: "'s bus_ops \<Rightarrow> bool \<Rightarrow> int \<Rightarrow> int \<Rightarrow> nat \<Rightarrow> 's drv_bus \<Rightarrow> (int \<times> 's drv_bus) option" where
  "device_register ops named kobj pm dev b =
     (if \<not> named then Some (- EINVAL, b)
      else if kobj \<noteq> 0 then Some (kobj, b)
      else if pm \<noteq> 0 then Some (pm, b)
      else bus_add_device ops dev b)"

definition device_unregister :: "'s bus_ops \<Rightarrow> nat \<Rightarrow> 's drv_bus \<Rightarrow> 's drv_bus option" where
  "device_unregister ops dev b = bus_remove_device ops dev b"

definition driver_register :: "'s bus_ops \<Rightarrow> int \<Rightarrow> int \<Rightarrow> nat \<Rightarrow> 's drv_bus \<Rightarrow> (int \<times> 's drv_bus) option" where
  "driver_register ops set_name register drv b =
     bus_add_driver ops set_name register drv (b\<lparr>drv_devices := (drv_devices b)(drv := [])\<rparr>)"

definition driver_unregister :: "'s bus_ops \<Rightarrow> nat \<Rightarrow> 's drv_bus \<Rightarrow> 's drv_bus option" where
  "driver_unregister ops drv b = bus_remove_driver ops drv b"

section \<open>Well-formed buses\<close>

text \<open>
  A device is on the list of exactly the driver it points to, and both are registered.
\<close>

definition bus_wf :: "'s drv_bus \<Rightarrow> bool" where
  "bus_wf b \<longleftrightarrow>
     distinct (bus_drivers b) \<and> distinct (bus_devices b) \<and>
     (\<forall>drv. distinct (drv_devices b drv)) \<and>
     (\<forall>dev drv. dev \<in> set (drv_devices b drv) \<longleftrightarrow> dev_driver b dev = Some drv) \<and>
     (\<forall>dev drv. dev_driver b dev = Some drv \<longrightarrow> dev \<in> set (bus_devices b) \<and> drv \<in> set (bus_drivers b))"

lemma bus_wf_drv: "bus_wf b \<Longrightarrow> dev \<in> set (drv_devices b drv) \<longleftrightarrow> dev_driver b dev = Some drv"
  by (simp add: bus_wf_def)

text \<open>A well-formed bus whose client is in order and whose bound devices are ready.\<close>

definition bus_good :: "('s \<Rightarrow> bool) \<Rightarrow> (nat \<Rightarrow> 's \<Rightarrow> bool) \<Rightarrow> 's drv_bus \<Rightarrow> bool" where
  "bus_good I ready b \<longleftrightarrow> bus_wf b \<and> I (client b) \<and> (\<forall>dev. dev_driver b dev \<noteq> None \<longrightarrow> ready dev (client b))"

text \<open>The calls that reach a bus, and what a caller has to respect: nothing is registered twice, and only a registered driver is taken away.\<close>

datatype bus_req = Add_device bool int int nat | Remove_device nat | Add_driver int int nat | Remove_driver nat | Rescan

fun bus_do :: "'s bus_ops \<Rightarrow> bus_req \<Rightarrow> 's drv_bus \<Rightarrow> 's drv_bus option" where
  "bus_do ops (Add_device named kobj pm dev) b = map_option snd (device_register ops named kobj pm dev b)"
| "bus_do ops (Remove_device dev) b = device_unregister ops dev b"
| "bus_do ops (Add_driver set_name register drv) b = map_option snd (driver_register ops set_name register drv b)"
| "bus_do ops (Remove_driver drv) b = driver_unregister ops drv b"
| "bus_do ops Rescan b = map_option snd (bus_rescan_devices ops b)"

fun bus_req_ok :: "bus_req \<Rightarrow> 's drv_bus \<Rightarrow> bool" where
  "bus_req_ok (Add_device named kobj pm dev) b = (dev \<notin> set (bus_devices b))"
| "bus_req_ok (Add_driver set_name register drv) b = (drv \<notin> set (bus_drivers b))"
| "bus_req_ok (Remove_device dev) b = True"
| "bus_req_ok (Remove_driver drv) b = True"
| "bus_req_ok Rescan b = True"

inductive bus_reach :: "'s bus_ops \<Rightarrow> 's \<Rightarrow> 's drv_bus \<Rightarrow> bool" for ops c where
  Boot: "bus_reach ops c \<lparr>bus_drivers = [], bus_devices = [], drv_devices = \<lambda>_. [], dev_driver = \<lambda>_. None, client = c\<rparr>"
| Call: "bus_reach ops c b \<Longrightarrow> bus_req_ok req b \<Longrightarrow> bus_do ops req b = Some b' \<Longrightarrow> bus_reach ops c b'"

text \<open>What every removal keeps, detaching a driver keeps.\<close>

lemma detach_client:
  assumes "driver_detach ops drv b = Some b'" and ops: "drv_remove ops = Some remove"
    and keep: "\<And>drv dev c c'. remove drv dev c = Some c' \<Longrightarrow> R c c'" and rt: "\<And>c. R c c" "\<And>c d e. R c d \<Longrightarrow> R d e \<Longrightarrow> R c e"
  shows "R (client b) (client b')"
proof -
  have one: "device_release_driver ops dev b = Some b1 \<Longrightarrow> R (client b) (client b1)" for dev b b1
    by (auto simp: device_release_driver_def ops set_driver_def Let_def rt(1) dest: keep split: option.splits Option.bind_splits)
  have "ops' = ops \<longrightarrow> R (client b) (client b')" if "driver_detach ops' drv b = Some b'" for ops'
    using that
    by (rule driver_detach.raw_induct [where P = "\<lambda>ops' drv b b'. ops' = ops \<longrightarrow> R (client b) (client b')", rotated])
      (auto simp: rt(1) split: list.splits Option.bind_splits dest!: one intro: rt(2))
  then show ?thesis using assms(1) by simp
qed

text \<open>
  The contract of a bus client: in a state that satisfies the client's invariant a probe returns, and one that
  succeeds makes the device ready; a ready device can be removed; neither touches the other devices.
\<close>

locale bus_client =
  fixes ops :: "'s bus_ops" and I :: "'s \<Rightarrow> bool" and ready :: "nat \<Rightarrow> 's \<Rightarrow> bool"
    and probe :: "nat \<Rightarrow> nat \<Rightarrow> 's \<Rightarrow> (int \<times> 's) option" and remove :: "nat \<Rightarrow> nat \<Rightarrow> 's \<Rightarrow> 's option"
  assumes ops_match: "\<exists>m. bus_match ops = Some m" and ops_probe: "drv_probe ops = Some probe"
    and ops_remove: "drv_remove ops = Some remove"
    and probe_ok: "I c \<Longrightarrow> \<exists>e c'. probe drv dev c = Some (e, c') \<and> I c' \<and> (e = 0 \<longrightarrow> ready dev c') \<and> (\<forall>d. d \<noteq> dev \<longrightarrow> ready d c \<longrightarrow> ready d c')"
    and remove_ok: "I c \<Longrightarrow> ready dev c \<Longrightarrow> \<exists>c'. remove drv dev c = Some c' \<and> I c' \<and> (\<forall>d. d \<noteq> dev \<longrightarrow> ready d c \<longrightarrow> ready d c')"
begin

abbreviation good :: "'s drv_bus \<Rightarrow> bool" where
  "good b \<equiv> bus_good I ready b"

lemma probe_device_good:
  assumes "good b" "dev_driver b dev = None" "dev \<in> set (bus_devices b)" "drv \<in> set (bus_drivers b)"
  shows "\<exists>e b'. driver_probe_device ops drv dev b = Some (e, b') \<and> good b' \<and> bus_devices b' = bus_devices b \<and> bus_drivers b' = bus_drivers b \<and>
    dev_driver b' = (dev_driver b)(dev := if e = 0 then Some drv else None)"
proof -
  obtain e c where "probe drv dev (client b) = Some (e, c)" and c: "I c" "e = 0 \<longrightarrow> ready dev c" "\<forall>d. d \<noteq> dev \<longrightarrow> ready d (client b) \<longrightarrow> ready d c"
    using probe_ok [of "client b" drv dev] assms(1) by (auto simp: bus_good_def)
  moreover obtain m where m: "bus_match ops = Some m" using ops_match by blast
  ultimately have run: "driver_probe_device ops drv dev b =
      (if \<not> m dev drv then Some (- ENODEV, b)
       else if e \<noteq> 0 then Some (e, set_driver dev None (b\<lparr>client := c\<rparr>))
       else Some (0, set_driver dev (Some drv) (b\<lparr>client := c, drv_devices := (drv_devices b)(drv := drv_devices b drv @ [dev])\<rparr>)))"
    by (simp add: driver_probe_device_def ops_probe set_driver_def device_bind_driver_def Let_def)
  have free: "\<forall>d. dev \<notin> set (drv_devices b d)" using assms(1,2) by (auto simp: bus_good_def bus_wf_def)
  have "good (set_driver dev None (b\<lparr>client := c\<rparr>))"
    using assms(1,2) c by (auto simp: bus_good_def bus_wf_def set_driver_def)
  moreover have "e = 0 \<Longrightarrow> good (set_driver dev (Some drv) (b\<lparr>client := c, drv_devices := (drv_devices b)(drv := drv_devices b drv @ [dev])\<rparr>))"
    using assms c free by (auto simp: bus_good_def bus_wf_def set_driver_def)
  ultimately show ?thesis
    unfolding run using assms by (auto simp: set_driver_def fun_upd_idem)
qed

lemma attach_drivers_good:
  "good b \<Longrightarrow> dev_driver b dev = None \<Longrightarrow> dev \<in> set (bus_devices b) \<Longrightarrow> set drvs \<subseteq> set (bus_drivers b) \<Longrightarrow>
   \<exists>r b'. attach_drivers ops dev drvs b = Some (r, b') \<and> good b' \<and> bus_devices b' = bus_devices b \<and> bus_drivers b' = bus_drivers b"
proof (induction drvs arbitrary: b)
  case (Cons drv drvs)
  obtain e b' where b': "driver_probe_device ops drv dev b = Some (e, b')" "good b'" "bus_devices b' = bus_devices b"
      "bus_drivers b' = bus_drivers b" "dev_driver b' = (dev_driver b)(dev := if e = 0 then Some drv else None)"
    using probe_device_good [of b dev drv] Cons.prems by auto
  then show ?case using Cons.IH [of b'] Cons.prems by auto
qed simp

lemma device_attach_good:
  assumes "good b" "dev_driver b dev = None" "dev \<in> set (bus_devices b)"
  shows "\<exists>r b'. device_attach ops dev b = Some (r, b') \<and> good b' \<and> bus_devices b' = bus_devices b \<and> bus_drivers b' = bus_drivers b"
  using attach_drivers_good [of b dev "bus_drivers b"] ops_match assms by (auto simp: device_attach_def)

lemma attach_devices_good:
  "good b \<Longrightarrow> drv \<in> set (bus_drivers b) \<Longrightarrow> set devs \<subseteq> set (bus_devices b) \<Longrightarrow>
   \<exists>b'. attach_devices ops drv devs b = Some b' \<and> good b' \<and> bus_devices b' = bus_devices b \<and> bus_drivers b' = bus_drivers b"
proof (induction devs arbitrary: b)
  case (Cons dev devs)
  show ?case
  proof (cases "dev_driver b dev")
    case None
    then obtain e b' where "driver_probe_device ops drv dev b = Some (e, b')" "good b'" "bus_devices b' = bus_devices b" "bus_drivers b' = bus_drivers b"
      using probe_device_good [of b dev drv] Cons.prems by auto
    then show ?thesis using Cons.IH [of b'] Cons.prems None by auto
  next
    case Some then show ?thesis using Cons by auto
  qed
qed simp

lemma rescan_devices_good:
  "good b \<Longrightarrow> set devs \<subseteq> set (bus_devices b) \<Longrightarrow>
   \<exists>n' b'. rescan_devices ops devs n b = Some (n', b') \<and> good b' \<and> bus_devices b' = bus_devices b \<and> bus_drivers b' = bus_drivers b"
proof (induction devs arbitrary: n b)
  case (Cons dev devs)
  show ?case
  proof (cases "dev_driver b dev")
    case None
    then obtain r b' where "device_attach ops dev b = Some (r, b')" "good b'" "bus_devices b' = bus_devices b" "bus_drivers b' = bus_drivers b"
      using device_attach_good [of b dev] Cons.prems by auto
    then show ?thesis using Cons.IH [of b'] Cons.prems None by auto
  next
    case Some then show ?thesis using Cons.IH [of b n] Cons.prems by auto
  qed
qed simp

lemma release_good:
  assumes "good b"
  shows "\<exists>b'. device_release_driver ops dev b = Some b' \<and> good b' \<and> bus_devices b' = bus_devices b \<and> bus_drivers b' = bus_drivers b \<and>
    dev_driver b' = (dev_driver b)(dev := None) \<and> drv_devices b' = (\<lambda>drv. remove1 dev (drv_devices b drv))"
proof (cases "dev_driver b dev")
  case None
  then have "\<forall>drv. dev \<notin> set (drv_devices b drv)" using assms by (auto simp: bus_good_def bus_wf_def)
  then show ?thesis using None assms by (auto simp: device_release_driver_def remove1_idem fun_upd_idem)
next
  case (Some drv)
  have off: "d \<noteq> drv \<Longrightarrow> dev \<notin> set (drv_devices b d)" for d using Some assms by (auto simp: bus_good_def bus_wf_def)
  obtain c where "remove drv dev (client b) = Some c" and c: "I c" "\<forall>d. d \<noteq> dev \<longrightarrow> ready d (client b) \<longrightarrow> ready d c"
    using remove_ok [of "client b" dev drv] assms Some by (auto simp: bus_good_def)
  then have "device_release_driver ops dev b =
      Some (set_driver dev None (b\<lparr>drv_devices := (\<lambda>drv. remove1 dev (drv_devices b drv)), client := c\<rparr>))"
    using Some off by (auto simp: device_release_driver_def ops_remove Let_def set_driver_def fun_eq_iff remove1_idem)
  moreover have "good (set_driver dev None (b\<lparr>drv_devices := (\<lambda>drv. remove1 dev (drv_devices b drv)), client := c\<rparr>))"
    using assms c by (auto simp: bus_good_def bus_wf_def set_driver_def)
  ultimately show ?thesis by (simp add: set_driver_def)
qed

lemma detach_good:
  "good b \<Longrightarrow> \<exists>b'. driver_detach ops drv b = Some b' \<and> good b' \<and> bus_devices b' = bus_devices b \<and> bus_drivers b' = bus_drivers b \<and>
    dev_driver b' = (\<lambda>d. if dev_driver b d = Some drv then None else dev_driver b d)"
proof (induction "length (drv_devices b drv)" arbitrary: b)
  case 0
  then have "drv_devices b drv = []" "\<forall>d. dev_driver b d \<noteq> Some drv" by (simp_all add: bus_good_def flip: bus_wf_drv)
  then show ?case using 0 by (subst driver_detach.simps) (auto simp: fun_eq_iff)
next
  case (Suc n)
  then obtain dev devs where d: "drv_devices b drv = dev # devs" by (cases "drv_devices b drv") auto
  obtain b' where b': "device_release_driver ops dev b = Some b'" "good b'" "bus_devices b' = bus_devices b" "bus_drivers b' = bus_drivers b"
      "dev_driver b' = (dev_driver b)(dev := None)" "drv_devices b' = (\<lambda>drv. remove1 dev (drv_devices b drv))"
    using release_good [OF Suc.prems, of dev] by auto
  have "dev_driver b dev = Some drv" using Suc.prems bus_wf_drv [of b dev drv] d by (simp add: bus_good_def)
  moreover have "n = length (drv_devices b' drv)" using Suc.hyps(2) d b'(6) by simp
  ultimately show ?case
    using Suc.hyps(1) [of b'] b' d by (subst driver_detach.simps) (auto simp: fun_eq_iff)
qed

lemma bus_do_good:
  assumes "good b" "bus_req_ok req b"
  shows "\<exists>b'. bus_do ops req b = Some b' \<and> good b'"
proof (cases req)
  case (Add_device named kobj pm dev)
  let ?b = "b\<lparr>bus_devices := bus_devices b @ [dev]\<rparr>"
  have b: "good ?b" "dev_driver ?b dev = None" "dev \<in> set (bus_devices ?b)"
    using assms Add_device by (cases "dev_driver b dev"; auto simp: bus_good_def bus_wf_def)+
  show ?thesis using device_attach_good [OF b] assms Add_device by (auto simp: device_register_def bus_add_device_def)
next
  case (Remove_device dev)
  obtain b' where b': "device_release_driver ops dev b = Some b'" "good b'" "dev_driver b' = (dev_driver b)(dev := None)"
    using release_good [OF assms(1), of dev] by auto
  then have "good (b'\<lparr>bus_devices := remove1 dev (bus_devices b')\<rparr>)" by (auto simp: bus_good_def bus_wf_def)
  then show ?thesis using b' Remove_device by (simp add: device_unregister_def bus_remove_device_def)
next
  case (Add_driver sn rg drv)
  have "drv_devices b drv = []" using assms bus_wf_drv [of b "hd (drv_devices b drv)" drv] Add_driver
    by (cases "drv_devices b drv") (auto simp: bus_good_def bus_wf_def)
  then have "b\<lparr>drv_devices := (drv_devices b)(drv := [])\<rparr> = b" by (simp add: fun_upd_idem)
  moreover have "good (b\<lparr>bus_drivers := bus_drivers b @ [drv]\<rparr>)"
    using assms Add_driver by (auto simp: bus_good_def bus_wf_def)
  ultimately show ?thesis
    using attach_devices_good [of "b\<lparr>bus_drivers := bus_drivers b @ [drv]\<rparr>" drv "bus_devices b"] assms(1) Add_driver ops_match
    by (auto simp: driver_register_def bus_add_driver_def driver_attach_def)
next
  case (Remove_driver drv)
  obtain b' where b': "driver_detach ops drv b = Some b'" "good b'" "dev_driver b' = (\<lambda>d. if dev_driver b d = Some drv then None else dev_driver b d)"
    using detach_good [OF assms(1), of drv] by auto
  then have "good (b'\<lparr>bus_drivers := remove1 drv (bus_drivers b')\<rparr>)" by (auto simp: bus_good_def bus_wf_def split: if_splits)
  then show ?thesis using b' Remove_driver by (simp add: driver_unregister_def bus_remove_driver_def)
next
  case Rescan
  then show ?thesis using rescan_devices_good [OF assms(1), of "bus_devices b" 0] by (auto simp: bus_rescan_devices_def)
qed

lemma bus_reach_good: "bus_reach ops c b \<Longrightarrow> I c \<Longrightarrow> good b"
proof (induction rule: bus_reach.induct)
  case Boot then show ?case by (simp add: bus_good_def bus_wf_def)
next
  case (Call b req b') then show ?case using bus_do_good [of b req] by auto
qed

end

end
