(* ===== verification/Dev_Nodes.thy ===== *)
theory Dev_Nodes
  imports Klist
begin

text \<open>
  The tables of device nodes that \<open>cec_dev.c\<close> and \<open>scd_dev.c\<close> keep with the same code: the device of each minor
  number, the character devices that have been added, and the entries in \<open>devfs\<close> by number. Whether \<open>cdev_add\<close> fails for a minor
  number is a parameter. A full table and a failure both give -1.
\<close>

record node_table =
  node_list :: "nat option list"
  cdev_added :: "nat list"
  devfs :: "nat list"

text \<open>The index at which the loops over the table stop.\<close>

fun first_index :: "('a \<Rightarrow> bool) \<Rightarrow> 'a list \<Rightarrow> nat option" where
  "first_index P [] = None"
| "first_index P (x # xs) = (if P x then Some 0 else map_option Suc (first_index P xs))"

definition create_dev_node :: "(nat \<Rightarrow> bool) \<Rightarrow> nat \<Rightarrow> node_table \<Rightarrow> int \<times> node_table" where
  "create_dev_node cdev_fails dev t =
     (case first_index (\<lambda>d. d = None) (node_list t) of
        None \<Rightarrow> (- 1, t)
      | Some i \<Rightarrow>
          if cdev_fails i then (- 1, t)
          else (0, t\<lparr>node_list := (node_list t)[i := Some dev], cdev_added := i # cdev_added t, devfs := i # devfs t\<rparr>))"

definition remove_dev_node :: "nat \<Rightarrow> node_table \<Rightarrow> node_table" where
  "remove_dev_node dev t =
     (case first_index (\<lambda>d. d = Some dev) (node_list t) of
        None \<Rightarrow> t
      | Some i \<Rightarrow> t\<lparr>node_list := (node_list t)[i := None], cdev_added := remove1 i (cdev_added t), devfs := remove1 i (devfs t)\<rparr>)"

text \<open>The start and the end of the modules, for a table of \<open>n\<close> nodes.\<close>

definition init_nodes :: "nat \<Rightarrow> node_table \<Rightarrow> node_table" where
  "init_nodes n t = t\<lparr>node_list := replicate n None\<rparr>"

fun exit_nodes :: "nat list \<Rightarrow> node_table \<Rightarrow> node_table" where
  "exit_nodes [] t = t"
| "exit_nodes (i # is) t = exit_nodes is (case node_list t ! i of Some dev \<Rightarrow> remove_dev_node dev t | None \<Rightarrow> t)"

section \<open>Tables filled from the front\<close>

definition filled :: "nat list \<Rightarrow> nat \<Rightarrow> node_table \<Rightarrow> bool" where
  "filled ds n t \<longleftrightarrow> node_list t = map Some ds @ replicate n None"

lemma first_index_Some: "first_index P xs = Some i \<longleftrightarrow> i < length xs \<and> P (xs ! i) \<and> (\<forall>j < i. \<not> P (xs ! j))"
proof (induction xs arbitrary: i)
  case (Cons x xs)
  then show ?case by (cases i) (auto simp: All_less_Suc2)
qed simp

lemma first_index_None: "first_index P xs = None \<longleftrightarrow> (\<forall>x \<in> set xs. \<not> P x)"
  by (induction xs) auto

lemma first_free_filled: "first_index (\<lambda>d. d = None) (map Some ds @ replicate n None) = (if n = 0 then None else Some (length ds))"
  by (cases n) (auto simp: first_index_None first_index_Some nth_append)

lemma create_filled:
  assumes "filled ds n t" "\<not> cdev_fails (length ds)"
  shows "create_dev_node cdev_fails dev t =
    (if n = 0 then (- 1, t)
     else (0, t\<lparr>node_list := map Some (ds @ [dev]) @ replicate (n - 1) None, cdev_added := length ds # cdev_added t, devfs := length ds # devfs t\<rparr>))"
proof -
  have "first_index (\<lambda>d. d = None) (node_list t) = (if n = 0 then None else Some (length ds))"
    using assms(1) by (simp add: filled_def first_free_filled)
  then show ?thesis using assms by (cases n) (simp_all add: create_dev_node_def filled_def list_update_append)
qed

lemma length_create [simp]: "length (node_list (snd (create_dev_node f dev t))) = length (node_list t)"
  by (simp add: create_dev_node_def split: option.split)

text \<open>A node keeps its device when others are created.\<close>

lemma create_keeps: "node_list t ! i = Some d \<Longrightarrow> node_list (snd (create_dev_node f dev t)) ! i = Some d"
  by (auto simp: create_dev_node_def first_index_Some nth_list_update split: option.split)

text \<open>Removing a device that has just got its node restores the nodes.\<close>

lemma create_then_remove:
  assumes "Some dev \<notin> set (node_list t)" "create_dev_node f dev t = (0, t')"
  shows "remove_dev_node dev t' = t"
proof -
  obtain i where i: "first_index (\<lambda>d. d = None) (node_list t) = Some i"
    "t' = t\<lparr>node_list := (node_list t)[i := Some dev], cdev_added := i # cdev_added t, devfs := i # devfs t\<rparr>"
    using assms(2) by (auto simp: create_dev_node_def split: option.splits if_splits)
  then have n: "i < length (node_list t)" "node_list t ! i = None" by (auto simp: first_index_Some)
  have "first_index (\<lambda>d. d = Some dev) ((node_list t)[i := Some dev]) = Some i"
    using n assms(1) by (auto simp: first_index_Some nth_list_update in_set_conv_nth)
  then show ?thesis using i(2) n by (simp add: remove_dev_node_def list_update_same_conv)
qed

text \<open>The loop at the end clears every node, also when a device has several.\<close>

lemma exit_clears:
  "k \<le> length (node_list t) \<Longrightarrow> \<forall>j < k. node_list t ! j = None \<Longrightarrow>
   node_list (exit_nodes [k..<length (node_list t)] t) = replicate (length (node_list t)) None"
proof (induction "length (node_list t) - k" arbitrary: k t)
  case 0
  then show ?case by (auto intro: nth_equalityI)
next
  case (Suc n)
  let ?t = "case node_list t ! k of Some dev \<Rightarrow> remove_dev_node dev t | None \<Rightarrow> t"
  have k: "k < length (node_list t)" using Suc.hyps(2) by simp
  have t: "node_list ?t = (node_list t)[k := None]"
  proof (cases "node_list t ! k")
    case None then show ?thesis using list_update_id [of "node_list t" k] by simp
  next
    case (Some dev)
    then have "first_index (\<lambda>d. d = Some dev) (node_list t) = Some k" using Suc.prems k by (simp add: first_index_Some)
    then show ?thesis using Some by (simp add: remove_dev_node_def)
  qed
  have "\<forall>j < Suc k. node_list ?t ! j = None" using Suc.prems k t by (auto simp: less_Suc_eq)
  then have "node_list (exit_nodes [Suc k..<length (node_list ?t)] ?t) = replicate (length (node_list ?t)) None"
    using Suc.hyps k t by (intro Suc.hyps(1)) auto
  then show ?case using k t by (simp add: upt_conv_Cons)
qed

end
