(* ===== verification/Cec_Dev.thy ===== *)
theory Cec_Dev
  imports Cec_Props Driver_Core Dev_Nodes
begin

text \<open>
  The CEC core (\<open>drivers/cec/core/cec_core.c\<close>) and its device file (\<open>cec_dev.c\<close>) above the adapter's driver table (the end
  of \<open>cec_mars.c\<close>), with the wake-up hook of \<open>arch/mips/realtek-boards/mars/cec.c\<close>. The state is a bus of the driver core whose client holds the adapter
  \<open>m_cec\<close>, the devices, the table of nodes and user memory. What the environment decides is a record of
  parameters: results of allocations, the interrupt request, failures of \<open>cdev_add\<close> and of copies to and from
  the user, and what happens while a caller sleeps. \<open>None\<close> is a fault: a null or freed pointer, or a call through it.
\<close>

section \<open>State\<close>

abbreviation (input) MAX_CEC_CNT :: nat where "MAX_CEC_CNT \<equiv> 4"
abbreviation (input) ID_MARS_CEC_CONTROLLER :: u32 where "ID_MARS_CEC_CONTROLLER \<equiv> 0x1283"
abbreviation (input) CEC_ENABLE :: nat where "CEC_ENABLE \<equiv> 0"
abbreviation (input) CEC_SET_LOGICAL_ADDRESS :: nat where "CEC_SET_LOGICAL_ADDRESS \<equiv> 1"
abbreviation (input) CEC_SET_POWER_STATUS :: nat where "CEC_SET_POWER_STATUS \<equiv> 2"
abbreviation (input) CEC_SEND_MESSAGE :: nat where "CEC_SEND_MESSAGE \<equiv> 3"
abbreviation (input) CEC_RCV_MESSAGE :: nat where "CEC_RCV_MESSAGE \<equiv> 4"

text \<open>A device: its identification, the number in its bus name, and whether its driver data points to \<open>m_cec\<close> or is null.\<close>

record cec_device =
  cd_id :: u32
  cd_bus_id :: nat
  cd_drvdata :: bool

record cec_client =
  m_cec :: cec_sys
  cec_devices :: "nat \<Rightarrow> cec_device"
  cec_nodes :: node_table
  cec_device_count :: nat
  wakeup_flag :: u8
  cec_wakeup_ops :: bool
  user :: mem

type_synonym cec_bus = "cec_client drv_bus"

text \<open>
  \<open>get_fault a n\<close> says that \<open>copy_from_user\<close> of \<open>n\<close> bytes at \<open>a\<close> does not copy all of them; \<open>put_left a n\<close> is the number of bytes
  \<open>copy_to_user\<close> leaves behind, its result.
\<close>

record cec_env =
  init_addrs :: "cec_sys \<Rightarrow> nat option list"
  irq_granted :: bool
  new_addr :: "cec_sys \<Rightarrow> nat option"
  cec_sleep :: "cec_sys \<Rightarrow> cec_sys"
  cdev_fails :: "nat \<Rightarrow> bool"
  get_fault :: "nat \<Rightarrow> nat \<Rightarrow> bool"
  put_left :: "nat \<Rightarrow> nat \<Rightarrow> nat"

section \<open>The driver table\<close>

record cec_driver =
  drv_name :: string
  op_probe :: "(nat \<Rightarrow> cec_client \<Rightarrow> (int \<times> cec_client) option) option"
  op_remove :: "(nat \<Rightarrow> cec_client \<Rightarrow> cec_client option) option"
  op_xmit :: "(nat \<Rightarrow> nat \<Rightarrow> u8 \<Rightarrow> cec_client \<Rightarrow> (int \<times> cec_client) option) option"
  op_read :: "(nat \<Rightarrow> u8 \<Rightarrow> cec_client \<Rightarrow> (nat option \<times> cec_client) option) option"
  op_enable :: "(nat \<Rightarrow> u8 \<Rightarrow> cec_client \<Rightarrow> (int \<times> cec_client) option) option"
  op_set_logical_addr :: "(nat \<Rightarrow> u8 \<Rightarrow> cec_client \<Rightarrow> (int \<times> cec_client) option) option"
  op_suspend :: "(nat \<Rightarrow> cec_client \<Rightarrow> (int \<times> cec_client) option) option"
  op_resume :: "(nat \<Rightarrow> cec_client \<Rightarrow> (int \<times> cec_client) option) option"

definition cec_set_drvdata :: "nat \<Rightarrow> cec_client \<Rightarrow> cec_client" where
  "cec_set_drvdata dev c = c\<lparr>cec_devices := (cec_devices c)(dev := (cec_devices c dev)\<lparr>cd_drvdata := True\<rparr>)\<rparr>"

text \<open>An operation on the adapter behind \<open>cec_get_drvdata\<close>, which faults on the null pointer.\<close>

definition on_adapter :: "nat \<Rightarrow> (cec_sys \<Rightarrow> ('r \<times> cec_sys) option) \<Rightarrow> cec_client \<Rightarrow> ('r \<times> cec_client) option" where
  "on_adapter dev f c =
     (if cd_drvdata (cec_devices c dev) then map_option (\<lambda>(r, s). (r, c\<lparr>m_cec := s\<rparr>)) (f (m_cec c)) else None)"

definition ops_probe :: "cec_env \<Rightarrow> nat \<Rightarrow> cec_client \<Rightarrow> (int \<times> cec_client) option" where
  "ops_probe env dev c =
     (if cd_id (cec_devices c dev) \<noteq> ID_MARS_CEC_CONTROLLER then Some (- ENODEV, c)
      else let (r, s) = mars_cec_init (init_addrs env (m_cec c)) (irq_granted env) (m_cec c);
               c = c\<lparr>m_cec := s\<rparr>
           in Some (0, if r = 0 then cec_set_drvdata dev c else c))"

definition ops_remove :: "nat \<Rightarrow> cec_client \<Rightarrow> cec_client option" where
  "ops_remove dev c = map_option snd (on_adapter dev (\<lambda>s. map_option (\<lambda>s. ((), s)) (mars_cec_uninit s)) c)"

definition ops_enable :: "nat \<Rightarrow> u8 \<Rightarrow> cec_client \<Rightarrow> (int \<times> cec_client) option" where
  "ops_enable dev on_off c = on_adapter dev (mars_cec_enable (on_off \<noteq> 0)) c"

definition ops_set_logical_addr :: "nat \<Rightarrow> u8 \<Rightarrow> cec_client \<Rightarrow> (int \<times> cec_client) option" where
  "ops_set_logical_addr dev log_addr c = on_adapter dev (\<lambda>s. Some (mars_cec_set_logical_addr log_addr s)) c"

definition ops_xmit :: "cec_env \<Rightarrow> nat \<Rightarrow> nat \<Rightarrow> u8 \<Rightarrow> cec_client \<Rightarrow> (int \<times> cec_client) option" where
  "ops_xmit env dev cmb flags c = on_adapter dev (mars_cec_xmit_message (cec_sleep env) cmb flags) c"

definition ops_read :: "cec_env \<Rightarrow> nat \<Rightarrow> u8 \<Rightarrow> cec_client \<Rightarrow> (nat option \<times> cec_client) option" where
  "ops_read env dev flags c =
     on_adapter dev (\<lambda>s. do { s \<leftarrow> read_wait (cec_sleep env) flags s; read_take (new_addr env s) s }) c"

text \<open>The hook that the board's standby code asks, and the adapter's suspend and resume, which set and clear it.\<close>

definition register_cec_wakeup_ops :: "cec_client \<Rightarrow> cec_client" where
  "register_cec_wakeup_ops c = c\<lparr>cec_wakeup_ops := True\<rparr>"

definition unregister_cec_wakeup_ops :: "cec_client \<Rightarrow> cec_client" where
  "unregister_cec_wakeup_ops c = (if cec_wakeup_ops c then c\<lparr>cec_wakeup_ops := False\<rparr> else c)"

definition cec_wakeup_check :: "u8 \<Rightarrow> cec_client \<Rightarrow> int \<times> cec_client" where
  "cec_wakeup_check opcode c =
     (if cec_wakeup_ops c
      then let (r, s) = mars_cec_wakeup_check (wakeup_flag c) opcode (m_cec c) in (r, c\<lparr>m_cec := s\<rparr>)
      else (0, c))"

definition mars_cec_suspend :: "cec_client \<Rightarrow> int \<times> cec_client" where
  "mars_cec_suspend c = (0, if wakeup_flag c \<noteq> 0 then register_cec_wakeup_ops c else c)"

definition mars_cec_resume :: "cec_client \<Rightarrow> int \<times> cec_client" where
  "mars_cec_resume c = (0, if wakeup_flag c \<noteq> 0 then unregister_cec_wakeup_ops c else c)"

definition mars_cec_driver :: "cec_env \<Rightarrow> cec_driver" where
  "mars_cec_driver env =
     \<lparr>drv_name = ''mars_cec'', op_probe = Some (ops_probe env), op_remove = Some ops_remove, op_xmit = Some (ops_xmit env),
      op_read = Some (ops_read env), op_enable = Some ops_enable, op_set_logical_addr = Some ops_set_logical_addr,
      op_suspend = Some (\<lambda>_ c. Some (mars_cec_suspend c)), op_resume = Some (\<lambda>_ c. Some (mars_cec_resume c))\<rparr>"

section \<open>The core\<close>

definition create_cec_dev_node :: "cec_env \<Rightarrow> nat \<Rightarrow> cec_client \<Rightarrow> int \<times> cec_client" where
  "create_cec_dev_node env dev c =
     (let (r, t) = create_dev_node (cdev_fails env) dev (cec_nodes c) in (r, c\<lparr>cec_nodes := t\<rparr>))"

definition remove_cec_dev_node :: "nat \<Rightarrow> cec_client \<Rightarrow> cec_client" where
  "remove_cec_dev_node dev c = c\<lparr>cec_nodes := remove_dev_node dev (cec_nodes c)\<rparr>"

definition cec_bus_match :: "nat \<Rightarrow> nat \<Rightarrow> bool" where
  "cec_bus_match dev drv \<longleftrightarrow> True"

definition cec_drv_probe :: "cec_env \<Rightarrow> cec_driver \<Rightarrow> nat \<Rightarrow> cec_client \<Rightarrow> (int \<times> cec_client) option" where
  "cec_drv_probe env p_drv dev c =
     (case op_probe p_drv of
        None \<Rightarrow> Some (- ENODEV, c)
      | Some probe \<Rightarrow> do {
          (r, c) \<leftarrow> probe dev c;
          Some (if r = 0 then (0, snd (create_cec_dev_node env dev c)) else (- ENODEV, c))
        })"

definition cec_drv_remove :: "cec_env \<Rightarrow> cec_driver \<Rightarrow> nat \<Rightarrow> cec_client \<Rightarrow> cec_client option" where
  "cec_drv_remove env p_drv dev c = do {
     c \<leftarrow> (case op_remove p_drv of Some remove \<Rightarrow> remove dev c | None \<Rightarrow> Some c);
     Some (snd (create_cec_dev_node env dev c))
   }"

definition cec_drv_shutdown :: "cec_driver \<Rightarrow> nat \<Rightarrow> cec_client \<Rightarrow> cec_client option" where
  "cec_drv_shutdown p_drv dev c =
     (case op_enable p_drv of Some enable \<Rightarrow> map_option snd (enable dev 0 c) | None \<Rightarrow> Some c)"

definition cec_drv_suspend :: "cec_driver \<Rightarrow> nat \<Rightarrow> cec_client \<Rightarrow> (int \<times> cec_client) option" where
  "cec_drv_suspend p_drv dev c = (case op_suspend p_drv of Some suspend \<Rightarrow> suspend dev c | None \<Rightarrow> Some (0, c))"

definition cec_drv_resume :: "cec_driver \<Rightarrow> nat \<Rightarrow> cec_client \<Rightarrow> (int \<times> cec_client) option" where
  "cec_drv_resume p_drv dev c = (case op_resume p_drv of Some resume \<Rightarrow> resume dev c | None \<Rightarrow> Some (0, c))"

text \<open>The bus operations for drivers \<open>to_cec_driver\<close>.\<close>

definition cec_bus_type :: "cec_env \<Rightarrow> (nat \<Rightarrow> cec_driver) \<Rightarrow> cec_client bus_ops" where
  "cec_bus_type env to_cec_driver =
     \<lparr>bus_match = Some cec_bus_match, drv_probe = Some (\<lambda>drv. cec_drv_probe env (to_cec_driver drv)),
      drv_remove = Some (\<lambda>drv. cec_drv_remove env (to_cec_driver drv))\<rparr>"

abbreviation cec_ops :: "cec_env \<Rightarrow> cec_client bus_ops" where
  "cec_ops env \<equiv> cec_bus_type env (\<lambda>_. mars_cec_driver env)"

text \<open>The bus's own suspend and resume, which the power management calls for a device; they go to the driver of the device.\<close>

definition cec_bus_suspend :: "(nat \<Rightarrow> cec_driver) \<Rightarrow> nat \<Rightarrow> cec_bus \<Rightarrow> (int \<times> cec_bus) option" where
  "cec_bus_suspend to_cec_driver dev b = do {
     drv \<leftarrow> dev_driver b dev;
     (r, c) \<leftarrow> cec_drv_suspend (to_cec_driver drv) dev (client b);
     Some (r, b\<lparr>client := c\<rparr>)
   }"

definition cec_bus_resume :: "(nat \<Rightarrow> cec_driver) \<Rightarrow> nat \<Rightarrow> cec_bus \<Rightarrow> (int \<times> cec_bus) option" where
  "cec_bus_resume to_cec_driver dev b = do {
     drv \<leftarrow> dev_driver b dev;
     (r, c) \<leftarrow> cec_drv_resume (to_cec_driver drv) dev (client b);
     Some (r, b\<lparr>client := c\<rparr>)
   }"

definition register_cec_device :: "cec_client bus_ops \<Rightarrow> int \<Rightarrow> int \<Rightarrow> nat \<Rightarrow> cec_bus \<Rightarrow> (int \<times> cec_bus) option" where
  "register_cec_device ops kobj pm dev b =
     (let c = client b;
          c = c\<lparr>cec_devices := (cec_devices c)(dev := (cec_devices c dev)\<lparr>cd_bus_id := cec_device_count c\<rparr>),
                cec_device_count := cec_device_count c + 1\<rparr>
      in device_register ops True kobj pm dev (b\<lparr>client := c\<rparr>))"

definition unregister_cec_device :: "cec_client bus_ops \<Rightarrow> nat \<Rightarrow> cec_bus \<Rightarrow> cec_bus option" where
  "unregister_cec_device ops dev b = device_unregister ops dev b"

definition register_cec_driver :: "cec_client bus_ops \<Rightarrow> int \<Rightarrow> int \<Rightarrow> nat \<Rightarrow> cec_bus \<Rightarrow> (int \<times> cec_bus) option" where
  "register_cec_driver ops set_name register drv b = driver_register ops set_name register drv b"

definition unregister_cec_driver :: "cec_client bus_ops \<Rightarrow> nat \<Rightarrow> cec_bus \<Rightarrow> cec_bus option" where
  "unregister_cec_driver ops drv b = driver_unregister ops drv b"

text \<open>The adapter's module: \<open>drv\<close> and \<open>dev\<close> are the addresses of \<open>mars_cec_driver\<close> and \<open>mars_cec_controller\<close>.\<close>

definition mars_cec_module_init :: "cec_env \<Rightarrow> int \<Rightarrow> int \<Rightarrow> int \<Rightarrow> int \<Rightarrow> nat \<Rightarrow> nat \<Rightarrow> cec_bus \<Rightarrow> (int \<times> cec_bus) option" where
  "mars_cec_module_init env set_name register kobj pm drv dev b = do {
     (r, b) \<leftarrow> register_cec_driver (cec_ops env) set_name register drv b;
     if r \<noteq> 0 then Some (- EFAULT, b)
     else do { (_, b) \<leftarrow> register_cec_device (cec_ops env) kobj pm dev b; Some (0, b) }
   }"

definition mars_cec_module_exit :: "cec_env \<Rightarrow> nat \<Rightarrow> cec_bus \<Rightarrow> cec_bus option" where
  "mars_cec_module_exit env drv b = unregister_cec_driver (cec_ops env) drv b"

section \<open>The device file\<close>

definition cec_dev_module_init :: "int \<Rightarrow> cec_client \<Rightarrow> int \<times> cec_client" where
  "cec_dev_module_init region c =
     (if region \<noteq> 0 then (- EFAULT, c) else (0, c\<lparr>cec_nodes := init_nodes MAX_CEC_CNT (cec_nodes c)\<rparr>))"

definition cec_dev_module_exit :: "cec_client \<Rightarrow> cec_client" where
  "cec_dev_module_exit c = c\<lparr>cec_nodes := exit_nodes [0..<MAX_CEC_CNT] (cec_nodes c)\<rparr>"

definition cec_node :: "nat \<Rightarrow> cec_bus \<Rightarrow> nat option option" where
  "cec_node i b = (if i < length (node_list (cec_nodes (client b))) then Some (node_list (cec_nodes (client b)) ! i) else None)"

definition cec_dev_open :: "nat \<Rightarrow> cec_bus \<Rightarrow> int option" where
  "cec_dev_open i b = do { d \<leftarrow> cec_node i b; Some (if d \<noteq> None then 0 else - ENODEV) }"

text \<open>A call through the driver of a device.\<close>

definition call_drv :: "(nat \<Rightarrow> cec_driver) \<Rightarrow> nat \<Rightarrow> (cec_driver \<Rightarrow> ('a option)) \<Rightarrow> ('a \<Rightarrow> cec_client \<Rightarrow> ('r \<times> cec_client) option) \<Rightarrow>
    cec_bus \<Rightarrow> ('r \<times> cec_bus) option" where
  "call_drv to_cec_driver dev sel f b = do {
     drv \<leftarrow> dev_driver b dev;
     op \<leftarrow> sel (to_cec_driver drv);
     (r, c) \<leftarrow> f op (client b);
     Some (r, b\<lparr>client := c\<rparr>)
   }"

definition cec_dev_release :: "(nat \<Rightarrow> cec_driver) \<Rightarrow> nat \<Rightarrow> cec_bus \<Rightarrow> (int \<times> cec_bus) option" where
  "cec_dev_release to_cec_driver i b = do {
     d \<leftarrow> cec_node i b;
     case d of
       None \<Rightarrow> Some (0, b)
     | Some dev \<Rightarrow> do { (_, b) \<leftarrow> call_drv to_cec_driver dev op_enable (\<lambda>enable. enable dev 0) b; Some (0, b) }
   }"

text \<open>The message descriptor in user memory: the address of the bytes, and their number.\<close>

definition get_msg :: "mem \<Rightarrow> nat \<Rightarrow> nat \<times> nat" where
  "get_msg m arg = (unat (load32 m arg), unat (m (arg + 4)))"

abbreviation (input) SIZEOF_CEC_MSG :: nat where "SIZEOF_CEC_MSG \<equiv> 8"

definition map_cec :: "(cec_sys \<Rightarrow> cec_sys) \<Rightarrow> cec_bus \<Rightarrow> cec_bus" where
  "map_cec f b = b\<lparr>client := (client b)\<lparr>m_cec := f (m_cec (client b))\<rparr>\<rparr>"

definition ioctl_send :: "cec_env \<Rightarrow> (nat \<Rightarrow> cec_driver) \<Rightarrow> nat \<Rightarrow> nat \<Rightarrow> cec_bus \<Rightarrow> (int \<times> cec_bus) option" where
  "ioctl_send env to_cec_driver dev arg b =
     (if get_fault env arg SIZEOF_CEC_MSG then Some (- EFAULT, b)
      else
        let (buf, len) = get_msg (user (client b)) arg;
            (cmb, s) = new_cmb (new_addr env (m_cec (client b))) len (m_cec (client b));
            b = map_cec (\<lambda>_. s) b
        in case cmb of
             None \<Rightarrow> Some (- ENOMEM, b)
           | Some a \<Rightarrow> do {
               m \<leftarrow> bufs s a;
               let (ptr, m) = cmb_put len m;
               let b = map_cec (set_buf a m) b;
               if get_fault env buf len then Some (- EFAULT, b)
               else
                 let b = map_cec (\<lambda>s. s\<lparr>bytes := store (nat ptr) (load (user (client b)) buf len) (bytes s)\<rparr>) b
                 in call_drv to_cec_driver dev op_xmit (\<lambda>xmit. xmit dev a 0) b
             })"

text \<open>\<open>copy_to_user\<close> never gives a negative number, so the branch for its failure is not taken.\<close>

definition ioctl_rcv :: "cec_env \<Rightarrow> (nat \<Rightarrow> cec_driver) \<Rightarrow> nat \<Rightarrow> nat \<Rightarrow> cec_bus \<Rightarrow> (int \<times> cec_bus) option" where
  "ioctl_rcv env to_cec_driver dev arg b =
     (if get_fault env arg SIZEOF_CEC_MSG then Some (- EFAULT, b)
      else
        let (buf, len) = get_msg (user (client b)) arg in do {
          (cmb, b) \<leftarrow> call_drv to_cec_driver dev op_read (\<lambda>read. read dev 0) b;
          case cmb of
            None \<Rightarrow> Some (- EFAULT, b)
          | Some a \<Rightarrow> do {
              m \<leftarrow> bufs (m_cec (client b)) a;
              if unat (cm_len m) > len then Some (- ENOMEM, map_cec (kfree_cmb a) b)
              else
                let n = unat (cm_len m);
                    data = load (bytes (m_cec (client b))) (nat (cm_data m)) n;
                    left = put_left env buf n;
                    b = b\<lparr>client := (client b)\<lparr>user := store buf (take (n - left) data) (user (client b))\<rparr>\<rparr>
                in Some (int n, map_cec (kfree_cmb a) b)
            }
        })"

definition cec_dev_ioctl :: "cec_env \<Rightarrow> (nat \<Rightarrow> cec_driver) \<Rightarrow> nat \<Rightarrow> nat \<Rightarrow> nat \<Rightarrow> cec_bus \<Rightarrow> (int \<times> cec_bus) option" where
  "cec_dev_ioctl env to_cec_driver i cmd arg b = do {
     d \<leftarrow> cec_node i b;
     case d of
       None \<Rightarrow> Some (- ENODEV, b)
     | Some dev \<Rightarrow>
         if cmd = CEC_ENABLE then call_drv to_cec_driver dev op_enable (\<lambda>enable. enable dev (if arg \<noteq> 0 then 1 else 0)) b
         else if cmd = CEC_SET_LOGICAL_ADDRESS then
           call_drv to_cec_driver dev op_set_logical_addr (\<lambda>set_logical_addr. set_logical_addr dev (of_nat arg)) b
         else if cmd = CEC_SEND_MESSAGE then ioctl_send env to_cec_driver dev arg b
         else if cmd = CEC_RCV_MESSAGE then ioctl_rcv env to_cec_driver dev arg b
         else Some (- EFAULT, b)
   }"

end
