(* ===== verification/Cec_Dev_Props.thy ===== *)
theory Cec_Dev_Props
  imports Cec_Dev
begin

text \<open>
  The CEC core on the driver core: the callbacks meet the contract of a bus client, so that every sequence of
  registrations is safe; bringing the adapter up gives a node; messages pass unchanged between user memory and the
  queues of the adapter. Removal keeps the node of a device, and a failed initialisation creates one.
\<close>

section \<open>The client of the bus\<close>

definition adapter_ok :: "cec_sys \<Rightarrow> bool" where
  "adapter_ok s \<longleftrightarrow> (if st_init (cec s) then \<exists>N C. cec_inv N C s else cec_idle s)"

definition cec_client_ok :: "cec_client \<Rightarrow> bool" where
  "cec_client_ok c \<longleftrightarrow> adapter_ok (m_cec c) \<and> length (node_list (cec_nodes c)) = MAX_CEC_CNT"

definition cec_ready :: "nat \<Rightarrow> cec_client \<Rightarrow> bool" where
  "cec_ready dev c \<longleftrightarrow> cd_drvdata (cec_devices c dev)"

text \<open>The environment grants the interrupt, and allocation delivers addresses that are not in use.\<close>

definition cec_env_ok :: "cec_env \<Rightarrow> bool" where
  "cec_env_ok env \<longleftrightarrow> irq_granted env \<and>
     (\<forall>s. length (init_addrs env s) = RX_RING_LENGTH \<and> fresh_addrs s (concat (map olist (init_addrs env s))))"

text \<open>Any environment, made to behave.\<close>

definition fresh_env :: "cec_env \<Rightarrow> cec_env" where
  "fresh_env env = env\<lparr>irq_granted := True,
     init_addrs := \<lambda>s. if length (init_addrs env s) = RX_RING_LENGTH \<and> fresh_addrs s (concat (map olist (init_addrs env s)))
                         then init_addrs env s else replicate RX_RING_LENGTH None\<rparr>"

lemma fresh_env_id: "cec_env_ok env \<Longrightarrow> fresh_env env = env"
  by (simp add: cec_env_ok_def fresh_env_def)

lemma fresh_env_ok: "cec_env_ok (fresh_env env)"
  by (simp add: cec_env_ok_def fresh_env_def) (simp add: fresh_addrs_def numeral_eq_Suc)

lemma init_ok:
  assumes "adapter_ok s" "fresh_addrs s (concat (map olist addrs))"
  shows "\<exists>s'. mars_cec_init addrs True s = (0, s') \<and> st_init (cec s') \<and> adapter_ok s'"
proof (cases "st_init (cec s)")
  case True then show ?thesis using assms by (simp add: mars_cec_init_def)
next
  case False
  then obtain s' where s': "mars_cec_init addrs True s = (0, s')" "st_init (cec s')" by (simp add: mars_cec_init_def Let_def)
  then have "cec_inv (length (concat (map olist addrs))) [] s'" using init_inv [of s addrs s'] assms False by (simp add: adapter_ok_def)
  then show ?thesis using s' by (auto simp: adapter_ok_def)
qed

lemma inv_idle:
  assumes "cec_inv N C s" "\<not> st_enable (cec s)"
  shows "cec_idle (s\<lparr>cec := (cec s)\<lparr>st_init := False\<rparr>\<rparr>)"
proof -
  obtain ts rs fs e xs xc rst rc where v: "cview s = (e, e, xs, xc, e, rst, rc)" "own s ts rs fs (olist xc @ olist rc @ C @ finished s)"
    using cec_invE [OF assms(1)] by metis
  have "\<not> e" using cviewD(1) [OF v(1)] assms(2) by simp
  then show ?thesis using cviewD [OF v(1)] v(2) by (auto simp: cec_idle_def own_def cec_qs_def)
qed

lemma disable_off:
  assumes "cec_inv N C s"
  shows "\<exists>s'. mars_cec_enable False s = Some (0, s') \<and> cec_inv N C s' \<and> \<not> st_enable (cec s')"
proof -
  obtain s' where s': "mars_cec_enable False s = Some (0, s')" "cec_inv N C s'" using enable_inv [OF assms] by blast
  obtain ts rs fs e xs xc rst rc where v: "cview s = (e, e, xs, xc, e, rst, rc)" "own s ts rs fs (olist xc @ olist rc @ C @ finished s)"
    using cec_invE [OF assms] by metis
  have "\<not> st_enable (cec s')"
  proof (cases e)
    case True
    then have "cview s = (True, True, xs, xc, True, rst, rc)" using v(1) by simp
    from disable_own [OF v(2) this] s'(1) show ?thesis by (auto simp: cview_def)
  next
    case False then show ?thesis using cviewD(1) [OF v(1)] s'(1) by (auto simp: mars_cec_enable_def)
  qed
  then show ?thesis using s' by blast
qed

lemma uninit_ok:
  assumes "adapter_ok s"
  shows "\<exists>s'. mars_cec_uninit s = Some s' \<and> adapter_ok s'"
proof -
  let ?w = "write_regs [(MIS_CEC_CR0, 0x0F), (MIS_CEC_RX0, 0), (MIS_CEC_TX0, 0)] s"
  have w: "cec ?w = cec s" "finished ?w = finished s" "bufs ?w = bufs s" by (simp_all add: write_reg32_def)
  show ?thesis
  proof (cases "st_init (cec s)")
    case True
    then obtain N C where "cec_inv N C s" using assms by (auto simp: adapter_ok_def)
    then have "cec_inv N C ?w" by (rule cec_inv_same) simp_all
    then obtain s' where s': "mars_cec_enable False ?w = Some (0, s')" "cec_inv N C s'" "\<not> st_enable (cec s')" using disable_off by blast
    then show ?thesis using inv_idle [OF s'(2,3)] by (simp add: mars_cec_uninit_def adapter_ok_def)
  next
    case False
    then have "cec_idle s" using assms by (simp add: adapter_ok_def)
    moreover then have "mars_cec_enable False ?w = Some (0, ?w)" using w by (simp add: mars_cec_enable_def cec_idle_def)
    ultimately show ?thesis using w by (simp add: mars_cec_uninit_def adapter_ok_def cec_idle_def)
  qed
qed

section \<open>The callbacks\<close>

lemma node_facts [simp]:
  "m_cec (snd (create_cec_dev_node env dev c)) = m_cec c" "cec_devices (snd (create_cec_dev_node env dev c)) = cec_devices c"
  "length (node_list (cec_nodes (snd (create_cec_dev_node env dev c)))) = length (node_list (cec_nodes c))"
  by (simp_all add: create_cec_dev_node_def Let_def split: prod.split) (metis length_create snd_conv)

lemma create_empty:
  "node_list (cec_nodes c) = replicate MAX_CEC_CNT None \<Longrightarrow> \<not> cdev_fails env 0 \<Longrightarrow>
   node_list (cec_nodes (snd (create_cec_dev_node env dev c))) = Some dev # replicate 3 None"
  using create_filled [of "[]" 4 "cec_nodes c" "cdev_fails env" dev] by (simp add: filled_def create_cec_dev_node_def numeral_eq_Suc)

lemma probe_total:
  assumes "cec_client_ok c" "cec_env_ok env"
  shows "\<exists>e c'. cec_drv_probe env (mars_cec_driver env) dev c = Some (e, c') \<and> cec_client_ok c' \<and> (e = 0 \<longrightarrow> cec_ready dev c') \<and>
    (\<forall>d. d \<noteq> dev \<longrightarrow> cec_ready d c \<longrightarrow> cec_ready d c')"
proof (cases "cd_id (cec_devices c dev) = ID_MARS_CEC_CONTROLLER")
  case True
  obtain s where s: "mars_cec_init (init_addrs env (m_cec c)) (irq_granted env) (m_cec c) = (0, s)" "adapter_ok s"
    using init_ok [of "m_cec c" "init_addrs env (m_cec c)"] assms by (auto simp: cec_client_ok_def cec_env_ok_def)
  then show ?thesis using True assms
    by (auto simp: cec_drv_probe_def mars_cec_driver_def ops_probe_def cec_client_ok_def cec_ready_def cec_set_drvdata_def)
next
  case False
  then show ?thesis using assms by (simp add: cec_drv_probe_def mars_cec_driver_def ops_probe_def)
qed

lemma remove_total:
  assumes "cec_client_ok c" "cec_ready dev c"
  shows "\<exists>c'. cec_drv_remove env (mars_cec_driver env) dev c = Some c' \<and> cec_client_ok c' \<and> (\<forall>d. d \<noteq> dev \<longrightarrow> cec_ready d c \<longrightarrow> cec_ready d c')"
proof -
  obtain s where "mars_cec_uninit (m_cec c) = Some s" "adapter_ok s" using uninit_ok assms by (auto simp: cec_client_ok_def)
  then show ?thesis using assms
    by (simp add: cec_drv_remove_def mars_cec_driver_def ops_remove_def on_adapter_def cec_client_ok_def cec_ready_def)
qed

interpretation cecb: bus_client "cec_ops (fresh_env env)" cec_client_ok cec_ready
  "\<lambda>drv. cec_drv_probe (fresh_env env) (mars_cec_driver (fresh_env env))" "\<lambda>drv. cec_drv_remove (fresh_env env) (mars_cec_driver (fresh_env env))"
proof unfold_locales
  show "cec_client_ok c \<Longrightarrow> \<exists>e c'. cec_drv_probe (fresh_env env) (mars_cec_driver (fresh_env env)) dev c = Some (e, c') \<and> cec_client_ok c' \<and>
      (e = 0 \<longrightarrow> cec_ready dev c') \<and> (\<forall>d. d \<noteq> dev \<longrightarrow> cec_ready d c \<longrightarrow> cec_ready d c')" for c dev
    by (rule probe_total [OF _ fresh_env_ok])
  show "cec_client_ok c \<Longrightarrow> cec_ready dev c \<Longrightarrow> \<exists>c'. cec_drv_remove (fresh_env env) (mars_cec_driver (fresh_env env)) dev c = Some c' \<and>
      cec_client_ok c' \<and> (\<forall>d. d \<noteq> dev \<longrightarrow> cec_ready d c \<longrightarrow> cec_ready d c')" for c dev
    by (rule remove_total)
qed (simp_all add: cec_bus_type_def)

section \<open>A platform\<close>

text \<open>An allocator that gives one receive buffer at 100 while that is free, messages at 700, and a device at 500 with its driver at 600.\<close>

definition sample_env :: cec_env where
  "sample_env = \<lparr>init_addrs = \<lambda>s. if fresh_addrs s [100] then sample_addrs else replicate RX_RING_LENGTH None, irq_granted = True,
     new_addr = \<lambda>_. Some 700, cec_sleep = \<lambda>s. the (set_status 700 XMIT_OK s), cdev_fails = \<lambda>_. False, get_fault = \<lambda>_ _. False,
     put_left = \<lambda>_ _. 0\<rparr>"

definition sample_client :: "cec_sys \<Rightarrow> bool \<Rightarrow> nat option list \<Rightarrow> cec_client" where
  "sample_client s data nodes = \<lparr>m_cec = s, cec_devices = \<lambda>_. \<lparr>cd_id = ID_MARS_CEC_CONTROLLER, cd_bus_id = 0, cd_drvdata = data\<rparr>,
     cec_nodes = \<lparr>node_list = nodes, cdev_added = [], devfs = []\<rparr>, cec_device_count = 0, wakeup_flag = 0, cec_wakeup_ops = False,
     user = store 1000 [0x08, 0x07, 0, 0, 2] (store 1800 [0x40, 0x36] (\<lambda>_. 0))\<rparr>"

definition sample_bus :: "cec_sys \<Rightarrow> cec_bus" where
  "sample_bus s = \<lparr>bus_drivers = [600], bus_devices = [500], drv_devices = (\<lambda>_. [])(600 := [500]), dev_driver = (\<lambda>_. None)(500 := Some 600),
     client = sample_client s True [Some 500, None, None, None]\<rparr>"

lemma sample_env_ok: "cec_env_ok sample_env"
  by (auto simp: cec_env_ok_def sample_env_def sample_addrs_def numeral_eq_Suc fresh_addrs_def)

lemma sample_client_ok: "cec_client_ok (sample_client sample_cec0 data (replicate 4 None))"
  by (simp add: cec_client_ok_def adapter_ok_def sample_client_def sample_cec0_def cec_idle_def)

lemma sample_up:
  "\<exists>b. bus_reach (cec_ops sample_env) (sample_client sample_cec0 False (replicate 4 None)) b \<and> cec_node 0 b = Some (Some 500) \<and> dev_driver b 500 = Some 600"
proof -
  let ?c = "sample_client sample_cec0 False (replicate 4 None)"
  let ?ops = "cec_ops sample_env"
  obtain b1 where b1: "bus_do ?ops (Add_device True 0 0 500) \<lparr>bus_drivers = [], bus_devices = [], drv_devices = \<lambda>_. [], dev_driver = \<lambda>_. None, client = ?c\<rparr> = Some b1" "client b1 = ?c" "dev_driver b1 = (\<lambda>_. None)"
      "bus_devices b1 = [500]" "bus_drivers b1 = []"
    by (simp add: device_register_def bus_add_device_def device_attach_def cec_bus_type_def)
  obtain s where s: "mars_cec_init (init_addrs sample_env sample_cec0) True sample_cec0 = (0, s)"
    using init_ok [of sample_cec0 "init_addrs sample_env sample_cec0"] sample_client_ok [of True] sample_env_ok
    by (auto simp: cec_client_ok_def cec_env_ok_def sample_client_def)
  define c' where "c' = snd (create_cec_dev_node sample_env 500 (cec_set_drvdata 500 (?c\<lparr>m_cec := s\<rparr>)))"
  have c': "cec_drv_probe sample_env (mars_cec_driver sample_env) 500 ?c = Some (0, c')" "node_list (cec_nodes c') = Some 500 # replicate 3 None"
    using s sample_env_ok create_empty [of "cec_set_drvdata 500 (?c\<lparr>m_cec := s\<rparr>)" sample_env 500]
    by (simp_all add: cec_drv_probe_def mars_cec_driver_def ops_probe_def sample_client_def cec_env_ok_def c'_def cec_set_drvdata_def sample_env_def)
  have "\<exists>b2. bus_do ?ops (Add_driver 0 0 600) b1 = Some b2 \<and> client b2 = c' \<and> dev_driver b2 500 = Some 600"
    using b1(2-5) c'(1)
    by (simp add: driver_register_def bus_add_driver_def driver_attach_def cec_bus_type_def driver_probe_device_def cec_bus_match_def set_driver_def
        device_bind_driver_def)
  then obtain b2 where b2: "bus_do ?ops (Add_driver 0 0 600) b1 = Some b2" "client b2 = c'" "dev_driver b2 500 = Some 600" by blast
  have "bus_reach ?ops ?c b2"
    by (rule bus_reach.Call [OF bus_reach.Call [OF bus_reach.Boot _ b1(1)] _ b2(1)]) (simp_all add: b1)
  then show ?thesis using b2 c'(2) by (auto simp: cec_node_def)
qed



section \<open>Removal\<close>

text \<open>The nodes that a state has are kept.\<close>

definition nodes_kept :: "cec_client \<Rightarrow> cec_client \<Rightarrow> bool" where
  "nodes_kept c c' \<longleftrightarrow> length (node_list (cec_nodes c')) = length (node_list (cec_nodes c)) \<and>
     (\<forall>i d. node_list (cec_nodes c) ! i = Some d \<longrightarrow> node_list (cec_nodes c') ! i = Some d)"

lemma remove_keeps: "cec_drv_remove env (mars_cec_driver env) dev c = Some c' \<Longrightarrow> nodes_kept c c'"
  by (auto simp: cec_drv_remove_def mars_cec_driver_def ops_remove_def on_adapter_def nodes_kept_def create_cec_dev_node_def create_keeps
      split: if_splits prod.splits Option.bind_splits dest!: arg_cong [of "create_dev_node _ _ _" _ snd])

text \<open>
  C23: Unloading the adapter's module leaves its nodes behind: each minor number that stood for a device of the driver can
  still be opened, and closing it, or enabling the device through it, calls through the null driver pointer.
\<close>

theorem cec_unload_leaves_nodes:
  assumes env: "cec_env_ok env" and c: "cec_client_ok c" "bus_reach (cec_ops env) c b"
    and dev: "cec_node i b = Some (Some dev)" "dev_driver b dev = Some drv"
  shows "\<exists>b'. mars_cec_module_exit env drv b = Some b' \<and> cec_dev_open i b' = Some 0 \<and> cec_dev_release drvs i b' = None \<and>
    cec_dev_ioctl env drvs i CEC_ENABLE arg b' = None"
proof -
  have "bus_good cec_client_ok cec_ready b" using cecb.bus_reach_good [of env c b] env c by (simp add: fresh_env_id)
  from cecb.detach_good [OF this, of env drv] obtain t where t: "driver_detach (cec_ops env) drv b = Some t"
    "dev_driver t = (\<lambda>d. if dev_driver b d = Some drv then None else dev_driver b d)" using env by (auto simp: fresh_env_id)
  have "nodes_kept (client b) (client t)"
    by (rule detach_client [OF t(1), where R = nodes_kept and remove = "\<lambda>_. cec_drv_remove env (mars_cec_driver env)"])
      (auto simp: cec_bus_type_def nodes_kept_def dest: remove_keeps [unfolded nodes_kept_def])
  then have n: "cec_node i t = Some (Some dev)" using dev(1) by (auto simp: cec_node_def nodes_kept_def split: if_splits)
  define b' where "b' = t\<lparr>bus_drivers := remove1 drv (bus_drivers t)\<rparr>"
  have "mars_cec_module_exit env drv b = Some b'"
    using t(1) by (simp add: mars_cec_module_exit_def unregister_cec_driver_def driver_unregister_def bus_remove_driver_def b'_def)
  moreover have "cec_node i b' = Some (Some dev)" "dev_driver b' dev = None" using n t(2) dev(2) by (simp_all add: b'_def cec_node_def split: if_splits)
  ultimately show ?thesis by (auto simp: cec_dev_open_def cec_dev_release_def cec_dev_ioctl_def call_drv_def)
qed

theorem cec_unload_leaves_nodes_witness:
  "\<exists>b b'. mars_cec_module_exit sample_env 600 b = Some b' \<and> cec_dev_open 0 b' = Some 0 \<and>
    cec_dev_ioctl sample_env (\<lambda>_. mars_cec_driver sample_env) 0 CEC_ENABLE 1 b' = None"
proof -
  obtain b where b: "bus_reach (cec_ops sample_env) (sample_client sample_cec0 False (replicate 4 None)) b" "cec_node 0 b = Some (Some 500)"
    "dev_driver b 500 = Some 600" using sample_up by blast
  then show ?thesis using cec_unload_leaves_nodes [OF sample_env_ok sample_client_ok b] by blast
qed

text \<open>Only the exit of the device file's own module clears the table.\<close>

lemma cec_dev_module_exit_clears:
  "length (node_list (cec_nodes c)) = MAX_CEC_CNT \<Longrightarrow> node_list (cec_nodes (cec_dev_module_exit c)) = replicate MAX_CEC_CNT None"
  using exit_clears [of 0 "cec_nodes c"] by (simp add: cec_dev_module_exit_def)

section \<open>Bringing the adapter up\<close>

definition cec_boot :: "cec_client \<Rightarrow> cec_bus" where
  "cec_boot c = \<lparr>bus_drivers = [], bus_devices = [], drv_devices = \<lambda>_. [], dev_driver = \<lambda>_. None, client = c\<rparr>"

definition named :: "nat \<Rightarrow> cec_client \<Rightarrow> cec_client" where
  "named dev c = c\<lparr>cec_devices := (cec_devices c)(dev := (cec_devices c dev)\<lparr>cd_bus_id := cec_device_count c\<rparr>),
     cec_device_count := cec_device_count c + 1\<rparr>"

text \<open>Registration of driver and device when the probe of the adapter's driver has been answered.\<close>

lemma module_init_run:
  assumes "cec_drv_probe env (mars_cec_driver env) dev (named dev c) = Some (0, c')"
  shows "mars_cec_module_init env 0 0 0 0 drv dev (cec_boot c) =
    Some (0, \<lparr>bus_drivers = [drv], bus_devices = [dev], drv_devices = (\<lambda>_. [])(drv := [dev]), dev_driver = (\<lambda>_. None)(dev := Some drv), client = c'\<rparr>)"
  using assms
  by (simp add: mars_cec_module_init_def register_cec_driver_def driver_register_def bus_add_driver_def driver_attach_def cec_boot_def
      register_cec_device_def Let_def device_register_def bus_add_device_def device_attach_def driver_probe_device_def device_bind_driver_def
      cec_bus_type_def cec_bus_match_def set_driver_def named_def)

text \<open>
  Loading the adapter's module registers driver and device, binds them, initialises the adapter and creates node 0: the
  device is called \<open>cec\<close> with the count of devices, and the node can be opened and the adapter enabled through it.
\<close>

theorem cec_module_init_brings_up:
  assumes env: "cec_env_ok env" "\<not> cdev_fails env 0" and c: "cec_client_ok c" "node_list (cec_nodes c) = replicate MAX_CEC_CNT None"
    and id: "cd_id (cec_devices c dev) = ID_MARS_CEC_CONTROLLER"
  shows "\<exists>b. mars_cec_module_init env 0 0 0 0 drv dev (cec_boot c) = Some (0, b) \<and> dev_driver b dev = Some drv \<and> st_init (cec (m_cec (client b))) \<and>
    cd_bus_id (cec_devices (client b) dev) = cec_device_count c \<and> cec_dev_open 0 b = Some 0 \<and>
    (\<exists>b'. cec_dev_ioctl env (\<lambda>_. mars_cec_driver env) 0 CEC_ENABLE 1 b = Some (0, b') \<and> cec_client_ok (client b'))"
proof -
  obtain s where s: "mars_cec_init (init_addrs env (m_cec c)) True (m_cec c) = (0, s)" "st_init (cec s)" "adapter_ok s"
    using init_ok [of "m_cec c" "init_addrs env (m_cec c)"] env c(1) by (auto simp: cec_client_ok_def cec_env_ok_def)
  define d where "d = cec_set_drvdata dev (named dev c\<lparr>m_cec := s\<rparr>)"
  define c' where "c' = snd (create_cec_dev_node env dev d)"
  have "cec_drv_probe env (mars_cec_driver env) dev (named dev c) = Some (0, c')"
    using s(1) id env(1) by (simp add: cec_drv_probe_def mars_cec_driver_def ops_probe_def named_def cec_env_ok_def c'_def d_def)
  note run = module_init_run [OF this, of drv]
  have c': "m_cec c' = s" "cec_devices c' = cec_devices d" "node_list (cec_nodes c') = Some dev # replicate 3 None"
    using create_empty [of d env dev] c(2) env(2) by (simp_all add: c'_def d_def cec_set_drvdata_def named_def)
  have d: "cd_drvdata (cec_devices d dev)" "cd_bus_id (cec_devices d dev) = cec_device_count c" by (simp_all add: d_def cec_set_drvdata_def named_def)
  obtain s' where s': "mars_cec_enable True s = Some (0, s')" "st_init (cec s')" "adapter_ok s'"
  proof -
    obtain N C where "cec_inv N C s" using s by (auto simp: adapter_ok_def)
    then obtain s' where s': "mars_cec_enable True s = Some (0, s')" "cec_inv N C s'" using enable_inv by blast
    then have "st_init (cec s')" using s(2)
      by (auto simp: mars_cec_enable_def mars_cec_tx_start_def mars_cec_rx_start_def set_xmit_def set_rcv_def write_reg32_def Let_def)
    then show ?thesis using s' by (intro that) (auto simp: adapter_ok_def)
  qed
  then show ?thesis unfolding run using c' d s(2)
    by (simp add: cec_dev_open_def cec_node_def cec_dev_ioctl_def call_drv_def mars_cec_driver_def ops_enable_def on_adapter_def cec_client_ok_def)
qed

theorem cec_module_init_brings_up_witness:
  "\<exists>b. mars_cec_module_init sample_env 0 0 0 0 600 500 (cec_boot (sample_client sample_cec0 False (replicate 4 None))) = Some (0, b) \<and>
    dev_driver b 500 = Some 600 \<and> cec_dev_open 0 b = Some 0"
  using cec_module_init_brings_up [OF sample_env_ok _ sample_client_ok [of False], of 500 600]
  by (auto simp: sample_env_def sample_client_def)

text \<open>
  When the interrupt is refused the probe still succeeds: the device is bound without driver data and gets its node, which can
  be opened; enabling the device through it, closing it and unloading the module use the null pointer.
\<close>

theorem cec_failed_init_faults:
  assumes "\<not> irq_granted env" "\<not> cdev_fails env 0" "node_list (cec_nodes c) = replicate MAX_CEC_CNT None"
    and "cd_id (cec_devices c dev) = ID_MARS_CEC_CONTROLLER" "\<not> cd_drvdata (cec_devices c dev)" "\<not> st_init (cec (m_cec c))"
  shows "\<exists>b. mars_cec_module_init env 0 0 0 0 drv dev (cec_boot c) = Some (0, b) \<and> dev_driver b dev = Some drv \<and> cec_dev_open 0 b = Some 0 \<and>
    cec_dev_ioctl env (\<lambda>_. mars_cec_driver env) 0 CEC_ENABLE arg b = None \<and> cec_dev_release (\<lambda>_. mars_cec_driver env) 0 b = None \<and>
    mars_cec_module_exit env drv b = None"
proof -
  obtain s where s: "mars_cec_init (init_addrs env (m_cec c)) False (m_cec c) = (- 1, s)"
    using assms(6) by (simp add: mars_cec_init_def Let_def)
  define c' where "c' = snd (create_cec_dev_node env dev (named dev c\<lparr>m_cec := s\<rparr>))"
  have "cec_drv_probe env (mars_cec_driver env) dev (named dev c) = Some (0, c')"
    using s assms(1,4) by (simp add: cec_drv_probe_def mars_cec_driver_def ops_probe_def named_def c'_def)
  note run = module_init_run [OF this, of drv]
  have c': "\<not> cd_drvdata (cec_devices c' dev)" "node_list (cec_nodes c') = Some dev # replicate 3 None"
    using create_empty [of "named dev c\<lparr>m_cec := s\<rparr>" env dev] assms by (simp_all add: c'_def named_def)
  then show ?thesis unfolding run
    by (simp add: cec_dev_open_def cec_node_def cec_dev_ioctl_def cec_dev_release_def call_drv_def mars_cec_driver_def ops_enable_def on_adapter_def
        mars_cec_module_exit_def unregister_cec_driver_def driver_unregister_def bus_remove_driver_def driver_detach.simps device_release_driver_def
        cec_bus_type_def cec_drv_remove_def ops_remove_def)
qed

theorem cec_failed_init_faults_witness:
  "\<exists>b. mars_cec_module_init (sample_env\<lparr>irq_granted := False\<rparr>) 0 0 0 0 600 500 (cec_boot (sample_client sample_cec0 False (replicate 4 None))) = Some (0, b) \<and>
    cec_dev_open 0 b = Some 0 \<and> mars_cec_module_exit (sample_env\<lparr>irq_granted := False\<rparr>) 600 b = None"
  using cec_failed_init_faults [of "sample_env\<lparr>irq_granted := False\<rparr>" "sample_client sample_cec0 False (replicate 4 None)" 500 600]
  by (auto simp: sample_env_def sample_client_def sample_cec0_def)

section \<open>Messages\<close>

lemma bytes_set_buf: "bytes (set_buf a m s) = bytes s"
  by (simp add: set_buf_def)

text \<open>The message a caller has passed, in a buffer of its own.\<close>

lemma user_message:
  assumes o: "own s ts rs fs L" and u: "unused s a" and n: "length msg < 256"
  shows "\<exists>t m. new_cmb (Some a) (length msg) s = (Some a, t) \<and> bufs t a = Some m \<and> nat (fst (cmb_put (length msg) m)) = a + SIZEOF_CM_BUFF \<and>
    (let z = (set_buf a (snd (cmb_put (length msg) m)) t)\<lparr>bytes := store (a + SIZEOF_CM_BUFF) msg (bytes t)\<rparr>;
         m' = snd (cmb_put (length msg) m) in
     own z ts rs fs (a # L) \<and> cview z = cview s \<and> finished z = finished s \<and> cec z = cec s \<and> bufs z a = Some m' \<and> (msg \<noteq> [] \<longrightarrow> has_header m') \<and>
     load (bytes z) (nat (cm_data m')) (unat (cm_len m')) = msg)"
proof -
  obtain t where t: "new_cmb (Some a) (length msg) s = (Some a, t)" "own t ts rs fs (a # L)" "cview t = cview s" "finished t = finished s"
    "cec t = cec s" "bufs t = (bufs s)(a \<mapsto> the (alloc_cmb (Some (a + SIZEOF_CM_BUFF)) (length msg)))"
    using own_new [OF o, of a "length msg"] u by (auto simp: unused_def)
  let ?m = "the (alloc_cmb (Some (a + SIZEOF_CM_BUFF)) (length msg))"
  let ?t = "set_buf a (snd (cmb_put (length msg) ?m)) t"
  have "own ?t ts rs fs (a # L)" by (rule own_set_other [OF t(2)]) simp
  moreover have "own (?t\<lparr>bytes := store (a + SIZEOF_CM_BUFF) msg (bytes t)\<rparr>) ts rs fs (a # L) = own ?t ts rs fs (a # L)"
    by (rule own_same) simp_all
  moreover have "unat (of_nat (length msg) :: u8) = length msg" using n by (simp add: unat_of_nat take_bit_nat_eq_self)
  moreover have "nat (int a + 44) = a + 44" by simp
  ultimately show ?thesis using t
    by (intro exI [of _ t] exI [of _ ?m]) (simp add: alloc_cmb_def cmb_put_def has_header_def cview_def set_buf_def Let_def load_store_same)
qed

lemma ioctl_send_run:
  assumes node: "cec_node i b = Some (Some dev)" "dev_driver b dev = Some drv" "cd_drvdata (cec_devices (client b) dev)"
    and copy: "\<not> get_fault env arg 8" "\<not> get_fault env buf n" and msg: "get_msg (user (client b)) arg = (buf, n)"
    and mem: "new_addr env (m_cec (client b)) = Some a" "new_cmb (Some a) n (m_cec (client b)) = (Some a, t)" "bufs t a = Some m"
  shows "cec_dev_ioctl env (\<lambda>_. mars_cec_driver env) i CEC_SEND_MESSAGE arg b =
    map_option (\<lambda>(r, s'). (r, map_cec (\<lambda>_. s') b)) (mars_cec_xmit_message (cec_sleep env) a 0
      ((set_buf a (snd (cmb_put n m)) t)\<lparr>bytes := store (nat (fst (cmb_put n m))) (load (user (client b)) buf n) (bytes t)\<rparr>))"
    (is "_ = map_option _ (mars_cec_xmit_message _ _ _ ?w)")
proof -
  have "cec_dev_ioctl env (\<lambda>_. mars_cec_driver env) i CEC_SEND_MESSAGE arg b =
      call_drv (\<lambda>_. mars_cec_driver env) dev op_xmit (\<lambda>xmit. xmit dev a 0) (map_cec (\<lambda>_. ?w) b)"
    using node(1) copy msg mem by (simp add: cec_dev_ioctl_def ioctl_send_def map_cec_def case_prod_beta bytes_set_buf)
  also have "\<dots> = map_option (\<lambda>(r, s'). (r, map_cec (\<lambda>_. s') b)) (mars_cec_xmit_message (cec_sleep env) a 0 ?w)"
    using node(2,3)
    by (auto simp: call_drv_def mars_cec_driver_def ops_xmit_def on_adapter_def map_cec_def split: Option.bind_split option.split)
  finally show ?thesis .
qed

text \<open>
  C21: Sending through the device file hands the bytes of the caller, unchanged and as a buffer of their own, to the adapter behind
  the messages that wait already, starts the transmit work, sleeps, and returns the status with which the message was
  completed; the buffer is freed.
\<close>

theorem cec_ioctl_sends:
  assumes node: "cec_node i b = Some (Some dev)" "dev_driver b dev = Some drv" "cd_drvdata (cec_devices (client b) dev)"
    and reach: "cec_reach N (m_cec (client b), C)" and on: "x_enable (xmit (cec (m_cec (client b))))"
    and mem: "new_addr env (m_cec (client b)) = Some a" "unused (m_cec (client b)) a"
    and msg: "get_msg (user (client b)) arg = (buf, length msg)" "load (user (client b)) buf (length msg) = msg" "msg \<noteq> []" "length msg < 256"
    and copy: "\<not> get_fault env arg 8" "\<not> get_fault env buf (length msg)"
    and ts: "cm_queue_ok (lists (m_cec (client b)), tx_queue (cec (m_cec (client b)))) ts"
  shows "\<exists>z m. cec_dev_ioctl env (\<lambda>_. mars_cec_driver env) i CEC_SEND_MESSAGE arg b =
      map_option (\<lambda>(r, s'). (r, map_cec (\<lambda>_. s') b)) (xmit_result a (cec_sleep env z)) \<and>
    cm_queue_ok (lists z, tx_queue (cec z)) (ts @ [a]) \<and> bufs z a = Some m \<and> cm_status m = WAIT_XMIT \<and>
    load (bytes z) (nat (cm_data m)) (unat (cm_len m)) = msg \<and> x_work (xmit (cec z)) \<noteq> Not_pending \<and> cec_inv N C z"
proof -
  let ?s = "m_cec (client b)"
  have i: "cec_inv N C ?s" using cec_reach_inv [OF reach] by simp
  obtain ts0 rs fs e xs xc rst rc where v: "cview ?s = (e, e, xs, xc, e, rst, rc)" "own ?s ts0 rs fs (olist xc @ olist rc @ C @ finished ?s)"
    "length rs + length fs + length (olist rc) = N" "xs = XMIT \<and> xc \<noteq> None \<or> xs = IDEL \<and> xc = None" "rst = RCV \<and> rc \<noteq> None \<or> rst = IDEL"
    using cec_invE [OF i] by metis
  have e: e using on cviewD(2) [OF v(1)] by simp
  have ts0: "ts0 = ts" using cm_queue_unique [OF _ ts] v(2) by (simp add: own_def cec_qs_def)
  from user_message [OF v(2) mem(2) msg(4)] obtain t m0 where t: "new_cmb (Some a) (length msg) ?s = (Some a, t)" "bufs t a = Some m0"
    "nat (fst (cmb_put (length msg) m0)) = a + SIZEOF_CM_BUFF" and w0: "let z = (set_buf a (snd (cmb_put (length msg) m0)) t)\<lparr>bytes := store (a + SIZEOF_CM_BUFF) msg (bytes t)\<rparr>;
         m' = snd (cmb_put (length msg) m0) in
     own z ts0 rs fs (a # olist xc @ olist rc @ C @ finished ?s) \<and> cview z = cview ?s \<and> finished z = finished ?s \<and> cec z = cec ?s \<and> bufs z a = Some m' \<and>
     (msg \<noteq> [] \<longrightarrow> has_header m') \<and> load (bytes z) (nat (cm_data m')) (unat (cm_len m')) = msg" by blast
  define m where "m = snd (cmb_put (length msg) m0)"
  define w where "w = (set_buf a m t)\<lparr>bytes := store (a + SIZEOF_CM_BUFF) msg (bytes t)\<rparr>"
  have w: "own w ts0 rs fs (a # olist xc @ olist rc @ C @ finished ?s)" "cview w = cview ?s" "finished w = finished ?s" "cec w = cec ?s"
    "bufs w a = Some m" "has_header m" "load (bytes w) (nat (cm_data m)) (unat (cm_len m)) = msg"
    using w0 msg(3) by (simp_all add: Let_def w_def m_def)
  obtain z where z: "xmit_queue a 0 w = Some z" "own z (ts0 @ [a]) rs fs (olist xc @ olist rc @ C @ finished z)" "cview z = cview w" "bytes z = bytes w"
    "bufs z = (bufs w)(a \<mapsto> m\<lparr>cm_flags := 0, cm_status := WAIT_XMIT\<rparr>)" "x_work (xmit (cec z)) = schedule_work (x_work (xmit (cec w)))"
    using send_own [OF w(1,5,6), of 0] w(3) by auto
  have "cec_inv N C z" using v(1,3-5) z(2,3) w(2) e by (intro cec_invI [of z e xs xc rst rc "ts0 @ [a]" rs fs]) simp_all
  moreover have "cm_queue_ok (lists z, tx_queue (cec z)) (ts @ [a])" using z(2) ts0 by (simp add: own_def cec_qs_def)
  moreover have "cec_dev_ioctl env (\<lambda>_. mars_cec_driver env) i CEC_SEND_MESSAGE arg b =
      map_option (\<lambda>(r, s'). (r, map_cec (\<lambda>_. s') b)) (xmit_result a (cec_sleep env z))"
    using ioctl_send_run [OF node copy msg(1) mem(1) t(1,2)] t(3) msg(2) on w(4) z(1)
    by (simp add: w_def [symmetric] m_def [symmetric] mars_cec_xmit_message_def)
  moreover have "x_work (xmit (cec z)) \<noteq> Not_pending" using z(6) by (simp add: schedule_work_def)
  ultimately show ?thesis using z(4,5) w(7) by (intro exI [of _ z] exI [of _ "m\<lparr>cm_flags := 0, cm_status := WAIT_XMIT\<rparr>"] conjI) simp_all
qed

lemma sample_user: "get_msg (user (sample_client s d ns)) 1000 = (1800, 2)" "load (user (sample_client s d ns)) 1800 2 = [0x40, 0x36]"
  by (simp_all add: get_msg_def sample_client_def) code_simp+

theorem cec_ioctl_sends_witness:
  "\<exists>z m. cec_dev_ioctl sample_env (\<lambda>_. mars_cec_driver sample_env) 0 CEC_SEND_MESSAGE 1000 (sample_bus sample_on) =
      map_option (\<lambda>(r, s'). (r, map_cec (\<lambda>_. s') (sample_bus sample_on))) (xmit_result 700 (the (set_status 700 XMIT_OK z))) \<and>
    cm_queue_ok (lists z, tx_queue (cec z)) [700] \<and> bufs z 700 = Some m \<and> load (bytes z) (nat (cm_data m)) (unat (cm_len m)) = [0x40, 0x36]"
proof -
  have node: "cec_node 0 (sample_bus sample_on) = Some (Some 500)" "dev_driver (sample_bus sample_on) 500 = Some 600"
    "cd_drvdata (cec_devices (client (sample_bus sample_on)) 500)" "m_cec (client (sample_bus sample_on)) = sample_on"
    by (simp_all add: sample_bus_def sample_client_def cec_node_def)
  have reach: "cec_reach 1 (m_cec (client (sample_bus sample_on)), [])" using sample_on_reach node(4) by simp
  have on: "x_enable (xmit (cec sample_on))" "unused sample_on 700" unfolding unused_def by code_simp+
  have q: "cm_queue_ok (lists sample_on, tx_queue (cec sample_on)) []" unfolding cm_queue_ok_def dlist_def by code_simp
  have user: "get_msg (user (client (sample_bus sample_on))) 1000 = (1800, length [0x40::u8, 0x36])"
    "load (user (client (sample_bus sample_on))) 1800 (length [0x40::u8, 0x36]) = [0x40, 0x36]"
    using sample_user by (simp_all add: sample_bus_def flip: numeral_2_eq_2)
  have env: "new_addr sample_env s = Some 700" "\<not> get_fault sample_env p k" "cec_sleep sample_env s = the (set_status 700 XMIT_OK s)" for s p k
    by (simp_all add: sample_env_def)
  show ?thesis
    using cec_ioctl_sends [OF node(1-3) reach _ env(1) _ user _ _ env(2) env(2), of "[]"] on q by (auto simp: node(4) env(3))
qed

lemma ioctl_rcv_run:
  assumes node: "cec_node i b = Some (Some dev)" "dev_driver b dev = Some drv" "cd_drvdata (cec_devices (client b) dev)"
    and copy: "\<not> get_fault env arg 8" and msg: "get_msg (user (client b)) arg = (buf, n)"
    and read: "read_wait (cec_sleep env) 0 (m_cec (client b)) = Some t" "read_take (new_addr env t) t = Some (Some c, y)" "bufs y c = Some m"
  shows "cec_dev_ioctl env (\<lambda>_. mars_cec_driver env) i CEC_RCV_MESSAGE arg b =
    (if unat (cm_len m) > n then Some (- ENOMEM, map_cec (\<lambda>_. kfree_cmb c y) b)
     else let k = unat (cm_len m) in
       Some (int k, map_cec (\<lambda>_. kfree_cmb c y) (b\<lparr>client := (client b)\<lparr>user :=
         store buf (take (k - put_left env buf k) (load (bytes y) (nat (cm_data m)) k)) (user (client b))\<rparr>\<rparr>)))"
  using assms
  by (simp add: cec_dev_ioctl_def ioctl_rcv_def call_drv_def mars_cec_driver_def ops_read_def on_adapter_def map_cec_def Let_def)

text \<open>
  C22: Receiving through the device file takes the oldest message of the adapter: a message that fits is copied to the caller
  byte for byte and its length returned, a longer one is given up with \<open>-ENOMEM\<close> and nothing copied. Either way its buffer is freed, a new
  receive buffer takes its place, and the later messages stay in order.
\<close>

theorem cec_ioctl_receives:
  assumes node: "cec_node i b = Some (Some dev)" "dev_driver b dev = Some drv" "cd_drvdata (cec_devices (client b) dev)"
    and reach: "cec_reach N (m_cec (client b), C)" and on: "st_enable (cec (m_cec (client b)))"
    and mem: "new_addr env (m_cec (client b)) = Some a" "unused (m_cec (client b)) a"
    and arg: "get_msg (user (client b)) arg = (buf, n)" and copy: "\<not> get_fault env arg 8" "put_left env buf (length msg) = 0"
    and queue: "cm_queue_ok (lists (m_cec (client b)), rx_queue (cec (m_cec (client b)))) (c # rs)" "bufs (m_cec (client b)) c = Some m"
    and msg: "load (bytes (m_cec (client b))) (nat (cm_data m)) (unat (cm_len m)) = msg"
  shows "\<exists>b'. cec_dev_ioctl env (\<lambda>_. mars_cec_driver env) i CEC_RCV_MESSAGE arg b = Some (if length msg > n then - ENOMEM else int (length msg), b') \<and>
    user (client b') = (if length msg > n then user (client b) else store buf msg (user (client b))) \<and>
    cm_queue_ok (lists (m_cec (client b')), rx_queue (cec (m_cec (client b')))) rs \<and> bufs (m_cec (client b')) c = None \<and>
    cec_inv N C (m_cec (client b'))"
proof -
  let ?s = "m_cec (client b)"
  have i: "cec_inv N C ?s" "N \<le> 8" using cec_reach_inv [OF reach] by simp_all
  obtain ts rs0 fs e xs xc rst rc where v: "cview ?s = (e, e, xs, xc, e, rst, rc)" "own ?s ts rs0 fs (olist xc @ olist rc @ C @ finished ?s)"
    "length rs0 + length fs + length (olist rc) = N" "xs = XMIT \<and> xc \<noteq> None \<or> xs = IDEL \<and> xc = None" "rst = RCV \<and> rc \<noteq> None \<or> rst = IDEL"
    using cec_invE [OF i(1)] by metis
  have e: e using on cviewD(1) [OF v(1)] by simp
  have rs0: "rs0 = c # rs" using cm_queue_unique [OF _ queue(1)] v(2) by (simp add: own_def cec_qs_def)
  have o: "own ?s ts (c # rs) fs (olist xc @ olist rc @ C @ finished ?s)" using v(2) rs0 by simp
  have "cmb_queue_len (rx_queue (cec ?s)) = of_nat (length (c # rs))" using qs_len [OF own_qs(2) [OF o]] .
  moreover have "unat (of_nat (length (c # rs)) :: u32) = length (c # rs)"
    using v(3) i(2) rs0 by (simp add: unat_of_nat take_bit_nat_eq_self del: of_nat_Suc)
  ultimately have "cmb_queue_len (rx_queue (cec ?s)) \<noteq> 0" by auto
  then have wait: "read_wait (cec_sleep env) 0 ?s = Some ?s" by (subst read_wait.simps) simp
  from read_own [OF o on mem(2)] obtain y where y: "read_take (Some a) ?s = Some (Some c, y)"
    "own y ts rs (fs @ [a]) (c # olist xc @ olist rc @ C @ finished ?s)" "cview y = cview ?s" "finished y = finished ?s" "bytes y = bytes ?s"
    "bufs y = (bufs ?s)(a \<mapsto> the (alloc_cmb (Some (a + SIZEOF_CM_BUFF)) RX_BUFFER_SIZE))" by blast
  have "c \<noteq> a" using queue(2) mem(2) by (auto simp: unused_def)
  then have m: "bufs y c = Some m" using y(6) queue(2) by simp
  have k: "own (kfree_cmb c y) ts rs (fs @ [a]) (olist xc @ olist rc @ C @ finished ?s)" by (rule own_kfree [OF y(2)])
  have fin: "cview (kfree_cmb c y) = cview ?s" "finished (kfree_cmb c y) = finished ?s" "bufs (kfree_cmb c y) c = None"
    using y(3,4) by (simp_all add: kfree_cmb_def cview_def)
  have "cec_inv N C (kfree_cmb c y)"
    using k fin v(1,3-5) rs0 e by (intro cec_invI [of "kfree_cmb c y" e xs xc rst rc ts rs "fs @ [a]"]) simp_all
  moreover have "cm_queue_ok (lists (kfree_cmb c y), rx_queue (cec (kfree_cmb c y))) rs" using k by (simp add: own_def cec_qs_def)
  moreover have "length msg = unat (cm_len m)" using msg by auto
  ultimately show ?thesis
    using ioctl_rcv_run [OF node copy(1) arg wait _ m] mem(1) y(1,5) fin(3) msg copy(2) by (simp add: map_cec_def Let_def)
qed

text \<open>The adapter after the interrupt for a message of two bytes.\<close>

definition sample_irq :: cec_sys where
  "sample_irq = sample_arrived\<lparr>creg := (creg sample_arrived)(MIS_ISR_REG := 0x00800000)\<rparr>"

definition sample_got :: cec_sys where
  "sample_got = snd (the (mars_cec_isr sample_irq))"

lemmas got_simps = sample_irq_def sample_arrived_def listen_simps mars_cec_isr_def rx_running_def read_rx_fifo_def rx_queue_tail_def cmb_push_def
  cmb_tailroom_def cmb_put_def rx_dequeue_def

lemma sample_got_reach: "cec_reach 2 (sample_got, [])"
proof -
  have "cec_reach 2 (sample_arrived\<lparr>creg := (creg sample_arrived)(MIS_ISR_REG := 0x00800000), rx_fifo := rx_fifo sample_arrived, ticks := ticks sample_arrived\<rparr>, [])"
    by (rule cec_reach.step [OF sample_arrived_reach cec_step.hardware]) simp_all
  then have r: "cec_reach 2 (sample_irq, [])" by (simp add: sample_irq_def)
  have "cec_inv 2 [] sample_irq" using cec_reach_inv [OF r] by simp
  then obtain e where "mars_cec_isr sample_irq = Some (e, sample_got)" using isr_inv [of 2 "[]" sample_irq] unfolding sample_got_def by fastforce
  then show ?thesis using cec_reach.step [OF r cec_step.isr] by blast
qed

lemma sample_got_queue: "cm_queue_ok (lists sample_got, rx_queue (cec sample_got)) [100]"
  unfolding sample_got_def by (simp add: cm_queue_ok_def dlist_def got_simps cong: if_cong)

lemma sample_got_buf: "bufs sample_got 100 = Some \<lparr>cm_status = 0, cm_flags = 0, cm_head = 144, cm_data = 144, cm_tail = 147, cm_end = 208, cm_len = 3\<rparr>"
  unfolding sample_got_def by (simp add: got_simps cong: if_cong)

lemma sample_got_bytes: "bytes sample_got = store 144 [0x0F] (store 145 [0x36, 0x07] (\<lambda>_. 0))"
  unfolding sample_got_def by (simp add: got_simps cong: if_cong)

lemma sample_got_state: "st_enable (cec sample_got)" "unused sample_got 700"
  unfolding sample_got_def by (simp_all add: unused_def got_simps cong: if_cong)

theorem cec_ioctl_receives_witness:
  "\<exists>b'. cec_dev_ioctl sample_env (\<lambda>_. mars_cec_driver sample_env) 0 CEC_RCV_MESSAGE 1000 (sample_bus sample_got) = Some (- ENOMEM, b') \<and>
    bufs (m_cec (client b')) 100 = None"
proof -
  have node: "cec_node 0 (sample_bus sample_got) = Some (Some 500)" "dev_driver (sample_bus sample_got) 500 = Some 600"
    "cd_drvdata (cec_devices (client (sample_bus sample_got)) 500)" "m_cec (client (sample_bus sample_got)) = sample_got"
    by (simp_all add: sample_bus_def sample_client_def cec_node_def)
  have reach: "cec_reach 2 (m_cec (client (sample_bus sample_got)), [])" using sample_got_reach node(4) by simp
  have user: "get_msg (user (client (sample_bus sample_got))) 1000 = (1800, 2)" using sample_user by (simp add: sample_bus_def)
  have env: "new_addr sample_env s = Some 700" "\<not> get_fault sample_env p k" "put_left sample_env p k = 0" for s p k
    by (simp_all add: sample_env_def)
  have msg: "load (bytes sample_got) 144 3 = [0x0F, 0x36, 0x07]" unfolding sample_got_bytes by (simp add: load_def store_def upt_rec)
  show ?thesis
    using cec_ioctl_receives [OF node(1-3) reach _ env(1) _ user env(2) env(3),
      where c = 100 and rs = "[]" and msg = "[0x0F, 0x36, 0x07]"
        and m = "\<lparr>cm_status = 0, cm_flags = 0, cm_head = 144, cm_data = 144, cm_tail = 147, cm_end = 208, cm_len = 3\<rparr>"] sample_got_state sample_got_queue sample_got_buf msg
    by (auto simp: node(4))
qed

end
