(* ===== verification/Scd_Atr.thy ===== *)
theory Scd_Atr
  imports Prelude
begin

text \<open>
  The answer-to-reset parser of the smart card driver (\<open>drivers/smartcard/core/scd_atr.c\<close>): the
  completeness test with its check byte, and the decomposition into interface and historical bytes,
  against the layout of an answer (initial character, format character, up to three groups of
  interface characters announced by bits 4 to 7 of the character before, historical characters, and a
  check character unless the protocol is 0 or 15). An access outside the 32-byte array is \<open>None\<close>.
\<close>

section \<open>Model\<close>

record scd_atr =
  atr_data :: "u8 list"
  atr_length :: u8

record scd_atr_info =
  ai_status :: u8
  ai_progress :: u8
  T1Len :: u8
  T2Len :: u8
  T3Len :: u8
  nHistoryBytes :: u8
  TS :: u8
  T0 :: u8
  T1 :: "u8 list"
  T2 :: "u8 list"
  T3 :: "u8 list"
  History :: "u8 list"
  TCK :: u8

abbreviation (input) MAX_ATR_SIZE :: nat where "MAX_ATR_SIZE \<equiv> 32"

definition init_atr :: "scd_atr \<Rightarrow> scd_atr" where
  "init_atr a = a\<lparr>atr_data := replicate MAX_ATR_SIZE 0, atr_length := 0\<rparr>"

definition atr_byte :: "scd_atr \<Rightarrow> nat \<Rightarrow> u8 option" where
  "atr_byte a i = (if i < length (atr_data a) then Some (atr_data a ! i) else None)"

text \<open>The exclusive or from \<open>T0\<close> to \<open>TCK\<close>.\<close>

fun atr_crc :: "scd_atr \<Rightarrow> nat \<Rightarrow> u8 \<Rightarrow> u8 option" where
  "atr_crc a 0 crc = Some crc"
| "atr_crc a (Suc n) crc =
     (case atr_byte a (unat (atr_length a) - Suc n) of
        None \<Rightarrow> None | Some b \<Rightarrow> atr_crc a n (crc XOR b))"

definition is_atr_crc_ok :: "scd_atr \<Rightarrow> bool option" where
  "is_atr_crc_ok a = map_option (\<lambda>crc. crc = 0) (atr_crc a (unat (atr_length a) - 1) 0)"

text \<open>How many interface characters a character announces.\<close>

definition iface_count :: "u8 \<Rightarrow> nat" where
  "iface_count b = unat (drop_bit 4 b AND 1) + unat (drop_bit 5 b AND 1) +
     unat (drop_bit 6 b AND 1) + unat (drop_bit 7 b AND 1)"

definition is_atr_complete :: "scd_atr \<Rightarrow> int option" where
  "is_atr_complete a =
     (let len = unat (atr_length a) in
      if len < 3 then Some 0
      else do {
        ts \<leftarrow> atr_byte a 0;
        if ts \<noteq> 0x3B \<and> ts \<noteq> 0x3F then Some 1
        else do {
          t0 \<leftarrow> atr_byte a 1;
          let nHistoryByte = unat (t0 AND 0xF);
          let t1Len = iface_count t0;
          if len < 2 + t1Len then Some 0
          else do {
            td1 \<leftarrow> (if t0 AND 0x80 \<noteq> 0 then atr_byte a (1 + t1Len) else Some 0);
            let t2Len = (if t0 AND 0x80 \<noteq> 0 then iface_count td1 else 0);
            let t = (if t0 AND 0x80 \<noteq> 0 then td1 AND 0xF else 0);
            if len < 2 + t1Len + t2Len then Some 0
            else do {
              td2 \<leftarrow> (if td1 AND 0x80 \<noteq> 0 then atr_byte a (1 + t1Len + t2Len) else Some 0);
              let t3Len = (if td1 AND 0x80 \<noteq> 0 then iface_count td2 else 0);
              if t = 0 \<or> t = 15 then
                (if len < 2 + t1Len + t2Len + t3Len + nHistoryByte then Some 0 else Some 1)
              else if len < 3 + t1Len + t2Len + t3Len + nHistoryByte then Some 0
              else do {
                ok \<leftarrow> is_atr_crc_ok a;
                Some (if ok then 1 else - 1)
              }
            }
          }
        }
      })"

text \<open>
  One of the three loops of \<open>decompress_atr\<close>: for \<open>i\<close> from 0 to 3, when the flag character announces
  it, take the next character into slot \<open>i\<close>; the result is the next index and the slots.
\<close>

function read_group :: "scd_atr \<Rightarrow> u8 \<Rightarrow> nat \<Rightarrow> nat \<Rightarrow> u8 list \<Rightarrow> (nat \<times> u8 list) option" where
  "read_group a flag i idx ts =
     (if i < 4 then
        if flag AND push_bit i 0x10 \<noteq> 0 then
          (case atr_byte a idx of None \<Rightarrow> None | Some b \<Rightarrow> read_group a flag (i + 1) (idx + 1) (ts[i := b]))
        else read_group a flag (i + 1) idx ts
      else Some (idx, ts))"
  by pat_completeness auto
termination
  by (relation "measure (\<lambda>(a, flag, i, idx, ts). 4 - i)") auto

declare read_group.simps [simp del]

text \<open>\<open>memset (p_info, 0, sizeof (p_info))\<close> clears as many bytes as a pointer has: the first four.\<close>

definition clear_info :: "scd_atr_info \<Rightarrow> scd_atr_info" where
  "clear_info p = p\<lparr>ai_status := 0, ai_progress := 0, T1Len := 0, T2Len := 0\<rparr>"

definition decompress_atr :: "scd_atr \<Rightarrow> scd_atr_info \<Rightarrow> (int \<times> scd_atr_info) option" where
  "decompress_atr a p = do {
     ret \<leftarrow> is_atr_complete a;
     if ret = 0 then Some (- 1, p)
     else do {
       let p = clear_info p;
       ts \<leftarrow> atr_byte a 0;
       let p = p\<lparr>TS := ts\<rparr>;
       t0 \<leftarrow> atr_byte a 1;
       let p = p\<lparr>T0 := t0\<rparr>;
       (idx, t1) \<leftarrow> read_group a (T0 p) 0 2 (T1 p);
       let p = p\<lparr>T1 := t1\<rparr>;
       (idx, t2) \<leftarrow> read_group a (T1 p ! 3) 0 idx (T2 p);
       let p = p\<lparr>T2 := t2\<rparr>;
       (idx, t3) \<leftarrow> read_group a (T2 p ! 3) 0 idx (T3 p);
       let p = p\<lparr>T3 := t3\<rparr>;
       let n = unat (T0 p AND 0xF);
       let rest = int (unat (atr_length a)) - int idx -
                    (if T1 p ! 3 AND 0xF = 0 \<or> T1 p ! 3 AND 0xF = 15 then 0 else 1);
       if rest \<noteq> int n then Some (- 1, p)
       else if idx + n > length (atr_data a) then None
       else do {
         let p = p\<lparr>History := take n (drop idx (atr_data a)) @ drop n (History p)\<rparr>;
         tck \<leftarrow> atr_byte a (unat (atr_length a) - 1);
         Some (0, p\<lparr>TCK := tck\<rparr>)
       }
     }
   }"

section \<open>The layout of an answer\<close>

text \<open>The interface characters of a group that a flag character announces.\<close>

definition present :: "u8 \<Rightarrow> u8 list \<Rightarrow> u8 list" where
  "present flag ts = map (\<lambda>i. ts ! i) (filter (\<lambda>i. bit flag (4 + i)) [0..<4])"

record atr_fields =
  f_ts :: u8
  f_t0 :: u8
  f_t1 :: "u8 list"
  f_t2 :: "u8 list"
  f_t3 :: "u8 list"
  f_hist :: "u8 list"
  f_tck :: u8

definition has_tck :: "atr_fields \<Rightarrow> bool" where
  "has_tck f \<longleftrightarrow> \<not> (f_t1 f ! 3 AND 0xF = 0 \<or> f_t1 f ! 3 AND 0xF = 15)"

definition atr_prefix :: "atr_fields \<Rightarrow> u8 list" where
  "atr_prefix f = [f_ts f, f_t0 f] @ present (f_t0 f) (f_t1 f) @ present (f_t1 f ! 3) (f_t2 f) @
     present (f_t2 f ! 3) (f_t3 f)"

definition atr_layout :: "atr_fields \<Rightarrow> u8 list" where
  "atr_layout f = atr_prefix f @ f_hist f @ (if has_tck f then [f_tck f] else [])"

text \<open>Characters that are not announced are zero; the check character makes the parity even.\<close>

definition absent_zero :: "u8 \<Rightarrow> u8 list \<Rightarrow> bool" where
  "absent_zero flag ts \<longleftrightarrow> length ts = 4 \<and> (\<forall>i < 4. \<not> bit flag (4 + i) \<longrightarrow> ts ! i = 0)"

definition atr_fields_ok :: "atr_fields \<Rightarrow> bool" where
  "atr_fields_ok f \<longleftrightarrow> (f_ts f = 0x3B \<or> f_ts f = 0x3F) \<and>
     absent_zero (f_t0 f) (f_t1 f) \<and> absent_zero (f_t1 f ! 3) (f_t2 f) \<and> absent_zero (f_t2 f ! 3) (f_t3 f) \<and>
     length (f_hist f) = unat (f_t0 f AND 0xF) \<and>
     3 \<le> length (atr_layout f) \<and>
     (has_tck f \<longrightarrow> fold (\<lambda>b crc. crc XOR b) (tl (atr_layout f)) 0 = 0)"

text \<open>An answer of which the first \<open>n\<close> characters have been received into the 32-byte array.\<close>

definition received :: "u8 list \<Rightarrow> nat \<Rightarrow> scd_atr" where
  "received bs n = \<lparr>atr_data = take n bs @ replicate (MAX_ATR_SIZE - n) 0, atr_length = of_nat n\<rparr>"

section \<open>Flags and groups\<close>

lemma flag_bit: "(b :: u8) AND push_bit i 0x10 \<noteq> 0 \<longleftrightarrow> bit b (4 + i)"
proof -
  have "push_bit i (0x10 :: u8) = push_bit (4 + i) 1" by (simp add: push_bit_eq_mult power_add mult.commute)
  then show ?thesis using bit_iff_and_push_bit_not_eq_0 [of b "4 + i"] by simp
qed

lemma flag_bit_7: "(b :: u8) AND 0x80 \<noteq> 0 \<longleftrightarrow> bit b 7"
  using flag_bit [of b 3] by (simp add: push_bit_eq_mult)

lemma drop_bit_and_1: "unat (drop_bit k b AND 1 :: u8) = of_bool (bit b k)"
  by (cases "bit b k") (simp_all add: bit_iff_and_drop_bit_eq_1 and_one_eq odd_iff_mod_2_eq_one)

lemma iface_count_bits: "iface_count b = of_bool (bit b 4) + of_bool (bit b 5) + of_bool (bit b 6) + of_bool (bit b 7)"
  by (simp add: iface_count_def drop_bit_and_1)

lemma upt_4: "[0..<4] = [0, 1, 2, 3 :: nat]"
  by (simp add: upt_rec)

lemma length_present [simp]: "length (present flag ts) = iface_count flag"
  by (simp add: present_def upt_4 iface_count_bits)

lemma iface_count_le: "iface_count b \<le> 4"
  by (simp add: iface_count_bits)

lemma read_group_rec:
  "read_group a flag i idx ts =
     (if i < 4 then
        if bit flag (4 + i) then
          (case atr_byte a idx of None \<Rightarrow> None | Some b \<Rightarrow> read_group a flag (i + 1) (idx + 1) (ts[i := b]))
        else read_group a flag (i + 1) idx ts
      else Some (idx, ts))"
  by (subst read_group.simps) (simp only: flag_bit)

text \<open>Reading a group from an array that holds its characters at the index.\<close>

lemma read_group_spec:
  assumes "atr_data a = pre @ present flag ts @ post" "length ts = 4" "length old = 4"
  shows "read_group a flag 0 (length pre) old =
    Some (length pre + iface_count flag, map (\<lambda>i. if bit flag (4 + i) then ts ! i else old ! i) [0..<4])"
proof -
  obtain x0 x1 x2 x3 where ts: "ts = [x0, x1, x2, x3]" using assms(2) by (auto simp: length_Suc_conv numeral_eq_Suc)
  obtain y0 y1 y2 y3 where old: "old = [y0, y1, y2, y3]" using assms(3) by (auto simp: length_Suc_conv numeral_eq_Suc)
  show ?thesis
    by (cases "bit flag 4"; cases "bit flag 5"; cases "bit flag 6"; cases "bit flag 7")
      (simp_all add: read_group_rec atr_byte_def assms(1) present_def upt_4 ts old iface_count_bits nth_append)
qed

lemma read_group_absent_zero:
  assumes "atr_data a = pre @ present flag ts @ post" "absent_zero flag ts"
  shows "read_group a flag 0 (length pre) (replicate 4 0) = Some (length pre + iface_count flag, ts)"
proof -
  have l: "length ts = 4" using assms(2) by (simp add: absent_zero_def)
  have "map (\<lambda>i. if bit flag (4 + i) then ts ! i else replicate 4 0 ! i) [0..<4] = ts"
    using assms(2) by (intro nth_equalityI) (auto simp: absent_zero_def)
  then show ?thesis using read_group_spec [OF assms(1) l, of "replicate 4 0"] by simp
qed

text \<open>The last character of a group, when announced, is the flag character of the next one.\<close>

lemma present_last:
  assumes "bit flag 7" "length ts = 4"
  shows "0 < iface_count flag" "present flag ts ! (iface_count flag - 1) = ts ! 3"
proof -
  show p: "0 < iface_count flag" using assms(1) by (simp add: iface_count_bits)
  have "present flag ts = map (\<lambda>i. ts ! i) (filter (\<lambda>i. bit flag (4 + i)) [0, 1, 2]) @ [ts ! 3]"
    using assms(1) by (simp add: present_def upt_4)
  then show "present flag ts ! (iface_count flag - 1) = ts ! 3"
    using length_present [of flag ts] p by (metis diff_Suc_1 length_append_singleton nth_append_length)
qed

section \<open>Completeness\<close>

lemma atr_crc_fold:
  "n \<le> unat (atr_length a) \<Longrightarrow> unat (atr_length a) \<le> length (atr_data a) \<Longrightarrow>
   atr_crc a n crc =
     Some (fold (\<lambda>b crc. crc XOR b) (take n (drop (unat (atr_length a) - n) (atr_data a))) crc)"
proof (induction n arbitrary: crc)
  case (Suc n)
  let ?k = "unat (atr_length a) - Suc n"
  have lt: "?k < length (atr_data a)" using Suc.prems by simp
  have k: "Suc ?k = unat (atr_length a) - n" using Suc.prems by simp
  have "drop ?k (atr_data a) = atr_data a ! ?k # drop (unat (atr_length a) - n) (atr_data a)"
    using Cons_nth_drop_Suc [OF lt] k by simp
  then show ?case using Suc lt by (simp add: atr_byte_def)
qed simp

lemma received_facts:
  assumes "n \<le> length bs" "length bs \<le> 32"
  shows "unat (atr_length (received bs n)) = n" "length (atr_data (received bs n)) = 32"
    "i < n \<Longrightarrow> atr_byte (received bs n) i = Some (bs ! i)"
  using assms by (auto simp: received_def unat_of_nat atr_byte_def nth_append)

text \<open>The four checkpoints of the test, read off the layout.\<close>

lemma atr_layout_bytes:
  assumes "atr_fields_ok f"
  defines "c1 \<equiv> iface_count (f_t0 f)" and "c2 \<equiv> iface_count (f_t1 f ! 3)" and "c3 \<equiv> iface_count (f_t2 f ! 3)"
  shows "atr_layout f ! 0 = f_ts f" "atr_layout f ! 1 = f_t0 f"
    "bit (f_t0 f) 7 \<Longrightarrow> atr_layout f ! (1 + c1) = f_t1 f ! 3"
    "bit (f_t1 f ! 3) 7 \<Longrightarrow> atr_layout f ! (1 + c1 + c2) = f_t2 f ! 3"
    "\<not> bit (f_t0 f) 7 \<Longrightarrow> f_t1 f ! 3 = 0" "\<not> bit (f_t1 f ! 3) 7 \<Longrightarrow> f_t2 f ! 3 = 0"
    "length (atr_layout f) = 2 + c1 + c2 + c3 + unat (f_t0 f AND 0xF) + (if has_tck f then 1 else 0)"
proof -
  have l: "length (f_t1 f) = 4" "length (f_t2 f) = 4" using assms(1) by (auto simp: atr_fields_ok_def absent_zero_def)
  show "atr_layout f ! 0 = f_ts f" "atr_layout f ! 1 = f_t0 f" by (simp_all add: atr_layout_def atr_prefix_def)
  show "\<not> bit (f_t0 f) 7 \<Longrightarrow> f_t1 f ! 3 = 0" "\<not> bit (f_t1 f ! 3) 7 \<Longrightarrow> f_t2 f ! 3 = 0"
    using assms(1) by (auto simp: atr_fields_ok_def absent_zero_def)
  show "length (atr_layout f) = 2 + c1 + c2 + c3 + unat (f_t0 f AND 0xF) + (if has_tck f then 1 else 0)"
    using assms(1) by (simp add: atr_layout_def atr_prefix_def atr_fields_ok_def c1_def c2_def c3_def)
  have s: "atr_layout f = [f_ts f, f_t0 f] @ present (f_t0 f) (f_t1 f) @ present (f_t1 f ! 3) (f_t2 f) @
      (present (f_t2 f ! 3) (f_t3 f) @ f_hist f @ (if has_tck f then [f_tck f] else []))"
    by (simp add: atr_layout_def atr_prefix_def)
  show "atr_layout f ! (1 + c1) = f_t1 f ! 3" if "bit (f_t0 f) 7"
    using present_last [OF that l(1)] unfolding s c1_def by (simp add: nth_append nth_Cons')
  show "atr_layout f ! (1 + c1 + c2) = f_t2 f ! 3" if b7: "bit (f_t1 f ! 3) 7"
  proof -
    obtain k where k: "c2 = Suc k" using present_last(1) [OF b7 l(2)] by (auto simp: c2_def gr0_conv_Suc)
    then show ?thesis using present_last(2) [OF b7 l(2)] unfolding s c1_def c2_def
      by (simp add: nth_append nth_Cons')
  qed
qed

text \<open>What the test returns on the first \<open>n\<close> characters of a well-formed answer.\<close>

lemma is_atr_complete_prefix:
  assumes ok: "atr_fields_ok f" and n: "n \<le> length (atr_layout f)" and sz: "length (atr_layout f) \<le> 32"
  shows "is_atr_complete (received (atr_layout f) n) = Some (if n = length (atr_layout f) then 1 else 0)"
proof (cases "n < 3")
  case True
  then have "n \<noteq> length (atr_layout f)" using ok by (simp add: atr_fields_ok_def)
  then show ?thesis using True received_facts(1) [OF n sz] by (simp add: is_atr_complete_def)
next
  case False
  let ?a = "received (atr_layout f) n"
  define c1 c2 c3 where "c1 = iface_count (f_t0 f)" and "c2 = iface_count (f_t1 f ! 3)" and "c3 = iface_count (f_t2 f ! 3)"
  note r = received_facts [OF n sz]
  note lb = atr_layout_bytes [OF ok, folded c1_def c2_def c3_def]
  have b0: "atr_byte ?a 0 = Some (f_ts f)" "atr_byte ?a 1 = Some (f_t0 f)" using r(3) False lb(1,2) by simp_all
  have ts: "\<not> (f_ts f \<noteq> 0x3B \<and> f_ts f \<noteq> 0x3F)" using ok by (auto simp: atr_fields_ok_def)
  have z: "iface_count 0 = 0" by (simp add: iface_count_bits)
  have td1: "atr_byte ?a (Suc c1) = Some (f_t1 f ! 3)" if "f_t0 f AND 0x80 \<noteq> 0" "2 + c1 \<le> n"
    using r(3) [of "1 + c1"] lb(3) that unfolding flag_bit_7 by simp
  have td2: "atr_byte ?a (Suc (c1 + c2)) = Some (f_t2 f ! 3)" if "f_t1 f ! 3 AND 0x80 \<noteq> 0" "2 + c1 + c2 \<le> n"
    using r(3) [of "1 + c1 + c2"] lb(4) that unfolding flag_bit_7 by simp
  have no1: "f_t1 f ! 3 = 0 \<and> c2 = 0" if "f_t0 f AND 0x80 = 0"
    using lb(5) that flag_bit_7 [of "f_t0 f"] z by (simp add: c2_def)
  have no2: "f_t2 f ! 3 = 0 \<and> c3 = 0" if "f_t1 f ! 3 AND 0x80 = 0"
    using lb(6) that flag_bit_7 [of "f_t1 f ! 3"] z by (simp add: c3_def)
  have crc: "is_atr_crc_ok ?a = Some True" if "has_tck f" "n = length (atr_layout f)"
  proof -
    have "drop (Suc 0) (atr_layout f) = tl (atr_layout f)" by (simp add: drop_Suc)
    moreover have "take (n - 1) (drop 1 (atr_data ?a)) = tl (atr_layout f)"
      using that(2) False by (simp add: received_def drop_Suc tl_append split: list.splits)
    ultimately show ?thesis
      using atr_crc_fold [of "n - 1" ?a 0] r(1,2) n sz False ok that
      by (simp add: is_atr_crc_ok_def atr_fields_ok_def)
  qed
  have c: "iface_count (f_t0 f) = c1" "iface_count (f_t1 f ! 3) = c2" "iface_count (f_t2 f ! 3) = c3"
    by (simp_all add: c1_def c2_def c3_def)
  have h: "has_tck f \<longleftrightarrow> \<not> (f_t1 f ! 3 AND 0xF = 0 \<or> f_t1 f ! 3 AND 0xF = 15)" by (simp add: has_tck_def)
  have start: "is_atr_complete ?a = (if n < 2 + c1 then Some 0 else
      do {
        td1 \<leftarrow> (if f_t0 f AND 0x80 \<noteq> 0 then atr_byte ?a (1 + c1) else Some 0);
        let t2Len = (if f_t0 f AND 0x80 \<noteq> 0 then iface_count td1 else 0);
        let t = (if f_t0 f AND 0x80 \<noteq> 0 then td1 AND 0xF else 0);
        if n < 2 + c1 + t2Len then Some 0
        else do {
          td2 \<leftarrow> (if td1 AND 0x80 \<noteq> 0 then atr_byte ?a (1 + c1 + t2Len) else Some 0);
          let t3Len = (if td1 AND 0x80 \<noteq> 0 then iface_count td2 else 0);
          if t = 0 \<or> t = 15 then (if n < 2 + c1 + t2Len + t3Len + unat (f_t0 f AND 0xF) then Some 0 else Some 1)
          else if n < 3 + c1 + t2Len + t3Len + unat (f_t0 f AND 0xF) then Some 0
          else do { ok \<leftarrow> is_atr_crc_ok ?a; Some (if ok then 1 else - 1) }
        }
      })"
    using False ts by (simp only: is_atr_complete_def Let_def r(1) b0 c bind.bind_lunit if_False)
  show ?thesis
  proof (cases "n < 2 + c1")
    case True
    then show ?thesis using start lb(7) by simp
  next
    case n1: False
    have d1: "(if f_t0 f AND 0x80 \<noteq> 0 then atr_byte ?a (1 + c1) else Some 0) = Some (f_t1 f ! 3)"
      "(if f_t0 f AND 0x80 \<noteq> 0 then iface_count (f_t1 f ! 3) else 0) = c2"
      "(if f_t0 f AND 0x80 \<noteq> 0 then f_t1 f ! 3 AND 0xF else 0) = f_t1 f ! 3 AND 0xF"
      using td1 no1 n1 c(2) by auto
    show ?thesis
    proof (cases "n < 2 + c1 + c2")
      case True
      then show ?thesis
        using n1 lb(7) by (simp only: start d1 bind.bind_lunit Let_def if_True if_False) simp
    next
      case n2: False
      have d2: "(if f_t1 f ! 3 AND 0x80 \<noteq> 0 then atr_byte ?a (1 + c1 + c2) else Some 0) = Some (f_t2 f ! 3)"
        "(if f_t1 f ! 3 AND 0x80 \<noteq> 0 then iface_count (f_t2 f ! 3) else 0) = c3"
        using td2 no2 n2 c(3) by auto
      show ?thesis
        using n1 n2 lb(7) n crc h
        by (simp only: start d1 d2 bind.bind_lunit Let_def if_True if_False) auto
    qed
  qed
qed

text \<open>
  C29: While an answer with a valid initial character is being received, the test reports it as
  incomplete on every proper prefix and as complete, with its check character verified, exactly when
  the last character has arrived.
\<close>

theorem atr_complete_exactly:
  assumes "atr_fields_ok f" "n \<le> length (atr_layout f)" "length (atr_layout f) \<le> 32"
  shows "is_atr_complete (received (atr_layout f) n) = Some (if n = length (atr_layout f) then 1 else 0)"
  using is_atr_complete_prefix [OF assms] .

text \<open>A T=1 card: \<open>TA1\<close> and \<open>TD1\<close>, one character of the second group, two historical characters.\<close>

definition sample_atr :: atr_fields where
  "sample_atr = \<lparr>f_ts = 0x3B, f_t0 = 0x92, f_t1 = [0x11, 0, 0, 0x11], f_t2 = [0xFE, 0, 0, 0], f_t3 = [0, 0, 0, 0],
     f_hist = [0x41, 0x42], f_tck = 0x6F\<rparr>"

lemma sample_atr_layout: "atr_layout sample_atr = [0x3B, 0x92, 0x11, 0x11, 0xFE, 0x41, 0x42, 0x6F]" "has_tck sample_atr"
  by code_simp+

lemma sample_atr_length: "length (atr_layout sample_atr) = 8"
  by (simp add: sample_atr_layout)

lemma all_less_4: "(\<forall>i < (4::nat). P i) \<longleftrightarrow> P 0 \<and> P 1 \<and> P 2 \<and> P 3"
  by (auto simp: less_Suc_eq numeral_eq_Suc)

lemma sample_atr_ok: "atr_fields_ok sample_atr"
  unfolding atr_fields_ok_def absent_zero_def all_less_4 sample_atr_layout by code_simp

theorem atr_complete_exactly_witness:
  "is_atr_complete (received [0x3B, 0x92, 0x11, 0x11, 0xFE, 0x41, 0x42, 0x6F] 8) = Some 1 \<and>
   is_atr_complete (received [0x3B, 0x92, 0x11, 0x11, 0xFE, 0x41, 0x42, 0x6F] 7) = Some 0"
  using atr_complete_exactly [OF sample_atr_ok, of 8] atr_complete_exactly [OF sample_atr_ok, of 7]
  by (simp add: sample_atr_layout)

section \<open>Decomposition\<close>

lemma received_layout:
  "atr_data (received (atr_layout f) (length (atr_layout f))) =
    [f_ts f, f_t0 f] @ present (f_t0 f) (f_t1 f) @ present (f_t1 f ! 3) (f_t2 f) @ present (f_t2 f ! 3) (f_t3 f) @
    f_hist f @ (if has_tck f then [f_tck f] else []) @ replicate (32 - length (atr_layout f)) 0"
  by (simp add: received_def atr_layout_def atr_prefix_def)

lemma decompress_layout:
  assumes "atr_fields_ok f" "length (atr_layout f) \<le> 32"
    "T1 p = replicate 4 0" "T2 p = replicate 4 0" "T3 p = replicate 4 0"
  shows "decompress_atr (received (atr_layout f) (length (atr_layout f))) p =
    Some (0, (clear_info p)\<lparr>TS := f_ts f, T0 := f_t0 f, T1 := f_t1 f, T2 := f_t2 f, T3 := f_t3 f,
      History := f_hist f @ drop (length (f_hist f)) (History p), TCK := last (atr_layout f)\<rparr>)"
proof -
  let ?l = "length (atr_layout f)" and ?a = "received (atr_layout f) (length (atr_layout f))"
  note r = received_facts [OF order_refl assms(2)]
  note lb = atr_layout_bytes [OF assms(1)]
  have l3: "3 \<le> ?l" and hist: "length (f_hist f) = unat (f_t0 f AND 0xF)"
    and az: "absent_zero (f_t0 f) (f_t1 f)" "absent_zero (f_t1 f ! 3) (f_t2 f)" "absent_zero (f_t2 f ! 3) (f_t3 f)"
    using assms(1) by (auto simp: atr_fields_ok_def)
  have comp: "is_atr_complete ?a = Some 1" using is_atr_complete_prefix [OF assms(1) order_refl assms(2)] by simp
  have "0 < ?l" "1 < ?l" using l3 by linarith+
  then have b: "atr_byte ?a 0 = Some (f_ts f)" "atr_byte ?a 1 = Some (f_t0 f)" using r(3) lb(1,2) by metis+
  let ?post = "f_hist f @ (if has_tck f then [f_tck f] else []) @ replicate (32 - ?l) 0"
  let ?p1 = "present (f_t0 f) (f_t1 f)" and ?p2 = "present (f_t1 f ! 3) (f_t2 f)" and ?p3 = "present (f_t2 f ! 3) (f_t3 f)"
  define idx where "idx = 2 + iface_count (f_t0 f) + iface_count (f_t1 f ! 3) + iface_count (f_t2 f ! 3)"
  have d: "atr_data ?a = [f_ts f, f_t0 f] @ ?p1 @ ?p2 @ ?p3 @ ?post"
    by (rule received_layout)
  have g1: "read_group ?a (f_t0 f) 0 2 (replicate 4 0) = Some (2 + iface_count (f_t0 f), f_t1 f)"
    using read_group_absent_zero [of ?a "[f_ts f, f_t0 f]" _ _ "?p2 @ ?p3 @ ?post", OF _ az(1)] d by (simp add: numeral_2_eq_2)
  have g2: "read_group ?a (f_t1 f ! 3) 0 (2 + iface_count (f_t0 f)) (replicate 4 0) =
      Some (2 + iface_count (f_t0 f) + iface_count (f_t1 f ! 3), f_t2 f)"
    using read_group_absent_zero [of ?a "[f_ts f, f_t0 f] @ ?p1" _ _ "?p3 @ ?post", OF _ az(2)] d by (simp add: numeral_2_eq_2)
  have g3: "read_group ?a (f_t2 f ! 3) 0 (2 + iface_count (f_t0 f) + iface_count (f_t1 f ! 3)) (replicate 4 0) = Some (idx, f_t3 f)"
    using read_group_absent_zero [of ?a "[f_ts f, f_t0 f] @ ?p1 @ ?p2" _ _ "?post", OF _ az(3)] d by (simp add: idx_def numeral_2_eq_2)
  have rest: "int ?l - int idx - (if f_t1 f ! 3 AND 0xF = 0 \<or> f_t1 f ! 3 AND 0xF = 15 then 0 else 1) = int (unat (f_t0 f AND 0xF))"
    using lb(7) by (auto simp: idx_def has_tck_def)
  have hs: "take (unat (f_t0 f AND 0xF)) (drop idx (atr_data ?a)) = f_hist f"
    using hist by (simp add: d idx_def)
  have room: "\<not> idx + unat (f_t0 f AND 0xF) > length (atr_data ?a)" using lb(7) assms(2) r(2) by (simp add: idx_def)
  have tck: "atr_byte ?a (?l - 1) = Some (last (atr_layout f))"
    using r(3) [of "?l - 1"] l3 by (cases "atr_layout f" rule: rev_cases) auto
  show ?thesis
    by (simp only: decompress_atr_def comp bind.bind_lunit Let_def b r(1))
      (simp add: clear_info_def assms(3-5) g1 [simplified] g2 [simplified] g3 [simplified] rest [simplified] hs tck [simplified] room [simplified] hist)
qed



text \<open>Whatever the slots held, a group of at most four characters is read when the array has them.\<close>

lemma read_group_total:
  assumes "idx + 4 \<le> length (atr_data a) + i" "i \<le> 4"
  shows "\<exists>idx' ts'. read_group a flag i idx ts = Some (idx', ts') \<and> idx \<le> idx' \<and> idx' + i \<le> idx + 4 \<and>
    length ts' = length ts"
  using assms
proof (induction a flag i idx ts rule: read_group.induct)
  case (1 a flag i idx ts)
  show ?case
  proof (cases "i < 4 \<and> flag AND push_bit i 0x10 \<noteq> 0")
    case True
    then have b: "atr_byte a idx = Some (atr_data a ! idx)" using 1(3) by (simp add: atr_byte_def)
    from True 1(1) [OF _ _ b] 1(3) show ?thesis
      by (subst read_group.simps) (auto simp: b)
  next
    case False
    then show ?thesis using 1(2,3,4) by (subst read_group.simps) (auto simp: not_less)
  qed
qed

text \<open>
  The information block is cleared only in its first four bytes. When it still holds the \<open>TD1\<close> of
  an earlier card with a protocol other than 0 and 15, a well-formed answer without \<open>TD1\<close> and with
  historical characters, which decomposes from a zeroed block, is rejected.
\<close>

theorem atr_stale_info_rejects:
  assumes "atr_fields_ok f" "length (atr_layout f) \<le> 32" "\<not> bit (f_t0 f) 7" "f_hist f \<noteq> []"
    "length (T1 p) = 4" "T1 p ! 3 AND 0xF \<noteq> 0" "T1 p ! 3 AND 0xF \<noteq> 15"
  shows "\<exists>q. decompress_atr (received (atr_layout f) (length (atr_layout f))) p = Some (- 1, q)"
proof -
  let ?l = "length (atr_layout f)" and ?a = "received (atr_layout f) (length (atr_layout f))"
  note r = received_facts [OF order_refl assms(2)]
  note lb = atr_layout_bytes [OF assms(1)]
  have l3: "3 \<le> ?l" and hist: "length (f_hist f) = unat (f_t0 f AND 0xF)" and l4: "length (f_t1 f) = 4"
    using assms(1) by (auto simp: atr_fields_ok_def absent_zero_def)
  have comp: "is_atr_complete ?a = Some 1" using is_atr_complete_prefix [OF assms(1) order_refl assms(2)] by simp
  have "0 < ?l" "1 < ?l" using l3 by linarith+
  then have b: "atr_byte ?a 0 = Some (f_ts f)" "atr_byte ?a 1 = Some (f_t0 f)" using r(3) lb(1,2) by metis+
  define t1 where "t1 = map (\<lambda>i. if bit (f_t0 f) (4 + i) then f_t1 f ! i else T1 p ! i) [0..<4]"
  define c1 where "c1 = iface_count (f_t0 f)"
  have g1: "read_group ?a (f_t0 f) 0 2 (T1 p) = Some (2 + c1, t1)"
    using read_group_spec [of ?a "[f_ts f, f_t0 f]" "f_t0 f" "f_t1 f", OF _ l4 assms(5)] received_layout [of f]
    by (simp add: t1_def c1_def numeral_2_eq_2)
  have t13: "t1 ! 3 = T1 p ! 3" using assms(3) by (simp add: t1_def)
  have c4: "c1 \<le> 4" by (simp add: c1_def iface_count_le)
  obtain i2 t2 where g2: "read_group ?a (T1 p ! 3) 0 (2 + c1) (T2 p) = Some (i2, t2)" and i2: "2 + c1 \<le> i2" "i2 \<le> 2 + c1 + 4"
    using read_group_total [of "2 + c1" ?a 0 "T1 p ! 3" "T2 p"] r(2) c4 by auto
  obtain i3 t3 where g3: "read_group ?a (t2 ! 3) 0 i2 (T3 p) = Some (i3, t3)" and i3: "i2 \<le> i3"
    using read_group_total [of i2 ?a 0 "t2 ! 3" "T3 p"] r(2) c4 i2 by auto
  have z: "f_t1 f ! 3 = 0" "f_t2 f ! 3 = 0" using lb(5,6) assms(3) by auto
  have "?l = 2 + c1 + length (f_hist f)"
    using lb(7) hist z by (simp add: c1_def has_tck_def iface_count_bits)
  then have rest: "int ?l - int i3 - 1 \<noteq> int (unat (f_t0 f AND 0xF))" using i2 i3 hist assms(4) by simp
  show ?thesis
    using rest assms(6,7)
    by (simp only: decompress_atr_def comp bind.bind_lunit Let_def b r(1))
      (simp add: clear_info_def g1 [simplified] t13 g2 [simplified] g3 [simplified])
qed

theorem atr_stale_info_rejects_witness:
  "\<exists>q. decompress_atr (received [0x3B, 0x02, 0x14, 0x50] 4)
     \<lparr>ai_status = 0, ai_progress = 0, T1Len = 0, T2Len = 0, T3Len = 0, nHistoryBytes = 0, TS = 0x3B, T0 = 0x92,
      T1 = [0x11, 0, 0, 0x11], T2 = [0xFE, 0, 0, 0], T3 = replicate 4 0, History = replicate 16 0, TCK = 0\<rparr> = Some (- 1, q)"
proof -
  let ?f = "\<lparr>f_ts = 0x3B, f_t0 = 0x02, f_t1 = [0, 0, 0, 0], f_t2 = [0, 0, 0, 0], f_t3 = [0, 0, 0, 0],
     f_hist = [0x14, 0x50], f_tck = 0\<rparr>"
  have l: "atr_layout ?f = [0x3B, 0x02, 0x14, 0x50]" "\<not> has_tck ?f" by code_simp+
  have l4: "length (atr_layout ?f) = 4" by (simp add: l)
  have "atr_fields_ok ?f" unfolding atr_fields_ok_def absent_zero_def all_less_4 l by code_simp
  moreover have "\<not> bit (f_t0 ?f) 7" by simp
  ultimately show ?thesis
    using atr_stale_info_rejects [of ?f "\<lparr>ai_status = 0, ai_progress = 0, T1Len = 0, T2Len = 0, T3Len = 0, nHistoryBytes = 0,
      TS = 0x3B, T0 = 0x92, T1 = [0x11, 0, 0, 0x11], T2 = [0xFE, 0, 0, 0], T3 = replicate 4 0, History = replicate 16 0, TCK = 0\<rparr>",
      unfolded l4, unfolded l(1)]
    by simp
qed

end
