(* ===== verification/Scd_Mars.thy ===== *)
theory Scd_Mars
  imports Scd_Atr Msg_Buffers
begin

text \<open>
  The smart card interface of the SoC (\<open>drivers/smartcard/adapter/scd_mars_priv.c\<close>): the card state
  machine with its timer-driven handler, activation and reset, configuration, and transfers. The state
  is the driver's structure, the registers of the channel and the clock tick counter. Status bits,
  received bytes and the passing of time are inputs: what happens while \<open>mars_scd_reset\<close> sleeps
  is its parameter \<open>env\<close>. Writes to the interrupt status registers are recorded. \<open>None\<close> is an access outside an
  array, a null pointer or a division by zero. \<open>HZ\<close> is 100.
\<close>

text \<open>
  Ticks are natural numbers (no wrap of the 32-bit counter), and the status register does not change
  within one run of the handler. \<open>mars_scd_open\<close> returns \<open>None\<close> for the null pointer.
\<close>

section \<open>Registers\<close>

abbreviation (input) SC_RCV_INT :: u32 where "SC_RCV_INT \<equiv> 0x00000002"
abbreviation (input) SC_ATRS_INT :: u32 where "SC_ATRS_INT \<equiv> 0x00000080"
abbreviation (input) SC_RXP_INT :: u32 where "SC_RXP_INT \<equiv> 0x00000100"
abbreviation (input) SC_RX_FOVER_INT :: u32 where "SC_RX_FOVER_INT \<equiv> 0x00000200"
abbreviation (input) SC_CPRES_INT :: u32 where "SC_CPRES_INT \<equiv> 0x00008000"
abbreviation (input) SC_PRES :: u32 where "SC_PRES \<equiv> 0x00010000"
abbreviation (input) SYSTEM_CLK :: nat where "SYSTEM_CLK \<equiv> 27000000"
abbreviation (input) HZ :: nat where "HZ \<equiv> 100"

definition SC_FIFO_RST :: "u32 \<Rightarrow> u32" where "SC_FIFO_RST x = push_bit 31 (x AND 1)"
definition SC_RST :: "u32 \<Rightarrow> u32" where "SC_RST x = push_bit 30 (x AND 1)"
definition SC_SCEN :: "u32 \<Rightarrow> u32" where "SC_SCEN x = push_bit 29 (x AND 1)"
definition SC_TX_GO :: "u32 \<Rightarrow> u32" where "SC_TX_GO x = push_bit 28 (x AND 1)"
definition SC_AUTO_ATR :: "u32 \<Rightarrow> u32" where "SC_AUTO_ATR x = push_bit 27 (x AND 1)"
definition SC_CONV :: "u32 \<Rightarrow> u32" where "SC_CONV x = push_bit 26 (x AND 1)"
definition SC_PS :: "u32 \<Rightarrow> u32" where "SC_PS x = push_bit 24 (x AND 1)"
definition SC_CLK_EN :: "u32 \<Rightarrow> u32" where "SC_CLK_EN x = push_bit 24 (x AND 1)"
definition SC_CLKDIV :: "u32 \<Rightarrow> u32" where "SC_CLKDIV x = push_bit 18 (x AND 0x3F)"
definition SC_BAUDDIV2 :: "u32 \<Rightarrow> u32" where "SC_BAUDDIV2 x = push_bit 16 (x AND 3)"
definition SC_BAUDDIV1 :: "u32 \<Rightarrow> u32" where "SC_BAUDDIV1 x = push_bit 8 (x AND 0xFF)"
definition SC_PRE_CLKDIV :: "u32 \<Rightarrow> u32" where "SC_PRE_CLKDIV x = x AND 0xFF"
definition SC_BGT :: "u32 \<Rightarrow> u32" where "SC_BGT x = push_bit 7 (x AND 0x1F)"

record sc_regs =
  PIN_MUX :: u32
  SCFP :: u32
  SCCR :: u32
  SCPCR :: u32
  SCIRSR :: u32
  SCIRER :: u32
  MIS_ISR :: u32
  RXFIFO :: "u8 list"
  TXFIFO :: "u8 list"
  SCIRSR_writes :: "u32 list"
  MIS_ISR_writes :: "u32 list"

section \<open>The device\<close>

datatype IFD_FSM = IFD_FSM_UNKNOWN | IFD_FSM_DISABLE | IFD_FSM_IDEL | IFD_FSM_RESET | IFD_FSM_ACTIVE

record mars_scd =
  sc_id :: nat
  fsm :: IFD_FSM
  clock_div :: u8
  pre_clock_div :: u8
  baud_div1 :: u32
  baud_div2 :: u32
  parity :: u8
  atr :: scd_atr
  atr_info :: scd_atr_info
  atr_timeout :: nat
  card_detect_completion :: nat
  timer_expires :: "nat option"

record scd_sys =
  scd :: mars_scd
  regs :: sc_regs
  jiffies :: nat

definition SET_SCIRSR :: "u32 \<Rightarrow> scd_sys \<Rightarrow> scd_sys" where
  "SET_SCIRSR v s = s\<lparr>regs := (regs s)\<lparr>SCIRSR_writes := SCIRSR_writes (regs s) @ [v]\<rparr>\<rparr>"

definition SET_SCCR :: "u32 \<Rightarrow> scd_sys \<Rightarrow> scd_sys" where
  "SET_SCCR v s = s\<lparr>regs := (regs s)\<lparr>SCCR := v\<rparr>\<rparr>"

definition SET_SCIRER :: "u32 \<Rightarrow> scd_sys \<Rightarrow> scd_sys" where
  "SET_SCIRER v s = s\<lparr>regs := (regs s)\<lparr>SCIRER := v\<rparr>\<rparr>"

definition SET_SCFP :: "u32 \<Rightarrow> scd_sys \<Rightarrow> scd_sys" where
  "SET_SCFP v s = s\<lparr>regs := (regs s)\<lparr>SCFP := v\<rparr>\<rparr>"

definition mars_scd_card_detect :: "scd_sys \<Rightarrow> bool" where
  "mars_scd_card_detect s \<longleftrightarrow> SCIRSR (regs s) AND SC_PRES \<noteq> 0"

section \<open>The state machine\<close>

definition clear_atr_length :: "scd_sys \<Rightarrow> scd_sys" where
  "clear_atr_length s = s\<lparr>scd := (scd s)\<lparr>atr := (atr (scd s))\<lparr>atr_length := 0\<rparr>\<rparr>\<rparr>"

definition set_fsm :: "IFD_FSM \<Rightarrow> scd_sys \<Rightarrow> scd_sys" where
  "set_fsm f s = s\<lparr>scd := (scd s)\<lparr>fsm := f\<rparr>\<rparr>"

text \<open>The branch for the idle state, which the reset branch calls when there is no card.\<close>

definition mars_scd_set_idle :: "scd_sys \<Rightarrow> scd_sys" where
  "mars_scd_set_idle s =
     (if fsm (scd s) = IFD_FSM_IDEL then s
      else
        let s = SET_SCCR (SC_FIFO_RST 0 OR SC_SCEN 1 OR SC_AUTO_ATR 1 OR SC_CONV 0 OR SC_PS (ucast (parity (scd s)))) s;
            s = SET_SCIRER SC_CPRES_INT s;
            s = SET_SCIRSR 0xFFFFFFFF s
        in set_fsm IFD_FSM_IDEL (clear_atr_length s))"

definition mars_scd_set_state :: "IFD_FSM \<Rightarrow> scd_sys \<Rightarrow> int \<times> scd_sys" where
  "mars_scd_set_state f s =
     (if fsm (scd s) = f then (0, s)
      else case f of
        IFD_FSM_DISABLE \<Rightarrow>
          let s = SET_SCCR (SC_FIFO_RST 1 OR SC_SCEN 0 OR SC_AUTO_ATR 1 OR SC_CONV 0 OR SC_PS (ucast (parity (scd s)))) s;
              s = SET_SCIRER 0 s;
              s = SET_SCIRSR 0xFFFFFFFF s
          in (0, set_fsm f (clear_atr_length s))
      | IFD_FSM_IDEL \<Rightarrow> (0, mars_scd_set_idle s)
      | IFD_FSM_RESET \<Rightarrow>
          let s = clear_atr_length s in
          if \<not> mars_scd_card_detect s then (- 1, mars_scd_set_idle s)
          else
            let s = SET_SCIRER (SC_CPRES_INT OR SC_ATRS_INT OR SC_RXP_INT OR SC_RX_FOVER_INT) s;
                s = SET_SCCR (SC_FIFO_RST 1 OR SC_RST 1 OR SC_SCEN 1 OR SC_AUTO_ATR 1 OR SC_CONV 0 OR
                      SC_PS (ucast (parity (scd s)))) s;
                s = s\<lparr>scd := (scd s)\<lparr>atr_timeout := jiffies s + HZ\<rparr>\<rparr>
            in (0, set_fsm f s)
      | _ \<Rightarrow> (0, set_fsm f s))"

text \<open>The receive loop of the reset state; \<open>False\<close> when the answer is longer than its buffer.\<close>

fun rx_atr :: "u8 list \<Rightarrow> scd_atr \<Rightarrow> bool \<times> u8 list \<times> scd_atr" where
  "rx_atr [] a = (True, [], a)"
| "rx_atr (b # bs) a =
     (if unat (atr_length a) \<ge> MAX_ATR_SIZE then (False, b # bs, a)
      else rx_atr bs (a\<lparr>atr_data := (atr_data a)[unat (atr_length a) := b], atr_length := atr_length a + 1\<rparr>))"

definition mars_scd_fsm_reset :: "scd_sys \<Rightarrow> scd_sys option" where
  "mars_scd_fsm_reset s =
     (let event = SCIRSR (regs s); d = scd s in
      if event AND SC_RXP_INT \<noteq> 0 \<or> event AND SC_PRES = 0 \<or> jiffies s > atr_timeout d
      then Some (SET_SCIRSR event (mars_scd_set_idle s))
      else if event AND SC_RCV_INT \<noteq> 0 then
        if atr_length (atr d) = 0 \<and> event AND SC_ATRS_INT = 0
        then Some (SET_SCIRSR event (s\<lparr>regs := (regs s)\<lparr>RXFIFO := []\<rparr>\<rparr>))
        else
          let (ok, rest, a) = rx_atr (RXFIFO (regs s)) (atr d);
              s = s\<lparr>regs := (regs s)\<lparr>RXFIFO := rest\<rparr>, scd := d\<lparr>atr := a\<rparr>\<rparr>
          in if \<not> ok then Some (SET_SCIRSR event (mars_scd_set_idle s))
             else do {
               c \<leftarrow> is_atr_complete a;
               if c \<noteq> 0 then do {
                 (r, info) \<leftarrow> decompress_atr a (atr_info d);
                 let s = s\<lparr>scd := (scd s)\<lparr>atr_info := info\<rparr>\<rparr>;
                 if r < 0 then Some (SET_SCIRSR event (mars_scd_set_idle s))
                 else Some (SET_SCIRSR event (snd (mars_scd_set_state IFD_FSM_ACTIVE s)))
               }
               else Some (SET_SCIRSR event s)
             }
      else Some (SET_SCIRSR event s))"

definition mars_scd_fsm_active :: "scd_sys \<Rightarrow> scd_sys" where
  "mars_scd_fsm_active s =
     (let status = SCIRSR (regs s);
          s = (if \<not> mars_scd_card_detect s then mars_scd_set_idle s else s)
      in SET_SCIRSR status s)"

definition mars_scd_work :: "scd_sys \<Rightarrow> scd_sys option" where
  "mars_scd_work s =
     (let status = SCIRSR (regs s);
          s = (if status AND SC_CPRES_INT \<noteq> 0
               then s\<lparr>scd := (scd s)\<lparr>card_detect_completion := card_detect_completion (scd s) + 1\<rparr>\<rparr> else s)
      in do {
        s \<leftarrow> (case fsm (scd s) of
               IFD_FSM_RESET \<Rightarrow> mars_scd_fsm_reset s
             | IFD_FSM_ACTIVE \<Rightarrow> Some (mars_scd_fsm_active s)
             | _ \<Rightarrow> Some s);
        Some (SET_SCIRSR status s)
      })"

definition MIS_SC_ISR :: "nat \<Rightarrow> u32" where
  "MIS_SC_ISR i = (if i = 0 then push_bit 24 1 else push_bit 25 1)"

definition mars_scd_timer :: "scd_sys \<Rightarrow> scd_sys option" where
  "mars_scd_timer s =
     (let event = MIS_ISR (regs s) AND MIS_SC_ISR (sc_id (scd s)) in do {
        s \<leftarrow> (if event \<noteq> 0 then mars_scd_work s else Some s);
        Some (s\<lparr>regs := (regs s)\<lparr>MIS_ISR_writes := MIS_ISR_writes (regs s) @ [event]\<rparr>,
                scd := (scd s)\<lparr>timer_expires := Some (jiffies s + HZ)\<rparr>\<rparr>)
      })"

section \<open>Operations\<close>

definition mars_scd_enable :: "bool \<Rightarrow> scd_sys \<Rightarrow> int \<times> scd_sys" where
  "mars_scd_enable on_off s =
     (if on_off then if fsm (scd s) = IFD_FSM_DISABLE then mars_scd_set_state IFD_FSM_IDEL s else (0, s)
      else mars_scd_set_state IFD_FSM_DISABLE s)"

text \<open>The divider is computed from the clock as passed; the clamped value is not used again.\<close>

definition mars_scd_set_clock :: "nat \<Rightarrow> scd_sys \<Rightarrow> (int \<times> scd_sys) option" where
  "mars_scd_set_clock clk s =
     (if clk = 0 \<or> clock_div (scd s) = 0 then None
      else
        let divider = SYSTEM_CLK div clk div unat (clock_div (scd s));
            s = s\<lparr>scd := (scd s)\<lparr>pre_clock_div := of_nat divider\<rparr>\<rparr>;
            val = SCFP (regs s) AND NOT (SC_PRE_CLKDIV 0xFF);
            val = val OR SC_PRE_CLKDIV (ucast (pre_clock_div (scd s)))
        in Some (0, SET_SCFP val s))"

definition mars_scd_get_clock :: "scd_sys \<Rightarrow> (int \<times> nat) option" where
  "mars_scd_get_clock s =
     (if pre_clock_div (scd s) = 0 \<or> clock_div (scd s) = 0 then None
      else Some (0, SYSTEM_CLK div unat (pre_clock_div (scd s)) div unat (clock_div (scd s))))"

definition mars_scd_set_etu :: "u32 \<Rightarrow> scd_sys \<Rightarrow> int \<times> scd_sys" where
  "mars_scd_set_etu etu s =
     (let d = scd s;
          s = s\<lparr>scd := d\<lparr>baud_div2 := 31, baud_div1 := etu * ucast (clock_div d) div 31\<rparr>\<rparr>;
          val = SCFP (regs s) AND NOT (SC_BAUDDIV1 0xFF OR SC_BAUDDIV2 3);
          val = val OR (SC_BAUDDIV1 (baud_div1 (scd s) - 1) OR SC_BAUDDIV2 0)
      in (0, SET_SCFP val s))"

definition mars_scd_get_etu :: "scd_sys \<Rightarrow> (int \<times> u32) option" where
  "mars_scd_get_etu s =
     (if clock_div (scd s) = 0 then None
      else Some (0, baud_div2 (scd s) * baud_div1 (scd s) div ucast (clock_div (scd s))))"

definition mars_scd_set_parity :: "u8 \<Rightarrow> scd_sys \<Rightarrow> int \<times> scd_sys" where
  "mars_scd_set_parity p s =
     (let s = s\<lparr>scd := (scd s)\<lparr>parity := (if p \<noteq> 0 then 1 else 0)\<rparr>\<rparr>;
          val = SC_FIFO_RST 0 OR SC_SCEN 1 OR SC_AUTO_ATR 1 OR SC_CONV 0
      in (0, SET_SCCR (val OR SC_PS (ucast (parity (scd s)))) s))"

definition mars_scd_get_parity :: "scd_sys \<Rightarrow> int \<times> u8" where
  "mars_scd_get_parity s = (0, parity (scd s))"

text \<open>Sleeping until the card has answered or four seconds have passed.\<close>

partial_function (option) reset_wait :: "(scd_sys \<Rightarrow> scd_sys) \<Rightarrow> nat \<Rightarrow> scd_sys \<Rightarrow> scd_sys option" where
  [code]: "reset_wait env t s =
     (if \<not> jiffies s > t \<and> fsm (scd s) = IFD_FSM_RESET then reset_wait env t (env s) else Some s)"

definition mars_scd_reset :: "(scd_sys \<Rightarrow> scd_sys) \<Rightarrow> scd_sys \<Rightarrow> (int \<times> scd_sys) option" where
  "mars_scd_reset env s =
     (let (r, s) = mars_scd_set_state IFD_FSM_RESET s in
      if r \<noteq> 0 then Some (- 1, s)
      else do {
        s \<leftarrow> reset_wait env (jiffies s + 4 * HZ) s;
        Some (if fsm (scd s) \<noteq> IFD_FSM_ACTIVE then (- 1, snd (mars_scd_set_state IFD_FSM_IDEL s)) else (0, s))
      })"

definition mars_scd_activate :: "(scd_sys \<Rightarrow> scd_sys) \<Rightarrow> scd_sys \<Rightarrow> (int \<times> scd_sys) option" where
  "mars_scd_activate env s =
     (case fsm (scd s) of
        IFD_FSM_DISABLE \<Rightarrow> Some (- 1, s)
      | IFD_FSM_IDEL \<Rightarrow> do { (r, s) \<leftarrow> mars_scd_reset env s; Some (if r = 0 then 0 else - 1, s) }
      | IFD_FSM_RESET \<Rightarrow> Some (0, s)
      | IFD_FSM_ACTIVE \<Rightarrow> Some (0, s)
      | _ \<Rightarrow> Some (- 1, s))"

definition mars_scd_deactivate :: "scd_sys \<Rightarrow> int \<times> scd_sys" where
  "mars_scd_deactivate s =
     (if fsm (scd s) \<noteq> IFD_FSM_DISABLE
      then (0, snd (mars_scd_set_state IFD_FSM_IDEL (snd (mars_scd_set_state IFD_FSM_DISABLE s))))
      else (0, s))"

definition mars_scd_get_atr :: "scd_sys \<Rightarrow> scd_atr \<Rightarrow> int \<times> scd_atr" where
  "mars_scd_get_atr s p =
     (if fsm (scd s) \<noteq> IFD_FSM_ACTIVE then (- 1, p\<lparr>atr_length := 0\<rparr>)
      else let n = unat (atr_length (atr (scd s)))
           in (0, p\<lparr>atr_length := atr_length (atr (scd s)),
                    atr_data := take n (atr_data (atr (scd s))) @ drop n (atr_data p)\<rparr>))"

text \<open>The wait for a change ends when the handler has completed it; then the card is looked at.\<close>

definition mars_scd_poll_card_status :: "(scd_sys \<Rightarrow> scd_sys) \<Rightarrow> scd_sys \<Rightarrow> bool \<times> scd_sys" where
  "mars_scd_poll_card_status wait s =
     (let s = wait (s\<lparr>scd := (scd s)\<lparr>card_detect_completion := 0\<rparr>\<rparr>) in (mars_scd_card_detect s, s))"

definition mars_scd_xmit :: "mem \<Rightarrow> sc_buff \<Rightarrow> scd_sys \<Rightarrow> int \<times> sc_buff \<times> scd_sys" where
  "mars_scd_xmit m scb s =
     (let s = SET_SCCR (SCCR (regs s) OR SC_FIFO_RST 1) s in
      if unat (sc_len scb) \<le> 32 then
        let s = s\<lparr>regs := (regs s)\<lparr>TXFIFO := TXFIFO (regs s) @ load m (nat (sc_data scb)) (unat (sc_len scb))\<rparr>\<rparr>;
            scb = snd (scb_pull (unat (sc_len scb)) scb)
        in (0, scb, SET_SCCR (SCCR (regs s) OR SC_TX_GO 1) s)
      else (- 1, scb, s))"

text \<open>A failed allocation is only reported; the null pointer is then written through.\<close>

definition mars_scd_read :: "nat option \<Rightarrow> mem \<Rightarrow> scd_sys \<Rightarrow> (sc_buff option \<times> mem \<times> scd_sys) option" where
  "mars_scd_read addr m s =
     (let bs = RXFIFO (regs s) in
      if bs \<noteq> [] then do {
        scb \<leftarrow> alloc_scb addr (length bs);
        Some (Some (snd (scb_put (length bs) scb)), store (nat (sc_data scb)) bs m, s\<lparr>regs := (regs s)\<lparr>RXFIFO := []\<rparr>\<rparr>)
      }
      else Some (None, m, s))"

definition zero_atr_info :: scd_atr_info where
  "zero_atr_info = \<lparr>ai_status = 0, ai_progress = 0, T1Len = 0, T2Len = 0, T3Len = 0, nHistoryBytes = 0, TS = 0, T0 = 0,
     T1 = replicate 4 0, T2 = replicate 4 0, T3 = replicate 4 0, History = replicate 16 0, TCK = 0\<rparr>"

definition mars_scd_open :: "nat \<Rightarrow> bool \<Rightarrow> sc_regs \<Rightarrow> nat \<Rightarrow> scd_sys option" where
  "mars_scd_open i alloc r now =
     (if i \<ge> 2 \<or> \<not> alloc then None
      else
        let d = \<lparr>sc_id = i, fsm = IFD_FSM_UNKNOWN, clock_div = 1, pre_clock_div = 8, baud_div1 = 12, baud_div2 = 31, parity = 1,
                  atr = \<lparr>atr_data = replicate MAX_ATR_SIZE 0, atr_length = 0\<rparr>, atr_info = zero_atr_info, atr_timeout = 0,
                  card_detect_completion = 0, timer_expires = Some (now + HZ)\<rparr>;
            r = r\<lparr>PIN_MUX := PIN_MUX r OR 0x3000, SCFP := SC_CLK_EN 1 OR SC_CLKDIV (ucast (clock_div d) - 1) OR SC_BAUDDIV2 0 OR
                    SC_BAUDDIV1 (baud_div1 d - 1) OR SC_PRE_CLKDIV (ucast (pre_clock_div d) - 1),
                  SCCR := SC_FIFO_RST 1 OR SC_SCEN 1 OR SC_AUTO_ATR 1 OR SC_CONV 0 OR SC_PS 0,
                  SCPCR := SC_BGT 0x16, SCIRER := 0, SCIRSR_writes := SCIRSR_writes r @ [0xFFFFFFFF]\<rparr>
        in Some (snd (mars_scd_set_state IFD_FSM_DISABLE \<lparr>scd = d, regs = r, jiffies = now\<rparr>)))"

definition mars_scd_close :: "scd_sys \<Rightarrow> scd_sys" where
  "mars_scd_close s =
     (let s = s\<lparr>scd := (scd s)\<lparr>timer_expires := None\<rparr>\<rparr>;
          s = snd (mars_scd_set_state IFD_FSM_DISABLE s)
      in s\<lparr>scd := (scd s)\<lparr>card_detect_completion := card_detect_completion (scd s) + 1\<rparr>\<rparr>)"

end
