(* ===== verification/Scd_Props.thy ===== *)
theory Scd_Props
  imports Scd_Mars
begin

text \<open>
  The properties of the smart card interface: every state reached from an open by any interleaving of
  card events, timer ticks and calls satisfies the invariant of the state machine and no handler
  leaves its arrays, a reset always ends in one of two states, and an answer that arrives is handed out.
\<close>

section \<open>No access outside the answer\<close>

definition atr_ok :: "scd_atr \<Rightarrow> bool" where
  "atr_ok a \<longleftrightarrow> length (atr_data a) = 32 \<and> unat (atr_length a) \<le> 32"

definition info_ok :: "scd_atr_info \<Rightarrow> bool" where
  "info_ok p \<longleftrightarrow> length (T1 p) = 4 \<and> length (T2 p) = 4 \<and> length (T3 p) = 4"

lemma atr_byte_in: "atr_ok a \<Longrightarrow> i < 32 \<Longrightarrow> atr_byte a i = Some (atr_data a ! i)"
  by (simp add: atr_ok_def atr_byte_def)

lemma atr_crc_total: "atr_ok a \<Longrightarrow> n < unat (atr_length a) \<Longrightarrow> \<exists>c. atr_crc a n crc = Some c"
proof (induction n arbitrary: crc)
  case (Suc n)
  have "unat (atr_length a) - Suc n < 32" using Suc.prems unfolding atr_ok_def by linarith
  then show ?case using Suc by (simp add: atr_byte_in)
qed simp

lemma is_atr_complete_total: "atr_ok a \<Longrightarrow> \<exists>c. is_atr_complete a = Some c"
proof -
  assume a: "atr_ok a"
  have le: "iface_count x \<le> 4" for x by (rule iface_count_le)
  have b: "atr_byte a (Suc (iface_count x)) = Some (atr_data a ! Suc (iface_count x))" for x
    using le [of x] by (intro atr_byte_in [OF a]) simp
  have c: "atr_byte a (Suc (iface_count x + iface_count y)) = Some (atr_data a ! Suc (iface_count x + iface_count y))" for x y
    using le [of x] le [of y] by (intro atr_byte_in [OF a]) simp
  show ?thesis
  proof (cases "unat (atr_length a) < 3")
    case False
    then obtain k where k: "is_atr_crc_ok a = Some k"
      using atr_crc_total [OF a, of "unat (atr_length a) - 1" 0] by (auto simp: is_atr_crc_ok_def)
    show ?thesis using False by (simp add: is_atr_complete_def Let_def atr_byte_in [OF a] b c k)
  qed (simp add: is_atr_complete_def)
qed

lemma decompress_total:
  assumes a: "atr_ok a" and p: "info_ok p" and c: "is_atr_complete a = Some c" "c \<noteq> 0"
  shows "\<exists>r q. decompress_atr a p = Some (r, q) \<and> info_ok q"
proof -
  have len: "3 \<le> unat (atr_length a)" "unat (atr_length a) \<le> 32" "length (atr_data a) = 32"
    using c a by (auto simp: is_atr_complete_def atr_ok_def Let_def split: if_splits)
  have l4: "length (T1 p) = 4" "length (T2 p) = 4" "length (T3 p) = 4" using p by (simp_all add: info_ok_def)
  let ?t0 = "atr_data a ! 1"
  obtain i1 t1 where g1: "read_group a ?t0 0 2 (T1 p) = Some (i1, t1)" "i1 \<le> 6" "length t1 = 4"
    using read_group_total [of 2 a 0 ?t0 "T1 p"] len l4 by auto
  obtain i2 t2 where g2: "read_group a (t1 ! 3) 0 i1 (T2 p) = Some (i2, t2)" "i2 \<le> 10" "length t2 = 4"
    using read_group_total [of i1 a 0 "t1 ! 3" "T2 p"] len l4 g1(2) by auto
  obtain i3 t3 where g3: "read_group a (t2 ! 3) 0 i2 (T3 p) = Some (i3, t3)" "i3 \<le> 14" "length t3 = 4"
    using read_group_total [of i2 a 0 "t2 ! 3" "T3 p"] len l4 g2(2) by auto
  have n: "unat (?t0 AND 0xF) \<le> 15"
  proof -
    have "?t0 AND 0xF \<le> 0xF" by (rule word_and_le1)
    then show ?thesis by (simp add: word_le_nat_alt)
  qed
  have ab: "atr_byte a 0 = Some (atr_data a ! 0)" "atr_byte a 1 = Some ?t0"
    "atr_byte a (unat (atr_length a) - 1) = Some (atr_data a ! (unat (atr_length a) - 1))"
    using len by (simp_all add: atr_byte_def)
  have "\<not> i3 + unat (?t0 AND 0xF) > length (atr_data a)" using g3(2) n len(3) by simp
  then show ?thesis
    using c g1 g2 g3 by (auto simp: decompress_atr_def ab [simplified] clear_info_def Let_def info_ok_def ab)
qed

section \<open>The state machine\<close>

definition scd_inv :: "scd_sys \<Rightarrow> bool" where
  "scd_inv s \<longleftrightarrow> atr_ok (atr (scd s)) \<and> info_ok (atr_info (scd s)) \<and> fsm (scd s) \<noteq> IFD_FSM_UNKNOWN \<and>
     (fsm (scd s) = IFD_FSM_DISABLE \<longrightarrow> SCIRER (regs s) = 0 \<and> atr_length (atr (scd s)) = 0) \<and>
     (fsm (scd s) = IFD_FSM_IDEL \<longrightarrow> SCIRER (regs s) = SC_CPRES_INT \<and> atr_length (atr (scd s)) = 0) \<and>
     (fsm (scd s) = IFD_FSM_ACTIVE \<longrightarrow>
        is_atr_complete (atr (scd s)) \<noteq> Some 0 \<and> (\<exists>p. decompress_atr (atr (scd s)) p = Some (0, atr_info (scd s))))"

lemmas sc_set_defs = SET_SCIRSR_def SET_SCCR_def SET_SCIRER_def SET_SCFP_def set_fsm_def clear_atr_length_def

text \<open>Acknowledging, the control register and the frequency register do not matter to the invariant.\<close>

lemma scd_inv_regs [simp]:
  "scd_inv (SET_SCIRSR v s) = scd_inv s" "scd_inv (SET_SCCR v s) = scd_inv s" "scd_inv (SET_SCFP v s) = scd_inv s"
  by (simp_all add: scd_inv_def sc_set_defs)

lemma scd_inv_idle: "atr_ok (atr (scd s)) \<Longrightarrow> info_ok (atr_info (scd s)) \<Longrightarrow>
    (fsm (scd s) = IFD_FSM_IDEL \<Longrightarrow> scd_inv s) \<Longrightarrow> scd_inv (mars_scd_set_idle s)"
  by (auto simp: mars_scd_set_idle_def Let_def) (auto simp: scd_inv_def sc_set_defs atr_ok_def)

lemma fsm_idle [simp]: "fsm (scd (mars_scd_set_idle s)) = IFD_FSM_IDEL"
  by (simp add: mars_scd_set_idle_def Let_def sc_set_defs)

lemma scd_inv_state:
  assumes "scd_inv s" "f \<in> {IFD_FSM_DISABLE, IFD_FSM_IDEL, IFD_FSM_RESET}"
  shows "scd_inv (snd (mars_scd_set_state f s))"
proof (cases "fsm (scd s) = f")
  case True
  then show ?thesis using assms(1) by (simp add: mars_scd_set_state_def)
next
  case False
  have ok: "atr_ok (atr (scd s))" "info_ok (atr_info (scd s))" using assms(1) by (simp_all add: scd_inv_def)
  have idle: "scd_inv (mars_scd_set_idle s)" using scd_inv_idle ok assms(1) by blast
  consider "f = IFD_FSM_DISABLE" | "f = IFD_FSM_IDEL" | "f = IFD_FSM_RESET" using assms(2) by blast
  then show ?thesis
  proof cases
    case 1
    then show ?thesis using False ok
      by (simp add: mars_scd_set_state_def Let_def) (simp add: scd_inv_def sc_set_defs atr_ok_def)
  next
    case 2
    then show ?thesis using False idle by (simp add: mars_scd_set_state_def)
  next
    case 3
    let ?s = "clear_atr_length s"
    have o: "atr_ok (atr (scd ?s))" "info_ok (atr_info (scd ?s))" using ok by (simp_all add: sc_set_defs atr_ok_def)
    have "fsm (scd ?s) = IFD_FSM_IDEL \<Longrightarrow> scd_inv ?s" using assms(1) o by (simp add: scd_inv_def sc_set_defs)
    then have "scd_inv (mars_scd_set_idle ?s)" using scd_inv_idle [OF o] by blast
    then show ?thesis using False 3 o
      by (simp add: mars_scd_set_state_def Let_def) (simp add: scd_inv_def sc_set_defs)
  qed
qed

lemma rx_atr_ok: "atr_ok a \<Longrightarrow> rx_atr bs a = (ok, rest, a') \<Longrightarrow> atr_ok a'"
proof (induction bs a rule: rx_atr.induct)
  case (2 b bs a)
  show ?case
  proof (cases "unat (atr_length a) \<ge> 32")
    case False
    then have "unat (atr_length a + 1) = unat (atr_length a) + 1" by (simp add: unat_word_ariths)
    then show ?thesis using 2 False by (simp add: atr_ok_def)
  qed (use 2 in simp)
qed simp

lemma fsm_reset_inv:
  assumes inv: "scd_inv s" and f: "fsm (scd s) = IFD_FSM_RESET"
  shows "\<exists>s'. mars_scd_fsm_reset s = Some s' \<and> scd_inv s'"
proof -
  have ok: "atr_ok (atr (scd s))" "info_ok (atr_info (scd s))" using inv by (simp_all add: scd_inv_def)
  obtain b rest a where rx: "rx_atr (RXFIFO (regs s)) (atr (scd s)) = (b, rest, a)" by (metis prod_cases3)
  have a: "atr_ok a" by (rule rx_atr_ok [OF ok(1) rx])
  obtain c where c: "is_atr_complete a = Some c" using is_atr_complete_total [OF a] by blast
  let ?s = "s\<lparr>regs := (regs s)\<lparr>RXFIFO := rest\<rparr>, scd := (scd s)\<lparr>atr := a\<rparr>\<rparr>"
  have inv1: "scd_inv ?s" using a ok f by (simp add: scd_inv_def)
  have idle: "scd_inv (mars_scd_set_idle t)" if "scd_inv t" for t
    using that by (intro scd_inv_idle) (auto simp: scd_inv_def)
  have dec: "\<exists>s'. Option.bind (decompress_atr a (atr_info (scd s))) (\<lambda>(r, info).
      let s = ?s\<lparr>scd := (scd ?s)\<lparr>atr_info := info\<rparr>\<rparr> in
      if r < 0 then Some (SET_SCIRSR e (mars_scd_set_idle s))
      else Some (SET_SCIRSR e (snd (mars_scd_set_state IFD_FSM_ACTIVE s)))) = Some s' \<and> scd_inv s'" if "c \<noteq> 0" for e
  proof -
    note c0 = that
    obtain r q where q: "decompress_atr a (atr_info (scd s)) = Some (r, q)" "info_ok q"
      using decompress_total [OF a ok(2) c c0] by blast
    have r: "r = 0 \<or> r = - 1"
      using q(1) by (auto simp: decompress_atr_def Let_def split: if_splits option.splits Option.bind_splits)
    let ?t = "?s\<lparr>scd := (scd ?s)\<lparr>atr_info := q\<rparr>\<rparr>"
    have "scd_inv ?t" using a q(2) f by (simp add: scd_inv_def)
    moreover have "scd_inv (snd (mars_scd_set_state IFD_FSM_ACTIVE ?t))" if "r = 0"
      using a q f c c0 that by (auto simp: mars_scd_set_state_def scd_inv_def set_fsm_def)
    ultimately show ?thesis using q(1) r idle by (auto simp: Let_def)
  qed
  have i0: "scd_inv (s\<lparr>regs := (regs s)\<lparr>RXFIFO := []\<rparr>\<rparr>)" using inv by (simp add: scd_inv_def)
  show ?thesis
    using idle [OF inv] idle [OF inv1] inv inv1 i0 dec c
    by (simp add: mars_scd_fsm_reset_def Let_def rx del: mars_scd.update_convs sc_regs.update_convs)
qed

lemma scd_inv_idle': "scd_inv s \<Longrightarrow> scd_inv (mars_scd_set_idle s)"
  by (intro scd_inv_idle) (auto simp: scd_inv_def)

lemma work_inv:
  assumes "scd_inv s"
  shows "\<exists>s'. mars_scd_work s = Some s' \<and> scd_inv s'"
proof -
  let ?t = "if SCIRSR (regs s) AND SC_CPRES_INT \<noteq> 0
    then s\<lparr>scd := (scd s)\<lparr>card_detect_completion := card_detect_completion (scd s) + 1\<rparr>\<rparr> else s"
  have inv: "scd_inv ?t" using assms by (simp add: scd_inv_def)
  have act: "scd_inv (mars_scd_fsm_active ?t)"
    using inv scd_inv_idle' [OF inv] by (simp add: mars_scd_fsm_active_def Let_def)
  have "\<exists>u. (case fsm (scd ?t) of IFD_FSM_RESET \<Rightarrow> mars_scd_fsm_reset ?t | IFD_FSM_ACTIVE \<Rightarrow> Some (mars_scd_fsm_active ?t)
      | _ \<Rightarrow> Some ?t) = Some u \<and> scd_inv u"
    using inv act fsm_reset_inv [OF inv] by (cases "fsm (scd ?t)") auto
  then obtain u where "(case fsm (scd ?t) of IFD_FSM_RESET \<Rightarrow> mars_scd_fsm_reset ?t | IFD_FSM_ACTIVE \<Rightarrow> Some (mars_scd_fsm_active ?t)
      | _ \<Rightarrow> Some ?t) = Some u" "scd_inv u" by blast
  then show ?thesis by (simp only: mars_scd_work_def Let_def bind.bind_lunit) simp
qed

lemma timer_inv:
  assumes "scd_inv s"
  shows "\<exists>s'. mars_scd_timer s = Some s' \<and> scd_inv s'"
proof -
  obtain u where "(if MIS_ISR (regs s) AND MIS_SC_ISR (sc_id (scd s)) \<noteq> 0 then mars_scd_work s else Some s) = Some u" "scd_inv u"
    using assms work_inv [OF assms] by (metis (full_types))
  then show ?thesis by (simp only: mars_scd_timer_def Let_def bind.bind_lunit) (simp add: scd_inv_def)
qed

text \<open>
  The steps a channel takes: the card and the clock change status bits, received bytes and time; the
  timer runs; the operations are called. A reset is its phases, with other steps in between.
\<close>

datatype scd_op = Hardware | Timer | Enable bool | Reset_start | Reset_failed | Deactivate | Configure

inductive scd_step :: "scd_op \<Rightarrow> scd_sys \<Rightarrow> scd_sys \<Rightarrow> bool" where
  hardware: "now \<ge> jiffies s \<Longrightarrow>
    scd_step Hardware s (s\<lparr>regs := (regs s)\<lparr>SCIRSR := st, MIS_ISR := mis, RXFIFO := rx\<rparr>, jiffies := now\<rparr>)"
| timer: "mars_scd_timer s = Some s' \<Longrightarrow> scd_step Timer s s'"
| enable: "scd_step (Enable on_off) s (snd (mars_scd_enable on_off s))"
| reset_start: "scd_step Reset_start s (snd (mars_scd_set_state IFD_FSM_RESET s))"
| reset_failed: "fsm (scd s) \<noteq> IFD_FSM_ACTIVE \<Longrightarrow> scd_step Reset_failed s (snd (mars_scd_set_state IFD_FSM_IDEL s))"
| deactivate: "scd_step Deactivate s (snd (mars_scd_deactivate s))"
| set_clock: "mars_scd_set_clock clk s = Some (r, s') \<Longrightarrow> scd_step Configure s s'"
| set_etu: "scd_step Configure s (snd (mars_scd_set_etu etu s))"
| set_parity: "scd_step Configure s (snd (mars_scd_set_parity p s))"

inductive scd_reach :: "scd_sys \<Rightarrow> bool" where
  opened: "mars_scd_open i True r now = Some s \<Longrightarrow> scd_reach s"
| stepped: "scd_reach s \<Longrightarrow> scd_step op s s' \<Longrightarrow> scd_reach s'"

inductive_cases scd_stepE: "scd_step op s s'"

lemma open_inv: "mars_scd_open i True r now = Some s \<Longrightarrow> scd_inv s"
  by (auto simp: mars_scd_open_def mars_scd_set_state_def Let_def sc_set_defs scd_inv_def atr_ok_def info_ok_def zero_atr_info_def
      split: if_splits)

lemma step_inv:
  assumes "scd_step op s s'" "scd_inv s"
  shows "scd_inv s'"
  using assms(1)
proof cases
  case (hardware now st mis rx)
  then show ?thesis using assms(2) by (simp add: scd_inv_def)
next
  case timer
  then show ?thesis using timer_inv [OF assms(2)] by simp
next
  case (enable b)
  then show ?thesis using assms(2) scd_inv_state [OF assms(2)] by (simp add: mars_scd_enable_def)
next
  case reset_start
  then show ?thesis using scd_inv_state [OF assms(2)] by simp
next
  case reset_failed
  then show ?thesis using scd_inv_state [OF assms(2)] by simp
next
  case deactivate
  have "scd_inv (snd (mars_scd_set_state IFD_FSM_IDEL (snd (mars_scd_set_state IFD_FSM_DISABLE s))))"
    using assms(2) by (intro scd_inv_state) simp_all
  then show ?thesis using deactivate assms(2) by (simp add: mars_scd_deactivate_def)
next
  case (set_clock clk r)
  then have "s' = SET_SCFP (SCFP (regs s') ) (s\<lparr>scd := (scd s)\<lparr>pre_clock_div := pre_clock_div (scd s')\<rparr>\<rparr>)"
    by (auto simp: mars_scd_set_clock_def Let_def SET_SCFP_def split: if_splits)
  moreover have "scd_inv (s\<lparr>scd := (scd s)\<lparr>pre_clock_div := x\<rparr>\<rparr>)" for x using assms(2) by (simp add: scd_inv_def)
  ultimately show ?thesis by (metis scd_inv_regs(3))
next
  case (set_etu etu)
  have "scd_inv (s\<lparr>scd := (scd s)\<lparr>baud_div2 := x, baud_div1 := y\<rparr>\<rparr>)" for x y using assms(2) by (simp add: scd_inv_def)
  then show ?thesis using set_etu by (simp add: mars_scd_set_etu_def Let_def)
next
  case (set_parity p)
  have "scd_inv (s\<lparr>scd := (scd s)\<lparr>parity := x\<rparr>\<rparr>)" for x using assms(2) by (simp add: scd_inv_def)
  then show ?thesis using set_parity by (simp add: mars_scd_set_parity_def Let_def)
qed

lemma reach_inv: "scd_reach s \<Longrightarrow> scd_inv s"
  by (induction rule: scd_reach.induct) (auto intro: open_inv step_inv)


definition sample_regs :: sc_regs where
  "sample_regs = \<lparr>PIN_MUX = 0, SCFP = 0, SCCR = 0, SCPCR = 0, SCIRSR = SC_PRES, SCIRER = 0, MIS_ISR = 0, RXFIFO = [], TXFIFO = [],
     SCIRSR_writes = [], MIS_ISR_writes = []\<rparr>"

definition sample_scd :: scd_sys where
  "sample_scd = the (mars_scd_open 0 True sample_regs 1000)"

lemma sample_scd_open: "mars_scd_open 0 True sample_regs 1000 = Some sample_scd"
  by (simp add: sample_scd_def mars_scd_open_def Let_def)

lemma sample_scd_fsm: "fsm (scd sample_scd) = IFD_FSM_DISABLE"
  by (simp add: sample_scd_def mars_scd_open_def mars_scd_set_state_def Let_def sc_set_defs)

lemma sample_enabled: "fsm (scd (snd (mars_scd_enable True sample_scd))) = IFD_FSM_IDEL"
  by (simp add: mars_scd_enable_def mars_scd_set_state_def sample_scd_fsm)

lemma sample_reach: "scd_reach (snd (mars_scd_enable True sample_scd))"
  using sample_scd_open by (blast intro: opened stepped enable)


section \<open>The abstract card protocol\<close>

text \<open>
  What a user of the channel sees: it is off, idle, waiting for the answer of the card, or active with
  that answer. Each operation has its own abstract steps.
\<close>

datatype card = Off | Idle | Waiting | Active scd_atr

inductive card_step :: "scd_op \<Rightarrow> card \<Rightarrow> card \<Rightarrow> bool" where
  "card_step Hardware c c"
| "card_step Configure c c"
| "card_step Timer c c"
| "c \<noteq> Off \<Longrightarrow> card_step Timer c Idle"
| "is_atr_complete a = Some k \<Longrightarrow> k \<noteq> 0 \<Longrightarrow> unat (atr_length a) \<le> 32 \<Longrightarrow> card_step Timer Waiting (Active a)"
| "card_step (Enable True) c (if c = Off then Idle else c)"
| "card_step (Enable False) c Off"
| "card_step Reset_start c Waiting"
| "c \<noteq> Waiting \<Longrightarrow> card_step Reset_start c Idle"
| "\<forall>a. c \<noteq> Active a \<Longrightarrow> card_step Reset_failed c Idle"
| "card_step Deactivate c (if c = Off then Off else Idle)"

definition card_view :: "scd_sys \<Rightarrow> card" where
  "card_view s = (case fsm (scd s) of IFD_FSM_IDEL \<Rightarrow> Idle | IFD_FSM_RESET \<Rightarrow> Waiting | IFD_FSM_ACTIVE \<Rightarrow> Active (atr (scd s)) | _ \<Rightarrow> Off)"

lemma card_view_regs [simp]:
  "card_view (SET_SCIRSR v s) = card_view s" "card_view (SET_SCCR v s) = card_view s" "card_view (SET_SCFP v s) = card_view s"
  "card_view (mars_scd_set_idle s) = Idle"
  by (simp_all add: card_view_def sc_set_defs mars_scd_set_idle_def Let_def split: IFD_FSM.split)

lemma card_view_off [simp]: "scd_inv s \<Longrightarrow> (card_view s = Off) = (fsm (scd s) = IFD_FSM_DISABLE)"
  by (cases "fsm (scd s)") (simp_all add: card_view_def scd_inv_def)

lemma card_view_state:
  "card_view (snd (mars_scd_set_state IFD_FSM_IDEL s)) = Idle"
  "card_view (snd (mars_scd_set_state IFD_FSM_DISABLE s)) = Off"
  "card_view (snd (mars_scd_set_state IFD_FSM_RESET s)) = (if fsm (scd s) \<noteq> IFD_FSM_RESET \<and> \<not> mars_scd_card_detect s then Idle else Waiting)"
  "card_view (snd (mars_scd_set_state IFD_FSM_ACTIVE s)) = Active (atr (scd s))"
  by (simp_all add: mars_scd_set_state_def Let_def mars_scd_card_detect_def)
    (simp_all add: card_view_def sc_set_defs)

lemma fsm_reset_card:
  assumes inv: "scd_inv s" and f: "fsm (scd s) = IFD_FSM_RESET" and r: "mars_scd_fsm_reset s = Some s'"
  shows "card_step Timer Waiting (card_view s')"
proof -
  have w: "card_view s = Waiting" using f by (simp add: card_view_def)
  have w': "card_view (s\<lparr>regs := x, scd := (scd s)\<lparr>atr := a\<rparr>\<rparr>) = Waiting" "card_view (s\<lparr>regs := x\<rparr>) = Waiting" for x a
    using f by (simp_all add: card_view_def)
  obtain b rest a where rx: "rx_atr (RXFIFO (regs s)) (atr (scd s)) = (b, rest, a)" by (metis prod_cases3)
  have a: "unat (atr_length a) \<le> 32" using rx_atr_ok [OF _ rx] inv by (simp add: scd_inv_def atr_ok_def)
  have steps: "card_step Timer Waiting Waiting" "card_step Timer Waiting Idle" by (auto intro: card_step.intros)
  have act: "is_atr_complete a = Some k \<Longrightarrow> k \<noteq> 0 \<Longrightarrow> card_step Timer Waiting (Active a)" for k
    using a by (intro card_step.intros(5))
  show ?thesis
    using r steps act
    by (auto simp: mars_scd_fsm_reset_def Let_def rx w w' card_view_state
        split: if_splits Option.bind_splits)
qed

lemma work_card:
  assumes inv: "scd_inv s" and r: "mars_scd_work s = Some s'"
  shows "card_step Timer (card_view s) (card_view s')"
proof -
  let ?t = "if SCIRSR (regs s) AND SC_CPRES_INT \<noteq> 0
    then s\<lparr>scd := (scd s)\<lparr>card_detect_completion := card_detect_completion (scd s) + 1\<rparr>\<rparr> else s"
  have t: "scd_inv ?t" "card_view ?t = card_view s" "fsm (scd ?t) = fsm (scd s)" using inv by (simp_all add: scd_inv_def card_view_def split: IFD_FSM.split)
  obtain u where u: "(case fsm (scd ?t) of IFD_FSM_RESET \<Rightarrow> mars_scd_fsm_reset ?t | IFD_FSM_ACTIVE \<Rightarrow> Some (mars_scd_fsm_active ?t)
      | _ \<Rightarrow> Some ?t) = Some u" "s' = SET_SCIRSR (SCIRSR (regs s)) u"
    using r by (auto simp only: mars_scd_work_def Let_def bind_eq_Some_conv option.inject)
  have "card_step Timer (card_view s) (card_view u)"
  proof (cases "fsm (scd s)")
    case IFD_FSM_RESET
    then have "card_view s = Waiting" by (simp add: card_view_def)
    moreover have "mars_scd_fsm_reset ?t = Some u" using u(1) IFD_FSM_RESET t(3) by (simp only: IFD_FSM.case)
    ultimately show ?thesis using fsm_reset_card [OF t(1)] IFD_FSM_RESET t(3) by metis
  next
    case IFD_FSM_ACTIVE
    then have "card_view s \<noteq> Off" by (simp add: card_view_def)
    moreover have "mars_scd_fsm_active ?t = u" using u(1) IFD_FSM_ACTIVE t(3) by (simp only: IFD_FSM.case option.inject)
    then have "card_view u = Idle \<or> card_view u = card_view s"
      using t(2) by (simp only: mars_scd_fsm_active_def Let_def card_view_regs split: if_split) auto
    ultimately show ?thesis by (auto intro: card_step.intros)
  next
    case IFD_FSM_IDEL
    then have "u = ?t" using u(1) t(3) by (simp only: IFD_FSM.case option.inject)
    then show ?thesis using t(2) by (simp only: card_step.intros)
  next
    case IFD_FSM_DISABLE
    then have "u = ?t" using u(1) t(3) by (simp only: IFD_FSM.case option.inject)
    then show ?thesis using t(2) by (simp only: card_step.intros)
  next
    case IFD_FSM_UNKNOWN
    then show ?thesis using inv by (simp add: scd_inv_def)
  qed
  then show ?thesis using u(2) by simp
qed

lemma timer_card:
  assumes inv: "scd_inv s" and r: "mars_scd_timer s = Some s'"
  shows "card_step Timer (card_view s) (card_view s')"
proof -
  obtain u where u: "(if MIS_ISR (regs s) AND MIS_SC_ISR (sc_id (scd s)) \<noteq> 0 then mars_scd_work s else Some s) = Some u"
      "card_view s' = card_view u"
    using r by (auto simp only: mars_scd_timer_def Let_def bind_eq_Some_conv option.inject) (auto simp: card_view_def split: IFD_FSM.split)
  show ?thesis
  proof (cases "MIS_ISR (regs s) AND MIS_SC_ISR (sc_id (scd s)) \<noteq> 0")
    case True
    then show ?thesis using work_card [OF inv] u by auto
  next
    case False
    then show ?thesis using u by (auto intro: card_step.intros)
  qed
qed



section \<open>Reset\<close>

lemma reset_wait_returns:
  assumes adv: "\<And>s. jiffies (env s) > jiffies s"
  shows "\<exists>s'. reset_wait env t s = Some s'"
proof (induction "Suc t - jiffies s" arbitrary: s rule: less_induct)
  case less
  show ?case
  proof (cases "\<not> jiffies s > t \<and> fsm (scd s) = IFD_FSM_RESET")
    case True
    then have "\<exists>s'. reset_wait env t (env s) = Some s'" using adv [of s] by (intro less) linarith
    then show ?thesis using True by (subst reset_wait.simps) simp
  next
    case False
    show ?thesis by (subst reset_wait.simps) (simp only: False if_False option.inject simp_thms)
  qed
qed

lemma set_reset_result:
  assumes "mars_scd_set_state IFD_FSM_RESET s = (r, s')"
  shows "r = 0 \<and> fsm (scd s') = IFD_FSM_RESET \<or> r = - 1 \<and> fsm (scd s') = IFD_FSM_IDEL"
proof (cases "fsm (scd s) = IFD_FSM_RESET")
  case True
  then show ?thesis using assms by (simp add: mars_scd_set_state_def)
next
  case False
  then show ?thesis using assms by (cases "mars_scd_card_detect (clear_atr_length s)")
    (auto simp: mars_scd_set_state_def Let_def set_fsm_def)
qed



section \<open>Receiving an answer\<close>

lemma rx_received:
  assumes "n + length bs \<le> length l" "bs = take (length bs) (drop n l)" "length l \<le> 32"
  shows "rx_atr bs (received l n) = (True, [], received l (n + length bs))"
  using assms
proof (induction bs arbitrary: n)
  case (Cons b bs)
  have n: "n < length l" "n < 32" using Cons.prems by simp_all
  have d: "drop n l = l ! n # drop (Suc n) l" using n by (simp add: Cons_nth_drop_Suc)
  then have b: "b = l ! n" "bs = take (length bs) (drop (Suc n) l)" using Cons.prems(2) by simp_all
  have rep: "replicate (32 - n) (0 :: u8) = 0 # replicate (32 - Suc n) 0" using n by (simp flip: replicate_Suc add: Suc_diff_Suc)
  have un: "unat (atr_length (received l n)) = n" using n by (simp add: received_def unat_of_nat)
  have "(received l n)\<lparr>atr_data := (atr_data (received l n))[n := b], atr_length := atr_length (received l n) + 1\<rparr> = received l (Suc n)"
    using n rep by (simp add: received_def take_Suc_conv_app_nth b(1) list_update_append)
  moreover have "rx_atr bs (received l (Suc n)) = (True, [], received l (Suc n + length bs))"
    using Cons.prems(1,3) b(2) by (intro Cons.IH) simp_all
  ultimately show ?case using n un by simp
qed simp

text \<open>
  A well-formed answer that arrives in any number of pieces: when the first \<open>n\<close> characters have been
  taken, a tick that finds the following ones in the receive queue takes them; the channel keeps
  waiting while characters are missing and becomes active with the last one, and the answer
  is then handed out as it was sent.
\<close>

theorem scd_answer_received:
  assumes f: "atr_fields_ok f" "length (atr_layout f) \<le> 32" "n \<le> m" "m \<le> length (atr_layout f)"
    and st: "fsm (scd s) = IFD_FSM_RESET" "atr (scd s) = received (atr_layout f) n" "RXFIFO (regs s) = take (m - n) (drop n (atr_layout f))"
      "T1 (atr_info (scd s)) = replicate 4 0" "T2 (atr_info (scd s)) = replicate 4 0" "T3 (atr_info (scd s)) = replicate 4 0"
    and ev: "MIS_ISR (regs s) AND MIS_SC_ISR (sc_id (scd s)) \<noteq> 0" "SCIRSR (regs s) AND SC_RXP_INT = 0" "SCIRSR (regs s) AND SC_PRES \<noteq> 0"
      "SCIRSR (regs s) AND SC_RCV_INT \<noteq> 0" "n = 0 \<longrightarrow> SCIRSR (regs s) AND SC_ATRS_INT \<noteq> 0" "jiffies s \<le> atr_timeout (scd s)"
  shows "\<exists>s'. mars_scd_timer s = Some s' \<and> atr (scd s') = received (atr_layout f) m \<and> RXFIFO (regs s') = [] \<and>
    (if m < length (atr_layout f) then fsm (scd s') = IFD_FSM_RESET
     else fsm (scd s') = IFD_FSM_ACTIVE \<and>
       mars_scd_get_atr s' p = (0, p\<lparr>atr_length := of_nat (length (atr_layout f)), atr_data := atr_layout f @ drop (length (atr_layout f)) (atr_data p)\<rparr>))"
proof -
  let ?a = "received (atr_layout f) m" and ?e = "SCIRSR (regs s)"
  note r = received_facts [OF f(4,2)]
  let ?t = "if ?e AND SC_CPRES_INT \<noteq> 0 then s\<lparr>scd := (scd s)\<lparr>card_detect_completion := card_detect_completion (scd s) + 1\<rparr>\<rparr> else s"
  have t: "fsm (scd ?t) = IFD_FSM_RESET" "atr (scd ?t) = received (atr_layout f) n" "regs ?t = regs s" "atr_info (scd ?t) = atr_info (scd s)"
    "jiffies ?t = jiffies s" "atr_timeout (scd ?t) = atr_timeout (scd s)" using st by simp_all
  have rx: "rx_atr (RXFIFO (regs s)) (received (atr_layout f) n) = (True, [], ?a)"
    using rx_received [of n "RXFIFO (regs s)" "atr_layout f"] f st(3) by simp
  have n0: "atr_length (received (atr_layout f) n) = 0 \<longleftrightarrow> n = 0"
    using received_facts(1) [of n "atr_layout f"] f by (metis le_trans unat_eq_zero)
  have g: "\<not> (?e AND SC_RXP_INT \<noteq> 0 \<or> ?e AND SC_PRES = 0 \<or> jiffies s > atr_timeout (scd s))"
    "\<not> (n = 0 \<and> ?e AND SC_ATRS_INT = 0)" using ev by auto
  have comp: "is_atr_complete ?a = Some (if m = length (atr_layout f) then 1 else 0)"
    by (rule is_atr_complete_prefix [OF f(1,4,2)])
  let ?u = "?t\<lparr>regs := (regs s)\<lparr>RXFIFO := []\<rparr>, scd := (scd ?t)\<lparr>atr := ?a\<rparr>\<rparr>"
  obtain u where u: "mars_scd_fsm_reset ?t = Some u" "atr (scd u) = ?a" "RXFIFO (regs u) = []"
    "fsm (scd u) = (if m < length (atr_layout f) then IFD_FSM_RESET else IFD_FSM_ACTIVE)"
  proof (cases "m = length (atr_layout f)")
    case False
    then have "mars_scd_fsm_reset ?t = Some (SET_SCIRSR ?e ?u)"
      using f(4) ev(4) by (simp only: mars_scd_fsm_reset_def Let_def t rx n0 g if_False if_True comp prod.case bind.bind_lunit not_True_eq_False simp_thms)
    moreover have "fsm (scd ?u) = IFD_FSM_RESET" using t(1) by simp
    ultimately show ?thesis using that False f(4) by (simp add: sc_set_defs)
  next
    case True
    obtain q where q: "decompress_atr ?a (atr_info (scd s)) = Some (0, q)"
      using decompress_layout [OF f(1,2) st(4-6)] True by simp
    let ?v = "?u\<lparr>scd := (scd ?u)\<lparr>atr_info := q\<rparr>\<rparr>"
    have c1: "is_atr_complete ?a = Some 1" using comp True by simp
    have "mars_scd_fsm_reset ?t = Some (SET_SCIRSR ?e (snd (mars_scd_set_state IFD_FSM_ACTIVE ?v)))"
      using ev(4) by (simp only: mars_scd_fsm_reset_def Let_def t rx n0 g if_False if_True c1 prod.case bind.bind_lunit
          not_True_eq_False simp_thms q one_neq_zero less_irrefl)
    moreover have "snd (mars_scd_set_state IFD_FSM_ACTIVE ?v) = set_fsm IFD_FSM_ACTIVE ?v"
      using t(1) by (simp add: mars_scd_set_state_def)
    ultimately show ?thesis using that True by (simp add: sc_set_defs)
  qed
  have w: "mars_scd_work s = Some (SET_SCIRSR ?e u)"
    by (simp only: mars_scd_work_def Let_def t(1) IFD_FSM.case u(1) bind.bind_lunit)
  let ?s' = "(SET_SCIRSR ?e u)\<lparr>regs := (regs (SET_SCIRSR ?e u))\<lparr>MIS_ISR_writes := MIS_ISR_writes (regs (SET_SCIRSR ?e u)) @
      [MIS_ISR (regs s) AND MIS_SC_ISR (sc_id (scd s))]\<rparr>,
    scd := (scd (SET_SCIRSR ?e u))\<lparr>timer_expires := Some (jiffies (SET_SCIRSR ?e u) + HZ)\<rparr>\<rparr>"
  have tm: "mars_scd_timer s = Some ?s'" using ev(1) w by (simp add: mars_scd_timer_def Let_def)
  have s': "atr (scd ?s') = ?a" "RXFIFO (regs ?s') = []"
    "fsm (scd ?s') = (if m < length (atr_layout f) then IFD_FSM_RESET else IFD_FSM_ACTIVE)" using u by (simp_all add: SET_SCIRSR_def)
  have get: "mars_scd_get_atr ?s' p = (0, p\<lparr>atr_length := of_nat (length (atr_layout f)),
      atr_data := atr_layout f @ drop (length (atr_layout f)) (atr_data p)\<rparr>)" if "m = length (atr_layout f)"
  proof -
    have "atr_length ?a = of_nat (length (atr_layout f))" "take (length (atr_layout f)) (atr_data ?a) = atr_layout f"
      using that by (simp_all add: received_def)
    then show ?thesis using s' that r(1) by (simp only: mars_scd_get_atr_def Let_def less_irrefl if_False simp_thms)
  qed
  show ?thesis using tm s' get f(4) by (intro exI [of _ ?s']) (auto simp del: scd_sys.update_convs)
qed

definition waiting_scd :: scd_sys where
  "waiting_scd = sample_scd\<lparr>scd := (scd sample_scd)\<lparr>fsm := IFD_FSM_RESET, atr_timeout := 1100\<rparr>,
     regs := (regs sample_scd)\<lparr>SCIRSR := 0x10082, MIS_ISR := 0x01000000, RXFIFO := [0x3B, 0x92, 0x11, 0x11, 0xFE, 0x41, 0x42, 0x6F]\<rparr>\<rparr>"

theorem scd_answer_received_witness:
  "\<exists>s'. mars_scd_timer waiting_scd = Some s' \<and> fsm (scd s') = IFD_FSM_ACTIVE \<and>
    mars_scd_get_atr s' (received [] 0) = (0, received [0x3B, 0x92, 0x11, 0x11, 0xFE, 0x41, 0x42, 0x6F] 8)"
proof -
  have a: "atr (scd waiting_scd) = received (atr_layout sample_atr) 0"
    and i: "atr_info (scd waiting_scd) = zero_atr_info" and j: "jiffies waiting_scd = 1000" "sc_id (scd waiting_scd) = 0"
    by (simp_all add: waiting_scd_def sample_scd_def mars_scd_open_def mars_scd_set_state_def Let_def sc_set_defs received_def)
  have r: "SCIRSR (regs waiting_scd) = 0x10082" "MIS_ISR (regs waiting_scd) = 0x01000000" "fsm (scd waiting_scd) = IFD_FSM_RESET"
    "atr_timeout (scd waiting_scd) = 1100"
    "RXFIFO (regs waiting_scd) = [0x3B, 0x92, 0x11, 0x11, 0xFE, 0x41, 0x42, 0x6F]"
    by (simp_all add: waiting_scd_def)
  have "\<exists>s'. mars_scd_timer waiting_scd = Some s' \<and> atr (scd s') = received (atr_layout sample_atr) 8 \<and> RXFIFO (regs s') = [] \<and>
    (if 8 < length (atr_layout sample_atr) then fsm (scd s') = IFD_FSM_RESET
     else fsm (scd s') = IFD_FSM_ACTIVE \<and> mars_scd_get_atr s' (received [] 0) = (0, (received [] 0)\<lparr>atr_length := of_nat (length (atr_layout sample_atr)),
       atr_data := atr_layout sample_atr @ drop (length (atr_layout sample_atr)) (atr_data (received [] 0))\<rparr>))"
    by (rule scd_answer_received [where n = 0])
      (simp_all add: sample_atr_ok sample_atr_layout(1) a [simplified] i j r zero_atr_info_def MIS_SC_ISR_def)
  then show ?thesis by (auto simp: sample_atr_layout(1) received_def)
qed

end
