(* ===== verification/Scd_Dev.thy ===== *)
theory Scd_Dev
  imports Scd_Props Driver_Core Dev_Nodes
begin

text \<open>
  The smart card core (\<open>drivers/smartcard/core/scd_core.c\<close>), its device files (\<open>scd_dev.c\<close>) and the driver table of the
  two channels (\<open>adapter/scd_mars.c\<close>). The state is a bus of the driver core whose client holds the channel
  structures by address, the registers of a channel that is not open, the table of nodes, the message buffers and
  user memory. Results of allocations and of copies to and from the user, failures of \<open>cdev_add\<close> and what happens while a
  caller sleeps are parameters. \<open>None\<close> is a fault: a null or freed pointer, a call through it, or a division by zero.
\<close>

section \<open>State\<close>

abbreviation (input) MAX_SCD_CNT :: nat where "MAX_SCD_CNT \<equiv> 2"
abbreviation (input) SCD_RESET :: nat where "SCD_RESET \<equiv> 0x7301"
abbreviation (input) SCD_SETPARAM :: nat where "SCD_SETPARAM \<equiv> 0x7302"
abbreviation (input) SCD_GETPARAM :: nat where "SCD_GETPARAM \<equiv> 0x7303"
abbreviation (input) SCD_DEACTIVE :: nat where "SCD_DEACTIVE \<equiv> 0x7306"
abbreviation (input) SCD_ACTIVE :: nat where "SCD_ACTIVE \<equiv> 0x7307"
abbreviation (input) SCD_GET_ATR :: nat where "SCD_GET_ATR \<equiv> 0x7309"
abbreviation (input) SCD_READ :: nat where "SCD_READ \<equiv> 0x730a"
abbreviation (input) SCD_WRITE :: nat where "SCD_WRITE \<equiv> 0x730b"
abbreviation (input) SCD_CARD_DETECT :: nat where "SCD_CARD_DETECT \<equiv> 0x730d"
abbreviation (input) SCD_POLL_CARD_STATUS_CHANGE :: nat where "SCD_POLL_CARD_STATUS_CHANGE \<equiv> 0x730e"
abbreviation (input) SIZEOF_SC_BUFF :: nat where "SIZEOF_SC_BUFF \<equiv> 44"
abbreviation (input) SIZEOF_SC_MSG_BUFF :: nat where "SIZEOF_SC_MSG_BUFF \<equiv> 8"
abbreviation (input) SIZEOF_SCD_PARAM :: nat where "SIZEOF_SCD_PARAM \<equiv> 12"

record scd_device =
  sd_id :: u32
  sd_bus_id :: nat
  sd_drvdata :: "nat option"

record scd_param =
  p_clk :: u32
  p_etu :: u32
  p_parity :: u8

record scd_client =
  scd_devices :: "nat \<Rightarrow> scd_device"
  scd_heap :: "nat \<Rightarrow> scd_sys option"
  chan_regs :: "nat \<Rightarrow> sc_regs"
  scd_now :: nat
  scd_nodes :: node_table
  scd_device_count :: nat
  scbs :: "nat \<Rightarrow> sc_buff option"
  kbytes :: mem
  suser :: mem

type_synonym scd_bus = "scd_client drv_bus"

text \<open>
  \<open>from_fault a n\<close>: copying \<open>n\<close> bytes from the user fails; \<open>to_left a n\<close>: how many of \<open>n\<close> bytes a copy to the user leaves behind.
  \<open>stack_atr\<close> and \<open>stack_pad\<close> are what the kernel stack holds where the code does not write.
\<close>

record scd_env =
  scd_addr :: "scd_client \<Rightarrow> nat option"
  scb_addr :: "scd_client \<Rightarrow> nat option"
  scd_sleep :: "scd_sys \<Rightarrow> scd_sys"
  add_fails :: "nat \<Rightarrow> bool"
  from_fault :: "nat \<Rightarrow> nat \<Rightarrow> bool"
  to_left :: "nat \<Rightarrow> nat \<Rightarrow> nat"
  stack_atr :: scd_atr
  stack_pad :: "u8 list"

section \<open>The driver table\<close>

record scd_driver =
  so_probe :: "(nat \<Rightarrow> scd_client \<Rightarrow> (int \<times> scd_client) option) option"
  so_remove :: "(nat \<Rightarrow> scd_client \<Rightarrow> scd_client option) option"
  so_enable :: "(nat \<Rightarrow> u8 \<Rightarrow> scd_client \<Rightarrow> (int \<times> scd_client) option) option"
  so_set_param :: "(nat \<Rightarrow> scd_param \<Rightarrow> scd_client \<Rightarrow> (int \<times> scd_client) option) option"
  so_get_param :: "(nat \<Rightarrow> scd_client \<Rightarrow> ((int \<times> scd_param) \<times> scd_client) option) option"
  so_activate :: "(nat \<Rightarrow> scd_client \<Rightarrow> (int \<times> scd_client) option) option"
  so_deactivate :: "(nat \<Rightarrow> scd_client \<Rightarrow> (int \<times> scd_client) option) option"
  so_reset :: "(nat \<Rightarrow> scd_client \<Rightarrow> (int \<times> scd_client) option) option"
  so_get_atr :: "(nat \<Rightarrow> scd_atr \<Rightarrow> scd_client \<Rightarrow> ((int \<times> scd_atr) \<times> scd_client) option) option"
  so_get_card_status :: "(nat \<Rightarrow> scd_client \<Rightarrow> (int \<times> scd_client) option) option"
  so_poll_card_status :: "(nat \<Rightarrow> scd_client \<Rightarrow> (int \<times> scd_client) option) option"
  so_xmit :: "(nat \<Rightarrow> nat \<Rightarrow> scd_client \<Rightarrow> (int \<times> scd_client) option) option"
  so_read :: "(nat \<Rightarrow> scd_client \<Rightarrow> (nat option \<times> scd_client) option) option"
  so_suspend :: "(nat \<Rightarrow> scd_client \<Rightarrow> (int \<times> scd_client) option) option"
  so_resume :: "(nat \<Rightarrow> scd_client \<Rightarrow> (int \<times> scd_client) option) option"

text \<open>An operation on the channel structure behind \<open>scd_get_drvdata\<close>.\<close>

definition on_scd :: "nat \<Rightarrow> (scd_sys \<Rightarrow> ('r \<times> scd_sys) option) \<Rightarrow> scd_client \<Rightarrow> ('r \<times> scd_client) option" where
  "on_scd dev f c = do {
     a \<leftarrow> sd_drvdata (scd_devices c dev);
     s \<leftarrow> scd_heap c a;
     (r, s) \<leftarrow> f s;
     Some (r, c\<lparr>scd_heap := (scd_heap c)(a \<mapsto> s)\<rparr>)
   }"

definition scd_ops_probe :: "scd_env \<Rightarrow> nat \<Rightarrow> scd_client \<Rightarrow> (int \<times> scd_client) option" where
  "scd_ops_probe env dev c =
     (let d = scd_devices c dev; i = unat (sd_id d AND 3) in
      if sd_id d AND 0xFFFFFFFC \<noteq> 0x12830000 then Some (- ENODEV, c)
      else case (scd_addr env c, mars_scd_open i (scd_addr env c \<noteq> None) (chan_regs c i) (scd_now c)) of
        (Some a, Some s) \<Rightarrow>
          Some (0, c\<lparr>scd_heap := (scd_heap c)(a \<mapsto> s), scd_devices := (scd_devices c)(dev := d\<lparr>sd_drvdata := Some a\<rparr>)\<rparr>)
      | _ \<Rightarrow> Some (- ENOMEM, c))"

definition scd_ops_remove :: "nat \<Rightarrow> scd_client \<Rightarrow> scd_client option" where
  "scd_ops_remove dev c = do {
     a \<leftarrow> sd_drvdata (scd_devices c dev);
     s \<leftarrow> scd_heap c a;
     let s = mars_scd_close s;
     Some (c\<lparr>scd_heap := (scd_heap c)(a := None), chan_regs := (chan_regs c)(sc_id (scd s) := regs s)\<rparr>)
   }"

definition scd_ops_enable :: "nat \<Rightarrow> u8 \<Rightarrow> scd_client \<Rightarrow> (int \<times> scd_client) option" where
  "scd_ops_enable dev on_off c = on_scd dev (\<lambda>s. Some (mars_scd_enable (on_off \<noteq> 0) s)) c"

definition scd_ops_set_param :: "nat \<Rightarrow> scd_param \<Rightarrow> scd_client \<Rightarrow> (int \<times> scd_client) option" where
  "scd_ops_set_param dev p c = on_scd dev (\<lambda>s. do {
     (ret, s) \<leftarrow> mars_scd_set_clock (unat (p_clk p)) s;
     let (r, s) = mars_scd_set_etu (p_etu p) s;
     let ret = ret OR r;
     let (r, s) = mars_scd_set_parity (p_parity p) s;
     Some (ret OR r, s)
   }) c"

definition scd_ops_get_param :: "nat \<Rightarrow> scd_client \<Rightarrow> ((int \<times> scd_param) \<times> scd_client) option" where
  "scd_ops_get_param dev c = on_scd dev (\<lambda>s. do {
     (r1, clk) \<leftarrow> mars_scd_get_clock s;
     (r2, etu) \<leftarrow> mars_scd_get_etu s;
     let (r3, par) = mars_scd_get_parity s;
     Some ((r1 OR r2 OR r3, \<lparr>p_clk = of_nat clk, p_etu = etu, p_parity = par\<rparr>), s)
   }) c"

definition scd_ops_activate :: "scd_env \<Rightarrow> nat \<Rightarrow> scd_client \<Rightarrow> (int \<times> scd_client) option" where
  "scd_ops_activate env dev c = on_scd dev (mars_scd_activate (scd_sleep env)) c"

definition scd_ops_deactivate :: "nat \<Rightarrow> scd_client \<Rightarrow> (int \<times> scd_client) option" where
  "scd_ops_deactivate dev c = on_scd dev (\<lambda>s. Some (mars_scd_deactivate s)) c"

definition scd_ops_reset :: "scd_env \<Rightarrow> nat \<Rightarrow> scd_client \<Rightarrow> (int \<times> scd_client) option" where
  "scd_ops_reset env dev c = on_scd dev (mars_scd_reset (scd_sleep env)) c"

definition scd_ops_get_atr :: "nat \<Rightarrow> scd_atr \<Rightarrow> scd_client \<Rightarrow> ((int \<times> scd_atr) \<times> scd_client) option" where
  "scd_ops_get_atr dev p_atr c = on_scd dev (\<lambda>s. Some (mars_scd_get_atr s p_atr, s)) c"

definition scd_ops_get_card_status :: "nat \<Rightarrow> scd_client \<Rightarrow> (int \<times> scd_client) option" where
  "scd_ops_get_card_status dev c = on_scd dev (\<lambda>s. Some (if mars_scd_card_detect s then 1 else 0, s)) c"

definition scd_ops_poll_card_status :: "scd_env \<Rightarrow> nat \<Rightarrow> scd_client \<Rightarrow> (int \<times> scd_client) option" where
  "scd_ops_poll_card_status env dev c =
     on_scd dev (\<lambda>s. let (r, s) = mars_scd_poll_card_status (scd_sleep env) s in Some (if r then 1 else 0, s)) c"

definition scd_ops_xmit :: "nat \<Rightarrow> nat \<Rightarrow> scd_client \<Rightarrow> (int \<times> scd_client) option" where
  "scd_ops_xmit dev a c = do {
     scb \<leftarrow> scbs c a;
     ((r, scb), c) \<leftarrow> on_scd dev (\<lambda>s. let (r, scb, s) = mars_scd_xmit (kbytes c) scb s in Some ((r, scb), s)) c;
     Some (r, c\<lparr>scbs := (scbs c)(a \<mapsto> scb)\<rparr>)
   }"

definition scd_ops_read :: "scd_env \<Rightarrow> nat \<Rightarrow> scd_client \<Rightarrow> (nat option \<times> scd_client) option" where
  "scd_ops_read env dev c = do {
     let addr = scb_addr env c;
     ((scb, m), c) \<leftarrow> on_scd dev (\<lambda>s. do {
        (scb, m, s) \<leftarrow> mars_scd_read (map_option (\<lambda>a. a + SIZEOF_SC_BUFF) addr) (kbytes c) s;
        Some ((scb, m), s)
      }) c;
     let c = c\<lparr>kbytes := m\<rparr>;
     case (scb, addr) of
       (Some b, Some a) \<Rightarrow> Some (Some a, c\<lparr>scbs := (scbs c)(a \<mapsto> b)\<rparr>)
     | _ \<Rightarrow> Some (None, c)
   }"

definition mars_scd_driver :: "scd_env \<Rightarrow> scd_driver" where
  "mars_scd_driver env =
     \<lparr>so_probe = Some (scd_ops_probe env), so_remove = Some scd_ops_remove, so_enable = Some scd_ops_enable,
      so_set_param = Some scd_ops_set_param, so_get_param = Some scd_ops_get_param, so_activate = Some (scd_ops_activate env),
      so_deactivate = Some scd_ops_deactivate, so_reset = Some (scd_ops_reset env), so_get_atr = Some scd_ops_get_atr,
      so_get_card_status = Some scd_ops_get_card_status, so_poll_card_status = Some (scd_ops_poll_card_status env),
      so_xmit = Some scd_ops_xmit, so_read = Some (scd_ops_read env), so_suspend = None, so_resume = None\<rparr>"

section \<open>The core\<close>

definition create_scd_dev_node :: "scd_env \<Rightarrow> nat \<Rightarrow> scd_client \<Rightarrow> int \<times> scd_client" where
  "create_scd_dev_node env dev c =
     (let (r, t) = create_dev_node (add_fails env) dev (scd_nodes c) in (r, c\<lparr>scd_nodes := t\<rparr>))"

definition remove_scd_dev_node :: "nat \<Rightarrow> scd_client \<Rightarrow> scd_client" where
  "remove_scd_dev_node dev c = c\<lparr>scd_nodes := remove_dev_node dev (scd_nodes c)\<rparr>"

definition scd_bus_match :: "nat \<Rightarrow> nat \<Rightarrow> bool" where
  "scd_bus_match dev drv \<longleftrightarrow> True"

definition scd_drv_probe :: "scd_env \<Rightarrow> scd_driver \<Rightarrow> nat \<Rightarrow> scd_client \<Rightarrow> (int \<times> scd_client) option" where
  "scd_drv_probe env p_drv dev c =
     (case so_probe p_drv of
        None \<Rightarrow> Some (- ENODEV, c)
      | Some probe \<Rightarrow> do {
          (r, c) \<leftarrow> probe dev c;
          Some (if r = 0 then (0, snd (create_scd_dev_node env dev c)) else (- ENODEV, c))
        })"

definition scd_drv_remove :: "scd_env \<Rightarrow> scd_driver \<Rightarrow> nat \<Rightarrow> scd_client \<Rightarrow> scd_client option" where
  "scd_drv_remove env p_drv dev c = do {
     c \<leftarrow> (case so_remove p_drv of Some remove \<Rightarrow> remove dev c | None \<Rightarrow> Some c);
     Some (snd (create_scd_dev_node env dev c))
   }"

definition scd_drv_shutdown :: "scd_driver \<Rightarrow> nat \<Rightarrow> scd_client \<Rightarrow> scd_client option" where
  "scd_drv_shutdown p_drv dev c =
     (case so_enable p_drv of Some enable \<Rightarrow> map_option snd (enable dev 0 c) | None \<Rightarrow> Some c)"

definition scd_drv_suspend :: "scd_driver \<Rightarrow> nat \<Rightarrow> scd_client \<Rightarrow> (int \<times> scd_client) option" where
  "scd_drv_suspend p_drv dev c = (case so_suspend p_drv of Some suspend \<Rightarrow> suspend dev c | None \<Rightarrow> Some (0, c))"

definition scd_drv_resume :: "scd_driver \<Rightarrow> nat \<Rightarrow> scd_client \<Rightarrow> (int \<times> scd_client) option" where
  "scd_drv_resume p_drv dev c = (case so_resume p_drv of Some resume \<Rightarrow> resume dev c | None \<Rightarrow> Some (0, c))"

definition scd_bus_type :: "scd_env \<Rightarrow> (nat \<Rightarrow> scd_driver) \<Rightarrow> scd_client bus_ops" where
  "scd_bus_type env to_scd_driver =
     \<lparr>bus_match = Some scd_bus_match, drv_probe = Some (\<lambda>drv. scd_drv_probe env (to_scd_driver drv)),
      drv_remove = Some (\<lambda>drv. scd_drv_remove env (to_scd_driver drv))\<rparr>"

abbreviation scd_ops :: "scd_env \<Rightarrow> scd_client bus_ops" where
  "scd_ops env \<equiv> scd_bus_type env (\<lambda>_. mars_scd_driver env)"

definition scd_bus_suspend :: "(nat \<Rightarrow> scd_driver) \<Rightarrow> nat \<Rightarrow> scd_bus \<Rightarrow> (int \<times> scd_bus) option" where
  "scd_bus_suspend to_scd_driver dev b = do {
     drv \<leftarrow> dev_driver b dev;
     (r, c) \<leftarrow> scd_drv_suspend (to_scd_driver drv) dev (client b);
     Some (r, b\<lparr>client := c\<rparr>)
   }"

definition scd_bus_resume :: "(nat \<Rightarrow> scd_driver) \<Rightarrow> nat \<Rightarrow> scd_bus \<Rightarrow> (int \<times> scd_bus) option" where
  "scd_bus_resume to_scd_driver dev b = do {
     drv \<leftarrow> dev_driver b dev;
     (r, c) \<leftarrow> scd_drv_resume (to_scd_driver drv) dev (client b);
     Some (r, b\<lparr>client := c\<rparr>)
   }"

definition register_scd_device :: "scd_client bus_ops \<Rightarrow> int \<Rightarrow> int \<Rightarrow> nat \<Rightarrow> scd_bus \<Rightarrow> (int \<times> scd_bus) option" where
  "register_scd_device ops kobj pm dev b =
     (let c = client b;
          c = c\<lparr>scd_devices := (scd_devices c)(dev := (scd_devices c dev)\<lparr>sd_bus_id := scd_device_count c\<rparr>),
                scd_device_count := scd_device_count c + 1\<rparr>
      in device_register ops True kobj pm dev (b\<lparr>client := c\<rparr>))"

definition unregister_scd_device :: "scd_client bus_ops \<Rightarrow> nat \<Rightarrow> scd_bus \<Rightarrow> scd_bus option" where
  "unregister_scd_device ops dev b = device_unregister ops dev b"

definition register_scd_driver :: "scd_client bus_ops \<Rightarrow> int \<Rightarrow> int \<Rightarrow> nat \<Rightarrow> scd_bus \<Rightarrow> (int \<times> scd_bus) option" where
  "register_scd_driver ops set_name register drv b = driver_register ops set_name register drv b"

definition unregister_scd_driver :: "scd_client bus_ops \<Rightarrow> nat \<Rightarrow> scd_bus \<Rightarrow> scd_bus option" where
  "unregister_scd_driver ops drv b = driver_unregister ops drv b"

text \<open>
  The module of the channels: \<open>drv\<close>, \<open>dev0\<close> and \<open>dev1\<close> are the addresses of \<open>mars_scd_driver\<close> and of the two elements of
  \<open>mars_scd_controller\<close>; the results of registering the devices are not looked at.
\<close>

definition mars_scd_module_init :: "scd_env \<Rightarrow> int \<Rightarrow> int \<Rightarrow> int \<Rightarrow> int \<Rightarrow> nat \<Rightarrow> nat \<Rightarrow> nat \<Rightarrow> scd_bus \<Rightarrow> (int \<times> scd_bus) option" where
  "mars_scd_module_init env set_name register kobj pm drv dev0 dev1 b = do {
     (r, b) \<leftarrow> register_scd_driver (scd_ops env) set_name register drv b;
     if r \<noteq> 0 then Some (- EFAULT, b)
     else do {
       (_, b) \<leftarrow> register_scd_device (scd_ops env) kobj pm dev0 b;
       (_, b) \<leftarrow> register_scd_device (scd_ops env) kobj pm dev1 b;
       Some (0, b)
     }
   }"

definition mars_scd_module_exit :: "scd_env \<Rightarrow> nat \<Rightarrow> nat \<Rightarrow> nat \<Rightarrow> scd_bus \<Rightarrow> scd_bus option" where
  "mars_scd_module_exit env drv dev0 dev1 b = do {
     b \<leftarrow> unregister_scd_device (scd_ops env) dev0 b;
     b \<leftarrow> unregister_scd_device (scd_ops env) dev1 b;
     unregister_scd_driver (scd_ops env) drv b
   }"

section \<open>The device files\<close>

definition scd_dev_module_init :: "int \<Rightarrow> scd_client \<Rightarrow> int \<times> scd_client" where
  "scd_dev_module_init region c =
     (if region \<noteq> 0 then (- EFAULT, c) else (0, c\<lparr>scd_nodes := init_nodes MAX_SCD_CNT (scd_nodes c)\<rparr>))"

definition scd_dev_module_exit :: "scd_client \<Rightarrow> scd_client" where
  "scd_dev_module_exit c = c\<lparr>scd_nodes := exit_nodes [0..<MAX_SCD_CNT] (scd_nodes c)\<rparr>"

text \<open>The start of the core: the result of setting up the device files is not looked at.\<close>

definition scd_core_init :: "int \<Rightarrow> int \<Rightarrow> scd_client \<Rightarrow> int \<times> scd_client" where
  "scd_core_init region bus_register c = (bus_register, snd (scd_dev_module_init region c))"

definition scd_core_exit :: "scd_client \<Rightarrow> scd_client" where
  "scd_core_exit c = scd_dev_module_exit c"

definition scd_node :: "nat \<Rightarrow> scd_bus \<Rightarrow> nat option option" where
  "scd_node i b = (if i < length (node_list (scd_nodes (client b))) then Some (node_list (scd_nodes (client b)) ! i) else None)"

definition call_scd :: "(nat \<Rightarrow> scd_driver) \<Rightarrow> nat \<Rightarrow> (scd_driver \<Rightarrow> ('a option)) \<Rightarrow> ('a \<Rightarrow> scd_client \<Rightarrow> ('r \<times> scd_client) option) \<Rightarrow>
    scd_bus \<Rightarrow> ('r \<times> scd_bus) option" where
  "call_scd to_scd_driver dev sel f b = do {
     drv \<leftarrow> dev_driver b dev;
     op \<leftarrow> sel (to_scd_driver drv);
     (r, c) \<leftarrow> f op (client b);
     Some (r, b\<lparr>client := c\<rparr>)
   }"

definition scd_dev_open :: "(nat \<Rightarrow> scd_driver) \<Rightarrow> nat \<Rightarrow> scd_bus \<Rightarrow> (int \<times> scd_bus) option" where
  "scd_dev_open to_scd_driver i b = do {
     d \<leftarrow> scd_node i b;
     case d of
       None \<Rightarrow> Some (- ENODEV, b)
     | Some dev \<Rightarrow> do { (_, b) \<leftarrow> call_scd to_scd_driver dev so_enable (\<lambda>enable. enable dev 1) b; Some (0, b) }
   }"

definition scd_dev_release :: "(nat \<Rightarrow> scd_driver) \<Rightarrow> nat \<Rightarrow> scd_bus \<Rightarrow> (int \<times> scd_bus) option" where
  "scd_dev_release to_scd_driver i b = do {
     d \<leftarrow> scd_node i b;
     case d of
       None \<Rightarrow> Some (0, b)
     | Some dev \<Rightarrow> do { (_, b) \<leftarrow> call_scd to_scd_driver dev so_enable (\<lambda>enable. enable dev 0) b; Some (0, b) }
   }"

definition set_user :: "mem \<Rightarrow> scd_bus \<Rightarrow> scd_bus" where
  "set_user m b = b\<lparr>client := (client b)\<lparr>suser := m\<rparr>\<rparr>"

text \<open>\<open>copy_to_user\<close>: what is left behind, and the memory with the rest copied.\<close>

definition copy_to_user :: "scd_env \<Rightarrow> nat \<Rightarrow> u8 list \<Rightarrow> scd_bus \<Rightarrow> nat \<times> scd_bus" where
  "copy_to_user env a bs b =
     (let left = to_left env a (length bs)
      in (left, set_user (store a (take (length bs - left) bs) (suser (client b))) b))"

text \<open>The structures in user memory: parameters, and the descriptor of a message.\<close>

definition get_param :: "mem \<Rightarrow> nat \<Rightarrow> scd_param" where
  "get_param m a = \<lparr>p_clk = load32 m a, p_etu = load32 m (a + 4), p_parity = m (a + 8)\<rparr>"

definition param_bytes :: "scd_env \<Rightarrow> scd_param \<Rightarrow> u8 list" where
  "param_bytes env p = le32 (p_clk p) @ le32 (p_etu p) @ [p_parity p] @ stack_pad env"

definition get_msg_buff :: "mem \<Rightarrow> nat \<Rightarrow> nat \<times> nat" where
  "get_msg_buff m a = (unat (load32 m a), unat (load32 m (a + 4)))"

definition kfree_scb :: "nat \<Rightarrow> scd_bus \<Rightarrow> scd_bus" where
  "kfree_scb a b = b\<lparr>client := (client b)\<lparr>scbs := (scbs (client b))(a := None)\<rparr>\<rparr>"

text \<open>The answer to reset is put byte by byte; the results of \<open>put_user\<close> are not looked at.\<close>

fun put_bytes :: "scd_env \<Rightarrow> nat \<Rightarrow> u8 list \<Rightarrow> scd_bus \<Rightarrow> scd_bus" where
  "put_bytes env a [] b = b"
| "put_bytes env a (x # xs) b = put_bytes env (a + 1) xs (snd (copy_to_user env a [x] b))"

definition ioctl_get_atr :: "scd_env \<Rightarrow> (nat \<Rightarrow> scd_driver) \<Rightarrow> nat \<Rightarrow> nat \<Rightarrow> scd_bus \<Rightarrow> (int \<times> scd_bus) option" where
  "ioctl_get_atr env to_scd_driver dev arg b = do {
     ((r, a), b) \<leftarrow> call_scd to_scd_driver dev so_get_atr (\<lambda>get_atr. get_atr dev (stack_atr env)) b;
     if r \<noteq> 0 then Some (- 1, b)
     else if unat (atr_length a) > length (atr_data a) then None
     else
       let b = put_bytes env (arg + MAX_ATR_SIZE) [atr_length a] b
       in Some (0, put_bytes env arg (take (unat (atr_length a)) (atr_data a)) b)
   }"

definition ioctl_read :: "scd_env \<Rightarrow> (nat \<Rightarrow> scd_driver) \<Rightarrow> nat \<Rightarrow> nat \<Rightarrow> scd_bus \<Rightarrow> (int \<times> scd_bus) option" where
  "ioctl_read env to_scd_driver dev arg b =
     (if from_fault env arg SIZEOF_SC_MSG_BUFF then Some (- EFAULT, b)
      else
        let (p_data, n) = get_msg_buff (suser (client b)) arg in do {
          (scb, b) \<leftarrow> call_scd to_scd_driver dev so_read (\<lambda>read. read dev) b;
          case scb of
            None \<Rightarrow> Some (- EFAULT, b)
          | Some a \<Rightarrow> do {
              m \<leftarrow> scbs (client b) a;
              if unat (sc_len m) > n then Some (- ENOMEM, kfree_scb a b)
              else
                let bs = load (kbytes (client b)) (nat (sc_data m)) (unat (sc_len m));
                    b = snd (copy_to_user env p_data bs b)
                in Some (int (unat (sc_len m)), kfree_scb a b)
            }
        })"

definition ioctl_write :: "scd_env \<Rightarrow> (nat \<Rightarrow> scd_driver) \<Rightarrow> nat \<Rightarrow> nat \<Rightarrow> scd_bus \<Rightarrow> (int \<times> scd_bus) option" where
  "ioctl_write env to_scd_driver dev arg b =
     (if from_fault env arg SIZEOF_SC_MSG_BUFF then Some (- EFAULT, b)
      else
        let (p_data, n) = get_msg_buff (suser (client b)) arg;
            addr = scb_addr env (client b)
        in case (addr, alloc_scb (map_option (\<lambda>a. a + SIZEOF_SC_BUFF) addr) n) of
             (Some a, Some m) \<Rightarrow>
               let (ptr, m) = scb_put n m;
                   b = b\<lparr>client := (client b)\<lparr>scbs := (scbs (client b))(a \<mapsto> m)\<rparr>\<rparr>
               in if from_fault env p_data n then Some (- EFAULT, b)
                  else
                    let b = b\<lparr>client := (client b)\<lparr>kbytes := store (nat ptr) (load (suser (client b)) p_data n) (kbytes (client b))\<rparr>\<rparr>
                    in call_scd to_scd_driver dev so_xmit (\<lambda>xmit. xmit dev a) b
           | _ \<Rightarrow> Some (- ENOMEM, b))"

definition scd_dev_ioctl :: "scd_env \<Rightarrow> (nat \<Rightarrow> scd_driver) \<Rightarrow> nat \<Rightarrow> nat \<Rightarrow> nat \<Rightarrow> scd_bus \<Rightarrow> (int \<times> scd_bus) option" where
  "scd_dev_ioctl env to_scd_driver i cmd arg b = do {
     d \<leftarrow> scd_node i b;
     case d of
       None \<Rightarrow> Some (- ENODEV, b)
     | Some dev \<Rightarrow>
         if cmd = SCD_SETPARAM then
           if from_fault env arg SIZEOF_SCD_PARAM then Some (- EFAULT, b)
           else call_scd to_scd_driver dev so_set_param (\<lambda>set_param. set_param dev (get_param (suser (client b)) arg)) b
         else if cmd = SCD_GETPARAM then do {
           ((r, p), b) \<leftarrow> call_scd to_scd_driver dev so_get_param (\<lambda>get_param. get_param dev) b;
           if r < 0 then Some (- EFAULT, b)
           else let (left, b) = copy_to_user env arg (param_bytes env p) b in Some (int left, b)
         }
         else if cmd = SCD_ACTIVE then call_scd to_scd_driver dev so_activate (\<lambda>activate. activate dev) b
         else if cmd = SCD_DEACTIVE then call_scd to_scd_driver dev so_deactivate (\<lambda>deactivate. deactivate dev) b
         else if cmd = SCD_RESET then call_scd to_scd_driver dev so_reset (\<lambda>reset. reset dev) b
         else if cmd = SCD_CARD_DETECT then call_scd to_scd_driver dev so_get_card_status (\<lambda>status. status dev) b
         else if cmd = SCD_POLL_CARD_STATUS_CHANGE then call_scd to_scd_driver dev so_poll_card_status (\<lambda>poll. poll dev) b
         else if cmd = SCD_GET_ATR then ioctl_get_atr env to_scd_driver dev arg b
         else if cmd = SCD_READ then ioctl_read env to_scd_driver dev arg b
         else if cmd = SCD_WRITE then ioctl_write env to_scd_driver dev arg b
         else Some (- EFAULT, b)
   }"

end
