(* ===== verification/Scd_Dev_Props.thy ===== *)
theory Scd_Dev_Props
  imports Scd_Dev
begin

text \<open>
  The smart card core on the driver core: its callbacks meet the contract of a bus client, and the device files
  pass messages between user memory and the queues of a channel. A write of 256 bytes or more is cut short and reported as
  successful, and clock parameters of a caller divide by zero.
\<close>

section \<open>The client of the bus\<close>

definition is_mars :: "scd_device \<Rightarrow> bool" where
  "is_mars d \<longleftrightarrow> sd_id d AND 0xFFFFFFFC = 0x12830000"

definition channel :: "scd_device \<Rightarrow> nat" where
  "channel d = unat (sd_id d AND 3)"

definition scd_client_ok :: "scd_client \<Rightarrow> bool" where
  "scd_client_ok c \<longleftrightarrow> (\<forall>a s. scd_heap c a = Some s \<longrightarrow> scd_inv s) \<and> length (node_list (scd_nodes c)) = MAX_SCD_CNT \<and>
     (\<forall>d e. is_mars (scd_devices c d) \<longrightarrow> is_mars (scd_devices c e) \<longrightarrow> channel (scd_devices c d) = channel (scd_devices c e) \<longrightarrow> d = e)"

text \<open>The driver data of a device is a live structure for its channel.\<close>

definition scd_ready :: "nat \<Rightarrow> scd_client \<Rightarrow> bool" where
  "scd_ready dev c \<longleftrightarrow> is_mars (scd_devices c dev) \<and>
     (\<exists>a s. sd_drvdata (scd_devices c dev) = Some a \<and> scd_heap c a = Some s \<and> sc_id (scd s) = channel (scd_devices c dev))"

definition scd_env_ok :: "scd_env \<Rightarrow> bool" where
  "scd_env_ok env \<longleftrightarrow> (\<forall>c a. scd_addr env c = Some a \<longrightarrow> scd_heap c a = None)"

definition scd_fresh_env :: "scd_env \<Rightarrow> scd_env" where
  "scd_fresh_env env = env\<lparr>scd_addr := \<lambda>c. case scd_addr env c of Some a \<Rightarrow> if scd_heap c a = None then Some a else None | None \<Rightarrow> None\<rparr>"

lemma scd_fresh_env_ok: "scd_env_ok (scd_fresh_env env)"
  by (simp add: scd_env_ok_def scd_fresh_env_def split: option.split)

lemma scd_fresh_env_id:
  assumes "scd_env_ok env"
  shows "scd_fresh_env env = env"
proof -
  have "(\<lambda>c. case scd_addr env c of Some a \<Rightarrow> if scd_heap c a = None then Some a else None | None \<Rightarrow> None) = scd_addr env"
    using assms by (auto simp: fun_eq_iff scd_env_ok_def split: option.split)
  then show ?thesis by (simp add: scd_fresh_env_def)
qed

lemma scd_node_facts [simp]:
  "scd_heap (snd (create_scd_dev_node env dev c)) = scd_heap c" "scd_devices (snd (create_scd_dev_node env dev c)) = scd_devices c"
  "length (node_list (scd_nodes (snd (create_scd_dev_node env dev c)))) = length (node_list (scd_nodes c))"
  by (simp_all add: create_scd_dev_node_def Let_def split: prod.split) (metis length_create snd_conv)

lemma open_id: "mars_scd_open i al r now = Some s \<Longrightarrow> sc_id (scd s) = i"
  by (auto simp: mars_scd_open_def Let_def mars_scd_set_state_def sc_set_defs split: if_splits)

lemma scd_probe_total:
  assumes ok: "scd_client_ok c" "scd_env_ok env"
  shows "\<exists>e c'. scd_drv_probe env (mars_scd_driver env) dev c = Some (e, c') \<and> scd_client_ok c' \<and> (e = 0 \<longrightarrow> scd_ready dev c') \<and>
    (\<forall>d. d \<noteq> dev \<longrightarrow> scd_ready d c \<longrightarrow> scd_ready d c')"
proof -
  let ?d = "scd_devices c dev"
  consider (other) "\<not> is_mars ?d"
    | (fails) "is_mars ?d" "scd_addr env c = None \<or> mars_scd_open (channel ?d) (scd_addr env c \<noteq> None) (chan_regs c (channel ?d)) (scd_now c) = None"
    | (opens) a s where "is_mars ?d" "scd_addr env c = Some a" "mars_scd_open (channel ?d) True (chan_regs c (channel ?d)) (scd_now c) = Some s"
    by (cases "scd_addr env c") auto
  then show ?thesis
  proof cases
    case other then show ?thesis using ok by (simp add: scd_drv_probe_def mars_scd_driver_def scd_ops_probe_def is_mars_def)
  next
    case fails
    then have "scd_ops_probe env dev c = Some (- ENOMEM, c)"
      by (cases "scd_addr env c") (auto simp: scd_ops_probe_def is_mars_def channel_def Let_def)
    then show ?thesis using ok by (simp add: scd_drv_probe_def mars_scd_driver_def)
  next
    case opens
    define c' where "c' = c\<lparr>scd_heap := (scd_heap c)(a \<mapsto> s), scd_devices := (scd_devices c)(dev := ?d\<lparr>sd_drvdata := Some a\<rparr>)\<rparr>"
    have "scd_ops_probe env dev c = Some (0, c')" using opens by (simp add: scd_ops_probe_def is_mars_def channel_def Let_def c'_def)
    moreover have "scd_client_ok c'" using ok(1) open_inv [OF opens(3)] by (auto simp: scd_client_ok_def c'_def is_mars_def channel_def)
    moreover have "scd_ready dev c'" using opens open_id [OF opens(3)] by (simp add: scd_ready_def c'_def is_mars_def channel_def)
    moreover have "scd_heap c a = None" using ok(2) opens(2) by (simp add: scd_env_ok_def)
    then have "\<forall>d. d \<noteq> dev \<longrightarrow> scd_ready d c \<longrightarrow> scd_ready d c'" by (auto simp: scd_ready_def c'_def)
    ultimately show ?thesis by (simp add: scd_drv_probe_def mars_scd_driver_def scd_client_ok_def scd_ready_def)
  qed
qed

lemma scd_remove_total:
  assumes ok: "scd_client_ok c" and r: "scd_ready dev c"
  shows "\<exists>c'. scd_drv_remove env (mars_scd_driver env) dev c = Some c' \<and> scd_client_ok c' \<and> (\<forall>d. d \<noteq> dev \<longrightarrow> scd_ready d c \<longrightarrow> scd_ready d c')"
proof -
  obtain a s where a: "is_mars (scd_devices c dev)" "sd_drvdata (scd_devices c dev) = Some a" "scd_heap c a = Some s" "sc_id (scd s) = channel (scd_devices c dev)"
    using r by (auto simp: scd_ready_def)
  have "scd_ready d (c\<lparr>scd_heap := (scd_heap c)(a := None), chan_regs := g\<rparr>)" if "d \<noteq> dev" "scd_ready d c" for d g
  proof -
    obtain a' s' where d: "is_mars (scd_devices c d)" "sd_drvdata (scd_devices c d) = Some a'" "scd_heap c a' = Some s'" "sc_id (scd s') = channel (scd_devices c d)"
      using \<open>scd_ready d c\<close> by (auto simp: scd_ready_def)
    have "a' \<noteq> a" using that(1) a d ok by (auto simp: scd_client_ok_def)
    then show ?thesis using d by (simp add: scd_ready_def)
  qed
  then show ?thesis using a ok
    by (auto simp: scd_drv_remove_def mars_scd_driver_def scd_ops_remove_def scd_client_ok_def scd_ready_def Let_def split: if_splits)
qed

interpretation scdb: bus_client "scd_ops (scd_fresh_env env)" scd_client_ok scd_ready
  "\<lambda>drv. scd_drv_probe (scd_fresh_env env) (mars_scd_driver (scd_fresh_env env))" "\<lambda>drv. scd_drv_remove (scd_fresh_env env) (mars_scd_driver (scd_fresh_env env))"
  by unfold_locales (simp_all add: scd_bus_type_def scd_probe_total [OF _ scd_fresh_env_ok] scd_remove_total)

text \<open>
  Whatever is registered and unregistered on the smart card bus, in any order, the lists stay consistent, every bound device
  has a live structure for its own channel, every structure is in order, and the next call returns without a fault.
\<close>

theorem scd_bus_safe:
  assumes "scd_env_ok env" "scd_client_ok c" "bus_reach (scd_ops env) c b"
  shows "bus_good scd_client_ok scd_ready b \<and> (\<forall>req. bus_req_ok req b \<longrightarrow> (\<exists>b'. bus_do (scd_ops env) req b = Some b'))"
proof -
  have g: "bus_good scd_client_ok scd_ready b"
    using scdb.bus_reach_good [of env c b] assms by (simp add: scd_fresh_env_id)
  then show ?thesis using scdb.bus_do_good [OF g, of _ env] scd_fresh_env_id [OF assms(1)] by auto
qed

lemma scd_core_exit_clears:
  "length (node_list (scd_nodes c)) = MAX_SCD_CNT \<Longrightarrow> node_list (scd_nodes (scd_core_exit c)) = replicate MAX_SCD_CNT None"
  using exit_clears [of 0 "scd_nodes c"] by (simp add: scd_core_exit_def scd_dev_module_exit_def)

section \<open>Messages\<close>

text \<open>A node whose device is bound to the driver and has the channel structure at \<open>h\<close>.\<close>

definition scd_open_node :: "nat \<Rightarrow> nat \<Rightarrow> nat \<Rightarrow> scd_sys \<Rightarrow> scd_bus \<Rightarrow> bool" where
  "scd_open_node i dev h s b \<longleftrightarrow> scd_node i b = Some (Some dev) \<and> dev_driver b dev \<noteq> None \<and>
     sd_drvdata (scd_devices (client b) dev) = Some h \<and> scd_heap (client b) h = Some s"

lemma load_store_take: "k \<le> length bs \<Longrightarrow> load (store a bs m) a k = take k bs"
  by (rule nth_equalityI) (auto simp: store_def)

text \<open>What a write does, whatever the length: the length field of the buffer is a byte.\<close>

lemma ioctl_write_run:
  assumes node: "scd_open_node i dev h s b" and mem: "scb_addr env (client b) = Some a"
    and user: "get_msg_buff (suser (client b)) arg = (p, length msg)" "load (suser (client b)) p (length msg) = msg"
    and copy: "\<not> from_fault env arg 8" "\<not> from_fault env p (length msg)"
  shows "\<exists>b' s'. scd_dev_ioctl env (\<lambda>_. mars_scd_driver env) i SCD_WRITE arg b = Some (if length msg mod 256 \<le> 32 then 0 else - 1, b') \<and>
    scd_open_node i dev h s' b' \<and> scd s' = scd s \<and> scbs (client b') a \<noteq> None \<and>
    TXFIFO (regs s') = TXFIFO (regs s) @ (if length msg mod 256 \<le> 32 then take (length msg mod 256) msg else [])"
proof -
  let ?n = "length msg"
  have n: "unat (of_nat ?n :: u8) = ?n mod 256" by (simp add: unat_of_nat take_bit_eq_mod)
  have l: "load (store (a + 44) msg (kbytes (client b))) (nat (int a + 44)) (?n mod 256) = take (?n mod 256) msg"
    using load_store_take [of "?n mod 256" msg "a + 44" "kbytes (client b)"] by (simp add: nat_add_distrib)
  show ?thesis
    using assms n l
    by (auto simp: scd_dev_ioctl_def ioctl_write_def scd_open_node_def scd_node_def call_scd_def mars_scd_driver_def scd_ops_xmit_def on_scd_def alloc_scb_def scb_put_def
        mars_scd_xmit_def SET_SCCR_def Let_def nat_add_distrib split: if_splits)
qed

text \<open>Channel 0 at address 900 behind node 0, with two received bytes; user memory has a descriptor at 1000 for \<open>n\<close> bytes at 1800, and a clock of 0 at 1000 when its first word is 0.\<close>

definition sample_channel :: scd_sys where
  "sample_channel = sample_scd\<lparr>regs := (regs sample_scd)\<lparr>RXFIFO := [0x3B, 0x00], TXFIFO := []\<rparr>\<rparr>"

definition sample_scd_bus :: "u8 list \<Rightarrow> scd_bus" where
  "sample_scd_bus desc = \<lparr>bus_drivers = [600], bus_devices = [500], drv_devices = (\<lambda>_. [])(600 := [500]), dev_driver = (\<lambda>_. None)(500 := Some 600),
     client = \<lparr>scd_devices = \<lambda>d. \<lparr>sd_id = (if d = 500 then 0x12830000 else 0), sd_bus_id = 0, sd_drvdata = Some 900\<rparr>,
       scd_heap = (\<lambda>_. None)(900 := Some sample_channel), chan_regs = \<lambda>_. sample_regs, scd_now = 1000,
       scd_nodes = \<lparr>node_list = [Some 500, None], cdev_added = [0], devfs = [0]\<rparr>, scd_device_count = 1, scbs = \<lambda>_. None, kbytes = \<lambda>_. 0,
       suser = store 1000 desc (store 1800 [0xA0, 0xA4, 0x00, 0x00] (\<lambda>_. 0))\<rparr>\<rparr>"

definition sample_scd_env :: scd_env where
  "sample_scd_env = \<lparr>scd_addr = \<lambda>_. None, scb_addr = \<lambda>_. Some 2000, scd_sleep = \<lambda>s. s, add_fails = \<lambda>_. False, from_fault = \<lambda>_ _. False,
     to_left = \<lambda>_ _. 0, stack_atr = \<lparr>atr_data = replicate 32 0, atr_length = 0\<rparr>, stack_pad = [0, 0, 0]\<rparr>"

lemma sample_node: "scd_open_node 0 500 900 sample_channel (sample_scd_bus desc)"
  by (simp add: scd_open_node_def sample_scd_bus_def scd_node_def)

lemma sample_scd_env_simps: "scb_addr sample_scd_env c = Some 2000" "\<not> from_fault sample_scd_env p n" "to_left sample_scd_env p n = 0"
  by (simp_all add: sample_scd_env_def)

lemma sample_suser: "suser (client (sample_scd_bus desc)) = store 1000 desc (store 1800 [0xA0, 0xA4, 0x00, 0x00] (\<lambda>_. 0))"
  by (simp add: sample_scd_bus_def)

lemma sample_desc:
  "get_msg_buff (suser (client (sample_scd_bus [0x08, 0x07, 0, 0, 4, 0, 0, 0]))) 1000 = (1800, length [0xA0, 0xA4, 0, 0 :: u8])"
  "load (suser (client (sample_scd_bus [0x08, 0x07, 0, 0, 4, 0, 0, 0]))) 1800 (length [0xA0, 0xA4, 0, 0 :: u8]) = [0xA0, 0xA4, 0, 0]"
  "get_msg_buff (suser (client (sample_scd_bus [0x08, 0x07, 0, 0, 2, 1, 0, 0]))) 1000 = (1800, 258)"
  "unat (p_clk (get_param (suser (client (sample_scd_bus [0, 0, 0, 0]))) 1000)) = 0"
  unfolding sample_suser by code_simp+

text \<open>
  C24: Writing a message of up to 32 bytes through a smart card node puts exactly the bytes of the caller behind what the transmit queue
  holds and returns 0; a message of 33 to 255 bytes is refused with -1 and nothing is sent. The buffer that held the message is not freed.
\<close>

theorem scd_ioctl_writes:
  assumes "scd_open_node i dev h s b" "scb_addr env (client b) = Some a"
    and "get_msg_buff (suser (client b)) arg = (p, length msg)" "load (suser (client b)) p (length msg) = msg" "length msg < 256"
    and "\<not> from_fault env arg 8" "\<not> from_fault env p (length msg)"
  shows "\<exists>b' s'. scd_dev_ioctl env (\<lambda>_. mars_scd_driver env) i SCD_WRITE arg b = Some (if length msg \<le> 32 then 0 else - 1, b') \<and>
    scd_open_node i dev h s' b' \<and> TXFIFO (regs s') = TXFIFO (regs s) @ (if length msg \<le> 32 then msg else []) \<and> scbs (client b') a \<noteq> None"
  using ioctl_write_run [OF assms(1-4,6,7)] assms(5) by auto

theorem scd_ioctl_writes_witness:
  "\<exists>b' s'. scd_dev_ioctl sample_scd_env (\<lambda>_. mars_scd_driver sample_scd_env) 0 SCD_WRITE 1000 (sample_scd_bus [0x08, 0x07, 0, 0, 4, 0, 0, 0]) = Some (0, b') \<and>
    scd_open_node 0 500 900 s' b' \<and> TXFIFO (regs s') = [0xA0, 0xA4, 0, 0]"
  using scd_ioctl_writes [OF sample_node sample_scd_env_simps(1) sample_desc(1,2) _ sample_scd_env_simps(2) sample_scd_env_simps(2)]
  by (auto simp: sample_channel_def)

text \<open>
  A write of 256 bytes or more whose length has a low byte of at most 32 returns 0 although only as many bytes as the low byte says, and so not
  the whole message, reach the transmit queue.
\<close>

theorem scd_long_write_cut:
  assumes "scd_open_node i dev h s b" "scb_addr env (client b) = Some a"
    and "get_msg_buff (suser (client b)) arg = (p, length msg)" "load (suser (client b)) p (length msg) = msg"
    and "256 \<le> length msg" "length msg mod 256 \<le> 32" "\<not> from_fault env arg 8" "\<not> from_fault env p (length msg)"
  shows "\<exists>b' s'. scd_dev_ioctl env (\<lambda>_. mars_scd_driver env) i SCD_WRITE arg b = Some (0, b') \<and> scd_open_node i dev h s' b' \<and>
    TXFIFO (regs s') = TXFIFO (regs s) @ take (length msg mod 256) msg \<and> take (length msg mod 256) msg \<noteq> msg"
proof -
  have "take (length msg mod 256) msg \<noteq> msg" using assms(5,6) by (auto dest: arg_cong [of _ _ length])
  then show ?thesis using ioctl_write_run [OF assms(1-4,7,8)] assms(6) by auto
qed

theorem scd_long_write_cut_witness:
  "\<exists>b' s'. scd_dev_ioctl sample_scd_env (\<lambda>_. mars_scd_driver sample_scd_env) 0 SCD_WRITE 1000 (sample_scd_bus [0x08, 0x07, 0, 0, 2, 1, 0, 0]) = Some (0, b') \<and>
    scd_open_node 0 500 900 s' b' \<and> length (TXFIFO (regs s')) = 2"
proof -
  let ?b = "sample_scd_bus [0x08, 0x07, 0, 0, 2, 1, 0, 0]"
  let ?m = "load (suser (client ?b)) 1800 258"
  have "get_msg_buff (suser (client ?b)) 1000 = (1800, length ?m)" "load (suser (client ?b)) 1800 (length ?m) = ?m" using sample_desc(3) by simp_all
  from scd_long_write_cut [OF sample_node sample_scd_env_simps(1) this _ _ sample_scd_env_simps(2) sample_scd_env_simps(2)]
  show ?thesis by (fastforce simp: sample_channel_def)
qed

text \<open>
  Reading through a smart card node takes everything the channel has received: it is copied to the caller byte for byte and its
  length returned when it fits, and lost with \<open>-ENOMEM\<close> when it does not; the buffer used is freed.
\<close>

theorem scd_ioctl_reads:
  assumes node: "scd_open_node i dev h s b" and mem: "scb_addr env (client b) = Some a"
    and user: "get_msg_buff (suser (client b)) arg = (p, n)" "\<not> from_fault env arg 8" "to_left env p (length bs) = 0"
    and bs: "RXFIFO (regs s) = bs" "bs \<noteq> []" "length bs < 256"
  shows "\<exists>b' s'. scd_dev_ioctl env (\<lambda>_. mars_scd_driver env) i SCD_READ arg b = Some (if length bs > n then - ENOMEM else int (length bs), b') \<and>
    suser (client b') = (if length bs > n then suser (client b) else store p bs (suser (client b))) \<and>
    scd_open_node i dev h s' b' \<and> RXFIFO (regs s') = [] \<and> scbs (client b') a = None"
proof -
  have l: "unat (of_nat (length bs) :: u8) = length bs" using bs(3) by (simp add: unat_of_nat take_bit_nat_eq_self)
  have m: "load (store (a + 44) bs (kbytes (client b))) (nat (int a + 44)) (length bs) = bs"
    using load_store_same [of "a + 44" bs "kbytes (client b)"] by (simp add: nat_add_distrib)
  show ?thesis
    using node mem user bs l m
    by (auto simp: scd_dev_ioctl_def ioctl_read_def scd_open_node_def scd_node_def call_scd_def mars_scd_driver_def scd_ops_read_def on_scd_def mars_scd_read_def
        alloc_scb_def scb_put_def copy_to_user_def set_user_def kfree_scb_def Let_def nat_add_distrib split: if_splits)
qed

theorem scd_ioctl_reads_witness:
  "\<exists>b'. scd_dev_ioctl sample_scd_env (\<lambda>_. mars_scd_driver sample_scd_env) 0 SCD_READ 1000 (sample_scd_bus [0x08, 0x07, 0, 0, 4, 0, 0, 0]) = Some (2, b') \<and>
    suser (client b') = store 1800 [0x3B, 0x00] (suser (client (sample_scd_bus [0x08, 0x07, 0, 0, 4, 0, 0, 0])))"
  using scd_ioctl_reads [OF sample_node sample_scd_env_simps(1) sample_desc(1) sample_scd_env_simps(2) sample_scd_env_simps(3) refl]
  by (auto simp: sample_channel_def)

section \<open>Parameters\<close>

text \<open>
  A caller can make the driver divide by zero: with a clock of 0 setting the parameters faults at once; with a clock above
  the 27 MHz of the system it succeeds with a divider of 0, and reading the parameters back then faults.
\<close>

theorem scd_clock_divides_by_zero:
  assumes node: "scd_open_node i dev h s b" "clock_div (scd s) = 1" and arg: "\<not> from_fault env arg 12"
  defines "clk \<equiv> unat (p_clk (get_param (suser (client b)) arg))"
  shows "(clk = 0 \<longrightarrow> scd_dev_ioctl env (\<lambda>_. mars_scd_driver env) i SCD_SETPARAM arg b = None) \<and>
    (SYSTEM_CLK < clk \<longrightarrow> (\<exists>b'. scd_dev_ioctl env (\<lambda>_. mars_scd_driver env) i SCD_SETPARAM arg b = Some (0, b') \<and>
       scd_dev_ioctl env (\<lambda>_. mars_scd_driver env) i SCD_GETPARAM arg2 b' = None))"
  using assms
  by (auto simp: scd_dev_ioctl_def scd_open_node_def scd_node_def call_scd_def mars_scd_driver_def scd_ops_set_param_def scd_ops_get_param_def on_scd_def
      mars_scd_set_clock_def mars_scd_set_etu_def mars_scd_set_parity_def mars_scd_get_clock_def Let_def SET_SCFP_def SET_SCCR_def clk_def split: if_splits)
theorem scd_clock_divides_by_zero_witness:
  "scd_dev_ioctl sample_scd_env (\<lambda>_. mars_scd_driver sample_scd_env) 0 SCD_SETPARAM 1000 (sample_scd_bus [0, 0, 0, 0]) = None"
proof -
  have "clock_div (scd sample_channel) = 1"
    by (simp add: sample_channel_def sample_scd_def mars_scd_open_def mars_scd_set_state_def Let_def sc_set_defs)
  from scd_clock_divides_by_zero [OF sample_node this sample_scd_env_simps(2)] show ?thesis using sample_desc(4) by blast
qed

end
