(* ===== verification/Mcp.thy ===== *)
theory Mcp
  imports Msg_Buffers
begin

text \<open>
  The crypto engine (\<open>R/mcp.c\<close>): descriptors, the polled transfer, and the operations built on them. The
  engine itself is hardware and an argument of the model: for a list of descriptors and a memory it says
  what polling the control and status registers reads, and how memory looks afterwards. Addresses are the
  ones the engine sees, which \<open>dma_map_single\<close> returns for a pointer; the mappings are released
  where they were made. Register writes and the descriptors handed to the engine are recorded.
\<close>

section \<open>Descriptors and registers\<close>

record mcp_desc =
  d_flags :: u32
  d_key :: "u32 list"
  d_iv :: "u32 list"
  d_in :: nat
  d_out :: nat
  d_len :: nat

datatype mcp_reg = MCP_CTRL | MCP_STATUS | MCP_EN | MCP_BASE | MCP_LIMIT | MCP_RDPTR | MCP_WRPTR | MCP_CTRL1

record mcp_sys =
  m_mem :: mem
  m_log :: "(mcp_reg \<times> u32) list"
  m_issued :: "mcp_desc list"
  m_desc :: u32

type_synonym engine = "mcp_desc list \<Rightarrow> mem \<Rightarrow> (nat \<Rightarrow> u32 \<times> u32) \<times> mem"

abbreviation (input) MCP_GO :: u32 where "MCP_GO \<equiv> 2"
abbreviation (input) MCP_CLEAR :: u32 where "MCP_CLEAR \<equiv> 16"
abbreviation (input) MCP_WRITE_DATA :: u32 where "MCP_WRITE_DATA \<equiv> 1"
abbreviation (input) MCP_RING_EMPTY :: u32 where "MCP_RING_EMPTY \<equiv> 2"
abbreviation (input) MCP_ALGO_DES :: u32 where "MCP_ALGO_DES \<equiv> 0"
abbreviation (input) MCP_ALGO_3DES :: u32 where "MCP_ALGO_3DES \<equiv> 1"
abbreviation (input) MCP_ALGO_SHA_1 :: u32 where "MCP_ALGO_SHA_1 \<equiv> 4"
abbreviation (input) MCP_ALGO_AES :: u32 where "MCP_ALGO_AES \<equiv> 5"
abbreviation (input) MCP_ALGO_AES_H :: u32 where "MCP_ALGO_AES_H \<equiv> 7"
abbreviation (input) MCP_BCM_ECB :: u8 where "MCP_BCM_ECB \<equiv> 0"
abbreviation (input) MCP_BCM_CBC :: u8 where "MCP_BCM_CBC \<equiv> 1"
abbreviation (input) MCP_BCM_CTR :: u8 where "MCP_BCM_CTR \<equiv> 2"
abbreviation (input) SIZEOF_MCP_DESC :: nat where "SIZEOF_MCP_DESC \<equiv> 56"
abbreviation (input) MCP_DESC_ENTRY_COUNT :: nat where "MCP_DESC_ENTRY_COUNT \<equiv> 10"
abbreviation (input) SHA1_DIGEST_SIZE :: nat where "SHA1_DIGEST_SIZE \<equiv> 20"
abbreviation (input) FIRST_BLOCK :: u8 where "FIRST_BLOCK \<equiv> 0x80"
abbreviation (input) LAST_BLOCK :: u8 where "LAST_BLOCK \<equiv> 0x08"

definition MARS_MCP_MODE :: "u32 \<Rightarrow> u32" where "MARS_MCP_MODE x = x AND 0x1F"
definition MARS_MCP_BCM :: "u8 \<Rightarrow> u32" where "MARS_MCP_BCM x = push_bit 6 (ucast x AND 3)"
definition MARS_MCP_ENC :: "u8 \<Rightarrow> u32" where "MARS_MCP_ENC x = push_bit 5 (ucast x AND 1)"
definition MARS_MCP_KEY_SEL :: "u32 \<Rightarrow> u32" where "MARS_MCP_KEY_SEL x = push_bit 12 (x AND 1)"
definition MARS_MCP_IV_SEL :: "u32 \<Rightarrow> u32" where "MARS_MCP_IV_SEL x = push_bit 11 (x AND 1)"

definition set_reg :: "mcp_reg \<Rightarrow> u32 \<Rightarrow> mcp_sys \<Rightarrow> mcp_sys" where
  "set_reg r v s = s\<lparr>m_log := m_log s @ [(r, v)]\<rparr>"

fun set_regs :: "(mcp_reg \<times> u32) list \<Rightarrow> mcp_sys \<Rightarrow> mcp_sys" where
  "set_regs [] s = s"
| "set_regs ((r, v) # ws) s = set_regs ws (set_reg r v s)"

section \<open>Running the engine\<close>

text \<open>\<open>mars\<close> and \<open>jupiter\<close> are the two processor tests.\<close>

definition mcp_init :: "bool \<Rightarrow> bool \<Rightarrow> mcp_sys \<Rightarrow> int \<times> mcp_sys" where
  "mcp_init mars jupiter s =
     (if mars \<or> jupiter then
        let s = set_regs [(MCP_CTRL, MCP_GO), (MCP_EN, 0xFE), (MCP_STATUS, 0xFE), (MCP_BASE, 0), (MCP_LIMIT, 0), (MCP_RDPTR, 0), (MCP_WRPTR, 0)] s
        in (0, if jupiter then set_regs [(MCP_CTRL, 0x40 OR MCP_WRITE_DATA), (MCP_CTRL1, 0x400)] s else s)
      else (- 1, s))"

definition mcp_uninit :: "mcp_sys \<Rightarrow> mcp_sys" where
  "mcp_uninit s = set_regs [(MCP_CTRL, MCP_GO), (MCP_EN, 0xFE), (MCP_BASE, 0), (MCP_LIMIT, 0), (MCP_RDPTR, 0), (MCP_WRPTR, 0)] s"

definition mcp_set_desc_buffer :: "u32 \<Rightarrow> u32 \<Rightarrow> u32 \<Rightarrow> u32 \<Rightarrow> mcp_sys \<Rightarrow> mcp_sys" where
  "mcp_set_desc_buffer base limit rp wp s = set_regs [(MCP_BASE, base), (MCP_LIMIT, limit), (MCP_RDPTR, rp), (MCP_WRPTR, wp)] s"

text \<open>
  The polling loop of \<open>_mcp_start_xfer\<close>: \<open>hw k\<close> is what the \<open>k\<close>th poll reads from the control and status
  registers; the result is the number of the poll that ends the loop.
\<close>

fun mcp_poll :: "nat \<Rightarrow> nat \<Rightarrow> (nat \<Rightarrow> u32 \<times> u32) \<Rightarrow> nat" where
  "mcp_poll 0 k hw = k"
| "mcp_poll (Suc w) k hw = (if fst (hw k) AND MCP_GO = 0 \<or> snd (hw k) \<noteq> 0 then k else mcp_poll w (Suc k) hw)"

definition mcp_start_xfer :: "(nat \<Rightarrow> u32 \<times> u32) \<Rightarrow> mcp_sys \<Rightarrow> int \<times> mcp_sys" where
  "mcp_start_xfer hw s =
     (let s = set_regs [(MCP_CTRL, MCP_CLEAR OR MCP_WRITE_DATA), (MCP_EN, 0xFE), (MCP_STATUS, 0xFE), (MCP_CTRL, MCP_GO OR MCP_WRITE_DATA)] s;
          k = mcp_poll 4092 0 hw;
          ret = (if snd (hw k) AND NOT MCP_RING_EMPTY \<noteq> 0 then - 1 else 0)
      in (ret, set_regs [(MCP_CTRL, MCP_GO), (MCP_STATUS, 0xFE)] s))"

definition mcp_do_command :: "engine \<Rightarrow> mcp_desc list \<Rightarrow> mcp_sys \<Rightarrow> int \<times> mcp_sys" where
  "mcp_do_command E ds s =
     (if ds = [] then (0, s)
      else
        let addr = m_desc s;
            len = of_nat (SIZEOF_MCP_DESC * length ds);
            s = mcp_set_desc_buffer addr (addr + len + of_nat SIZEOF_MCP_DESC) addr (addr + len) s;
            (hw, m) = E ds (m_mem s);
            (ret, s) = mcp_start_xfer hw (s\<lparr>m_mem := m, m_issued := m_issued s @ ds\<rparr>)
        in (ret, mcp_set_desc_buffer 0 0 0 0 s))"

section \<open>Descriptors of the algorithms\<close>

text \<open>Four bytes as the descriptor takes them, the first byte on top.\<close>

definition be32_of :: "u8 list \<Rightarrow> u32" where
  "be32_of bs = push_bit 24 (ucast (bs ! 0)) + push_bit 16 (ucast (bs ! 1)) + push_bit 8 (ucast (bs ! 2)) + ucast (bs ! 3)"

definition be24_of :: "u8 list \<Rightarrow> u32" where
  "be24_of bs = push_bit 16 (ucast (bs ! 0)) + push_bit 8 (ucast (bs ! 1)) + ucast (bs ! 2)"

definition zero_desc :: mcp_desc where
  "zero_desc = \<lparr>d_flags = 0, d_key = replicate 6 0, d_iv = replicate 4 0, d_in = 0, d_out = 0, d_len = 0\<rparr>"

definition words16 :: "u8 list \<Rightarrow> u32 list" where
  "words16 bs = [be32_of bs, be32_of (drop 4 bs), be32_of (drop 8 bs), be32_of (drop 12 bs)]"

text \<open>A null key or vector is \<open>None\<close>; the DES functions read the key without testing it.\<close>

definition MCP_DES_DESC_INIT :: "u8 \<Rightarrow> u8 \<Rightarrow> u8 list \<Rightarrow> u8 list option \<Rightarrow> mcp_desc" where
  "MCP_DES_DESC_INIT EnDe Mode Key IV =
     (let d = zero_desc\<lparr>d_flags := MARS_MCP_MODE MCP_ALGO_DES OR MARS_MCP_BCM Mode OR MARS_MCP_ENC EnDe,
                        d_key := [be32_of Key, be24_of (drop 4 Key), 0, 0, 0, 0]\<rparr>
      in case IV of None \<Rightarrow> d | Some iv \<Rightarrow> d\<lparr>d_iv := [be32_of iv, be32_of (drop 4 iv), 0, 0]\<rparr>)"

definition MCP_TDES_DESC_INIT :: "u8 \<Rightarrow> u8 \<Rightarrow> u8 list \<Rightarrow> u8 list option \<Rightarrow> mcp_desc" where
  "MCP_TDES_DESC_INIT EnDe Mode Key IV =
     (let a = [be32_of Key, be24_of (drop 4 Key)];
          b = [be32_of (drop 7 Key), be24_of (drop 11 Key)];
          c = [be32_of (drop 14 Key), be24_of (drop 18 Key)];
          d = zero_desc\<lparr>d_flags := MARS_MCP_MODE MCP_ALGO_3DES OR MARS_MCP_BCM Mode OR MARS_MCP_ENC EnDe,
                        d_key := (if EnDe \<noteq> 0 then a @ b @ c else c @ b @ a)\<rparr>
      in case IV of None \<Rightarrow> d | Some iv \<Rightarrow> d\<lparr>d_iv := [be32_of iv, be32_of (drop 4 iv), 0, 0]\<rparr>)"

definition MCP_AES_DESC_INIT :: "u8 \<Rightarrow> u8 \<Rightarrow> u8 list option \<Rightarrow> u8 list option \<Rightarrow> int \<times> mcp_desc" where
  "MCP_AES_DESC_INIT EnDe Mode Key IV =
     (if Mode \<in> {MCP_BCM_ECB, MCP_BCM_CBC, MCP_BCM_CTR} then
        let d = zero_desc\<lparr>d_flags := MARS_MCP_MODE MCP_ALGO_AES OR MARS_MCP_BCM Mode OR MARS_MCP_ENC EnDe\<rparr>;
            d = (case Key of Some k \<Rightarrow> d\<lparr>d_key := words16 k @ [0, 0]\<rparr> | None \<Rightarrow> d\<lparr>d_flags := d_flags d OR MARS_MCP_KEY_SEL 1\<rparr>);
            d = (case IV of Some iv \<Rightarrow> d\<lparr>d_iv := words16 iv\<rparr> | None \<Rightarrow> d\<lparr>d_flags := d_flags d OR MARS_MCP_IV_SEL 1\<rparr>)
        in (0, d)
      else (- 1, zero_desc))"

definition align :: "nat \<Rightarrow> nat \<Rightarrow> nat" where
  "align n len = len - len mod n"

definition mcp_run_desc :: "engine \<Rightarrow> mcp_desc \<Rightarrow> nat \<Rightarrow> nat \<Rightarrow> nat \<Rightarrow> mcp_sys \<Rightarrow> int \<times> mcp_sys" where
  "mcp_run_desc E d p_in p_out len s = mcp_do_command E [d\<lparr>d_in := p_in, d_out := p_out, d_len := len\<rparr>] s"

definition MCP_DES_Decryption :: "engine \<Rightarrow> u8 \<Rightarrow> u8 list \<Rightarrow> u8 list option \<Rightarrow> nat \<Rightarrow> nat \<Rightarrow> nat \<Rightarrow> mcp_sys \<Rightarrow> int \<times> mcp_sys" where
  "MCP_DES_Decryption E Mode Key IV p_in p_out len s = mcp_run_desc E (MCP_DES_DESC_INIT 0 Mode Key IV) p_in p_out (align 8 len) s"

definition MCP_DES_Encryption :: "engine \<Rightarrow> u8 \<Rightarrow> u8 list \<Rightarrow> u8 list option \<Rightarrow> nat \<Rightarrow> nat \<Rightarrow> nat \<Rightarrow> mcp_sys \<Rightarrow> int \<times> mcp_sys" where
  "MCP_DES_Encryption E Mode Key IV p_in p_out len s = mcp_run_desc E (MCP_DES_DESC_INIT 1 Mode Key IV) p_in p_out (align 8 len) s"

definition MCP_TDES_Decryption :: "engine \<Rightarrow> u8 \<Rightarrow> u8 list \<Rightarrow> u8 list option \<Rightarrow> nat \<Rightarrow> nat \<Rightarrow> nat \<Rightarrow> mcp_sys \<Rightarrow> int \<times> mcp_sys" where
  "MCP_TDES_Decryption E Mode Key IV p_in p_out len s = mcp_run_desc E (MCP_TDES_DESC_INIT 0 Mode Key IV) p_in p_out (align 8 len) s"

definition MCP_TDES_Encryption :: "engine \<Rightarrow> u8 \<Rightarrow> u8 list \<Rightarrow> u8 list option \<Rightarrow> nat \<Rightarrow> nat \<Rightarrow> nat \<Rightarrow> mcp_sys \<Rightarrow> int \<times> mcp_sys" where
  "MCP_TDES_Encryption E Mode Key IV p_in p_out len s = mcp_run_desc E (MCP_TDES_DESC_INIT 1 Mode Key IV) p_in p_out (align 8 len) s"

definition MCP_AES_Decryption :: "engine \<Rightarrow> u8 \<Rightarrow> u8 list option \<Rightarrow> u8 list option \<Rightarrow> nat \<Rightarrow> nat \<Rightarrow> nat \<Rightarrow> mcp_sys \<Rightarrow> int \<times> mcp_sys" where
  "MCP_AES_Decryption E Mode Key IV p_in p_out len s = mcp_run_desc E (snd (MCP_AES_DESC_INIT 0 Mode Key IV)) p_in p_out (align 16 len) s"

definition MCP_AES_Encryption :: "engine \<Rightarrow> u8 \<Rightarrow> u8 list option \<Rightarrow> u8 list option \<Rightarrow> nat \<Rightarrow> nat \<Rightarrow> nat \<Rightarrow> mcp_sys \<Rightarrow> int \<times> mcp_sys" where
  "MCP_AES_Encryption E Mode Key IV p_in p_out len s = mcp_run_desc E (snd (MCP_AES_DESC_INIT 1 Mode Key IV)) p_in p_out (align 16 len) s"

section \<open>Hashing\<close>

definition MCP_AES_H_HASH_INIT :: mcp_desc where
  "MCP_AES_H_HASH_INIT = zero_desc\<lparr>d_flags := MARS_MCP_MODE MCP_ALGO_AES_H OR MARS_MCP_BCM MCP_BCM_ECB OR MARS_MCP_ENC 1,
     d_iv := [0x2DC2DF39, 0x420321D0, 0xCEF1FE23, 0x74029D95]\<rparr>"

definition MCP_AES_H_IV_UPDATE :: "u8 list \<Rightarrow> mcp_desc \<Rightarrow> mcp_desc" where
  "MCP_AES_H_IV_UPDATE hash d = d\<lparr>d_iv := words16 hash\<rparr>"

definition MCP_SHA1_HASH_INIT :: mcp_desc where
  "MCP_SHA1_HASH_INIT = zero_desc\<lparr>d_flags := MARS_MCP_MODE MCP_ALGO_SHA_1,
     d_key := [0x67452301, 0xEFCDAB89, 0x98BADCFE, 0x10325476, 0xC3D2E1F0, 0]\<rparr>"

definition MCP_SHA1_IV_UPDATE :: "u8 list \<Rightarrow> mcp_desc \<Rightarrow> mcp_desc" where
  "MCP_SHA1_IV_UPDATE hash d = d\<lparr>d_key := words16 hash @ [be32_of (drop 16 hash)] @ drop 5 (d_key d)\<rparr>"

text \<open>
  The padding of both hashes: a byte with the top bit set, zeros, and the length in bits in eight bytes, up to
  a block boundary. The lengths are unsigned 32-bit numbers, the bit length has 64 bits.
\<close>

definition bit_len_bytes :: "nat \<Rightarrow> u8 list" where
  "bit_len_bytes data_len = (let bit_len = push_bit 3 (of_nat data_len :: 64 word) in map (\<lambda>k. ucast (drop_bit (56 - 8 * k) bit_len AND 0xFF)) [0..<8])"

definition pad_buffer :: "nat \<Rightarrow> nat \<Rightarrow> nat \<Rightarrow> mem \<Rightarrow> mem" where
  "pad_buffer p_buff pad_sz data_len m =
     (let m = store p_buff (replicate pad_sz 0) m;
          m = m(p_buff := m p_buff OR 0x80)
      in store (p_buff + pad_sz - 8) (bit_len_bytes data_len) m)"

definition MCP_AES_H_PADDING :: "nat \<Rightarrow> nat \<Rightarrow> nat \<Rightarrow> mcp_sys \<Rightarrow> int \<times> mcp_sys" where
  "MCP_AES_H_PADDING p_buff buff_len data_len s =
     (let pad_sz = 16 - data_len mod 16;
          pad_sz = (if pad_sz \<le> 8 then pad_sz + 16 else pad_sz)
      in if buff_len < pad_sz then (0, s)
         else (int pad_sz, s\<lparr>m_mem := pad_buffer p_buff pad_sz data_len (m_mem s)\<rparr>))"

definition MCP_SHA1_PADDING :: "nat \<Rightarrow> nat \<Rightarrow> nat \<Rightarrow> mcp_sys \<Rightarrow> int \<times> mcp_sys" where
  "MCP_SHA1_PADDING p_buff buff_len data_len s =
     (let pad_sz = 64 - data_len mod 64;
          pad_sz = (if pad_sz \<le> 8 then pad_sz + 64 else pad_sz)
      in if buff_len < pad_sz then (- 1, s)
         else (int pad_sz, s\<lparr>m_mem := pad_buffer p_buff pad_sz data_len (m_mem s)\<rparr>))"

definition MCP_AES_H_Hashing :: "engine \<Rightarrow> mcp_desc \<Rightarrow> nat \<Rightarrow> nat \<Rightarrow> nat \<Rightarrow> mcp_sys \<Rightarrow> int \<times> mcp_sys" where
  "MCP_AES_H_Hashing E d p_in len p_out s = mcp_run_desc E d p_in p_out len s"

definition MCP_SHA1_Hashing :: "engine \<Rightarrow> mcp_desc \<Rightarrow> nat \<Rightarrow> nat \<Rightarrow> nat \<Rightarrow> mcp_sys \<Rightarrow> int \<times> mcp_sys" where
  "MCP_SHA1_Hashing E d p_in len p_out s = (if len mod 64 \<noteq> 0 then (- 1, s) else mcp_run_desc E d p_in p_out len s)"

text \<open>Hashing data in pieces of \<open>block_size\<close> bytes; with a block size of 0 the loop does not end.\<close>

partial_function (option) aes_h_loop :: "engine \<Rightarrow> mcp_desc \<Rightarrow> nat \<Rightarrow> nat \<Rightarrow> nat \<Rightarrow> nat \<Rightarrow> mcp_sys \<Rightarrow> (int \<times> mcp_sys) option" where
  [code]: "aes_h_loop E d p_data data_len hash block_size s =
     (if data_len = 0 then Some (0, s)
      else
        let n = (if data_len > block_size then block_size else data_len);
            (ret, s) = MCP_AES_H_Hashing E d p_data n hash s;
            d = MCP_AES_H_IV_UPDATE (load (m_mem s) hash 16) d
        in if ret \<noteq> 0 then Some (ret, s) else aes_h_loop E d (p_data + n) (data_len - n) hash block_size s)"

definition MCP_AES_H_DataHash :: "engine \<Rightarrow> nat \<Rightarrow> nat \<Rightarrow> nat \<Rightarrow> nat \<Rightarrow> bool \<Rightarrow> mcp_sys \<Rightarrow> (int \<times> mcp_sys) option" where
  "MCP_AES_H_DataHash E p_data data_len hash block_size first_block s =
     (let d = MCP_AES_H_HASH_INIT;
          d = (if \<not> first_block then MCP_AES_H_IV_UPDATE (load (m_mem s) hash 16) d else d)
      in aes_h_loop E d p_data data_len hash block_size s)"

partial_function (option) sha1_loop :: "engine \<Rightarrow> mcp_desc \<Rightarrow> nat \<Rightarrow> nat \<Rightarrow> nat \<Rightarrow> nat \<Rightarrow> mcp_sys \<Rightarrow> (int \<times> mcp_sys) option" where
  [code]: "sha1_loop E d p_data data_len hash block_size s =
     (if data_len = 0 then Some (0, s)
      else
        let n = (if data_len > block_size then block_size else data_len);
            (ret, s) = MCP_SHA1_Hashing E d p_data n hash s;
            d = MCP_SHA1_IV_UPDATE (load (m_mem s) hash SHA1_DIGEST_SIZE) d
        in if ret \<noteq> 0 then Some (ret, s) else sha1_loop E d (p_data + n) (data_len - n) hash block_size s)"

text \<open>A remainder by a block size of 0 is \<open>None\<close>.\<close>

definition MCP_SHA1_DataHash :: "engine \<Rightarrow> nat \<Rightarrow> nat \<Rightarrow> nat \<Rightarrow> nat \<Rightarrow> u8 \<Rightarrow> mcp_sys \<Rightarrow> (int \<times> mcp_sys) option" where
  "MCP_SHA1_DataHash E p_data data_len hash block_size block_status s =
     (let d = MCP_SHA1_HASH_INIT in
      if data_len mod 64 \<noteq> 0 then Some (- 1, s)
      else if block_size mod 64 \<noteq> 0 then Some (- 1, s)
      else if block_status AND LAST_BLOCK = 0 \<and> block_size = 0 then None
      else if block_status AND LAST_BLOCK = 0 \<and> data_len mod block_size \<noteq> 0 then Some (- 1, s)
      else
        let d = (if block_status AND FIRST_BLOCK = 0 then MCP_SHA1_IV_UPDATE (load (m_mem s) hash SHA1_DIGEST_SIZE) d else d)
        in sha1_loop E d p_data data_len hash block_size s)"

section \<open>The device file\<close>

text \<open>
  The command of the device file: descriptors are copied from user space in batches of ten; \<open>user p n\<close> is
  the copy of \<open>n\<close> descriptors at address \<open>p\<close>, \<open>None\<close> when it fails. The pointer is one to a
  descriptor, so that adding a number of bytes to it advances by as many descriptors.
\<close>

function ioctl_loop :: "(nat \<Rightarrow> nat \<Rightarrow> mcp_desc list option) \<Rightarrow> engine \<Rightarrow> nat \<Rightarrow> nat \<Rightarrow> mcp_sys \<Rightarrow> int \<times> mcp_sys" where
  "ioctl_loop user E p_desc n_desc s =
     (if n_desc = 0 then (0, s)
      else
        let n = (if n_desc \<ge> MCP_DESC_ENTRY_COUNT then MCP_DESC_ENTRY_COUNT else n_desc) in
        case user p_desc n of
          None \<Rightarrow> (- EFAULT, s)
        | Some desc_list \<Rightarrow>
            let (ret, s) = mcp_do_command E desc_list s
            in if ret < 0 then (- EFAULT, s)
               else ioctl_loop user E (p_desc + SIZEOF_MCP_DESC * (SIZEOF_MCP_DESC * n)) (n_desc - n) s)"
  by auto

termination by (relation "measure (\<lambda>(u, E, p, n, s). n)") (auto split: if_splits)

text \<open>The test command hashes 256 bytes on the stack, here at \<open>data\<close> with the result at \<open>hash\<close>.\<close>

definition MCP_AES_H_DataHashTest :: "engine \<Rightarrow> nat \<Rightarrow> nat \<Rightarrow> mcp_sys \<Rightarrow> mcp_sys option" where
  "MCP_AES_H_DataHashTest E data hash s =
     map_option snd (MCP_AES_H_DataHash E data 256 hash (512 * 1024) True (s\<lparr>m_mem := store data (replicate 256 0x33) (m_mem s)\<rparr>))"

definition mcp_dev_ioctl :: "(nat \<Rightarrow> nat \<Rightarrow> mcp_desc list option) \<Rightarrow> engine \<Rightarrow> nat \<Rightarrow> nat \<Rightarrow> u32 \<Rightarrow> (nat \<times> nat) option \<Rightarrow> mcp_sys \<Rightarrow> (int \<times> mcp_sys) option" where
  "mcp_dev_ioctl user E data hash cmd desc_set s =
     (if cmd = 0x70000001 then
        Some (case desc_set of None \<Rightarrow> (- EFAULT, s) | Some (p_desc, n_desc) \<Rightarrow> ioctl_loop user E p_desc n_desc s)
      else if cmd = 0x71000001 then map_option (\<lambda>s. (0, s)) (MCP_AES_H_DataHashTest E data hash s)
      else Some (- EFAULT, s))"

end
