(* ===== verification/Mcp_Cipher.thy ===== *)
theory Mcp_Cipher
  imports Mcp
begin

text \<open>
  The block ciphers on the crypto engine: the cipher contexts (\<open>R/mcp/mcp_cipher.c\<close>), AES, DES and triple DES
  (\<open>aes.c\<close>, \<open>des.c\<close>, \<open>tdes.c\<close>) and the operations of the cipher device (\<open>mcp_cipher_dev.c\<close>). The tables of
  function pointers are functions of the cipher. The buffer for a short block is in memory, where the engine
  reads it; \<open>None\<close> is the use of a null pointer.
\<close>

section \<open>Contexts\<close>

record AES_CTX =
  c_mode :: u8
  c_enc :: bool
  c_key :: "u8 list option"
  c_iv :: "u8 list"

text \<open>The contexts of DES and triple DES have the same fields, with buffers of other sizes.\<close>

type_synonym DES_CTX = AES_CTX
type_synonym TDES_CTX = AES_CTX

datatype MCP_CIPHER = aes_128_ecb | aes_128_cbc | des_ecb | des_cbc | tdes_ecb | tdes_cbc

record MCP_CIPHER_CTX =
  cipher :: "MCP_CIPHER option"
  cipher_data :: "AES_CTX option"
  buff_len :: u8
  buff :: nat

abbreviation (input) MCP_CIPH_ECB_MODE :: nat where "MCP_CIPH_ECB_MODE \<equiv> 1"
abbreviation (input) MCP_CIPH_CBC_MODE :: nat where "MCP_CIPH_CBC_MODE \<equiv> 2"
abbreviation (input) MAX_CIPHER_KEY_SIZE :: nat where "MAX_CIPHER_KEY_SIZE \<equiv> 32"
abbreviation (input) MAX_CIPHER_IV_SIZE :: nat where "MAX_CIPHER_IV_SIZE \<equiv> 32"

section \<open>AES\<close>

definition AES_Init :: "MCP_CIPHER_CTX \<Rightarrow> u8 list option \<Rightarrow> u8 list option \<Rightarrow> nat \<Rightarrow> bool \<Rightarrow> (int \<times> MCP_CIPHER_CTX) option" where
  "AES_Init ctx key iv mode enc = do {
     _ \<leftarrow> cipher_data ctx;
     let p_aes = \<lparr>c_mode = 0, c_enc = False, c_key = None, c_iv = replicate 16 0\<rparr>;
     if mode = MCP_CIPH_ECB_MODE \<or> mode = MCP_CIPH_CBC_MODE then
       let p_aes = p_aes\<lparr>c_mode := (if mode = MCP_CIPH_ECB_MODE then MCP_BCM_ECB else MCP_BCM_CBC), c_enc := enc\<rparr>;
           p_aes = (case key of Some k \<Rightarrow> p_aes\<lparr>c_key := Some (take 16 k)\<rparr> | None \<Rightarrow> p_aes);
           p_aes = (case iv of Some v \<Rightarrow> p_aes\<lparr>c_iv := take 16 v\<rparr> | None \<Rightarrow> p_aes)
       in Some (0, ctx\<lparr>cipher_data := Some p_aes\<rparr>)
     else Some (- 1, ctx\<lparr>cipher_data := Some p_aes\<rparr>)
   }"

definition AES_DoCipher :: "engine \<Rightarrow> MCP_CIPHER_CTX \<Rightarrow> nat \<Rightarrow> nat \<Rightarrow> nat \<Rightarrow> mcp_sys \<Rightarrow> (int \<times> MCP_CIPHER_CTX \<times> mcp_sys) option" where
  "AES_DoCipher E ctx inp len out s = do {
     p_aes \<leftarrow> cipher_data ctx;
     let len = align 16 len;
     if len \<noteq> 0 then
       if c_enc p_aes then
         let s = snd (MCP_AES_Encryption E (c_mode p_aes) (c_key p_aes) (Some (c_iv p_aes)) inp out len s);
             p_aes = (if c_mode p_aes = MCP_BCM_CBC then p_aes\<lparr>c_iv := load (m_mem s) (out + len - 16) 16\<rparr> else p_aes)
         in Some (int len, ctx\<lparr>cipher_data := Some p_aes\<rparr>, s)
       else
         let iv = c_iv p_aes;
             p_aes = (if c_mode p_aes = MCP_BCM_CBC then p_aes\<lparr>c_iv := load (m_mem s) (inp + len - 16) 16\<rparr> else p_aes);
             s = snd (MCP_AES_Decryption E (c_mode p_aes) (c_key p_aes) (Some iv) inp out len s)
         in Some (int len, ctx\<lparr>cipher_data := Some p_aes\<rparr>, s)
     else Some (int len, ctx, s)
   }"

definition AES_128_ECB_Init :: "MCP_CIPHER_CTX \<Rightarrow> u8 list option \<Rightarrow> u8 list option \<Rightarrow> bool \<Rightarrow> (int \<times> MCP_CIPHER_CTX) option" where
  "AES_128_ECB_Init ctx key iv enc = AES_Init ctx key None MCP_CIPH_ECB_MODE enc"

definition AES_128_CBC_Init :: "MCP_CIPHER_CTX \<Rightarrow> u8 list option \<Rightarrow> u8 list option \<Rightarrow> bool \<Rightarrow> (int \<times> MCP_CIPHER_CTX) option" where
  "AES_128_CBC_Init ctx key iv enc = AES_Init ctx key iv MCP_CIPH_CBC_MODE enc"

section \<open>DES\<close>

definition DES_Init :: "MCP_CIPHER_CTX \<Rightarrow> u8 list option \<Rightarrow> u8 list option \<Rightarrow> nat \<Rightarrow> bool \<Rightarrow> (int \<times> MCP_CIPHER_CTX) option" where
  "DES_Init ctx key iv mode enc = do {
     _ \<leftarrow> cipher_data ctx;
     let p_des = \<lparr>c_mode = 0, c_enc = False, c_key = None, c_iv = replicate 8 0\<rparr>;
     if mode = MCP_CIPH_ECB_MODE \<or> mode = MCP_CIPH_CBC_MODE then
       let p_des = p_des\<lparr>c_mode := (if mode = MCP_CIPH_ECB_MODE then MCP_BCM_ECB else MCP_BCM_CBC), c_enc := enc\<rparr>;
           p_des = (case key of Some k \<Rightarrow> p_des\<lparr>c_key := Some (take 7 k)\<rparr> | None \<Rightarrow> p_des);
           p_des = (case iv of Some v \<Rightarrow> p_des\<lparr>c_iv := take 8 v\<rparr> | None \<Rightarrow> p_des)
       in Some (0, ctx\<lparr>cipher_data := Some p_des\<rparr>)
     else Some (- 1, ctx\<lparr>cipher_data := Some p_des\<rparr>)
   }"

definition DES_DoCipher :: "engine \<Rightarrow> MCP_CIPHER_CTX \<Rightarrow> nat \<Rightarrow> nat \<Rightarrow> nat \<Rightarrow> mcp_sys \<Rightarrow> (int \<times> MCP_CIPHER_CTX \<times> mcp_sys) option" where
  "DES_DoCipher E ctx inp len out s = do {
     p_des \<leftarrow> cipher_data ctx;
     let len = align 8 len;
     if len \<noteq> 0 then do {
       key \<leftarrow> c_key p_des;
       if c_enc p_des then
         let s = snd (MCP_DES_Encryption E (c_mode p_des) key (Some (c_iv p_des)) inp out len s);
             p_des = (if c_mode p_des = MCP_BCM_CBC then p_des\<lparr>c_iv := load (m_mem s) (out + len - 8) 8\<rparr> else p_des)
         in Some (int len, ctx\<lparr>cipher_data := Some p_des\<rparr>, s)
       else
         let iv = c_iv p_des;
             p_des = (if c_mode p_des = MCP_BCM_CBC then p_des\<lparr>c_iv := load (m_mem s) (inp + len - 8) 8\<rparr> else p_des);
             s = snd (MCP_DES_Decryption E (c_mode p_des) key (Some iv) inp out len s)
         in Some (int len, ctx\<lparr>cipher_data := Some p_des\<rparr>, s)
     }
     else Some (int len, ctx, s)
   }"

definition DES_ECB_Init :: "MCP_CIPHER_CTX \<Rightarrow> u8 list option \<Rightarrow> u8 list option \<Rightarrow> bool \<Rightarrow> (int \<times> MCP_CIPHER_CTX) option" where
  "DES_ECB_Init ctx key iv enc = DES_Init ctx key None MCP_CIPH_ECB_MODE enc"

definition DES_CBC_Init :: "MCP_CIPHER_CTX \<Rightarrow> u8 list option \<Rightarrow> u8 list option \<Rightarrow> bool \<Rightarrow> (int \<times> MCP_CIPHER_CTX) option" where
  "DES_CBC_Init ctx key iv enc = DES_Init ctx key iv MCP_CIPH_CBC_MODE enc"

section \<open>Triple DES\<close>

definition TDES_Init :: "MCP_CIPHER_CTX \<Rightarrow> u8 list option \<Rightarrow> u8 list option \<Rightarrow> nat \<Rightarrow> bool \<Rightarrow> (int \<times> MCP_CIPHER_CTX) option" where
  "TDES_Init ctx key iv mode enc = do {
     _ \<leftarrow> cipher_data ctx;
     let p_tdes = \<lparr>c_mode = 0, c_enc = False, c_key = None, c_iv = replicate 8 0\<rparr>;
     if mode = MCP_CIPH_ECB_MODE \<or> mode = MCP_CIPH_CBC_MODE then
       let p_tdes = p_tdes\<lparr>c_mode := (if mode = MCP_CIPH_ECB_MODE then MCP_BCM_ECB else MCP_BCM_CBC), c_enc := enc\<rparr>;
           p_tdes = (case key of Some k \<Rightarrow> p_tdes\<lparr>c_key := Some (take 21 k)\<rparr> | None \<Rightarrow> p_tdes);
           p_tdes = (case iv of Some v \<Rightarrow> p_tdes\<lparr>c_iv := take 8 v\<rparr> | None \<Rightarrow> p_tdes)
       in Some (0, ctx\<lparr>cipher_data := Some p_tdes\<rparr>)
     else Some (- 1, ctx\<lparr>cipher_data := Some p_tdes\<rparr>)
   }"

definition TDES_DoCipher :: "engine \<Rightarrow> MCP_CIPHER_CTX \<Rightarrow> nat \<Rightarrow> nat \<Rightarrow> nat \<Rightarrow> mcp_sys \<Rightarrow> (int \<times> MCP_CIPHER_CTX \<times> mcp_sys) option" where
  "TDES_DoCipher E ctx inp len out s = do {
     p_tdes \<leftarrow> cipher_data ctx;
     let len = align 8 len;
     if len \<noteq> 0 then do {
       key \<leftarrow> c_key p_tdes;
       if c_enc p_tdes then
         let s = snd (MCP_TDES_Encryption E (c_mode p_tdes) key (Some (c_iv p_tdes)) inp out len s);
             p_tdes = (if c_mode p_tdes = MCP_BCM_CBC then p_tdes\<lparr>c_iv := load (m_mem s) (out + len - 8) 8\<rparr> else p_tdes)
         in Some (int len, ctx\<lparr>cipher_data := Some p_tdes\<rparr>, s)
       else
         let iv = c_iv p_tdes;
             p_tdes = (if c_mode p_tdes = MCP_BCM_CBC then p_tdes\<lparr>c_iv := load (m_mem s) (inp + len - 8) 8\<rparr> else p_tdes);
             s = snd (MCP_TDES_Decryption E (c_mode p_tdes) key (Some iv) inp out len s)
         in Some (int len, ctx\<lparr>cipher_data := Some p_tdes\<rparr>, s)
     }
     else Some (int len, ctx, s)
   }"

definition TDES_ECB_Init :: "MCP_CIPHER_CTX \<Rightarrow> u8 list option \<Rightarrow> u8 list option \<Rightarrow> bool \<Rightarrow> (int \<times> MCP_CIPHER_CTX) option" where
  "TDES_ECB_Init ctx key iv enc = TDES_Init ctx key None MCP_CIPH_ECB_MODE enc"

definition TDES_CBC_Init :: "MCP_CIPHER_CTX \<Rightarrow> u8 list option \<Rightarrow> u8 list option \<Rightarrow> bool \<Rightarrow> (int \<times> MCP_CIPHER_CTX) option" where
  "TDES_CBC_Init ctx key iv enc = TDES_Init ctx key iv MCP_CIPH_CBC_MODE enc"

section \<open>The cipher tables and the common layer\<close>

definition block_size :: "MCP_CIPHER \<Rightarrow> nat" where
  "block_size c = (if c \<in> {aes_128_ecb, aes_128_cbc} then 16 else 8)"

fun cipher_init :: "MCP_CIPHER \<Rightarrow> MCP_CIPHER_CTX \<Rightarrow> u8 list option \<Rightarrow> u8 list option \<Rightarrow> bool \<Rightarrow> (int \<times> MCP_CIPHER_CTX) option" where
  "cipher_init aes_128_ecb = AES_128_ECB_Init"
| "cipher_init aes_128_cbc = AES_128_CBC_Init"
| "cipher_init des_ecb = DES_ECB_Init"
| "cipher_init des_cbc = DES_CBC_Init"
| "cipher_init tdes_ecb = TDES_ECB_Init"
| "cipher_init tdes_cbc = TDES_CBC_Init"

definition do_cipher :: "engine \<Rightarrow> MCP_CIPHER \<Rightarrow> MCP_CIPHER_CTX \<Rightarrow> nat \<Rightarrow> nat \<Rightarrow> nat \<Rightarrow> mcp_sys \<Rightarrow> (int \<times> MCP_CIPHER_CTX \<times> mcp_sys) option" where
  "do_cipher E c = (if c \<in> {aes_128_ecb, aes_128_cbc} then AES_DoCipher E else if c \<in> {des_ecb, des_cbc} then DES_DoCipher E else TDES_DoCipher E)"

text \<open>The structure is at \<open>addr\<close>; its buffer for a short block is at \<open>addr + 9\<close>.\<close>

definition MCP_CIPHER_CTX_init :: "nat \<Rightarrow> mcp_sys \<Rightarrow> MCP_CIPHER_CTX \<times> mcp_sys" where
  "MCP_CIPHER_CTX_init addr s =
     (\<lparr>cipher = None, cipher_data = None, buff_len = 0, buff = addr + 9\<rparr>, s\<lparr>m_mem := store (addr + 9) (replicate 32 0) (m_mem s)\<rparr>)"

text \<open>The data that is freed, and the context; only its first four bytes, the cipher, are cleared.\<close>

definition MCP_CIPHER_CTX_cleanup :: "MCP_CIPHER_CTX \<Rightarrow> AES_CTX option \<times> MCP_CIPHER_CTX" where
  "MCP_CIPHER_CTX_cleanup ctx =
     (case cipher_data ctx of Some d \<Rightarrow> (Some d, ctx\<lparr>cipher := None\<rparr>) | None \<Rightarrow> (None, ctx))"

text \<open>\<open>mem\<close> is the result of the allocation, with whatever it contains.\<close>

definition MCP_CipherInit ::
  "AES_CTX option \<Rightarrow> MCP_CIPHER_CTX \<Rightarrow> MCP_CIPHER \<Rightarrow> u8 list option \<Rightarrow> u8 list option \<Rightarrow> bool \<Rightarrow> (int \<times> MCP_CIPHER_CTX) option" where
  "MCP_CipherInit mem ctx type key iv enc = cipher_init type (ctx\<lparr>cipher := Some type, cipher_data := mem, buff_len := 0\<rparr>) key iv enc"

text \<open>The second part of \<open>MCP_CipherUpdate\<close>: full blocks from the input, and what is left is kept.\<close>

definition update_blocks ::
  "engine \<Rightarrow> MCP_CIPHER \<Rightarrow> MCP_CIPHER_CTX \<Rightarrow> nat \<Rightarrow> nat \<Rightarrow> nat \<Rightarrow> int \<Rightarrow> mcp_sys \<Rightarrow> (int \<times> MCP_CIPHER_CTX \<times> mcp_sys) option" where
  "update_blocks E c ctx inp len out outl s =
     (if len \<noteq> 0 then do {
        (ret, ctx, s) \<leftarrow> do_cipher E c ctx inp len out s;
        if ret < 0 then Some (ret, ctx, s)
        else
          let inp = inp + nat ret;
              len = len - nat ret;
              outl = outl + ret
          in if len \<noteq> 0
             then Some (outl, ctx\<lparr>buff_len := of_nat len\<rparr>, s\<lparr>m_mem := store (buff ctx) (load (m_mem s) inp len) (m_mem s)\<rparr>)
             else Some (outl, ctx, s)
      }
      else Some (outl, ctx, s))"

definition MCP_CipherUpdate ::
  "engine \<Rightarrow> MCP_CIPHER_CTX \<Rightarrow> nat \<Rightarrow> nat \<Rightarrow> nat \<Rightarrow> mcp_sys \<Rightarrow> (int \<times> MCP_CIPHER_CTX \<times> mcp_sys) option" where
  "MCP_CipherUpdate E ctx inp len out s = do {
     c \<leftarrow> cipher ctx;
     let k = unat (buff_len ctx);
     if k \<noteq> 0 then
       if (k + len) mod 2 ^ 32 < block_size c then
         Some (0, ctx\<lparr>buff_len := buff_len ctx + of_nat len\<rparr>, s\<lparr>m_mem := store (buff ctx + k) (load (m_mem s) inp len) (m_mem s)\<rparr>)
       else do {
         let ret = block_size c - k;
         let s = s\<lparr>m_mem := store (buff ctx + k) (load (m_mem s) inp ret) (m_mem s)\<rparr>;
         (r, ctx, s) \<leftarrow> do_cipher E c ctx (buff ctx) (block_size c) out s;
         if r < 0 then Some (r, ctx, s)
         else update_blocks E c (ctx\<lparr>buff_len := 0\<rparr>) (inp + ret) (len - ret) (out + nat r) r s
       }
     else update_blocks E c ctx inp len out 0 s
   }"

definition MCP_CipherFinal :: "MCP_CIPHER_CTX \<Rightarrow> nat \<Rightarrow> mcp_sys \<Rightarrow> int \<times> MCP_CIPHER_CTX \<times> mcp_sys" where
  "MCP_CipherFinal ctx out s =
     (let len = unat (buff_len ctx) in
      if len \<noteq> 0 then (int len, ctx\<lparr>buff_len := 0\<rparr>, s\<lparr>m_mem := store out (load (m_mem s) (buff ctx) len) (m_mem s)\<rparr>)
      else (int len, ctx, s))"

definition MCP_get_cipherbyname :: "string \<Rightarrow> MCP_CIPHER option" where
  "MCP_get_cipherbyname name =
     (if name = ''aes_128_ecb'' then Some aes_128_ecb
      else if name = ''aes_128_cbc'' then Some aes_128_cbc
      else if name = ''des_ecb'' then Some des_ecb
      else if name = ''des_cbc'' then Some des_cbc
      else if name = ''tdes_ecb'' then Some tdes_ecb
      else if name = ''tdes_cbc'' then Some tdes_cbc
      else None)"

section \<open>The cipher device\<close>

text \<open>
  Setting up a context for a user: \<open>key\<close> and \<open>iv\<close> are \<open>None\<close> for a null pointer or length 0, and the bytes that
  \<open>copy_from_user\<close> gives otherwise (\<open>None\<close> inside when it fails); they are cut to 32 bytes and padded with zeros.
\<close>

definition user_param :: "nat \<Rightarrow> u8 list option option \<Rightarrow> (u8 list option) option" where
  "user_param n p =
     (case p of
        None \<Rightarrow> Some None
      | Some None \<Rightarrow> None
      | Some (Some bs) \<Rightarrow> Some (Some (take n (bs @ replicate n 0))))"

definition cipher_of_type :: "u8 \<Rightarrow> MCP_CIPHER option" where
  "cipher_of_type t =
     (if t = 0x20 then Some aes_128_ecb else if t = 0x21 then Some aes_128_cbc
      else if t = 0x00 then Some des_ecb else if t = 0x01 then Some des_cbc
      else if t = 0x10 then Some tdes_ecb else if t = 0x11 then Some tdes_cbc else None)"

definition mcp_cipher_do_init ::
  "AES_CTX option \<Rightarrow> MCP_CIPHER_CTX \<Rightarrow> u8 \<Rightarrow> bool \<Rightarrow> u8 list option option \<Rightarrow> u8 list option option \<Rightarrow> (int \<times> MCP_CIPHER_CTX) option" where
  "mcp_cipher_do_init mem ctx type enc key iv =
     (case cipher_of_type type of
        None \<Rightarrow> Some (- EFAULT, ctx)
      | Some c \<Rightarrow>
          (case user_param MAX_CIPHER_KEY_SIZE key of
             None \<Rightarrow> Some (- EFAULT, ctx)
           | Some k \<Rightarrow>
               (case user_param MAX_CIPHER_IV_SIZE iv of
                  None \<Rightarrow> Some (- EFAULT, ctx)
                | Some v \<Rightarrow> MCP_CipherInit mem ctx c k v enc)))"

text \<open>
  Updating for a user. \<open>pli a\<close> is the address the engine sees for a user address that lies in memory shared with
  the engine, \<open>None\<close> for other addresses; \<open>ubuf\<close> is the result of the allocation of a kernel buffer; \<open>from_user\<close>
  the bytes copied in (\<open>None\<close> on a fault); \<open>to_user\<close> says whether copying out succeeds. The bytes
  copied out are part of the result.
\<close>

definition mcp_cipher_do_update ::
  "engine \<Rightarrow> (nat \<Rightarrow> nat option) \<Rightarrow> nat option \<Rightarrow> u8 list option \<Rightarrow> bool \<Rightarrow> MCP_CIPHER_CTX \<Rightarrow> nat \<Rightarrow> nat \<Rightarrow> nat \<Rightarrow> mcp_sys \<Rightarrow>
     (int \<times> u8 list \<times> MCP_CIPHER_CTX \<times> mcp_sys) option" where
  "mcp_cipher_do_update E pli ubuf from_user to_user ctx inp len out s =
     (case (pli inp, pli out) of
        (Some i, Some o') \<Rightarrow> do { (r, ctx, s) \<leftarrow> MCP_CipherUpdate E ctx i len o' s; Some (r, [], ctx, s) }
      | (Some i, None) \<Rightarrow>
          (case ubuf of
             None \<Rightarrow> Some (- EFAULT, [], ctx, s)
           | Some b \<Rightarrow> do {
               (r, ctx, s) \<leftarrow> MCP_CipherUpdate E ctx i len b s;
               if r < 0 \<or> \<not> to_user then Some (- EFAULT, [], ctx, s) else Some (r, load (m_mem s) b (nat r), ctx, s)
             })
      | (None, Some o') \<Rightarrow>
          (case (ubuf, from_user) of
             (Some b, Some bs) \<Rightarrow> do {
               (r, ctx, s) \<leftarrow> MCP_CipherUpdate E ctx b len o' (s\<lparr>m_mem := store b bs (m_mem s)\<rparr>);
               if r < 0 then Some (- EFAULT, [], ctx, s) else Some (r, [], ctx, s)
             }
           | _ \<Rightarrow> Some (- EFAULT, [], ctx, s))
      | (None, None) \<Rightarrow>
          (case (ubuf, from_user) of
             (Some b, Some bs) \<Rightarrow> do {
               (r, ctx, s) \<leftarrow> MCP_CipherUpdate E ctx b len b (s\<lparr>m_mem := store b bs (m_mem s)\<rparr>);
               if r < 0 \<or> \<not> to_user then Some (- EFAULT, [], ctx, s) else Some (r, load (m_mem s) b (nat r), ctx, s)
             }
           | _ \<Rightarrow> Some (- EFAULT, [], ctx, s)))"

text \<open>\<open>tmp\<close> is the buffer on the stack.\<close>

definition mcp_cipher_do_final ::
  "(nat \<Rightarrow> nat option) \<Rightarrow> nat \<Rightarrow> bool \<Rightarrow> MCP_CIPHER_CTX \<Rightarrow> nat \<Rightarrow> mcp_sys \<Rightarrow> int \<times> u8 list \<times> MCP_CIPHER_CTX \<times> mcp_sys" where
  "mcp_cipher_do_final pli tmp to_user ctx out s =
     (case pli out of
        Some o' \<Rightarrow> let (r, ctx, s) = MCP_CipherFinal ctx o' s in (r, [], ctx, s)
      | None \<Rightarrow>
          let (r, ctx, s) = MCP_CipherFinal ctx tmp s
          in if r > 0 then if to_user then (r, load (m_mem s) tmp (nat r), ctx, s) else (- EFAULT, [], ctx, s)
             else (r, [], ctx, s))"

text \<open>The device file; \<open>addr\<close> is the address of the allocated context. Releasing gives the freed cipher data.\<close>

definition mcp_cipher_open :: "nat option \<Rightarrow> mcp_sys \<Rightarrow> int \<times> MCP_CIPHER_CTX option \<times> mcp_sys" where
  "mcp_cipher_open addr s =
     (case addr of
        None \<Rightarrow> (- EFAULT, None, s)
      | Some a \<Rightarrow> let (ctx, s) = MCP_CIPHER_CTX_init a s in (0, Some ctx, s))"

definition mcp_cipher_release :: "MCP_CIPHER_CTX option \<Rightarrow> int \<times> AES_CTX option" where
  "mcp_cipher_release p = (0, case p of None \<Rightarrow> None | Some ctx \<Rightarrow> fst (MCP_CIPHER_CTX_cleanup ctx))"

text \<open>The commands with the parameter block of the user (\<open>None\<close> on a fault).\<close>

datatype cipher_cmd =
    MCP_CIPHER_IOCTL_INIT "(u8 \<times> bool \<times> u8 list option option \<times> u8 list option option) option"
  | MCP_CIPHER_IOCTL_UPDATE "(nat \<times> nat \<times> nat) option"
  | MCP_CIPHER_IOCTL_FINAL nat
  | CIPHER_unknown

definition mcp_cipher_ioctl ::
  "engine \<Rightarrow> (nat \<Rightarrow> nat option) \<Rightarrow> AES_CTX option \<Rightarrow> nat option \<Rightarrow> u8 list option \<Rightarrow> nat \<Rightarrow> bool \<Rightarrow> cipher_cmd \<Rightarrow> MCP_CIPHER_CTX \<Rightarrow> mcp_sys \<Rightarrow>
     (int \<times> u8 list \<times> MCP_CIPHER_CTX \<times> mcp_sys) option" where
  "mcp_cipher_ioctl E pli mem ubuf from_user tmp to_user cmd ctx s =
     (case cmd of
        MCP_CIPHER_IOCTL_INIT (Some (type, enc, key, iv)) \<Rightarrow> do {
          (r, ctx) \<leftarrow> mcp_cipher_do_init mem ctx type enc key iv;
          Some (r, [], ctx, s)
        }
      | MCP_CIPHER_IOCTL_UPDATE (Some (inp, len, out)) \<Rightarrow> mcp_cipher_do_update E pli ubuf from_user to_user ctx inp len out s
      | MCP_CIPHER_IOCTL_FINAL out \<Rightarrow> Some (mcp_cipher_do_final pli tmp to_user ctx out s)
      | _ \<Rightarrow> Some (- EFAULT, [], ctx, s))"

end
