(* ===== verification/Mcp_Props.thy ===== *)
theory Mcp_Props
  imports Mcp_Cipher
begin

text \<open>
  The properties of the block ciphers on the crypto engine: whatever the pieces in which a message is passed to
  a cipher context, the output is the message in the textbook mode of operation, and decrypting gives it back.
\<close>

section \<open>The engine\<close>

text \<open>
  What is documented of the engine: it processes a descriptor without error before polling gives up, and writes
  a function \<open>F\<close> of the descriptor and the input bytes to the output address.
\<close>

definition finishes :: "(nat \<Rightarrow> u32 \<times> u32) \<Rightarrow> bool" where
  "finishes hw \<longleftrightarrow> (\<exists>k < 4092. fst (hw k) AND MCP_GO = 0 \<or> snd (hw k) \<noteq> 0) \<and> (\<forall>k. snd (hw k) AND NOT MCP_RING_EMPTY = 0)"

definition engine_runs :: "engine \<Rightarrow> (mcp_desc \<Rightarrow> u8 list \<Rightarrow> u8 list) \<Rightarrow> bool" where
  "engine_runs E F \<longleftrightarrow> (\<forall>d m. \<exists>hw. E [d] m = (hw, store (d_out d) (F d (load m (d_in d) (d_len d))) m) \<and> finishes hw)"

lemma set_reg_simps [simp]: "m_mem (set_reg r v s) = m_mem s" "m_issued (set_reg r v s) = m_issued s" "m_desc (set_reg r v s) = m_desc s"
  by (simp_all add: set_reg_def)

lemma set_regs_simps [simp]:
  "m_mem (set_regs ws s) = m_mem s" "m_issued (set_regs ws s) = m_issued s" "m_desc (set_regs ws s) = m_desc s"
  by (induction ws s rule: set_regs.induct) simp_all

lemma mcp_start_xfer_mem [simp]: "m_mem (snd (mcp_start_xfer hw s)) = m_mem s" "m_issued (snd (mcp_start_xfer hw s)) = m_issued s"
  by (simp_all add: mcp_start_xfer_def Let_def)

lemma mcp_start_xfer_ok: "finishes hw \<Longrightarrow> fst (mcp_start_xfer hw s) = 0"
  by (simp add: mcp_start_xfer_def Let_def finishes_def)

lemma mcp_run_desc_ok:
  assumes "engine_runs E F"
  shows "fst (mcp_run_desc E d i out n s) = 0"
    "m_mem (snd (mcp_run_desc E d i out n s)) = store out (F (d\<lparr>d_in := i, d_out := out, d_len := n\<rparr>) (load (m_mem s) i n)) (m_mem s)"
proof -
  let ?d = "d\<lparr>d_in := i, d_out := out, d_len := n\<rparr>"
  obtain hw where "E [?d] (m_mem s) = (hw, store out (F ?d (load (m_mem s) i n)) (m_mem s))" "finishes hw"
    using assms [unfolded engine_runs_def, rule_format, of ?d "m_mem s"] by auto
  then show "fst (mcp_run_desc E d i out n s) = 0"
    "m_mem (snd (mcp_run_desc E d i out n s)) = store out (F ?d (load (m_mem s) i n)) (m_mem s)"
    by (simp_all add: mcp_run_desc_def mcp_do_command_def mcp_set_desc_buffer_def Let_def split_beta mcp_start_xfer_ok)
qed

section \<open>Modes of operation\<close>

text \<open>
  A mode of operation processes a block under a chaining value and gives the output block and the next chaining
  value; \<open>mode_run\<close> processes the full blocks of a message.
\<close>

type_synonym mode_step = "u8 list \<Rightarrow> u8 list \<Rightarrow> u8 list \<times> u8 list"

definition xor_bytes :: "u8 list \<Rightarrow> u8 list \<Rightarrow> u8 list" where
  "xor_bytes xs ys = map2 (XOR) xs ys"

definition ecb :: "(u8 list \<Rightarrow> u8 list) \<Rightarrow> mode_step" where
  "ecb f iv b = (f b, iv)"

definition cbc_enc :: "(u8 list \<Rightarrow> u8 list) \<Rightarrow> mode_step" where
  "cbc_enc f iv b = (let c = f (xor_bytes b iv) in (c, c))"

definition cbc_dec :: "(u8 list \<Rightarrow> u8 list) \<Rightarrow> mode_step" where
  "cbc_dec f iv b = (xor_bytes (f b) iv, b)"

function mode_run :: "mode_step \<Rightarrow> nat \<Rightarrow> u8 list \<Rightarrow> u8 list \<Rightarrow> u8 list \<times> u8 list" where
  "mode_run step n iv xs =
     (if n = 0 \<or> length xs < n then ([], iv)
      else let (c, iv) = step iv (take n xs); (cs, iv) = mode_run step n iv (drop n xs) in (c @ cs, iv))"
  by auto

termination by (relation "measure (\<lambda>(step, n, iv, xs). length xs)") auto

declare mode_run.simps [simp del]

lemma mode_run_short: "length xs < n \<Longrightarrow> mode_run step n iv xs = ([], iv)"
  by (simp add: mode_run.simps)

lemma mode_run_block:
  "0 < n \<Longrightarrow> length b = n \<Longrightarrow> mode_run step n iv (b @ xs) =
     (fst (step iv b) @ fst (mode_run step n (snd (step iv b)) xs), snd (mode_run step n (snd (step iv b)) xs))"
  by (subst mode_run.simps) (simp add: split_beta Let_def)

text \<open>Full blocks in front can be processed first.\<close>

lemma mode_run_append:
  assumes "0 < n" "n dvd length xs"
  shows "mode_run step n iv (xs @ ys) =
    (fst (mode_run step n iv xs) @ fst (mode_run step n (snd (mode_run step n iv xs)) ys), snd (mode_run step n (snd (mode_run step n iv xs)) ys))"
  using assms(2)
proof (induction "length xs" arbitrary: xs iv rule: less_induct)
  case less
  show ?case
  proof (cases "xs = []")
    case True
    then show ?thesis using assms(1) by (simp add: mode_run_short)
  next
    case False
    then have n: "n \<le> length xs" using less.prems by (simp add: dvd_imp_le)
    obtain b zs where xs: "xs = b @ zs" "length b = n" using n by (metis append_take_drop_id length_take min.absorb2)
    have "n dvd length zs" using less.prems xs by (metis dvd_add_right_iff dvd_refl length_append)
    then show ?thesis using less.hyps [of zs] xs assms(1) mode_run_block [OF assms(1) xs(2), of step iv] by simp
  qed
qed

lemma mode_run_length:
  assumes "0 < n" "\<And>iv b. length iv = n \<Longrightarrow> length b = n \<Longrightarrow> length (fst (step iv b)) = n \<and> length (snd (step iv b)) = n" "length iv = n"
  shows "length (fst (mode_run step n iv xs)) = align n (length xs) \<and> length (snd (mode_run step n iv xs)) = n"
  using assms(3)
proof (induction "length xs" arbitrary: xs iv rule: less_induct)
  case less
  show ?case
  proof (cases "length xs < n")
    case True
    then show ?thesis using less.prems by (simp add: mode_run_short align_def)
  next
    case False
    obtain b zs where xs: "xs = b @ zs" "length b = n" using False by (metis append_take_drop_id length_take min.absorb2 not_less)
    have "length (snd (step iv b)) = n" "length (fst (step iv b)) = n" using assms(2) less.prems xs(2) by blast+
    then show ?thesis using less.hyps [of zs "snd (step iv b)"] xs assms(1) mode_run_block [OF assms(1) xs(2), of step iv]
      by (simp add: align_def)
  qed
qed

text \<open>A tail shorter than a block has no effect.\<close>

lemma align_facts: "0 < n \<Longrightarrow> n dvd align n k" "align n k \<le> k" "0 < n \<Longrightarrow> k - align n k = k mod n" "align n (align n k) = align n k"
  by (simp_all add: align_def dvd_minus_mod)

lemma mode_run_align:
  assumes "0 < n"
  shows "mode_run step n iv (take (align n (length xs)) xs) = mode_run step n iv xs"
proof -
  let ?a = "align n (length xs)"
  have d: "length (drop ?a xs) < n" using align_facts(3) [OF assms, of "length xs"] assms by simp
  have "n dvd length (take ?a xs)" using align_facts(1) [OF assms] by (simp add: align_facts(2) min.absorb2)
  from mode_run_append [OF assms this, of step iv "drop ?a xs"] show ?thesis
    using d by (simp add: mode_run_short)
qed

lemma last_block:
  assumes "0 < n" "n dvd length xs" "xs \<noteq> []"
  obtains ys b where "xs = ys @ b" "length b = n" "n dvd length ys" "b = drop (length xs - n) xs"
proof -
  have le: "n \<le> length xs" using assms(2,3) by (simp add: dvd_imp_le)
  have "xs = take (length xs - n) xs @ drop (length xs - n) xs" by simp
  moreover have "n dvd length (take (length xs - n) xs)" using assms(2) by (simp add: min.absorb2 dvd_diff_nat)
  ultimately show ?thesis using that [of "take (length xs - n) xs" "drop (length xs - n) xs"] le by simp
qed

text \<open>The chaining value after a run, as the driver takes it from the output or from the input.\<close>

lemma chain_ecb: "snd (mode_run (ecb f) n iv xs) = iv"
proof (induction "length xs" arbitrary: xs rule: less_induct)
  case less
  show ?case
    using less [of "drop n xs"] by (cases "n = 0 \<or> length xs < n"; subst mode_run.simps) (auto simp: ecb_def split_beta Let_def)
qed

lemma chain_cbc_enc:
  assumes "0 < n" "n dvd length xs" "xs \<noteq> []" "\<And>b. length b = n \<Longrightarrow> length (f b) = n" "length iv = n"
  shows "snd (mode_run (cbc_enc f) n iv xs) = drop (length xs - n) (fst (mode_run (cbc_enc f) n iv xs))"
proof -
  have st: "length (fst (cbc_enc f v b)) = n \<and> length (snd (cbc_enc f v b)) = n" if "length v = n" "length b = n" for v b
    using assms(4) that by (simp add: cbc_enc_def xor_bytes_def Let_def)
  obtain ys b where x: "xs = ys @ b" "length b = n" "n dvd length ys" using last_block assms(1-3) by metis
  let ?v = "snd (mode_run (cbc_enc f) n iv ys)"
  have r: "mode_run (cbc_enc f) n iv xs = (fst (mode_run (cbc_enc f) n iv ys) @ fst (cbc_enc f ?v b), snd (cbc_enc f ?v b))"
    using mode_run_append [OF assms(1) x(3), of "cbc_enc f" iv b] mode_run_block [OF assms(1) x(2), of "cbc_enc f" ?v "[]"] x(1) assms(1)
    by (simp add: mode_run_short)
  have "length (fst (mode_run (cbc_enc f) n iv ys)) = length ys"
    using mode_run_length [of n "cbc_enc f" iv ys] st assms(1,5) x(3) by (simp add: align_def)
  then show ?thesis using r x(1,2) by (simp add: cbc_enc_def Let_def)
qed

lemma chain_cbc_dec:
  assumes "0 < n" "n dvd length xs" "xs \<noteq> []"
  shows "snd (mode_run (cbc_dec f) n iv xs) = drop (length xs - n) xs"
proof -
  obtain ys b where x: "xs = ys @ b" "length b = n" "n dvd length ys" using last_block assms by metis
  let ?v = "snd (mode_run (cbc_dec f) n iv ys)"
  have "snd (mode_run (cbc_dec f) n iv xs) = snd (cbc_dec f ?v b)"
    using mode_run_append [OF assms(1) x(3), of "cbc_dec f" iv b] mode_run_block [OF assms(1) x(2), of "cbc_dec f" ?v "[]"] x(1) assms(1)
    by (simp add: mode_run_short)
  then show ?thesis using x(1,2) by (simp add: cbc_dec_def)
qed

section \<open>What the engine computes for a descriptor\<close>

definition be32 :: "u32 \<Rightarrow> u8 list" where
  "be32 w = rev (le32 w)"

lemma be32_of_le32: "length bs = 4 \<Longrightarrow> be32_of bs = le32_of (rev bs)"
proof -
  assume "length bs = 4"
  then obtain a b c d where bs: "bs = [a, b, c, d]" by (auto simp: length_Suc_conv numeral_eq_Suc)
  have "push_bit 24 (ucast a) + push_bit 16 (ucast b) = (push_bit 24 (ucast a) OR push_bit 16 (ucast b) :: u32)"
    by (rule disjunctive_add) (auto simp: bit_simps dest: bit_imp_le_length)
  moreover have "(push_bit 24 (ucast a) OR push_bit 16 (ucast b)) + push_bit 8 (ucast c) = ((push_bit 24 (ucast a) OR push_bit 16 (ucast b)) OR push_bit 8 (ucast c) :: u32)"
    by (rule disjunctive_add) (auto simp: bit_simps dest: bit_imp_le_length)
  moreover have "((push_bit 24 (ucast a) OR push_bit 16 (ucast b)) OR push_bit 8 (ucast c)) + ucast d = (((push_bit 24 (ucast a) OR push_bit 16 (ucast b)) OR push_bit 8 (ucast c)) OR ucast d :: u32)"
    by (rule disjunctive_add) (auto simp: bit_simps dest: bit_imp_le_length)
  ultimately show ?thesis by (simp add: bs be32_of_def le32_of_def ac_simps)
qed

lemma be32_be32_of: "length bs = 4 \<Longrightarrow> be32 (be32_of bs) = bs"
  by (simp add: be32_def be32_of_le32 le32_le32_of)

lemma be32_of_take: "4 \<le> length bs \<Longrightarrow> be32_of (take 4 bs) = be32_of bs"
  by (simp add: be32_of_def)

lemma be32_drop: "k + 4 \<le> length bs \<Longrightarrow> be32 (be32_of (drop k bs)) = take 4 (drop k bs)"
  using be32_be32_of [of "take 4 (drop k bs)"] be32_of_take [of "drop k bs"] by simp

lemma split4: "take 4 (drop k bs) @ drop (k + 4) bs = drop k bs"
  by (metis append_take_drop_id drop_drop add.commute)

lemma iv_words16: "length iv = 16 \<Longrightarrow> concat (map be32 (words16 iv)) = iv"
  using be32_drop [of 0 iv] be32_drop [of 4 iv] be32_drop [of 8 iv] be32_drop [of 12 iv] split4 [of 0 iv] split4 [of 4 iv] split4 [of 8 iv]
  by (simp add: words16_def)

lemma iv_words8: "length iv = 8 \<Longrightarrow> take 8 (concat (map be32 [be32_of iv, be32_of (drop 4 iv), a, b])) = iv"
  using be32_drop [of 0 iv] be32_drop [of 4 iv] split4 [of 0 iv] by simp

text \<open>
  The function of a cipher descriptor: \<open>blk\<close> is the block function of the algorithm, direction and key source in
  the flags under the key words; the mode bits choose how blocks are chained.
\<close>

definition desc_block :: "mcp_desc \<Rightarrow> nat" where
  "desc_block d = (if d_flags d AND 0x1F = MCP_ALGO_AES then 16 else 8)"

definition desc_step :: "(u32 \<Rightarrow> u32 list \<Rightarrow> u8 list \<Rightarrow> u8 list) \<Rightarrow> mcp_desc \<Rightarrow> mode_step" where
  "desc_step blk d =
     (let f = blk (d_flags d AND 0x103F) (d_key d) in
      if d_flags d AND 0xC0 = 0 then ecb f else if d_flags d AND 0x20 \<noteq> 0 then cbc_enc f else cbc_dec f)"

definition desc_fn :: "(u32 \<Rightarrow> u32 list \<Rightarrow> u8 list \<Rightarrow> u8 list) \<Rightarrow> mcp_desc \<Rightarrow> u8 list \<Rightarrow> u8 list" where
  "desc_fn blk d xs = fst (mode_run (desc_step blk d) (desc_block d) (take (desc_block d) (concat (map be32 (d_iv d)))) xs)"

text \<open>The engine runs cipher descriptors as documented.\<close>

definition engine_ciphers :: "engine \<Rightarrow> (u32 \<Rightarrow> u32 list \<Rightarrow> u8 list \<Rightarrow> u8 list) \<Rightarrow> bool" where
  "engine_ciphers E blk \<longleftrightarrow> (\<forall>fl k b. length (blk fl k b) = length b) \<and>
     (\<exists>F. engine_runs E F \<and> (\<forall>d xs. d_flags d AND 0x1F \<in> {MCP_ALGO_DES, MCP_ALGO_3DES, MCP_ALGO_AES} \<longrightarrow> F d xs = desc_fn blk d xs))"

text \<open>The mode of operation of a cipher under a key.\<close>

definition is_cbc :: "MCP_CIPHER \<Rightarrow> bool" where
  "is_cbc c \<longleftrightarrow> c \<in> {aes_128_cbc, des_cbc, tdes_cbc}"

definition cipher_flags :: "MCP_CIPHER \<Rightarrow> u8 list option \<Rightarrow> bool \<Rightarrow> u32" where
  "cipher_flags c key enc =
     (if c \<in> {aes_128_ecb, aes_128_cbc} then MCP_ALGO_AES OR (if key = None then 0x1000 else 0)
      else if c \<in> {des_ecb, des_cbc} then MCP_ALGO_DES else MCP_ALGO_3DES) OR (if enc then 0x20 else 0)"

definition cipher_key :: "MCP_CIPHER \<Rightarrow> u8 list option \<Rightarrow> bool \<Rightarrow> u32 list" where
  "cipher_key c key enc =
     (case key of
        None \<Rightarrow> replicate 6 0
      | Some k \<Rightarrow>
          if c \<in> {aes_128_ecb, aes_128_cbc} then words16 k @ [0, 0]
          else if c \<in> {des_ecb, des_cbc} then [be32_of k, be24_of (drop 4 k), 0, 0, 0, 0]
          else if enc then [be32_of k, be24_of (drop 4 k), be32_of (drop 7 k), be24_of (drop 11 k), be32_of (drop 14 k), be24_of (drop 18 k)]
          else [be32_of (drop 14 k), be24_of (drop 18 k), be32_of (drop 7 k), be24_of (drop 11 k), be32_of k, be24_of (drop 4 k)])"

definition cipher_step :: "(u32 \<Rightarrow> u32 list \<Rightarrow> u8 list \<Rightarrow> u8 list) \<Rightarrow> MCP_CIPHER \<Rightarrow> u8 list option \<Rightarrow> bool \<Rightarrow> mode_step" where
  "cipher_step blk c key enc =
     (let f = blk (cipher_flags c key enc) (cipher_key c key enc) in
      if \<not> is_cbc c then ecb f else if enc then cbc_enc f else cbc_dec f)"

definition cipher_mode :: "MCP_CIPHER \<Rightarrow> u8" where
  "cipher_mode c = (if is_cbc c then MCP_BCM_CBC else MCP_BCM_ECB)"

definition cipher_desc :: "MCP_CIPHER \<Rightarrow> u8 list option \<Rightarrow> bool \<Rightarrow> u8 list \<Rightarrow> mcp_desc" where
  "cipher_desc c key enc iv =
     (let e = (if enc then 1 else 0) in
      if c \<in> {aes_128_ecb, aes_128_cbc} then snd (MCP_AES_DESC_INIT e (cipher_mode c) key (Some iv))
      else if c \<in> {des_ecb, des_cbc} then MCP_DES_DESC_INIT e (cipher_mode c) (the key) (Some iv)
      else MCP_TDES_DESC_INIT e (cipher_mode c) (the key) (Some iv))"

lemma cipher_desc_fn:
  assumes "length iv = block_size c" "c \<in> {aes_128_ecb, aes_128_cbc} \<or> key \<noteq> None"
  shows "desc_fn blk (cipher_desc c key enc iv\<lparr>d_in := i, d_out := out, d_len := n\<rparr>) xs = fst (mode_run (cipher_step blk c key enc) (block_size c) iv xs)"
    "d_flags (cipher_desc c key enc iv) AND 0x1F \<in> {MCP_ALGO_DES, MCP_ALGO_3DES, MCP_ALGO_AES}"
  using assms
  by (cases c; cases enc; cases key;
      simp add: cipher_desc_def desc_fn_def desc_block_def desc_step_def cipher_step_def cipher_flags_def cipher_key_def cipher_mode_def is_cbc_def
        block_size_def MCP_AES_DESC_INIT_def MCP_DES_DESC_INIT_def MCP_TDES_DESC_INIT_def MARS_MCP_MODE_def MARS_MCP_BCM_def MARS_MCP_ENC_def
        MARS_MCP_KEY_SEL_def zero_desc_def iv_words16 iv_words8 [simplified] Let_def)+

section \<open>Processing blocks\<close>

definition ctx_ok :: "MCP_CIPHER \<Rightarrow> u8 list option \<Rightarrow> bool \<Rightarrow> u8 list \<Rightarrow> MCP_CIPHER_CTX \<Rightarrow> bool" where
  "ctx_ok c key enc iv ctx \<longleftrightarrow> cipher ctx = Some c \<and> cipher_data ctx = Some \<lparr>c_mode = cipher_mode c, c_enc = enc, c_key = key, c_iv = iv\<rparr> \<and>
     length iv = block_size c \<and> (c \<in> {aes_128_ecb, aes_128_cbc} \<or> key \<noteq> None)"

definition set_iv :: "u8 list \<Rightarrow> MCP_CIPHER_CTX \<Rightarrow> MCP_CIPHER_CTX" where
  "set_iv iv ctx = ctx\<lparr>cipher_data := map_option (\<lambda>d. d\<lparr>c_iv := iv\<rparr>) (cipher_data ctx)\<rparr>"

lemma set_iv_simps [simp]: "buff_len (set_iv iv ctx) = buff_len ctx" "buff (set_iv iv ctx) = buff ctx" "cipher (set_iv iv ctx) = cipher ctx"
  by (simp_all add: set_iv_def)

lemma ctx_ok_set_iv: "ctx_ok c key enc iv ctx \<Longrightarrow> length v = block_size c \<Longrightarrow> ctx_ok c key enc v (set_iv v ctx)"
  by (simp add: ctx_ok_def set_iv_def)

lemma block_size_pos [simp]: "0 < block_size c" "block_size c \<le> 16"
  by (simp_all add: block_size_def)

lemma do_cipher_eq:
  assumes "ctx_ok c key enc iv ctx"
  shows "do_cipher E c ctx inp len out s =
    (let n = block_size c; l = align n len in
     if l = 0 then Some (int l, ctx, s)
     else let s' = snd (mcp_run_desc E (cipher_desc c key enc iv) inp out l s);
              v = (if \<not> is_cbc c then iv else if enc then load (m_mem s') (out + l - n) n else load (m_mem s) (inp + l - n) n)
          in Some (int l, set_iv v ctx, s'))"
proof -
  obtain ci bl bu where x: "ctx = \<lparr>cipher = Some c, cipher_data = Some \<lparr>c_mode = cipher_mode c, c_enc = enc, c_key = key, c_iv = iv\<rparr>, buff_len = bl, buff = bu\<rparr>"
    using assms by (cases ctx) (simp add: ctx_ok_def)
  have k: "c \<in> {aes_128_ecb, aes_128_cbc} \<or> key \<noteq> None" using assms by (simp add: ctx_ok_def)
  show ?thesis using k
    by (cases c; cases enc)
      (auto simp: x do_cipher_def AES_DoCipher_def DES_DoCipher_def TDES_DoCipher_def block_size_def cipher_mode_def is_cbc_def cipher_desc_def set_iv_def
        MCP_AES_Encryption_def MCP_AES_Decryption_def MCP_DES_Encryption_def MCP_DES_Decryption_def MCP_TDES_Encryption_def MCP_TDES_Decryption_def
        align_facts(4) Let_def)
qed

lemma cipher_step_length:
  assumes "engine_ciphers E blk" "length iv = block_size c" "length b = block_size c"
  shows "length (fst (cipher_step blk c key enc iv b)) = block_size c \<and> length (snd (cipher_step blk c key enc iv b)) = block_size c"
  using assms by (simp add: engine_ciphers_def cipher_step_def ecb_def cbc_enc_def cbc_dec_def xor_bytes_def Let_def)

lemma cipher_run_length:
  assumes "engine_ciphers E blk" "length iv = block_size c"
  shows "length (fst (mode_run (cipher_step blk c key enc) (block_size c) iv xs)) = align (block_size c) (length xs)"
    "length (snd (mode_run (cipher_step blk c key enc) (block_size c) iv xs)) = block_size c"
  using mode_run_length [of "block_size c" "cipher_step blk c key enc" iv xs] cipher_step_length [OF assms(1)] assms(2) by simp_all

lemma load_take: "k \<le> n \<Longrightarrow> load m a k = take k (load m a n)"
  using load_sub [of 0 k n m a] by simp

lemma load_drop: "k \<le> n \<Longrightarrow> load m (a + k) (n - k) = drop k (load m a n)"
  using load_sub [of k "n - k" n m a] by simp

text \<open>One call processes the full blocks of its input and keeps the chaining value.\<close>

lemma do_cipher_run:
  assumes E: "engine_ciphers E blk" and ok: "ctx_ok c key enc iv ctx"
    and r: "mode_run (cipher_step blk c key enc) (block_size c) iv (load (m_mem s) inp len) = (ys, v)"
  obtains s' where "do_cipher E c ctx inp len out s = Some (int (align (block_size c) len), set_iv v ctx, s')" "m_mem s' = store out ys (m_mem s)"
proof -
  let ?n = "block_size c" let ?l = "align ?n len" let ?st = "cipher_step blk c key enc"
  have iv: "length iv = ?n" using ok by (simp add: ctx_ok_def)
  have xs: "load (m_mem s) inp ?l = take ?l (load (m_mem s) inp len)" using load_take align_facts(2) by metis
  have ra: "mode_run ?st ?n iv (load (m_mem s) inp ?l) = (ys, v)" unfolding xs using mode_run_align [of ?n ?st iv "load (m_mem s) inp len"] r by simp
  have ly: "length ys = ?l" using cipher_run_length(1) [OF E iv, of key enc "load (m_mem s) inp len"] r by simp
  show ?thesis
  proof (cases "?l = 0")
    case True
    then have "ys = []" "v = iv" using ly ra by (simp_all add: mode_run_short)
    moreover have "set_iv iv ctx = ctx" using ok by (cases ctx) (simp add: ctx_ok_def set_iv_def)
    ultimately show ?thesis using that [of s] do_cipher_eq [OF ok, of E inp len out s] True by (simp add: Let_def)
  next
    case False
    define s' where "s' = snd (mcp_run_desc E (cipher_desc c key enc iv) inp out ?l s)"
    obtain F where F: "engine_runs E F" "\<And>d xs. d_flags d AND 0x1F \<in> {MCP_ALGO_DES, MCP_ALGO_3DES, MCP_ALGO_AES} \<Longrightarrow> F d xs = desc_fn blk d xs"
      using E unfolding engine_ciphers_def by blast
    have k: "c \<in> {aes_128_ecb, aes_128_cbc} \<or> key \<noteq> None" using ok by (simp add: ctx_ok_def)
    have "d_flags (cipher_desc c key enc iv\<lparr>d_in := inp, d_out := out, d_len := ?l\<rparr>) AND 0x1F \<in> {MCP_ALGO_DES, MCP_ALGO_3DES, MCP_ALGO_AES}"
      using cipher_desc_fn(2) [OF iv k] by simp
    then have m: "m_mem s' = store out ys (m_mem s)"
      unfolding s'_def using mcp_run_desc_ok(2) [OF F(1)] F(2) cipher_desc_fn(1) [OF iv k] ra by simp
    have d: "?n dvd ?l" "?l = length (load (m_mem s) inp ?l)" "load (m_mem s) inp ?l \<noteq> []" using False align_facts(1) by (simp_all add: load_def)
    have nl: "?n \<le> ?l" using d(1) False by (simp add: dvd_imp_le)
    have "v = (if \<not> is_cbc c then iv else if enc then load (m_mem s') (out + ?l - ?n) ?n else load (m_mem s) (inp + ?l - ?n) ?n)"
    proof (cases "is_cbc c")
      case False
      then show ?thesis using ra chain_ecb by (simp add: cipher_step_def Let_def) (metis snd_conv)
    next
      case cbc: True
      show ?thesis
      proof (cases enc)
        case True
        have "load (m_mem s') (out + (?l - ?n)) ?n = drop (?l - ?n) ys"
          using load_drop [of "?l - ?n" ?l "m_mem s'" out] nl ly load_store_same [of out ys "m_mem s"] m by simp
        then show ?thesis using chain_cbc_enc [of ?n "load (m_mem s) inp ?l" "blk (cipher_flags c key enc) (cipher_key c key enc)" iv] d iv E ra cbc True nl
          by (simp add: cipher_step_def engine_ciphers_def Let_def)
      next
        case False
        have "load (m_mem s) (inp + (?l - ?n)) ?n = drop (?l - ?n) (load (m_mem s) inp ?l)" using load_drop [of "?l - ?n" ?l "m_mem s" inp] nl by simp
        then show ?thesis using chain_cbc_dec [of ?n "load (m_mem s) inp ?l" "blk (cipher_flags c key enc) (cipher_key c key enc)" iv] d ra cbc False nl
          by (simp add: cipher_step_def Let_def)
      qed
    qed
    then show ?thesis using that [OF _ m] do_cipher_eq [OF ok, of E inp len out s] False by (simp add: Let_def s'_def)
  qed
qed

section \<open>Messages in pieces\<close>

text \<open>
  A context stands for a chaining value and the bytes of an incomplete block. Feeding bytes to it processes the full
  blocks of what was pending and the new bytes together.
\<close>

definition cipher_rep :: "MCP_CIPHER \<Rightarrow> u8 list option \<Rightarrow> bool \<Rightarrow> u8 list \<Rightarrow> u8 list \<Rightarrow> MCP_CIPHER_CTX \<Rightarrow> mcp_sys \<Rightarrow> bool" where
  "cipher_rep c key enc iv p ctx s \<longleftrightarrow> ctx_ok c key enc iv ctx \<and> length p < block_size c \<and> buff_len ctx = of_nat (length p) \<and>
     load (m_mem s) (buff ctx) (length p) = p"

definition pending :: "nat \<Rightarrow> u8 list \<Rightarrow> u8 list" where
  "pending n xs = drop (align n (length xs)) xs"

text \<open>Memory is changed at most in the output and in the buffer of the context.\<close>

definition kept :: "nat \<Rightarrow> nat \<Rightarrow> nat \<Rightarrow> mem \<Rightarrow> mem \<Rightarrow> bool" where
  "kept out n b m m' \<longleftrightarrow> (\<forall>x. \<not> (out \<le> x \<and> x < out + n) \<longrightarrow> \<not> (b \<le> x \<and> x < b + 16) \<longrightarrow> m' x = m x)"

lemma kept_load: "kept out n b m m' \<Longrightarrow> disjoint_ranges a k out n \<Longrightarrow> disjoint_ranges a k b 16 \<Longrightarrow> load m' a k = load m a k"
  by (rule nth_equalityI) (auto simp: kept_def disjoint_ranges_def)

lemma kept_trans: "kept out n b m m' \<Longrightarrow> kept (out + n) k b m' m'' \<Longrightarrow> kept out (n + k) b m m''"
  unfolding kept_def by (metis add.assoc le_add1 le_trans not_le trans_less_add1)

lemma kept_store_out: "kept out (length ys) b m (store out ys m)"
  by (auto simp: kept_def store_def)

lemma kept_store_buf: "i + length ys \<le> 16 \<Longrightarrow> kept out n b m (store (b + i) ys m)"
  by (auto simp: kept_def store_def)

lemma unat_small: "k < 16 \<Longrightarrow> unat (of_nat k :: u8) = k"
  by (simp add: unat_of_nat)

lemma buff_len_length: "cipher_rep c key enc iv p ctx s \<Longrightarrow> unat (buff_len ctx) = length p"
  using unat_small [of "length p"] block_size_pos(2) [of c] by (simp add: cipher_rep_def)

lemma disjoint_sub: "disjoint_ranges a n b k \<Longrightarrow> i + n' \<le> n \<Longrightarrow> j + k' \<le> k \<Longrightarrow> disjoint_ranges (a + i) n' (b + j) k'"
  by (auto simp: disjoint_ranges_def)

text \<open>The part of an update that starts without an incomplete block.\<close>

lemma update_blocks_spec:
  assumes E: "engine_ciphers E blk" and rep: "cipher_rep c key enc iv [] ctx s"
    and io: "disjoint_ranges inp len out (align (block_size c) len)" "disjoint_ranges inp len (buff ctx) 16"
      "disjoint_ranges out (align (block_size c) len) (buff ctx) 16"
    and r: "mode_run (cipher_step blk c key enc) (block_size c) iv (load (m_mem s) inp len) = (ys, v)"
  obtains ctx' s' where "update_blocks E c ctx inp len out outl s = Some (outl + int (length ys), ctx', s')"
    "cipher_rep c key enc v (pending (block_size c) (load (m_mem s) inp len)) ctx' s'" "load (m_mem s') out (length ys) = ys"
    "kept out (length ys) (buff ctx) (m_mem s) (m_mem s')" "buff ctx' = buff ctx"
proof -
  let ?n = "block_size c" let ?l = "align ?n len" let ?xs = "load (m_mem s) inp len"
  have ok: "ctx_ok c key enc iv ctx" "buff_len ctx = 0" using rep by (simp_all add: cipher_rep_def)
  have iv: "length iv = ?n" using ok by (simp add: ctx_ok_def)
  have ly: "length ys = ?l" "length v = ?n" using cipher_run_length [OF E iv, of key enc ?xs] r by simp_all
  have rest: "len - ?l = len mod ?n" "len mod ?n < ?n" using align_facts(3) [of ?n len] by simp_all
  obtain s1 where s1: "do_cipher E c ctx inp len out s = Some (int ?l, set_iv v ctx, s1)" "m_mem s1 = store out ys (m_mem s)"
    using do_cipher_run [OF E ok(1) r] by blast
  have lo: "load (m_mem s1) out (length ys) = ys" using s1(2) load_store_same by simp
  have k1: "kept out (length ys) (buff ctx) (m_mem s) (m_mem s1)" unfolding s1(2) by (rule kept_store_out)
  have okv: "ctx_ok c key enc v (set_iv v ctx)" using ctx_ok_set_iv [OF ok(1)] ly(2) by simp
  show ?thesis
  proof (cases "len = ?l")
    case True
    have "pending ?n ?xs = []" using True by (simp add: pending_def)
    moreover have "update_blocks E c ctx inp len out outl s = Some (outl + int (length ys), set_iv v ctx, s1)"
    proof (cases "len = 0")
      case z: True
      then have "ys = []" "v = iv" using r ly by (simp_all add: mode_run_short align_def)
      moreover have "set_iv iv ctx = ctx" using ok by (cases ctx) (simp add: ctx_ok_def set_iv_def)
      moreover have "s1 = s" using s1(1) z do_cipher_eq [OF ok(1), of E inp 0 out s] by (simp add: align_def Let_def)
      ultimately show ?thesis using z by (simp add: update_blocks_def)
    next
      case False
      then show ?thesis using s1(1) True ly by (simp add: update_blocks_def)
    qed
    ultimately show ?thesis using that [of "set_iv v ctx" s1] okv lo k1 ok(2) by (simp add: cipher_rep_def)
  next
    case False
    let ?q = "load (m_mem s1) (inp + ?l) (len - ?l)"
    let ?c = "set_iv v ctx\<lparr>buff_len := of_nat (len - ?l)\<rparr>" let ?s = "s1\<lparr>m_mem := store (buff ctx) ?q (m_mem s1)\<rparr>"
    have "load (m_mem s1) inp len = ?xs" using kept_load [OF k1] io(1,2) ly(1) by simp
    then have q: "?q = pending ?n ?xs" using load_drop [of ?l len "m_mem s1" inp] align_facts(2) by (simp add: pending_def)
    have lq: "length ?q < ?n" "length ?q \<le> 16" using rest block_size_pos(2) [of c] unfolding length_load by linarith+
    have u: "update_blocks E c ctx inp len out outl s = Some (outl + int (length ys), ?c, ?s)"
      using s1(1) False ly align_facts(2) [of ?n len] by (simp add: update_blocks_def Let_def)
    have "ctx_ok c key enc v ?c" using okv by (simp add: ctx_ok_def)
    moreover have "load (m_mem ?s) (buff ctx) (length ?q) = ?q" using load_store_same [of "buff ctx" ?q "m_mem s1"] by simp
    ultimately have "cipher_rep c key enc v ?q ?c ?s" using lq(1) by (simp add: cipher_rep_def)
    moreover have "load (m_mem ?s) out (length ys) = ys"
      using lo load_store_disjoint [of out "length ys" "buff ctx" ?q "m_mem s1"] io(3) ly(1) lq(2) by (simp add: disjoint_ranges_def) linarith
    moreover have "kept out (length ys) (buff ctx) (m_mem s) (m_mem ?s)"
      using k1 kept_store_buf [of 0 ?q out "length ys" "buff ctx" "m_mem s1"] lq(2) by (simp add: kept_def)
    ultimately show ?thesis using that [of ?c ?s] u q by simp
  qed
qed

lemma cipher_rep_init: "ctx_ok c key enc iv ctx \<Longrightarrow> cipher_rep c key enc iv [] (ctx\<lparr>buff_len := 0\<rparr>) s"
  by (simp add: cipher_rep_def ctx_ok_def)

lemma align_add: "n dvd a \<Longrightarrow> align n (a + b) = a + align n b"
  by (auto simp: align_def dvd_def)

lemma pending_append: "0 < n \<Longrightarrow> n dvd length b \<Longrightarrow> pending n (b @ xs) = pending n xs"
  by (simp add: pending_def align_add)

text \<open>Feeding a context, where the input, the output and the buffer of the context are apart.\<close>

lemma update_spec:
  assumes E: "engine_ciphers E blk" and rep: "cipher_rep c key enc iv p ctx s" and len: "length p + len < 2 ^ 32"
    and io: "disjoint_ranges inp len out (align (block_size c) (length p + len))" "disjoint_ranges inp len (buff ctx) 16"
      "disjoint_ranges out (align (block_size c) (length p + len)) (buff ctx) 16"
    and r: "mode_run (cipher_step blk c key enc) (block_size c) iv (p @ load (m_mem s) inp len) = (ys, v)"
  obtains ctx' s' where "MCP_CipherUpdate E ctx inp len out s = Some (int (length ys), ctx', s')"
    "cipher_rep c key enc v (pending (block_size c) (p @ load (m_mem s) inp len)) ctx' s'" "load (m_mem s') out (length ys) = ys"
    "kept out (length ys) (buff ctx) (m_mem s) (m_mem s')" "buff ctx' = buff ctx"
proof -
  let ?n = "block_size c" let ?xs = "load (m_mem s) inp len" let ?st = "cipher_step blk c key enc" let ?k = "length p"
  have ok: "ctx_ok c key enc iv ctx" "load (m_mem s) (buff ctx) ?k = p" "?k < ?n" using rep by (simp_all add: cipher_rep_def)
  have k: "unat (buff_len ctx) = ?k" by (rule buff_len_length [OF rep])
  have c: "cipher ctx = Some c" "length iv = ?n" using ok(1) by (simp_all add: ctx_ok_def)
  have n16: "?n \<le> 16" by simp
  consider "?k = 0" | "?k \<noteq> 0" "?k + len < ?n" | "?k \<noteq> 0" "?n \<le> ?k + len" by linarith
  then show ?thesis
  proof cases
    case 1
    then have p: "p = []" by simp
    have "MCP_CipherUpdate E ctx inp len out s = update_blocks E c ctx inp len out 0 s" using 1 k c(1) by (simp add: MCP_CipherUpdate_def Let_def)
    then show ?thesis using update_blocks_spec [OF E rep [unfolded p], of inp len out ys v 0] io r that unfolding p by fastforce
  next
    case 2
    let ?c = "ctx\<lparr>buff_len := buff_len ctx + of_nat len\<rparr>" let ?s = "s\<lparr>m_mem := store (buff ctx + ?k) ?xs (m_mem s)\<rparr>"
    have y: "ys = []" "v = iv" using r 2 by (simp_all add: mode_run_short)
    have q: "pending ?n (p @ ?xs) = p @ ?xs" using 2 by (simp add: pending_def align_def)
    have "load (store (buff ctx + ?k) ?xs (m_mem s)) (buff ctx) (?k + len) = p @ ?xs"
      unfolding load_append using load_store_same [of "buff ctx + ?k" ?xs "m_mem s"] load_store_disjoint [of "buff ctx" ?k "buff ctx + ?k" ?xs "m_mem s"] ok(2)
      by (simp add: disjoint_ranges_def)
    then have "cipher_rep c key enc iv (p @ ?xs) ?c ?s" using rep 2 by (simp add: cipher_rep_def ctx_ok_def)
    moreover have "MCP_CipherUpdate E ctx inp len out s = Some (0, ?c, ?s)" using 2 len k c(1) by (simp add: MCP_CipherUpdate_def Let_def)
    moreover have "kept out 0 (buff ctx) (m_mem s) (m_mem ?s)" using kept_store_buf [of ?k ?xs out 0 "buff ctx" "m_mem s"] 2 n16 by simp
    ultimately show ?thesis using that [of ?c ?s] y q by simp
  next
    case 3
    define j where "j = ?n - ?k"
    have j: "j \<le> len" "?k + j = ?n" using 3 ok(3) by (simp_all add: j_def)
    let ?b = "p @ take j ?xs" let ?zs = "drop j ?xs"
    define s0 where "s0 = s\<lparr>m_mem := store (buff ctx + ?k) (load (m_mem s) inp j) (m_mem s)\<rparr>"
    have xj: "load (m_mem s) inp j = take j ?xs" using load_take [OF j(1)] .
    have b: "length ?b = ?n" using j by simp
    obtain y1 v1 where r1: "mode_run ?st ?n iv ?b = (y1, v1)" by force
    obtain y2 v2 where r2: "mode_run ?st ?n v1 ?zs = (y2, v2)" by force
    have ysv: "ys = y1 @ y2" "v = v2" using r mode_run_append [of ?n ?b ?st iv ?zs] b r1 r2 by simp_all
    have l1: "length y1 = ?n" "length v1 = ?n" using cipher_run_length [OF E c(2), of key enc ?b] r1 b by (simp_all add: align_def)
    have l2: "length y2 = align ?n (len - j)" using cipher_run_length(1) [OF E l1(2), of key enc ?zs] r2 by simp
    have tot: "align ?n (?k + len) = ?n + align ?n (len - j)"
    proof -
      have "?k + len = ?n + (len - j)" using j by linarith
      then show ?thesis by (simp add: align_add)
    qed
    have "load (m_mem s0) (buff ctx) (?k + j) = ?b"
      unfolding load_append s0_def xj
      using load_store_same [of "buff ctx + ?k" "take j ?xs" "m_mem s"] load_store_disjoint [of "buff ctx" ?k "buff ctx + ?k" "take j ?xs" "m_mem s"] ok(2) j(1)
      by (simp add: disjoint_ranges_def)
    then have "mode_run ?st ?n iv (load (m_mem s0) (buff ctx) ?n) = (y1, v1)" using r1 j(2) by simp
    then obtain s1 where s1: "do_cipher E c ctx (buff ctx) ?n out s0 = Some (int ?n, set_iv v1 ctx, s1)" "m_mem s1 = store out y1 (m_mem s0)"
      using do_cipher_run [OF E ok(1), of s0 "buff ctx" ?n y1 v1 out] by (auto simp: align_def)
    have k1: "kept out ?n (buff ctx) (m_mem s) (m_mem s1)"
      using kept_store_out [of out y1 "buff ctx" "m_mem s0"] kept_store_buf [of ?k "take j ?xs" out ?n "buff ctx" "m_mem s"] l1(1) j n16
      by (simp add: s1(2) s0_def xj kept_def)
    define c1 where "c1 = set_iv v1 ctx\<lparr>buff_len := 0\<rparr>"
    have rep1: "cipher_rep c key enc v1 [] c1 s1" "buff c1 = buff ctx"
      unfolding c1_def using cipher_rep_init ctx_ok_set_iv [OF ok(1) l1(2)] by simp_all
    have "load (m_mem s1) inp len = ?xs" by (rule kept_load [OF k1]) (use io(1,2) tot in \<open>auto simp: disjoint_ranges_def\<close>)
    then have zs: "load (m_mem s1) (inp + j) (len - j) = ?zs" using load_drop [OF j(1), of "m_mem s1" inp] by simp
    have d: "disjoint_ranges (inp + j) (len - j) (out + ?n) (align ?n (len - j))" "disjoint_ranges (inp + j) (len - j) (buff c1) 16"
      "disjoint_ranges (out + ?n) (align ?n (len - j)) (buff c1) 16"
      using disjoint_sub [OF io(1), of j "len - j" ?n "align ?n (len - j)"] disjoint_sub [OF io(2), of j "len - j" 0 16]
        disjoint_sub [OF io(3), of ?n "align ?n (len - j)" 0 16] tot j(1) rep1(2) by simp_all
    obtain ctx' s' where u: "update_blocks E c c1 (inp + j) (len - j) (out + ?n) (int ?n) s1 = Some (int ?n + int (length y2), ctx', s')"
      "cipher_rep c key enc v2 (pending ?n ?zs) ctx' s'" "load (m_mem s') (out + ?n) (length y2) = y2"
      "kept (out + ?n) (length y2) (buff ctx) (m_mem s1) (m_mem s')" "buff ctx' = buff ctx"
      using update_blocks_spec [OF E rep1(1) d, of y2 v2 "int ?n"] r2 zs rep1(2) by metis
    have "MCP_CipherUpdate E ctx inp len out s = Some (int (length ys), ctx', s')"
      using 3 len k c(1) s1(1) u(1) l1(1) ysv(1) by (simp add: MCP_CipherUpdate_def Let_def s0_def j_def c1_def)
    moreover have "pending ?n (p @ ?xs) = pending ?n ?zs" using pending_append [of ?n ?b ?zs] b by simp
    moreover have "load (m_mem s') out (length ys) = ys"
    proof -
      have "load (m_mem s1) out ?n = y1" using load_store_same [of out y1] s1(2) l1(1) by metis
      moreover have "load (m_mem s') out ?n = load (m_mem s1) out ?n"
        by (rule kept_load [OF u(4)]) (use io(3) tot in \<open>auto simp: disjoint_ranges_def\<close>)
      ultimately show ?thesis using u(3) ysv(1) l1(1) by (simp add: load_append)
    qed
    moreover have "kept out (length ys) (buff ctx) (m_mem s) (m_mem s')" using kept_trans [OF k1 u(4)] ysv(1) l1(1) by simp
    ultimately show ?thesis using that [of ctx' s'] u(2,5) ysv(2) by simp
  qed
qed

text \<open>
  Passing a message at \<open>inp\<close> to a context in pieces of the given lengths, with the output going to \<open>out\<close> and the rest
  written by \<open>MCP_CipherFinal\<close>: the number of bytes written, the context and the state.
\<close>

fun cipher_pieces :: "engine \<Rightarrow> MCP_CIPHER_CTX \<Rightarrow> nat \<Rightarrow> nat list \<Rightarrow> nat \<Rightarrow> mcp_sys \<Rightarrow> (int \<times> MCP_CIPHER_CTX \<times> mcp_sys) option" where
  "cipher_pieces E ctx inp [] out s = Some (MCP_CipherFinal ctx out s)"
| "cipher_pieces E ctx inp (len # ls) out s = do {
     (r, ctx, s) \<leftarrow> MCP_CipherUpdate E ctx inp len out s;
     (r', ctx, s) \<leftarrow> cipher_pieces E ctx (inp + len) ls (out + nat r) s;
     Some (r + r', ctx, s)
   }"

lemma final_spec:
  assumes "cipher_rep c key enc iv p ctx s"
  obtains ctx' s' where "MCP_CipherFinal ctx out s = (int (length p), ctx', s')" "m_mem s' = store out p (m_mem s)"
    "cipher_rep c key enc iv [] ctx' s'" "buff ctx' = buff ctx"
proof (cases "p = []")
  case True
  then show ?thesis using that [of ctx s] assms by (simp add: MCP_CipherFinal_def cipher_rep_def)
next
  case False
  then have "MCP_CipherFinal ctx out s = (int (length p), ctx\<lparr>buff_len := 0\<rparr>, s\<lparr>m_mem := store out p (m_mem s)\<rparr>)"
    using buff_len_length [OF assms] assms by (simp add: MCP_CipherFinal_def cipher_rep_def)
  moreover have "cipher_rep c key enc iv [] (ctx\<lparr>buff_len := 0\<rparr>) (s\<lparr>m_mem := store out p (m_mem s)\<rparr>)"
    using cipher_rep_init assms by (simp add: cipher_rep_def)
  ultimately show ?thesis using that [of "ctx\<lparr>buff_len := 0\<rparr>" "s\<lparr>m_mem := store out p (m_mem s)\<rparr>"] by simp
qed

lemma mode_run_pending:
  assumes "0 < n"
  shows "mode_run step n iv (xs @ ys) =
    (fst (mode_run step n iv xs) @ fst (mode_run step n (snd (mode_run step n iv xs)) (pending n xs @ ys)),
     snd (mode_run step n (snd (mode_run step n iv xs)) (pending n xs @ ys)))"
proof -
  let ?a = "take (align n (length xs)) xs"
  have xs: "xs = ?a @ pending n xs" by (simp add: pending_def)
  have d: "n dvd length ?a" using align_facts(1) [OF assms] by (simp add: align_facts(2) min.absorb2)
  have r: "mode_run step n iv ?a = mode_run step n iv xs" by (rule mode_run_align [OF assms])
  have "mode_run step n iv (?a @ (pending n xs @ ys)) = (fst (mode_run step n iv xs) @ fst (mode_run step n (snd (mode_run step n iv xs)) (pending n xs @ ys)),
     snd (mode_run step n (snd (mode_run step n iv xs)) (pending n xs @ ys)))"
    using mode_run_append [OF assms d, of step iv "pending n xs @ ys"] r by simp
  then show ?thesis using xs by (metis append.assoc)
qed

lemma pending_pending: "0 < n \<Longrightarrow> pending n (pending n xs @ ys) = pending n (xs @ ys)"
proof -
  assume n: "0 < n"
  have "xs @ ys = take (align n (length xs)) xs @ (pending n xs @ ys)" by (simp add: pending_def)
  moreover have "n dvd length (take (align n (length xs)) xs)" using align_facts(1) [OF n] by (simp add: align_facts(2) min.absorb2)
  ultimately show ?thesis using pending_append [OF n] by metis
qed

lemma pieces_spec:
  assumes E: "engine_ciphers E blk"
  shows "cipher_rep c key enc iv p ctx s \<Longrightarrow> length p + sum_list ls < 2 ^ 32 \<Longrightarrow>
    disjoint_ranges inp (sum_list ls) out (length p + sum_list ls) \<Longrightarrow> disjoint_ranges inp (sum_list ls) (buff ctx) 16 \<Longrightarrow>
    disjoint_ranges out (length p + sum_list ls) (buff ctx) 16 \<Longrightarrow>
    \<exists>ctx' s'. cipher_pieces E ctx inp ls out s = Some (int (length p + sum_list ls), ctx', s') \<and>
      load (m_mem s') out (length p + sum_list ls) =
        fst (mode_run (cipher_step blk c key enc) (block_size c) iv (p @ load (m_mem s) inp (sum_list ls))) @
        pending (block_size c) (p @ load (m_mem s) inp (sum_list ls)) \<and>
      kept out (length p + sum_list ls) (buff ctx) (m_mem s) (m_mem s')"
proof (induction ls arbitrary: ctx inp out s iv p)
  case Nil
  obtain ctx' s' where f: "MCP_CipherFinal ctx out s = (int (length p), ctx', s')" "m_mem s' = store out p (m_mem s)"
    using final_spec [OF Nil.prems(1)] by blast
  have "length p < block_size c" using Nil.prems(1) by (simp add: cipher_rep_def)
  then show ?case using f load_store_same [of out p "m_mem s"] kept_store_out [of out p "buff ctx" "m_mem s"]
    by (simp add: mode_run_short pending_def align_def)
next
  case (Cons len ls)
  let ?n = "block_size c" let ?st = "cipher_step blk c key enc" let ?xs = "load (m_mem s) inp len" let ?t = "sum_list ls"
  obtain ys v where r: "mode_run ?st ?n iv (p @ ?xs) = (ys, v)" by force
  have iv: "length iv = ?n" using Cons.prems(1) by (simp add: cipher_rep_def ctx_ok_def)
  have ly: "length ys = align ?n (length p + len)" using cipher_run_length(1) [OF E iv, of key enc "p @ ?xs"] r by simp
  let ?q = "pending ?n (p @ ?xs)"
  have lq: "length ys + length ?q = length p + len" using ly align_facts(2) [of ?n "length p + len"] by (simp add: pending_def)
  have le: "length ys \<le> length p + len" using lq by simp
  have d: "disjoint_ranges inp len out (length ys)" "disjoint_ranges inp len (buff ctx) 16" "disjoint_ranges out (length ys) (buff ctx) 16"
    using Cons.prems(3-5) le by (auto simp: disjoint_ranges_def)
  obtain c1 s1 where u: "MCP_CipherUpdate E ctx inp len out s = Some (int (length ys), c1, s1)" "cipher_rep c key enc v ?q c1 s1"
    "load (m_mem s1) out (length ys) = ys" "kept out (length ys) (buff ctx) (m_mem s) (m_mem s1)" "buff c1 = buff ctx"
    using update_spec [OF E Cons.prems(1), of len inp out ys v] Cons.prems(2) d r ly by auto
  have zs: "load (m_mem s1) (inp + len) ?t = load (m_mem s) (inp + len) ?t"
    by (rule kept_load [OF u(4)]) (use Cons.prems(3,4) le in \<open>auto simp: disjoint_ranges_def\<close>)
  let ?zs = "load (m_mem s) (inp + len) ?t"
  obtain c2 s2 where i: "cipher_pieces E c1 (inp + len) ls (out + length ys) s1 = Some (int (length ?q + ?t), c2, s2)"
    "load (m_mem s2) (out + length ys) (length ?q + ?t) = fst (mode_run ?st ?n v (?q @ ?zs)) @ pending ?n (?q @ ?zs)"
    "kept (out + length ys) (length ?q + ?t) (buff ctx) (m_mem s1) (m_mem s2)"
    using Cons.IH [OF u(2), of "inp + len" "out + length ys"] Cons.prems(2-5) lq zs u(5) by (auto simp: disjoint_ranges_def)
  have tot: "length ys + (length ?q + ?t) = length p + sum_list (len # ls)" using lq by simp
  have "load (m_mem s2) out (length ys) = ys"
    using u(3) kept_load [OF i(3), of out "length ys"] Cons.prems(5) le by (auto simp: disjoint_ranges_def)
  then have "load (m_mem s2) out (length p + sum_list (len # ls)) = ys @ fst (mode_run ?st ?n v (?q @ ?zs)) @ pending ?n (?q @ ?zs)"
    using i(2) load_append [of "m_mem s2" out "length ys" "length ?q + ?t"] tot by simp
  moreover have "mode_run ?st ?n iv ((p @ ?xs) @ ?zs) = (ys @ fst (mode_run ?st ?n v (?q @ ?zs)), snd (mode_run ?st ?n v (?q @ ?zs)))"
    using mode_run_pending [of ?n ?st iv "p @ ?xs" ?zs] r by simp
  moreover have "pending ?n (?q @ ?zs) = pending ?n ((p @ ?xs) @ ?zs)" by (rule pending_pending) simp
  moreover have "kept out (length p + sum_list (len # ls)) (buff ctx) (m_mem s) (m_mem s2)" using kept_trans [OF u(4) i(3)] tot by simp
  moreover have "cipher_pieces E ctx inp (len # ls) out s = Some (int (length p + sum_list (len # ls)), c2, s2)"
    using u(1) i(1) tot by simp
  ultimately show ?case by (simp add: load_append)
qed

text \<open>The key and the first chaining value that a context takes from its arguments.\<close>

definition key_len :: "MCP_CIPHER \<Rightarrow> nat" where
  "key_len c = (if c \<in> {aes_128_ecb, aes_128_cbc} then 16 else if c \<in> {des_ecb, des_cbc} then 7 else 21)"

definition cut_key :: "MCP_CIPHER \<Rightarrow> u8 list option \<Rightarrow> u8 list option" where
  "cut_key c key = map_option (take (key_len c)) key"

definition start_iv :: "MCP_CIPHER \<Rightarrow> u8 list option \<Rightarrow> u8 list" where
  "start_iv c iv = (case iv of Some v \<Rightarrow> if is_cbc c then take (block_size c) v else replicate (block_size c) 0 | None \<Rightarrow> replicate (block_size c) 0)"

text \<open>The arguments of an initialisation: a key unless AES takes the one of the chip, and a long enough vector.\<close>

definition init_args :: "MCP_CIPHER \<Rightarrow> u8 list option \<Rightarrow> u8 list option \<Rightarrow> bool" where
  "init_args c key iv \<longleftrightarrow> (c \<in> {aes_128_ecb, aes_128_cbc} \<or> key \<noteq> None) \<and> (\<forall>v. iv = Some v \<longrightarrow> block_size c \<le> length v)"

lemma cipher_init_spec:
  assumes "init_args c key iv"
  obtains ctx' where "MCP_CipherInit (Some mem) ctx c key iv enc = Some (0, ctx')" "cipher_rep c (cut_key c key) enc (start_iv c iv) [] ctx' s"
    "buff ctx' = buff ctx"
proof -
  let ?d = "\<lparr>c_mode = cipher_mode c, c_enc = enc, c_key = cut_key c key, c_iv = start_iv c iv\<rparr>"
  let ?c = "ctx\<lparr>cipher := Some c, cipher_data := Some ?d, buff_len := 0\<rparr>"
  note defs = MCP_CipherInit_def AES_128_ECB_Init_def AES_128_CBC_Init_def DES_ECB_Init_def DES_CBC_Init_def TDES_ECB_Init_def TDES_CBC_Init_def
    AES_Init_def DES_Init_def TDES_Init_def cipher_mode_def is_cbc_def cut_key_def key_len_def start_iv_def block_size_def
  have "MCP_CipherInit (Some mem) ctx c key iv enc = Some (0, ?c)"
    by (cases c; cases key; cases iv; simp add: defs)
  moreover have "length (start_iv c iv) = block_size c" using assms by (cases iv) (auto simp: start_iv_def init_args_def)
  then have "cipher_rep c (cut_key c key) enc (start_iv c iv) [] ?c s" using assms by (simp add: cipher_rep_def ctx_ok_def init_args_def cut_key_def)
  ultimately show ?thesis using that [of ?c] by simp
qed

text \<open>
  C11: Whatever the pieces in which a message is passed to a cipher context (AES, DES or triple DES, in ECB or CBC mode,
  either direction), the calls return as many bytes as the message has, and the output is the textbook mode of
  operation on the full blocks of the whole message, followed by the bytes of the last incomplete block unchanged.
\<close>

theorem mcp_cipher_stream:
  assumes E: "engine_ciphers E blk" and args: "init_args c key iv" and len: "sum_list ls < 2 ^ 32"
    and io: "disjoint_ranges inp (sum_list ls) out (sum_list ls)" "disjoint_ranges inp (sum_list ls) (buff ctx) 16"
      "disjoint_ranges out (sum_list ls) (buff ctx) 16"
  shows "\<exists>ctx' ctx'' s'. MCP_CipherInit (Some mem) ctx c key iv enc = Some (0, ctx') \<and>
    cipher_pieces E ctx' inp ls out s = Some (int (sum_list ls), ctx'', s') \<and>
    load (m_mem s') out (sum_list ls) =
      (let xs = load (m_mem s) inp (sum_list ls)
       in fst (mode_run (cipher_step blk c (cut_key c key) enc) (block_size c) (start_iv c iv) xs) @ drop (align (block_size c) (length xs)) xs)"
proof -
  obtain ctx' where c: "MCP_CipherInit (Some mem) ctx c key iv enc = Some (0, ctx')" "cipher_rep c (cut_key c key) enc (start_iv c iv) [] ctx' s"
    "buff ctx' = buff ctx" using cipher_init_spec [OF args, of mem ctx enc s] by blast
  show ?thesis using pieces_spec [OF E c(2), of ls inp out] c(1,3) len io by (auto simp: pending_def Let_def)
qed

text \<open>An engine whose block function adds a constant to every byte without carries.\<close>

definition sample_blk :: "u32 \<Rightarrow> u32 list \<Rightarrow> u8 list \<Rightarrow> u8 list" where
  "sample_blk fl k b = map (\<lambda>x. x XOR 0x5A) b"

definition sample_engine :: engine where
  "sample_engine ds m = ((\<lambda>_. (0, MCP_RING_EMPTY)), fold (\<lambda>d m. store (d_out d) (desc_fn sample_blk d (load m (d_in d) (d_len d))) m) ds m)"

lemma sample_engine_ciphers: "engine_ciphers sample_engine sample_blk"
proof -
  have "engine_runs sample_engine (desc_fn sample_blk)" by (simp add: engine_runs_def sample_engine_def finishes_def) (rule exI [of _ 0], simp)
  then show ?thesis unfolding engine_ciphers_def by (auto simp: sample_blk_def)
qed

definition sample_ctx :: "nat \<Rightarrow> MCP_CIPHER_CTX" where
  "sample_ctx a = \<lparr>cipher = None, cipher_data = None, buff_len = 0, buff = a\<rparr>"

definition sample_mcp :: mcp_sys where
  "sample_mcp = \<lparr>m_mem = (\<lambda>x. of_nat x), m_log = [], m_issued = [], m_desc = 0x100\<rparr>"

theorem mcp_cipher_stream_witness:
  "\<exists>ctx' ctx'' s'. MCP_CipherInit (Some \<lparr>c_mode = 0, c_enc = False, c_key = None, c_iv = []\<rparr>) (sample_ctx 3009) des_cbc (Some (replicate 32 7)) None True = Some (0, ctx') \<and>
     cipher_pieces sample_engine ctx' 1000 [5, 13] 2000 sample_mcp = Some (18, ctx'', s') \<and> load (m_mem s') 2000 18 = load (m_mem s') 2000 16 @ [0xF8, 0xF9]"
proof -
  have a: "init_args des_cbc (Some (replicate 32 7)) None" by (simp add: init_args_def)
  have d: "disjoint_ranges 1000 (sum_list [5, 13]) 2000 (sum_list [5, 13])" "disjoint_ranges 1000 (sum_list [5, 13]) (buff (sample_ctx 3009)) 16"
    "disjoint_ranges 2000 (sum_list [5, 13]) (buff (sample_ctx 3009)) 16" by (simp_all add: disjoint_ranges_def sample_ctx_def)
  let ?xs = "load (m_mem sample_mcp) 1000 18"
  have xs: "drop (align (block_size des_cbc) (length ?xs)) ?xs = [0xF8, 0xF9]"
    by (simp add: align_def block_size_def load_def upt_rec sample_mcp_def)
  obtain ctx' ctx'' s' where c: "MCP_CipherInit (Some \<lparr>c_mode = 0, c_enc = False, c_key = None, c_iv = []\<rparr>) (sample_ctx 3009) des_cbc (Some (replicate 32 7)) None True = Some (0, ctx')"
    "cipher_pieces sample_engine ctx' 1000 [5, 13] 2000 sample_mcp = Some (int (sum_list [5, 13]), ctx'', s')"
    "load (m_mem s') 2000 (sum_list [5, 13]) = (let xs = load (m_mem sample_mcp) 1000 (sum_list [5, 13]) in
       fst (mode_run (cipher_step sample_blk des_cbc (cut_key des_cbc (Some (replicate 32 7))) True) (block_size des_cbc) (start_iv des_cbc None) xs) @
       drop (align (block_size des_cbc) (length xs)) xs)"
    using mcp_cipher_stream [OF sample_engine_ciphers a _ d, of "\<lparr>c_mode = 0, c_enc = False, c_key = None, c_iv = []\<rparr>" True sample_mcp] by auto
  have "load (m_mem s') 2000 18 = load (m_mem s') 2000 16 @ load (m_mem s') 2016 2" using load_append [of "m_mem s'" 2000 16 2] by simp
  moreover have "drop 16 (load (m_mem s') 2000 18) = [0xF8, 0xF9]"
  proof -
    have "length (start_iv des_cbc None) = block_size des_cbc" by (simp add: start_iv_def)
    from cipher_run_length(1) [OF sample_engine_ciphers this, of "cut_key des_cbc (Some (replicate 32 7))" True ?xs]
    show ?thesis using c(3) xs by (simp add: Let_def block_size_def align_def)
  qed
  ultimately have "load (m_mem s') 2000 18 = load (m_mem s') 2000 16 @ [0xF8, 0xF9]" by simp
  then show ?thesis using c(1,2) by auto
qed

section \<open>Decrypting what was encrypted\<close>

lemma xor_bytes_cancel: "length xs = length ys \<Longrightarrow> xor_bytes (xor_bytes xs ys) ys = xs"
  by (induction xs ys rule: list_induct2) (simp_all add: xor_bytes_def xor.assoc)

lemma xor_bytes_length [simp]: "length (xor_bytes xs ys) = min (length xs) (length ys)"
  by (simp add: xor_bytes_def)

text \<open>A step and its inverse, which use the same chaining values.\<close>

definition inverse_step :: "nat \<Rightarrow> mode_step \<Rightarrow> mode_step \<Rightarrow> bool" where
  "inverse_step n e d \<longleftrightarrow> (\<forall>iv b. length iv = n \<longrightarrow> length b = n \<longrightarrow> length (fst (e iv b)) = n \<and> length (snd (e iv b)) = n \<and> d iv (fst (e iv b)) = (b, snd (e iv b)))"

lemma mode_run_inverse:
  assumes n: "0 < n" and inv: "inverse_step n e d" and q: "length q < n"
  shows "length iv = n \<Longrightarrow> fst (mode_run d n iv (fst (mode_run e n iv xs) @ q)) = take (align n (length xs)) xs"
proof (induction "length xs" arbitrary: xs iv rule: less_induct)
  case less
  show ?case
  proof (cases "length xs < n")
    case True
    then show ?thesis using q by (simp add: mode_run_short align_def)
  next
    case False
    obtain b zs where xs: "xs = b @ zs" "length b = n" using False by (metis append_take_drop_id length_take min.absorb2 not_less)
    let ?v = "snd (e iv b)"
    have st: "length (fst (e iv b)) = n" "length ?v = n" "d iv (fst (e iv b)) = (b, ?v)"
      using inv xs(2) less.prems unfolding inverse_step_def by blast+
    have "mode_run d n iv (fst (mode_run e n iv xs) @ q) = (b @ fst (mode_run d n ?v (fst (mode_run e n ?v zs) @ q)), snd (mode_run d n ?v (fst (mode_run e n ?v zs) @ q)))"
      using mode_run_block [OF n xs(2), of e iv zs] mode_run_block [OF n st(1), of d iv "fst (mode_run e n ?v zs) @ q"] st(3) xs(1) by simp
    moreover have "take (align n (length xs)) xs = b @ take (align n (length zs)) zs" using xs by (simp add: align_add)
    ultimately show ?thesis using less.hyps [of zs ?v] st(2) xs n by simp
  qed
qed

text \<open>The block function undoes itself under the descriptors of the two directions.\<close>

definition blk_inverse :: "(u32 \<Rightarrow> u32 list \<Rightarrow> u8 list \<Rightarrow> u8 list) \<Rightarrow> MCP_CIPHER \<Rightarrow> u8 list option \<Rightarrow> bool" where
  "blk_inverse blk c key \<longleftrightarrow> (\<forall>b. length b = block_size c \<longrightarrow>
     blk (cipher_flags c key False) (cipher_key c key False) (blk (cipher_flags c key True) (cipher_key c key True) b) = b)"

lemma cipher_inverse:
  assumes "engine_ciphers E blk" "blk_inverse blk c key"
  shows "inverse_step (block_size c) (cipher_step blk c key True) (cipher_step blk c key False)"
  using assms xor_bytes_cancel unfolding inverse_step_def blk_inverse_def engine_ciphers_def
  by (auto simp: cipher_step_def ecb_def cbc_enc_def cbc_dec_def Let_def)

text \<open>
  C13: A message encrypted in any pieces and decrypted under the same key and vector in any other pieces comes back, for
  every cipher, when the block functions of the two directions are inverse to each other.
\<close>

theorem mcp_cipher_roundtrip:
  assumes E: "engine_ciphers E blk" and args: "init_args c key iv" and inv: "blk_inverse blk c (cut_key c key)"
    and len: "n < 2 ^ 32" "sum_list ls = n" "sum_list ls' = n"
    and io: "disjoint_ranges inp n mid n" "disjoint_ranges inp n (buff ctx) 16" "disjoint_ranges mid n (buff ctx) 16"
    and io': "disjoint_ranges mid n out n" "disjoint_ranges mid n (buff dtx) 16" "disjoint_ranges out n (buff dtx) 16"
  shows "\<exists>ctx1 ctx2 s1 dtx1 dtx2 s2. MCP_CipherInit (Some mem) ctx c key iv True = Some (0, ctx1) \<and>
    cipher_pieces E ctx1 inp ls mid s = Some (int n, ctx2, s1) \<and> MCP_CipherInit (Some mem') dtx c key iv False = Some (0, dtx1) \<and>
    cipher_pieces E dtx1 mid ls' out s1 = Some (int n, dtx2, s2) \<and> load (m_mem s2) out n = load (m_mem s) inp n"
proof -
  let ?b = "block_size c" let ?xs = "load (m_mem s) inp n" let ?iv = "start_iv c iv" let ?k = "cut_key c key"
  let ?e = "cipher_step blk c ?k True" let ?d = "cipher_step blk c ?k False"
  obtain ctx1 where c: "MCP_CipherInit (Some mem) ctx c key iv True = Some (0, ctx1)" "cipher_rep c ?k True ?iv [] ctx1 s"
    "buff ctx1 = buff ctx" using cipher_init_spec [OF args, of mem ctx True s] by blast
  obtain ctx2 s1 where e: "cipher_pieces E ctx1 inp ls mid s = Some (int n, ctx2, s1)" "load (m_mem s1) mid n = fst (mode_run ?e ?b ?iv ?xs) @ pending ?b ?xs"
    using pieces_spec [OF E c(2), of ls inp mid] c(3) len io by auto
  obtain dtx1 where d: "MCP_CipherInit (Some mem') dtx c key iv False = Some (0, dtx1)" "cipher_rep c ?k False ?iv [] dtx1 s1"
    "buff dtx1 = buff dtx" using cipher_init_spec [OF args, of mem' dtx False s1] by blast
  let ?ys = "load (m_mem s1) mid n"
  obtain dtx2 s2 where f: "cipher_pieces E dtx1 mid ls' out s1 = Some (int n, dtx2, s2)" "load (m_mem s2) out n = fst (mode_run ?d ?b ?iv ?ys) @ pending ?b ?ys"
    using pieces_spec [OF E d(2), of ls' mid out] d(3) len io' by auto
  have iv: "length ?iv = ?b" using c(2) by (simp add: cipher_rep_def ctx_ok_def)
  have l: "length (fst (mode_run ?e ?b ?iv ?xs)) = align ?b n" using cipher_run_length(1) [OF E iv, of ?k True ?xs] by simp
  have q: "length (pending ?b ?xs) < ?b" using align_facts(3) [of ?b n] by (simp add: pending_def)
  have "fst (mode_run ?d ?b ?iv ?ys) = take (align ?b n) ?xs"
    using mode_run_inverse [OF _ cipher_inverse [OF E inv] q iv, of ?xs] e(2) by simp
  moreover have "pending ?b ?ys = pending ?b ?xs"
    using pending_append [of ?b "fst (mode_run ?e ?b ?iv ?xs)" "pending ?b ?xs"] l align_facts(1) pending_pending [of ?b ?xs "[]"] e(2) by simp
  ultimately have "load (m_mem s2) out n = ?xs" using f(2) by (simp add: pending_def)
  then show ?thesis using c(1) e(1) d(1) f(1) by blast
qed

theorem mcp_cipher_roundtrip_witness:
  "\<exists>ctx1 ctx2 s1 dtx1 dtx2 s2. MCP_CipherInit (Some \<lparr>c_mode = 0, c_enc = False, c_key = None, c_iv = []\<rparr>) (sample_ctx 4009) aes_128_cbc None (Some (replicate 16 9)) True = Some (0, ctx1) \<and>
     cipher_pieces sample_engine ctx1 1000 [3, 37] 2000 sample_mcp = Some (40, ctx2, s1) \<and>
     MCP_CipherInit (Some \<lparr>c_mode = 0, c_enc = False, c_key = None, c_iv = []\<rparr>) (sample_ctx 5009) aes_128_cbc None (Some (replicate 16 9)) False = Some (0, dtx1) \<and>
     cipher_pieces sample_engine dtx1 2000 [16, 1, 23] 3000 s1 = Some (40, dtx2, s2) \<and> load (m_mem s2) 3000 40 = load (m_mem sample_mcp) 1000 40"
proof -
  have a: "init_args aes_128_cbc None (Some (replicate 16 9))" by (simp add: init_args_def block_size_def)
  have i: "blk_inverse sample_blk aes_128_cbc (cut_key aes_128_cbc None)" by (simp add: blk_inverse_def sample_blk_def o_def xor.assoc)
  let ?m = "\<lparr>c_mode = 0, c_enc = False, c_key = None, c_iv = []\<rparr>"
  show ?thesis
    using mcp_cipher_roundtrip [OF sample_engine_ciphers a i, of 40 "[3, 37]" "[16, 1, 23]" 1000 2000 "sample_ctx 4009" 3000 "sample_ctx 5009" ?m sample_mcp ?m]
    by (simp add: disjoint_ranges_def sample_ctx_def)
qed


section \<open>Updating in place\<close>

text \<open>
  C14: For user buffers outside shared memory the device processes a kernel copy in place. When \<open>p\<close> is pending from an
  earlier call and at least a block arrives, the first output block overwrites the input bytes behind it before they are
  read: the bytes handed back continue with the encryption of the end of that output block, where the end of the
  first block of the input should be.
\<close>

theorem mcp_user_update_corrupts:
  assumes E: "engine_ciphers E blk" and rep: "cipher_rep c key enc iv p ctx s" "p \<noteq> []"
    and bs: "length bs = len" "block_size c \<le> len" "length p + len < 2 ^ 32" and sep: "disjoint_ranges b (len + 16) (buff ctx) 16"
    and y1: "mode_run (cipher_step blk c key enc) (block_size c) iv (p @ take (block_size c - length p) bs) = (y1, v1)"
  shows "\<exists>ctx' s'. mcp_cipher_do_update E (\<lambda>_. None) (Some b) (Some bs) True ctx inp len out s =
    Some (int (align (block_size c) (length p + len)),
      y1 @ fst (mode_run (cipher_step blk c key enc) (block_size c) v1 (drop (block_size c - length p) y1 @ drop (block_size c) bs)), ctx', s')"
proof -
  let ?n = "block_size c" let ?k = "length p" let ?st = "cipher_step blk c key enc"
  define j where "j = ?n - ?k"
  have ok: "ctx_ok c key enc iv ctx" "load (m_mem s) (buff ctx) ?k = p" "?k < ?n" "?k \<noteq> 0" using rep by (simp_all add: cipher_rep_def)
  have k: "unat (buff_len ctx) = ?k" by (rule buff_len_length [OF rep(1)])
  have c: "cipher ctx = Some c" "length iv = ?n" using ok(1) by (simp_all add: ctx_ok_def)
  have j: "j \<le> len" "?k + j = ?n" "j < ?n" "j \<le> ?n" using bs(2) ok(3,4) by (simp_all add: j_def)
  have n16: "?n \<le> 16" "?k < 16" using ok(3) block_size_pos(2) [of c] by linarith+
  define m0 where "m0 = store b bs (m_mem s)"
  define s1 where "s1 = s\<lparr>m_mem := store (buff ctx + ?k) (load m0 b j) m0\<rparr>"
  have l0: "load m0 b len = bs" using load_store_same [of b bs "m_mem s"] bs(1) by (simp add: m0_def)
  have lj: "load m0 b j = take j bs" using load_take [OF j(1), of m0 b] l0 by simp
  have "load m0 (buff ctx) ?k = p"
    using load_store_disjoint [of "buff ctx" ?k b bs "m_mem s"] sep ok(2) n16(2) bs(1) by (simp add: m0_def disjoint_ranges_def) linarith
  then have "load (m_mem s1) (buff ctx) (?k + j) = p @ take j bs"
    unfolding load_append s1_def lj using load_store_same [of "buff ctx + ?k" "take j bs" m0] load_store_disjoint [of "buff ctx" ?k "buff ctx + ?k" "take j bs" m0] j(1) bs(1)
    by (simp add: disjoint_ranges_def)
  then have r1: "mode_run ?st ?n iv (load (m_mem s1) (buff ctx) ?n) = (y1, v1)" using y1 j(2) by (simp add: j_def)
  have l1: "length y1 = ?n" "length v1 = ?n" using cipher_run_length [OF E c(2), of key enc "p @ take j bs"] y1 j bs(1) by (simp_all add: align_def j_def)
  obtain s2 where s2: "do_cipher E c ctx (buff ctx) ?n b s1 = Some (int ?n, set_iv v1 ctx, s2)" "m_mem s2 = store b y1 (m_mem s1)"
    using do_cipher_run [OF E ok(1) r1, of b] by (auto simp: align_def)
  have kj: "?k + j \<le> 16" using j(2) n16(1) by simp
  have lb: "load (m_mem s1) b len = bs"
    using kj load_store_disjoint [of b len "buff ctx + ?k" "take j bs" m0] l0 sep j(1) bs(1) by (simp add: s1_def lj disjoint_ranges_def) linarith
  have "load (m_mem s2) (b + j) (len - j) = drop j y1 @ drop ?n bs"
  proof -
    have "load (m_mem s2) b ?n = y1" using load_store_same [of b y1] s2(2) l1(1) by metis
    then have a: "load (m_mem s2) (b + j) (?n - j) = drop j y1" using load_drop [OF j(4), of "m_mem s2" b] by simp
    have "load (m_mem s2) (b + ?n) (len - ?n) = load (m_mem s1) (b + ?n) (len - ?n)"
      unfolding s2(2) by (rule load_store_disjoint) (simp add: disjoint_ranges_def l1(1))
    also have "\<dots> = drop ?n bs" using load_drop [OF bs(2), of "m_mem s1" b] lb by simp
    finally show ?thesis using a load_append [of "m_mem s2" "b + j" "?n - j" "len - ?n"] j(3) bs(2) by simp
  qed
  then obtain y2 v2 where r2: "mode_run ?st ?n v1 (load (m_mem s2) (b + j) (len - j)) = (y2, v2)"
    "y2 = fst (mode_run ?st ?n v1 (drop j y1 @ drop ?n bs))" by (metis prod.collapse)
  let ?l = "align ?n (len - j)"
  have l2: "length y2 = ?l" using cipher_run_length(1) [OF E l1(2), of key enc "load (m_mem s2) (b + j) (len - j)"] r2(1) by simp
  define c1 where "c1 = set_iv v1 ctx\<lparr>buff_len := 0\<rparr>"
  have ok1: "ctx_ok c key enc v1 c1" using ctx_ok_set_iv [OF ok(1) l1(2)] by (simp add: c1_def ctx_ok_def)
  obtain s3 where s3: "do_cipher E c c1 (b + j) (len - j) (b + ?n) s2 = Some (int ?l, set_iv v2 c1, s3)" "m_mem s3 = store (b + ?n) y2 (m_mem s2)"
    using do_cipher_run [OF E ok1 r2(1), of "b + ?n"] by blast
  have ll: "?l \<le> len - j" "len - j - ?l < ?n" using align_facts(2,3) [of ?n "len - j"] by (simp_all add: align_facts(2))
  have lq: "len - j - ?l < 16" "?n + ?l \<le> len + 16" using ll n16(1) j(1) by linarith+
  let ?q = "load (m_mem s3) (b + j + ?l) (len - j - ?l)"
  obtain c4 s4 where u: "update_blocks E c c1 (b + j) (len - j) (b + ?n) (int ?n) s2 = Some (int ?n + int ?l, c4, s4)"
    "m_mem s4 = m_mem s3 \<or> m_mem s4 = store (buff ctx) ?q (m_mem s3)"
    using s3(1) j(1,3) bs(2) ll(1) unfolding update_blocks_def by (cases "j + ?l < len") (simp_all add: Let_def c1_def)
  have m3: "load (m_mem s3) b (?n + ?l) = y1 @ y2"
    using load_append [of "m_mem s3" b ?n ?l] load_store_same [of "b + ?n" y2 "m_mem s2"] load_store_disjoint [of b ?n "b + ?n" y2 "m_mem s2"]
      load_store_same [of b y1 "m_mem s1"] s2(2) s3(2) l1(1) l2 by (simp add: disjoint_ranges_def)
  have "load (m_mem s4) b (?n + ?l) = y1 @ y2"
  proof -
    have "load (store (buff ctx) ?q (m_mem s3)) b (?n + ?l) = load (m_mem s3) b (?n + ?l)"
      by (rule load_store_disjoint) (use sep lq in \<open>auto simp: disjoint_ranges_def\<close>)
    then show ?thesis using u(2) m3 by auto
  qed
  moreover have "MCP_CipherUpdate E ctx b len b (s\<lparr>m_mem := m0\<rparr>) = Some (int (?n + ?l), c4, s4)"
    using k ok(4) bs c(1) s2(1) u(1) j ok(3) by (simp add: MCP_CipherUpdate_def Let_def s1_def c1_def j_def)
  moreover have "align ?n (?k + len) = ?n + ?l"
  proof -
    have "?k + len = ?n + (len - j)" using j by linarith
    then show ?thesis by (simp add: align_add)
  qed
  ultimately show ?thesis using r2(2) by (simp add: mcp_cipher_do_update_def m0_def j_def nat_add_distrib)
qed

text \<open>Four bytes pending in a DES context, and eight new ones.\<close>

definition sample_pending :: MCP_CIPHER_CTX where
  "sample_pending = \<lparr>cipher = Some des_ecb, cipher_data = Some \<lparr>c_mode = 0, c_enc = True, c_key = Some (replicate 7 1), c_iv = replicate 8 0\<rparr>, buff_len = 4, buff = 3009\<rparr>"

theorem mcp_user_update_corrupts_witness:
  "\<exists>ctx' s'. mcp_cipher_do_update sample_engine (\<lambda>_. None) (Some 5000) (Some [1, 2, 3, 4, 5, 6, 7, 8]) True sample_pending 0 8 0
     (sample_mcp\<lparr>m_mem := (\<lambda>_. 0)\<rparr>) = Some (8, [0x5A, 0x5A, 0x5A, 0x5A, 0x5B, 0x58, 0x59, 0x5E], ctx', s')"
proof -
  let ?s = "sample_mcp\<lparr>m_mem := (\<lambda>_. 0)\<rparr>" let ?p = "[0, 0, 0, 0] :: u8 list" let ?bs = "[1, 2, 3, 4, 5, 6, 7, 8] :: u8 list"
  let ?st = "cipher_step sample_blk des_ecb (Some (replicate 7 1)) True"
  have rep: "cipher_rep des_ecb (Some (replicate 7 1)) True (replicate 8 0) ?p sample_pending ?s"
    by (simp add: cipher_rep_def ctx_ok_def sample_pending_def cipher_mode_def is_cbc_def block_size_def load_def upt_rec)
  have y: "mode_run ?st (block_size des_ecb) (replicate 8 0) (?p @ take (block_size des_ecb - length ?p) ?bs) = ([0x5A, 0x5A, 0x5A, 0x5A, 0x5B, 0x58, 0x59, 0x5E], replicate 8 0)"
    by (simp add: block_size_def mode_run.simps cipher_step_def is_cbc_def ecb_def sample_blk_def Let_def)
  have z: "fst (mode_run ?st (block_size des_ecb) (replicate 8 0) (drop (block_size des_ecb - length ?p) [0x5A, 0x5A, 0x5A, 0x5A, 0x5B, 0x58, 0x59, 0x5E] @ drop (block_size des_ecb) ?bs)) = []"
    by (simp add: block_size_def mode_run_short)
  show ?thesis
    using mcp_user_update_corrupts [OF sample_engine_ciphers rep _ _ _ _ _ y, of 8 5000 0 0]
    unfolding z by (simp add: block_size_def align_def disjoint_ranges_def sample_pending_def)
qed

section \<open>Commands that do not end\<close>

lemma mcp_poll_stuck: "(\<And>k. fst (hw k) AND MCP_GO \<noteq> 0 \<and> snd (hw k) = 0) \<Longrightarrow> mcp_poll w k hw = k + w"
  by (induction w arbitrary: k) simp_all

text \<open>
  When the engine does not finish a command, polling gives up after 4092 rounds and the command is reported as
  successful, although no output was written: encryption returns 0 and the output buffer is unchanged.
\<close>

theorem mcp_timeout_reported_ok:
  assumes "\<And>d m. E [d] m = (hw, m)" "\<And>k. fst (hw k) AND 2 \<noteq> 0 \<and> snd (hw k) = 0"
  shows "fst (MCP_AES_Encryption E mode key iv p_in p_out len s) = 0 \<and> m_mem (snd (MCP_AES_Encryption E mode key iv p_in p_out len s)) = m_mem s \<and>
    mcp_poll 4092 0 hw = 4092"
proof -
  have z: "snd (hw k) = 0" for k using assms(2) by blast
  have p: "mcp_poll 4092 0 hw = 4092" using mcp_poll_stuck [of hw 4092 0, OF assms(2)] by (simp only: add_0)
  have "fst (mcp_start_xfer hw t) = 0" for t unfolding mcp_start_xfer_def Let_def z fst_conv by (simp only: bit.conj_zero_left simp_thms if_False)
  then show ?thesis using assms(1)
    unfolding p MCP_AES_Encryption_def mcp_run_desc_def mcp_do_command_def mcp_set_desc_buffer_def by (simp add: split_beta Let_def)
qed

theorem mcp_timeout_reported_ok_witness:
  "fst (MCP_AES_Encryption (\<lambda>ds m. (\<lambda>_. (2, 0), m)) 0 None None 1000 2000 16 sample_mcp) = 0 \<and>
   m_mem (snd (MCP_AES_Encryption (\<lambda>ds m. (\<lambda>_. (2, 0), m)) 0 None None 1000 2000 16 sample_mcp)) = m_mem sample_mcp"
proof -
  let ?E = "\<lambda>(ds :: mcp_desc list) (m :: mem). (\<lambda>_ :: nat. (2 :: u32, 0 :: u32), m)"
  have "?E [d] m = (\<lambda>_. (2, 0), m)" for d m by (rule refl)
  moreover have "fst (2 :: u32, 0 :: u32) AND 2 \<noteq> 0 \<and> snd (2 :: u32, 0 :: u32) = 0" by simp
  ultimately show ?thesis using mcp_timeout_reported_ok [of ?E "\<lambda>_. (2, 0)" 0 None None 1000 2000 16 sample_mcp] by blast
qed

section \<open>Commands from user space\<close>

lemma mcp_do_command_issued: "m_issued (snd (mcp_do_command E ds s)) = m_issued s @ ds"
  by (simp add: mcp_do_command_def mcp_set_desc_buffer_def split_beta Let_def)

text \<open>The descriptor \<open>i\<close> of a request is taken from this address.\<close>

definition desc_addr :: "nat \<Rightarrow> nat \<Rightarrow> nat" where
  "desc_addr p i = p + 31360 * (i div 10) + 56 * (i mod 10)"

lemma desc_addr_small: "i < 10 \<Longrightarrow> desc_addr p i = p + 56 * i"
  by (simp add: desc_addr_def)

lemma desc_addr_next: "desc_addr p (10 + i) = desc_addr (p + 31360) i"
proof -
  have "(10 + i) div 10 = i div 10 + 1" by (rule div_add_self1) simp
  then show ?thesis by (simp add: desc_addr_def)
qed

declare ioctl_loop.simps [simp del]

lemma ioctl_loop_issued:
  assumes E: "\<And>ds s. fst (mcp_do_command E ds s) = 0" and user: "\<And>p n. user p n = Some (map (\<lambda>i. D (p + 56 * i)) [0..<n])"
  shows "fst (ioctl_loop user E p n s) = 0 \<and> m_issued (snd (ioctl_loop user E p n s)) = m_issued s @ map (\<lambda>i. D (desc_addr p i)) [0..<n]"
proof (induction n arbitrary: p s rule: less_induct)
  case (less n)
  show ?case
  proof (cases "n = 0")
    case True
    then show ?thesis by (simp add: ioctl_loop.simps)
  next
    case False
    define k where "k = min n 10"
    let ?ds = "map (\<lambda>i. D (p + 56 * i)) [0..<k]"
    obtain s1 where s1: "mcp_do_command E ?ds s = (0, s1)" using E by (metis prod.collapse)
    have i1: "m_issued s1 = m_issued s @ ?ds" using mcp_do_command_issued [of E ?ds s] s1 by simp
    have "ioctl_loop user E p n s = ioctl_loop user E (p + 3136 * k) (n - k) s1"
      using False user s1 by (subst ioctl_loop.simps) (auto simp: k_def min_def Let_def)
    moreover have ds: "?ds = map (\<lambda>i. D (desc_addr p i)) [0..<k]" by (simp add: desc_addr_small k_def)
    moreover have "map (\<lambda>i. D (desc_addr (p + 3136 * k) i)) [0..<n - k] = map (\<lambda>i. D (desc_addr p (k + i))) [0..<n - k]"
      by (cases "n \<le> 10") (simp_all add: k_def desc_addr_next)
    moreover have "n - k < n" using False by (simp add: k_def)
    ultimately show ?thesis using less.IH [of "n - k" "p + 3136 * k" s1] i1 map_upt_append [of "\<lambda>i. D (desc_addr p i)" k "n - k"]
      by (simp add: k_def)
  qed
qed

text \<open>
  The device file executes a request of up to ten descriptors as given. From the eleventh on the descriptors are
  taken from wrong addresses: the pointer is advanced by a number of bytes times the size of a descriptor, so that
  the second batch starts 31360 bytes behind the first one and not 560. The request still succeeds.
\<close>

theorem mcp_ioctl_batches:
  assumes "\<And>ds s. fst (mcp_do_command E ds s) = 0"
  shows "\<exists>s'. mcp_dev_ioctl (\<lambda>p n. Some (map (\<lambda>i. D (p + 56 * i)) [0..<n])) E data hash 0x70000001 (Some (p, n)) s = Some (0, s') \<and>
    m_issued s' = m_issued s @ map (\<lambda>i. D (p + 56 * i)) [0..<min n 10] @ map (\<lambda>i. D (p + 31360 * (i div 10) + 56 * (i mod 10))) [10..<n]"
proof -
  let ?user = "\<lambda>p n. Some (map (\<lambda>i. D (p + 56 * i)) [0..<n])"
  have r: "fst (ioctl_loop ?user E p n s) = 0" "m_issued (snd (ioctl_loop ?user E p n s)) = m_issued s @ map (\<lambda>i. D (desc_addr p i)) [0..<n]"
    using ioctl_loop_issued [of E ?user D p n s] assms by blast+
  have "[0..<n] = [0..<min n 10] @ [10..<n]"
    using upt_add_eq_append [of 0 10 "n - 10"] by (cases "n \<le> 10") simp_all
  then have a: "map f [0..<n] = map f [0..<min n 10] @ map f [10..<n]" for f :: "nat \<Rightarrow> mcp_desc" by (metis map_append)
  have b: "map (\<lambda>i. D (desc_addr p i)) [0..<min n 10] = map (\<lambda>i. D (p + 56 * i)) [0..<min n 10]" by (simp add: desc_addr_small)
  have "m_issued (snd (ioctl_loop ?user E p n s)) = m_issued s @ map (\<lambda>i. D (p + 56 * i)) [0..<min n 10] @
      map (\<lambda>i. D (p + 31360 * (i div 10) + 56 * (i mod 10))) [10..<n]" unfolding r(2) a b unfolding desc_addr_def by (rule refl)
  moreover have "mcp_dev_ioctl ?user E data hash 0x70000001 (Some (p, n)) s = Some (0, snd (ioctl_loop ?user E p n s))"
    using r(1) by (simp add: mcp_dev_ioctl_def prod_eq_iff)
  ultimately show ?thesis by blast
qed

lemma sample_engine_ok: "fst (mcp_do_command sample_engine ds s) = 0"
proof -
  have "finishes (\<lambda>_. (0, MCP_RING_EMPTY))" by (simp add: finishes_def) (rule exI [of _ 0], simp)
  then show ?thesis by (simp add: mcp_do_command_def sample_engine_def mcp_start_xfer_ok split_beta Let_def)
qed

theorem mcp_ioctl_batches_witness:
  "\<exists>s'. mcp_dev_ioctl (\<lambda>p n. Some (map (\<lambda>i. zero_desc\<lparr>d_in := p + 56 * i\<rparr>) [0..<n])) sample_engine 0 0 0x70000001 (Some (4096, 11)) sample_mcp = Some (0, s') \<and>
     d_in (last (m_issued s')) = 35456"
  using mcp_ioctl_batches [of sample_engine "\<lambda>a. zero_desc\<lparr>d_in := a\<rparr>" 0 0 4096 11 sample_mcp, OF sample_engine_ok]
  by (auto simp: upt_rec)

end
