(* ===== verification/Mcp_Digest.thy ===== *)
theory Mcp_Digest
  imports Mcp
begin

text \<open>
  Digests on the crypto engine: the contexts (\<open>R/mcp/mcp_dgst.c\<close>), AES-H and SHA-1 (\<open>aes_h.c\<close>, \<open>sha1.c\<close>), each with software
  padding and in the variant for the Mars processor, and the digest device (\<open>mcp_dgst_dev.c\<close>). The two
  algorithms are written out twice in the source with the same steps; here the steps take the algorithm as a
  record of what differs. \<open>None\<close> is the use of a null pointer.
\<close>

section \<open>Contexts\<close>

text \<open>The hash value is in memory at \<open>hash_at\<close>, where the engine writes it.\<close>

record AES_H_CTX =
  tmp :: "mcp_buff option"
  byte_count :: nat
  hash_at :: nat

type_synonym SHA1_CTX = AES_H_CTX

datatype MCP_MD = aes_h_md | Mars_aes_h_md | sha1_md | Mars_sha1_md

record MCP_MD_CTX =
  digest :: "MCP_MD option"
  md_data :: "AES_H_CTX option"
  private_data :: "mcp_buff option"

record md_alg =
  a_block :: nat
  a_size :: nat
  a_init :: "u8 list"
  a_desc :: "u8 list \<Rightarrow> mcp_desc"
  a_hash :: "engine \<Rightarrow> mcp_desc \<Rightarrow> nat \<Rightarrow> nat \<Rightarrow> nat \<Rightarrow> mcp_sys \<Rightarrow> int \<times> mcp_sys"
  a_pad :: "nat \<Rightarrow> nat \<Rightarrow> nat \<Rightarrow> mcp_sys \<Rightarrow> int \<times> mcp_sys"

definition aes_h_alg :: md_alg where
  "aes_h_alg = \<lparr>a_block = 16, a_size = 16,
     a_init = [0x2D, 0xC2, 0xDF, 0x39, 0x42, 0x03, 0x21, 0xD0, 0xCE, 0xF1, 0xFE, 0x23, 0x74, 0x02, 0x9D, 0x95],
     a_desc = (\<lambda>hash. MCP_AES_H_IV_UPDATE hash MCP_AES_H_HASH_INIT), a_hash = MCP_AES_H_Hashing, a_pad = MCP_AES_H_PADDING\<rparr>"

definition sha1_alg :: md_alg where
  "sha1_alg = \<lparr>a_block = 64, a_size = 20,
     a_init = [0x67, 0x45, 0x23, 0x01, 0xEF, 0xCD, 0xAB, 0x89, 0x98, 0xBA, 0xDC, 0xFE, 0x10, 0x32, 0x54, 0x76, 0xC3, 0xD2, 0xE1, 0xF0],
     a_desc = (\<lambda>hash. MCP_SHA1_IV_UPDATE hash MCP_SHA1_HASH_INIT), a_hash = MCP_SHA1_Hashing, a_pad = MCP_SHA1_PADDING\<rparr>"

section \<open>The steps of a digest\<close>

definition buf_at :: "mcp_buff \<Rightarrow> nat" where "buf_at b = nat (mcp_data b)"
definition buf_len :: "mcp_buff \<Rightarrow> nat" where "buf_len b = unat (mcp_len b)"

definition md_ctx_init :: "md_alg \<Rightarrow> AES_H_CTX \<Rightarrow> mcp_sys \<Rightarrow> (AES_H_CTX \<times> mcp_sys) option" where
  "md_ctx_init a ctx s = do {
     t \<leftarrow> tmp ctx;
     Some (ctx\<lparr>byte_count := 0, tmp := Some (mcpb_purge t)\<rparr>, s\<lparr>m_mem := store (hash_at ctx) (a_init a) (m_mem s)\<rparr>)
   }"

text \<open>\<open>t\<close> is the result of the allocation of the buffer for a short block.\<close>

definition md_digest_init :: "md_alg \<Rightarrow> mcp_buff option \<Rightarrow> AES_H_CTX option \<Rightarrow> mcp_sys \<Rightarrow> int \<times> AES_H_CTX option \<times> mcp_sys" where
  "md_digest_init a t p s =
     (case p of
        None \<Rightarrow> (- 1, p, s)
      | Some c \<Rightarrow>
          (case md_ctx_init a (c\<lparr>tmp := t\<rparr>) s of
             None \<Rightarrow> (- 1, Some (c\<lparr>tmp := t\<rparr>), s)
           | Some (c, s) \<Rightarrow> (0, Some c, s)))"

text \<open>The pending bytes go in front of the new ones.\<close>

definition md_prepend :: "mcp_buff \<Rightarrow> mcp_buff \<Rightarrow> mcp_sys \<Rightarrow> mcp_buff \<times> mcp_buff \<times> mcp_sys" where
  "md_prepend t mcpb s =
     (if buf_len t \<noteq> 0 then
        let mcpb = snd (mcpb_push (buf_len t) mcpb)
        in (mcpb_purge t, mcpb, s\<lparr>m_mem := store (buf_at mcpb) (load (m_mem s) (buf_at t) (buf_len t)) (m_mem s)\<rparr>)
      else (t, mcpb, s))"

definition md_blocks :: "engine \<Rightarrow> md_alg \<Rightarrow> mcp_desc \<Rightarrow> AES_H_CTX \<Rightarrow> mcp_buff \<Rightarrow> mcp_sys \<Rightarrow> AES_H_CTX \<times> mcp_buff \<times> mcp_sys" where
  "md_blocks E a d ctx mcpb s =
     (if buf_len mcpb > a_block a then
        let n = align (a_block a) (buf_len mcpb);
            s = snd (a_hash a E d (buf_at mcpb) n (hash_at ctx) s)
        in (ctx\<lparr>byte_count := (byte_count ctx + n) mod 2 ^ 64\<rparr>, snd (mcpb_pull n mcpb), s)
      else (ctx, mcpb, s))"

definition md_digest_update ::
  "engine \<Rightarrow> md_alg \<Rightarrow> AES_H_CTX \<Rightarrow> mcp_buff \<Rightarrow> mcp_sys \<Rightarrow> (int \<times> AES_H_CTX \<times> mcp_buff \<times> mcp_sys) option" where
  "md_digest_update E a ctx mcpb s = do {
     t \<leftarrow> tmp ctx;
     let d = a_desc a (load (m_mem s) (hash_at ctx) (a_size a));
     let (t, mcpb, s) = md_prepend t mcpb s;
     let (ctx, mcpb, s) = md_blocks E a d ctx mcpb s;
     let n = buf_len mcpb;
     if n \<noteq> 0 then
       let s = s\<lparr>m_mem := store (buf_at t) (load (m_mem s) (buf_at mcpb) n) (m_mem s)\<rparr>
       in Some (0, ctx\<lparr>tmp := Some (snd (mcpb_put n t))\<rparr>, mcpb, s)
     else Some (0, ctx\<lparr>tmp := Some t\<rparr>, mcpb, s)
   }"

text \<open>A negative padding size (no room) moves the tail back.\<close>

definition put_padding :: "int \<Rightarrow> mcp_buff \<Rightarrow> mcp_buff" where
  "put_padding pad_sz t = (if pad_sz < 0 then mcpb_trim (nat (- pad_sz)) t else snd (mcpb_put (nat pad_sz) t))"

definition md_digest_final :: "engine \<Rightarrow> md_alg \<Rightarrow> AES_H_CTX \<Rightarrow> nat \<Rightarrow> mcp_sys \<Rightarrow> (int \<times> AES_H_CTX \<times> mcp_sys) option" where
  "md_digest_final E a ctx pHash s = do {
     t \<leftarrow> tmp ctx;
     let d = a_desc a (load (m_mem s) (hash_at ctx) (a_size a));
     let room = nat (mcpb_tailroom t mod 2 ^ 32);
     let (pad_sz, s) = a_pad a (nat (mcp_tail t)) room ((byte_count ctx + buf_len t) mod 2 ^ 32) s;
     let t = put_padding pad_sz t;
     let s = snd (a_hash a E d (buf_at t) (buf_len t) (hash_at ctx) s);
     let s = s\<lparr>m_mem := store pHash (load (m_mem s) (hash_at ctx) (a_size a)) (m_mem s)\<rparr>;
     (ctx, s) \<leftarrow> md_ctx_init a (ctx\<lparr>tmp := Some t\<rparr>) s;
     Some (0, ctx, s)
   }"

definition md_digest_peek :: "md_alg \<Rightarrow> AES_H_CTX \<Rightarrow> nat \<Rightarrow> mcp_sys \<Rightarrow> int \<times> mcp_sys" where
  "md_digest_peek a ctx pHash s = (0, s\<lparr>m_mem := store pHash (load (m_mem s) (hash_at ctx) (a_size a)) (m_mem s)\<rparr>)"

section \<open>AES-H and SHA-1\<close>

definition AES_H_CTX_Init where "AES_H_CTX_Init = md_ctx_init aes_h_alg"
definition AES_H_DigestInit where "AES_H_DigestInit = md_digest_init aes_h_alg"
definition AES_H_DigestUpdate where "AES_H_DigestUpdate E = md_digest_update E aes_h_alg"
definition AES_H_DigestFinal where "AES_H_DigestFinal E = md_digest_final E aes_h_alg"
definition AES_H_DigestPeek where "AES_H_DigestPeek = md_digest_peek aes_h_alg"
definition SHA1_CTX_Init where "SHA1_CTX_Init = md_ctx_init sha1_alg"
definition SHA1_DigestInit where "SHA1_DigestInit = md_digest_init sha1_alg"
definition SHA1_DigestUpdate where "SHA1_DigestUpdate E = md_digest_update E sha1_alg"
definition SHA1_DigestFinal where "SHA1_DigestFinal E = md_digest_final E sha1_alg"
definition SHA1_DigestPeek where "SHA1_DigestPeek = md_digest_peek sha1_alg"

text \<open>The variants for the Mars processor, whose engine pads AES-H itself and takes no initial value for SHA-1.\<close>

definition MARS_AES_H_DigestUpdate :: "engine \<Rightarrow> AES_H_CTX \<Rightarrow> mcp_buff \<Rightarrow> mcp_sys \<Rightarrow> (int \<times> AES_H_CTX \<times> mcp_buff \<times> mcp_sys) option" where
  "MARS_AES_H_DigestUpdate E ctx mcpb s =
     (let d = MCP_AES_H_IV_UPDATE (load (m_mem s) (hash_at ctx) 16) MCP_AES_H_HASH_INIT;
          s = snd (MCP_AES_H_Hashing E d (buf_at mcpb) (buf_len mcpb) (hash_at ctx) s)
      in Some (0, ctx, snd (mcpb_pull (buf_len mcpb) mcpb), s))"

definition MARS_AES_H_DigestFinal :: "AES_H_CTX \<Rightarrow> nat \<Rightarrow> mcp_sys \<Rightarrow> (int \<times> AES_H_CTX \<times> mcp_sys) option" where
  "MARS_AES_H_DigestFinal ctx pHash s = do {
     (ctx, s) \<leftarrow> AES_H_CTX_Init ctx (s\<lparr>m_mem := store pHash (load (m_mem s) (hash_at ctx) 16) (m_mem s)\<rparr>);
     Some (0, ctx, s)
   }"

definition MARS_SHA1_DigestUpdate :: "engine \<Rightarrow> SHA1_CTX \<Rightarrow> mcp_buff \<Rightarrow> mcp_sys \<Rightarrow> (int \<times> SHA1_CTX \<times> mcp_buff \<times> mcp_sys) option" where
  "MARS_SHA1_DigestUpdate E ctx mcpb s =
     (let (mcpb, s) = (if byte_count ctx \<noteq> 0 then
             let mcpb = snd (mcpb_push 20 mcpb)
             in (mcpb, s\<lparr>m_mem := store (buf_at mcpb) (load (m_mem s) (hash_at ctx) 20) (m_mem s)\<rparr>)
           else (mcpb, s));
          room = nat (mcpb_tailroom mcpb mod 2 ^ 32);
          (pad_sz, s) = MCP_SHA1_PADDING (nat (mcp_tail mcpb)) room (buf_len mcpb) s;
          mcpb = put_padding pad_sz mcpb;
          s = snd (MCP_SHA1_Hashing E MCP_SHA1_HASH_INIT (buf_at mcpb) (buf_len mcpb) (hash_at ctx) s)
      in Some (0, ctx\<lparr>byte_count := (byte_count ctx + buf_len mcpb) mod 2 ^ 64\<rparr>, mcpb, s))"

definition MARS_SHA1_DigestFinal :: "SHA1_CTX \<Rightarrow> nat \<Rightarrow> mcp_sys \<Rightarrow> (int \<times> SHA1_CTX \<times> mcp_sys) option" where
  "MARS_SHA1_DigestFinal ctx pHash s = do {
     (ctx, s) \<leftarrow> SHA1_CTX_Init ctx (s\<lparr>m_mem := store pHash (load (m_mem s) (hash_at ctx) 20) (m_mem s)\<rparr>);
     Some (0, ctx, s)
   }"

section \<open>The digest tables and the common layer\<close>

definition md_of :: "MCP_MD \<Rightarrow> md_alg" where
  "md_of md = (if md \<in> {aes_h_md, Mars_aes_h_md} then aes_h_alg else sha1_alg)"

definition digest_sz :: "MCP_MD \<Rightarrow> nat" where
  "digest_sz md = (if md \<in> {aes_h_md, Mars_aes_h_md} then 16 else 20)"

fun md_update :: "engine \<Rightarrow> MCP_MD \<Rightarrow> AES_H_CTX \<Rightarrow> mcp_buff \<Rightarrow> mcp_sys \<Rightarrow> (int \<times> AES_H_CTX \<times> mcp_buff \<times> mcp_sys) option" where
  "md_update E aes_h_md = AES_H_DigestUpdate E"
| "md_update E Mars_aes_h_md = MARS_AES_H_DigestUpdate E"
| "md_update E sha1_md = SHA1_DigestUpdate E"
| "md_update E Mars_sha1_md = MARS_SHA1_DigestUpdate E"

fun md_final :: "engine \<Rightarrow> MCP_MD \<Rightarrow> AES_H_CTX \<Rightarrow> nat \<Rightarrow> mcp_sys \<Rightarrow> (int \<times> AES_H_CTX \<times> mcp_sys) option" where
  "md_final E aes_h_md = AES_H_DigestFinal E"
| "md_final E Mars_aes_h_md = MARS_AES_H_DigestFinal"
| "md_final E sha1_md = SHA1_DigestFinal E"
| "md_final E Mars_sha1_md = MARS_SHA1_DigestFinal"

definition MCP_MD_CTX_init :: MCP_MD_CTX where
  "MCP_MD_CTX_init = \<lparr>digest = None, md_data = None, private_data = None\<rparr>"

text \<open>What is given back: the buffer of the short block and the context data.\<close>

definition MCP_MD_CTX_cleanup :: "MCP_MD_CTX \<Rightarrow> (bool \<times> int) option \<times> AES_H_CTX option" where
  "MCP_MD_CTX_cleanup ctx =
     (case md_data ctx of
        None \<Rightarrow> (None, None)
      | Some d \<Rightarrow> (if digest ctx = None then None else map_option free_mcpb (tmp d), Some d))"

text \<open>\<open>m\<close> is the result of the allocation of the context data, \<open>t\<close> that of the buffer.\<close>

definition MCP_DigestInit :: "AES_H_CTX option \<Rightarrow> mcp_buff option \<Rightarrow> MCP_MD_CTX \<Rightarrow> MCP_MD \<Rightarrow> mcp_sys \<Rightarrow> int \<times> MCP_MD_CTX \<times> mcp_sys" where
  "MCP_DigestInit m t ctx type s =
     (let (r, d, s) = md_digest_init (md_of type) t m s in (r, ctx\<lparr>digest := Some type, md_data := d\<rparr>, s))"

definition MCP_DigestUpdate :: "engine \<Rightarrow> MCP_MD_CTX \<Rightarrow> mcp_buff \<Rightarrow> mcp_sys \<Rightarrow> (int \<times> MCP_MD_CTX \<times> mcp_buff \<times> mcp_sys) option" where
  "MCP_DigestUpdate E ctx mcpb s =
     (case digest ctx of
        None \<Rightarrow> Some (- 1, ctx, mcpb, s)
      | Some md \<Rightarrow> do {
          d \<leftarrow> md_data ctx;
          (r, d, mcpb, s) \<leftarrow> md_update E md d mcpb s;
          Some (r, ctx\<lparr>md_data := Some d\<rparr>, mcpb, s)
        })"

text \<open>The digest is used for its size before it is tested.\<close>

definition MCP_DigestFinal :: "engine \<Rightarrow> MCP_MD_CTX \<Rightarrow> nat \<Rightarrow> mcp_sys \<Rightarrow> (int \<times> nat \<times> MCP_MD_CTX \<times> mcp_sys) option" where
  "MCP_DigestFinal E ctx pHash s = do {
     md \<leftarrow> digest ctx;
     d \<leftarrow> md_data ctx;
     (r, d, s) \<leftarrow> md_final E md d pHash s;
     Some (r, digest_sz md, ctx\<lparr>md_data := Some d\<rparr>, s)
   }"

definition MCP_DigestPeek :: "MCP_MD_CTX \<Rightarrow> nat \<Rightarrow> mcp_sys \<Rightarrow> (int \<times> nat \<times> mcp_sys) option" where
  "MCP_DigestPeek ctx pHash s = do {
     md \<leftarrow> digest ctx;
     d \<leftarrow> md_data ctx;
     let (r, s) = md_digest_peek (md_of md) d pHash s;
     Some (r, digest_sz md, s)
   }"

definition MCP_get_digestbyname :: "string \<Rightarrow> MCP_MD option" where
  "MCP_get_digestbyname name = (if name = ''aes_h'' then Some aes_h_md else if name = ''mars_aes_h'' then Some Mars_aes_h_md else None)"

section \<open>The digest device\<close>

text \<open>
  Updating with \<open>len\<close> bytes of a user, through the kernel buffer of the context; \<open>b\<close> is the result of its
  allocation where one is needed, \<open>bs\<close> the copied bytes (\<open>None\<close> on a fault).
\<close>

definition kernel_buffer :: "mcp_buff option \<Rightarrow> nat \<Rightarrow> MCP_MD_CTX \<Rightarrow> mcp_buff option" where
  "kernel_buffer b len ctx =
     (case private_data ctx of
        None \<Rightarrow> b
      | Some k \<Rightarrow> let k = mcpb_purge k in if mcpb_tailroom k mod 2 ^ 32 < int len then b else Some k)"

definition mcp_dgst_dev_update ::
  "engine \<Rightarrow> mcp_buff option \<Rightarrow> nat \<Rightarrow> u8 list option \<Rightarrow> MCP_MD_CTX \<Rightarrow> mcp_sys \<Rightarrow> (int \<times> MCP_MD_CTX \<times> mcp_sys) option" where
  "mcp_dgst_dev_update E b len bs ctx s =
     (let k = kernel_buffer b len ctx; ctx = ctx\<lparr>private_data := k\<rparr> in
      case k of
        None \<Rightarrow> Some (- EFAULT, ctx, s)
      | Some k \<Rightarrow>
          (case bs of
             None \<Rightarrow> Some (- EFAULT, ctx, s)
           | Some bs \<Rightarrow> do {
               (r, ctx, k, s) \<leftarrow> MCP_DigestUpdate E ctx (snd (mcpb_put len k)) (s\<lparr>m_mem := store (buf_at k) bs (m_mem s)\<rparr>);
               Some (r, ctx\<lparr>private_data := Some k\<rparr>, s)
             }))"

text \<open>\<open>m\<close> tells whether the context could be allocated.\<close>

definition mcp_dgst_dev_open :: "bool \<Rightarrow> int \<times> MCP_MD_CTX option" where
  "mcp_dgst_dev_open m = (if m then (0, Some MCP_MD_CTX_init) else (- EFAULT, None))"

text \<open>What is given back: the kernel buffer, and what the context held.\<close>

definition mcp_dgst_dev_release ::
  "MCP_MD_CTX option \<Rightarrow> int \<times> ((bool \<times> int) option \<times> (bool \<times> int) option \<times> AES_H_CTX option) option" where
  "mcp_dgst_dev_release c = (0, map_option (\<lambda>ctx. (map_option free_mcpb (private_data ctx), MCP_MD_CTX_cleanup ctx)) c)"

definition pli_to_kernel :: "int \<Rightarrow> int" where
  "pli_to_kernel addr = addr mod 2 ^ 30 + 2 ^ 31"

definition pli_buff :: "mcp_buff \<Rightarrow> mcp_buff" where
  "pli_buff b = b\<lparr>mcp_head := pli_to_kernel (mcp_head b), mcp_data := pli_to_kernel (mcp_data b),
     mcp_tail := pli_to_kernel (mcp_tail b), mcp_end := pli_to_kernel (mcp_end b)\<rparr>"

text \<open>
  The commands with what they read of the user: the number of the digest, or the buffer header (\<open>None\<close> on a fault)
  and the bytes it names.
\<close>

datatype dgst_cmd =
    MCP_DGST_IOCTL_INIT nat
  | MCP_DGST_IOCTL_UPDATE "mcp_buff option" "u8 list option"
  | MCP_DGST_IOCTL_FINAL
  | MCP_DGST_IOCTL_PEEK
  | DGST_unknown

definition dgst_types :: "MCP_MD list" where
  "dgst_types = [aes_h_md, Mars_aes_h_md, sha1_md, Mars_sha1_md]"

text \<open>
  \<open>is_pli\<close> tells the addresses of memory shared with the other processors, \<open>m\<close>, \<open>t\<close> and \<open>b\<close> are the results of the
  allocations, \<open>hash\<close> the place of the local array. The third result is what is copied to the user; the test on the
  number of bytes not copied is for a negative one, so that the copy never fails.
\<close>

definition mcp_dgst_dev_ioctl ::
  "engine \<Rightarrow> (int \<Rightarrow> bool) \<Rightarrow> AES_H_CTX option \<Rightarrow> mcp_buff option \<Rightarrow> mcp_buff option \<Rightarrow> nat \<Rightarrow> dgst_cmd \<Rightarrow> MCP_MD_CTX \<Rightarrow> mcp_sys \<Rightarrow>
    (int \<times> MCP_MD_CTX \<times> u8 list \<times> mcp_sys) option" where
  "mcp_dgst_dev_ioctl E is_pli m t b hash cmd ctx s =
     (case cmd of
        MCP_DGST_IOCTL_INIT arg \<Rightarrow>
          (if arg < length dgst_types then
             let (r, ctx, s) = MCP_DigestInit m t ctx (dgst_types ! arg) s in Some (r, ctx, [], s)
           else Some (- EFAULT, ctx, [], s))
      | MCP_DGST_IOCTL_UPDATE None _ \<Rightarrow> Some (- EFAULT, ctx, [], s)
      | MCP_DGST_IOCTL_UPDATE (Some u) bs \<Rightarrow>
          (if is_pli (mcp_head u) then do {
             (r, ctx, _, s) \<leftarrow> MCP_DigestUpdate E ctx (pli_buff u) s;
             Some (r, ctx, [], s)
           } else do {
             (r, ctx, s) \<leftarrow> mcp_dgst_dev_update E b (buf_len u) bs ctx s;
             Some (r, ctx, [], s)
           })
      | MCP_DGST_IOCTL_FINAL \<Rightarrow> do {
          (r, n, ctx, s) \<leftarrow> MCP_DigestFinal E ctx hash s;
          if r < 0 then Some (- EFAULT, ctx, [], s) else Some (int n, ctx, load (m_mem s) hash n, s)
        }
      | MCP_DGST_IOCTL_PEEK \<Rightarrow> do {
          (r, n, s) \<leftarrow> MCP_DigestPeek ctx hash s;
          if r < 0 then Some (- EFAULT, ctx, [], s) else Some (int n, ctx, load (m_mem s) hash n, s)
        }
      | DGST_unknown \<Rightarrow> Some (- EFAULT, ctx, [], s))"

end
