(* ===== verification/Mcp_Digest_Props.thy ===== *)
theory Mcp_Digest_Props
  imports Mcp_Props Mcp_Digest
begin

text \<open>
  The digests on the crypto engine against their definition: the value computed for a message passed in pieces is the
  chaining of the compression function over the padded message. The two algorithms share one contract.
\<close>

section \<open>The contract of a digest algorithm\<close>

text \<open>A compression function in the place of a mode of operation: only the chaining value counts.\<close>

definition hash_step :: "(u8 list \<Rightarrow> u8 list \<Rightarrow> u8 list) \<Rightarrow> mode_step" where
  "hash_step c h b = ([], c h b)"

definition hash_run :: "(u8 list \<Rightarrow> u8 list \<Rightarrow> u8 list) \<Rightarrow> nat \<Rightarrow> u8 list \<Rightarrow> u8 list \<Rightarrow> u8 list" where
  "hash_run c n h xs = snd (mode_run (hash_step c) n h xs)"

lemma hash_run_append: "0 < n \<Longrightarrow> n dvd length xs \<Longrightarrow> hash_run c n h (xs @ ys) = hash_run c n (hash_run c n h xs) ys"
  using mode_run_append [of n xs "hash_step c" h ys] by (simp add: hash_run_def)

lemma hash_run_Nil [simp]: "hash_run c n h [] = h"
  by (auto simp: hash_run_def mode_run.simps)

lemma hash_run_align: "0 < n \<Longrightarrow> hash_run c n h (take (align n (length xs)) xs) = hash_run c n h xs"
  by (simp add: hash_run_def mode_run_align)

lemma hash_run_length:
  assumes "\<And>h b. length (c h b) = length h"
  shows "length (hash_run c n h xs) = length h"
proof (induction "length xs" arbitrary: xs h rule: less_induct)
  case less
  show ?case unfolding hash_run_def using less [unfolded hash_run_def, of "drop n xs" "c h (take n xs)"] assms
    by (cases "n = 0 \<or> length xs < n"; subst mode_run.simps) (auto simp: hash_step_def split_beta Let_def)
qed

text \<open>
  What is documented of the engine: for an AES-H descriptor it chains from the vector over blocks of 16 bytes, for a SHA-1
  descriptor from the key words over blocks of 64 bytes. \<open>cf\<close> gives the compression function of an algorithm.
\<close>

definition engine_hashes :: "engine \<Rightarrow> (u32 \<Rightarrow> u8 list \<Rightarrow> u8 list \<Rightarrow> u8 list) \<Rightarrow> bool" where
  "engine_hashes E cf \<longleftrightarrow> (\<forall>fl h b. length (cf fl h b) = length h) \<and>
     (\<exists>F. engine_runs E F \<and>
       (\<forall>d xs. d_flags d AND 0x1F = MCP_ALGO_AES_H \<longrightarrow> F d xs = hash_run (cf MCP_ALGO_AES_H) 16 (concat (map be32 (d_iv d))) xs) \<and>
       (\<forall>d xs. d_flags d AND 0x1F = MCP_ALGO_SHA_1 \<longrightarrow> F d xs = hash_run (cf MCP_ALGO_SHA_1) 64 (concat (map be32 (take 5 (d_key d)))) xs))"

text \<open>The padding of a message of \<open>len\<close> bytes.\<close>

definition md_padding :: "nat \<Rightarrow> nat \<Rightarrow> u8 list" where
  "md_padding n len = 0x80 # replicate ((n - (len + 9) mod n) mod n) 0 @ bit_len_bytes len"

definition pad_size :: "nat \<Rightarrow> nat \<Rightarrow> nat" where
  "pad_size n len = (let k = n - len mod n in if k \<le> 8 then k + n else k)"

lemma length_bit_len [simp]: "length (bit_len_bytes len) = 8"
  by (simp add: bit_len_bytes_def Let_def)

lemma pad_zeros:
  assumes "9 \<le> n"
  shows "(n - (len + 9) mod n) mod n = pad_size n len - 9" "9 \<le> pad_size n len" "pad_size n len \<le> n + 8" "n dvd len + pad_size n len"
proof -
  have r: "len mod n < n" using assms by simp
  consider "len mod n + 9 < n" | "len mod n + 9 = n" | "n < len mod n + 9" by linarith
  then have "(n - (len mod n + 9) mod n) mod n = pad_size n len - 9 \<and> 9 \<le> pad_size n len \<and> pad_size n len \<le> n + 8"
  proof cases
    case 3
    then have "(len mod n + 9) mod n = len mod n + 9 - n" using r assms by (simp add: mod_if)
    then have "(n - (len mod n + 9) mod n) mod n = n + n - (len mod n + 9)" using 3 r assms by simp
    moreover have "pad_size n len = n + n - len mod n" using 3 r by (simp add: pad_size_def Let_def)
    ultimately show ?thesis using 3 r assms by linarith
  qed (use r assms in \<open>auto simp: pad_size_def Let_def\<close>)
  then show "(n - (len + 9) mod n) mod n = pad_size n len - 9" "9 \<le> pad_size n len" "pad_size n len \<le> n + 8"
    by (simp_all add: mod_add_left_eq)
  have "n * (len div n) + len mod n = len" by simp
  then have "len + (n - len mod n) = n * (len div n) + n" using r by linarith
  then have "n dvd len + (n - len mod n)" by simp
  moreover have "pad_size n len = (n - len mod n) + (if n - len mod n \<le> 8 then n else 0)" by (simp add: pad_size_def Let_def)
  ultimately show "n dvd len + pad_size n len" by (cases "n - len mod n \<le> 8") (simp_all add: add.assoc [symmetric] del: diff_is_0_eq)
qed

lemma length_md_padding: "9 \<le> n \<Longrightarrow> length (md_padding n len) = pad_size n len"
  using pad_zeros [of n len] by (simp add: md_padding_def)

lemma pad_buffer_padding:
  assumes "9 \<le> n"
  shows "pad_buffer p (pad_size n len) len m = store p (md_padding n len) m"
proof -
  let ?k = "pad_size n len"
  have k: "9 \<le> ?k" using pad_zeros(2) [OF assms] .
  have "(store p (replicate ?k 0) m)(p := store p (replicate ?k 0) m p OR 0x80) = store p (0x80 # replicate (?k - 1) 0) m"
    using k by (intro ext) (auto simp: store_def nth_Cons')
  moreover have "0x80 # replicate (?k - 1) 0 = (0x80 # replicate (?k - 9) 0) @ replicate 8 (0 :: u8)"
    using k by (simp add: replicate_add [symmetric])
  moreover have "store (p + ?k - 8) (bit_len_bytes len) (store p ((0x80 # replicate (?k - 9) 0) @ replicate 8 0) m) = store p (md_padding n len) m"
    using k pad_zeros(1) [OF assms, of len]
    by (intro ext) (auto simp: store_def md_padding_def nth_append nth_Cons' add.commute)
  ultimately show ?thesis by (simp add: pad_buffer_def Let_def)
qed

section \<open>Buffers by their place\<close>

text \<open>A buffer over the \<open>N\<close> bytes at \<open>K\<close> with \<open>l\<close> bytes of data from offset \<open>d\<close> on; what an allocation gives and what the operations do to it.\<close>

definition buff_at :: "nat \<Rightarrow> nat \<Rightarrow> nat \<Rightarrow> nat \<Rightarrow> mcp_buff" where
  "buff_at K N d l = \<lparr>mcp_head = int K, mcp_data = int (K + d), mcp_tail = int (K + d + l), mcp_end = int (K + N), mcp_len = of_nat l\<rparr>"

lemma buff_at_fields [simp]:
  "buf_at (buff_at K N d l) = K + d" "mcp_tail (buff_at K N d l) = int (K + d + l)"
  "mcpb_tailroom (buff_at K N d l) = int N - int (d + l)"
  by (simp_all add: buff_at_def buf_at_def mcpb_tailroom_def nat_add_distrib)

lemma buf_len_at [simp]: "l < 2 ^ 32 \<Longrightarrow> buf_len (buff_at K N d l) = l"
  by (simp add: buff_at_def buf_len_def unat_of_nat)

lemma buff_at_ops [simp]:
  "mcpb_purge (buff_at K N d l) = buff_at K N 128 0"
  "snd (mcpb_put n (buff_at K N d l)) = buff_at K N d (l + n)"
  "n \<le> d \<Longrightarrow> snd (mcpb_push n (buff_at K N d l)) = buff_at K N (d - n) (n + l)"
  by (simp_all add: buff_at_def mcpb_purge_def mcpb_purge_raw_def mcpb_reserve_def mcpb_put_def mcpb_push_def Let_def of_nat_diff)

lemma buff_at_pull [simp]: "n \<le> l \<Longrightarrow> l < 2 ^ 32 \<Longrightarrow> snd (mcpb_pull n (buff_at K N d l)) = buff_at K N (d + n) (l - n)"
  by (simp add: buff_at_def mcpb_pull_def Let_def unat_of_nat of_nat_diff)

lemma alloc_buff_at:
  assumes "alloc_mcpb dvr_malloc kmalloc n = Some b" "n + 276 < 2 ^ 32"
  shows "\<exists>K. b = buff_at K (n + 256) 128 0"
  using assms
  by (intro exI [of _ "nat (mcp_head b)"])
    (auto simp: alloc_mcpb_def alloc_mcpb_raw_def mcpb_reserve_def buff_at_def Let_def split: option.splits if_splits)

section \<open>The algorithms\<close>

text \<open>
  The contract: \<open>fl\<close> is the algorithm number. Running the engine from a chaining value over full blocks gives the next one;
  padding writes the padding of the message when there is room.
\<close>

locale digest_alg =
  fixes a :: md_alg and fl :: u32
  assumes sizes: "16 \<le> a_block a" "a_block a \<le> 64" "length (a_init a) = a_size a"
    and hash_law: "engine_hashes E cf \<Longrightarrow> a_block a dvd len \<Longrightarrow> length h = a_size a \<Longrightarrow>
      m_mem (snd (a_hash a E (a_desc a h) i len out s)) = store out (hash_run (cf fl) (a_block a) h (load (m_mem s) i len)) (m_mem s)"
    and pad_law: "pad_size (a_block a) len \<le> room \<Longrightarrow>
      a_pad a p room len s = (int (pad_size (a_block a) len), s\<lparr>m_mem := store p (md_padding (a_block a) len) (m_mem s)\<rparr>)"

lemma sha1_words: "length h = 20 \<Longrightarrow> concat (map be32 (words16 h @ [be32_of (drop 16 h)])) = h"
  using be32_drop [of 0 h] be32_drop [of 4 h] be32_drop [of 8 h] be32_drop [of 12 h] be32_drop [of 16 h] split4 [of 0 h] split4 [of 4 h] split4 [of 8 h] split4 [of 12 h]
  by (simp add: words16_def)

interpretation aes_h: digest_alg aes_h_alg MCP_ALGO_AES_H
proof
  show "16 \<le> a_block aes_h_alg" "a_block aes_h_alg \<le> 64" "length (a_init aes_h_alg) = a_size aes_h_alg" by (simp_all add: aes_h_alg_def)
  fix E :: engine and cf :: "u32 \<Rightarrow> u8 list \<Rightarrow> u8 list \<Rightarrow> u8 list" and len i out :: nat and h :: "u8 list" and s :: mcp_sys
  assume E: "engine_hashes E cf" and len: "a_block aes_h_alg dvd len" and h: "length h = a_size aes_h_alg"
  let ?d = "a_desc aes_h_alg h\<lparr>d_in := i, d_out := out, d_len := len\<rparr>"
  obtain F where F: "engine_runs E F" "\<And>d xs. d_flags d AND 0x1F = MCP_ALGO_AES_H \<Longrightarrow> F d xs = hash_run (cf MCP_ALGO_AES_H) 16 (concat (map be32 (d_iv d))) xs"
    using E unfolding engine_hashes_def by blast
  have "d_flags ?d AND 0x1F = MCP_ALGO_AES_H" "concat (map be32 (d_iv ?d)) = h"
    using h by (simp_all add: aes_h_alg_def MCP_AES_H_IV_UPDATE_def MCP_AES_H_HASH_INIT_def MARS_MCP_MODE_def MARS_MCP_BCM_def MARS_MCP_ENC_def iv_words16)
  then show "m_mem (snd (a_hash aes_h_alg E (a_desc aes_h_alg h) i len out s)) =
      store out (hash_run (cf MCP_ALGO_AES_H) (a_block aes_h_alg) h (load (m_mem s) i len)) (m_mem s)"
    using mcp_run_desc_ok(2) [OF F(1), of "a_desc aes_h_alg h" i out len s] F(2) [of ?d] by (simp add: aes_h_alg_def MCP_AES_H_Hashing_def)
next
  fix len room p :: nat and s :: mcp_sys
  assume "pad_size (a_block aes_h_alg) len \<le> room"
  then show "a_pad aes_h_alg p room len s = (int (pad_size (a_block aes_h_alg) len), s\<lparr>m_mem := store p (md_padding (a_block aes_h_alg) len) (m_mem s)\<rparr>)"
    using pad_buffer_padding [of 16 p len "m_mem s"] by (simp add: aes_h_alg_def MCP_AES_H_PADDING_def pad_size_def Let_def)
qed

interpretation sha1: digest_alg sha1_alg MCP_ALGO_SHA_1
proof
  show "16 \<le> a_block sha1_alg" "a_block sha1_alg \<le> 64" "length (a_init sha1_alg) = a_size sha1_alg" by (simp_all add: sha1_alg_def)
  fix E :: engine and cf :: "u32 \<Rightarrow> u8 list \<Rightarrow> u8 list \<Rightarrow> u8 list" and len i out :: nat and h :: "u8 list" and s :: mcp_sys
  assume E: "engine_hashes E cf" and len: "a_block sha1_alg dvd len" and h: "length h = a_size sha1_alg"
  let ?d = "a_desc sha1_alg h\<lparr>d_in := i, d_out := out, d_len := len\<rparr>"
  obtain F where F: "engine_runs E F" "\<And>d xs. d_flags d AND 0x1F = MCP_ALGO_SHA_1 \<Longrightarrow> F d xs = hash_run (cf MCP_ALGO_SHA_1) 64 (concat (map be32 (take 5 (d_key d)))) xs"
    using E unfolding engine_hashes_def by blast
  have w: "length (words16 h) = 4" by (simp add: words16_def)
  have "d_flags ?d AND 0x1F = MCP_ALGO_SHA_1" "concat (map be32 (take 5 (d_key ?d))) = h"
    using h sha1_words [of h] w by (simp_all add: sha1_alg_def MCP_SHA1_IV_UPDATE_def MCP_SHA1_HASH_INIT_def MARS_MCP_MODE_def)
  moreover have "len mod 64 = 0" using len by (simp add: sha1_alg_def mod_eq_0_iff_dvd)
  ultimately show "m_mem (snd (a_hash sha1_alg E (a_desc sha1_alg h) i len out s)) =
      store out (hash_run (cf MCP_ALGO_SHA_1) (a_block sha1_alg) h (load (m_mem s) i len)) (m_mem s)"
    using mcp_run_desc_ok(2) [OF F(1), of "a_desc sha1_alg h" i out len s] F(2) [of ?d] by (simp add: sha1_alg_def MCP_SHA1_Hashing_def)
next
  fix len room p :: nat and s :: mcp_sys
  assume "pad_size (a_block sha1_alg) len \<le> room"
  then show "a_pad sha1_alg p room len s = (int (pad_size (a_block sha1_alg) len), s\<lparr>m_mem := store p (md_padding (a_block sha1_alg) len) (m_mem s)\<rparr>)"
    using pad_buffer_padding [of 64 p len "m_mem s"] by (simp add: sha1_alg_def MCP_SHA1_PADDING_def pad_size_def Let_def)
qed

section \<open>A message in pieces\<close>

text \<open>
  The context after the bytes \<open>p @ q\<close>: the engine has seen \<open>p\<close>, whole blocks, and \<open>q\<close>, at most one block, waits in the
  buffer over the \<open>N\<close> bytes at \<open>T\<close>; the chaining value is at \<open>H\<close>.
\<close>

definition md_rep :: "md_alg \<Rightarrow> (u8 list \<Rightarrow> u8 list \<Rightarrow> u8 list) \<Rightarrow> nat \<Rightarrow> nat \<Rightarrow> nat \<Rightarrow> u8 list \<Rightarrow> u8 list \<Rightarrow> AES_H_CTX \<Rightarrow> mcp_sys \<Rightarrow> bool" where
  "md_rep a c T N H p q ctx s \<longleftrightarrow>
     ctx = \<lparr>tmp = Some (buff_at T N 128 (length q)), byte_count = length p, hash_at = H\<rparr> \<and> length q \<le> a_block a \<and> a_block a dvd length p \<and>
     load (m_mem s) (T + 128) (length q) = q \<and> load (m_mem s) H (a_size a) = hash_run c (a_block a) (a_init a) p"

definition md_places :: "md_alg \<Rightarrow> nat \<Rightarrow> nat \<Rightarrow> nat \<Rightarrow> bool" where
  "md_places a T N H \<longleftrightarrow> 136 + 2 * a_block a \<le> N \<and> N < 2 ^ 32 \<and> disjoint_ranges T N H (a_size a)"

lemma disjoint_within:
  "disjoint_ranges a n b k \<Longrightarrow> a \<le> a' \<Longrightarrow> a' + n' \<le> a + n \<Longrightarrow> b \<le> b' \<Longrightarrow> b' + k' \<le> b + k \<Longrightarrow> disjoint_ranges a' n' b' k'"
  by (auto simp: disjoint_ranges_def)

lemma disjoint_sym: "disjoint_ranges a n b k \<longleftrightarrow> disjoint_ranges b k a n"
  by (auto simp: disjoint_ranges_def)

context digest_alg
begin

lemma init_rep:
  assumes "tmp ctx = Some (buff_at T N d l)" "ctx = \<lparr>tmp = tmp ctx, byte_count = k, hash_at = H\<rparr>"
  shows "\<exists>ctx' s'. md_ctx_init a ctx s = Some (ctx', s') \<and> md_rep a c T N H [] [] ctx' s' \<and>
    m_mem s' = store H (a_init a) (m_mem s)"
  using assms load_store_same [of H "a_init a" "m_mem s"] sizes
  by (cases ctx) (auto simp: md_ctx_init_def md_rep_def hash_run_def mode_run.simps)

lemma update_rep:
  assumes E: "engine_hashes E cf" and rep: "md_rep a (cf fl) T N H p q ctx s" and pl: "md_places a T N H"
    and dis: "disjoint_ranges K M T N" "disjoint_ranges K M H (a_size a)"
    and fit: "length q \<le> d" "d + l \<le> M" "length q + l < 2 ^ 32" "length p + (length q + l) < 2 ^ 64"
  shows "\<exists>ctx' d' l' s' p' q'. md_digest_update E a ctx (buff_at K M d l) s = Some (0, ctx', buff_at K M d' l', s') \<and>
    md_rep a (cf fl) T N H p' q' ctx' s' \<and> p' @ q' = p @ q @ load (m_mem s) (K + d) l"
proof -
  let ?n = "a_block a" let ?h = "hash_run (cf fl) ?n (a_init a) p" let ?ys = "q @ load (m_mem s) (K + d) l" let ?L = "length q + l"
  define k where "k = d - length q"
  define A where "A = (if ?L > ?n then align ?n ?L else 0)"
  define s1 where "s1 = s\<lparr>m_mem := store (K + k) q (m_mem s)\<rparr>"
  have ctx: "ctx = \<lparr>tmp = Some (buff_at T N 128 (length q)), byte_count = length p, hash_at = H\<rparr>"
    and q: "length q \<le> ?n" "load (m_mem s) (T + 128) (length q) = q" and np: "?n dvd length p"
    and h: "load (m_mem s) H (a_size a) = ?h" using rep by (simp_all add: md_rep_def)
  have n0: "0 < ?n" using sizes by simp
  have kd: "K + d = K + k + length q" using fit(1) by (simp add: k_def)
  have lh: "length ?h = a_size a" using hash_run_length [of "cf fl"] E sizes by (simp add: engine_hashes_def)
  have A: "A \<le> ?L" "?n dvd A" "?L - A \<le> ?n" using align_facts [of ?n ?L] n0 by (auto simp: A_def)
  have ld1: "load (m_mem s1) (K + k) ?L = ?ys"
    unfolding load_append s1_def using load_store_same [of "K + k" q "m_mem s"] load_store_disjoint [of "K + d" l "K + k" q "m_mem s"] kd
    by (simp add: disjoint_ranges_def add.assoc)
  have tA: "take A ?ys = load (m_mem s1) (K + k) A" using load_take [OF A(1), of "m_mem s1" "K + k"] ld1 by simp
  have h1: "load (m_mem s1) H (a_size a) = ?h"
    using load_store_disjoint [OF disjoint_within [OF dis(2) [unfolded disjoint_sym [of K]]], of H "a_size a" "K + k" q "m_mem s"] h fit(1,2)
    by (simp add: s1_def k_def)
  have pre: "md_prepend (buff_at T N 128 (length q)) (buff_at K M d l) s = (buff_at T N 128 0, buff_at K M k ?L, s1)"
    using fit q(1) sizes(2) q(2) by (cases "q = []") (simp_all add: md_prepend_def s1_def k_def Let_def)
  obtain s2 where s2: "md_blocks E a (a_desc a ?h) ctx (buff_at K M k ?L) s1 =
      (ctx\<lparr>byte_count := length p + A\<rparr>, buff_at K M (k + A) (?L - A), s2)"
    "m_mem s2 = store H (if ?L > ?n then hash_run (cf fl) ?n ?h (take A ?ys) else []) (m_mem s1)"
    using hash_law [OF E, of A ?h "K + k" H s1] A lh fit(3,4) tA unfolding md_blocks_def by (auto simp: ctx A_def Let_def split: if_splits)
  let ?q = "drop A ?ys" let ?p = "p @ take A ?ys"
  have h2: "load (m_mem s2) H (a_size a) = hash_run (cf fl) ?n (a_init a) ?p"
    using s2(2) load_store_same [of H "hash_run (cf fl) ?n ?h (take A ?ys)" "m_mem s1"] hash_run_append [OF n0 np] hash_run_length [of "cf fl"] lh E h1
    by (auto simp: engine_hashes_def A_def)
  have q2: "load (m_mem s2) (K + (k + A)) (?L - A) = ?q"
  proof -
    have "load (m_mem s2) (K + k) ?L = ?ys"
      unfolding s2(2) ld1 [symmetric]
      by (rule load_store_disjoint [OF disjoint_within [OF dis(2)]]) (use fit k_def hash_run_length [of "cf fl"] lh E in \<open>auto simp: engine_hashes_def\<close>)
    then show ?thesis using load_drop [OF A(1), of "m_mem s2" "K + k"] by (simp add: add.assoc)
  qed
  have lq: "length ?q = ?L - A" "length ?p = length p + A" using A(1) by simp_all
  define s3 where "s3 = s2\<lparr>m_mem := store (T + 128) ?q (m_mem s2)\<rparr>"
  have "md_digest_update E a ctx (buff_at K M d l) s =
      Some (0, \<lparr>tmp = Some (buff_at T N 128 (length ?q)), byte_count = length ?p, hash_at = H\<rparr>, buff_at K M (k + A) (?L - A), s3)"
    unfolding lq md_digest_update_def s3_def using s2(1) pre q2 A fit(3) h by (simp add: ctx Let_def)
  moreover have "load (m_mem s3) H (a_size a) = load (m_mem s2) H (a_size a)"
    unfolding s3_def using pl A(3) lq(1) sizes
    by (simp add: md_places_def) (rule load_store_disjoint, auto simp: disjoint_ranges_def)
  moreover have "load (m_mem s3) (T + 128) (length ?q) = ?q" unfolding s3_def using load_store_same [of "T + 128" ?q "m_mem s2"] by simp
  ultimately have "md_digest_update E a ctx (buff_at K M d l) s =
      Some (0, \<lparr>tmp = Some (buff_at T N 128 (length ?q)), byte_count = length ?p, hash_at = H\<rparr>, buff_at K M (k + A) (?L - A), s3)"
    "md_rep a (cf fl) T N H ?p ?q \<lparr>tmp = Some (buff_at T N 128 (length ?q)), byte_count = length ?p, hash_at = H\<rparr> s3"
    using h2 A np lq by (simp_all only: md_rep_def) simp
  moreover have "?p @ ?q = p @ ?ys" by (simp only: append.assoc append_take_drop_id)
  ultimately show ?thesis by blast
qed

lemma final_rep:
  assumes E: "engine_hashes E cf" and rep: "md_rep a (cf fl) T N H p q ctx s" and pl: "md_places a T N H"
    and out: "disjoint_ranges out (a_size a) H (a_size a)" and len: "length (p @ q) < 2 ^ 32"
  shows "\<exists>ctx' s'. md_digest_final E a ctx out s = Some (0, ctx', s') \<and> md_rep a (cf fl) T N H [] [] ctx' s' \<and>
    load (m_mem s') out (a_size a) = hash_run (cf fl) (a_block a) (a_init a) (p @ q @ md_padding (a_block a) (length (p @ q)))"
proof -
  let ?n = "a_block a" let ?h = "hash_run (cf fl) ?n (a_init a) p" let ?pad = "md_padding ?n (length (p @ q))"
  have ctx: "ctx = \<lparr>tmp = Some (buff_at T N 128 (length q)), byte_count = length p, hash_at = H\<rparr>"
    and q: "length q \<le> ?n" "load (m_mem s) (T + 128) (length q) = q" and np: "?n dvd length p"
    and h: "load (m_mem s) H (a_size a) = ?h" using rep by (simp_all add: md_rep_def)
  have n0: "0 < ?n" "9 \<le> ?n" "?n \<le> 64" using sizes by simp_all
  have hl: "length (hash_run (cf fl) ?n x ys) = length x" for x ys using hash_run_length [of "cf fl"] E by (simp add: engine_hashes_def)
  have lp: "length ?pad = pad_size ?n (length (p @ q))" using length_md_padding [OF n0(2)] .
  have room: "pad_size ?n (length (p @ q)) + (128 + length q) \<le> N" "N < 2 ^ 32"
    using pl pad_zeros(3) [OF n0(2), of "length (p @ q)"] q(1) by (auto simp: md_places_def)
  have rm: "nat ((int N - int (128 + length q)) mod 2 ^ 32) = N - (128 + length q)" using room by (simp add: nat_diff_distrib')
  have pad: "a_pad a (T + 128 + length q) (nat ((int N - int (128 + length q)) mod 2 ^ 32)) ((length p + length q) mod 2 ^ 32) s =
      (int (length ?pad), s\<lparr>m_mem := store (T + 128 + length q) ?pad (m_mem s)\<rparr>)"
    unfolding lp rm using pad_law [of "length (p @ q)" "N - (128 + length q)"] room len by simp
  let ?s1 = "s\<lparr>m_mem := store (T + 128 + length q) ?pad (m_mem s)\<rparr>" let ?l = "length q + length ?pad"
  have ld: "load (m_mem ?s1) (T + 128) ?l = q @ ?pad"
    unfolding load_append using load_store_same [of "T + 128 + length q" ?pad "m_mem s"] q(2)
      load_store_disjoint [of "T + 128" "length q" "T + 128 + length q" ?pad "m_mem s"] by (simp add: disjoint_ranges_def)
  have "?n dvd length p + ?l" using pad_zeros(4) [OF n0(2), of "length (p @ q)"] unfolding lp by (simp add: add.assoc)
  then have dl: "?n dvd ?l" using np by (simp add: dvd_add_right_iff)
  have l32: "?l < 2 ^ 32" using room lp by simp
  define s2 where "s2 = snd (a_hash a E (a_desc a ?h) (T + 128) ?l H ?s1)"
  have m2: "m_mem s2 = store H (hash_run (cf fl) ?n ?h (q @ ?pad)) (m_mem ?s1)"
    unfolding s2_def using hash_law [OF E dl, of ?h "T + 128" H ?s1] ld hl sizes(3) by simp
  define s3 where "s3 = s2\<lparr>m_mem := store out (load (m_mem s2) H (a_size a)) (m_mem s2)\<rparr>"
  have h2: "load (m_mem s2) H (a_size a) = hash_run (cf fl) ?n (a_init a) (p @ q @ ?pad)"
    unfolding m2 using load_store_same [of H "hash_run (cf fl) ?n ?h (q @ ?pad)" "m_mem ?s1"] hl sizes(3) hash_run_append [OF n0(1) np] by simp
  obtain ctx' s' where i: "md_ctx_init a (ctx\<lparr>tmp := Some (buff_at T N 128 ?l)\<rparr>) s3 = Some (ctx', s')" "md_rep a (cf fl) T N H [] [] ctx' s'"
    "m_mem s' = store H (a_init a) (m_mem s3)"
    using init_rep [of "ctx\<lparr>tmp := Some (buff_at T N 128 ?l)\<rparr>" T N 128 ?l "length p" H s3 "cf fl"] ctx by auto
  have "load (m_mem s') out (a_size a) = load (m_mem s3) out (a_size a)"
    unfolding i(3) using load_store_disjoint [of out "a_size a" H "a_init a" "m_mem s3"] out sizes(3) by simp
  also have "\<dots> = load (m_mem s2) H (a_size a)" unfolding s3_def using load_store_same [of out "load (m_mem s2) H (a_size a)" "m_mem s2"] by simp
  finally have r: "load (m_mem s') out (a_size a) = hash_run (cf fl) ?n (a_init a) (p @ q @ ?pad)" using h2 by simp
  have "nat (mcp_tail (buff_at T N 128 (length q))) = T + 128 + length q" "length q < 2 ^ 32" using l32 by (simp_all add: nat_add_distrib)
  then have "md_digest_final E a ctx out s = Some (0, ctx', s')"
    using pad h i(1) l32 unfolding md_digest_final_def s3_def s2_def put_padding_def by (simp add: ctx Let_def)
  then show ?thesis using i(2) r by blast
qed

end

section \<open>Through the device\<close>

text \<open>A process that updates with one piece after the other; each comes with what the allocation would give for it.\<close>

fun dgst_pieces :: "engine \<Rightarrow> (mcp_buff option \<times> u8 list) list \<Rightarrow> MCP_MD_CTX \<Rightarrow> mcp_sys \<Rightarrow> (MCP_MD_CTX \<times> mcp_sys) option" where
  "dgst_pieces E [] ctx s = Some (ctx, s)"
| "dgst_pieces E ((b, bs) # ps) ctx s = do {
     (r, ctx, s) \<leftarrow> mcp_dgst_dev_update E b (length bs) (Some bs) ctx s;
     if r = 0 then dgst_pieces E ps ctx s else None
   }"

text \<open>Memory of a kernel buffer that is apart from the context's.\<close>

definition apart :: "md_alg \<Rightarrow> nat \<Rightarrow> nat \<Rightarrow> nat \<Rightarrow> nat \<Rightarrow> nat \<Rightarrow> bool" where
  "apart a T N H K M \<longleftrightarrow> M < 2 ^ 32 \<and> disjoint_ranges K M T N \<and> disjoint_ranges K M H (a_size a)"

definition piece_ok :: "md_alg \<Rightarrow> nat \<Rightarrow> nat \<Rightarrow> nat \<Rightarrow> mcp_buff option \<times> u8 list \<Rightarrow> bool" where
  "piece_ok a T N H x \<longleftrightarrow> (\<exists>K. fst x = Some (buff_at K (length (snd x) + 256) 128 0) \<and> apart a T N H K (length (snd x) + 256))"

definition priv_ok :: "md_alg \<Rightarrow> nat \<Rightarrow> nat \<Rightarrow> nat \<Rightarrow> mcp_buff option \<Rightarrow> bool" where
  "priv_ok a T N H o' \<longleftrightarrow> (\<forall>k. o' = Some k \<longrightarrow> (\<exists>K M d l. k = buff_at K M d l \<and> 128 \<le> M \<and> apart a T N H K M))"

lemma kernel_buffer_ok:
  assumes "piece_ok a T N H (b, bs)" "priv_ok a T N H (private_data ctx)"
  shows "\<exists>K M. kernel_buffer b (length bs) ctx = Some (buff_at K M 128 0) \<and> 128 + length bs \<le> M \<and> apart a T N H K M"
proof -
  obtain K' where b: "b = Some (buff_at K' (length bs + 256) 128 0)" "apart a T N H K' (length bs + 256)" using assms(1) by (auto simp: piece_ok_def)
  show ?thesis
  proof (cases "private_data ctx")
    case None
    then show ?thesis using b by (intro exI [of _ K'] exI [of _ "length bs + 256"]) (simp add: kernel_buffer_def)
  next
    case (Some k)
    then obtain K M d l where k: "k = buff_at K M d l" "128 \<le> M" "apart a T N H K M" using assms(2) by (auto simp: priv_ok_def)
    have "(int M - 128) mod 2 ^ 32 = int M - 128" using k by (simp add: apart_def)
    then have "kernel_buffer b (length bs) ctx = (if M < 128 + length bs then b else Some (buff_at K M 128 0))"
      using Some k by (auto simp: kernel_buffer_def Let_def)
    moreover have "128 + length bs \<le> length bs + 256" by simp
    ultimately show ?thesis using b k(3) by (metis not_le)
  qed
qed

text \<open>A digest of the table that runs the common steps.\<close>

locale software_md = digest_alg +
  fixes md :: MCP_MD
  assumes md_laws: "md_of md = a" "digest_sz md = a_size a" "md_update E md = md_digest_update E a" "md_final E md = md_digest_final E a"
begin

lemma device_update:
  assumes E: "engine_hashes E cf" and rep: "md_rep a (cf fl) T N H p q c s" and pl: "md_places a T N H"
    and ok: "piece_ok a T N H (b, bs)" "priv_ok a T N H o'" and len: "length (p @ q @ bs) < 2 ^ 32"
  shows "\<exists>c' o'' s' p' q'. mcp_dgst_dev_update E b (length bs) (Some bs) \<lparr>digest = Some md, md_data = Some c, private_data = o'\<rparr> s =
      Some (0, \<lparr>digest = Some md, md_data = Some c', private_data = o''\<rparr>, s') \<and>
    md_rep a (cf fl) T N H p' q' c' s' \<and> p' @ q' = p @ q @ bs \<and> priv_ok a T N H o''"
proof -
  let ?ctx = "\<lparr>digest = Some md, md_data = Some c, private_data = o'\<rparr>"
  obtain K M where k: "kernel_buffer b (length bs) ?ctx = Some (buff_at K M 128 0)" "128 + length bs \<le> M" "apart a T N H K M"
    using kernel_buffer_ok [OF ok(1), of ?ctx] ok(2) by auto
  let ?s = "s\<lparr>m_mem := store (K + 128) bs (m_mem s)\<rparr>"
  have dis: "disjoint_ranges K M T N" "disjoint_ranges K M H (a_size a)" using k(3) by (simp_all add: apart_def)
  have q: "length q \<le> a_block a" using rep by (simp add: md_rep_def)
  have "disjoint_ranges (T + 128) (length q) (K + 128) (length bs)" "disjoint_ranges H (a_size a) (K + 128) (length bs)"
    using dis k(2) q pl by (auto simp: disjoint_ranges_def md_places_def)
  then have rep': "md_rep a (cf fl) T N H p q c ?s" using rep by (simp add: md_rep_def load_store_disjoint)
  obtain c' d' l' s' p' q' where u: "md_digest_update E a c (buff_at K M 128 (length bs)) ?s = Some (0, c', buff_at K M d' l', s')"
    "md_rep a (cf fl) T N H p' q' c' s'" "p' @ q' = p @ q @ load (m_mem ?s) (K + 128) (length bs)"
    using update_rep [OF E rep' pl dis, of 128 "length bs"] q k(2) len sizes(2) by auto
  have "priv_ok a T N H (Some (buff_at K M d' l'))" using k(2,3) unfolding priv_ok_def by (metis add_leE option.inject)
  moreover have "load (m_mem ?s) (K + 128) (length bs) = bs" using load_store_same [of "K + 128" bs "m_mem s"] by simp
  moreover have "mcp_dgst_dev_update E b (length bs) (Some bs) ?ctx s =
      Some (0, \<lparr>digest = Some md, md_data = Some c', private_data = Some (buff_at K M d' l')\<rparr>, s')"
    using k(1) u(1) by (simp add: mcp_dgst_dev_update_def MCP_DigestUpdate_def md_laws Let_def)
  ultimately show ?thesis using u(2,3) by metis
qed

lemma pieces_rep:
  assumes E: "engine_hashes E cf" and pl: "md_places a T N H" and "md_rep a (cf fl) T N H p q c s" "\<forall>x\<in>set ps. piece_ok a T N H x"
    "priv_ok a T N H o'" "length (p @ q @ concat (map snd ps)) < 2 ^ 32"
  shows "\<exists>c' o'' s' p' q'. dgst_pieces E ps \<lparr>digest = Some md, md_data = Some c, private_data = o'\<rparr> s =
      Some (\<lparr>digest = Some md, md_data = Some c', private_data = o''\<rparr>, s') \<and>
    md_rep a (cf fl) T N H p' q' c' s' \<and> p' @ q' = p @ q @ concat (map snd ps)"
  using assms(3-)
proof (induction ps arbitrary: p q c s o')
  case (Cons x ps)
  obtain b bs where x: "x = (b, bs)" by force
  obtain c1 o1 s1 p1 q1 where 1: "mcp_dgst_dev_update E b (length bs) (Some bs) \<lparr>digest = Some md, md_data = Some c, private_data = o'\<rparr> s =
      Some (0, \<lparr>digest = Some md, md_data = Some c1, private_data = o1\<rparr>, s1)"
    "md_rep a (cf fl) T N H p1 q1 c1 s1" "p1 @ q1 = p @ q @ bs" "priv_ok a T N H o1"
    using device_update [OF E Cons.prems(1) pl, of b bs o'] Cons.prems(2-) x by auto
  have eq: "p1 @ q1 @ concat (map snd ps) = p @ q @ bs @ concat (map snd ps)" using 1(3) by (metis append.assoc)
  have "length (p1 @ q1 @ concat (map snd ps)) < 2 ^ 32" unfolding eq using Cons.prems(4) x by simp
  then obtain c' o'' s' p' q' where 2: "dgst_pieces E ps \<lparr>digest = Some md, md_data = Some c1, private_data = o1\<rparr> s1 =
      Some (\<lparr>digest = Some md, md_data = Some c', private_data = o''\<rparr>, s')"
    "md_rep a (cf fl) T N H p' q' c' s'" "p' @ q' = p1 @ q1 @ concat (map snd ps)"
    using Cons.IH [OF 1(2) _ 1(4)] Cons.prems(2) by auto
  then show ?case using 1(1) eq x by simp metis
qed auto

lemma stream:
  assumes E: "engine_hashes E cf" and pl: "md_places a T N H" and ps: "\<forall>x\<in>set ps. piece_ok a T N H x"
    and out: "disjoint_ranges out (a_size a) H (a_size a)" and len: "length (concat (map snd ps)) < 2 ^ 32"
    and i: "MCP_DigestInit (Some \<lparr>tmp = None, byte_count = n, hash_at = H\<rparr>) (Some (buff_at T N 128 0)) MCP_MD_CTX_init md s = (r, ctx, s1)"
  shows "r = 0 \<and> (\<exists>ctx2 s2 ctx3 s3. dgst_pieces E ps ctx s1 = Some (ctx2, s2) \<and> MCP_DigestFinal E ctx2 out s2 = Some (0, a_size a, ctx3, s3) \<and>
    load (m_mem s3) out (a_size a) = hash_run (cf fl) (a_block a) (a_init a)
      (concat (map snd ps) @ md_padding (a_block a) (length (concat (map snd ps)))))"
proof -
  obtain c0 where c: "r = 0" "ctx = \<lparr>digest = Some md, md_data = Some c0, private_data = None\<rparr>" "md_rep a (cf fl) T N H [] [] c0 s1"
    using i init_rep [of "\<lparr>tmp = Some (buff_at T N 128 0), byte_count = n, hash_at = H\<rparr>" T N 128 0 n H s "cf fl"]
    by (auto simp: MCP_DigestInit_def md_digest_init_def md_laws MCP_MD_CTX_init_def)
  obtain c' o'' s2 p' q' where 2: "dgst_pieces E ps ctx s1 = Some (\<lparr>digest = Some md, md_data = Some c', private_data = o''\<rparr>, s2)"
    "md_rep a (cf fl) T N H p' q' c' s2" "p' @ q' = concat (map snd ps)"
    using pieces_rep [OF E pl c(3) ps, of None] len c(2) by (auto simp: priv_ok_def)
  obtain c3 s3 where 3: "md_digest_final E a c' out s2 = Some (0, c3, s3)"
    "load (m_mem s3) out (a_size a) = hash_run (cf fl) (a_block a) (a_init a) (p' @ q' @ md_padding (a_block a) (length (p' @ q')))"
    using final_rep [OF E 2(2) pl out] len 2(3) by auto
  have "MCP_DigestFinal E \<lparr>digest = Some md, md_data = Some c', private_data = o''\<rparr> out s2 =
      Some (0, a_size a, \<lparr>digest = Some md, md_data = Some c3, private_data = o''\<rparr>, s3)"
    using 3(1) by (simp add: MCP_DigestFinal_def md_laws)
  then show ?thesis using c(1) 2(1) 3(2) [unfolded append.assoc [symmetric] 2(3)] by simp
qed

end

interpretation aes_h_md: software_md aes_h_alg MCP_ALGO_AES_H aes_h_md
  by unfold_locales (simp_all add: md_of_def digest_sz_def AES_H_DigestUpdate_def AES_H_DigestFinal_def aes_h_alg_def)

interpretation sha1_md: software_md sha1_alg MCP_ALGO_SHA_1 sha1_md
  by unfold_locales (simp_all add: md_of_def digest_sz_def SHA1_DigestUpdate_def SHA1_DigestFinal_def sha1_alg_def)

definition md_algo :: "MCP_MD \<Rightarrow> u32" where
  "md_algo md = (if md = aes_h_md then MCP_ALGO_AES_H else MCP_ALGO_SHA_1)"

text \<open>
  C12: A digest through the device is the digest of the message. After \<open>MCP_DigestInit\<close> with \<open>aes_h\<close> or \<open>sha1\<close>, any sequence of user
  updates, each copied into the kernel buffer that is kept or allocated for it, returns 0, and \<open>MCP_DigestFinal\<close> then writes the
  chaining of the compression function over the whole blocks of message and padding, whatever the lengths of the pieces, with the
  padding a one bit, zeros and the length in bits; at most one block waits between the calls. Of the engine it takes that it chains blocks from the value in
  the descriptor, of the memory that the buffers are apart.
\<close>

theorem mcp_digest_stream:
  assumes "engine_hashes E cf" "md = aes_h_md \<or> md = sha1_md"
    and "md_places (md_of md) T N H" "\<forall>x\<in>set ps. piece_ok (md_of md) T N H x"
    and "disjoint_ranges out (digest_sz md) H (digest_sz md)" "length (concat (map snd ps)) < 2 ^ 32"
    and "MCP_DigestInit (Some \<lparr>tmp = None, byte_count = n, hash_at = H\<rparr>) (Some (buff_at T N 128 0)) MCP_MD_CTX_init md s = (r, ctx, s1)"
  shows "r = 0 \<and> (\<exists>ctx2 s2 ctx3 s3. dgst_pieces E ps ctx s1 = Some (ctx2, s2) \<and>
    MCP_DigestFinal E ctx2 out s2 = Some (0, digest_sz md, ctx3, s3) \<and>
    load (m_mem s3) out (digest_sz md) = hash_run (cf (md_algo md)) (a_block (md_of md)) (a_init (md_of md))
      (concat (map snd ps) @ md_padding (a_block (md_of md)) (length (concat (map snd ps)))))"
  using assms aes_h_md.stream [OF assms(1), of T N H ps out n s r ctx s1] sha1_md.stream [OF assms(1), of T N H ps out n s r ctx s1]
  by (auto simp: md_algo_def aes_h_md.md_laws sha1_md.md_laws)

definition sample_cf :: "u32 \<Rightarrow> u8 list \<Rightarrow> u8 list \<Rightarrow> u8 list" where
  "sample_cf fl h b = map (\<lambda>x. x + sum_list b) h"

definition sample_hash :: "mcp_desc \<Rightarrow> u8 list \<Rightarrow> u8 list" where
  "sample_hash d xs =
     (if d_flags d AND 0x1F = MCP_ALGO_AES_H then hash_run (sample_cf MCP_ALGO_AES_H) 16 (concat (map be32 (d_iv d))) xs
      else hash_run (sample_cf MCP_ALGO_SHA_1) 64 (concat (map be32 (take 5 (d_key d)))) xs)"

definition sample_hasher :: engine where
  "sample_hasher ds m = ((\<lambda>_. (0, MCP_RING_EMPTY)), fold (\<lambda>d m. store (d_out d) (sample_hash d (load m (d_in d) (d_len d))) m) ds m)"

lemma sample_hasher_hashes: "engine_hashes sample_hasher sample_cf"
proof -
  have "engine_runs sample_hasher sample_hash" by (simp add: engine_runs_def sample_hasher_def finishes_def) (rule exI [of _ 0], simp)
  then show ?thesis unfolding engine_hashes_def by (auto simp: sample_cf_def sample_hash_def)
qed

theorem mcp_digest_stream_witness:
  "\<exists>ctx s1 ctx2 s2 ctx3 s3.
     MCP_DigestInit (Some \<lparr>tmp = None, byte_count = 7, hash_at = 5000\<rparr>) (Some (buff_at 1000 320 128 0)) MCP_MD_CTX_init sha1_md sample_mcp = (0, ctx, s1) \<and>
     dgst_pieces sample_hasher [(Some (buff_at 2000 258 128 0), [1, 2]), (Some (buff_at 3000 356 128 0), replicate 100 9)] ctx s1 = Some (ctx2, s2) \<and>
     MCP_DigestFinal sample_hasher ctx2 6000 s2 = Some (0, 20, ctx3, s3) \<and>
     load (m_mem s3) 6000 20 = hash_run (sample_cf MCP_ALGO_SHA_1) 64 (a_init sha1_alg) (1 # 2 # replicate 100 9 @ md_padding 64 102)"
proof -
  obtain r ctx s1 where i: "MCP_DigestInit (Some \<lparr>tmp = None, byte_count = 7, hash_at = 5000\<rparr>) (Some (buff_at 1000 320 128 0)) MCP_MD_CTX_init sha1_md sample_mcp =
    (r, ctx, s1)" by (metis prod_cases3)
  have a: "a_block sha1_alg = 64" "a_size sha1_alg = 20" "md_of sha1_md = sha1_alg" "digest_sz sha1_md = 20" "md_algo sha1_md = MCP_ALGO_SHA_1"
    by (simp_all add: sha1_alg_def md_of_def digest_sz_def md_algo_def)
  have p: "piece_ok sha1_alg 1000 320 5000 (Some (buff_at 2000 258 128 0), [1, 2])"
    "piece_ok sha1_alg 1000 320 5000 (Some (buff_at 3000 356 128 0), replicate 100 9)"
    by (auto simp: piece_ok_def apart_def disjoint_ranges_def a intro: exI [of _ 2000] exI [of _ 3000])
  show ?thesis
    using mcp_digest_stream [OF sample_hasher_hashes disjI2 [OF refl] _ _ _ _ i,
        of "[(Some (buff_at 2000 258 128 0), [1, 2]), (Some (buff_at 3000 356 128 0), replicate 100 9)]" 6000] i p
    by (simp add: a md_places_def disjoint_ranges_def)
qed

end
