(* ===== verification/Kfifo.thy ===== *)
theory Kfifo
  imports Fifo
begin

text \<open>
  The kernel's FIFO (\<open>kernel/kfifo.c\<close>, \<open>include/linux/kfifo.h\<close>), in which the infrared and the front panel drivers queue what
  their interrupts deliver. The two indices run freely through 32 bits and are cut to the size of the buffer, a power of two. The
  bytes are in memory. The spinlock makes each locked call one step. The contract is the locale
  \<open>stream_fifo\<close>: a put takes as much as fits.
\<close>

unbundle bit_operations_syntax

section \<open>The contract\<close>

text \<open>Truncations compose: what does not fit is cut off at the end.\<close>

lemma take_append_take: "take n (take n (xs @ ys) @ zs) = take n (xs @ ys @ zs)"
proof (cases "n \<le> length (xs @ ys)")
  case True then show ?thesis by (simp add: min_def)
qed simp

text \<open>A run of a client: the bytes the puts say they took, the bytes the gets gave, and the final state.\<close>

fun stream_run ::
  "(u8 list \<Rightarrow> 's \<Rightarrow> nat \<times> 's) \<Rightarrow> (nat \<Rightarrow> 's \<Rightarrow> u8 list \<times> 's) \<Rightarrow> fifo_op list \<Rightarrow> 's \<Rightarrow> u8 list \<times> u8 list \<times> 's" where
  "stream_run put get [] s = ([], [], s)"
| "stream_run put get (Put bs # ops) s =
     (let (n, s) = put bs s; (ws, rs, s) = stream_run put get ops s in (take n bs @ ws, rs, s))"
| "stream_run put get (Get n # ops) s =
     (let (xs, s) = get n s; (ws, rs, s) = stream_run put get ops s in (ws, xs @ rs, s))"

definition op_lengths :: "fifo_op list \<Rightarrow> bool" where
  "op_lengths ops \<longleftrightarrow> list_all (\<lambda>op. case op of Put bs \<Rightarrow> length bs < 2 ^ 32 | Get n \<Rightarrow> n < 2 ^ 32) ops"

locale stream_fifo =
  fixes fifo_inv :: "'s \<Rightarrow> bool"
    and contents :: "'s \<Rightarrow> u8 list"
    and cap :: nat
    and put :: "u8 list \<Rightarrow> 's \<Rightarrow> nat \<times> 's"
    and get :: "nat \<Rightarrow> 's \<Rightarrow> u8 list \<times> 's"
  assumes contents_bound: "fifo_inv s \<Longrightarrow> length (contents s) \<le> cap"
    and put_inv: "fifo_inv s \<Longrightarrow> length bs < 2 ^ 32 \<Longrightarrow> fifo_inv (snd (put bs s))"
    and put_count: "fifo_inv s \<Longrightarrow> length bs < 2 ^ 32 \<Longrightarrow> fst (put bs s) = min (length bs) (cap - length (contents s))"
    and put_contents: "fifo_inv s \<Longrightarrow> length bs < 2 ^ 32 \<Longrightarrow> contents (snd (put bs s)) = take cap (contents s @ bs)"
    and get_inv: "fifo_inv s \<Longrightarrow> n < 2 ^ 32 \<Longrightarrow> fifo_inv (snd (get n s))"
    and get_data: "fifo_inv s \<Longrightarrow> n < 2 ^ 32 \<Longrightarrow> fst (get n s) = take n (contents s)"
    and get_contents: "fifo_inv s \<Longrightarrow> n < 2 ^ 32 \<Longrightarrow> contents (snd (get n s)) = drop n (contents s)"
begin

lemma run_stream:
  assumes "fifo_inv s" "op_lengths ops" "stream_run put get ops s = (ws, rs, s')"
  shows "contents s @ ws = rs @ contents s' \<and> fifo_inv s'"
  using assms
proof (induction ops arbitrary: s ws rs s')
  case (Cons op ops)
  show ?case
  proof (cases op)
    case (Put bs)
    have len: "length bs < 2 ^ 32" "op_lengths ops" using Cons.prems(2) by (simp_all add: op_lengths_def Put)
    obtain n s1 where s1: "put bs s = (n, s1)" by force
    obtain ws1 rs1 s2 where r: "stream_run put get ops s1 = (ws1, rs1, s2)" by (metis prod_cases3)
    have "n = min (length bs) (cap - length (contents s))" using put_count [OF Cons.prems(1) len(1)] s1 by simp
    then have "contents s @ take n bs = take cap (contents s @ bs)" using contents_bound [OF Cons.prems(1)] by (simp add: min_def)
    moreover have "fifo_inv s1" "contents s1 = take cap (contents s @ bs)"
      using put_inv [OF Cons.prems(1) len(1)] put_contents [OF Cons.prems(1) len(1)] s1 by simp_all
    ultimately show ?thesis using Cons.IH [OF _ len(2) r] Cons.prems(3) s1 r by (auto simp: Put append_assoc [symmetric] simp del: append_assoc)
  next
    case (Get n)
    have len: "n < 2 ^ 32" "op_lengths ops" using Cons.prems(2) by (simp_all add: op_lengths_def Get)
    obtain xs s1 where s1: "get n s = (xs, s1)" by force
    obtain ws1 rs1 s2 where r: "stream_run put get ops s1 = (ws1, rs1, s2)" by (metis prod_cases3)
    have "fifo_inv s1" "contents s = xs @ contents s1"
      using get_inv [OF Cons.prems(1) len(1)] get_contents [OF Cons.prems(1) len(1)] get_data [OF Cons.prems(1) len(1)] s1 by simp_all
    then show ?thesis using Cons.IH [OF _ len(2) r] Cons.prems(3) s1 r by (auto simp: Get)
  qed
qed simp

text \<open>A producer that ignores the results: what does not fit is lost at the end, and nothing else.\<close>

definition puts :: "u8 list list \<Rightarrow> 's \<Rightarrow> 's" where
  "puts bss s = fold (\<lambda>bs s. snd (put bs s)) bss s"

lemma puts_simps [simp]: "puts [] s = s" "puts (bs # bss) s = puts bss (snd (put bs s))"
  by (simp_all add: puts_def)

lemma puts_contents:
  assumes "fifo_inv s" "\<forall>bs \<in> set bss. length bs < 2 ^ 32"
  shows "fifo_inv (puts bss s) \<and> contents (puts bss s) = take cap (contents s @ concat bss)"
  using assms
proof (induction bss arbitrary: s)
  case Nil
  then show ?case using contents_bound by simp
next
  case (Cons bs bss)
  then have "fifo_inv (snd (put bs s))" "contents (snd (put bs s)) = take cap (contents s @ bs)"
    using put_inv put_contents by simp_all
  then show ?case using Cons by (simp add: take_append_take del: take_append)
qed

text \<open>A consumer that takes pieces of the same length one after the other.\<close>

fun gets :: "nat \<Rightarrow> nat \<Rightarrow> 's \<Rightarrow> u8 list list \<times> 's" where
  "gets u 0 s = ([], s)"
| "gets u (Suc n) s = (let (bs, s) = get u s; (bss, s) = gets u n s in (bs # bss, s))"

lemma gets_data:
  assumes "fifo_inv s" "u < 2 ^ 32" "n * u \<le> length (contents s)"
  shows "fifo_inv (snd (gets u n s))" "concat (fst (gets u n s)) = take (n * u) (contents s)"
    "contents (snd (gets u n s)) = drop (n * u) (contents s)" "list_all (\<lambda>bs. length bs = u) (fst (gets u n s))"
    "length (fst (gets u n s)) = n"
proof -
  have "fifo_inv (snd (gets u n s)) \<and> concat (fst (gets u n s)) = take (n * u) (contents s) \<and>
    contents (snd (gets u n s)) = drop (n * u) (contents s) \<and> list_all (\<lambda>bs. length bs = u) (fst (gets u n s)) \<and> length (fst (gets u n s)) = n"
    using assms
  proof (induction n arbitrary: s)
    case (Suc n)
    have g: "fifo_inv (snd (get u s))" "fst (get u s) = take u (contents s)" "contents (snd (get u s)) = drop u (contents s)"
      using Suc.prems get_inv get_data get_contents by simp_all
    have "n * u \<le> length (contents (snd (get u s)))" using Suc.prems(3) g(3) by simp
    note IH = Suc.IH [OF g(1) Suc.prems(2) this]
    then show ?case using Suc.prems(3) g by (auto simp: case_prod_beta take_add add.commute)
  qed simp
  then show "fifo_inv (snd (gets u n s))" "concat (fst (gets u n s)) = take (n * u) (contents s)"
    "contents (snd (gets u n s)) = drop (n * u) (contents s)" "list_all (\<lambda>bs. length bs = u) (fst (gets u n s))"
    "length (fst (gets u n s)) = n" by simp_all
qed

end

section \<open>The FIFO\<close>

record kfifo =
  kf_buffer :: nat
  kf_size :: u32
  kf_in :: u32
  kf_out :: u32

type_synonym kf_state = "kfifo \<times> mem"

text \<open>\<open>kfifo_put_nolock\<close> is \<open>__kfifo_put\<close> with the bytes behind the caller's pointer, and \<open>kfifo_get_nolock\<close> is \<open>__kfifo_get\<close>, which gives the bytes copied there.\<close>

definition kfifo_put_nolock :: "u8 list \<Rightarrow> kf_state \<Rightarrow> nat \<times> kf_state" where
  "kfifo_put_nolock bs s =
     (let (f, m) = s;
          len = min (of_nat (length bs)) (kf_size f - kf_in f + kf_out f);
          off = kf_in f AND (kf_size f - 1);
          l = min len (kf_size f - off);
          m = store (kf_buffer f + unat off) (take (unat l) bs) m;
          m = store (kf_buffer f) (take (unat (len - l)) (drop (unat l) bs)) m
      in (unat len, f\<lparr>kf_in := kf_in f + len\<rparr>, m))"

definition kfifo_get_nolock :: "nat \<Rightarrow> kf_state \<Rightarrow> u8 list \<times> kf_state" where
  "kfifo_get_nolock n s =
     (let (f, m) = s;
          len = min (of_nat n) (kf_in f - kf_out f);
          off = kf_out f AND (kf_size f - 1);
          l = min len (kf_size f - off)
      in (load m (kf_buffer f + unat off) (unat l) @ load m (kf_buffer f) (unat (len - l)), f\<lparr>kf_out := kf_out f + len\<rparr>, m))"

definition kfifo_reset :: "kf_state \<Rightarrow> kf_state" where
  "kfifo_reset s = (let (f, m) = s in (f\<lparr>kf_in := 0, kf_out := 0\<rparr>, m))"

definition kfifo_len :: "kf_state \<Rightarrow> nat" where
  "kfifo_len s = unat (kf_in (fst s) - kf_out (fst s))"

definition kfifo_put :: "u8 list \<Rightarrow> kf_state \<Rightarrow> nat \<times> kf_state" where
  "kfifo_put bs s = kfifo_put_nolock bs s"

definition kfifo_get :: "nat \<Rightarrow> kf_state \<Rightarrow> u8 list \<times> kf_state" where
  "kfifo_get n s =
     (let (bs, s) = kfifo_get_nolock n s
      in (bs, if kf_in (fst s) = kf_out (fst s) then kfifo_reset s else s))"

text \<open>
  Allocation: \<open>live\<close> are the addresses that are allocated, and the results of \<open>kmalloc\<close> for the buffer and the structure are arguments.
  \<open>Inl\<close> is an error pointer, \<open>None\<close> is \<open>BUG\<close>. The result names the structure's address.
\<close>

definition fls :: "u32 \<Rightarrow> nat" where
  "fls w = (if w = 0 then 0 else Suc (Max (set (filter (bit w) [0..<32]))))"

definition roundup_pow_of_two :: "u32 \<Rightarrow> u32" where
  "roundup_pow_of_two x = push_bit (fls (x - 1)) 1"

definition kfifo_init :: "nat option \<Rightarrow> nat \<Rightarrow> u32 \<Rightarrow> nat list \<Rightarrow> ((int + nat \<times> kfifo) \<times> nat list) option" where
  "kfifo_init a buffer n live =
     (if n AND (n - 1) \<noteq> 0 then None
      else Some (case a of
          None \<Rightarrow> (Inl (- ENOMEM), live)
        | Some p \<Rightarrow> (Inr (p, \<lparr>kf_buffer = buffer, kf_size = n, kf_in = 0, kf_out = 0\<rparr>), p # live)))"

definition kfifo_alloc :: "nat option \<Rightarrow> nat option \<Rightarrow> u32 \<Rightarrow> nat list \<Rightarrow> ((int + nat \<times> kfifo) \<times> nat list) option" where
  "kfifo_alloc ab a n live =
     (if n AND (n - 1) \<noteq> 0 \<and> n > 0x80000000 then None
      else
        let n = (if n AND (n - 1) \<noteq> 0 then roundup_pow_of_two n else n) in
        case ab of
          None \<Rightarrow> Some (Inl (- ENOMEM), live)
        | Some buffer \<Rightarrow>
            map_option (\<lambda>(r, live). (r, case r of Inl e \<Rightarrow> remove1 buffer live | Inr f \<Rightarrow> live))
              (kfifo_init a buffer n (buffer # live)))"

definition kfifo_free :: "nat \<times> kfifo \<Rightarrow> nat list \<Rightarrow> nat list" where
  "kfifo_free f live = remove1 (fst f) (remove1 (kf_buffer (snd f)) live)"

section \<open>What the FIFO holds\<close>

definition kfifo_contents :: "kf_state \<Rightarrow> u8 list" where
  "kfifo_contents s =
     (let n = unat (kf_size (fst s)) in ring_load n (kf_buffer (fst s)) (unat (kf_out (fst s)) mod n) (kfifo_len s) (snd s))"

text \<open>A FIFO of \<open>2 ^ k\<close> bytes at address \<open>base\<close>.\<close>

definition kfifo_ok :: "nat \<Rightarrow> nat \<Rightarrow> kf_state \<Rightarrow> bool" where
  "kfifo_ok base k s \<longleftrightarrow> k < 32 \<and> kf_buffer (fst s) = base \<and> kf_size (fst s) = 2 ^ k \<and> kfifo_len s \<le> 2 ^ k"

lemma length_kfifo_contents [simp]: "length (kfifo_contents s) = kfifo_len s"
  by (simp add: kfifo_contents_def Let_def)

lemma size_mask:
  assumes "k < 32"
  shows "unat (2 ^ k :: u32) = 2 ^ k" "w AND (2 ^ k - 1) = take_bit k (w :: u32)" "unat (take_bit k w) = unat w mod 2 ^ k"
proof -
  have "(2::nat) ^ k < 2 ^ 32" using assms by (intro power_strict_increasing) auto
  then have "unat (of_nat (2 ^ k) :: u32) = 2 ^ k" by (simp add: unat_of_nat take_bit_nat_eq_self del: of_nat_power)
  then show "unat (2 ^ k :: u32) = 2 ^ k" by simp
  show "w AND (2 ^ k - 1) = take_bit k w" by (simp add: take_bit_eq_mask mask_eq_exp_minus_1)
  show "unat (take_bit k w) = unat w mod 2 ^ k" by (simp add: unsigned_take_bit_eq flip: take_bit_eq_mod)
qed

text \<open>The indices may pass \<open>2 ^ 32\<close>: their positions in the buffer go on, since the size divides it.\<close>

lemma index_add:
  assumes "k < 32" shows "unat (x + y :: u32) mod 2 ^ k = (unat x mod 2 ^ k + unat y) mod 2 ^ k"
proof -
  have "(2::nat) ^ k dvd 2 ^ 32" using assms by (intro le_imp_power_dvd) simp
  moreover have "unat (x + y) = (unat x + unat y) mod 2 ^ 32"
    by (simp add: unat_word_ariths)
  ultimately show ?thesis by (simp add: mod_mod_cancel mod_add_left_eq)
qed

lemma unat_min: "unat (min x y) = min (unat x) (unat (y :: u32))"
  by (simp add: min_def word_le_nat_alt)

text \<open>The numbers \<open>__kfifo_put\<close> and \<open>__kfifo_get\<close> compute.\<close>

lemma kfifo_numbers:
  assumes "kfifo_ok base k (f, m)"
  shows "unat (kf_size f - kf_in f + kf_out f) = 2 ^ k - kfifo_len (f, m)"
    "unat (kf_size f - (i AND (kf_size f - 1))) = 2 ^ k - unat i mod 2 ^ k"
    "unat (i AND (kf_size f - 1)) = unat i mod 2 ^ k"
    "unat (kf_in f) mod 2 ^ k = (unat (kf_out f) mod 2 ^ k + kfifo_len (f, m)) mod 2 ^ k"
proof -
  have k: "k < 32" "kf_size f = 2 ^ k" "kfifo_len (f, m) \<le> 2 ^ k" using assms by (simp_all add: kfifo_ok_def)
  have "kf_size f - kf_in f + kf_out f = kf_size f - (kf_in f - kf_out f)" by simp
  moreover have "kf_in f - kf_out f \<le> kf_size f" using k by (simp add: word_le_nat_alt size_mask kfifo_len_def)
  ultimately show "unat (kf_size f - kf_in f + kf_out f) = 2 ^ k - kfifo_len (f, m)"
    using k unat_sub [of "kf_in f - kf_out f" "kf_size f"] by (simp only: size_mask kfifo_len_def fst_conv)
  show off: "unat (i AND (kf_size f - 1)) = unat i mod 2 ^ k" for i using k by (simp add: size_mask)
  then have "i AND (kf_size f - 1) \<le> kf_size f" using k by (simp add: word_le_nat_alt size_mask less_imp_le)
  then show "unat (kf_size f - (i AND (kf_size f - 1))) = 2 ^ k - unat i mod 2 ^ k"
    using k off by (simp add: unat_sub size_mask)
  show "unat (kf_in f) mod 2 ^ k = (unat (kf_out f) mod 2 ^ k + kfifo_len (f, m)) mod 2 ^ k"
    using index_add [OF k(1), of "kf_out f" "kf_in f - kf_out f"] by (simp add: kfifo_len_def)
qed

text \<open>Copying in two pieces is copying round the end of the ring.\<close>

lemma ring_store_pieces:
  assumes "p < n" "length bs \<le> n"
  shows "store base (drop (min (length bs) (n - p)) bs) (store (base + p) (take (min (length bs) (n - p)) bs) m) = ring_store n base p bs m"
proof (cases "n \<le> p + length bs")
  case True
  then show ?thesis using assms by (simp add: ring_store_wrap min_absorb2)
next
  case False
  then show ?thesis using assms by (simp add: ring_store_flat min_absorb1)
qed

lemma ring_load_pieces:
  assumes "p < n" "j \<le> n"
  shows "load m (base + p) (min j (n - p)) @ load m base (j - min j (n - p)) = ring_load n base p j m"
proof (cases "n \<le> p + j")
  case True
  then show ?thesis using assms by (simp add: ring_load_wrap min_absorb2)
next
  case False
  then show ?thesis using assms by (simp add: ring_load_flat min_absorb1)
qed

lemma kfifo_put_run:
  assumes ok: "kfifo_ok base k (f, m)" and len: "length bs < 2 ^ 32"
  defines "n \<equiv> min (length bs) (2 ^ k - kfifo_len (f, m))"
  shows "kfifo_put_nolock bs (f, m) =
    (n, f\<lparr>kf_in := kf_in f + of_nat n\<rparr>, ring_store (2 ^ k) base (unat (kf_in f) mod 2 ^ k) (take n bs) m)"
proof -
  let ?len = "min (of_nat (length bs)) (kf_size f - kf_in f + kf_out f)"
  let ?off = "kf_in f AND (kf_size f - 1)" and ?p = "unat (kf_in f) mod 2 ^ k"
  have b: "kf_buffer f = base" using ok by (simp add: kfifo_ok_def)
  have l: "unat ?len = n" using len kfifo_numbers(1) [OF ok]
    by (simp add: unat_min n_def unat_of_nat take_bit_nat_eq_self)
  then have w: "?len = of_nat n" by (metis of_nat_unat ucast_id)
  have q: "unat (min ?len (kf_size f - ?off)) = min n (2 ^ k - ?p)" by (subst unat_min) (simp only: l kfifo_numbers(2) [OF ok])
  have r: "unat (?len - min ?len (kf_size f - ?off)) = n - min n (2 ^ k - ?p)"
    by (subst unat_sub) (simp_all only: l q min.cobounded1)
  have nb: "n \<le> length bs" "n \<le> 2 ^ k" "length (take n bs) = n" by (simp_all add: n_def)
  have "store base (take (n - min n (2 ^ k - ?p)) (drop (min n (2 ^ k - ?p)) bs)) (store (base + ?p) (take (min n (2 ^ k - ?p)) bs) m) =
      ring_store (2 ^ k) base ?p (take n bs) m"
    using ring_store_pieces [of ?p "2 ^ k" "take n bs" base m] nb by (simp add: drop_take min_absorb2)
  then show ?thesis
    unfolding kfifo_put_nolock_def Let_def by (simp only: prod.case w l [unfolded w] q [unfolded w] r [unfolded w] b kfifo_numbers(3) [OF ok])
qed

lemma kfifo_get_run:
  assumes ok: "kfifo_ok base k (f, m)" and len: "j < 2 ^ 32"
  defines "n \<equiv> min j (kfifo_len (f, m))"
  shows "kfifo_get_nolock j (f, m) =
    (ring_load (2 ^ k) base (unat (kf_out f) mod 2 ^ k) n m, f\<lparr>kf_out := kf_out f + of_nat n\<rparr>, m)"
proof -
  let ?len = "min (of_nat j) (kf_in f - kf_out f)"
  let ?off = "kf_out f AND (kf_size f - 1)" and ?p = "unat (kf_out f) mod 2 ^ k"
  have b: "kf_buffer f = base" "kfifo_len (f, m) \<le> 2 ^ k" using ok by (simp_all add: kfifo_ok_def)
  have l: "unat ?len = n" using len by (simp add: unat_min n_def unat_of_nat take_bit_nat_eq_self kfifo_len_def)
  then have w: "?len = of_nat n" by (metis of_nat_unat ucast_id)
  have q: "unat (min ?len (kf_size f - ?off)) = min n (2 ^ k - ?p)" by (subst unat_min) (simp only: l kfifo_numbers(2) [OF ok])
  have r: "unat (?len - min ?len (kf_size f - ?off)) = n - min n (2 ^ k - ?p)"
    by (subst unat_sub) (simp_all only: l q min.cobounded1)
  have "load m (base + ?p) (min n (2 ^ k - ?p)) @ load m base (n - min n (2 ^ k - ?p)) = ring_load (2 ^ k) base ?p n m"
    using b(2) by (intro ring_load_pieces) (simp_all add: n_def)
  then show ?thesis
    unfolding kfifo_get_nolock_def Let_def by (simp only: prod.case w l [unfolded w] q [unfolded w] r [unfolded w] b kfifo_numbers(3) [OF ok])
qed

text \<open>Both calls in terms of the contents.\<close>

lemma kfifo_put_ok:
  assumes ok: "kfifo_ok base k s" and len: "length bs < 2 ^ 32"
  shows "kfifo_ok base k (snd (kfifo_put_nolock bs s))" "fst (kfifo_put_nolock bs s) = min (length bs) (2 ^ k - kfifo_len s)"
    "kfifo_contents (snd (kfifo_put_nolock bs s)) = take (2 ^ k) (kfifo_contents s @ bs)"
proof -
  obtain f m where s: "s = (f, m)" by force
  define n where "n = min (length bs) (2 ^ k - kfifo_len (f, m))"
  note run = kfifo_put_run [OF ok [unfolded s] len, folded n_def]
  have k: "k < 32" "kf_size f = 2 ^ k" "kf_buffer f = base" "kfifo_len (f, m) \<le> 2 ^ k" using ok s by (simp_all add: kfifo_ok_def)
  have "(2::nat) ^ k < 2 ^ 32" using k(1) by (intro power_strict_increasing) auto
  then have small: "n < 2 ^ 32" "kfifo_len (f, m) + n < 2 ^ 32" using k(4) by (auto simp: n_def min_def)
  have "kfifo_len (f\<lparr>kf_in := kf_in f + of_nat n\<rparr>, m') = unat (kf_in f - kf_out f + of_nat n)" for m' by (simp add: kfifo_len_def algebra_simps)
  moreover have "unat (kf_in f - kf_out f + of_nat n) = kfifo_len (f, m) + n"
    using small by (simp add: kfifo_len_def unat_word_ariths unat_of_nat take_bit_nat_eq_self)
  ultimately have l: "kfifo_len (f\<lparr>kf_in := kf_in f + of_nat n\<rparr>, m') = kfifo_len (f, m) + n" for m' by simp
  then show "kfifo_ok base k (snd (kfifo_put_nolock bs s))"
    using run k s by (simp add: kfifo_ok_def) (simp add: n_def)
  show "fst (kfifo_put_nolock bs s) = min (length bs) (2 ^ k - kfifo_len s)" using run s by (simp add: n_def)
  have p: "unat (kf_in f) mod 2 ^ k = (unat (kf_out f) mod 2 ^ k + kfifo_len (f, m)) mod 2 ^ k"
    by (rule kfifo_numbers(4) [OF ok [unfolded s]])
  have nb: "length (take n bs) = n" "kfifo_len (f, m) + n + 0 \<le> 2 ^ k" using k(4) by (simp_all add: n_def)
  have "ring_load (2 ^ k) base (unat (kf_out f) mod 2 ^ k) (kfifo_len (f, m) + n)
      (ring_store (2 ^ k) base (unat (kf_in f) mod 2 ^ k) (take n bs) m) =
    ring_load (2 ^ k) base (unat (kf_out f) mod 2 ^ k) (kfifo_len (f, m)) m @ take n bs"
    using ring_load_store_append [of "unat (kf_out f) mod 2 ^ k" "2 ^ k" "kfifo_len (f, m)" "take n bs" 0 base m] nb p by simp
  moreover have "take n bs = take (2 ^ k - kfifo_len (f, m)) bs" by (simp add: n_def min_def)
  ultimately show "kfifo_contents (snd (kfifo_put_nolock bs s)) = take (2 ^ k) (kfifo_contents s @ bs)"
    using run s k by (simp add: kfifo_contents_def Let_def l size_mask)
qed

lemma kfifo_get_ok:
  assumes ok: "kfifo_ok base k s" and len: "j < 2 ^ 32"
  shows "kfifo_ok base k (snd (kfifo_get_nolock j s))" "fst (kfifo_get_nolock j s) = take j (kfifo_contents s)"
    "kfifo_contents (snd (kfifo_get_nolock j s)) = drop j (kfifo_contents s)"
proof -
  obtain f m where s: "s = (f, m)" by force
  define n where "n = min j (kfifo_len (f, m))"
  note run = kfifo_get_run [OF ok [unfolded s] len, folded n_def]
  have k: "k < 32" "kf_size f = 2 ^ k" "kf_buffer f = base" "kfifo_len (f, m) \<le> 2 ^ k" using ok s by (simp_all add: kfifo_ok_def)
  have n: "unat (of_nat n :: u32) = n" using len by (auto simp: n_def unat_of_nat min_def intro!: take_bit_nat_eq_self)
  have "kfifo_len (f\<lparr>kf_out := kf_out f + of_nat n\<rparr>, m) = unat (kf_in f - kf_out f - of_nat n)" by (simp add: kfifo_len_def algebra_simps)
  moreover have "unat (kf_in f - kf_out f - of_nat n) = kfifo_len (f, m) - n"
    using n by (subst unat_sub) (auto simp: word_le_nat_alt kfifo_len_def n_def)
  ultimately have l: "kfifo_len (f\<lparr>kf_out := kf_out f + of_nat n\<rparr>, m) = kfifo_len (f, m) - n" by simp
  then show "kfifo_ok base k (snd (kfifo_get_nolock j s))" using run k s by (simp add: kfifo_ok_def)
  have c: "kfifo_contents s = ring_load (2 ^ k) base (unat (kf_out f) mod 2 ^ k) (kfifo_len (f, m)) m"
    using s k by (simp add: kfifo_contents_def Let_def size_mask)
  have nl: "n \<le> kfifo_len (f, m)" by (simp add: n_def)
  have t: "take j (kfifo_contents s) = take n (kfifo_contents s)" "drop j (kfifo_contents s) = drop n (kfifo_contents s)"
    using s by (simp_all add: n_def min_def)
  show "fst (kfifo_get_nolock j s) = take j (kfifo_contents s)" using run s unfolding t(1) unfolding c by (simp add: take_ring_load nl)
  have "unat (kf_out f + of_nat n) mod 2 ^ k = (unat (kf_out f) mod 2 ^ k + n) mod 2 ^ k" using index_add [OF k(1), of "kf_out f" "of_nat n"] n by simp
  then have "kfifo_contents (snd (kfifo_get_nolock j s)) = ring_load (2 ^ k) base ((unat (kf_out f) mod 2 ^ k + n) mod 2 ^ k) (kfifo_len (f, m) - n) m"
    using run s k by (simp add: kfifo_contents_def Let_def l size_mask)
  then show "kfifo_contents (snd (kfifo_get_nolock j s)) = drop j (kfifo_contents s)"
    unfolding t(2) unfolding c by (simp add: drop_ring_load nl)
qed

lemma kfifo_reset_ok:
  assumes "kfifo_ok base k s" shows "kfifo_ok base k (kfifo_reset s)" "kfifo_contents (kfifo_reset s) = []" "kfifo_len (kfifo_reset s) = 0"
  using assms by (auto simp: kfifo_ok_def kfifo_reset_def kfifo_len_def kfifo_contents_def case_prod_beta Let_def)

lemma kfifo_empty: "kfifo_contents s = [] \<longleftrightarrow> kf_in (fst s) = kf_out (fst s)"
proof -
  have "kfifo_contents s = [] \<longleftrightarrow> unat (kf_in (fst s) - kf_out (fst s)) = 0"
    by (metis kfifo_len_def length_0_conv length_kfifo_contents)
  then show ?thesis by (simp add: unat_eq_zero)
qed

interpretation kf: stream_fifo "kfifo_ok base k" kfifo_contents "2 ^ k" kfifo_put_nolock kfifo_get_nolock for base k
  using kfifo_put_ok kfifo_get_ok by unfold_locales (auto simp: kfifo_ok_def)

interpretation kfl: stream_fifo "kfifo_ok base k" kfifo_contents "2 ^ k" kfifo_put kfifo_get for base k
proof
  fix s bs n assume s: "kfifo_ok base k s"
  show "length (kfifo_contents s) \<le> 2 ^ k" using kf.contents_bound [OF s] .
  show "length bs < 2 ^ 32 \<Longrightarrow> kfifo_ok base k (snd (kfifo_put bs s))"
    "length bs < 2 ^ 32 \<Longrightarrow> fst (kfifo_put bs s) = min (length bs) (2 ^ k - length (kfifo_contents s))"
    "length bs < 2 ^ 32 \<Longrightarrow> kfifo_contents (snd (kfifo_put bs s)) = take (2 ^ k) (kfifo_contents s @ bs)"
    using kfifo_put_ok [OF s] by (simp_all add: kfifo_put_def)
  show "kfifo_ok base k (snd (kfifo_get n s))" "fst (kfifo_get n s) = take n (kfifo_contents s)"
    "kfifo_contents (snd (kfifo_get n s)) = drop n (kfifo_contents s)" if n: "n < 2 ^ 32"
  proof -
    note g = kfifo_get_ok [OF s n]
    show "kfifo_ok base k (snd (kfifo_get n s))" "fst (kfifo_get n s) = take n (kfifo_contents s)"
      using g kfifo_reset_ok(1) [OF g(1)] by (simp_all add: kfifo_get_def case_prod_beta Let_def)
    show "kfifo_contents (snd (kfifo_get n s)) = drop n (kfifo_contents s)"
      using g kfifo_reset_ok(2) [OF g(1)] kfifo_empty [of "snd (kfifo_get_nolock n s)"] by (simp add: kfifo_get_def case_prod_beta Let_def)
  qed
qed

section \<open>Allocation\<close>

lemma bit_exp_le: "bit w j \<Longrightarrow> 2 ^ j \<le> unat (w :: u32)"
proof (rule ccontr)
  assume b: "bit w j" and "\<not> 2 ^ j \<le> unat w"
  then have "unat w div 2 ^ j = 0" by simp
  moreover have "bit (unat w) j" using b by (simp add: bit_unsigned_iff)
  ultimately show False by (simp add: bit_iff_odd)
qed

lemma fls_bounds:
  assumes "w \<noteq> 0" shows "bit w (fls w - 1)" "unat w < 2 ^ fls w" "fls w \<le> 32" "0 < fls w"
proof -
  let ?S = "set (filter (bit w) [0..<32])"
  have "\<exists>n. bit w n" using assms by (auto simp: bit_eq_iff)
  then have S: "?S \<noteq> {}" using bit_imp_le_length by (fastforce simp: filter_empty_conv)
  then have m: "Max ?S \<in> ?S" by (intro Max_in) auto
  then show "bit w (fls w - 1)" "fls w \<le> 32" "0 < fls w" using assms by (simp_all add: fls_def)
  have "\<not> bit w n" if "fls w \<le> n" for n
  proof
    assume b: "bit w n"
    then have "n \<in> ?S" using bit_imp_le_length by fastforce
    then have "n \<le> Max ?S" by simp
    then show False using that assms by (simp add: fls_def)
  qed
  then have "take_bit (fls w) w = w" by (intro bit_eqI) (metis bit_take_bit_iff not_le)
  then have "take_bit (fls w) (unat w) = unat w" by (metis unsigned_take_bit_eq)
  then show "unat w < 2 ^ fls w" by (metis take_bit_nat_less_exp)
qed

lemma pow2_iff:
  assumes "n \<noteq> 0" "n AND (n - 1) = (0 :: u32)" shows "\<exists>k < 32. n = 2 ^ k"
proof (rule ccontr)
  assume not: "\<not> ?thesis"
  let ?j = "fls n - 1"
  have j: "bit n ?j" "unat n < 2 ^ Suc ?j" "?j < 32" using fls_bounds [OF assms(1)] by auto
  have "unat n \<noteq> 2 ^ ?j" using not j(3) size_mask(1) by (metis word_unat_eq_iff)
  then have "2 ^ ?j < unat n" using bit_exp_le [OF j(1)] by simp
  moreover have "unat (n - 1) = unat n - 1" using assms(1) by (simp add: unat_minus_one)
  ultimately have "unat (n - 1) div 2 ^ ?j = 1" using j(2) by (intro div_nat_eqI) auto
  then have "bit (n - 1) ?j" by (metis bit_iff_odd bit_unsigned_iff odd_one)
  then show False using j(1) assms(2) by (metis bit_and_iff bit_0_eq bot_apply bot_bool_def)
qed

text \<open>
  Allocating a FIFO for \<open>n\<close> bytes, up to \<open>2 ^ 31\<close>, gives an empty one whose size is the least power of two that is not below \<open>n\<close>.
\<close>

theorem kfifo_alloc_rounds:
  assumes "0 < n" "n \<le> 0x80000000"
  shows "\<exists>k f. kfifo_alloc (Some buffer) (Some p) n live = Some (Inr (p, f), p # buffer # live) \<and> kfifo_ok buffer k (f, m) \<and>
    kfifo_contents (f, m) = [] \<and> unat n \<le> 2 ^ k \<and> 2 ^ k < 2 * unat n"
proof -
  define k where "k = (if n AND (n - 1) \<noteq> 0 then fls (n - 1) else (SOME k. k < 32 \<and> n = 2 ^ k))"
  have n0: "n \<noteq> 0" using assms(1) by auto
  have u: "unat n \<le> 2 ^ 31" using assms(2) by (simp add: word_le_nat_alt)
  have pred: "unat (n - 1) = unat n - 1" "0 < unat n" using n0 by (simp_all add: unat_minus_one unat_gt_0)
  have "k < 32 \<and> (if n AND (n - 1) \<noteq> 0 then roundup_pow_of_two n else n) = 2 ^ k \<and> unat n \<le> 2 ^ k \<and> 2 ^ k < 2 * unat n"
  proof (cases "n AND (n - 1) = 0")
    case True
    then have k: "k < 32 \<and> n = 2 ^ k" using someI_ex [of "\<lambda>k. k < 32 \<and> n = 2 ^ k"] pow2_iff [OF n0] by (simp add: k_def)
    then have "unat n = 2 ^ k" using size_mask(1) by metis
    then show ?thesis using True k by simp
  next
    case False
    then have "n - 1 \<noteq> 0" by auto
    note b = fls_bounds [OF this]
    have k: "k = fls (n - 1)" using False by (simp add: k_def)
    have lo: "2 ^ (k - 1) \<le> unat n - 1" using bit_exp_le [OF b(1)] pred k by simp
    then have "2 ^ (k - 1) < (2 :: nat) ^ 31" using u pred(2) by linarith
    then have "k - 1 < 31" by (subst (asm) power_strict_increasing_iff) simp_all
    then have "k < 32" using b(4) k by simp
    moreover have "2 ^ k = 2 * (2 :: nat) ^ (k - 1)" using b(4) k by (metis Suc_diff_1 power_Suc)
    moreover have "unat n \<le> 2 ^ k" "2 ^ (k - 1) < unat n" using b(2) [folded k] lo pred by (linarith, linarith)
    ultimately show ?thesis using False k by (simp add: roundup_pow_of_two_def push_bit_eq_mult)
  qed
  note k = this
  then have "(2 :: u32) ^ k AND (2 ^ k - 1) = 0" by (simp add: size_mask take_bit_eq_0_iff)
  then show ?thesis
    using k assms(2) by (intro exI [of _ k] exI [of _ "\<lparr>kf_buffer = buffer, kf_size = 2 ^ k, kf_in = 0, kf_out = 0\<rparr>"])
      (auto simp: kfifo_alloc_def kfifo_init_def kfifo_ok_def kfifo_len_def kfifo_contents_def Let_def)
qed

theorem kfifo_alloc_rounds_witness:
  "\<exists>k f. kfifo_alloc (Some 64) (Some 8) 100 [] = Some (Inr (8, f), [8, 64]) \<and> kfifo_ok 64 k (f, \<lambda>_. 0) \<and>
    kfifo_contents (f, \<lambda>_. 0) = [] \<and> 100 \<le> (2::nat) ^ k \<and> (2::nat) ^ k < 200"
  using kfifo_alloc_rounds [of 100 64 8 "[]" "\<lambda>_. 0"] by simp



end
