(* ===== verification/Chardev.thy ===== *)
theory Chardev
  imports Kfifo "HOL-Library.Monad_Syntax"
begin

text \<open>
  What the character device drivers for the infrared receiver and the front panel share: the fields of an ioctl number, interruptible waiting, the
  registers of the miscellaneous block, and the kernel resources that a module takes when it is loaded, in order.
  Results of the kernel calls are a record of parameters. Registers the hardware changes are inputs, and all writes are recorded.
\<close>

abbreviation (input) EPERM :: int where "EPERM \<equiv> 1"
abbreviation (input) EIO :: int where "EIO \<equiv> 5"
abbreviation (input) ENOIOCTLCMD :: int where "ENOIOCTLCMD \<equiv> 515"

section \<open>Numbers of ioctl commands\<close>

definition IOC :: "u32 \<Rightarrow> u32 \<Rightarrow> u32 \<Rightarrow> u32 \<Rightarrow> u32" where
  "IOC dir type nr sz = push_bit 29 dir OR push_bit 8 type OR nr OR push_bit 16 sz"

definition IOC_DIR :: "u32 \<Rightarrow> u32" where
  "IOC_DIR cmd = drop_bit 29 cmd AND 7"

definition IOC_TYPE :: "u32 \<Rightarrow> u32" where
  "IOC_TYPE cmd = drop_bit 8 cmd AND 0xff"

definition IOC_NR :: "u32 \<Rightarrow> u32" where
  "IOC_NR cmd = cmd AND 0xff"

definition IOC_SIZE :: "u32 \<Rightarrow> u32" where
  "IOC_SIZE cmd = drop_bit 16 cmd AND 0x1fff"

abbreviation (input) IOC_NONE :: u32 where "IOC_NONE \<equiv> 1"
abbreviation (input) IOC_READ :: u32 where "IOC_READ \<equiv> 2"
abbreviation (input) IOC_WRITE :: u32 where "IOC_WRITE \<equiv> 4"

text \<open>
  The checks at the start of an ioctl: \<open>access\<close> is \<open>access_ok\<close> for writing or reading, and \<open>admin\<close> is \<open>capable (CAP_SYS_ADMIN)\<close>. Zero says that the command may run.
\<close>

definition ioctl_checks :: "(bool \<Rightarrow> nat \<Rightarrow> nat \<Rightarrow> bool) \<Rightarrow> bool \<Rightarrow> u32 \<Rightarrow> u32 \<Rightarrow> u32 \<Rightarrow> u32 \<Rightarrow> int" where
  "ioctl_checks access admin magic maxnr cmd arg =
     (if IOC_TYPE cmd \<noteq> magic then - ENOTTY
      else if IOC_NR cmd > maxnr then - ENOTTY
      else
        let err = (if IOC_DIR cmd AND IOC_READ \<noteq> 0 then \<not> access True (unat arg) (unat (IOC_SIZE cmd))
                   else if IOC_DIR cmd AND IOC_WRITE \<noteq> 0 then \<not> access False (unat arg) (unat (IOC_SIZE cmd))
                   else False)
        in if err then - EFAULT else if \<not> admin then - EPERM else 0)"

section \<open>Waiting\<close>

text \<open>
  What ends a sleep: a wake-up, a signal, or a signal because the process is to be frozen, after which the drivers wait again. The state may
  change meanwhile.
\<close>

datatype wake = Woken | Frozen | Signalled

partial_function (option) wait_for :: "('s \<Rightarrow> bool) \<Rightarrow> ('s \<Rightarrow> wake \<times> 's) \<Rightarrow> 's \<Rightarrow> (bool \<times> 's) option" where
  [code]: "wait_for condition sleep s =
     (if condition s then Some (True, s)
      else case sleep s of (w, s) \<Rightarrow> if w = Signalled then Some (False, s) else wait_for condition sleep s)"

lemma wait_for_ready: "condition s \<Longrightarrow> wait_for condition sleep s = Some (True, s)"
  by (subst wait_for.simps) simp

lemma wait_for_true: "wait_for condition sleep s = Some r \<Longrightarrow> fst r \<longrightarrow> condition (snd r)"
  by (rule wait_for.raw_induct [where P = "\<lambda>c sl s r. fst r \<longrightarrow> c (snd r)", rotated]) (auto split: if_splits prod.splits, blast)

section \<open>Registers\<close>

datatype mis_reg = MIS_ISR | MIS_DUMMY | MIS_IR_PSR | MIS_IR_PER | MIS_IR_SF | MIS_IR_DPIR | MIS_IR_CR | MIS_IR_RP | MIS_IR_SR |
  MIS_IR_RAW_CTRL | MIS_IR_RAW_FF | MIS_IR_RAW_SAMPLE_TIME | MIS_IR_RAW_WL | MIS_IR_RAW_DEB |
  MIS_UMSK_ISR_KPADAH | MIS_UMSK_ISR_KPADAL | MIS_UMSK_ISR_KPADDAH | MIS_UMSK_ISR_KPADDAL | MIS_UMSK_ISR_SW |
  MIS_VFD_CTL | MIS_VFD_WRCTL | MIS_VFDO | MIS_VFD_ARDCTL | MIS_VFD_KPADLIE | MIS_VFD_KPADHIE | MIS_VFD_SWIE

record mis_regs =
  mis_val :: "mis_reg \<Rightarrow> u32"
  mis_log :: "(mis_reg \<times> u32) list"

text \<open>Flags are cleared by the hardware when they are written; the other registers keep what was written.\<close>

definition mis_write :: "u32 \<Rightarrow> mis_reg \<Rightarrow> mis_regs \<Rightarrow> mis_regs" where
  "mis_write v r g =
     g\<lparr>mis_val := (if r \<in> {MIS_ISR, MIS_IR_SR, MIS_UMSK_ISR_KPADAH, MIS_UMSK_ISR_KPADAL, MIS_UMSK_ISR_KPADDAH, MIS_UMSK_ISR_KPADDAL, MIS_UMSK_ISR_SW}
          then mis_val g else (mis_val g)(r := v)),
       mis_log := mis_log g @ [(r, v)]\<rparr>"

definition mis_writes :: "(u32 \<times> mis_reg) list \<Rightarrow> mis_regs \<Rightarrow> mis_regs" where
  "mis_writes ws g = fold (\<lambda>(v, r). mis_write v r) ws g"

lemma mis_log_writes: "mis_log (mis_writes ws g) = mis_log g @ map (\<lambda>(v, r). (r, v)) ws"
  unfolding mis_writes_def by (induction ws arbitrary: g) (auto simp: mis_write_def)

section \<open>Resources of a module\<close>

text \<open>
  The platform device is a valid or an error pointer. \<open>live\<close> are the addresses allocated; \<open>cdevs\<close> and \<open>dev_files\<close> the minor numbers that have a
  character device and a device file.
\<close>

record chr_res =
  region :: bool
  live :: "nat list"
  plat_dev :: "bool option"
  driver_on :: bool
  irq_on :: bool
  cdevs :: "nat list"
  dev_files :: "nat list"

record mod_env =
  region_result :: int
  buffer_mem :: "nat option"
  fifo_mem :: "nat option"
  plat_ok :: bool
  driver_result :: int
  irq_result :: int
  cdev_mem :: "nat \<Rightarrow> bool"
  cdev_result :: "nat \<Rightarrow> int"

text \<open>\<open>None\<close>: the pointer is an error pointer.\<close>

definition platform_device_unregister :: "chr_res \<Rightarrow> chr_res option" where
  "platform_device_unregister r = (if plat_dev r = Some False then None else Some (r\<lparr>plat_dev := None\<rparr>))"

text \<open>The end of both modules' error paths: the platform device, the driver, and the device numbers.\<close>

definition undo_devices :: "chr_res \<Rightarrow> chr_res option" where
  "undo_devices r = do { r \<leftarrow> platform_device_unregister r; Some (r\<lparr>driver_on := False, region := False\<rparr>) }"

definition undo_fifo :: "nat \<times> kfifo \<Rightarrow> chr_res \<Rightarrow> chr_res option" where
  "undo_fifo f r = undo_devices (r\<lparr>live := kfifo_free f (live r)\<rparr>)"

definition undo_irq :: "nat \<times> kfifo \<Rightarrow> chr_res \<Rightarrow> chr_res option" where
  "undo_irq f r = undo_fifo f (r\<lparr>irq_on := False\<rparr>)"

definition res_idle :: "chr_res \<Rightarrow> bool" where
  "res_idle r \<longleftrightarrow> \<not> region r \<and> plat_dev r = None \<and> \<not> driver_on r \<and> \<not> irq_on r"

lemma undo_idle:
  assumes "res_idle r"
  shows "undo_devices (r\<lparr>region := True, live := lv, plat_dev := Some True\<rparr>) = Some (r\<lparr>live := lv\<rparr>)"
    "undo_fifo f (r\<lparr>region := True, live := lv, plat_dev := Some True, driver_on := True\<rparr>) = Some (r\<lparr>live := kfifo_free f lv\<rparr>)"
    "undo_irq f (r\<lparr>region := True, live := lv, plat_dev := Some True, driver_on := True, irq_on := True\<rparr>) = Some (r\<lparr>live := kfifo_free f lv\<rparr>)"
  using assms
  by (cases r; auto simp: undo_irq_def undo_fifo_def undo_devices_def platform_device_unregister_def res_idle_def)+

end
