(* ===== verification/Ir.thy ===== *)
theory Ir
  imports Chardev
begin

text \<open>
  The infrared receiver (\<open>arch/mips/realtek-boards/drivers/venus_ir.c\<close>). The state holds the module's variables, its FIFO with the
  memory behind it, the registers and the tick counter. What the status register \<open>MIS_IR_SR\<close>, the
  code register \<open>MIS_IR_RP\<close> and the sample FIFO \<open>MIS_IR_RAW_FF\<close> give when they are read one after the other are three lists; behind the end of a list a read gives 0,
  and \<open>MIS_IR_RAW_WL\<close> is the number of samples left. The handler runs with interrupts off, so the time does not
  advance in it. \<open>ir_wakeups\<close> counts the calls of \<open>wake_up_interruptible\<close>.
\<close>

section \<open>State\<close>

abbreviation (input) REPEAT_MAX_INTERVAL :: u32 where "REPEAT_MAX_INTERVAL \<equiv> 200"
abbreviation (input) IR_FIFO_SIZE :: u32 where "IR_FIFO_SIZE \<equiv> 64"  \<comment> \<open>\<open>FIFO_DEPTH\<close> words\<close>
abbreviation (input) NEC :: u32 where "NEC \<equiv> 1"
abbreviation (input) RC5 :: u32 where "RC5 \<equiv> 2"
abbreviation (input) SHARP :: u32 where "SHARP \<equiv> 3"
abbreviation (input) SONY :: u32 where "SONY \<equiv> 4"
abbreviation (input) C03 :: u32 where "C03 \<equiv> 5"
abbreviation (input) RC6 :: u32 where "RC6 \<equiv> 6"
abbreviation (input) RAW_NEC :: u32 where "RAW_NEC \<equiv> 7"
abbreviation (input) SINGLE_WORD_IF :: u32 where "SINGLE_WORD_IF \<equiv> 0"
abbreviation (input) DOUBLE_WORD_IF :: u32 where "DOUBLE_WORD_IF \<equiv> 1"
abbreviation (input) VENUS_IR_IOC_MAGIC :: u32 where "VENUS_IR_IOC_MAGIC \<equiv> 0x72"
abbreviation (input) VENUS_IR_IOC_MAXNR :: u32 where "VENUS_IR_IOC_MAXNR \<equiv> 9"
abbreviation (input) VENUS_IR_MINOR_RP :: nat where "VENUS_IR_MINOR_RP \<equiv> 50"

record ir_sys =
  ir_protocol :: u32
  lastRecvMs :: u32
  debounce :: u32
  driver_mode :: u32
  lastSymbol :: u32
  ir_fifo_ptr :: nat
  ir_fifo :: kf_state
  ir_regs :: mis_regs
  ir_jiffies :: u32
  sr_in :: "u32 list"
  rp_in :: "u32 list"
  raw_in :: "u32 list"
  ir_wakeups :: nat

definition ir_write :: "u32 \<Rightarrow> mis_reg \<Rightarrow> ir_sys \<Rightarrow> ir_sys" where
  "ir_write v r s = s\<lparr>ir_regs := mis_write v r (ir_regs s)\<rparr>"

definition ir_put :: "u8 list \<Rightarrow> ir_sys \<Rightarrow> ir_sys" where
  "ir_put bs s = s\<lparr>ir_fifo := snd (kfifo_put_nolock bs (ir_fifo s))\<rparr>"

definition read_sr :: "ir_sys \<Rightarrow> u32 \<times> ir_sys" where
  "read_sr s = (case sr_in s of [] \<Rightarrow> (0, s) | v # vs \<Rightarrow> (v, s\<lparr>sr_in := vs\<rparr>))"

definition read_rp :: "ir_sys \<Rightarrow> u32 \<times> ir_sys" where
  "read_rp s = (case rp_in s of [] \<Rightarrow> (0, s) | v # vs \<Rightarrow> (v, s\<lparr>rp_in := vs\<rparr>))"

text \<open>\<open>jiffies_to_msecs\<close> at 100 ticks per second.\<close>

definition now_ms :: "ir_sys \<Rightarrow> u32" where
  "now_ms s = 10 * ir_jiffies s"

section \<open>Frames of the receiver\<close>

text \<open>A code and the repeat flag, or \<open>None\<close> for \<open>-ERESTARTSYS\<close>.\<close>

definition examine_ir_avail :: "ir_sys \<Rightarrow> (u32 \<times> u32) option \<times> ir_sys" where
  "examine_ir_avail s =
     (let (srValue, s) = read_sr s in
      if srValue AND 1 \<noteq> 0 then
        let dataRepeat = (if srValue AND 2 \<noteq> 0 then 1 else 0);
            s = ir_write 3 MIS_IR_SR s;
            (regValue, s) = read_rp s
        in (Some (regValue, dataRepeat), s)
      else (None, s))"

text \<open>One frame in the handler's loop: whether it is queued, and the state.\<close>

definition ir_frame :: "u32 \<Rightarrow> u32 \<Rightarrow> ir_sys \<Rightarrow> bool \<times> ir_sys" where
  "ir_frame regValue dataRepeat s =
     (if dataRepeat = 1 \<and> now_ms s - lastRecvMs s < debounce s then (False, s\<lparr>lastRecvMs := now_ms s\<rparr>)
      else if dataRepeat = 1 \<and> now_ms s - lastRecvMs s > REPEAT_MAX_INTERVAL then (False, s)
      else
        let s = s\<lparr>lastRecvMs := now_ms s\<rparr>;
            regValue = (if ir_protocol s = RC6 then drop_bit 10 regValue
                        else if ir_protocol s = RC5 then regValue AND 0xfff else regValue);
            s = ir_put (le32 regValue) s;
            s = (if driver_mode s = DOUBLE_WORD_IF then ir_put (le32 dataRepeat) s else s)
        in (True, s))"

lemma read_sr_less: "read_sr s = (v, s') \<Longrightarrow> v AND 1 \<noteq> 0 \<Longrightarrow> length (sr_in s') < length (sr_in s)"
  by (auto simp: read_sr_def split: list.splits)

lemma examine_sr:
  assumes "examine_ir_avail s = (Some r, s')" shows "length (sr_in s') < length (sr_in s)"
  using assms read_sr_less [of s]
  by (auto simp: examine_ir_avail_def Let_def ir_write_def read_rp_def split: prod.splits if_splits list.splits)

lemma ir_frame_sr: "sr_in (snd (ir_frame v d s)) = sr_in s"
  by (simp add: ir_frame_def ir_put_def Let_def)

function ir_frames_loop :: "bool \<Rightarrow> ir_sys \<Rightarrow> bool \<times> ir_sys" where
  "ir_frames_loop received s =
     (case examine_ir_avail s of
        (None, s) \<Rightarrow> (received, s)
      | (Some (regValue, dataRepeat), s) \<Rightarrow> let (queued, s) = ir_frame regValue dataRepeat s in ir_frames_loop (received \<or> queued) s)"
  by pat_completeness auto
termination
  by (relation "measure (\<lambda>(r, s). length (sr_in s))") (auto, metis examine_sr ir_frame_sr snd_conv)

declare ir_frames_loop.simps [simp del]

section \<open>Decoding of samples\<close>

text \<open>
  The run of samples of one polarity: \<open>bit_num\<close> samples are left in \<open>sample\<close>, and \<open>sample_cnt\<close> words have been read.
\<close>

function bit_cnt_loop :: "bool \<Rightarrow> nat \<Rightarrow> nat \<times> nat \<times> u32 \<Rightarrow> u32 list \<Rightarrow> nat \<times> (nat \<times> nat \<times> u32) \<times> u32 list" where
  "bit_cnt_loop polar bit_cnt (bit_num, sample_cnt, sample) raw =
     (if bit_num = 0 then
        case raw of
          [] \<Rightarrow> (bit_cnt, (bit_num, sample_cnt, sample), raw)
        | w # raw \<Rightarrow> bit_cnt_loop polar bit_cnt (32, sample_cnt + 1, w) raw
      else if bit sample (bit_num - 1) = polar then bit_cnt_loop polar (bit_cnt + 1) (bit_num - 1, sample_cnt, sample) raw
      else (bit_cnt, (bit_num, sample_cnt, sample), raw))"
  by pat_completeness auto
termination
  by (relation "measure (\<lambda>(p, c, (n, k, w), raw). 33 * length raw + n)") auto

declare bit_cnt_loop.simps [simp del]

definition get_bit_cnt :: "nat \<times> nat \<times> u32 \<Rightarrow> int \<Rightarrow> u32 list \<Rightarrow> int \<times> (nat \<times> nat \<times> u32) \<times> u32 list" where
  "get_bit_cnt st polar raw =
     (if polar \<noteq> 0 \<and> polar \<noteq> 1 then (- 1, st, raw)
      else let (n, st, raw) = bit_cnt_loop (polar = 1) 0 st raw in (int n, st, raw))"

text \<open>The loop over the bits of a frame; \<open>None\<close> goes to \<open>sleep\<close>.\<close>

fun nec_loop :: "u32 \<Rightarrow> nat list \<Rightarrow> u32 \<Rightarrow> nat \<times> nat \<times> u32 \<Rightarrow> u32 list \<Rightarrow> (u32 \<times> u32) option \<times> u32 list" where
  "nec_loop last_symbol [] symbol st raw = (Some (symbol, 0), raw)"
| "nec_loop last_symbol (i # is) symbol st raw =
     (let (length_high, st, raw) = get_bit_cnt st 0 raw;
          (length_low, st, raw) = get_bit_cnt st 1 raw
      in if length_high \<ge> 2 then
           if length_low > 10 then (Some (last_symbol, 1), raw)
           else if length_low \<ge> 7 then nec_loop last_symbol is (symbol OR push_bit i 1) st raw
           else if length_low \<ge> 2 then nec_loop last_symbol is (symbol AND NOT (push_bit i 1)) st raw
           else (None, raw)
         else (None, raw))"

definition nec_decode :: "u32 \<Rightarrow> u32 list \<Rightarrow> (u32 \<times> u32) option \<times> u32 list" where
  "nec_decode last_symbol raw =
     (let (sample, raw) = (case raw of [] \<Rightarrow> (0, []) | w # raw \<Rightarrow> (w, raw));
          (length_high, st, raw) = get_bit_cnt (32, 1, sample) 0 raw;
          (length_low, st, raw) = get_bit_cnt st 1 raw
      in if length_high \<ge> 40 \<and> length_low \<le> 12 then (Some (last_symbol, 0), raw)
         else if length_high < 40 \<or> length_low < 20 then (None, raw)
         else nec_loop last_symbol [0..<32] 0 st raw)"

definition raw_nec_decoder :: "ir_sys \<Rightarrow> ir_sys" where
  "raw_nec_decoder s =
     (let (r, raw) = nec_decode (lastSymbol s) (raw_in s);
          s = s\<lparr>raw_in := raw\<rparr>;
          s = (case r of
                 None \<Rightarrow> s
               | Some (symbol, dataRepeat) \<Rightarrow>
                   let s = ir_put (le32 symbol) s;
                       s = (if driver_mode s = DOUBLE_WORD_IF then ir_put (le32 dataRepeat) s else s)
                   in s\<lparr>lastSymbol := symbol\<rparr>);
          stopCnt = mis_val (ir_regs s) MIS_IR_RAW_SAMPLE_TIME + 0xc8
      in ir_write (0x03000048 OR push_bit 8 stopCnt) MIS_IR_RAW_CTRL s)"

text \<open>The handler; the result says whether the interrupt was its own.\<close>

definition IR_interrupt_handler :: "ir_sys \<Rightarrow> bool \<times> ir_sys" where
  "IR_interrupt_handler s =
     (if mis_val (ir_regs s) MIS_ISR AND 0x20 \<noteq> 0 then
        let s = ir_write 0x20 MIS_ISR s in
        if ir_protocol s = RAW_NEC then (True, raw_nec_decoder s)
        else
          let (received, s) = ir_frames_loop False s
          in (True, if received then s\<lparr>ir_wakeups := ir_wakeups s + 1\<rparr> else s)
      else (False, s))"

section \<open>Setting up the hardware\<close>

definition ir_settings :: "u32 \<Rightarrow> (u32 \<times> mis_reg) list" where
  "ir_settings mode =
     (if mode = NEC then
        [(0x80000000, MIS_IR_CR), (0x5a13133b, MIS_IR_PSR), (0x0001162d, MIS_IR_PER), (0x21b, MIS_IR_SF), (0x1f4, MIS_IR_DPIR), (0x5df, MIS_IR_CR)]
      else if mode = RC5 then
        [(0x80000000, MIS_IR_CR), (0x00242424, MIS_IR_PSR), (0x00010000, MIS_IR_PER), (0x21b, MIS_IR_SF), (0x3ff, MIS_IR_DPIR), (0x70c, MIS_IR_CR)]
      else if mode = SHARP then
        [(0x80000000, MIS_IR_CR), (0x000c1b54, MIS_IR_PSR), (0x00010000, MIS_IR_PER), (0x21b, MIS_IR_SF), (0xc8, MIS_IR_DPIR), (0x58e, MIS_IR_CR)]
      else if mode = SONY then
        [(0x80000000, MIS_IR_CR), (0x18181830, MIS_IR_PSR), (0x00010006, MIS_IR_PER), (0x21b, MIS_IR_SF), (0x1f4, MIS_IR_DPIR), (0xdd3, MIS_IR_CR)]
      else if mode = C03 then
        [(0x80000000, MIS_IR_CR), (0x25151034, MIS_IR_PSR), (0x00000025, MIS_IR_PER), (0x21b, MIS_IR_SF), (0x3ff, MIS_IR_DPIR), (0x5ff, MIS_IR_CR)]
      else if mode = RC6 then
        [(0x80000000, MIS_IR_CR), (0x1c0e0e0e, MIS_IR_PSR), (0x00030008, MIS_IR_PER), (0x21b, MIS_IR_SF), (0x3ff, MIS_IR_DPIR), (0x82a3, MIS_DUMMY),
         (0x515, MIS_IR_CR)]
      else if mode = RAW_NEC then
        [(0x80000000, MIS_IR_CR), (0x1517, MIS_IR_SF), (0x0a8b, MIS_IR_RAW_DEB), (0x03138848, MIS_IR_RAW_CTRL), (0x7300, MIS_IR_CR)]
      else [])"

definition Venus_IR_Init :: "bool \<Rightarrow> u32 \<Rightarrow> ir_sys \<Rightarrow> int \<times> ir_sys" where
  "Venus_IR_Init is_mars_cpu mode s =
     (if mode = RAW_NEC \<and> \<not> is_mars_cpu then (- EFAULT, s)
      else (0, s\<lparr>lastRecvMs := now_ms s, ir_regs := mis_writes (ir_settings mode) (ir_regs s)\<rparr>))"

function flush_irrp :: "ir_sys \<Rightarrow> ir_sys" where
  "flush_irrp s =
     (let (v, s) = read_sr s in if v AND 1 \<noteq> 0 then flush_irrp (snd (read_rp (ir_write 3 MIS_IR_SR s))) else s)"
  by pat_completeness auto
termination
proof (relation "measure (\<lambda>s. length (sr_in s))")
  fix s p v and s' :: ir_sys assume "p = read_sr s" "(v, s') = p" "v AND 1 \<noteq> 0"
  then have "length (sr_in s') < length (sr_in s)" using read_sr_less [of s v s'] by auto
  then show "(snd (read_rp (ir_write 3 MIS_IR_SR s')), s) \<in> measure (\<lambda>s. length (sr_in s))"
    by (simp add: read_rp_def ir_write_def split: list.split)
qed simp

declare flush_irrp.simps [simp del]

definition venus_ir_suspend :: "ir_sys \<Rightarrow> int \<times> ir_sys" where
  "venus_ir_suspend s =
     (let s = flush_irrp s in (0, ir_write (mis_val (ir_regs s) MIS_IR_CR AND NOT 0x400) MIS_IR_CR s))"

definition venus_ir_resume :: "ir_sys \<Rightarrow> int \<times> ir_sys" where
  "venus_ir_resume s = (0, flush_irrp (ir_write (mis_val (ir_regs s) MIS_IR_CR OR 0x400) MIS_IR_CR s))"

section \<open>The device file\<close>

definition venus_ir_open :: "ir_sys \<Rightarrow> int \<times> ir_sys" where
  "venus_ir_open s = (0, s\<lparr>ir_fifo := kfifo_reset (ir_fifo s)\<rparr>)"

text \<open>
  The loop of a read: \<open>put_left\<close> is the number of bytes that \<open>copy_to_user\<close> leaves behind, \<open>uintBuf\<close> is the local variable, at first with any value.
  The list has an element for each iteration.
\<close>

fun ir_read_loop :: "(nat \<Rightarrow> nat \<Rightarrow> nat) \<Rightarrow> nat \<Rightarrow> nat list \<Rightarrow> u8 list \<Rightarrow> mem \<times> ir_sys \<Rightarrow> mem \<times> ir_sys" where
  "ir_read_loop put_left buf [] uintBuf (u, s) = (u, s)"
| "ir_read_loop put_left buf (i # is) uintBuf (u, s) =
     (let (bs, f) = kfifo_get_nolock 4 (ir_fifo s);
          uintBuf = bs @ drop (length bs) uintBuf
      in ir_read_loop put_left buf is uintBuf (store buf (take (4 - put_left buf 4) uintBuf) u, s\<lparr>ir_fifo := f\<rparr>))"

definition venus_ir_read ::
  "(nat \<Rightarrow> nat \<Rightarrow> nat) \<Rightarrow> (ir_sys \<Rightarrow> wake \<times> ir_sys) \<Rightarrow> u32 \<Rightarrow> nat \<Rightarrow> nat \<Rightarrow> mem \<times> ir_sys \<Rightarrow> (int \<times> mem \<times> ir_sys) option" where
  "venus_ir_read put_left sleep garbage buf count us =
     (case wait_for (\<lambda>s. kfifo_len (ir_fifo s) > 0) sleep (snd us) of
        None \<Rightarrow> None
      | Some (False, s) \<Rightarrow> Some (- ERESTARTSYS, fst us, s)
      | Some (True, s) \<Rightarrow>
          let readCount = (if kfifo_len (ir_fifo s) < count then kfifo_len (ir_fifo s) else count)
          in Some (int readCount, ir_read_loop put_left buf (map ((*) 4) [0..<(readCount + 3) div 4]) (le32 garbage) (fst us, s)))"

text \<open>Whether there is something to read.\<close>

definition venus_ir_poll :: "ir_sys \<Rightarrow> bool" where
  "venus_ir_poll s \<longleftrightarrow> kfifo_len (ir_fifo s) > 0"

abbreviation (input) ir_iow :: "u32 \<Rightarrow> u32" where "ir_iow nr \<equiv> IOC IOC_WRITE VENUS_IR_IOC_MAGIC nr 4"

definition ir_reinit :: "bool \<Rightarrow> ir_sys \<Rightarrow> int \<times> ir_sys" where
  "ir_reinit is_mars_cpu s =
     (let (retval, s) = Venus_IR_Init is_mars_cpu (ir_protocol s) s
      in (retval, if retval = 0 then s\<lparr>ir_fifo := kfifo_reset (ir_fifo s)\<rparr> else s))"

definition venus_ir_ioctl :: "(bool \<Rightarrow> nat \<Rightarrow> nat \<Rightarrow> bool) \<Rightarrow> bool \<Rightarrow> bool \<Rightarrow> u32 \<Rightarrow> u32 \<Rightarrow> ir_sys \<Rightarrow> int \<times> ir_sys" where
  "venus_ir_ioctl access admin is_mars_cpu cmd arg s =
     (let err = ioctl_checks access admin VENUS_IR_IOC_MAGIC VENUS_IR_IOC_MAXNR cmd arg in
      if err \<noteq> 0 then (err, s)
      else if cmd = ir_iow 5 then (0, ir_write arg MIS_IR_PSR s)
      else if cmd = ir_iow 6 then (0, ir_write arg MIS_IR_PER s)
      else if cmd = ir_iow 7 then (0, ir_write arg MIS_IR_SF s)
      else if cmd = ir_iow 8 then (0, ir_write arg MIS_IR_CR s)
      else if cmd = ir_iow 1 then (0, ir_write arg MIS_IR_DPIR s)
      else if cmd = ir_iow 3 then ir_reinit is_mars_cpu (s\<lparr>ir_protocol := arg\<rparr>)
      else if cmd = ir_iow 2 then ir_reinit is_mars_cpu s
      else if cmd = ir_iow 4 then (0, s\<lparr>debounce := arg\<rparr>)
      else if cmd = ir_iow 9 then
        if arg \<ge> 2 then (- EFAULT, s) else (0, s\<lparr>ir_fifo := kfifo_reset (ir_fifo s), driver_mode := arg\<rparr>)
      else (- ENOIOCTLCMD, s))"

section \<open>The module\<close>

definition venus_ir_init_module :: "mod_env \<Rightarrow> bool \<Rightarrow> chr_res \<times> ir_sys \<Rightarrow> (int \<times> chr_res \<times> ir_sys) option" where
  "venus_ir_init_module env is_mars_cpu rs =
     (let (r, s) = rs; result = region_result env in
      if result < 0 then Some (result, r, s)
      else do {
        let r = r\<lparr>region := True\<rparr>;
        (fifo, lv) \<leftarrow> kfifo_alloc (buffer_mem env) (fifo_mem env) IR_FIFO_SIZE (live r);
        let r = r\<lparr>live := lv\<rparr>;
        case fifo of
          Inl e \<Rightarrow> Some (- ENOMEM, r\<lparr>region := False\<rparr>, s)
        | Inr (p, f) \<Rightarrow> do {
            let s = s\<lparr>ir_fifo_ptr := p, ir_fifo := (f, snd (ir_fifo s))\<rparr>;
            let r = r\<lparr>plat_dev := Some (plat_ok env)\<rparr>;
            if driver_result env \<noteq> 0 then do { r \<leftarrow> undo_devices r; Some (result, r, s) }
            else do {
              let r = r\<lparr>driver_on := True\<rparr>;
              if irq_result env \<noteq> 0 then do { r \<leftarrow> undo_fifo (p, f) r; Some (- EIO, r, s) }
              else if \<not> cdev_mem env VENUS_IR_MINOR_RP then None
              else if cdev_result env VENUS_IR_MINOR_RP \<noteq> 0 then do { r \<leftarrow> undo_irq (p, f) (r\<lparr>irq_on := True\<rparr>); Some (- ENOMEM, r, s) }
              else Some (0, r\<lparr>irq_on := True, cdevs := VENUS_IR_MINOR_RP # cdevs r, dev_files := VENUS_IR_MINOR_RP # dev_files r\<rparr>,
                         snd (Venus_IR_Init is_mars_cpu (ir_protocol s) s))
            }
          }
      })"

definition venus_ir_cleanup_module :: "chr_res \<times> ir_sys \<Rightarrow> (chr_res \<times> ir_sys) option" where
  "venus_ir_cleanup_module rs =
     (let (r, s) = rs;
          s = ir_write 0x80000000 MIS_IR_CR s;
          r = r\<lparr>dev_files := remove1 VENUS_IR_MINOR_RP (dev_files r), cdevs := remove1 VENUS_IR_MINOR_RP (cdevs r)\<rparr>
      in do { r \<leftarrow> undo_irq (ir_fifo_ptr s, fst (ir_fifo s)) r; Some (r, s) })"

end
