(* ===== verification/Ir_Props.thy ===== *)
theory Ir_Props
  imports Ir
begin

text \<open>
  Properties of the infrared driver: which frames are queued, the decoding of sampled frames, what a read returns, the invariant of the
  FIFO under every operation, and loading and unloading of the module.
\<close>

section \<open>The FIFO of the driver\<close>

definition ir_ok :: "nat \<Rightarrow> ir_sys \<Rightarrow> bool" where
  "ir_ok base s \<longleftrightarrow> kfifo_ok base 6 (ir_fifo s)"

abbreviation ir_queue :: "ir_sys \<Rightarrow> u8 list" where
  "ir_queue s \<equiv> kfifo_contents (ir_fifo s)"

lemma ir_put_ok:
  assumes "ir_ok base s" "length bs < 2 ^ 32"
  shows "ir_ok base (ir_put bs s)" "ir_queue (ir_put bs s) = take 64 (ir_queue s @ bs)"
  using kf.put_inv [of base 6 "ir_fifo s" bs] kf.put_contents [of base 6 "ir_fifo s" bs] assms by (simp_all add: ir_ok_def ir_put_def)

lemma ir_put_same [simp]:
  "sr_in (ir_put bs s) = sr_in s" "rp_in (ir_put bs s) = rp_in s" "debounce (ir_put bs s) = debounce s" "now_ms (ir_put bs s) = now_ms s"
  "lastRecvMs (ir_put bs s) = lastRecvMs s" "ir_protocol (ir_put bs s) = ir_protocol s" "driver_mode (ir_put bs s) = driver_mode s"
  "ir_wakeups (ir_put bs s) = ir_wakeups s" "lastSymbol (ir_put bs s) = lastSymbol s" "ir_regs (ir_put bs s) = ir_regs s"
  "ir_jiffies (ir_put bs s) = ir_jiffies s"
  by (simp_all add: ir_put_def now_ms_def)

lemma ir_write_same [simp]:
  "sr_in (ir_write v r s) = sr_in s" "rp_in (ir_write v r s) = rp_in s" "debounce (ir_write v r s) = debounce s" "now_ms (ir_write v r s) = now_ms s"
  "lastRecvMs (ir_write v r s) = lastRecvMs s" "ir_protocol (ir_write v r s) = ir_protocol s" "driver_mode (ir_write v r s) = driver_mode s"
  "ir_wakeups (ir_write v r s) = ir_wakeups s" "ir_fifo (ir_write v r s) = ir_fifo s" "raw_in (ir_write v r s) = raw_in s"
  "lastSymbol (ir_write v r s) = lastSymbol s" "ir_jiffies (ir_write v r s) = ir_jiffies s"
  by (simp_all add: ir_write_def now_ms_def)

section \<open>Frames\<close>

text \<open>The frames that the two registers present, with their repeat flags, up to the first status without a frame.\<close>

fun frames :: "u32 list \<Rightarrow> u32 list \<Rightarrow> (u32 \<times> u32) list" where
  "frames [] rp = []"
| "frames (v # vs) rp =
     (if v AND 1 = 0 then []
      else (case rp of [] \<Rightarrow> 0 | c # _ \<Rightarrow> c, if v AND 2 \<noteq> 0 then 1 else 0) # frames vs (tl rp))"

text \<open>
  The policy: a frame is taken unless it is a repeat that comes too early or too late after the last one. An early repeat restarts the interval.
\<close>

fun accept :: "u32 \<Rightarrow> u32 \<Rightarrow> u32 \<Rightarrow> (u32 \<times> u32) list \<Rightarrow> (u32 \<times> u32) list \<times> u32" where
  "accept now deb prev [] = ([], prev)"
| "accept now deb prev ((c, rep) # fs) =
     (if rep = 1 \<and> now - prev < deb then accept now deb now fs
      else if rep = 1 \<and> now - prev > 200 then accept now deb prev fs
      else let (acc, l) = accept now deb now fs in ((c, rep) # acc, l))"

text \<open>The code as a protocol delivers it, and the words queued for a frame.\<close>

definition ir_code :: "u32 \<Rightarrow> u32 \<Rightarrow> u32" where
  "ir_code protocol c = (if protocol = 6 then drop_bit 10 c else if protocol = 2 then c AND 0xfff else c)"

definition frame_words :: "u32 \<Rightarrow> u32 \<Rightarrow> u32 \<times> u32 \<Rightarrow> u8 list" where
  "frame_words protocol mode fr = le32 (ir_code protocol (fst fr)) @ (if mode = 1 then le32 (snd fr) else [])"

lemma examine_frames:
  "frames (sr_in s) (rp_in s) = (case examine_ir_avail s of (None, _) \<Rightarrow> [] | (Some fr, s') \<Rightarrow> fr # frames (sr_in s') (rp_in s'))"
  by (auto simp: examine_ir_avail_def read_sr_def read_rp_def Let_def split: list.split)

lemma examine_same:
  assumes "examine_ir_avail s = (r, s')"
  shows "ir_fifo s' = ir_fifo s" "debounce s' = debounce s" "now_ms s' = now_ms s" "lastRecvMs s' = lastRecvMs s" "ir_protocol s' = ir_protocol s"
    "driver_mode s' = driver_mode s" "ir_wakeups s' = ir_wakeups s"
  using assms
  by (auto simp: examine_ir_avail_def read_sr_def read_rp_def Let_def now_ms_def split: list.splits if_splits)

text \<open>One frame against the policy.\<close>

lemma ir_frame_run:
  assumes "ir_ok base s" "ir_frame c rep s = (q, s')"
  shows "ir_ok base s'" "ir_queue s' = take 64 (ir_queue s @ (if q then frame_words (ir_protocol s) (driver_mode s) (c, rep) else []))"
    "accept (now_ms s) (debounce s) (lastRecvMs s) ((c, rep) # fs) =
      (let (acc, l) = accept (now_ms s') (debounce s') (lastRecvMs s') fs in (if q then (c, rep) # acc else acc, l))"
    "sr_in s' = sr_in s" "rp_in s' = rp_in s" "ir_protocol s' = ir_protocol s" "driver_mode s' = driver_mode s" "ir_wakeups s' = ir_wakeups s"
proof -
  have b: "length (ir_queue s) \<le> 64" using kf.contents_bound [of base 6 "ir_fifo s"] assms(1) by (simp add: ir_ok_def)
  let ?t = "s\<lparr>lastRecvMs := now_ms s\<rparr>"
  let ?c = "le32 (ir_code (ir_protocol s) c)"
  have t: "ir_ok base ?t" using assms(1) by (simp add: ir_ok_def)
  have q: "s' = (if driver_mode s = 1 then ir_put (le32 rep) (ir_put ?c ?t) else ir_put ?c ?t)" if q
    using assms(2) that by (auto simp: ir_frame_def ir_code_def Let_def split: if_splits)
  have nq: "ir_fifo s' = ir_fifo s" if "\<not> q" using assms(2) that by (auto simp: ir_frame_def Let_def split: if_splits)
  note p = ir_put_ok [OF t, of ?c] ir_put_ok [OF ir_put_ok(1) [OF t, of ?c], of "le32 rep"]
  show "ir_ok base s'" using assms(1) q nq p by (cases q) (auto simp: ir_ok_def)
  show "ir_queue s' = take 64 (ir_queue s @ (if q then frame_words (ir_protocol s) (driver_mode s) (c, rep) else []))"
    using q nq p b by (cases q) (auto simp: frame_words_def take_append_take simp del: take_append)
  show "accept (now_ms s) (debounce s) (lastRecvMs s) ((c, rep) # fs) =
      (let (acc, l) = accept (now_ms s') (debounce s') (lastRecvMs s') fs in (if q then (c, rep) # acc else acc, l))"
    using assms(2) by (auto simp: ir_frame_def Let_def now_ms_def ir_put_def split: if_splits prod.splits)
  show "sr_in s' = sr_in s" "rp_in s' = rp_in s" "ir_protocol s' = ir_protocol s" "driver_mode s' = driver_mode s" "ir_wakeups s' = ir_wakeups s"
    using assms(2) by (auto simp: ir_frame_def Let_def split: if_splits)
qed

lemma ir_frames_loop_run:
  assumes "ir_ok base s" "ir_frames_loop received s = (received', s')"
    "accept (now_ms s) (debounce s) (lastRecvMs s) (frames (sr_in s) (rp_in s)) = (acc, l)"
  shows "ir_ok base s' \<and> ir_queue s' = take 64 (ir_queue s @ concat (map (frame_words (ir_protocol s) (driver_mode s)) acc)) \<and>
    lastRecvMs s' = l \<and> (received' \<longleftrightarrow> received \<or> acc \<noteq> []) \<and> ir_wakeups s' = ir_wakeups s"
  using assms
proof (induction "length (sr_in s)" arbitrary: s received acc rule: less_induct)
  case (less s)
  have b: "length (ir_queue s) \<le> 64" using kf.contents_bound [of base 6 "ir_fifo s"] less(2) by (simp add: ir_ok_def)
  obtain r s1 where e: "examine_ir_avail s = (r, s1)" by force
  note same = examine_same [OF e]
  show ?case
  proof (cases r)
    case None
    then show ?thesis using less(2-4) e b examine_frames [of s] same by (auto simp: ir_ok_def ir_frames_loop.simps)
  next
    case (Some fr)
    obtain c rep where fr: "fr = (c, rep)" by force
    obtain q s2 where f: "ir_frame c rep s1 = (q, s2)" by force
    have ok1: "ir_ok base s1" using less(2) same by (simp add: ir_ok_def)
    note run = ir_frame_run [OF ok1 f]
    obtain acc2 l2 where a2: "accept (now_ms s2) (debounce s2) (lastRecvMs s2) (frames (sr_in s2) (rp_in s2)) = (acc2, l2)" by force
    have fs: "frames (sr_in s) (rp_in s) = (c, rep) # frames (sr_in s2) (rp_in s2)"
      using examine_frames [of s] e Some fr run(4,5) by simp
    have acc: "acc = (if q then (c, rep) # acc2 else acc2)" "l = l2"
      using less(4) run(3) [of "frames (sr_in s2) (rp_in s2)"] same a2 unfolding fs by (simp_all add: Let_def split: if_splits)
    have loop: "ir_frames_loop (received \<or> q) s2 = (received', s')" using less(3) e Some fr f by (subst (asm) ir_frames_loop.simps) simp
    have IH: "ir_ok base s' \<and> ir_queue s' = take 64 (ir_queue s2 @ concat (map (frame_words (ir_protocol s2) (driver_mode s2)) acc2)) \<and>
      lastRecvMs s' = l \<and> (received' \<longleftrightarrow> (received \<or> q) \<or> acc2 \<noteq> []) \<and> ir_wakeups s' = ir_wakeups s2"
      using less(1) [OF _ run(1) loop] examine_sr [of s fr s1] e Some run(4) a2 acc(2) by simp
    then show ?thesis using run(2,6-8) same acc(1) b by (cases q) (simp_all add: take_append_take del: take_append)
  qed
qed


text \<open>A receiver for RC5 in double-word mode, 50 ms after the last code.\<close>

definition sample_ir :: ir_sys where
  "sample_ir = \<lparr>ir_protocol = 2, lastRecvMs = 1000, debounce = 40, driver_mode = 1, lastSymbol = 0, ir_fifo_ptr = 8,
     ir_fifo = (\<lparr>kf_buffer = 64, kf_size = 64, kf_in = 0, kf_out = 0\<rparr>, \<lambda>_. 0), ir_regs = \<lparr>mis_val = \<lambda>r. if r = MIS_ISR then 0x20 else 0, mis_log = []\<rparr>,
     ir_jiffies = 105, sr_in = [3, 3, 1, 0, 1], rp_in = [0x51234, 0x1234, 0x77], raw_in = [], ir_wakeups = 0\<rparr>"

lemma sample_ir_ok: "ir_ok 64 sample_ir" "ir_queue sample_ir = []" "mis_val (ir_regs sample_ir) MIS_ISR = 0x20"
  "ir_protocol sample_ir = 2" "driver_mode sample_ir = 1" "ir_wakeups sample_ir = 0" "kfifo_len (ir_fifo sample_ir) = 0"
  by (simp_all add: ir_ok_def sample_ir_def kfifo_ok_def kfifo_len_def kfifo_contents_def)


text \<open>With the interval of 300 ms that is the default, a repeat is never queued.\<close>

lemma repeats_lost:
  assumes "200 < deb" "accept now deb prev fs = (acc, l)" "(c, rep) \<in> set acc" shows "rep \<noteq> 1"
  using assms
proof (induction now deb prev fs arbitrary: acc rule: accept.induct)
  case (2 now deb prev c' rep' fs)
  have "now - prev < deb \<or> 200 < now - prev" using 2(4) by auto
  then show ?case using 2 by (auto split: if_splits prod.splits)
qed simp

section \<open>Samples\<close>

text \<open>The samples of a word, the first one in the highest bit, and those that are still to come.\<close>

definition sample_bits :: "nat \<Rightarrow> u32 \<Rightarrow> bool list" where
  "sample_bits n w = map (bit w) (rev [0..<n])"

definition samples :: "nat \<times> nat \<times> u32 \<Rightarrow> u32 list \<Rightarrow> bool list" where
  "samples st raw = (case st of (n, _, w) \<Rightarrow> sample_bits n w @ concat (map (sample_bits 32) raw))"

lemma sample_bits_Suc: "n \<noteq> 0 \<Longrightarrow> sample_bits n w = bit w (n - 1) # sample_bits (n - 1) w"
  by (cases n) (simp_all add: sample_bits_def)

lemma bit_cnt_loop_run:
  assumes "bit_cnt_loop p c st raw = (c', st', raw')"
  shows "c' = c + length (takeWhile ((=) p) (samples st raw)) \<and> samples st' raw' = dropWhile ((=) p) (samples st raw)"
  using assms
proof (induction p c st raw rule: bit_cnt_loop.induct)
  case (1 p c n k w raw)
  show ?case
  proof (cases "n = 0")
    case True
    then show ?thesis using 1(1) 1(3) by (cases raw) (auto simp: bit_cnt_loop.simps [of p c 0] samples_def sample_bits_def)
  next
    case False
    note step = sample_bits_Suc [OF False, of w]
    show ?thesis
    proof (cases "bit w (n - 1) = p")
      case True
      then have "bit_cnt_loop p (c + 1) (n - 1, k, w) raw = (c', st', raw')" using 1(3) False by (subst (asm) bit_cnt_loop.simps) simp
      note IH = 1(2) [OF False True this]
      then show ?thesis using True by (simp add: samples_def step)
    next
      case pol: False
      then have "(c', st', raw') = (c, (n, k, w), raw)" using 1(3) False by (subst (asm) bit_cnt_loop.simps) simp
      then show ?thesis using pol by (simp add: samples_def step)
    qed
  qed
qed

lemma get_bit_cnt_run:
  assumes "p \<in> {0, 1}"
  shows "\<exists>st' raw'. get_bit_cnt st p raw = (int (length (takeWhile ((=) (p = 1)) (samples st raw))), st', raw') \<and>
    samples st' raw' = dropWhile ((=) (p = 1)) (samples st raw)"
proof -
  obtain c st' raw' where l: "bit_cnt_loop (p = 1) 0 st raw = (c, st', raw')" by (metis prod_cases3)
  then show ?thesis using bit_cnt_loop_run [OF l] assms by (cases st') (auto simp: get_bit_cnt_def)
qed

text \<open>A pulse of \<open>h\<close> samples and a pause of \<open>l\<close> samples, in front of another pulse or the end.\<close>

definition pulse :: "nat \<times> nat \<Rightarrow> bool list" where
  "pulse hl = replicate (fst hl) False @ replicate (snd hl) True"

definition ends_pause :: "bool list \<Rightarrow> bool" where
  "ends_pause bs \<longleftrightarrow> bs = [] \<or> \<not> hd bs"

lemma while_replicate:
  assumes "bs = [] \<or> hd bs \<noteq> b"
  shows "takeWhile ((=) b) (replicate n b @ bs) = replicate n b" "dropWhile ((=) b) (replicate n b @ bs) = bs"
  using assms by (induction n) (cases bs; auto)+

lemma pulse_run:
  assumes "samples st raw = pulse (h, l) @ bs" "0 < l" "ends_pause bs"
  shows "\<exists>st1 raw1 st2 raw2. get_bit_cnt st 0 raw = (int h, st1, raw1) \<and> get_bit_cnt st1 1 raw1 = (int l, st2, raw2) \<and> samples st2 raw2 = bs"
proof -
  have "replicate l True @ bs = [] \<or> hd (replicate l True @ bs) \<noteq> False" using assms(2) by (cases l) auto
  note h = while_replicate [OF this, of h]
  have "bs = [] \<or> hd bs \<noteq> True" using assms(3) by (auto simp: ends_pause_def)
  note l = while_replicate [OF this, of l]
  obtain st1 raw1 where 1: "get_bit_cnt st 0 raw = (int h, st1, raw1)" "samples st1 raw1 = replicate l True @ bs"
    using get_bit_cnt_run [of 0 st raw] assms(1) h by (auto simp: pulse_def)
  moreover obtain st2 raw2 where "get_bit_cnt st1 1 raw1 = (int l, st2, raw2)" "samples st2 raw2 = bs"
    using get_bit_cnt_run [of 1 st1 raw1] 1(2) l by auto
  ultimately show ?thesis by blast
qed

text \<open>The timing of a bit: the pulse is at least two samples long, the pause says which bit it is.\<close>

definition bit_timing :: "bool \<Rightarrow> nat \<times> nat \<Rightarrow> bool" where
  "bit_timing b hl \<longleftrightarrow> 2 \<le> fst hl \<and> (if b then 7 \<le> snd hl \<and> snd hl \<le> 10 else 2 \<le> snd hl \<and> snd hl \<le> 6)"

lemma ends_pause_pulses: "\<forall>hl \<in> set hls. 0 < fst hl \<Longrightarrow> ends_pause bs \<Longrightarrow> ends_pause (concat (map pulse hls) @ bs)"
proof (cases hls)
  case (Cons hl hls')
  moreover assume "\<forall>hl \<in> set hls. 0 < fst hl"
  ultimately show ?thesis by (cases "fst hl") (auto simp: ends_pause_def pulse_def)
qed simp

lemma nec_loop_run:
  assumes "samples st raw = concat (map pulse hls) @ bs" "ends_pause bs" "i + length hls \<le> 32"
    "\<forall>j < length hls. bit_timing (bit w (i + j)) (hls ! j)"
  shows "\<exists>v raw'. nec_loop lst [i..<i + length hls] symbol st raw = (Some (v, 0), raw') \<and>
    (\<forall>j. bit v j = (if i \<le> j \<and> j < i + length hls then bit w j else bit symbol j))"
  using assms
proof (induction hls arbitrary: i symbol st raw)
  case (Cons hl hls)
  obtain h l where hl: "hl = (h, l)" by force
  have t: "bit_timing (bit w i) (h, l)" using Cons.prems(4) hl by auto
  have ts: "\<forall>j < length hls. bit_timing (bit w (Suc i + j)) (hls ! j)" using Cons.prems(4) by auto
  have "0 < fst x" if x: "x \<in> set hls" for x
  proof -
    obtain j where "j < length hls" "hls ! j = x" using x by (metis in_set_conv_nth)
    then show ?thesis using ts by (fastforce simp: bit_timing_def)
  qed
  then have "ends_pause (concat (map pulse hls) @ bs)" using ends_pause_pulses Cons.prems(2) by blast
  moreover have "samples st raw = pulse (h, l) @ concat (map pulse hls) @ bs" using Cons.prems(1) hl by simp
  ultimately obtain st1 raw1 st2 raw2 where r: "get_bit_cnt st 0 raw = (int h, st1, raw1)" "get_bit_cnt st1 1 raw1 = (int l, st2, raw2)"
    "samples st2 raw2 = concat (map pulse hls) @ bs" using pulse_run [of st raw h l] t by (auto simp: bit_timing_def split: if_splits)
  define v1 where "v1 = (if bit w i then symbol OR push_bit i 1 else symbol AND NOT (push_bit i 1))"
  have step: "nec_loop lst (i # [Suc i..<Suc i + length hls]) symbol st raw = nec_loop lst [Suc i..<Suc i + length hls] v1 st2 raw2"
    using r t by (auto simp: bit_timing_def v1_def)
  obtain v raw' where v: "nec_loop lst [Suc i..<Suc i + length hls] v1 st2 raw2 = (Some (v, 0), raw')"
    "\<forall>j. bit v j = (if Suc i \<le> j \<and> j < Suc i + length hls then bit w j else bit v1 j)"
    using Cons.IH [OF r(3) Cons.prems(2) _ ts, of v1] Cons.prems(3) by auto
  have "bit v1 j = (if j = i then bit w i else bit symbol j)" for j
    using Cons.prems(3) bit_imp_le_length [of symbol j]
    by (cases "j = i") (auto simp: v1_def bit_or_iff bit_and_iff bit_not_iff_eq bit_exp_iff)
  then have "\<forall>j. bit v j = (if i \<le> j \<and> j < i + length (hl # hls) then bit w j else bit symbol j)"
    using v(2) by (auto simp: Suc_le_eq le_less)
  moreover have "[i..<i + length (hl # hls)] = i # [Suc i..<Suc i + length hls]" by (simp add: upt_conv_Cons del: upt_Suc)
  ultimately show ?case using step v(1) by (intro exI [of _ v] exI [of _ raw']) simp
qed auto

lemma nec_decode_run:
  assumes "concat (map (sample_bits 32) raw) = pulse (h, l) @ concat (map pulse hls) @ bs" "40 \<le> h" "20 \<le> l" "length hls = 32" "ends_pause bs"
    "\<forall>j < 32. bit_timing (bit w j) (hls ! j)"
  shows "\<exists>raw'. nec_decode lst raw = (Some (w, 0), raw')"
proof -
  obtain v0 raw0 where raw: "raw = v0 # raw0" using assms(1,2) by (cases raw) (auto simp: pulse_def)
  have s: "samples (32, 1, v0) raw0 = pulse (h, l) @ concat (map pulse hls) @ bs" using assms(1) raw by (simp add: samples_def)
  have "0 < fst x" if x: "x \<in> set hls" for x
  proof -
    obtain j where "j < 32" "hls ! j = x" using x assms(4) by (metis in_set_conv_nth)
    then show ?thesis using assms(6) by (fastforce simp: bit_timing_def)
  qed
  then have "ends_pause (concat (map pulse hls) @ bs)" using ends_pause_pulses assms(5) by blast
  then obtain st1 raw1 st2 raw2 where r: "get_bit_cnt (32, 1, v0) 0 raw0 = (int h, st1, raw1)" "get_bit_cnt st1 1 raw1 = (int l, st2, raw2)"
    "samples st2 raw2 = concat (map pulse hls) @ bs" using pulse_run [OF s] assms(3) by auto
  obtain v raw' where v: "nec_loop lst [0..<32] 0 st2 raw2 = (Some (v, 0), raw')" "\<forall>j. bit v j = (if j < 32 then bit w j else bit (0::u32) j)"
    using nec_loop_run [OF r(3) assms(5), of 0 w lst 0] assms(4,6) by auto
  have "v = w" using v(2) by (intro bit_word_eqI) simp
  then show ?thesis using r(1,2) v(1) assms(2,3) raw by (simp add: nec_decode_def)
qed

text \<open>
  C33: The decoder of sampled frames recovers the code: for every code, and every waveform whose preamble and bits keep the timing
  in number of samples, wherever the frame lies in the sampled words, the code is queued (with repeat flag 0 in double-word mode) and remembered for repeats.
  No reader is woken.
\<close>

theorem nec_round_trip:
  assumes "ir_ok base s" "mis_val (ir_regs s) MIS_ISR AND 0x20 \<noteq> 0" "ir_protocol s = 7"
    "concat (map (sample_bits 32) (raw_in s)) = pulse (h, l) @ concat (map pulse hls) @ rest"
    "40 \<le> h" "20 \<le> l" "length hls = 32" "ends_pause rest" "\<forall>j < 32. bit_timing (bit w j) (hls ! j)"
  shows "\<exists>s'. IR_interrupt_handler s = (True, s') \<and> ir_ok base s' \<and> lastSymbol s' = w \<and>
    ir_queue s' = take 64 (ir_queue s @ le32 w @ (if driver_mode s = 1 then le32 0 else [])) \<and> ir_wakeups s' = ir_wakeups s"
proof -
  obtain raw' where d: "nec_decode (lastSymbol s) (raw_in s) = (Some (w, 0), raw')" using nec_decode_run [OF assms(4-9)] by blast
  define t where "t = (ir_write 0x20 MIS_ISR s)\<lparr>raw_in := raw'\<rparr>"
  have t: "ir_ok base t" "ir_queue t = ir_queue s" "driver_mode t = driver_mode s" "ir_wakeups t = ir_wakeups s"
    using assms(1) by (simp_all add: t_def ir_ok_def)
  define v where "v = (if driver_mode s = 1 then ir_put (le32 0) (ir_put (le32 w) t) else ir_put (le32 w) t)"
  have v: "ir_ok base v" "ir_queue v = take 64 (ir_queue s @ le32 w @ (if driver_mode s = 1 then le32 0 else []))" "ir_wakeups v = ir_wakeups s"
    using ir_put_ok [OF t(1), of "le32 w"] ir_put_ok [of base "ir_put (le32 w) t" "le32 0"] t
    by (auto simp: v_def take_append_take simp del: take_append)
  have "\<exists>x. raw_nec_decoder (ir_write 0x20 MIS_ISR s) = ir_write x MIS_IR_RAW_CTRL (v\<lparr>lastSymbol := w\<rparr>)"
    using d by (simp add: raw_nec_decoder_def Let_def t_def [symmetric]) (auto simp: t(3) v_def)
  then show ?thesis using assms(2,3) v by (auto simp: IR_interrupt_handler_def ir_ok_def)
qed

theorem nec_round_trip_witness:
  "\<exists>s'. IR_interrupt_handler (sample_ir\<lparr>ir_protocol := 7, raw_in := [0x0, 0x7ffff, 0xe3fc71fe, 0x38e38e38, 0xe38e38e3, 0x8e38e38e, 0x38e38e38, 0xe38e38e3, 0x8e380000]\<rparr>) = (True, s') \<and> lastSymbol s' = 5 \<and>
    ir_queue s' = le32 5 @ le32 0"
proof -
  let ?s = "sample_ir\<lparr>ir_protocol := 7, raw_in := [0x0, 0x7ffff, 0xe3fc71fe, 0x38e38e38, 0xe38e38e3, 0x8e38e38e, 0x38e38e38, 0xe38e38e3, 0x8e380000]\<rparr>"
  let ?hls = "map (\<lambda>j. if bit (5::u32) j then (3::nat, 8::nat) else (3, 3)) [0..<32]"
  have s: "ir_ok 64 ?s" "ir_queue ?s = []" "mis_val (ir_regs ?s) MIS_ISR AND 0x20 \<noteq> 0" "ir_protocol ?s = 7" "driver_mode ?s = 1"
    using sample_ir_ok by (simp_all add: ir_ok_def)
  have "concat (map (sample_bits 32) [0x0, 0x7ffff, 0xe3fc71fe, 0x38e38e38, 0xe38e38e3, 0x8e38e38e, 0x38e38e38, 0xe38e38e3, 0x8e380000]) = pulse (45, 22) @ concat (map pulse ?hls) @ replicate 19 False" by code_simp
  then have raw: "concat (map (sample_bits 32) (raw_in ?s)) = pulse (45, 22) @ concat (map pulse ?hls) @ replicate 19 False" by simp
  have timing: "\<forall>j < 32. bit_timing (bit (5::u32) j) (?hls ! j)" by (simp add: bit_timing_def)
  have pause: "ends_pause (replicate 19 False)" by (simp add: ends_pause_def)
  show ?thesis using nec_round_trip [OF s(1,3,4) raw _ _ _ pause timing] s sample_ir_ok(7) by auto
qed

section \<open>Reading\<close>

lemma ir_get_words:
  assumes "ir_ok base s" "ir_queue s = concat (map le32 (w # ws))"
  shows "\<exists>f. kfifo_get_nolock 4 (ir_fifo s) = (le32 w, f) \<and> ir_ok base (s\<lparr>ir_fifo := f\<rparr>) \<and> kfifo_contents f = concat (map le32 ws)"
  using kf.get_inv [of base 6 "ir_fifo s" 4] kf.get_data [of base 6 "ir_fifo s" 4] kf.get_contents [of base 6 "ir_fifo s" 4] assms
  by (cases "kfifo_get_nolock 4 (ir_fifo s)") (simp add: ir_ok_def)

lemma store_same_range: "length xs = length ys \<Longrightarrow> store a xs (store a ys m) = store a xs m"
  by (rule ext) (auto simp: store_def)

lemma ir_read_loop_run:
  assumes "ir_ok base s" "ir_queue s = concat (map le32 ws)" "length is \<le> length ws"
  shows "\<exists>s'. ir_read_loop (\<lambda>_ _. 0) buf is g (u, s) = (if is = [] then u else store buf (le32 (ws ! (length is - 1))) u, s') \<and>
    ir_ok base s' \<and> ir_queue s' = concat (map le32 (drop (length is) ws))"
  using assms
proof (induction "is" arbitrary: s ws g u)
  case (Cons i js)
  then obtain w ws' where ws: "ws = w # ws'" by (cases ws) auto
  obtain f where f: "kfifo_get_nolock 4 (ir_fifo s) = (le32 w, f)" "ir_ok base (s\<lparr>ir_fifo := f\<rparr>)" "kfifo_contents f = concat (map le32 ws')"
    using ir_get_words [OF Cons.prems(1), of w ws'] Cons.prems(2) ws by auto
  have "ir_queue (s\<lparr>ir_fifo := f\<rparr>) = concat (map le32 ws')" "length js \<le> length ws'" using f(3) Cons.prems(3) ws by simp_all
  from Cons.IH [OF f(2) this, of "le32 w @ drop 4 g" "store buf (le32 w) u"] show ?case
    using f(1) ws by (cases js) (auto simp: store_same_range)
qed simp

text \<open>
  C35: A read of several words stores all of them at the start of the caller's buffer, one over the other: of the \<open>n\<close> words taken from
  the FIFO only the last one reaches the caller, although the result counts all their bytes.
\<close>

theorem ir_read_keeps_last:
  assumes "ir_ok base s" "ir_queue s = concat (map le32 ws)" "ws \<noteq> []" "n = min (length ws) ((count + 3) div 4)" "0 < count"
  shows "\<exists>s'. venus_ir_read (\<lambda>_ _. 0) sleep g buf count (u, s) =
      Some (int (min (4 * length ws) count), store buf (le32 (ws ! (n - 1))) u, s') \<and> ir_ok base s' \<and> ir_queue s' = concat (map le32 (drop n ws))"
proof -
  have "length (ir_queue s) = 4 * length ws" using assms(2) by (simp add: length_concat comp_def sum_list_triv)
  then have len: "kfifo_len (ir_fifo s) = 4 * length ws" by simp
  let ?k = "if kfifo_len (ir_fifo s) < count then kfifo_len (ir_fifo s) else count"
  let ?is = "map ((*) 4) [0..<(?k + 3) div 4]"
  have k: "?k = min (4 * length ws) count" "(?k + 3) div 4 = n" using len assms(4) by (auto simp: min_def)
  have lens: "length ?is = n" "n \<le> length ws" "0 < n" using k(2) assms(3-5) by (auto simp: min_def)
  obtain s' where "ir_read_loop (\<lambda>_ _. 0) buf ?is (le32 g) (u, s) = (store buf (le32 (ws ! (n - 1))) u, s')"
    "ir_ok base s'" "ir_queue s' = concat (map le32 (drop n ws))"
    using ir_read_loop_run [OF assms(1,2), of ?is buf "le32 g" u] lens by auto
  moreover have "wait_for (\<lambda>s. kfifo_len (ir_fifo s) > 0) sleep s = Some (True, s)" using len assms(3) by (intro wait_for_ready) auto
  ultimately show ?thesis using k(1) by (simp add: venus_ir_read_def Let_def)
qed

theorem ir_read_keeps_last_witness:
  "let s = ir_put (le32 7) (ir_put (le32 9) sample_ir) in
   \<exists>s'. venus_ir_read (\<lambda>_ _. 0) (\<lambda>s. (Signalled, s)) 0 100 8 ((\<lambda>_. 1), s) = Some (8, store 100 (le32 7) (\<lambda>_. 1), s') \<and> ir_queue s' = []"
proof -
  let ?s = "ir_put (le32 7) (ir_put (le32 9) sample_ir)"
  note a = ir_put_ok [OF sample_ir_ok(1), of "le32 9"]
  note b = ir_put_ok [OF a(1), of "le32 7"]
  have "ir_queue ?s = concat (map le32 [9, 7])" using a(2) b(2) sample_ir_ok(2) by simp
  from ir_read_keeps_last [OF b(1) this _ refl, of 8 "\<lambda>s. (Signalled, s)" 0 100 "\<lambda>_. 1"] show ?thesis by (auto simp: Let_def)
qed

section \<open>Reachable states\<close>

text \<open>
  The steps of the driver: the hardware and the clock move, an interrupt comes, and processes open, read and configure the device, or the system is suspended
  and resumed. A read that sleeps lets other steps happen before it goes on.
\<close>

inductive ir_step :: "ir_sys \<Rightarrow> ir_sys \<Rightarrow> bool" where
  hardware: "ir_step s (s\<lparr>sr_in := sr, rp_in := rp, raw_in := raw, ir_jiffies := j, ir_regs := g\<rparr>)"
| interrupt: "IR_interrupt_handler s = (r, s') \<Longrightarrow> ir_step s s'"
| open_file: "venus_ir_open s = (r, s') \<Longrightarrow> ir_step s s'"
| read_file: "kfifo_len (ir_fifo s) > 0 \<Longrightarrow> venus_ir_read put_left sleep g buf count (u, s) = Some (r, u', s') \<Longrightarrow> ir_step s s'"
| ioctl_file: "venus_ir_ioctl access admin mars cmd arg s = (r, s') \<Longrightarrow> ir_step s s'"
| suspend: "venus_ir_suspend s = (r, s') \<Longrightarrow> ir_step s s'"
| resume: "venus_ir_resume s = (r, s') \<Longrightarrow> ir_step s s'"

definition ir_inv :: "nat \<Rightarrow> ir_sys \<Rightarrow> bool" where
  "ir_inv base s \<longleftrightarrow> ir_ok base s \<and> 4 dvd kfifo_len (ir_fifo s)"

lemma dvd_take64: "4 dvd length xs \<Longrightarrow> 4 dvd length ys \<Longrightarrow> 4 dvd length (take 64 (xs @ ys))"
  by (simp add: min_def)

lemma ir_inv_queue: "ir_inv base s \<longleftrightarrow> ir_ok base s \<and> 4 dvd length (ir_queue s)"
  by (simp add: ir_inv_def)

lemma ir_put_inv: "ir_inv base s \<Longrightarrow> ir_inv base (ir_put (le32 w) s)"
  using ir_put_ok [of base s "le32 w"] dvd_take64 [of "ir_queue s" "le32 w"] by (simp add: ir_inv_queue del: length_kfifo_contents)

lemma ir_inv_fifo: "ir_fifo s' = ir_fifo s \<Longrightarrow> ir_inv base s' = ir_inv base s"
  by (simp add: ir_inv_def ir_ok_def)

lemma ir_inv_reset: "ir_inv base s \<Longrightarrow> ir_fifo s' = kfifo_reset (ir_fifo s) \<Longrightarrow> ir_inv base s'"
  using kfifo_reset_ok [of base 6 "ir_fifo s"] by (simp add: ir_inv_def ir_ok_def)

lemma flush_fifo: "ir_fifo (flush_irrp s) = ir_fifo s"
proof (induction s rule: flush_irrp.induct)
  case (1 s)
  have r: "ir_fifo (snd (read_rp (ir_write 3 MIS_IR_SR t))) = ir_fifo t" for t by (simp add: read_rp_def split: list.split)
  obtain v t where t: "read_sr s = (v, t)" by force
  then have "ir_fifo t = ir_fifo s" by (auto simp: read_sr_def split: list.splits)
  then show ?case using 1 [of "(v, t)" v t] t r by (subst flush_irrp.simps) auto
qed

lemma interrupt_inv:
  assumes "ir_inv base s" "IR_interrupt_handler s = (r, s')" shows "ir_inv base s'"
proof -
  let ?s = "ir_write 0x20 MIS_ISR s"
  have s: "ir_inv base ?s" using assms(1) by (simp add: ir_inv_def ir_ok_def)
  have raw: "ir_inv base (raw_nec_decoder ?s)"
  proof -
    obtain d raw where d: "nec_decode (lastSymbol ?s) (raw_in ?s) = (d, raw)" by force
    let ?t = "?s\<lparr>raw_in := raw\<rparr>"
    have "ir_inv base (ir_put (le32 v) ?t)" for v using s by (intro ir_put_inv) (simp add: ir_inv_def ir_ok_def)
    then have "ir_inv base (ir_put (le32 rep) (ir_put (le32 v) ?t))" "ir_inv base (ir_put (le32 v) ?t)" for v rep by (simp_all add: ir_put_inv)
    then have "ir_inv base ((ir_put (le32 rep) (ir_put (le32 v) ?t))\<lparr>lastSymbol := x\<rparr>)" "ir_inv base ((ir_put (le32 v) ?t)\<lparr>lastSymbol := x\<rparr>)" for v rep x
      by (simp_all add: ir_inv_def ir_ok_def)
    moreover have "ir_inv base (ir_write x MIS_IR_RAW_CTRL t) = ir_inv base t" for x t by (simp add: ir_inv_def ir_ok_def)
    moreover have "ir_inv base ?t" using s by (simp add: ir_inv_def ir_ok_def)
    ultimately show ?thesis using d by (simp add: raw_nec_decoder_def Let_def split: option.split)
  qed
  obtain received t where l: "ir_frames_loop False ?s = (received, t)" by force
  obtain acc lst where a: "accept (now_ms ?s) (debounce ?s) (lastRecvMs ?s) (frames (sr_in ?s) (rp_in ?s)) = (acc, lst)" by force
  have "ir_ok base ?s" using s by (simp add: ir_inv_def)
  note run = ir_frames_loop_run [OF this l a]
  have "4 dvd length (concat (map (frame_words p m) acc))" for p m
    by (induction acc) (auto simp: frame_words_def)
  then have "4 dvd length (ir_queue t)" using run dvd_take64 s by (metis ir_inv_queue)
  then have "ir_inv base t" using run ir_inv_queue by blast
  moreover have "ir_fifo (t\<lparr>ir_wakeups := k\<rparr>) = ir_fifo t" for k by simp
  ultimately have "ir_inv base t" "ir_inv base (t\<lparr>ir_wakeups := k\<rparr>)" for k using ir_inv_fifo by blast+
  then show ?thesis using assms l raw by (auto simp: IR_interrupt_handler_def Let_def split: if_splits)
qed

lemma read_loop_inv:
  "ir_inv base s \<Longrightarrow> ir_inv base (snd (ir_read_loop put_left buf is g (u, s)))"
proof (induction "is" arbitrary: s g u)
  case (Cons i js)
  have k: "kfifo_ok base 6 (ir_fifo s)" "4 dvd length (ir_queue s)" using Cons.prems by (simp_all add: ir_inv_def ir_ok_def)
  obtain bs f where f: "kfifo_get_nolock 4 (ir_fifo s) = (bs, f)" by (cases "kfifo_get_nolock 4 (ir_fifo s)") auto
  have "kfifo_ok base 6 f" "kfifo_contents f = drop 4 (ir_queue s)" using kf.get_inv [OF k(1), of 4] kf.get_contents [OF k(1), of 4] f by simp_all
  moreover have "4 dvd length (drop 4 (ir_queue s))" using k(2) by (simp only: length_drop) (auto elim!: dvdE intro: dvd_diff_nat)
  ultimately have "ir_inv base (s\<lparr>ir_fifo := f\<rparr>)" by (metis ir_inv_def ir_ok_def ir_sys.select_convs(7) ir_sys.surjective ir_sys.update_convs(7) length_kfifo_contents)
  from Cons.IH [OF this] f show ?case by simp
qed simp

lemma ir_step_inv: "ir_step s s' \<Longrightarrow> ir_inv base s \<Longrightarrow> ir_inv base s'"
proof (induction rule: ir_step.induct)
  case (interrupt s r s')
  then show ?case using interrupt_inv by blast
next
  case (open_file s r s')
  then show ?case by (auto simp: venus_ir_open_def intro: ir_inv_reset)
next
  case (read_file s put_left sleep g buf count u r u' s')
  then have "\<exists>js. s' = snd (ir_read_loop put_left buf js (le32 g) (u, s))"
    using wait_for_ready [of "\<lambda>s. kfifo_len (ir_fifo s) > 0" s sleep] by (auto simp: venus_ir_read_def Let_def dest!: arg_cong [where f = snd])
  then show ?case using read_loop_inv read_file(3) by blast
next
  case (ioctl_file access admin mars cmd arg s r s')
  then have "ir_fifo s' = ir_fifo s \<or> ir_fifo s' = kfifo_reset (ir_fifo s)"
    by (auto simp: venus_ir_ioctl_def ir_reinit_def Venus_IR_Init_def Let_def split: if_splits)
  then show ?case using ioctl_file(2) ir_inv_fifo ir_inv_reset by blast
next
  case (suspend s r s')
  then show ?case by (auto simp: venus_ir_suspend_def Let_def ir_inv_def ir_ok_def flush_fifo)
next
  case (resume s r s')
  then show ?case by (auto simp: venus_ir_resume_def Let_def ir_inv_def ir_ok_def flush_fifo)
qed (simp add: ir_inv_def ir_ok_def)

text \<open>A queue of whole words is a list of words.\<close>

lemma words_of: "4 dvd length bs \<Longrightarrow> \<exists>ws. bs = concat (map le32 ws)"
proof (induction "length bs" arbitrary: bs rule: less_induct)
  case less
  show ?case
  proof (cases "bs = []")
    case False
    then have "4 \<le> length bs" using less.prems by (simp add: dvd_imp_le)
    then have "4 dvd length (drop 4 bs)" "length (drop 4 bs) < length bs" "length (take 4 bs) = 4"
      using less.prems by (simp_all add: dvd_diff_nat min_absorb2)
    then obtain ws where ws: "drop 4 bs = concat (map le32 ws)" using less.hyps by blast
    have "bs = le32 (le32_of (take 4 bs)) @ drop 4 bs" using \<open>length (take 4 bs) = 4\<close> by (simp add: le32_le32_of)
    then show ?thesis using ws by (intro exI [of _ "le32_of (take 4 bs) # ws"]) simp
  next
    case True
    then show ?thesis by (intro exI [of _ "[]"]) simp
  qed
qed



section \<open>The module\<close>

lemma ir_fifo_alloc:
  "kfifo_alloc ab a 64 lv =
    Some (case (ab, a) of
        (Some b, Some p) \<Rightarrow> (Inr (p, \<lparr>kf_buffer = b, kf_size = 64, kf_in = 0, kf_out = 0\<rparr>), p # b # lv)
      | _ \<Rightarrow> (Inl (- ENOMEM), lv))"
  by (auto simp: kfifo_alloc_def kfifo_init_def split: option.split)

text \<open>
  Loading the module, with the platform device registered: when every call succeeds it ends with the character device, the interrupt and an empty FIFO in place, and unloading gives back
  everything; when device numbers, memory, the interrupt or the character device are refused, the result is an error
  and nothing is kept. But when the driver cannot be registered the result is that of the device numbers, 0, with no device behind it, and the FIFO is lost.
\<close>

theorem ir_module_load:
  assumes idle: "res_idle r" and plat: "plat_ok env" and dev: "cdev_mem env 50" and region: "region_result env = 0"
    and mem: "buffer_mem env = Some b" "fifo_mem env = Some p"
  shows "if driver_result env \<noteq> 0 then \<exists>s'. venus_ir_init_module env mars (r, s) = Some (0, r\<lparr>live := p # b # live r\<rparr>, s')
    else if irq_result env \<noteq> 0 then \<exists>s'. venus_ir_init_module env mars (r, s) = Some (- EIO, r, s')
    else if cdev_result env 50 \<noteq> 0 then \<exists>s'. venus_ir_init_module env mars (r, s) = Some (- ENOMEM, r, s')
    else \<exists>r' s'. venus_ir_init_module env mars (r, s) = Some (0, r', s') \<and> irq_on r' \<and> 50 \<in> set (cdevs r') \<and> ir_ok b s' \<and> ir_queue s' = [] \<and>
      (\<exists>t. venus_ir_cleanup_module (r', s') = Some (r, t))"
proof -
  let ?f = "\<lparr>kf_buffer = b, kf_size = 64, kf_in = 0, kf_out = 0\<rparr>"
  have free: "kfifo_free (p, ?f) (p # b # live r) = live r" by (simp add: kfifo_free_def)
  have r: "r\<lparr>live := live r\<rparr> = r" by simp
  note undo = undo_idle(1) [OF idle] undo_idle(2,3) [OF idle, of "(p, ?f)" "p # b # live r", unfolded free r]
  show ?thesis
  proof (cases "driver_result env = 0 \<and> irq_result env = 0 \<and> cdev_result env 50 = 0")
    case False
    then show ?thesis using undo plat dev region mem r
      by (auto simp: venus_ir_init_module_def ir_fifo_alloc Let_def free)
  next
    case True
    let ?r = "r\<lparr>region := True, live := p # b # live r, plat_dev := Some True, driver_on := True, irq_on := True, cdevs := 50 # cdevs r, dev_files := 50 # dev_files r\<rparr>"
    let ?s = "snd (Venus_IR_Init mars (ir_protocol s) (s\<lparr>ir_fifo_ptr := p, ir_fifo := (?f, snd (ir_fifo s))\<rparr>))"
    have init: "venus_ir_init_module env mars (r, s) = Some (0, ?r, ?s)"
      using True plat dev region mem by (simp add: venus_ir_init_module_def ir_fifo_alloc Let_def)
    have fifo: "ir_fifo ?s = (?f, snd (ir_fifo s))" "ir_fifo_ptr ?s = p" by (simp_all add: Venus_IR_Init_def)
    then have "ir_ok b ?s" "ir_queue ?s = []" by (simp_all add: ir_ok_def kfifo_ok_def kfifo_len_def kfifo_contents_def Let_def)
    moreover have "\<exists>t. venus_ir_cleanup_module (?r, ?s) = Some (r, t)"
      using undo(3) fifo by (simp add: venus_ir_cleanup_module_def Let_def ir_write_def)
    ultimately show ?thesis using init True by simp
  qed
qed

theorem ir_module_load_witness:
  "\<exists>s'. venus_ir_init_module \<lparr>region_result = 0, buffer_mem = Some 64, fifo_mem = Some 8, plat_ok = True, driver_result = - 12, irq_result = 0,
      cdev_mem = \<lambda>_. True, cdev_result = \<lambda>_. 0\<rparr> True
    (\<lparr>region = False, live = [], plat_dev = None, driver_on = False, irq_on = False, cdevs = [], dev_files = []\<rparr>, sample_ir) =
    Some (0, \<lparr>region = False, live = [8, 64], plat_dev = None, driver_on = False, irq_on = False, cdevs = [], dev_files = []\<rparr>, s')"
  using ir_module_load [of "\<lparr>region = False, live = [], plat_dev = None, driver_on = False, irq_on = False, cdevs = [], dev_files = []\<rparr>"
    "\<lparr>region_result = 0, buffer_mem = Some 64, fifo_mem = Some 8, plat_ok = True, driver_result = - 12, irq_result = 0, cdev_mem = \<lambda>_. True, cdev_result = \<lambda>_. 0\<rparr>"
    64 8 True sample_ir]
  by (simp add: res_idle_def)

end
