(* ===== verification/Vfd.thy ===== *)
theory Vfd
  imports Chardev
begin

text \<open>
  The front panel (\<open>arch/mips/realtek-boards/drivers/venus_vfd.c\<close>): keys and switches that interrupts report in status
  registers are queued by number and read through a device file; two further files write the display and its control register. The state holds the FIFO, the registers
  and the number of wake-ups. The handler runs with interrupts off.
\<close>

section \<open>State\<close>

abbreviation (input) VFD_FIFO_SIZE :: u32 where "VFD_FIFO_SIZE \<equiv> 256"
abbreviation (input) VENUS_VFD_SWITCH_BASE :: u8 where "VENUS_VFD_SWITCH_BASE \<equiv> 128"
abbreviation (input) VENUS_VFD_IOC_MAGIC :: u32 where "VENUS_VFD_IOC_MAGIC \<equiv> 0x72"
abbreviation (input) VENUS_VFD_IOC_MAXNR :: u32 where "VENUS_VFD_IOC_MAXNR \<equiv> 8"
abbreviation (input) VENUS_VFD_MINOR_VFDO :: nat where "VENUS_VFD_MINOR_VFDO \<equiv> 0"
abbreviation (input) VENUS_VFD_MINOR_WRCTL :: nat where "VENUS_VFD_MINOR_WRCTL \<equiv> 1"
abbreviation (input) VENUS_VFD_MINOR_KEYPAD :: nat where "VENUS_VFD_MINOR_KEYPAD \<equiv> 2"

record vfd_sys =
  vfd_fifo_ptr :: nat
  vfd_fifo :: kf_state
  vfd_regs :: mis_regs
  vfd_wakeups :: nat

definition vfd_write :: "u32 \<Rightarrow> mis_reg \<Rightarrow> vfd_sys \<Rightarrow> vfd_sys" where
  "vfd_write v r s = s\<lparr>vfd_regs := mis_write v r (vfd_regs s)\<rparr>"

definition vfd_writes :: "(u32 \<times> mis_reg) list \<Rightarrow> vfd_sys \<Rightarrow> vfd_sys" where
  "vfd_writes ws s = s\<lparr>vfd_regs := mis_writes ws (vfd_regs s)\<rparr>"

definition vfd_put :: "u8 list \<Rightarrow> vfd_sys \<Rightarrow> vfd_sys" where
  "vfd_put bs s = s\<lparr>vfd_fifo := snd (kfifo_put_nolock bs (vfd_fifo s))\<rparr>"

abbreviation vfd_read :: "mis_reg \<Rightarrow> vfd_sys \<Rightarrow> u32" where
  "vfd_read r s \<equiv> mis_val (vfd_regs s) r"

definition venus_vfd_suspend :: "vfd_sys \<Rightarrow> int \<times> vfd_sys" where
  "venus_vfd_suspend s =
     (0, vfd_writes [(0, MIS_VFD_KPADLIE), (0, MIS_VFD_KPADHIE), (0xfffffff0, MIS_UMSK_ISR_KPADAH), (0xfffffff0, MIS_UMSK_ISR_KPADAL)] s)"

definition venus_vfd_resume :: "vfd_sys \<Rightarrow> int \<times> vfd_sys" where
  "venus_vfd_resume s = (0, vfd_writes [(0xffffffff, MIS_VFD_KPADLIE), (0x0000ffff, MIS_VFD_KPADHIE)] s)"

section \<open>The interrupt handler\<close>

text \<open>The number of the lowest bit that is set, counted from 1, or 0.\<close>

definition ffs :: "u32 \<Rightarrow> nat" where
  "ffs w = (case filter (bit w) [0..<32] of [] \<Rightarrow> 0 | i # _ \<Rightarrow> i + 1)"

lemma filter_unset_bit:
  assumes "filter (bit w) [0..<32] = i # js" shows "filter (bit (unset_bit i (w :: u32))) [0..<32] = js"
proof -
  have "distinct (i # js)" using assms by (metis distinct_filter distinct_upt)
  have "filter (bit (unset_bit i w)) [0..<32] = filter (\<lambda>j. j \<noteq> i) (filter (bit w) [0..<32])"
    by (auto simp: bit_unset_bit_iff intro: filter_cong)
  also have "\<dots> = filter (\<lambda>j. j \<noteq> i) js" by (simp add: assms)
  also have "\<dots> = js" using \<open>distinct (i # js)\<close> by (intro filter_True) auto
  finally show ?thesis .
qed

text \<open>The loops over the bits of a status: \<open>base\<close> is added to the number of the bit less 4.\<close>

function scan_keys :: "u8 \<Rightarrow> u32 \<Rightarrow> nat \<times> vfd_sys \<Rightarrow> nat \<times> vfd_sys" where
  "scan_keys base statusRegValue (kfifoAdded, s) =
     (let firstBitNr = ffs statusRegValue in
      if firstBitNr \<noteq> 0 then
        scan_keys base (unset_bit (firstBitNr - 1) statusRegValue) (kfifoAdded + 1, vfd_put [of_nat firstBitNr - 1 - 4 + base] s)
      else (kfifoAdded, s))"
  by pat_completeness auto
termination
  by (relation "measure (\<lambda>(b, v, ns). length (filter (bit v) [0..<32]))")
    (auto simp: ffs_def filter_unset_bit split: list.splits)

declare scan_keys.simps [simp del]

text \<open>The parts of the handler for switches and for keys; the number of keys goes along.\<close>

definition switch_assert :: "nat \<times> vfd_sys \<Rightarrow> nat \<times> vfd_sys" where
  "switch_assert ns =
     (let (added, s) = scan_keys VENUS_VFD_SWITCH_BASE (vfd_read MIS_UMSK_ISR_SW (snd ns) AND 0xf0) ns
      in (added, vfd_writes [(0x00000ff0, MIS_UMSK_ISR_SW), (0x00020000, MIS_ISR)] s))"

definition keypad_assert :: "nat \<times> vfd_sys \<Rightarrow> nat \<times> vfd_sys" where
  "keypad_assert ns =
     (let (added, s) = scan_keys 0 (vfd_read MIS_UMSK_ISR_KPADAL (snd ns) AND 0xfffffff0) ns;
          s = vfd_write 0xfffffff0 MIS_UMSK_ISR_KPADAL s;
          (added, s) = scan_keys 28 (vfd_read MIS_UMSK_ISR_KPADAH s AND 0x00fffff0) (added, s)
      in (added, vfd_writes [(0x00fffff0, MIS_UMSK_ISR_KPADAH), (0x00008000, MIS_ISR)] s))"

definition VFD_interrupt_handler :: "vfd_sys \<Rightarrow> bool \<times> vfd_sys" where
  "VFD_interrupt_handler s =
     (let regValue = vfd_read MIS_ISR s in
      if regValue AND 0x0007c000 \<noteq> 0 then
        let s = (if regValue AND 0x00040000 \<noteq> 0 then vfd_write 0x00040000 MIS_ISR s else s);
            (added, s) = (if regValue AND 0x00020000 \<noteq> 0 then switch_assert (0, s) else (0, s));
            s = (if regValue AND 0x00010000 \<noteq> 0 then
                   vfd_writes [(0x00fffff0, MIS_UMSK_ISR_KPADDAH), (0xfffffff0, MIS_UMSK_ISR_KPADDAL), (0x00010000, MIS_ISR)] s
                 else s);
            (added, s) = (if regValue AND 0x00008000 \<noteq> 0 then keypad_assert (added, s) else (added, s));
            s = (if regValue AND 0x00004000 \<noteq> 0 then vfd_write 0x00004000 MIS_ISR s else s)
        in (True, if added \<noteq> 0 then s\<lparr>vfd_wakeups := vfd_wakeups s + 1\<rparr> else s)
      else (False, s))"

definition Venus_VFD_Init :: "vfd_sys \<Rightarrow> vfd_sys" where
  "Venus_VFD_Init s =
     vfd_writes [(0x00000630, MIS_VFD_ARDCTL), (0xffffffff, MIS_VFD_KPADLIE), (0x0000ffff, MIS_VFD_KPADHIE), (0, MIS_VFD_SWIE), (0x0000000d, MIS_VFD_CTL),
       (0x00fffff0, MIS_UMSK_ISR_KPADDAH), (0xfffffff0, MIS_UMSK_ISR_KPADDAL), (0x00fffff0, MIS_UMSK_ISR_KPADAH), (0xfffffff0, MIS_UMSK_ISR_KPADAL)] s"

section \<open>The device files\<close>

text \<open>
  A write of one register: \<open>mem\<close> says that the temporary buffer was allocated, \<open>get_fault\<close> that \<open>copy_from_user\<close> failed. \<open>u\<close> is user memory.
\<close>

definition venus_vfd_vfdo_write :: "bool \<Rightarrow> (nat \<Rightarrow> nat \<Rightarrow> bool) \<Rightarrow> mem \<Rightarrow> nat \<Rightarrow> nat \<Rightarrow> vfd_sys \<Rightarrow> int \<times> vfd_sys" where
  "venus_vfd_vfdo_write mem get_fault u buf count s =
     (if count \<noteq> 4 then (- EFAULT, s)
      else if \<not> mem then (- ENOMEM, s)
      else if get_fault buf count then (- EFAULT, s)
      else (int count, vfd_write (load32 u buf) MIS_VFDO s))"

definition venus_vfd_wrctl_read :: "(nat \<Rightarrow> nat \<Rightarrow> nat) \<Rightarrow> nat \<Rightarrow> nat \<Rightarrow> mem \<Rightarrow> vfd_sys \<Rightarrow> int \<times> mem" where
  "venus_vfd_wrctl_read put_left buf count u s =
     (if count \<noteq> 4 then (- EFAULT, u)
      else
        let regValue = vfd_read MIS_VFD_WRCTL s;
            u = store buf (take (4 - put_left buf count) (le32 regValue)) u
        in (if put_left buf count \<noteq> 0 then - EFAULT else int count, u))"

definition venus_vfd_wrctl_write :: "bool \<Rightarrow> (nat \<Rightarrow> nat \<Rightarrow> bool) \<Rightarrow> mem \<Rightarrow> nat \<Rightarrow> nat \<Rightarrow> vfd_sys \<Rightarrow> int \<times> vfd_sys" where
  "venus_vfd_wrctl_write mem get_fault u buf count s =
     (if count \<noteq> 4 then (- EFAULT, s)
      else if \<not> mem then (- ENOMEM, s)
      else if get_fault buf count then (- EFAULT, s)
      else (int count, vfd_write (load32 u buf) MIS_VFD_WRCTL s))"

definition venus_vfd_wrctl_ioctl :: "(bool \<Rightarrow> nat \<Rightarrow> nat \<Rightarrow> bool) \<Rightarrow> bool \<Rightarrow> u32 \<Rightarrow> u32 \<Rightarrow> vfd_sys \<Rightarrow> int \<times> vfd_sys" where
  "venus_vfd_wrctl_ioctl access admin cmd arg s =
     (let err = ioctl_checks access admin VENUS_VFD_IOC_MAGIC VENUS_VFD_IOC_MAXNR cmd arg in
      if err \<noteq> 0 then (err, s)
      else if cmd = IOC IOC_NONE VENUS_VFD_IOC_MAGIC 1 0 then (0, vfd_write (vfd_read MIS_VFD_CTL s AND 0xfffffff3) MIS_VFD_CTL s)
      else if cmd = IOC IOC_NONE VENUS_VFD_IOC_MAGIC 2 0 then (0, vfd_write (vfd_read MIS_VFD_CTL s OR 0x0000000c) MIS_VFD_CTL s)
      else (- ENOIOCTLCMD, s))"

definition venus_vfd_keypad_open :: "vfd_sys \<Rightarrow> int \<times> vfd_sys" where
  "venus_vfd_keypad_open s =
     (let s = vfd_writes [(0x00fffff0, MIS_UMSK_ISR_KPADDAH), (0xfffffff0, MIS_UMSK_ISR_KPADDAL), (0x00fffff0, MIS_UMSK_ISR_KPADAH),
                (0xfffffff0, MIS_UMSK_ISR_KPADAL)] s
      in (0, s\<lparr>vfd_fifo := kfifo_reset (vfd_fifo s)\<rparr>))"

text \<open>The loop of a read: \<open>buf\<close> moves on, and \<open>byteBuf\<close> is the local variable. A failing copy is ignored.\<close>

fun keypad_read_loop :: "(nat \<Rightarrow> nat \<Rightarrow> nat) \<Rightarrow> nat \<Rightarrow> nat \<Rightarrow> u8 \<Rightarrow> mem \<times> vfd_sys \<Rightarrow> mem \<times> vfd_sys" where
  "keypad_read_loop put_left 0 buf byteBuf us = us"
| "keypad_read_loop put_left (Suc n) buf byteBuf us =
     (let (u, s) = us;
          (bs, f) = kfifo_get_nolock 1 (vfd_fifo s);
          byteBuf = (case bs of [] \<Rightarrow> byteBuf | b # _ \<Rightarrow> b);
          u = (if put_left buf 1 = 0 then store buf [byteBuf] u else u)
      in keypad_read_loop put_left n (buf + 1) byteBuf (u, s\<lparr>vfd_fifo := f\<rparr>))"

definition venus_vfd_keypad_read ::
  "(nat \<Rightarrow> nat \<Rightarrow> nat) \<Rightarrow> (vfd_sys \<Rightarrow> wake \<times> vfd_sys) \<Rightarrow> u8 \<Rightarrow> nat \<Rightarrow> nat \<Rightarrow> mem \<times> vfd_sys \<Rightarrow> (int \<times> mem \<times> vfd_sys) option" where
  "venus_vfd_keypad_read put_left sleep garbage buf count us =
     (case wait_for (\<lambda>s. kfifo_len (vfd_fifo s) > 0) sleep (snd us) of
        None \<Rightarrow> None
      | Some (False, s) \<Rightarrow> Some (- ERESTARTSYS, fst us, s)
      | Some (True, s) \<Rightarrow>
          let readCount = (if kfifo_len (vfd_fifo s) < count then kfifo_len (vfd_fifo s) else count)
          in Some (int readCount, keypad_read_loop put_left readCount buf garbage (fst us, s)))"

definition venus_vfd_keypad_poll :: "vfd_sys \<Rightarrow> bool" where
  "venus_vfd_keypad_poll s \<longleftrightarrow> kfifo_len (vfd_fifo s) > 0"

section \<open>The module\<close>

definition venus_vfd_init_module :: "mod_env \<Rightarrow> chr_res \<times> vfd_sys \<Rightarrow> (int \<times> chr_res \<times> vfd_sys) option" where
  "venus_vfd_init_module env rs =
     (let (r, s) = rs; result = region_result env in
      if result < 0 then Some (result, r, s)
      else do {
        let r = r\<lparr>region := True\<rparr>;
        (fifo, lv) \<leftarrow> kfifo_alloc (buffer_mem env) (fifo_mem env) VFD_FIFO_SIZE (live r);
        let r = r\<lparr>live := lv\<rparr>;
        case fifo of
          Inl e \<Rightarrow> Some (- ENOMEM, r\<lparr>region := False\<rparr>, s)
        | Inr (p, f) \<Rightarrow> do {
            let s = s\<lparr>vfd_fifo_ptr := p, vfd_fifo := (f, snd (vfd_fifo s))\<rparr>;
            let r = r\<lparr>plat_dev := Some (plat_ok env)\<rparr>;
            if driver_result env \<noteq> 0 then do { r \<leftarrow> undo_devices r; Some (result, r, s) }
            else do {
              let r = r\<lparr>driver_on := True\<rparr>;
              if irq_result env \<noteq> 0 then do { r \<leftarrow> undo_fifo (p, f) r; Some (- EIO, r, s) }
              else do {
                let r = r\<lparr>irq_on := True\<rparr>;
                if \<not> cdev_mem env VENUS_VFD_MINOR_VFDO then None
                else if cdev_result env VENUS_VFD_MINOR_VFDO \<noteq> 0 then do { r \<leftarrow> undo_irq (p, f) r; Some (- ENOMEM, r, s) }
                else if \<not> cdev_mem env VENUS_VFD_MINOR_WRCTL then None
                else do {
                  let r1 = r\<lparr>cdevs := VENUS_VFD_MINOR_VFDO # cdevs r\<rparr>;
                  if cdev_result env VENUS_VFD_MINOR_WRCTL \<noteq> 0 then do {
                    r \<leftarrow> undo_irq (p, f) (r1\<lparr>cdevs := remove1 VENUS_VFD_MINOR_VFDO (cdevs r1)\<rparr>); Some (- ENOMEM, r, s) }
                  else if \<not> cdev_mem env VENUS_VFD_MINOR_KEYPAD then None
                  else do {
                    let r2 = r1\<lparr>cdevs := VENUS_VFD_MINOR_WRCTL # cdevs r1\<rparr>;
                    if cdev_result env VENUS_VFD_MINOR_KEYPAD \<noteq> 0 then do {
                      r \<leftarrow> undo_irq (p, f) (r2\<lparr>cdevs := remove1 VENUS_VFD_MINOR_VFDO (remove1 VENUS_VFD_MINOR_WRCTL (cdevs r2))\<rparr>);
                      Some (- ENOMEM, r, s) }
                    else Some (0, r2\<lparr>cdevs := VENUS_VFD_MINOR_KEYPAD # cdevs r2,
                            dev_files := [VENUS_VFD_MINOR_KEYPAD, VENUS_VFD_MINOR_WRCTL, VENUS_VFD_MINOR_VFDO] @ dev_files r2\<rparr>, Venus_VFD_Init s)
                  }
                }
              }
            }
          }
      })"

definition venus_vfd_cleanup_module :: "chr_res \<times> vfd_sys \<Rightarrow> (chr_res \<times> vfd_sys) option" where
  "venus_vfd_cleanup_module rs =
     (let (r, s) = rs;
          s = vfd_writes [(0, MIS_VFD_KPADLIE), (0, MIS_VFD_KPADHIE), (0, MIS_VFD_CTL)] s;
          r = r\<lparr>dev_files := remove1 VENUS_VFD_MINOR_KEYPAD (remove1 VENUS_VFD_MINOR_WRCTL (remove1 VENUS_VFD_MINOR_VFDO (dev_files r))),
                cdevs := remove1 VENUS_VFD_MINOR_VFDO (remove1 VENUS_VFD_MINOR_WRCTL (remove1 VENUS_VFD_MINOR_KEYPAD (cdevs r)))\<rparr>
      in do { r \<leftarrow> undo_irq (vfd_fifo_ptr s, fst (vfd_fifo s)) r; Some (r, s) })"

end
