(* ===== verification/Vfd_Props.thy ===== *)
theory Vfd_Props
  imports Vfd
begin

text \<open>
  Properties of the front panel driver: every key and switch that an interrupt reports is queued once, in order, and reaches the reader of the
  device file; registers written through the files; loading and unloading.
\<close>

section \<open>Scanning\<close>

definition vfd_ok :: "nat \<Rightarrow> vfd_sys \<Rightarrow> bool" where
  "vfd_ok base s \<longleftrightarrow> kfifo_ok base 8 (vfd_fifo s)"

abbreviation vfd_queue :: "vfd_sys \<Rightarrow> u8 list" where
  "vfd_queue s \<equiv> kfifo_contents (vfd_fifo s)"

lemma vfd_put_ok:
  assumes "vfd_ok base s" "length bs < 2 ^ 32"
  shows "vfd_ok base (vfd_put bs s)" "vfd_queue (vfd_put bs s) = take 256 (vfd_queue s @ bs)"
  using kf.put_inv [of base 8 "vfd_fifo s" bs] kf.put_contents [of base 8 "vfd_fifo s" bs] assms by (simp_all add: vfd_ok_def vfd_put_def)

lemma vfd_write_same [simp]:
  "vfd_fifo (vfd_write v r s) = vfd_fifo s" "vfd_wakeups (vfd_write v r s) = vfd_wakeups s"
  "vfd_fifo (vfd_writes ws s) = vfd_fifo s" "vfd_wakeups (vfd_writes ws s) = vfd_wakeups s"
  "vfd_ok base (vfd_write v r s) = vfd_ok base s" "vfd_ok base (vfd_writes ws s) = vfd_ok base s"
  by (simp_all add: vfd_write_def vfd_writes_def vfd_ok_def)

text \<open>Writing flags does not change the status registers.\<close>

lemma status_kept [simp]:
  "vfd_read MIS_UMSK_ISR_SW (vfd_write v r s) = vfd_read MIS_UMSK_ISR_SW s"
  "vfd_read MIS_UMSK_ISR_KPADAL (vfd_write v r s) = vfd_read MIS_UMSK_ISR_KPADAL s"
  "vfd_read MIS_UMSK_ISR_KPADAH (vfd_write v r s) = vfd_read MIS_UMSK_ISR_KPADAH s"
  "vfd_read MIS_UMSK_ISR_KPADAL (vfd_writes ws s) = vfd_read MIS_UMSK_ISR_KPADAL s"
  "vfd_read MIS_UMSK_ISR_KPADAH (vfd_writes ws s) = vfd_read MIS_UMSK_ISR_KPADAH s"
proof -
  have one: "mis_val (mis_write v r g) MIS_UMSK_ISR_KPADAL = mis_val g MIS_UMSK_ISR_KPADAL"
    "mis_val (mis_write v r g) MIS_UMSK_ISR_KPADAH = mis_val g MIS_UMSK_ISR_KPADAH"
    "mis_val (mis_write v r g) MIS_UMSK_ISR_SW = mis_val g MIS_UMSK_ISR_SW" for v r g by (simp_all add: mis_write_def)
  then show "vfd_read MIS_UMSK_ISR_SW (vfd_write v r s) = vfd_read MIS_UMSK_ISR_SW s"
    "vfd_read MIS_UMSK_ISR_KPADAL (vfd_write v r s) = vfd_read MIS_UMSK_ISR_KPADAL s"
    "vfd_read MIS_UMSK_ISR_KPADAH (vfd_write v r s) = vfd_read MIS_UMSK_ISR_KPADAH s" by (simp_all add: vfd_write_def)
  have "mis_val (mis_writes ws g) MIS_UMSK_ISR_KPADAL = mis_val g MIS_UMSK_ISR_KPADAL"
    "mis_val (mis_writes ws g) MIS_UMSK_ISR_KPADAH = mis_val g MIS_UMSK_ISR_KPADAH" for g
    unfolding mis_writes_def by (induction ws arbitrary: g) (auto simp: one)
  then show "vfd_read MIS_UMSK_ISR_KPADAL (vfd_writes ws s) = vfd_read MIS_UMSK_ISR_KPADAL s"
    "vfd_read MIS_UMSK_ISR_KPADAH (vfd_writes ws s) = vfd_read MIS_UMSK_ISR_KPADAH s" by (simp_all add: vfd_writes_def)
qed

lemma scan_keys_run:
  assumes "vfd_ok base s" "scan_keys kb v (n, s) = (n', s')"
  shows "vfd_ok base s' \<and> vfd_queue s' = take 256 (vfd_queue s @ map (\<lambda>i. of_nat i - 4 + kb) (filter (bit v) [0..<32])) \<and>
    n' = n + length (filter (bit v) [0..<32]) \<and> vfd_regs s' = vfd_regs s \<and> vfd_wakeups s' = vfd_wakeups s"
  using assms
proof (induction "length (filter (bit v) [0..<32])" arbitrary: v n s)
  case 0
  then have "ffs v = 0" by (simp add: ffs_def)
  moreover have "length (vfd_queue s) \<le> 256" using kf.contents_bound [of base 8 "vfd_fifo s"] 0(2) by (simp add: vfd_ok_def)
  ultimately show ?case using 0 by (simp add: scan_keys.simps)
next
  case (Suc m)
  obtain i js where f: "filter (bit v) [0..<32] = i # js" using Suc.hyps(2) by (cases "filter (bit v) [0..<32]") auto
  let ?s = "vfd_put [of_nat i - 4 + kb] s"
  have ok: "vfd_ok base ?s" "vfd_queue ?s = take 256 (vfd_queue s @ [of_nat i - 4 + kb])" using vfd_put_ok [OF Suc.prems(1), of "[of_nat i - 4 + kb]"] by simp_all
  have step: "scan_keys kb (unset_bit i v) (n + 1, ?s) = (n', s')" using Suc.prems(2) f by (subst (asm) scan_keys.simps) (simp add: ffs_def Let_def)
  have "m = length (filter (bit (unset_bit i v)) [0..<32])" using Suc.hyps(2) f filter_unset_bit [OF f] by simp
  from Suc.hyps(1) [OF this ok(1) step] ok(2) show ?case
    using f filter_unset_bit [OF f] by (simp add: take_append_take vfd_put_def del: take_append)
qed

text \<open>The bits above the lowest four of a status, as numbers of keys.\<close>

lemma status_keys:
  assumes "m = push_bit 4 (mask n)" "n \<le> 28"
  shows "filter (bit ((v :: u32) AND m)) [0..<32] = map (\<lambda>k. k + 4) (filter (\<lambda>k. bit v (k + 4)) [0..<n])"
proof -
  have "[0..<32] = [0..<4] @ map (\<lambda>k. k + 4) [0..<n] @ [n + 4..<32]"
  proof -
    have "[0..<32] = [0..<4] @ [4..<n + 4] @ [n + 4..<32]" using assms(2) upt_add_eq_append [of 0 4 28] upt_add_eq_append [of 4 "n + 4" "28 - n"] by (simp del: upt_conv_Cons)
    moreover have "[4..<n + 4] = map (\<lambda>k. k + 4) [0..<n]" by (simp add: map_add_upt)
    ultimately show ?thesis by simp
  qed
  moreover have "filter (bit (v AND m)) [0..<4] = []" "filter (bit (v AND m)) [n + 4..<32] = []"
    by (auto simp: filter_empty_conv assms(1) bit_and_iff bit_push_bit_iff bit_mask_iff)
  moreover have "filter (bit (v AND m)) (map (\<lambda>k. k + 4) [0..<n]) = map (\<lambda>k. k + 4) (filter (\<lambda>k. bit v (k + 4)) [0..<n])"
    using assms(2) by (auto simp: filter_map o_def assms(1) bit_and_iff bit_push_bit_iff bit_mask_iff intro!: filter_cong)
  ultimately show ?thesis by simp
qed

text \<open>The keys that three status registers report: switches from 128 on, the keys 0 to 27 and the keys 28 to 47.\<close>

definition switch_keys :: "u32 \<Rightarrow> u8 list" where
  "switch_keys sw = map (\<lambda>k. 128 + of_nat k) (filter (\<lambda>k. bit sw (k + 4)) [0..<4])"

definition pad_keys :: "u32 \<Rightarrow> u32 \<Rightarrow> u8 list" where
  "pad_keys lo hi = map of_nat (filter (\<lambda>k. bit lo (k + 4)) [0..<28] @ filter (\<lambda>k. bit hi (k - 28 + 4)) [28..<48])"

lemma scan_masks:
  "map (\<lambda>i. of_nat i - 4 + 128) (filter (bit (v AND 0xf0)) [0..<32]) = switch_keys v"
  "map (\<lambda>i. of_nat i - 4 + 0) (filter (bit (v AND 0xfffffff0)) [0..<32]) @ map (\<lambda>i. of_nat i - 4 + 28) (filter (bit (w AND 0x00fffff0)) [0..<32]) = pad_keys v w"
proof -
  have m: "(0xf0 :: u32) = push_bit 4 (mask 4)" "(0xfffffff0 :: u32) = push_bit 4 (mask 28)" "(0x00fffff0 :: u32) = push_bit 4 (mask 20)"
    by code_simp+
  show "map (\<lambda>i. of_nat i - 4 + 128) (filter (bit (v AND 0xf0)) [0..<32]) = switch_keys v"
    unfolding m(1) by (subst status_keys [OF refl]) (simp_all add: switch_keys_def)
  have h: "[28..<48] = map (\<lambda>k. k + 28) [0..<20]" by (simp add: map_add_upt)
  show "map (\<lambda>i. of_nat i - 4 + 0) (filter (bit (v AND 0xfffffff0)) [0..<32]) @ map (\<lambda>i. of_nat i - 4 + 28) (filter (bit (w AND 0x00fffff0)) [0..<32]) = pad_keys v w"
    unfolding m(2,3) pad_keys_def h
    by (subst status_keys [OF refl], simp, subst status_keys [OF refl], simp) (simp add: filter_map o_def)
qed

lemma scan_switch:
  assumes "vfd_ok base s"
  shows "\<exists>s'. scan_keys 128 (v AND 0xf0) (n, s) = (n + length (switch_keys v), s') \<and> vfd_ok base s' \<and>
    vfd_queue s' = take 256 (vfd_queue s @ switch_keys v) \<and> vfd_regs s' = vfd_regs s \<and> vfd_wakeups s' = vfd_wakeups s"
proof -
  obtain n' s' where r: "scan_keys 128 (v AND 0xf0) (n, s) = (n', s')" by force
  have "length (switch_keys v) = length (filter (bit (v AND 0xf0)) [0..<32])" by (simp only: scan_masks(1) [of v, symmetric] length_map)
  then show ?thesis using scan_keys_run [OF assms r] scan_masks(1) r by auto
qed

lemma scan_pad:
  assumes "vfd_ok base s"
  shows "\<exists>n1 s1 s2. scan_keys 0 (lo AND 0xfffffff0) (n, s) = (n1, s1) \<and> vfd_regs s1 = vfd_regs s \<and>
    scan_keys 28 (hi AND 0x00fffff0) (n1, vfd_write x r s1) = (n + length (pad_keys lo hi), s2) \<and> vfd_ok base s2 \<and>
    vfd_queue s2 = take 256 (vfd_queue s @ pad_keys lo hi) \<and> vfd_wakeups s2 = vfd_wakeups s"
proof -
  obtain n1 s1 where r1: "scan_keys 0 (lo AND 0xfffffff0) (n, s) = (n1, s1)" by force
  note a = scan_keys_run [OF assms r1]
  obtain n2 s2 where r2: "scan_keys 28 (hi AND 0x00fffff0) (n1, vfd_write x r s1) = (n2, s2)" by force
  have "vfd_ok base (vfd_write x r s1)" using a by simp
  note b = scan_keys_run [OF this r2]
  have "length (pad_keys lo hi) = length (filter (bit (lo AND 0xfffffff0)) [0..<32]) + length (filter (bit (hi AND 0x00fffff0)) [0..<32])"
    by (simp only: scan_masks(2) [of lo hi, symmetric] length_append length_map)
  moreover have "vfd_queue s2 = take 256 (vfd_queue s @ pad_keys lo hi)"
    by (simp only: b [THEN conjunct2, THEN conjunct1] a [THEN conjunct2, THEN conjunct1] vfd_write_same take_append_take scan_masks(2))
  moreover have "n2 = n1 + length (filter (bit (hi AND 0x00fffff0)) [0..<32])" "n1 = n + length (filter (bit (lo AND 0xfffffff0)) [0..<32])"
    "vfd_ok base s2" "vfd_regs s1 = vfd_regs s" "vfd_wakeups s2 = vfd_wakeups s" using a b by (simp_all only: vfd_write_same)
  ultimately show ?thesis using r1 r2 by (intro exI [of _ n1] exI [of _ s1] exI [of _ s2]) (simp only: simp_thms add.assoc)
qed

text \<open>Both parts: the keys they add, and the status they leave.\<close>

lemma switch_assert_run:
  assumes "vfd_ok base s"
  shows "\<exists>s'. switch_assert (n, s) = (n + length (switch_keys (vfd_read MIS_UMSK_ISR_SW s)), s') \<and> vfd_ok base s' \<and>
    vfd_queue s' = take 256 (vfd_queue s @ switch_keys (vfd_read MIS_UMSK_ISR_SW s)) \<and> vfd_wakeups s' = vfd_wakeups s \<and>
    vfd_read MIS_UMSK_ISR_KPADAL s' = vfd_read MIS_UMSK_ISR_KPADAL s \<and> vfd_read MIS_UMSK_ISR_KPADAH s' = vfd_read MIS_UMSK_ISR_KPADAH s"
  using scan_switch [OF assms, of "vfd_read MIS_UMSK_ISR_SW s" n] by (auto simp: switch_assert_def)

lemma keypad_assert_run:
  assumes "vfd_ok base s"
  shows "\<exists>s'. keypad_assert (n, s) = (n + length (pad_keys (vfd_read MIS_UMSK_ISR_KPADAL s) (vfd_read MIS_UMSK_ISR_KPADAH s)), s') \<and> vfd_ok base s' \<and>
    vfd_queue s' = take 256 (vfd_queue s @ pad_keys (vfd_read MIS_UMSK_ISR_KPADAL s) (vfd_read MIS_UMSK_ISR_KPADAH s)) \<and> vfd_wakeups s' = vfd_wakeups s"
  using scan_pad [OF assms, where lo = "vfd_read MIS_UMSK_ISR_KPADAL s" and n = n and hi = "vfd_read MIS_UMSK_ISR_KPADAH s" and x = "0xfffffff0"
    and r = MIS_UMSK_ISR_KPADAL]
  by (auto simp: keypad_assert_def)


text \<open>A panel on which the switch 1 and the keys 2, 27 and 30 are reported.\<close>

definition sample_vfd :: vfd_sys where
  "sample_vfd = \<lparr>vfd_fifo_ptr = 8, vfd_fifo = (\<lparr>kf_buffer = 1024, kf_size = 256, kf_in = 0, kf_out = 0\<rparr>, \<lambda>_. 0),
     vfd_regs = \<lparr>mis_val = \<lambda>r. if r = MIS_ISR then 0x28000 else if r = MIS_UMSK_ISR_SW then 0x20 else if r = MIS_UMSK_ISR_KPADAL then 0x80000041
       else if r = MIS_UMSK_ISR_KPADAH then 0xff000040 else 0, mis_log = []\<rparr>, vfd_wakeups = 0\<rparr>"

lemma sample_vfd_ok: "vfd_ok 1024 sample_vfd" "vfd_queue sample_vfd = []" "vfd_wakeups sample_vfd = 0" "kfifo_len (vfd_fifo sample_vfd) = 0"
  by (simp_all add: vfd_ok_def sample_vfd_def kfifo_ok_def kfifo_len_def kfifo_contents_def)


section \<open>Reading\<close>

lemma keypad_read_loop_run:
  assumes "vfd_ok base s" "n \<le> length (vfd_queue s)"
  shows "\<exists>s'. keypad_read_loop (\<lambda>_ _. 0) n buf g (u, s) = (store buf (take n (vfd_queue s)) u, s') \<and> vfd_ok base s' \<and>
    vfd_queue s' = drop n (vfd_queue s)"
  using assms
proof (induction n arbitrary: s buf g u)
  case (Suc n)
  obtain b bs where q: "vfd_queue s = b # bs" using Suc.prems(2) by (cases "vfd_queue s") auto
  have k: "kfifo_ok base 8 (vfd_fifo s)" using Suc.prems(1) by (simp add: vfd_ok_def)
  obtain xs f where f: "kfifo_get_nolock 1 (vfd_fifo s) = (xs, f)" by (cases "kfifo_get_nolock 1 (vfd_fifo s)") auto
  have g: "xs = [b]" "kfifo_ok base 8 f" "kfifo_contents f = bs"
    using kf.get_data [OF k, of 1] kf.get_inv [OF k, of 1] kf.get_contents [OF k, of 1] f q by simp_all
  then have "vfd_ok base (s\<lparr>vfd_fifo := f\<rparr>)" "n \<le> length (vfd_queue (s\<lparr>vfd_fifo := f\<rparr>))"
    using Suc.prems(2) q by (simp_all add: vfd_ok_def del: length_kfifo_contents)
  from Suc.IH [OF this, of "buf + 1" b "store buf [b] u"] show ?case
    using f g q store_append [of buf "[b]" "take n bs" u] by auto
qed simp

text \<open>
  What the handler queues is what a process reads: a read waits for a key, copies the oldest ones to the caller, as many as fit into its buffer, in order, and leaves the
  others in the FIFO; a signal ends the wait with \<open>-ERESTARTSYS\<close> and nothing taken.
\<close>

theorem vfd_keys_read:
  assumes "wait_for (\<lambda>s. kfifo_len (vfd_fifo s) > 0) sleep s = Some (ready, t)" "vfd_ok base t" "n = min (length (vfd_queue t)) count"
  shows "if ready
    then 0 < length (vfd_queue t) \<and> (\<exists>s'. venus_vfd_keypad_read (\<lambda>_ _. 0) sleep g buf count (u, s) = Some (int n, store buf (take n (vfd_queue t)) u, s') \<and>
      vfd_ok base s' \<and> vfd_queue s' = drop n (vfd_queue t))
    else venus_vfd_keypad_read (\<lambda>_ _. 0) sleep g buf count (u, s) = Some (- ERESTARTSYS, u, t)"
proof (cases ready)
  case True
  have "n = (if kfifo_len (vfd_fifo t) < count then kfifo_len (vfd_fifo t) else count)" using assms(3) by (simp add: min_def)
  moreover have "0 < kfifo_len (vfd_fifo t)" using wait_for_true [OF assms(1)] True by simp
  moreover obtain s' where "keypad_read_loop (\<lambda>_ _. 0) n buf g (u, t) = (store buf (take n (vfd_queue t)) u, s')" "vfd_ok base s'"
    "vfd_queue s' = drop n (vfd_queue t)" using keypad_read_loop_run [OF assms(2), of n buf g u] assms(3) by auto
  ultimately show ?thesis using assms(1) True by (simp add: venus_vfd_keypad_read_def Let_def)
next
  case False
  then show ?thesis using assms(1) by (simp add: venus_vfd_keypad_read_def)
qed

theorem vfd_keys_read_witness:
  "\<exists>s'. venus_vfd_keypad_read (\<lambda>_ _. 0) (\<lambda>s. (Woken, vfd_put [5, 6, 7] s)) 0 100 2 ((\<lambda>_. 0), sample_vfd) = Some (2, store 100 [5, 6] (\<lambda>_. 0), s') \<and>
    vfd_queue s' = [7]"
proof -
  let ?t = "vfd_put [5, 6, 7] sample_vfd"
  have t: "vfd_ok 1024 ?t" "vfd_queue ?t = [5, 6, 7]"
    using vfd_put_ok [OF sample_vfd_ok(1), of "[5, 6, 7]"] sample_vfd_ok(2) by simp_all
  have "kfifo_len (vfd_fifo ?t) = 3" using arg_cong [OF t(2), of length] by simp
  then have "wait_for (\<lambda>s. kfifo_len (vfd_fifo s) > 0) (\<lambda>s. (Woken, vfd_put [5, 6, 7] s)) sample_vfd = Some (True, ?t)"
    by (subst wait_for.simps) (simp add: sample_vfd_ok(4) wait_for_ready)
  from vfd_keys_read [OF this t(1) refl, where count = 2 and g = 0 and buf = 100 and u = "\<lambda>_. 0"] show ?thesis by (auto simp: t(2) simp del: length_kfifo_contents)
qed

section \<open>Registers and the module\<close>

text \<open>The control register reads back what was written through its file.\<close>

lemma wrctl_round_trip:
  assumes "venus_vfd_wrctl_write True (\<lambda>_ _. False) u buf 4 s = (r, s')"
  shows "venus_vfd_wrctl_read (\<lambda>_ _. 0) buf' 4 v s' = (4, store buf' (load u buf 4) v)"
  using assms by (auto simp: venus_vfd_wrctl_write_def venus_vfd_wrctl_read_def vfd_write_def mis_write_def load32_def)

lemma vfd_fifo_alloc:
  "kfifo_alloc (Some b) (Some p) 256 lv = Some (Inr (p, \<lparr>kf_buffer = b, kf_size = 256, kf_in = 0, kf_out = 0\<rparr>), p # b # lv)"
  by (simp add: kfifo_alloc_def kfifo_init_def)

text \<open>
  Loading the module: as for the infrared receiver, with three character devices.
\<close>

theorem vfd_module_load:
  assumes idle: "res_idle r" and plat: "plat_ok env" and dev: "\<forall>i. cdev_mem env i" and region: "region_result env = 0"
    and mem: "buffer_mem env = Some b" "fifo_mem env = Some p"
  shows "if driver_result env \<noteq> 0 then \<exists>s'. venus_vfd_init_module env (r, s) = Some (0, r\<lparr>live := p # b # live r\<rparr>, s')
    else if irq_result env \<noteq> 0 then \<exists>s'. venus_vfd_init_module env (r, s) = Some (- EIO, r, s')
    else if \<exists>i < 3. cdev_result env i \<noteq> 0 then \<exists>s'. venus_vfd_init_module env (r, s) = Some (- ENOMEM, r, s')
    else \<exists>r' s'. venus_vfd_init_module env (r, s) = Some (0, r', s') \<and> irq_on r' \<and> {0, 1, 2} \<subseteq> set (cdevs r') \<and> vfd_ok b s' \<and> vfd_queue s' = [] \<and>
      (\<exists>t. venus_vfd_cleanup_module (r', s') = Some (r, t))"
proof -
  let ?f = "\<lparr>kf_buffer = b, kf_size = 256, kf_in = 0, kf_out = 0\<rparr>"
  have free: "kfifo_free (p, ?f) (p # b # live r) = live r" by (simp add: kfifo_free_def)
  have r: "r\<lparr>live := live r\<rparr> = r" by simp
  note undo = undo_idle(1) [OF idle] undo_idle(2,3) [OF idle, of "(p, ?f)" "p # b # live r", unfolded free r]
  have three: "(\<exists>i < 3. cdev_result env i \<noteq> 0) \<longleftrightarrow> cdev_result env 0 \<noteq> 0 \<or> cdev_result env 1 \<noteq> 0 \<or> cdev_result env 2 \<noteq> 0"
    by (auto simp: numeral_3_eq_3 less_Suc_eq numeral_2_eq_2)
  show ?thesis
  proof (cases "driver_result env = 0 \<and> irq_result env = 0 \<and> \<not> (\<exists>i < 3. cdev_result env i \<noteq> 0)")
    case False
    then show ?thesis unfolding three using undo plat dev region mem r
      by (auto simp: venus_vfd_init_module_def vfd_fifo_alloc Let_def free)
  next
    case True
    let ?r = "r\<lparr>region := True, live := p # b # live r, plat_dev := Some True, driver_on := True, irq_on := True, cdevs := 2 # 1 # 0 # cdevs r,
      dev_files := 2 # 1 # 0 # dev_files r\<rparr>"
    let ?s = "Venus_VFD_Init (s\<lparr>vfd_fifo_ptr := p, vfd_fifo := (?f, snd (vfd_fifo s))\<rparr>)"
    have init: "venus_vfd_init_module env (r, s) = Some (0, ?r, ?s)"
      using True plat dev region mem unfolding three by (simp add: venus_vfd_init_module_def vfd_fifo_alloc Let_def)
    have fifo: "vfd_fifo ?s = (?f, snd (vfd_fifo s))" "vfd_fifo_ptr ?s = p" by (simp_all add: Venus_VFD_Init_def vfd_writes_def)
    then have "vfd_ok b ?s" "vfd_queue ?s = []" by (simp_all add: vfd_ok_def kfifo_ok_def kfifo_len_def kfifo_contents_def Let_def)
    moreover have "\<exists>t. venus_vfd_cleanup_module (?r, ?s) = Some (r, t)"
      using undo(3) fifo by (simp add: venus_vfd_cleanup_module_def Let_def vfd_writes_def)
    ultimately show ?thesis using init True by simp
  qed
qed

end
