(* ===== verification/I2c_Slave.thy ===== *)
theory I2c_Slave
  imports Chardev
begin

text \<open>
  The I2C slave (\<open>arch/mips/realtek-boards/drivers/venus_i2cslave.c\<close>): 32 registers of up to eight bytes in kernel memory, which the master of the bus
  reads and writes through interrupts and processes through a device file. What the level, data and status registers of the controller give when they
  are read one after the other are lists; behind the end of the list the level is 0 and data is 0. The wait for room in the transmit FIFO reads the status until
  there is room or the time is past; a list of statuses that ends first is a wait that does not end. The handler runs with interrupts off, so
  that \<open>jiffies\<close> does not change in it. \<open>None\<close> is an access outside an array or a null pointer, or an endless wait.
\<close>

section \<open>State\<close>

abbreviation (input) MAX_REGISTER :: nat where "MAX_REGISTER \<equiv> 32"
abbreviation (input) WAIT_TIME :: u32 where "WAIT_TIME \<equiv> 400"
abbreviation (input) RX_DONE_BIT :: u32 where "RX_DONE_BIT \<equiv> 0x80"
abbreviation (input) RD_REQ_BIT :: u32 where "RD_REQ_BIT \<equiv> 0x20"
abbreviation (input) RX_FULL_BIT :: u32 where "RX_FULL_BIT \<equiv> 4"
abbreviation (input) VENUS_I2C_IOC_MAGIC :: u32 where "VENUS_I2C_IOC_MAGIC \<equiv> 0x6b"
abbreviation (input) VENUS_I2C_IOC_MAXNR :: u32 where "VENUS_I2C_IOC_MAXNR \<equiv> 4"
abbreviation (input) VENUS_I2C_MINOR :: nat where "VENUS_I2C_MINOR \<equiv> 1"

datatype ic_reg = I2C_MIS_ISR | IC_CON | IC_SAR | IC_DATA_CMD | IC_SS_SCL_HCNT | IC_SS_SCL_LCNT | IC_INTR_STAT | IC_INTR_MASK | IC_RX_TL | IC_CLR_INTR |
  IC_CLR_RX_UNDER | IC_CLR_TX_OVER | IC_CLR_RD_REQ | IC_CLR_RX_DONE | IC_CLR_ACTIVITY | IC_CLR_GEN_CALL | IC_ENABLE | IC_STATUS | IC_RXFLR

text \<open>Accesses that act on the hardware: a write, and a read that clears a flag.\<close>

datatype ic_event = Wr ic_reg u32 | Rd ic_reg

record RegProperty =
  RDFlag :: u8
  reg_width :: u8
  pAddr :: nat

record i2c_sys =
  RegPro :: "RegProperty list"
  RecvDataBuf :: "u8 list"
  pRegister :: "nat option"
  i2c_mem :: mem
  i2c_isr :: u32
  i2c_stat :: u32
  i2c_level :: "u32 list"
  i2c_data :: "u32 list"
  i2c_status :: "u32 list"
  i2c_jiffies :: u32
  i2c_log :: "ic_event list"

definition ic_do :: "ic_event \<Rightarrow> i2c_sys \<Rightarrow> i2c_sys" where
  "ic_do e s = s\<lparr>i2c_log := i2c_log s @ [e]\<rparr>"

definition read_level :: "i2c_sys \<Rightarrow> nat \<times> i2c_sys" where
  "read_level s = (case i2c_level s of [] \<Rightarrow> (0, s) | v # vs \<Rightarrow> (unat v, s\<lparr>i2c_level := vs\<rparr>))"

definition read_data :: "i2c_sys \<Rightarrow> u8 \<times> i2c_sys" where
  "read_data s = (case i2c_data s of [] \<Rightarrow> (0, s) | v # vs \<Rightarrow> (ucast (v AND 0xff), s\<lparr>i2c_data := vs\<rparr>))"

definition reg_pro :: "nat \<Rightarrow> i2c_sys \<Rightarrow> RegProperty option" where
  "reg_pro i s = (if i < length (RegPro s) then Some (RegPro s ! i) else None)"

text \<open>The size of a register: \<open>1 << width\<close> in an \<open>unsigned char\<close>.\<close>

definition reg_size :: "RegProperty \<Rightarrow> u8" where
  "reg_size p = ucast (push_bit (unat (reg_width p)) (1 :: u32))"

section \<open>Power and the device file\<close>

definition venus_i2cslave_suspend :: "i2c_sys \<Rightarrow> int \<times> i2c_sys" where
  "venus_i2cslave_suspend s = (0, ic_do (Wr IC_ENABLE 0) s)"

definition venus_i2cslave_resume :: "i2c_sys \<Rightarrow> int \<times> i2c_sys" where
  "venus_i2cslave_resume s = (0, ic_do (Wr IC_ENABLE 1) s)"

text \<open>
  \<open>left\<close> is the number of bytes a copy between user and kernel leaves behind; those missing from the user are zeroed. The argument is read through the user's pointer.
\<close>

definition i2c_config :: "mem \<Rightarrow> nat \<Rightarrow> i2c_sys \<Rightarrow> (int \<times> i2c_sys) option" where
  "i2c_config u arg s =
     (let RegIndex = unat (u arg) in
      if RegIndex > MAX_REGISTER then Some (- EFAULT, s)
      else if u (arg + 1) > 2 then Some (- EFAULT, s)
      else if u (arg + 2) > 3 then Some (- EFAULT, s)
      else do {
        p \<leftarrow> reg_pro RegIndex s;
        Some (0, s\<lparr>RegPro := (RegPro s)[RegIndex := p\<lparr>RDFlag := u (arg + 1), reg_width := u (arg + 2)\<rparr>]\<rparr>)
      })"

definition i2c_user_read :: "(nat \<Rightarrow> nat \<Rightarrow> nat) \<Rightarrow> nat \<Rightarrow> mem \<Rightarrow> i2c_sys \<Rightarrow> (int \<times> mem) option" where
  "i2c_user_read left arg u s =
     (let RegIndex = unat (u arg) in
      if RegIndex > MAX_REGISTER then Some (- EFAULT, u)
      else do {
        p \<leftarrow> reg_pro RegIndex s;
        if RDFlag p \<noteq> 0 \<and> RDFlag p \<noteq> 2 then Some (- EFAULT, u)
        else if reg_size p > 8 then Some (- EFAULT, u)
        else
          let n = unat (reg_size p); l = left (arg + 1) n
          in Some (if l \<noteq> 0 then - EFAULT else 0, store (arg + 1) (take (n - l) (load (i2c_mem s) (pAddr p) n)) u)
      })"

definition i2c_user_write :: "(nat \<Rightarrow> nat \<Rightarrow> nat) \<Rightarrow> mem \<Rightarrow> nat \<Rightarrow> i2c_sys \<Rightarrow> (int \<times> i2c_sys) option" where
  "i2c_user_write left u arg s =
     (let RegIndex = unat (u arg) in
      if RegIndex > MAX_REGISTER then Some (- EFAULT, s)
      else do {
        p \<leftarrow> reg_pro RegIndex s;
        if RDFlag p \<noteq> 0 \<and> RDFlag p \<noteq> 1 then Some (- EFAULT, s)
        else if reg_size p > 8 then Some (- EFAULT, s)
        else
          let n = unat (reg_size p); l = left (arg + 1) n
          in Some (if l \<noteq> 0 then - EFAULT else 0,
               s\<lparr>i2c_mem := store (pAddr p) (take (n - l) (load u (arg + 1) n) @ replicate l 0) (i2c_mem s)\<rparr>)
      })"

definition i2cslave_venus_ioctl ::
  "(bool \<Rightarrow> nat \<Rightarrow> nat \<Rightarrow> bool) \<Rightarrow> bool \<Rightarrow> (nat \<Rightarrow> nat \<Rightarrow> nat) \<Rightarrow> u32 \<Rightarrow> u32 \<Rightarrow> mem \<times> i2c_sys \<Rightarrow> (int \<times> mem \<times> i2c_sys) option" where
  "i2cslave_venus_ioctl access admin left cmd arg us =
     (let (u, s) = us;
          err = ioctl_checks access admin VENUS_I2C_IOC_MAGIC VENUS_I2C_IOC_MAXNR cmd arg
      in
      if err \<noteq> 0 then Some (err, u, s)
      else if cmd = IOC IOC_WRITE VENUS_I2C_IOC_MAGIC 1 4 then map_option (\<lambda>(r, s). (r, u, s)) (i2c_config u (unat arg) s)
      else if cmd = IOC IOC_READ VENUS_I2C_IOC_MAGIC 2 4 then map_option (\<lambda>(r, u). (r, u, s)) (i2c_user_read left (unat arg) u s)
      else if cmd = IOC IOC_WRITE VENUS_I2C_IOC_MAGIC 3 4 then map_option (\<lambda>(r, s). (r, u, s)) (i2c_user_write left u (unat arg) s)
      else Some (- ENOIOCTLCMD, u, s))"

section \<open>The interrupt handler\<close>

definition jiffies_after :: "u32 \<Rightarrow> u32 \<Rightarrow> bool" where
  "jiffies_after a b \<longleftrightarrow> sint (b - a) < 0"

text \<open>Waiting for room in the transmit FIFO: whether there is room.\<close>

fun wait_room :: "u32 list \<Rightarrow> u32 \<Rightarrow> (bool \<times> u32 list) option" where
  "wait_room [] j = None"
| "wait_room (v # vs) j =
     (if v AND 2 \<noteq> 0 then Some (True, vs) else if jiffies_after j WAIT_TIME then Some (False, vs) else wait_room vs j)"

text \<open>The loop that sends a register; \<open>False\<close> when it gave up.\<close>

fun send_loop :: "nat list \<Rightarrow> i2c_sys \<Rightarrow> (bool \<times> i2c_sys) option" where
  "send_loop [] s = Some (True, s)"
| "send_loop (a # as) s = do {
     (room, vs) \<leftarrow> wait_room (i2c_status s) (i2c_jiffies s);
     let s = s\<lparr>i2c_status := vs\<rparr>;
     if room then send_loop as (ic_do (Wr IC_DATA_CMD (ucast (i2c_mem s a))) s)
     else Some (False, s)
   }"

definition i2c_read_request :: "i2c_sys \<Rightarrow> i2c_sys option" where
  "i2c_read_request s =
     (let (num, s) = read_level s in
      if num < 1 then Some (ic_do (Rd IC_CLR_RD_REQ) s)
      else
        let (RegSubaddr, s) = read_data s in do {
          p \<leftarrow> reg_pro (unat RegSubaddr) s;
          if RDFlag p \<noteq> 0 \<and> RDFlag p \<noteq> 1 then Some (ic_do (Rd IC_CLR_RD_REQ) s)
          else if reg_size p > 8 then Some s
          else do {
            (done, s) \<leftarrow> send_loop (map (\<lambda>i. pAddr p + i) [0..<unat (reg_size p)]) s;
            Some (if done then ic_do (Wr I2C_MIS_ISR 0x10) (ic_do (Rd IC_CLR_RD_REQ) s) else s)
          }
        })"

text \<open>
  The loops that receive: \<open>num\<close> bytes at a time, to the entries of \<open>RecvDataBuf\<close> from \<open>index\<close> on. The level is read again until it is 0.
\<close>

fun recv_bytes :: "nat \<Rightarrow> nat \<Rightarrow> i2c_sys \<Rightarrow> (nat \<times> i2c_sys) option" where
  "recv_bytes 0 i s = Some (i, s)"
| "recv_bytes (Suc n) i s =
     (let (b, s) = read_data s in
      if i < length (RecvDataBuf s) then recv_bytes n (i + 1) (s\<lparr>RecvDataBuf := (RecvDataBuf s)[i := b]\<rparr>) else None)"

lemma recv_bytes_level: "recv_bytes n i s = Some (j, s') \<Longrightarrow> i2c_level s' = i2c_level s"
  by (induction n arbitrary: i s) (auto simp: read_data_def Let_def split: list.splits if_splits)

function recv_loop :: "nat \<Rightarrow> i2c_sys \<Rightarrow> (nat \<times> i2c_sys) option" where
  "recv_loop i s =
     (case i2c_level s of
        [] \<Rightarrow> Some (i, s)
      | v # vs \<Rightarrow>
          if v = 0 then Some (i, s\<lparr>i2c_level := vs\<rparr>)
          else case recv_bytes (unat v) i (s\<lparr>i2c_level := vs\<rparr>) of None \<Rightarrow> None | Some (i, s) \<Rightarrow> recv_loop i s)"
  by pat_completeness auto
termination
  by (relation "measure (\<lambda>(i, s). length (i2c_level s))") (auto dest: recv_bytes_level)

declare recv_loop.simps [simp del]

text \<open>The subaddress is a plain \<open>char\<close>, which is signed on this target, converted to \<open>unsigned int\<close>.\<close>

definition i2c_rx_full :: "i2c_sys \<Rightarrow> i2c_sys option" where
  "i2c_rx_full s = do {
     (ix, s) \<leftarrow> recv_loop 0 s;
     let RegSubaddr = unat (scast (RecvDataBuf s ! 0) :: u32);
     p \<leftarrow> reg_pro RegSubaddr s;
     if RDFlag p \<noteq> 0 \<and> RDFlag p \<noteq> 2 then Some s
     else if reg_size p > 8 then Some s
     else
       let n = min ix (unat (reg_size p)) in
       if n + 1 \<le> length (RecvDataBuf s) then
         Some (ic_do (Wr I2C_MIS_ISR 0x10) (s\<lparr>i2c_mem := store (pAddr p) (take n (drop 1 (RecvDataBuf s))) (i2c_mem s)\<rparr>))
       else None
   }"

definition i2cslave_venus_handler :: "i2c_sys \<Rightarrow> (bool \<times> i2c_sys) option" where
  "i2cslave_venus_handler s =
     (if i2c_isr s AND 0x10 \<noteq> 0 then
        map_option (Pair True)
          (if i2c_stat s AND RD_REQ_BIT \<noteq> 0 then i2c_read_request s
           else if i2c_stat s AND RX_FULL_BIT \<noteq> 0 then i2c_rx_full s
           else Some (fold ic_do [Rd IC_CLR_INTR, Rd IC_CLR_RX_UNDER, Rd IC_CLR_TX_OVER, Rd IC_CLR_RX_DONE, Rd IC_CLR_ACTIVITY, Rd IC_CLR_GEN_CALL,
                  Wr I2C_MIS_ISR 0x10] s))
      else Some (False, s))"

section \<open>The module\<close>

text \<open>
  Of the parameters, \<open>buffer_mem\<close> is the memory of the registers. \<open>pins\<close> is the pin multiplexer \<open>MIS_PSELL\<close>. \<open>request_irq\<close> fails with a negative number.
\<close>

definition i2c_setup :: "u32 \<Rightarrow> ic_event list" where
  "i2c_setup speed =
     [Wr IC_ENABLE 0, Wr IC_SAR 0x24, Wr IC_CON (0x20 OR push_bit 1 speed), Wr IC_SS_SCL_HCNT 0x16e, Wr IC_SS_SCL_LCNT 0x1ad, Wr IC_RX_TL 1, Wr IC_ENABLE 1,
      Wr IC_INTR_MASK (RD_REQ_BIT OR RX_FULL_BIT OR RX_DONE_BIT)]"

definition i2cslave_venus_module_init :: "mod_env \<Rightarrow> u32 \<Rightarrow> int \<Rightarrow> chr_res \<times> i2c_sys \<Rightarrow> (int \<times> chr_res \<times> i2c_sys) option" where
  "i2cslave_venus_module_init env pins speed rs =
     (let (r, s) = rs;
          speed = (if speed > 3 \<or> speed < 1 then 1 else speed);
          result = region_result env
      in
      if pins AND 0xf00 \<noteq> 0x500 then Some (- ENODEV, r, s)
      else if result < 0 then Some (result, r, s)
      else do {
        let r = r\<lparr>region := True, plat_dev := Some (plat_ok env)\<rparr>;
        if driver_result env \<noteq> 0 then Some (result, r\<lparr>region := False\<rparr>, s)
        else do {
          let r = r\<lparr>driver_on := True\<rparr>;
          let s = s\<lparr>pRegister := buffer_mem env\<rparr>;
          case buffer_mem env of
            None \<Rightarrow> do { r \<leftarrow> undo_devices r; Some (result, r, s) }
          | Some a \<Rightarrow> do {
              let r = r\<lparr>live := a # live r\<rparr>;
              if irq_result env < 0 then do { r \<leftarrow> undo_devices (r\<lparr>live := remove1 a (live r)\<rparr>); Some (result, r, s) }
              else do {
                let s = fold ic_do (i2c_setup (of_int speed)) s;
                if \<not> cdev_mem env VENUS_I2C_MINOR then None
                else if cdev_result env VENUS_I2C_MINOR \<noteq> 0 then do { r \<leftarrow> undo_devices (r\<lparr>live := remove1 a (live r)\<rparr>); Some (- ENOMEM, r, s) }
                else
                  Some (0, r\<lparr>irq_on := True, cdevs := VENUS_I2C_MINOR # cdevs r, dev_files := VENUS_I2C_MINOR # dev_files r\<rparr>,
                        s\<lparr>RecvDataBuf := replicate 16 0,
                          RegPro := map (\<lambda>i. \<lparr>RDFlag = 0, reg_width = 0, pAddr = a + 8 * i\<rparr>) [0..<MAX_REGISTER]\<rparr>)
              }
            }
        }
      })"

definition i2cslave_venus_module_exit :: "chr_res \<times> i2c_sys \<Rightarrow> (chr_res \<times> i2c_sys) option" where
  "i2cslave_venus_module_exit rs =
     (let (r, s) = rs;
          s = ic_do (Wr IC_INTR_MASK 0) s;
          r = r\<lparr>dev_files := remove1 VENUS_I2C_MINOR (dev_files r), cdevs := remove1 VENUS_I2C_MINOR (cdevs r), irq_on := False\<rparr>
      in do { r \<leftarrow> undo_devices r; Some (r, s) })"

end
