(* ===== verification/I2c_Props.thy ===== *)
theory I2c_Props
  imports I2c_Slave
begin

text \<open>
  Properties of the I2C slave: what the master writes a process reads and the other way round, for each register by itself; the register numbers that go past the array; a
  transfer that is too short; loading and unloading.
\<close>

section \<open>Registers\<close>

definition i2c_ok :: "nat \<Rightarrow> i2c_sys \<Rightarrow> bool" where
  "i2c_ok a s \<longleftrightarrow> length (RegPro s) = 32 \<and> length (RecvDataBuf s) = 16 \<and>
     (\<forall>i < 32. pAddr (RegPro s ! i) = a + 8 * i \<and> RDFlag (RegPro s ! i) \<le> 2 \<and> reg_width (RegPro s ! i) \<le> 3)"

lemma i2c_okD:
  assumes "i2c_ok a s" "k < 32"
  shows "reg_pro k s = Some (RegPro s ! k)" "pAddr (RegPro s ! k) = a + 8 * k" "reg_width (RegPro s ! k) \<le> 3"
  using assms by (simp_all add: i2c_ok_def reg_pro_def)

lemma reg_size_le:
  assumes "reg_width p \<le> 3" shows "unat (reg_size p) = 2 ^ unat (reg_width p)" "\<not> reg_size p > 8" "unat (reg_size p) \<le> 8"
proof -
  have "unat (reg_width p) \<le> 3" using assms by (simp add: word_le_nat_alt)
  then have "unat (reg_width p) \<in> {0, 1, 2, 3}" by auto
  then have "unat (reg_size p) = 2 ^ unat (reg_width p) \<and> unat (reg_size p) \<le> 8" by (auto simp: reg_size_def)
  then show "unat (reg_size p) = 2 ^ unat (reg_width p)" "unat (reg_size p) \<le> 8" "\<not> reg_size p > 8"
    by (auto simp: word_less_nat_alt)
qed

lemma flag_cases: "(f :: u8) \<le> 2 \<Longrightarrow> f = 0 \<or> f = 1 \<or> f = 2"
proof -
  assume "f \<le> 2"
  then have "unat f = 0 \<or> unat f = 1 \<or> unat f = 2" by (simp add: word_le_nat_alt) arith
  then show ?thesis by (elim disjE) (simp_all add: word_unat_eq_iff)
qed

text \<open>The bytes of a register.\<close>

definition reg_bytes :: "nat \<Rightarrow> i2c_sys \<Rightarrow> u8 list" where
  "reg_bytes k s = load (i2c_mem s) (pAddr (RegPro s ! k)) (unat (reg_size (RegPro s ! k)))"

text \<open>Writing at most eight bytes to a register leaves the others alone.\<close>

lemma reg_store:
  assumes "i2c_ok a s" "k < 32" "length bs \<le> 8" "j < 32" "j \<noteq> k"
  shows "reg_bytes j (s\<lparr>i2c_mem := store (pAddr (RegPro s ! k)) bs (i2c_mem s)\<rparr>) = reg_bytes j s"
proof -
  have "disjoint_ranges (a + 8 * j) (unat (reg_size (RegPro s ! j))) (a + 8 * k) (length bs)"
    using assms i2c_okD(3) [OF assms(1,4)] reg_size_le(3) [of "RegPro s ! j"] by (auto simp: disjoint_ranges_def)
  then show ?thesis using i2c_okD(2) [OF assms(1)] assms(2,4) by (simp add: reg_bytes_def load_store_disjoint)
qed

section \<open>Receiving\<close>

lemma data_byte: "ucast (ucast (b :: u8) AND 0xff :: u32) = b"
proof (rule bit_word_eqI)
  fix n assume "n < LENGTH(8)"
  moreover have "ucast b AND 0xff = take_bit 8 (ucast b :: u32)" by (simp add: take_bit_eq_mask mask_eq_exp_minus_1)
  ultimately show "bit (ucast (ucast b AND 0xff :: u32) :: u8) n = bit b n" by (simp only:) (simp add: bit_simps)
qed

lemma recv_bytes_run:
  assumes "i2c_data s = map ucast bs @ ds" "i + length bs \<le> length (RecvDataBuf s)"
  shows "recv_bytes (length bs) i s =
    Some (i + length bs, s\<lparr>i2c_data := ds, RecvDataBuf := take i (RecvDataBuf s) @ bs @ drop (i + length bs) (RecvDataBuf s)\<rparr>)"
  using assms
proof (induction bs arbitrary: i s)
  case (Cons b bs)
  let ?s = "s\<lparr>i2c_data := map ucast bs @ ds, RecvDataBuf := (RecvDataBuf s)[i := b]\<rparr>"
  have "recv_bytes (length (b # bs)) i s = recv_bytes (length bs) (i + 1) ?s"
    using Cons.prems by (simp add: read_data_def data_byte)
  also have "\<dots> = Some (i + 1 + length bs,
      ?s\<lparr>i2c_data := ds, RecvDataBuf := take (i + 1) (RecvDataBuf ?s) @ bs @ drop (i + 1 + length bs) (RecvDataBuf ?s)\<rparr>)"
    using Cons.prems by (intro Cons.IH) simp_all
  also have "take (i + 1) (RecvDataBuf ?s) @ bs @ drop (i + 1 + length bs) (RecvDataBuf ?s) =
      take i (RecvDataBuf s) @ (b # bs) @ drop (i + length (b # bs)) (RecvDataBuf s)"
    using Cons.prems(2) by (simp add: take_Suc_conv_app_nth)
  finally show ?case by simp
qed simp

text \<open>Whatever the levels that the loop sees, the bytes arrive in order.\<close>

lemma recv_loop_run:
  assumes "i2c_level s = map of_nat ns @ 0 # vs" "\<forall>n \<in> set ns. 0 < n \<and> n < 2 ^ 32" "sum_list ns = length bs"
    "i2c_data s = map ucast bs @ ds" "i + length bs \<le> length (RecvDataBuf s)"
  shows "recv_loop i s = Some (i + length bs,
    s\<lparr>i2c_level := vs, i2c_data := ds, RecvDataBuf := take i (RecvDataBuf s) @ bs @ drop (i + length bs) (RecvDataBuf s)\<rparr>)"
  using assms
proof (induction ns arbitrary: i s bs)
  case Nil
  then show ?case by (simp add: recv_loop.simps)
next
  case (Cons n ns)
  have u: "unat (of_nat n :: u32) = n" "0 < n" using Cons.prems(2) by (simp_all add: unat_of_nat take_bit_nat_eq_self)
  then have "(of_nat n :: u32) \<noteq> 0" by (metis less_irrefl unat_0)
  moreover have "n \<le> length bs" using Cons.prems(3) by simp
  ultimately have n: "unat (of_nat n :: u32) = n" "(of_nat n :: u32) \<noteq> 0" "n \<le> length bs" using u by simp_all
  let ?as = "take n bs" and ?bs = "drop n bs"
  define s1 where "s1 = s\<lparr>i2c_level := map of_nat ns @ 0 # vs\<rparr>"
  define s2 where "s2 = s1\<lparr>i2c_data := map ucast ?bs @ ds, RecvDataBuf := take i (RecvDataBuf s) @ ?as @ drop (i + n) (RecvDataBuf s)\<rparr>"
  have "(map ucast bs :: u32 list) = map ucast ?as @ map ucast ?bs" using map_append [of ucast ?as ?bs] by simp
  then have "i2c_data s1 = map ucast ?as @ map ucast ?bs @ ds" using Cons.prems(4) by (simp add: s1_def)
  then have r: "recv_bytes n i s1 = Some (i + n, s2)"
    using recv_bytes_run [of s1 ?as "map ucast ?bs @ ds" i] Cons.prems(5) n(3) by (simp add: s1_def s2_def)
  have "recv_loop i s = recv_loop (i + n) s2"
    using Cons.prems(1) n r by (subst recv_loop.simps) (simp add: s1_def [symmetric])
  also have "\<dots> = Some (i + n + length ?bs, s2\<lparr>i2c_level := vs, i2c_data := ds,
      RecvDataBuf := take (i + n) (RecvDataBuf s2) @ ?bs @ drop (i + n + length ?bs) (RecvDataBuf s2)\<rparr>)"
    using Cons.prems n(3) by (intro Cons.IH) (auto simp: s1_def s2_def)
  also have "take (i + n) (RecvDataBuf s2) @ ?bs @ drop (i + n + length ?bs) (RecvDataBuf s2) =
      take i (RecvDataBuf s) @ bs @ drop (i + length bs) (RecvDataBuf s)"
  proof -
    have "take (i + n) (RecvDataBuf s2) = take i (RecvDataBuf s) @ ?as" "drop (i + n + length ?bs) (RecvDataBuf s2) = drop (i + length bs) (RecvDataBuf s)"
      using Cons.prems(5) n(3) by (simp_all add: s2_def add.commute)
    then show ?thesis by (simp only: append_assoc) (simp only: append_take_drop_id flip: append_assoc [of ?as])
  qed
  finally show ?case using n(3) by (simp add: s1_def s2_def)
qed

text \<open>The register number that a received byte is taken for: the byte itself below 128, and a huge number from there on.\<close>

lemma byte_bit7: "bit (b :: u8) 7 \<longleftrightarrow> 128 \<le> unat b"
proof -
  have "bit b 7 \<longleftrightarrow> bit (unat b) 7" by (simp add: bit_unsigned_iff)
  also have "\<dots> \<longleftrightarrow> odd (unat b div 128)" by (simp add: bit_iff_odd)
  also have "\<dots> \<longleftrightarrow> 128 \<le> unat b"
  proof (cases "128 \<le> unat b")
    case True
    then have "unat b div 128 = 1" using unat_u8_lt [of b] by (intro div_nat_eqI) auto
    then show ?thesis using True by simp
  qed simp
  finally show ?thesis .
qed

lemma bit_scast: "bit (scast (b :: u8) :: u32) n \<longleftrightarrow> n < 32 \<and> bit b (min n 7)"
  by (simp add: bit_signed_iff min_def)

lemma subaddr_low: "unat b < 128 \<Longrightarrow> unat (scast (b :: u8) :: u32) = unat b"
proof -
  assume "unat b < 128"
  then have b: "\<not> bit b 7" by (simp add: byte_bit7)
  have "(scast b :: u32) = ucast b"
  proof (rule bit_word_eqI)
    fix n assume "n < LENGTH(32)"
    then show "bit (scast b :: u32) n = bit (ucast b :: u32) n"
      using b bit_imp_le_length [of b n] by (cases "n < 8") (auto simp: bit_scast bit_unsigned_iff min_def le_less)
  qed
  then show ?thesis by (simp add: unsigned_ucast_eq take_bit_nat_eq_self less_trans [OF unat_u8_lt])
qed

lemma subaddr_high: "32 \<le> unat b \<Longrightarrow> 32 \<le> unat (scast (b :: u8) :: u32)"
proof (cases "unat b < 128")
  case False
  then have "bit (scast b :: u32) 31" by (simp add: bit_scast byte_bit7)
  then show ?thesis using bit_exp_le [of "scast b" 31] by simp
qed (simp add: subaddr_low)

section \<open>Transfers\<close>

lemma i2c_rx_run:
  assumes ok: "i2c_ok a s" and k: "k < 32" and w: "RDFlag (RegPro s ! k) \<noteq> 1"
    and lev: "i2c_level s = map of_nat ns @ 0 # vs" "\<forall>n \<in> set ns. 0 < n \<and> n < 2 ^ 32" "sum_list ns = length data + 1"
    and bus: "i2c_data s = map ucast (of_nat k # data) @ ds" and len: "length data < 16"
  shows "\<exists>s'. i2c_rx_full s = Some s' \<and> RegPro s' = RegPro s \<and> RecvDataBuf s' = (of_nat k # data) @ drop (length data + 1) (RecvDataBuf s) \<and>
    i2c_mem s' = store (a + 8 * k) (take (min (length data + 1) (unat (reg_size (RegPro s ! k)))) (tl (RecvDataBuf s'))) (i2c_mem s)"
proof -
  let ?bs = "of_nat k # data" and ?p = "RegPro s ! k"
  define s1 where "s1 = s\<lparr>i2c_level := vs, i2c_data := ds, RecvDataBuf := ?bs @ drop (length ?bs) (RecvDataBuf s)\<rparr>"
  have l16: "length (RecvDataBuf s) = 16" using ok by (simp add: i2c_ok_def)
  have r: "recv_loop 0 s = Some (length ?bs, s1)"
    using recv_loop_run [OF lev(1,2) _ bus, of 0] lev(3) l16 len by (simp add: s1_def)
  have s1: "RegPro s1 = RegPro s" "i2c_mem s1 = i2c_mem s" "RecvDataBuf s1 ! 0 = of_nat k" "length (RecvDataBuf s1) = 16"
    using l16 len by (simp_all add: s1_def)
  have "unat (of_nat k :: u8) = k" using k by (simp add: unat_of_nat take_bit_nat_eq_self)
  then have sub: "unat (scast (RecvDataBuf s1 ! 0) :: u32) = k" using subaddr_low [of "of_nat k"] k s1(3) by simp
  have p: "reg_pro k s1 = Some ?p" using ok k s1(1) by (simp add: reg_pro_def i2c_ok_def)
  have flag: "RDFlag ?p = 0 \<or> RDFlag ?p = 2" using ok k w flag_cases [of "RDFlag ?p"] by (auto simp: i2c_ok_def)
  note sz = reg_size_le [OF i2c_okD(3) [OF ok k]]
  let ?n = "min (length ?bs) (unat (reg_size ?p))"
  have "i2c_rx_full s = Some (ic_do (Wr I2C_MIS_ISR 0x10) (s1\<lparr>i2c_mem := store (a + 8 * k) (take ?n (drop 1 (RecvDataBuf s1))) (i2c_mem s)\<rparr>))"
    using r sub p flag sz s1 i2c_okD(2) [OF ok k] by (auto simp: i2c_rx_full_def Let_def)
  then show ?thesis using s1(1) by (simp add: ic_do_def s1_def drop_Suc)
qed

abbreviation i2c_ioctl :: "u32 \<Rightarrow> u32 \<Rightarrow> mem \<times> i2c_sys \<Rightarrow> (int \<times> mem \<times> i2c_sys) option" where
  "i2c_ioctl cmd arg us \<equiv> i2cslave_venus_ioctl (\<lambda>_ _ _. True) True (\<lambda>_ _. 0) cmd arg us"

lemma i2c_ioctl_run:
  "i2c_ioctl (IOC 4 0x6b 1 4) arg (u, s) = map_option (\<lambda>(r, s). (r, u, s)) (i2c_config u (unat arg) s)"
  "i2c_ioctl (IOC 2 0x6b 2 4) arg (u, s) = map_option (\<lambda>(r, u). (r, u, s)) (i2c_user_read (\<lambda>_ _. 0) (unat arg) u s)"
  "i2c_ioctl (IOC 4 0x6b 3 4) arg (u, s) = map_option (\<lambda>(r, s). (r, u, s)) (i2c_user_write (\<lambda>_ _. 0) u (unat arg) s)"
  by (simp_all add: i2cslave_venus_ioctl_def ioctl_checks_def IOC_TYPE_def IOC_NR_def IOC_DIR_def IOC_SIZE_def IOC_def Let_def)


section \<open>Sending\<close>

lemma wait_room_run: "vs \<noteq> [] \<Longrightarrow> hd vs AND 2 \<noteq> 0 \<Longrightarrow> wait_room vs j = Some (True, tl vs)"
  by (cases vs) auto

lemma send_loop_run:
  assumes "length as \<le> length (i2c_status s)" "\<forall>v \<in> set (i2c_status s). v AND 2 \<noteq> 0"
  shows "\<exists>vs. send_loop as s = Some (True, s\<lparr>i2c_status := vs, i2c_log := i2c_log s @ map (\<lambda>a. Wr IC_DATA_CMD (ucast (i2c_mem s a))) as\<rparr>)"
  using assms
proof (induction as arbitrary: s)
  case Nil
  show ?case by (rule exI [of _ "i2c_status s"]) simp
next
  case (Cons x xs)
  obtain v vs where v: "i2c_status s = v # vs" using Cons.prems(1) by (cases "i2c_status s") auto
  let ?s = "ic_do (Wr IC_DATA_CMD (ucast (i2c_mem s x))) (s\<lparr>i2c_status := vs\<rparr>)"
  have "\<exists>ws. send_loop xs ?s = Some (True, ?s\<lparr>i2c_status := ws, i2c_log := i2c_log ?s @ map (\<lambda>a. Wr IC_DATA_CMD (ucast (i2c_mem ?s a))) xs\<rparr>)"
    using Cons.prems v by (intro Cons.IH) (simp_all add: ic_do_def)
  then show ?case using Cons.prems(2) v by (auto simp: ic_do_def)
qed

text \<open>
  C38: What a process writes to a register, the master reads: after the ioctl to write a register that the master may read, a read request of the
  master for this register is answered with exactly the bytes written, provided that the transmit FIFO has room; then the request is acknowledged.
\<close>

theorem i2c_user_to_master:
  assumes ok: "i2c_ok a s" and k: "k < 32" and w: "RDFlag (RegPro s ! k) \<noteq> 2"
    and arg: "u (unat arg) = of_nat k" "load u (unat arg + 1) (unat (reg_size (RegPro s ! k))) = data"
    and isr: "isr AND 0x10 \<noteq> 0" "stat AND 0x20 \<noteq> 0" and lev: "0 < n"
    and room: "length data \<le> length status" "\<forall>v \<in> set status. v AND 2 \<noteq> 0"
  shows "\<exists>s' s''. i2c_ioctl (IOC 4 0x6b 3 4) arg (u, s) = Some (0, u, s') \<and> i2c_ok a s' \<and> reg_bytes k s' = data \<and>
    i2cslave_venus_handler (s'\<lparr>i2c_isr := isr, i2c_stat := stat, i2c_level := n # ls, i2c_data := of_nat k # ds, i2c_status := status\<rparr>) = Some (True, s'') \<and>
    i2c_log s'' = i2c_log s @ map (\<lambda>b. Wr IC_DATA_CMD (ucast b)) data @ [Rd IC_CLR_RD_REQ, Wr I2C_MIS_ISR 0x10]"
proof -
  let ?p = "RegPro s ! k"
  note sz = reg_size_le [OF i2c_okD(3) [OF ok k]]
  have flag: "RDFlag ?p = 0 \<or> RDFlag ?p = 1" using ok k w flag_cases [of "RDFlag ?p"] by (auto simp: i2c_ok_def)
  have len: "length data = unat (reg_size ?p)" using arg(2) by auto
  have uk: "unat (of_nat k :: u8) = k" using k by (simp add: unat_of_nat take_bit_nat_eq_self)
  define s' where "s' = s\<lparr>i2c_mem := store (pAddr ?p) data (i2c_mem s)\<rparr>"
  have wr: "i2c_user_write (\<lambda>_ _. 0) u (unat arg) s = Some (0, s')"
    using flag k arg uk i2c_okD [OF ok k] sz len by (auto simp: i2c_user_write_def s'_def Let_def)
  have ok': "i2c_ok a s'" using ok by (simp add: s'_def i2c_ok_def)
  have bytes: "load (i2c_mem s') (pAddr ?p) (unat (reg_size ?p)) = data" using len load_store_same [of "pAddr ?p" data "i2c_mem s"] by (simp add: s'_def)
  define t where "t = s'\<lparr>i2c_isr := isr, i2c_stat := stat, i2c_status := status, i2c_level := ls, i2c_data := ds\<rparr>"
  have t: "reg_pro k t = Some ?p" "i2c_status t = status" "i2c_mem t = i2c_mem s'" "i2c_log t = i2c_log s"
    using ok k by (simp_all add: t_def s'_def reg_pro_def i2c_ok_def)
  let ?as = "map (\<lambda>i. pAddr ?p + i) [0..<unat (reg_size ?p)]"
  obtain vs where send: "send_loop ?as t = Some (True, t\<lparr>i2c_status := vs, i2c_log := i2c_log t @ map (\<lambda>a. Wr IC_DATA_CMD (ucast (i2c_mem t a))) ?as\<rparr>)"
    using send_loop_run [of ?as t] room t(2) len by auto
  have out: "map (\<lambda>a. Wr IC_DATA_CMD (ucast (i2c_mem t a))) ?as = map (\<lambda>b. Wr IC_DATA_CMD (ucast b)) data"
    using bytes t(3) by (auto simp: load_def)
  have sub: "ucast (of_nat k AND 0xff :: u32) = (of_nat k :: u8)"
  proof -
    have "(of_nat k :: u32) = ucast (of_nat k :: u8)" using k by (simp add: unsigned_of_nat take_bit_nat_eq_self)
    then show ?thesis by (simp only: data_byte)
  qed
  have "\<not> unat n < 1" using lev by (simp add: word_less_nat_alt)
  then have "i2c_read_request (s'\<lparr>i2c_isr := isr, i2c_stat := stat, i2c_level := n # ls, i2c_data := of_nat k # ds, i2c_status := status\<rparr>) =
      Some (ic_do (Wr I2C_MIS_ISR 0x10) (ic_do (Rd IC_CLR_RD_REQ) (t\<lparr>i2c_status := vs, i2c_log := i2c_log t @ map (\<lambda>b. Wr IC_DATA_CMD (ucast b)) data\<rparr>)))"
    using t(1) flag sz(2) send uk sub out by (auto simp: i2c_read_request_def read_level_def read_data_def Let_def t_def [symmetric])
  then show ?thesis using isr wr ok' bytes t(4) i2c_ioctl_run(3)
    by (simp add: i2cslave_venus_handler_def ic_do_def reg_bytes_def) (simp add: s'_def)
qed

section \<open>Numbers past the array, and short transfers\<close>

text \<open>
  C39: The checks of the register number do not protect the array of 32: the number 32 passes the check of each ioctl and goes past the array, and the numbers that the
  master sends are not checked at all, so that a read request for any number from 32 on does so, too.
\<close>

theorem i2c_bad_index_faults:
  assumes ok: "i2c_ok a s"
  shows "(\<forall>cmd u arg. cmd \<in> {IOC 4 0x6b 1 4, IOC 2 0x6b 2 4, IOC 4 0x6b 3 4} \<and> u (unat arg) = 32 \<and> u (unat arg + 1) \<le> 2 \<and> u (unat arg + 2) \<le> 3 \<longrightarrow>
      i2c_ioctl cmd arg (u, s) = None) \<and>
    (\<forall>n ls b ds. 0 < n \<and> 32 \<le> unat (b :: u8) \<longrightarrow> i2c_read_request (s\<lparr>i2c_level := n # ls, i2c_data := ucast b # ds\<rparr>) = None)"
proof -
  have none: "reg_pro i t = None" if "32 \<le> i" "RegPro t = RegPro s" for i t using ok that by (simp add: reg_pro_def i2c_ok_def)
  have A: "i2c_ioctl cmd arg (u, s) = None"
    if "cmd \<in> {IOC 4 0x6b 1 4, IOC 2 0x6b 2 4, IOC 4 0x6b 3 4}" "u (unat arg) = 32" "u (unat arg + 1) \<le> 2" "u (unat arg + 2) \<le> 3" for cmd u arg
  proof -
    have "i2c_config u (unat arg) s = None" "i2c_user_read (\<lambda>_ _. 0) (unat arg) u s = None" "i2c_user_write (\<lambda>_ _. 0) u (unat arg) s = None"
      using that(2-4) by (simp_all add: i2c_config_def i2c_user_read_def i2c_user_write_def none Let_def not_less)
    then have "i2c_ioctl (IOC 4 0x6b 1 4) arg (u, s) = None" "i2c_ioctl (IOC 2 0x6b 2 4) arg (u, s) = None" "i2c_ioctl (IOC 4 0x6b 3 4) arg (u, s) = None"
      by (simp_all only: i2c_ioctl_run option.map)
    then show ?thesis using that(1) by blast
  qed
  have B: "i2c_read_request (s\<lparr>i2c_level := n # ls, i2c_data := ucast b # ds\<rparr>) = None" if "0 < n" "32 \<le> unat b" for n ls ds and b :: u8
    using that by (simp add: i2c_read_request_def read_level_def read_data_def Let_def none data_byte word_less_nat_alt)
  show ?thesis by (intro conjI allI impI; elim conjE; (rule A B; assumption))
qed

text \<open>
  A transfer of fewer bytes than the register is wide also stores the byte that follows it in the receive buffer: one left over from an earlier transfer.
\<close>

theorem i2c_short_write_stale:
  assumes ok: "i2c_ok a s" and k: "k < 32" and w: "RDFlag (RegPro s ! k) \<noteq> 1"
    and lev: "i2c_level s = map of_nat ns @ 0 # vs" "\<forall>n \<in> set ns. 0 < n \<and> n < 2 ^ 32" "sum_list ns = length data + 1"
    and bus: "i2c_data s = map ucast (of_nat k # data) @ ds" and short: "length data < unat (reg_size (RegPro s ! k))"
  shows "\<exists>s'. i2c_rx_full s = Some s' \<and> i2c_mem s' = store (a + 8 * k) (data @ [RecvDataBuf s ! (length data + 1)]) (i2c_mem s)"
proof -
  have n8: "length data < 8" using short reg_size_le(3) [OF i2c_okD(3) [OF ok k]] by simp
  then have "length data < 16" by simp
  from i2c_rx_run [OF ok k w lev bus this] obtain s' where s': "i2c_rx_full s = Some s'"
    "RecvDataBuf s' = (of_nat k # data) @ drop (length data + 1) (RecvDataBuf s)"
    "i2c_mem s' = store (a + 8 * k) (take (min (length data + 1) (unat (reg_size (RegPro s ! k)))) (tl (RecvDataBuf s'))) (i2c_mem s)" by blast
  have "length (RecvDataBuf s) = 16" using ok by (simp add: i2c_ok_def)
  then have "drop (length data + 1) (RecvDataBuf s) = RecvDataBuf s ! (length data + 1) # drop (length data + 2) (RecvDataBuf s)"
    using n8 by (simp add: Cons_nth_drop_Suc)
  then show ?thesis using s' short by (simp add: min_def)
qed

section \<open>The module\<close>

text \<open>
  Loading sets up 32 registers of one byte that master and processes may use; unloading gives back everything but their memory.
\<close>

theorem i2c_unload_leaks:
  assumes "res_idle r" "plat_ok env" "cdev_mem env 1" "region_result env = 0" "driver_result env = 0" "buffer_mem env = Some a" "irq_result env = 0"
    "cdev_result env 1 = 0" "pins AND 0xf00 = 0x500"
  shows "\<exists>r' s'. i2cslave_venus_module_init env pins speed (r, s) = Some (0, r', s') \<and> i2c_ok a s' \<and>
    (\<exists>t. i2cslave_venus_module_exit (r', s') = Some (r\<lparr>live := a # live r\<rparr>, t))"
proof -
  let ?r = "r\<lparr>region := True, plat_dev := Some True, driver_on := True, live := a # live r, irq_on := True, cdevs := 1 # cdevs r, dev_files := 1 # dev_files r\<rparr>"
  obtain t where init: "i2cslave_venus_module_init env pins speed (r, s) = Some (0, ?r, t\<lparr>RecvDataBuf := replicate 16 0,
      RegPro := map (\<lambda>i. \<lparr>RDFlag = 0, reg_width = 0, pAddr = a + 8 * i\<rparr>) [0..<32]\<rparr>)"
    using assms(2-) by (simp add: i2cslave_venus_module_init_def Let_def)
  have exit: "\<exists>t. i2cslave_venus_module_exit (?r, v) = Some (r\<lparr>live := a # live r\<rparr>, t)" for v
    using assms(1) by (cases r) (auto simp: i2cslave_venus_module_exit_def undo_devices_def platform_device_unregister_def res_idle_def Let_def)
  show ?thesis unfolding init using exit by (simp add: i2c_ok_def)
qed

text \<open>When the driver, the memory or the interrupt is refused, the result is 0 all the same, and nothing is usable.\<close>

theorem i2c_load_failure_hidden:
  assumes "region_result env = 0" "pins AND 0xf00 = 0x500" "plat_ok env" "driver_result env = 0" "buffer_mem env = None \<or> irq_result env < 0"
  shows "\<exists>r' s'. i2cslave_venus_module_init env pins speed (r, s) = Some (0, r', s') \<and> \<not> region r' \<and> cdevs r' = cdevs r"
  using assms by (auto simp: i2cslave_venus_module_init_def undo_devices_def platform_device_unregister_def Let_def split: option.split)

section \<open>Examples\<close>

text \<open>A slave whose registers are four bytes wide, into which the master writes register 5 in two pieces.\<close>

definition sample_i2c :: i2c_sys where
  "sample_i2c = \<lparr>RegPro = map (\<lambda>i. \<lparr>RDFlag = 0, reg_width = 2, pAddr = 1000 + 8 * i\<rparr>) [0..<32], RecvDataBuf = replicate 16 0xEE, pRegister = Some 1000,
     i2c_mem = \<lambda>_. 0, i2c_isr = 0x10, i2c_stat = 4, i2c_level = [2, 3, 0], i2c_data = [5, 1, 2, 3, 4], i2c_status = [], i2c_jiffies = 0, i2c_log = []\<rparr>"

lemma sample_i2c_ok: "i2c_ok 1000 sample_i2c" "RegPro sample_i2c ! 5 = \<lparr>RDFlag = 0, reg_width = 2, pAddr = 1040\<rparr>"
  by (simp_all add: i2c_ok_def sample_i2c_def)

lemma sample_size: "unat (reg_size \<lparr>RDFlag = 0, reg_width = 2, pAddr = 1040\<rparr>) = 4"
  by (simp add: reg_size_def)


theorem i2c_user_to_master_witness:
  "\<exists>s' s''. i2c_ioctl (IOC 4 0x6b 3 4) 100 ((\<lambda>_. 5), sample_i2c) = Some (0, (\<lambda>_. 5), s') \<and>
    i2cslave_venus_handler (s'\<lparr>i2c_isr := 0x10, i2c_stat := 0x20, i2c_level := [1], i2c_data := [of_nat 5], i2c_status := [2, 2, 2, 2]\<rparr>) = Some (True, s'') \<and>
    i2c_log s'' = map (\<lambda>b. Wr IC_DATA_CMD (ucast (b :: u8))) [5, 5, 5, 5] @ [Rd IC_CLR_RD_REQ, Wr I2C_MIS_ISR 0x10]"
proof -
  have "load (\<lambda>_. 5) (unat (100 :: u32) + 1) (unat (reg_size (RegPro sample_i2c ! 5))) = [5, 5, 5, 5]" "RDFlag (RegPro sample_i2c ! 5) \<noteq> 2"
    using sample_i2c_ok(2) sample_size by (simp_all add: load_def upt_rec)
  moreover have "i2c_log sample_i2c = []" by (simp add: sample_i2c_def)
  ultimately show ?thesis
    using i2c_user_to_master [OF sample_i2c_ok(1), where k = 5 and u = "\<lambda>_. 5" and arg = 100 and data = "[5, 5, 5, 5]" and isr = "0x10" and stat = "0x20" and
      n = 1 and status = "[2, 2, 2, 2]" and ls = "[]" and ds = "[]"] by auto
qed

theorem i2c_bad_index_faults_witness:
  "i2c_ioctl (IOC 2 0x6b 2 4) 100 ((\<lambda>_. 0)(100 := 32), sample_i2c) = None \<and>
   i2c_read_request (sample_i2c\<lparr>i2c_level := [1], i2c_data := [ucast (77 :: u8)]\<rparr>) = None"
proof
  note faults = i2c_bad_index_faults [OF sample_i2c_ok(1)]
  show "i2c_ioctl (IOC 2 0x6b 2 4) 100 ((\<lambda>_. 0)(100 := 32), sample_i2c) = None" by (rule faults [THEN conjunct1, rule_format]) simp
  show "i2c_read_request (sample_i2c\<lparr>i2c_level := [1], i2c_data := [ucast (77 :: u8)]\<rparr>) = None"
    by (rule faults [THEN conjunct2, rule_format]) simp
qed

end
