(* ===== verification/Bi.thy ===== *)
theory Bi
  imports Prelude
begin

text \<open>
  The big-integer library of the cryptographic engine driver (\<open>drivers/mcp/bi.c\<close>) and the RSA routines
  on top of it (\<open>drivers/mcp/rsa.c\<close>): sign, length and 129 words of 32 bits, least significant first.
  The 64-bit intermediate values are natural numbers (they stay below \<open>2 ^ 64\<close>, the word truncations
  are written out); \<open>do_div\<close> is the quotient its assembly computes. Allocations succeed, as the
  routines assume. A loop that need not end is a partial function, so that not returning is \<open>None\<close>.
\<close>

section \<open>Representation\<close>

abbreviation (input) BI_MAXLEN :: nat where "BI_MAXLEN \<equiv> 129"

record BI =
  m_nSign :: int
  m_nLength :: nat
  m_ulValue :: "u32 list"

definition init_BI :: BI where
  "init_BI = \<lparr>m_nSign = 1, m_nLength = 1, m_ulValue = replicate BI_MAXLEN 0\<rparr>"

definition SetZero :: "BI \<Rightarrow> BI" where
  "SetZero A = A\<lparr>m_nSign := 1, m_nLength := 1, m_ulValue := replicate BI_MAXLEN 0\<rparr>"

definition move_p :: "nat \<Rightarrow> BI" where
  "move_p b =
     (if b > 0xffffffff
      then init_BI\<lparr>m_nLength := 2, m_ulValue := (replicate BI_MAXLEN 0)[1 := of_nat (b div 2 ^ 32), 0 := of_nat b]\<rparr>
      else init_BI\<lparr>m_nLength := 1, m_ulValue := (replicate BI_MAXLEN 0)[0 := of_nat b]\<rparr>)"

text \<open>The comparison loop, from word \<open>i - 1\<close> down.\<close>

fun cmp_loop :: "u32 list \<Rightarrow> u32 list \<Rightarrow> nat \<Rightarrow> int" where
  "cmp_loop a b 0 = 0"
| "cmp_loop a b (Suc i) = (if a ! i > b ! i then 1 else if a ! i < b ! i then - 1 else cmp_loop a b i)"

definition Cmp :: "BI \<Rightarrow> BI \<Rightarrow> int" where
  "Cmp A B =
     (if m_nLength A > m_nLength B then 1
      else if m_nLength A < m_nLength B then - 1
      else cmp_loop (m_ulValue A) (m_ulValue B) (m_nLength A))"

definition isZero :: "BI \<Rightarrow> bool" where
  "isZero A \<longleftrightarrow> m_nLength A = 1 \<and> m_ulValue A ! 0 = 0"

section \<open>Addition and subtraction\<close>

function add_loop :: "nat \<Rightarrow> nat \<Rightarrow> u32 list \<Rightarrow> u32 list \<Rightarrow> nat \<Rightarrow> u32 list \<times> nat" where
  "add_loop i n b p carry =
     (if i < n then
        let sum = unat (b ! i) + unat (p ! i) + carry
        in add_loop (i + 1) n b (p[i := of_nat sum]) (if sum > 0xffffffff then 1 else 0)
      else (p, carry))"
  by pat_completeness auto
termination by (relation "measure (\<lambda>(i, n, b, p, carry). n - i)") auto

definition Add_same :: "BI \<Rightarrow> BI \<Rightarrow> BI" where
  "Add_same A B =
     (let len = (if m_nLength A < m_nLength B then m_nLength B else m_nLength A);
          (v, carry) = add_loop 0 len (m_ulValue B) (m_ulValue A) 0
      in if len < BI_MAXLEN
         then A\<lparr>m_nLength := len + carry, m_ulValue := v[len := of_nat carry]\<rparr>
         else A\<lparr>m_nLength := len, m_ulValue := v\<rparr>)"

text \<open>
  The subtraction loop. The comparison \<open>s[i] - carry >= d[i]\<close> is on unsigned words, so the difference
  wraps when \<open>s[i]\<close> is 0 and a borrow is pending.
\<close>

function sub_loop :: "nat \<Rightarrow> nat \<Rightarrow> u32 list \<Rightarrow> u32 list \<Rightarrow> u32 list \<Rightarrow> u32 \<Rightarrow> u32 list" where
  "sub_loop i n s d p carry =
     (if i < n then
        if s ! i - carry \<ge> d ! i then sub_loop (i + 1) n s d (p[i := s ! i - carry - d ! i]) 0
        else sub_loop (i + 1) n s d
               (p[i := of_int (2 ^ 32 + uint (s ! i) - uint carry - uint (d ! i))]) 1
      else p)"
  by pat_completeness auto
termination by (relation "measure (\<lambda>(i, n, s, d, p, carry). n - i)") auto

declare add_loop.simps [simp del] sub_loop.simps [simp del]

fun strip_len :: "u32 list \<Rightarrow> nat \<Rightarrow> nat" where
  "strip_len v 0 = 0"
| "strip_len v (Suc len) = (if v ! len = 0 then strip_len v len else Suc len)"

definition Sub_same :: "BI \<Rightarrow> BI \<Rightarrow> BI" where
  "Sub_same A B =
     (let cmp = Cmp A B in
      if cmp = 0 then SetZero A
      else let (s, d, len, sign) =
                 (if cmp > 0 then (m_ulValue A, m_ulValue B, m_nLength A, m_nSign A)
                  else (m_ulValue B, m_ulValue A, m_nLength B, 1 - m_nSign A));
               v = sub_loop 0 len s d (m_ulValue A) 0
           in A\<lparr>m_nSign := sign, m_nLength := strip_len v len, m_ulValue := v\<rparr>)"

text \<open>With different signs each calls the other on the second operand with its sign (0 or 1) flipped.\<close>

definition Add :: "BI \<Rightarrow> BI \<Rightarrow> BI" where
  "Add A B = (if m_nSign A = m_nSign B then Add_same A B else Sub_same A (B\<lparr>m_nSign := 1 - m_nSign B\<rparr>))"

definition Sub :: "BI \<Rightarrow> BI \<Rightarrow> BI" where
  "Sub A B = (if m_nSign A = m_nSign B then Sub_same A B else Add_same A (B\<lparr>m_nSign := 1 - m_nSign B\<rparr>))"

section \<open>Operations with a small operand\<close>

text \<open>
  \<open>b + m_ulValue[0]\<close> is an \<open>unsigned int\<close>, so \<open>sum\<close> never exceeds 32 bits and the carry branch is dead.
  The carry loops run into the first word that stops them; \<open>None\<close> is an access beyond the array.
\<close>

function add_p_carry :: "nat \<Rightarrow> u32 list \<Rightarrow> (nat \<times> u32 list) option" where
  "add_p_carry i v =
     (if i < length v then
        if v ! i = 0xffffffff then add_p_carry (i + 1) (v[i := 0]) else Some (i, v)
      else None)"
  by pat_completeness auto
termination by (relation "measure (\<lambda>(i, v). length v - i)") auto

function sub_p_borrow :: "nat \<Rightarrow> u32 list \<Rightarrow> (nat \<times> u32 list) option" where
  "sub_p_borrow i v =
     (if i < length v then
        if v ! i = 0 then sub_p_borrow (i + 1) (v[i := 0xffffffff]) else Some (i, v)
      else None)"
  by pat_completeness auto
termination by (relation "measure (\<lambda>(i, v). length v - i)") auto

definition Add_p_pos :: "BI \<Rightarrow> int \<Rightarrow> BI option" where
  "Add_p_pos A b =
     (let sum = unat ((of_int b :: u32) + m_ulValue A ! 0);
          v = (m_ulValue A)[0 := of_nat sum]
      in if sum > 0xffffffff then do {
           (i, v) \<leftarrow> add_p_carry 1 v;
           Some (A\<lparr>m_ulValue := v[i := v ! i + 1], m_nLength := (if i < BI_MAXLEN then i + 1 else m_nLength A)\<rparr>)
         }
         else Some (A\<lparr>m_ulValue := v\<rparr>))"

definition Sub_p_pos :: "BI \<Rightarrow> int \<Rightarrow> BI option" where
  "Sub_p_pos A b =
     (let v0 = m_ulValue A ! 0 in
      if v0 \<ge> of_int b then Some (A\<lparr>m_ulValue := (m_ulValue A)[0 := v0 - of_int b]\<rparr>)
      else if m_nLength A = 1
           then Some (A\<lparr>m_ulValue := (m_ulValue A)[0 := of_int b - v0], m_nSign := 1 - m_nSign A\<rparr>)
      else do {
        (i, v) \<leftarrow> sub_p_borrow 1 ((m_ulValue A)[0 := of_int (2 ^ 32 + uint v0 - b)]);
        Some (A\<lparr>m_nLength := (if v ! i = 1 then m_nLength A - 1 else m_nLength A), m_ulValue := v[i := v ! i - 1]\<rparr>)
      })"

definition Add_p :: "BI \<Rightarrow> int \<Rightarrow> BI option" where
  "Add_p A b = (if m_nSign A * b \<ge> 0 then Add_p_pos A b else Sub_p_pos A (- b))"

definition Sub_p :: "BI \<Rightarrow> int \<Rightarrow> BI option" where
  "Sub_p A b = (if m_nSign A * b \<ge> 0 then Sub_p_pos A b else Add_p_pos A (- b))"

function mul_loop :: "nat \<Rightarrow> nat \<Rightarrow> u32 list \<Rightarrow> nat \<Rightarrow> u32 list \<Rightarrow> nat \<Rightarrow> u32 list \<times> nat" where
  "mul_loop j n a b q carry =
     (if j < n then
        let mul = unat (a ! j) * b + carry
        in mul_loop (j + 1) n a b (q[j := of_nat mul]) (mul div 2 ^ 32)
      else (q, carry))"
  by pat_completeness auto
termination by (relation "measure (\<lambda>(j, n, a, b, q, carry). n - j)") auto

declare mul_loop.simps [simp del]

text \<open>For a multiplier that is not negative (the callers pass the base 10 or 16).\<close>

definition Mul_p :: "BI \<Rightarrow> nat \<Rightarrow> BI" where
  "Mul_p A b =
     (let (v, carry) = mul_loop 0 (m_nLength A) (m_ulValue A) b (m_ulValue A) 0
      in if (of_nat carry :: u32) \<noteq> 0 \<and> m_nLength A < BI_MAXLEN
         then A\<lparr>m_nLength := m_nLength A + 1, m_ulValue := v[m_nLength A := of_nat carry]\<rparr>
         else A\<lparr>m_ulValue := v\<rparr>)"

fun div_loop :: "nat \<Rightarrow> nat \<Rightarrow> u32 list \<Rightarrow> nat \<Rightarrow> u32 list" where
  "div_loop 0 b v carry = v"
| "div_loop (Suc i) b v carry =
     (let d = carry * 2 ^ 32 + unat (v ! i)
      in div_loop i b (v[i := of_nat (d div b)]) (d - d div b * b))"

definition Div_p :: "BI \<Rightarrow> nat \<Rightarrow> BI" where
  "Div_p A b =
     (if m_nLength A = 1 then A\<lparr>m_ulValue := (m_ulValue A)[0 := of_nat (unat (m_ulValue A ! 0) div b)]\<rparr>
      else let v = div_loop (m_nLength A) b (m_ulValue A) 0
           in A\<lparr>m_nLength := (if v ! (m_nLength A - 1) = 0 then m_nLength A - 1 else m_nLength A), m_ulValue := v\<rparr>)"

fun mod_p_loop :: "nat \<Rightarrow> nat \<Rightarrow> u32 list \<Rightarrow> nat \<Rightarrow> nat" where
  "mod_p_loop 0 b v carry = carry"
| "mod_p_loop (Suc i) b v carry =
     (let d = carry * 2 ^ 32 + unat (v ! i) in mod_p_loop i b v (d - d div b * b))"

definition Mod_p :: "BI \<Rightarrow> nat \<Rightarrow> nat" where
  "Mod_p A b =
     (if m_nLength A = 1 then unat (m_ulValue A ! 0) mod b else mod_p_loop (m_nLength A) b (m_ulValue A) 0)"

section \<open>Multiplication\<close>

text \<open>Moving the low \<open>n\<close> words up by \<open>i\<close> places, from the top down, and clearing the \<open>i\<close> low ones.\<close>

fun move_up :: "nat \<Rightarrow> nat \<Rightarrow> u32 list \<Rightarrow> u32 list" where
  "move_up 0 i v = v"
| "move_up (Suc n) i v = move_up n i (v[n + i := v ! n])"

definition shift_words :: "nat \<Rightarrow> nat \<Rightarrow> u32 list \<Rightarrow> u32 list" where
  "shift_words i len v = fold (\<lambda>k v. v[k := 0]) [0..<i] (move_up len i v)"

text \<open>One row of the product: \<open>q = A * b\<close>, moved up by \<open>i\<close> words when it fits.\<close>

definition mul_row :: "BI \<Rightarrow> u32 \<Rightarrow> nat \<Rightarrow> BI \<Rightarrow> BI" where
  "mul_row A b i q =
     (let (v, carry) = mul_loop 0 (m_nLength A) (m_ulValue A) (unat b) (m_ulValue q) 0;
          q = q\<lparr>m_nLength := m_nLength A, m_ulValue := v\<rparr>;
          q = (if carry \<noteq> 0 \<and> m_nLength q < BI_MAXLEN
               then q\<lparr>m_nLength := m_nLength q + 1, m_ulValue := (m_ulValue q)[m_nLength q := of_nat carry]\<rparr>
               else q)
      in if m_nLength q < BI_MAXLEN - i
         then q\<lparr>m_nLength := m_nLength q + i, m_ulValue := shift_words i (m_nLength q) (m_ulValue q)\<rparr>
         else q)"

function mul_rows :: "nat \<Rightarrow> BI \<Rightarrow> BI \<Rightarrow> BI \<Rightarrow> BI \<Rightarrow> BI" where
  "mul_rows i A B p q =
     (if i < m_nLength B then
        let q = mul_row A (m_ulValue B ! i) i q in mul_rows (i + 1) A B (Add p q) q
      else p)"
  by pat_completeness auto
termination by (relation "measure (\<lambda>(i, A, B, p, q). m_nLength B - i)") auto

declare mul_rows.simps [simp del]

definition Mul :: "BI \<Rightarrow> BI \<Rightarrow> BI" where
  "Mul A B = (mul_rows 0 A B init_BI init_BI)\<lparr>m_nSign := (if m_nSign A + m_nSign B = 1 then 0 else 1)\<rparr>"

section \<open>Division and remainder\<close>

text \<open>
  The estimate both loops make from the leading words: the shift in words and the digit, or
  \<open>None\<close> when the lengths and leading words are equal.
\<close>

definition top_word :: "BI \<Rightarrow> u32" where
  "top_word A = m_ulValue A ! (m_nLength A - 1)"

definition estimate :: "BI \<Rightarrow> BI \<Rightarrow> (nat \<times> nat) option" where
  "estimate p B =
     (if top_word p > top_word B
      then Some (m_nLength p - m_nLength B, unat (top_word p) div unat (top_word B + 1))
      else if m_nLength p > m_nLength B then
        let num = unat (top_word p) * 2 ^ 32 + unat (m_ulValue p ! (m_nLength p - 2))
        in Some (m_nLength p - m_nLength B - 1,
                 if top_word B = 0xffffffff then num div 2 ^ 32 else num div unat (top_word B + 1))
      else None)"

definition bi_shift :: "nat \<Rightarrow> BI \<Rightarrow> BI" where
  "bi_shift len q = q\<lparr>m_nLength := m_nLength q + len, m_ulValue := shift_words len (m_nLength q) (m_ulValue q)\<rparr>"

text \<open>The multiple of \<open>B\<close> that a turn of the remainder loop subtracts.\<close>

definition mod_sub :: "BI \<Rightarrow> BI \<Rightarrow> BI" where
  "mod_sub p B = (case estimate p B of None \<Rightarrow> B | Some (len, dg) \<Rightarrow> bi_shift len (Mul (move_p dg) B))"

partial_function (option) mod_loop :: "BI \<Rightarrow> BI \<Rightarrow> BI option" where
  [code]: "mod_loop B p =
     (if Cmp p B > 0 then
        (case estimate p B of
           None \<Rightarrow> Some (Sub p B)
         | Some (len, dg) \<Rightarrow> mod_loop B (Sub p (bi_shift len (Mul (move_p dg) B))))
      else Some p)"

definition Mod :: "BI \<Rightarrow> BI \<Rightarrow> BI option" where
  "Mod A B = do {
     p \<leftarrow> mod_loop B A;
     Some (if Cmp p B = 0 then SetZero p else p)
   }"

partial_function (option) Div_loop :: "BI \<Rightarrow> BI \<Rightarrow> BI \<Rightarrow> (BI \<times> BI) option" where
  [code]: "Div_loop B p q =
     (if Cmp q B > 0 then
        (case estimate q B of
           None \<Rightarrow> Option.bind (Add_p p 1) (\<lambda>p. Some (p, q))
         | Some (len, dg) \<Rightarrow>
             let r = bi_shift len (move_p dg) in Div_loop B (Add p r) (Sub q (Mul r B)))
      else Some (p, q))"

definition Div :: "BI \<Rightarrow> BI \<Rightarrow> BI option" where
  "Div A B = do {
     (p, q) \<leftarrow> Div_loop B init_BI A;
     p \<leftarrow> (if Cmp q B = 0 then Add_p p 1 else Some p);
     Some (p\<lparr>m_nSign := (if m_nSign A + m_nSign B = 1 then 0 else 1)\<rparr>)
   }"

section \<open>Exponentiation\<close>

text \<open>Square and multiply on the triple \<open>x\<close>, \<open>y\<close>, \<open>z\<close>.\<close>

partial_function (option) exp_loop :: "BI \<Rightarrow> BI \<Rightarrow> BI \<Rightarrow> BI \<Rightarrow> BI option" where
  [code]: "exp_loop mod' x y z =
     (if m_nLength z \<noteq> 1 \<or> m_ulValue z ! 0 \<noteq> 0 then
        if m_ulValue z ! 0 AND 1 \<noteq> 0 then
          Option.bind (Sub_p z 1) (\<lambda>z.
          Option.bind (Mod (Mul x y) mod') (\<lambda>x.
          exp_loop mod' x y z))
        else
          Option.bind (Mod (Mul y y) mod') (\<lambda>y.
          exp_loop mod' x y (Div_p z 2))
      else Some x)"

definition Exp_Mod :: "BI \<Rightarrow> BI \<Rightarrow> BI \<Rightarrow> BI option" where
  "Exp_Mod base exp mod' = exp_loop mod' (move_p 1) base exp"

section \<open>Input and output\<close>

definition hex_digit :: "nat \<Rightarrow> int" where
  "hex_digit c = (if c \<ge> 97 then int c - 97 + 10 else if c \<ge> 65 then int c - 65 + 10 else int c - 48)"

text \<open>The characters of the string, base 10 or 16.\<close>

fun input_loop :: "nat \<Rightarrow> nat list \<Rightarrow> BI \<Rightarrow> BI option" where
  "input_loop system [] p = Some p"
| "input_loop system (c # str) p = do {
     p \<leftarrow> Add_p (Mul_p p system) (if system = 10 then int c - 48 else if system = 16 then hex_digit c else 0);
     input_loop system str p
   }"

definition InPutFromStr :: "nat list \<Rightarrow> nat \<Rightarrow> BI option" where
  "InPutFromStr str system = input_loop system str init_BI"

text \<open>Each byte becomes two characters, \<open>'0'\<close> plus its nibbles; more than 128 bytes are refused.\<close>

definition InPutFromAddr :: "u8 list \<Rightarrow> BI option" where
  "InPutFromAddr bs =
     (if length bs > 128 then None
      else InPutFromStr (concat (map (\<lambda>b. [48 + unat (drop_bit 4 b), 48 + unat (b AND 0xF)]) bs)) 16)"

definition word_bytes_be :: "u32 \<Rightarrow> u8 list" where
  "word_bytes_be w = [ucast (drop_bit 24 w AND 0xff), ucast (drop_bit 16 w AND 0xff),
     ucast (drop_bit 8 w AND 0xff), ucast (w AND 0xff)]"

definition OutPutToAddr :: "BI \<Rightarrow> bool \<Rightarrow> u8 list" where
  "OutPutToAddr A reverse =
     (if reverse then concat (map word_bytes_be (rev (take (m_nLength A) (m_ulValue A))))
      else concat (map le32 (take (m_nLength A) (m_ulValue A))))"

section \<open>RSA\<close>

text \<open>
  The words as bytes, as \<open>rsa_strip\<close> sees them (little-endian), and the two searches downwards from
  byte \<open>i\<close>: for the header byte 0x1F or 0x01 behind zeros, then for the zero behind 0xFF bytes. The
  index just behind the number is read too; \<open>None\<close> is an access beyond the array.
\<close>

definition bi_bytes :: "BI \<Rightarrow> u8 list" where
  "bi_bytes A = concat (map le32 (m_ulValue A))"

fun find_header :: "u8 list \<Rightarrow> nat \<Rightarrow> nat option" where
  "find_header ptr i =
     (if ptr ! i = 0x1F \<or> ptr ! i = 0x01 then Some i
      else if ptr ! i = 0 then (case i of 0 \<Rightarrow> None | Suc j \<Rightarrow> find_header ptr j)
      else None)"

fun find_tail :: "u8 list \<Rightarrow> nat \<Rightarrow> nat option" where
  "find_tail ptr 0 = None"
| "find_tail ptr (Suc i) =
     (if ptr ! i = 0 then Some i else if ptr ! i = 0xFF then find_tail ptr i else None)"

definition bytes_to_words :: "u8 list \<Rightarrow> u32 list" where
  "bytes_to_words bs = map (\<lambda>k. le32_of (take 4 (drop (4 * k) bs))) [0..<length bs div 4]"

definition rsa_strip :: "BI \<Rightarrow> (int \<times> BI) option" where
  "rsa_strip bi =
     (let ptr = bi_bytes bi; i = m_nLength bi * 4 in
      if i \<ge> length ptr then None
      else Some (case find_header ptr i of
          None \<Rightarrow> (- 1, bi)
        | Some header_start \<Rightarrow>
            (case find_tail ptr header_start of
               None \<Rightarrow> (- 1, bi)
             | Some header_tail \<Rightarrow>
                 (0, bi\<lparr>m_ulValue := bytes_to_words (take header_tail ptr @
                                       replicate (header_start - header_tail) 0 @ drop header_start ptr),
                        m_nLength := header_tail div 4 + (if header_tail mod 4 \<noteq> 0 then 1 else 0)\<rparr>))))"

text \<open>The result of the strip is not looked at. \<open>None\<close> arguments are null pointers.\<close>

definition rsa_verify :: "BI option \<Rightarrow> BI option \<Rightarrow> BI option \<Rightarrow> BI option \<Rightarrow> (int \<times> BI option) option" where
  "rsa_verify signature pub_exp mod' dgst =
     (case (signature, pub_exp, mod', dgst) of
        (Some s, Some e, Some m, Some d) \<Rightarrow> do {
          res \<leftarrow> Exp_Mod s e m;
          (_, res) \<leftarrow> rsa_strip res;
          Some (0, Some res)
        }
      | _ \<Rightarrow> Some (- 1, dgst))"

end
