(* ===== verification/Bi_Val.thy ===== *)
theory Bi_Val
  imports Bi
begin

text \<open>
  The values of big integers and what the loops of \<open>bi.c\<close> do to them: positional values of word
  ranges, well-formed and normalised numbers, comparison, addition, subtraction (and the condition
  under which its borrow is right), multiplication by rows, division by a small number.
\<close>

section \<open>Positional values\<close>

definition dval :: "u32 list \<Rightarrow> nat \<Rightarrow> nat \<Rightarrow> nat" where
  "dval v i n = (\<Sum>j = i..<n. unat (v ! j) * 2 ^ (32 * j))"

lemma dval_empty [simp]: "n \<le> i \<Longrightarrow> dval v i n = 0"
  by (simp add: dval_def)

lemma dval_step: "i < n \<Longrightarrow> dval v i n = unat (v ! i) * 2 ^ (32 * i) + dval v (Suc i) n"
  by (simp add: dval_def sum.atLeast_Suc_lessThan)

lemma dval_last: "i \<le> n \<Longrightarrow> dval v i (Suc n) = dval v i n + unat (v ! n) * 2 ^ (32 * n)"
  by (simp add: dval_def)

lemma dval_cong: "(\<And>j. i \<le> j \<Longrightarrow> j < n \<Longrightarrow> v ! j = w ! j) \<Longrightarrow> dval v i n = dval w i n"
  by (simp add: dval_def)

lemma dval_update: "j < i \<or> n \<le> j \<Longrightarrow> dval (v[j := x]) i n = dval v i n"
  by (rule dval_cong) (auto simp: nth_list_update)

lemma unat_u32_le: "unat (w :: u32) \<le> 4294967295"
  using unat_u32_lt [of w] by linarith

lemma pow32_Suc: "(2::nat) ^ (32 * Suc n) = 4294967296 * 2 ^ (32 * n)"
  by (simp add: power_add)

lemma dval_bound: "dval v 0 n < 2 ^ (32 * n)"
proof (induction n)
  case (Suc n)
  have "unat (v ! n) * 2 ^ (32 * n) \<le> 4294967295 * 2 ^ (32 * n)"
    by (rule mult_right_mono) (simp_all add: unat_u32_le)
  then show ?case using Suc unfolding dval_last [OF le0] pow32_Suc by linarith
qed simp

lemma dval_zero_above:
  assumes "m \<le> n" "\<And>j. m \<le> j \<Longrightarrow> j < n \<Longrightarrow> v ! j = 0"
  shows "dval v 0 n = dval v 0 m"
  using assms
proof (induction n)
  case (Suc n)
  then show ?case by (cases "m = Suc n") (auto simp: dval_last)
qed simp

lemma dval_ge_top: "0 < n \<Longrightarrow> v ! (n - 1) \<noteq> 0 \<Longrightarrow> 2 ^ (32 * (n - 1)) \<le> dval v 0 n"
proof -
  assume a: "0 < n" "v ! (n - 1) \<noteq> 0"
  then obtain k where n: "n = Suc k" by (cases n) auto
  have "1 \<le> unat (v ! k)" using a n by (simp add: Suc_le_eq unat_gt_0)
  then show ?thesis by (simp add: n dval_last trans_le_add2)
qed

lemma dval_lt_top: "0 < n \<Longrightarrow> dval v 0 n < (unat (v ! (n - 1)) + 1) * 2 ^ (32 * (n - 1))"
  using dval_bound [of v "n - 1"] dval_last [of 0 "n - 1" v] by (simp add: algebra_simps)

lemma dval_ge_top_word: "0 < n \<Longrightarrow> unat (v ! (n - 1)) * 2 ^ (32 * (n - 1)) \<le> dval v 0 n"
  using dval_last [of 0 "n - 1" v] by simp

section \<open>Well-formed numbers\<close>

definition bi_val :: "BI \<Rightarrow> nat" where
  "bi_val A = dval (m_ulValue A) 0 (m_nLength A)"

definition bi_ok :: "BI \<Rightarrow> bool" where
  "bi_ok A \<longleftrightarrow> m_nSign A = 1 \<and> length (m_ulValue A) = 129 \<and> 1 \<le> m_nLength A \<and> m_nLength A \<le> 129 \<and>
     (\<forall>j. m_nLength A \<le> j \<and> j < 129 \<longrightarrow> m_ulValue A ! j = 0)"

text \<open>Normalised: no leading zero word.\<close>

definition bi_norm :: "BI \<Rightarrow> bool" where
  "bi_norm A \<longleftrightarrow> bi_ok A \<and> (m_nLength A = 1 \<or> m_ulValue A ! (m_nLength A - 1) \<noteq> 0)"

lemma bi_normD: "bi_norm A \<Longrightarrow> bi_ok A" by (simp add: bi_norm_def)

lemma bi_okD:
  assumes "bi_ok A"
  shows "m_nSign A = 1" "length (m_ulValue A) = 129" "1 \<le> m_nLength A" "m_nLength A \<le> 129"
    "\<And>j. m_nLength A \<le> j \<Longrightarrow> j < 129 \<Longrightarrow> m_ulValue A ! j = 0"
  using assms by (auto simp: bi_ok_def)

lemma bi_val_ext: "bi_ok A \<Longrightarrow> m_nLength A \<le> n \<Longrightarrow> n \<le> 129 \<Longrightarrow> dval (m_ulValue A) 0 n = bi_val A"
  unfolding bi_val_def by (rule dval_zero_above) (auto simp: bi_ok_def)

lemma bi_val_bound: "bi_val A < 2 ^ (32 * m_nLength A)"
  by (simp add: bi_val_def dval_bound)

lemma bi_norm_iff:
  assumes "bi_ok A"
  shows "bi_norm A \<and> 0 < bi_val A \<longleftrightarrow> 2 ^ (32 * (m_nLength A - 1)) \<le> bi_val A"
proof
  assume a: "bi_norm A \<and> 0 < bi_val A"
  show "2 ^ (32 * (m_nLength A - 1)) \<le> bi_val A"
  proof (cases "m_nLength A = 1")
    case False
    then have "m_ulValue A ! (m_nLength A - 1) \<noteq> 0" using a by (auto simp: bi_norm_def)
    then show ?thesis using dval_ge_top [of "m_nLength A"] bi_okD(3) [OF assms] by (simp add: bi_val_def)
  qed (use a in simp)
next
  assume le: "2 ^ (32 * (m_nLength A - 1)) \<le> bi_val A"
  have "m_ulValue A ! (m_nLength A - 1) \<noteq> 0"
  proof
    assume "m_ulValue A ! (m_nLength A - 1) = 0"
    then have "bi_val A < 2 ^ (32 * (m_nLength A - 1))"
      using dval_lt_top [of "m_nLength A" "m_ulValue A"] bi_okD(3) [OF assms] by (simp add: bi_val_def)
    then show False using le by simp
  qed
  moreover have "0 < bi_val A" using le by (rule less_le_trans [rotated]) simp
  ultimately show "bi_norm A \<and> 0 < bi_val A" using assms by (simp add: bi_norm_def)
qed

lemma bi_norm_len:
  assumes "bi_norm A" "bi_val A < 2 ^ (32 * n)" "1 \<le> n"
  shows "m_nLength A \<le> n"
proof (rule ccontr)
  assume n: "\<not> m_nLength A \<le> n"
  then have "m_nLength A \<noteq> 1" using assms(3) by simp
  then have "m_ulValue A ! (m_nLength A - 1) \<noteq> 0" using assms(1) by (simp add: bi_norm_def)
  then have "2 ^ (32 * (m_nLength A - 1)) \<le> bi_val A"
    using dval_ge_top [of "m_nLength A"] n by (simp add: bi_val_def)
  moreover have "(2::nat) ^ (32 * n) \<le> 2 ^ (32 * (m_nLength A - 1))" using n by (intro power_increasing) auto
  ultimately show False using assms(2) by linarith
qed

lemma init_BI_norm: "bi_norm init_BI" "bi_val init_BI = 0"
  by (auto simp: init_BI_def bi_norm_def bi_ok_def bi_val_def dval_def)

lemma SetZero_norm: "bi_norm (SetZero A)" "bi_val (SetZero A) = 0"
  by (auto simp: SetZero_def bi_norm_def bi_ok_def bi_val_def dval_def)

lemma move_p_norm:
  assumes "b < 2 ^ 32"
  shows "bi_norm (move_p b)" "bi_val (move_p b) = b" "m_nLength (move_p b) = 1"
  using assms by (auto simp: move_p_def init_BI_def bi_norm_def bi_ok_def bi_val_def dval_def unat_of_nat nth_list_update)

section \<open>Comparison\<close>

lemma cmp_loop_dval:
  "cmp_loop a b n = (if dval a 0 n = dval b 0 n then 0 else if dval a 0 n > dval b 0 n then 1 else - 1)"
proof (induction n)
  case (Suc n)
  let ?W = "2 ^ (32 * n) :: nat"
  have ba: "dval a 0 n < ?W" and bb: "dval b 0 n < ?W" by (rule dval_bound)+
  have lt: "dval x 0 n + unat (x ! n) * ?W < dval y 0 n + unat (y ! n) * ?W"
    if "unat (x ! n) < unat (y ! n)" "dval x 0 n < ?W" for x y
  proof -
    have "unat (x ! n) * ?W + ?W \<le> unat (y ! n) * ?W"
      using mult_le_mono1 [of "unat (x ! n) + 1" "unat (y ! n)" ?W] that(1) by (simp add: algebra_simps)
    then show ?thesis using that(2) by linarith
  qed
  consider "a ! n > b ! n" | "a ! n < b ! n" | "a ! n = b ! n" by (rule linorder_cases)
  then show ?case
  proof cases
    case 1
    then show ?thesis using lt [of b a] bb by (simp add: dval_last word_less_nat_alt)
  next
    case 2
    then show ?thesis using lt [of a b] ba by (simp add: dval_last word_less_nat_alt)
  next
    case 3
    then show ?thesis using Suc by (simp add: dval_last)
  qed
qed simp

lemma Cmp_val:
  assumes "bi_norm A" "bi_norm B"
  shows "Cmp A B = (if bi_val A = bi_val B then 0 else if bi_val A > bi_val B then 1 else - 1)"
proof -
  have lt: "bi_val X < bi_val Y" if "m_nLength X < m_nLength Y" "bi_norm X" "bi_norm Y" for X Y
  proof -
    have "m_nLength Y \<noteq> 1" using that bi_okD(3) [OF bi_normD [OF that(2)]] by simp
    then have "m_ulValue Y ! (m_nLength Y - 1) \<noteq> 0" using that(3) by (simp add: bi_norm_def)
    then have "2 ^ (32 * (m_nLength Y - 1)) \<le> bi_val Y" using dval_ge_top [of "m_nLength Y"] that(1) by (simp add: bi_val_def)
    moreover have "(2::nat) ^ (32 * m_nLength X) \<le> 2 ^ (32 * (m_nLength Y - 1))" using that(1) by (intro power_increasing) auto
    ultimately show ?thesis using bi_val_bound [of X] by linarith
  qed
  show ?thesis
    using lt [of A B] lt [of B A] assms cmp_loop_dval [of "m_ulValue A" "m_ulValue B" "m_nLength A"]
    by (auto simp: Cmp_def bi_val_def)
qed

section \<open>Addition\<close>

lemma add_word:
  assumes "c \<le> 1"
  shows "unat (of_nat (unat (x::u32) + unat (y::u32) + c) :: u32) +
    (if unat x + unat y + c > 0xffffffff then 1 else 0) * 4294967296 = unat x + unat y + c"
proof -
  have gen: "unat (of_nat s :: u32) + (if s > 0xffffffff then 1 else 0) * 4294967296 = s" if "s < 2 * 4294967296" for s
    using that by (auto simp: unat_of_nat mod_if)
  have "unat x + unat y + c < 2 * 4294967296" using unat_u32_le [of x] unat_u32_le [of y] assms by linarith
  then show ?thesis by (rule gen)
qed

lemma add_loop_spec:
  assumes "i \<le> n" "n \<le> length p" "c \<le> 1" "add_loop i n b p c = (p', c')"
  shows "length p' = length p \<and> c' \<le> 1 \<and> (\<forall>j. j < i \<or> n \<le> j \<longrightarrow> p' ! j = p ! j) \<and>
    dval p' i n + c' * 2 ^ (32 * n) = dval b i n + dval p i n + c * 2 ^ (32 * i)"
  using assms
proof (induction i n b p c arbitrary: p' c' rule: add_loop.induct)
  case (1 i n b p c)
  show ?case
  proof (cases "i < n")
    case True
    define sum where "sum = unat (b ! i) + unat (p ! i) + c"
    define x where "x = (of_nat sum :: u32)"
    define cc :: nat where "cc = (if sum > 0xffffffff then 1 else 0)"
    have rec: "add_loop (i + 1) n b (p[i := x]) cc = (p', c')"
      using 1(5) True by (subst (asm) add_loop.simps) (simp add: Let_def sum_def x_def cc_def)
    have ih: "length p' = length (p[i := x]) \<and> c' \<le> 1 \<and> (\<forall>j. j < i + 1 \<or> n \<le> j \<longrightarrow> p' ! j = p[i := x] ! j) \<and>
      dval p' (i + 1) n + c' * 2 ^ (32 * n) = dval b (i + 1) n + dval (p[i := x]) (i + 1) n + cc * 2 ^ (32 * (i + 1))"
      using 1(1) [OF True sum_def, of p' c'] rec 1(3) True by (simp add: x_def cc_def)
    have xs: "unat x + cc * 4294967296 = unat (b ! i) + unat (p ! i) + c"
      using add_word [OF 1(4), of "b ! i" "p ! i"] by (simp add: x_def cc_def sum_def)
    have "p' ! i = x" using ih 1(3) True by simp
    then have "dval p' i n = unat x * 2 ^ (32 * i) + dval p' (i + 1) n" using True by (simp add: dval_step)
    moreover have "unat x * 2 ^ (32 * i) + cc * 2 ^ (32 * (i + 1)) = (unat (b ! i) + unat (p ! i) + c) * 2 ^ (32 * i)"
      using xs by (metis Suc_eq_plus1 add_mult_distrib mult.assoc pow32_Suc)
    ultimately have "dval p' i n + c' * 2 ^ (32 * n) = dval b i n + dval p i n + c * 2 ^ (32 * i)"
      using ih True by (simp add: dval_step dval_update algebra_simps)
    then show ?thesis using ih 1(3) True by (auto simp: nth_list_update)
  next
    case False
    then show ?thesis using 1 by (subst (asm) add_loop.simps) auto
  qed
qed

text \<open>
  Adding a number whose words are known only up to its length, when that is at least the length of
  the other operand.
\<close>

lemma Add_same_spec:
  assumes ok: "bi_ok p" and q: "length (m_ulValue q) = 129" "m_nLength p \<le> m_nLength q" "m_nLength q \<le> 129"
    and fit: "bi_val p + bi_val q < 2 ^ (32 * 129)"
  defines "r \<equiv> Add_same p q"
  shows "bi_ok r" "bi_val r = bi_val p + bi_val q"
    "m_nLength r = m_nLength q + (if bi_val p + bi_val q < 2 ^ (32 * m_nLength q) then 0 else 1)"
proof -
  let ?n = "m_nLength q"
  note f = bi_okD [OF ok]
  obtain v c where l: "add_loop 0 ?n (m_ulValue q) (m_ulValue p) 0 = (v, c)" by force
  have sp: "length v = 129" "c \<le> 1" "\<And>j. ?n \<le> j \<Longrightarrow> v ! j = m_ulValue p ! j"
    "dval v 0 ?n + c * 2 ^ (32 * ?n) = bi_val q + bi_val p"
    using add_loop_spec [OF _ _ _ l] q f bi_val_ext [OF ok q(2,3)] by (auto simp: bi_val_def)
  have b: "dval v 0 ?n < 2 ^ (32 * ?n)" by (rule dval_bound)
  have c: "c = (if bi_val p + bi_val q < 2 ^ (32 * ?n) then 0 else 1)"
  proof (cases "c = 0")
    case False
    then have "c = 1" using sp(2) by simp
    then show ?thesis using sp(4) by simp
  qed (use sp(4) b in simp)
  have len: "(if m_nLength p < ?n then ?n else m_nLength p) = ?n" using q(2) by simp
  have z: "v ! j = 0" if "?n \<le> j" "j < 129" for j using that sp(3) [of j] f(5) [of j] q(2) by simp
  have n1: "1 \<le> ?n" using q(2) f(3) by simp
  have "bi_ok r \<and> bi_val r = bi_val p + bi_val q \<and> m_nLength r = ?n + c"
  proof (cases "?n < 129")
    case True
    have r: "r = p\<lparr>m_nLength := ?n + c, m_ulValue := v[?n := of_nat c]\<rparr>"
      using True by (simp add: r_def Add_same_def len l Let_def)
    have "dval (v[?n := of_nat c]) 0 (?n + c) = dval v 0 ?n + c * 2 ^ (32 * ?n)"
      using sp(1,2) True by (cases "c = 0") (auto simp: dval_last dval_update le_Suc_eq)
    then show ?thesis
      using sp f z True n1 by (auto simp: r bi_ok_def bi_val_def nth_list_update le_Suc_eq)
  next
    case False
    then have "c = 0" using c fit q(3) by (cases "?n = 129") auto
    moreover have "r = p\<lparr>m_nLength := ?n, m_ulValue := v\<rparr>" using False by (simp add: r_def Add_same_def len l Let_def)
    ultimately show ?thesis using sp f z q n1 by (auto simp: bi_ok_def bi_val_def)
  qed
  then show "bi_ok r" "bi_val r = bi_val p + bi_val q"
    "m_nLength r = ?n + (if bi_val p + bi_val q < 2 ^ (32 * ?n) then 0 else 1)"
    using c by auto
qed

section \<open>Subtraction\<close>

text \<open>No word of the minuend is zero when a borrow is pending at it.\<close>

function sub_clean :: "nat \<Rightarrow> nat \<Rightarrow> u32 list \<Rightarrow> u32 list \<Rightarrow> u32 \<Rightarrow> bool" where
  "sub_clean i n s d carry =
     (if i < n then
        (carry = 0 \<or> s ! i \<noteq> 0) \<and> sub_clean (i + 1) n s d (if s ! i - carry \<ge> d ! i then 0 else 1)
      else True)"
  by pat_completeness auto
termination by (relation "measure (\<lambda>(i, n, s, d, carry). n - i)") auto

declare sub_clean.simps [simp del]

lemma sub_word:
  assumes "c = 0 \<or> c = 1" "c = 0 \<or> s \<noteq> (0::u32)"
  shows "s - c \<ge> d \<Longrightarrow> int (unat (s - c - d)) = int (unat s) - int (unat c) - int (unat d)"
    "\<not> s - c \<ge> d \<Longrightarrow> int (unat (of_int (2 ^ 32 + uint s - uint c - uint d) :: u32)) =
       4294967296 + int (unat s) - int (unat c) - int (unat d)"
proof -
  have sc: "unat (s - c) = unat s - unat c" "unat c \<le> unat s"
    using assms by (auto simp: unat_sub_if' unat_eq_0 Suc_le_eq unat_gt_0)
  show "int (unat (s - c - d)) = int (unat s) - int (unat c) - int (unat d)" if "s - c \<ge> d"
    using that sc by (simp add: unat_sub word_le_nat_alt)
  assume "\<not> s - c \<ge> d"
  then have lt: "unat s - unat c < unat d" using sc by (simp add: word_le_nat_alt)
  then have lt2: "int (unat s) < int (unat d) + int (unat c)" using sc(2) by linarith
  have p32: "(2::int) ^ 32 = 4294967296" by simp
  have r1: "0 \<le> 2 ^ 32 + uint s - uint c - uint d"
    unfolding uint_nat p32 using sc(2) unat_u32_le [of d] by linarith
  have r2: "2 ^ 32 + uint s - uint c - uint d < 4294967296"
    unfolding uint_nat p32 using lt2 by linarith
  show "int (unat (of_int (2 ^ 32 + uint s - uint c - uint d) :: u32)) =
       4294967296 + int (unat s) - int (unat c) - int (unat d)"
  proof -
    have "int (unat (of_int (2 ^ 32 + uint s - uint c - uint d) :: u32)) = 2 ^ 32 + uint s - uint c - uint d"
      by (rule int_unat_of_int [OF r1]) (use r2 in simp)
    then show ?thesis unfolding uint_nat p32 .
  qed
qed

lemma sub_loop_spec:
  assumes "i \<le> n" "n \<le> length p" "c = 0 \<or> c = 1" "sub_clean i n s d c"
  shows "length (sub_loop i n s d p c) = length p \<and>
    (\<forall>j. j < i \<or> n \<le> j \<longrightarrow> sub_loop i n s d p c ! j = p ! j) \<and>
    (\<exists>k::nat. int (dval (sub_loop i n s d p c) i n) =
      int (dval s i n) - int (dval d i n) - int (unat c) * 2 ^ (32 * i) + int k * 2 ^ (32 * n))"
  using assms
proof (induction i n s d p c rule: sub_loop.induct)
  case (1 i n s d p c)
  show ?case
  proof (cases "i < n")
    case True
    define x where "x = (if s ! i - c \<ge> d ! i then s ! i - c - d ! i
      else of_int (2 ^ 32 + uint (s ! i) - uint c - uint (d ! i)))"
    define cc :: u32 where "cc = (if s ! i - c \<ge> d ! i then 0 else 1)"
    let ?r = "sub_loop (i + 1) n s d (p[i := x]) cc"
    have cl: "c = 0 \<or> s ! i \<noteq> 0" "sub_clean (i + 1) n s d cc"
      using 1(6) True by (subst (asm) sub_clean.simps, simp add: cc_def)+
    have rec: "sub_loop i n s d p c = ?r"
      using True by (subst sub_loop.simps) (simp add: x_def cc_def)
    have ih: "length ?r = length p \<and> (\<forall>j. j < i + 1 \<or> n \<le> j \<longrightarrow> ?r ! j = p[i := x] ! j) \<and>
      (\<exists>k::nat. int (dval ?r (i + 1) n) =
        int (dval s (i + 1) n) - int (dval d (i + 1) n) - int (unat cc) * 2 ^ (32 * (i + 1)) + int k * 2 ^ (32 * n))"
      using 1(1) [OF True] 1(2) [OF True] 1(4) True cl(2) by (cases "s ! i - c \<ge> d ! i") (simp_all add: x_def cc_def)
    then obtain k :: nat where k: "int (dval ?r (i + 1) n) =
        int (dval s (i + 1) n) - int (dval d (i + 1) n) - int (unat cc) * 2 ^ (32 * (i + 1)) + int k * 2 ^ (32 * n)"
      by blast
    have x: "int (unat x) = int (unat (s ! i)) - int (unat c) - int (unat (d ! i)) + int (unat cc) * 4294967296"
      using sub_word [OF 1(5) cl(1), of "d ! i"] by (simp add: x_def cc_def)
    have "?r ! i = x" using ih 1(4) True by simp
    then have "int (dval ?r i n) = int (unat x) * 2 ^ (32 * i) + int (dval ?r (i + 1) n)"
      using True by (simp add: dval_step)
    also have "\<dots> = int (dval s i n) - int (dval d i n) - int (unat c) * 2 ^ (32 * i) + int k * 2 ^ (32 * n)"
    proof -
      have "(2::int) ^ (32 * (i + 1)) = 4294967296 * 2 ^ (32 * i)" by (simp add: power_add)
      then show ?thesis unfolding k x using True by (simp add: dval_step algebra_simps)
    qed
    finally show ?thesis unfolding rec using ih 1(4) True by (auto simp: nth_list_update)
  next
    case False
    have "sub_loop i n s d p c = p" using False by (subst sub_loop.simps) simp
    then show ?thesis using False 1(3) by (auto intro!: exI [of _ "unat c"])
  qed
qed

lemma strip_len_spec:
  "strip_len v n \<le> n \<and> dval v 0 (strip_len v n) = dval v 0 n \<and>
   (\<forall>j. strip_len v n \<le> j \<and> j < n \<longrightarrow> v ! j = 0) \<and>
   (0 < strip_len v n \<longrightarrow> v ! (strip_len v n - 1) \<noteq> 0)"
  by (induction n) (auto simp: dval_last less_Suc_eq le_Suc_eq)

text \<open>The difference of two numbers, when the first is larger and the borrow chain is clean.\<close>

lemma Sub_greater:
  assumes A: "bi_norm A" and B: "bi_norm B" and gt: "bi_val B < bi_val A"
    and clean: "sub_clean 0 (m_nLength A) (m_ulValue A) (m_ulValue B) 0"
  shows "bi_norm (Sub A B)" "bi_val (Sub A B) = bi_val A - bi_val B"
proof -
  note fa = bi_okD [OF bi_normD [OF A]] and fb = bi_okD [OF bi_normD [OF B]]
  let ?n = "m_nLength A"
  define v where "v = sub_loop 0 ?n (m_ulValue A) (m_ulValue B) (m_ulValue A) 0"
  have cmp: "Cmp A B = 1" using Cmp_val [OF A B] gt by simp
  have le: "m_nLength B \<le> ?n"
    using bi_norm_len [OF B, of ?n] bi_val_bound [of A] gt fa(3) by linarith
  have s: "Sub A B = A\<lparr>m_nSign := 1, m_nLength := strip_len v ?n, m_ulValue := v\<rparr>"
    using fa(1) fb(1) cmp by (simp add: Sub_def Sub_same_def v_def Let_def)
  have sp: "length v = 129" "\<And>j. ?n \<le> j \<Longrightarrow> v ! j = m_ulValue A ! j"
    using sub_loop_spec [OF _ _ _ clean, of "m_ulValue A"] fa by (auto simp: v_def)
  obtain k :: nat where k: "int (dval v 0 ?n) = int (bi_val A) - int (bi_val B) + int k * 2 ^ (32 * ?n)"
    using sub_loop_spec [OF _ _ _ clean, of "m_ulValue A"] fa bi_val_ext [OF bi_normD [OF B] le fa(4)]
    by (auto simp: v_def bi_val_def)
  have "k = 0"
  proof (rule ccontr)
    assume "k \<noteq> 0"
    then have "(2::int) ^ (32 * ?n) \<le> int k * 2 ^ (32 * ?n)" by simp
    moreover have "int (dval v 0 ?n) < 2 ^ (32 * ?n)" using dval_bound [of v ?n] by (simp flip: of_nat_power)
    ultimately show False using k gt by linarith
  qed
  then have dv: "dval v 0 ?n = bi_val A - bi_val B" using k gt by simp
  note st = strip_len_spec [of v ?n]
  have pos: "0 < strip_len v ?n" using st dv gt by (cases "strip_len v ?n") auto
  have z: "v ! j = 0" if "strip_len v ?n \<le> j" "j < 129" for j
    using that st sp(2) [of j] fa(5) [of j] by (cases "j < ?n") auto
  show "bi_val (Sub A B) = bi_val A - bi_val B" using st dv by (simp add: s bi_val_def)
  show "bi_norm (Sub A B)" using st pos z sp(1) fa by (auto simp: s bi_norm_def bi_ok_def)
qed

lemma Sub_equal: "bi_norm A \<Longrightarrow> bi_norm B \<Longrightarrow> bi_val A = bi_val B \<Longrightarrow> Sub A B = SetZero A"
  using Cmp_val [of A B] by (simp add: Sub_def Sub_same_def bi_norm_def bi_ok_def)

section \<open>Multiplication\<close>

lemma mul_loop_spec:
  assumes "j \<le> n" "n \<le> length q" "c < 2 ^ 32" "b < 2 ^ 32" "mul_loop j n a b q c = (q', c')"
  shows "length q' = length q \<and> c' < 2 ^ 32 \<and> (\<forall>k. k < j \<or> n \<le> k \<longrightarrow> q' ! k = q ! k) \<and>
    dval q' j n + c' * 2 ^ (32 * n) = dval a j n * b + c * 2 ^ (32 * j)"
  using assms
proof (induction j n a b q c arbitrary: q' c' rule: mul_loop.induct)
  case (1 j n a b q c)
  show ?case
  proof (cases "j < n")
    case True
    define mul where "mul = unat (a ! j) * b + c"
    define x where "x = (of_nat mul :: u32)"
    have "unat (a ! j) * b \<le> 4294967295 * 4294967295"
      using unat_u32_le [of "a ! j"] 1(5) by (intro mult_le_mono) auto
    then have "mul < 4294967296 * 4294967296" using 1(4) by (simp add: mul_def)
    then have cc: "mul div 2 ^ 32 < 2 ^ 32" by (simp add: less_mult_imp_div_less)
    have rec: "mul_loop (j + 1) n a b (q[j := x]) (mul div 2 ^ 32) = (q', c')"
      using 1(6) True by (subst (asm) mul_loop.simps) (simp add: Let_def mul_def x_def)
    have ih: "length q' = length (q[j := x]) \<and> c' < 2 ^ 32 \<and> (\<forall>k. k < j + 1 \<or> n \<le> k \<longrightarrow> q' ! k = q[j := x] ! k) \<and>
      dval q' (j + 1) n + c' * 2 ^ (32 * n) = dval a (j + 1) n * b + mul div 2 ^ 32 * 2 ^ (32 * (j + 1))"
      using 1(1) [OF True mul_def, of q' c'] rec cc 1(3,5) True by (simp add: x_def)
    have "unat x + mul div 2 ^ 32 * 4294967296 = mul"
      using mod_mult_div_eq [of mul 4294967296] by (simp add: x_def unat_of_nat)
    then have "(unat x + mul div 2 ^ 32 * 4294967296) * 2 ^ (32 * j) = mul * 2 ^ (32 * j)" by simp
    then have "unat x * 2 ^ (32 * j) + mul div 2 ^ 32 * 2 ^ (32 * (j + 1)) = mul * 2 ^ (32 * j)"
      using pow32_Suc [of j] by (simp add: add_mult_distrib del: mult_Suc_right)
    moreover have "q' ! j = x" using ih 1(3) True by simp
    ultimately have "dval q' j n + c' * 2 ^ (32 * n) = dval a j n * b + c * 2 ^ (32 * j)"
      using ih True by (simp add: dval_step mul_def algebra_simps)
    then show ?thesis using ih 1(3) True by (auto simp: nth_list_update)
  next
    case False
    then show ?thesis using 1 by (subst (asm) mul_loop.simps) auto
  qed
qed

lemma length_move_up [simp]: "length (move_up n i v) = length v"
  by (induction n arbitrary: v) auto

lemma nth_move_up:
  "n + i \<le> length v \<Longrightarrow> j < length v \<Longrightarrow> move_up n i v ! j = (if i \<le> j \<and> j < n + i then v ! (j - i) else v ! j)"
  by (induction n arbitrary: v) (auto simp: nth_list_update less_Suc_eq)

lemma zero_low_spec:
  "length (fold (\<lambda>k v. v[k := 0]) [0..<i] v) = length v \<and>
   (\<forall>j < length v. fold (\<lambda>k v. v[k := (0::u32)]) [0..<i] v ! j = (if j < i then 0 else v ! j))"
  by (induction i) (auto simp: nth_list_update less_Suc_eq)

lemma shift_words_spec:
  assumes "n + i \<le> length v"
  shows "length (shift_words i n v) = length v"
    "j < length v \<Longrightarrow> shift_words i n v ! j = (if j < i then 0 else if j < n + i then v ! (j - i) else v ! j)"
  using assms zero_low_spec [of i "move_up n i v"] by (auto simp: shift_words_def nth_move_up)

lemma dval_shift:
  assumes "n + i \<le> length v"
  shows "dval (shift_words i n v) 0 (n + i) = dval v 0 n * 2 ^ (32 * i)"
proof -
  have "dval (shift_words i n v) 0 (k + i) = dval v 0 k * 2 ^ (32 * i)" if "k \<le> n" for k
    using that
  proof (induction k)
    case 0
    have "dval (shift_words i n v) 0 i = dval (shift_words i n v) 0 0"
      using assms by (intro dval_zero_above) (auto simp: shift_words_spec)
    then show ?case by simp
  next
    case (Suc k)
    then have "shift_words i n v ! (k + i) = v ! k" using assms by (simp add: shift_words_spec(2))
    then show ?case using Suc by (simp add: dval_last algebra_simps power_add)
  qed
  then show ?thesis by simp
qed

lemma bi_shift_norm:
  assumes "bi_norm q" "0 < bi_val q" "m_nLength q + len \<le> 129"
  shows "bi_norm (bi_shift len q)" "bi_val (bi_shift len q) = bi_val q * 2 ^ (32 * len)"
proof -
  note f = bi_okD [OF bi_normD [OF assms(1)]]
  show v: "bi_val (bi_shift len q) = bi_val q * 2 ^ (32 * len)"
    using dval_shift [of "m_nLength q" len "m_ulValue q"] assms(3) f by (simp add: bi_shift_def bi_val_def)
  have ok: "bi_ok (bi_shift len q)"
    using f assms(3) by (auto simp: bi_ok_def bi_shift_def shift_words_spec)
  have "2 ^ (32 * (m_nLength q - 1)) \<le> bi_val q" using bi_norm_iff [OF bi_normD [OF assms(1)]] assms by simp
  then have "2 ^ (32 * (m_nLength q - 1)) * 2 ^ (32 * len) \<le> bi_val (bi_shift len q)" unfolding v by (rule mult_le_mono1)
  moreover have "(2::nat) ^ (32 * (m_nLength q - 1)) * 2 ^ (32 * len) = 2 ^ (32 * (m_nLength (bi_shift len q) - 1))"
    using f(3) by (simp add: bi_shift_def power_add [symmetric] algebra_simps)
  ultimately show "bi_norm (bi_shift len q)" using bi_norm_iff [OF ok] by simp
qed

text \<open>One row: its value, its length, and that a nonzero row has no leading zero word.\<close>

lemma mul_row_spec:
  fixes b :: u32
  assumes A: "bi_norm A" and q: "length (m_ulValue q) = 129" and room: "m_nLength A + i + 1 < 129"
  defines "r \<equiv> mul_row A b i q"
  shows "length (m_ulValue r) = 129" "bi_val r = bi_val A * unat b * 2 ^ (32 * i)"
    "m_nLength r = m_nLength A + i \<or> m_nLength r = m_nLength A + i + 1 \<and> 2 ^ (32 * (m_nLength A + i)) \<le> bi_val r"
    "m_nSign r = m_nSign q"
proof -
  let ?n = "m_nLength A"
  note f = bi_okD [OF bi_normD [OF A]]
  obtain v c where l: "mul_loop 0 ?n (m_ulValue A) (unat b) (m_ulValue q) 0 = (v, c)" by force
  have sp: "length v = 129" "c < 2 ^ 32" "dval v 0 ?n + c * 2 ^ (32 * ?n) = bi_val A * unat b"
    using mul_loop_spec [OF _ _ _ _ l] f q by (auto simp: bi_val_def)
  define w where "w = (if c \<noteq> 0 then v[?n := of_nat c] else v)"
  define k where "k = (if c \<noteq> 0 then ?n + 1 else ?n)"
  have w: "length w = 129" "dval w 0 k = bi_val A * unat b"
    using sp room by (auto simp: w_def k_def dval_last dval_update unat_of_nat)
  have k: "k + i < 129" using room by (simp add: k_def)
  have r: "r = q\<lparr>m_nLength := k + i, m_ulValue := shift_words i k w\<rparr>"
    using room k f(4) by (auto simp: r_def mul_row_def l Let_def w_def k_def)
  show "length (m_ulValue r) = 129" and v: "bi_val r = bi_val A * unat b * 2 ^ (32 * i)"
    using shift_words_spec(1) [of k i w] dval_shift [of k i w] w k by (simp_all add: r bi_val_def)
  show "m_nSign r = m_nSign q" by (simp add: r)
  show "m_nLength r = ?n + i \<or> m_nLength r = ?n + i + 1 \<and> 2 ^ (32 * (?n + i)) \<le> bi_val r"
  proof (cases "c = 0")
    case False
    have "2 ^ (32 * ?n) \<le> c * 2 ^ (32 * ?n)" using False by simp
    then have "2 ^ (32 * ?n) \<le> bi_val A * unat b" using sp(3) by linarith
    then have "2 ^ (32 * ?n) * 2 ^ (32 * i) \<le> bi_val r" unfolding v by (rule mult_le_mono1)
    then show ?thesis using False by (simp add: r k_def power_add distrib_left)
  qed (simp add: r k_def)
qed

end
