(* ===== verification/Bi_Mod.thy ===== *)
theory Bi_Mod
  imports Bi_Val
begin

text \<open>
  Products, remainders and modular powers of \<open>bi.c\<close>, and the decoding of byte strings. The
  remainder loop is followed through the states it reaches; the results hold when none of its
  subtractions meets the defect of the borrow.
\<close>

section \<open>Products\<close>

lemma Add_row:
  assumes p: "bi_ok p" "m_nLength p \<le> m_nLength q" and q: "length (m_ulValue q) = 129" "m_nLength q \<le> 129" "m_nSign q = 1"
    and fit: "bi_val p + bi_val q < 2 ^ (32 * n)" "m_nLength q \<le> n" "n \<le> 129"
  shows "bi_ok (Add p q)" "bi_val (Add p q) = bi_val p + bi_val q"
    "m_nLength q \<le> m_nLength (Add p q)" "m_nLength (Add p q) \<le> n"
    "m_nLength q < m_nLength (Add p q) \<Longrightarrow> 2 ^ (32 * m_nLength q) \<le> bi_val (Add p q)"
proof -
  have s: "Add p q = Add_same p q" using p(1) q(3) by (simp add: Add_def bi_ok_def)
  have "(2::nat) ^ (32 * n) \<le> 2 ^ (32 * 129)" using fit(3) by (intro power_increasing) auto
  then have f: "bi_val p + bi_val q < 2 ^ (32 * 129)" using fit(1) by (rule less_le_trans [rotated])
  note a = Add_same_spec [OF p(1) q(1) p(2) q(2) f]
  show "bi_ok (Add p q)" "bi_val (Add p q) = bi_val p + bi_val q" "m_nLength q \<le> m_nLength (Add p q)"
    using a by (simp_all add: s)
  show "m_nLength q < m_nLength (Add p q) \<Longrightarrow> 2 ^ (32 * m_nLength q) \<le> bi_val (Add p q)"
    using a by (simp add: s split: if_splits)
  show "m_nLength (Add p q) \<le> n"
  proof (cases "m_nLength q = n")
    case True
    then show ?thesis using a(3) fit(1) by (simp add: s)
  next
    case False
    then show ?thesis using a(3) fit(2) by (simp add: s)
  qed
qed

lemma bi_val_mult_bound:
  assumes "bi_val A < 2 ^ (32 * n)" "d < 2 ^ (32 * i)"
  shows "bi_val A * d < 2 ^ (32 * (n + i))"
proof -
  have "bi_val A * d < 2 ^ (32 * n) * 2 ^ (32 * i)"
    using mult_strict_mono' [OF assms] by simp
  then show ?thesis by (simp add: power_add [symmetric] distrib_left)
qed

text \<open>The rows from \<open>i\<close> on; \<open>top\<close> is what keeps the sum free of a leading zero word at the end.\<close>

lemma mul_rows_spec:
  assumes A: "bi_norm A" "0 < bi_val A" and B: "bi_norm B" "0 < bi_val B" and len: "m_nLength A + m_nLength B \<le> 128"
    and i: "i \<le> m_nLength B" and p: "bi_ok p" "bi_val p = bi_val A * dval (m_ulValue B) 0 i" "m_nLength p \<le> m_nLength A + i"
    and q: "length (m_ulValue q) = 129" "m_nSign q = 1"
    and fin: "i = m_nLength B \<Longrightarrow> 2 ^ (32 * (m_nLength p - 1)) \<le> bi_val p"
  shows "bi_ok (mul_rows i A B p q)" "bi_val (mul_rows i A B p q) = bi_val A * bi_val B"
    "m_nLength (mul_rows i A B p q) \<le> m_nLength A + m_nLength B"
    "2 ^ (32 * (m_nLength (mul_rows i A B p q) - 1)) \<le> bi_val (mul_rows i A B p q)"
proof -
  have "bi_ok (mul_rows i A B p q) \<and> bi_val (mul_rows i A B p q) = bi_val A * bi_val B \<and>
    m_nLength (mul_rows i A B p q) \<le> m_nLength A + m_nLength B \<and>
    2 ^ (32 * (m_nLength (mul_rows i A B p q) - 1)) \<le> bi_val (mul_rows i A B p q)"
    using i p q fin
  proof (induction "m_nLength B - i" arbitrary: i p q)
    case 0
    then have i: "i = m_nLength B" by simp
    then have "mul_rows i A B p q = p" by (subst mul_rows.simps) simp
    then show ?case using 0 i by (simp add: bi_val_def)
  next
    case (Suc k)
    then have lt: "i < m_nLength B" by simp
    define q' where "q' = mul_row A (m_ulValue B ! i) i q"
    let ?n = "m_nLength A + i + 1"
    have room: "m_nLength A + i + 1 < 129" using lt len by simp
    note r = mul_row_spec [OF A(1) Suc.prems(5) room, of "m_ulValue B ! i", folded q'_def]
    have nA: "1 \<le> m_nLength A" using bi_okD(3) [OF bi_normD [OF A(1)]] .
    have lenq: "m_nLength p \<le> m_nLength q'" "m_nLength q' \<le> ?n" using r(3) Suc.prems(4) by auto
    have sum: "bi_val p + bi_val q' = bi_val A * dval (m_ulValue B) 0 (Suc i)"
      using r(2) Suc.prems(3) by (simp add: dval_last algebra_simps)
    have bd: "bi_val p + bi_val q' < 2 ^ (32 * ?n)"
      unfolding sum using bi_val_mult_bound [OF bi_val_bound [of A] dval_bound [of "m_ulValue B" "Suc i"]] by simp
    have q129: "m_nLength q' \<le> 129" "?n \<le> 129" using lenq room by auto
    have sg: "m_nSign q' = 1" using r(4) Suc.prems(6) by simp
    note a = Add_row [OF Suc.prems(2) lenq(1) r(1) q129(1) sg bd lenq(2) q129(2)]
    have fin': "2 ^ (32 * (m_nLength (Add p q') - 1)) \<le> bi_val (Add p q')" if last: "Suc i = m_nLength B"
    proof (cases "m_nLength q' < m_nLength (Add p q')")
      case True
      then have "m_nLength (Add p q') - 1 = m_nLength q'" using a(4) r(3) by auto
      then show ?thesis using a(5) [OF True] by simp
    next
      case False
      then have e: "m_nLength (Add p q') = m_nLength q'" using a(3) by simp
      have bB: "2 ^ (32 * i) \<le> dval (m_ulValue B) 0 (Suc i)"
      proof -
        have "i = m_nLength B - 1" using last by simp
        then show ?thesis using bi_norm_iff [OF bi_normD [OF B(1)]] B unfolding last bi_val_def by simp
      qed
      have bA: "2 ^ (32 * (m_nLength A - 1)) \<le> bi_val A" using bi_norm_iff [OF bi_normD [OF A(1)]] A by simp
      show ?thesis
      proof (cases "m_nLength q' = m_nLength A + i")
        case True
        have "2 ^ (32 * (m_nLength A - 1)) * 2 ^ (32 * i) \<le> bi_val A * dval (m_ulValue B) 0 (Suc i)"
          by (rule mult_le_mono [OF bA bB])
        moreover have "(2::nat) ^ (32 * (m_nLength A - 1)) * 2 ^ (32 * i) = 2 ^ (32 * (m_nLength A + i - 1))"
          using nA by (simp add: power_add [symmetric] algebra_simps)
        ultimately show ?thesis using a(2) sum True e by simp
      next
        case False
        then have l: "m_nLength q' = ?n" using r(3) by simp
        have "2 ^ (32 * (m_nLength A + i)) \<le> bi_val q'" using r(3) False by simp
        then show ?thesis using e l a(2) by simp
      qed
    qed
    have kk: "k = m_nLength B - Suc i" using Suc.hyps(2) by simp
    have "mul_rows i A B p q = mul_rows (Suc i) A B (Add p q') q'"
      using lt by (subst mul_rows.simps) (simp add: q'_def Let_def)
    then show ?case
      using Suc.hyps(1) [of "Suc i" "Add p q'" q', OF kk] lt a r sg sum fin' by simp
  qed
  then show "bi_ok (mul_rows i A B p q)" "bi_val (mul_rows i A B p q) = bi_val A * bi_val B"
    "m_nLength (mul_rows i A B p q) \<le> m_nLength A + m_nLength B"
    "2 ^ (32 * (m_nLength (mul_rows i A B p q) - 1)) \<le> bi_val (mul_rows i A B p q)" by blast+
qed

lemma Mul_spec:
  assumes "bi_norm A" "0 < bi_val A" "bi_norm B" "0 < bi_val B" "m_nLength A + m_nLength B \<le> 128"
  shows "bi_norm (Mul A B)" "bi_val (Mul A B) = bi_val A * bi_val B" "m_nLength (Mul A B) \<le> m_nLength A + m_nLength B"
proof -
  let ?r = "mul_rows 0 A B init_BI init_BI"
  have nA: "1 \<le> m_nLength A" and sA: "m_nSign A = 1" "m_nSign B = 1" and nB: "m_nLength B \<noteq> 0"
    using bi_okD [OF bi_normD [OF assms(1)]] bi_okD [OF bi_normD [OF assms(3)]] by auto
  have i0: "length (m_ulValue init_BI) = 129" "m_nSign init_BI = 1" "m_nLength init_BI = 1" by (simp_all add: init_BI_def)
  have fin: "0 = m_nLength B \<Longrightarrow> 2 ^ (32 * (m_nLength init_BI - 1)) \<le> bi_val init_BI" using nB by simp
  have z: "bi_val init_BI = bi_val A * dval (m_ulValue B) 0 0" "m_nLength init_BI \<le> m_nLength A + 0"
    using init_BI_norm(2) nA i0 by simp_all
  note r = mul_rows_spec [OF assms le0 bi_normD [OF init_BI_norm(1)] z i0(1,2) fin]
  have s: "m_nSign ?r = 1" using bi_okD(1) [OF r(1)] .
  have e: "bi_val (Mul A B) = bi_val ?r" "m_nLength (Mul A B) = m_nLength ?r" by (simp_all add: Mul_def bi_val_def)
  have "bi_ok (Mul A B)" using r(1) sA by (simp add: Mul_def bi_ok_def)
  then show "bi_norm (Mul A B)" using bi_norm_iff [of "Mul A B"] r(4) e by simp
  show "bi_val (Mul A B) = bi_val A * bi_val B" "m_nLength (Mul A B) \<le> m_nLength A + m_nLength B"
    using r(2,3) e by simp_all
qed

section \<open>The estimate of a quotient digit\<close>

lemma top_word_bounds:
  assumes "bi_ok A"
  shows "unat (top_word A) * 2 ^ (32 * (m_nLength A - 1)) \<le> bi_val A"
    "bi_val A < (unat (top_word A) + 1) * 2 ^ (32 * (m_nLength A - 1))"
  using dval_ge_top_word [of "m_nLength A" "m_ulValue A"] dval_lt_top [of "m_nLength A" "m_ulValue A"] bi_okD(3) [OF assms]
  by (simp_all add: top_word_def bi_val_def)

lemma unat_plus_1: "(w::u32) \<noteq> 0xffffffff \<Longrightarrow> unat (w + 1) = unat w + 1"
proof -
  assume "w \<noteq> 0xffffffff"
  then have "unat w \<noteq> unat (0xffffffff :: u32)" by (metis word_unat_eq_iff)
  then have "unat w + 1 < 4294967296" using unat_u32_le [of w] by simp
  then show ?thesis by (simp add: unat_word_ariths)
qed

text \<open>The two leading words of a number of at least two words.\<close>

lemma two_words_bound:
  assumes "bi_ok A" "2 \<le> m_nLength A"
  shows "(unat (top_word A) * 2 ^ 32 + unat (m_ulValue A ! (m_nLength A - 2))) * 2 ^ (32 * (m_nLength A - 2)) \<le> bi_val A"
proof -
  obtain k where k: "m_nLength A = Suc (Suc k)" using assms(2) by (metis Suc_le_D numeral_2_eq_2 Suc_le_mono)
  show ?thesis
    by (simp add: bi_val_def k dval_last top_word_def algebra_simps power_add)
qed

lemma estimate_Some:
  assumes p: "bi_norm p" and B: "bi_norm B" "0 < bi_val B" and gt: "bi_val B < bi_val p"
    and e: "estimate p B = Some (len, dg)"
  shows "1 \<le> dg" "dg < 2 ^ 32" "dg * bi_val B * 2 ^ (32 * len) \<le> bi_val p"
proof -
  note tp = top_word_bounds [OF bi_normD [OF p]] and tB = top_word_bounds [OF bi_normD [OF B(1)]]
  have lp: "1 \<le> m_nLength p" and lB: "1 \<le> m_nLength B" "m_nLength B \<le> m_nLength p"
    using bi_okD(3) [OF bi_normD [OF p]] bi_okD(3) [OF bi_normD [OF B(1)]]
      bi_norm_len [OF B(1), of "m_nLength p"] bi_val_bound [of p] gt by auto
  define b where "b = unat (top_word B) + 1"
  have key: "dg * bi_val B * 2 ^ (32 * len) \<le> bi_val p"
    if le: "dg * b \<le> num" and pos: "num * 2 ^ (32 * (m_nLength B - 1 + len)) \<le> bi_val p" for num
  proof -
    have "dg * bi_val B \<le> dg * (b * 2 ^ (32 * (m_nLength B - 1)))"
      using tB(2) by (intro mult_le_mono2) (simp add: b_def)
    also have "\<dots> \<le> num * 2 ^ (32 * (m_nLength B - 1))"
      unfolding mult.assoc [symmetric] by (rule mult_le_mono1 [OF le])
    finally have "dg * bi_val B * 2 ^ (32 * len) \<le> num * 2 ^ (32 * (m_nLength B - 1)) * 2 ^ (32 * len)"
      by (rule mult_le_mono1)
    also have "\<dots> = num * 2 ^ (32 * (m_nLength B - 1 + len))" by (simp add: power_add distrib_left mult.assoc)
    finally show ?thesis using pos by simp
  qed
  have "1 \<le> dg \<and> dg < 2 ^ 32 \<and> dg * bi_val B * 2 ^ (32 * len) \<le> bi_val p"
  proof (cases "top_word p > top_word B")
    case True
    then have ne: "top_word B \<noteq> 0xffffffff"
      using unat_u32_le [of "top_word p"] by (auto simp: word_less_nat_alt)
    have d: "len = m_nLength p - m_nLength B" "dg = unat (top_word p) div b"
      using e True by (simp_all add: estimate_def unat_plus_1 [OF ne] b_def)
    have bp: "b \<le> unat (top_word p)" using True by (simp add: b_def word_less_nat_alt)
    have "1 \<le> dg" using bp by (simp add: d b_def div_greater_zero_iff Suc_le_eq)
    moreover have "dg < 2 ^ 32"
      using le_less_trans [OF div_le_dividend [of "unat (top_word p)" b] unat_u32_lt [of "top_word p"]] by (simp add: d)
    moreover have "m_nLength B - 1 + len = m_nLength p - 1" using lB by (simp add: d)
    ultimately show ?thesis using key [of "unat (top_word p)"] tp(1) by (simp add: d)
  next
    case False
    then have lt: "m_nLength B < m_nLength p" and len: "len = m_nLength p - m_nLength B - 1"
      using e by (simp_all add: estimate_def Let_def split: if_splits)
    define num where "num = unat (top_word p) * 2 ^ 32 + unat (m_ulValue p ! (m_nLength p - 2))"
    have d: "dg = num div b"
    proof (cases "top_word B = 0xffffffff")
      case True
      then have "b = 2 ^ 32" by (simp add: b_def)
      then show ?thesis using e False lt True by (simp add: estimate_def Let_def num_def)
    next
      case ne: False
      then show ?thesis using e False lt by (simp add: estimate_def Let_def num_def b_def unat_plus_1)
    qed
    have tz: "top_word p \<noteq> 0" using p lt lB by (auto simp: bi_norm_def top_word_def)
    have n1: "2 ^ 32 \<le> num" using tz by (simp add: num_def trans_le_add1 unat_gt_0 Suc_le_eq)
    have b32: "b \<le> 2 ^ 32" "0 < b" using unat_u32_le [of "top_word B"] by (simp_all add: b_def)
    have "1 \<le> dg" using n1 b32 by (simp add: d div_greater_zero_iff Suc_le_eq)
    moreover have "dg < 2 ^ 32"
    proof -
      have "unat (top_word p) + 1 \<le> b" using False by (simp add: b_def word_less_nat_alt)
      then have "(unat (top_word p) + 1) * 2 ^ 32 \<le> b * 2 ^ 32" by (rule mult_le_mono1)
      moreover have "num < (unat (top_word p) + 1) * 2 ^ 32"
        using unat_u32_lt [of "m_ulValue p ! (m_nLength p - 2)"] unfolding num_def add_mult_distrib by simp
      ultimately have "num < b * 2 ^ 32" by linarith
      then show ?thesis unfolding d by (simp add: less_mult_imp_div_less mult.commute)
    qed
    moreover have "num * 2 ^ (32 * (m_nLength B - 1 + len)) \<le> bi_val p"
    proof -
      have "m_nLength B - 1 + len = m_nLength p - 2" using lt lB by (simp add: len)
      then show ?thesis using two_words_bound [OF bi_normD [OF p]] lt lB by (simp add: num_def)
    qed
    ultimately show ?thesis using key [of num] by (simp add: d)
  qed
  then show "1 \<le> dg" "dg < 2 ^ 32" "dg * bi_val B * 2 ^ (32 * len) \<le> bi_val p" by blast+
qed

lemma estimate_None:
  assumes p: "bi_norm p" and B: "bi_norm B" "0 < bi_val B" and gt: "bi_val B < bi_val p" and e: "estimate p B = None"
  shows "bi_val p - bi_val B < bi_val B"
proof -
  have le: "m_nLength p \<le> m_nLength B" "\<not> top_word p > top_word B"
    using e by (auto simp: estimate_def Let_def split: if_splits)
  have "m_nLength B \<le> m_nLength p"
    using bi_norm_len [OF B(1), of "m_nLength p"] bi_val_bound [of p] gt bi_okD(3) [OF bi_normD [OF p]] by auto
  then have len: "m_nLength p = m_nLength B" using le by simp
  let ?W = "2 ^ (32 * (m_nLength B - 1)) :: nat"
  have tp: "bi_val p < (unat (top_word p) + 1) * ?W" using top_word_bounds(2) [OF bi_normD [OF p]] len by simp
  have tB: "unat (top_word B) * ?W \<le> bi_val B" using top_word_bounds(1) [OF bi_normD [OF B(1)]] .
  have "(unat (top_word p) + 1) * ?W \<le> (unat (top_word B) + 1) * ?W"
    using le(2) by (intro mult_le_mono1) (simp add: word_less_nat_alt)
  then have "bi_val p < bi_val B + ?W" using tp tB unfolding add_mult_distrib mult_1 by linarith
  moreover have "?W \<le> bi_val B" using bi_norm_iff [OF bi_normD [OF B(1)]] B by simp
  ultimately show ?thesis using gt by linarith
qed

section \<open>Remainders\<close>

text \<open>The multiple of \<open>B\<close> that a turn subtracts: positive, normalised, and not larger than \<open>p\<close>.\<close>

lemma mod_sub_spec:
  assumes p: "bi_norm p" and B: "bi_norm B" "0 < bi_val B" "m_nLength B < 128" and gt: "bi_val B < bi_val p"
  shows "bi_norm (mod_sub p B)" "0 < bi_val (mod_sub p B)" "bi_val (mod_sub p B) \<le> bi_val p"
    "bi_val B dvd bi_val (mod_sub p B)"
proof -
  have "bi_norm (mod_sub p B) \<and> 0 < bi_val (mod_sub p B) \<and> bi_val (mod_sub p B) \<le> bi_val p \<and>
    bi_val B dvd bi_val (mod_sub p B)"
  proof (cases "estimate p B")
    case None
    then show ?thesis using B gt by (simp add: mod_sub_def)
  next
    case (Some e)
    obtain len dg where e: "estimate p B = Some (len, dg)" using Some by (cases e) auto
    note es = estimate_Some [OF p B(1,2) gt e]
    note m = move_p_norm [OF es(2)]
    have mpos: "0 < bi_val (move_p dg)" using m(2) es(1) by simp
    have room: "m_nLength (move_p dg) + m_nLength B \<le> 128" using m(3) B(3) by simp
    let ?q = "Mul (move_p dg) B"
    note q = Mul_spec [OF m(1) mpos B(1,2) room]
    have qpos: "0 < bi_val ?q" using q(2) mpos B(2) by simp
    have le: "bi_val ?q * 2 ^ (32 * len) \<le> bi_val p" using es(3) q(2) m(2) by simp
    have fit: "m_nLength ?q + len \<le> 129"
    proof -
      have "2 ^ (32 * (m_nLength ?q - 1)) \<le> bi_val ?q" using bi_norm_iff [OF bi_normD [OF q(1)]] q(1) qpos by simp
      then have "2 ^ (32 * (m_nLength ?q - 1)) * 2 ^ (32 * len) \<le> bi_val p"
        using le by (meson le_trans mult_le_mono1)
      then have "2 ^ (32 * (m_nLength ?q - 1) + 32 * len) < (2::nat) ^ (32 * m_nLength p)"
        using bi_val_bound [of p] unfolding power_add by (rule le_less_trans)
      then have "32 * (m_nLength ?q - 1) + 32 * len < 32 * m_nLength p" by (rule power_less_imp_less_exp [rotated]) simp
      then show ?thesis using bi_okD(4) [OF bi_normD [OF p]] by simp
    qed
    note sh = bi_shift_norm [OF q(1) qpos fit]
    show ?thesis using sh le qpos q(2) by (simp add: mod_sub_def e)
  qed
  then show "bi_norm (mod_sub p B)" "0 < bi_val (mod_sub p B)" "bi_val (mod_sub p B) \<le> bi_val p"
    "bi_val B dvd bi_val (mod_sub p B)" by blast+
qed

text \<open>The states the loop reaches, and that no subtraction in them meets the defect.\<close>

inductive mod_reach :: "BI \<Rightarrow> BI \<Rightarrow> BI \<Rightarrow> bool" for B p where
  mod_start: "mod_reach B p p"
| mod_turn: "mod_reach B p r \<Longrightarrow> Cmp r B > 0 \<Longrightarrow> estimate r B \<noteq> None \<Longrightarrow> mod_reach B p (Sub r (mod_sub r B))"

definition step_clean :: "BI \<Rightarrow> BI \<Rightarrow> bool" where
  "step_clean B r \<longleftrightarrow> sub_clean 0 (m_nLength r) (m_ulValue r) (m_ulValue (mod_sub r B)) 0"

definition mod_clean :: "BI \<Rightarrow> BI \<Rightarrow> bool" where
  "mod_clean B p \<longleftrightarrow> (\<forall>r. mod_reach B p r \<longrightarrow> Cmp r B > 0 \<longrightarrow> step_clean B r)"

lemma mod_reach_step:
  assumes "mod_reach B (Sub p (mod_sub p B)) r" "Cmp p B > 0" "estimate p B \<noteq> None"
  shows "mod_reach B p r"
  using assms(1)
proof (induction rule: mod_reach.induct)
  case mod_start
  show ?case by (rule mod_turn [OF mod_reach.mod_start assms(2,3)])
next
  case (mod_turn r)
  show ?case by (rule mod_reach.mod_turn [OF mod_turn.IH mod_turn.hyps(2,3)])
qed

lemma mod_clean_step: "mod_clean B p \<Longrightarrow> Cmp p B > 0 \<Longrightarrow> estimate p B \<noteq> None \<Longrightarrow> mod_clean B (Sub p (mod_sub p B))"
  unfolding mod_clean_def by (blast intro: mod_reach_step)

lemma Sub_mod_sub:
  assumes "bi_norm p" "bi_norm B" "0 < bi_val B" "m_nLength B < 128" "bi_val B < bi_val p" "step_clean B p"
  shows "bi_norm (Sub p (mod_sub p B))" "bi_val (Sub p (mod_sub p B)) = bi_val p - bi_val (mod_sub p B)"
proof -
  note m = mod_sub_spec [OF assms(1-5)]
  have "bi_norm (Sub p (mod_sub p B)) \<and> bi_val (Sub p (mod_sub p B)) = bi_val p - bi_val (mod_sub p B)"
  proof (cases "bi_val (mod_sub p B) = bi_val p")
    case True
    then show ?thesis using Sub_equal [OF assms(1) m(1)] SetZero_norm by simp
  next
    case False
    then show ?thesis using Sub_greater [OF assms(1) m(1)] m(3) assms(6) by (simp add: step_clean_def)
  qed
  then show "bi_norm (Sub p (mod_sub p B))" "bi_val (Sub p (mod_sub p B)) = bi_val p - bi_val (mod_sub p B)" by blast+
qed

lemma mod_loop_spec:
  assumes "bi_norm p" "bi_norm B" "0 < bi_val B" "m_nLength B < 128" "mod_clean B p"
  shows "\<exists>r. mod_loop B p = Some r \<and> bi_norm r \<and> bi_val r \<le> bi_val B \<and> bi_val r mod bi_val B = bi_val p mod bi_val B"
  using assms(1,5)
proof (induction "bi_val p" arbitrary: p rule: less_induct)
  case less
  show ?case
  proof (cases "bi_val B < bi_val p")
    case True
    then have cmp: "Cmp p B = 1" using Cmp_val [OF less.prems(1) assms(2)] by simp
    have cl: "step_clean B p" using less.prems(2) cmp mod_start by (auto simp: mod_clean_def)
    note m = mod_sub_spec [OF less.prems(1) assms(2-4) True]
    note s = Sub_mod_sub [OF less.prems(1) assms(2-4) True cl]
    have md: "bi_val (Sub p (mod_sub p B)) mod bi_val B = bi_val p mod bi_val B"
      using s(2) m(3,4) by (metis add_diff_inverse_nat dvd_def linorder_not_less mod_mult_self4 mult.commute)
    show ?thesis
    proof (cases "estimate p B")
      case None
      then have "mod_loop B p = Some (Sub p (mod_sub p B))"
        by (subst mod_loop.simps) (simp add: cmp mod_sub_def)
      moreover have "bi_val (Sub p (mod_sub p B)) \<le> bi_val B"
        using estimate_None [OF less.prems(1) assms(2,3) True None] s(2) None by (simp add: mod_sub_def)
      ultimately show ?thesis using s(1) md by blast
    next
      case (Some e)
      have lt: "bi_val (Sub p (mod_sub p B)) < bi_val p" using s(2) m(2,3) by simp
      have "mod_loop B p = mod_loop B (Sub p (mod_sub p B))"
        using Some by (subst mod_loop.simps) (simp add: cmp mod_sub_def split: prod.splits)
      then show ?thesis
        using less.hyps [OF lt s(1) mod_clean_step [OF less.prems(2)]] cmp Some md by simp
    qed
  next
    case False
    then have "mod_loop B p = Some p"
      using Cmp_val [OF less.prems(1) assms(2)] by (subst mod_loop.simps) simp
    then show ?thesis using less.prems False by simp
  qed
qed

lemma Mod_spec:
  assumes "bi_norm A" "bi_norm B" "0 < bi_val B" "m_nLength B < 128" "mod_clean B A"
  shows "\<exists>r. Mod A B = Some r \<and> bi_norm r \<and> bi_val r = bi_val A mod bi_val B"
proof -
  obtain p where p: "mod_loop B A = Some p" "bi_norm p" "bi_val p \<le> bi_val B" "bi_val p mod bi_val B = bi_val A mod bi_val B"
    using mod_loop_spec [OF assms] by blast
  show ?thesis
  proof (cases "bi_val p = bi_val B")
    case True
    then show ?thesis using p Cmp_val [OF p(2) assms(2)] SetZero_norm [of p] by (simp add: Mod_def)
  next
    case False
    then show ?thesis using p Cmp_val [OF p(2) assms(2)] by (simp add: Mod_def split: if_splits)
  qed
qed

end
