(* ===== verification/Bi_Props.thy ===== *)
theory Bi_Props
  imports Bi_Mod
begin

text \<open>
  The properties of the big-integer library and of RSA: subtraction and its defect, products,
  remainders, modular powers, conversion from and to byte strings, and the stripping of the padding.
\<close>

section \<open>Small operands\<close>

lemma dval_parity: "0 < n \<Longrightarrow> dval v 0 n mod 2 = unat (v ! 0) mod 2"
proof -
  assume n: "0 < n"
  have "2 dvd dval v (Suc 0) n" unfolding dval_def by (rule dvd_sum) (auto intro!: dvd_mult)
  then show ?thesis using n by (simp add: dval_step) presburger
qed

lemma odd_word: "(w::u32) AND 1 \<noteq> 0 \<longleftrightarrow> unat w mod 2 = 1"
  by (simp add: and_one_eq mod_2_eq_odd) (metis even_of_nat mult.right_neutral unsigned_1 word_arith_nat_mult)

lemma bi_val_parity: "bi_ok z \<Longrightarrow> m_ulValue z ! 0 AND 1 \<noteq> 0 \<longleftrightarrow> odd (bi_val z)"
  using dval_parity [of "m_nLength z" "m_ulValue z"] bi_okD(3) [of z]
  by (simp add: odd_word bi_val_def odd_iff_mod_2_eq_one)

lemma bi_zero_test:
  assumes "bi_norm z"
  shows "(m_nLength z \<noteq> 1 \<or> m_ulValue z ! 0 \<noteq> 0) \<longleftrightarrow> bi_val z \<noteq> 0"
proof (cases "m_nLength z = 1")
  case True
  then show ?thesis by (simp add: bi_val_def dval_def unat_gt_0)
next
  case False
  then have "m_ulValue z ! (m_nLength z - 1) \<noteq> 0" using assms by (simp add: bi_norm_def)
  then have "2 ^ (32 * (m_nLength z - 1)) \<le> bi_val z"
    using dval_ge_top [of "m_nLength z"] bi_okD(3) [OF bi_normD [OF assms]] by (simp add: bi_val_def)
  then have "0 < bi_val z" by (rule less_le_trans [rotated]) simp
  then show ?thesis using False by simp
qed

lemma Sub_p_odd:
  assumes z: "bi_norm z" and o: "odd (bi_val z)"
  shows "\<exists>z'. Sub_p z 1 = Some z' \<and> bi_norm z' \<and> bi_val z' = bi_val z - 1"
proof -
  note f = bi_okD [OF bi_normD [OF z]]
  let ?w = "m_ulValue z ! 0"
  have w: "?w \<noteq> 0" "1 \<le> unat ?w"
  proof -
    have "?w AND 1 \<noteq> 0" using bi_val_parity [OF bi_normD [OF z]] o by simp
    then show "?w \<noteq> 0" by auto
    then show "1 \<le> unat ?w" by (simp add: Suc_le_eq unat_gt_0)
  qed
  have u: "unat (?w - 1) = unat ?w - 1" using w by (simp add: unat_sub word_le_nat_alt)
  define z' where "z' = z\<lparr>m_ulValue := (m_ulValue z)[0 := ?w - 1]\<rparr>"
  have s: "Sub_p z 1 = Some z'" using w f(1) by (simp add: Sub_p_def Sub_p_pos_def z'_def word_le_nat_alt)
  have v: "bi_val z' = bi_val z - 1"
    using f u w dval_update [of 0 "Suc 0" "m_nLength z" "m_ulValue z" "?w - 1"]
    by (simp add: bi_val_def z'_def dval_step)
  have "bi_norm z'"
    using z f unfolding bi_norm_def bi_ok_def z'_def by (auto simp: nth_list_update)
  then show ?thesis using s v by blast
qed

lemma div_loop_length [simp]: "length (div_loop n b v c) = length v"
  by (induction n arbitrary: v c) (auto simp: Let_def)

lemma div_loop_above: "n \<le> j \<Longrightarrow> div_loop n b v c ! j = v ! j"
  by (induction n arbitrary: v c) (auto simp: Let_def)

lemma div_loop_spec:
  assumes "0 < b" "b \<le> 2 ^ 32" "n \<le> length v" "c < b"
  shows "dval (div_loop n b v c) 0 n = (c * 2 ^ (32 * n) + dval v 0 n) div b"
  using assms(3,4)
proof (induction n arbitrary: v c)
  case (Suc n)
  let ?W = "2 ^ (32 * n) :: nat"
  define d where "d = c * 2 ^ 32 + unat (v ! n)"
  let ?v = "v[n := of_nat (d div b)]"
  have dm: "d - d div b * b = d mod b" by (simp add: minus_div_mult_eq_mod)
  have "c * 2 ^ 32 + 2 ^ 32 \<le> b * 2 ^ 32"
    using mult_le_mono1 [of "c + 1" b "2 ^ 32"] Suc.prems(2) by (simp add: algebra_simps)
  then have "d < b * 2 ^ 32" using unat_u32_le [of "v ! n"] unfolding d_def by simp
  then have q: "d div b < 2 ^ 32" by (simp add: less_mult_imp_div_less mult.commute)
  then have uq: "unat (of_nat (d div b) :: u32) = d div b" by (simp add: unat_of_nat)
  have ih: "dval (div_loop n b ?v (d mod b)) 0 n = (d mod b * ?W + dval ?v 0 n) div b"
    using Suc.prems(1) assms(1) by (intro Suc.IH) auto
  have "dval (div_loop (Suc n) b v c) 0 (Suc n) = (d mod b * ?W + dval v 0 n) div b + d div b * ?W"
  proof -
    have "div_loop (Suc n) b v c = div_loop n b ?v (d mod b)" by (simp only: div_loop.simps Let_def d_def [symmetric] dm)
    then show ?thesis using ih uq Suc.prems(1) by (simp add: dval_last div_loop_above dval_update)
  qed
  also have "\<dots> = (d mod b * ?W + dval v 0 n + (d div b * ?W) * b) div b" using assms(1) by simp
  also have "d mod b * ?W + dval v 0 n + (d div b * ?W) * b = d * ?W + dval v 0 n"
  proof -
    have "d * ?W = (d div b * b + d mod b) * ?W" by simp
    also have "\<dots> = d div b * ?W * b + d mod b * ?W" by (simp only: add_mult_distrib ac_simps)
    finally show ?thesis by simp
  qed
  also have "\<dots> = c * 2 ^ (32 * Suc n) + dval v 0 (Suc n)"
    by (simp add: d_def dval_last add_mult_distrib power_add)
  finally show ?case .
qed simp

lemma Div_p_half:
  assumes z: "bi_norm z"
  shows "bi_norm (Div_p z 2)" "bi_val (Div_p z 2) = bi_val z div 2"
proof -
  note f = bi_okD [OF bi_normD [OF z]]
  let ?n = "m_nLength z"
  have "bi_norm (Div_p z 2) \<and> bi_val (Div_p z 2) = bi_val z div 2"
  proof (cases "?n = 1")
    case True
    have "unat (m_ulValue z ! 0) div 2 < 4294967296" using unat_u32_le [of "m_ulValue z ! 0"] by linarith
    then show ?thesis using True f
      by (auto simp: Div_p_def bi_norm_def bi_ok_def bi_val_def dval_def unat_of_nat nth_list_update)
  next
    case False
    define v where "v = div_loop ?n 2 (m_ulValue z) 0"
    define l where "l = (if v ! (?n - 1) = 0 then ?n - 1 else ?n)"
    have dp: "Div_p z 2 = z\<lparr>m_nLength := l, m_ulValue := v\<rparr>" using False by (simp add: Div_p_def v_def l_def Let_def)
    have dv: "dval v 0 ?n = bi_val z div 2" using div_loop_spec [of 2 ?n "m_ulValue z" 0] f by (simp add: v_def bi_val_def)
    have l: "1 \<le> l" "l \<le> ?n" "\<And>j. l \<le> j \<Longrightarrow> j < ?n \<Longrightarrow> v ! j = 0"
    proof -
      show "1 \<le> l" "l \<le> ?n" using f(3) False by (auto simp: l_def)
      fix j assume j: "l \<le> j" "j < ?n"
      then have "l = ?n - 1 \<and> v ! (?n - 1) = 0" by (simp add: l_def split: if_splits)
      moreover from this have "j = ?n - 1" using j by simp
      ultimately show "v ! j = 0" by simp
    qed
    have ok: "bi_ok (Div_p z 2)"
    proof -
      have "v ! j = 0" if "l \<le> j" "j < 129" for j
        using that l(3) f(5) div_loop_above [of ?n j 2 "m_ulValue z" 0] by (cases "j < ?n") (simp_all add: v_def)
      then show ?thesis using f l(1,2) by (simp add: dp bi_ok_def v_def)
    qed
    have val: "bi_val (Div_p z 2) = bi_val z div 2"
      using dval_zero_above [OF l(2), of v] l(3) dv by (simp add: dp bi_val_def)
    have "v ! (l - 1) \<noteq> 0" if "l \<noteq> 1"
    proof
      assume v0: "v ! (l - 1) = 0"
      then have l1: "l = ?n - 1" using l_def by (auto split: if_splits)
      have "dval v 0 l < 2 ^ (32 * (l - 1))" using dval_lt_top [of l v] v0 l(1) by simp
      then have "bi_val z div 2 < 2 ^ (32 * (l - 1))" using val by (simp add: dp bi_val_def)
      moreover have "2 ^ (32 * l) \<le> bi_val z"
        using z False dval_ge_top [of ?n "m_ulValue z"] f(3) by (simp add: bi_norm_def bi_val_def l1)
      moreover have "(2::nat) ^ (32 * l) = 4294967296 * 2 ^ (32 * (l - 1))" using l(1) pow32_Suc [of "l - 1"] by simp
      ultimately show False by linarith
    qed
    then show ?thesis using ok val by (auto simp: bi_norm_def dp)
  qed
  then show "bi_norm (Div_p z 2)" "bi_val (Div_p z 2) = bi_val z div 2" by blast+
qed

section \<open>Modular powers\<close>

text \<open>
  The states of the square-and-multiply loop. A turn needs its product reduced without the defect of
  the subtraction, which is stated of every state the loop reaches.
\<close>

inductive exp_reach :: "BI \<Rightarrow> BI \<times> BI \<times> BI \<Rightarrow> BI \<times> BI \<times> BI \<Rightarrow> bool" for M s where
  exp_start: "exp_reach M s s"
| exp_odd: "exp_reach M s (x, y, z) \<Longrightarrow> m_ulValue z ! 0 AND 1 \<noteq> 0 \<Longrightarrow> Sub_p z 1 = Some z' \<Longrightarrow>
    Mod (Mul x y) M = Some x' \<Longrightarrow> exp_reach M s (x', y, z')"
| exp_even: "exp_reach M s (x, y, z) \<Longrightarrow> m_ulValue z ! 0 AND 1 = 0 \<Longrightarrow> m_nLength z \<noteq> 1 \<or> m_ulValue z ! 0 \<noteq> 0 \<Longrightarrow>
    Mod (Mul y y) M = Some y' \<Longrightarrow> exp_reach M s (x, y', Div_p z 2)"

definition exp_clean :: "BI \<Rightarrow> BI \<times> BI \<times> BI \<Rightarrow> bool" where
  "exp_clean M s \<longleftrightarrow> (\<forall>x y z. exp_reach M s (x, y, z) \<longrightarrow>
     (if m_ulValue z ! 0 AND 1 \<noteq> 0 then mod_clean M (Mul x y)
      else m_nLength z \<noteq> 1 \<or> m_ulValue z ! 0 \<noteq> 0 \<longrightarrow> mod_clean M (Mul y y)))"

lemma exp_reach_trans: "exp_reach M s' t \<Longrightarrow> exp_reach M s s' \<Longrightarrow> exp_reach M s t"
proof (induction rule: exp_reach.induct)
  case (exp_odd x y z z' x')
  then show ?case by (meson exp_reach.exp_odd)
next
  case (exp_even x y z y')
  then show ?case by (meson exp_reach.exp_even)
qed simp

lemma exp_clean_reach: "exp_clean M s \<Longrightarrow> exp_reach M s s' \<Longrightarrow> exp_clean M s'"
  unfolding exp_clean_def by (blast intro: exp_reach_trans)

text \<open>A turn: the product of two residues prime to the modulus.\<close>

definition residue :: "BI \<Rightarrow> BI \<Rightarrow> bool" where
  "residue M x \<longleftrightarrow> bi_norm x \<and> m_nLength x \<le> 64 \<and> coprime (bi_val x) (bi_val M)"

definition modulus :: "BI \<Rightarrow> bool" where
  "modulus M \<longleftrightarrow> bi_norm M \<and> m_nLength M \<le> 64 \<and> 1 < bi_val M"

lemma residue_pos: "modulus M \<Longrightarrow> residue M x \<Longrightarrow> 0 < bi_val x"
  by (auto simp: residue_def modulus_def intro: Nat.gr0I)

lemma mul_mod:
  assumes M: "modulus M" and x: "residue M x" "residue M y" and cl: "mod_clean M (Mul x y)"
  shows "\<exists>r. Mod (Mul x y) M = Some r \<and> residue M r \<and> bi_val r = bi_val x * bi_val y mod bi_val M"
proof -
  have m: "bi_norm M" "m_nLength M \<le> 64" "1 < bi_val M" using M by (auto simp: modulus_def)
  have r: "bi_norm x" "m_nLength x \<le> 64" "bi_norm y" "m_nLength y \<le> 64" using x by (auto simp: residue_def)
  have "m_nLength x + m_nLength y \<le> 128" using r by simp
  note q = Mul_spec [OF r(1) residue_pos [OF M x(1)] r(3) residue_pos [OF M x(2)] this]
  obtain p where p: "Mod (Mul x y) M = Some p" "bi_norm p" "bi_val p = bi_val x * bi_val y mod bi_val M"
    using Mod_spec [OF q(1) m(1) _ _ cl] m q(2) by auto
  have "bi_val p < 2 ^ (32 * 64)"
  proof -
    have "bi_val p < bi_val M" using p(3) m(3) by simp
    also have "\<dots> < 2 ^ (32 * m_nLength M)" by (rule bi_val_bound)
    also have "\<dots> \<le> 2 ^ (32 * 64)" using m(2) by (intro power_increasing) simp_all
    finally show ?thesis .
  qed
  then have "m_nLength p \<le> 64" using bi_norm_len [OF p(2)] by simp
  moreover have "coprime (bi_val p) (bi_val M)"
    using x m(3) by (simp add: p(3) residue_def coprime_mod_left_iff)
  ultimately show ?thesis using p by (auto simp: residue_def)
qed

lemma exp_loop_spec:
  assumes M: "modulus M" and x: "residue M x" "bi_val x < bi_val M" "residue M y" and z: "bi_norm z"
    and cl: "exp_clean M (x, y, z)"
  shows "\<exists>r. exp_loop M x y z = Some r \<and> residue M r \<and> bi_val r = bi_val x * bi_val y ^ bi_val z mod bi_val M"
  using x z cl
proof (induction "bi_val z" arbitrary: x y z rule: less_induct)
  case less
  note test = bi_zero_test [OF less.prems(4)] and par = bi_val_parity [OF bi_normD [OF less.prems(4)]]
  have here: "exp_reach M (x, y, z) (x, y, z)" by (rule exp_start)
  have c: "odd (bi_val z) \<Longrightarrow> mod_clean M (Mul x y)" "even (bi_val z) \<Longrightarrow> bi_val z \<noteq> 0 \<Longrightarrow> mod_clean M (Mul y y)"
    using less.prems(5) here par test unfolding exp_clean_def by metis+
  consider "bi_val z = 0" | "odd (bi_val z)" | "even (bi_val z)" "bi_val z \<noteq> 0" by auto
  then show ?case
  proof cases
    case 1
    then show ?thesis using less.prems test by (subst exp_loop.simps) auto
  next
    case 2
    obtain z' where z': "Sub_p z 1 = Some z'" "bi_norm z'" "bi_val z' = bi_val z - 1"
      using Sub_p_odd [OF less.prems(4) 2] by blast
    obtain x' where x': "Mod (Mul x y) M = Some x'" "residue M x'" "bi_val x' = bi_val x * bi_val y mod bi_val M"
      using mul_mod [OF M less.prems(1,3) c(1) [OF 2]] by blast
    have o: "m_ulValue z ! 0 AND 1 \<noteq> 0" using par 2 by simp
    have pos: "bi_val z \<noteq> 0" using 2 by (auto elim: oddE)
    have "exp_clean M (x', y, z')" by (rule exp_clean_reach [OF less.prems(5) exp_odd [OF here o z'(1) x'(1)]])
    then obtain r where r: "exp_loop M x' y z' = Some r" "residue M r"
        "bi_val r = bi_val x' * bi_val y ^ bi_val z' mod bi_val M"
      using less.hyps [OF _ x'(2) _ less.prems(3) z'(2)] z'(3) pos x'(3) M by (auto simp: modulus_def)
    have "bi_val y ^ bi_val z = bi_val y * bi_val y ^ bi_val z'" using z'(3) pos by (cases "bi_val z") auto
    then have "bi_val r = bi_val x * bi_val y ^ bi_val z mod bi_val M"
      using r(3) x'(3) by (simp add: mod_mult_left_eq mult.assoc)
    moreover have "exp_loop M x y z = exp_loop M x' y z'"
      using test pos o z'(1) x'(1) by (subst exp_loop.simps) simp
    ultimately show ?thesis using r by auto
  next
    case 3
    obtain y' where y': "Mod (Mul y y) M = Some y'" "residue M y'" "bi_val y' = bi_val y * bi_val y mod bi_val M"
      using mul_mod [OF M less.prems(3,3) c(2) [OF 3]] by blast
    note h = Div_p_half [OF less.prems(4)]
    have e: "m_ulValue z ! 0 AND 1 = 0" using par 3 by simp
    have "exp_clean M (x, y', Div_p z 2)"
      using test 3 by (intro exp_clean_reach [OF less.prems(5) exp_even [OF here e _ y'(1)]]) simp
    then obtain r where r: "exp_loop M x y' (Div_p z 2) = Some r" "residue M r"
        "bi_val r = bi_val x * bi_val y' ^ (bi_val z div 2) mod bi_val M"
      using less.hyps [OF _ less.prems(1,2) y'(2) h(1)] h(2) 3 by auto
    have "bi_val y ^ bi_val z = (bi_val y * bi_val y) ^ (bi_val z div 2)"
      using 3(1) by (metis dvd_mult_div_cancel power2_eq_square power_mult)
    then have "bi_val r = bi_val x * bi_val y ^ bi_val z mod bi_val M"
      using r(3) y'(3) by (metis mod_mult_right_eq power_mod)
    moreover have "exp_loop M x y z = exp_loop M x y' (Div_p z 2)"
      using test 3 e y'(1) by (subst exp_loop.simps) simp
    ultimately show ?thesis using r by auto
  qed
qed

lemma Exp_Mod_spec:
  assumes "modulus M" "residue M base" "bi_norm e" "exp_clean M (move_p 1, base, e)"
  shows "\<exists>r. Exp_Mod base e M = Some r \<and> residue M r \<and> bi_val r = bi_val base ^ bi_val e mod bi_val M"
proof -
  have "residue M (move_p 1)" by (simp add: residue_def move_p_norm)
  moreover have "bi_val (move_p 1) < bi_val M" using assms(1) by (simp add: modulus_def move_p_norm)
  ultimately show ?thesis
    using exp_loop_spec [OF assms(1) _ _ assms(2,3,4)] by (simp add: Exp_Mod_def move_p_norm)
qed

section \<open>Single-word operands\<close>

lemma sub_clean_one: "n \<le> 1 \<Longrightarrow> sub_clean 0 n s d 0"
  by (cases "n = 0") (simp_all add: sub_clean.simps)

lemma norm_small: "bi_norm r \<Longrightarrow> bi_val r < 2 ^ 32 \<Longrightarrow> m_nLength r = 1"
  using bi_norm_len [of r 1] bi_okD(3) [OF bi_normD, of r] by auto

lemma mod_clean_small:
  assumes p: "bi_norm p" "bi_val p < 2 ^ 32" and B: "bi_norm B" "0 < bi_val B" "m_nLength B < 128"
  shows "mod_clean B p"
proof -
  have cl: "step_clean B r" if "bi_norm r" "bi_val r < 2 ^ 32" for r
    using norm_small [OF that] sub_clean_one by (simp add: step_clean_def)
  have "bi_norm r \<and> bi_val r < 2 ^ 32" if "mod_reach B p r" for r
    using that
  proof (induction rule: mod_reach.induct)
    case (mod_turn r)
    then have n: "bi_norm r" "bi_val r < 2 ^ 32" and gt: "bi_val B < bi_val r"
      using Cmp_val [OF _ B(1), of r] by (auto split: if_splits)
    show ?case using Sub_mod_sub [OF n(1) B gt cl [OF n]] n(2) by simp
  qed (use p in blast)
  then show ?thesis using cl by (auto simp: mod_clean_def)
qed

lemma exp_clean_small:
  assumes M: "modulus M" "bi_val M < 2 ^ 16"
    and s: "residue M x" "bi_val x < 2 ^ 16" "residue M y" "bi_val y < 2 ^ 16" "bi_norm z"
  shows "exp_clean M (x, y, z)"
proof -
  have cl: "mod_clean M (Mul a b)" if a: "residue M a" "bi_val a < 2 ^ 16" "residue M b" "bi_val b < 2 ^ 16" for a b
  proof -
    have r: "bi_norm a" "m_nLength a \<le> 64" "bi_norm b" "m_nLength b \<le> 64" using a by (auto simp: residue_def)
    have "m_nLength a + m_nLength b \<le> 128" using r by simp
    note q = Mul_spec [OF r(1) residue_pos [OF M(1) a(1)] r(3) residue_pos [OF M(1) a(3)] this]
    have "bi_val a * bi_val b < 2 ^ 16 * 2 ^ 16" using a by (intro mult_strict_mono) auto
    then show ?thesis using M q(2) by (intro mod_clean_small [OF q(1)]) (auto simp: modulus_def)
  qed
  have inv: "case t of (x, y, z) \<Rightarrow> residue M x \<and> bi_val x < 2 ^ 16 \<and> residue M y \<and> bi_val y < 2 ^ 16 \<and> bi_norm z"
    if "exp_reach M (x, y, z) t" for t
    using that
  proof (induction rule: exp_reach.induct)
    case (exp_odd x y z z' x')
    then have i: "residue M x" "bi_val x < 2 ^ 16" "residue M y" "bi_val y < 2 ^ 16" "bi_norm z" by auto
    obtain r where "Mod (Mul x y) M = Some r" "residue M r" "bi_val r = bi_val x * bi_val y mod bi_val M"
      using mul_mod [OF M(1) i(1,3) cl [OF i(1-4)]] by blast
    then have r: "residue M x'" "bi_val x' < bi_val M" using exp_odd.hyps(4) M(1) by (auto simp: modulus_def)
    have "odd (bi_val z)" using bi_val_parity [OF bi_normD [OF i(5)]] exp_odd.hyps(2) by simp
    then have "bi_norm z'" using Sub_p_odd [OF i(5)] exp_odd.hyps(3) by auto
    then show ?case using i r M(2) by simp
  next
    case (exp_even x y z y')
    then have i: "residue M x" "bi_val x < 2 ^ 16" "residue M y" "bi_val y < 2 ^ 16" "bi_norm z" by auto
    obtain r where "Mod (Mul y y) M = Some r" "residue M r" "bi_val r = bi_val y * bi_val y mod bi_val M"
      using mul_mod [OF M(1) i(3,3) cl [OF i(3,4,3,4)]] by blast
    then have "residue M y'" "bi_val y' < bi_val M" using exp_even.hyps(4) M(1) by (auto simp: modulus_def)
    then show ?case using i M(2) Div_p_half(1) [OF i(5)] by simp
  qed (use s in simp)
  show ?thesis unfolding exp_clean_def
  proof (intro allI impI)
    fix a b c assume "exp_reach M (x, y, z) (a, b, c)"
    from inv [OF this] have "mod_clean M (Mul a b)" "mod_clean M (Mul b b)" by (auto intro: cl)
    then show "if m_ulValue c ! 0 AND 1 \<noteq> 0 then mod_clean M (Mul a b)
      else m_nLength c \<noteq> 1 \<or> m_ulValue c ! 0 \<noteq> 0 \<longrightarrow> mod_clean M (Mul b b)" by simp
  qed
qed

section \<open>Properties of the arithmetic\<close>

text \<open>
  Subtraction is right as long as no word of the minuend is zero when a borrow is pending at it: for
  normalised operands with the first not smaller, \<open>Sub\<close> gives the difference, again normalised.
\<close>

lemma bi_sub_difference:
  assumes "bi_norm A" "bi_norm B" "bi_val B \<le> bi_val A"
    "sub_clean 0 (m_nLength A) (m_ulValue A) (m_ulValue B) 0"
  shows "bi_norm (Sub A B) \<and> bi_val (Sub A B) = bi_val A - bi_val B"
proof (cases "bi_val A = bi_val B")
  case True
  then show ?thesis using Sub_equal [OF assms(1,2)] SetZero_norm by simp
next
  case False
  then show ?thesis using Sub_greater [OF assms(1,2) _ assms(4)] assms(3) by simp
qed

text \<open>
  The borrow is lost when it meets a zero word: the unsigned \<open>s[i] - carry\<close> wraps to
  \<open>0xffffffff\<close>, the comparison succeeds and \<open>carry\<close> is cleared. Subtracting a positive word from
  \<open>k * 2 ^ 64\<close> therefore gives a number larger than the minuend: \<open>2 ^ 64\<close> too large.
\<close>

theorem bi_sub_borrow_lost:
  assumes "0 < k" "k < 2 ^ 32" "0 < w" "w < 2 ^ 32"
  defines "A \<equiv> init_BI\<lparr>m_nLength := 3, m_ulValue := (replicate 129 0)[2 := of_nat k]\<rparr>"
  shows "bi_norm A \<and> bi_val A = k * 2 ^ 64 \<and> bi_val (Sub A (move_p w)) = bi_val A - w + 2 ^ 64"
proof -
  have wk: "unat (of_nat k :: u32) = k" "unat (of_nat w :: u32) = w" using assms(2,4) by (simp_all add: unat_of_nat)
  then have nz: "(of_nat k :: u32) \<noteq> 0" "(of_nat w :: u32) \<noteq> 0" using assms(1,3) by (metis unat_0 less_irrefl)+
  have n: "bi_norm A" using nz by (auto simp: A_def init_BI_def bi_norm_def bi_ok_def nth_list_update)
  have v: "bi_val A = k * 2 ^ 64" by (simp add: A_def init_BI_def bi_val_def dval_def numeral_3_eq_3 numeral_2_eq_2 wk)
  note m = move_p_norm [OF assms(4)]
  have mv: "m_ulValue (move_p w) = (replicate 129 0)[0 := of_nat w]" using assms(4) by (simp add: move_p_def init_BI_def)
  have "w < bi_val A" using assms v by (simp add: v)
  then have cmp: "Cmp A (move_p w) = 1" using Cmp_val [OF n m(1)] m(2) by simp
  let ?x = "of_int (2 ^ 32 - uint (of_nat w :: u32)) :: u32"
  have m1: "(4294967295 :: u32) = - 1" by simp
  have lt: "\<not> (0::u32) \<ge> of_nat w" using nz(2) by (simp add: word_le_0_iff)
  have l: "sub_loop 0 3 (m_ulValue A) (m_ulValue (move_p w)) (m_ulValue A) 0 =
      ((replicate 129 0)[2 := of_nat k])[0 := ?x, 1 := 0xffffffff, 2 := of_nat k]"
    unfolding A_def mv using lt
    by (simp add: sub_loop.simps [of 0] sub_loop.simps [of "Suc 0"] sub_loop.simps [of "Suc (Suc 0)"]
        sub_loop.simps [of "Suc (Suc (Suc 0))"] init_BI_def nth_list_update numeral_3_eq_3 numeral_2_eq_2 m1)
  have "Sub A (move_p w) = A\<lparr>m_nSign := 1, m_nLength := 3,
      m_ulValue := ((replicate 129 0)[2 := of_nat k])[0 := ?x, 1 := 0xffffffff, 2 := of_nat k]\<rparr>"
    using cmp l nz bi_okD(1) [OF bi_normD [OF n]] bi_okD(1) [OF bi_normD [OF m(1)]]
    by (simp add: Sub_def Sub_same_def Let_def A_def numeral_3_eq_3 numeral_2_eq_2)
  moreover have "unat ?x = 2 ^ 32 - w"
  proof -
    have "uint (of_nat w :: u32) = int w" using wk(2) by (simp add: uint_nat)
    then have "int (unat ?x) = 2 ^ 32 - int w"
      using int_unat_of_int [where 'a = 32, of "2 ^ 32 - int w"] assms(3,4) by simp
    also have "\<dots> = int (2 ^ 32 - w)" using assms(4) by (simp add: of_nat_diff)
    finally show ?thesis by (rule of_nat_eq_iff [THEN iffD1])
  qed
  ultimately have "bi_val (Sub A (move_p w)) = (2 ^ 32 - w) + 0xffffffff * 2 ^ 32 + k * 2 ^ 64"
    by (simp add: bi_val_def dval_def numeral_3_eq_3 wk nth_list_update)
  then show ?thesis using n v assms(1,4) by simp
qed

theorem bi_sub_borrow_lost_witness:
  "bi_val (Sub (init_BI\<lparr>m_nLength := 3, m_ulValue := (replicate 129 0)[2 := 1]\<rparr>) (move_p 1)) = 2 * 2 ^ 64 - 1"
  using bi_sub_borrow_lost [of 1 1] by simp

text \<open>
  Reduction ends and is right: with a positive modulus of fewer than 128 words, and subtractions that
  do not meet the lost borrow, \<open>Mod\<close> returns the normalised remainder.
\<close>

theorem bi_mod_remainder:
  assumes "bi_norm A" "bi_norm B" "0 < bi_val B" "m_nLength B < 128" "mod_clean B A"
  shows "\<exists>r. Mod A B = Some r \<and> bi_norm r \<and> bi_val r = bi_val A mod bi_val B"
  by (rule Mod_spec [OF assms])

theorem bi_mod_remainder_witness: "\<exists>r. Mod (move_p 4000000000) (move_p 1234567) = Some r \<and> bi_norm r \<and> bi_val r = 2920"
  using bi_mod_remainder [of "move_p 4000000000" "move_p 1234567"]
    mod_clean_small [of "move_p 4000000000" "move_p 1234567"] by (simp add: move_p_norm)

text \<open>
  C25: Square and multiply ends and computes the modular power: for a modulus of at most 64 words, a base
  prime to it and a normalised exponent, when no reduction of the run meets the lost borrow.
\<close>

theorem bi_exp_mod_power:
  assumes "modulus M" "residue M base" "bi_norm e" "exp_clean M (move_p 1, base, e)"
  shows "\<exists>r. Exp_Mod base e M = Some r \<and> bi_norm r \<and> bi_val r = bi_val base ^ bi_val e mod bi_val M"
  using Exp_Mod_spec [OF assms] by (auto simp: residue_def)

theorem bi_exp_mod_power_witness: "\<exists>r. Exp_Mod (move_p 3) (move_p 200) (move_p 1000) = Some r \<and> bi_norm r \<and> bi_val r = 1"
proof -
  have m: "modulus (move_p 1000)" by (simp add: modulus_def move_p_norm)
  have r: "residue (move_p 1000) (move_p 3)" by (simp add: residue_def move_p_norm coprime_iff_gcd_eq_1 gcd_non_0_nat)
  have c: "exp_clean (move_p 1000) (move_p 1, move_p 3, move_p 200)"
    using m r by (intro exp_clean_small) (simp_all add: move_p_norm residue_def)
  have "(3::nat) ^ 200 mod 1000 = 1" by simp
  then show ?thesis using bi_exp_mod_power [OF m r _ c] by (simp add: move_p_norm)
qed

end
