(* ===== verification/Rsa_Props.thy ===== *)
theory Rsa_Props
  imports Bi_Props
begin

text \<open>
  Conversion between big integers and byte strings, and the RSA routines: a number read from
  big-endian bytes has their value, writing it back gives the bytes, and verification recovers the
  digest behind well-formed padding but accepts any other result too.
\<close>

section \<open>Reading digits\<close>

lemma bi_norm_inj:
  assumes "bi_norm A" "bi_norm B" "bi_val A = bi_val B"
  shows "A = B"
proof -
  have c: "Cmp A B = 0" using Cmp_val [OF assms(1,2)] assms(3) by simp
  then have len: "m_nLength A = m_nLength B" by (auto simp: Cmp_def split: if_splits)
  have eq: "cmp_loop a b n = 0 \<Longrightarrow> j < n \<Longrightarrow> a ! j = b ! j" for a b n j
    by (induction n) (auto split: if_splits simp: less_Suc_eq)
  note fa = bi_okD [OF bi_normD [OF assms(1)]] and fb = bi_okD [OF bi_normD [OF assms(2)]]
  have "m_ulValue A ! j = m_ulValue B ! j" if "j < 129" for j
    using c len eq [of "m_ulValue A" "m_ulValue B" "m_nLength A" j] fa(5) [of j] fb(5) [of j] that
    by (cases "j < m_nLength A") (auto simp: Cmp_def)
  then have "m_ulValue A = m_ulValue B" using fa(2) fb(2) by (intro nth_equalityI) auto
  then show ?thesis using len fa(1) fb(1) by (cases A, cases B) auto
qed

lemma Mul_p_16:
  assumes A: "bi_norm A" "m_nLength A < 129"
  shows "bi_norm (Mul_p A 16)" "bi_val (Mul_p A 16) = bi_val A * 16"
proof -
  note f = bi_okD [OF bi_normD [OF A(1)]]
  let ?n = "m_nLength A"
  obtain v c where l: "mul_loop 0 ?n (m_ulValue A) 16 (m_ulValue A) 0 = (v, c)" by force
  have sp: "length v = 129" "c < 2 ^ 32" "\<And>k. ?n \<le> k \<Longrightarrow> v ! k = m_ulValue A ! k"
    "dval v 0 ?n + c * 2 ^ (32 * ?n) = bi_val A * 16"
    using mul_loop_spec [OF _ _ _ _ l] f by (auto simp: bi_val_def)
  have uc: "unat (of_nat c :: u32) = c" using sp(2) by (simp add: unat_of_nat)
  then have nz: "(of_nat c :: u32) \<noteq> 0 \<longleftrightarrow> c \<noteq> 0" by (metis unat_0 unat_eq_zero)
  define r where "r = Mul_p A 16"
  have r: "r = (if c \<noteq> 0 then A\<lparr>m_nLength := ?n + 1, m_ulValue := v[?n := of_nat c]\<rparr> else A\<lparr>m_ulValue := v\<rparr>)"
    using A(2) by (simp add: r_def Mul_p_def l nz)
  have val: "bi_val r = bi_val A * 16"
    using sp(1,4) uc A(2) by (auto simp: r bi_val_def dval_last dval_update)
  have ok: "bi_ok r" using f sp(1,3) A(2) by (auto simp: r bi_ok_def nth_list_update)
  have "bi_norm r"
  proof (cases "bi_val A = 0")
    case True
    then have "?n = 1" using bi_zero_test [OF A(1)] by auto
    moreover have "c = 0" using sp(4) True by simp
    ultimately show ?thesis using ok by (simp add: r bi_norm_def)
  next
    case False
    have "2 ^ (32 * (?n - 1)) \<le> bi_val A" using bi_norm_iff [OF bi_normD [OF A(1)]] A(1) False by simp
    moreover have "2 ^ (32 * ?n) \<le> bi_val A * 16" if "c \<noteq> 0"
    proof -
      have "1 * 2 ^ (32 * ?n) \<le> c * 2 ^ (32 * ?n)" using that by (intro mult_le_mono1) simp
      then show ?thesis using sp(4) by linarith
    qed
    ultimately have "2 ^ (32 * (m_nLength r - 1)) \<le> bi_val r" unfolding val by (auto simp: r)
    then show ?thesis using bi_norm_iff [OF ok] by simp
  qed
  then show "bi_norm (Mul_p A 16)" "bi_val (Mul_p A 16) = bi_val A * 16" using val by (simp_all add: r_def)
qed

lemma Add_p_digit:
  assumes A: "bi_norm A" "16 dvd bi_val A" and d: "d < 16"
  shows "\<exists>r. Add_p A (int d) = Some r \<and> bi_norm r \<and> bi_val r = bi_val A + d"
proof -
  note f = bi_okD [OF bi_normD [OF A(1)]]
  let ?w = "m_ulValue A ! 0"
  have "bi_val A = unat ?w + dval (m_ulValue A) (Suc 0) (m_nLength A)" using f(3) by (simp add: bi_val_def dval_step)
  moreover have "16 dvd dval (m_ulValue A) (Suc 0) (m_nLength A)"
    unfolding dval_def
  proof (intro dvd_sum dvd_mult)
    fix j assume "j \<in> {Suc 0..<m_nLength A}"
    then have "(2::nat) ^ 4 dvd 2 ^ (32 * j)" by (intro le_imp_power_dvd) auto
    then show "(16::nat) dvd 2 ^ (32 * j)" by simp
  qed
  ultimately have "16 dvd unat ?w" using A(2) by (metis dvd_add_left_iff)
  then obtain k where "unat ?w = 16 * k" by (auto elim: dvdE)
  then have fit: "unat ?w + d < 4294967296" using unat_u32_lt [of ?w] d by auto
  then have u: "unat (word_of_nat d + ?w :: u32) = d + unat ?w" using d by (simp add: unat_word_ariths unat_of_nat)
  let ?r = "A\<lparr>m_ulValue := (m_ulValue A)[0 := word_of_nat d + ?w]\<rparr>"
  have "Add_p A (int d) = Some ?r"
    using f(1) u fit by (simp add: Add_p_def Add_p_pos_def)
  moreover have "bi_val ?r = bi_val A + d"
    using f(2,3) u dval_update [of 0 "Suc 0" "m_nLength A" "m_ulValue A"] by (simp add: bi_val_def dval_step)
  moreover have "bi_norm ?r" using A(1) f unfolding bi_norm_def bi_ok_def by (auto simp: nth_list_update)
  ultimately show ?thesis by blast
qed

lemma input_loop_hex:
  assumes "\<forall>d \<in> set ds. d < 16" "bi_norm p" "bi_val p < 16 ^ k" "k + length ds \<le> 1024"
  shows "\<exists>r. input_loop 16 (map (\<lambda>d. 48 + d) ds) p = Some r \<and> bi_norm r \<and>
    bi_val r = foldl (\<lambda>a d. a * 16 + d) (bi_val p) ds"
  using assms
proof (induction ds arbitrary: p k)
  case (Cons d ds)
  have "bi_val p < 16 ^ 1023"
    using Cons.prems(3) power_increasing [of k 1023 "16::nat"] Cons.prems(4) by simp
  also have "(16::nat) ^ 1023 \<le> 2 ^ (32 * 128)" using power_mono_iff power_mult [of "2::nat" 4 1023] power_increasing [of "4 * 1023" "32 * 128" "2::nat"] by simp
  finally have len: "m_nLength p < 129" using bi_norm_len [OF Cons.prems(2), of 128] by simp
  note m = Mul_p_16 [OF Cons.prems(2) len]
  have d: "d < 16" using Cons.prems(1) by simp
  obtain q where q: "Add_p (Mul_p p 16) (int d) = Some q" "bi_norm q" "bi_val q = bi_val p * 16 + d"
    using Add_p_digit [OF m(1) _ d] m(2) by auto
  have "bi_val p * 16 + 16 \<le> 16 ^ k * 16" using Cons.prems(3) by simp
  then have b: "bi_val q < 16 ^ Suc k" using q(3) d by simp
  have h: "hex_digit (48 + d) = int d" using d by (simp add: hex_digit_def)
  have "\<exists>r. input_loop 16 (map (\<lambda>d. 48 + d) ds) q = Some r \<and> bi_norm r \<and>
      bi_val r = foldl (\<lambda>a d. a * 16 + d) (bi_val q) ds"
    using Cons.prems(1,4) by (intro Cons.IH [OF _ q(2) b]) auto
  then show ?case using q h by simp
qed simp

definition be_val :: "u8 list \<Rightarrow> nat" where
  "be_val bs = foldl (\<lambda>a b. a * 256 + unat b) 0 bs"

lemma nibbles:
  "unat (drop_bit 4 (b :: u8)) = unat b div 16" "unat (b AND 0xF) = unat b mod 16"
proof -
  show "unat (drop_bit 4 b) = unat b div 16" by (simp only: unsigned_drop_bit_eq) (simp add: drop_bit_eq_div take_bit_nat_eq_self unat_u8_lt)
  have "b AND 0xF = take_bit 4 b" by (simp add: take_bit_eq_mask mask_eq_exp_minus_1)
  then show "unat (b AND 0xF) = unat b mod 16" by (simp only: unsigned_take_bit_eq) (simp add: take_bit_eq_mod)
qed

lemma InPutFromAddr_spec:
  assumes "length bs \<le> 128"
  shows "\<exists>r. InPutFromAddr bs = Some r \<and> bi_norm r \<and> bi_val r = be_val bs"
proof -
  define ds where "ds = concat (map (\<lambda>b. [unat (drop_bit 4 b), unat (b AND 0xF)]) bs)"
  have chars: "concat (map (\<lambda>b. [48 + unat (drop_bit 4 b), 48 + unat (b AND 0xF)]) bs) = map (\<lambda>d. 48 + d) ds"
    unfolding ds_def by (induction bs) auto
  have small: "\<forall>d \<in> set ds. d < 16"
  proof -
    have "unat (b :: u8) div 16 < 16" for b using unat_u8_lt [of b] by (simp add: less_mult_imp_div_less)
    then show ?thesis by (auto simp: ds_def nibbles)
  qed
  have len: "length ds = 2 * length bs" unfolding ds_def by (induction bs) auto
  have fold: "foldl (\<lambda>a d. a * 16 + d) a ds = foldl (\<lambda>a b. a * 256 + unat b) a bs" for a
    unfolding ds_def
  proof (induction bs arbitrary: a)
    case (Cons b bs)
    have "(a * 16 + unat b div 16) * 16 + unat b mod 16 = a * 256 + unat b" by (simp add: algebra_simps)
    then show ?case using Cons [of "a * 256 + unat b"] by (simp only: nibbles list.map concat.simps append.simps foldl_Cons foldl_Nil)
  qed simp
  show ?thesis
    using input_loop_hex [OF small init_BI_norm(1), of 0] init_BI_norm(2) assms len fold [of 0]
    by (auto simp: InPutFromAddr_def InPutFromStr_def chars be_val_def)
qed

section \<open>Bytes of words\<close>

definition le_val :: "u8 list \<Rightarrow> nat" where
  "le_val bs = foldr (\<lambda>b a. unat b + 256 * a) bs 0"

lemma le_val_Nil [simp]: "le_val [] = 0" by (simp add: le_val_def)

lemma le_val_Cons [simp]: "le_val (b # bs) = unat b + 256 * le_val bs" by (simp add: le_val_def)

lemma le_val_append: "le_val (bs @ cs) = le_val bs + 256 ^ length bs * le_val cs"
  by (induction bs) (auto simp: algebra_simps)

lemma le_val_zeros [simp]: "le_val (replicate n 0) = 0"
  by (induction n) auto

lemma be_val_append: "be_val (bs @ cs) = be_val bs * 256 ^ length cs + be_val cs"
proof -
  have "foldl (\<lambda>a b. a * 256 + unat b) a cs = a * 256 ^ length cs + foldl (\<lambda>a b. a * 256 + unat b) 0 cs" for a
  proof (induction cs arbitrary: a)
    case (Cons c cs)
    have "foldl (\<lambda>a b. a * 256 + unat b) (a * 256 + unat c) cs =
        a * 256 * 256 ^ length cs + (unat c * 256 ^ length cs + foldl (\<lambda>a b. a * 256 + unat b) 0 cs)"
      unfolding Cons [of "a * 256 + unat c"] add_mult_distrib by simp
    then show ?case unfolding Cons [of "unat c", symmetric] by simp
  qed simp
  note shift = this
  show ?thesis unfolding be_val_def foldl_append by (rule shift)
qed

lemma be_val_rev: "be_val (rev bs) = le_val bs"
proof (induction bs)
  case (Cons b bs)
  have "be_val [b] = unat b" by (simp add: be_val_def)
  then show ?case using Cons by (simp add: be_val_append)
qed (simp add: be_val_def)

lemma le_val_le32: "le_val (le32 w) = unat w"
proof -
  have b: "unat (ucast x :: u8) = unat x mod 256" for x :: u32
    by (simp add: unsigned_ucast_eq take_bit_eq_mod)
  have d: "unat (drop_bit n w) = unat w div 2 ^ n" for n
    by (simp only: unsigned_drop_bit_eq) (simp add: drop_bit_eq_div take_bit_nat_eq_self unat_u32_lt)
  define p q r where "p = unat w div 256" and "q = p div 256" and "r = q div 256"
  have "unat w div 65536 = q" "unat w div 16777216 = r" "r < 256"
    using unat_u32_lt [of w] by (simp_all add: p_def q_def r_def div_mult2_eq [symmetric] less_mult_imp_div_less)
  moreover have "256 * p + unat w mod 256 = unat w" "256 * q + p mod 256 = p" "256 * r + q mod 256 = q"
    unfolding p_def q_def r_def by simp_all
  ultimately show ?thesis by (simp add: le32_def b d p_def [symmetric])
qed

lemma le_val_words: "le_val (concat (map le32 ws)) = dval ws 0 (length ws)"
proof (induction ws)
  case (Cons w ws)
  have "dval (w # ws) 0 (Suc n) = unat w + 2 ^ 32 * dval ws 0 n" for n
    unfolding dval_def sum.atLeast0_lessThan_Suc_shift
    by (simp add: sum_distrib_left sum_distrib_right algebra_simps power_add)
  then show ?case using Cons by (simp add: le_val_append le_val_le32)
qed (simp add: dval_def)

lemma word_bytes_be_rev: "word_bytes_be w = rev (le32 w)"
proof -
  have "ucast (x AND 0xff) = (ucast x :: u8)" for x :: u32
    by (rule bit_word_eqI) (auto simp: bit_simps, (auto simp: less_Suc_eq numeral_eq_Suc bit_simps))
  then show ?thesis by (simp add: word_bytes_be_def le32_def)
qed

lemma OutPutToAddr_rev: "OutPutToAddr A True = rev (OutPutToAddr A False)"
  by (simp add: OutPutToAddr_def rev_concat rev_map word_bytes_be_rev [abs_def] comp_def)

lemma OutPutToAddr_le:
  assumes "bi_ok A"
  shows "le_val (OutPutToAddr A False) = bi_val A" "length (OutPutToAddr A False) = 4 * m_nLength A"
proof -
  have l: "length (take (m_nLength A) (m_ulValue A)) = m_nLength A" using bi_okD(2,4) [OF assms] by simp
  then show "le_val (OutPutToAddr A False) = bi_val A"
    using dval_cong [of 0 "m_nLength A" "take (m_nLength A) (m_ulValue A)" "m_ulValue A"]
    by (simp add: OutPutToAddr_def le_val_words bi_val_def)
  show "length (OutPutToAddr A False) = 4 * m_nLength A"
    using l by (simp add: OutPutToAddr_def length_concat comp_def sum_list_triv)
qed

text \<open>
  Reading a number from at most 128 big-endian bytes gives a normalised number with their value, and
  writing a normalised number of at most 32 words and reading it back gives the same number.
\<close>

theorem bi_addr_roundtrip:
  assumes "length bs \<le> 128" "bi_norm A" "m_nLength A \<le> 32"
  shows "(\<exists>r. InPutFromAddr bs = Some r \<and> bi_norm r \<and> bi_val r = be_val bs) \<and>
    InPutFromAddr (OutPutToAddr A True) = Some A"
proof -
  note o = OutPutToAddr_le [OF bi_normD [OF assms(2)]]
  have "be_val (OutPutToAddr A True) = bi_val A" "length (OutPutToAddr A True) \<le> 128"
    using o assms(3) by (simp_all add: OutPutToAddr_rev be_val_rev)
  then obtain r where "InPutFromAddr (OutPutToAddr A True) = Some r" "bi_norm r" "bi_val r = bi_val A"
    using InPutFromAddr_spec by metis
  then show ?thesis using bi_norm_inj [OF _ assms(2)] InPutFromAddr_spec [OF assms(1)] by auto
qed

theorem bi_addr_roundtrip_witness:
  "(\<exists>r. InPutFromAddr [0x12, 0xAB, 0xFF] = Some r \<and> bi_norm r \<and> bi_val r = 0x12ABFF) \<and>
   InPutFromAddr (OutPutToAddr (move_p 0x12ABFF) True) = Some (move_p 0x12ABFF)"
proof -
  have "be_val [0x12, 0xAB, 0xFF] = 0x12ABFF" by (simp add: be_val_def)
  then show ?thesis using bi_addr_roundtrip [of "[0x12, 0xAB, 0xFF]" "move_p 0x12ABFF"] by (simp add: move_p_norm)
qed

section \<open>Padding\<close>

lemma le_val_inj: "length bs = length cs \<Longrightarrow> le_val bs = le_val cs \<Longrightarrow> bs = cs"
proof (induction bs cs rule: list_induct2)
  case (Cons b bs c cs)
  have split: "x mod 256 = y mod 256 \<and> u = v" if "x < 256" "y < 256" "x + 256 * u = y + 256 * v" for x y u v :: nat
  proof -
    have "x = (x + 256 * u) mod 256" "y = (y + 256 * v) mod 256" using that(1,2) by simp_all
    then have "x = y" using that(3) by simp
    then show ?thesis using that(3) by simp
  qed
  have "unat b mod 256 = unat c mod 256 \<and> le_val bs = le_val cs"
    using split [of "unat b" "unat c" "le_val bs" "le_val cs"] unat_u8_lt [of b] unat_u8_lt [of c] Cons.prems by simp
  then show ?case using Cons.IH unat_u8_lt [of b] unat_u8_lt [of c] by (simp add: word_unat_eq_iff)
qed simp

lemma length_words: "length (concat (map le32 ws)) = 4 * length ws"
  by (induction ws) auto

lemma take_words: "take (4 * n) (concat (map le32 ws)) = concat (map le32 (take n ws))"
proof (induction ws arbitrary: n)
  case (Cons w ws)
  then show ?case by (cases n) simp_all
qed simp

lemma bi_bytes_ok:
  assumes "bi_ok A"
  shows "length (bi_bytes A) = 516" "le_val (bi_bytes A) = bi_val A"
  using bi_okD(2,4) [OF assms] bi_val_ext [OF assms, of 129]
  by (simp_all add: bi_bytes_def length_words le_val_words)

lemma bi_bytes_le:
  assumes "bi_ok A" "bi_val A = le_val bs" "length bs \<le> 516"
  shows "bi_bytes A = bs @ replicate (516 - length bs) 0"
  using bi_bytes_ok [OF assms(1)] assms(2,3) by (intro le_val_inj) (simp_all add: le_val_append)

lemma bytes_to_words_inverse: "length bs = 4 * n \<Longrightarrow> concat (map le32 (bytes_to_words bs)) = bs"
proof (induction n arbitrary: bs)
  case (Suc n)
  have d: "length (drop 4 bs) = 4 * n" using Suc.prems by simp
  have "bytes_to_words bs = le32_of (take 4 bs) # bytes_to_words (drop 4 bs)"
    using Suc.prems by (simp add: bytes_to_words_def map_upt_Suc del: upt_Suc) (simp add: add.commute)
  then show ?case using Suc.IH [OF d] Suc.prems le32_le32_of [of "take 4 bs"] by simp
qed (simp add: bytes_to_words_def)

declare find_header.simps [simp del]

lemma find_header_zeros:
  assumes "h = 0x1F \<or> h = 0x01" "j \<le> z"
  shows "find_header (pre @ h # replicate z 0) (length pre + j) = Some (length pre)"
  using assms(2)
proof (induction j)
  case (Suc j)
  have "(pre @ h # replicate z 0) ! (length pre + Suc j) = 0" using Suc.prems by (simp add: nth_append)
  then show ?case using Suc by (subst find_header.simps) simp
qed (use assms(1) in \<open>auto simp: nth_append find_header.simps\<close>)

lemma find_tail_ones:
  assumes "j \<le> k"
  shows "find_tail (dg @ 0 # replicate k 0xFF @ rest) (length dg + 1 + j) = Some (length dg)"
  using assms
proof (induction j)
  case (Suc j)
  have "(dg @ 0 # replicate k 0xFF @ rest) ! (length dg + 1 + j) = 0xFF" using Suc.prems by (simp add: nth_append)
  then show ?case using Suc by simp
qed (simp add: nth_append)

lemma rsa_strip_padded:
  assumes b: "bi_bytes A = dg @ 0 # replicate k 0xFF @ h # replicate z 0" "length (bi_bytes A) = 516"
    and h: "h = 0x1F \<or> h = 0x01" and d: "4 dvd length dg"
    and n: "length dg + k + 1 < 4 * m_nLength A" "4 * m_nLength A < 516"
  shows "\<exists>r. rsa_strip A = Some (0, r) \<and> OutPutToAddr r False = dg \<and>
    bi_bytes r = dg @ replicate (k + 1) 0 @ h # replicate z 0"
proof -
  let ?pre = "dg @ 0 # replicate k 0xFF" and ?out = "dg @ replicate (k + 1) 0 @ h # replicate z 0"
  have len: "length ?pre = length dg + k + 1" "length ?pre + 1 + z = 516" using b by (simp_all add: b)
  define hs where "hs = length dg + 1 + k"
  have fh: "find_header (bi_bytes A) (m_nLength A * 4) = Some hs"
    using find_header_zeros [OF h, of "m_nLength A * 4 - length ?pre" z ?pre] n len by (simp add: b(1) hs_def)
  have ft: "find_tail (bi_bytes A) hs = Some (length dg)"
    unfolding b(1) hs_def by (rule find_tail_ones) simp
  have cut: "take (length dg) (bi_bytes A) @ replicate (hs - length dg) 0 @ drop hs (bi_bytes A) = ?out"
    by (simp add: b(1) hs_def)
  define r where "r = A\<lparr>m_ulValue := bytes_to_words ?out, m_nLength := length dg div 4\<rparr>"
  have st: "rsa_strip A = Some (0, r)"
    using n(2) d b(2) by (simp add: rsa_strip_def fh ft cut r_def Let_def mult.commute)
  have lo: "length ?out = 4 * 129" using len by simp
  note inv = bytes_to_words_inverse [OF lo]
  have "bi_bytes r = ?out" using inv by (simp add: bi_bytes_def r_def)
  moreover have "OutPutToAddr r False = dg"
    using take_words [of "length dg div 4" "bytes_to_words ?out"] inv d by (simp add: OutPutToAddr_def r_def)
  ultimately show ?thesis using st by blast
qed

lemma rsa_strip_returns:
  assumes "bi_ok A" "m_nLength A \<le> 64"
  shows "\<exists>c r. rsa_strip A = Some (c, r)"
  using assms bi_bytes_ok [OF assms(1)] by (auto simp: rsa_strip_def Let_def split: option.splits)

lemma find_header_below: "(\<And>j. 0 < j \<Longrightarrow> j \<le> i \<Longrightarrow> ptr ! j = 0) \<Longrightarrow> find_header ptr i = Some l \<Longrightarrow> l = 0"
proof (induction i)
  case (Suc i)
  have "ptr ! Suc i = 0" using Suc.prems(1) by simp
  then have "find_header ptr i = Some l" using Suc.prems(2) by (subst (asm) find_header.simps) simp
  then show ?case using Suc by simp
qed (auto simp: find_header.simps split: if_splits)

lemma move_p_norm_long:
  assumes "2 ^ 32 \<le> b" "b < 2 ^ 64"
  shows "bi_norm (move_p b)" "bi_val (move_p b) = b" "m_nLength (move_p b) = 2"
proof -
  have i: "{0..<2::nat} = {0, 1}" by auto
  have "b div 2 ^ 32 < 2 ^ 32" "0 < b div 2 ^ 32" using assms by (simp_all add: less_mult_imp_div_less div_greater_zero_iff)
  then have hi: "unat (of_nat (b div 2 ^ 32) :: u32) = b div 2 ^ 32" "(of_nat (b div 2 ^ 32) :: u32) \<noteq> 0"
    by (simp_all add: unat_of_nat word_unat_eq_iff)
  have lo: "unat (of_nat b :: u32) = b mod 2 ^ 32" by (simp add: unat_of_nat)
  have m: "move_p b = init_BI\<lparr>m_nLength := 2, m_ulValue := (replicate 129 0)[1 := of_nat (b div 2 ^ 32), 0 := of_nat b]\<rparr>"
    using assms(1) by (simp add: move_p_def)
  show "m_nLength (move_p b) = 2" by (simp add: m)
  show "bi_norm (move_p b)" using hi(2) by (auto simp: m init_BI_def bi_norm_def bi_ok_def nth_list_update)
  show "bi_val (move_p b) = b" using hi(1) lo by (simp add: m bi_val_def dval_def i)
qed

text \<open>With the exponent 1 and a signature below the modulus nothing is subtracted.\<close>

lemma exp_clean_one:
  assumes M: "modulus M" and s: "residue M s" "bi_val s < bi_val M"
  shows "exp_clean M (move_p 1, s, move_p 1)"
proof -
  have one: "bi_norm (move_p 1)" "bi_val (move_p 1) = 1" "m_nLength (move_p 1) = 1" by (simp_all add: move_p_norm)
  have room: "m_nLength (move_p 1) + m_nLength s \<le> 128" using s(1) one(3) by (simp add: residue_def)
  have p1: "0 < bi_val (move_p 1)" using one(2) by simp
  note q = Mul_spec [OF one(1) p1 _ residue_pos [OF M s(1)] room]
  have sn: "bi_norm s" and mn: "bi_norm M" using s(1) M by (simp_all add: residue_def modulus_def)
  have nc: "\<not> Cmp (Mul (move_p 1) s) M > 0" using Cmp_val [OF q(1) mn] q(2) sn s(2) one(2) by simp
  have "r = Mul (move_p 1) s" if "mod_reach M (Mul (move_p 1) s) r" for r
    using that by (induction rule: mod_reach.induct) (use nc in auto)
  then have cl: "mod_clean M (Mul (move_p 1) s)"
    using nc by (auto simp: mod_clean_def)
  have st: "case t of (x, y, z) \<Rightarrow> t = (move_p 1, s, move_p 1) \<or> bi_norm z \<and> bi_val z = 0"
    if "exp_reach M (move_p 1, s, move_p 1) t" for t
    using that
  proof (induction rule: exp_reach.induct)
    case (exp_odd x y z z' x')
    have "odd (bi_val z)" using exp_odd.IH exp_odd.hyps(2) bi_val_parity bi_normD one by auto
    then have z: "z = move_p 1" using exp_odd.IH by auto
    then show ?case using Sub_p_odd [of z] one exp_odd.hyps(3) by auto
  next
    case (exp_even x y z y')
    have n: "bi_norm z" using exp_even.IH one(1) by auto
    have "even (bi_val z)" "bi_val z \<noteq> 0"
      using exp_even.hyps(2,3) bi_val_parity [OF bi_normD [OF n]] bi_zero_test [OF n] by simp_all
    then show ?case using exp_even.IH one(2) by auto
  qed simp
  show ?thesis unfolding exp_clean_def
  proof (intro allI impI)
    fix x y z assume "exp_reach M (move_p 1, s, move_p 1) (x, y, z)"
    from st [OF this] consider "x = move_p 1" "y = s" "z = move_p 1" | "bi_norm z" "bi_val z = 0" by auto
    then show "if m_ulValue z ! 0 AND 1 \<noteq> 0 then mod_clean M (Mul x y)
      else m_nLength z \<noteq> 1 \<or> m_ulValue z ! 0 \<noteq> 0 \<longrightarrow> mod_clean M (Mul y y)"
    proof cases
      case 1
      then show ?thesis using cl bi_val_parity [OF bi_normD [OF one(1)]] one(2) by simp
    next
      case 2
      then show ?thesis using bi_zero_test [OF 2(1)] bi_val_parity [OF bi_normD [OF 2(1)]] by simp
    qed
  qed
qed

text \<open>Verification of a padded digest.\<close>

lemma rsa_verify_digest:
  assumes M: "modulus M" and s: "residue M s" and e: "bi_norm e" "exp_clean M (move_p 1, s, e)"
    and h: "h = 0x1F \<or> h = 0x01" and d: "4 dvd length dg"
    and p: "bi_val s ^ bi_val e mod bi_val M = le_val (dg @ 0 # replicate k 0xFF @ [h])"
  shows "\<exists>r. rsa_verify (Some s) (Some e) (Some M) (Some out) = Some (0, Some r) \<and> OutPutToAddr r True = rev dg"
proof -
  obtain x where x: "Exp_Mod s e M = Some x" "residue M x" "bi_val x = le_val (dg @ 0 # replicate k 0xFF @ [h])"
    using Exp_Mod_spec [OF M s e] p by auto
  have n: "bi_ok x" "m_nLength x \<le> 64" using x(2) by (auto simp: residue_def bi_norm_def)
  have "1 \<le> unat h" using h by auto
  then have "256 ^ (length dg + k + 1) * 1 \<le> 256 ^ (length dg + k + 1) * unat h" by (rule mult_le_mono2)
  also have "\<dots> \<le> bi_val x"
    using le_val_append [of "dg @ 0 # replicate k 0xFF" "[h]"] by (simp add: x(3))
  also have "\<dots> < 256 ^ (4 * m_nLength x)" using bi_val_bound [of x] by (simp add: power_mult [of 2 32] power_mult [of 256 4])
  finally have "(256::nat) ^ (length dg + k + 1) < 256 ^ (4 * m_nLength x)" by simp
  then have l: "length dg + k + 1 < 4 * m_nLength x" by (rule power_less_imp_less_exp [rotated]) simp
  have "bi_bytes x = dg @ 0 # replicate k 0xFF @ h # replicate (516 - (length dg + k + 2)) 0"
    using bi_bytes_le [OF n(1) x(3)] l n(2) by simp
  from rsa_strip_padded [OF this bi_bytes_ok(1) [OF n(1)] h d l] n(2)
  obtain r where "rsa_strip x = Some (0, r)" "OutPutToAddr r False = dg" by auto
  then show ?thesis using x(1) by (simp add: rsa_verify_def OutPutToAddr_rev)
qed

text \<open>
  Verification recovers the digest: when the signature to the public exponent, modulo the modulus, is
  a number whose bytes from the least significant end are the digest, a zero, any number of 0xFF
  bytes and the header byte 0x01 or 0x1F, \<open>rsa_verify\<close> returns 0 and leaves a number that is
  written out, most significant byte first, as the digest reversed.
\<close>

theorem rsa_verify_recovers_digest:
  assumes M: "modulus M" and s: "residue M s" and e: "bi_norm e" "exp_clean M (move_p 1, s, e)"
    and h: "h = 0x1F \<or> h = 0x01" and d: "4 dvd length dg"
    and p: "bi_val s ^ bi_val e mod bi_val M = le_val (dg @ 0 # replicate k 0xFF @ [h])"
  shows "\<exists>r. rsa_verify (Some s) (Some e) (Some M) (Some out) = Some (0, Some r) \<and> OutPutToAddr r True = rev dg"
  by (rule rsa_verify_digest [OF assms])

theorem rsa_verify_recovers_digest_witness:
  "\<exists>r. rsa_verify (Some (move_p 0x10044332211)) (Some (move_p 1)) (Some (move_p 0x10044332212)) (Some init_BI) =
       Some (0, Some r) \<and> OutPutToAddr r True = [0x44, 0x33, 0x22, 0x11]"
proof -
  let ?M = "move_p 0x10044332212" and ?s = "move_p 0x10044332211"
  have v: "bi_norm ?M" "bi_val ?M = 0x10044332212" "m_nLength ?M = 2"
    "bi_norm ?s" "bi_val ?s = 0x10044332211" "m_nLength ?s = 2"
    using move_p_norm_long by simp_all
  have m: "modulus ?M" by (simp add: modulus_def v)
  have "coprime (0x10044332211 :: nat) (Suc 0x10044332211)" by (rule coprime_Suc_right_nat)
  then have r: "residue ?M ?s" by (simp add: residue_def v)
  have c: "exp_clean ?M (move_p 1, ?s, move_p 1)" by (rule exp_clean_one [OF m r]) (simp add: v)
  have four: "(4::nat) dvd Suc (Suc (Suc (Suc 0)))" by presburger
  show ?thesis
    using rsa_verify_recovers_digest [OF m r _ c, of 1 "[0x11, 0x22, 0x33, 0x44]" 0 init_BI] four by (simp add: v move_p_norm)
qed



end
