(* ===== verification/Rsa_Dev.thy ===== *)
theory Rsa_Dev
  imports Rsa_Props Chardev
begin

text \<open>
  The RSA device file (\<open>arch/mips/realtek-boards/drivers/mcp/mcp_rsa_dev.c\<close>): numbers are copied from user memory, verified with
  \<open>rsa_verify\<close> and the digest copied back. The state is user memory and the count of numbers that are allocated. A number whose length field is not between 1 and 129 is used
  by the routines without a check; what they do then is not modelled and counts as \<open>None\<close>.
\<close>

section \<open>Numbers in user memory\<close>

abbreviation (input) SIZEOF_BI :: nat where "SIZEOF_BI \<equiv> 524"
abbreviation (input) MCP_RSA_IOCTL_VERIFY :: nat where "MCP_RSA_IOCTL_VERIFY \<equiv> 0x10"

definition BI_image :: "BI \<Rightarrow> u8 list" where
  "BI_image A = le32 (of_int (m_nSign A)) @ le32 (of_nat (m_nLength A)) @ bi_bytes A"

definition get_BI :: "mem \<Rightarrow> nat \<Rightarrow> BI option" where
  "get_BI u a =
     (let n = sint (load32 u (a + 4)) in
      if 1 \<le> n \<and> n \<le> int BI_MAXLEN
      then Some \<lparr>m_nSign = sint (load32 u a), m_nLength = nat n, m_ulValue = bytes_to_words (load u (a + 8) (4 * BI_MAXLEN))\<rparr>
      else None)"

section \<open>The ioctl\<close>

record RSA_VERIFY =
  rv_signature :: nat
  rv_pub_exp :: nat
  rv_mod :: nat
  rv_dgst :: nat

text \<open>The string \<open>FFFFFFFFFFFFFFFF\<close>.\<close>

definition DEF_RSA_MOD :: "nat list" where
  "DEF_RSA_MOD = replicate 16 70"

text \<open>\<open>get_fault\<close> and \<open>put_left\<close> say how copies from and to the user end. The count is that of the numbers allocated.\<close>

definition rsa_dev_do_rsa_verify ::
  "(nat \<Rightarrow> nat \<Rightarrow> bool) \<Rightarrow> (nat \<Rightarrow> nat \<Rightarrow> nat) \<Rightarrow> RSA_VERIFY \<Rightarrow> mem \<times> nat \<Rightarrow> (int \<times> mem \<times> nat) option" where
  "rsa_dev_do_rsa_verify get_fault put_left rsa un =
     (let (u, n) = un in
      if rv_dgst rsa = 0 then Some (- EFAULT, u, n + 1)
      else if rv_signature rsa = 0 \<or> get_fault (rv_signature rsa) SIZEOF_BI then Some (- EFAULT, u, n)
      else if rv_pub_exp rsa \<noteq> 0 \<and> get_fault (rv_pub_exp rsa) SIZEOF_BI then Some (- EFAULT, u, n)
      else if rv_mod rsa \<noteq> 0 \<and> get_fault (rv_mod rsa) SIZEOF_BI then Some (- EFAULT, u, n)
      else do {
        signature \<leftarrow> get_BI u (rv_signature rsa);
        pub_exp \<leftarrow> (if rv_pub_exp rsa \<noteq> 0 then get_BI u (rv_pub_exp rsa) else Some (move_p 65537));
        md \<leftarrow> (if rv_mod rsa \<noteq> 0 then get_BI u (rv_mod rsa) else InPutFromStr DEF_RSA_MOD 16);
        (ret, dgst) \<leftarrow> rsa_verify (Some signature) (Some pub_exp) (Some md) (Some init_BI);
        d \<leftarrow> dgst;
        let left = put_left (rv_dgst rsa) SIZEOF_BI;
        Some (if left \<noteq> 0 then - EFAULT else ret, store (rv_dgst rsa) (take (SIZEOF_BI - left) (BI_image d)) u, n)
      })"

definition rsa_dev_ioctl ::
  "(nat \<Rightarrow> nat \<Rightarrow> bool) \<Rightarrow> (nat \<Rightarrow> nat \<Rightarrow> nat) \<Rightarrow> nat \<Rightarrow> nat \<Rightarrow> mem \<times> nat \<Rightarrow> (int \<times> mem \<times> nat) option" where
  "rsa_dev_ioctl get_fault put_left cmd arg un =
     (if cmd = MCP_RSA_IOCTL_VERIFY then
        if get_fault arg 16 then Some (- EFAULT, un)
        else
          let u = fst un;
              rsa_v = \<lparr>rv_signature = unat (load32 u arg), rv_pub_exp = unat (load32 u (arg + 4)), rv_mod = unat (load32 u (arg + 8)),
                rv_dgst = unat (load32 u (arg + 12))\<rparr>
          in rsa_dev_do_rsa_verify get_fault put_left rsa_v un
      else Some (- EFAULT, un))"

section \<open>The module\<close>

text \<open>The only minor number is 0.\<close>

definition rsa_dev_init :: "mod_env \<Rightarrow> chr_res \<Rightarrow> int \<times> chr_res" where
  "rsa_dev_init env r =
     (if region_result env \<noteq> 0 then (- EFAULT, r)
      else
        let r = r\<lparr>region := True\<rparr> in
        if cdev_result env 0 < 0 then (- EFAULT, r)
        else (0, r\<lparr>cdevs := 0 # cdevs r, dev_files := 0 # dev_files r\<rparr>))"

definition rsa_dev_exit :: "chr_res \<Rightarrow> chr_res" where
  "rsa_dev_exit r = r\<lparr>cdevs := remove1 0 (cdevs r), dev_files := remove1 0 (dev_files r), region := False\<rparr>"

section \<open>Properties\<close>

lemma words_to_bytes: "bytes_to_words (concat (map le32 ws)) = ws"
proof (induction ws)
  case (Cons w ws)
  let ?bs = "concat (map le32 ws)"
  have l: "length (concat (map le32 vs)) = 4 * length vs" for vs by (induction vs) simp_all
  have "bytes_to_words (le32 w @ ?bs) = le32_of (le32 w) # bytes_to_words ?bs"
    by (simp add: bytes_to_words_def l map_upt_Suc del: upt_Suc)
  then show ?case using Cons by simp
qed (simp add: bytes_to_words_def)

text \<open>A number that is stored in memory is read back.\<close>

lemma get_BI_image:
  assumes "bi_ok A" "load u a 524 = BI_image A" shows "get_BI u a = Some A"
proof -
  have A: "m_nSign A = 1" "length (m_ulValue A) = 129" "1 \<le> m_nLength A" "m_nLength A \<le> 129" using assms(1) by (auto simp: bi_ok_def)
  have "load u a 4 @ load u (a + 4) 4 @ load u (a + 8) 516 = le32 1 @ le32 (of_nat (m_nLength A)) @ bi_bytes A"
    using assms(2) A(1) load_append [of u a 4 520] load_append [of u "a + 4" 4 516] by (simp add: BI_image_def add.commute)
  then have l: "load u a 4 = le32 1" "load u (a + 4) 4 = le32 (of_nat (m_nLength A))" "load u (a + 8) 516 = bi_bytes A" by simp_all
  have n: "sint (of_nat (m_nLength A) :: u32) = int (m_nLength A)"
    using A(4) by (simp add: signed_of_nat signed_take_bit_int_eq_self_iff)
  have "bytes_to_words (bi_bytes A) = m_ulValue A" by (simp add: bi_bytes_def words_to_bytes)
  then show ?thesis using l n A by (cases A) (simp add: get_BI_def load32_def)
qed


lemma length_BI_image: "bi_ok A \<Longrightarrow> length (BI_image A) = 524"
  by (simp add: BI_image_def bi_bytes_ok(1))

lemma load32_words:
  assumes "load u a 16 = concat (map le32 ws)" "i < 4" "length ws = 4" shows "load32 u (a + 4 * i) = ws ! i"
proof -
  have "load u (a + 4 * i) 4 = take 4 (drop (4 * i) (concat (map le32 ws)))" using load_sub [of "4 * i" 4 16 u a] assms(1,2) by simp
  moreover have "bytes_to_words (concat (map le32 ws)) ! i = le32_of (take 4 (drop (4 * i) (concat (map le32 ws))))"
    using assms(2,3) by (simp add: bytes_to_words_def length_concat comp_def sum_list_triv)
  ultimately show ?thesis by (simp add: load32_def words_to_bytes)
qed


text \<open>
  Without a place for the digest the number allocated for it at the start is lost. A failing \<open>cdev_add\<close> keeps the device numbers.
\<close>

theorem rsa_dev_leaks:
  "rsa_dev_ioctl (\<lambda>_ _. False) pl MCP_RSA_IOCTL_VERIFY arg ((\<lambda>_. 0), n) = Some (- EFAULT, (\<lambda>_. 0), n + 1)"
  "region_result env = 0 \<Longrightarrow> cdev_result env 0 < 0 \<Longrightarrow> rsa_dev_init env r = (- EFAULT, r\<lparr>region := True\<rparr>)"
proof -
  have "load32 (\<lambda>_. 0) a = 0" for a by (simp add: load32_def load_def le32_of_def)
  then show "rsa_dev_ioctl (\<lambda>_ _. False) pl MCP_RSA_IOCTL_VERIFY arg ((\<lambda>_. 0), n) = Some (- EFAULT, (\<lambda>_. 0), n + 1)"
    by (simp add: rsa_dev_ioctl_def rsa_dev_do_rsa_verify_def)
  show "region_result env = 0 \<Longrightarrow> cdev_result env 0 < 0 \<Longrightarrow> rsa_dev_init env r = (- EFAULT, r\<lparr>region := True\<rparr>)" by (simp add: rsa_dev_init_def)
qed

end
