(* ===== verification/Spec2Isabelle.thy ===== *)
theory Spec2Isabelle
  imports Rpc_Props Ci_Props Md_Props Cec_Dev_Props Scd_Dev_Props Mcp_Digest_Props Ir_Props Vfd_Props I2c_Props Rsa_Dev
begin

text \<open>
  \<^bold>\<open>Verification of the platform layer of Open-HMR600\<close>

  The repository is the firmware of a media recorder: a Linux 2.6.12 kernel with the platform code for
  the Realtek Venus/Mars system on chip, and busybox. The platform code is the program verified here;
  the stock kernel and busybox are what it runs on. The target is a 32-bit little-endian MIPS with a
  single processor and \<open>HZ = 100\<close>. Paths below are relative to \<open>src/Src/linux-2.6.12\<close>; \<open>R\<close> stands for
  \<open>arch/mips/realtek-boards/drivers\<close>.

  \<^bold>\<open>The parts and how they interact.\<close> The main processor talks to the audio and video processors through
  the RPC rings in shared memory. The common-interface driver talks to
  conditional-access modules through the PCMCIA controller: it validates a module, negotiates a link, and passes messages in
  fragments between the module and processes, keeping received ones in a DVB ring buffer. CEC, smart card and crypto engine exchange messages in their
  own buffers, queued on kernel lists. The CEC adapter moves its buffers between a transmit queue, a
  receive queue and a free list, driven by interrupts and work items. The smart card interface drives a card through reset to the
  active state, using the parser of the answer to reset and smart card buffers. Both hang on buses of the driver core, which binds
  their devices to their drivers, and each has a core with a table of device nodes through which processes reach it. The crypto driver
  programs an engine with descriptors; cipher and digest contexts cut messages into blocks for it, and device
  files offer both to processes. RSA signatures are verified in software with a big-integer library. The move-data engine copies memory on command.

  \<^bold>\<open>Theories.\<close>
  \<^item> \<open>Prelude\<close>: machine types, errno values, byte-addressed memory, and the lemmas on lists, ring
    positions and words that the components share.
  \<^item> \<open>Fifo\<close>: the contract of a bounded byte queue (locale \<open>byte_fifo\<close>) and its stream theorem: under
    any sequence of puts and gets no byte is lost, duplicated or reordered.
  \<^item> \<open>Rpc\<close>, \<open>Rpc_Props\<close>: \<open>R/RPCDriver.c\<close>, \<open>RPCpoll.c\<close>, \<open>RPCintr.c\<close>, \<open>RPCkern.c\<close>. A ring is the record
    \<open>rpc_dev\<close>; each file operation is the function of the same name on memory and ring. The polled and
    the interrupt-driven rings are interpretations of \<open>byte_fifo\<close> at a granularity of four bytes.
    Further properties: the kernel RPC call and its reply, blocking reads, initialisation, the interrupt
    handler, and the overrun for lengths that fit only before rounding up.
  \<^item> \<open>Dvb_Ringbuffer\<close>, \<open>Dvb_Packets\<close>: \<open>drivers/ci/dvb_ringbuffer.c\<close>. The byte ring is a \<open>byte_fifo\<close>; the
    packet layer refines a list of packets with a status each.
  \<^item> \<open>Pcmcia\<close>: \<open>drivers/ci/pcmcia.c\<close>. The registers are an argument (record \<open>bus\<close>) together with the interrupts that come
    during an access; calls of the registered handler are recorded in order.
  \<^item> \<open>Ci\<close>: \<open>drivers/ci/ci.c\<close>. The state \<open>ci_sys\<close> holds the slots (\<open>dvb_ca_private\<close>) and the state behind the controller, whose
    operations are the record \<open>cam\<close>; \<open>pc_cam\<close> gives them for \<open>Pcmcia\<close>. Slot states, link layer, attribute memory, events, the thread,
    and the device file are functions of the same names.
  \<^item> \<open>Ci_Read\<close>: the ring of a slot as the list of its fragments (\<open>slot_rep\<close>); a read implements \<open>link_read\<close> on it.
  \<^item> \<open>Ci_Link\<close>: transfers as sequences of accesses (\<open>plays\<close>), and messages as \<open>fragments\<close>.
  \<^item> \<open>Ci_Safe\<close>, \<open>Ci_Inv\<close>: locales \<open>cam_total\<close> (every access ends) and \<open>cam_safe\<close> (resets and sleeps, too), interpreted on the controller
    for arbitrary registers; the invariant \<open>ci_wf\<close> of the slots, kept by every operation, and the step relation \<open>ci_step\<close>.
  \<^item> \<open>Ci_Cis\<close>: the parser of the attribute memory against \<open>cis_parse\<close> on lists of tuples.
  \<^item> \<open>Ci_Props\<close>: the properties: reads take messages, writes send fragments, messages come back, reachable states are
    safe, the parser is correct, changes of a slot are handled to the last; and four failures: the lost end of an access, the
    second card, the endless write, and the poll of an idle module.
  \<^item> \<open>Klist\<close>: the circular lists of \<open>include/linux/list.h\<close> as maps of next and previous pointers, and
    the sequence of nodes they represent.
  \<^item> \<open>Msg_Buffers\<close>: \<open>drivers/cec/core/cm_buff.c\<close>, \<open>drivers/smartcard/core/scd_buff.c\<close>, \<open>R/mcp/mcp_buff.c\<close>.
    Two locales, \<open>msg_buffer\<close> (payload growing and shrinking at both ends of a region) and
    \<open>buffer_queue\<close> (a double-ended queue), are interpreted on the buffers and queues of the drivers.
  \<^item> \<open>Cec\<close>, \<open>Cec_Props\<close>: \<open>drivers/cec/adapter/cec_mars.c\<close>. The state \<open>cec_sys\<close> holds the adapter, its three
    queues in list memory, the live buffers and the registers. The step relation \<open>cec_step\<close> interleaves
    interrupts, work items, hardware and calls; in every reachable state each buffer has one owner and no
    handler meets a freed one. Messages are sent and received byte for byte, disabling
    completes what waits to be sent, and the line driver that disabling leaves set is a theorem too.
  \<^item> \<open>Driver_Core\<close>: the part of \<open>drivers/base/bus.c\<close>, \<open>core.c\<close> and \<open>driver.c\<close> that binds devices and drivers (record \<open>drv_bus\<close>). Locale
    \<open>bus_client\<close> is the contract of the callbacks \<open>probe\<close> and \<open>remove\<close>; from it follows that in every reachable state the lists are consistent, bound devices are
    ready, and each registration call returns, the loop of \<open>driver_detach\<close> included.
  \<^item> \<open>Dev_Nodes\<close>: the table of nodes that \<open>cec_dev.c\<close> and \<open>scd_dev.c\<close> keep with the same code.
  \<^item> \<open>Cec_Dev\<close>, \<open>Cec_Dev_Props\<close>: \<open>drivers/cec/core/cec_core.c\<close>, \<open>cec_dev.c\<close>, the driver table and module of \<open>cec_mars.c\<close>, and
    \<open>arch/mips/realtek-boards/mars/cec.c\<close>. The client of the bus is \<open>cec_client\<close>, around the state of \<open>Cec\<close>; it is an interpretation of \<open>bus_client\<close>.
    Loading the module gives a usable node, messages pass unchanged between user memory and the queues, unloading leaves the node behind.
  \<^item> \<open>Scd_Dev\<close>, \<open>Scd_Dev_Props\<close>: \<open>drivers/smartcard/core/scd_core.c\<close>, \<open>scd_dev.c\<close>, \<open>adapter/scd_mars.c\<close>, in the same way around the states of \<open>Scd_Mars\<close>,
    one for each channel. Writes and reads through a node, the write that is cut short, and the divisions by zero that a caller can cause.
  \<^item> \<open>Scd_Atr\<close>: \<open>drivers/smartcard/core/scd_atr.c\<close> against the layout of an answer to reset.
  \<^item> \<open>Scd_Mars\<close>, \<open>Scd_Props\<close>: \<open>drivers/smartcard/adapter/scd_mars_priv.c\<close>. The step relation \<open>scd_step\<close>
    interleaves card events, timer ticks and calls; every reachable state satisfies the invariant, and
    every step implements a step of the abstract protocol \<open>card_step\<close>. A reset returns, and an answer
    that arrives in pieces is handed out as sent.
  \<^item> \<open>Bi\<close>, \<open>Bi_Val\<close>, \<open>Bi_Mod\<close>, \<open>Bi_Props\<close>, \<open>Rsa_Props\<close>: \<open>R/mcp/bi.c\<close> and \<open>R/mcp/rsa.c\<close>. Each routine is
    related to arithmetic on the value \<open>bi_val\<close>, up to modular powers, byte strings and the RSA check.
    Subtraction loses a borrow that meets a zero word: the exact condition is part of the statements,
    and the failure is a theorem of its own.
  \<^item> \<open>Md\<close>, \<open>Md_Props\<close>: \<open>R/md.c\<close>. The command ring refines a queue of words consumed by the engine; handles
    are compared across the wrap of the hardware counter; copies are cut into lengths the engine
    handles; finished requests are released in order.
  \<^item> \<open>Mcp\<close>, \<open>Mcp_Cipher\<close>, \<open>Mcp_Props\<close>: \<open>R/mcp.c\<close>, \<open>R/mcp/mcp_cipher.c\<close>, \<open>aes.c\<close>, \<open>des.c\<close>, \<open>tdes.c\<close>,
    \<open>mcp_cipher_dev.c\<close>. The engine is an argument; \<open>mcp_sys\<close> holds memory, the register writes and the descriptors handed over. The
    contexts are equivalent to the textbook modes (\<open>mode_run\<close>) for every division of the message into
    pieces, and decryption inverts encryption. Three error properties: user updates that are processed in
    place, time-outs that count as success, and descriptors read from wrong addresses.
  \<^item> \<open>Mcp_Digest\<close>, \<open>Mcp_Digest_Props\<close>: \<open>R/mcp/mcp_dgst.c\<close>, \<open>aes_h.c\<close>, \<open>sha1.c\<close>, \<open>mcp_dgst_dev.c\<close>. The steps common to the
    algorithms take a record of what differs. Locale \<open>digest_alg\<close> is the contract of an algorithm and
    \<open>software_md\<close> extends it to an entry of the digest table; both are interpreted for AES-H and SHA-1.
    Digests of user data in pieces are the chaining over the padded message.

  \<^bold>\<open>Modelling conventions.\<close> Structures are records with the fields of the source, operations are functions
  with the state passed explicitly, and the results are the C results (negative errno values
  included). Unsigned fields are words of their width where wrap-around can occur; addresses and ring
  positions are natural numbers with their bounds in the well-formedness predicates. \<open>None\<close> stands for
  an access outside an array, a null pointer, a division by zero, or a wait or loop that does not end.
  Semaphores and spinlocks make operations atomic on the single processor; what may happen while an
  operation sleeps or polls is an argument of it: a list of wake-ups (\<open>rpc_intr_wait\<close>), later memories
  (\<open>rpc_sync_wait\<close>), the engine's \<open>step\<close> (\<open>Md\<close>), \<open>env\<close> (\<open>mars_scd_reset\<close>), the field \<open>cec_sleep\<close> or \<open>scd_sleep\<close> of an environment, or interrupts (\<open>bus\<close>). The operations of the common interface are
  atomic against each other; the interrupts of an access act on the controller. Failure of user copies and of
  allocations is an argument as well. Loops that may not end are partial functions with values in
  \<open>option\<close>; where the code is meant to return, a property states that it does. There is no fuel.

  \<^bold>\<open>Assumptions of the properties.\<close> They are hypotheses of the theorems: ring pointers within their area,
  an engine that moves its read pointer towards the write pointer and reaches it (\<open>smq_moves\<close>,
  \<open>smq_drains\<close>), time that advances while a reset sleeps, a
  crypto engine that finishes and applies a block function in the mode of the descriptor (\<open>engine_runs\<close>, \<open>engine_ciphers\<close>,
  \<open>engine_hashes\<close>), buffers that do not overlap, a module that takes part in the transfers (\<open>plays\<close>) or whose attribute memory is
  fixed (\<open>attr_mem\<close>), and for the device files allocation that delivers unused addresses (\<open>cec_env_ok\<close>, \<open>scd_env_ok\<close>). The invariant of the common interface needs none of these. Witness theorems apply each
  property to concrete inputs.

  \<^bold>\<open>Not modelled.\<close> Of the driver core names in \<open>sysfs\<close>, reference counts and power management; the numbers of character devices.
  The RSA device file, the streaming engine, flash, infrared and board set-up code: register programming and kernel
  registration calls, or drivers not covered yet. Text output (\<open>printk\<close>, dump functions) has no effect
  on the state, \<open>rtdpc_dump_cis\<close> included. In \<open>md.c\<close> the address checks that only the disabled device file uses are left
  out, in \<open>bi.c\<close> the textual output. The rest of the stock kernel and busybox are vendored code.
\<close>

end
